(* ===== verification/Go_Prelude.thy ===== *)
theory Go_Prelude
  imports Main "HOL-Library.Word"
begin

text \<open>
  Shared vocabulary of the development: Go's fixed-width integers and byte slices, the three ways
  a Go call can end (a value, an error value, a run-time panic), checked indexing and slicing,
  big-endian reads and writes, and the small list lemmas the components share.

  A Go \<open>string\<close> is a sequence of bytes and so is Isabelle's \<^typ>\<open>string\<close> (a \<^typ>\<open>char\<close> has
  eight bits), so Go strings are modelled by \<^typ>\<open>string\<close> without loss. A \<open>[]byte\<close> is a
  \<open>byte list\<close>. Go's \<open>int\<close> is modelled by \<^typ>\<open>nat\<close> where the code keeps it in the range of a
  slice index and by \<^typ>\<open>int\<close> with an explicit \<open>wrap64\<close> where configured values enter arithmetic.
\<close>

unbundle bit_operations_syntax

type_synonym byte = "8 word"
type_synonym bytes = "byte list"
type_synonym u16 = "16 word"
type_synonym u32 = "32 word"
type_synonym u64 = "64 word"

named_theorems go_simps \<open>unfolding rules of the Go run-time vocabulary\<close>

section \<open>Outcomes of a Go call\<close>

datatype ('e, 'a) outcome = Ret 'a | Fail 'e | Panic

fun obind :: "('e, 'a) outcome \<Rightarrow> ('a \<Rightarrow> ('e, 'b) outcome) \<Rightarrow> ('e, 'b) outcome" where
  "obind (Ret x) f = f x"
| "obind (Fail e) f = Fail e"
| "obind Panic f = Panic"

lemma obind_cong [fundef_cong]:
  "m = m' \<Longrightarrow> (\<And>x. m' = Ret x \<Longrightarrow> f x = g x) \<Longrightarrow> obind m f = obind m' g"
  by (cases m') auto

lemma obind_assoc [simp]: "obind (obind m f) g = obind m (\<lambda>x. obind (f x) g)"
  by (cases m) auto

lemma obind_Ret_conv: "obind m f = Ret y \<longleftrightarrow> (\<exists>x. m = Ret x \<and> f x = Ret y)"
  by (cases m) auto

lemma obind_Panic_conv: "obind m f = Panic \<longleftrightarrow> m = Panic \<or> (\<exists>x. m = Ret x \<and> f x = Panic)"
  by (cases m) auto

section \<open>Lists of keyed entries\<close>

lemma distinct_fst_eq: "distinct (map fst xs) \<Longrightarrow> x \<in> set xs \<Longrightarrow> y \<in> set xs \<Longrightarrow> fst x = fst y \<Longrightarrow> x = y"
  by (auto simp: distinct_map inj_on_def)

lemma filter_single:
  "distinct (map fst xs) \<Longrightarrow> x \<in> set xs \<Longrightarrow> filter (\<lambda>y. fst y = fst x) xs = [x]"
  by (induction xs) (auto simp: filter_empty_conv image_iff)

section \<open>Checked indexing and slicing\<close>

text \<open>\<open>xs[i]\<close> and \<open>xs[lo:hi]\<close>: out of range is a run-time panic.\<close>

definition index :: "'a list \<Rightarrow> nat \<Rightarrow> ('e, 'a) outcome" where
  "index xs i = (if i < length xs then Ret (xs ! i) else Panic)"

definition gslice :: "'a list \<Rightarrow> nat \<Rightarrow> nat \<Rightarrow> ('e, 'a list) outcome" where
  "gslice xs lo hi = (if lo \<le> hi \<and> hi \<le> length xs then Ret (take (hi - lo) (drop lo xs)) else Panic)"

lemma index_in_range [go_simps]: "i < length xs \<Longrightarrow> index xs i = Ret (xs ! i)"
  by (simp add: index_def)

lemma gslice_in_range [go_simps]:
  "lo \<le> hi \<Longrightarrow> hi \<le> length xs \<Longrightarrow> gslice xs lo hi = Ret (take (hi - lo) (drop lo xs))"
  by (simp add: gslice_def)

section \<open>Signed 64-bit arithmetic\<close>

text \<open>The value a Go \<open>int\<close>/\<open>int64\<close> holds after an arithmetic operation with true result \<open>x\<close>.\<close>

definition wrap64 :: "int \<Rightarrow> int" where
  "wrap64 x = (x + 2 ^ 63) mod 2 ^ 64 - 2 ^ 63"

definition in_int64 :: "int \<Rightarrow> bool" where
  "in_int64 x \<longleftrightarrow> - (2 ^ 63) \<le> x \<and> x < 2 ^ 63"

lemma wrap64_id [simp]: "in_int64 x \<Longrightarrow> wrap64 x = x"
  by (simp add: wrap64_def in_int64_def)

lemma wrap64_range [simp]: "in_int64 (wrap64 x)"
  by (simp add: wrap64_def in_int64_def)

section \<open>Big-endian integers\<close>

text \<open>\<open>binary.BigEndian.Uint16\<close> on the two bytes at an offset, and \<open>PutUint16\<close>.\<close>

definition be16 :: "byte \<Rightarrow> byte \<Rightarrow> u16" where
  "be16 hi lo = push_bit 8 (ucast hi) OR ucast lo"

definition put16 :: "u16 \<Rightarrow> bytes" where
  "put16 w = [ucast (drop_bit 8 w), ucast w]"

definition uint16_at :: "bytes \<Rightarrow> nat \<Rightarrow> ('e, u16) outcome" where
  "uint16_at b i = obind (gslice b i (i + 2)) (\<lambda>s. Ret (be16 (s ! 0) (s ! 1)))"

lemma be16_put16 [simp]: "be16 (ucast (drop_bit 8 w)) (ucast w) = w"
  unfolding be16_def
  by (rule bit_word_eqI) (auto simp: bit_simps not_less; fail)

lemma not_bit_byte: "8 \<le> n \<Longrightarrow> \<not> bit (b :: byte) n"
  using bit_imp_le_length [of b n] by auto

lemma put16_be16 [simp]: "put16 (be16 hi lo) = [hi, lo]"
  unfolding be16_def put16_def
  by (auto intro!: bit_word_eqI simp: bit_simps not_bit_byte)

lemma length_put16 [simp]: "length (put16 w) = 2"
  by (simp add: put16_def)

text \<open>Reading at an offset at which the rest of the buffer is known.\<close>

lemma index_drop: "drop i b = x # rest \<Longrightarrow> index b i = Ret x"
  using nth_via_drop [of i b x rest] by (cases "i < length b") (simp_all add: index_def)

lemma uint16_at_drop:
  assumes "drop i b = put16 w @ rest"
  shows "uint16_at b i = Ret w"
proof -
  have "i + 2 \<le> length b" using arg_cong [OF assms, of length] by simp
  with assms show ?thesis by (simp add: uint16_at_def gslice_def put16_def)
qed

lemma drop_step: "drop i b = xs @ rest \<Longrightarrow> n = length xs \<Longrightarrow> drop (i + n) b = rest"
  by (metis append_eq_conv_conj add.commute drop_drop)

lemma drop_length: "drop i b = rest \<Longrightarrow> i \<le> length b \<Longrightarrow> length b = i + length rest"
  by auto

section \<open>Readers\<close>

text \<open>
  \<open>io.ReadFull\<close> on a byte stream: \<open>n\<close> bytes or an error, \<open>io.EOF\<close> when nothing was read and
  \<open>io.ErrUnexpectedEOF\<close> when the stream ended early. The rest of the stream is returned too.
\<close>

datatype io_error = EOF | ErrUnexpectedEOF

definition ReadFull :: "nat \<Rightarrow> bytes \<Rightarrow> io_error + bytes \<times> bytes" where
  "ReadFull n r =
     (if n \<le> length r then Inr (take n r, drop n r)
      else if r = [] then Inl EOF else Inl ErrUnexpectedEOF)"

lemma ReadFull_append [simp]: "n = length xs \<Longrightarrow> ReadFull n (xs @ ys) = Inr (xs, ys)"
  by (simp add: ReadFull_def)

lemma uint16_at_in_range [go_simps]:
  "i + 2 \<le> length b \<Longrightarrow> uint16_at b i = Ret (be16 (b ! i) (b ! (i + 1)))"
  by (simp add: uint16_at_def gslice_def)

text \<open>Updating one position of a list whose elements all have a property.\<close>

lemma list_all_update: "list_all P xs \<Longrightarrow> P x \<Longrightarrow> list_all P (xs[i := x])"
  by (auto simp: list_all_iff dest!: set_update_subset_insert [THEN subsetD])

end
