(* ===== verification/Ip_Keys.thy ===== *)
theory Ip_Keys
  imports Go_Strings
begin

text \<open>
  \<open>pkg/spoofdpi/internal/netutil/key.go\<close>: fixed-size cache keys for addresses and NAT tuples. A
  \<open>net.IP\<close> is a byte slice of any length; \<open>To4\<close> and \<open>To16\<close> are the conversions of package \<open>net\<close>.
\<close>

type_synonym net_IP = bytes

definition v4InV6Prefix :: bytes where
  "v4InV6Prefix = replicate 10 0 @ [0xff, 0xff]"

definition To4 :: "net_IP \<Rightarrow> net_IP option" where
  "To4 ip =
     (if length ip = 4 then Some ip
      else if length ip = 16 \<and> take 12 ip = v4InV6Prefix then Some (drop 12 ip)
      else None)"

definition To16 :: "net_IP \<Rightarrow> net_IP option" where
  "To16 ip =
     (if length ip = 4 then Some (v4InV6Prefix @ ip)
      else if length ip = 16 then Some ip
      else None)"

section \<open>Keys\<close>

type_synonym IPKey = bytes

record NATKey =
  SrcIP :: bytes
  SrcPort :: u16
  DstIP :: bytes
  DstPort :: u16

definition isIPv4Mapped :: "bytes \<Rightarrow> bool" where
  "isIPv4Mapped ip =
     (list_all (\<lambda>i. ip ! i = 0) [0..<10] \<and> \<not> (ip ! 10 \<noteq> 0xff \<or> ip ! 11 \<noteq> 0xff))"

definition key_ip :: "net_IP \<Rightarrow> bytes" where
  "key_ip ip = (case To16 ip of None \<Rightarrow> replicate 16 0 | Some b \<Rightarrow> b)"

definition NewIPKey :: "net_IP \<Rightarrow> IPKey" where
  "NewIPKey ip = key_ip ip"

definition IPKey_Bytes :: "IPKey \<Rightarrow> bytes" where
  "IPKey_Bytes k = k"

definition NATKey_Bytes :: "NATKey \<Rightarrow> bytes" where
  "NATKey_Bytes k = SrcIP k @ put16 (SrcPort k) @ DstIP k @ put16 (DstPort k)"

definition NewNATKey :: "net_IP \<Rightarrow> int \<Rightarrow> net_IP \<Rightarrow> int \<Rightarrow> NATKey" where
  "NewNATKey srcIP srcPort dstIP dstPort =
     \<lparr>SrcIP = key_ip srcIP, SrcPort = word_of_int srcPort,
      DstIP = key_ip dstIP, DstPort = word_of_int dstPort\<rparr>"

section \<open>Keys identify addresses\<close>

lemma length_key_ip [simp]: "length (key_ip ip) = 16"
  by (auto simp: key_ip_def To16_def v4InV6Prefix_def)

lemma isIPv4Mapped_iff: "length b = 16 \<Longrightarrow> isIPv4Mapped b \<longleftrightarrow> take 12 b = v4InV6Prefix"
  by (auto simp: isIPv4Mapped_def v4InV6Prefix_def upt_rec numeral_eq_Suc length_Suc_conv)

lemma To4_key_ip: "To16 ip \<noteq> None \<Longrightarrow> To4 (key_ip ip) = To4 ip"
  by (auto simp: To16_def To4_def key_ip_def v4InV6Prefix_def split: if_splits)

text \<open>Both spellings of an IPv4 address give the same key, and a key determines its address.\<close>

lemma key_ip_eq_iff:
  assumes "To16 a \<noteq> None" "To16 b \<noteq> None"
  shows "key_ip a = key_ip b \<longleftrightarrow> To16 a = To16 b"
  using assms by (auto simp: key_ip_def)

lemma put16_inj [simp]: "put16 a = put16 b \<longleftrightarrow> a = b"
  by (metis be16_put16 list.inject put16_def)

lemma NATKey_Bytes_inj:
  assumes "length (SrcIP k) = 16" "length (DstIP k) = 16" "length (SrcIP l) = 16" "length (DstIP l) = 16"
  shows "NATKey_Bytes k = NATKey_Bytes l \<longleftrightarrow> k = l"
  using assms by (cases k; cases l) (auto simp: NATKey_Bytes_def)

end
