(* ===== verification/Go_Net.thy ===== *)
theory Go_Net
  imports Ip_Keys
begin

text \<open>
  The parts of Go's \<open>strconv\<close>, \<open>net\<close> and \<open>net/netip\<close> that the modelled code calls: decimal numbers,
  addresses in text form, CIDR prefixes and host:port pairs. A \<open>netip.Addr\<close> is invalid, an IPv4 address
  of four bytes or an IPv6 address of sixteen; the zone is kept apart.
\<close>

section \<open>netip\<close>

datatype netip_addr = InvalidAddr | Addr4 bytes | Addr6 bytes

definition wf_addr :: "netip_addr \<Rightarrow> bool" where
  "wf_addr ip = (case ip of InvalidAddr \<Rightarrow> True | Addr4 b \<Rightarrow> length b = 4 | Addr6 b \<Rightarrow> length b = 16)"

definition mapped_prefix :: bytes where
  "mapped_prefix = replicate 10 0 @ [0xff, 0xff]"

definition IsValid :: "netip_addr \<Rightarrow> bool" where
  "IsValid ip = (ip \<noteq> InvalidAddr)"

definition Is4 :: "netip_addr \<Rightarrow> bool" where
  "Is4 ip = (case ip of Addr4 _ \<Rightarrow> True | _ \<Rightarrow> False)"

definition Is6 :: "netip_addr \<Rightarrow> bool" where
  "Is6 ip = (case ip of Addr6 _ \<Rightarrow> True | _ \<Rightarrow> False)"

definition Is4In6 :: "netip_addr \<Rightarrow> bool" where
  "Is4In6 ip = (case ip of Addr6 b \<Rightarrow> take 12 b = mapped_prefix | _ \<Rightarrow> False)"

definition Unmap :: "netip_addr \<Rightarrow> netip_addr" where
  "Unmap ip = (case ip of Addr6 b \<Rightarrow> if take 12 b = mapped_prefix then Addr4 (drop 12 b) else ip | _ \<Rightarrow> ip)"

definition As16 :: "netip_addr \<Rightarrow> bytes" where
  "As16 ip = (case ip of InvalidAddr \<Rightarrow> replicate 16 0 | Addr4 b \<Rightarrow> mapped_prefix @ b | Addr6 b \<Rightarrow> b)"

definition AsSlice :: "netip_addr \<Rightarrow> bytes" where
  "AsSlice ip = (case ip of InvalidAddr \<Rightarrow> [] | Addr4 b \<Rightarrow> b | Addr6 b \<Rightarrow> b)"

definition AddrFromSlice :: "bytes \<Rightarrow> netip_addr" where
  "AddrFromSlice b = (if length b = 4 then Addr4 b else if length b = 16 then Addr6 b else InvalidAddr)"

definition IsLoopback :: "netip_addr \<Rightarrow> bool" where
  "IsLoopback ip = (case Unmap ip of InvalidAddr \<Rightarrow> False
     | Addr4 b \<Rightarrow> b ! 0 = 127 | Addr6 b \<Rightarrow> b = replicate 15 0 @ [1])"

definition IsLinkLocalUnicast :: "netip_addr \<Rightarrow> bool" where
  "IsLinkLocalUnicast ip = (case Unmap ip of InvalidAddr \<Rightarrow> False
     | Addr4 b \<Rightarrow> b ! 0 = 169 \<and> b ! 1 = 254 | Addr6 b \<Rightarrow> be16 (b ! 0) (b ! 1) AND 0xffc0 = 0xfe80)"

definition IsMulticast :: "netip_addr \<Rightarrow> bool" where
  "IsMulticast ip = (case Unmap ip of InvalidAddr \<Rightarrow> False
     | Addr4 b \<Rightarrow> b ! 0 AND 0xf0 = 0xe0 | Addr6 b \<Rightarrow> b ! 0 = 0xff)"

definition byte_bits :: "byte \<Rightarrow> bool list" where
  "byte_bits b = map (\<lambda>i. bit b (7 - i)) [0..<8]"

definition bits_of :: "bytes \<Rightarrow> bool list" where
  "bits_of b = concat (map byte_bits b)"

section \<open>Decimal numbers\<close>

definition is_digit :: "char \<Rightarrow> bool" where
  "is_digit c = (48 \<le> (of_char c :: nat) \<and> (of_char c :: nat) \<le> 57)"

definition digit_val :: "char \<Rightarrow> nat" where
  "digit_val c = of_char c - 48"

definition digit_char :: "nat \<Rightarrow> char" where
  "digit_char d = char_of (48 + d)"

fun itoa :: "nat \<Rightarrow> string" where
  "itoa n = (if n < 10 then [digit_char n] else itoa (n div 10) @ [digit_char (n mod 10)])"

declare itoa.simps [simp del]

definition digits_val :: "string \<Rightarrow> nat" where
  "digits_val s = foldl (\<lambda>a c. 10 * a + digit_val c) 0 s"

definition dec_nat :: "string \<Rightarrow> nat option" where
  "dec_nat s = (if s \<noteq> [] \<and> list_all is_digit s then Some (digits_val s) else None)"

text \<open>\<open>strconv.Itoa\<close> and \<open>strconv.Atoi\<close> on a 64-bit platform.\<close>

definition Itoa :: "int \<Rightarrow> string" where
  "Itoa i = (if i < 0 then CHR ''-'' # itoa (nat (- i)) else itoa (nat i))"

definition Atoi :: "string \<Rightarrow> int option" where
  "Atoi s =
     (case s of
        [] \<Rightarrow> None
      | c # t \<Rightarrow>
          let neg = (c = CHR ''-''); u = (if c = CHR ''-'' \<or> c = CHR ''+'' then t else s) in
          (case dec_nat u of
             None \<Rightarrow> None
           | Some n \<Rightarrow> let i = (if neg then - int n else int n) in if in_int64 i then Some i else None))"

section \<open>Address text\<close>

definition parse_octet :: "string \<Rightarrow> byte option" where
  "parse_octet s =
     (case dec_nat s of
        None \<Rightarrow> None
      | Some n \<Rightarrow> if n > 255 \<or> (length s > 1 \<and> hd s = CHR ''0'') then None else Some (of_nat n))"

definition parseIPv4Fields :: "string \<Rightarrow> bytes option" where
  "parseIPv4Fields s =
     (case map parse_octet (split_char (CHR ''.'') s) of
        [Some a, Some b, Some c, Some d] \<Rightarrow> Some [a, b, c, d]
      | _ \<Rightarrow> None)"

definition hex_val :: "char \<Rightarrow> nat option" where
  "hex_val c =
     (let n = (of_char c :: nat) in
      if 48 \<le> n \<and> n \<le> 57 then Some (n - 48)
      else if 97 \<le> n \<and> n \<le> 102 then Some (n - 87)
      else if 65 \<le> n \<and> n \<le> 70 then Some (n - 55)
      else None)"

text \<open>One group of at most four hexadecimal digits: how many, their value, the rest of the text.\<close>

fun hex_group :: "string \<Rightarrow> nat \<Rightarrow> nat \<Rightarrow> (nat \<times> nat \<times> string) option" where
  "hex_group [] off acc = Some (off, acc, [])"
| "hex_group (c # s) off acc =
     (case hex_val c of
        None \<Rightarrow> Some (off, acc, c # s)
      | Some d \<Rightarrow> if off > 3 then None else hex_group s (off + 1) (16 * acc + d))"

text \<open>The loop of \<open>parseIPv6\<close> with the bytes read so far and the position of the ellipsis.\<close>

function v6_loop :: "string \<Rightarrow> bytes \<Rightarrow> nat option \<Rightarrow> (bytes \<times> nat option) option" where
  "v6_loop s ip ell =
     (if length ip \<ge> 16 then (if s = [] then Some (ip, ell) else None)
      else case hex_group s 0 0 of
        None \<Rightarrow> None
      | Some (off, acc, rest) \<Rightarrow>
          if off = 0 then None
          else if rest \<noteq> [] \<and> hd rest = CHR ''.'' then
            if ell = None \<and> length ip \<noteq> 12 then None
            else if length ip + 4 > 16 then None
            else map_option (\<lambda>b. (ip @ b, ell)) (parseIPv4Fields s)
          else
            let ip' = ip @ put16 (of_nat acc) in
            case rest of
              [] \<Rightarrow> Some (ip', ell)
            | c # s1 \<Rightarrow>
                if c \<noteq> CHR '':'' \<or> s1 = [] then None
                else if hd s1 = CHR '':'' then
                  if ell \<noteq> None then None
                  else if tl s1 = [] then Some (ip', Some (length ip'))
                  else v6_loop (tl s1) ip' (Some (length ip'))
                else v6_loop s1 ip' ell)"
  by pat_completeness auto
termination
  by (relation "measure (\<lambda>(s, ip, ell). 16 - length ip)") (auto simp: put16_def)

declare v6_loop.simps [simp del]

definition v6_expand :: "bytes \<times> nat option \<Rightarrow> bytes option" where
  "v6_expand r =
     (let ip = fst r in
      case snd r of
        None \<Rightarrow> if length ip < 16 then None else Some ip
      | Some e \<Rightarrow> if length ip < 16 then Some (take e ip @ replicate (16 - length ip) 0 @ drop e ip) else None)"

definition parseIPv6 :: "string \<Rightarrow> bytes option" where
  "parseIPv6 s =
     (if has_prefix s ''::'' then
        if drop 2 s = [] then Some (replicate 16 0)
        else Option.bind (v6_loop (drop 2 s) [] (Some 0)) v6_expand
      else Option.bind (v6_loop s [] None) v6_expand)"

text \<open>\<open>netip.ParseAddr\<close>: the first dot, colon or percent sign decides. The zone comes second.\<close>

definition ParseAddr :: "string \<Rightarrow> (netip_addr \<times> string) option" where
  "ParseAddr s =
     (case dropWhile (\<lambda>c. c \<notin> {CHR ''.'', CHR '':'', CHR ''%''}) s of
        [] \<Rightarrow> None
      | c # _ \<Rightarrow>
          if c = CHR ''.'' then map_option (\<lambda>b. (Addr4 b, [])) (parseIPv4Fields s)
          else if c = CHR '':'' then
            let t = takeWhile (\<lambda>c. c \<noteq> CHR ''%'') s; z = drop (length t) s in
            if z = ''%'' then None else map_option (\<lambda>b. (Addr6 b, tl z)) (parseIPv6 t)
          else None)"

definition ParseIP :: "string \<Rightarrow> net_IP option" where
  "ParseIP s =
     (case ParseAddr s of
        None \<Rightarrow> None
      | Some (a, z) \<Rightarrow> if z \<noteq> [] then None else Some (As16 a))"

section \<open>Printing addresses\<close>

definition hex_char :: "nat \<Rightarrow> char" where
  "hex_char d = (if d < 10 then char_of (48 + d) else char_of (87 + d))"

fun hex_nat :: "nat \<Rightarrow> string" where
  "hex_nat n = (if n < 16 then [hex_char n] else hex_nat (n div 16) @ [hex_char (n mod 16)])"

declare hex_nat.simps [simp del]

fun groups16 :: "bytes \<Rightarrow> nat list" where
  "groups16 (a # b # bs) = unat (be16 a b) # groups16 bs"
| "groups16 _ = []"

definition zero_run :: "nat list \<Rightarrow> nat" where
  "zero_run gs = length (takeWhile (\<lambda>g. g = 0) gs)"

text \<open>The first longest run of at least two zero groups, as start and end.\<close>

definition longest_run :: "nat list \<Rightarrow> nat \<times> nat" where
  "longest_run gs =
     foldl (\<lambda>(zs, ze) i. let l = zero_run (drop i gs) in
              if l \<ge> 2 \<and> l > ze - zs then (i, i + l) else (zs, ze)) (255, 255) [0..<length gs]"

definition v4_string :: "bytes \<Rightarrow> string" where
  "v4_string b = join_char (CHR ''.'') (map (\<lambda>x. itoa (unat x)) b)"

definition v6_string :: "bytes \<Rightarrow> string" where
  "v6_string b =
     (let gs = groups16 b; (zs, ze) = longest_run gs;
          text = (\<lambda>xs. join_char (CHR '':'') (map hex_nat xs)) in
      if zs = 255 then text gs else text (take zs gs) @ ''::'' @ text (drop ze gs))"

definition hex_byte :: "byte \<Rightarrow> string" where
  "hex_byte b = [hex_char (unat b div 16), hex_char (unat b mod 16)]"

definition IP_String :: "net_IP \<Rightarrow> string" where
  "IP_String ip =
     (if ip = [] then ''<nil>''
      else if length ip \<noteq> 4 \<and> length ip \<noteq> 16 then CHR ''?'' # concat (map hex_byte ip)
      else case To4 ip of Some b \<Rightarrow> v4_string b | None \<Rightarrow> v6_string ip)"

text \<open>\<open>netip.Addr.String\<close>: an IPv4-mapped IPv6 address keeps its prefix.\<close>

definition Addr_String :: "netip_addr \<Rightarrow> string" where
  "Addr_String a =
     (case a of
        InvalidAddr \<Rightarrow> ''invalid IP''
      | Addr4 b \<Rightarrow> v4_string b
      | Addr6 b \<Rightarrow> if take 12 b = mapped_prefix then ''::ffff:'' @ v4_string (drop 12 b) else v6_string b)"

section \<open>CIDR and host:port\<close>

definition mask_bytes :: "nat \<Rightarrow> bytes \<Rightarrow> bytes" where
  "mask_bytes n b =
     map (\<lambda>i. if 8 * i + 8 \<le> n then b ! i
              else if n \<le> 8 * i then 0
              else b ! i AND push_bit (8 * i + 8 - n) 0xff) [0..<length b]"

text \<open>\<open>net.ParseCIDR\<close>: the masked network address, of 4 or 16 bytes, and the prefix length.\<close>

definition ParseCIDR :: "string \<Rightarrow> (net_IP \<times> nat) option" where
  "ParseCIDR s =
     (let addr = takeWhile (\<lambda>c. c \<noteq> CHR ''/'') s; rest = drop (length addr) s in
      if rest = [] then None
      else case ParseAddr addr of
        None \<Rightarrow> None
      | Some (a, z) \<Rightarrow>
          if z \<noteq> [] then None
          else case dec_nat (tl rest) of
            None \<Rightarrow> None
          | Some n \<Rightarrow>
              if n > 8 * length (AsSlice a) then None else Some (mask_bytes n (AsSlice a), n))"

definition JoinHostPort :: "string \<Rightarrow> string \<Rightarrow> string" where
  "JoinHostPort host port =
     (if CHR '':'' \<in> set host then ''['' @ host @ '']:'' @ port else host @ '':'' @ port)"

text \<open>\<open>net.SplitHostPort\<close>: the port follows the last colon; a bracketed host ends just before it.\<close>

definition SplitHostPort :: "string \<Rightarrow> (string \<times> string) option" where
  "SplitHostPort hp =
     (let port = rev (takeWhile (\<lambda>c. c \<noteq> CHR '':'') (rev hp)); i = length hp - length port in
      if i = 0 then None
      else if hd hp = CHR ''['' then
        let host = takeWhile (\<lambda>c. c \<noteq> CHR '']'') (tl hp); e = length host + 1 in
        if e \<ge> length hp then None
        else if e + 1 \<noteq> i - 1 then None
        else if CHR ''['' \<in> set (tl hp) \<or> CHR '']'' \<in> set (drop (e + 1) hp) then None
        else Some (host, port)
      else
        let host = take (i - 1) hp in
        if CHR '':'' \<in> set host \<or> CHR ''['' \<in> set hp \<or> CHR '']'' \<in> set hp then None
        else Some (host, port))"

section \<open>Round trips\<close>

lemma digit_char_simps [simp]:
  "d < 10 \<Longrightarrow> is_digit (digit_char d)" "d < 10 \<Longrightarrow> digit_val (digit_char d) = d"
  by (simp_all add: is_digit_def digit_char_def digit_val_def)

lemma itoa_digits: "list_all is_digit (itoa n)"
  by (induction n rule: itoa.induct) (subst itoa.simps, auto)

lemma itoa_not_Nil [simp]: "itoa n \<noteq> []"
  by (subst itoa.simps) simp

lemma digits_val_itoa [simp]: "digits_val (itoa n) = n"
proof (induction n rule: itoa.induct)
  case (1 n)
  then show ?case by (subst itoa.simps) (simp add: digits_val_def)
qed

lemma dec_nat_itoa [simp]: "dec_nat (itoa n) = Some n"
  by (simp add: dec_nat_def itoa_digits)

lemma itoa_no_zero_head: "0 < n \<Longrightarrow> hd (itoa n) \<noteq> CHR ''0''"
proof (induction n rule: itoa.induct)
  case (1 n)
  have zero: "digit_char n \<noteq> CHR ''0''" if "0 < n" "n < 10"
    using digit_char_simps(2) [OF that(2)] that(1) by (auto simp: digit_val_def)
  show ?case
  proof (cases "n < 10")
    case True
    with zero "1.prems" show ?thesis by (subst itoa.simps) simp
  next
    case False
    then have "hd (itoa (n div 10)) \<noteq> CHR ''0''" using 1 by simp
    with False show ?thesis by (subst itoa.simps) simp
  qed
qed

lemma parse_octet_itoa [simp]: "parse_octet (itoa (unat (b :: byte))) = Some b"
proof (cases "unat b = 0")
  case True
  then have "b = 0" by (simp add: unsigned_eq_0_iff)
  moreover have "parse_octet (itoa 0) = Some 0" by code_simp
  ultimately show ?thesis by simp
next
  case False
  have "unat b < 256" using unsigned_less [of b] by simp
  with False itoa_no_zero_head [of "unat b"] show ?thesis by (simp add: parse_octet_def)
qed

lemma split_join_char: "xs \<noteq> [] \<Longrightarrow> \<forall>x \<in> set xs. c \<notin> set x \<Longrightarrow> split_char c (join_char c xs) = xs"
proof (induction xs rule: join_char.induct)
  case (2 c x)
  then show ?case by (induction x) auto
next
  case (3 c x y ys)
  then have "split_char c (join_char c (y # ys)) = y # ys" by simp
  moreover have "split_char c (x @ c # t) = x # split_char c t" if "c \<notin> set x" for t
    using that by (induction x) auto
  ultimately show ?case using 3 by simp
qed simp

lemma itoa_chars: "\<not> is_digit c \<Longrightarrow> c \<notin> set (itoa n)"
  using itoa_digits [of n] by (auto simp: list_all_iff)

lemma not_digits [simp]: "\<not> is_digit (CHR ''.'')" "\<not> is_digit (CHR '':'')" "\<not> is_digit (CHR ''%'')"
  by code_simp+

lemma parseIPv4Fields_v4_string: "length b = 4 \<Longrightarrow> parseIPv4Fields (v4_string b) = Some b"
proof -
  assume "length b = 4"
  then obtain p q r s where b: "b = [p, q, r, s]"
    by (auto simp: numeral_eq_Suc length_Suc_conv)
  have "split_char (CHR ''.'') (v4_string b) = map (\<lambda>x. itoa (unat x)) b"
    unfolding v4_string_def by (rule split_join_char) (auto simp: b itoa_chars)
  then show ?thesis by (simp add: parseIPv4Fields_def b)
qed

lemma hex_val_char: "d < 16 \<Longrightarrow> hex_val (hex_char d) = Some d"
  by (simp add: hex_val_def hex_char_def Let_def)

lemma hex_group_app:
  "\<forall>c \<in> set xs. hex_val c \<noteq> None \<Longrightarrow> off + length xs \<le> 4 \<Longrightarrow>
    hex_group (xs @ rest) off acc =
      hex_group rest (off + length xs) (foldl (\<lambda>a c. 16 * a + the (hex_val c)) acc xs)"
  by (induction xs arbitrary: off acc) auto

lemma hex_nat_digits: "c \<in> set (hex_nat n) \<Longrightarrow> hex_val c \<noteq> None"
proof (induction n rule: hex_nat.induct)
  case (1 n)
  show ?case
  proof (cases "n < 16")
    case True
    with "1.prems" have "c = hex_char n" by (subst (asm) hex_nat.simps) simp
    with True show ?thesis by (simp add: hex_val_char)
  next
    case False
    with "1.prems" have "c \<in> set (hex_nat (n div 16)) \<or> c = hex_char (n mod 16)"
      by (subst (asm) hex_nat.simps) auto
    with 1 False show ?thesis by (auto simp: hex_val_char)
  qed
qed

lemma hex_nat_val: "foldl (\<lambda>a c. 16 * a + the (hex_val c)) 0 (hex_nat n) = n"
proof (induction n rule: hex_nat.induct)
  case (1 n)
  then show ?case by (subst hex_nat.simps) (simp add: hex_val_char)
qed

lemma hex_nat_length: "n < 16 ^ Suc k \<Longrightarrow> 0 < length (hex_nat n) \<and> length (hex_nat n) \<le> Suc k"
proof (induction k arbitrary: n)
  case 0
  then show ?case by (subst hex_nat.simps, subst (2) hex_nat.simps) simp
next
  case (Suc k)
  then have "n div 16 < 16 ^ Suc k" by (simp add: less_mult_imp_div_less mult.commute)
  from Suc.IH [OF this] show ?case
    by (subst hex_nat.simps, subst (2) hex_nat.simps) auto
qed

lemma hex_group_nat:
  assumes "g < 65536" "rest = [] \<or> hex_val (hd rest) = None"
  shows "\<exists>off > 0. hex_group (hex_nat g @ rest) 0 0 = Some (off, g, rest)"
proof -
  have len: "0 < length (hex_nat g)" "length (hex_nat g) \<le> 4"
    using hex_nat_length [of g 3] assms(1) by simp_all
  have "hex_group rest off acc = Some (off, acc, rest)" for off acc
    using assms(2) by (cases rest) auto
  with len show ?thesis by (simp add: hex_group_app hex_nat_digits hex_nat_val)
qed

abbreviation "colon_text gs \<equiv> join_char (CHR '':'') (map hex_nat gs)"

fun ungroup16 :: "nat list \<Rightarrow> bytes" where
  "ungroup16 [] = []"
| "ungroup16 (g # gs) = put16 (of_nat g) @ ungroup16 gs"

lemma length_ungroup16 [simp]: "length (ungroup16 gs) = 2 * length gs"
  by (induction gs) auto

lemma ungroup16_append [simp]: "ungroup16 (xs @ ys) = ungroup16 xs @ ungroup16 ys"
  by (induction xs) auto

lemma ungroup_groups: "even (length b) \<Longrightarrow> ungroup16 (groups16 b) = b"
  by (induction b rule: groups16.induct) auto

lemma length_groups16 [simp]: "length (groups16 b) = length b div 2"
  by (induction b rule: groups16.induct) auto

lemma groups16_bound: "g \<in> set (groups16 b) \<Longrightarrow> g < 65536"
proof (induction b rule: groups16.induct)
  case (1 a b bs)
  then show ?case using unsigned_less [of "be16 a b"] by auto
qed auto

lemma not_hex [simp]: "hex_val (CHR '':'') = None" "hex_val (CHR ''.'') = None" "hex_val (CHR ''%'') = None"
  by code_simp+

lemma hex_nat_hd: "hex_nat g \<noteq> [] \<and> hd (hex_nat g @ t) \<noteq> CHR '':''"
proof -
  have "hex_nat g \<noteq> []" by (subst hex_nat.simps) simp
  then show ?thesis
    using hex_nat_digits [of "hd (hex_nat g)" g] by (cases "hex_nat g") auto
qed

text \<open>Reading a list of groups, at the end of the text or before an ellipsis.\<close>

lemma v6_loop_text:
  "gs \<noteq> [] \<Longrightarrow> \<forall>g \<in> set gs. g < 65536 \<Longrightarrow> length ip + 2 * length gs \<le> 16 \<Longrightarrow>
    v6_loop (colon_text gs) ip ell = Some (ip @ ungroup16 gs, ell)"
proof (induction gs arbitrary: ip rule: induct_list012)
  case (2 g)
  obtain off where "off > 0" "hex_group (hex_nat g @ []) 0 0 = Some (off, g, [])"
    using hex_group_nat [of g "[]"] 2 by auto
  with 2 show ?case by (subst v6_loop.simps) simp
next
  case (3 g h gs)
  let ?t = "colon_text (h # gs)"
  obtain off where "off > 0" "hex_group (hex_nat g @ CHR '':'' # ?t) 0 0 = Some (off, g, CHR '':'' # ?t)"
    using hex_group_nat [of g "CHR '':'' # ?t"] 3 by auto
  moreover have "?t \<noteq> []" "hd ?t \<noteq> CHR '':''"
    using hex_nat_hd [of h] by (cases gs; simp)+
  moreover have "v6_loop ?t (ip @ put16 (of_nat g)) ell = Some ((ip @ put16 (of_nat g)) @ ungroup16 (h # gs), ell)"
    using 3 by (intro "3.IH") auto
  ultimately show ?case using 3 by (subst v6_loop.simps) simp
qed simp

lemma v6_loop_ellipsis:
  "gs \<noteq> [] \<Longrightarrow> \<forall>g \<in> set gs \<union> set hs. g < 65536 \<Longrightarrow> length ip + 2 * length gs + 2 * length hs < 16 \<Longrightarrow>
    v6_loop (colon_text gs @ ''::'' @ colon_text hs) ip None =
      Some (ip @ ungroup16 gs @ ungroup16 hs, Some (length ip + 2 * length gs))"
proof (induction gs arbitrary: ip rule: induct_list012)
  case (2 g)
  let ?r = "''::'' @ colon_text hs"
  obtain off where off: "off > 0" "hex_group (hex_nat g @ ?r) 0 0 = Some (off, g, ?r)"
    using hex_group_nat [of g ?r] 2 by auto
  show ?case
  proof (cases hs)
    case Nil
    with off 2 show ?thesis by (subst v6_loop.simps) simp
  next
    case (Cons h hs')
    have "colon_text hs \<noteq> []" using hex_nat_hd [of h] Cons by (cases hs') auto
    moreover have "v6_loop (colon_text hs) (ip @ put16 (of_nat g)) (Some (length ip + 2)) =
        Some ((ip @ put16 (of_nat g)) @ ungroup16 hs, Some (length ip + 2))"
      using 2 Cons by (intro v6_loop_text) auto
    ultimately show ?thesis using off 2 by (subst v6_loop.simps) simp
  qed
next
  case (3 g h gs)
  let ?t = "colon_text (h # gs) @ ''::'' @ colon_text hs"
  obtain off where "off > 0" "hex_group (hex_nat g @ CHR '':'' # ?t) 0 0 = Some (off, g, CHR '':'' # ?t)"
    using hex_group_nat [of g "CHR '':'' # ?t"] 3 by auto
  moreover have "?t \<noteq> []" "hd ?t \<noteq> CHR '':''"
    using hex_nat_hd [of h] by (cases gs; simp)+
  moreover have "v6_loop ?t (ip @ put16 (of_nat g)) None =
      Some ((ip @ put16 (of_nat g)) @ ungroup16 (h # gs) @ ungroup16 hs,
        Some (length (ip @ put16 (of_nat g)) + 2 * length (h # gs)))"
    using 3 by (intro "3.IH") auto
  ultimately show ?case using 3 by (subst v6_loop.simps) simp
qed simp

definition run_ok :: "nat list \<Rightarrow> nat \<times> nat \<Rightarrow> bool" where
  "run_ok gs r = (r = (255, 255) \<or>
     (fst r + 2 \<le> snd r \<and> snd r \<le> length gs \<and> take (snd r - fst r) (drop (fst r) gs) = replicate (snd r - fst r) 0))"

lemma zero_run_take: "take (zero_run gs) gs = replicate (zero_run gs) 0"
  unfolding zero_run_def
  by (metis (mono_tags, lifting) replicate_eqI set_takeWhileD takeWhile_eq_take)

lemma zero_run_le: "zero_run gs \<le> length gs"
  by (simp add: zero_run_def length_takeWhile_le)

lemma longest_run_ok: "run_ok gs (longest_run gs)"
proof -
  have "run_ok gs (foldl (\<lambda>(zs, ze) i. let l = zero_run (drop i gs) in
      if l \<ge> 2 \<and> l > ze - zs then (i, i + l) else (zs, ze)) r is)"
    if "run_ok gs r" "\<forall>i \<in> set is. i \<le> length gs" for r "is"
    using that
  proof (induction "is" arbitrary: r)
    case (Cons i "is")
    have "run_ok gs (i, i + zero_run (drop i gs))" if "zero_run (drop i gs) \<ge> 2"
      using that Cons.prems(2) zero_run_le [of "drop i gs"] zero_run_take [of "drop i gs"]
      by (auto simp: run_ok_def)
    with Cons show ?case by (cases r) (auto simp: Let_def)
  qed simp
  then show ?thesis unfolding longest_run_def by (simp add: run_ok_def)
qed

text \<open>The printed form of an IPv6 address parses back to it.\<close>

lemma parseIPv6_v6_string:
  assumes "length b = 16"
  shows "parseIPv6 (v6_string b) = Some b"
proof -
  let ?gs = "groups16 b"
  obtain zs ze where run: "longest_run ?gs = (zs, ze)" by fastforce
  have len: "length ?gs = 8" and inverse: "ungroup16 ?gs = b"
    using assms by (simp_all add: ungroup_groups)
  have bound: "\<forall>g \<in> set ?gs. g < 65536" by (simp add: groups16_bound)
  show ?thesis
  proof (cases "zs = 255")
    case True
    obtain g gs where gs: "?gs = g # gs" using len by (metis length_0_conv neq_Nil_conv zero_neq_numeral)
    have "\<not> has_prefix (colon_text ?gs) ''::''"
      using hex_nat_hd [of g] by (cases gs; cases "hex_nat g") (auto simp: gs has_prefix_def)
    moreover have "v6_loop (colon_text ?gs) [] None = Some ([] @ ungroup16 ?gs, None)"
      using bound len gs by (intro v6_loop_text) auto
    ultimately show ?thesis
      using True run inverse assms by (simp add: v6_string_def parseIPv6_def v6_expand_def)
  next
    case False
    then have r: "zs + 2 \<le> ze" "ze \<le> 8" "take (ze - zs) (drop zs ?gs) = replicate (ze - zs) 0"
      using longest_run_ok [of ?gs] run len by (auto simp: run_ok_def)
    let ?l = "take zs ?gs" and ?r = "drop ze ?gs"
    have "?gs = ?l @ replicate (ze - zs) 0 @ ?r"
      using r by (metis append_take_drop_id drop_drop le_add_diff_inverse2 trans_le_add1 le_add1 order_trans)
    then have b: "b = ungroup16 ?l @ ungroup16 (replicate (ze - zs) 0) @ ungroup16 ?r"
      using inverse by (metis ungroup16_append)
    have zeros: "ungroup16 (replicate n 0) = replicate (2 * n) 0" for n
      by (induction n) (simp_all add: put16_def)
    have bounds: "\<forall>g \<in> set ?l \<union> set ?r. g < 65536"
      using bound by (auto dest: in_set_takeD in_set_dropD)
    have ll: "length ?l = zs" "length ?r = 8 - ze" using len r by auto
    have str: "v6_string b = colon_text ?l @ ''::'' @ colon_text ?r"
      using run False by (simp add: v6_string_def Let_def)
    have res: "v6_expand (ungroup16 ?l @ ungroup16 ?r, Some (2 * zs)) = Some b"
    proof -
      have "16 - (2 * length ?l + 2 * length ?r) = 2 * (ze - zs)" using r ll by simp
      moreover have "2 * length ?l + 2 * length ?r < 16" using r ll by simp
      moreover have "2 * zs = length (ungroup16 ?l)" using ll by simp
      ultimately have "v6_expand (ungroup16 ?l @ ungroup16 ?r, Some (2 * zs)) =
          Some (ungroup16 ?l @ replicate (2 * (ze - zs)) 0 @ ungroup16 ?r)"
        by (simp del: length_take length_drop add: v6_expand_def)
      then show ?thesis using b by (simp add: zeros)
    qed
    show ?thesis
    proof (cases "zs = 0")
      case True
      have "v6_loop (colon_text ?r) [] (Some 0) = Some ([] @ ungroup16 ?r, Some 0)" if "?r \<noteq> []"
        using that bounds ll r by (intro v6_loop_text) auto
      moreover have "colon_text ?r = [] \<longleftrightarrow> ?r = []"
        using hex_nat_hd by (cases ?r; cases "tl ?r") auto
      moreover have "b = replicate 16 0" if "?r = []"
        using that b ll r True by (simp add: zeros)
      ultimately show ?thesis
        using res True by (auto simp: str parseIPv6_def has_prefix_def)
    next
      case False
      then have ne: "?l \<noteq> []" using ll by (metis list.size(3))
      then obtain g gs where gs: "?l = g # gs" by (cases ?l) auto
      have "\<not> has_prefix (v6_string b) ''::''"
        unfolding str using hex_nat_hd [of g] by (cases gs; cases "hex_nat g") (auto simp: gs has_prefix_def)
      moreover have "v6_loop (v6_string b) [] None = Some ([] @ ungroup16 ?l @ ungroup16 ?r, Some (length ([] :: bytes) + 2 * length ?l))"
        unfolding str using ne bounds ll r by (intro v6_loop_ellipsis) auto
      ultimately show ?thesis using res ll by (simp add: parseIPv6_def)
    qed
  qed
qed

lemma v4_string_chars: "c \<in> set (v4_string b) \<Longrightarrow> is_digit c \<or> c = CHR ''.''"
proof -
  have "c \<in> set (join_char d xs) \<Longrightarrow> c = d \<or> (\<exists>x \<in> set xs. c \<in> set x)" for d xs
    by (induction d xs rule: join_char.induct) auto
  then show "c \<in> set (v4_string b) \<Longrightarrow> is_digit c \<or> c = CHR ''.''"
    unfolding v4_string_def using itoa_chars by fastforce
qed

lemma colon_text_chars: "c \<in> set (colon_text gs) \<Longrightarrow> hex_val c \<noteq> None \<or> c = CHR '':''"
proof (induction gs rule: induct_list012)
  case (2 g)
  then show ?case using hex_nat_digits by simp
next
  case (3 g h gs)
  then show ?case using hex_nat_digits by auto
qed simp

lemma ParseAddr_v4_string:
  assumes "length b = 4"
  shows "ParseAddr (v4_string b) = Some (Addr4 b, [])"
proof -
  obtain p q where b: "b = p # q" "q \<noteq> []"
    using assms by (metis Suc_inject length_Suc_conv list.size(3) numeral_3_eq_3 numeral_eq_Suc pred_numeral_simps(2) semiring_norm(26) zero_neq_numeral)
  then obtain t where "v4_string b = itoa (unat p) @ CHR ''.'' # t"
    by (cases q) (auto simp: v4_string_def)
  moreover have "dropWhile (\<lambda>c. c \<notin> {CHR ''.'', CHR '':'', CHR ''%''}) (itoa (unat p) @ CHR ''.'' # t) = CHR ''.'' # t"
    by (subst dropWhile_append2) (auto dest: itoa_chars [THEN notE, rotated])
  ultimately show ?thesis
    using parseIPv4Fields_v4_string [OF assms] by (simp add: ParseAddr_def)
qed

lemma v6_string_chars:
  assumes "c \<in> set (v6_string b)"
  shows "hex_val c \<noteq> None \<or> c = CHR '':''"
  using assms colon_text_chars by (auto simp: v6_string_def Let_def split: prod.splits if_splits)

lemma v6_string_has_colon: "length b = 16 \<Longrightarrow> CHR '':'' \<in> set (v6_string b)"
proof -
  assume "length b = 16"
  then have "length (groups16 b) = 8" by simp
  then obtain g h gs where "groups16 b = g # h # gs"
    by (metis (no_types) One_nat_def Suc_1 length_0_conv length_Suc_conv list.exhaust numeral_eq_Suc pred_numeral_simps(2) semiring_norm(26) zero_neq_numeral)
  then show ?thesis by (cases "longest_run (groups16 b)") (auto simp: v6_string_def Let_def)
qed

lemma ParseAddr_v6_string:
  assumes "length b = 16"
  shows "ParseAddr (v6_string b) = Some (Addr6 b, [])"
proof -
  let ?s = "v6_string b"
  have chars: "c \<noteq> CHR ''.'' \<and> c \<noteq> CHR ''%''" if "c \<in> set ?s" for c
    using v6_string_chars [OF that] by auto
  obtain xs ys where s: "?s = xs @ CHR '':'' # ys" "CHR '':'' \<notin> set xs"
    using split_list_first [OF v6_string_has_colon [OF assms]] by blast
  have "dropWhile (\<lambda>c. c \<notin> {CHR ''.'', CHR '':'', CHR ''%''}) ?s = CHR '':'' # ys"
    unfolding s(1) by (subst dropWhile_append2) (use chars s in auto)
  moreover have t: "takeWhile (\<lambda>c. c \<noteq> CHR ''%'') ?s = ?s"
    using chars by (subst takeWhile_eq_all_conv) auto
  ultimately show ?thesis
    using parseIPv6_v6_string [OF assms] unfolding ParseAddr_def t by simp
qed

text \<open>Printing an address and parsing it gives the same address, in sixteen-byte form.\<close>

lemma ParseIP_IP_String:
  assumes "length ip = 4 \<or> length ip = 16"
  shows "ParseIP (IP_String ip) = To16 ip"
proof (cases "To4 ip")
  case None
  then have "length ip = 16" using assms by (auto simp: To4_def)
  with None show ?thesis
    by (auto simp: IP_String_def ParseIP_def ParseAddr_v6_string As16_def To16_def)
next
  case (Some b)
  then have "length b = 4" "To16 ip = Some (v4InV6Prefix @ b)"
    by (auto simp: To4_def To16_def split: if_splits) (metis append_take_drop_id)
  with Some assms show ?thesis
    by (auto simp: IP_String_def ParseIP_def ParseAddr_v4_string As16_def mapped_prefix_def v4InV6Prefix_def)
qed

end
