(* ===== verification/Dc_Common.thy ===== *)
theory Dc_Common
  imports Go_Net
begin

text \<open>
  \<open>pkg/dnscrypt/common.go\<close> and the packet helpers of \<open>dnsutils.go\<close>: framing of packets on TCP connections, the
  text helpers of the rule files and the form of query names. Rule files are taken to be ASCII text: on
  such text a rune is a byte, \<open>strings.ToLower\<close> changes the letters \<open>A\<close> to \<open>Z\<close> and \<open>unicode.IsSpace\<close> holds
  of six characters. Query names are ASCII by \<open>NormalizeQName\<close>.
\<close>

section \<open>Text of rule files\<close>

definition is_ascii :: "string \<Rightarrow> bool" where
  "is_ascii s = list_all (\<lambda>c. (of_char c :: nat) < 128) s"

definition lower_char :: "char \<Rightarrow> char" where
  "lower_char c = (let n = (of_char c :: nat) in if 65 \<le> n \<and> n \<le> 90 then char_of (n + 32) else c)"

definition ToLower :: "string \<Rightarrow> string" where
  "ToLower s = map lower_char s"

definition IsSpace :: "char \<Rightarrow> bool" where
  "IsSpace c = (let n = (of_char c :: nat) in 9 \<le> n \<and> n \<le> 13 \<or> n = 32)"

definition TrimSpaceA :: "string \<Rightarrow> string" where
  "TrimSpaceA s = rev (dropWhile IsSpace (rev (dropWhile IsSpace s)))"

definition StringReverse :: "string \<Rightarrow> string" where
  "StringReverse s = rev s"

text \<open>\<open>strings.Contains\<close> and \<open>strings.LastIndexByte\<close>.\<close>

fun contains :: "string \<Rightarrow> string \<Rightarrow> bool" where
  "contains [] p = (p = [])"
| "contains (c # s) p = (has_prefix (c # s) p \<or> contains s p)"

definition last_index :: "string \<Rightarrow> char \<Rightarrow> nat option" where
  "last_index s c =
     (if c \<in> set s then Some (length s - 1 - length (takeWhile (\<lambda>x. x \<noteq> c) (rev s))) else None)"

definition StringTwoFields :: "string \<Rightarrow> string \<times> string \<times> bool" where
  "StringTwoFields str =
     (if length str < 3 then ([], [], False)
      else if list_all (\<lambda>c. \<not> IsSpace c) str then ([], [], False)
      else
        let a = TrimSpaceA (takeWhile (\<lambda>c. \<not> IsSpace c) str);
            b = TrimSpaceA (drop 1 (dropWhile (\<lambda>c. \<not> IsSpace c) str)) in
        if a = [] \<or> b = [] then (a, b, False) else (a, b, True))"

definition TrimAndStripInlineComments :: "string \<Rightarrow> string" where
  "TrimAndStripInlineComments str =
     (case last_index str (CHR ''#'') of
        None \<Rightarrow> TrimSpaceA str
      | Some idx \<Rightarrow>
          if idx = 0 \<or> str ! 0 = CHR ''#'' then []
          else if str ! (idx - 1) = CHR '' '' \<or> str ! (idx - 1) = CHR 0x09
            then TrimSpaceA (take (idx - 1) str)
          else TrimSpaceA str)"

definition ExtractHostAndPort :: "string \<Rightarrow> int \<Rightarrow> string \<times> int" where
  "ExtractHostAndPort str defaultPort =
     (case last_index str (CHR '':'') of
        Some idx \<Rightarrow>
          if idx < length str - 1 then
            (case Atoi (drop (idx + 1) str) of
               Some portX \<Rightarrow> (take idx str, portX)
             | None \<Rightarrow> (str, defaultPort))
          else (str, defaultPort)
      | None \<Rightarrow> (str, defaultPort))"

definition fqdn :: "string \<Rightarrow> string" where
  "fqdn name = (if length name = 0 \<or> last name = CHR ''.'' then name else name @ ''.'')"

section \<open>Lines of a rule file\<close>

text \<open>The line numbers start at 0; a processor returns an error or the state it leaves.\<close>

fun process_lines :: "('s \<Rightarrow> string \<Rightarrow> nat \<Rightarrow> 'e + 's) \<Rightarrow> nat \<Rightarrow> string list \<Rightarrow> 's \<Rightarrow> 'e + 's" where
  "process_lines f n [] s = Inr s"
| "process_lines f n (l # ls) s =
     (let line = TrimAndStripInlineComments l in
      if length line = 0 then process_lines f (n + 1) ls s
      else (case f s line n of Inl e \<Rightarrow> Inl e | Inr s' \<Rightarrow> process_lines f (n + 1) ls s'))"

definition ProcessConfigLines :: "string \<Rightarrow> ('s \<Rightarrow> string \<Rightarrow> nat \<Rightarrow> 'e + 's) \<Rightarrow> 's \<Rightarrow> 'e + 's" where
  "ProcessConfigLines text f s = process_lines f 0 (split_char (CHR 0x0A) text) s"

datatype rule_error =
    UnexpectedAt nat
  | TimeRangeNotFound string nat
  | RuleSyntax nat
  | SuspiciousIP string nat
  | EmptyIPRule nat
  | BadWildcard string nat

definition ParseTimeBasedRule ::
  "string \<Rightarrow> nat \<Rightarrow> (string \<rightharpoonup> 'w) \<Rightarrow> rule_error + string \<times> 'w option" where
  "ParseTimeBasedRule line lineNo allWeeklyRanges =
     (let parts = split_char (CHR ''@'') line in
      if length parts > 2 then Inl (UnexpectedAt (1 + lineNo))
      else
        let (rulePart, timeRangeName) =
          (if length parts = 2 then (TrimSpaceA (parts ! 0), TrimSpaceA (parts ! 1)) else (line, [])) in
        if length timeRangeName > 0 then
          (case allWeeklyRanges timeRangeName of
             Some w \<Rightarrow> Inr (rulePart, Some w)
           | None \<Rightarrow> Inl (TimeRangeNotFound timeRangeName (1 + lineNo)))
        else Inr (rulePart, None))"

definition ParseIPRule :: "string \<Rightarrow> nat \<Rightarrow> rule_error + string \<times> bool" where
  "ParseIPRule line lineNo =
     (let ip = ParseIP line; trailingStar = has_suffix line ''*'' in
      if length line < 2 \<or> (ip \<noteq> None \<and> trailingStar) then Inl (SuspiciousIP line lineNo)
      else
        let cleanLine = (if trailingStar then butlast line else line);
            cleanLine = (if has_suffix cleanLine '':'' \<or> has_suffix cleanLine ''.'' then butlast cleanLine else cleanLine) in
        if length cleanLine = 0 then Inl (EmptyIPRule lineNo)
        else if contains cleanLine ''*'' then Inl (BadWildcard line lineNo)
        else Inr (ToLower cleanLine, trailingStar))"

section \<open>Query names\<close>

datatype qname_error = NotAscii

definition NormalizeQName :: "string \<Rightarrow> qname_error + string" where
  "NormalizeQName str =
     (if length str = 0 \<or> str = ''.'' then Inr ''.''
      else
        let str = trim_suffix str ''.'' in
        if \<not> is_ascii str then Inl NotAscii
        else if \<not> list_ex (\<lambda>c. 65 \<le> (of_char c :: nat) \<and> (of_char c :: nat) \<le> 90) str then Inr str
        else Inr (map (\<lambda>c. if 65 \<le> (of_char c :: nat) \<and> (of_char c :: nat) \<le> 90
                           then char_of ((of_char c :: nat) + 32) else c) str))"

text \<open>\<open>reverseAddr\<close>: the name under which the reverse lookup of an address is found.\<close>

definition reverseAddr :: "string \<Rightarrow> string option" where
  "reverseAddr addr =
     (case ParseIP addr of
        None \<Rightarrow> None
      | Some ip \<Rightarrow>
          (case To4 ip of
             Some v4 \<Rightarrow> Some (concat (map (\<lambda>b. itoa (unat b) @ ''.'') (rev v4)) @ ''in-addr.arpa.'')
           | None \<Rightarrow>
               Some (concat (map (\<lambda>v. [hex_char (unat (v AND 0x0F)), CHR ''.'', hex_char (unat (drop_bit 4 v)), CHR ''.'']) (rev ip))
                     @ ''ip6.arpa.'')))"

section \<open>Packets on a TCP connection\<close>

definition MinDNSPacketSize :: nat where
  "MinDNSPacketSize = 12 + 5"

definition MaxDNSPacketSize :: nat where
  "MaxDNSPacketSize = 4096"

datatype frame_error = FrameTooLarge | FrameTooShort | ReadFailed

definition PrefixWithSize :: "bytes \<Rightarrow> frame_error + bytes" where
  "PrefixWithSize packet =
     (let packetLen = length packet in
      if packetLen > 0xffff then Inl FrameTooLarge
      else
        let packet = packet @ [0] @ [0];
            packet = take 2 packet @ take (length packet - 2) packet in
        Inr (put16 (of_nat (length packet - 2)) @ drop 2 packet))"

text \<open>
  A connection is the list of what successive reads deliver: bytes or an error. A read never delivers more than
  the buffer has room for. \<open>None\<close> is a read that has not returned yet.
\<close>

datatype conn_read = Delivered bytes | Broken

definition frame_length :: "bytes \<Rightarrow> nat option \<Rightarrow> frame_error + nat option" where
  "frame_length buf packetLength =
     (if length buf \<ge> 2 \<and> packetLength = None then
        let n = unat (be16 (buf ! 0) (buf ! 1)) in
        if n > MaxDNSPacketSize - 1 then Inl FrameTooLarge
        else if n < MinDNSPacketSize then Inl FrameTooShort
        else Inr (Some n)
      else Inr packetLength)"

fun read_prefixed :: "conn_read list \<Rightarrow> nat option \<Rightarrow> bytes \<Rightarrow> (frame_error + bytes) option" where
  "read_prefixed [] packetLength buf = None"
| "read_prefixed (Broken # rs) packetLength buf = Some (Inl ReadFailed)"
| "read_prefixed (Delivered c # rs) packetLength buf =
     (let buf = buf @ take (2 + MaxDNSPacketSize - length buf) c in
      case frame_length buf packetLength of
        Inl e \<Rightarrow> Some (Inl e)
      | Inr None \<Rightarrow> read_prefixed rs None buf
      | Inr (Some n) \<Rightarrow>
          if length buf \<ge> 2 + n then Some (Inr (take n (drop 2 buf))) else read_prefixed rs (Some n) buf)"

definition ReadPrefixed :: "conn_read list \<Rightarrow> (frame_error + bytes) option" where
  "ReadPrefixed conn = read_prefixed conn None []"

definition TransactionID :: "bytes \<Rightarrow> (unit, u16) outcome" where
  "TransactionID packet = uint16_at packet 0"

definition SetTransactionID :: "bytes \<Rightarrow> u16 \<Rightarrow> (unit, bytes) outcome" where
  "SetTransactionID packet tid = (if length packet \<ge> 2 then Ret (put16 tid @ drop 2 packet) else Panic)"

definition HasTCFlag :: "bytes \<Rightarrow> (unit, bool) outcome" where
  "HasTCFlag packet = obind (index packet 2) (\<lambda>b. Ret (b AND 2 = 2))"

definition Rcode :: "bytes \<Rightarrow> (unit, byte) outcome" where
  "Rcode packet = obind (index packet 3) (\<lambda>b. Ret (b AND 0x0f))"

section \<open>Text lemmas\<close>

lemma contains_iff: "contains s p \<longleftrightarrow> (\<exists>a b. s = a @ p @ b)"
proof (induction s)
  case (Cons c s)
  have "(\<exists>a b. c # s = a @ p @ b) \<longleftrightarrow> (\<exists>b. c # s = p @ b) \<or> (\<exists>a b. s = a @ p @ b)"
    by (metis append_Cons append_Nil list.exhaust list.inject)
  then show ?case using Cons by (simp add: has_prefix_iff)
qed auto

lemma lower_char_idem [simp]: "lower_char (lower_char c) = lower_char c"
  by (simp add: lower_char_def Let_def)

lemma ToLower_idem [simp]: "ToLower (ToLower s) = ToLower s"
  by (simp add: ToLower_def)

lemma length_ToLower [simp]: "length (ToLower s) = length s"
  by (simp add: ToLower_def)

lemma lower_char_ascii: "(of_char c :: nat) < 128 \<Longrightarrow> (of_char (lower_char c) :: nat) < 128"
  by (simp add: lower_char_def Let_def)

text \<open>What \<open>NormalizeQName\<close> computes: the name without its trailing dot, in lower case.\<close>

lemma NormalizeQName_lower:
  "NormalizeQName str =
     (if str = [] \<or> str = ''.'' then Inr ''.''
      else if is_ascii (trim_suffix str ''.'') then Inr (ToLower (trim_suffix str ''.'')) else Inl NotAscii)"
proof -
  have "ToLower s = s" if "\<not> list_ex (\<lambda>c. 65 \<le> (of_char c :: nat) \<and> (of_char c :: nat) \<le> 90) s" for s
    using that by (induction s) (auto simp: ToLower_def lower_char_def Let_def)
  moreover have "map (\<lambda>c. if 65 \<le> (of_char c :: nat) \<and> (of_char c :: nat) \<le> 90
      then char_of ((of_char c :: nat) + 32) else c) s = ToLower s" for s
    by (simp add: ToLower_def lower_char_def Let_def)
  ultimately show ?thesis
    by (simp add: NormalizeQName_def Let_def)
qed

lemma NormalizeQName_ascii_lower:
  assumes "NormalizeQName str = Inr q"
  shows "is_ascii q \<and> ToLower q = q \<and> q \<noteq> [] \<or> q = []"
  using assms
  by (auto simp: NormalizeQName_lower is_ascii_def list_all_length ToLower_def lower_char_ascii lower_char_def Let_def split: if_splits)

section \<open>Framing\<close>

lemma PrefixWithSize_eq:
  "PrefixWithSize p = (if length p > 65535 then Inl FrameTooLarge else Inr (put16 (of_nat (length p)) @ p))"
  by (simp add: PrefixWithSize_def Let_def)

lemma be16_nth_append:
  assumes "buf @ rest = put16 w @ p" "2 \<le> length buf"
  shows "be16 (buf ! 0) (buf ! 1) = w"
  using assms by (cases buf; cases "tl buf") (auto simp: put16_def)

lemma frame_length_sound:
  assumes "buf @ rest = put16 (of_nat n) @ p" "2 \<le> length buf" "17 \<le> n" "n \<le> 4095"
  shows "frame_length buf None = Inr (Some n)"
proof -
  have "be16 (buf ! 0) (buf ! 1) = of_nat n"
    by (rule be16_nth_append [OF assms(1,2)])
  moreover have "unat (of_nat n :: u16) = n"
    using assms by (simp add: unat_of_nat)
  ultimately show ?thesis
    using assms by (simp add: frame_length_def MaxDNSPacketSize_def MinDNSPacketSize_def)
qed

text \<open>The read loop: as long as the frame is incomplete the length is known exactly when its two bytes are.\<close>

lemma read_prefixed_frame:
  assumes "buf @ concat cs = put16 (of_nat (length p)) @ p @ rest"
    and "17 \<le> length p" "length p \<le> 4095" "length buf < 2 + length p"
    and "pl = (if 2 \<le> length buf then Some (length p) else None)"
  shows "read_prefixed (map Delivered cs @ rs) pl buf = Some (Inr p)"
  using assms
proof (induction cs arbitrary: buf pl)
  case Nil
  then show ?case
    by (metis append.assoc append_Nil2 concat.simps(1) length_append length_put16 less_add_same_cancel1 not_add_less1)
next
  case (Cons c cs)
  let ?t = "take (2 + MaxDNSPacketSize - length buf) c" and ?u = "drop (2 + MaxDNSPacketSize - length buf) c"
  let ?buf = "buf @ ?t"
  have all: "?buf @ (?u @ concat cs) = put16 (of_nat (length p)) @ p @ rest"
    using Cons.prems(1) append_take_drop_id [of "2 + MaxDNSPacketSize - length buf" c]
    by (metis append.assoc concat.simps(2))
  have len: "frame_length ?buf pl = Inr (if 2 \<le> length ?buf then Some (length p) else None)"
  proof (cases "2 \<le> length buf")
    case True
    then show ?thesis using Cons.prems(5) by (simp add: frame_length_def)
  next
    case False
    then show ?thesis
      using Cons.prems frame_length_sound [OF all] by (auto simp: frame_length_def)
  qed
  show ?case
  proof (cases "2 + length p \<le> length ?buf")
    case True
    have "take (length p) (drop 2 ?buf) = take (length p) (drop 2 (?buf @ (?u @ concat cs)))"
      using True by simp
    also have "\<dots> = p" unfolding all by simp
    finally show ?thesis
      using True len by (simp add: Let_def del: drop_append)
  next
    case False
    have "?t = c"
      using False Cons.prems by (auto simp: MaxDNSPacketSize_def)
    then have u: "?u = []" by (metis append_self_conv append_take_drop_id)
    have step: "read_prefixed (map Delivered (c # cs) @ rs) pl buf =
        read_prefixed (map Delivered cs @ rs) (if 2 \<le> length ?buf then Some (length p) else None) ?buf"
      using False len by (simp add: Let_def)
    show ?thesis
      unfolding step
      by (rule Cons.IH) (use all u False Cons.prems in auto)
  qed
qed

text \<open>A framed packet survives the TCP stream. However the network cuts the stream into pieces, and whatever
  follows, reading a packet of 17 to 4095 bytes that was framed with its size returns exactly that packet.
\<close>

theorem framed_packet_roundtrip:
  assumes "17 \<le> length p" "length p \<le> 4095"
    and "PrefixWithSize p = Inr frame" "concat cs = frame @ rest"
  shows "ReadPrefixed (map Delivered cs @ rs) = Some (Inr p)"
  unfolding ReadPrefixed_def
  by (rule read_prefixed_frame [where rest = rest]) (use assms in \<open>auto simp: PrefixWithSize_eq\<close>)

theorem framed_packet_roundtrip_witness:
  "ReadPrefixed (map Delivered [[0], [17, 1, 2], replicate 20 3] @ []) = Some (Inr ([1, 2] @ replicate 15 3))"
proof -
  have "PrefixWithSize ([1, 2] @ replicate 15 3) = Inr ([0, 17, 1, 2] @ replicate 15 3)"
    by (simp add: PrefixWithSize_eq put16_def)
  moreover have "concat [[0], [17, 1, 2], replicate 20 3] = ([0, 17, 1, 2] @ replicate 15 (3 :: byte)) @ replicate 5 3"
    by (simp add: numeral_eq_Suc)
  ultimately show ?thesis
    by (rule framed_packet_roundtrip [rotated 2]) simp_all
qed

text \<open>
  A packet of 4096 bytes, the largest size that is accepted for queries and responses, can be framed and sent but
  not read back: the reader allows one byte less.
\<close>

theorem largest_packet_unreadable:
  assumes "length p = MaxDNSPacketSize" "PrefixWithSize p = Inr frame"
  shows "ReadPrefixed (Delivered frame # rs) = Some (Inl FrameTooLarge)"
proof -
  have "be16 (frame ! 0) (frame ! 1) = 4096" "length frame = 4098"
    using assms be16_nth_append [of frame "[]" 4096 p] by (auto simp: PrefixWithSize_eq MaxDNSPacketSize_def)
  then show ?thesis
    by (simp add: ReadPrefixed_def MaxDNSPacketSize_def frame_length_def)
qed

end
