(* ===== verification/Nd_Filters.thy ===== *)
theory Nd_Filters
  imports Dc_Common
begin

text \<open>
  \<open>pkg/ndisapi/ndisapi-go/driver/static_filters.go\<close>, \<open>filter.go\<close> and the filter types of \<open>ndisapi_static.go\<close>: the list of packet
  filters kept beside the table of the packet filter driver. The driver is an argument: what each request does to its state, or that
  the request fails. A union of filter types is a datatype whose constructor is the selector; a nil slice is \<open>None\<close>.
\<close>

unbundle bit_operations_syntax

section \<open>Filter types\<close>

record IPNet =
  net_IP :: "net_IP option"
  net_Mask :: bytes

record IPv4Subnet =
  IP4 :: u32
  IP4Mask :: u32

datatype IPv4Address = V4Unset | V4Subnet IPv4Subnet | V4Range u32 u32

record IPv4Filter =
  v4_ValidFields :: u32
  v4_Source :: IPv4Address
  v4_Destination :: IPv4Address
  v4_Protocol :: byte

datatype IPv6Address = V6Unset | V6Subnet bytes bytes | V6Range bytes bytes

record IPv6Filter =
  v6_ValidFields :: u32
  v6_Source :: IPv6Address
  v6_Destination :: IPv6Address
  v6_Protocol :: byte

record TCPUDPFilter =
  tu_ValidFields :: u32
  tu_SourcePort :: "u16 \<times> u16"
  tu_DestinationPort :: "u16 \<times> u16"
  tu_TCPFlags :: byte

record Eth8023Filter =
  eth_ValidFields :: u32
  eth_Source :: bytes
  eth_Destination :: bytes
  eth_Protocol :: u16

text \<open>
  The union of the network layer has the size of the larger IPv6 filter: an IPv4 filter that is written over an IPv6 filter leaves the end of that one in place, which
  nothing reads but which is part of the table; it is the second argument.
\<close>

datatype NetworkLayerFilter = NetUnset | NetIPv4 IPv4Filter "IPv6Filter option" | NetIPv6 IPv6Filter

definition left_over :: "NetworkLayerFilter \<Rightarrow> IPv6Filter option" where
  "left_over l = (case l of NetUnset \<Rightarrow> None | NetIPv4 _ u \<Rightarrow> u | NetIPv6 g \<Rightarrow> Some g)"

definition SetIPv4 :: "IPv4Filter \<Rightarrow> NetworkLayerFilter \<Rightarrow> NetworkLayerFilter" where
  "SetIPv4 f l = NetIPv4 f (left_over l)"

definition SetIPv6 :: "IPv6Filter \<Rightarrow> NetworkLayerFilter \<Rightarrow> NetworkLayerFilter" where
  "SetIPv6 f l = NetIPv6 f"

datatype TransportLayerFilter = TransUnset | TransTCPUDP TCPUDPFilter | TransICMP u32

text \<open>The driver's counters, zero in every filter written here and read by nothing here, and the pointer a read filter keeps to them are left out.\<close>

record StaticFilter =
  sf_Adapter :: bytes
  sf_DirectionFlags :: u32
  sf_FilterAction :: u32
  sf_ValidFields :: u32
  sf_DataLinkSelector :: u32
  sf_DataLink :: Eth8023Filter
  sf_Network :: NetworkLayerFilter
  sf_Transport :: TransportLayerFilter

datatype PacketDirection = DirectionIn | DirectionOut | DirectionBoth

datatype FilterAction = ActionPass | ActionDrop | ActionRedirect | ActionPassRedirect | ActionDropRedirect

record Filter =
  f_Adapter :: bytes
  f_SourceMac :: "bytes option"
  f_DestinationMac :: "bytes option"
  f_EthernetType :: u16
  f_SourceAddress :: IPNet
  f_DestinationAddress :: IPNet
  f_SourcePort :: "u16 \<times> u16"
  f_DestinationPort :: "u16 \<times> u16"
  f_Protocol :: byte
  f_Direction :: PacketDirection
  f_Action :: FilterAction

definition no_net :: IPNet where
  "no_net = \<lparr>net_IP = None, net_Mask = []\<rparr>"


definition le_word :: "bytes \<Rightarrow> u32" where
  "le_word b = ucast (b ! 0) OR push_bit 8 (ucast (b ! 1)) OR push_bit 16 (ucast (b ! 2)) OR push_bit 24 (ucast (b ! 3))"

definition le32 :: "bytes \<Rightarrow> (unit, u32) outcome" where
  "le32 b = (if length b < 4 then Panic else Ret (le_word b))"

definition put_le32 :: "u32 \<Rightarrow> bytes" where
  "put_le32 w = [ucast w, ucast (drop_bit 8 w), ucast (drop_bit 16 w), ucast (drop_bit 24 w)]"

definition fixed :: "nat \<Rightarrow> bytes \<Rightarrow> bytes" where
  "fixed n b = take n b @ replicate (n - length b) 0"

definition IPv4AddressFromIP :: "IPNet \<Rightarrow> (unit, IPv4Address option) outcome" where
  "IPv4AddressFromIP n =
     (case Option.bind (net_IP n) To4 of
        None \<Rightarrow> Ret None
      | Some ipv4 \<Rightarrow>
          obind (le32 (net_Mask n)) (\<lambda>ipMask.
          obind (le32 ipv4) (\<lambda>ip. Ret (Some (V4Subnet \<lparr>IP4 = ip, IP4Mask = ipMask\<rparr>)))))"

definition IPv4AddressToIPNet :: "IPv4Address \<Rightarrow> IPNet" where
  "IPv4AddressToIPNet a =
     (case a of
        V4Subnet s \<Rightarrow> \<lparr>net_IP = Some (put_le32 (IP4 s)), net_Mask = put_le32 (IP4Mask s)\<rparr>
      | V4Range lo hi \<Rightarrow> \<lparr>net_IP = Some (put_le32 lo), net_Mask = replicate 4 255\<rparr>
      | V4Unset \<Rightarrow> no_net)"

definition IPv6AddressFromIP :: "IPNet \<Rightarrow> IPv6Address option" where
  "IPv6AddressFromIP n =
     (case Option.bind (net_IP n) To16 of
        None \<Rightarrow> None
      | Some ipv6 \<Rightarrow> Some (V6Subnet ipv6 (fixed 16 (net_Mask n))))"

definition IPv6AddressToIPNet :: "IPv6Address \<Rightarrow> IPNet" where
  "IPv6AddressToIPNet a =
     (case a of
        V6Subnet ip m \<Rightarrow> \<lparr>net_IP = Some ip, net_Mask = m\<rparr>
      | V6Range lo hi \<Rightarrow> \<lparr>net_IP = Some lo, net_Mask = replicate 16 255\<rparr>
      | V6Unset \<Rightarrow> no_net)"

section \<open>Conversion to the driver's filters\<close>

definition direction_flags :: "PacketDirection \<Rightarrow> u32" where
  "direction_flags d = (case d of DirectionIn \<Rightarrow> 2 | DirectionOut \<Rightarrow> 1 | DirectionBoth \<Rightarrow> 1 OR 2)"

definition action_code :: "FilterAction \<Rightarrow> u32" where
  "action_code a =
     (case a of ActionPass \<Rightarrow> 1 | ActionDrop \<Rightarrow> 2 | ActionRedirect \<Rightarrow> 3 | ActionPassRedirect \<Rightarrow> 4 | ActionDropRedirect \<Rightarrow> 5)"

definition empty_eth :: Eth8023Filter where
  "empty_eth = \<lparr>eth_ValidFields = 0, eth_Source = replicate 6 0, eth_Destination = replicate 6 0, eth_Protocol = 0\<rparr>"

definition data_link :: "Filter \<Rightarrow> Eth8023Filter" where
  "data_link f =
     (let e = empty_eth;
          e = (case f_SourceMac f of None \<Rightarrow> e | Some m \<Rightarrow> e\<lparr>eth_ValidFields := eth_ValidFields e OR 1, eth_Source := fixed 6 m\<rparr>);
          e = (case f_DestinationMac f of None \<Rightarrow> e | Some m \<Rightarrow> e\<lparr>eth_ValidFields := eth_ValidFields e OR 2, eth_Destination := fixed 6 m\<rparr>) in
      if f_EthernetType f > 0 then e\<lparr>eth_ValidFields := eth_ValidFields e OR 4, eth_Protocol := f_EthernetType f\<rparr> else e)"

definition is_v4 :: "IPNet \<Rightarrow> bool" where
  "is_v4 n = (Option.bind (net_IP n) To4 \<noteq> None)"

text \<open>Each criterion of the network layer writes a whole filter, of one of the two families, over what was there.\<close>

definition set_source :: "IPNet \<Rightarrow> NetworkLayerFilter \<Rightarrow> (unit, NetworkLayerFilter) outcome" where
  "set_source n l =
     (if is_v4 n then
        obind (IPv4AddressFromIP n) (\<lambda>a.
          case a of
            None \<Rightarrow> Panic
          | Some a \<Rightarrow> Ret (SetIPv4 \<lparr>v4_ValidFields = 1, v4_Source = a, v4_Destination = V4Unset, v4_Protocol = 0\<rparr> l))
      else
        (case IPv6AddressFromIP n of
           None \<Rightarrow> Panic
         | Some a \<Rightarrow> Ret (SetIPv6 \<lparr>v6_ValidFields = 1, v6_Source = a, v6_Destination = V6Unset, v6_Protocol = 0\<rparr> l)))"

definition set_destination :: "IPNet \<Rightarrow> NetworkLayerFilter \<Rightarrow> (unit, NetworkLayerFilter) outcome" where
  "set_destination n l =
     (if is_v4 n then
        obind (IPv4AddressFromIP n) (\<lambda>a.
          case a of
            None \<Rightarrow> Panic
          | Some a \<Rightarrow> Ret (SetIPv4 \<lparr>v4_ValidFields = 2, v4_Source = V4Unset, v4_Destination = a, v4_Protocol = 0\<rparr> l))
      else
        (case IPv6AddressFromIP n of
           None \<Rightarrow> Panic
         | Some a \<Rightarrow> Ret (SetIPv6 \<lparr>v6_ValidFields = 2, v6_Source = V6Unset, v6_Destination = a, v6_Protocol = 0\<rparr> l)))"

definition set_protocol :: "IPNet \<Rightarrow> byte \<Rightarrow> NetworkLayerFilter \<Rightarrow> NetworkLayerFilter" where
  "set_protocol n p l =
     (if is_v4 n then SetIPv4 \<lparr>v4_ValidFields = 4, v4_Source = V4Unset, v4_Destination = V4Unset, v4_Protocol = p\<rparr> l
      else SetIPv6 \<lparr>v6_ValidFields = 4, v6_Source = V6Unset, v6_Destination = V6Unset, v6_Protocol = p\<rparr> l)"

definition network_layer :: "Filter \<Rightarrow> (unit, NetworkLayerFilter) outcome" where
  "network_layer f =
     obind (if net_IP (f_SourceAddress f) \<noteq> None then set_source (f_SourceAddress f) NetUnset else Ret NetUnset) (\<lambda>n.
     obind (if net_IP (f_DestinationAddress f) \<noteq> None then set_destination (f_DestinationAddress f) n else Ret n) (\<lambda>n.
       Ret (if f_Protocol f > 0 \<and> net_IP (f_SourceAddress f) \<noteq> None then set_protocol (f_SourceAddress f) (f_Protocol f) n else n)))"

definition transport_layer :: "Filter \<Rightarrow> TransportLayerFilter" where
  "transport_layer f =
     (let t = (if f_SourcePort f \<noteq> (0, 0)
               then TransTCPUDP \<lparr>tu_ValidFields = 1, tu_SourcePort = f_SourcePort f, tu_DestinationPort = (0, 0), tu_TCPFlags = 0\<rparr>
               else TransUnset) in
      if f_DestinationPort f \<noteq> (0, 0)
      then TransTCPUDP \<lparr>tu_ValidFields = 2, tu_SourcePort = (0, 0), tu_DestinationPort = f_DestinationPort f, tu_TCPFlags = 0\<rparr>
      else t)"

definition has_data_link :: "Filter \<Rightarrow> bool" where
  "has_data_link f = (f_SourceMac f \<noteq> None \<or> f_DestinationMac f \<noteq> None \<or> f_EthernetType f > 0)"

definition has_network :: "Filter \<Rightarrow> bool" where
  "has_network f = (net_IP (f_SourceAddress f) \<noteq> None \<or> net_IP (f_DestinationAddress f) \<noteq> None \<or> f_Protocol f > 0)"

definition has_transport :: "Filter \<Rightarrow> bool" where
  "has_transport f = (f_SourcePort f \<noteq> (0, 0) \<or> f_DestinationPort f \<noteq> (0, 0))"

definition toStaticFilter :: "Filter \<Rightarrow> (unit, StaticFilter) outcome" where
  "toStaticFilter f =
     obind (network_layer f) (\<lambda>n.
       Ret \<lparr>sf_Adapter = f_Adapter f,
            sf_DirectionFlags = direction_flags (f_Direction f),
            sf_FilterAction = action_code (f_Action f),
            sf_ValidFields =
              (if has_data_link f then 1 else 0) OR (if has_network f then 2 else 0) OR (if has_transport f then 4 else 0),
            sf_DataLinkSelector = (if has_data_link f then 1 else 0),
            sf_DataLink = data_link f,
            sf_Network = n,
            sf_Transport = transport_layer f\<rparr>)"

definition flagged :: "u32 \<Rightarrow> u32 \<Rightarrow> bool" where
  "flagged w m = (w AND m \<noteq> 0)"

definition read_direction :: "u32 \<Rightarrow> PacketDirection" where
  "read_direction w =
     (if flagged w 2 then (if flagged w 1 then DirectionBoth else DirectionIn)
      else if flagged w 1 then DirectionOut
      else DirectionIn)"

definition read_action :: "u32 \<Rightarrow> FilterAction" where
  "read_action w =
     (if w = 2 then ActionDrop
      else if w = 3 then ActionRedirect
      else if w = 4 then ActionPassRedirect
      else if w = 5 then ActionDropRedirect
      else ActionPass)"

definition read_data_link :: "StaticFilter \<Rightarrow> bytes option \<times> bytes option \<times> u16" where
  "read_data_link s =
     (let e = sf_DataLink s in
      if flagged (sf_ValidFields s) 1 \<and> sf_DataLinkSelector s = 1
      then (if flagged (eth_ValidFields e) 1 then Some (eth_Source e) else None,
            if flagged (eth_ValidFields e) 2 then Some (eth_Destination e) else None,
            if flagged (eth_ValidFields e) 4 then eth_Protocol e else 0)
      else (None, None, 0))"

definition read_network :: "StaticFilter \<Rightarrow> IPNet \<times> IPNet \<times> byte" where
  "read_network s =
     (if \<not> flagged (sf_ValidFields s) 2 then (no_net, no_net, 0)
      else
        (case sf_Network s of
           NetIPv4 n _ \<Rightarrow>
             (if flagged (v4_ValidFields n) 1 then IPv4AddressToIPNet (v4_Source n) else no_net,
              if flagged (v4_ValidFields n) 2 then IPv4AddressToIPNet (v4_Destination n) else no_net,
              if flagged (v4_ValidFields n) 4 then v4_Protocol n else 0)
         | NetIPv6 n \<Rightarrow>
             (if flagged (v6_ValidFields n) 1 then IPv6AddressToIPNet (v6_Source n) else no_net,
              if flagged (v6_ValidFields n) 2 then IPv6AddressToIPNet (v6_Destination n) else no_net,
              if flagged (v6_ValidFields n) 4 then v6_Protocol n else 0)
         | NetUnset \<Rightarrow> (no_net, no_net, 0)))"

definition read_transport :: "StaticFilter \<Rightarrow> (u16 \<times> u16) \<times> (u16 \<times> u16)" where
  "read_transport s =
     (if \<not> flagged (sf_ValidFields s) 4 then ((0, 0), (0, 0))
      else
        (case sf_Transport s of
           TransTCPUDP t \<Rightarrow>
             (if flagged (tu_ValidFields t) 1 then tu_SourcePort t else (0, 0),
              if flagged (tu_ValidFields t) 2 then tu_DestinationPort t else (0, 0))
         | _ \<Rightarrow> ((0, 0), (0, 0))))"

definition fromStaticFilter :: "StaticFilter \<Rightarrow> Filter" where
  "fromStaticFilter s =
     (let (smac, dmac, ety) = read_data_link s;
          (src, dst, proto) = read_network s;
          (sport, dport) = read_transport s in
      \<lparr>f_Adapter = sf_Adapter s, f_SourceMac = smac, f_DestinationMac = dmac, f_EthernetType = ety,
       f_SourceAddress = src, f_DestinationAddress = dst, f_SourcePort = sport, f_DestinationPort = dport,
       f_Protocol = proto, f_Direction = read_direction (sf_DirectionFlags s), f_Action = read_action (sf_FilterAction s)\<rparr>)"

section \<open>The list and the table\<close>

definition mask_length :: "bytes \<Rightarrow> nat option" where
  "mask_length m =
     (let n = length (takeWhile id (bits_of m)) in if \<exists>b \<in> set (drop n (bits_of m)). b then None else Some n)"

definition networkNumberAndMask :: "IPNet \<Rightarrow> (bytes \<times> bytes) option" where
  "networkNumberAndMask n =
     (case net_IP n of
        None \<Rightarrow> None
      | Some ip \<Rightarrow>
          let ip' = (case To4 ip of Some ip4 \<Rightarrow> ip4 | None \<Rightarrow> ip); m = net_Mask n in
          if length ip' \<noteq> 4 \<and> length ip' \<noteq> 16 then None
          else if length m = 4 then (if length ip' = 4 then Some (ip', m) else None)
          else if length m = 16 then Some (ip', if length ip' = 4 then drop 12 m else m)
          else None)"

definition IPNet_String :: "IPNet \<Rightarrow> string" where
  "IPNet_String n =
     (case networkNumberAndMask n of
        None \<Rightarrow> ''<nil>''
      | Some (ip, m) \<Rightarrow>
          IP_String ip @ ''/'' @ (case mask_length m of None \<Rightarrow> concat (map hex_byte m) | Some l \<Rightarrow> itoa l))"

definition mac_bytes :: "bytes option \<Rightarrow> bytes" where
  "mac_bytes m = (case m of None \<Rightarrow> [] | Some b \<Rightarrow> b)"

definition Filter_Equal :: "Filter \<Rightarrow> Filter \<Rightarrow> bool" where
  "Filter_Equal f other =
     (f_Adapter f = f_Adapter other \<and>
      mac_bytes (f_SourceMac f) = mac_bytes (f_SourceMac other) \<and>
      mac_bytes (f_DestinationMac f) = mac_bytes (f_DestinationMac other) \<and>
      f_EthernetType f = f_EthernetType other \<and>
      IPNet_String (f_SourceAddress f) = IPNet_String (f_SourceAddress other) \<and>
      IPNet_String (f_DestinationAddress f) = IPNet_String (f_DestinationAddress other) \<and>
      f_SourcePort f = f_SourcePort other \<and>
      f_DestinationPort f = f_DestinationPort other \<and>
      f_Protocol f = f_Protocol other \<and>
      f_Direction f = f_Direction other \<and>
      f_Action f = f_Action other)"

text \<open>The requests to the driver; \<open>None\<close> is an error of the request.\<close>

record 'd driver =
  drv_front :: "StaticFilter \<Rightarrow> 'd \<Rightarrow> 'd option"
  drv_back :: "StaticFilter \<Rightarrow> 'd \<Rightarrow> 'd option"
  drv_insert :: "StaticFilter \<Rightarrow> u32 \<Rightarrow> 'd \<Rightarrow> 'd option"
  drv_remove :: "u32 \<Rightarrow> 'd \<Rightarrow> 'd option"
  drv_reset :: "'d \<Rightarrow> 'd option"
  drv_set :: "StaticFilter list \<Rightarrow> 'd \<Rightarrow> 'd option"
  drv_size :: "'d \<Rightarrow> u32 option"
  drv_get :: "u32 \<Rightarrow> 'd \<Rightarrow> StaticFilter list option"
  drv_loaded :: "'d \<Rightarrow> bool"
  drv_caches :: "bool \<Rightarrow> bool \<Rightarrow> 'd \<Rightarrow> 'd option"

record 'd StaticFilters =
  sfs_driver :: 'd
  sfs_Filters :: "Filter list"

definition NewStaticFilters :: "'d driver \<Rightarrow> bool \<Rightarrow> bool \<Rightarrow> 'd \<Rightarrow> 'd StaticFilters option" where
  "NewStaticFilters D filterCache fragmentCache d =
     (if \<not> drv_loaded D d then None
      else map_option (\<lambda>d. \<lparr>sfs_driver = d, sfs_Filters = []\<rparr>) (drv_caches D filterCache fragmentCache d))"

definition StaticFilters_Close :: "'d driver \<Rightarrow> 'd StaticFilters \<Rightarrow> 'd StaticFilters" where
  "StaticFilters_Close D s = (case drv_reset D (sfs_driver s) of None \<Rightarrow> s | Some d \<Rightarrow> s\<lparr>sfs_driver := d\<rparr>)"

definition AddFilterFront :: "'d driver \<Rightarrow> Filter \<Rightarrow> 'd StaticFilters \<Rightarrow> (unit, bool \<times> 'd StaticFilters) outcome" where
  "AddFilterFront D f s =
     obind (toStaticFilter f) (\<lambda>sf. Ret
       (case drv_front D sf (sfs_driver s) of
          None \<Rightarrow> (False, s)
        | Some d \<Rightarrow> (True, \<lparr>sfs_driver = d, sfs_Filters = f # sfs_Filters s\<rparr>)))"

definition AddFilterBack :: "'d driver \<Rightarrow> Filter \<Rightarrow> 'd StaticFilters \<Rightarrow> (unit, bool \<times> 'd StaticFilters) outcome" where
  "AddFilterBack D f s =
     obind (toStaticFilter f) (\<lambda>sf. Ret
       (case drv_back D sf (sfs_driver s) of
          None \<Rightarrow> (False, s)
        | Some d \<Rightarrow> (True, \<lparr>sfs_driver = d, sfs_Filters = sfs_Filters s @ [f]\<rparr>)))"

definition InsertFilter :: "'d driver \<Rightarrow> Filter \<Rightarrow> int \<Rightarrow> 'd StaticFilters \<Rightarrow> (unit, bool \<times> 'd StaticFilters) outcome" where
  "InsertFilter D f position s =
     (if position > int (length (sfs_Filters s)) then Ret (False, s)
      else
        obind (toStaticFilter f) (\<lambda>sf.
          case drv_insert D sf (word_of_int position) (sfs_driver s) of
            None \<Rightarrow> Ret (False, s)
          | Some d \<Rightarrow>
              if position < 0 then Panic
              else
                Ret (True, \<lparr>sfs_driver = d,
                  sfs_Filters = take (nat position) (sfs_Filters s) @ f # drop (nat position) (sfs_Filters s)\<rparr>)))"

definition RemoveFilter :: "'d driver \<Rightarrow> int \<Rightarrow> 'd StaticFilters \<Rightarrow> (unit, bool \<times> 'd StaticFilters) outcome" where
  "RemoveFilter D position s =
     (if position \<ge> int (length (sfs_Filters s)) then Ret (False, s)
      else
        (case drv_remove D (word_of_int position) (sfs_driver s) of
           None \<Rightarrow> Ret (False, s)
         | Some d \<Rightarrow>
             if position < 0 then Panic
             else
               Ret (True, \<lparr>sfs_driver = d,
                 sfs_Filters = take (nat position) (sfs_Filters s) @ drop (Suc (nat position)) (sfs_Filters s)\<rparr>)))"

definition Contains :: "Filter \<Rightarrow> 'd StaticFilters \<Rightarrow> bool" where
  "Contains f s = (\<exists>g \<in> set (sfs_Filters s). Filter_Equal g f)"

fun to_table :: "Filter list \<Rightarrow> (unit, StaticFilter list) outcome" where
  "to_table [] = Ret []"
| "to_table (f # fs) = obind (toStaticFilter f) (\<lambda>s. obind (to_table fs) (\<lambda>t. Ret (s # t)))"

definition StoreTable :: "'d driver \<Rightarrow> 'd StaticFilters \<Rightarrow> (unit, bool \<times> 'd StaticFilters) outcome" where
  "StoreTable D s =
     obind (to_table (sfs_Filters s)) (\<lambda>t. Ret
       (case drv_set D t (sfs_driver s) of None \<Rightarrow> (False, s) | Some d \<Rightarrow> (True, s\<lparr>sfs_driver := d\<rparr>)))"

definition LoadTable :: "'d driver \<Rightarrow> 'd StaticFilters \<Rightarrow> (StaticFilter list) option \<times> 'd StaticFilters" where
  "LoadTable D s =
     (case drv_size D (sfs_driver s) of
        None \<Rightarrow> (None, s)
      | Some n \<Rightarrow>
          if n = 0 then (None, s)
          else
            (case drv_get D n (sfs_driver s) of
               None \<Rightarrow> (None, s)
             | Some t \<Rightarrow> (Some t, s\<lparr>sfs_Filters := map fromStaticFilter t\<rparr>)))"

lemma RemoveFilter_shrinks:
  assumes "RemoveFilter D p s = Ret (True, s')"
  shows "length (sfs_Filters s') < length (sfs_Filters s)"
  using assms by (auto simp: RemoveFilter_def split: if_splits option.splits)

lemma RemoveFilter_False:
  assumes "RemoveFilter D p s = Ret (False, s')"
  shows "s' = s"
  using assms by (auto simp: RemoveFilter_def split: if_splits option.splits)

text \<open>
  The loop over the list keeps two positions, which are always equal. After a successful removal it slices the list, already shorter, once
  more.
\<close>

function remove_loop :: "'d driver \<Rightarrow> (Filter \<Rightarrow> bool) \<Rightarrow> nat \<Rightarrow> 'd StaticFilters \<Rightarrow> (unit, 'd StaticFilters) outcome" where
  "remove_loop D pred it s =
     (if \<not> it < length (sfs_Filters s) then Ret s
      else if pred (sfs_Filters s ! it) then
        (case RemoveFilter D (int it) s of
           Ret (True, s') \<Rightarrow>
             if Suc it > length (sfs_Filters s') then Panic
             else remove_loop D pred it (s'\<lparr>sfs_Filters := take it (sfs_Filters s') @ drop (Suc it) (sfs_Filters s')\<rparr>)
         | Ret (False, s') \<Rightarrow> remove_loop D pred (Suc it) s'
         | _ \<Rightarrow> Panic)
      else remove_loop D pred (Suc it) s)"
  by pat_completeness auto
termination
  by (relation "measure (\<lambda>(D, pred, it, s). length (sfs_Filters s) - it)")
     (auto dest!: RemoveFilter_shrinks RemoveFilter_False)

definition RemoveFiltersIf :: "'d driver \<Rightarrow> (Filter \<Rightarrow> bool) \<Rightarrow> 'd StaticFilters \<Rightarrow> (unit, 'd StaticFilters) outcome" where
  "RemoveFiltersIf D pred s = remove_loop D pred 0 s"

declare remove_loop.simps [simp del]


text \<open>
  The table in the driver's buffer: the number of filters, four bytes of padding, and the filters, each in the bytes of its layout in memory
  (\<open>enc\<close>, of \<open>sz\<close> bytes, read back by \<open>dec\<close>).
\<close>

definition marshalStaticFilterTable :: "('f \<Rightarrow> bytes) \<Rightarrow> 'f list \<Rightarrow> bytes" where
  "marshalStaticFilterTable enc fs =
     (let tableSize = word_of_nat (length fs) :: u32 in
      put_le32 tableSize @ replicate 4 0 @ concat (map enc (take (unat tableSize) fs)))"

definition GetPacketFilterTable :: "(bytes \<Rightarrow> 'f) \<Rightarrow> nat \<Rightarrow> u32 \<Rightarrow> bytes \<Rightarrow> 'f list" where
  "GetPacketFilterTable dec sz tableSize buf = map (\<lambda>i. dec (take sz (drop (8 + i * sz) buf))) [0..<unat tableSize]"

section \<open>What a filter becomes in the driver\<close>

definition canonical_net :: "IPNet \<Rightarrow> IPNet" where
  "canonical_net n =
     (case Option.bind (net_IP n) To4 of
        Some ip4 \<Rightarrow> \<lparr>net_IP = Some ip4, net_Mask = take 4 (net_Mask n)\<rparr>
      | None \<Rightarrow> \<lparr>net_IP = net_IP n, net_Mask = fixed 16 (net_Mask n)\<rparr>)"

text \<open>The criteria of a filter that reach the driver: the last one set of each layer's addresses and ports.\<close>

definition survivors :: "Filter \<Rightarrow> Filter" where
  "survivors f =
     (let src = f_SourceAddress f; dst = f_DestinationAddress f;
          proto = f_Protocol f > 0 \<and> net_IP src \<noteq> None in
      f\<lparr>f_SourceMac := map_option (fixed 6) (f_SourceMac f),
        f_DestinationMac := map_option (fixed 6) (f_DestinationMac f),
        f_SourceAddress := (if \<not> proto \<and> net_IP dst = None \<and> net_IP src \<noteq> None then canonical_net src else no_net),
        f_DestinationAddress := (if \<not> proto \<and> net_IP dst \<noteq> None then canonical_net dst else no_net),
        f_Protocol := (if proto then f_Protocol f else 0),
        f_SourcePort := (if f_DestinationPort f = (0, 0) then f_SourcePort f else (0, 0))\<rparr>)"

lemma byte_bit_high: "\<not> bit (x :: byte) (8 + n)" "\<not> bit (x :: byte) (16 + n)" "\<not> bit (x :: byte) (24 + n)"
  by (auto dest: bit_imp_le_length)

lemma le32_put:
  assumes "le32 b = Ret w"
  shows "put_le32 w = take 4 b"
proof -
  from assms have "4 \<le> length b"
    and w: "w = ucast (b ! 0) OR push_bit 8 (ucast (b ! 1)) OR push_bit 16 (ucast (b ! 2)) OR push_bit 24 (ucast (b ! 3))"
    by (auto simp: le32_def le_word_def split: if_splits)
  then obtain x y z u t where b: "b = x # y # z # u # t"
    by (auto simp: numeral_eq_Suc Suc_le_length_iff)
  show ?thesis
    by (simp add: w b put_le32_def) (auto intro!: bit_word_eqI simp: bit_simps byte_bit_high)
qed

lemma to4_length:
  assumes "To4 ip = Some ip4"
  shows "length ip4 = 4"
  using assms by (auto simp: To4_def split: if_splits)

lemma length_put_le32 [simp]: "length (put_le32 w) = 4"
  by (simp add: put_le32_def)

lemma flagged_small [simp]:
  "flagged 1 1" "\<not> flagged 1 2" "\<not> flagged 1 4" "\<not> flagged 2 1" "flagged 2 2" "\<not> flagged 2 4"
  "\<not> flagged 4 1" "\<not> flagged 4 2" "flagged 4 4" "\<not> flagged 0 m"
  by (simp_all add: flagged_def)

lemma read_direction_flags [simp]: "read_direction (direction_flags d) = d"
  by (cases d) (simp_all add: read_direction_def direction_flags_def flagged_def)

lemma read_action_code [simp]: "read_action (action_code a) = a"
  by (cases a) (simp_all add: read_action_def action_code_def)


lemma canonical_v4:
  assumes "IPv4AddressFromIP n = Ret (Some a)"
  shows "IPv4AddressToIPNet a = canonical_net n"
proof -
  from assms obtain ip4 w m where ip4: "Option.bind (net_IP n) To4 = Some ip4" "le32 (net_Mask n) = Ret m" "le32 ip4 = Ret w"
    and a: "a = V4Subnet \<lparr>IP4 = w, IP4Mask = m\<rparr>"
    by (auto simp: IPv4AddressFromIP_def obind_Ret_conv split: option.splits)
  have "length ip4 = 4"
    using ip4(1) by (auto simp: bind_eq_Some_conv dest: to4_length)
  then show ?thesis
    by (simp add: a IPv4AddressToIPNet_def canonical_net_def ip4(1) le32_put [OF ip4(2)] le32_put [OF ip4(3)])
qed

lemma canonical_v6:
  assumes "IPv6AddressFromIP n = Some a" "\<not> is_v4 n"
  shows "IPv6AddressToIPNet a = canonical_net n"
  using assms
  by (auto simp: IPv6AddressFromIP_def IPv6AddressToIPNet_def canonical_net_def is_v4_def To16_def To4_def bind_eq_Some_conv
        split: option.splits if_splits)


lemma to4_some:
  assumes "is_v4 n"
  shows "\<exists>ip4. Option.bind (net_IP n) To4 = Some ip4"
  using assms by (auto simp: is_v4_def)

lemma set_source_reads:
  assumes "set_source n l0 = Ret l"
  shows "(\<exists>g u. l = NetIPv4 g u \<and> v4_ValidFields g = 1 \<and> IPv4AddressToIPNet (v4_Source g) = canonical_net n)
    \<or> (\<exists>g. l = NetIPv6 g \<and> v6_ValidFields g = 1 \<and> IPv6AddressToIPNet (v6_Source g) = canonical_net n)"
  using assms
  by (auto simp: set_source_def SetIPv4_def SetIPv6_def obind_Ret_conv canonical_v4 canonical_v6 split: if_splits option.splits)

lemma set_destination_reads:
  assumes "set_destination n l0 = Ret l"
  shows "(\<exists>g u. l = NetIPv4 g u \<and> v4_ValidFields g = 2 \<and> IPv4AddressToIPNet (v4_Destination g) = canonical_net n)
    \<or> (\<exists>g. l = NetIPv6 g \<and> v6_ValidFields g = 2 \<and> IPv6AddressToIPNet (v6_Destination g) = canonical_net n)"
  using assms
  by (auto simp: set_destination_def SetIPv4_def SetIPv6_def obind_Ret_conv canonical_v4 canonical_v6 split: if_splits option.splits)

lemma toStaticFilter_Ret:
  assumes "toStaticFilter f = Ret s"
  obtains l where "network_layer f = Ret l" "sf_Network s = l" "sf_DataLink s = data_link f" "sf_Transport s = transport_layer f"
    "sf_Adapter s = f_Adapter f" "sf_DirectionFlags s = direction_flags (f_Direction f)" "sf_FilterAction s = action_code (f_Action f)"
    "flagged (sf_ValidFields s) 1 \<longleftrightarrow> has_data_link f" "flagged (sf_ValidFields s) 2 \<longleftrightarrow> has_network f"
    "flagged (sf_ValidFields s) 4 \<longleftrightarrow> has_transport f" "sf_DataLinkSelector s = (if has_data_link f then 1 else 0)"
  using assms by (auto simp: toStaticFilter_def obind_Ret_conv flagged_def)

lemma network_layer_cases:
  assumes "network_layer f = Ret l"
  obtains (proto) l0 where "f_Protocol f > 0" "net_IP (f_SourceAddress f) \<noteq> None" "l = set_protocol (f_SourceAddress f) (f_Protocol f) l0"
  | (dst) l0 where "\<not> (f_Protocol f > 0 \<and> net_IP (f_SourceAddress f) \<noteq> None)" "net_IP (f_DestinationAddress f) \<noteq> None"
      "set_destination (f_DestinationAddress f) l0 = Ret l"
  | (src) "\<not> f_Protocol f > 0" "net_IP (f_SourceAddress f) \<noteq> None" "net_IP (f_DestinationAddress f) = None"
      "set_source (f_SourceAddress f) NetUnset = Ret l"
  | (unset) "net_IP (f_SourceAddress f) = None" "net_IP (f_DestinationAddress f) = None" "l = NetUnset"
  using assms by (auto simp: network_layer_def obind_Ret_conv split: if_splits)

lemma read_network_survivors:
  assumes "toStaticFilter f = Ret s"
  shows "read_network s = (f_SourceAddress (survivors f), f_DestinationAddress (survivors f), f_Protocol (survivors f))"
proof -
  from assms obtain l where l: "network_layer f = Ret l" "sf_Network s = l" "flagged (sf_ValidFields s) 2 \<longleftrightarrow> has_network f"
    by (rule toStaticFilter_Ret)
  show ?thesis
    using l(1)
  proof (cases rule: network_layer_cases)
    case proto
    then show ?thesis
      by (auto simp: read_network_def l has_network_def survivors_def set_protocol_def SetIPv4_def SetIPv6_def Let_def)
  next
    case dst
    then show ?thesis
      using set_destination_reads [OF dst(3)] by (auto simp: read_network_def l has_network_def survivors_def Let_def)
  next
    case src
    then show ?thesis
      using set_source_reads [OF src(4)] by (auto simp: read_network_def l has_network_def survivors_def Let_def)
  next
    case unset
    then show ?thesis
      by (simp add: read_network_def l has_network_def survivors_def Let_def)
  qed
qed

lemma read_data_link_survivors:
  assumes "toStaticFilter f = Ret s"
  shows "read_data_link s = (f_SourceMac (survivors f), f_DestinationMac (survivors f), f_EthernetType (survivors f))"
proof -
  from assms have "sf_DataLink s = data_link f" "flagged (sf_ValidFields s) 1 \<longleftrightarrow> has_data_link f"
    "sf_DataLinkSelector s = (if has_data_link f then 1 else 0)"
    by (auto elim: toStaticFilter_Ret)
  then show ?thesis
    by (auto simp: read_data_link_def data_link_def has_data_link_def survivors_def empty_eth_def Let_def flagged_def word_gt_0
          split: option.splits)
qed

lemma read_transport_survivors:
  assumes "toStaticFilter f = Ret s"
  shows "read_transport s = (f_SourcePort (survivors f), f_DestinationPort (survivors f))"
proof -
  from assms have "sf_Transport s = transport_layer f" "flagged (sf_ValidFields s) 4 \<longleftrightarrow> has_transport f"
    by (auto elim: toStaticFilter_Ret)
  then show ?thesis
    by (auto simp: read_transport_def transport_layer_def has_transport_def survivors_def Let_def)
qed

text \<open>
  A filter read back from its driver form has the adapter, the MAC addresses, the Ethernet type, the direction and the action it was
  given, and of the other criteria exactly the last one set: the protocol alone when the source address is set too, else the
  destination address, else the source address; and the destination ports, else the source ports.
\<close>

lemma filter_reads_back:
  assumes "toStaticFilter f = Ret s"
  shows "fromStaticFilter s = survivors f"
proof -
  have "sf_Adapter s = f_Adapter f" "sf_DirectionFlags s = direction_flags (f_Direction f)" "sf_FilterAction s = action_code (f_Action f)"
    using assms by (auto elim: toStaticFilter_Ret)
  then have "fromStaticFilter s =
      survivors f\<lparr>f_Adapter := f_Adapter f, f_Direction := f_Direction f, f_Action := f_Action f\<rparr>"
    by (simp add: fromStaticFilter_def read_network_survivors [OF assms] read_data_link_survivors [OF assms]
        read_transport_survivors [OF assms])
  then show ?thesis
    by (simp add: survivors_def Let_def)
qed


section \<open>The list follows the table\<close>

datatype filter_op = Front Filter | Back Filter | InsertAt Filter int | RemoveAt int | RemoveIf "Filter \<Rightarrow> bool" | Store | Load

text \<open>The result of an operation: whether it succeeded, where it says so.\<close>

definition apply_op :: "'d driver \<Rightarrow> filter_op \<Rightarrow> 'd StaticFilters \<Rightarrow> (unit, bool \<times> 'd StaticFilters) outcome" where
  "apply_op D c s =
     (case c of
        Front f \<Rightarrow> AddFilterFront D f s
      | Back f \<Rightarrow> AddFilterBack D f s
      | InsertAt f i \<Rightarrow> InsertFilter D f i s
      | RemoveAt i \<Rightarrow> RemoveFilter D i s
      | RemoveIf p \<Rightarrow> obind (RemoveFiltersIf D p s) (\<lambda>s. Ret (True, s))
      | Store \<Rightarrow> StoreTable D s
      | Load \<Rightarrow> (case LoadTable D s of (t, s) \<Rightarrow> Ret (t \<noteq> None, s)))"

fun apply_ops :: "'d driver \<Rightarrow> filter_op list \<Rightarrow> 'd StaticFilters \<Rightarrow> (unit, bool list \<times> 'd StaticFilters) outcome" where
  "apply_ops D [] s = Ret ([], s)"
| "apply_ops D (c # cs) s =
     obind (apply_op D c s) (\<lambda>(ok, s). obind (apply_ops D cs s) (\<lambda>(oks, s). Ret (ok # oks, s)))"

text \<open>
  Whether list and table are known to agree after a sequence of operations, from whether they did before and which operations succeeded: a store that succeeds makes
  them agree, a removal by predicate and a load that succeeds may not, every other operation leaves it as it was.
\<close>

fun synced :: "bool \<Rightarrow> filter_op list \<Rightarrow> bool list \<Rightarrow> bool" where
  "synced b (Store # cs) (ok # oks) = synced (ok \<or> b) cs oks"
| "synced b (RemoveIf p # cs) (ok # oks) = synced False cs oks"
| "synced b (Load # cs) (ok # oks) = synced (\<not> ok \<and> b) cs oks"
| "synced b (c # cs) (ok # oks) = synced b cs oks"
| "synced b _ _ = b"

text \<open>What the requests of the driver do to its table when they succeed; the table is counted in 32 bits.\<close>

definition driver_keeps_table :: "'d driver \<Rightarrow> ('d \<Rightarrow> StaticFilter list) \<Rightarrow> bool" where
  "driver_keeps_table D T =
     ((\<forall>d. length (T d) < 2 ^ 32) \<and>
      (\<forall>x d d'. drv_front D x d = Some d' \<longrightarrow> T d' = x # T d) \<and>
      (\<forall>x d d'. drv_back D x d = Some d' \<longrightarrow> T d' = T d @ [x]) \<and>
      (\<forall>x i d d'. drv_insert D x i d = Some d' \<and> unat i \<le> length (T d) \<longrightarrow> T d' = take (unat i) (T d) @ x # drop (unat i) (T d)) \<and>
      (\<forall>i d d'. drv_remove D i d = Some d' \<and> unat i < length (T d) \<longrightarrow> T d' = take (unat i) (T d) @ drop (Suc (unat i)) (T d)) \<and>
      (\<forall>t d d'. drv_set D t d = Some d' \<longrightarrow> T d' = t))"

definition in_step :: "('d \<Rightarrow> StaticFilter list) \<Rightarrow> 'd StaticFilters \<Rightarrow> bool" where
  "in_step T s = (to_table (sfs_Filters s) = Ret (T (sfs_driver s)))"

lemma to_table_Ret: "to_table fs = Ret t \<longleftrightarrow> list_all2 (\<lambda>f x. toStaticFilter f = Ret x) fs t"
  by (induction fs arbitrary: t) (auto simp: obind_Ret_conv list_all2_Cons1)

lemma unat_position:
  assumes "0 \<le> p" "p \<le> int n" "n < 2 ^ 32"
  shows "unat (word_of_int p :: u32) = nat p"
proof -
  from assms obtain k where p: "p = int k" "k \<le> n"
    by (metis nonneg_int_cases of_nat_le_iff)
  with assms show ?thesis
    by (simp add: unsigned_of_nat take_bit_nat_eq_self)
qed

lemma driver_laws:
  assumes "driver_keeps_table D T"
  shows "length (T d) < 2 ^ 32" "drv_front D x d = Some d' \<Longrightarrow> T d' = x # T d" "drv_back D x d = Some d' \<Longrightarrow> T d' = T d @ [x]"
    "drv_insert D x i d = Some d' \<Longrightarrow> unat i \<le> length (T d) \<Longrightarrow> T d' = take (unat i) (T d) @ x # drop (unat i) (T d)"
    "drv_remove D i d = Some d' \<Longrightarrow> unat i < length (T d) \<Longrightarrow> T d' = take (unat i) (T d) @ drop (Suc (unat i)) (T d)"
    "drv_set D t d = Some d' \<Longrightarrow> T d' = t"
  using assms unfolding driver_keeps_table_def by blast+

lemma apply_op_in_step:
  assumes D: "driver_keeps_table D T" and s: "in_step T s" and step: "apply_op D c s = Ret (ok, s')"
    and c: "\<And>p. c \<noteq> RemoveIf p" "c = Load \<Longrightarrow> \<not> ok"
  shows "in_step T s'"
proof -
  let ?R = "list_all2 (\<lambda>f x. toStaticFilter f = Ret x)"
  have R: "?R (sfs_Filters s) (T (sfs_driver s))"
    using s by (simp add: in_step_def to_table_Ret)
  then have len: "length (sfs_Filters s) = length (T (sfs_driver s))"
    by (rule list_all2_lengthD)
  have bound: "length (T (sfs_driver s)) < 2 ^ 32"
    using D by (rule driver_laws)
  have tail: "?R (take n (sfs_Filters s)) (take n (T (sfs_driver s)))" "?R (drop n (sfs_Filters s)) (drop n (T (sfs_driver s)))" for n
    using R by (simp_all add: list_all2_takeI list_all2_dropI)
  have "?R (sfs_Filters s') (T (sfs_driver s'))"
  proof (cases c)
    case (Front f)
    with step R show ?thesis
      by (auto simp: apply_op_def AddFilterFront_def obind_Ret_conv driver_laws(2) [OF D] split: option.splits)
  next
    case (Back f)
    with step R show ?thesis
      by (auto simp: apply_op_def AddFilterBack_def obind_Ret_conv driver_laws(3) [OF D] intro!: list_all2_appendI split: option.splits)
  next
    case (InsertAt f p)
    show ?thesis
    proof (cases "s' = s")
      case False
      with step InsertAt obtain x d where x: "toStaticFilter f = Ret x" "drv_insert D x (word_of_int p) (sfs_driver s) = Some d"
        and p: "0 \<le> p" "p \<le> int (length (T (sfs_driver s)))"
        and s': "s' = \<lparr>sfs_driver = d, sfs_Filters = take (nat p) (sfs_Filters s) @ f # drop (nat p) (sfs_Filters s)\<rparr>"
        by (auto simp: apply_op_def InsertFilter_def obind_Ret_conv len split: option.splits if_splits)
      have "T d = take (nat p) (T (sfs_driver s)) @ x # drop (nat p) (T (sfs_driver s))"
        using driver_laws(4) [OF D x(2)] p unat_position [OF p bound] by simp
      then show ?thesis
        using x(1) by (simp add: s' list_all2_appendI tail)
    qed (simp add: R)
  next
    case (RemoveAt p)
    show ?thesis
    proof (cases "s' = s")
      case False
      with step RemoveAt obtain d where d: "drv_remove D (word_of_int p) (sfs_driver s) = Some d"
        and p: "0 \<le> p" "p < int (length (T (sfs_driver s)))"
        and s': "s' = \<lparr>sfs_driver = d, sfs_Filters = take (nat p) (sfs_Filters s) @ drop (Suc (nat p)) (sfs_Filters s)\<rparr>"
        by (auto simp: apply_op_def RemoveFilter_def len split: option.splits if_splits)
      have "unat (word_of_int p :: u32) = nat p" "nat p < length (T (sfs_driver s))"
        using p unat_position [OF p(1) _ bound] by auto
      then have "T d = take (nat p) (T (sfs_driver s)) @ drop (Suc (nat p)) (T (sfs_driver s))"
        using driver_laws(5) [OF D d] by simp
      then show ?thesis
        by (simp add: s' list_all2_appendI tail)
    qed (simp add: R)
  next
    case Store
    with step R show ?thesis
      by (auto simp: apply_op_def StoreTable_def obind_Ret_conv driver_laws(6) [OF D] to_table_Ret split: option.splits)
  next
    case Load
    with step R c(2) show ?thesis
      by (auto simp: apply_op_def LoadTable_def split: option.splits if_splits)
  qed (use c(1) in simp)
  then show ?thesis
    by (simp add: in_step_def to_table_Ret)
qed

lemma store_in_step:
  assumes "driver_keeps_table D T" "StoreTable D s = Ret (True, s')"
  shows "in_step T s'"
  using assms(2) by (auto simp: StoreTable_def in_step_def obind_Ret_conv driver_laws(6) [OF assms(1)] split: option.splits)

lemma apply_ops_in_step:
  assumes "driver_keeps_table D T" "b \<Longrightarrow> in_step T s" "apply_ops D cs s = Ret (oks, s')" "synced b cs oks"
  shows "in_step T s'"
  using assms(2-4)
proof (induction cs arbitrary: s b oks)
  case (Cons c cs)
  then obtain ok s1 oks1 where step: "apply_op D c s = Ret (ok, s1)" and rest: "apply_ops D cs s1 = Ret (oks1, s')" and oks: "oks = ok # oks1"
    by (auto simp: obind_Ret_conv)
  note keep = apply_op_in_step [OF assms(1) _ step]
  note ih = Cons.IH [OF _ rest]
  have other: "in_step T s'" if "\<And>p. c \<noteq> RemoveIf p" "c \<noteq> Load" "synced b cs oks1"
  proof (rule ih [OF _ that(3)])
    assume b
    then show "in_step T s1" using keep Cons.prems(1) that(1,2) by blast
  qed
  show ?case
  proof (cases c)
    case (RemoveIf p)
    then show ?thesis using ih [of False] Cons.prems(3) oks by simp
  next
    case Store
    have "in_step T s1" if "ok \<or> b"
      using that store_in_step [OF assms(1)] step keep Cons.prems(1) by (cases ok) (auto simp: Store apply_op_def)
    moreover have "synced (ok \<or> b) cs oks1" using Cons.prems(3) by (simp add: Store oks)
    ultimately show ?thesis by (rule ih)
  next
    case Load
    have "in_step T s1" if "\<not> ok \<and> b" using that keep Cons.prems(1) Load by simp
    moreover have "synced (\<not> ok \<and> b) cs oks1" using Cons.prems(3) by (simp add: Load oks)
    ultimately show ?thesis by (rule ih)
  qed (use other Cons.prems(3) oks in simp_all)
qed simp

section \<open>Properties\<close>

text \<open>
  C40: Whichever of the requests to the driver failed, and as long as no call panics, the driver's table holds exactly the filters of the list in their order, each in its
  driver form, after any sequence of additions at either end, insertions, removals by position and stores, provided the two agreed before; and a store
  that succeeds makes them agree whatever came before. A removal by predicate and a load of the table give up the agreement until the next such store. At the start the two
  agree when the driver's table is empty, which making the list neither checks nor brings about.
\<close>

theorem filter_table_in_step:
  assumes driver: "driver_keeps_table D T"
    and run: "apply_ops D ops s0 = Ret (oks, s)"
    and sync: "synced (to_table (sfs_Filters s0) = Ret (T (sfs_driver s0))) ops oks"
  shows "to_table (sfs_Filters s) = Ret (T (sfs_driver s)) \<and> length (sfs_Filters s) = length (T (sfs_driver s))"
proof -
  have "in_step T s" by (rule apply_ops_in_step [OF driver _ run sync]) (simp add: in_step_def)
  then show ?thesis
    by (auto simp: in_step_def to_table_Ret dest: list_all2_lengthD)
qed

lemma new_filters_in_step:
  assumes "NewStaticFilters D filterCache fragmentCache d = Some s0" "T (sfs_driver s0) = []"
  shows "to_table (sfs_Filters s0) = Ret (T (sfs_driver s0))"
  using assms by (auto simp: NewStaticFilters_def split: if_splits)

text \<open>A table written for the driver reads back, for every layout of a filter of a fixed size.\<close>

lemma table_reads_back:
  assumes layout: "\<And>f. length (enc f) = sz" "\<And>f. dec (enc f) = f" and short: "length fs < 2 ^ 32"
  shows "GetPacketFilterTable dec sz (word_of_nat (length fs)) (marshalStaticFilterTable enc fs) = fs"
proof -
  have n: "unat (word_of_nat (length fs) :: u32) = length fs"
    using short by (simp add: unsigned_of_nat take_bit_nat_eq_self)
  have slice: "take sz (drop (i * sz) (concat (map enc xs))) = enc (xs ! i)" if "i < length xs" for i xs
    using that
  proof (induction xs arbitrary: i)
    case (Cons x xs)
    then show ?case
      by (cases i) (simp_all add: layout(1))
  qed simp
  show ?thesis
    unfolding GetPacketFilterTable_def marshalStaticFilterTable_def n
    by (rule nth_equalityI) (simp_all add: n slice layout(2) Let_def)
qed

text \<open>
  Removal by a predicate takes a second filter out of the list for each one it removes from the driver, and panics when the
  filter it removes is the last.
\<close>

lemma remove_if_drops_neighbour:
  assumes "pred a" "\<not> pred b" "drv_remove D 0 d = Some d'"
  shows "RemoveFiltersIf D pred \<lparr>sfs_driver = d, sfs_Filters = [a, b]\<rparr> = Ret \<lparr>sfs_driver = d', sfs_Filters = []\<rparr>"
    and "RemoveFiltersIf D pred \<lparr>sfs_driver = d, sfs_Filters = [a]\<rparr> = Panic"
  using assms by (simp_all add: RemoveFiltersIf_def remove_loop.simps RemoveFilter_def)

section \<open>Examples\<close>

text \<open>A driver with room for ten filters.\<close>

definition small_driver :: "StaticFilter list driver" where
  "small_driver =
     \<lparr>drv_front = (\<lambda>x d. if length d < 10 then Some (x # d) else None),
      drv_back = (\<lambda>x d. if length d < 10 then Some (d @ [x]) else None),
      drv_insert = (\<lambda>x i d. if length d < 10 then Some (take (unat i) d @ x # drop (unat i) d) else None),
      drv_remove = (\<lambda>i d. if length d \<le> 10 \<and> unat i < length d then Some (take (unat i) d @ drop (Suc (unat i)) d) else None),
      drv_reset = (\<lambda>d. Some []),
      drv_set = (\<lambda>t d. if length t \<le> 10 then Some t else None),
      drv_size = (\<lambda>d. Some (word_of_nat (length d))),
      drv_get = (\<lambda>n d. Some d),
      drv_loaded = (\<lambda>d. True),
      drv_caches = (\<lambda>a b d. Some d)\<rparr>"

definition small_table :: "StaticFilter list \<Rightarrow> StaticFilter list" where
  "small_table d = take 10 d"

definition port_filter :: "byte \<Rightarrow> u16 \<Rightarrow> Filter" where
  "port_filter proto port =
     \<lparr>f_Adapter = replicate 8 0, f_SourceMac = None, f_DestinationMac = None, f_EthernetType = 0,
      f_SourceAddress = \<lparr>net_IP = Some [0, 0, 0, 0], net_Mask = [0, 0, 0, 0]\<rparr>,
      f_DestinationAddress = \<lparr>net_IP = Some [10, 0, 0, 1], net_Mask = [255, 255, 255, 255]\<rparr>,
      f_SourcePort = (0, 0), f_DestinationPort = (port, port), f_Protocol = proto,
      f_Direction = DirectionOut, f_Action = ActionPass\<rparr>"

lemma small_driver_keeps_table: "driver_keeps_table small_driver small_table"
  by (auto simp: driver_keeps_table_def small_driver_def small_table_def)

theorem filter_table_in_step_witness:
  "\<exists>oks s. apply_ops small_driver [RemoveIf (\<lambda>_. True), Store, Back (port_filter 6 443), Front (port_filter 17 53), RemoveAt 1, RemoveAt 7]
      \<lparr>sfs_driver = [], sfs_Filters = []\<rparr> = Ret (oks, s)
    \<and> sfs_Filters s = [port_filter 17 53] \<and> to_table (sfs_Filters s) = Ret (small_table (sfs_driver s))"
proof -
  let ?ops = "[RemoveIf (\<lambda>_. True), Store, Back (port_filter 6 443), Front (port_filter 17 53), RemoveAt 1, RemoveAt 7]"
  let ?s0 = "\<lparr>sfs_driver = [], sfs_Filters = []\<rparr> :: StaticFilter list StaticFilters"
  have "case apply_ops small_driver ?ops ?s0 of Ret (oks, s) \<Rightarrow> oks = [True, True, True, True, True, False] \<and> sfs_Filters s = [port_filter 17 53] | _ \<Rightarrow> False"
    by code_simp
  then obtain s where s: "apply_ops small_driver ?ops ?s0 = Ret ([True, True, True, True, True, False], s)" "sfs_Filters s = [port_filter 17 53]"
    by (auto split: outcome.splits)
  show ?thesis
    using filter_table_in_step [OF small_driver_keeps_table s(1)] s by simp
qed

end
