(* ===== verification/Nd_Router.thy ===== *)
theory Nd_Router
  imports Nd_Filters
begin

text \<open>
  \<open>pkg/ndisapi/ndisapi-go\<close>: the router that sends the connections of chosen programs through SOCKS proxies. It rewrites packets on
  their way to the network so that they arrive at a local proxy (\<open>socks_local_router.go\<close>), looks up the program that owns a port in
  the tables of the operating system (\<open>netlib/process_lookup.go\<close>), and relays what the local proxy receives (\<open>transparent_proxy.go\<close>).
  Packets are given decoded: the decoder and the checksums are third-party. The text of an address and port, which the code uses as a key,
  is the pair.
\<close>

unbundle bit_operations_syntax

section \<open>The owner of a port\<close>

record ProcessInfo =
  pi_ID :: u32
  pi_PathName :: string
  pi_Timestamp :: int

datatype lookup_error = ProcessNotFound | TableError nat | ExecPathError

record searcher =
  sr_itemSize :: nat
  sr_port :: nat
  sr_ip :: nat
  sr_ipSize :: nat
  sr_pid :: nat
  sr_tcpState :: "nat option"

definition newSearcher :: "bool \<Rightarrow> bool \<Rightarrow> searcher" where
  "newSearcher isV4 isTCP =
     (if isV4 \<and> isTCP then \<lparr>sr_itemSize = 24, sr_port = 8, sr_ip = 4, sr_ipSize = 4, sr_pid = 20, sr_tcpState = Some 0\<rparr>
      else if isV4 then \<lparr>sr_itemSize = 12, sr_port = 4, sr_ip = 0, sr_ipSize = 4, sr_pid = 8, sr_tcpState = None\<rparr>
      else if isTCP then \<lparr>sr_itemSize = 56, sr_port = 20, sr_ip = 0, sr_ipSize = 16, sr_pid = 52, sr_tcpState = Some 48\<rparr>
      else \<lparr>sr_itemSize = 28, sr_port = 20, sr_ip = 0, sr_ipSize = 16, sr_pid = 24, sr_tcpState = None\<rparr>)"

text \<open>Numbers in the order of the machine, which is little-endian; ports are stored in the order of the network.\<close>

definition native32 :: "bytes \<Rightarrow> nat \<Rightarrow> (lookup_error, u32) outcome" where
  "native32 b i =
     obind (gslice b i (i + 4)) (\<lambda>x. Ret (le_word x))"

definition row_port :: "u32 \<Rightarrow> u16" where
  "row_port w = be16 (ucast w) (ucast (drop_bit 8 w))"

definition IsUnspecified :: "netip_addr \<Rightarrow> bool" where
  "IsUnspecified a = (a = Addr4 (replicate 4 0) \<or> a = Addr6 (replicate 16 0))"

definition row_established :: "searcher \<Rightarrow> bool \<Rightarrow> bytes \<Rightarrow> (lookup_error, bool) outcome" where
  "row_established s establishedOnly row =
     (case sr_tcpState s of
        Some st \<Rightarrow> if establishedOnly then obind (native32 row st) (\<lambda>w. Ret (w = 5)) else Ret True
      | None \<Rightarrow> Ret True)"

definition match_row :: "searcher \<Rightarrow> netip_addr \<Rightarrow> u16 \<Rightarrow> bool \<Rightarrow> bytes \<Rightarrow> (lookup_error, u32 option) outcome" where
  "match_row s ip port establishedOnly row =
     obind (row_established s establishedOnly row) (\<lambda>est.
       if \<not> est then Ret None
       else
         obind (native32 row (sr_port s)) (\<lambda>w.
           if row_port w \<noteq> port then Ret None
           else
             obind (gslice row (sr_ip s) (sr_ip s + sr_ipSize s)) (\<lambda>a.
               if ip \<noteq> AddrFromSlice a \<and> (\<not> IsUnspecified (AddrFromSlice a) \<or> sr_tcpState s \<noteq> None) then Ret None
               else obind (native32 row (sr_pid s)) (\<lambda>pid. Ret (Some pid)))))"

fun search_rows :: "searcher \<Rightarrow> bytes \<Rightarrow> netip_addr \<Rightarrow> u16 \<Rightarrow> bool \<Rightarrow> nat list \<Rightarrow> (lookup_error, u32) outcome" where
  "search_rows s b ip port est [] = Fail ProcessNotFound"
| "search_rows s b ip port est (i # is) =
     obind (gslice b (4 + sr_itemSize s * i) (4 + sr_itemSize s * (i + 1))) (\<lambda>row.
     obind (match_row s ip port est row) (\<lambda>m. case m of Some pid \<Rightarrow> Ret pid | None \<Rightarrow> search_rows s b ip port est is))"

definition search_table :: "searcher \<Rightarrow> bytes \<Rightarrow> netip_addr \<Rightarrow> u16 \<Rightarrow> bool \<Rightarrow> (lookup_error, u32) outcome" where
  "search_table s b ip port establishedOnly =
     obind (native32 b 0) (\<lambda>n. search_rows s b ip port establishedOnly [0..<unat n])"

text \<open>
  The answers of the system to the requests for its table, in turn: the table, the size it needs, or an error. A size of zero leaves the
  loop without a buffer to point at; \<open>None\<close> is a loop that has not ended with the answers given.
\<close>

datatype table_answer = Table bytes | Insufficient u32 | SysError nat

fun getTransportTable :: "table_answer list \<Rightarrow> (lookup_error, bytes) outcome option" where
  "getTransportTable [] = None"
| "getTransportTable (Table b # _) = Some (Ret b)"
| "getTransportTable (Insufficient n # rest) = (if n = 0 then Some Panic else getTransportTable rest)"
| "getTransportTable (SysError e # _) = Some (Fail (TableError e))"

text \<open>The system: its tables, by protocol and family, and the path of a process.\<close>

record system =
  sys_table :: "bool \<Rightarrow> bool \<Rightarrow> (lookup_error, bytes) outcome"
  sys_path :: "u32 \<Rightarrow> string option"

definition getExecPathFromPID :: "system \<Rightarrow> u32 \<Rightarrow> (lookup_error, string \<times> u32) outcome" where
  "getExecPathFromPID os pid =
     (if pid = 0 then Ret ('':System Idle Process'', pid)
      else if pid = 4 then Ret ('':System'', pid)
      else case sys_path os pid of None \<Rightarrow> Fail ExecPathError | Some p \<Rightarrow> Ret (p, pid))"

definition findProcessName :: "system \<Rightarrow> bool \<Rightarrow> netip_addr \<Rightarrow> u16 \<Rightarrow> bool \<Rightarrow> (lookup_error, string \<times> u32) outcome" where
  "findProcessName os isUDP ip srcPort establishedOnly =
     obind (sys_table os isUDP (Is6 ip)) (\<lambda>buf.
     obind (search_table (newSearcher (\<not> Is6 ip) (\<not> isUDP)) buf ip srcPort establishedOnly) (\<lambda>pid.
       getExecPathFromPID os pid))"

type_synonym addr_port = "netip_addr \<times> u16"
type_synonym mapper = "addr_port \<times> addr_port \<rightharpoonup> ProcessInfo"

definition FindProcessInfo ::
  "system \<Rightarrow> int \<Rightarrow> bool \<Rightarrow> addr_port \<Rightarrow> addr_port \<Rightarrow> bool \<Rightarrow> mapper \<Rightarrow> (lookup_error, ProcessInfo \<times> mapper) outcome" where
  "FindProcessInfo os now isUDP source destination establishedOnly m =
     (case m (source, destination) of
        Some info \<Rightarrow> Ret (info, m)
      | None \<Rightarrow>
          obind (findProcessName os isUDP (fst source) (snd source) establishedOnly) (\<lambda>(name, pid).
            Ret (\<lparr>pi_ID = pid, pi_PathName = name, pi_Timestamp = 0\<rparr>,
                 m((source, destination) \<mapsto> \<lparr>pi_ID = pid, pi_PathName = name, pi_Timestamp = now\<rparr>))))"

definition lookup_minute :: int where
  "lookup_minute = 60000000000"

definition cleanup :: "int \<Rightarrow> mapper \<Rightarrow> mapper" where
  "cleanup now m = (\<lambda>k. case m k of Some info \<Rightarrow> if now - pi_Timestamp info > lookup_minute then None else Some info | None \<Rightarrow> None)"


section \<open>Packets\<close>

record tcp_layer =
  tcp_src :: u16
  tcp_dst :: u16
  tcp_SYN :: bool
  tcp_ACK :: bool
  tcp_RST :: bool
  tcp_FIN :: bool
  tcp_data :: bytes

record udp_layer =
  udp_src :: u16
  udp_dst :: u16
  udp_data :: bytes

text \<open>The first IPv4 layer of the packet; a fragment or a truncated packet has no transport layer, whatever its protocol says.\<close>

record ip_layer =
  ip_src :: bytes
  ip_dst :: bytes
  ip_proto :: byte
  ip_tcp :: "tcp_layer option"
  ip_udp :: "udp_layer option"

record frame =
  src_mac :: bytes
  dst_mac :: bytes
  ether_type :: u16
  fr_ip :: "ip_layer option"

record PortMapping =
  pm_DstIP :: bytes
  pm_DstPort :: u16
  pm_ProxyPort :: u16

text \<open>\<open>sess\<close> is the type of the connections the SOCKS dialer gives.\<close>

record 'sess TransparentProxy =
  tp_tcp :: "u16 option"
  tp_udp :: "u16 option"
  udpConnections :: "bytes \<times> u16 \<rightharpoonup> 'sess"

type_synonym endpoint = "bytes \<times> u16"

record ('sess, 'd) SocksLocalRouter =
  tcpConnections :: "endpoint \<rightharpoonup> PortMapping"
  udpEndpoints :: "endpoint \<rightharpoonup> PortMapping"
  proxyServers :: "'sess TransparentProxy list"
  nameToProxy :: "string \<rightharpoonup> int"
  processLookup :: mapper
  staticFilter :: "'d StaticFilters"

section \<open>The proxies of the router\<close>

definition GetLocalTcpProxyPort :: "'sess TransparentProxy \<Rightarrow> u16" where
  "GetLocalTcpProxyPort tp = (case tp_tcp tp of None \<Rightarrow> 0 | Some p \<Rightarrow> p)"

definition GetLocalUdpProxyPort :: "'sess TransparentProxy \<Rightarrow> u16" where
  "GetLocalUdpProxyPort tp = (case tp_udp tp of None \<Rightarrow> 0 | Some p \<Rightarrow> p)"

text \<open>\<open>order\<close>: the order in which the map of names is visited. A negative index panics.\<close>

fun proxy_port :: "('sess TransparentProxy \<Rightarrow> u16) \<Rightarrow> ('sess, 'd) SocksLocalRouter \<Rightarrow> string \<Rightarrow> string list \<Rightarrow> (lookup_error, u16) outcome" where
  "proxy_port port r path [] = Ret 0"
| "proxy_port port r path (name # order) =
     (case nameToProxy r name of
        None \<Rightarrow> proxy_port port r path order
      | Some proxyID \<Rightarrow>
          if contains path name \<and> proxyID < int (length (proxyServers r))
          then (if proxyID < 0 then Panic else Ret (port (proxyServers r ! nat proxyID)))
          else proxy_port port r path order)"

definition GetProxyPortTCP :: "('sess, 'd) SocksLocalRouter \<Rightarrow> string list \<Rightarrow> string \<Rightarrow> (lookup_error, u16) outcome" where
  "GetProxyPortTCP r order path = proxy_port GetLocalTcpProxyPort r path order"

definition GetProxyPortUDP :: "('sess, 'd) SocksLocalRouter \<Rightarrow> string list \<Rightarrow> string \<Rightarrow> (lookup_error, u16) outcome" where
  "GetProxyPortUDP r order path = proxy_port GetLocalUdpProxyPort r path order"

definition IsTCPProxyPort :: "('sess, 'd) SocksLocalRouter \<Rightarrow> u16 \<Rightarrow> bool" where
  "IsTCPProxyPort r port = (\<exists>tp \<in> set (proxyServers r). GetLocalTcpProxyPort tp = port)"

definition IsUDPProxyPort :: "('sess, 'd) SocksLocalRouter \<Rightarrow> u16 \<Rightarrow> bool" where
  "IsUDPProxyPort r port = (\<exists>tp \<in> set (proxyServers r). GetLocalUdpProxyPort tp = port)"

datatype associate_error = ProxyIndexOutOfRange

definition AssociateProcessNameToProxy :: "string \<Rightarrow> int \<Rightarrow> ('sess, 'd) SocksLocalRouter \<Rightarrow> associate_error + ('sess, 'd) SocksLocalRouter" where
  "AssociateProcessNameToProxy name proxyID r =
     (if proxyID \<ge> int (length (proxyServers r)) then Inl ProxyIndexOutOfRange
      else Inr (r\<lparr>nameToProxy := (nameToProxy r)(name \<mapsto> proxyID)\<rparr>))"

datatype endpoint_error = BadFormat | BadAddress | BadPort

definition parseEndpoint :: "string \<Rightarrow> endpoint_error + bytes \<times> u16" where
  "parseEndpoint e =
     (case last_index e (CHR '':'') of
        None \<Rightarrow> Inl BadFormat
      | Some pos \<Rightarrow>
          (case Option.bind (ParseIP (take pos e)) To4 of
             None \<Rightarrow> Inl BadAddress
           | Some ip \<Rightarrow>
               (case Atoi (drop (Suc pos) e) of
                  None \<Rightarrow> Inl BadPort
                | Some port \<Rightarrow> if port < 1 \<or> port > 65535 then Inl BadPort else Inr (ip, word_of_int port))))"

text \<open>The pass filters for the traffic with the proxy: out and in, for TCP (6) and for UDP (17).\<close>

definition endpoint_filter :: "PacketDirection \<Rightarrow> byte \<Rightarrow> bytes \<Rightarrow> u16 \<Rightarrow> Filter" where
  "endpoint_filter dir proto ip port =
     \<lparr>f_Adapter = replicate 8 0, f_SourceMac = None, f_DestinationMac = None, f_EthernetType = 0,
      f_SourceAddress = \<lparr>net_IP = Some (v4InV6Prefix @ [0, 0, 0, 0]), net_Mask = [0, 0, 0, 0]\<rparr>,
      f_DestinationAddress = \<lparr>net_IP = Some ip, net_Mask = [255, 255, 255, 255]\<rparr>,
      f_SourcePort = (if dir = DirectionIn then (port, port) else (0, 0)),
      f_DestinationPort = (if dir = DirectionOut then (port, port) else (0, 0)),
      f_Protocol = proto, f_Direction = dir, f_Action = ActionPass\<rparr>"

definition endpoint_filters :: "bytes \<Rightarrow> u16 \<Rightarrow> Filter list" where
  "endpoint_filters ip port =
     [endpoint_filter DirectionOut 6 ip port, endpoint_filter DirectionIn 6 ip port,
      endpoint_filter DirectionOut 17 ip port, endpoint_filter DirectionIn 17 ip port]"

fun add_filters :: "'d driver \<Rightarrow> Filter list \<Rightarrow> 'd StaticFilters \<Rightarrow> (unit, 'd StaticFilters) outcome" where
  "add_filters D [] s = Ret s"
| "add_filters D (f # fs) s = obind (AddFilterBack D f s) (\<lambda>(_, s). add_filters D fs s)"

datatype add_proxy_error = DialerError | EndpointError endpoint_error

definition NewTransparentProxy :: "'sess TransparentProxy" where
  "NewTransparentProxy = \<lparr>tp_tcp = None, tp_udp = None, udpConnections = Map.empty\<rparr>"

text \<open>\<open>proxyAddress\<close>: the address of the dialer made from the given endpoint, if it could be made.\<close>

definition AddSocks5Proxy ::
  "'d driver \<Rightarrow> string option \<Rightarrow> ('sess, 'd) SocksLocalRouter \<Rightarrow> (add_proxy_error, nat \<times> ('sess, 'd) SocksLocalRouter) outcome" where
  "AddSocks5Proxy D proxyAddress r =
     (case proxyAddress of
        None \<Rightarrow> Fail DialerError
      | Some addr \<Rightarrow>
          (case parseEndpoint addr of
             Inl e \<Rightarrow> Fail (EndpointError e)
           | Inr (ip, port) \<Rightarrow>
               (case add_filters D (endpoint_filters ip port) (staticFilter r) of
                  Ret fs \<Rightarrow> Ret (length (proxyServers r), r\<lparr>staticFilter := fs, proxyServers := proxyServers r @ [NewTransparentProxy]\<rparr>)
                | _ \<Rightarrow> Panic)))"

section \<open>The packet filter\<close>

datatype verdict = PacketPass | PacketRedirect

definition swap_frame :: "frame \<Rightarrow> ip_layer \<Rightarrow> frame" where
  "swap_frame f ip =
     f\<lparr>src_mac := dst_mac f, dst_mac := src_mac f, fr_ip := Some (ip\<lparr>ip_src := ip_dst ip, ip_dst := ip_src ip\<rparr>)\<rparr>"

definition tcp_closes :: "tcp_layer \<Rightarrow> bool" where
  "tcp_closes t = (tcp_RST t \<or> tcp_FIN t)"

definition tcp_outgoing ::
  "system \<Rightarrow> int \<Rightarrow> string list \<Rightarrow> ip_layer \<Rightarrow> tcp_layer \<Rightarrow> ('sess, 'd) SocksLocalRouter
   \<Rightarrow> (lookup_error, u16 option \<times> ('sess, 'd) SocksLocalRouter) outcome" where
  "tcp_outgoing os now order ip t r =
     (let src = (Addr4 (ip_src ip), tcp_src t); dst = (Addr4 (ip_dst ip), tcp_dst t); connName = (ip_dst ip, tcp_src t) in
      if tcp_SYN t \<and> \<not> tcp_ACK t then
        (case FindProcessInfo os now False src dst False (processLookup r) of
           Panic \<Rightarrow> Panic
         | Fail _ \<Rightarrow> Ret (None, r)
         | Ret (info, m) \<Rightarrow>
             let r = r\<lparr>processLookup := m\<rparr> in
             obind (GetProxyPortTCP r order (pi_PathName info)) (\<lambda>proxyPort.
               if proxyPort = 0 then Ret (None, r)
               else
                 Ret (Some proxyPort,
                      case tcpConnections r connName of
                        Some _ \<Rightarrow> r
                      | None \<Rightarrow> r\<lparr>tcpConnections := (tcpConnections r)
                          (connName \<mapsto> \<lparr>pm_DstIP = ip_dst ip, pm_DstPort = tcp_dst t, pm_ProxyPort = proxyPort\<rparr>)\<rparr>)))
      else
        (case tcpConnections r connName of
           None \<Rightarrow> Ret (None, r)
         | Some it \<Rightarrow>
             Ret (Some (pm_ProxyPort it),
                  if tcp_closes t then r\<lparr>tcpConnections := (tcpConnections r)(connName := None)\<rparr> else r)))"

definition tcp_incoming :: "frame \<Rightarrow> ip_layer \<Rightarrow> tcp_layer \<Rightarrow> ('sess, 'd) SocksLocalRouter \<Rightarrow> verdict \<times> frame \<times> ('sess, 'd) SocksLocalRouter" where
  "tcp_incoming f ip t r =
     (let connName = (ip_dst ip, tcp_dst t) in
      if \<not> IsTCPProxyPort r (tcp_src t) then (PacketPass, f, r)
      else
        (case tcpConnections r connName of
           None \<Rightarrow> (PacketPass, f, r)
         | Some it \<Rightarrow>
             (PacketRedirect, swap_frame f (ip\<lparr>ip_tcp := Some (t\<lparr>tcp_src := pm_DstPort it\<rparr>)\<rparr>),
              if tcp_closes t then r\<lparr>tcpConnections := (tcpConnections r)(connName := None)\<rparr> else r)))"

definition tcp_packet ::
  "system \<Rightarrow> int \<Rightarrow> string list \<Rightarrow> frame \<Rightarrow> ip_layer \<Rightarrow> ('sess, 'd) SocksLocalRouter
   \<Rightarrow> (lookup_error, verdict \<times> frame \<times> ('sess, 'd) SocksLocalRouter) outcome" where
  "tcp_packet os now order f ip r =
     (case ip_tcp ip of
        None \<Rightarrow> Panic
      | Some t \<Rightarrow>
          obind (tcp_outgoing os now order ip t r) (\<lambda>(redirected, r).
            case redirected of
              Some proxyPort \<Rightarrow> Ret (PacketRedirect, swap_frame f (ip\<lparr>ip_tcp := Some (t\<lparr>tcp_dst := proxyPort\<rparr>)\<rparr>), r)
            | None \<Rightarrow> Ret (tcp_incoming f ip t r)))"

definition udp_outgoing ::
  "system \<Rightarrow> int \<Rightarrow> string list \<Rightarrow> ip_layer \<Rightarrow> udp_layer \<Rightarrow> ('sess, 'd) SocksLocalRouter
   \<Rightarrow> (lookup_error, u16 option \<times> ('sess, 'd) SocksLocalRouter) outcome" where
  "udp_outgoing os now order ip u r =
     (let src = (Addr4 (ip_src ip), udp_src u); dst = (Addr4 (ip_dst ip), udp_dst u); endpoint = (ip_dst ip, udp_src u) in
      (case udpEndpoints r endpoint of
         Some it \<Rightarrow> Ret (Some (pm_ProxyPort it), r)
       | None \<Rightarrow>
           obind (FindProcessInfo os now True src dst False (processLookup r)) (\<lambda>(info, m).
             let r = r\<lparr>processLookup := m\<rparr> in
             obind (GetProxyPortUDP r order (pi_PathName info)) (\<lambda>proxyPort.
               if proxyPort = 0 then Ret (None, r)
               else
                 Ret (Some proxyPort, r\<lparr>udpEndpoints := (udpEndpoints r)
                   (endpoint \<mapsto> \<lparr>pm_DstIP = ip_dst ip, pm_DstPort = udp_dst u, pm_ProxyPort = proxyPort\<rparr>)\<rparr>)))))"

definition udp_incoming :: "frame \<Rightarrow> ip_layer \<Rightarrow> udp_layer \<Rightarrow> ('sess, 'd) SocksLocalRouter \<Rightarrow> verdict \<times> frame \<times> ('sess, 'd) SocksLocalRouter" where
  "udp_incoming f ip u r =
     (if \<not> IsUDPProxyPort r (udp_src u) then (PacketPass, f, r)
      else
        (case udpEndpoints r (ip_dst ip, udp_dst u) of
           None \<Rightarrow> (PacketPass, f, r)
         | Some it \<Rightarrow> (PacketRedirect, swap_frame f (ip\<lparr>ip_udp := Some (u\<lparr>udp_src := pm_DstPort it\<rparr>)\<rparr>), r)))"

definition multicast_or_broadcast :: "bytes \<Rightarrow> bool" where
  "multicast_or_broadcast a = (a ! 0 AND 0xf0 = 0xe0 \<or> a = [255, 255, 255, 255])"

definition udp_packet ::
  "system \<Rightarrow> int \<Rightarrow> string list \<Rightarrow> frame \<Rightarrow> ip_layer \<Rightarrow> ('sess, 'd) SocksLocalRouter
   \<Rightarrow> (lookup_error, verdict \<times> frame \<times> ('sess, 'd) SocksLocalRouter) outcome" where
  "udp_packet os now order f ip r =
     (case ip_udp ip of
        None \<Rightarrow> Panic
      | Some u \<Rightarrow>
          if multicast_or_broadcast (ip_dst ip) then Ret (PacketPass, f, r)
          else
            (case udp_outgoing os now order ip u r of
               Panic \<Rightarrow> Panic
             | Fail _ \<Rightarrow> Ret (PacketPass, f, r)
             | Ret (Some proxyPort, r) \<Rightarrow> Ret (PacketRedirect, swap_frame f (ip\<lparr>ip_udp := Some (u\<lparr>udp_dst := proxyPort\<rparr>)\<rparr>), r)
             | Ret (None, r) \<Rightarrow> Ret (udp_incoming f ip u r)))"

definition EthernetTypeIPv4 :: u16 where
  "EthernetTypeIPv4 = 0x0800"

definition EthernetTypeIPv6 :: u16 where
  "EthernetTypeIPv6 = 0x86DD"

text \<open>
  The callback is run by one goroutine, \<open>packetProcess\<close> of the packet filter, for one packet after the other, and the local proxies only read the two maps, each with a
  single lookup: so although the maps are locked more than once for a packet, no other change comes between and the callback is one step.
\<close>

definition filter_packet ::
  "system \<Rightarrow> int \<Rightarrow> string list \<Rightarrow> frame \<Rightarrow> ('sess, 'd) SocksLocalRouter
   \<Rightarrow> (lookup_error, verdict \<times> frame \<times> ('sess, 'd) SocksLocalRouter) outcome" where
  "filter_packet os now order f r =
     (if ether_type f \<noteq> EthernetTypeIPv4 \<and> ether_type f \<noteq> EthernetTypeIPv6 then Ret (PacketPass, f, r)
      else
        (case fr_ip f of
           None \<Rightarrow> Ret (PacketPass, f, r)
         | Some ip \<Rightarrow>
             if ip_proto ip = 6 then tcp_packet os now order f ip r
             else if ip_proto ip = 17 then udp_packet os now order f ip r
             else Ret (PacketPass, f, r)))"


section \<open>The local proxy\<close>

datatype 'sess relay_effect =
    DialTCP bytes u16
  | RelayBoth
  | DialUDP bytes u16
  | StartReader 'sess endpoint
  | SendDatagram 'sess bytes
  | ReplyTo endpoint bytes

definition queryRemotePeer :: "(endpoint \<rightharpoonup> PortMapping) \<Rightarrow> endpoint \<Rightarrow> (bytes \<times> u16) option" where
  "queryRemotePeer m remote = map_option (\<lambda>it. (pm_DstIP it, pm_DstPort it)) (m remote)"

text \<open>\<open>dial\<close>: whether the SOCKS proxy connects, or the connection it gives.\<close>

definition handleTcpConnection :: "('sess, 'd) SocksLocalRouter \<Rightarrow> (bytes \<Rightarrow> u16 \<Rightarrow> bool) \<Rightarrow> endpoint \<Rightarrow> 'sess relay_effect list" where
  "handleTcpConnection r dial remote =
     (case queryRemotePeer (tcpConnections r) remote of
        None \<Rightarrow> []
      | Some (dstIP, dstPort) \<Rightarrow> DialTCP dstIP dstPort # (if dial dstIP dstPort then [RelayBoth] else []))"

definition handleUdpPacket ::
  "('sess, 'd) SocksLocalRouter \<Rightarrow> (bytes \<Rightarrow> u16 \<Rightarrow> 'sess option) \<Rightarrow> bytes \<Rightarrow> endpoint \<Rightarrow> 'sess TransparentProxy
   \<Rightarrow> 'sess relay_effect list \<times> 'sess TransparentProxy" where
  "handleUdpPacket r dial packet addr tp =
     (case queryRemotePeer (udpEndpoints r) addr of
        None \<Rightarrow> ([], tp)
      | Some (dstIP, dstPort) \<Rightarrow>
          let localAddr = (dstIP, snd addr) in
          (case udpConnections tp localAddr of
             Some c \<Rightarrow> ([SendDatagram c packet], tp)
           | None \<Rightarrow>
               (case dial dstIP dstPort of
                  None \<Rightarrow> ([DialUDP dstIP dstPort], tp)
                | Some c \<Rightarrow>
                    ([DialUDP dstIP dstPort, StartReader c localAddr, SendDatagram c packet],
                     tp\<lparr>udpConnections := (udpConnections tp)(localAddr \<mapsto> c)\<rparr>))))"

text \<open>The reader: each datagram read, with whether writing it to the client worked; \<open>None\<close> is an error of the read.\<close>

fun readFromUdpConnection :: "'sess TransparentProxy \<Rightarrow> endpoint \<Rightarrow> (bytes option \<times> bool) list \<Rightarrow> 'sess relay_effect list" where
  "readFromUdpConnection tp addr [] = []"
| "readFromUdpConnection tp addr ((d, written) # rest) =
     (case d of
        None \<Rightarrow> []
      | Some b \<Rightarrow>
          if udpConnections tp addr = None then []
          else ReplyTo addr b # (if written then readFromUdpConnection tp addr rest else []))"

section \<open>Start and stop\<close>

text \<open>
  The rest of the router's state: whether it is active, the local proxies running, whether the driver holds packets
  back for the filter and whether the filter reads them, the interface it filters, the
  notification of interface changes, and whether its context, which ends the filter's loops, has been cancelled.
\<close>

record router_life =
  isActive :: bool
  servers_running :: nat
  filter_on :: bool
  filter_reads :: bool
  ifIndex :: int
  notify_on :: bool
  ctx_cancelled :: bool

text \<open>\<open>adapters\<close>: the indexes of the adapters, \<open>best\<close>: the one with a route to the internet. Without adapters the process ends.\<close>

datatype life_error = AlreadyActive | AlreadyStopped | FilterFailed | CancelFailed | ProcessExit

definition updateNetworkConfiguration :: "int list option \<Rightarrow> int option \<Rightarrow> router_life \<Rightarrow> (life_error, router_life) outcome" where
  "updateNetworkConfiguration adapters best l =
     (case adapters of
        None \<Rightarrow> Fail ProcessExit
      | Some [] \<Rightarrow> Panic
      | Some (a # _) \<Rightarrow> Ret (l\<lparr>ifIndex := (case best of None \<Rightarrow> a | Some b \<Rightarrow> b)\<rparr>))"

text \<open>\<open>Start\<close> gives the state it leaves with its error: the proxies it started before the error keep running.\<close>

definition router_Start ::
  "nat \<Rightarrow> int list option \<Rightarrow> int option \<Rightarrow> bool \<Rightarrow> bool \<Rightarrow> router_life \<Rightarrow> (life_error, life_error option \<times> router_life) outcome" where
  "router_Start proxies adapters best filter_ok notify_ok l =
     (if isActive l then Ret (Some AlreadyActive, l)
      else
        let l = l\<lparr>servers_running := servers_running l + proxies\<rparr> in
        obind (updateNetworkConfiguration adapters best l) (\<lambda>l.
          if \<not> filter_ok then Ret (Some FilterFailed, l)
          else Ret (None, l\<lparr>filter_on := True, filter_reads := \<not> ctx_cancelled l, notify_on := notify_ok, isActive := True\<rparr>)))"

definition router_Stop :: "bool \<Rightarrow> router_life \<Rightarrow> life_error option \<times> router_life" where
  "router_Stop cancel_ok l =
     (if \<not> isActive l then (Some AlreadyStopped, l)
      else if \<not> cancel_ok then (Some CancelFailed, l)
      else (None, l\<lparr>notify_on := False, filter_on := False, filter_reads := False, servers_running := 0, ctx_cancelled := True, isActive := False\<rparr>))"

text \<open>A change of the interfaces: with a new best adapter the filter is closed, and started again on it.\<close>

definition ipInterfaceChangedCallback ::
  "int list option \<Rightarrow> int option \<Rightarrow> int list option \<Rightarrow> int option \<Rightarrow> bool \<Rightarrow> router_life \<Rightarrow> (life_error, router_life) outcome" where
  "ipInterfaceChangedCallback adapters best adapters' best' filter_ok l =
     (case adapters of
        None \<Rightarrow> Fail ProcessExit
      | Some _ \<Rightarrow>
          (case best of
             None \<Rightarrow> Ret l
           | Some b \<Rightarrow>
               if b = ifIndex l then Ret l
               else
                 obind (updateNetworkConfiguration adapters' best' (l\<lparr>ifIndex := b, filter_on := False, filter_reads := False\<rparr>)) (\<lambda>l.
                   Ret (l\<lparr>filter_on := filter_ok, filter_reads := filter_ok \<and> \<not> ctx_cancelled l\<rparr>))))"


section \<open>The search finds the owner\<close>

text \<open>The rows of the system's tables, in their documented layouts; \<open>or_pad\<close> is the part of the port's field past the port.\<close>

record owner_row =
  or_state :: u32
  or_ip :: bytes
  or_port :: u16
  or_pad :: "byte \<times> byte"
  or_scope :: bytes
  or_remote :: bytes
  or_pid :: u32

definition encode_row :: "bool \<Rightarrow> bool \<Rightarrow> owner_row \<Rightarrow> bytes" where
  "encode_row isV4 isTCP w =
     (let port = put16 (or_port w) @ [fst (or_pad w), snd (or_pad w)] in
      if isV4 then
        (if isTCP then put_le32 (or_state w) @ or_ip w @ port @ or_remote w else or_ip w @ port) @ put_le32 (or_pid w)
      else
        (if isTCP then or_ip w @ or_scope w @ port @ or_remote w @ put_le32 (or_state w) else or_ip w @ or_scope w @ port)
        @ put_le32 (or_pid w))"

definition wf_row :: "bool \<Rightarrow> owner_row \<Rightarrow> bool" where
  "wf_row isV4 w =
     (length (or_ip w) = (if isV4 then 4 else 16) \<and> length (or_scope w) = 4 \<and> length (or_remote w) = (if isV4 then 8 else 24))"

definition owns :: "bool \<Rightarrow> netip_addr \<Rightarrow> u16 \<Rightarrow> bool \<Rightarrow> owner_row \<Rightarrow> bool" where
  "owns isTCP ip port establishedOnly w =
     ((isTCP \<and> establishedOnly \<longrightarrow> or_state w = 5) \<and> or_port w = port \<and>
      (AddrFromSlice (or_ip w) = ip \<or> \<not> isTCP \<and> IsUnspecified (AddrFromSlice (or_ip w))))"

lemma le_word_put [simp]: "le_word (put_le32 w) = w"
proof (rule bit_word_eqI)
  fix n
  assume n: "n < LENGTH(32)"
  consider "n < 8" | "8 \<le> n" "n < 16" | "16 \<le> n" "n < 24" | "24 \<le> n"
    by linarith
  then show "bit (le_word (put_le32 w)) n \<longleftrightarrow> bit w n"
    using n by cases (auto simp: le_word_def put_le32_def bit_simps)
qed


lemma row_port_put [simp]: "row_port (le_word (put16 p @ [x, y])) = p"
proof -
  have "ucast (le_word (put16 p @ [x, y])) = put16 p ! 0" "ucast (drop_bit 8 (le_word (put16 p @ [x, y]))) = put16 p ! 1"
    by (auto intro!: bit_word_eqI simp: le_word_def put16_def bit_simps byte_bit_high)
  then show ?thesis
    by (simp add: row_port_def put16_def)
qed

lemma encode_row_length:
  assumes "wf_row isV4 w"
  shows "length (encode_row isV4 isTCP w) = sr_itemSize (newSearcher isV4 isTCP)"
  using assms by (simp add: encode_row_def wf_row_def newSearcher_def Let_def)

lemma match_encoded_row:
  assumes "wf_row isV4 w"
  shows "match_row (newSearcher isV4 isTCP) ip port est (encode_row isV4 isTCP w) = Ret (if owns isTCP ip port est w then Some (or_pid w) else None)"
  using assms
  by (cases isV4; cases isTCP)
     (simp_all add: match_row_def row_established_def native32_def gslice_def newSearcher_def encode_row_def wf_row_def owns_def
        Let_def eq_commute [of ip])

lemma search_encoded_rows:
  assumes "\<forall>w \<in> set rows. wf_row isV4 w" and "k \<le> length rows"
    and "length hdr = 4"
  shows "search_rows (newSearcher isV4 isTCP) (hdr @ concat (map (encode_row isV4 isTCP) rows) @ rest) ip port est [k..<length rows]
    = (case find (owns isTCP ip port est) (drop k rows) of None \<Rightarrow> Fail ProcessNotFound | Some w \<Rightarrow> Ret (or_pid w))"
  using assms(2)
proof (induction "length rows - k" arbitrary: k)
  case 0
  then show ?case by simp
next
  case (Suc n)
  let ?s = "newSearcher isV4 isTCP" and ?e = "encode_row isV4 isTCP"
  have k: "k < length rows" using Suc by simp
  then have w: "wf_row isV4 (rows ! k)" using assms(1) by simp
  have len: "length (concat (map ?e xs)) = sr_itemSize ?s * length xs" if "\<forall>w \<in> set xs. wf_row isV4 w" for xs
    using that by (induction xs) (simp_all add: encode_row_length)
  have split: "concat (map ?e rows) = concat (map ?e (take k rows)) @ ?e (rows ! k) @ concat (map ?e (drop (Suc k) rows))"
    using k by (metis concat.simps(2) concat_append id_take_nth_drop list.simps(9) map_append)
  have len_take: "length (concat (map ?e (take k rows))) = sr_itemSize ?s * k"
    using k assms(1) by (subst len) (auto dest: in_set_takeD)
  have row: "gslice (hdr @ concat (map ?e rows) @ rest) (4 + sr_itemSize ?s * k) (4 + sr_itemSize ?s * (k + 1))
      = (Ret (?e (rows ! k)) :: (lookup_error, bytes) outcome)"
    unfolding split by (simp add: gslice_def assms(3) len_take encode_row_length [OF w])
  show ?case
    using Suc k row by (simp add: upt_conv_Cons match_encoded_row [OF w] Cons_nth_drop_Suc [symmetric])
qed


section \<open>What a packet does to the mappings\<close>

definition tcp_of :: "frame \<Rightarrow> (ip_layer \<times> tcp_layer) option" where
  "tcp_of f =
     (if ether_type f = EthernetTypeIPv4 \<or> ether_type f = EthernetTypeIPv6
      then Option.bind (fr_ip f) (\<lambda>ip. if ip_proto ip = 6 then map_option (Pair ip) (ip_tcp ip) else None)
      else None)"

definition closes_connection :: "endpoint \<Rightarrow> frame \<Rightarrow> bool" where
  "closes_connection key f =
     (case tcp_of f of
        None \<Rightarrow> False
      | Some (ip, t) \<Rightarrow> tcp_closes t \<and> ((ip_dst ip, tcp_src t) = key \<or> (ip_dst ip, tcp_dst t) = key))"

fun run_frames :: "system \<Rightarrow> (int \<times> string list \<times> frame) list \<Rightarrow> ('sess, 'd) SocksLocalRouter \<Rightarrow> (lookup_error, ('sess, 'd) SocksLocalRouter) outcome" where
  "run_frames os [] r = Ret r"
| "run_frames os ((now, order, f) # fs) r = obind (filter_packet os now order f r) (\<lambda>(_, _, r). run_frames os fs r)"

lemma tcp_of_Some:
  assumes "tcp_of f = Some (ip, t)"
  shows "filter_packet os now order f r =
    obind (tcp_outgoing os now order ip t r) (\<lambda>(redirected, r).
      case redirected of
        Some proxyPort \<Rightarrow> Ret (PacketRedirect, swap_frame f (ip\<lparr>ip_tcp := Some (t\<lparr>tcp_dst := proxyPort\<rparr>)\<rparr>), r)
      | None \<Rightarrow> Ret (tcp_incoming f ip t r))"
  using assms by (auto simp: tcp_of_def filter_packet_def tcp_packet_def bind_eq_Some_conv split: if_splits)

lemma proxy_port_in_use:
  assumes "proxy_port port r path order = Ret p" "p \<noteq> 0"
  shows "\<exists>tp \<in> set (proxyServers r). port tp = p"
  using assms
  by (induction port r path order rule: proxy_port.induct) (auto split: option.splits if_splits intro!: nth_mem bexI)

lemma tcp_outgoing_keeps:
  assumes "tcp_outgoing os now order ip t r = Ret (red, r')"
  shows "proxyServers r' = proxyServers r"
    and "tcpConnections r key = Some it \<Longrightarrow> \<not> (tcp_closes t \<and> (ip_dst ip, tcp_src t) = key) \<Longrightarrow> tcpConnections r' key = Some it"
  using assms
  by (auto simp: tcp_outgoing_def Let_def obind_Ret_conv split: if_splits outcome.splits option.splits)

lemma tcp_incoming_keeps:
  assumes "tcp_incoming f ip t r = (v, f', r')"
  shows "proxyServers r' = proxyServers r"
    and "tcpConnections r key = Some it \<Longrightarrow> \<not> (tcp_closes t \<and> (ip_dst ip, tcp_dst t) = key) \<Longrightarrow> tcpConnections r' key = Some it"
  using assms by (auto simp: tcp_incoming_def Let_def split: if_splits option.splits)

lemma udp_packet_keeps:
  assumes "udp_packet os now order f ip r = Ret (v, f', r')"
  shows "proxyServers r' = proxyServers r \<and> tcpConnections r' = tcpConnections r"
  using assms
  by (auto simp: udp_packet_def udp_outgoing_def udp_incoming_def Let_def obind_Ret_conv split: if_splits outcome.splits option.splits)

lemma filter_packet_keeps:
  assumes "filter_packet os now order f r = Ret (v, f', r')"
  shows "proxyServers r' = proxyServers r"
    and "tcpConnections r key = Some it \<Longrightarrow> \<not> closes_connection key f \<Longrightarrow> tcpConnections r' key = Some it"
proof -
  have "proxyServers r' = proxyServers r \<and>
      (tcpConnections r key = Some it \<and> \<not> closes_connection key f \<longrightarrow> tcpConnections r' key = Some it)"
  proof (cases "tcp_of f")
    case None
    then show ?thesis
      using assms
      by (auto simp: filter_packet_def tcp_of_def tcp_packet_def bind_eq_None_conv dest!: udp_packet_keeps split: if_splits option.splits)
  next
    case (Some p)
    then obtain ip t where p: "tcp_of f = Some (ip, t)" by (cases p) simp
    from assms obtain red r1 where r1: "tcp_outgoing os now order ip t r = Ret (red, r1)"
      and step: "(case red of Some proxyPort \<Rightarrow> r' = r1 | None \<Rightarrow> tcp_incoming f ip t r1 = (v, f', r'))"
      by (auto simp: tcp_of_Some [OF p] obind_Ret_conv split: option.splits)
    show ?thesis
      using step tcp_outgoing_keeps [OF r1] tcp_incoming_keeps [of f ip t r1 v f' r']
      by (auto simp: closes_connection_def p split: option.splits)
  qed
  then show "proxyServers r' = proxyServers r"
    and "tcpConnections r key = Some it \<Longrightarrow> \<not> closes_connection key f \<Longrightarrow> tcpConnections r' key = Some it"
    by auto
qed

lemma run_frames_keeps:
  assumes "run_frames os fs r = Ret r'"
  shows "proxyServers r' = proxyServers r \<and>
    (tcpConnections r key = Some it \<and> (\<forall>(now, order, f) \<in> set fs. \<not> closes_connection key f) \<longrightarrow> tcpConnections r' key = Some it)"
  using assms
proof (induction fs arbitrary: r)
  case (Cons x fs)
  obtain now order f where x: "x = (now, order, f)" by (cases x)
  with Cons.prems obtain v f' r1 where r1: "filter_packet os now order f r = Ret (v, f', r1)" and rest: "run_frames os fs r1 = Ret r'"
    by (auto simp: obind_Ret_conv)
  show ?case
    using Cons.IH [OF rest] filter_packet_keeps [OF r1] x by auto
qed simp


lemma tcp_of_swap [simp]:
  assumes "tcp_of f = Some (ip, t)"
  shows "tcp_of (swap_frame f (ip\<lparr>ip_tcp := Some t'\<rparr>)) = Some (ip\<lparr>ip_src := ip_dst ip, ip_dst := ip_src ip, ip_tcp := Some t'\<rparr>, t')"
  using assms by (auto simp: tcp_of_def swap_frame_def bind_eq_Some_conv split: if_splits)

lemma first_syn:
  assumes syn: "tcp_of f = Some (ip, t)" "tcp_SYN t" "\<not> tcp_ACK t"
    and new: "tcpConnections r (ip_dst ip, tcp_src t) = None" "\<not> IsTCPProxyPort r (tcp_src t)"
    and redirected: "filter_packet os now order f r = Ret (PacketRedirect, f1, r1)"
  obtains pp where "f1 = swap_frame f (ip\<lparr>ip_tcp := Some (t\<lparr>tcp_dst := pp\<rparr>)\<rparr>)" "IsTCPProxyPort r pp" "pp \<noteq> 0"
    "tcpConnections r1 (ip_dst ip, tcp_src t) = Some \<lparr>pm_DstIP = ip_dst ip, pm_DstPort = tcp_dst t, pm_ProxyPort = pp\<rparr>"
    "proxyServers r1 = proxyServers r"
proof -
  from redirected obtain red r' where out: "tcp_outgoing os now order ip t r = Ret (red, r')"
    and step: "(case red of
        Some pp \<Rightarrow> f1 = swap_frame f (ip\<lparr>ip_tcp := Some (t\<lparr>tcp_dst := pp\<rparr>)\<rparr>) \<and> r1 = r'
      | None \<Rightarrow> tcp_incoming f ip t r' = (PacketRedirect, f1, r1))"
    by (auto simp: tcp_of_Some [OF syn(1)] obind_Ret_conv split: option.splits)
  have servers: "proxyServers r' = proxyServers r"
    using out by (rule tcp_outgoing_keeps)
  then have "\<not> IsTCPProxyPort r' (tcp_src t)"
    using new(2) by (simp add: IsTCPProxyPort_def)
  then obtain pp where red: "red = Some pp" and f1: "f1 = swap_frame f (ip\<lparr>ip_tcp := Some (t\<lparr>tcp_dst := pp\<rparr>)\<rparr>)" "r1 = r'"
    using step by (auto simp: tcp_incoming_def Let_def split: option.splits)
  from out obtain path m where port: "GetProxyPortTCP (r\<lparr>processLookup := m\<rparr>) order path = Ret pp" "pp \<noteq> 0"
    and map: "tcpConnections r' (ip_dst ip, tcp_src t) = Some \<lparr>pm_DstIP = ip_dst ip, pm_DstPort = tcp_dst t, pm_ProxyPort = pp\<rparr>"
    by (auto simp: tcp_outgoing_def Let_def syn new(1) red obind_Ret_conv split: outcome.splits if_splits)
  have "IsTCPProxyPort r pp"
    using proxy_port_in_use [OF port(1) [unfolded GetProxyPortTCP_def] port(2)] by (simp add: IsTCPProxyPort_def)
  with that show thesis
    using f1 map servers port(2) by simp
qed

section \<open>Properties\<close>

text \<open>
  C38: A connection redirected to a local proxy stays transparent on both sides, when its first packet finds no earlier mapping for the destination's address and the
  program's port. That packet reaches the local proxy port of the program that owns it, from the address of the original destination; as long as no
  packet has closed the connection, whatever other packets were filtered, the proxy dials exactly the address and port the program asked for, and
  each packet the proxy sends back reaches the program as coming from that address and port, with its data unchanged, provided no mapping exists at that moment for the
  destination's address and the proxy's port. An earlier mapping that is still there makes the proxy dial the port of the earlier connection.
\<close>

theorem redirected_connection_transparent:
  assumes syn: "tcp_of f = Some (ip, t)" "tcp_SYN t" "\<not> tcp_ACK t"
    and new: "tcpConnections r (ip_dst ip, tcp_src t) = None" "\<not> IsTCPProxyPort r (tcp_src t)"
    and redirected: "filter_packet os now order f r = Ret (PacketRedirect, f1, r1)"
    and kept: "run_frames os fs r1 = Ret r2" "\<forall>(now, order, g) \<in> set fs. \<not> closes_connection (ip_dst ip, tcp_src t) g"
  shows "\<exists>ip1 t1. tcp_of f1 = Some (ip1, t1)
    \<and> (ip_src ip1, tcp_src t1) = (ip_dst ip, tcp_src t) \<and> ip_dst ip1 = ip_src ip \<and> IsTCPProxyPort r (tcp_dst t1)
    \<and> (\<forall>dial. DialTCP (ip_dst ip) (tcp_dst t) \<in> set (handleTcpConnection r2 dial (ip_src ip1, tcp_src t1)))
    \<and> (\<forall>g ip' t' now' order'.
         tcp_of g = Some (ip', t') \<and> (ip_src ip', tcp_src t') = (ip_dst ip1, tcp_dst t1) \<and> (ip_dst ip', tcp_dst t') = (ip_dst ip, tcp_src t)
         \<and> \<not> (tcp_SYN t' \<and> \<not> tcp_ACK t') \<and> tcpConnections r2 (ip_dst ip', tcp_src t') = None
         \<longrightarrow> (\<exists>g' r3 ip2 t2. filter_packet os now' order' g r2 = Ret (PacketRedirect, g', r3) \<and> tcp_of g' = Some (ip2, t2)
              \<and> (ip_src ip2, tcp_src t2) = (ip_dst ip, tcp_dst t) \<and> (ip_dst ip2, tcp_dst t2) = (ip_src ip, tcp_src t)
              \<and> tcp_data t2 = tcp_data t'))"
proof -
  from syn new redirected obtain pp where f1: "f1 = swap_frame f (ip\<lparr>ip_tcp := Some (t\<lparr>tcp_dst := pp\<rparr>)\<rparr>)"
    and pp: "IsTCPProxyPort r pp" "pp \<noteq> 0"
    and m1: "tcpConnections r1 (ip_dst ip, tcp_src t) = Some \<lparr>pm_DstIP = ip_dst ip, pm_DstPort = tcp_dst t, pm_ProxyPort = pp\<rparr>"
    and s1: "proxyServers r1 = proxyServers r"
    by (rule first_syn)
  have m2: "tcpConnections r2 (ip_dst ip, tcp_src t) = Some \<lparr>pm_DstIP = ip_dst ip, pm_DstPort = tcp_dst t, pm_ProxyPort = pp\<rparr>"
    and pp2: "IsTCPProxyPort r2 pp"
    using run_frames_keeps [OF kept(1)] m1 kept(2) s1 pp(1) by (simp_all add: IsTCPProxyPort_def)
  have reply: "\<exists>g' r3 ip2 t2. filter_packet os now' order' g r2 = Ret (PacketRedirect, g', r3) \<and> tcp_of g' = Some (ip2, t2)
      \<and> (ip_src ip2, tcp_src t2) = (ip_dst ip, tcp_dst t) \<and> (ip_dst ip2, tcp_dst t2) = (ip_src ip, tcp_src t)
      \<and> tcp_data t2 = tcp_data t'"
    if g: "tcp_of g = Some (ip', t')" "ip_src ip' = ip_src ip" "tcp_src t' = pp" "ip_dst ip' = ip_dst ip" "tcp_dst t' = tcp_src t"
      "\<not> (tcp_SYN t' \<and> \<not> tcp_ACK t')" "tcpConnections r2 (ip_dst ip', tcp_src t') = None" for g ip' t' now' order'
  proof -
    have "tcp_outgoing os now' order' ip' t' r2 = Ret (None, r2)"
      using g(6,7) by (auto simp: tcp_outgoing_def)
    moreover obtain r3 where "tcp_incoming g ip' t' r2 =
        (PacketRedirect, swap_frame g (ip'\<lparr>ip_tcp := Some (t'\<lparr>tcp_src := tcp_dst t\<rparr>)\<rparr>), r3)"
      using g pp2 m2 by (simp add: tcp_incoming_def)
    ultimately show ?thesis
      using g by (auto simp: tcp_of_Some [OF g(1)])
  qed
  show ?thesis
    using syn(1) pp(1) m2 reply by (auto simp: f1 handleTcpConnection_def queryRemotePeer_def)
qed

text \<open>
  C39: The search of a table of the system, of either protocol and either family, gives the process of the first row that owns the local
  address and port: the same port, the same address or, for UDP only, the unspecified address, and an established connection when
  that is asked for. Without such a row it reports that no process was found.
\<close>

theorem search_finds_owner:
  assumes rows: "\<forall>w \<in> set rows. wf_row isV4 w" and short: "length rows < 2 ^ 32"
    and table: "b = put_le32 (word_of_nat (length rows)) @ concat (map (encode_row isV4 isTCP) rows) @ rest"
  shows "search_table (newSearcher isV4 isTCP) b ip port est
    = (case find (owns isTCP ip port est) rows of None \<Rightarrow> Fail ProcessNotFound | Some w \<Rightarrow> Ret (or_pid w))"
proof -
  have n: "unat (word_of_nat (length rows) :: u32) = length rows"
    using short by (simp add: unsigned_of_nat take_bit_nat_eq_self)
  have "native32 b 0 = Ret (word_of_nat (length rows))"
    by (simp add: table native32_def gslice_def)
  then show ?thesis
    using search_encoded_rows [OF rows, of 0 "put_le32 (word_of_nat (length rows))" isTCP rest ip port est]
    by (simp add: search_table_def n table)
qed


section \<open>Limits\<close>

text \<open>The first packet that closes forgets the connection, while the other side has still to close.\<close>

lemma first_close_forgets:
  assumes "tcp_of f = Some (ip, t)" "tcp_closes t" "\<not> tcp_SYN t" "tcpConnections r (ip_dst ip, tcp_src t) = Some it"
    and "filter_packet os now order f r = Ret (v, f', r')"
  shows "tcpConnections r' (ip_dst ip, tcp_src t) = None"
  using assms by (auto simp: tcp_of_Some tcp_outgoing_def)

text \<open>A connection from a port for which a mapping to the same address is left over goes to the port of the earlier connection.\<close>

lemma tcp_stale_mapping_misdirects:
  assumes "tcp_of f = Some (ip, t)" "tcp_SYN t" "\<not> tcp_ACK t" "\<not> IsTCPProxyPort r (tcp_src t)"
    and "tcpConnections r (ip_dst ip, tcp_src t) = Some it" "filter_packet os now order f r = Ret (PacketRedirect, f1, r1)"
  shows "DialTCP (pm_DstIP it) (pm_DstPort it) \<in> set (handleTcpConnection r1 dial (ip_dst ip, tcp_src t))"
proof -
  from assms(6) obtain red r' where out: "tcp_outgoing os now order ip t r = Ret (red, r')"
    and step: "(case red of Some pp \<Rightarrow> r1 = r' | None \<Rightarrow> tcp_incoming f ip t r' = (PacketRedirect, f1, r1))"
    by (auto simp: tcp_of_Some [OF assms(1)] obind_Ret_conv split: option.splits)
  have "\<not> IsTCPProxyPort r' (tcp_src t)" using assms(4) tcp_outgoing_keeps [OF out] by (simp add: IsTCPProxyPort_def)
  then have "r1 = r'" using step by (auto simp: tcp_incoming_def Let_def split: option.splits)
  moreover have "tcpConnections r' = tcpConnections r"
    using out assms(2,3,5) by (auto simp: tcp_outgoing_def Let_def obind_Ret_conv split: outcome.splits if_splits option.splits)
  ultimately show ?thesis using assms(5) by (simp add: handleTcpConnection_def queryRemotePeer_def)
qed

text \<open>A datagram from the same port to another port of the same address goes to the port of the first one.\<close>

lemma udp_second_port_goes_to_first:
  assumes "udpEndpoints r (ip_dst ip, udp_src u) = Some it"
  shows "udp_outgoing os now order ip u r = Ret (Some (pm_ProxyPort it), r)"
    and "udpConnections tp (pm_DstIP it, udp_src u) = None \<Longrightarrow>
      DialUDP (pm_DstIP it) (pm_DstPort it) \<in> set (fst (handleUdpPacket r dial b (ip_dst ip, udp_src u) tp))"
  using assms by (auto simp: udp_outgoing_def handleUdpPacket_def queryRemotePeer_def Let_def split: option.splits)

text \<open>The pass filters for the traffic with a proxy keep its protocol and its port, and pass every address.\<close>

lemma endpoint_filter_any_address:
  assumes "toStaticFilter (endpoint_filter DirectionOut proto ip port) = Ret s" "0 < proto" "port \<noteq> 0"
  shows "f_SourceAddress (fromStaticFilter s) = no_net \<and> f_DestinationAddress (fromStaticFilter s) = no_net
    \<and> f_Protocol (fromStaticFilter s) = proto \<and> f_DestinationPort (fromStaticFilter s) = (port, port)"
  using assms(2,3) by (simp add: filter_reads_back [OF assms(1)] survivors_def endpoint_filter_def Let_def)

text \<open>The owner of a UDP flow is the cached owner of the TCP flow between the same addresses and ports.\<close>

lemma cached_owner_ignores_protocol:
  assumes "FindProcessInfo os now False src dst est m = Ret (info, m')"
  shows "\<exists>info'. FindProcessInfo os' now' True src dst est' m' = Ret (info', m') \<and> pi_PathName info' = pi_PathName info"
  using assms by (auto simp: FindProcessInfo_def obind_Ret_conv split: option.splits)

lemma fragment_panics:
  assumes "ether_type f = EthernetTypeIPv4" "fr_ip f = Some ip" "ip_proto ip = 17" "ip_udp ip = None"
  shows "filter_packet os now order f r = Panic"
  using assms by (simp add: filter_packet_def udp_packet_def)

lemma negative_proxy_id_panics:
  assumes "AssociateProcessNameToProxy name (- 1) r = Inr r'" "contains path name"
  shows "GetProxyPortTCP r' [name] path = Panic"
  using assms by (auto simp: AssociateProcessNameToProxy_def GetProxyPortTCP_def split: if_splits)

lemma failed_start_cannot_be_stopped:
  assumes "\<not> isActive l" "router_Start n (Some (a # as)) best False notify_ok l = Ret (e, l')"
  shows "e = Some FilterFailed \<and> servers_running l' = servers_running l + n \<and> router_Stop cancel_ok l' = (Some AlreadyStopped, l')"
  using assms by (auto simp: router_Start_def updateNetworkConfiguration_def router_Stop_def)

lemma restart_filters_nothing:
  assumes "router_Stop True l = (None, l1)" "router_Start n (Some (a # as)) best True notify_ok l1 = Ret (e, l2)"
  shows "e = None \<and> filter_on l2 \<and> \<not> filter_reads l2"
  using assms by (auto simp: router_Start_def updateNetworkConfiguration_def router_Stop_def split: if_splits)

section \<open>Examples\<close>

definition example_row :: owner_row where
  "example_row =
     \<lparr>or_state = 2, or_ip = [10, 0, 0, 2], or_port = 50000, or_pad = (0, 0), or_scope = [0, 0, 0, 0],
      or_remote = replicate 8 0, or_pid = 1234\<rparr>"

definition example_system :: system where
  "example_system =
     \<lparr>sys_table = (\<lambda>isUDP isV6. Ret (put_le32 1 @ encode_row (\<not> isV6) (\<not> isUDP) example_row)),
      sys_path = (\<lambda>pid. if pid = 1234 then Some ''C:/apps/game.exe'' else None)\<rparr>"

definition example_router :: "(nat, unit) SocksLocalRouter" where
  "example_router =
     \<lparr>tcpConnections = Map.empty, udpEndpoints = Map.empty,
      proxyServers = [\<lparr>tp_tcp = Some 9000, tp_udp = Some 9001, udpConnections = Map.empty\<rparr>],
      nameToProxy = [''game'' \<mapsto> 0], processLookup = Map.empty,
      staticFilter = \<lparr>sfs_driver = (), sfs_Filters = []\<rparr>\<rparr>"

definition example_syn :: tcp_layer where
  "example_syn = \<lparr>tcp_src = 50000, tcp_dst = 443, tcp_SYN = True, tcp_ACK = False, tcp_RST = False, tcp_FIN = False, tcp_data = []\<rparr>"

definition example_ip :: ip_layer where
  "example_ip = \<lparr>ip_src = [10, 0, 0, 2], ip_dst = [93, 184, 216, 34], ip_proto = 6, ip_tcp = Some example_syn, ip_udp = None\<rparr>"

definition example_frame :: frame where
  "example_frame = \<lparr>src_mac = [2, 0, 0, 0, 0, 1], dst_mac = [2, 0, 0, 0, 0, 2], ether_type = 0x0800, fr_ip = Some example_ip\<rparr>"

lemma example_redirect:
  "\<exists>f1 r1. filter_packet example_system 0 [''game''] example_frame example_router = Ret (PacketRedirect, f1, r1)"
proof -
  have "case filter_packet example_system 0 [''game''] example_frame example_router of Ret (v, _, _) \<Rightarrow> v = PacketRedirect | _ \<Rightarrow> False"
    by code_simp
  then show ?thesis
    by (auto split: outcome.splits)
qed

theorem redirected_connection_transparent_witness:
  "\<exists>f1 r1 ip1 t1. filter_packet example_system 0 [''game''] example_frame example_router = Ret (PacketRedirect, f1, r1)
    \<and> tcp_of f1 = Some (ip1, t1)
    \<and> DialTCP [93, 184, 216, 34] 443 \<in> set (handleTcpConnection r1 (\<lambda>_ _. True) (ip_src ip1, tcp_src t1))"
proof -
  from example_redirect obtain f1 r1 where
    step: "filter_packet example_system 0 [''game''] example_frame example_router = Ret (PacketRedirect, f1, r1)"
    by blast
  have syn: "tcp_of example_frame = Some (example_ip, example_syn)" "tcp_SYN example_syn" "\<not> tcp_ACK example_syn"
    by code_simp+
  have new: "tcpConnections example_router (ip_dst example_ip, tcp_src example_syn) = None"
    "\<not> IsTCPProxyPort example_router (tcp_src example_syn)"
    by code_simp+
  show ?thesis
    using redirected_connection_transparent [OF syn new step, of "[]" r1] step
    by (auto simp: example_ip_def example_syn_def)
qed

theorem search_finds_owner_witness:
  "search_table (newSearcher True True) (put_le32 1 @ encode_row True True example_row) (Addr4 [10, 0, 0, 2]) 50000 False = Ret 1234
   \<and> search_table (newSearcher True True) (put_le32 1 @ encode_row True True example_row) (Addr4 [10, 0, 0, 2]) 50001 False = Fail ProcessNotFound"
proof -
  have wf: "\<forall>w \<in> set [example_row]. wf_row True w"
    by code_simp
  have owner: "search_table (newSearcher True True) (put_le32 1 @ encode_row True True example_row) ip port False
      = (case find (owns True ip port False) [example_row] of None \<Rightarrow> Fail ProcessNotFound | Some w \<Rightarrow> Ret (or_pid w))" for ip port
    by (rule search_finds_owner [where rest = "[]", OF wf]) simp_all
  have "owns True (Addr4 [10, 0, 0, 2]) 50000 False example_row" "\<not> owns True (Addr4 [10, 0, 0, 2]) 50001 False example_row"
    by code_simp+
  then show ?thesis
    by (simp add: owner) (simp add: example_row_def)
qed

end
