(* ===== verification/Dc_Message.thy ===== *)
theory Dc_Message
  imports Dc_Common
begin

text \<open>
  \<open>pkg/dnscrypt/dnsutils.go\<close>: DNS messages as the proxy sees them. The wire format is the work of a third-party
  package: \<open>Pack\<close>, \<open>Unpack\<close> and the comparison \<open>EqualName\<close> of domain names are arguments, a message is a
  record of the fields the code reads and writes.
\<close>

section \<open>Records and messages\<close>

datatype rr_data =
    RD_A netip_addr
  | RD_AAAA netip_addr
  | RD_CNAME string
  | RD_PTR string
  | RD_SVCB nat string
  | RD_HTTPS nat string
  | RD_HINFO string string
  | RD_SOA string string nat
  | RD_TXT "string list"
  | RD_Other u16

abbreviation TypeA :: u16 where "TypeA \<equiv> 1"
abbreviation TypeNS :: u16 where "TypeNS \<equiv> 2"
abbreviation TypeCNAME :: u16 where "TypeCNAME \<equiv> 5"
abbreviation TypeSOA :: u16 where "TypeSOA \<equiv> 6"
abbreviation TypePTR :: u16 where "TypePTR \<equiv> 12"
abbreviation TypeHINFO :: u16 where "TypeHINFO \<equiv> 13"
abbreviation TypeTXT :: u16 where "TypeTXT \<equiv> 16"
abbreviation TypeAAAA :: u16 where "TypeAAAA \<equiv> 28"
abbreviation TypeOPT :: u16 where "TypeOPT \<equiv> 41"
abbreviation TypeSVCB :: u16 where "TypeSVCB \<equiv> 64"
abbreviation TypeHTTPS :: u16 where "TypeHTTPS \<equiv> 65"
abbreviation ClassINET :: u16 where "ClassINET \<equiv> 1"

record RR =
  rr_Name :: string
  rr_Class :: u16
  rr_TTL :: u32
  rr_Data :: rr_data

fun data_type :: "rr_data \<Rightarrow> u16" where
  "data_type (RD_A _) = TypeA"
| "data_type (RD_AAAA _) = TypeAAAA"
| "data_type (RD_CNAME _) = TypeCNAME"
| "data_type (RD_PTR _) = TypePTR"
| "data_type (RD_SVCB _ _) = TypeSVCB"
| "data_type (RD_HTTPS _ _) = TypeHTTPS"
| "data_type (RD_HINFO _ _) = TypeHINFO"
| "data_type (RD_SOA _ _ _) = TypeSOA"
| "data_type (RD_TXT _) = TypeTXT"
| "data_type (RD_Other t) = t"

definition RRToType :: "RR \<Rightarrow> u16" where
  "RRToType rr = data_type (rr_Data rr)"

datatype pseudo_rr = PADDING string | EDE u16 string | SUBNET u16 byte byte netip_addr | PseudoOther nat

abbreviation RcodeSuccess :: u16 where "RcodeSuccess \<equiv> 0"
abbreviation RcodeServerFailure :: u16 where "RcodeServerFailure \<equiv> 2"
abbreviation RcodeNameError :: u16 where "RcodeNameError \<equiv> 3"
abbreviation RcodeRefused :: u16 where "RcodeRefused \<equiv> 5"
abbreviation RcodeNotAuth :: u16 where "RcodeNotAuth \<equiv> 9"

abbreviation ExtendedErrorForgedAnswer :: u16 where "ExtendedErrorForgedAnswer \<equiv> 4"
abbreviation ExtendedErrorFiltered :: u16 where "ExtendedErrorFiltered \<equiv> 17"

record Msg =
  msg_ID :: u16
  msg_Response :: bool
  msg_Opcode :: byte
  msg_RecursionAvailable :: bool
  msg_RecursionDesired :: bool
  msg_CheckingDisabled :: bool
  msg_AuthenticatedData :: bool
  msg_Truncated :: bool
  msg_Rcode :: u16
  msg_UDPSize :: u16
  msg_Security :: bool
  msg_Question :: "RR list"
  msg_Answer :: "RR list"
  msg_Ns :: "RR list"
  msg_Extra :: "RR list"
  msg_Pseudo :: "pseudo_rr list"

definition empty_Msg :: Msg where
  "empty_Msg =
     \<lparr>msg_ID = 0, msg_Response = False, msg_Opcode = 0, msg_RecursionAvailable = False, msg_RecursionDesired = False,
      msg_CheckingDisabled = False, msg_AuthenticatedData = False, msg_Truncated = False, msg_Rcode = 0, msg_UDPSize = 0,
      msg_Security = False, msg_Question = [], msg_Answer = [], msg_Ns = [], msg_Extra = [], msg_Pseudo = []\<rparr>"

datatype msg_error =
    QuestionCount
  | QuestionMismatch
  | MissingMessage
  | NotResponse
  | IDMismatch
  | BadPacket
  | QNameError
  | PluginError string

text \<open>The package: parsing and printing packets, comparing names.\<close>

record dns_package =
  Unpack :: "bytes \<Rightarrow> Msg option"
  Pack :: "Msg \<Rightarrow> bytes option"
  EqualName :: "string \<Rightarrow> string \<Rightarrow> bool"

section \<open>Validation\<close>

definition validateResponseQuestion :: "dns_package \<Rightarrow> Msg option \<Rightarrow> Msg option \<Rightarrow> msg_error option" where
  "validateResponseQuestion D query response =
     (case (query, response) of
        (Some q, Some r) \<Rightarrow>
          (case (msg_Question q, msg_Question r) of
             ([qQuestion], [rQuestion]) \<Rightarrow>
               if RRToType qQuestion \<noteq> RRToType rQuestion \<or> rr_Class qQuestion \<noteq> rr_Class rQuestion \<or>
                  \<not> EqualName D (rr_Name qQuestion) (rr_Name rQuestion)
               then Some QuestionMismatch else None
           | _ \<Rightarrow> Some QuestionCount)
      | _ \<Rightarrow> Some QuestionCount)"

definition validateResponseForQuery :: "dns_package \<Rightarrow> Msg option \<Rightarrow> Msg option \<Rightarrow> msg_error option" where
  "validateResponseForQuery D query response =
     (case (query, response) of
        (Some q, Some r) \<Rightarrow>
          if \<not> msg_Response r then Some NotResponse
          else if msg_ID r \<noteq> msg_ID q then Some IDMismatch
          else validateResponseQuestion D query response
      | _ \<Rightarrow> Some MissingMessage)"

text \<open>A response answers a query: the bit, the identifier and the one question agree.\<close>

definition answers_query :: "dns_package \<Rightarrow> Msg \<Rightarrow> Msg \<Rightarrow> bool" where
  "answers_query D q r \<longleftrightarrow>
     msg_Response r \<and> msg_ID r = msg_ID q \<and>
     (\<exists>a b. msg_Question q = [a] \<and> msg_Question r = [b] \<and> RRToType a = RRToType b \<and> rr_Class a = rr_Class b \<and>
            EqualName D (rr_Name a) (rr_Name b))"

lemma validate_iff: "validateResponseForQuery D (Some q) (Some r) = None \<longleftrightarrow> answers_query D q r"
  by (auto simp: validateResponseForQuery_def validateResponseQuestion_def answers_query_def split: list.splits)

lemma validate_None [simp]:
  "validateResponseForQuery D None r \<noteq> None" "validateResponseForQuery D q None \<noteq> None"
  by (auto simp: validateResponseForQuery_def split: option.splits)

section \<open>Synthetic responses\<close>

definition EmptyResponseFromMessage :: "Msg \<Rightarrow> Msg" where
  "EmptyResponseFromMessage srcMsg =
     (let dstMsg = empty_Msg
        \<lparr>msg_ID := msg_ID srcMsg, msg_Opcode := msg_Opcode srcMsg, msg_Question := msg_Question srcMsg,
         msg_Response := True, msg_RecursionAvailable := True, msg_RecursionDesired := msg_RecursionDesired srcMsg,
         msg_CheckingDisabled := False, msg_AuthenticatedData := False\<rparr> in
      if msg_UDPSize srcMsg > 0
      then dstMsg\<lparr>msg_UDPSize := msg_UDPSize srcMsg, msg_Security := msg_Security srcMsg\<rparr>
      else dstMsg)"

definition TruncatedResponse :: "dns_package \<Rightarrow> bytes \<Rightarrow> msg_error + bytes" where
  "TruncatedResponse D packet =
     (case Unpack D packet of
        None \<Rightarrow> Inl BadPacket
      | Some srcMsg \<Rightarrow>
          (case Pack D ((EmptyResponseFromMessage srcMsg)\<lparr>msg_Truncated := True\<rparr>) of
             None \<Rightarrow> Inl BadPacket
           | Some data \<Rightarrow> Inr data))"

text \<open>The record that stands for a blocked answer, when an address is configured for the type asked.\<close>

definition forged_answer :: "net_IP option \<Rightarrow> net_IP option \<Rightarrow> u16 \<Rightarrow> string \<Rightarrow> u32 \<Rightarrow> RR option" where
  "forged_answer ipv4 ipv6 qtype qname ttl =
     (if ipv4 \<noteq> None \<and> qtype = TypeA then
        map_option (\<lambda>ip4. \<lparr>rr_Name = qname, rr_Class = ClassINET, rr_TTL = ttl, rr_Data = RD_A (Addr4 ip4)\<rparr>) (To4 (the ipv4))
      else if ipv6 \<noteq> None \<and> qtype = TypeAAAA then
        map_option (\<lambda>ip6. \<lparr>rr_Name = qname, rr_Class = ClassINET, rr_TTL = ttl, rr_Data = RD_AAAA (Addr6 ip6)\<rparr>) (To16 (the ipv6))
      else None)"

definition RefusedResponseFromMessage :: "Msg \<Rightarrow> bool \<Rightarrow> net_IP option \<Rightarrow> net_IP option \<Rightarrow> u32 \<Rightarrow> Msg" where
  "RefusedResponseFromMessage srcMsg refusedCode ipv4 ipv6 ttl =
     (let dstMsg = EmptyResponseFromMessage srcMsg;
          with_ede = (\<lambda>m code extra. if msg_UDPSize m > 0 then m\<lparr>msg_Pseudo := msg_Pseudo m @ [EDE code extra]\<rparr> else m) in
      if refusedCode then with_ede (dstMsg\<lparr>msg_Rcode := RcodeRefused\<rparr>) ExtendedErrorFiltered []
      else
        (case msg_Question srcMsg of
           [] \<Rightarrow> with_ede (dstMsg\<lparr>msg_Rcode := RcodeSuccess\<rparr>) ExtendedErrorFiltered []
         | question # _ \<Rightarrow>
             (case forged_answer ipv4 ipv6 (RRToType question) (rr_Name question) ttl of
                Some rr \<Rightarrow>
                  with_ede (dstMsg\<lparr>msg_Rcode := RcodeSuccess, msg_Answer := [rr]\<rparr>) ExtendedErrorForgedAnswer
                    ''This query has been locally blocked by dnscrypt-proxy''
              | None \<Rightarrow>
                  with_ede
                    (dstMsg\<lparr>msg_Rcode := RcodeSuccess,
                            msg_Answer := [\<lparr>rr_Name = rr_Name question, rr_Class = ClassINET, rr_TTL = ttl,
                              rr_Data = RD_HINFO ''This query has been locally blocked'' ''by dnscrypt-proxy''\<rparr>]\<rparr>)
                    ExtendedErrorFiltered [])))"

lemma Empty_simps [simp]:
  "msg_ID (EmptyResponseFromMessage m) = msg_ID m" "msg_Response (EmptyResponseFromMessage m)"
  "msg_Question (EmptyResponseFromMessage m) = msg_Question m"
  by (simp_all add: EmptyResponseFromMessage_def Let_def)

lemma Refused_simps [simp]:
  "msg_ID (RefusedResponseFromMessage m c a b t) = msg_ID m" "msg_Response (RefusedResponseFromMessage m c a b t)"
  "msg_Question (RefusedResponseFromMessage m c a b t) = msg_Question m"
  by (simp_all add: RefusedResponseFromMessage_def Let_def split: list.splits option.splits)

lemma synth_answers:
  assumes "\<forall>n. EqualName D n n" "length (msg_Question q) = 1"
    and "msg_ID r = msg_ID q" "msg_Response r" "msg_Question r = msg_Question q"
  shows "answers_query D q r"
  using assms by (auto simp: answers_query_def length_Suc_conv)

section \<open>Times to live\<close>

definition second :: int where
  "second = 1000000000"

definition min_ttl :: "u32 \<Rightarrow> RR list \<Rightarrow> u32" where
  "min_ttl ttl rrs = foldl (\<lambda>t rr. if rr_TTL rr < t then rr_TTL rr else t) ttl rrs"

definition getMinTTL :: "Msg \<Rightarrow> u32 \<Rightarrow> u32 \<Rightarrow> u32 \<Rightarrow> u32 \<Rightarrow> int" where
  "getMinTTL msg minTTL maxTTL cacheNegMinTTL cacheNegMaxTTL =
     (if (msg_Rcode msg \<noteq> RcodeSuccess \<and> msg_Rcode msg \<noteq> RcodeNameError) \<or>
         (length (msg_Answer msg) \<le> 0 \<and> length (msg_Ns msg) \<le> 0)
      then uint cacheNegMinTTL * second
      else
        let ttl = (if msg_Rcode msg = RcodeSuccess then maxTTL else cacheNegMaxTTL);
            ttl = (if length (msg_Answer msg) > 0 then min_ttl ttl (msg_Answer msg) else min_ttl ttl (msg_Ns msg));
            ttl = (if msg_Rcode msg = RcodeSuccess
                   then (if ttl < minTTL then minTTL else ttl)
                   else (if ttl < cacheNegMinTTL then cacheNegMinTTL else ttl)) in
        uint ttl * second)"

text \<open>The seconds left until \<open>expiration\<close>, rounded to the nearest, half up.\<close>

definition remaining_ttl :: "int \<Rightarrow> int \<Rightarrow> u32" where
  "remaining_ttl now expiration =
     (let until = expiration - now in
      if until > 0 then
        let ttl = (word_of_int (until div second) :: u32) in
        if until - uint ttl * second \<ge> second div 2 then ttl + 1 else ttl
      else 0)"

definition updateTTL :: "int \<Rightarrow> Msg \<Rightarrow> int \<Rightarrow> Msg" where
  "updateTTL now msg expiration =
     (let ttl = remaining_ttl now expiration; upd = map (\<lambda>rr. rr\<lparr>rr_TTL := ttl\<rparr>) in
      msg\<lparr>msg_Answer := upd (msg_Answer msg), msg_Ns := upd (msg_Ns msg),
          msg_Extra := map (\<lambda>rr. if RRToType rr \<noteq> TypeOPT then rr\<lparr>rr_TTL := ttl\<rparr> else rr) (msg_Extra msg)\<rparr>)"

section \<open>EDNS padding\<close>

definition is_padding :: "pseudo_rr \<Rightarrow> bool" where
  "is_padding p = (case p of PADDING _ \<Rightarrow> True | _ \<Rightarrow> False)"

definition hasEDNS0Padding :: "dns_package \<Rightarrow> bytes \<Rightarrow> msg_error + bool" where
  "hasEDNS0Padding D packet =
     (case Unpack D packet of None \<Rightarrow> Inl BadPacket | Some msg \<Rightarrow> Inr (list_ex is_padding (msg_Pseudo msg)))"

text \<open>The result packet (\<open>None\<close> when packing fails) and the message, which the call changes.\<close>

definition addEDNS0PaddingIfNoneFound :: "dns_package \<Rightarrow> Msg \<Rightarrow> bytes \<Rightarrow> nat \<Rightarrow> bytes option \<times> Msg" where
  "addEDNS0PaddingIfNoneFound D msg unpaddedPacket paddingLen =
     (let msg = (if msg_UDPSize msg = 0 then msg\<lparr>msg_UDPSize := of_nat MaxDNSPacketSize\<rparr> else msg) in
      if list_ex is_padding (msg_Pseudo msg) then (Some unpaddedPacket, msg)
      else
        let msg = msg\<lparr>msg_Pseudo := msg_Pseudo msg @ [PADDING (concat (replicate paddingLen ''58''))]\<rparr> in
        (Pack D msg, msg))"

definition removeEDNS0Options :: "Msg \<Rightarrow> bool \<times> Msg" where
  "removeEDNS0Options msg = (if length (msg_Pseudo msg) = 0 then (False, msg) else (True, msg\<lparr>msg_Pseudo := []\<rparr>))"

section \<open>Text records\<close>

definition isDigit :: "byte \<Rightarrow> bool" where
  "isDigit b = (b \<ge> 48 \<and> b \<le> 57)"

definition dddToByte :: "byte \<Rightarrow> byte \<Rightarrow> byte \<Rightarrow> byte option" where
  "dddToByte a b c =
     (let n = unat (a - 48) * 100 + unat (b - 48) * 10 + unat (c - 48) in
      if n > 255 then None else Some (of_nat n))"

fun PackTXTRR :: "bytes \<Rightarrow> bytes" where
  "PackTXTRR [] = []"
| "PackTXTRR (b # bs) =
     (if b = 0x5c then
        (case bs of
           [] \<Rightarrow> []
         | a # rest \<Rightarrow>
             if length bs > 2 \<and> isDigit a \<and> isDigit (bs ! 1) \<and> isDigit (bs ! 2) then
               (case dddToByte a (bs ! 1) (bs ! 2) of Some x \<Rightarrow> [x] | None \<Rightarrow> []) @ PackTXTRR (drop 3 bs)
             else if a = 0x74 then 0x09 # PackTXTRR rest
             else if a = 0x72 then 0x0d # PackTXTRR rest
             else if a = 0x6e then 0x0a # PackTXTRR rest
             else a # PackTXTRR rest)
      else b # PackTXTRR bs)"

section \<open>Bounds on times to live\<close>

lemma min_ttl_le: "min_ttl t rrs \<le> t \<and> (\<forall>rr \<in> set rrs. min_ttl t rrs \<le> rr_TTL rr)"
proof (induction rrs arbitrary: t)
  case (Cons rr rrs)
  let ?t = "if rr_TTL rr < t then rr_TTL rr else t"
  have "min_ttl t (rr # rrs) = min_ttl ?t rrs" by (simp add: min_ttl_def)
  moreover have "?t \<le> t" "?t \<le> rr_TTL rr" by auto
  ultimately show ?case using Cons [of ?t] by (auto intro: order_trans)
qed (simp add: min_ttl_def)

text \<open>The time a positive answer is cached is bounded. It is at least the configured minimum and at most the
  configured maximum, and unless the minimum forces it, at most the time to live of every record of the answer.
\<close>

theorem cache_time_bounds:
  assumes "msg_Rcode msg = RcodeSuccess" "minTTL \<le> maxTTL" "msg_Answer msg \<noteq> []"
  shows "uint minTTL * second \<le> getMinTTL msg minTTL maxTTL negMin negMax \<and>
    getMinTTL msg minTTL maxTTL negMin negMax \<le> uint maxTTL * second \<and>
    list_all (\<lambda>rr. getMinTTL msg minTTL maxTTL negMin negMax \<le> uint (max minTTL (rr_TTL rr)) * second) (msg_Answer msg)"
proof -
  let ?t = "min_ttl maxTTL (msg_Answer msg)"
  let ?u = "if ?t < minTTL then minTTL else ?t"
  have g: "getMinTTL msg minTTL maxTTL negMin negMax = uint ?u * second"
    using assms by (simp add: getMinTTL_def Let_def)
  have "minTTL \<le> ?u" "?u \<le> maxTTL" "\<forall>rr \<in> set (msg_Answer msg). ?u \<le> max minTTL (rr_TTL rr)"
    using min_ttl_le [of maxTTL "msg_Answer msg"] assms(2) by (auto simp: max_def not_less intro: order_trans)
  then show ?thesis
    unfolding g list_all_iff by (auto simp: second_def word_le_def)
qed

definition sample_answer :: Msg where
  "sample_answer = empty_Msg\<lparr>msg_Answer := [\<lparr>rr_Name = ''a.'', rr_Class = 1, rr_TTL = 30, rr_Data = RD_A (Addr4 [1, 2, 3, 4])\<rparr>]\<rparr>"

theorem cache_time_bounds_witness:
  "getMinTTL sample_answer 60 600 5 50 = 60 * second"
  using cache_time_bounds [of sample_answer 60 600 5 50]
  by (simp add: sample_answer_def empty_Msg_def second_def)

lemma remaining_ttl_close:
  assumes "0 < expiration - now" "expiration - now \<le> 4294967295 * second"
  shows "2 * \<bar>uint (remaining_ttl now expiration) * second - (expiration - now)\<bar> \<le> second"
proof -
  define u where "u = expiration - now"
  have q: "0 \<le> u div second" "u div second \<le> 4294967295" and r: "0 \<le> u mod second" "u mod second < second"
    using assms by (auto simp: u_def second_def)
  have u: "u = (u div second) * second + u mod second" by simp
  have w: "uint (word_of_int (u div second) :: u32) = u div second"
    using q by (simp add: uint_word_of_int)
  show ?thesis
  proof (cases "u mod second \<ge> second div 2")
    case False
    then show ?thesis
      using assms(1) w u r unfolding remaining_ttl_def u_def [symmetric] Let_def
      by (simp add: second_def minus_mod_eq_div_mult [symmetric])
  next
    case True
    have "u div second < 4294967295"
    proof (rule ccontr)
      assume "\<not> ?thesis"
      with q have "u div second = 4294967295" by simp
      then have "u = 4294967295 * second + u mod second" using u by metis
      with True assms(2) show False unfolding u_def [symmetric] by (simp add: second_def)
    qed
    then have "uint ((word_of_int (u div second) :: u32) + 1) = u div second + 1"
      using q w by (simp add: uint_plus_if' word_size)
    then show ?thesis
      using True assms(1) w u r unfolding remaining_ttl_def u_def [symmetric] Let_def
      by (simp add: second_def minus_mod_eq_div_mult [symmetric])
  qed
qed

lemma updateTTL_simps [simp]:
  "msg_ID (updateTTL now m e) = msg_ID m" "msg_Response (updateTTL now m e) = msg_Response m"
  "msg_Question (updateTTL now m e) = msg_Question m" "msg_Rcode (updateTTL now m e) = msg_Rcode m"
  by (simp_all add: updateTTL_def Let_def)

section \<open>Unescaping text records\<close>

text \<open>The presentation of a byte string: bytes as they are, escaped with a backslash, or as three decimal digits.\<close>

definition digit3 :: "byte \<Rightarrow> bytes" where
  "digit3 b = [of_nat (48 + unat b div 100), of_nat (48 + unat b div 10 mod 10), of_nat (48 + unat b mod 10)]"

inductive txt_presents :: "bytes \<Rightarrow> bytes \<Rightarrow> bool" where
  txt_end: "txt_presents [] []"
| txt_plain: "b \<noteq> 0x5c \<Longrightarrow> txt_presents t bs \<Longrightarrow> txt_presents (b # t) (b # bs)"
| txt_escaped: "\<not> isDigit b \<Longrightarrow> b \<notin> {0x74, 0x72, 0x6e} \<Longrightarrow> txt_presents t bs \<Longrightarrow> txt_presents (0x5c # b # t) (b # bs)"
| txt_decimal: "txt_presents t bs \<Longrightarrow> txt_presents (0x5c # digit3 b @ t) (b # bs)"

lemma digit3_digits:
  "isDigit (digit3 b ! 0)" "isDigit (digit3 b ! 1)" "isDigit (digit3 b ! 2)"
  "dddToByte (digit3 b ! 0) (digit3 b ! 1) (digit3 b ! 2) = Some b"
proof -
  have n: "unat b < 256" using unsigned_less [of b, where 'a = nat] by simp
  have d: "isDigit (of_nat (48 + k))" "unat (of_nat (48 + k) - 48 :: byte) = k" if "k < 10" for k
  proof -
    have "unat (of_nat (48 + k) :: byte) = 48 + k" using that by (simp add: unat_of_nat del: of_nat_add)
    then show "isDigit (of_nat (48 + k))" using that by (simp add: isDigit_def word_le_nat_alt del: of_nat_add)
    have "(of_nat (48 + k) - 48 :: byte) = of_nat k" by simp
    then show "unat (of_nat (48 + k) - 48 :: byte) = k" using that by (simp add: unat_of_nat del: of_nat_add)
  qed
  have k: "unat b div 100 < 10" "unat b div 10 mod 10 < 10" "unat b mod 10 < 10" using n by auto
  have e: "digit3 b ! 0 = of_nat (48 + unat b div 100)" "digit3 b ! 1 = of_nat (48 + unat b div 10 mod 10)"
    "digit3 b ! 2 = of_nat (48 + unat b mod 10)"
    by (simp_all only: digit3_def nth_Cons_0 nth_Cons_Suc One_nat_def numeral_2_eq_2)
  show "isDigit (digit3 b ! 0)" "isDigit (digit3 b ! 1)" "isDigit (digit3 b ! 2)"
    unfolding e by (rule d(1) [OF k(1)], rule d(1) [OF k(2)], rule d(1) [OF k(3)])
  have "unat b div 100 * 100 + unat b div 10 mod 10 * 10 + unat b mod 10 = unat b"
  proof -
    have "unat b div 100 = unat b div 10 div 10" by (simp add: div_mult2_eq [symmetric])
    then show ?thesis
      using div_mult_mod_eq [of "unat b" 10] div_mult_mod_eq [of "unat b div 10" 10] by linarith
  qed
  then show "dddToByte (digit3 b ! 0) (digit3 b ! 1) (digit3 b ! 2) = Some b"
    unfolding dddToByte_def e d(2) [OF k(1)] d(2) [OF k(2)] d(2) [OF k(3)] Let_def using n by simp
qed

text \<open>Unescaping a text record recovers the bytes it presents. For every presentation of a byte string, with any mix of
  plain, escaped and decimal bytes, \<open>PackTXTRR\<close> returns exactly the byte string; certificates arrive this way.
\<close>

theorem txt_unescape_correct:
  assumes "txt_presents t bs"
  shows "PackTXTRR t = bs"
  using assms
proof (induction rule: txt_presents.induct)
  case (txt_escaped b t bs)
  then show ?case by simp
next
  case (txt_decimal t bs b)
  have "length (digit3 b) = 3" by (simp add: digit3_def)
  moreover obtain x y z where "digit3 b = [x, y, z]" by (simp add: digit3_def)
  ultimately show ?case
    using txt_decimal.IH digit3_digits [of b] by simp
qed simp_all

theorem txt_unescape_correct_witness:
  "PackTXTRR [0x41, 0x5c, 0x22, 0x5c, 0x30, 0x30, 0x37] = [0x41, 0x22, 7]"
proof -
  have "digit3 7 = [0x30, 0x30, 0x37]" by (simp add: digit3_def)
  then have "txt_presents [0x41, 0x5c, 0x22, 0x5c, 0x30, 0x30, 0x37] [0x41, 0x22, 7]"
    using txt_plain [of "0x41" "[0x5c, 0x22, 0x5c, 0x30, 0x30, 0x37]" "[0x22, 7]"]
      txt_escaped [of "0x22" "[0x5c, 0x30, 0x30, 0x37]" "[7]"] txt_decimal [OF txt_end, of 7]
    by (simp add: isDigit_def)
  then show ?thesis by (rule txt_unescape_correct)
qed

end
