(* ===== verification/Dc_Pattern.thy ===== *)
theory Dc_Pattern
  imports Dc_Common
begin

text \<open>
  \<open>pkg/dnscrypt/pattern_matcher.go\<close>: the matcher behind the name rules, with \<open>path/filepath\<close>'s glob matching. The
  critical-bit trees it keeps prefixes and suffixes in are a third-party package: a record of operations, with
  \<open>prefix_trie_ok\<close> stating what the package documents (inserting keeps an existing key, a lookup returns the longest
  stored key that is a prefix of the text).
\<close>

section \<open>Glob patterns\<close>

datatype glob_item = Lit char | AnyChar | CharClass bool "(char \<times> char) list"

datatype glob_token = Star | Item glob_item

text \<open>\<open>getEsc\<close>: one possibly escaped character of a class; something must follow it.\<close>

definition getEsc :: "string \<Rightarrow> (char \<times> string) option" where
  "getEsc s =
     (case s of
        [] \<Rightarrow> None
      | c # r \<Rightarrow>
          if c = CHR ''-'' \<or> c = CHR '']'' then None
          else if c = CHR 0x5C then (case r of d # e # r' \<Rightarrow> Some (d, e # r') | _ \<Rightarrow> None)
          else if r = [] then None else Some (c, r))"

lemma getEsc_shorter: "getEsc s = Some (c, r) \<Longrightarrow> length r < length s"
  by (auto simp: getEsc_def split: list.splits if_splits)

function class_ranges :: "string \<Rightarrow> (char \<times> char) list \<Rightarrow> ((char \<times> char) list \<times> string) option" where
  "class_ranges s acc =
     (if s \<noteq> [] \<and> hd s = CHR '']'' \<and> acc \<noteq> [] then Some (acc, tl s)
      else
        (case getEsc s of
           None \<Rightarrow> None
         | Some (lo, r) \<Rightarrow>
             if hd r = CHR ''-'' then
               (case getEsc (tl r) of None \<Rightarrow> None | Some (hi, r') \<Rightarrow> class_ranges r' (acc @ [(lo, hi)]))
             else class_ranges r (acc @ [(lo, lo)])))"
  by pat_completeness auto
termination
  by (relation "measure (\<lambda>(s, _). length s)") (auto dest!: getEsc_shorter)

lemma class_ranges_shorter: "class_ranges s acc = Some (rs, r) \<Longrightarrow> length r < length s"
proof (induction s acc arbitrary: rs r rule: class_ranges.induct)
  case (1 s acc)
  show ?case
  proof (cases "s \<noteq> [] \<and> hd s = CHR '']'' \<and> acc \<noteq> []")
    case True
    with "1.prems" show ?thesis by (cases s) (simp_all add: class_ranges.simps [of s])
  next
    case False
    with "1.prems" obtain lo r0 where g: "getEsc s = Some (lo, r0)"
      by (subst (asm) class_ranges.simps) (auto split: option.splits)
    show ?thesis
    proof (cases "hd r0 = CHR ''-''")
      case True
      with "1.prems" False g obtain hi r1 where g': "getEsc (tl r0) = Some (hi, r1)"
        and c: "class_ranges r1 (acc @ [(lo, hi)]) = Some (rs, r)"
        by (subst (asm) class_ranges.simps) (auto split: option.splits)
      show ?thesis
        using "1.IH"(1) [OF False g refl True g' refl c] getEsc_shorter [OF g] getEsc_shorter [OF g'] by simp
    next
      case nodash: False
      with "1.prems" False g have "class_ranges r0 (acc @ [(lo, lo)]) = Some (rs, r)"
        by (subst (asm) class_ranges.simps) auto
      then show ?thesis
        using "1.IH"(2) [OF False g refl nodash] getEsc_shorter [OF g] by force
    qed
  qed
qed

declare class_ranges.simps [simp del]

function glob_tokens :: "string \<Rightarrow> glob_token list option" where
  "glob_tokens s =
     (case s of
        [] \<Rightarrow> Some []
      | c # r \<Rightarrow>
          if c = CHR ''*'' then map_option ((#) Star) (glob_tokens r)
          else if c = CHR ''?'' then map_option ((#) (Item AnyChar)) (glob_tokens r)
          else if c = CHR ''['' then
            (let neg = (r \<noteq> [] \<and> hd r = CHR ''^'') in
             case class_ranges (if neg then tl r else r) [] of
               None \<Rightarrow> None
             | Some (rs, r') \<Rightarrow> map_option ((#) (Item (CharClass neg rs))) (glob_tokens r'))
          else if c = CHR 0x5C then
            (case r of [] \<Rightarrow> None | d # r' \<Rightarrow> map_option ((#) (Item (Lit d))) (glob_tokens r'))
          else map_option ((#) (Item (Lit c))) (glob_tokens r))"
  by pat_completeness auto
termination
  by (relation "measure length") (auto dest!: class_ranges_shorter split: if_splits)

declare glob_tokens.simps [simp del]

text \<open>\<open>scanChunk\<close>: the pattern as chunks without stars, each with whether a star stands before it.\<close>

fun glob_chunks :: "bool \<Rightarrow> glob_item list \<Rightarrow> glob_token list \<Rightarrow> (bool \<times> glob_item list) list" where
  "glob_chunks star chunk [] = (if star \<or> chunk \<noteq> [] then [(star, chunk)] else [])"
| "glob_chunks star chunk (Item i # ts) = glob_chunks star (chunk @ [i]) ts"
| "glob_chunks star chunk (Star # ts) =
     (if chunk = [] then glob_chunks True [] ts else (star, chunk) # glob_chunks True [] ts)"

fun item_matches :: "glob_item \<Rightarrow> char \<Rightarrow> bool" where
  "item_matches (Lit d) c = (c = d)"
| "item_matches AnyChar c = (c \<noteq> CHR ''/'')"
| "item_matches (CharClass neg rs) c =
     (list_ex (\<lambda>(lo, hi). (of_char lo :: nat) \<le> of_char c \<and> (of_char c :: nat) \<le> of_char hi) rs \<noteq> neg)"

fun matchChunk :: "glob_item list \<Rightarrow> string \<Rightarrow> string option" where
  "matchChunk [] s = Some s"
| "matchChunk (i # is) [] = None"
| "matchChunk (i # is) (c # s) = (if item_matches i c then matchChunk is s else None)"

text \<open>The texts a star may leave to the next chunk: it never skips a separator.\<close>

fun star_rests :: "string \<Rightarrow> string list" where
  "star_rests [] = [[]]"
| "star_rests (c # s) = (c # s) # (if c = CHR ''/'' then [] else star_rests s)"

fun match_chunks :: "(bool \<times> glob_item list) list \<Rightarrow> string \<Rightarrow> bool" where
  "match_chunks [] name = (name = [])"
| "match_chunks ((star, chunk) # cs) name =
     (if star \<and> chunk = [] then CHR ''/'' \<notin> set name
      else
        (case first_some
            (\<lambda>s. case matchChunk chunk s of
                   None \<Rightarrow> None
                 | Some t \<Rightarrow> if cs = [] \<and> t \<noteq> [] then None else Some t)
            (if star then star_rests name else [name]) of
           None \<Rightarrow> False
         | Some t \<Rightarrow> match_chunks cs t))"

text \<open>\<open>filepath.Match\<close>: \<open>None\<close> is \<open>ErrBadPattern\<close>.\<close>

definition filepath_Match :: "string \<Rightarrow> string \<Rightarrow> bool option" where
  "filepath_Match pattern name = map_option (\<lambda>ts. match_chunks (glob_chunks False [] ts) name) (glob_tokens pattern)"

section \<open>Prefix trees\<close>

record ('t, 'a) prefix_trie =
  NewTrie :: 't
  trie_Insert :: "string \<Rightarrow> 'a \<Rightarrow> 't \<Rightarrow> 't"
  LongestPrefix :: "string \<Rightarrow> 't \<Rightarrow> (string \<times> 'a) option"

definition longest_key :: "(string \<rightharpoonup> 'a) \<Rightarrow> string \<Rightarrow> (string \<times> 'a) option" where
  "longest_key m s = first_some (\<lambda>n. map_option (Pair (take n s)) (m (take n s))) (rev [0..<Suc (length s)])"

definition prefix_trie_ok :: "('t, 'a) prefix_trie \<Rightarrow> ('t \<Rightarrow> string \<rightharpoonup> 'a) \<Rightarrow> bool" where
  "prefix_trie_ok P content \<longleftrightarrow>
     content (NewTrie P) = Map.empty \<and>
     (\<forall>k v t. content (trie_Insert P k v t) = (if content t k = None then (content t)(k \<mapsto> v) else content t)) \<and>
     (\<forall>s t. LongestPrefix P s t = longest_key (content t) s)"

section \<open>The matcher\<close>

text \<open>\<open>PatternTypeNone\<close> is only the initial value of a variable that every branch overwrites.\<close>

datatype PatternType =
    PatternTypePrefix | PatternTypeSuffix | PatternTypeSubstring | PatternTypePattern | PatternTypeExact

text \<open>A value \<open>any\<close> is \<open>None\<close> when it is \<open>nil\<close>.\<close>

record ('t, 'v) PatternMatcher =
  prefixes :: 't
  suffixes :: 't
  substrings :: "string list"
  patterns :: "string list"
  exact :: "string \<Rightarrow> 'v option"
  indirectVals :: "string \<Rightarrow> 'v option"

definition NewPatternMatcher :: "('t, 'v option) prefix_trie \<Rightarrow> ('t, 'v) PatternMatcher" where
  "NewPatternMatcher P =
     \<lparr>prefixes = NewTrie P, suffixes = NewTrie P, substrings = [], patterns = [],
      exact = (\<lambda>_. None), indirectVals = (\<lambda>_. None)\<rparr>"

definition isGlobCandidate :: "string \<Rightarrow> bool" where
  "isGlobCandidate str =
     list_ex (\<lambda>i. str ! i = CHR ''?'' \<or> str ! i = CHR ''['' \<or>
                  str ! i = CHR ''*'' \<and> i \<noteq> 0 \<and> i \<noteq> length str - 1) [0..<length str]"

text \<open>The first half of \<open>Add\<close>: the kind of a pattern and the text that is stored for it.\<close>

definition pattern_kind :: "string \<Rightarrow> nat \<Rightarrow> rule_error + PatternType \<times> string" where
  "pattern_kind pattern position =
     (let leadingStar = has_prefix pattern ''*''; trailingStar = has_suffix pattern ''*'';
          exactMark = has_prefix pattern ''='';
          checked = (\<lambda>t p. if length p = 0 then Inl (RuleSyntax position) else Inr (t, ToLower p)) in
      if isGlobCandidate pattern then
        (if length pattern < 2 \<or> filepath_Match pattern ''example.com'' = None then Inl (RuleSyntax position)
         else checked PatternTypePattern pattern)
      else if leadingStar \<and> trailingStar then
        (if length pattern < 3 then Inl (RuleSyntax position)
         else checked PatternTypeSubstring (butlast (tl pattern)))
      else if trailingStar then
        (if length pattern < 2 then Inl (RuleSyntax position)
         else checked PatternTypePrefix (butlast pattern))
      else if exactMark then
        (if length pattern < 2 then Inl (RuleSyntax position)
         else checked PatternTypeExact (tl pattern))
      else
        checked PatternTypeSuffix (trim_prefix (if leadingStar then tl pattern else pattern) ''.''))"

definition PatternMatcher_Add ::
  "('t, 'v option) prefix_trie \<Rightarrow> string \<Rightarrow> 'v option \<Rightarrow> nat \<Rightarrow> ('t, 'v) PatternMatcher \<Rightarrow>
   rule_error + ('t, 'v) PatternMatcher" where
  "PatternMatcher_Add P pattern val position m =
     (case pattern_kind pattern position of
        Inl e \<Rightarrow> Inl e
      | Inr (t, p) \<Rightarrow>
          Inr (case t of
             PatternTypeSubstring \<Rightarrow>
               m\<lparr>substrings := substrings m @ [p],
                 indirectVals := (if val \<noteq> None then (indirectVals m)(p := val) else indirectVals m)\<rparr>
           | PatternTypePattern \<Rightarrow>
               m\<lparr>patterns := patterns m @ [p],
                 indirectVals := (if val \<noteq> None then (indirectVals m)(p := val) else indirectVals m)\<rparr>
           | PatternTypePrefix \<Rightarrow> m\<lparr>prefixes := trie_Insert P p val (prefixes m)\<rparr>
           | PatternTypeSuffix \<Rightarrow> m\<lparr>suffixes := trie_Insert P (StringReverse p) val (suffixes m)\<rparr>
           | PatternTypeExact \<Rightarrow> m\<lparr>exact := (exact m)(p := val)\<rparr>))"

text \<open>A stored suffix decides only when it ends at a label boundary of the reversed name.\<close>

definition at_boundary :: "string \<Rightarrow> string \<Rightarrow> bool" where
  "at_boundary match name = (length match = length name \<or> name ! length match = CHR ''.'')"

definition eval_suffix ::
  "('t, 'v option) prefix_trie \<Rightarrow> ('t, 'v) PatternMatcher \<Rightarrow> string \<Rightarrow> (string \<times> 'v option) option" where
  "eval_suffix P m qName =
     (let revQname = StringReverse qName in
      case LongestPrefix P revQname (suffixes m) of
        None \<Rightarrow> None
      | Some (match, xval) \<Rightarrow>
          if at_boundary match revQname then Some (''*.'' @ StringReverse match, xval)
          else if length match < length revQname \<and> length revQname > 0 then
            (case last_index revQname (CHR ''.'') of
               None \<Rightarrow> None
             | Some i \<Rightarrow>
                 if i > 0 then
                   let pName = take i revQname in
                   (case LongestPrefix P pName (suffixes m) of
                      None \<Rightarrow> None
                    | Some (match, xval2) \<Rightarrow>
                        if at_boundary match pName then Some (''*.'' @ StringReverse match, xval2) else None)
                 else None)
          else None)"

definition PatternMatcher_Eval ::
  "('t, 'v option) prefix_trie \<Rightarrow> ('t, 'v) PatternMatcher \<Rightarrow> string \<Rightarrow> bool \<times> string \<times> 'v option" where
  "PatternMatcher_Eval P m qName =
     (if length qName < 2 then (False, [], None)
      else if exact m qName \<noteq> None then (True, qName, exact m qName)
      else
        (case eval_suffix P m qName of
           Some (reason, xval) \<Rightarrow> (True, reason, xval)
         | None \<Rightarrow>
             (case LongestPrefix P qName (prefixes m) of
                Some (match, xval) \<Rightarrow> (True, match @ ''*'', xval)
              | None \<Rightarrow>
                  (case find (contains qName) (substrings m) of
                     Some sub \<Rightarrow> (True, ''*'' @ sub @ ''*'', indirectVals m sub)
                   | None \<Rightarrow>
                       (case find (\<lambda>p. filepath_Match p qName = Some True) (patterns m) of
                          Some p \<Rightarrow> (True, p, indirectVals m p)
                        | None \<Rightarrow> (False, [], None))))))"

section \<open>What a set of rules means\<close>

text \<open>The rules of a file in order; a rule that does not parse is skipped.\<close>

definition add_pattern ::
  "('t, 'v option) prefix_trie \<Rightarrow> ('t, 'v) PatternMatcher \<Rightarrow> string \<times> 'v option \<Rightarrow> ('t, 'v) PatternMatcher" where
  "add_pattern P m r = (case PatternMatcher_Add P (fst r) (snd r) 0 m of Inl _ \<Rightarrow> m | Inr m' \<Rightarrow> m')"

definition matcher_of :: "('t, 'v option) prefix_trie \<Rightarrow> (string \<times> 'v option) list \<Rightarrow> ('t, 'v) PatternMatcher" where
  "matcher_of P rules = foldl (add_pattern P) (NewPatternMatcher P) rules"

definition stored :: "(string \<times> 'v option) list \<Rightarrow> (PatternType \<times> string \<times> 'v option) list" where
  "stored rules =
     concat (map (\<lambda>(p, v). case pattern_kind p 0 of Inl _ \<Rightarrow> [] | Inr (t, q) \<Rightarrow> [(t, q, v)]) rules)"

definition of_kind :: "PatternType \<Rightarrow> (string \<times> 'v option) list \<Rightarrow> (string \<times> 'v option) list" where
  "of_kind t rules = map snd (filter (\<lambda>r. fst r = t) (stored rules))"

definition label_suffix :: "string \<Rightarrow> string \<Rightarrow> bool" where
  "label_suffix s q = (q = s \<or> has_suffix q (CHR ''.'' # s))"

fun pattern_matches :: "PatternType \<Rightarrow> string \<Rightarrow> string \<Rightarrow> bool" where
  "pattern_matches PatternTypePrefix p q = has_prefix q p"
| "pattern_matches PatternTypeSuffix p q = label_suffix p q"
| "pattern_matches PatternTypeSubstring p q = contains q p"
| "pattern_matches PatternTypePattern p q = (filepath_Match p q = Some True)"
| "pattern_matches PatternTypeExact p q = (q = p)"

lemma of_kind_iff: "(p, v) \<in> set (of_kind t rules) \<longleftrightarrow> (t, p, v) \<in> set (stored rules)"
  by (force simp: of_kind_def)

lemma fst_of_kind: "p \<in> fst ` set (of_kind t rules) \<longleftrightarrow> (\<exists>v. (t, p, v) \<in> set (stored rules))"
  by (metis (no_types, lifting) fst_conv image_iff of_kind_iff prod.collapse)

lemma of_kind_Nil [simp]: "of_kind t [] = []" and stored_Nil [simp]: "stored [] = []"
  by (simp_all add: of_kind_def stored_def)

lemma of_kind_snoc:
  "of_kind t (rules @ [r]) =
     of_kind t rules @
     (case pattern_kind (fst r) 0 of Inl _ \<Rightarrow> [] | Inr (t', q) \<Rightarrow> if t' = t then [(q, snd r)] else [])"
  by (cases r) (auto simp: of_kind_def stored_def split: sum.splits)

text \<open>The longest stored key.\<close>

lemma longest_key_SomeD:
  assumes "longest_key m s = Some (k, v)"
  shows "m k = Some v \<and> (\<exists>t. s = k @ t)"
  using first_some_SomeD [OF assms [unfolded longest_key_def]]
  by (auto simp: map_option_case split: option.splits) (metis append_take_drop_id)+

lemma longest_key_None:
  "longest_key m s = None \<longleftrightarrow> (\<forall>k t. s = k @ t \<longrightarrow> m k = None)"
proof
  assume L: "longest_key m s = None"
  show "\<forall>k t. s = k @ t \<longrightarrow> m k = None"
  proof (intro allI impI)
    fix k t assume "s = k @ t"
    then have "take (length k) s = k" "length k \<in> set (rev [0..<Suc (length s)])" by auto
    then show "m k = None"
      using L by (metis (no_types, lifting) first_some_None_iff longest_key_def option.map_disc_iff)
  qed
next
  assume "\<forall>k t. s = k @ t \<longrightarrow> m k = None"
  then show "longest_key m s = None"
    by (simp add: longest_key_def first_some_None_iff) (metis append_take_drop_id)
qed

section \<open>What the matcher stores\<close>

definition last_value :: "(string \<times> 'v option) list \<Rightarrow> string \<Rightarrow> 'v option" where
  "last_value xs q = (case map_of (rev xs) q of None \<Rightarrow> None | Some v \<Rightarrow> v)"

lemma last_value_snoc [simp]: "last_value (xs @ [(k, v)]) = (last_value xs)(k := v)"
  by (rule ext) (simp add: last_value_def)

lemma last_value_Nil [simp]: "last_value [] = (\<lambda>_. None)"
  by (rule ext) (simp add: last_value_def)

lemma last_value_SomeD: "last_value xs k = Some v \<Longrightarrow> (k, Some v) \<in> set xs"
  by (auto simp: last_value_def dest!: map_of_SomeD split: option.splits)

text \<open>The values of substring and glob rules share one table; \<open>nil\<close> values are not entered.\<close>

definition indirect_entries :: "(string \<times> 'v option) list \<Rightarrow> (string \<times> 'v option) list" where
  "indirect_entries rules =
     map snd (filter (\<lambda>(t, p, v). (t = PatternTypeSubstring \<or> t = PatternTypePattern) \<and> v \<noteq> None) (stored rules))"

definition matcher_rel ::
  "('t \<Rightarrow> string \<rightharpoonup> 'v option) \<Rightarrow> (string \<times> 'v option) list \<Rightarrow> ('t, 'v) PatternMatcher \<Rightarrow> bool" where
  "matcher_rel content rules m \<longleftrightarrow>
     content (prefixes m) = map_of (of_kind PatternTypePrefix rules) \<and>
     content (suffixes m) = map_of (map (\<lambda>(p, v). (rev p, v)) (of_kind PatternTypeSuffix rules)) \<and>
     substrings m = map fst (of_kind PatternTypeSubstring rules) \<and>
     patterns m = map fst (of_kind PatternTypePattern rules) \<and>
     exact m = last_value (of_kind PatternTypeExact rules) \<and>
     indirectVals m = last_value (indirect_entries rules)"

lemma indirect_entries_snoc:
  "indirect_entries (rules @ [r]) =
     indirect_entries rules @
     (case pattern_kind (fst r) 0 of Inl _ \<Rightarrow> []
      | Inr (t, q) \<Rightarrow> if (t = PatternTypeSubstring \<or> t = PatternTypePattern) \<and> snd r \<noteq> None then [(q, snd r)] else [])"
  by (cases r) (auto simp: indirect_entries_def stored_def split: sum.splits)

lemma map_of_snoc_keep: "map_of (xs @ [(k, v)]) = (if map_of xs k = None then (map_of xs)(k \<mapsto> v) else map_of xs)"
  by (rule ext) (auto simp: map_add_def split: option.splits)

lemma matcher_rel_Add:
  assumes ok: "prefix_trie_ok P content" and rel: "matcher_rel content rules m"
  shows "matcher_rel content (rules @ [r]) (add_pattern P m r)"
proof (cases "pattern_kind (fst r) 0")
  case (Inl e)
  then show ?thesis
    using rel by (simp add: matcher_rel_def add_pattern_def PatternMatcher_Add_def of_kind_snoc indirect_entries_snoc)
next
  case (Inr tp)
  obtain t p where tp: "tp = (t, p)" by (cases tp)
  have ins: "content (trie_Insert P k v tr) = (if content tr k = None then (content tr)(k \<mapsto> v) else content tr)" for k v tr
    using ok by (simp add: prefix_trie_ok_def)
  show ?thesis
    using rel Inr tp
    by (cases t) (auto simp: matcher_rel_def add_pattern_def PatternMatcher_Add_def of_kind_snoc indirect_entries_snoc
        StringReverse_def ins map_of_snoc_keep simp del: map_of_append)
qed

lemma matcher_rel_of:
  assumes "prefix_trie_ok P content"
  shows "matcher_rel content rules (matcher_of P rules)"
proof (induction rules rule: rev_induct)
  case Nil
  then show ?case
    using assms by (simp add: matcher_rel_def matcher_of_def NewPatternMatcher_def prefix_trie_ok_def indirect_entries_def)
next
  case (snoc r rules)
  then show ?case
    using matcher_rel_Add [OF assms snoc] by (simp add: matcher_of_def)
qed

section \<open>Exactness\<close>

lemma label_suffix_rev: "label_suffix s q \<longleftrightarrow> (\<exists>t. rev q = rev s @ t \<and> (t = [] \<or> hd t = CHR ''.''))"
proof
  assume "label_suffix s q"
  then show "\<exists>t. rev q = rev s @ t \<and> (t = [] \<or> hd t = CHR ''.'')"
    by (auto simp: label_suffix_def has_suffix_iff)
next
  assume "\<exists>t. rev q = rev s @ t \<and> (t = [] \<or> hd t = CHR ''.'')"
  then obtain t where t: "rev q = rev s @ t" "t = [] \<or> hd t = CHR ''.''" by blast
  then have "q = rev t @ s" by (metis rev_append rev_rev_ident)
  with t(2) show "label_suffix s q"
    by (cases t) (auto simp: label_suffix_def has_suffix_iff)
qed

lemma at_boundary_append: "at_boundary k (k @ t) \<longleftrightarrow> t = [] \<or> hd t = CHR ''.''"
  by (cases t) (auto simp: at_boundary_def)

lemma last_index_Some:
  assumes "last_index s c = Some i"
  shows "i < length s \<and> s ! i = c"
proof -
  let ?w = "takeWhile (\<lambda>x. x \<noteq> c) (rev s)"
  have c: "c \<in> set s" and i: "i = length s - 1 - length ?w"
    using assms by (auto simp: last_index_def split: if_splits)
  have "?w \<noteq> rev s" using c by (auto simp: takeWhile_eq_all_conv)
  then have "length ?w < length (rev s)"
    by (metis length_takeWhile_le nat_less_le take_all takeWhile_eq_take order_refl)
  moreover have "rev s ! length ?w = c"
    using nth_length_takeWhile [OF \<open>length ?w < length (rev s)\<close>] by simp
  ultimately show ?thesis using i by (simp add: rev_nth)
qed

lemma eval_suffix_sound:
  assumes ok: "prefix_trie_ok P content" and rel: "matcher_rel content rules m"
    and e: "eval_suffix P m q = Some (reason, v)"
  shows "\<exists>s. (PatternTypeSuffix, s, v) \<in> set (stored rules) \<and> label_suffix s q"
proof -
  have look: "\<exists>s t. (PatternTypeSuffix, s, w) \<in> set (stored rules) \<and> k = rev s \<and> r = k @ t"
    if "LongestPrefix P r (suffixes m) = Some (k, w)" for k w r
  proof -
    have "longest_key (content (suffixes m)) r = Some (k, w)"
      using ok that by (simp add: prefix_trie_ok_def)
    from longest_key_SomeD [OF this] show ?thesis
      using rel by (fastforce simp: matcher_rel_def of_kind_iff dest!: map_of_SomeD)
  qed
  obtain k w where k: "LongestPrefix P (rev q) (suffixes m) = Some (k, w)"
    using e by (auto simp: eval_suffix_def Let_def StringReverse_def split: option.splits)
  show ?thesis
  proof (cases "at_boundary k (rev q)")
    case True
    with k e look [OF k] show ?thesis
      by (auto simp: eval_suffix_def Let_def StringReverse_def label_suffix_rev at_boundary_append)
  next
    case False
    with k e obtain i k' where i: "last_index (rev q) (CHR ''.'') = Some i"
      and k': "LongestPrefix P (take i (rev q)) (suffixes m) = Some (k', v)" "at_boundary k' (take i (rev q))"
      by (auto simp: eval_suffix_def Let_def StringReverse_def split: option.splits if_splits prod.splits)
    obtain s t where s: "(PatternTypeSuffix, s, v) \<in> set (stored rules)" "k' = rev s" "take i (rev q) = k' @ t"
      using look [OF k'(1)] by auto
    have "rev q = rev s @ (t @ drop i (rev q))"
      using s append_take_drop_id [of i "rev q"] by simp
    moreover have "hd (drop i (rev q)) = CHR ''.''" "drop i (rev q) \<noteq> []"
      using last_index_Some [OF i] by (simp_all add: hd_drop_conv_nth)
    moreover have "t = [] \<or> hd t = CHR ''.''"
      using k'(2) s by (simp add: at_boundary_append)
    ultimately have "label_suffix s q"
      unfolding label_suffix_rev by (metis hd_append)
    with s show ?thesis by blast
  qed
qed

lemma eval_suffix_complete:
  assumes ok: "prefix_trie_ok P content" and rel: "matcher_rel content rules m"
    and s: "(PatternTypeSuffix, s, v) \<in> set (stored rules)" "label_suffix s q"
    and clean: "\<forall>(s, _) \<in> set (of_kind PatternTypeSuffix rules). has_suffix q s \<longrightarrow> label_suffix s q"
  shows "eval_suffix P m q \<noteq> None"
proof -
  let ?c = "content (suffixes m)"
  have mem: "?c (rev s') \<noteq> None \<longleftrightarrow> (\<exists>w. (s', w) \<in> set (of_kind PatternTypeSuffix rules))" for s'
    using rel by (force simp: matcher_rel_def map_of_eq_None_iff)
  have "longest_key ?c (rev q) \<noteq> None"
    using s mem [of s] by (auto simp: longest_key_None label_suffix_rev of_kind_iff)
  then obtain k w where k: "longest_key ?c (rev q) = Some (k, w)" by auto
  obtain t where t: "?c k = Some w" "rev q = k @ t" using longest_key_SomeD [OF k] by auto
  then have "\<exists>w. (rev k, w) \<in> set (of_kind PatternTypeSuffix rules)" using mem [of "rev k"] by auto
  moreover have "has_suffix q (rev k)"
    using t(2) by (metis has_suffix_iff rev_append rev_rev_ident)
  ultimately have "label_suffix (rev k) q" using clean by fastforce
  then have "at_boundary k (rev q)" using t(2) by (auto simp: label_suffix_rev at_boundary_append)
  then show ?thesis
    using k ok by (simp add: eval_suffix_def Let_def StringReverse_def prefix_trie_ok_def)
qed

lemma prefix_lookup:
  assumes ok: "prefix_trie_ok P content" and rel: "matcher_rel content rules m"
  shows "(LongestPrefix P q (prefixes m) = None) \<longleftrightarrow> (\<forall>p v. (PatternTypePrefix, p, v) \<in> set (stored rules) \<longrightarrow> \<not> has_prefix q p)"
    and "LongestPrefix P q (prefixes m) = Some (k, v) \<Longrightarrow> (PatternTypePrefix, k, v) \<in> set (stored rules) \<and> has_prefix q k"
proof -
  have L: "LongestPrefix P q (prefixes m) = longest_key (map_of (of_kind PatternTypePrefix rules)) q"
    using ok rel by (simp add: prefix_trie_ok_def matcher_rel_def)
  show "(LongestPrefix P q (prefixes m) = None) \<longleftrightarrow> (\<forall>p v. (PatternTypePrefix, p, v) \<in> set (stored rules) \<longrightarrow> \<not> has_prefix q p)"
    unfolding L longest_key_None
    by (auto simp: map_of_eq_None_iff has_prefix_iff fst_of_kind)
  show "LongestPrefix P q (prefixes m) = Some (k, v) \<Longrightarrow> (PatternTypePrefix, k, v) \<in> set (stored rules) \<and> has_prefix q k"
  proof -
    assume "LongestPrefix P q (prefixes m) = Some (k, v)"
    from longest_key_SomeD [OF this [unfolded L]] show ?thesis
      by (auto simp: has_prefix_iff of_kind_iff dest!: map_of_SomeD)
  qed
qed

lemma find_stored:
  "find f (map fst (of_kind t rules)) = None \<longleftrightarrow> (\<forall>p v. (t, p, v) \<in> set (stored rules) \<longrightarrow> \<not> f p)"
  by (auto simp: find_None_iff fst_of_kind)

definition no_nil :: "(string \<times> 'v option) list \<Rightarrow> bool" where
  "no_nil rules = list_all (\<lambda>r. snd r \<noteq> None) rules"

lemma no_nil_stored: "no_nil rules \<Longrightarrow> (t, p, v) \<in> set (stored rules) \<Longrightarrow> v \<noteq> None"
  by (fastforce simp: no_nil_def stored_def list_all_iff split: sum.splits)

lemma exact_lookup:
  assumes "no_nil rules"
  shows "last_value (of_kind PatternTypeExact rules) q \<noteq> None \<longleftrightarrow> (\<exists>v. (PatternTypeExact, q, v) \<in> set (stored rules))"
proof
  assume "\<exists>v. (PatternTypeExact, q, v) \<in> set (stored rules)"
  then have "map_of (rev (of_kind PatternTypeExact rules)) q \<noteq> None"
    by (simp add: map_of_eq_None_iff fst_of_kind)
  then obtain v where v: "map_of (rev (of_kind PatternTypeExact rules)) q = Some v" by auto
  then have "v \<noteq> None"
    using no_nil_stored [OF assms] by (auto dest!: map_of_SomeD simp: of_kind_iff)
  with v show "last_value (of_kind PatternTypeExact rules) q \<noteq> None" by (simp add: last_value_def)
qed (auto dest!: last_value_SomeD simp: of_kind_iff)

lemma Eval_stages:
  "fst (PatternMatcher_Eval P m q) \<longleftrightarrow>
     2 \<le> length q \<and>
     (exact m q \<noteq> None \<or> eval_suffix P m q \<noteq> None \<or> LongestPrefix P q (prefixes m) \<noteq> None \<or>
      find (contains q) (substrings m) \<noteq> None \<or> find (\<lambda>p. filepath_Match p q = Some True) (patterns m) \<noteq> None)"
  by (auto simp: PatternMatcher_Eval_def split: option.splits prod.splits)

lemma pattern_eval_iff:
  assumes ok: "prefix_trie_ok P content" and nn: "no_nil rules" and len: "2 \<le> length q"
    and clean: "\<forall>(s, _) \<in> set (of_kind PatternTypeSuffix rules). has_suffix q s \<longrightarrow> label_suffix s q"
  shows "fst (PatternMatcher_Eval P (matcher_of P rules) q) \<longleftrightarrow>
    (\<exists>(t, p, v) \<in> set (stored rules). pattern_matches t p q)"
proof -
  let ?m = "matcher_of P rules"
  have rel: "matcher_rel content rules ?m" by (rule matcher_rel_of [OF ok])
  have sfx: "eval_suffix P ?m q \<noteq> None \<longleftrightarrow> (\<exists>s v. (PatternTypeSuffix, s, v) \<in> set (stored rules) \<and> label_suffix s q)"
    using eval_suffix_sound [OF ok rel] eval_suffix_complete [OF ok rel _ _ clean] by (metis option.exhaust surj_pair)
  have ex: "exact ?m q \<noteq> None \<longleftrightarrow> (\<exists>v. (PatternTypeExact, q, v) \<in> set (stored rules))"
    using rel exact_lookup [OF nn, of q] by (simp add: matcher_rel_def)
  have pre: "LongestPrefix P q (prefixes ?m) \<noteq> None \<longleftrightarrow> (\<exists>p v. (PatternTypePrefix, p, v) \<in> set (stored rules) \<and> has_prefix q p)"
    using prefix_lookup(1) [OF ok rel, of q] by simp
  have sub: "find (contains q) (substrings ?m) \<noteq> None \<longleftrightarrow> (\<exists>p v. (PatternTypeSubstring, p, v) \<in> set (stored rules) \<and> contains q p)"
    using rel find_stored [of "contains q" PatternTypeSubstring rules] by (simp add: matcher_rel_def)
  have glob: "find (\<lambda>p. filepath_Match p q = Some True) (patterns ?m) \<noteq> None \<longleftrightarrow>
      (\<exists>p v. (PatternTypePattern, p, v) \<in> set (stored rules) \<and> filepath_Match p q = Some True)"
    using rel find_stored [of "\<lambda>p. filepath_Match p q = Some True" PatternTypePattern rules] by (simp add: matcher_rel_def)
  have "fst (PatternMatcher_Eval P ?m q) \<longleftrightarrow>
      (\<exists>v. (PatternTypeExact, q, v) \<in> set (stored rules)) \<or>
      (\<exists>s v. (PatternTypeSuffix, s, v) \<in> set (stored rules) \<and> label_suffix s q) \<or>
      (\<exists>p v. (PatternTypePrefix, p, v) \<in> set (stored rules) \<and> has_prefix q p) \<or>
      (\<exists>p v. (PatternTypeSubstring, p, v) \<in> set (stored rules) \<and> contains q p) \<or>
      (\<exists>p v. (PatternTypePattern, p, v) \<in> set (stored rules) \<and> filepath_Match p q = Some True)"
    using len unfolding Eval_stages sfx ex pre sub glob by blast
  also have "\<dots> \<longleftrightarrow> (\<exists>(t, p, v) \<in> set (stored rules). pattern_matches t p q)"
    unfolding Bex_def split_paired_Ex split_conv
    by (intro iffI; elim exE disjE conjE) (auto elim!: pattern_matches.elims intro: pattern_matches.simps [THEN iffD2])
  finally show ?thesis .
qed

section \<open>Values\<close>

text \<open>A substring pattern has no glob character, a glob pattern has one: the two kinds never share an entry.\<close>

definition glob_char :: "char \<Rightarrow> bool" where
  "glob_char c \<longleftrightarrow> c = CHR ''?'' \<or> c = CHR ''['' \<or> c = CHR ''*''"

lemma glob_char_lower [simp]: "glob_char (lower_char c) \<longleftrightarrow> glob_char c"
proof -
  have "lower_char c = d \<longleftrightarrow> c = d" if "d \<in> {CHR ''?'', CHR ''['', CHR ''*''}" for d
  proof -
    have "lower_char c = d \<Longrightarrow> c = d"
    proof (cases "65 \<le> (of_char c :: nat) \<and> (of_char c :: nat) \<le> 90")
      case True
      assume "lower_char c = d"
      then have "(of_char d :: nat) = of_char c + 32" using True by (auto simp: lower_char_def Let_def)
      moreover have "(of_char d :: nat) \<le> 91" using that by auto
      ultimately show ?thesis using True by simp
    qed (simp add: lower_char_def Let_def)
    moreover have "c = d \<Longrightarrow> lower_char c = d" using that by (auto simp: lower_char_def)
    ultimately show ?thesis by blast
  qed
  then show ?thesis by (simp add: glob_char_def)
qed

lemma list_ex_ToLower: "list_ex glob_char (ToLower s) \<longleftrightarrow> list_ex glob_char s"
  by (induction s) (simp_all add: ToLower_def)

lemma glob_candidate_char: "isGlobCandidate s \<Longrightarrow> list_ex glob_char s"
  by (fastforce simp: isGlobCandidate_def glob_char_def list_ex_length [of _ s] list_ex_iff [of _ "[0..<length s]"])

lemma inner_not_glob:
  assumes "\<not> isGlobCandidate s" "3 \<le> length s"
  shows "\<not> list_ex glob_char (butlast (tl s))"
proof -
  have "\<not> glob_char (butlast (tl s) ! i)" if "i < length (butlast (tl s))" for i
  proof -
    have "Suc i < length s" "Suc i \<noteq> length s - 1" "butlast (tl s) ! i = s ! Suc i"
      using that assms(2) by (auto simp: nth_butlast nth_tl)
    then show ?thesis using assms(1) by (auto simp: isGlobCandidate_def glob_char_def list_ex_iff)
  qed
  then show ?thesis by (metis list_ex_length)
qed

lemma stored_glob_char:
  assumes "(t, p, v) \<in> set (stored rules)"
  shows "t = PatternTypePattern \<Longrightarrow> list_ex glob_char p" and "t = PatternTypeSubstring \<Longrightarrow> \<not> list_ex glob_char p"
proof -
  obtain q where q: "pattern_kind q 0 = Inr (t, p)"
    using assms by (auto simp: stored_def split: sum.splits)
  show "t = PatternTypePattern \<Longrightarrow> list_ex glob_char p"
    using q glob_candidate_char [of q]
    by (auto simp: pattern_kind_def Let_def list_ex_ToLower split: if_splits)
  show "t = PatternTypeSubstring \<Longrightarrow> \<not> list_ex glob_char p"
    using q inner_not_glob [of q] by (auto simp: pattern_kind_def Let_def list_ex_ToLower split: if_splits)
qed

lemma indirect_value:
  assumes nn: "no_nil rules" and s: "(t, p, w) \<in> set (stored rules)"
    and t: "t = PatternTypeSubstring \<or> t = PatternTypePattern"
  shows "(t, p, last_value (indirect_entries rules) p) \<in> set (stored rules)"
proof -
  have "w \<noteq> None" by (rule no_nil_stored [OF nn s])
  then have "(p, w) \<in> set (indirect_entries rules)"
    using s t by (force simp: indirect_entries_def)
  then have "map_of (rev (indirect_entries rules)) p \<noteq> None"
    by (simp add: map_of_eq_None_iff) (metis fst_conv image_eqI)
  then obtain v where v: "map_of (rev (indirect_entries rules)) p = Some v" by auto
  then obtain t' where t': "(t', p, v) \<in> set (stored rules)" "t' = PatternTypeSubstring \<or> t' = PatternTypePattern"
    by (auto simp: indirect_entries_def dest!: map_of_SomeD)
  have "t' = t"
    using stored_glob_char [OF s] stored_glob_char [OF t'(1)] t t'(2) by auto
  with t' v show ?thesis by (simp add: last_value_def)
qed

lemma find_SomeD: "find f xs = Some x \<Longrightarrow> x \<in> set xs \<and> f x"
  by (auto simp: find_Some_iff)

lemma Eval_True_cases:
  assumes "PatternMatcher_Eval P m q = (True, reason, v)"
  obtains (exact) y where "exact m q = Some y" "v = Some y"
    | (suffix) "eval_suffix P m q = Some (reason, v)"
    | (prefix) k where "LongestPrefix P q (prefixes m) = Some (k, v)"
    | (substring) s where "find (contains q) (substrings m) = Some s" "v = indirectVals m s"
    | (glob) p where "find (\<lambda>p. filepath_Match p q = Some True) (patterns m) = Some p" "v = indirectVals m p"
  using assms that
  by (cases "exact m q") (auto simp: PatternMatcher_Eval_def split: if_splits option.splits prod.splits)

text \<open>A reported match is the match of a rule, and the value is the value of that rule.\<close>

lemma pattern_eval_value:
  assumes ok: "prefix_trie_ok P content" and nn: "no_nil rules"
    and e: "PatternMatcher_Eval P (matcher_of P rules) q = (True, reason, v)"
  shows "\<exists>t p. (t, p, v) \<in> set (stored rules) \<and> pattern_matches t p q"
proof -
  have rel: "matcher_rel content rules (matcher_of P rules)" by (rule matcher_rel_of [OF ok])
  from e show ?thesis
  proof (cases rule: Eval_True_cases)
    case (exact x)
    then have "v = Some x" "last_value (of_kind PatternTypeExact rules) q = Some x"
      using rel by (auto simp: matcher_rel_def)
    then show ?thesis
      using last_value_SomeD [of _ q x] by (metis of_kind_iff pattern_matches.simps(5))
  next
    case suffix
    then show ?thesis using eval_suffix_sound [OF ok rel] by (metis pattern_matches.simps(2))
  next
    case (prefix k)
    then show ?thesis using prefix_lookup(2) [OF ok rel] by (metis pattern_matches.simps(1))
  next
    case (substring s)
    then obtain w where "(PatternTypeSubstring, s, w) \<in> set (stored rules)" "contains q s"
      using rel fst_of_kind [of s PatternTypeSubstring rules] by (auto simp: matcher_rel_def dest!: find_SomeD)
    then show ?thesis
      using indirect_value [OF nn, of PatternTypeSubstring s w] rel substring
      by (auto simp: matcher_rel_def intro!: exI [of _ PatternTypeSubstring])
  next
    case (glob p)
    then obtain w where "(PatternTypePattern, p, w) \<in> set (stored rules)" "filepath_Match p q = Some True"
      using rel fst_of_kind [of p PatternTypePattern rules] by (auto simp: matcher_rel_def dest!: find_SomeD)
    then show ?thesis
      using indirect_value [OF nn, of PatternTypePattern p w] rel glob
      by (auto simp: matcher_rel_def intro!: exI [of _ PatternTypePattern])
  qed
qed

section \<open>Properties\<close>

definition alist_trie :: "((string \<times> 'a) list, 'a) prefix_trie" where
  "alist_trie =
     \<lparr>NewTrie = [], trie_Insert = (\<lambda>k v t. if map_of t k = None then t @ [(k, v)] else t),
      LongestPrefix = (\<lambda>s t. longest_key (map_of t) s)\<rparr>"

lemma alist_trie_ok: "prefix_trie_ok alist_trie map_of"
  by (simp add: prefix_trie_ok_def alist_trie_def map_of_snoc_keep del: map_of_append)

text \<open>
  C11: the pattern matcher decides exactly the rules. Whatever patterns of the five kinds were added, a name of at
  least two characters is matched iff one of them matches it (exactly, as a domain and its subdomains, as a prefix,
  as a substring, as a glob), provided no stored domain ends in the middle of a label of the name.
\<close>

theorem pattern_matcher_exact:
  assumes "prefix_trie_ok P content" "no_nil rules" "2 \<le> length q"
    and "\<forall>(s, _) \<in> set (of_kind PatternTypeSuffix rules). has_suffix q s \<longrightarrow> label_suffix s q"
  shows "fst (PatternMatcher_Eval P (matcher_of P rules) q) \<longleftrightarrow>
    (\<exists>(t, p, v) \<in> set (stored rules). pattern_matches t p q)"
  by (rule pattern_eval_iff [OF assms])

definition sample_rules :: "(string \<times> nat option) list" where
  "sample_rules =
     [(''*.Example.com'', Some 1), (''ads*'', Some 2), (''*track*'', Some 3), (''=exact.net'', Some 4),
      (''a?.b.[c-e]*.org'', Some 5), (''a*'', Some 6)]"

lemma sample_stored:
  "stored sample_rules =
     [(PatternTypeSuffix, ''example.com'', Some 1), (PatternTypePrefix, ''ads'', Some 2), (PatternTypeSubstring, ''track'', Some 3),
      (PatternTypeExact, ''exact.net'', Some 4), (PatternTypePattern, ''a?.b.[c-e]*.org'', Some 5), (PatternTypePrefix, ''a'', Some 6)]"
  by code_simp

theorem pattern_matcher_exact_witness:
  "fst (PatternMatcher_Eval alist_trie (matcher_of alist_trie sample_rules) ''ay.b.dx.org'')"
proof -
  have "no_nil sample_rules" by (simp add: no_nil_def sample_rules_def)
  moreover have "\<forall>(s, _) \<in> set (of_kind PatternTypeSuffix sample_rules). has_suffix ''ay.b.dx.org'' s \<longrightarrow> label_suffix s ''ay.b.dx.org''"
    by (simp add: of_kind_def sample_stored has_suffix_def)
  moreover have "pattern_matches PatternTypePattern ''a?.b.[c-e]*.org'' ''ay.b.dx.org''"
    by code_simp
  ultimately show ?thesis
    by (subst pattern_matcher_exact [OF alist_trie_ok]) (simp, simp, simp, simp add: sample_stored)
qed

text \<open>A longer rule can hide a shorter one. The matcher looks only at the longest stored text the name ends with,
  and once more after dropping the first label; when both end inside a label, a rule for a parent domain is missed.
  With the rules \<open>com\<close> and \<open>ample.com\<close> the name \<open>www.example.com\<close> is not matched, although the rule \<open>com\<close> alone
  matches it.
\<close>

theorem longer_pattern_hides_shorter:
  assumes "prefix_trie_ok P content"
  shows "PatternMatcher_Eval P (matcher_of P [(''com'', v), (''ample.com'', w)]) ''www.example.com'' = (False, [], None)
    \<and> PatternMatcher_Eval P (matcher_of P [(''com'', v)]) ''www.example.com'' = (True, ''*.com'', v)"
proof -
  have k: "pattern_kind ''com'' 0 = Inr (PatternTypeSuffix, ''com'')" "pattern_kind ''ample.com'' 0 = Inr (PatternTypeSuffix, ''ample.com'')"
    by code_simp+
  have i: "last_index ''moc.elpmaxe.www'' (CHR ''.'') = Some 11" by code_simp
  have c: "content (NewTrie P) = Map.empty" and ins: "\<And>k v t. content (trie_Insert P k v t) = (if content t k = None then (content t)(k \<mapsto> v) else content t)"
    and L: "\<And>s t. LongestPrefix P s t = longest_key (content t) s"
    using assms by (simp_all add: prefix_trie_ok_def)
  show ?thesis
    by (simp add: matcher_of_def add_pattern_def PatternMatcher_Add_def k NewPatternMatcher_def PatternMatcher_Eval_def
        eval_suffix_def StringReverse_def L c ins i Let_def longest_key_def at_boundary_def upt_rec numeral_eq_Suc)
qed

theorem longer_pattern_hides_shorter_witness:
  "PatternMatcher_Eval alist_trie (matcher_of alist_trie [(''com'', Some True), (''ample.com'', Some True)]) ''www.example.com'' = (False, [], None)"
  using longer_pattern_hides_shorter [OF alist_trie_ok, of "Some True" "Some True"] by simp

end
