(* ===== verification/Dc_Time.thy ===== *)
theory Dc_Time
  imports Dc_Common
begin

text \<open>
  \<open>pkg/dnscrypt/time_ranges.go\<close>: the weekly schedules that restrict rules to times of the day. The local clock is an
  argument: the day of the week, the hour and the minute.
\<close>

record TimeRange =
  tr_after :: int
  tr_before :: int

record TimeRangeStr =
  After :: string
  Before :: string

record WeeklyRangesStr =
  Sun :: "TimeRangeStr list"
  Mon :: "TimeRangeStr list"
  Tue :: "TimeRangeStr list"
  Wed :: "TimeRangeStr list"
  Thu :: "TimeRangeStr list"
  Fri :: "TimeRangeStr list"
  Sat :: "TimeRangeStr list"

text \<open>\<open>[7][]TimeRange\<close>, indexed by the day of the week.\<close>

type_synonym WeeklyRanges = "TimeRange list list"

datatype time_error = TimeSyntax string

definition daySecsFromStr :: "string \<Rightarrow> time_error + int" where
  "daySecsFromStr str =
     (case split_char (CHR '':'') str of
        [p0, p1] \<Rightarrow>
          (case Atoi p0 of
             None \<Rightarrow> Inl (TimeSyntax str)
           | Some hours \<Rightarrow>
               if hours < 0 \<or> hours > 23 then Inl (TimeSyntax str)
               else
                 (case Atoi p1 of
                    None \<Rightarrow> Inl (TimeSyntax str)
                  | Some minutes \<Rightarrow>
                      if minutes < 0 \<or> minutes > 59 then Inl (TimeSyntax str)
                      else Inr ((hours * 60 + minutes) * 60)))
      | _ \<Rightarrow> Inl (TimeSyntax str))"

fun parse_ranges :: "TimeRangeStr list \<Rightarrow> TimeRange list \<Rightarrow> time_error + TimeRange list" where
  "parse_ranges [] acc = Inr acc"
| "parse_ranges (t # ts) acc =
     (case daySecsFromStr (After t) of
        Inl e \<Rightarrow> Inl e
      | Inr a \<Rightarrow>
          (case daySecsFromStr (Before t) of
             Inl e \<Rightarrow> Inl e
           | Inr b \<Rightarrow>
               let (a', b') = (if a = b then (-1, 86402) else (a, b)) in
               parse_ranges ts (acc @ [\<lparr>tr_after = a', tr_before = b'\<rparr>])))"

definition parseTimeRanges :: "TimeRangeStr list \<Rightarrow> time_error + TimeRange list" where
  "parseTimeRanges ts = parse_ranges ts []"

fun parse_days :: "TimeRangeStr list list \<Rightarrow> time_error + WeeklyRanges" where
  "parse_days [] = Inr []"
| "parse_days (d # ds) =
     (case parseTimeRanges d of
        Inl e \<Rightarrow> Inl e
      | Inr r \<Rightarrow> (case parse_days ds of Inl e \<Rightarrow> Inl e | Inr rs \<Rightarrow> Inr (r # rs)))"

definition week :: "WeeklyRangesStr \<Rightarrow> TimeRangeStr list list" where
  "week w = [Sun w, Mon w, Tue w, Wed w, Thu w, Fri w, Sat w]"

definition parseWeeklyRanges :: "WeeklyRangesStr \<Rightarrow> time_error + WeeklyRanges" where
  "parseWeeklyRanges w = parse_days (week w)"

text \<open>The loop over the named schedules, in the order the map is visited.\<close>

fun ParseAllWeeklyRanges ::
  "(string \<times> WeeklyRangesStr) list \<Rightarrow> (string \<rightharpoonup> WeeklyRanges) \<Rightarrow> time_error + (string \<rightharpoonup> WeeklyRanges)" where
  "ParseAllWeeklyRanges [] acc = Inr acc"
| "ParseAllWeeklyRanges ((n, w) # ws) acc =
     (case parseWeeklyRanges w of
        Inl e \<Rightarrow> Inl e
      | Inr r \<Rightarrow> ParseAllWeeklyRanges ws (acc(n \<mapsto> r)))"

record local_clock =
  clk_day :: nat
  clk_hour :: int
  clk_min :: int

definition clock_ok :: "local_clock \<Rightarrow> bool" where
  "clock_ok c \<longleftrightarrow> clk_day c < 7 \<and> 0 \<le> clk_hour c \<and> clk_hour c < 24 \<and> 0 \<le> clk_min c \<and> clk_min c < 60"

fun match_ranges :: "int \<Rightarrow> TimeRange list \<Rightarrow> bool" where
  "match_ranges nowX [] = False"
| "match_ranges nowX (r # rs) =
     (if tr_after r > tr_before r then
        (if nowX \<ge> tr_after r \<or> nowX \<le> tr_before r then True else match_ranges nowX rs)
      else if nowX \<ge> tr_after r \<and> nowX \<le> tr_before r then True
      else match_ranges nowX rs)"

definition WeeklyRanges_Match :: "local_clock \<Rightarrow> WeeklyRanges \<Rightarrow> bool" where
  "WeeklyRanges_Match now w =
     (let weeklyRange = w ! clk_day now in
      if length weeklyRange = 0 then False
      else match_ranges ((clk_hour now * 60 + clk_min now) * 60) weeklyRange)"

section \<open>What a schedule means\<close>

text \<open>
  A time text is an hour and a minute. A range holds from its first to its last minute, both included; when the
  first is later than the last it holds outside the gap between them, on the same day; when both are equal it
  holds all day.
\<close>

definition clock_text :: "string \<Rightarrow> (int \<times> int) option" where
  "clock_text s =
     (case map Atoi (split_char (CHR '':'') s) of
        [Some h, Some m] \<Rightarrow> if 0 \<le> h \<and> h < 24 \<and> 0 \<le> m \<and> m < 60 then Some (h, m) else None
      | _ \<Rightarrow> None)"

definition minute_of :: "int \<times> int \<Rightarrow> int" where
  "minute_of t = fst t * 60 + snd t"

definition in_schedule :: "int \<Rightarrow> TimeRangeStr \<Rightarrow> bool" where
  "in_schedule now t =
     (case (clock_text (After t), clock_text (Before t)) of
        (Some a, Some b) \<Rightarrow>
          (if minute_of a = minute_of b then True
           else if minute_of a < minute_of b then minute_of a \<le> now \<and> now \<le> minute_of b
           else minute_of a \<le> now \<or> now \<le> minute_of b)
      | _ \<Rightarrow> False)"

lemma daySecs_clock_text:
  "daySecsFromStr s = (case clock_text s of None \<Rightarrow> Inl (TimeSyntax s) | Some t \<Rightarrow> Inr (minute_of t * 60))"
  by (auto simp: daySecsFromStr_def clock_text_def minute_of_def split: list.splits option.splits)

lemma clock_text_range: "clock_text s = Some t \<Longrightarrow> 0 \<le> minute_of t \<and> minute_of t < 1440"
  by (auto simp: clock_text_def minute_of_def split: list.splits option.splits if_splits)

lemma match_ranges_append: "match_ranges n (rs @ rs') \<longleftrightarrow> match_ranges n rs \<or> match_ranges n rs'"
  by (induction rs) auto

lemma match_one:
  assumes "clock_text (After t) = Some a" "clock_text (Before t) = Some b" "0 \<le> n" "n < 1440"
    and "(a', b') = (if minute_of a * 60 = minute_of b * 60 then (-1, 86402) else (minute_of a * 60, minute_of b * 60))"
  shows "match_ranges (n * 60) [\<lparr>tr_after = a', tr_before = b'\<rparr>] \<longleftrightarrow> in_schedule n t"
  using assms clock_text_range [OF assms(1)] clock_text_range [OF assms(2)]
  by (auto simp: in_schedule_def split: if_splits)

lemma parse_ranges_match:
  assumes "parse_ranges ts acc = Inr rs" "0 \<le> n" "n < 1440"
  shows "match_ranges (n * 60) rs \<longleftrightarrow> match_ranges (n * 60) acc \<or> list_ex (in_schedule n) ts"
  using assms(1)
proof (induction ts arbitrary: acc)
  case (Cons t ts)
  from Cons.prems obtain a b where ab: "clock_text (After t) = Some a" "clock_text (Before t) = Some b"
    by (auto simp: daySecs_clock_text split: option.splits)
  obtain a' b' where r: "(a', b') = (if minute_of a * 60 = minute_of b * 60 then (-1, 86402) else (minute_of a * 60, minute_of b * 60))"
    by (metis surj_pair)
  have "parse_ranges ts (acc @ [\<lparr>tr_after = a', tr_before = b'\<rparr>]) = Inr rs"
    using Cons.prems ab r [symmetric] by (simp add: daySecs_clock_text Let_def split: if_splits prod.splits)
  from Cons.IH [OF this] match_one [OF ab assms(2,3) r] show ?case
    by (simp add: match_ranges_append)
qed simp

lemma parse_days_nth:
  "parse_days ds = Inr w \<Longrightarrow> length w = length ds \<and> (\<forall>i < length ds. parseTimeRanges (ds ! i) = Inr (w ! i))"
  by (induction ds arbitrary: w) (auto simp: nth_Cons split: sum.splits nat.splits)

text \<open>A parsed schedule is active exactly at the times its texts name. At every minute of the week, the schedule
  built from the texts of a configuration matches iff one of that day's ranges contains the minute, where a range
  whose end comes before its start wraps around midnight of the same day and a range with equal ends is the whole day.
\<close>

theorem schedule_active_iff:
  assumes "parseWeeklyRanges w = Inr ranges" "clock_ok now"
  shows "WeeklyRanges_Match now ranges \<longleftrightarrow>
    list_ex (in_schedule (clk_hour now * 60 + clk_min now)) (week w ! clk_day now)"
proof -
  have p: "parse_ranges (week w ! clk_day now) [] = Inr (ranges ! clk_day now)"
    using parse_days_nth [of "week w" ranges] assms
    by (auto simp: parseWeeklyRanges_def clock_ok_def week_def parseTimeRanges_def)
  have "WeeklyRanges_Match now ranges \<longleftrightarrow> match_ranges ((clk_hour now * 60 + clk_min now) * 60) (ranges ! clk_day now)"
    by (auto simp: WeeklyRanges_Match_def Let_def)
  also have "\<dots> \<longleftrightarrow> list_ex (in_schedule (clk_hour now * 60 + clk_min now)) (week w ! clk_day now)"
    using assms(2) by (subst parse_ranges_match [OF p]) (auto simp: clock_ok_def)
  finally show ?thesis .
qed

definition night_week :: WeeklyRangesStr where
  "night_week =
     \<lparr>Sun = [], Mon = [\<lparr>After = ''22:00'', Before = ''6:30''\<rparr>], Tue = [], Wed = [], Thu = [], Fri = [], Sat = []\<rparr>"

theorem schedule_active_iff_witness:
  "WeeklyRanges_Match \<lparr>clk_day = 1, clk_hour = 6, clk_min = 30\<rparr>
     [[], [\<lparr>tr_after = 79200, tr_before = 23400\<rparr>], [], [], [], [], []]"
proof -
  have "parseWeeklyRanges night_week = Inr [[], [\<lparr>tr_after = 79200, tr_before = 23400\<rparr>], [], [], [], [], []]"
    by code_simp
  moreover have "clock_ok \<lparr>clk_day = 1, clk_hour = 6, clk_min = 30\<rparr>"
    by (simp add: clock_ok_def)
  ultimately show ?thesis
    by (subst schedule_active_iff) (simp, simp, code_simp)
qed

end
