(* ===== verification/Dc_Plugins.thy ===== *)
theory Dc_Plugins
  imports Dc_Message Dc_Pattern Dc_Time
begin

text \<open>
  \<open>pkg/dnscrypt/plugins.go\<close> and the plugins without state of their own: what a query goes through before it is sent
  and a response before it is returned. A plugin reads and changes the state of the query and the message;
  plugins that keep tables of their own share a world \<open>'w\<close>.
\<close>

section \<open>The state of a query\<close>

datatype PluginsAction =
    PluginsActionNone | PluginsActionContinue | PluginsActionDrop | PluginsActionReject | PluginsActionSynth

datatype PluginsReturnCode =
    PluginsReturnCodePass
  | PluginsReturnCodeForward
  | PluginsReturnCodeDrop
  | PluginsReturnCodeReject
  | PluginsReturnCodeSynth
  | PluginsReturnCodeParseError
  | PluginsReturnCodeNXDomain
  | PluginsReturnCodeResponseError
  | PluginsReturnCodeServFail
  | PluginsReturnCodeNetworkError
  | PluginsReturnCodeCloak
  | PluginsReturnCodeServerTimeout
  | PluginsReturnCodeNotReady

text \<open>The entries \<open>whitelisted\<close> and \<open>stale\<close> of \<open>sessionData\<close> are fields.\<close>

record PluginsState =
  clientProto :: string
  clientAddr :: "net_IP option"
  serverName :: string
  relayName :: string
  serverProto :: string
  qName :: string
  synthResponse :: "Msg option"
  questionMsg :: "Msg option"
  whitelisted :: bool
  stale :: "Msg option"
  action :: PluginsAction
  returnCode :: PluginsReturnCode
  maxPayloadSize :: int
  originalMaxPayloadSize :: int
  maxUnencryptedUDPSafePayloadSize :: int
  rejectTTL :: u32
  cacheMaxTTL :: u32
  cacheMinTTL :: u32
  cacheNegMaxTTL :: u32
  cacheNegMinTTL :: u32
  cacheHit :: bool
  dnssec :: bool

definition ResponseOverhead :: int where
  "ResponseOverhead = 8 + 24 + 16"

definition MaxDNSUDPPacketSize :: int where
  "MaxDNSUDPPacketSize = 4096"

definition MaxDNSUDPSafePacketSize :: int where
  "MaxDNSUDPSafePacketSize = 1252"

record ttl_config =
  cfg_rejectTTL :: u32
  cfg_cacheMaxTTL :: u32
  cfg_cacheMinTTL :: u32
  cfg_cacheNegMaxTTL :: u32
  cfg_cacheNegMinTTL :: u32

definition NewPluginsState :: "ttl_config \<Rightarrow> string \<Rightarrow> net_IP option \<Rightarrow> string \<Rightarrow> PluginsState" where
  "NewPluginsState c proto addr sproto =
     \<lparr>clientProto = proto, clientAddr = addr, serverName = ''-'', relayName = [], serverProto = sproto, qName = [],
      synthResponse = None, questionMsg = None, whitelisted = False, stale = None,
      action = PluginsActionContinue, returnCode = PluginsReturnCodePass,
      maxPayloadSize = MaxDNSUDPPacketSize - ResponseOverhead, originalMaxPayloadSize = 0,
      maxUnencryptedUDPSafePayloadSize = MaxDNSUDPSafePacketSize,
      rejectTTL = cfg_rejectTTL c, cacheMaxTTL = cfg_cacheMaxTTL c, cacheMinTTL = cfg_cacheMinTTL c,
      cacheNegMaxTTL = cfg_cacheNegMaxTTL c, cacheNegMinTTL = cfg_cacheNegMinTTL c, cacheHit = False, dnssec = False\<rparr>"

text \<open>The client address as a text; queries the proxy makes itself have none.\<close>

definition ExtractClientIPStr :: "PluginsState \<Rightarrow> string option" where
  "ExtractClientIPStr s =
     (case clientAddr s of
        None \<Rightarrow> None
      | Some ip \<Rightarrow> if clientProto s \<in> {''udp'', ''tcp'', ''local_doh''} then Some (IP_String ip) else None)"

text \<open>A log takes the client, the name and the reason, and may fail; \<open>enc\<close> encrypts the client address when configured.\<close>

type_synonym plugin_log = "string \<Rightarrow> string \<Rightarrow> string \<Rightarrow> msg_error option"

definition ExtractClientIPStrEncrypted :: "PluginsState \<Rightarrow> (string \<Rightarrow> string) option \<Rightarrow> string option" where
  "ExtractClientIPStrEncrypted s ipCryptConfig =
     (case (ExtractClientIPStr s, ipCryptConfig) of
        (Some ip, Some enc) \<Rightarrow> Some (enc ip)
      | (r, _) \<Rightarrow> r)"

section \<open>Name rules\<close>

text \<open>The value of a rule is a pointer to its schedule, \<open>None\<close> when it has none.\<close>

type_synonym 't name_matcher = "('t, WeeklyRanges option) PatternMatcher"

type_synonym 't name_trie = "('t, WeeklyRanges option option) prefix_trie"

record 't BlockedNames =
  bn_matcher :: "'t name_matcher"
  bn_logger :: "plugin_log option"
  bn_ipCrypt :: "(string \<Rightarrow> string) option"

definition load_name_rule ::
  "'t name_trie \<Rightarrow> (string \<rightharpoonup> WeeklyRanges) \<Rightarrow> 't name_matcher \<Rightarrow> string \<Rightarrow> nat \<Rightarrow> rule_error + 't name_matcher" where
  "load_name_rule P ranges m line lineNo =
     (case ParseTimeBasedRule line lineNo ranges of
        Inl e \<Rightarrow> Inr m
      | Inr (rulePart, weeklyRanges) \<Rightarrow>
          (case PatternMatcher_Add P rulePart (Some weeklyRanges) (lineNo + 1) m of
             Inl e \<Rightarrow> Inr m
           | Inr m' \<Rightarrow> Inr m'))"

definition loadRules :: "'t name_trie \<Rightarrow> (string \<rightharpoonup> WeeklyRanges) \<Rightarrow> string \<Rightarrow> 't name_matcher \<Rightarrow> rule_error + 't name_matcher" where
  "loadRules P ranges lines m = ProcessConfigLines lines (load_name_rule P ranges) m"

text \<open>Whether a rule's schedule lets it act now.\<close>

definition schedule_allows :: "local_clock \<Rightarrow> WeeklyRanges option option \<Rightarrow> bool" where
  "schedule_allows now v = (case v of Some (Some w) \<Rightarrow> WeeklyRanges_Match now w | _ \<Rightarrow> True)"

definition BlockedNames_check ::
  "'t name_trie \<Rightarrow> local_clock \<Rightarrow> 't BlockedNames \<Rightarrow> PluginsState \<Rightarrow> string \<Rightarrow> string option \<Rightarrow>
   (bool \<times> msg_error option) \<times> PluginsState" where
  "BlockedNames_check P now b s name aliasFor =
     (case PatternMatcher_Eval P (bn_matcher b) name of
        (reject, reason, xweeklyRanges) \<Rightarrow>
          let reason = (case aliasFor of None \<Rightarrow> reason | Some a \<Rightarrow> reason @ '' (alias for ['' @ a @ ''])'') in
          if \<not> (reject \<and> schedule_allows now xweeklyRanges) then ((False, None), s)
          else
            let s = s\<lparr>action := PluginsActionReject, returnCode := PluginsReturnCodeReject\<rparr> in
            (case bn_logger b of
               None \<Rightarrow> ((True, None), s)
             | Some log \<Rightarrow>
                 (case ExtractClientIPStrEncrypted s (bn_ipCrypt b) of
                    None \<Rightarrow> ((False, None), s)
                  | Some ip \<Rightarrow>
                      (case log ip name reason of
                         Some e \<Rightarrow> ((False, Some e), s)
                       | None \<Rightarrow> ((True, None), s)))))"

definition PluginBlockName_Eval ::
  "'t name_trie \<Rightarrow> local_clock \<Rightarrow> 't BlockedNames option \<Rightarrow> PluginsState \<Rightarrow> msg_error option \<times> PluginsState" where
  "PluginBlockName_Eval P now blockedNames s =
     (if whitelisted s then (None, s)
      else
        (case blockedNames of
           None \<Rightarrow> (None, s)
         | Some b \<Rightarrow> (case BlockedNames_check P now b s (qName s) None of ((_, err), s') \<Rightarrow> (err, s'))))"

text \<open>The names a response leads to: targets of aliases and of service bindings in alias mode.\<close>

definition alias_target :: "RR \<Rightarrow> string option" where
  "alias_target rr =
     (if rr_Class rr \<noteq> ClassINET then None
      else
        (case rr_Data rr of
           RD_CNAME t \<Rightarrow> Some t
         | RD_SVCB p t \<Rightarrow> if p = 0 then Some t else None
         | RD_HTTPS p t \<Rightarrow> if p = 0 then Some t else None
         | _ \<Rightarrow> None))"

definition aliasesLimit :: nat where
  "aliasesLimit = 8"

fun check_aliases ::
  "'t name_trie \<Rightarrow> local_clock \<Rightarrow> 't BlockedNames \<Rightarrow> string \<Rightarrow> nat \<Rightarrow> RR list \<Rightarrow> PluginsState \<Rightarrow> msg_error option \<times> PluginsState" where
  "check_aliases P now b aliasFor aliasesLeft [] s = (None, s)"
| "check_aliases P now b aliasFor aliasesLeft (answer # answers) s =
     (case alias_target answer of
        None \<Rightarrow> check_aliases P now b aliasFor aliasesLeft answers s
      | Some t \<Rightarrow>
          (case NormalizeQName t of
             Inl _ \<Rightarrow> (Some QNameError, s)
           | Inr target \<Rightarrow>
               (case BlockedNames_check P now b s target (Some aliasFor) of
                  ((blocked, err), s') \<Rightarrow>
                    if blocked \<or> err \<noteq> None then (err, s')
                    else if aliasesLeft - 1 = 0 then (None, s')
                    else check_aliases P now b aliasFor (aliasesLeft - 1) answers s')))"

definition PluginBlockNameResponse_Eval ::
  "'t name_trie \<Rightarrow> local_clock \<Rightarrow> 't BlockedNames option \<Rightarrow> PluginsState \<Rightarrow> Msg \<Rightarrow> msg_error option \<times> PluginsState" where
  "PluginBlockNameResponse_Eval P now blockedNames s msg =
     (if whitelisted s then (None, s)
      else
        (case blockedNames of
           None \<Rightarrow> (None, s)
         | Some b \<Rightarrow> check_aliases P now b (qName s) aliasesLimit (msg_Answer msg) s))"

record 't PluginAllowName =
  an_matcher :: "'t name_matcher"
  an_logger :: "plugin_log option"
  an_ipCrypt :: "(string \<Rightarrow> string) option"

definition PluginAllowName_Eval ::
  "'t name_trie \<Rightarrow> local_clock \<Rightarrow> 't PluginAllowName \<Rightarrow> PluginsState \<Rightarrow> msg_error option \<times> PluginsState" where
  "PluginAllowName_Eval P now plugin s =
     (case PatternMatcher_Eval P (an_matcher plugin) (qName s) of
        (allowList, reason, xweeklyRanges) \<Rightarrow>
          if allowList \<and> schedule_allows now xweeklyRanges then
            let s = s\<lparr>whitelisted := True\<rparr> in
            (case an_logger plugin of
               None \<Rightarrow> (None, s)
             | Some log \<Rightarrow>
                 (case ExtractClientIPStrEncrypted s (an_ipCrypt plugin) of
                    None \<Rightarrow> (None, s)
                  | Some ip \<Rightarrow> (log ip (qName s) reason, s)))
          else (None, s))"

section \<open>Plugins that answer by themselves\<close>

definition synth_with :: "Msg \<Rightarrow> PluginsReturnCode \<Rightarrow> PluginsState \<Rightarrow> PluginsState" where
  "synth_with synth code s = s\<lparr>synthResponse := Some synth, action := PluginsActionSynth, returnCode := code\<rparr>"

text \<open>\<open>question\<close> is \<open>msg.Question[0]\<close>; the pipeline guarantees that there is exactly one.\<close>

definition PluginFirefox_Eval :: "PluginsState \<Rightarrow> Msg \<Rightarrow> PluginsState" where
  "PluginFirefox_Eval s msg =
     (let question = hd (msg_Question msg); qtype = RRToType question in
      if clientProto s = ''local_doh'' then s
      else if rr_Class question \<noteq> ClassINET \<or> (qtype \<noteq> TypeA \<and> qtype \<noteq> TypeAAAA) then s
      else if qName s \<noteq> ''use-application-dns.net'' \<and> \<not> has_suffix (qName s) ''.use-application-dns.net'' then s
      else synth_with ((EmptyResponseFromMessage msg)\<lparr>msg_Rcode := RcodeNameError\<rparr>) PluginsReturnCodeSynth s)"

definition PluginBlockIPv6_Eval :: "PluginsState \<Rightarrow> Msg \<Rightarrow> PluginsState" where
  "PluginBlockIPv6_Eval s msg =
     (let question = hd (msg_Question msg); name = rr_Name question in
      if rr_Class question \<noteq> ClassINET \<or> RRToType question \<noteq> TypeAAAA then s
      else
        let rest = dropWhile (\<lambda>c. c \<noteq> CHR ''.'') name;
            parentZone = (if length rest \<le> 1 then ''.'' else tl rest);
            hinfo = \<lparr>rr_Name = name, rr_Class = ClassINET, rr_TTL = 86400,
                     rr_Data = RD_HINFO ''AAAA queries have been locally blocked by dnscrypt-proxy''
                       ''Set block_ipv6 to false to disable this feature''\<rparr>;
            soa = \<lparr>rr_Name = parentZone, rr_Class = ClassINET, rr_TTL = 60,
                   rr_Data = RD_SOA ''a.root-servers.net.'' ''h.invalid.'' 1\<rparr> in
        synth_with ((EmptyResponseFromMessage msg)\<lparr>msg_Answer := [hinfo], msg_Ns := [soa]\<rparr>) PluginsReturnCodeSynth s)"

definition PluginBlockUnqualified_Eval :: "PluginsState \<Rightarrow> Msg \<Rightarrow> PluginsState" where
  "PluginBlockUnqualified_Eval s msg =
     (let question = hd (msg_Question msg); qtype = RRToType question in
      if rr_Class question \<noteq> ClassINET \<or> (qtype \<noteq> TypeA \<and> qtype \<noteq> TypeAAAA) then s
      else if CHR ''.'' \<in> set (qName s) then s
      else synth_with ((EmptyResponseFromMessage msg)\<lparr>msg_Rcode := RcodeNameError\<rparr>) PluginsReturnCodeSynth s)"

text \<open>The list of undelegated zones is an argument.\<close>

definition PluginBlockUndelegated_Init :: "('t, bool) prefix_trie \<Rightarrow> string list \<Rightarrow> 't" where
  "PluginBlockUndelegated_Init P undelegatedSet =
     foldl (\<lambda>t line. trie_Insert P (StringReverse line) True t) (NewTrie P) undelegatedSet"

definition PluginBlockUndelegated_Eval :: "('t, bool) prefix_trie \<Rightarrow> 't \<Rightarrow> PluginsState \<Rightarrow> Msg \<Rightarrow> PluginsState" where
  "PluginBlockUndelegated_Eval P zones s msg =
     (let revQname = StringReverse (qName s) in
      case LongestPrefix P revQname zones of
        None \<Rightarrow> s
      | Some (match, _) \<Rightarrow>
          if at_boundary match revQname
          then synth_with ((EmptyResponseFromMessage msg)\<lparr>msg_Rcode := RcodeNameError\<rparr>) PluginsReturnCodeSynth s
          else s)"

definition PluginGetSetPayloadSize_Eval :: "PluginsState \<Rightarrow> Msg \<Rightarrow> PluginsState \<times> Msg" where
  "PluginGetSetPayloadSize_Eval s msg =
     (let s = s\<lparr>originalMaxPayloadSize := 512 - ResponseOverhead\<rparr>;
          sec = msg_Security msg;
          s = (if msg_UDPSize msg > 0 then
                 (let n = uint (msg_UDPSize msg) in
                  s\<lparr>maxUnencryptedUDPSafePayloadSize := n,
                    originalMaxPayloadSize := max (n - ResponseOverhead) (originalMaxPayloadSize s)\<rparr>)
               else s);
          s = s\<lparr>dnssec := sec,
                maxPayloadSize := min (MaxDNSUDPPacketSize - ResponseOverhead)
                  (max (originalMaxPayloadSize s) (maxPayloadSize s))\<rparr> in
      if maxPayloadSize s > 512
      then (s, msg\<lparr>msg_UDPSize := word_of_int (maxPayloadSize s), msg_Security := sec\<rparr>)
      else (s, msg))"

definition PluginQueryMeta_Eval :: "string list \<Rightarrow> Msg \<Rightarrow> Msg" where
  "PluginQueryMeta_Eval queryMeta msg =
     msg\<lparr>msg_Extra := [\<lparr>rr_Name = ''.'', rr_Class = ClassINET, rr_TTL = 86400, rr_Data = RD_TXT queryMeta\<rparr>]\<rparr>"

text \<open>A client subnet is an address and a prefix length; \<open>ipnet\<close> is the one drawn at random.\<close>

definition PluginECS_Eval :: "net_IP \<times> nat \<Rightarrow> PluginsState \<Rightarrow> Msg \<Rightarrow> Msg" where
  "PluginECS_Eval ipnet s msg =
     (if list_ex (\<lambda>p. case p of SUBNET _ _ _ _ \<Rightarrow> True | _ \<Rightarrow> False) (msg_Pseudo msg) then msg
      else
        let msg = (if msg_UDPSize msg = 0 then msg\<lparr>msg_UDPSize := word_of_int (maxPayloadSize s)\<rparr> else msg);
            ip = fst ipnet in
        if length ip = 4 then msg\<lparr>msg_Pseudo := msg_Pseudo msg @ [SUBNET 1 (of_nat (snd ipnet)) 0 (Addr4 ip)]\<rparr>
        else if length ip = 16 then msg\<lparr>msg_Pseudo := msg_Pseudo msg @ [SUBNET 2 (of_nat (snd ipnet)) 0 (Addr6 ip)]\<rparr>
        else msg)"

section \<open>Captive portals\<close>

type_synonym CaptivePortalMap = "string \<rightharpoonup> net_IP list"

definition CaptivePortalMap_GetEntry :: "CaptivePortalMap \<Rightarrow> Msg \<Rightarrow> (RR \<times> net_IP list) option" where
  "CaptivePortalMap_GetEntry ipsMap msg =
     (case msg_Question msg of
        [question] \<Rightarrow>
          (case NormalizeQName (rr_Name question) of
             Inl _ \<Rightarrow> None
           | Inr name \<Rightarrow>
               (case ipsMap name of
                  None \<Rightarrow> None
                | Some ips \<Rightarrow> if rr_Class question \<noteq> ClassINET then None else Some (question, ips)))
      | _ \<Rightarrow> None)"

definition HandleCaptivePortalQuery :: "Msg \<Rightarrow> RR \<Rightarrow> net_IP list \<Rightarrow> Msg" where
  "HandleCaptivePortalQuery msg question ips =
     (let respMsg = EmptyResponseFromMessage msg; qtype = RRToType question;
          rr = (\<lambda>d. \<lparr>rr_Name = rr_Name question, rr_Class = ClassINET, rr_TTL = 1, rr_Data = d\<rparr>) in
      if qtype = TypeA then
        respMsg\<lparr>msg_Answer := concat (map (\<lambda>xip. case To4 xip of Some ip \<Rightarrow> [rr (RD_A (Addr4 ip))] | None \<Rightarrow> []) ips)\<rparr>
      else if qtype = TypeAAAA then
        respMsg\<lparr>msg_Answer := concat (map (\<lambda>xip. if To4 xip = None then [rr (RD_AAAA (Addr6 (the (To16 xip))))] else []) ips)\<rparr>
      else respMsg)"

definition PluginCaptivePortal_Eval :: "CaptivePortalMap \<Rightarrow> PluginsState \<Rightarrow> Msg \<Rightarrow> PluginsState" where
  "PluginCaptivePortal_Eval ipsMap s msg =
     (case CaptivePortalMap_GetEntry ipsMap msg of
        None \<Rightarrow> s
      | Some (question, ips) \<Rightarrow>
          s\<lparr>synthResponse := Some (HandleCaptivePortalQuery msg question ips), action := PluginsActionSynth\<rparr>)"

section \<open>The pipeline\<close>

record PluginsGlobals =
  refusedCodeInResponses :: bool
  respondWithIPv4 :: "net_IP option"
  respondWithIPv6 :: "net_IP option"

definition parseBlockedQueryResponse :: "string \<Rightarrow> PluginsGlobals \<Rightarrow> PluginsGlobals" where
  "parseBlockedQueryResponse blockedResponse g =
     (let r = filter (\<lambda>c. \<not> IsSpace c) (ToLower blockedResponse) in
      if has_prefix r ''a:'' then
        let parts = split_char (CHR '','') r; g = g\<lparr>respondWithIPv4 := ParseIP (trim_prefix (hd parts) ''a:'')\<rparr> in
        if respondWithIPv4 g = None then g\<lparr>refusedCodeInResponses := False\<rparr>
        else
          let g =
            (case tl parts of
               [] \<Rightarrow> g
             | p # _ \<Rightarrow>
                 if has_prefix p ''aaaa:'' then
                   let x = drop 5 p; br = (\<lambda>c. c = CHR ''['' \<or> c = CHR '']'');
                       x = (if has_prefix x ''['' then rev (dropWhile br (rev (dropWhile br x))) else x) in
                   g\<lparr>respondWithIPv6 := ParseIP x\<rparr>
                 else g) in
          if respondWithIPv6 g = None then g\<lparr>respondWithIPv6 := respondWithIPv4 g\<rparr> else g
      else if r = ''refused'' then g\<lparr>refusedCodeInResponses := True\<rparr>
      else g\<lparr>refusedCodeInResponses := False\<rparr>)"

type_synonym 'w plugin = "'w \<Rightarrow> PluginsState \<Rightarrow> Msg \<Rightarrow> msg_error option \<times> PluginsState \<times> Msg \<times> 'w"

definition reject_synth :: "PluginsGlobals \<Rightarrow> Msg \<Rightarrow> PluginsState \<Rightarrow> PluginsState" where
  "reject_synth g msg s =
     (if action s = PluginsActionReject
      then s\<lparr>synthResponse :=
             Some (RefusedResponseFromMessage msg (refusedCodeInResponses g) (respondWithIPv4 g) (respondWithIPv6 g) (rejectTTL s))\<rparr>
      else s)"

text \<open>The loop both phases share: an error drops the query, any action but \<open>Continue\<close> ends the loop.\<close>

fun run_plugins :: "PluginsGlobals \<Rightarrow> 'w plugin list \<Rightarrow> 'w plugin" where
  "run_plugins g [] w s msg = (None, s, msg, w)"
| "run_plugins g (p # ps) w s msg =
     (case p w s msg of
        (Some e, s', msg', w') \<Rightarrow> (Some e, s'\<lparr>action := PluginsActionDrop\<rparr>, msg', w')
      | (None, s', msg', w') \<Rightarrow>
          let s'' = reject_synth g msg' s' in
          if action s'' \<noteq> PluginsActionContinue then (None, s'', msg', w') else run_plugins g ps w' s'' msg')"

definition pad_len :: "nat \<Rightarrow> nat" where
  "pad_len n = 63 - (n + 63) mod 64"

text \<open>
  \<open>needsPadding\<close> is the second result of \<open>getServerInfo\<close>. \<open>questionMsg\<close> is the message itself, so it also shows what
  the plugins changed.
\<close>

definition ApplyQueryPlugins ::
  "dns_package \<Rightarrow> PluginsGlobals \<Rightarrow> 'w plugin list \<Rightarrow> bytes \<Rightarrow> bool \<Rightarrow> 'w \<Rightarrow> PluginsState \<Rightarrow>
   (msg_error + bytes) \<times> PluginsState \<times> 'w" where
  "ApplyQueryPlugins D g queryPlugins packet needsPadding w s =
     (case Unpack D packet of
        None \<Rightarrow> (Inl BadPacket, s, w)
      | Some msg \<Rightarrow>
          if length (msg_Question msg) \<noteq> 1 then (Inl QuestionCount, s, w)
          else
            (case NormalizeQName (rr_Name (hd (msg_Question msg))) of
               Inl _ \<Rightarrow> (Inl QNameError, s, w)
             | Inr name \<Rightarrow>
                 (case run_plugins g queryPlugins w (s\<lparr>qName := name, questionMsg := Some msg\<rparr>) msg of
                    (Some e, s', msg', w') \<Rightarrow> (Inl e, s'\<lparr>questionMsg := Some msg'\<rparr>, w')
                  | (None, s', msg', w') \<Rightarrow>
                      (case Pack D msg' of
                         None \<Rightarrow> (Inl BadPacket, s'\<lparr>questionMsg := Some msg'\<rparr>, w')
                       | Some packet2 \<Rightarrow>
                           if action s' = PluginsActionContinue \<and> needsPadding then
                             (case addEDNS0PaddingIfNoneFound D msg' packet2 (pad_len (length packet2)) of
                                (Some padded, msg'') \<Rightarrow> (Inr padded, s'\<lparr>questionMsg := Some msg''\<rparr>, w')
                              | (None, msg'') \<Rightarrow> (Inr packet2, s'\<lparr>questionMsg := Some msg''\<rparr>, w'))
                           else (Inr packet2, s'\<lparr>questionMsg := Some msg'\<rparr>, w')))))"

definition rcode_return :: "byte \<Rightarrow> PluginsReturnCode" where
  "rcode_return rcode =
     (if rcode = 0 then PluginsReturnCodePass
      else if rcode = 3 then PluginsReturnCodeNXDomain
      else if rcode = 2 then PluginsReturnCodeServFail
      else PluginsReturnCodeResponseError)"

definition ApplyResponsePlugins ::
  "dns_package \<Rightarrow> PluginsGlobals \<Rightarrow> 'w plugin list \<Rightarrow> bytes \<Rightarrow> 'w \<Rightarrow> PluginsState \<Rightarrow>
   (msg_error, bytes) outcome \<times> PluginsState \<times> 'w" where
  "ApplyResponsePlugins D g responsePlugins packet w s =
     (case Unpack D packet of
        None \<Rightarrow> (Fail BadPacket, s, w)
      | Some msg \<Rightarrow>
          (case validateResponseForQuery D (questionMsg s) (Some msg) of
             Some e \<Rightarrow> (Fail e, s, w)
           | None \<Rightarrow>
               (case Rcode packet of
                  Ret rcode \<Rightarrow>
                    (case run_plugins g responsePlugins w (s\<lparr>returnCode := rcode_return rcode\<rparr>) (snd (removeEDNS0Options msg)) of
                       (Some e, s', msg', w') \<Rightarrow> (Fail e, s', w')
                     | (None, s', msg', w') \<Rightarrow>
                         (case validateResponseForQuery D (questionMsg s') (Some msg') of
                            Some e \<Rightarrow> (Fail e, s', w')
                          | None \<Rightarrow>
                              (case Pack D msg' of
                                 None \<Rightarrow> (Fail BadPacket, s', w')
                               | Some data \<Rightarrow> (Ret data, s', w'))))
                | _ \<Rightarrow> (Panic, s, w))))"

definition handleSynthesizedResponse :: "dns_package \<Rightarrow> PluginsState \<Rightarrow> Msg \<Rightarrow> (msg_error + bytes) \<times> PluginsState" where
  "handleSynthesizedResponse D s synth =
     (case validateResponseForQuery D (questionMsg s) (Some synth) of
        Some e \<Rightarrow> (Inl e, s\<lparr>returnCode := PluginsReturnCodeParseError\<rparr>)
      | None \<Rightarrow>
          (case Pack D synth of
             None \<Rightarrow> (Inl BadPacket, s\<lparr>returnCode := PluginsReturnCodeParseError\<rparr>)
           | Some data \<Rightarrow> (Inr data, s)))"

section \<open>The configured plugins\<close>

text \<open>
  What the configuration enables. The cloaking, caching and forwarding plugins keep state and are given as
  plugins of the shared world. The plugin that logs names that do not exist only writes to its log.
\<close>

record ('t, 'u, 'w) plugin_env =
  env_trie :: "'t name_trie"
  env_clock :: local_clock
  env_captive :: "CaptivePortalMap option"
  env_queryMeta :: "string list"
  env_allowName :: "'t PluginAllowName option"
  env_ecs :: "(net_IP \<times> nat) option"
  env_blockName :: "'t BlockedNames option"
  env_blockIPv6 :: bool
  env_cloak :: "'w plugin option"
  env_cache :: "'w plugin option"
  env_forward :: "'w plugin option"
  env_blockUnqualified :: bool
  env_undelegated :: "(('u, bool) prefix_trie \<times> 'u) option"
  env_allowIP :: "'w plugin option"
  env_blockIP :: "'w plugin option"
  env_dns64 :: "'w plugin option"
  env_cacheResponse :: "'w plugin option"

definition state_plugin :: "(PluginsState \<Rightarrow> Msg \<Rightarrow> PluginsState) \<Rightarrow> 'w plugin" where
  "state_plugin f w s msg = (None, f s msg, msg, w)"

definition name_plugin :: "(PluginsState \<Rightarrow> msg_error option \<times> PluginsState) \<Rightarrow> 'w plugin" where
  "name_plugin f w s msg = (case f s of (e, s') \<Rightarrow> (e, s', msg, w))"

definition msg_plugin :: "(PluginsState \<Rightarrow> Msg \<Rightarrow> Msg) \<Rightarrow> 'w plugin" where
  "msg_plugin f w s msg = (None, s, f s msg, w)"

definition payload_plugin :: "'w plugin" where
  "payload_plugin w s msg = (case PluginGetSetPayloadSize_Eval s msg of (s', msg') \<Rightarrow> (None, s', msg', w))"

definition opt_plugin :: "('a \<Rightarrow> 'w plugin) \<Rightarrow> 'a option \<Rightarrow> 'w plugin list" where
  "opt_plugin f x = (case x of None \<Rightarrow> [] | Some a \<Rightarrow> [f a])"

definition queryPlugins :: "('t, 'u, 'w) plugin_env \<Rightarrow> 'w plugin list" where
  "queryPlugins E =
     opt_plugin (\<lambda>m. state_plugin (PluginCaptivePortal_Eval m)) (env_captive E) @
     (if length (env_queryMeta E) \<noteq> 0 then [msg_plugin (\<lambda>_. PluginQueryMeta_Eval (env_queryMeta E))] else []) @
     opt_plugin (\<lambda>a. name_plugin (PluginAllowName_Eval (env_trie E) (env_clock E) a)) (env_allowName E) @
     [state_plugin PluginFirefox_Eval] @
     opt_plugin (\<lambda>n. msg_plugin (PluginECS_Eval n)) (env_ecs E) @
     opt_plugin (\<lambda>b. name_plugin (PluginBlockName_Eval (env_trie E) (env_clock E) (Some b))) (env_blockName E) @
     (if env_blockIPv6 E then [state_plugin PluginBlockIPv6_Eval] else []) @
     opt_plugin id (env_cloak E) @
     [payload_plugin] @
     opt_plugin id (env_cache E) @
     opt_plugin id (env_forward E) @
     (if env_blockUnqualified E then [state_plugin PluginBlockUnqualified_Eval] else []) @
     opt_plugin (\<lambda>(P, z). state_plugin (PluginBlockUndelegated_Eval P z)) (env_undelegated E)"

definition responsePlugins :: "('t, 'u, 'w) plugin_env \<Rightarrow> 'w plugin list" where
  "responsePlugins E =
     opt_plugin id (env_allowIP E) @
     opt_plugin (\<lambda>b w s msg. case PluginBlockNameResponse_Eval (env_trie E) (env_clock E) (Some b) s msg of (e, s') \<Rightarrow> (e, s', msg, w))
       (env_blockName E) @
     opt_plugin id (env_blockIP E) @
     opt_plugin id (env_dns64 E) @
     opt_plugin id (env_cacheResponse E)"

section \<open>Running the pipeline\<close>

lemma run_plugins_append:
  assumes "action s = PluginsActionContinue"
  shows "run_plugins g (xs @ ys) w s m =
    (case run_plugins g xs w s m of
       (e, s', m', w') \<Rightarrow>
         if e \<noteq> None \<or> action s' \<noteq> PluginsActionContinue then (e, s', m', w') else run_plugins g ys w' s' m')"
  using assms
proof (induction xs arbitrary: w s m)
  case (Cons p xs)
  obtain e s' m' w' where p: "p w s m = (e, s', m', w')" by (metis prod_cases4)
  show ?case
  proof (cases e)
    case None
    then show ?thesis
      using Cons.IH [of "reject_synth g m' s'" w' m'] p by (auto simp: Let_def)
  qed (simp add: p)
qed simp

text \<open>
  What the plugins in front of the block list keep: the name, and that it is not on the allow list; when one of them
  ends the loop it has an answer.
\<close>

definition keeps_name :: "string \<Rightarrow> 'w plugin \<Rightarrow> bool" where
  "keeps_name q p \<longleftrightarrow>
     (\<forall>w s m e s' m' w'. p w s m = (e, s', m', w') \<longrightarrow> action s = PluginsActionContinue \<longrightarrow> qName s = q \<longrightarrow> \<not> whitelisted s \<longrightarrow>
        qName s' = q \<and> \<not> whitelisted s' \<and> (action s' = PluginsActionContinue \<or> synthResponse s' \<noteq> None))"

lemma reject_synth_simps [simp]:
  "qName (reject_synth g m s) = qName s" "whitelisted (reject_synth g m s) = whitelisted s"
  "action (reject_synth g m s) = action s"
  by (simp_all add: reject_synth_def)

lemma reject_synth_answer:
  "action s = PluginsActionReject \<or> synthResponse s \<noteq> None \<Longrightarrow> synthResponse (reject_synth g m s) \<noteq> None"
  by (auto simp: reject_synth_def)

lemma keeps_name_run:
  assumes "list_all (keeps_name q) ps" "action s = PluginsActionContinue" "qName s = q" "\<not> whitelisted s"
    and "run_plugins g ps w s m = (None, s', m', w')"
  shows "qName s' = q \<and> \<not> whitelisted s' \<and> (action s' = PluginsActionContinue \<or> synthResponse s' \<noteq> None)"
  using assms
proof (induction ps arbitrary: w s m)
  case (Cons p ps)
  obtain e t n v where p: "p w s m = (e, t, n, v)" by (metis prod_cases4)
  have e: "e = None" using Cons.prems p by (cases e) auto
  have k: "qName t = q \<and> \<not> whitelisted t \<and> (action t = PluginsActionContinue \<or> synthResponse t \<noteq> None)"
    using Cons.prems p unfolding list.pred_inject keeps_name_def by blast
  show ?case
  proof (cases "action t = PluginsActionContinue")
    case True
    then show ?thesis
      using Cons.IH [of "reject_synth g n t" v n] Cons.prems k p e by (simp add: Let_def)
  next
    case False
    then show ?thesis
      using Cons.prems k p e reject_synth_answer [of t g n] by (auto simp: Let_def)
  qed
qed auto

lemma keeps_name_plugins:
  "keeps_name q (state_plugin (PluginCaptivePortal_Eval m))"
  "keeps_name q (msg_plugin f)"
  "keeps_name q (state_plugin PluginFirefox_Eval)"
  by (auto simp: keeps_name_def state_plugin_def msg_plugin_def PluginCaptivePortal_Eval_def PluginFirefox_Eval_def
      synth_with_def Let_def split: option.splits)

definition name_rule_active :: "'t name_trie \<Rightarrow> local_clock \<Rightarrow> 't name_matcher \<Rightarrow> string \<Rightarrow> bool" where
  "name_rule_active P now m q =
     (case PatternMatcher_Eval P m q of (found, _, v) \<Rightarrow> found \<and> schedule_allows now v)"

lemma keeps_name_allow:
  assumes "\<not> name_rule_active P now (an_matcher a) q"
  shows "keeps_name q (name_plugin (PluginAllowName_Eval P now a))"
  using assms by (auto simp: keeps_name_def name_plugin_def PluginAllowName_Eval_def name_rule_active_def split: prod.splits)

lemma block_name_rejects:
  assumes "name_rule_active P now (bn_matcher b) (qName s)" "\<not> whitelisted s"
    and "name_plugin (PluginBlockName_Eval P now (Some b)) w s m = (None, s', m', w')"
  shows "action s' = PluginsActionReject"
  using assms
  by (auto simp: name_plugin_def PluginBlockName_Eval_def BlockedNames_check_def name_rule_active_def Let_def
      split: prod.splits option.splits if_splits)

definition front_plugins :: "('t, 'u, 'w) plugin_env \<Rightarrow> 'w plugin list" where
  "front_plugins E =
     opt_plugin (\<lambda>m. state_plugin (PluginCaptivePortal_Eval m)) (env_captive E) @
     (if length (env_queryMeta E) \<noteq> 0 then [msg_plugin (\<lambda>_. PluginQueryMeta_Eval (env_queryMeta E))] else []) @
     opt_plugin (\<lambda>a. name_plugin (PluginAllowName_Eval (env_trie E) (env_clock E) a)) (env_allowName E) @
     [state_plugin PluginFirefox_Eval] @
     opt_plugin (\<lambda>n. msg_plugin (PluginECS_Eval n)) (env_ecs E)"

definition back_plugins :: "('t, 'u, 'w) plugin_env \<Rightarrow> 'w plugin list" where
  "back_plugins E =
     (if env_blockIPv6 E then [state_plugin PluginBlockIPv6_Eval] else []) @
     opt_plugin id (env_cloak E) @
     [payload_plugin] @
     opt_plugin id (env_cache E) @
     opt_plugin id (env_forward E) @
     (if env_blockUnqualified E then [state_plugin PluginBlockUnqualified_Eval] else []) @
     opt_plugin (\<lambda>(P, z). state_plugin (PluginBlockUndelegated_Eval P z)) (env_undelegated E)"

lemma queryPlugins_split:
  "queryPlugins E =
     front_plugins E @
     opt_plugin (\<lambda>b. name_plugin (PluginBlockName_Eval (env_trie E) (env_clock E) (Some b))) (env_blockName E) @
     back_plugins E"
  by (simp add: queryPlugins_def front_plugins_def back_plugins_def)

definition allow_rule_active :: "('t, 'u, 'w) plugin_env \<Rightarrow> string \<Rightarrow> bool" where
  "allow_rule_active E q =
     (case env_allowName E of None \<Rightarrow> False | Some a \<Rightarrow> name_rule_active (env_trie E) (env_clock E) (an_matcher a) q)"

definition block_rule_active :: "('t, 'u, 'w) plugin_env \<Rightarrow> string \<Rightarrow> bool" where
  "block_rule_active E q =
     (case env_blockName E of None \<Rightarrow> False | Some b \<Rightarrow> name_rule_active (env_trie E) (env_clock E) (bn_matcher b) q)"

lemma front_keeps_name:
  "\<not> allow_rule_active E q \<Longrightarrow> list_all (keeps_name q) (front_plugins E)"
  by (auto simp: front_plugins_def opt_plugin_def keeps_name_plugins keeps_name_allow allow_rule_active_def split: option.splits)

lemma blocked_name_stops:
  assumes b: "block_rule_active E q" and a: "\<not> allow_rule_active E q"
    and s: "action s = PluginsActionContinue" "qName s = q" "\<not> whitelisted s"
    and r: "run_plugins g (queryPlugins E) w s m = (None, s', m', w')"
  shows "action s' \<noteq> PluginsActionContinue \<and> synthResponse s' \<noteq> None"
proof -
  obtain bn where bn: "env_blockName E = Some bn" "name_rule_active (env_trie E) (env_clock E) (bn_matcher bn) q"
    using b by (auto simp: block_rule_active_def split: option.splits)
  let ?block = "name_plugin (PluginBlockName_Eval (env_trie E) (env_clock E) (Some bn)) :: 'c plugin"
  have ps: "queryPlugins E = front_plugins E @ ?block # back_plugins E"
    by (simp add: queryPlugins_split opt_plugin_def bn)
  obtain e t n v where f: "run_plugins g (front_plugins E) w s m = (e, t, n, v)" by (metis prod_cases4)
  have e: "e = None" using r f by (cases e) (auto simp: ps run_plugins_append [OF s(1)])
  have k: "qName t = q \<and> \<not> whitelisted t \<and> (action t = PluginsActionContinue \<or> synthResponse t \<noteq> None)"
    by (rule keeps_name_run [OF front_keeps_name [OF a] s f [unfolded e]])
  show ?thesis
  proof (cases "action t = PluginsActionContinue")
    case False
    then show ?thesis using r f e k by (simp add: ps run_plugins_append [OF s(1)])
  next
    case True
    then have r': "run_plugins g (?block # back_plugins E) v t n = (None, s', m', w')"
      using r f e by (simp add: ps run_plugins_append [OF s(1)])
    obtain e1 t1 n1 v1 where p: "?block v t n = (e1, t1, n1, v1)" by (metis prod_cases4)
    have e1: "e1 = None" using r' p by (cases e1) auto
    have "action t1 = PluginsActionReject"
      by (rule block_name_rejects [OF _ _ p [unfolded e1]]) (use bn k in auto)
    then show ?thesis
      using r' p e1 reject_synth_answer [of t1 g n1] by (auto simp: Let_def)
  qed
qed

section \<open>The client's query stays in view\<close>

text \<open>
  A plugin may change the message it is given, but not its identifier and question, and never replaces the message that the state
  holds as the query. This is asked of the plugins that keep tables; the others have it.
\<close>

definition keeps_query :: "'w plugin \<Rightarrow> bool" where
  "keeps_query p \<longleftrightarrow>
     (\<forall>w s m e s' m' w'. p w s m = (e, s', m', w') \<longrightarrow>
        msg_ID m' = msg_ID m \<and> msg_Question m' = msg_Question m \<and> questionMsg s' = questionMsg s)"

definition tables_keep_query :: "('t, 'u, 'w) plugin_env \<Rightarrow> bool" where
  "tables_keep_query E \<longleftrightarrow>
     list_all (pred_option keeps_query)
       [env_cloak E, env_cache E, env_forward E, env_allowIP E, env_blockIP E, env_dns64 E, env_cacheResponse E]"

text \<open>A plugin on a table of its own, as a plugin of the world that holds all tables.\<close>

definition on_table :: "('w \<Rightarrow> 'x) \<Rightarrow> ('x \<Rightarrow> 'w \<Rightarrow> 'w) \<Rightarrow> 'x plugin \<Rightarrow> 'w plugin" where
  "on_table get put p w s m = (case p (get w) s m of (e, s', m', x) \<Rightarrow> (e, s', m', put x w))"

lemma keeps_queryI:
  assumes "\<And>w s m e s' m' w'. p w s m = (e, s', m', w') \<Longrightarrow>
    msg_ID m' = msg_ID m \<and> msg_Question m' = msg_Question m \<and> questionMsg s' = questionMsg s"
  shows "keeps_query p"
  using assms unfolding keeps_query_def by blast

lemma keeps_queryD:
  "keeps_query p \<Longrightarrow> p w s m = (e, s', m', w') \<Longrightarrow>
     msg_ID m' = msg_ID m \<and> msg_Question m' = msg_Question m \<and> questionMsg s' = questionMsg s"
  unfolding keeps_query_def by blast

lemma keeps_query_on_table: "keeps_query p \<Longrightarrow> keeps_query (on_table get put p)"
  by (rule keeps_queryI) (auto simp: on_table_def dest: keeps_queryD split: prod.splits)

lemma keeps_query_run:
  assumes "list_all keeps_query ps"
  shows "keeps_query (run_plugins g ps)"
proof (rule keeps_queryI)
  show "msg_ID m' = msg_ID m \<and> msg_Question m' = msg_Question m \<and> questionMsg s' = questionMsg s"
    if "run_plugins g ps w s m = (e, s', m', w')" for w s m e s' m' w'
    using assms that
  proof (induction ps arbitrary: w s m)
    case (Cons p ps)
    obtain e1 t n v where p: "p w s m = (e1, t, n, v)" by (metis prod_cases4)
    have k: "msg_ID n = msg_ID m \<and> msg_Question n = msg_Question m \<and> questionMsg t = questionMsg s"
      using keeps_queryD [where p = p] p Cons.prems(1) by auto
    have r: "questionMsg (reject_synth g n t) = questionMsg t" by (simp add: reject_synth_def)
    show ?case
    proof (cases e1)
      case None
      then show ?thesis using Cons.IH [of v "reject_synth g n t" n] Cons.prems p k r by (auto simp: Let_def split: if_splits)
    qed (use Cons.prems p k in auto)
  qed simp
qed

lemma check_question: "BlockedNames_check P now b s name a = (r, s') \<Longrightarrow> questionMsg s' = questionMsg s"
  by (auto simp: BlockedNames_check_def Let_def split: prod.splits option.splits if_splits)

lemma check_aliases_question: "check_aliases P now b a n answers s = (e, s') \<Longrightarrow> questionMsg s' = questionMsg s"
proof (induction P now b a n answers s rule: check_aliases.induct)
  case (2 P now b a n answer answers s)
  show ?case
  proof (cases "alias_target answer")
    case None
    then show ?thesis using "2.IH"(1) "2.prems" by simp
  next
    case (Some t)
    show ?thesis
    proof (cases "NormalizeQName t")
      case (Inr target)
      obtain blocked err s1 where c: "BlockedNames_check P now b s target (Some a) = ((blocked, err), s1)" by (metis prod.collapse)
      then show ?thesis
        using "2.IH"(2) [OF Some Inr c [symmetric] refl] "2.prems" Some Inr check_question [OF c] by (auto split: if_splits)
    qed (use "2.prems" Some in auto)
  qed
qed simp

lemma keeps_query_simple:
  "keeps_query (state_plugin (PluginCaptivePortal_Eval m))" "keeps_query (msg_plugin (\<lambda>_. PluginQueryMeta_Eval ms))"
  "keeps_query (name_plugin (PluginAllowName_Eval P now a))" "keeps_query (state_plugin PluginFirefox_Eval)"
  "keeps_query (msg_plugin (PluginECS_Eval n))" "keeps_query (name_plugin (PluginBlockName_Eval P now b))"
  "keeps_query (state_plugin PluginBlockIPv6_Eval)" "keeps_query payload_plugin"
  "keeps_query (state_plugin PluginBlockUnqualified_Eval)" "keeps_query (state_plugin (PluginBlockUndelegated_Eval Q z))"
  "keeps_query (\<lambda>w s msg. case PluginBlockNameResponse_Eval P now b s msg of (e, s') \<Rightarrow> (e, s', msg, w))"
proof -
  show "keeps_query (state_plugin (PluginCaptivePortal_Eval m))" "keeps_query (state_plugin PluginFirefox_Eval)"
    "keeps_query (state_plugin PluginBlockIPv6_Eval)"
    by (auto simp: keeps_query_def state_plugin_def PluginCaptivePortal_Eval_def PluginFirefox_Eval_def PluginBlockIPv6_Eval_def
        synth_with_def Let_def split: option.splits)
  show "keeps_query (state_plugin PluginBlockUnqualified_Eval)" "keeps_query (state_plugin (PluginBlockUndelegated_Eval Q z))"
    by (auto simp: keeps_query_def state_plugin_def PluginBlockUnqualified_Eval_def PluginBlockUndelegated_Eval_def
        synth_with_def Let_def split: option.splits)
  show "keeps_query (msg_plugin (\<lambda>_. PluginQueryMeta_Eval ms))" "keeps_query (msg_plugin (PluginECS_Eval n))"
    by (auto simp: keeps_query_def msg_plugin_def PluginQueryMeta_Eval_def PluginECS_Eval_def Let_def)
  have "msg_ID (snd (PluginGetSetPayloadSize_Eval s m)) = msg_ID m" "msg_Question (snd (PluginGetSetPayloadSize_Eval s m)) = msg_Question m"
    "questionMsg (fst (PluginGetSetPayloadSize_Eval s m)) = questionMsg s" for s m
    by (simp_all add: PluginGetSetPayloadSize_Eval_def Let_def)
  then show "keeps_query payload_plugin"
    by (auto simp: keeps_query_def payload_plugin_def split: prod.splits) (metis fst_conv snd_conv)+
  show "keeps_query (name_plugin (PluginAllowName_Eval P now a))"
    by (auto simp: keeps_query_def name_plugin_def PluginAllowName_Eval_def Let_def split: prod.splits if_splits option.splits)
  show "keeps_query (name_plugin (PluginBlockName_Eval P now b))"
    by (auto simp: keeps_query_def name_plugin_def PluginBlockName_Eval_def split: prod.splits if_splits option.splits dest: check_question)
  show "keeps_query (\<lambda>w s msg. case PluginBlockNameResponse_Eval P now b s msg of (e, s') \<Rightarrow> (e, s', msg, w))"
    by (auto simp: keeps_query_def PluginBlockNameResponse_Eval_def split: prod.splits if_splits option.splits dest: check_aliases_question)

qed

lemma opt_plugin_keeps: "(\<And>a. x = Some a \<Longrightarrow> keeps_query (f a)) \<Longrightarrow> list_all keeps_query (opt_plugin f x)"
  by (simp add: opt_plugin_def split: option.split)

lemma plugins_keep_query:
  assumes "tables_keep_query E"
  shows "list_all keeps_query (queryPlugins E)" "list_all keeps_query (responsePlugins E)"
  using assms
  by (auto simp: queryPlugins_def responsePlugins_def tables_keep_query_def keeps_query_simple option.pred_set intro!: opt_plugin_keeps)

lemma query_plugins_question:
  assumes "list_all keeps_query qps" "ApplyQueryPlugins D g qps packet padding w s = (Inr packet', s', w')"
  obtains q q' where "Unpack D packet = Some q" "questionMsg s' = Some q'" "msg_ID q' = msg_ID q" "msg_Question q' = msg_Question q"
proof -
  obtain q name where q: "Unpack D packet = Some q" "NormalizeQName (rr_Name (hd (msg_Question q))) = Inr name" "length (msg_Question q) = 1"
    using assms(2) by (auto simp: ApplyQueryPlugins_def split: option.splits if_splits sum.splits)
  let ?s = "s\<lparr>qName := name, questionMsg := Some q\<rparr>"
  obtain e t n v where r: "run_plugins g qps w ?s q = (e, t, n, v)" by (metis prod_cases4)
  have k: "msg_ID n = msg_ID q \<and> msg_Question n = msg_Question q"
    using keeps_queryD [OF keeps_query_run [OF assms(1)] r] by simp
  obtain o' n' where p: "addEDNS0PaddingIfNoneFound D n (the (Pack D n)) (pad_len (length (the (Pack D n)))) = (o', n')" by fastforce
  have k': "msg_ID n' = msg_ID n \<and> msg_Question n' = msg_Question n"
    using p by (auto simp: addEDNS0PaddingIfNoneFound_def Let_def split: if_splits)
  have "questionMsg s' = Some n \<or> questionMsg s' = Some n'"
    using assms(2) q r p by (auto simp: ApplyQueryPlugins_def split: option.splits if_splits)
  then show thesis using that [OF q(1)] k k' by auto
qed

lemma response_plugins_question:
  assumes "list_all keeps_query rps" "ApplyResponsePlugins D g rps packet w s = (r, s', w')"
  shows "questionMsg s' = questionMsg s"
proof (cases "Unpack D packet")
  case (Some m)
  have run: "questionMsg t = questionMsg u" if "run_plugins g rps w u x = (e, t, n, v)" for u x e t n v
    using keeps_queryD [OF keeps_query_run [OF assms(1)] that] by simp
  show ?thesis
    using assms(2) Some by (auto simp: ApplyResponsePlugins_def split: option.splits outcome.splits prod.splits dest!: run)
qed (use assms(2) in \<open>simp add: ApplyResponsePlugins_def\<close>)

section \<open>What a blocked name leaves alone\<close>

text \<open>Plugins that neither keep a table nor send anything leave the world of the plugins as it is.\<close>

definition keeps_world :: "'w plugin \<Rightarrow> bool" where
  "keeps_world p \<longleftrightarrow> (\<forall>w s m e s' m' w'. p w s m = (e, s', m', w') \<longrightarrow> w' = w)"

lemma keeps_world_run:
  assumes "list_all keeps_world ps" "run_plugins g ps w s m = (e, s', m', w')"
  shows "w' = w"
  using assms
proof (induction ps arbitrary: w s m)
  case (Cons p ps)
  obtain e1 t n v where p: "p w s m = (e1, t, n, v)" by (metis prod_cases4)
  have v: "v = w" using Cons.prems(1) p unfolding list.pred_inject keeps_world_def by blast
  show ?case
  proof (cases e1)
    case None
    then show ?thesis using Cons.IH [of v "reject_synth g n t" n] Cons.prems p v by (auto simp: Let_def split: if_splits)
  qed (use Cons.prems p v in auto)
qed simp

lemma front_keeps_world: "list_all keeps_world (front_plugins E)"
  by (auto simp: front_plugins_def opt_plugin_def keeps_world_def state_plugin_def msg_plugin_def name_plugin_def split: option.splits prod.splits)

text \<open>A blocked name: the plugins behind the block list, which keep tables and send queries of their own, do not run.\<close>

lemma blocked_name_keeps_world:
  assumes b: "block_rule_active E q" and a: "\<not> allow_rule_active E q"
    and s: "action s = PluginsActionContinue" "qName s = q" "\<not> whitelisted s"
    and r: "run_plugins g (queryPlugins E) w s m = (e, s', m', w')"
  shows "w' = w"
proof -
  obtain bn where bn: "env_blockName E = Some bn" "name_rule_active (env_trie E) (env_clock E) (bn_matcher bn) q"
    using b by (auto simp: block_rule_active_def split: option.splits)
  let ?block = "name_plugin (PluginBlockName_Eval (env_trie E) (env_clock E) (Some bn)) :: 'c plugin"
  have ps: "queryPlugins E = front_plugins E @ ?block # back_plugins E"
    by (simp add: queryPlugins_split opt_plugin_def bn)
  obtain e0 t n v where f: "run_plugins g (front_plugins E) w s m = (e0, t, n, v)" by (metis prod_cases4)
  have v: "v = w" by (rule keeps_world_run [OF front_keeps_world f])
  show ?thesis
  proof (cases "e0 = None \<and> action t = PluginsActionContinue")
    case False
    then show ?thesis using r f v by (auto simp: ps run_plugins_append [OF s(1)])
  next
    case True
    have k: "qName t = q \<and> \<not> whitelisted t"
      using keeps_name_run [OF front_keeps_name [OF a] s] f True by blast
    obtain e1 t1 n1 v1 where p: "?block v t n = (e1, t1, n1, v1)" by (metis prod_cases4)
    have v1: "v1 = w" using p v by (auto simp: name_plugin_def split: prod.splits)
    have r': "run_plugins g (?block # back_plugins E) v t n = (e, s', m', w')"
      using r f True by (simp add: ps run_plugins_append [OF s(1)])
    show ?thesis
    proof (cases e1)
      case None
      have "action t1 = PluginsActionReject"
        by (rule block_name_rejects [OF _ _ p [unfolded None]]) (use bn k in auto)
      then show ?thesis using r' p None v1 by (auto simp: Let_def)
    qed (use r' p v1 in auto)
  qed
qed

lemma blocked_query_keeps_world:
  assumes "Unpack D packet = Some msg" "msg_Question msg = [question]" "NormalizeQName (rr_Name question) = Inr q"
    and "block_rule_active E q" "\<not> allow_rule_active E q"
    and "ApplyQueryPlugins D g (queryPlugins E) packet padding w (NewPluginsState c proto addr sproto) = (res, s', w')"
  shows "w' = w"
proof -
  let ?s = "(NewPluginsState c proto addr sproto)\<lparr>qName := q, questionMsg := Some msg\<rparr>"
  have s: "action ?s = PluginsActionContinue" "qName ?s = q" "\<not> whitelisted ?s"
    by (simp_all add: NewPluginsState_def)
  obtain e t n v where r: "run_plugins g (queryPlugins E) w ?s msg = (e, t, n, v)" by (metis prod_cases4)
  have "v = w" by (rule blocked_name_keeps_world [OF assms(4,5) s r])
  then show ?thesis
    using assms(1-3,6) r by (auto simp: ApplyQueryPlugins_def split: option.splits if_splits prod.splits)
qed

section \<open>The allow list\<close>

text \<open>Once a name is on the allow list the block list leaves the state alone.\<close>

definition keeps_allowed :: "'w plugin \<Rightarrow> bool" where
  "keeps_allowed p \<longleftrightarrow> (\<forall>w s m e s' m' w'. p w s m = (e, s', m', w') \<longrightarrow> whitelisted s \<longrightarrow> whitelisted s')"

lemma keeps_allowed_run:
  assumes "list_all keeps_allowed ps" "whitelisted s" "run_plugins g ps w s m = (e, s', m', w')"
  shows "whitelisted s'"
  using assms
proof (induction ps arbitrary: w s m)
  case (Cons p ps)
  obtain e1 t n v where p: "p w s m = (e1, t, n, v)" by (metis prod_cases4)
  then have t: "whitelisted t" using Cons.prems unfolding list.pred_inject keeps_allowed_def by blast
  show ?case
  proof (cases e1)
    case None
    then show ?thesis using Cons.IH [of "reject_synth g n t" v n] Cons.prems p t by (auto simp: Let_def split: if_splits)
  qed (use Cons.prems p t in auto)
qed auto

lemma run_block_allowed:
  "whitelisted s \<Longrightarrow> run_plugins g (name_plugin (PluginBlockName_Eval P now (Some b)) # ps) w s m =
     (let s = reject_synth g m s in
      if action s \<noteq> PluginsActionContinue then (None, s, m, w) else run_plugins g ps w s m)"
  by (simp add: name_plugin_def PluginBlockName_Eval_def)

lemma reject_synth_continue [simp]: "action s = PluginsActionContinue \<Longrightarrow> reject_synth g m s = s"
  by (simp add: reject_synth_def)

definition before_allow :: "('t, 'u, 'w) plugin_env \<Rightarrow> 'w plugin list" where
  "before_allow E =
     opt_plugin (\<lambda>m. state_plugin (PluginCaptivePortal_Eval m)) (env_captive E) @
     (if length (env_queryMeta E) \<noteq> 0 then [msg_plugin (\<lambda>_. PluginQueryMeta_Eval (env_queryMeta E))] else [])"

definition after_allow :: "('t, 'u, 'w) plugin_env \<Rightarrow> 'w plugin list" where
  "after_allow E = state_plugin PluginFirefox_Eval # opt_plugin (\<lambda>n. msg_plugin (PluginECS_Eval n)) (env_ecs E)"

lemma front_plugins_split:
  "front_plugins E =
     before_allow E @
     opt_plugin (\<lambda>a. name_plugin (PluginAllowName_Eval (env_trie E) (env_clock E) a)) (env_allowName E) @ after_allow E"
  by (simp add: front_plugins_def before_allow_def after_allow_def)

lemma after_allow_keeps: "list_all keeps_allowed (after_allow E)"
  by (auto simp: after_allow_def opt_plugin_def keeps_allowed_def state_plugin_def msg_plugin_def PluginFirefox_Eval_def
      synth_with_def Let_def split: option.splits)

lemma allow_sets:
  assumes "name_rule_active P now (an_matcher a) (qName s)" "PluginAllowName_Eval P now a s = (e, s')"
  shows "whitelisted s' \<and> action s' = action s"
  using assms by (auto simp: PluginAllowName_Eval_def name_rule_active_def Let_def split: prod.splits option.splits)

lemma before_allow_keeps: "list_all (keeps_name q) (before_allow E)"
  by (auto simp: before_allow_def opt_plugin_def keeps_name_plugins split: option.splits)

lemma front_allowed:
  assumes a: "allow_rule_active E q" and s: "action s = PluginsActionContinue" "qName s = q" "\<not> whitelisted s"
    and r: "run_plugins g (front_plugins E) w s m = (None, s', m', w')" "action s' = PluginsActionContinue"
  shows "whitelisted s'"
proof -
  obtain an where an: "env_allowName E = Some an" "name_rule_active (env_trie E) (env_clock E) (an_matcher an) q"
    using a by (auto simp: allow_rule_active_def split: option.splits)
  let ?allow = "name_plugin (PluginAllowName_Eval (env_trie E) (env_clock E) an) :: 'c plugin"
  have ps: "front_plugins E = before_allow E @ ?allow # after_allow E"
    by (simp add: front_plugins_split opt_plugin_def an)
  obtain e t n v where f: "run_plugins g (before_allow E) w s m = (e, t, n, v)" by (metis prod_cases4)
  have e: "e = None" "action t = PluginsActionContinue"
    and r': "run_plugins g (?allow # after_allow E) v t n = (None, s', m', w')"
    using r f by (auto simp: ps run_plugins_append [OF s(1)] split: if_splits)
  have k: "qName t = q" using keeps_name_run [OF before_allow_keeps s f [unfolded e(1)]] by simp
  obtain e1 t1 where p: "PluginAllowName_Eval (env_trie E) (env_clock E) an t = (e1, t1)" by fastforce
  have t1: "whitelisted t1" "action t1 = PluginsActionContinue"
    using allow_sets [OF _ p] an k e(2) by auto
  have "e1 = None" using r' p by (cases e1) (auto simp: name_plugin_def)
  then have "run_plugins g (after_allow E) v t1 n = (None, s', m', w')"
    using r' p t1 by (simp add: name_plugin_def)
  from keeps_allowed_run [OF after_allow_keeps t1(1) this] show ?thesis .
qed

lemma allowed_name_ignores_block_list:
  assumes a: "allow_rule_active E q" and s: "action s = PluginsActionContinue" "qName s = q" "\<not> whitelisted s"
  shows "run_plugins g (queryPlugins E) w s m = run_plugins g (queryPlugins (E\<lparr>env_blockName := None\<rparr>)) w s m"
proof (cases "env_blockName E")
  case (Some b)
  let ?block = "name_plugin (PluginBlockName_Eval (env_trie E) (env_clock E) (Some b)) :: 'c plugin"
  have ps: "queryPlugins E = front_plugins E @ ?block # back_plugins E"
    by (simp add: queryPlugins_split opt_plugin_def Some)
  have "front_plugins (E\<lparr>env_blockName := None\<rparr>) = front_plugins E" "back_plugins (E\<lparr>env_blockName := None\<rparr>) = back_plugins E"
    by (simp_all add: front_plugins_def back_plugins_def)
  then have ps': "queryPlugins (E\<lparr>env_blockName := None\<rparr>) = front_plugins E @ back_plugins E"
    by (simp add: queryPlugins_split opt_plugin_def)
  obtain e t n v where f: "run_plugins g (front_plugins E) w s m = (e, t, n, v)" by (metis prod_cases4)
  show ?thesis
  proof (cases "e = None \<and> action t = PluginsActionContinue")
    case True
    then have "whitelisted t" using front_allowed [OF a s, of g w m t n v] f by simp
    then show ?thesis
      using f True by (simp add: ps ps' run_plugins_append [OF s(1)] run_block_allowed del: run_plugins.simps(2))
  qed (use f in \<open>simp add: ps ps' run_plugins_append [OF s(1)]\<close>)
next
  case None
  then show ?thesis by (cases E) simp
qed

section \<open>Lists loaded from a file\<close>

definition name_rules :: "(string \<rightharpoonup> WeeklyRanges) \<Rightarrow> nat \<Rightarrow> string list \<Rightarrow> (string \<times> WeeklyRanges option option) list" where
  "name_rules ranges n ls =
     concat (map (\<lambda>(i, l). let line = TrimAndStripInlineComments l in
                   if line = [] then []
                   else (case ParseTimeBasedRule line i ranges of Inl _ \<Rightarrow> [] | Inr (p, w) \<Rightarrow> [(p, Some w)]))
       (enumerate n ls))"

lemma pattern_kind_position: "pattern_kind p n = Inr x \<longleftrightarrow> pattern_kind p 0 = Inr x"
  by (auto simp: pattern_kind_def Let_def split: if_splits)

lemma Add_position:
  "(case PatternMatcher_Add P p v n m of Inl e \<Rightarrow> m | Inr m' \<Rightarrow> m') = add_pattern P m (p, v)"
proof (cases "pattern_kind p n")
  case (Inl e)
  then have "\<exists>e. pattern_kind p 0 = Inl e" using pattern_kind_position [of p n] by (metis obj_sumE sum.distinct(1))
  with Inl show ?thesis by (auto simp: PatternMatcher_Add_def add_pattern_def)
next
  case (Inr x)
  then have "pattern_kind p 0 = Inr x" using pattern_kind_position by blast
  with Inr show ?thesis by (simp add: PatternMatcher_Add_def add_pattern_def split: prod.splits)
qed

lemma load_lines: "process_lines (load_name_rule P ranges) n ls m = Inr (foldl (add_pattern P) m (name_rules ranges n ls))"
proof (induction ls arbitrary: n m)
  case (Cons l ls)
  let ?line = "TrimAndStripInlineComments l"
  show ?case
  proof (cases "?line = []")
    case True
    then show ?thesis using Cons by (simp add: name_rules_def)
  next
    case False
    show ?thesis
    proof (cases "ParseTimeBasedRule ?line n ranges")
      case (Inl e)
      then show ?thesis using Cons False by (simp add: name_rules_def load_name_rule_def)
    next
      case (Inr pw)
      obtain p w where pw: "pw = (p, w)" by (cases pw)
      have "load_name_rule P ranges m ?line n = Inr (add_pattern P m (p, Some w))"
        using Inr pw Add_position [where P = P and p = p and v = "Some w" and n = "n + 1" and m = m] by (auto simp: load_name_rule_def split: sum.splits)
      then show ?thesis using Cons False Inr pw by (simp add: name_rules_def)
    qed
  qed
qed (simp add: name_rules_def)

lemma loadRules_matcher:
  "loadRules P ranges text (NewPatternMatcher P) = Inr (matcher_of P (name_rules ranges 0 (split_char (CHR 0x0A) text)))"
  by (simp add: loadRules_def ProcessConfigLines_def load_lines matcher_of_def)

lemma name_rules_no_nil: "no_nil (name_rules ranges n ls)"
  by (auto simp: no_nil_def name_rules_def list_all_iff Let_def split: sum.splits if_splits)

section \<open>Properties\<close>

text \<open>Only the lines of its file make a name list act. When the matcher loaded from a rule file acts on a name at some
  moment, the file has a line whose pattern matches the name and whose schedule, if it names one, is active then.
\<close>

theorem name_list_acts_by_rule:
  assumes "prefix_trie_ok P content"
    and "loadRules P ranges text (NewPatternMatcher P) = Inr m" "name_rule_active P now m q"
  shows "\<exists>(t, p, v) \<in> set (stored (name_rules ranges 0 (split_char (CHR 0x0A) text))).
    pattern_matches t p q \<and> schedule_allows now v"
proof -
  have m: "m = matcher_of P (name_rules ranges 0 (split_char (CHR 0x0A) text))"
    using assms(2) by (simp add: loadRules_matcher)
  obtain reason v where "PatternMatcher_Eval P m q = (True, reason, v)" "schedule_allows now v"
    using assms(3) by (auto simp: name_rule_active_def split: prod.splits)
  with pattern_eval_value [OF assms(1) name_rules_no_nil] m show ?thesis by blast
qed

definition noon :: local_clock where
  "noon = \<lparr>clk_day = 1, clk_hour = 12, clk_min = 0\<rparr>"

definition work_hours :: "string \<rightharpoonup> WeeklyRanges" where
  "work_hours = [''work'' \<mapsto> [[], [\<lparr>tr_after = 32400, tr_before = 61200\<rparr>], [], [], [], [], []]]"

definition sample_list :: string where
  "sample_list = ''# ads'' @ [CHR 0x0A] @ ''*.ads.example @work'' @ [CHR 0x0A] @ ''=exact.net # one name''"

definition sample_matcher :: "((string \<times> WeeklyRanges option option) list) name_matcher" where
  "sample_matcher = matcher_of alist_trie (name_rules work_hours 0 (split_char (CHR 0x0A) sample_list))"

lemma sample_rules_list:
  "stored (name_rules work_hours 0 (split_char (CHR 0x0A) sample_list)) =
     [(PatternTypeSuffix, ''ads.example'', Some (Some [[], [\<lparr>tr_after = 32400, tr_before = 61200\<rparr>], [], [], [], [], []])),
      (PatternTypeExact, ''exact.net'', Some None)]"
  by code_simp

lemma sample_active: "name_rule_active alist_trie noon sample_matcher ''x.ads.example''"
  by code_simp

theorem name_list_acts_by_rule_witness:
  "list_ex (\<lambda>(t, p, v). pattern_matches t p ''x.ads.example'' \<and> schedule_allows noon v)
     (stored (name_rules work_hours 0 (split_char (CHR 0x0A) sample_list)))"
  using name_list_acts_by_rule [OF alist_trie_ok loadRules_matcher sample_active [unfolded sample_matcher_def]]
  by (simp add: list_ex_iff)

text \<open>A query for a blocked name is never sent upstream. Whatever other plugins are configured and whatever they do, when a
  rule of the block list acts on the name and no rule of the allow list does, the query phase ends with an error
  or with a synthetic response.
\<close>

theorem blocked_name_never_forwarded:
  assumes "Unpack D packet = Some msg" "msg_Question msg = [question]" "NormalizeQName (rr_Name question) = Inr q"
    and "block_rule_active E q" "\<not> allow_rule_active E q"
    and "ApplyQueryPlugins D g (queryPlugins E) packet pad w (NewPluginsState c proto addr sproto) = (res, s', w')"
  shows "(\<exists>e. res = Inl e) \<or> (action s' \<noteq> PluginsActionContinue \<and> synthResponse s' \<noteq> None)"
proof -
  let ?s = "(NewPluginsState c proto addr sproto)\<lparr>qName := q, questionMsg := Some msg\<rparr>"
  have s: "action ?s = PluginsActionContinue" "qName ?s = q" "\<not> whitelisted ?s"
    by (simp_all add: NewPluginsState_def)
  obtain e t n v where r: "run_plugins g (queryPlugins E) w ?s msg = (e, t, n, v)" by (metis prod_cases4)
  show ?thesis
  proof (cases e)
    case None
    then have "action t \<noteq> PluginsActionContinue \<and> synthResponse t \<noteq> None"
      using blocked_name_stops [OF assms(4,5) s, of g w msg t n v] r by simp
    then show ?thesis
      using assms(6) r None assms(1-3) by (auto simp: ApplyQueryPlugins_def split: option.splits)
  next
    case (Some err)
    then show ?thesis using assms(6) r assms(1-3) by (auto simp: ApplyQueryPlugins_def)
  qed
qed

definition sample_env :: "((string \<times> WeeklyRanges option option) list, unit, unit) plugin_env" where
  "sample_env =
     \<lparr>env_trie = alist_trie, env_clock = noon, env_captive = None, env_queryMeta = [], env_allowName = None, env_ecs = None,
      env_blockName = Some \<lparr>bn_matcher = sample_matcher, bn_logger = None, bn_ipCrypt = None\<rparr>, env_blockIPv6 = True,
      env_cloak = None, env_cache = None, env_forward = None, env_blockUnqualified = True, env_undelegated = None,
      env_allowIP = None, env_blockIP = None, env_dns64 = None, env_cacheResponse = None\<rparr>"

definition sample_query :: Msg where
  "sample_query =
     empty_Msg\<lparr>msg_ID := 7, msg_Question := [\<lparr>rr_Name = ''X.ads.example.'', rr_Class = 1, rr_TTL = 0, rr_Data = RD_A InvalidAddr\<rparr>]\<rparr>"

definition sample_package :: dns_package where
  "sample_package = \<lparr>Unpack = (\<lambda>_. Some sample_query), Pack = (\<lambda>_. Some (replicate 20 0)), EqualName = (\<lambda>a b. ToLower a = ToLower b)\<rparr>"

definition sample_globals :: PluginsGlobals where
  "sample_globals = parseBlockedQueryResponse ''refused'' \<lparr>refusedCodeInResponses = False, respondWithIPv4 = None, respondWithIPv6 = None\<rparr>"

definition sample_ttls :: ttl_config where
  "sample_ttls = \<lparr>cfg_rejectTTL = 600, cfg_cacheMaxTTL = 86400, cfg_cacheMinTTL = 60, cfg_cacheNegMaxTTL = 600, cfg_cacheNegMinTTL = 60\<rparr>"

lemma sample_block: "block_rule_active sample_env ''x.ads.example''"
  using sample_active by (simp add: block_rule_active_def sample_env_def)

theorem blocked_name_never_forwarded_witness:
  "case ApplyQueryPlugins sample_package sample_globals (queryPlugins sample_env) [] False () (NewPluginsState sample_ttls ''udp'' None ''udp'') of
     (res, s', w') \<Rightarrow> (\<exists>e. res = Inl e) \<or> (action s' \<noteq> PluginsActionContinue \<and> synthResponse s' \<noteq> None)"
proof -
  have q: "NormalizeQName ''X.ads.example.'' = Inr ''x.ads.example''" by code_simp
  obtain res s' w' where r: "ApplyQueryPlugins sample_package sample_globals (queryPlugins sample_env) [] False ()
      (NewPluginsState sample_ttls ''udp'' None ''udp'') = (res, s', w')" by (metis prod_cases3)
  have "(\<exists>e. res = Inl e) \<or> (action s' \<noteq> PluginsActionContinue \<and> synthResponse s' \<noteq> None)"
    by (rule blocked_name_never_forwarded [OF _ _ _ sample_block _ r, where msg = sample_query and question = "hd (msg_Question sample_query)"])
      (simp_all add: sample_package_def sample_query_def q allow_rule_active_def sample_env_def)
  with r show ?thesis by simp
qed

text \<open>
  C12: the allow list overrides the block list. When a rule of the allow list acts on the name of a query, the query phase
  is exactly what it would be with no block list configured.
\<close>

theorem allow_list_overrides:
  assumes "Unpack D packet = Some msg" "msg_Question msg = [question]" "NormalizeQName (rr_Name question) = Inr q"
    and "allow_rule_active E q"
  shows "ApplyQueryPlugins D g (queryPlugins E) packet pad w (NewPluginsState c proto addr sproto) =
    ApplyQueryPlugins D g (queryPlugins (E\<lparr>env_blockName := None\<rparr>)) packet pad w (NewPluginsState c proto addr sproto)"
proof -
  let ?s = "(NewPluginsState c proto addr sproto)\<lparr>qName := q, questionMsg := Some msg\<rparr>"
  have "run_plugins g (queryPlugins E) w ?s msg = run_plugins g (queryPlugins (E\<lparr>env_blockName := None\<rparr>)) w ?s msg"
    by (rule allowed_name_ignores_block_list [OF assms(4)]) (simp_all add: NewPluginsState_def)
  then show ?thesis using assms(1-3) by (simp add: ApplyQueryPlugins_def)
qed

definition allowing_env :: "((string \<times> WeeklyRanges option option) list, unit, unit) plugin_env" where
  "allowing_env = sample_env\<lparr>env_allowName := Some \<lparr>an_matcher = sample_matcher, an_logger = None, an_ipCrypt = None\<rparr>\<rparr>"

theorem allow_list_overrides_witness:
  "ApplyQueryPlugins sample_package sample_globals (queryPlugins allowing_env) [] False () (NewPluginsState sample_ttls ''udp'' None ''udp'') =
   ApplyQueryPlugins sample_package sample_globals (queryPlugins (allowing_env\<lparr>env_blockName := None\<rparr>)) [] False ()
     (NewPluginsState sample_ttls ''udp'' None ''udp'')"
proof -
  have q: "NormalizeQName ''X.ads.example.'' = Inr ''x.ads.example''" by code_simp
  have "allow_rule_active allowing_env ''x.ads.example''"
    using sample_active by (simp add: allow_rule_active_def allowing_env_def sample_env_def)
  then show ?thesis
    by (rule allow_list_overrides [where msg = sample_query and question = "hd (msg_Question sample_query)", rotated 3])
      (simp_all add: sample_package_def sample_query_def q)
qed

text \<open>A response is returned only for the query that was asked. Whatever the upstream server sends and whatever the plugins do
  to it, the response phase succeeds only with a packet whose message has the response bit, the identifier and the
  question of the query.
\<close>

theorem response_answers_query:
  assumes "ApplyResponsePlugins D g ps packet w s = (Ret data, s', w')"
  shows "\<exists>q msg. questionMsg s' = Some q \<and> Pack D msg = Some data \<and> answers_query D q msg"
  using assms validate_None(1) [of D]
  by (cases "questionMsg s'")
    (auto simp: ApplyResponsePlugins_def validate_iff split: option.splits prod.splits outcome.splits)

theorem response_answers_query_witness:
  "case ApplyResponsePlugins (sample_package\<lparr>Unpack := (\<lambda>_. Some (sample_query\<lparr>msg_Response := True\<rparr>))\<rparr>) sample_globals [] (replicate 20 0) ()
      ((NewPluginsState sample_ttls ''udp'' None ''udp'')\<lparr>questionMsg := Some sample_query\<rparr>) of
     (Ret data, s', w') \<Rightarrow> \<exists>q msg. questionMsg s' = Some q \<and> data = replicate 20 0 \<and> answers_query sample_package q msg
   | _ \<Rightarrow> False"
proof -
  let ?D = "sample_package\<lparr>Unpack := (\<lambda>_. Some (sample_query\<lparr>msg_Response := True\<rparr>))\<rparr>"
  let ?s = "(NewPluginsState sample_ttls ''udp'' None ''udp'')\<lparr>questionMsg := Some sample_query\<rparr>"
  have "\<exists>s' w'. ApplyResponsePlugins ?D sample_globals [] (replicate 20 0) () ?s = (Ret (replicate 20 0), s', w')"
    by (simp add: ApplyResponsePlugins_def sample_package_def sample_query_def empty_Msg_def validateResponseForQuery_def
        validateResponseQuestion_def Rcode_def index_def removeEDNS0Options_def)
  then obtain s' w' where r: "ApplyResponsePlugins ?D sample_globals [] (replicate 20 0) () ?s = (Ret (replicate 20 0), s', w')" by blast
  have "answers_query ?D = answers_query sample_package" by (intro ext) (simp add: answers_query_def)
  with response_answers_query [OF r] r show ?thesis by auto
qed

end
