(* ===== verification/Dc_Transport.thy ===== *)
theory Dc_Transport
  imports Dc_Plugins
begin

text \<open>
  \<open>pkg/dnscrypt/xtransport.go\<close>: how the proxy itself reaches web servers. Addresses of host names are kept in a cache of their own and
  resolved through the proxy, the bootstrap resolvers or the system; support of HTTP/3 is remembered per host. What resolvers and web
  servers answer, the clock and the draws are arguments; answers may depend on everything asked before. Times are nanoseconds. The
  construction of TLS configurations is not modelled.
\<close>

section \<open>State\<close>

definition Hour :: int where "Hour = 3600 * 1000000000"

definition Minute :: int where "Minute = 60 * 1000000000"

definition SystemResolverIPTTL :: int where "SystemResolverIPTTL = 12 * Hour"

definition MinResolverIPTTL :: int where "MinResolverIPTTL = 4 * Hour"

definition ResolverIPTTLMaxJitter :: int where "ResolverIPTTLMaxJitter = 15 * Minute"

definition ExpiredCachedIPGraceTTL :: int where "ExpiredCachedIPGraceTTL = 15 * Minute"

definition DefaultHTTP3NegativeCacheTTL :: int where "DefaultHTTP3NegativeCacheTTL = 30 * Minute"

definition resolverRetryCount :: nat where "resolverRetryCount = 3"

definition MaxHTTPBodyLength :: nat where "MaxHTTPBodyLength = 1000000"

record CachedIPItem =
  ci_ips :: "net_IP list"
  ci_expiration :: "int option"
  ci_updatingUntil :: "int option"

record AltSupportEntry =
  ase_port :: u16
  ase_negativeUntil :: "int option"

record XTransport =
  xt_cachedIPs :: "string \<rightharpoonup> CachedIPItem"
  xt_altSupport :: "string \<rightharpoonup> AltSupportEntry"
  xt_timeout :: int
  xt_internalResolvers :: "string list"
  xt_bootstrapResolvers :: "string list"
  xt_mainProto :: string
  xt_ignoreSystemDNS :: bool
  xt_internalResolverReady :: bool
  xt_useIPv4 :: bool
  xt_useIPv6 :: bool
  xt_h3Transport :: bool
  xt_http3Probe :: bool
  xt_proxied :: bool
  xt_proxyDialer :: bool

section \<open>Support of HTTP/3\<close>

definition loadAltSupport :: "int \<Rightarrow> string \<Rightarrow> XTransport \<Rightarrow> u16 \<times> bool \<times> bool" where
  "loadAltSupport now host xt =
     (case xt_altSupport xt host of
        None \<Rightarrow> (0, False, False)
      | Some entry \<Rightarrow>
          if ase_port entry > 0 then (ase_port entry, True, False)
          else if (case ase_negativeUntil entry of None \<Rightarrow> True | Some t \<Rightarrow> now < t) then (0, True, True)
          else (0, False, False))"

definition saveAltSupport :: "string \<Rightarrow> u16 \<Rightarrow> XTransport \<Rightarrow> XTransport" where
  "saveAltSupport host port xt =
     xt\<lparr>xt_altSupport := (xt_altSupport xt)(host \<mapsto> \<lparr>ase_port = port, ase_negativeUntil = None\<rparr>)\<rparr>"

definition saveAltSupportNegative :: "int \<Rightarrow> string \<Rightarrow> int \<Rightarrow> XTransport \<Rightarrow> XTransport" where
  "saveAltSupportNegative now host ttl xt =
     xt\<lparr>xt_altSupport := (xt_altSupport xt)(host \<mapsto> \<lparr>ase_port = 0, ase_negativeUntil = Some (now + ttl)\<rparr>)\<rparr>"

definition recordHTTP3ProbeFailure :: "int \<Rightarrow> string \<Rightarrow> bool \<Rightarrow> XTransport \<Rightarrow> XTransport" where
  "recordHTTP3ProbeFailure now host advertisesH3 xt =
     (if advertisesH3 then saveAltSupportNegative now host DefaultHTTP3NegativeCacheTTL xt else saveAltSupport host 0 xt)"

section \<open>The cache of addresses\<close>

definition ParseIP_brackets :: "string \<Rightarrow> net_IP option" where
  "ParseIP_brackets ipStr = ParseIP (rev (dropWhile (\<lambda>c. c = CHR '']'') (rev (dropWhile (\<lambda>c. c = CHR ''['') ipStr))))"

fun unique_ips :: "net_IP list \<Rightarrow> string list \<Rightarrow> net_IP list" where
  "unique_ips [] seen = []"
| "unique_ips (ip # ips) seen =
     (if ip = [] then unique_ips ips seen
      else if IP_String ip \<in> set seen then unique_ips ips seen
      else ip # unique_ips ips (IP_String ip # seen))"

definition uniqueNormalizedIPs :: "net_IP list \<Rightarrow> net_IP list" where
  "uniqueNormalizedIPs ips = unique_ips ips []"

text \<open>\<open>jitter\<close>: the draw below \<open>ResolverIPTTLMaxJitter\<close>.\<close>

definition saveCachedIPs :: "int \<Rightarrow> int \<Rightarrow> string \<Rightarrow> net_IP list \<Rightarrow> int \<Rightarrow> XTransport \<Rightarrow> XTransport" where
  "saveCachedIPs now jitter host ips ttl xt =
     (let normalized = uniqueNormalizedIPs ips in
      if normalized = [] then xt
      else
        let expiration = (if ttl \<ge> 0 then Some (now + (if ttl < MinResolverIPTTL then MinResolverIPTTL else ttl) + jitter) else None) in
        xt\<lparr>xt_cachedIPs := (xt_cachedIPs xt)(host \<mapsto> \<lparr>ci_ips = normalized, ci_expiration = expiration, ci_updatingUntil = None\<rparr>)\<rparr>)"

definition saveCachedIP :: "int \<Rightarrow> int \<Rightarrow> string \<Rightarrow> net_IP \<Rightarrow> int \<Rightarrow> XTransport \<Rightarrow> XTransport" where
  "saveCachedIP now jitter host ip ttl xt = (if ip = [] then xt else saveCachedIPs now jitter host [ip] ttl xt)"

definition markUpdatingCachedIP :: "int \<Rightarrow> string \<Rightarrow> XTransport \<Rightarrow> XTransport" where
  "markUpdatingCachedIP now host xt =
     (case xt_cachedIPs xt host of
        None \<Rightarrow> xt
      | Some item \<Rightarrow>
          xt\<lparr>xt_cachedIPs := (xt_cachedIPs xt)(host \<mapsto> item\<lparr>ci_updatingUntil := Some (now + xt_timeout xt)\<rparr>)\<rparr>)"

definition loadCachedIPs :: "int \<Rightarrow> string \<Rightarrow> XTransport \<Rightarrow> net_IP list \<times> bool \<times> bool" where
  "loadCachedIPs now host xt =
     (case xt_cachedIPs xt host of
        None \<Rightarrow> ([], False, False)
      | Some item \<Rightarrow>
          let ips = filter (\<lambda>ip. ip \<noteq> []) (ci_ips item);
              expired = (case ci_expiration item of None \<Rightarrow> False | Some t \<Rightarrow> t - now < 0) in
          (ips, expired, expired \<and> (case ci_updatingUntil item of None \<Rightarrow> False | Some t \<Rightarrow> t - now > 0)))"

section \<open>Dialing\<close>

definition formatEndpoint :: "string \<Rightarrow> int \<Rightarrow> net_IP option \<Rightarrow> string" where
  "formatEndpoint host port ip =
     (case ip of
        Some ip \<Rightarrow> (case To4 ip of Some ipv4 \<Rightarrow> IP_String ipv4 @ '':'' @ Itoa port | None \<Rightarrow> ''['' @ IP_String ip @ '']:'' @ Itoa port)
      | None \<Rightarrow>
          (case ParseIP_brackets host of
             Some parsed \<Rightarrow> if To4 parsed = None then ''['' @ IP_String parsed @ '']:'' @ Itoa port else host @ '':'' @ Itoa port
           | None \<Rightarrow> host @ '':'' @ Itoa port))"

definition dial_targets :: "int \<Rightarrow> string \<Rightarrow> XTransport \<Rightarrow> string list" where
  "dial_targets now addrStr xt =
     (case ExtractHostAndPort addrStr 443 of
        (host, port) \<Rightarrow>
          (case loadCachedIPs now host xt of
             ([], _) \<Rightarrow> [formatEndpoint host port None]
           | (ips, _) \<Rightarrow> map (\<lambda>ip. formatEndpoint host port (Some ip)) ips))"

fun dial_first :: "(string \<Rightarrow> bool) \<Rightarrow> string list \<Rightarrow> string option" where
  "dial_first ok [] = None"
| "dial_first ok (t # ts) = (if ok t then Some t else dial_first ok ts)"

definition DialContext :: "int \<Rightarrow> (string \<Rightarrow> bool) \<Rightarrow> string \<Rightarrow> XTransport \<Rightarrow> string option" where
  "DialContext now ok addrStr xt = dial_first ok (dial_targets now addrStr xt)"

definition h3_target :: "XTransport \<Rightarrow> string \<Rightarrow> int \<Rightarrow> net_IP option \<Rightarrow> string \<times> string" where
  "h3_target xt host port ip =
     (case ip of
        Some ip \<Rightarrow>
          (case To4 ip of
             Some ipv4 \<Rightarrow> (IP_String ipv4 @ '':'' @ Itoa port, ''udp4'')
           | None \<Rightarrow> (''['' @ IP_String ip @ '']:'' @ Itoa port, ''udp6''))
      | None \<Rightarrow>
          (case ParseIP_brackets host of
             Some parsed \<Rightarrow>
               if To4 parsed \<noteq> None then (IP_String parsed @ '':'' @ Itoa port, ''udp4'')
               else (''['' @ IP_String parsed @ '']:'' @ Itoa port, ''udp6'')
           | None \<Rightarrow>
               (host @ '':'' @ Itoa port, if xt_useIPv6 xt then (if xt_useIPv4 xt then ''udp'' else ''udp6'') else ''udp4'')))"

section \<open>Resolving\<close>

text \<open>
  A question to the system resolver or to a server: protocol, server, type. Answers depend on the questions asked before. The questions of one attempt share five
  seconds; a later one for which they are over fails and is not sent, which is noted as \<open>OutOfTime\<close>.
\<close>

datatype xquery = AskSystem | AskServer string string u16 | OutOfTime string string u16

record xt_world =
  xw_system :: "xquery list \<Rightarrow> string \<Rightarrow> net_IP list option"
  xw_server :: "xquery list \<Rightarrow> string \<Rightarrow> xquery \<Rightarrow> RR list option"
  xw_late :: "xquery list \<Rightarrow> bool"

type_synonym resolved = "net_IP list \<times> int \<times> bool"

text \<open>The last component of a result: whether there was an error.\<close>

definition family_filter :: "bool \<Rightarrow> bool \<Rightarrow> net_IP list \<Rightarrow> net_IP list" where
  "family_filter returnIPv4 returnIPv6 ipa =
     concat (map (\<lambda>ip. case To4 ip of Some ipv4 \<Rightarrow> (if returnIPv4 then [ipv4] else []) | None \<Rightarrow> (if returnIPv6 then [ip] else [])) ipa)"

definition resolveUsingSystem :: "xt_world \<Rightarrow> string \<Rightarrow> bool \<Rightarrow> bool \<Rightarrow> xquery list \<Rightarrow> resolved \<times> xquery list" where
  "resolveUsingSystem W host returnIPv4 returnIPv6 h =
     (let answer = xw_system W h host; ipa = (case answer of None \<Rightarrow> [] | Some a \<Rightarrow> a);
          ips = (if returnIPv4 \<and> returnIPv6 then ipa else family_filter returnIPv4 returnIPv6 ipa) in
      ((ips, SystemResolverIPTTL, answer = None), h @ [AskSystem]))"

definition answer_ips :: "u16 \<Rightarrow> RR list \<Rightarrow> net_IP list" where
  "answer_ips rrType answers =
     concat (map (\<lambda>answer.
       case rr_Data answer of
         RD_A a \<Rightarrow> if rrType = TypeA then [AsSlice a] else []
       | RD_AAAA a \<Rightarrow> if rrType = TypeAAAA then [AsSlice a] else []
       | _ \<Rightarrow> []) answers)"

definition last_ttl :: "u16 \<Rightarrow> RR list \<Rightarrow> u32 \<Rightarrow> u32" where
  "last_ttl rrType answers t0 = foldl (\<lambda>t r. if RRToType r = rrType then rr_TTL r else t) t0 answers"

fun ask_types ::
  "xt_world \<Rightarrow> string \<Rightarrow> string \<Rightarrow> string \<Rightarrow> bool \<Rightarrow> u16 list \<Rightarrow> net_IP list \<times> u32 \<times> bool \<Rightarrow> xquery list \<Rightarrow> (net_IP list \<times> u32 \<times> bool) \<times> xquery list" where
  "ask_types W proto host resolver begun [] acc h = (acc, h)"
| "ask_types W proto host resolver begun (rrType # ts) (ips, rrTTL, err) h =
     (let q = AskServer proto resolver rrType in
      if begun \<and> xw_late W h then ask_types W proto host resolver True ts (ips, rrTTL, True) (h @ [OutOfTime proto resolver rrType])
      else
        case xw_server W h host q of
          None \<Rightarrow> ask_types W proto host resolver True ts (ips, rrTTL, True) (h @ [q])
        | Some answers \<Rightarrow>
            ask_types W proto host resolver True ts (ips @ answer_ips rrType answers, last_ttl rrType answers rrTTL, False) (h @ [q]))"

definition resolveUsingResolver ::
  "xt_world \<Rightarrow> string \<Rightarrow> string \<Rightarrow> string \<Rightarrow> bool \<Rightarrow> bool \<Rightarrow> xquery list \<Rightarrow> resolved \<times> xquery list" where
  "resolveUsingResolver W proto host resolver returnIPv4 returnIPv6 h =
     (let queryType = (if returnIPv4 then [TypeA] else []) @ (if returnIPv6 then [TypeAAAA] else []) in
      case ask_types W proto host resolver False queryType ([], 0, False) h of
        ((ips, rrTTL, err), h) \<Rightarrow> ((ips, if ips \<noteq> [] then int (unat rrTTL) * 1000000000 else 0, err), h))"

fun try_resolver ::
  "xt_world \<Rightarrow> string \<Rightarrow> string \<Rightarrow> string \<Rightarrow> bool \<Rightarrow> bool \<Rightarrow> nat \<Rightarrow> xquery list \<Rightarrow> resolved option \<times> xquery list" where
  "try_resolver W proto host resolver v4 v6 0 h = (None, h)"
| "try_resolver W proto host resolver v4 v6 (Suc attempts) h =
     (case resolveUsingResolver W proto host resolver v4 v6 h of
        ((ips, ttl, err), h) \<Rightarrow>
          if \<not> err \<and> ips \<noteq> [] then (Some (ips, ttl, False), h) else try_resolver W proto host resolver v4 v6 attempts h)"

text \<open>The server that answered moves to the front; \<open>i\<close> is its position in \<open>all\<close>.\<close>

fun try_resolvers_from ::
  "xt_world \<Rightarrow> string \<Rightarrow> string \<Rightarrow> bool \<Rightarrow> bool \<Rightarrow> string list \<Rightarrow> nat \<Rightarrow> string list \<Rightarrow> xquery list \<Rightarrow> resolved \<times> string list \<times> xquery list" where
  "try_resolvers_from W proto host v4 v6 all i [] h = (([], 0, True), all, h)"
| "try_resolvers_from W proto host v4 v6 all i (resolver # rest) h =
     (case try_resolver W proto host resolver v4 v6 resolverRetryCount h of
        (Some r, h) \<Rightarrow> (r, if i > 0 then all[0 := all ! i, i := all ! 0] else all, h)
      | (None, h) \<Rightarrow> try_resolvers_from W proto host v4 v6 all (i + 1) rest h)"

definition resolveUsingServers ::
  "xt_world \<Rightarrow> string \<Rightarrow> string \<Rightarrow> string list \<Rightarrow> bool \<Rightarrow> bool \<Rightarrow> xquery list \<Rightarrow> resolved \<times> string list \<times> xquery list" where
  "resolveUsingServers W proto host resolvers v4 v6 h = try_resolvers_from W proto host v4 v6 resolvers 0 resolvers h"

fun try_protos ::
  "xt_world \<Rightarrow> string \<Rightarrow> string list \<Rightarrow> bool \<Rightarrow> bool \<Rightarrow> string list \<Rightarrow> resolved \<Rightarrow> xquery list \<Rightarrow> resolved \<times> string list \<times> xquery list" where
  "try_protos W host resolvers v4 v6 [] r h = (r, resolvers, h)"
| "try_protos W host resolvers v4 v6 (proto # protos) r h =
     (case resolveUsingServers W proto host resolvers v4 v6 h of
        ((ips, ttl, err), resolvers, h) \<Rightarrow>
          if \<not> err then ((ips, ttl, err), resolvers, h) else try_protos W host resolvers v4 v6 protos (ips, ttl, err) h)"

definition protos_of :: "XTransport \<Rightarrow> string list" where
  "protos_of xt = (if xt_mainProto xt = ''tcp'' then [''tcp'', ''udp''] else [''udp'', ''tcp''])"

definition resolve_first :: "xt_world \<Rightarrow> string \<Rightarrow> bool \<Rightarrow> bool \<Rightarrow> XTransport \<Rightarrow> resolved \<times> XTransport \<times> xquery list" where
  "resolve_first W host v4 v6 xt =
     (if xt_ignoreSystemDNS xt then
        if xt_internalResolverReady xt then
          (case try_protos W host (xt_internalResolvers xt) v4 v6 (protos_of xt) ([], 0, False) [] of
             (r, resolvers, h) \<Rightarrow> (r, xt\<lparr>xt_internalResolvers := resolvers\<rparr>, h))
        else (([], 0, True), xt, [])
      else (case resolveUsingSystem W host v4 v6 [] of (r, h) \<Rightarrow> (r, xt, h)))"

definition resolve :: "xt_world \<Rightarrow> string \<Rightarrow> bool \<Rightarrow> bool \<Rightarrow> XTransport \<Rightarrow> resolved \<times> XTransport \<times> xquery list" where
  "resolve W host v4 v6 xt =
     (case resolve_first W host v4 v6 xt of
        ((ips, ttl, err), xt, h) \<Rightarrow>
          if \<not> err then ((ips, ttl, err), xt, h)
          else
            (case try_protos W host (xt_bootstrapResolvers xt) v4 v6 (protos_of xt) (ips, ttl, err) h of
               ((ips, ttl, err), resolvers, h) \<Rightarrow>
                 let xt = xt\<lparr>xt_bootstrapResolvers := resolvers\<rparr> in
                 if err \<and> xt_ignoreSystemDNS xt then (case resolveUsingSystem W host v4 v6 h of (r, h) \<Rightarrow> (r, xt, h))
                 else ((ips, ttl, err), xt, h)))"

text \<open>\<open>now\<close> before and \<open>later\<close> after the questions. The result: whether there was an error.\<close>

definition resolveAndUpdateCache ::
  "xt_world \<Rightarrow> int \<Rightarrow> int \<Rightarrow> int \<Rightarrow> string \<Rightarrow> XTransport \<Rightarrow> bool \<times> XTransport \<times> xquery list" where
  "resolveAndUpdateCache W now later jitter host xt =
     (if xt_proxied xt then (False, xt, [])
      else if ParseIP_brackets host \<noteq> None then (False, xt, [])
      else
        case loadCachedIPs now host xt of
          (cachedIPs, expired, updating) \<Rightarrow>
            if cachedIPs \<noteq> [] \<and> (\<not> expired \<or> updating) then (False, xt, [])
            else
              (case resolve W host (xt_useIPv4 xt) (xt_useIPv6 xt) (markUpdatingCachedIP now host xt) of
                 ((ips, ttl, err), xt, h) \<Rightarrow>
                   let ttl = (if ttl < MinResolverIPTTL then MinResolverIPTTL else ttl) in
                   if (err \<or> ips = []) \<and> cachedIPs \<noteq> [] then
                     (False, saveCachedIPs later jitter host cachedIPs ExpiredCachedIPGraceTTL xt, h)
                   else if err then (True, xt, h)
                   else if ips = [] then (False, xt, h)
                   else (False, saveCachedIPs later jitter host ips ttl xt, h)))"

section \<open>Fetching\<close>

text \<open>
  The reply of a web server: \<open>hp_altSvc\<close> are the values of the \<open>Alt-Svc\<close> header, \<open>hp_gzip\<close> whether the body is compressed, \<open>hp_gzipOk\<close>
  whether it can be decompressed, \<open>hp_body\<close> what reading it gives.
\<close>

record http_resp =
  hp_StatusCode :: int
  hp_altSvc :: "string list option"
  hp_gzip :: bool
  hp_gzipOk :: bool
  hp_body :: "bytes option"

datatype transport_used = UseH2 | UseH3

datatype fetch_error = OnionWithoutTor | ResolveFailed | ClientFailed | BadStatus int | BodyFailed

definition ParseUint16 :: "string \<Rightarrow> u16 option" where
  "ParseUint16 v = (case dec_nat v of None \<Rightarrow> None | Some n \<Rightarrow> if n \<le> 65535 then Some (of_nat n) else None)"

fun alt_fields :: "nat \<Rightarrow> nat \<Rightarrow> string list \<Rightarrow> u16 \<times> bool \<Rightarrow> u16 \<times> bool" where
  "alt_fields i j [] acc = acc"
| "alt_fields i j (v # vs) acc =
     (if i \<ge> 8 \<or> j \<ge> 16 then acc
      else
        let v = TrimSpace v in
        if has_prefix v ''h3=\":'' then
          (case ParseUint16 (trim_suffix (drop 5 v) [CHR 0x22]) of
             Some xAltPort \<Rightarrow> (xAltPort, True)
           | None \<Rightarrow> alt_fields i (j + 1) vs acc)
        else alt_fields i (j + 1) vs acc)"

fun alt_values :: "nat \<Rightarrow> string list \<Rightarrow> u16 \<times> bool \<Rightarrow> u16 \<times> bool" where
  "alt_values i [] acc = acc"
| "alt_values i (xalt # rest) acc =
     (if TrimSpace xalt = ''clear'' then (0, False)
      else alt_values (i + 1) rest (alt_fields i 0 (split_char (CHR '';'') xalt) acc))"

text \<open>Whether HTTP/3 is used, whether the host is known to support it, and whether it is suppressed.\<close>

definition choose_h3 :: "int \<Rightarrow> string \<Rightarrow> int \<Rightarrow> XTransport \<Rightarrow> bool \<times> bool \<times> bool" where
  "choose_h3 now urlHost port xt =
     (if \<not> xt_h3Transport xt then (False, False, False)
      else
        case loadAltSupport now urlHost xt of
          (altPort, found, negative) \<Rightarrow>
            if xt_http3Probe xt then (\<not> negative, False, negative)
            else (let hasAltSupport = found \<and> \<not> negative in
                  (hasAltSupport \<and> altPort > 0 \<and> int (unat altPort) = port, hasAltSupport, negative)))"

definition update_alt :: "int \<Rightarrow> string \<Rightarrow> int \<Rightarrow> bool \<Rightarrow> bool \<Rightarrow> bool \<Rightarrow> http_resp \<Rightarrow> XTransport \<Rightarrow> XTransport" where
  "update_alt now urlHost port hasAltSupport suppressed h3ProbeFailed resp xt =
     (if \<not> xt_h3Transport xt \<or> hasAltSupport \<or> (xt_http3Probe xt \<and> suppressed) then xt
      else
        let (altPort, advertisesH3) =
          (case hp_altSvc resp of None \<Rightarrow> (word_of_int port, False) | Some alt \<Rightarrow> alt_values 0 alt (word_of_int port, False)) in
        if h3ProbeFailed then recordHTTP3ProbeFailure now urlHost advertisesH3 xt
        else if hp_altSvc resp \<noteq> None then saveAltSupport urlHost altPort xt
        else xt)"

definition read_body :: "bool \<Rightarrow> http_resp \<Rightarrow> fetch_error + bytes" where
  "read_body compress resp =
     (if compress \<and> hp_gzip resp \<and> \<not> hp_gzipOk resp then Inl BodyFailed
      else case hp_body resp of None \<Rightarrow> Inl BodyFailed | Some b \<Rightarrow> Inr (take MaxHTTPBodyLength b))"

definition finish_fetch ::
  "int \<Rightarrow> string \<Rightarrow> int \<Rightarrow> bool \<Rightarrow> bool \<Rightarrow> bool \<Rightarrow> bool \<Rightarrow> http_resp option \<Rightarrow> XTransport \<Rightarrow> (fetch_error + bytes) \<times> int \<times> XTransport" where
  "finish_fetch now urlHost port compress hasAltSupport suppressed h3ProbeFailed resp xt =
     (case resp of
        None \<Rightarrow> (Inl ClientFailed, 503, xt)
      | Some r \<Rightarrow>
          if hp_StatusCode r < 200 \<or> hp_StatusCode r > 299 then (Inl (BadStatus (hp_StatusCode r)), hp_StatusCode r, xt)
          else (read_body compress r, hp_StatusCode r, update_alt now urlHost port hasAltSupport suppressed h3ProbeFailed r xt))"

text \<open>\<open>t0\<close>, \<open>t1\<close>: before the request and when it failed or was answered. \<open>client\<close>: what the client does with each transport.\<close>

definition xt_Fetch ::
  "xt_world \<Rightarrow> (transport_used \<Rightarrow> http_resp option) \<Rightarrow> int \<Rightarrow> int \<Rightarrow> int \<Rightarrow> string \<Rightarrow> bool \<Rightarrow> XTransport \<Rightarrow>
   ((fetch_error + bytes) \<times> int \<times> XTransport) \<times> transport_used list \<times> xquery list" where
  "xt_Fetch W client t0 t1 jitter urlHost compress xt =
     (case ExtractHostAndPort urlHost 443 of
        (host, port) \<Rightarrow>
          (case choose_h3 t0 urlHost port xt of
             (use3, hasAltSupport, suppressed) \<Rightarrow>
               if \<not> xt_proxyDialer xt \<and> has_suffix host ''.onion'' then ((Inl OnionWithoutTor, 0, xt), [], [])
               else
                 (case resolveAndUpdateCache W t0 t0 jitter host xt of
                    (True, xt, h) \<Rightarrow> ((Inl ResolveFailed, 0, xt), [], h)
                  | (False, xt, h) \<Rightarrow>
                      if \<not> use3 then
                        (finish_fetch t1 urlHost port compress hasAltSupport suppressed False (client UseH2) xt, [UseH2], h)
                      else
                        (case client UseH3 of
                           Some r \<Rightarrow> (finish_fetch t1 urlHost port compress hasAltSupport suppressed False (Some r) xt, [UseH3], h)
                         | None \<Rightarrow>
                             let xt = (if xt_http3Probe xt then xt else saveAltSupportNegative t1 urlHost DefaultHTTP3NegativeCacheTTL xt) in
                             (finish_fetch t1 urlHost port compress hasAltSupport suppressed (xt_http3Probe xt) (client UseH2) xt, [UseH3, UseH2], h)))))"

definition fetch_headers :: "string \<Rightarrow> string \<Rightarrow> bool \<Rightarrow> bool \<Rightarrow> (string \<times> string) list" where
  "fetch_headers accept contentType compress hasBody =
     [(''User-Agent'', ''dnscrypt-proxy'')] @
     (if accept \<noteq> [] then [(''Accept'', accept)] else []) @
     (if contentType \<noteq> [] then [(''Content-Type'', contentType)] else []) @
     [(''Cache-Control'', ''max-stale'')] @
     (if compress \<and> \<not> hasBody then [(''Accept-Encoding'', ''gzip'')] else [])"

text \<open>A query over HTTP: its method, its media type, and whether the packet travels in the URL or in the body.\<close>

record doh_request =
  dr_method :: string
  dr_headers :: "(string \<times> string) list"
  dr_urlParam :: "bytes option"
  dr_body :: "bytes option"

definition dohLikeQuery :: "string \<Rightarrow> bool \<Rightarrow> bytes \<Rightarrow> doh_request" where
  "dohLikeQuery dataType useGet body =
     (if useGet then \<lparr>dr_method = ''GET'', dr_headers = fetch_headers dataType [] False False, dr_urlParam = Some body, dr_body = None\<rparr>
      else \<lparr>dr_method = ''POST'', dr_headers = fetch_headers dataType dataType False True, dr_urlParam = None, dr_body = Some body\<rparr>)"

definition DoHQuery :: "bool \<Rightarrow> bytes \<Rightarrow> doh_request" where
  "DoHQuery useGet body = dohLikeQuery ''application/dns-message'' useGet body"

definition ObliviousDoHQuery :: "bool \<Rightarrow> bytes \<Rightarrow> doh_request" where
  "ObliviousDoHQuery useGet body = dohLikeQuery ''application/oblivious-dns-message'' useGet body"

section \<open>The system resolver is the last resort\<close>

definition wanted :: "bool \<Rightarrow> bool \<Rightarrow> u16 list" where
  "wanted v4 v6 = (if v4 then [TypeA] else []) @ (if v6 then [TypeAAAA] else [])"

text \<open>
  A server was asked, over a protocol: for the first wanted type, and for each other one unless the time of the attempt was over.
\<close>

definition asked_types :: "string \<Rightarrow> u16 list \<Rightarrow> xquery list \<Rightarrow> string \<Rightarrow> bool" where
  "asked_types proto ts qs s \<longleftrightarrow>
     (\<forall>t\<in>set ts. AskServer proto s t \<in> set qs \<or> OutOfTime proto s t \<in> set qs) \<and> (ts \<noteq> [] \<longrightarrow> AskServer proto s (hd ts) \<in> set qs)"

definition asked :: "string \<Rightarrow> bool \<Rightarrow> bool \<Rightarrow> xquery list \<Rightarrow> string \<Rightarrow> bool" where
  "asked proto v4 v6 qs s \<longleftrightarrow> asked_types proto (wanted v4 v6) qs s"

lemma asked_append: "asked p v4 v6 xs s \<Longrightarrow> asked p v4 v6 (xs @ ys) s" "asked p v4 v6 ys s \<Longrightarrow> asked p v4 v6 (xs @ ys) s"
  by (auto simp: asked_def asked_types_def)

lemma ask_types_trace:
  "\<exists>qs. snd (ask_types W proto host resolver begun ts (ips, ttl, err) h) = h @ qs \<and> AskSystem \<notin> set qs \<and>
     (\<forall>t\<in>set ts. AskServer proto resolver t \<in> set qs \<or> OutOfTime proto resolver t \<in> set qs) \<and>
     (\<not> begun \<longrightarrow> ts \<noteq> [] \<longrightarrow> AskServer proto resolver (hd ts) \<in> set qs)"
proof (induction ts arbitrary: begun ips ttl err h)
  case (Cons t ts)
  define q where "q = (if begun \<and> xw_late W h then OutOfTime proto resolver t else AskServer proto resolver t)"
  have "\<exists>acc. ask_types W proto host resolver begun (t # ts) (ips, ttl, err) h = ask_types W proto host resolver True ts acc (h @ [q])"
    by (cases "begun \<and> xw_late W h"; cases "xw_server W h host (AskServer proto resolver t)") (auto simp: Let_def q_def)
  then obtain ips' ttl' err' where r: "ask_types W proto host resolver begun (t # ts) (ips, ttl, err) h =
      ask_types W proto host resolver True ts (ips', ttl', err') (h @ [q])" by auto
  from Cons.IH [of True ips' ttl' err' "h @ [q]"] obtain qs where
    qs: "snd (ask_types W proto host resolver True ts (ips', ttl', err') (h @ [q])) = h @ q # qs" "AskSystem \<notin> set qs"
      "\<forall>t\<in>set ts. AskServer proto resolver t \<in> set qs \<or> OutOfTime proto resolver t \<in> set qs" by auto
  show ?case unfolding r using qs by (intro exI [of _ "q # qs"]) (auto simp: q_def)
qed simp

lemma resolver_trace:
  "\<exists>r qs. resolveUsingResolver W proto host resolver v4 v6 h = (r, h @ qs) \<and> AskSystem \<notin> set qs \<and> asked proto v4 v6 qs resolver"
  using ask_types_trace [of W proto host resolver False "wanted v4 v6" "[]" 0 False h]
  unfolding wanted_def [symmetric] resolveUsingResolver_def Let_def asked_def asked_types_def by (auto split: prod.splits)

lemma try_resolver_trace:
  assumes "try_resolver W proto host resolver v4 v6 n h = (r, h')"
  shows "\<exists>qs. h' = h @ qs \<and> AskSystem \<notin> set qs \<and> (n > 0 \<longrightarrow> asked proto v4 v6 qs resolver)"
  using assms
proof (induction n arbitrary: h)
  case (Suc n)
  obtain ips ttl err q1 where e: "resolveUsingResolver W proto host resolver v4 v6 h = ((ips, ttl, err), h @ q1)"
      and q1: "AskSystem \<notin> set q1" "asked proto v4 v6 q1 resolver"
    using resolver_trace [of W proto host resolver v4 v6 h] by auto
  show ?case
  proof (cases "\<not> err \<and> ips \<noteq> []")
    case True
    then show ?thesis using Suc.prems e q1 by auto
  next
    case False
    then have "try_resolver W proto host resolver v4 v6 n (h @ q1) = (r, h')" using Suc.prems e by (auto split: if_splits)
    from Suc.IH [OF this] obtain q2 where "h' = (h @ q1) @ q2" "AskSystem \<notin> set q2" by blast
    then show ?thesis using q1 asked_append(1) by (intro exI [of _ "q1 @ q2"]) auto
  qed
qed simp

lemma try_resolver_ok: "try_resolver W proto host resolver v4 v6 n h = (Some r, h') \<Longrightarrow> \<not> snd (snd r)"
  by (induction n arbitrary: h) (auto split: prod.splits if_splits)

lemma try_from_trace:
  assumes "try_resolvers_from W proto host v4 v6 all i rs h = ((ips, ttl, err), all', h')"
  shows "\<exists>qs. h' = h @ qs \<and> AskSystem \<notin> set qs \<and> (err \<longrightarrow> (all' = all \<and> list_all (asked proto v4 v6 qs) rs))"
  using assms
proof (induction rs arbitrary: i h)
  case (Cons s rs)
  obtain o' h1 where o': "try_resolver W proto host s v4 v6 resolverRetryCount h = (o', h1)" by fastforce
  then obtain q1 where q1: "h1 = h @ q1" "AskSystem \<notin> set q1" "asked proto v4 v6 q1 s"
    using try_resolver_trace [OF o'] by (auto simp: resolverRetryCount_def)
  show ?case
  proof (cases o')
    case None
    then have "try_resolvers_from W proto host v4 v6 all (i + 1) rs h1 = ((ips, ttl, err), all', h')" using Cons.prems o' by simp
    from Cons.IH [OF this] obtain q2 where q2: "h' = h1 @ q2" "AskSystem \<notin> set q2" "err \<longrightarrow> all' = all \<and> list_all (asked proto v4 v6 q2) rs"
      by blast
    show ?thesis
      using q1 q2 asked_append by (intro exI [of _ "q1 @ q2"]) (auto simp: list_all_iff)
  next
    case (Some r)
    have "\<not> snd (snd r)" using try_resolver_ok o' Some by blast
    then show ?thesis using Cons.prems o' Some q1 by auto
  qed
qed simp

lemma try_protos_trace:
  assumes "try_protos W host rs v4 v6 protos r0 h = ((ips, ttl, err), rs', h')" and "protos \<noteq> []"
  shows "\<exists>qs. h' = h @ qs \<and> AskSystem \<notin> set qs \<and> (err \<longrightarrow> rs' = rs \<and> list_all (\<lambda>p. list_all (asked p v4 v6 qs) rs) protos)"
  using assms
proof (induction protos arbitrary: r0 h)
  case (Cons p protos)
  obtain i1 t1 e1 rs1 h1 where f: "resolveUsingServers W p host rs v4 v6 h = ((i1, t1, e1), rs1, h1)" by (metis prod_cases3)
  from try_from_trace [OF f [unfolded resolveUsingServers_def]] obtain q1 where
    q1: "h1 = h @ q1" "AskSystem \<notin> set q1" "e1 \<longrightarrow> rs1 = rs \<and> list_all (asked p v4 v6 q1) rs" by blast
  show ?case
  proof (cases "e1 \<and> protos \<noteq> []")
    case True
    then have "try_protos W host rs v4 v6 protos (i1, t1, e1) h1 = ((ips, ttl, err), rs', h')" using Cons.prems f q1 by simp
    from Cons.IH [OF this] True obtain q2 where q2: "h' = h1 @ q2" "AskSystem \<notin> set q2"
      "err \<longrightarrow> rs' = rs \<and> list_all (\<lambda>p. list_all (asked p v4 v6 q2) rs) protos" by blast
    show ?thesis using q1 q2 True asked_append by (intro exI [of _ "q1 @ q2"]) (auto simp: list_all_iff)
  next
    case False
    then show ?thesis using Cons.prems f q1 by (auto split: if_splits)
  qed
qed simp

text \<open>
  C37: with the system resolver ignored, a name is given to it only when everything else failed. It is asked at most once and last, after each bootstrap resolver was asked
  over both protocols. The internal resolvers were asked before, over both protocols, when the service was ready; when it was not they are skipped. Asked means: for the
  first wanted type of address, and for the other one unless the time of the attempt was over by then.
\<close>

theorem system_resolver_is_last_resort:
  assumes "xt_ignoreSystemDNS xt" and "resolve W host v4 v6 xt = (r, xt', h)" and "AskSystem \<in> set h"
  shows "\<exists>qs. h = qs @ [AskSystem] \<and> AskSystem \<notin> set qs \<and>
    list_all (\<lambda>p. list_all (asked p v4 v6 qs) (xt_bootstrapResolvers xt)) [''udp'', ''tcp''] \<and>
    (xt_internalResolverReady xt \<longrightarrow> list_all (\<lambda>p. list_all (asked p v4 v6 qs) (xt_internalResolvers xt)) [''udp'', ''tcp''])"
proof -
  obtain i1 t1 e1 xt1 h1 where f: "resolve_first W host v4 v6 xt = ((i1, t1, e1), xt1, h1)" by (metis prod_cases3)
  have p: "protos_of xt \<noteq> []" "set (protos_of xt) = {''udp'', ''tcp''}" by (auto simp: protos_of_def)
  have first: "AskSystem \<notin> set h1 \<and> xt_bootstrapResolvers xt1 = xt_bootstrapResolvers xt \<and> protos_of xt1 = protos_of xt \<and> xt_ignoreSystemDNS xt1 \<and>
      (e1 \<longrightarrow> xt_internalResolverReady xt \<longrightarrow> list_all (\<lambda>p. list_all (asked p v4 v6 h1) (xt_internalResolvers xt)) [''udp'', ''tcp''])"
  proof (cases "xt_internalResolverReady xt")
    case True
    obtain rs where t: "try_protos W host (xt_internalResolvers xt) v4 v6 (protos_of xt) ([], 0, False) [] = ((i1, t1, e1), rs, h1)"
        and "xt1 = xt\<lparr>xt_internalResolvers := rs\<rparr>"
      using f assms(1) True by (auto simp: resolve_first_def split: prod.splits)
    then show ?thesis using try_protos_trace [OF t p(1)] p(2) assms(1) by (auto simp: list_all_iff protos_of_def)
  next
    case False
    then show ?thesis using f assms(1) by (auto simp: resolve_first_def)
  qed
  obtain i2 t2 e2 rs h2 where t: "try_protos W host (xt_bootstrapResolvers xt) v4 v6 (protos_of xt) (i1, t1, e1) h1 = ((i2, t2, e2), rs, h2)"
    by (metis prod_cases3)
  from try_protos_trace [OF t p(1)] obtain qs where q: "h2 = h1 @ qs" "AskSystem \<notin> set qs"
    "e2 \<longrightarrow> list_all (\<lambda>p. list_all (asked p v4 v6 qs) (xt_bootstrapResolvers xt)) (protos_of xt)" by blast
  have "e1 \<and> e2 \<and> h = h2 @ [AskSystem]"
    using assms(2,3) f t first q by (auto simp: resolve_def resolveUsingSystem_def Let_def split: if_splits)
  moreover from this have "list_all (\<lambda>p. list_all (asked p v4 v6 h2) (xt_bootstrapResolvers xt)) [''udp'', ''tcp'']"
    using q(1,3) p(2) asked_append(2) by (simp add: list_all_iff)
  moreover have "list_all (\<lambda>p. list_all (asked p v4 v6 h2) (xt_internalResolvers xt)) [''udp'', ''tcp'']" if "xt_internalResolverReady xt" "e1"
    using that q(1) first asked_append(1) by (simp add: list_all_iff)
  moreover have "AskSystem \<notin> set h2" using q first by simp
  ultimately show ?thesis by blast
qed

section \<open>Cached addresses\<close>

lemma unique_ips_nonempty: "[] \<notin> set (unique_ips ips seen)"
  by (induction ips arbitrary: seen) auto

lemma unique_ips_set: "IP_String ` set (unique_ips ips seen) = IP_String ` {ip \<in> set ips. ip \<noteq> []} - set seen"
  by (induction ips arbitrary: seen) auto

lemma unique_ips_distinct: "distinct (map IP_String (unique_ips ips seen))"
proof (induction ips arbitrary: seen)
  case (Cons ip ips)
  have "IP_String ip \<notin> set (map IP_String (unique_ips ips (IP_String ip # seen)))"
    using unique_ips_set [of ips "IP_String ip # seen"] by auto
  then show ?case using Cons by auto
qed simp

lemma saved_ips_load:
  assumes "uniqueNormalizedIPs ips \<noteq> []" and "0 \<le> jitter" and "0 \<le> ttl" and "t \<le> now + max ttl MinResolverIPTTL"
  shows "loadCachedIPs t host (saveCachedIPs now jitter host ips ttl xt) = (uniqueNormalizedIPs ips, False, False)"
proof -
  have "filter (\<lambda>ip. ip \<noteq> []) (uniqueNormalizedIPs ips) = uniqueNormalizedIPs ips"
    using unique_ips_nonempty [of ips "[]"] by (intro filter_True) (auto simp: uniqueNormalizedIPs_def)
  then show ?thesis using assms by (auto simp: loadCachedIPs_def saveCachedIPs_def Let_def max_def split: if_splits)
qed

lemma unique_unique:
  assumes "list_all (\<lambda>ip. ip \<noteq> []) ips" and "distinct (map IP_String ips)" and "IP_String ` set ips \<inter> set seen = {}"
  shows "unique_ips ips seen = ips"
  using assms by (induction ips arbitrary: seen) auto

text \<open>The entries of the cache are as \<open>saveCachedIPs\<close> makes them.\<close>

definition cache_ok :: "XTransport \<Rightarrow> bool" where
  "cache_ok xt \<longleftrightarrow> (\<forall>host item. xt_cachedIPs xt host = Some item \<longrightarrow> ci_ips item \<noteq> [] \<and> [] \<notin> set (ci_ips item) \<and> distinct (map IP_String (ci_ips item)))"

lemma saveCachedIPs_ok: "cache_ok xt \<Longrightarrow> cache_ok (saveCachedIPs now jitter host ips ttl xt)"
  using unique_ips_nonempty [of ips "[]"] unique_ips_distinct [of ips "[]"]
  by (auto simp: cache_ok_def saveCachedIPs_def uniqueNormalizedIPs_def Let_def)

lemma markUpdating_ok: "cache_ok xt \<Longrightarrow> cache_ok (markUpdatingCachedIP now host xt)"
  by (auto simp: cache_ok_def markUpdatingCachedIP_def split: option.splits)

text \<open>The fields that resolving leaves alone.\<close>

definition same_alt :: "XTransport \<Rightarrow> XTransport \<Rightarrow> bool" where
  "same_alt a b \<longleftrightarrow> xt_altSupport a = xt_altSupport b \<and> xt_h3Transport a = xt_h3Transport b \<and> xt_http3Probe a = xt_http3Probe b"

lemma resolve_keeps: "resolve W host v4 v6 xt = (r, xt', h) \<Longrightarrow> same_alt xt' xt"
  by (auto simp: resolve_def resolve_first_def same_alt_def Let_def split: prod.splits if_splits)

lemma cache_ops_keep:
  "same_alt (saveCachedIPs now jitter host ips ttl xt) xt' = same_alt xt xt'" "same_alt (markUpdatingCachedIP now host xt) xt"
  by (auto simp: same_alt_def saveCachedIPs_def markUpdatingCachedIP_def Let_def split: option.splits)

lemma same_alt_trans: "same_alt a b \<Longrightarrow> same_alt b c \<Longrightarrow> same_alt a c"
  by (simp add: same_alt_def)

text \<open>Resolving a host leaves addresses to use. When resolving a host that is not cached or has expired succeeds, the cache holds exactly the
  addresses found, each once, for at least the minimum time; and when it fails while old addresses are known, these stay in use.
\<close>

theorem resolved_addresses_are_cached:
  assumes "cache_ok xt" and "\<not> xt_proxied xt" and "ParseIP_brackets host = None" and "0 \<le> jitter"
    and "loadCachedIPs now host xt = (old, expired, updating)" and "old = [] \<or> expired \<and> \<not> updating"
    and "resolve W host (xt_useIPv4 xt) (xt_useIPv6 xt) (markUpdatingCachedIP now host xt) = ((ips, ttl, err), xt1, h)"
    and "resolveAndUpdateCache W now later jitter host xt = (failed, xt', h')" and "t \<le> later + MinResolverIPTTL"
  shows "(\<not> err \<and> uniqueNormalizedIPs ips \<noteq> [] \<longrightarrow> \<not> failed \<and> loadCachedIPs t host xt' = (uniqueNormalizedIPs ips, False, False)) \<and>
    ((err \<or> ips = []) \<and> old \<noteq> [] \<longrightarrow> \<not> failed \<and> loadCachedIPs t host xt' = (old, False, False)) \<and>
    (err \<and> old = [] \<longrightarrow> failed)"
proof -
  let ?ttl = "if ttl < MinResolverIPTTL then MinResolverIPTTL else ttl"
  have "resolveAndUpdateCache W now later jitter host xt =
      (if (err \<or> ips = []) \<and> old \<noteq> [] then (False, saveCachedIPs later jitter host old ExpiredCachedIPGraceTTL xt1, h)
       else if err then (True, xt1, h) else if ips = [] then (False, xt1, h) else (False, saveCachedIPs later jitter host ips ?ttl xt1, h))"
    unfolding resolveAndUpdateCache_def Let_def using assms(2,3,6) by (auto simp: assms(5,7))
  then have run: "(failed, xt', h') =
      (if (err \<or> ips = []) \<and> old \<noteq> [] then (False, saveCachedIPs later jitter host old ExpiredCachedIPGraceTTL xt1, h)
       else if err then (True, xt1, h) else if ips = [] then (False, xt1, h) else (False, saveCachedIPs later jitter host ips ?ttl xt1, h))"
    using assms(8) by (simp only:)
  have pos: "0 \<le> ?ttl" "MinResolverIPTTL \<le> ?ttl" "0 \<le> ExpiredCachedIPGraceTTL"
    by (simp_all add: MinResolverIPTTL_def Hour_def ExpiredCachedIPGraceTTL_def Minute_def)
  have "loadCachedIPs t host (saveCachedIPs later jitter host ips ?ttl xt1) = (uniqueNormalizedIPs ips, False, False)"
    if "uniqueNormalizedIPs ips \<noteq> []" using saved_ips_load [OF that assms(4) pos(1), of t later host xt1] assms(9) pos(2) by simp
  moreover have "loadCachedIPs t host (saveCachedIPs later jitter host old ExpiredCachedIPGraceTTL xt1) = (old, False, False)" if "old \<noteq> []"
  proof -
    have o: "[] \<notin> set old \<and> distinct (map IP_String old)"
      using assms(1,5) that by (auto simp: loadCachedIPs_def cache_ok_def Let_def distinct_map inj_on_def split: option.splits)
    then have "uniqueNormalizedIPs old = old" by (auto simp: uniqueNormalizedIPs_def list_all_iff intro!: unique_unique)
    then show ?thesis using saved_ips_load [of old jitter ExpiredCachedIPGraceTTL t later host xt1] assms(4,9) pos(3) that by simp
  qed
  moreover have "uniqueNormalizedIPs ips \<noteq> [] \<Longrightarrow> ips \<noteq> []" by (auto simp: uniqueNormalizedIPs_def)
  ultimately show ?thesis using run by (auto split: if_splits)
qed

text \<open>
  The grace period of a quarter of an hour never applies: stale addresses are kept for the minimum of four hours, like fresh ones.
\<close>

lemma grace_period_is_four_hours:
  assumes "uniqueNormalizedIPs ips \<noteq> []" and "0 \<le> jitter"
  shows "loadCachedIPs (now + 4 * Hour) host (saveCachedIPs now jitter host ips ExpiredCachedIPGraceTTL xt) = (uniqueNormalizedIPs ips, False, False)"
  using assms by (intro saved_ips_load) (simp_all add: MinResolverIPTTL_def ExpiredCachedIPGraceTTL_def Hour_def Minute_def)

text \<open>The answers for one family of addresses are dropped when the question for the other fails.\<close>

lemma failed_family_drops_other:
  assumes "xw_server W h host (AskServer proto s TypeA) = Some answers"
    and "xw_server W (h @ [AskServer proto s TypeA]) host (AskServer proto s TypeAAAA) = None"
  shows "\<exists>ips ttl h'. resolveUsingResolver W proto host s True True h = ((ips, ttl, True), h')"
  using assms by (simp add: resolveUsingResolver_def Let_def)

section \<open>Falling back from HTTP/3\<close>

definition uses_h3 :: "int \<Rightarrow> string \<Rightarrow> XTransport \<Rightarrow> bool" where
  "uses_h3 now urlHost xt = fst (choose_h3 now urlHost (snd (ExtractHostAndPort urlHost 443)) xt)"

lemma negative_suppresses:
  "t < now + DefaultHTTP3NegativeCacheTTL \<Longrightarrow> \<not> uses_h3 t urlHost (saveAltSupportNegative now urlHost DefaultHTTP3NegativeCacheTTL xt)"
  by (simp add: uses_h3_def choose_h3_def loadAltSupport_def saveAltSupportNegative_def Let_def)

lemma probe_failure_suppresses:
  "t < now + DefaultHTTP3NegativeCacheTTL \<Longrightarrow> \<not> uses_h3 t urlHost (recordHTTP3ProbeFailure now urlHost adv xt)"
proof (cases adv)
  case True
  assume "t < now + DefaultHTTP3NegativeCacheTTL"
  then show ?thesis using True negative_suppresses by (simp add: recordHTTP3ProbeFailure_def)
qed (simp add: recordHTTP3ProbeFailure_def uses_h3_def choose_h3_def loadAltSupport_def saveAltSupport_def Let_def)

lemma cache_keeps_alt:
  assumes "resolveAndUpdateCache W now later jitter host xt = (e, xt', h)"
  shows "same_alt xt' xt"
proof -
  obtain old ex up where l: "loadCachedIPs now host xt = (old, ex, up)" by (metis prod_cases3)
  obtain ips ttl err xt1 h1 where r: "resolve W host (xt_useIPv4 xt) (xt_useIPv6 xt) (markUpdatingCachedIP now host xt) = ((ips, ttl, err), xt1, h1)"
    by (metis prod_cases3)
  have "same_alt xt1 xt" using resolve_keeps [OF r] cache_ops_keep(2) same_alt_trans by blast
  moreover have "same_alt xt xt" by (simp add: same_alt_def)
  ultimately show ?thesis
    using assms l r by (auto simp: resolveAndUpdateCache_def Let_def cache_ops_keep(1) split: if_splits)
qed

text \<open>A failed HTTP/3 request falls back to HTTP/2 and is not repeated at once. When a request over HTTP/3 fails, the result is that of
  HTTP/2; and unless support of HTTP/3 was only being probed and HTTP/2 failed too, the host is not asked over HTTP/3 again for half an hour.
\<close>

theorem http3_falls_back:
  assumes "xt_Fetch W client t0 t1 jitter urlHost compress xt = ((r, status, xt'), used, h)" and "UseH3 \<in> set used" and "client UseH3 = None"
  shows "used = [UseH3, UseH2] \<and>
    (case client UseH2 of
       None \<Rightarrow> r = Inl ClientFailed
     | Some resp \<Rightarrow> if 200 \<le> hp_StatusCode resp \<and> hp_StatusCode resp \<le> 299 then r = read_body compress resp else r = Inl (BadStatus (hp_StatusCode resp))) \<and>
    (\<not> xt_http3Probe xt \<or> (\<exists>b. r = Inr b) \<longrightarrow> (\<forall>t < t1 + DefaultHTTP3NegativeCacheTTL. \<not> uses_h3 t urlHost xt'))"
proof -
  obtain host port where hp: "ExtractHostAndPort urlHost 443 = (host, port)" by fastforce
  obtain use3 has sup where c: "choose_h3 t0 urlHost port xt = (use3, has, sup)" by (metis prod_cases3)
  obtain e xt1 h1 where u: "resolveAndUpdateCache W t0 t0 jitter host xt = (e, xt1, h1)" by (metis prod_cases3)
  note k = cache_keeps_alt [OF u, unfolded same_alt_def]
  have use: "use3" "\<not> e" using assms(1,2) hp c u by (auto simp: xt_Fetch_def split: if_splits bool.splits)
  let ?xt2 = "if xt_http3Probe xt1 then xt1 else saveAltSupportNegative t1 urlHost DefaultHTTP3NegativeCacheTTL xt1"
  have run: "(r, status, xt') = finish_fetch t1 urlHost port compress has sup (xt_http3Probe ?xt2) (client UseH2) ?xt2" "used = [UseH3, UseH2]"
    using assms hp c u use by (auto simp: xt_Fetch_def Let_def split: if_splits bool.splits)
  have p: "xt_http3Probe ?xt2 = xt_http3Probe xt" "xt_h3Transport ?xt2" using k c use(1)
    by (auto simp: saveAltSupportNegative_def choose_h3_def split: if_splits)
  have has: "has = (\<not> xt_http3Probe xt)" "xt_http3Probe xt \<Longrightarrow> \<not> sup" using c use(1) by (auto simp: choose_h3_def Let_def split: if_splits prod.splits)
  have "\<not> uses_h3 t urlHost xt'" if t: "t < t1 + DefaultHTTP3NegativeCacheTTL" and ok: "\<not> xt_http3Probe xt \<or> (\<exists>b. r = Inr b)" for t
  proof (cases "xt_http3Probe xt")
    case False
    then have "xt' = saveAltSupportNegative t1 urlHost DefaultHTTP3NegativeCacheTTL xt1"
      using run(1) has k by (auto simp: finish_fetch_def update_alt_def split: option.splits if_splits)
    then show ?thesis using negative_suppresses [OF t] by simp
  next
    case True
    then obtain b where "r = Inr b" using ok by blast
    then obtain resp where "xt' = update_alt t1 urlHost port has sup True resp xt1"
      using run(1) True k by (auto simp: finish_fetch_def split: option.splits if_splits)
    then have "\<exists>adv. xt' = recordHTTP3ProbeFailure t1 urlHost adv xt1"
      using True has p k by (auto simp: update_alt_def Let_def split: prod.splits)
    then show ?thesis using probe_failure_suppresses [OF t] by auto
  qed
  moreover have "case client UseH2 of None \<Rightarrow> r = Inl ClientFailed
     | Some resp \<Rightarrow> if 200 \<le> hp_StatusCode resp \<and> hp_StatusCode resp \<le> 299 then r = read_body compress resp else r = Inl (BadStatus (hp_StatusCode resp))"
    using run(1) by (auto simp: finish_fetch_def split: option.splits if_splits)
  ultimately show ?thesis using run(2) by blast
qed

text \<open>An \<open>Alt-Svc\<close> header that offers only HTTP/2 is remembered as support of HTTP/3 on the port of the request.\<close>

lemma alt_svc_without_h3_enables_h3:
  assumes "xt_h3Transport xt" and "\<not> xt_http3Probe xt" and "hp_altSvc resp = Some [''h2='' @ [CHR 0x22] @ '':443'' @ [CHR 0x22]]"
    and "snd (ExtractHostAndPort urlHost 443) = 443"
  shows "uses_h3 t urlHost (update_alt now urlHost 443 False False False resp xt)"
proof -
  have "alt_values 0 [''h2='' @ [CHR 0x22] @ '':443'' @ [CHR 0x22]] (443, False) = (443, False)" by code_simp
  then show ?thesis
    using assms by (simp add: uses_h3_def choose_h3_def update_alt_def saveAltSupport_def loadAltSupport_def Let_def)
qed

section \<open>Examples\<close>

definition sample_xt :: XTransport where
  "sample_xt = \<lparr>xt_cachedIPs = Map.empty, xt_altSupport = [''dns.example'' \<mapsto> \<lparr>ase_port = 443, ase_negativeUntil = None\<rparr>], xt_timeout = 0,
     xt_internalResolvers = [''127.0.0.1:53''], xt_bootstrapResolvers = [''9.9.9.9:53''], xt_mainProto = ''udp'', xt_ignoreSystemDNS = True,
     xt_internalResolverReady = False, xt_useIPv4 = True, xt_useIPv6 = False, xt_h3Transport = True, xt_http3Probe = False,
     xt_proxied = False, xt_proxyDialer = False\<rparr>"

text \<open>Nothing answers but the system resolver; or the bootstrap resolver does.\<close>

definition silent_world :: xt_world where
  "silent_world = \<lparr>xw_system = (\<lambda>_ _. Some [[192, 0, 2, 1]]), xw_server = (\<lambda>_ _ _. None), xw_late = (\<lambda>_. False)\<rparr>"

definition answering_world :: xt_world where
  "answering_world = \<lparr>xw_system = (\<lambda>_ _. None),
     xw_server = (\<lambda>_ host _. Some [\<lparr>rr_Name = host, rr_Class = ClassINET, rr_TTL = 60, rr_Data = RD_A (Addr4 [192, 0, 2, 5])\<rparr>]), xw_late = (\<lambda>_. False)\<rparr>"

lemma retry_three: "resolverRetryCount = Suc (Suc (Suc 0))"
  by (simp add: resolverRetryCount_def)

text \<open>The service is ready and nothing but the system resolver answers.\<close>

definition ready_xt :: XTransport where
  "ready_xt = sample_xt\<lparr>xt_internalResolverReady := True\<rparr>"

definition thrice :: "string \<Rightarrow> string \<Rightarrow> xquery list" where
  "thrice proto s = replicate 3 (AskServer proto s TypeA)"

lemma silent_resolve:
  "resolve silent_world ''dns.example'' True False ready_xt =
     (([[192, 0, 2, 1]], SystemResolverIPTTL, False), ready_xt,
      thrice ''udp'' ''127.0.0.1:53'' @ thrice ''tcp'' ''127.0.0.1:53'' @ thrice ''udp'' ''9.9.9.9:53'' @ thrice ''tcp'' ''9.9.9.9:53'' @ [AskSystem])"
  by (simp add: resolve_def resolve_first_def ready_xt_def sample_xt_def protos_of_def resolveUsingServers_def silent_world_def retry_three thrice_def
      numeral_3_eq_3 resolveUsingResolver_def resolveUsingSystem_def family_filter_def To4_def Let_def)

theorem system_resolver_is_last_resort_witness:
  "\<exists>qs. snd (snd (resolve silent_world ''dns.example'' True False ready_xt)) = qs @ [AskSystem] \<and> AskSystem \<notin> set qs \<and>
     asked ''tcp'' True False qs ''9.9.9.9:53'' \<and> asked ''udp'' True False qs ''127.0.0.1:53''"
proof -
  have s: "xt_ignoreSystemDNS ready_xt" "xt_bootstrapResolvers ready_xt = [''9.9.9.9:53'']" "xt_internalResolverReady ready_xt"
    "xt_internalResolvers ready_xt = [''127.0.0.1:53'']" by (simp_all add: sample_xt_def ready_xt_def)
  from system_resolver_is_last_resort [OF s(1) silent_resolve] show ?thesis by (auto simp: silent_resolve s)
qed

lemma answering_resolve:
  "resolve answering_world ''dns.example'' True False sample_xt = (([[192, 0, 2, 5]], 60000000000, False), sample_xt, [AskServer ''udp'' ''9.9.9.9:53'' TypeA])"
  by (simp add: resolve_def resolve_first_def sample_xt_def protos_of_def resolveUsingServers_def answering_world_def retry_three
      resolveUsingResolver_def answer_ips_def last_ttl_def RRToType_def AsSlice_def Let_def)

theorem resolved_addresses_are_cached_witness:
  "loadCachedIPs (4 * Hour) ''dns.example'' (fst (snd (resolveAndUpdateCache answering_world 0 0 7 ''dns.example'' sample_xt))) = ([[192, 0, 2, 5]], False, False)"
proof -
  have u: "uniqueNormalizedIPs [[192, 0, 2, 5 :: byte]] = [[192, 0, 2, 5]]" by (simp add: uniqueNormalizedIPs_def)
  have n: "ParseIP_brackets ''dns.example'' = None" by code_simp
  have m: "markUpdatingCachedIP 0 ''dns.example'' sample_xt = sample_xt" by (simp add: markUpdatingCachedIP_def sample_xt_def)
  have l: "loadCachedIPs 0 ''dns.example'' sample_xt = ([], False, False)" by (simp add: loadCachedIPs_def sample_xt_def)
  have c: "cache_ok sample_xt" "\<not> xt_proxied sample_xt" "xt_useIPv4 sample_xt" "\<not> xt_useIPv6 sample_xt" by (simp_all add: cache_ok_def sample_xt_def)
  have r: "resolve answering_world ''dns.example'' (xt_useIPv4 sample_xt) (xt_useIPv6 sample_xt) (markUpdatingCachedIP 0 ''dns.example'' sample_xt) =
      (([[192, 0, 2, 5]], 60000000000, False), sample_xt, [AskServer ''udp'' ''9.9.9.9:53'' TypeA])"
    using answering_resolve m c by simp
  obtain e x h where d: "resolveAndUpdateCache answering_world 0 0 7 ''dns.example'' sample_xt = (e, x, h)" by (metis prod_cases3)
  from resolved_addresses_are_cached [OF c(1,2) n _ l _ r d, of "4 * Hour"] show ?thesis
    by (simp add: d u MinResolverIPTTL_def)
qed

definition h2_only :: "transport_used \<Rightarrow> http_resp option" where
  "h2_only u = (case u of UseH3 \<Rightarrow> None
     | UseH2 \<Rightarrow> Some \<lparr>hp_StatusCode = 200, hp_altSvc = None, hp_gzip = False, hp_gzipOk = True, hp_body = Some [1, 2]\<rparr>)"

lemma h2_only_fetch:
  "xt_Fetch silent_world h2_only 0 5 0 ''dns.example'' False (sample_xt\<lparr>xt_proxied := True\<rparr>) =
     ((Inr [1, 2], 200, saveAltSupportNegative 5 ''dns.example'' DefaultHTTP3NegativeCacheTTL (sample_xt\<lparr>xt_proxied := True\<rparr>)), [UseH3, UseH2], [])"
proof -
  have e: "ExtractHostAndPort ''dns.example'' 443 = (''dns.example'', 443)" "has_suffix ''dns.example'' ''.onion'' = False" by code_simp+
  show ?thesis
    by (simp add: xt_Fetch_def e choose_h3_def loadAltSupport_def resolveAndUpdateCache_def h2_only_def finish_fetch_def read_body_def
        update_alt_def saveAltSupportNegative_def sample_xt_def MaxHTTPBodyLength_def Let_def)
qed

theorem http3_falls_back_witness:
  "\<not> uses_h3 1000 ''dns.example'' (snd (snd (fst (xt_Fetch silent_world h2_only 0 5 0 ''dns.example'' False (sample_xt\<lparr>xt_proxied := True\<rparr>)))))"
  using http3_falls_back [OF h2_only_fetch]
  by (simp add: h2_only_fetch h2_only_def DefaultHTTP3NegativeCacheTTL_def Minute_def)

end
