(* ===== verification/Tls_Message.thy ===== *)
theory Tls_Message
  imports Go_Strings
begin

text \<open>
  \<open>pkg/spoofdpi/internal/proto/tls.go\<close>: TLS records and the search for the server name in a
  client hello. Every index and slice expression of the parser is a checked operation of
  \<open>Go_Prelude\<close>, so that the absence of run-time panics is a theorem and not an assumption.
\<close>

section \<open>Records\<close>

definition TLSMaxPayloadLen :: u16 where
  "TLSMaxPayloadLen = 16384"

definition TLSHeaderLen :: nat where
  "TLSHeaderLen = 5"

definition TLSHandshake :: byte where
  "TLSHandshake = 0x16"

record TLSHeader =
  hType :: byte
  ProtoVersion :: u16
  PayloadLen :: u16

record TLSMessage =
  kind :: string
  header :: TLSHeader
  raw :: bytes
  rawHeader :: bytes
  rawPayload :: bytes

definition TLSHeader_Bytes :: "TLSHeader \<Rightarrow> bytes" where
  "TLSHeader_Bytes h = hType h # put16 (ProtoVersion h) @ put16 (PayloadLen h)"

definition IsClientHello :: "TLSMessage \<Rightarrow> bool" where
  "IsClientHello m =
     (length (raw m) > TLSHeaderLen \<and> hType (header m) = TLSHandshake \<and> raw m ! 5 = 0x01)"

definition NewFakeTLSMessage :: "bytes \<Rightarrow> TLSMessage" where
  "NewFakeTLSMessage b = \<lparr>kind = ''fake'', header = \<lparr>hType = 0, ProtoVersion = 0, PayloadLen = 0\<rparr>,
     raw = b, rawHeader = [], rawPayload = []\<rparr>"

datatype tls_read_error = ReadError io_error | InvalidTLSHeader TLSHeader

definition ReadTLSMessage :: "bytes \<Rightarrow> tls_read_error + TLSMessage \<times> bytes" where
  "ReadTLSMessage r =
     (case ReadFull TLSHeaderLen r of
        Inl e \<Rightarrow> Inl (ReadError e)
      | Inr (rh, r1) \<Rightarrow>
          let h = \<lparr>hType = rh ! 0, ProtoVersion = be16 (rh ! 1) (rh ! 2),
                   PayloadLen = be16 (rh ! 3) (rh ! 4)\<rparr> in
          if PayloadLen h > TLSMaxPayloadLen then Inl (InvalidTLSHeader h)
          else
            let n = unat (PayloadLen h + of_nat TLSHeaderLen) in
            (case ReadFull (n - TLSHeaderLen) r1 of
               Inl e \<Rightarrow> Inl (ReadError e)
             | Inr (payload, r2) \<Rightarrow>
                 Inr (\<lparr>kind = ''real'', header = h, raw = rh @ payload,
                       rawHeader = rh, rawPayload = payload\<rparr>, r2)))"

section \<open>Server name\<close>

datatype sni_error =
    PacketTooShort | NotHandshake | NotClientHello | TooShortAfterRandom
  | TooShortAfterSessionID | TooShortForCipherSuitesLen | TooShortAfterCipherSuites
  | TooShortForCompressionLen | TooShortAfterCompression | NoExtensions
  | ExtensionsLengthOverflow | MalformedSNIExtension | MalformedSNILength | SNINotFound

text \<open>The body of the SNI branch: the extension data of length \<open>extLen\<close> starts at \<open>cur\<close>.\<close>

definition sni_extension :: "bytes \<Rightarrow> nat \<Rightarrow> nat \<Rightarrow> (sni_error, nat \<times> nat) outcome" where
  "sni_extension b cur extLen =
     (if extLen < 5 then Fail MalformedSNIExtension
      else obind (uint16_at b (cur + 3)) (\<lambda>n.
        let realStart = cur + 5; realEnd = realStart + unat n in
        if realEnd > cur + extLen then Fail MalformedSNILength else Ret (realStart, realEnd)))"

text \<open>The loop over the extensions between \<open>cur\<close> and \<open>extensionsEnd\<close>.\<close>

function sni_loop :: "bytes \<Rightarrow> nat \<Rightarrow> nat \<Rightarrow> (sni_error, nat \<times> nat) outcome" where
  "sni_loop b extensionsEnd cur =
     (if cur < extensionsEnd then
        if cur + 4 > extensionsEnd then Fail SNINotFound
        else obind (uint16_at b cur) (\<lambda>extType.
          obind (uint16_at b (cur + 2)) (\<lambda>len.
            if cur + 4 + unat len > extensionsEnd then Fail SNINotFound
            else if extType = 0 then sni_extension b (cur + 4) (unat len)
            else sni_loop b extensionsEnd (cur + 4 + unat len)))
      else Fail SNINotFound)"
  by pat_completeness auto
termination
  by (relation "measure (\<lambda>(b, fin, cur). fin - cur)") auto

declare sni_loop.simps [simp del]

definition ExtractSNIOffset :: "bytes \<Rightarrow> (sni_error, nat \<times> nat) outcome" where
  "ExtractSNIOffset b =
     (if length b < 43 then Fail PacketTooShort else
      obind (index b 0) (\<lambda>ct. if ct \<noteq> 0x16 then Fail NotHandshake else
      obind (index b 5) (\<lambda>ht. if ht \<noteq> 0x01 then Fail NotClientHello else
      if 43 \<ge> length b then Fail TooShortAfterRandom else
      obind (index b 43) (\<lambda>sidLen. let cur = 43 + (1 + unat sidLen) in
      if cur \<ge> length b then Fail TooShortAfterSessionID else
      if cur + 2 > length b then Fail TooShortForCipherSuitesLen else
      obind (uint16_at b cur) (\<lambda>csLen. let cur = cur + (2 + unat csLen) in
      if cur \<ge> length b then Fail TooShortAfterCipherSuites else
      if cur + 1 > length b then Fail TooShortForCompressionLen else
      obind (index b cur) (\<lambda>cmLen. let cur = cur + (1 + unat cmLen) in
      if cur \<ge> length b then Fail TooShortAfterCompression else
      if cur + 2 > length b then Fail NoExtensions else
      obind (uint16_at b cur) (\<lambda>extsLen.
      let cur = cur + 2; extensionsEnd = cur + unat extsLen in
      if extensionsEnd > length b then Fail ExtensionsLengthOverflow
      else sni_loop b extensionsEnd cur)))))))"

section \<open>No panic, offsets in range\<close>

definition sni_safe :: "bytes \<Rightarrow> nat \<Rightarrow> (sni_error, nat \<times> nat) outcome \<Rightarrow> bool" where
  "sni_safe b lo res = (case res of Panic \<Rightarrow> False | Fail _ \<Rightarrow> True
     | Ret (s, e) \<Rightarrow> lo \<le> s \<and> s \<le> e \<and> e \<le> length b)"

lemma sni_safe_Fail [simp]: "sni_safe b lo (Fail e)"
  by (simp add: sni_safe_def)

lemma sni_safe_mono: "sni_safe b lo r \<Longrightarrow> lo' \<le> lo \<Longrightarrow> sni_safe b lo' r"
  by (auto simp: sni_safe_def split: outcome.splits)

lemma sni_extension_safe: "cur + extLen \<le> length b \<Longrightarrow> sni_safe b cur (sni_extension b cur extLen)"
  by (auto simp: sni_extension_def uint16_at_in_range Let_def) (auto simp: sni_safe_def)

lemma sni_loop_safe: "extensionsEnd \<le> length b \<Longrightarrow> sni_safe b cur (sni_loop b extensionsEnd cur)"
proof (induction b extensionsEnd cur rule: sni_loop.induct)
  case (1 b fin cur)
  show ?case
  proof (cases "cur + 4 \<le> fin")
    case True
    let ?t = "be16 (b ! cur) (b ! (cur + 1))" and ?l = "be16 (b ! (cur + 2)) (b ! (cur + 2 + 1))"
    have r: "uint16_at b cur = Ret ?t" "uint16_at b (cur + 2) = Ret ?l"
      using True "1.prems" by (simp_all add: uint16_at_in_range)
    have "sni_safe b (cur + 4) (sni_extension b (cur + 4) (unat ?l))" if "cur + 4 + unat ?l \<le> fin"
      using that "1.prems" by (intro sni_extension_safe) simp
    moreover have "sni_safe b (cur + 4 + unat ?l) (sni_loop b fin (cur + 4 + unat ?l))"
      if "cur + 4 + unat ?l \<le> fin" "?t \<noteq> 0"
      by (rule "1.IH" [OF _ _ r]) (use that True "1.prems" in simp_all)
    ultimately show ?thesis using True
      by (subst sni_loop.simps) (simp add: r [simplified], auto intro: sni_safe_mono)
  qed (subst sni_loop.simps, simp)
qed

lemma sni_safe_index: "i < length b \<Longrightarrow> (\<And>x. sni_safe b lo (f x)) \<Longrightarrow> sni_safe b lo (obind (index b i) f)"
  by (simp add: index_in_range)

lemma sni_safe_uint16:
  "i + 2 \<le> length b \<Longrightarrow> (\<And>x. sni_safe b lo (f x)) \<Longrightarrow> sni_safe b lo (obind (uint16_at b i) f)"
  by (simp add: uint16_at_in_range)

lemma sni_safe_if: "(c \<Longrightarrow> sni_safe b lo x) \<Longrightarrow> (\<not> c \<Longrightarrow> sni_safe b lo y) \<Longrightarrow> sni_safe b lo (if c then x else y)"
  by simp

lemma ExtractSNIOffset_safe: "sni_safe b 43 (ExtractSNIOffset b)"
  unfolding ExtractSNIOffset_def Let_def
  by (intro sni_safe_if sni_safe_index sni_safe_uint16 sni_safe_Fail sni_loop_safe [THEN sni_safe_mono])
    linarith+

section \<open>Against an encoder of client hellos\<close>

text \<open>The wire format of RFC 8446 / RFC 6066, written independently of the parser.\<close>

definition ext_bytes :: "u16 \<times> bytes \<Rightarrow> bytes" where
  "ext_bytes e = put16 (fst e) @ put16 (of_nat (length (snd e))) @ snd e"

definition exts_bytes :: "(u16 \<times> bytes) list \<Rightarrow> bytes" where
  "exts_bytes es = concat (map ext_bytes es)"

definition sni_data :: "bytes \<Rightarrow> bytes" where
  "sni_data host = put16 (of_nat (3 + length host)) @ [0] @ put16 (of_nat (length host)) @ host"

record client_hello =
  ch_record :: bytes
  ch_length :: bytes
  ch_random :: bytes
  ch_session :: bytes
  ch_ciphers :: bytes
  ch_compression :: bytes
  ch_exts :: "(u16 \<times> bytes) list"

definition hello_wf :: "client_hello \<Rightarrow> bool" where
  "hello_wf ch \<longleftrightarrow> length (ch_record ch) = 4 \<and> length (ch_length ch) = 3 \<and>
     length (ch_random ch) = 34 \<and> length (ch_session ch) < 2 ^ 8 \<and> length (ch_ciphers ch) < 2 ^ 16 \<and>
     length (ch_compression ch) < 2 ^ 8 \<and> length (exts_bytes (ch_exts ch)) < 2 ^ 16"

definition hello_bytes :: "client_hello \<Rightarrow> bytes" where
  "hello_bytes ch = [0x16] @ ch_record ch @ [0x01] @ ch_length ch @ ch_random ch
     @ [of_nat (length (ch_session ch))] @ ch_session ch
     @ put16 (of_nat (length (ch_ciphers ch))) @ ch_ciphers ch
     @ [of_nat (length (ch_compression ch))] @ ch_compression ch
     @ put16 (of_nat (length (exts_bytes (ch_exts ch)))) @ exts_bytes (ch_exts ch)"

lemma unat_length16: "n < 2 ^ 16 \<Longrightarrow> unat (of_nat n :: u16) = n"
  by (simp add: unsigned_of_nat take_bit_nat_eq_self)

lemma unat_length8: "n < 2 ^ 8 \<Longrightarrow> unat (of_nat n :: byte) = n"
  by (simp add: unsigned_of_nat take_bit_nat_eq_self)

lemma exts_bytes_Cons [simp]: "exts_bytes (e # es) = ext_bytes e @ exts_bytes es"
  by (simp add: exts_bytes_def)

lemma exts_bytes_Nil [simp]: "exts_bytes [] = []"
  by (simp add: exts_bytes_def)

lemma exts_bytes_append [simp]: "exts_bytes (es @ fs) = exts_bytes es @ exts_bytes fs"
  by (simp add: exts_bytes_def)

lemma length_ext_bytes [simp]: "length (ext_bytes e) = 4 + length (snd e)"
  by (simp add: ext_bytes_def)

text \<open>One turn of the loop on a complete extension.\<close>

lemma sni_loop_step:
  assumes "drop cur b = ext_bytes (t, d) @ rest" "length d < 2 ^ 16" "cur + 4 + length d \<le> fin"
  shows "sni_loop b fin cur =
    (if t = 0 then sni_extension b (cur + 4) (length d) else sni_loop b fin (cur + 4 + length d))"
proof -
  have t: "uint16_at b cur = Ret t"
    by (rule uint16_at_drop) (use assms(1) in \<open>simp add: ext_bytes_def\<close>)
  have "drop (cur + 2) b = put16 (of_nat (length d)) @ d @ rest"
    by (rule drop_step [where xs = "put16 t"]) (use assms(1) in \<open>simp_all add: ext_bytes_def\<close>)
  then have l: "uint16_at b (cur + 2) = Ret (of_nat (length d))" by (rule uint16_at_drop)
  show ?thesis
    using assms(3) unat_length16 [OF assms(2)]
    by (subst sni_loop.simps) (simp add: t l [simplified])
qed

lemma sni_extension_found:
  assumes "drop cur b = sni_data host @ rest" "length host < 2 ^ 16"
  shows "sni_extension b cur (length (sni_data host)) = Ret (cur + 5, cur + 5 + length host)"
proof -
  have "drop (cur + 3) b = put16 (of_nat (length host)) @ host @ rest"
    by (rule drop_step [where xs = "put16 (of_nat (3 + length host)) @ [0]"])
      (use assms(1) in \<open>simp_all add: sni_data_def\<close>)
  then have u: "uint16_at b (cur + 3) = Ret (of_nat (length host))" by (rule uint16_at_drop)
  show ?thesis
    using unat_length16 [OF assms(2)] by (simp add: sni_extension_def sni_data_def u Let_def)
qed

lemma sni_loop_found:
  assumes "drop cur b = exts_bytes (pre @ (0, sni_data host) # post) @ rest"
    and "fin = cur + length (exts_bytes (pre @ (0, sni_data host) # post))"
    and "length (exts_bytes (pre @ (0, sni_data host) # post)) < 2 ^ 16" "\<forall>e\<in>set pre. fst e \<noteq> 0"
  shows "\<exists>s. sni_loop b fin cur = Ret (s, s + length host) \<and> take (length host) (drop s b) = host"
  using assms
proof (induction pre arbitrary: cur)
  case Nil
  have l: "length (sni_data host) < 2 ^ 16" "length host < 2 ^ 16"
    using Nil.prems(3) by (simp_all add: sni_data_def)
  have d: "drop (cur + 4) b = sni_data host @ exts_bytes post @ rest"
    by (rule drop_step [where xs = "put16 0 @ put16 (of_nat (length (sni_data host)))"])
      (use Nil.prems(1) in \<open>simp_all add: ext_bytes_def\<close>)
  have "drop (cur + 4 + 5) b = host @ exts_bytes post @ rest"
    by (rule drop_step [where xs = "put16 (of_nat (3 + length host)) @ [0] @ put16 (of_nat (length host))"])
      (use d in \<open>simp_all add: sni_data_def\<close>)
  moreover have "sni_loop b fin cur = sni_extension b (cur + 4) (length (sni_data host))"
    using sni_loop_step [of cur b 0 "sni_data host" "exts_bytes post @ rest" fin] Nil.prems l by simp
  ultimately show ?case
    using sni_extension_found [OF d l(2)] by (intro exI [of _ "cur + 9"]) (simp add: add.assoc)
next
  case (Cons e pre)
  obtain t d where e: "e = (t, d)" by (cases e)
  have l: "length d < 2 ^ 16" using Cons.prems(3) e by simp
  have dr: "drop (cur + (4 + length d)) b = exts_bytes (pre @ (0, sni_data host) # post) @ rest"
    by (rule drop_step [where xs = "ext_bytes e"]) (use Cons.prems(1) e in simp_all)
  have "sni_loop b fin cur = sni_loop b fin (cur + (4 + length d))"
    using sni_loop_step [of cur b t d "exts_bytes (pre @ (0, sni_data host) # post) @ rest" fin]
      Cons.prems e l by (simp add: add.assoc)
  with Cons.IH [OF dr] Cons.prems e show ?case by simp
qed

text \<open>Without a server name extension the loop runs to its end.\<close>

lemma sni_loop_absent:
  assumes "drop cur b = exts_bytes es @ rest" "fin = cur + length (exts_bytes es)"
    and "length (exts_bytes es) < 2 ^ 16" "\<forall>e\<in>set es. fst e \<noteq> 0"
  shows "sni_loop b fin cur = Fail SNINotFound"
  using assms
proof (induction es arbitrary: cur)
  case Nil
  then show ?case by (subst sni_loop.simps) simp
next
  case (Cons e es)
  obtain t d where e: "e = (t, d)" by (cases e)
  have dr: "drop (cur + (4 + length d)) b = exts_bytes es @ rest"
    by (rule drop_step [where xs = "ext_bytes e"]) (use Cons.prems(1) e in simp_all)
  have "sni_loop b fin cur = sni_loop b fin (cur + (4 + length d))"
    using sni_loop_step [of cur b t d "exts_bytes es @ rest" fin] Cons.prems e
    by (simp add: add.assoc)
  with Cons.IH [OF dr] Cons.prems e show ?case by simp
qed

text \<open>The parser reaches the extensions of an encoded hello.\<close>

lemma ExtractSNIOffset_reaches:
  assumes "hello_wf ch"
  shows "\<exists>cur. drop cur (hello_bytes ch @ rest) = exts_bytes (ch_exts ch) @ rest \<and>
    ExtractSNIOffset (hello_bytes ch @ rest) =
      sni_loop (hello_bytes ch @ rest) (cur + length (exts_bytes (ch_exts ch))) cur"
proof -
  let ?b = "hello_bytes ch @ rest" and ?es = "exts_bytes (ch_exts ch)"
  let ?s = "ch_session ch" and ?cs = "ch_ciphers ch" and ?cm = "ch_compression ch"
  note wf = assms [unfolded hello_wf_def]
  let ?head = "[0x16] @ ch_record ch @ [0x01] @ ch_length ch @ ch_random ch"
  let ?r3 = "[of_nat (length ?cm)] @ ?cm @ put16 (of_nat (length ?es)) @ ?es @ rest"
  let ?r2 = "put16 (of_nat (length ?cs)) @ ?cs @ ?r3"
  let ?r1 = "of_nat (length ?s) # ?s @ ?r2"
  have b: "?b = ?head @ ?r1" by (simp add: hello_bytes_def)
  have head: "length ?head = 43" using wf by simp
  have d1: "drop 43 ?b = ?r1" using head b by (metis append_eq_conv_conj)
  define c1 where "c1 = 43 + (1 + length ?s)"
  have d2: "drop c1 ?b = ?r2" unfolding c1_def
    by (rule drop_step [where xs = "of_nat (length ?s) # ?s"]) (use d1 in simp_all)
  define c2 where "c2 = c1 + (2 + length ?cs)"
  have d3: "drop c2 ?b = ?r3" unfolding c2_def
    by (rule drop_step [where xs = "put16 (of_nat (length ?cs)) @ ?cs"]) (use d2 in simp_all)
  define c3 where "c3 = c2 + (1 + length ?cm)"
  have d4: "drop c3 ?b = put16 (of_nat (length ?es)) @ ?es @ rest" unfolding c3_def
    by (rule drop_step [where xs = "[of_nat (length ?cm)] @ ?cm"]) (use d3 in simp_all)
  have d5: "drop (c3 + 2) ?b = ?es @ rest"
    by (rule drop_step [where xs = "put16 (of_nat (length ?es))"]) (use d4 in simp_all)
  have "length ?b - c3 = 2 + (length ?es + length rest)" using arg_cong [OF d4, of length] by simp
  then have len: "length ?b = c3 + 2 + length ?es + length rest" by linarith
  have i0: "index ?b 0 = Ret 0x16" by (rule index_drop) (simp add: hello_bytes_def)
  have "drop 5 ?b = 0x01 # ch_length ch @ ch_random ch @ ?r1"
    using wf by (simp add: b)
  then have i5: "index ?b 5 = Ret 0x01" by (rule index_drop)
  note i43 = index_drop [OF d1] and u1 = uint16_at_drop [OF d2]
    and i3 = index_drop [OF d3 [unfolded append.simps]] and u2 = uint16_at_drop [OF d4]
  have f: "43 + (1 + unat (of_nat (length ?s) :: byte)) = c1"
    "c1 + (2 + unat (of_nat (length ?cs) :: u16)) = c2"
    "c2 + (1 + unat (of_nat (length ?cm) :: byte)) = c3"
    "unat (of_nat (length ?es) :: u16) = length ?es"
    using wf unat_length8 unat_length16 by (simp_all add: c1_def c2_def c3_def)
  have g: "(length ?b < 43) = False" "(43 \<ge> length ?b) = False" "(c1 \<ge> length ?b) = False"
    "(c1 + 2 > length ?b) = False" "(c2 \<ge> length ?b) = False" "(c2 + 1 > length ?b) = False"
    "(c3 \<ge> length ?b) = False" "(c3 + 2 > length ?b) = False"
    "(c3 + 2 + length ?es > length ?b) = False"
    using len by (simp_all add: c1_def c2_def c3_def)
  have "ExtractSNIOffset ?b = sni_loop ?b (c3 + 2 + length ?es) (c3 + 2)"
    unfolding ExtractSNIOffset_def Let_def
    by (simp only: i0 i5 i43 f g u1 i3 u2 obind.simps if_False simp_thms)
  with d5 show ?thesis by blast
qed

section \<open>Properties\<close>

text \<open>\<open>ExtractSNIOffset\<close> never panics, whatever bytes it is given, and the offsets it returns
  delimit a part of the buffer behind the fixed-size head of the hello.\<close>

theorem sni_extract_safe:
  "case ExtractSNIOffset b of Panic \<Rightarrow> False | Fail _ \<Rightarrow> True
   | Ret (s, e) \<Rightarrow> 43 \<le> s \<and> s \<le> e \<and> e \<le> length b"
  using ExtractSNIOffset_safe [of b] by (simp add: sni_safe_def)

text \<open>C4: on every well-formed client hello, followed by anything, the offsets delimit exactly the
  host name of the first server name extension, and a hello without that extension is reported as
  such.\<close>

theorem sni_extract_correct:
  assumes "hello_wf ch"
  shows "(\<forall>pre host post. ch_exts ch = pre @ (0, sni_data host) # post \<and> (\<forall>e\<in>set pre. fst e \<noteq> 0) \<longrightarrow>
      (\<exists>s. ExtractSNIOffset (hello_bytes ch @ rest) = Ret (s, s + length host) \<and>
        take (length host) (drop s (hello_bytes ch @ rest)) = host)) \<and>
    ((\<forall>e\<in>set (ch_exts ch). fst e \<noteq> 0) \<longrightarrow> ExtractSNIOffset (hello_bytes ch @ rest) = Fail SNINotFound)"
proof -
  let ?b = "hello_bytes ch @ rest" and ?n = "length (exts_bytes (ch_exts ch))"
  obtain cur where cur: "drop cur ?b = exts_bytes (ch_exts ch) @ rest"
    "ExtractSNIOffset ?b = sni_loop ?b (cur + ?n) cur"
    using ExtractSNIOffset_reaches [OF assms] by blast
  have n: "?n < 2 ^ 16" using assms by (simp add: hello_wf_def)
  show ?thesis
  proof (intro conjI allI impI)
    fix pre host post
    assume a: "ch_exts ch = pre @ (0, sni_data host) # post \<and> (\<forall>e\<in>set pre. fst e \<noteq> 0)"
    then show "\<exists>s. ExtractSNIOffset ?b = Ret (s, s + length host) \<and> take (length host) (drop s ?b) = host"
      unfolding cur(2) using sni_loop_found [of cur ?b pre host post rest] cur(1) n by simp
  next
    assume "\<forall>e\<in>set (ch_exts ch). fst e \<noteq> 0"
    then show "ExtractSNIOffset ?b = Fail SNINotFound"
      unfolding cur(2) using sni_loop_absent [OF cur(1) refl n] by simp
  qed
qed

theorem sni_extract_correct_witness:
  "\<exists>ch s. hello_wf ch \<and> ch_exts ch = [(10, [1]), (0, sni_data [97, 46, 98])] \<and>
     ExtractSNIOffset (hello_bytes ch @ [0]) = Ret (s, s + 3)"
proof -
  let ?ch = "\<lparr>ch_record = replicate 4 0, ch_length = replicate 3 0, ch_random = replicate 34 0,
    ch_session = [], ch_ciphers = [0, 1], ch_compression = [0],
    ch_exts = [(10, [1])] @ (0, sni_data [97, 46, 98]) # []\<rparr>"
  have "hello_wf ?ch" by (simp add: hello_wf_def sni_data_def)
  from conjunct1 [OF sni_extract_correct [OF this, of "[0]"], rule_format, of "[(10, [1])]" "[97, 46, 98]" "[]"]
  obtain s where "ExtractSNIOffset (hello_bytes ?ch @ [0]) = Ret (s, s + length [97::byte, 46, 98])"
    by auto
  with \<open>hello_wf ?ch\<close> show ?thesis by (intro exI [of _ ?ch] exI [of _ s]) simp
qed

text \<open>\<open>ReadTLSMessage\<close> succeeds exactly when the stream starts with a record whose header
  announces at most 16384 bytes that are all there. It then consumes exactly that record and the
  message holds it unchanged.\<close>

theorem read_tls_message_iff:
  "ReadTLSMessage r = Inr (m, rest) \<longleftrightarrow>
     kind m = ''real'' \<and> r = raw m @ rest \<and> raw m = rawHeader m @ rawPayload m \<and>
     rawHeader m = TLSHeader_Bytes (header m) \<and> length (rawPayload m) = unat (PayloadLen (header m)) \<and>
     unat (PayloadLen (header m)) \<le> 16384"
proof -
  have max: "PayloadLen h \<le> TLSMaxPayloadLen \<longleftrightarrow> unat (PayloadLen h) \<le> 16384" for h :: TLSHeader
    by (simp add: TLSMaxPayloadLen_def word_le_nat_alt)
  have add: "unat (w + of_nat TLSHeaderLen) - TLSHeaderLen = unat w" if "unat w \<le> 16384" for w :: u16
  proof -
    have "unat (w + 5) = unat w + 5" using that by (subst unat_add_lem [THEN iffD1]) simp_all
    then show ?thesis by (simp add: TLSHeaderLen_def)
  qed
  show ?thesis
  proof
    assume a: "ReadTLSMessage r = Inr (m, rest)"
    then obtain r0 r1 r2 r3 r4 r' where r: "r = r0 # r1 # r2 # r3 # r4 # r'"
      by (auto simp: ReadTLSMessage_def ReadFull_def TLSHeaderLen_def Suc_le_length_iff
          numeral_eq_Suc split: if_splits)
    let ?h = "\<lparr>hType = r0, ProtoVersion = be16 r1 r2, PayloadLen = be16 r3 r4\<rparr>"
    have le: "unat (PayloadLen ?h) \<le> 16384"
      using a max [of ?h] by (simp add: ReadTLSMessage_def ReadFull_def TLSHeaderLen_def r Let_def
          not_less [symmetric] split: if_splits)
    with a add [OF le] max [of ?h] show "kind m = ''real'' \<and> r = raw m @ rest \<and> raw m = rawHeader m @ rawPayload m \<and>
     rawHeader m = TLSHeader_Bytes (header m) \<and> length (rawPayload m) = unat (PayloadLen (header m)) \<and>
     unat (PayloadLen (header m)) \<le> 16384"
      by (auto simp: ReadTLSMessage_def ReadFull_def TLSHeaderLen_def r Let_def TLSHeader_Bytes_def
          not_less split: if_splits)
  next
    assume a: "kind m = ''real'' \<and> r = raw m @ rest \<and> raw m = rawHeader m @ rawPayload m \<and>
     rawHeader m = TLSHeader_Bytes (header m) \<and> length (rawPayload m) = unat (PayloadLen (header m)) \<and>
     unat (PayloadLen (header m)) \<le> 16384"
    obtain h p where m: "m = \<lparr>kind = ''real'', header = h, raw = TLSHeader_Bytes h @ p,
        rawHeader = TLSHeader_Bytes h, rawPayload = p\<rparr>"
      using a by (cases m) auto
    have "ReadFull TLSHeaderLen r = Inr (TLSHeader_Bytes h, p @ rest)"
      using a m ReadFull_append [of TLSHeaderLen "TLSHeader_Bytes h" "p @ rest"]
      by (simp add: TLSHeaderLen_def TLSHeader_Bytes_def)
    moreover have "ReadFull (unat (PayloadLen h)) (p @ rest) = Inr (p, rest)" using a m by simp
    moreover have "\<not> PayloadLen h > TLSMaxPayloadLen" using a m max [of h] by simp
    ultimately show "ReadTLSMessage r = Inr (m, rest)"
      using add [of "PayloadLen h"] a m
      by (simp add: ReadTLSMessage_def Let_def) (simp add: TLSHeader_Bytes_def put16_def)
  qed
qed

end
