(* ===== verification/Config_Types.thy ===== *)
theory Config_Types
  imports Tls_Message Go_Net
begin

text \<open>
  \<open>pkg/spoofdpi/internal/config/types.go\<close>: the option types the other components read. The Go
  enumerations are datatypes; their names in configuration files are the \<open>available...Values\<close>
  tables, in the order of the constants.
\<close>

section \<open>Enumerations\<close>

datatype AppModeType = AppModeHTTP | AppModeSOCKS5 | AppModeTUN

datatype DNSModeType = DNSModeUDP | DNSModeHTTPS | DNSModeSystem

datatype DNSQueryType = DNSQueryIPv4 | DNSQueryIPv6 | DNSQueryAll

datatype HTTPSSplitModeType =
    HTTPSSplitModeSNI | HTTPSSplitModeRandom | HTTPSSplitModeChunk
  | HTTPSSplitModeFirstByte | HTTPSSplitModeCustom | HTTPSSplitModeNone

datatype SegmentFromType = SegmentFromHead | SegmentFromSNI

definition availableAppModeValues :: "string list" where
  "availableAppModeValues = [''http'', ''socks5'', ''tun'']"

definition availableDNSModeValues :: "string list" where
  "availableDNSModeValues = [''udp'', ''https'', ''system'']"

definition availableDNSQueryValues :: "string list" where
  "availableDNSQueryValues = [''ipv4'', ''ipv6'', ''all'']"

definition availableHTTPSModeValues :: "string list" where
  "availableHTTPSModeValues = [''sni'', ''random'', ''chunk'', ''first-byte'', ''custom'', ''none'']"

definition availableSegmentFromValues :: "string list" where
  "availableSegmentFromValues = [''head'', ''sni'']"

definition availableLogLevelValues :: "string list" where
  "availableLogLevelValues = [''info'', ''warn'', ''trace'', ''error'', ''debug'', ''disabled'']"

text \<open>\<open>String\<close> of each enumeration: the table entry at the constant's number.\<close>

definition AppMode_String :: "AppModeType \<Rightarrow> string" where
  "AppMode_String t = availableAppModeValues ! (case t of AppModeHTTP \<Rightarrow> 0 | AppModeSOCKS5 \<Rightarrow> 1 | AppModeTUN \<Rightarrow> 2)"

definition DNSMode_String :: "DNSModeType \<Rightarrow> string" where
  "DNSMode_String t = availableDNSModeValues ! (case t of DNSModeUDP \<Rightarrow> 0 | DNSModeHTTPS \<Rightarrow> 1 | DNSModeSystem \<Rightarrow> 2)"

definition DNSQuery_String :: "DNSQueryType \<Rightarrow> string" where
  "DNSQuery_String t = availableDNSQueryValues ! (case t of DNSQueryIPv4 \<Rightarrow> 0 | DNSQueryIPv6 \<Rightarrow> 1 | DNSQueryAll \<Rightarrow> 2)"

definition SplitMode_String :: "HTTPSSplitModeType \<Rightarrow> string" where
  "SplitMode_String k = availableHTTPSModeValues !
     (case k of HTTPSSplitModeSNI \<Rightarrow> 0 | HTTPSSplitModeRandom \<Rightarrow> 1 | HTTPSSplitModeChunk \<Rightarrow> 2
      | HTTPSSplitModeFirstByte \<Rightarrow> 3 | HTTPSSplitModeCustom \<Rightarrow> 4 | HTTPSSplitModeNone \<Rightarrow> 5)"

definition SegmentFrom_String :: "SegmentFromType \<Rightarrow> string" where
  "SegmentFrom_String s = availableSegmentFromValues ! (case s of SegmentFromHead \<Rightarrow> 0 | SegmentFromSNI \<Rightarrow> 1)"

section \<open>Option records\<close>

record SegmentPlan =
  From :: SegmentFromType
  At :: int
  plan_Lazy :: bool
  Noise :: int

record HTTPSOptions =
  Disorder :: bool
  https_FakeCount :: byte
  https_FakePacket :: "TLSMessage option"
  SplitMode :: HTTPSSplitModeType
  ChunkSize :: byte
  https_Skip :: bool
  CustomSegmentPlans :: "SegmentPlan list"

record UDPOptions =
  udp_Skip :: bool
  udp_FakeCount :: byte
  udp_FakePacket :: bytes

record TCPAddr =
  tcp_IP :: "net_IP option"
  tcp_Port :: int

text \<open>Durations are nanoseconds; a \<open>zerolog.Level\<close> is a number.\<close>

record AppOptions =
  NoTUI :: bool
  LogLevel :: int
  Silent :: bool
  AutoConfigureNetwork :: bool
  app_Mode :: AppModeType
  ListenAddr :: TCPAddr
  FreebsdFIB :: int

record ConnOptions =
  DefaultFakeTTL :: byte
  DNSTimeout :: int
  TCPTimeout :: int
  UDPIdleTimeout :: int

record DNSOptions =
  dns_Mode :: DNSModeType
  dns_Addr :: TCPAddr
  HTTPSURL :: string
  QType :: DNSQueryType
  dns_Cache :: bool

record RuntimeConfig =
  cfg_Conn :: ConnOptions
  cfg_DNS :: DNSOptions
  cfg_HTTPS :: HTTPSOptions
  cfg_UDP :: UDPOptions

record MatchAttrs =
  Domains :: "string list"
  CIDRs :: "string list"

record Rule =
  rule_Name :: string
  Priority :: u16
  Block :: bool
  Match :: "MatchAttrs option"
  rule_Config :: RuntimeConfig

record StartupConfig =
  App :: AppOptions
  Rules :: "Rule list"

record Config =
  Startup :: StartupConfig
  Runtime :: RuntimeConfig

section \<open>The default fake packet\<close>

definition FakeClientHello :: bytes where
  "FakeClientHello = [
     0x16, 0x03, 0x01, 0x02, 0x00, 0x01, 0x00, 0x01, 0xfc, 0x03, 0x03, 0x9a, 0x8f, 0xa7,
     0x6a, 0x5d, 0x57, 0xf3, 0x62, 0x19, 0xbe, 0x46, 0x82, 0x45, 0xe2, 0x59, 0x5c, 0xb4,
     0x48, 0x31, 0x12, 0x15, 0x14, 0x79, 0x2c, 0xaa, 0xcd, 0xea, 0xda, 0xf0, 0xe1, 0xfd,
     0xbb, 0x20, 0xf4, 0x83, 0x2a, 0x94, 0xf1, 0x48, 0x3b, 0x9d, 0xb6, 0x74, 0xba, 0x3c,
     0x81, 0x63, 0xbc, 0x18, 0xcc, 0x14, 0x45, 0x57, 0x6c, 0x80, 0xf9, 0x25, 0xcf, 0x9c,
     0x86, 0x60, 0x50, 0x31, 0x2e, 0xe9, 0x00, 0x22, 0x13, 0x01, 0x13, 0x03, 0x13, 0x02,
     0xc0, 0x2b, 0xc0, 0x2f, 0xcc, 0xa9, 0xcc, 0xa8, 0xc0, 0x2c, 0xc0, 0x30, 0xc0, 0x0a,
     0xc0, 0x09, 0xc0, 0x13, 0xc0, 0x14, 0x00, 0x9c, 0x00, 0x9d, 0x00, 0x2f, 0x00, 0x35,
     0x01, 0x00, 0x01, 0x91, 0x00, 0x00, 0x00, 0x14, 0x00, 0x12, 0x00, 0x00, 0x0f, 0x77,
     0x77, 0x77, 0x2e, 0x67, 0x6f, 0x6f, 0x67, 0x6c, 0x65, 0x2e, 0x63, 0x6f, 0x6d, 0x00,
     0x17, 0x00, 0x00, 0xff, 0x01, 0x00, 0x01, 0x00, 0x00, 0x0a, 0x00, 0x0e, 0x00, 0x0c,
     0x00, 0x1d, 0x00, 0x17, 0x00, 0x18, 0x00, 0x19, 0x01, 0x00, 0x01, 0x01, 0x00, 0x0b,
     0x00, 0x02, 0x01, 0x00, 0x00, 0x23, 0x00, 0x00, 0x00, 0x10, 0x00, 0x0e, 0x00, 0x0c,
     0x02, 0x68, 0x32, 0x08, 0x68, 0x74, 0x74, 0x70, 0x2f, 0x31, 0x2e, 0x31, 0x00, 0x05,
     0x00, 0x05, 0x01, 0x00, 0x00, 0x00, 0x00, 0x00, 0x0d, 0x00, 0x18, 0x00, 0x16, 0x04,
     0x03, 0x05, 0x03, 0x06, 0x03, 0x08, 0x04, 0x08, 0x05, 0x08, 0x06, 0x04, 0x01, 0x05,
     0x01, 0x06, 0x01, 0x02, 0x03, 0x02, 0x01, 0x00, 0x12, 0x00, 0x00, 0x00, 0x33, 0x00,
     0x6b, 0x00, 0x69, 0x00, 0x1d, 0x00, 0x20, 0x67, 0xb1, 0x88, 0x18, 0x47, 0x6e, 0xc3,
     0xc1, 0x83, 0x73, 0xb1, 0xa9, 0x80, 0x42, 0x36, 0xb6, 0xe1, 0x66, 0x6e, 0xb6, 0x6c,
     0x32, 0x9b, 0xc3, 0xf3, 0x18, 0x29, 0x7c, 0xff, 0xc1, 0x77, 0x7c, 0x00, 0x17, 0x00,
     0x41, 0x04, 0xa6, 0xb6, 0xb1, 0xb1, 0xc6, 0x4d, 0xb1, 0x86, 0xa1, 0x8a, 0x80, 0x4d,
     0xa6, 0x35, 0x57, 0xa1, 0xc4, 0x88, 0x9a, 0x9c, 0xa9, 0x6d, 0x6e, 0x67, 0xa6, 0x47,
     0x59, 0xc6, 0x82, 0x10, 0x06, 0xc9, 0x9b, 0x12, 0x91, 0x6c, 0xa1, 0xc4, 0x8d, 0xb1,
     0xc6, 0x95, 0xa9, 0xc7, 0x9c, 0x06, 0xa1, 0xa3, 0x83, 0xb6, 0x59, 0xa6, 0x40, 0x73,
     0x83, 0xc6, 0x95, 0x59, 0xa9, 0xb1, 0x18, 0xc1, 0x6d, 0x9b, 0xa6, 0x49, 0x9c, 0x47,
     0x16, 0xc1, 0xa6, 0x59, 0xa9, 0x18, 0xc7, 0x9c, 0x18, 0x4d, 0xa6, 0x9b, 0x4d, 0x6d,
     0x57, 0x16, 0x16, 0x95, 0xa6, 0xc7, 0x96, 0x67, 0x96, 0x16, 0x69, 0x82, 0x95, 0x91,
     0x83, 0x49, 0xc7, 0x06, 0x82, 0x6c, 0xb6, 0x6c, 0x96, 0xa3, 0xc1, 0xb1, 0xc1, 0x86,
     0x16, 0xa3, 0xc1, 0xb1, 0xc4, 0x95, 0xa6, 0x67, 0xb1, 0x86, 0xa3, 0xc1, 0xa6, 0x16,
     0xa6, 0xc4, 0x06, 0x6e, 0x6d, 0x99, 0x47, 0x6c, 0xa1, 0x82, 0x06, 0xc4, 0x18, 0xa6,
     0xc4, 0x69, 0xa3, 0x9b, 0xa3, 0x40, 0x6e, 0xa9, 0xb1, 0xa6, 0x95, 0x73, 0xc1, 0x88,
     0x06, 0x95, 0x4d, 0xa9, 0x40, 0x4d, 0x67, 0x88, 0x96, 0xa6, 0x67, 0x18, 0x06, 0x69,
     0x99, 0xa3, 0x88, 0x88, 0xa9, 0x6e, 0xa1, 0x99, 0x06, 0x95, 0x06, 0xa9, 0x83, 0x4d,
     0x16, 0x73, 0x47, 0x88, 0x67, 0xa6, 0x6c, 0xa6, 0x18, 0xc1, 0xa6, 0x95, 0x59, 0xa3,
     0x9b, 0x96, 0xa3, 0x73, 0xb6, 0x06, 0xa1, 0x18, 0x6e, 0x67, 0x67, 0xa1, 0x91, 0x4d,
     0xa6, 0x59, 0x9c, 0x82, 0x86, 0x95, 0x16, 0xa3, 0x47, 0x95, 0x18, 0x96, 0x95, 0x06,
     0xa6, 0xc7, 0x47, 0xc7, 0x82, 0x47, 0x9b, 0x18, 0x73, 0x9b, 0x18, 0x91, 0x99, 0x18,
     0x9c, 0xa6, 0x9c, 0xa9, 0x67, 0xc7, 0x96, 0x18, 0x06, 0xc4, 0x9c, 0xc4, 0x83, 0x47,
     0x18, 0x59, 0x96, 0x47, 0x91, 0xa1, 0x47, 0x06, 0xb6, 0x69, 0x6c, 0x99, 0x4d, 0x69,
     0xa1, 0x59, 0x18, 0xc1, 0x47, 0x6c, 0x6e, 0x91, 0x9b, 0x6e, 0x67, 0xa6, 0x91, 0xa3,
     0xc4, 0x47, 0xb1, 0x47, 0xa3, 0x95, 0x49, 0x73, 0x95, 0x88, 0x18, 0x59, 0x82, 0xc7,
     0xa9, 0x99, 0xc6, 0x99, 0xa3, 0x88, 0x6c, 0x67, 0x6c, 0xa6, 0xa6, 0xb1, 0xc7, 0x67,
     0x59, 0x99, 0x06, 0x4d, 0xa3, 0x95, 0x49, 0xc4, 0x69, 0x6e, 0x4d, 0x96, 0x47, 0x4d,
     0xa1, 0xa1, 0xa1, 0x99, 0xa9, 0xb1, 0x82, 0xa9, 0x16, 0x40, 0x95, 0x95, 0x82, 0x82,
     0x91, 0x47, 0xa6, 0x40, 0x91, 0x91, 0x99, 0xa9, 0x06, 0xa9, 0x88, 0x9c, 0xa9, 0xa9,
     0x18, 0x47, 0x6e, 0x9b, 0x9b, 0xa3, 0xa9, 0xc7, 0x6e, 0xa3, 0xa3, 0xc7, 0xb1, 0x47,
     0x4d, 0x83, 0xa9, 0xc4, 0x49, 0x4d, 0x9c, 0x91, 0xa9, 0x47, 0xb6, 0xa9, 0x4d, 0x47]"

text \<open>The server name field of the built-in fake client hello is one byte longer than the name
  it means to carry: the parser reads \<open>www.google.com\<close> followed by a NUL byte, which belongs to the
  next extension. The record header announces 512 bytes of payload, the constant holds 653.\<close>

theorem fake_hello_server_name:
  "ExtractSNIOffset FakeClientHello = Ret (125, 140) \<and>
   take 15 (drop 125 FakeClientHello) = map of_char ''www.google.com'' @ [0] \<and>
   uint16_at FakeClientHello 3 = (Ret 512 :: (unit, u16) outcome) \<and> length FakeClientHello = 5 + 653"
proof (intro conjI)
  show "ExtractSNIOffset FakeClientHello = Ret (125, 140)" by code_simp
  show "take 15 (drop 125 FakeClientHello) = map of_char ''www.google.com'' @ [0]" by code_simp
  show "uint16_at FakeClientHello 3 = (Ret 512 :: (unit, u16) outcome)" by code_simp
  show "length FakeClientHello = 5 + 653" by (simp add: FakeClientHello_def)
qed

end
