(* ===== verification/Config_Parse.thy ===== *)
theory Config_Parse
  imports Config_Types
begin

text \<open>
  \<open>pkg/spoofdpi/internal/config/parse.go\<close>, \<open>validate.go\<close> and the lookups of \<open>toml.go\<close>: what a decoded TOML table
  may hold, the checks on single values, the \<open>MustParse\<close> conversions, which panic on text a check
  refuses, and the \<open>find\<close> functions, which do nothing once an error was recorded.
\<close>

section \<open>Decoded TOML\<close>

text \<open>
  The dynamic types of a Go \<open>any\<close> that the code tells apart: \<open>[]any\<close>, \<open>[]map[string]any\<close>, the typed slices
  \<open>[]string\<close> and \<open>[]byte\<close>, \<open>map[string]any\<close>; \<open>TOther\<close> stands for floats and dates.
\<close>

datatype toml =
    TStr string
  | TInt int
  | TBool bool
  | TList "toml list"
  | TTables "(string \<times> toml) list list"
  | TTable "(string \<times> toml) list"
  | TStrings "string list"
  | TBytes bytes
  | TOther

type_synonym toml_table = "(string \<times> toml) list"

datatype cfg_error =
    ExpectedInt | ExpectedString | ExpectedBool | ExpectedByte | ByteRange int
  | OutOfRange int int int
  | NotOneOf string "string list"
  | InvalidDomainPattern
  | HostPortError
  | InvalidIPFormat
  | PortSyntax
  | WrongCIDR string
  | NotHTTPS
  | InvalidByteArray
  | Field string cfg_error
  | FieldItem string nat cfg_error
  | DecodeError string cfg_error
  | DecodeItem string nat cfg_error
  | NotAList string
  | NonTable string
  | FieldRequired string
  | CustomSegmentsMissing
  | InvalidEntry string cfg_error
  | MatchEmpty
  | RuleNoMatch
  | RuleError nat string cfg_error
  | FileError string

section \<open>Checks\<close>

type_synonym 'a check = "'a \<Rightarrow> cfg_error option"

definition checkOneOf :: "string list \<Rightarrow> string check" where
  "checkOneOf allowed v = (if v \<in> set allowed then None else Some (NotOneOf v allowed))"

definition int64Range :: "int \<Rightarrow> int \<Rightarrow> int check" where
  "int64Range mini maxi v = (if v < mini \<or> v > maxi then Some (OutOfRange v mini maxi) else None)"

definition checkUint8 :: "int check" where "checkUint8 = int64Range 0 255"
definition checkUint16 :: "int check" where "checkUint16 = int64Range 0 65535"
definition checkUint8NonZero :: "int check" where "checkUint8NonZero = int64Range 1 255"
definition checkFreeBSDFibID :: "int check" where "checkFreeBSDFibID = int64Range 1 15"
definition checkAppMode :: "string check" where "checkAppMode = checkOneOf availableAppModeValues"
definition checkDNSMode :: "string check" where "checkDNSMode = checkOneOf availableDNSModeValues"
definition checkDNSQueryType :: "string check" where "checkDNSQueryType = checkOneOf availableDNSQueryValues"
definition checkHTTPSSplitMode :: "string check" where "checkHTTPSSplitMode = checkOneOf availableHTTPSModeValues"
definition checkLogLevel :: "string check" where "checkLogLevel = checkOneOf availableLogLevelValues"
definition checkSegmentFrom :: "string check" where "checkSegmentFrom = checkOneOf availableSegmentFromValues"

definition is_alnum :: "char \<Rightarrow> bool" where
  "is_alnum c =
     (let n = (of_char c :: nat) in 48 \<le> n \<and> n \<le> 57 \<or> 65 \<le> n \<and> n \<le> 90 \<or> 97 \<le> n \<and> n \<le> 122)"

text \<open>One segment of the regular expression: a label with alphanumeric ends, \<open>*\<close> or \<open>**\<close>.\<close>

definition domain_segment :: "string \<Rightarrow> bool" where
  "domain_segment s =
     (s = ''*'' \<or> s = ''**'' \<or>
      s \<noteq> [] \<and> is_alnum (hd s) \<and> is_alnum (last s) \<and> list_all (\<lambda>c. is_alnum c \<or> c = CHR ''-'') s)"

definition checkDomainPattern :: "string check" where
  "checkDomainPattern v =
     (if list_all domain_segment (split_char (CHR ''.'') v) then None else Some InvalidDomainPattern)"

definition checkHostPort :: "string check" where
  "checkHostPort v =
     (case SplitHostPort v of
        None \<Rightarrow> Some HostPortError
      | Some (host, port) \<Rightarrow>
          (case ParseIP host of
             None \<Rightarrow> Some InvalidIPFormat
           | Some ip \<Rightarrow> (case Atoi port of None \<Rightarrow> Some PortSyntax | Some portInt \<Rightarrow> checkUint16 portInt)))"

definition checkCIDR :: "string check" where
  "checkCIDR v = (case ParseCIDR v of None \<Rightarrow> Some (WrongCIDR v) | Some _ \<Rightarrow> None)"

definition checkHTTPSEndpoint :: "string check" where
  "checkHTTPSEndpoint v =
     (if v \<noteq> [] \<and> \<not> (has_prefix v ''http://'' \<or> has_prefix v ''https://'') then Some NotHTTPS else None)"

text \<open>A part of \<open>\s*0x[0-9a-fA-F]{2}\s*\<close>; \<open>\s\<close> is tab, newline, form feed, return and space.\<close>

definition is_re_space :: "char \<Rightarrow> bool" where
  "is_re_space c = ((of_char c :: nat) \<in> {9, 10, 12, 13, 32})"

definition hex_part :: "string \<Rightarrow> bool" where
  "hex_part s =
     (let t = rev (dropWhile is_re_space (rev (dropWhile is_re_space s))) in
      length t = 4 \<and> take 2 t = ''0x'' \<and> hex_val (t ! 2) \<noteq> None \<and> hex_val (t ! 3) \<noteq> None)"

definition checkHexBytesStr :: "string check" where
  "checkHexBytesStr s =
     (let trimmed = TrimSpace s in
      if trimmed = [] then None
      else if list_all hex_part (split_char (CHR '','') trimmed) then None
      else Some InvalidByteArray)"

definition checkMatchAttrs :: "MatchAttrs check" where
  "checkMatchAttrs m = (if Domains m = [] \<and> CIDRs m = [] then Some MatchEmpty else None)"

definition checkRule :: "Rule check" where
  "checkRule r = (if Match r = None then Some RuleNoMatch else None)"

fun validate_rules :: "nat \<Rightarrow> Rule list \<Rightarrow> cfg_error option" where
  "validate_rules i [] = None"
| "validate_rules i (r # rs) =
     (case checkRule r of Some e \<Rightarrow> Some (RuleError i ''rules'' e) | None \<Rightarrow> validate_rules (i + 1) rs)"

definition Validate :: "Config \<Rightarrow> cfg_error option" where
  "Validate c = validate_rules 0 (Rules (Startup c))"

section \<open>Conversions\<close>

definition MustParseHexCSV :: "bytes \<Rightarrow> string" where
  "MustParseHexCSV data =
     (if data = [] then []
      else concat (map (\<lambda>(i, b). (if i > 0 then '', '' else []) @ ''0x'' @ hex_byte b) (enumerate 0 data)))"

text \<open>
  \<open>strconv.ParseUint(part, 0, 8)\<close> on \<open>0x\<close> and hexadecimal digits, the only form that passes the check
  before; the error is ignored, so any other text counts as 0.
\<close>

definition parse_hex_part :: "string \<Rightarrow> byte" where
  "parse_hex_part s =
     (let d = drop 2 s; n = foldl (\<lambda>a c. 16 * a + the (hex_val c)) 0 d in
      if has_prefix s ''0x'' \<and> d \<noteq> [] \<and> list_all (\<lambda>c. hex_val c \<noteq> None) d
      then if n > 255 then 255 else of_nat n
      else 0)"

definition MustParseBytes :: "string \<Rightarrow> (unit, bytes) outcome" where
  "MustParseBytes s =
     (if checkHexBytesStr s \<noteq> None then Panic
      else Ret (map parse_hex_part (filter (\<lambda>t. t \<noteq> []) (map TrimSpace (split_char (CHR '','') s)))))"

definition MustParseTCPAddr :: "string \<Rightarrow> (unit, TCPAddr) outcome" where
  "MustParseTCPAddr s =
     (case SplitHostPort s of
        None \<Rightarrow> Panic
      | Some (host, port) \<Rightarrow>
          (case Atoi port of
             None \<Rightarrow> Panic
           | Some p \<Rightarrow> Ret \<lparr>tcp_IP = ParseIP host, tcp_Port = p\<rparr>))"

definition MustParseLogLevel :: "(string \<Rightarrow> int option) \<Rightarrow> string \<Rightarrow> (unit, int) outcome" where
  "MustParseLogLevel ParseLevel s = (case ParseLevel s of None \<Rightarrow> Panic | Some level \<Rightarrow> Ret level)"

definition MustParseServerModeType :: "string \<Rightarrow> (unit, AppModeType) outcome" where
  "MustParseServerModeType s =
     (if s = ''http'' then Ret AppModeHTTP
      else if s = ''socks5'' then Ret AppModeSOCKS5
      else if s = ''tun'' then Ret AppModeTUN
      else Panic)"

definition MustParseDNSModeType :: "string \<Rightarrow> (unit, DNSModeType) outcome" where
  "MustParseDNSModeType s =
     (if s = ''udp'' then Ret DNSModeUDP
      else if s = ''system'' then Ret DNSModeSystem
      else if s = ''https'' then Ret DNSModeHTTPS
      else Panic)"

definition MustParseDNSQueryType :: "string \<Rightarrow> (unit, DNSQueryType) outcome" where
  "MustParseDNSQueryType s =
     (if s = ''ipv4'' then Ret DNSQueryIPv4
      else if s = ''ipv6'' then Ret DNSQueryIPv6
      else if s = ''all'' then Ret DNSQueryAll
      else Panic)"

definition mustParseHTTPSSplitModeType :: "string \<Rightarrow> (unit, HTTPSSplitModeType) outcome" where
  "mustParseHTTPSSplitModeType s =
     (if s = ''sni'' then Ret HTTPSSplitModeSNI
      else if s = ''random'' then Ret HTTPSSplitModeRandom
      else if s = ''chunk'' then Ret HTTPSSplitModeChunk
      else if s = ''first-byte'' then Ret HTTPSSplitModeFirstByte
      else if s = ''none'' then Ret HTTPSSplitModeNone
      else if s = ''custom'' then Ret HTTPSSplitModeCustom
      else Panic)"

definition mustParseSegmentFromType :: "string \<Rightarrow> (unit, SegmentFromType) outcome" where
  "mustParseSegmentFromType s =
     (if s = ''sni'' then Ret SegmentFromSNI
      else if s = ''head'' then Ret SegmentFromHead
      else Panic)"

section \<open>Typed values\<close>

type_synonym 'a parser = "toml \<Rightarrow> cfg_error + 'a"

text \<open>The conversion \<open>T(i64)\<close> is an argument: the identity for \<open>int\<close>, truncation for unsigned types.\<close>

definition parseIntFn :: "(int \<Rightarrow> 't) \<Rightarrow> int check option \<Rightarrow> 't parser" where
  "parseIntFn conv validator v =
     (case v of
        TInt i64 \<Rightarrow>
          (case validator of
             None \<Rightarrow> Inr (conv i64)
           | Some f \<Rightarrow> (case f i64 of Some e \<Rightarrow> Inl e | None \<Rightarrow> Inr (conv i64)))
      | _ \<Rightarrow> Inl ExpectedInt)"

definition parseStringFn :: "string check option \<Rightarrow> string parser" where
  "parseStringFn validator v =
     (case v of
        TStr s \<Rightarrow>
          (case validator of
             None \<Rightarrow> Inr s
           | Some f \<Rightarrow> (case f s of Some e \<Rightarrow> Inl e | None \<Rightarrow> Inr s))
      | _ \<Rightarrow> Inl ExpectedString)"

definition parseBoolFn :: "bool parser" where
  "parseBoolFn v = (case v of TBool b \<Rightarrow> Inr b | _ \<Rightarrow> Inl ExpectedBool)"

definition parseByteFn :: "byte check option \<Rightarrow> byte parser" where
  "parseByteFn validator v =
     (case v of
        TInt i64 \<Rightarrow>
          if i64 < 0 \<or> i64 > 255 then Inl (ByteRange i64)
          else
            let val = word_of_int i64 in
            (case validator of
               None \<Rightarrow> Inr val
             | Some f \<Rightarrow> (case f val of Some e \<Rightarrow> Inl e | None \<Rightarrow> Inr val))
      | _ \<Rightarrow> Inl ExpectedByte)"

section \<open>Lookups\<close>

text \<open>Each returns the value found and the error the caller's variable holds afterwards.\<close>

definition isOk :: "'a option \<Rightarrow> cfg_error option \<Rightarrow> bool" where
  "isOk p err = (err = None \<and> p \<noteq> None)"

definition findFrom ::
  "toml_table \<Rightarrow> string \<Rightarrow> 'a parser \<Rightarrow> cfg_error option \<Rightarrow> 'a option \<times> cfg_error option" where
  "findFrom data key parser err =
     (if err \<noteq> None then (None, err)
      else case map_of data key of
        None \<Rightarrow> (None, err)
      | Some anyVal \<Rightarrow>
          (case parser anyVal of
             Inl parseErr \<Rightarrow> (None, Some (Field key parseErr))
           | Inr val \<Rightarrow> (Some val, err)))"

fun parse_items :: "'a parser \<Rightarrow> (nat \<Rightarrow> cfg_error \<Rightarrow> cfg_error) \<Rightarrow> nat \<Rightarrow> toml list \<Rightarrow> cfg_error + 'a list" where
  "parse_items p wrap i [] = Inr []"
| "parse_items p wrap i (x # xs) =
     (case p x of
        Inl e \<Rightarrow> Inl (wrap i e)
      | Inr y \<Rightarrow> (case parse_items p wrap (i + 1) xs of Inl e \<Rightarrow> Inl e | Inr ys \<Rightarrow> Inr (y # ys)))"

text \<open>\<open>typed\<close> is the assertion \<open>val.([]T)\<close> for the element type at hand.\<close>

definition findSliceFrom ::
  "(toml \<Rightarrow> 'a list option) \<Rightarrow> toml_table \<Rightarrow> string \<Rightarrow> 'a parser \<Rightarrow> cfg_error option \<Rightarrow>
   'a list option \<times> cfg_error option" where
  "findSliceFrom typed data key elementParser err =
     (if err \<noteq> None then (None, err)
      else case map_of data key of
        None \<Rightarrow> (None, err)
      | Some val \<Rightarrow>
          (case val of
             TList rawList \<Rightarrow>
               (case parse_items elementParser (FieldItem key) 0 rawList of
                  Inl e \<Rightarrow> (None, Some e)
                | Inr result \<Rightarrow> (Some result, err))
           | _ \<Rightarrow>
               (case typed val of
                  Some typedList \<Rightarrow> (Some typedList, err)
                | None \<Rightarrow> (None, Some (NotAList key)))))"

definition typed_strings :: "toml \<Rightarrow> string list option" where
  "typed_strings v = (case v of TStrings ss \<Rightarrow> Some ss | _ \<Rightarrow> None)"

definition typed_bytes :: "toml \<Rightarrow> bytes option" where
  "typed_bytes v = (case v of TBytes bs \<Rightarrow> Some bs | _ \<Rightarrow> None)"

text \<open>
  \<open>findStructSliceFrom\<close>: each item is decoded into a zero value by its \<open>UnmarshalTOML\<close>, given here as a
  parser that may also panic.
\<close>

fun struct_items ::
  "(toml \<Rightarrow> (cfg_error, 'a) outcome) \<Rightarrow> string \<Rightarrow> nat \<Rightarrow> toml list \<Rightarrow> (cfg_error, 'a list) outcome" where
  "struct_items u key i [] = Ret []"
| "struct_items u key i (x # xs) =
     (case u x of
        Panic \<Rightarrow> Panic
      | Fail e \<Rightarrow> Fail (DecodeItem key i e)
      | Ret y \<Rightarrow> obind (struct_items u key (i + 1) xs) (\<lambda>ys. Ret (y # ys)))"

definition findStructSliceFrom ::
  "(toml \<Rightarrow> (cfg_error, 'a) outcome) \<Rightarrow> toml_table \<Rightarrow> string \<Rightarrow> cfg_error option \<Rightarrow>
   (unit, 'a list option \<times> cfg_error option) outcome" where
  "findStructSliceFrom u m key err =
     (if err \<noteq> None then Ret (None, err)
      else case map_of m key of
        None \<Rightarrow> Ret (None, err)
      | Some val \<Rightarrow>
          (case (case val of TList l \<Rightarrow> Some l | TTables ts \<Rightarrow> Some (map TTable ts) | _ \<Rightarrow> None) of
             None \<Rightarrow> Ret (None, Some (NotAList key))
           | Some rawList \<Rightarrow>
               (case struct_items u key 0 rawList of
                  Panic \<Rightarrow> Panic
                | Fail e \<Rightarrow> Ret (None, Some e)
                | Ret res \<Rightarrow> Ret (Some res, err))))"

definition findStructFrom ::
  "(toml \<Rightarrow> (cfg_error, 'a) outcome) \<Rightarrow> toml_table \<Rightarrow> string \<Rightarrow> cfg_error option \<Rightarrow>
   (unit, 'a option \<times> cfg_error option) outcome" where
  "findStructFrom u m key err =
     (if err \<noteq> None then Ret (None, err)
      else case map_of m key of
        None \<Rightarrow> Ret (None, err)
      | Some val \<Rightarrow>
          (case u val of
             Panic \<Rightarrow> Panic
           | Fail e \<Rightarrow> Ret (None, Some (DecodeError key e))
           | Ret item \<Rightarrow> Ret (Some item, err)))"

section \<open>Accepted text converts\<close>

lemmas available_defs = availableAppModeValues_def availableDNSModeValues_def availableDNSQueryValues_def
  availableHTTPSModeValues_def availableSegmentFromValues_def

lemmas check_defs = checkOneOf_def checkAppMode_def checkDNSMode_def checkDNSQueryType_def
  checkHTTPSSplitMode_def checkSegmentFrom_def available_defs

lemma must_parse_defined:
  "checkAppMode s = None \<Longrightarrow> MustParseServerModeType s \<noteq> Panic"
  "checkDNSMode s = None \<Longrightarrow> MustParseDNSModeType s \<noteq> Panic"
  "checkDNSQueryType s = None \<Longrightarrow> MustParseDNSQueryType s \<noteq> Panic"
  "checkHTTPSSplitMode s = None \<Longrightarrow> mustParseHTTPSSplitModeType s \<noteq> Panic"
  "checkSegmentFrom s = None \<Longrightarrow> mustParseSegmentFromType s \<noteq> Panic"
  by (auto simp: check_defs MustParseServerModeType_def MustParseDNSModeType_def MustParseDNSQueryType_def
      mustParseHTTPSSplitModeType_def mustParseSegmentFromType_def split: if_splits)

lemma host_port_defined:
  assumes "checkHostPort s = None"
  shows "\<exists>ip p. MustParseTCPAddr s = Ret \<lparr>tcp_IP = Some ip, tcp_Port = p\<rparr> \<and> 0 \<le> p \<and> p \<le> 65535"
  using assms
  by (auto simp: checkHostPort_def MustParseTCPAddr_def checkUint16_def int64Range_def
    split: option.splits prod.splits if_splits)

lemma enum_ranges:
  "range AppMode_String = set availableAppModeValues"
  "range DNSMode_String = set availableDNSModeValues"
  "range DNSQuery_String = set availableDNSQueryValues"
  "range SplitMode_String = set availableHTTPSModeValues"
  "range SegmentFrom_String = set availableSegmentFromValues"
proof -
  have u1: "UNIV = {AppModeHTTP, AppModeSOCKS5, AppModeTUN}" using AppModeType.exhaust by auto
  show "range AppMode_String = set availableAppModeValues"
    unfolding u1 by (simp add: AppMode_String_def available_defs)
  have u2: "UNIV = {DNSModeUDP, DNSModeHTTPS, DNSModeSystem}" using DNSModeType.exhaust by auto
  show "range DNSMode_String = set availableDNSModeValues"
    unfolding u2 by (simp add: DNSMode_String_def available_defs)
  have u3: "UNIV = {DNSQueryIPv4, DNSQueryIPv6, DNSQueryAll}" using DNSQueryType.exhaust by auto
  show "range DNSQuery_String = set availableDNSQueryValues"
    unfolding u3 by (simp add: DNSQuery_String_def available_defs)
  have u4: "UNIV = {HTTPSSplitModeSNI, HTTPSSplitModeRandom, HTTPSSplitModeChunk, HTTPSSplitModeFirstByte,
      HTTPSSplitModeCustom, HTTPSSplitModeNone}" using HTTPSSplitModeType.exhaust by auto
  show "range SplitMode_String = set availableHTTPSModeValues"
    unfolding u4 by (simp add: SplitMode_String_def available_defs)
  have u5: "UNIV = {SegmentFromHead, SegmentFromSNI}" using SegmentFromType.exhaust by auto
  show "range SegmentFrom_String = set availableSegmentFromValues"
    unfolding u5 by (simp add: SegmentFrom_String_def available_defs)
qed

text \<open>For each enumeration the check accepts exactly the printed names, and the conversion inverts printing,
  so the configured word and the logged word always agree.\<close>

theorem enum_names_roundtrip:
  "(checkAppMode s = None \<longleftrightarrow> s \<in> range AppMode_String) \<and> MustParseServerModeType (AppMode_String m) = Ret m \<and>
   (checkDNSMode s = None \<longleftrightarrow> s \<in> range DNSMode_String) \<and> MustParseDNSModeType (DNSMode_String d) = Ret d \<and>
   (checkDNSQueryType s = None \<longleftrightarrow> s \<in> range DNSQuery_String) \<and> MustParseDNSQueryType (DNSQuery_String q) = Ret q \<and>
   (checkHTTPSSplitMode s = None \<longleftrightarrow> s \<in> range SplitMode_String) \<and>
   mustParseHTTPSSplitModeType (SplitMode_String k) = Ret k \<and>
   (checkSegmentFrom s = None \<longleftrightarrow> s \<in> range SegmentFrom_String) \<and>
   mustParseSegmentFromType (SegmentFrom_String f) = Ret f"
proof -
  have ranges: "range AppMode_String = set availableAppModeValues" "range DNSMode_String = set availableDNSModeValues"
    "range DNSQuery_String = set availableDNSQueryValues" "range SplitMode_String = set availableHTTPSModeValues"
    "range SegmentFrom_String = set availableSegmentFromValues"
    by (rule enum_ranges)+
  have "MustParseServerModeType (AppMode_String m) = Ret m"
    by (cases m) (simp_all add: AppMode_String_def available_defs MustParseServerModeType_def)
  moreover have "MustParseDNSModeType (DNSMode_String d) = Ret d"
    by (cases d) (simp_all add: DNSMode_String_def available_defs MustParseDNSModeType_def)
  moreover have "MustParseDNSQueryType (DNSQuery_String q) = Ret q"
    by (cases q) (simp_all add: DNSQuery_String_def available_defs MustParseDNSQueryType_def)
  moreover have "mustParseHTTPSSplitModeType (SplitMode_String k) = Ret k"
    by (cases k) (simp_all add: SplitMode_String_def available_defs mustParseHTTPSSplitModeType_def)
  moreover have "mustParseSegmentFromType (SegmentFrom_String f) = Ret f"
    by (cases f) (simp_all add: SegmentFrom_String_def available_defs mustParseSegmentFromType_def)
  ultimately show ?thesis
    by (simp add: ranges checkOneOf_def checkAppMode_def checkDNSMode_def checkDNSQueryType_def
      checkHTTPSSplitMode_def checkSegmentFrom_def)
qed

section \<open>Byte lists\<close>

lemma strip1_none:
  assumes "\<forall>q \<in> set seqs. q = [] \<or> s = [] \<or> hd q \<noteq> hd s"
  shows "strip1 seqs s = None"
proof -
  have "\<not> (q \<noteq> [] \<and> has_prefix s q)" if "q \<in> set seqs" for q
    using bspec [OF assms that] by (auto simp: has_prefix_iff)
  then show ?thesis unfolding strip1_def first_some_None_iff by auto
qed

lemma TrimSpace_id:
  assumes "\<forall>q \<in> set space_seqs. hd q \<noteq> hd s" "\<forall>q \<in> set space_seqs. last q \<noteq> last s" "s \<noteq> []"
  shows "TrimSpace s = s"
proof -
  have ne: "\<forall>q \<in> set space_seqs. q \<noteq> []" by code_simp
  have "trim_left space_seqs s = s"
    using assms(1) by (subst trim_left.simps) (simp add: strip1_none)
  moreover have "strip1 (map rev space_seqs) (rev s) = None"
    using assms(2,3) ne by (intro strip1_none) (auto simp: hd_rev)
  then have "trim_left (map rev space_seqs) (rev s) = rev s"
    by (subst trim_left.simps) simp
  ultimately show ?thesis by (simp add: TrimSpace_def)
qed

lemma TrimSpace_space: "TrimSpace (CHR '' '' # s) = TrimSpace s"
proof -
  have "strip1 space_seqs (CHR '' '' # s) = Some s"
  proof -
    let ?f = "\<lambda>q. if q \<noteq> [] \<and> has_prefix (CHR '' '' # s) q then Some (drop (length q) (CHR '' '' # s)) else None"
    have seqs: "space_seqs = take 5 space_seqs @ '' '' # drop 6 space_seqs"
      "\<forall>q \<in> set (take 5 space_seqs). hd q \<noteq> CHR '' ''" by code_simp+
    have "first_some ?f (xs @ '' '' # ys) = Some s" if "\<forall>q \<in> set xs. hd q \<noteq> CHR '' ''" for xs ys
      using that by (induction xs) (auto simp: has_prefix_iff Cons_eq_append_conv)
    from this [OF seqs(2), of "drop 6 space_seqs"] show ?thesis
      unfolding strip1_def seqs(1) [symmetric] .
  qed
  then show ?thesis by (simp add: TrimSpace_def trim_left.simps [of _ "CHR '' '' # s"])
qed

text \<open>The text of one byte, and the texts of a list as \<open>strings.Split\<close> sees them.\<close>

definition byte_text :: "byte \<Rightarrow> string" where
  "byte_text b = ''0x'' @ hex_byte b"

lemma hex_char_safe:
  assumes "d < 16"
  shows "hex_char d \<noteq> CHR '',''" "\<not> is_re_space (hex_char d)" "\<forall>q \<in> set space_seqs. last q \<noteq> hex_char d"
proof -
  have code: "(of_char (hex_char d) :: nat) = (if d < 10 then 48 + d else 87 + d)"
    using assms by (simp add: hex_char_def)
  show "hex_char d \<noteq> CHR '',''"
  proof
    assume "hex_char d = CHR '',''"
    then have "(of_char (hex_char d) :: nat) = 44" by simp
    with code show False by (simp split: if_splits)
  qed
  show "\<not> is_re_space (hex_char d)" using assms by (auto simp: is_re_space_def code split: if_splits)
  have "\<forall>q \<in> set space_seqs. (of_char (last q) :: nat) < 48 \<or> (of_char (last q) :: nat) > 127" by code_simp
  then show "\<forall>q \<in> set space_seqs. last q \<noteq> hex_char d" using code assms by (fastforce split: if_splits)
qed

lemma byte_nibbles: "unat (b :: byte) div 16 < 16" "unat b mod 16 < 16"
proof -
  have "unat b < 2 ^ LENGTH(8)" by (rule unsigned_less)
  then show "unat b div 16 < 16" "unat b mod 16 < 16" by auto
qed

lemmas nibble_safe = hex_char_safe [OF byte_nibbles(1)] hex_char_safe [OF byte_nibbles(2)]

lemma byte_text_parts:
  "TrimSpace (byte_text b) = byte_text b" "CHR '','' \<notin> set (byte_text b)"
  "hex_part (byte_text b)" "hex_part (CHR '' '' # byte_text b)" "parse_hex_part (byte_text b) = b"
proof -
  have "\<forall>q \<in> set space_seqs. hd q \<noteq> CHR ''0''" by code_simp
  then show "TrimSpace (byte_text b) = byte_text b"
    by (intro TrimSpace_id) (simp_all add: byte_text_def hex_byte_def nibble_safe)
  show "CHR '','' \<notin> set (byte_text b)"
    using nibble_safe [of b] by (auto simp: byte_text_def hex_byte_def)
  have sp: "\<not> is_re_space (CHR ''0'')" "is_re_space (CHR '' '')" by code_simp+
  show "hex_part (byte_text b)" "hex_part (CHR '' '' # byte_text b)"
    using nibble_safe [of b]
    by (simp_all add: hex_part_def byte_text_def hex_byte_def sp hex_val_char byte_nibbles Let_def)
  have "unat b < 256" using unsigned_less [of b] by simp
  then show "parse_hex_part (byte_text b) = b"
    by (simp add: parse_hex_part_def byte_text_def hex_byte_def has_prefix_def hex_val_char byte_nibbles Let_def)
qed

fun csv_texts :: "bytes \<Rightarrow> string list" where
  "csv_texts [] = []"
| "csv_texts (b # bs) = byte_text b # map (\<lambda>x. CHR '' '' # byte_text x) bs"

lemma join_char_concat: "join_char c (x # ys) = x @ concat (map (\<lambda>y. c # y) ys)"
  by (induction ys arbitrary: x) auto

lemma MustParseHexCSV_join: "MustParseHexCSV (b # bs) = join_char (CHR '','') (csv_texts (b # bs))"
proof -
  have "concat (map (\<lambda>(i, b). (if i > 0 then '', '' else []) @ ''0x'' @ hex_byte b) (enumerate (Suc n) bs)) =
      concat (map (\<lambda>x. '', '' @ byte_text x) bs)" for n
    by (induction bs arbitrary: n) (simp_all add: byte_text_def)
  moreover have "byte_text b @ concat (map (\<lambda>x. '', '' @ byte_text x) bs) =
      join_char (CHR '','') (csv_texts (b # bs))"
    by (simp add: join_char_concat o_def)
  ultimately show ?thesis by (simp add: MustParseHexCSV_def byte_text_def)
qed

lemma csv_split: "split_char (CHR '','') (MustParseHexCSV (b # bs)) = csv_texts (b # bs)"
  unfolding MustParseHexCSV_join
  by (rule split_join_char) (auto simp: byte_text_parts)

text \<open>Printing a byte list as comma-separated hexadecimal text and parsing that text never panics and gives back
  the bytes.\<close>

theorem hex_csv_roundtrip: "MustParseBytes (MustParseHexCSV data) = Ret data"
proof (cases data)
  case Nil
  have "MustParseBytes [] = Ret []" by code_simp
  with Nil show ?thesis by (simp add: MustParseHexCSV_def)
next
  case (Cons b bs)
  let ?s = "MustParseHexCSV (b # bs)"
  have hd: "\<exists>t. ?s = CHR ''0'' # t"
    by (cases bs) (auto simp: MustParseHexCSV_join byte_text_def)
  have last: "\<exists>d < 16. last ?s = hex_char d"
  proof -
    obtain cs c where "b # bs = cs @ [c]" by (metis append_butlast_last_id list.distinct(1))
    moreover have "last (join_char (CHR '','') (csv_texts (cs @ [c]))) = hex_char (unat c mod 16)"
      by (cases cs) (simp_all add: join_char_concat byte_text_def hex_byte_def)
    ultimately show ?thesis
      unfolding MustParseHexCSV_join using byte_nibbles(2) [of c] by (intro exI [of _ "unat c mod 16"]) simp
  qed
  have "\<forall>q \<in> set space_seqs. hd q \<noteq> CHR ''0''" by code_simp
  then have trim: "TrimSpace ?s = ?s"
    using hd last hex_char_safe(3) by (intro TrimSpace_id) auto
  have parts: "map TrimSpace (csv_texts (b # bs)) = map byte_text (b # bs)"
    by (simp add: TrimSpace_space byte_text_parts)
  have "list_all hex_part (csv_texts (b # bs))"
    by (simp add: byte_text_parts list_all_iff)
  then have "checkHexBytesStr ?s = None"
    by (simp only: checkHexBytesStr_def trim csv_split Let_def) simp
  moreover have "filter (\<lambda>t. t \<noteq> []) (map byte_text (b # bs)) = map byte_text (b # bs)"
    by (rule filter_True) (auto simp: byte_text_def)
  ultimately show ?thesis
    by (simp only: Cons MustParseBytes_def csv_split parts) (simp add: byte_text_parts o_def)
qed

end
