(* ===== verification/Config_Load.thy ===== *)
theory Config_Load
  imports Config_Parse "HOL-Library.AList"
begin

text \<open>
  \<open>pkg/spoofdpi/internal/config\<close>: the \<open>UnmarshalTOML\<close> methods of \<open>types.go\<close> and \<open>config.go\<close>, the defaults and flag actions of
  \<open>cli.go\<close>, the file lists of \<open>fileutil.go\<close> and the loading pipeline of \<open>load.go\<close>. A method that decodes into
  an existing value returns that value as it leaves it, together with the error, because it may
  have stored some fields before it failed. Files, environment and the TOML decoder are arguments.
\<close>

section \<open>Decoding steps\<close>

type_synonym 'o decoding = "'o \<times> cfg_error option"

text \<open>The idiom \<open>if p := findFrom(m, key, parser, &err); isOk(p, err) { ... }\<close>.\<close>

definition set_field ::
  "toml_table \<Rightarrow> string \<Rightarrow> 'a parser \<Rightarrow> ('a \<Rightarrow> 'o \<Rightarrow> (unit, 'o) outcome) \<Rightarrow> 'o decoding \<Rightarrow>
   (unit, 'o decoding) outcome" where
  "set_field m key p upd st =
     (case findFrom m key p (snd st) of
        (r, err) \<Rightarrow>
          if isOk r err then obind (upd (the r) (fst st)) (\<lambda>opts. Ret (opts, err))
          else Ret (fst st, err))"

text \<open>The idiom \<open>if xs := findSliceFrom(m, key, parser, &err); xs != nil { ... }\<close>.\<close>

definition set_slice ::
  "(toml \<Rightarrow> 'a list option) \<Rightarrow> toml_table \<Rightarrow> string \<Rightarrow> 'a parser \<Rightarrow> ('a list \<Rightarrow> 'o \<Rightarrow> 'o) \<Rightarrow>
   'o decoding \<Rightarrow> (unit, 'o decoding) outcome" where
  "set_slice typed m key p upd st =
     (case findSliceFrom typed m key p (snd st) of
        (Some xs, err) \<Rightarrow> Ret (upd xs (fst st), err)
      | (None, err) \<Rightarrow> Ret (fst st, err))"

fun chain :: "('s \<Rightarrow> (unit, 's) outcome) list \<Rightarrow> 's \<Rightarrow> (unit, 's) outcome" where
  "chain [] s = Ret s"
| "chain (f # fs) s = obind (f s) (chain fs)"

definition pure_upd :: "('a \<Rightarrow> 'o \<Rightarrow> 'o) \<Rightarrow> 'a \<Rightarrow> 'o \<Rightarrow> (unit, 'o) outcome" where
  "pure_upd f x opts = Ret (f x opts)"

definition uint8 :: "int \<Rightarrow> byte" where "uint8 i = word_of_int i"
definition uint16 :: "int \<Rightarrow> u16" where "uint16 i = word_of_int i"

definition Millisecond :: int where "Millisecond = 1000000"

section \<open>Sections of the configuration\<close>

definition AppOptions_UnmarshalTOML ::
  "(string \<Rightarrow> int option) \<Rightarrow> toml \<Rightarrow> AppOptions \<Rightarrow> (unit, AppOptions decoding) outcome" where
  "AppOptions_UnmarshalTOML ParseLevel data opts =
     (case data of
        TTable m \<Rightarrow>
          chain
            [set_field m ''no-tui'' parseBoolFn (pure_upd (\<lambda>p opts. opts\<lparr>NoTUI := p\<rparr>)),
             set_field m ''silent'' parseBoolFn (pure_upd (\<lambda>p opts. opts\<lparr>Silent := p\<rparr>)),
             set_field m ''auto-configure-network'' parseBoolFn
               (pure_upd (\<lambda>p opts. opts\<lparr>AutoConfigureNetwork := p\<rparr>)),
             set_field m ''log-level'' (parseStringFn (Some checkLogLevel))
               (\<lambda>p opts. obind (MustParseLogLevel ParseLevel p) (\<lambda>l. Ret (opts\<lparr>LogLevel := l\<rparr>))),
             set_field m ''mode'' (parseStringFn (Some checkAppMode))
               (\<lambda>p opts. obind (MustParseServerModeType p) (\<lambda>t. Ret (opts\<lparr>app_Mode := t\<rparr>))),
             set_field m ''listen-addr'' (parseStringFn (Some checkHostPort))
               (\<lambda>p opts. obind (MustParseTCPAddr p) (\<lambda>a. Ret (opts\<lparr>ListenAddr := a\<rparr>))),
             set_field m ''freebsd-fib'' (parseIntFn id (Some checkFreeBSDFibID))
               (pure_upd (\<lambda>p opts. opts\<lparr>FreebsdFIB := p\<rparr>))]
            (opts, None)
      | _ \<Rightarrow> Ret (opts, Some (NonTable ''general'')))"

definition ConnOptions_UnmarshalTOML :: "toml \<Rightarrow> ConnOptions \<Rightarrow> (unit, ConnOptions decoding) outcome" where
  "ConnOptions_UnmarshalTOML data opts =
     (case data of
        TTable v \<Rightarrow>
          chain
            [set_field v ''default-fake-ttl'' (parseIntFn uint8 (Some checkUint8NonZero))
               (pure_upd (\<lambda>p opts. opts\<lparr>DefaultFakeTTL := p\<rparr>)),
             set_field v ''dns-timeout'' (parseIntFn uint16 (Some checkUint16))
               (pure_upd (\<lambda>p opts. opts\<lparr>DNSTimeout := uint p * Millisecond\<rparr>)),
             set_field v ''tcp-timeout'' (parseIntFn uint16 (Some checkUint16))
               (pure_upd (\<lambda>p opts. opts\<lparr>TCPTimeout := uint p * Millisecond\<rparr>)),
             set_field v ''udp-idle-timeout'' (parseIntFn uint16 (Some checkUint16))
               (pure_upd (\<lambda>p opts. opts\<lparr>UDPIdleTimeout := uint p * Millisecond\<rparr>))]
            (opts, None)
      | _ \<Rightarrow> Ret (opts, Some (NonTable ''connection'')))"

definition DNSOptions_UnmarshalTOML :: "toml \<Rightarrow> DNSOptions \<Rightarrow> (unit, DNSOptions decoding) outcome" where
  "DNSOptions_UnmarshalTOML data opts =
     (case data of
        TTable m \<Rightarrow>
          chain
            [set_field m ''mode'' (parseStringFn (Some checkDNSMode))
               (\<lambda>p opts. obind (MustParseDNSModeType p) (\<lambda>t. Ret (opts\<lparr>dns_Mode := t\<rparr>))),
             set_field m ''addr'' (parseStringFn (Some checkHostPort))
               (\<lambda>p opts. obind (MustParseTCPAddr p) (\<lambda>a. Ret (opts\<lparr>dns_Addr := a\<rparr>))),
             set_field m ''https-url'' (parseStringFn (Some checkHTTPSEndpoint))
               (pure_upd (\<lambda>p opts. opts\<lparr>HTTPSURL := p\<rparr>)),
             set_field m ''qtype'' (parseStringFn (Some checkDNSQueryType))
               (\<lambda>p opts. obind (MustParseDNSQueryType p) (\<lambda>t. Ret (opts\<lparr>QType := t\<rparr>))),
             set_field m ''cache'' parseBoolFn (pure_upd (\<lambda>p opts. opts\<lparr>dns_Cache := p\<rparr>))]
            (opts, None)
      | _ \<Rightarrow> Ret (opts, Some (NonTable ''dns'')))"

text \<open>
  A segment plan requires \<open>from\<close> and \<open>at\<close>. The test for \<open>at\<close> returns at once, also when \<open>from\<close> was bad.
\<close>

definition SegmentPlan_UnmarshalTOML :: "toml \<Rightarrow> SegmentPlan \<Rightarrow> (unit, SegmentPlan decoding) outcome" where
  "SegmentPlan_UnmarshalTOML data s =
     (case data of
        TTable m \<Rightarrow>
          if map_of m ''from'' = None then Ret (s, Some (FieldRequired ''from''))
          else
            obind (set_field m ''from'' (parseStringFn (Some checkSegmentFrom))
              (\<lambda>p s. obind (mustParseSegmentFromType p) (\<lambda>t. Ret (s\<lparr>From := t\<rparr>))) (s, None)) (\<lambda>st.
            if map_of m ''at'' = None then Ret (fst st, Some (FieldRequired ''at''))
            else
              chain
                [set_field m ''at'' (parseIntFn id None) (pure_upd (\<lambda>p s. s\<lparr>At := p\<rparr>)),
                 set_field m ''lazy'' parseBoolFn (pure_upd (\<lambda>p s. s\<lparr>plan_Lazy := p\<rparr>)),
                 set_field m ''noise'' (parseIntFn id None) (pure_upd (\<lambda>p s. s\<lparr>Noise := p\<rparr>))]
                st)
      | _ \<Rightarrow> Ret (s, Some (NonTable ''segment'')))"

definition zero_plan :: SegmentPlan where
  "zero_plan = \<lparr>From = SegmentFromHead, At = 0, plan_Lazy = False, Noise = 0\<rparr>"

text \<open>A method applied to a zero value, as the \<open>findStruct\<close> functions use it.\<close>

definition decode_item :: "(toml \<Rightarrow> 'o \<Rightarrow> (unit, 'o decoding) outcome) \<Rightarrow> 'o \<Rightarrow> toml \<Rightarrow> (cfg_error, 'o) outcome" where
  "decode_item u z v =
     (case u v z of
        Panic \<Rightarrow> Panic
      | Fail _ \<Rightarrow> Panic
      | Ret (x, None) \<Rightarrow> Ret x
      | Ret (x, Some e) \<Rightarrow> Fail e)"

definition custom_segments :: "toml_table \<Rightarrow> HTTPSOptions decoding \<Rightarrow> (unit, HTTPSOptions decoding) outcome" where
  "custom_segments m st =
     obind (findStructSliceFrom (decode_item SegmentPlan_UnmarshalTOML zero_plan) m ''custom-segments'' (snd st))
       (\<lambda>(plans, err).
          Ret (case plans of None \<Rightarrow> fst st | Some ps \<Rightarrow> (fst st)\<lparr>CustomSegmentPlans := ps\<rparr>, err))"

definition check_custom :: "HTTPSOptions decoding \<Rightarrow> (unit, HTTPSOptions decoding) outcome" where
  "check_custom st =
     Ret (fst st,
       if snd st = None \<and> SplitMode (fst st) = HTTPSSplitModeCustom \<and> length (CustomSegmentPlans (fst st)) = 0
       then Some CustomSegmentsMissing else snd st)"

definition HTTPSOptions_UnmarshalTOML :: "toml \<Rightarrow> HTTPSOptions \<Rightarrow> (unit, HTTPSOptions decoding) outcome" where
  "HTTPSOptions_UnmarshalTOML data opts =
     (case data of
        TTable m \<Rightarrow>
          chain
            [set_field m ''disorder'' parseBoolFn (pure_upd (\<lambda>p opts. opts\<lparr>Disorder := p\<rparr>)),
             set_field m ''fake-count'' (parseIntFn uint8 (Some checkUint8))
               (pure_upd (\<lambda>p opts. opts\<lparr>https_FakeCount := p\<rparr>)),
             set_slice typed_bytes m ''fake-packet'' (parseByteFn None)
               (\<lambda>b opts. opts\<lparr>https_FakePacket := Some (NewFakeTLSMessage b)\<rparr>),
             set_field m ''split-mode'' (parseStringFn (Some checkHTTPSSplitMode))
               (\<lambda>p opts. obind (mustParseHTTPSSplitModeType p) (\<lambda>t. Ret (opts\<lparr>SplitMode := t\<rparr>))),
             set_field m ''chunk-size'' (parseIntFn uint8 (Some checkUint8NonZero))
               (pure_upd (\<lambda>p opts. opts\<lparr>ChunkSize := p\<rparr>)),
             set_field m ''skip'' parseBoolFn (pure_upd (\<lambda>p opts. opts\<lparr>https_Skip := p\<rparr>)),
             custom_segments m, check_custom]
            (opts, None)
      | _ \<Rightarrow> Ret (opts, Some (NonTable ''https'')))"

definition UDPOptions_UnmarshalTOML :: "toml \<Rightarrow> UDPOptions \<Rightarrow> (unit, UDPOptions decoding) outcome" where
  "UDPOptions_UnmarshalTOML data opts =
     (case data of
        TTable m \<Rightarrow>
          chain
            [set_field m ''skip'' parseBoolFn (pure_upd (\<lambda>p opts. opts\<lparr>udp_Skip := p\<rparr>)),
             set_field m ''fake-count'' (parseIntFn uint8 (Some checkUint8))
               (pure_upd (\<lambda>p opts. opts\<lparr>udp_FakeCount := p\<rparr>)),
             set_slice typed_bytes m ''fake-packet'' (parseByteFn None)
               (\<lambda>b opts. opts\<lparr>udp_FakePacket := b\<rparr>)]
            (opts, None)
      | _ \<Rightarrow> Ret (opts, Some (NonTable ''udp'')))"

section \<open>Rules\<close>

fun check_entries :: "string check \<Rightarrow> string list \<Rightarrow> cfg_error option" where
  "check_entries c [] = None"
| "check_entries c (d # ds) = (case c d of Some e \<Rightarrow> Some (InvalidEntry d e) | None \<Rightarrow> check_entries c ds)"

definition MatchAttrs_UnmarshalTOML :: "toml \<Rightarrow> MatchAttrs \<Rightarrow> (unit, MatchAttrs decoding) outcome" where
  "MatchAttrs_UnmarshalTOML data a =
     (case data of
        TTable v \<Rightarrow>
          (case findSliceFrom typed_strings v ''domains'' (parseStringFn None) None of
             (rawList, err) \<Rightarrow>
               (case (case rawList of None \<Rightarrow> None | Some ds \<Rightarrow> check_entries checkDomainPattern ds) of
                  Some e \<Rightarrow> Ret (a, Some e)
                | None \<Rightarrow>
                    let a = (case rawList of None \<Rightarrow> a | Some ds \<Rightarrow> a\<lparr>Domains := ds\<rparr>) in
                    (case findSliceFrom typed_strings v ''cidrs'' (parseStringFn None) err of
                       (rawList, err) \<Rightarrow>
                         (case (case rawList of None \<Rightarrow> None | Some cs \<Rightarrow> check_entries checkCIDR cs) of
                            Some e \<Rightarrow> Ret (a, Some e)
                          | None \<Rightarrow>
                              let a = (case rawList of None \<Rightarrow> a | Some cs \<Rightarrow> a\<lparr>CIDRs := cs\<rparr>) in
                              Ret (a, if err = None then checkMatchAttrs a else err)))))
      | _ \<Rightarrow> Ret (a, Some (NonTable ''match'')))"

definition zero_match :: MatchAttrs where
  "zero_match = \<lparr>Domains = [], CIDRs = []\<rparr>"

definition Rule_UnmarshalTOML :: "toml \<Rightarrow> Rule \<Rightarrow> (unit, Rule decoding) outcome" where
  "Rule_UnmarshalTOML data r =
     (case data of
        TTable m \<Rightarrow>
          chain
            [set_field m ''name'' (parseStringFn None) (pure_upd (\<lambda>p r. r\<lparr>rule_Name := p\<rparr>)),
             set_field m ''priority'' (parseIntFn uint16 (Some checkUint16)) (pure_upd (\<lambda>p r. r\<lparr>Priority := p\<rparr>)),
             set_field m ''block'' parseBoolFn (pure_upd (\<lambda>p r. r\<lparr>Block := p\<rparr>)),
             (\<lambda>(r, err).
                obind (findStructFrom (decode_item MatchAttrs_UnmarshalTOML zero_match) m ''match'' err)
                  (\<lambda>(mt, err). Ret (r\<lparr>Match := mt\<rparr>, err)))]
            (r, None)
      | _ \<Rightarrow> Ret (r, Some (NonTable ''rule'')))"

definition Rule_Clone :: "Rule option \<Rightarrow> Rule option" where
  "Rule_Clone r = r"

section \<open>The whole configuration\<close>

text \<open>Warnings (\<open>AddWarnMsg\<close>) are collected in order.\<close>

datatype warning =
    PolicyTemplateDeprecated
  | PolicyOverridesDeprecated
  | Socks5Experimental
  | TunExperimental
  | FileNotFound string

text \<open>One section: decoded when its key is present and no error has occurred.\<close>

definition set_section ::
  "toml_table \<Rightarrow> string \<Rightarrow> (toml \<Rightarrow> 'o \<Rightarrow> (unit, 'o decoding) outcome) \<Rightarrow> ('c \<Rightarrow> 'o) \<Rightarrow> ('o \<Rightarrow> 'c \<Rightarrow> 'c) \<Rightarrow>
   'c decoding \<Rightarrow> (unit, 'c decoding) outcome" where
  "set_section m key u get put st =
     (case map_of m key of
        Some v \<Rightarrow>
          if snd st = None
          then obind (u v (get (fst st))) (\<lambda>(x, err). Ret (put x (fst st), err))
          else Ret st
      | None \<Rightarrow> Ret st)"

definition app_of :: "Config \<Rightarrow> AppOptions" where "app_of c = App (Startup c)"
definition put_app :: "AppOptions \<Rightarrow> Config \<Rightarrow> Config" where "put_app x c = c\<lparr>Startup := (Startup c)\<lparr>App := x\<rparr>\<rparr>"
definition put_conn :: "ConnOptions \<Rightarrow> RuntimeConfig \<Rightarrow> RuntimeConfig" where "put_conn x c = c\<lparr>cfg_Conn := x\<rparr>"
definition put_dns :: "DNSOptions \<Rightarrow> RuntimeConfig \<Rightarrow> RuntimeConfig" where "put_dns x c = c\<lparr>cfg_DNS := x\<rparr>"
definition put_https :: "HTTPSOptions \<Rightarrow> RuntimeConfig \<Rightarrow> RuntimeConfig" where "put_https x c = c\<lparr>cfg_HTTPS := x\<rparr>"
definition put_udp :: "UDPOptions \<Rightarrow> RuntimeConfig \<Rightarrow> RuntimeConfig" where "put_udp x c = c\<lparr>cfg_UDP := x\<rparr>"

definition in_runtime :: "('o \<Rightarrow> RuntimeConfig \<Rightarrow> RuntimeConfig) \<Rightarrow> 'o \<Rightarrow> Config \<Rightarrow> Config" where
  "in_runtime put x c = c\<lparr>Runtime := put x (Runtime c)\<rparr>"

definition Config_UnmarshalTOML ::
  "(string \<Rightarrow> int option) \<Rightarrow> toml \<Rightarrow> Config \<Rightarrow> (unit, Config decoding \<times> warning list) outcome" where
  "Config_UnmarshalTOML ParseLevel data c =
     (case data of
        TTable m \<Rightarrow>
          obind (chain
            [set_section m ''app'' (AppOptions_UnmarshalTOML ParseLevel) app_of put_app,
             set_section m ''connection'' ConnOptions_UnmarshalTOML (cfg_Conn \<circ> Runtime) (in_runtime put_conn),
             set_section m ''dns'' DNSOptions_UnmarshalTOML (cfg_DNS \<circ> Runtime) (in_runtime put_dns),
             set_section m ''https'' HTTPSOptions_UnmarshalTOML (cfg_HTTPS \<circ> Runtime) (in_runtime put_https),
             set_section m ''udp'' UDPOptions_UnmarshalTOML (cfg_UDP \<circ> Runtime) (in_runtime put_udp)]
            (c, None)) (\<lambda>st.
          Ret (st,
            case map_of m ''policy'' of
              Some (TTable policyMap) \<Rightarrow>
                if map_of policyMap ''template'' \<noteq> None then [PolicyTemplateDeprecated] else []
            | _ \<Rightarrow> []))
      | _ \<Rightarrow> Ret ((c, Some (NonTable ''config file'')), []))"

definition NeedsPcapTCP :: "Config \<Rightarrow> bool" where
  "NeedsPcapTCP c =
     (https_FakeCount (cfg_HTTPS (Runtime c)) > 0 \<or>
      list_ex (\<lambda>r. https_FakeCount (cfg_HTTPS (rule_Config r)) > 0) (Rules (Startup c)))"

definition NeedsPcapUDP :: "Config \<Rightarrow> bool" where
  "NeedsPcapUDP c =
     (udp_FakeCount (cfg_UDP (Runtime c)) > 0 \<or>
      list_ex (\<lambda>r. udp_FakeCount (cfg_UDP (rule_Config r)) > 0) (Rules (Startup c)))"

definition NeedsPcap :: "Config \<Rightarrow> bool" where
  "NeedsPcap c = (NeedsPcapTCP c \<or> NeedsPcapUDP c)"

definition Finalize :: "Config \<Rightarrow> Config \<times> warning list" where
  "Finalize c =
     (let app = app_of c;
          c' = (if tcp_IP (ListenAddr app) = None \<and> tcp_Port (ListenAddr app) = 0
                then put_app (app\<lparr>ListenAddr := \<lparr>tcp_IP = ParseIP ''127.0.0.1'',
                       tcp_Port = (if app_Mode app = AppModeSOCKS5 then 1080 else 8080)\<rparr>\<rparr>) c
                else c) in
      (c', case app_Mode app of
             AppModeSOCKS5 \<Rightarrow> [Socks5Experimental]
           | AppModeTUN \<Rightarrow> [TunExperimental]
           | AppModeHTTP \<Rightarrow> []))"

section \<open>Files of match entries\<close>

text \<open>What the operating system provides. Reading a file fails or gives its bytes.\<close>

datatype file_error = NotExist | OtherError

record os_env =
  ExpandEnv :: "string \<Rightarrow> string"
  UserHomeDir :: "string option"
  JoinPath :: "string \<Rightarrow> string \<Rightarrow> string"
  IsAbs :: "string \<Rightarrow> bool"
  DirPath :: "string \<Rightarrow> string"
  file_content :: "string \<Rightarrow> file_error + string"
  file_exists :: "string \<Rightarrow> bool"

definition filePrefix :: string where
  "filePrefix = ''file:''"

definition expandPath :: "os_env \<Rightarrow> string \<Rightarrow> string \<Rightarrow> string" where
  "expandPath env p configDir =
     (let p = ExpandEnv env p in
      if has_prefix p ''~/'' then
        (case UserHomeDir env of Some home \<Rightarrow> JoinPath env home (drop 2 p) | None \<Rightarrow> p)
      else if configDir \<noteq> [] \<and> \<not> IsAbs env p then JoinPath env configDir p
      else p)"

text \<open>
  The lines of \<open>bufio.Scanner\<close>: a last empty line does not count, a trailing carriage return is cut,
  and a line that does not fit the buffer of 64 KiB is an error.
\<close>

definition scan_lines :: "string \<Rightarrow> string list" where
  "scan_lines s =
     (let ls = split_char (CHR 0x0A) s in
      map (\<lambda>l. trim_suffix l [CHR 0x0D]) (if last ls = [] then butlast ls else ls))"

definition line_too_long :: "string \<Rightarrow> bool" where
  "line_too_long s = list_ex (\<lambda>l. length l \<ge> 65536) (split_char (CHR 0x0A) s)"

definition readLines :: "os_env \<Rightarrow> string \<Rightarrow> file_error + string list" where
  "readLines env path =
     (case file_content env path of
        Inl e \<Rightarrow> Inl e
      | Inr s \<Rightarrow>
          if line_too_long s then Inl OtherError
          else Inr (filter (\<lambda>line. \<not> (line = [] \<or> has_prefix line ''#'')) (map TrimSpace (scan_lines s))))"

fun resolveEntries :: "os_env \<Rightarrow> string list \<Rightarrow> string \<Rightarrow> cfg_error + string list \<times> warning list" where
  "resolveEntries env [] configDir = Inr ([], [])"
| "resolveEntries env (e # es) configDir =
     (if \<not> has_prefix e filePrefix then
        (case resolveEntries env es configDir of Inl x \<Rightarrow> Inl x | Inr (rs, ws) \<Rightarrow> Inr (e # rs, ws))
      else
        let path = expandPath env (drop (length filePrefix) e) configDir in
        (case readLines env path of
           Inl NotExist \<Rightarrow>
             (case resolveEntries env es configDir of Inl x \<Rightarrow> Inl x | Inr (rs, ws) \<Rightarrow> Inr (rs, FileNotFound path # ws))
         | Inl OtherError \<Rightarrow> Inl (FileError path)
         | Inr lines \<Rightarrow>
             (case resolveEntries env es configDir of Inl x \<Rightarrow> Inl x | Inr (rs, ws) \<Rightarrow> Inr (lines @ rs, ws))))"

definition only_strings :: "toml list \<Rightarrow> string list" where
  "only_strings arr = concat (map (\<lambda>e. case e of TStr s \<Rightarrow> [s] | _ \<Rightarrow> []) arr)"

fun expand_keys :: "os_env \<Rightarrow> nat \<Rightarrow> string \<Rightarrow> string list \<Rightarrow> toml_table \<Rightarrow> cfg_error + toml_table \<times> warning list" where
  "expand_keys env i dir [] m = Inr (m, [])"
| "expand_keys env i dir (key # ks) m =
     (case map_of m key of
        Some (TList arr) \<Rightarrow>
          (case resolveEntries env (only_strings arr) dir of
             Inl e \<Rightarrow> Inl (RuleError i key e)
           | Inr (expanded, ws) \<Rightarrow>
               (case expand_keys env i dir ks (AList.update key (TList (map TStr expanded)) m) of
                  Inl e \<Rightarrow> Inl e | Inr (m', ws') \<Rightarrow> Inr (m', ws @ ws')))
      | _ \<Rightarrow> expand_keys env i dir ks m)"

definition expandFileMatchList :: "os_env \<Rightarrow> toml \<Rightarrow> nat \<Rightarrow> string \<Rightarrow> cfg_error + toml \<times> warning list" where
  "expandFileMatchList env v ruleIdx configDir =
     (case v of
        TTable m \<Rightarrow>
          (case expand_keys env ruleIdx configDir [''domains'', ''cidrs''] m of
             Inl e \<Rightarrow> Inl e | Inr (m', ws) \<Rightarrow> Inr (TTable m', ws))
      | _ \<Rightarrow> Inr (v, []))"

section \<open>Loading\<close>

definition rulesFromMap :: "toml_table \<Rightarrow> toml_table list \<times> warning list" where
  "rulesFromMap m =
     (let rules = (case map_of m ''rules'' of Some (TTables r) \<Rightarrow> r | _ \<Rightarrow> []) in
      case map_of m ''policy'' of
        Some (TTable policy) \<Rightarrow>
          (case map_of policy ''overrides'' of
             Some (TTables overrides) \<Rightarrow> (rules @ overrides, [PolicyOverridesDeprecated])
           | _ \<Rightarrow> (rules, []))
      | _ \<Rightarrow> (rules, []))"

text \<open>
  One section of a rule: on an error the whole resolution stops. The order is dns, https, udp,
  connection.
\<close>

definition rule_section ::
  "nat \<Rightarrow> toml_table \<Rightarrow> string \<Rightarrow> (toml \<Rightarrow> 'o \<Rightarrow> (unit, 'o decoding) outcome) \<Rightarrow> (RuntimeConfig \<Rightarrow> 'o) \<Rightarrow>
   ('o \<Rightarrow> RuntimeConfig \<Rightarrow> RuntimeConfig) \<Rightarrow> Rule \<Rightarrow> (cfg_error, Rule) outcome" where
  "rule_section i item key u get put r =
     (case map_of item key of
        None \<Rightarrow> Ret r
      | Some v \<Rightarrow>
          (case u v (get (rule_Config r)) of
             Panic \<Rightarrow> Panic
           | Fail _ \<Rightarrow> Panic
           | Ret (x, Some e) \<Rightarrow> Fail (RuleError i key e)
           | Ret (x, None) \<Rightarrow> Ret (r\<lparr>rule_Config := put x (rule_Config r)\<rparr>)))"

definition rule_start :: "RuntimeConfig \<Rightarrow> Rule" where
  "rule_start base =
     \<lparr>rule_Name = [], Priority = 0, Block = False, Match = None,
      rule_Config = base\<lparr>cfg_HTTPS := (cfg_HTTPS base)\<lparr>https_Skip := False\<rparr>,
                         cfg_UDP := (cfg_UDP base)\<lparr>udp_Skip := False\<rparr>\<rparr>\<rparr>"

definition rule_name :: "toml_table \<Rightarrow> Rule \<Rightarrow> Rule" where
  "rule_name item r = (case map_of item ''name'' of Some (TStr v) \<Rightarrow> r\<lparr>rule_Name := v\<rparr> | _ \<Rightarrow> r)"

definition rule_priority :: "nat \<Rightarrow> toml_table \<Rightarrow> Rule \<Rightarrow> (cfg_error, Rule) outcome" where
  "rule_priority i item r =
     (case map_of item ''priority'' of
        None \<Rightarrow> Ret r
      | Some v \<Rightarrow>
          (case parseIntFn uint16 (Some checkUint16) v of
             Inl e \<Rightarrow> Fail (RuleError i ''priority'' e)
           | Inr pv \<Rightarrow> Ret (r\<lparr>Priority := pv\<rparr>)))"

definition rule_block :: "toml_table \<Rightarrow> Rule \<Rightarrow> Rule" where
  "rule_block item r = (case map_of item ''block'' of Some (TBool v) \<Rightarrow> r\<lparr>Block := v\<rparr> | _ \<Rightarrow> r)"

definition rule_match :: "nat \<Rightarrow> toml_table \<Rightarrow> Rule \<Rightarrow> (cfg_error, Rule) outcome" where
  "rule_match i item r =
     (case map_of item ''match'' of
        None \<Rightarrow> Ret r
      | Some v \<Rightarrow>
          (case decode_item MatchAttrs_UnmarshalTOML zero_match v of
             Panic \<Rightarrow> Panic
           | Fail e \<Rightarrow> Fail (RuleError i ''match'' e)
           | Ret a \<Rightarrow> Ret (r\<lparr>Match := Some a\<rparr>)))"

definition rule_head :: "RuntimeConfig \<Rightarrow> nat \<Rightarrow> toml_table \<Rightarrow> (cfg_error, Rule) outcome" where
  "rule_head base i item =
     obind (rule_priority i item (rule_name item (rule_start base))) (\<lambda>r. rule_match i item (rule_block item r))"

definition rule_sections :: "nat \<Rightarrow> toml_table \<Rightarrow> Rule \<Rightarrow> (cfg_error, Rule) outcome" where
  "rule_sections i item r =
     obind (rule_section i item ''dns'' DNSOptions_UnmarshalTOML cfg_DNS put_dns r) (\<lambda>r.
     obind (rule_section i item ''https'' HTTPSOptions_UnmarshalTOML cfg_HTTPS put_https r) (\<lambda>r.
     obind (rule_section i item ''udp'' UDPOptions_UnmarshalTOML cfg_UDP put_udp r) (\<lambda>r.
     rule_section i item ''connection'' ConnOptions_UnmarshalTOML cfg_Conn put_conn r)))"

definition resolve_rule :: "RuntimeConfig \<Rightarrow> nat \<Rightarrow> toml_table \<Rightarrow> (cfg_error, Rule) outcome" where
  "resolve_rule base i item = obind (rule_head base i item) (rule_sections i item)"

fun resolve_from :: "RuntimeConfig \<Rightarrow> nat \<Rightarrow> toml_table list \<Rightarrow> (cfg_error, Rule list) outcome" where
  "resolve_from base i [] = Ret []"
| "resolve_from base i (item # items) =
     obind (resolve_rule base i item) (\<lambda>r. obind (resolve_from base (i + 1) items) (\<lambda>rs. Ret (r # rs)))"

definition resolveRules :: "toml_table list \<Rightarrow> RuntimeConfig \<Rightarrow> (cfg_error, Rule list) outcome" where
  "resolveRules items base = resolve_from base 0 items"

definition searchTomlFile :: "(string \<Rightarrow> bool) \<Rightarrow> string \<Rightarrow> string list \<Rightarrow> cfg_error + string" where
  "searchTomlFile exists customDir lookupDirs =
     (if customDir \<noteq> [] then if exists customDir then Inr customDir else Inl (FileError customDir)
      else case find (\<lambda>p. p \<noteq> [] \<and> exists p) lookupDirs of Some p \<Rightarrow> Inr p | None \<Rightarrow> Inr [])"

definition DefaultConfig :: Config where
  "DefaultConfig =
     \<lparr>Startup =
        \<lparr>App = \<lparr>NoTUI = False, LogLevel = 1, Silent = False, AutoConfigureNetwork = False,
                app_Mode = AppModeHTTP, ListenAddr = \<lparr>tcp_IP = None, tcp_Port = 0\<rparr>, FreebsdFIB = 1\<rparr>,
         Rules = []\<rparr>,
      Runtime =
        \<lparr>cfg_Conn = \<lparr>DefaultFakeTTL = 8, DNSTimeout = 5000 * Millisecond, TCPTimeout = 10000 * Millisecond,
                     UDPIdleTimeout = 25000 * Millisecond\<rparr>,
         cfg_DNS = \<lparr>dns_Mode = DNSModeUDP, dns_Addr = \<lparr>tcp_IP = ParseIP ''8.8.8.8'', tcp_Port = 53\<rparr>,
                    HTTPSURL = ''https://dns.google/dns-query'', QType = DNSQueryIPv4, dns_Cache = False\<rparr>,
         cfg_HTTPS = \<lparr>Disorder = False, https_FakeCount = 0,
                      https_FakePacket = Some (NewFakeTLSMessage FakeClientHello),
                      SplitMode = HTTPSSplitModeSNI, ChunkSize = 35, https_Skip = False, CustomSegmentPlans = []\<rparr>,
         cfg_UDP = \<lparr>udp_Skip = False, udp_FakeCount = 0, udp_FakePacket = replicate 64 0\<rparr>\<rparr>\<rparr>"

definition fromTomlFile ::
  "(string \<Rightarrow> int option) \<Rightarrow> (string \<Rightarrow> toml_table option) \<Rightarrow> string \<Rightarrow> Config \<Rightarrow>
   (cfg_error, Config \<times> toml_table \<times> warning list) outcome" where
  "fromTomlFile ParseLevel DecodeFile dir cfg =
     (case DecodeFile dir of
        None \<Rightarrow> Fail (FileError dir)
      | Some m \<Rightarrow>
          (case Config_UnmarshalTOML ParseLevel (TTable m) cfg of
             Panic \<Rightarrow> Panic
           | Fail _ \<Rightarrow> Panic
           | Ret ((cfg', Some e), ws) \<Rightarrow> Fail e
           | Ret ((cfg', None), ws) \<Rightarrow> Ret (cfg', m, ws)))"

text \<open>The command line: the \<open>clean\<close> flag, the configured path and the default locations.\<close>

record command =
  clean :: bool
  config_path :: string
  config_dirs :: "string list"

definition loadTOML ::
  "os_env \<Rightarrow> (string \<Rightarrow> int option) \<Rightarrow> (string \<Rightarrow> toml_table option) \<Rightarrow> command \<Rightarrow> Config \<Rightarrow>
   (cfg_error, Config \<times> string \<times> toml_table list \<times> warning list) outcome" where
  "loadTOML env ParseLevel DecodeFile cmd cfg =
     (if clean cmd then Ret (cfg, [], [], [])
      else case searchTomlFile (file_exists env) (config_path cmd) (config_dirs cmd) of
        Inl e \<Rightarrow> Fail e
      | Inr configPath \<Rightarrow>
          if configPath = [] then Ret (cfg, [], [], [])
          else obind (fromTomlFile ParseLevel DecodeFile configPath cfg) (\<lambda>(cfg', m, ws).
            let (rules, ws') = rulesFromMap m in Ret (cfg', configPath, rules, ws @ ws')))"

fun expand_rules :: "os_env \<Rightarrow> string \<Rightarrow> nat \<Rightarrow> toml_table list \<Rightarrow> (cfg_error, toml_table list \<times> warning list) outcome" where
  "expand_rules env dir i [] = Ret ([], [])"
| "expand_rules env dir i (rule # rules) =
     obind (case map_of rule ''match'' of
              None \<Rightarrow> Ret (rule, [])
            | Some v \<Rightarrow>
                (case expandFileMatchList env v i dir of
                   Inl e \<Rightarrow> Fail e
                 | Inr (v', ws) \<Rightarrow> Ret (AList.update ''match'' v' rule, ws))) (\<lambda>(rule', ws).
     obind (expand_rules env dir (i + 1) rules) (\<lambda>(rules', ws'). Ret (rule' # rules', ws @ ws')))"

definition Load ::
  "os_env \<Rightarrow> (string \<Rightarrow> int option) \<Rightarrow> (string \<Rightarrow> toml_table option) \<Rightarrow> command \<Rightarrow> (Config \<Rightarrow> Config) list \<Rightarrow>
   (cfg_error, Config \<times> string \<times> warning list) outcome" where
  "Load env ParseLevel DecodeFile cmd cliOverrides =
     obind (loadTOML env ParseLevel DecodeFile cmd DefaultConfig) (\<lambda>(cfg, configPath, rawRules, ws).
     let (cfg, ws') = Finalize (foldl (\<lambda>c apply. apply c) cfg cliOverrides) in
     obind (expand_rules env (DirPath env configPath) 0 rawRules) (\<lambda>(rawRules, ws'').
     obind (resolveRules rawRules (Runtime cfg)) (\<lambda>rules.
     let cfg = cfg\<lparr>Startup := (Startup cfg)\<lparr>Rules := rules\<rparr>\<rparr> in
     case Validate cfg of
       Some e \<Rightarrow> Fail e
     | None \<Rightarrow> Ret (cfg, configPath, ws @ ws' @ ws''))))"

section \<open>Command-line flags\<close>

text \<open>
  Each flag: its \<open>Validator\<close>, then its \<open>Action\<close>, which appends one override. A flag that is not set adds
  nothing.
\<close>

type_synonym flag_action = "(cfg_error, Config \<Rightarrow> Config) outcome"

definition validated :: "'a check \<Rightarrow> 'a \<Rightarrow> (unit, 'b) outcome \<Rightarrow> (cfg_error, 'b) outcome" where
  "validated c v act =
     (case c v of Some e \<Rightarrow> Fail e | None \<Rightarrow> (case act of Ret f \<Rightarrow> Ret f | _ \<Rightarrow> Panic))"

definition flag_app_mode :: "string \<Rightarrow> flag_action" where
  "flag_app_mode v = validated checkAppMode v (obind (MustParseServerModeType v) (\<lambda>mode. Ret (\<lambda>cfg. put_app ((app_of cfg)\<lparr>app_Mode := mode\<rparr>) cfg)))"

definition flag_default_fake_ttl :: "int \<Rightarrow> flag_action" where
  "flag_default_fake_ttl v = validated checkUint8NonZero v (Ret (\<lambda>cfg. in_runtime put_conn ((cfg_Conn (Runtime cfg))\<lparr>DefaultFakeTTL := uint8 v\<rparr>) cfg))"

definition flag_dns_addr :: "string \<Rightarrow> flag_action" where
  "flag_dns_addr v = validated checkHostPort v (obind (MustParseTCPAddr v) (\<lambda>addr. Ret (\<lambda>cfg. in_runtime put_dns ((cfg_DNS (Runtime cfg))\<lparr>dns_Addr := addr\<rparr>) cfg)))"

definition flag_dns_cache :: "bool \<Rightarrow> flag_action" where
  "flag_dns_cache v = (Ret (\<lambda>cfg. in_runtime put_dns ((cfg_DNS (Runtime cfg))\<lparr>dns_Cache := v\<rparr>) cfg))"

definition flag_dns_mode :: "string \<Rightarrow> flag_action" where
  "flag_dns_mode v = validated checkDNSMode v (obind (MustParseDNSModeType v) (\<lambda>mode. Ret (\<lambda>cfg. in_runtime put_dns ((cfg_DNS (Runtime cfg))\<lparr>dns_Mode := mode\<rparr>) cfg)))"

definition flag_dns_https_url :: "string \<Rightarrow> flag_action" where
  "flag_dns_https_url v = validated checkHTTPSEndpoint v (Ret (\<lambda>cfg. in_runtime put_dns ((cfg_DNS (Runtime cfg))\<lparr>HTTPSURL := v\<rparr>) cfg))"

definition flag_dns_qtype :: "string \<Rightarrow> flag_action" where
  "flag_dns_qtype v = validated checkDNSQueryType v (obind (MustParseDNSQueryType v) (\<lambda>qtype. Ret (\<lambda>cfg. in_runtime put_dns ((cfg_DNS (Runtime cfg))\<lparr>QType := qtype\<rparr>) cfg)))"

definition flag_dns_timeout :: "int \<Rightarrow> flag_action" where
  "flag_dns_timeout v = validated checkUint16 v (Ret (\<lambda>cfg. in_runtime put_conn ((cfg_Conn (Runtime cfg))\<lparr>DNSTimeout := wrap64 (v * Millisecond)\<rparr>) cfg))"

definition flag_https_fake_count :: "int \<Rightarrow> flag_action" where
  "flag_https_fake_count v = validated checkUint8 v (Ret (\<lambda>cfg. in_runtime put_https ((cfg_HTTPS (Runtime cfg))\<lparr>https_FakeCount := uint8 v\<rparr>) cfg))"

definition flag_https_fake_packet :: "string \<Rightarrow> flag_action" where
  "flag_https_fake_packet v = validated checkHexBytesStr v (obind (MustParseBytes v) (\<lambda>pkt. Ret (\<lambda>cfg. in_runtime put_https ((cfg_HTTPS (Runtime cfg))\<lparr>https_FakePacket := Some (NewFakeTLSMessage pkt)\<rparr>) cfg)))"

definition flag_https_disorder :: "bool \<Rightarrow> flag_action" where
  "flag_https_disorder v = (Ret (\<lambda>cfg. in_runtime put_https ((cfg_HTTPS (Runtime cfg))\<lparr>Disorder := v\<rparr>) cfg))"

definition flag_https_split_mode :: "string \<Rightarrow> flag_action" where
  "flag_https_split_mode v = validated checkHTTPSSplitMode v (obind (mustParseHTTPSSplitModeType v) (\<lambda>mode. Ret (\<lambda>cfg. in_runtime put_https ((cfg_HTTPS (Runtime cfg))\<lparr>SplitMode := mode\<rparr>) cfg)))"

definition flag_https_skip :: "bool \<Rightarrow> flag_action" where
  "flag_https_skip v = (Ret (\<lambda>cfg. in_runtime put_https ((cfg_HTTPS (Runtime cfg))\<lparr>https_Skip := v\<rparr>) cfg))"

definition flag_https_chunk_size :: "int \<Rightarrow> flag_action" where
  "flag_https_chunk_size v = validated checkUint8NonZero v (Ret (\<lambda>cfg. in_runtime put_https ((cfg_HTTPS (Runtime cfg))\<lparr>ChunkSize := uint8 v\<rparr>) cfg))"

definition flag_udp_fake_count :: "int \<Rightarrow> flag_action" where
  "flag_udp_fake_count v = validated (int64Range 0 255) v (Ret (\<lambda>cfg. in_runtime put_udp ((cfg_UDP (Runtime cfg))\<lparr>udp_FakeCount := uint8 v\<rparr>) cfg))"

definition flag_udp_fake_packet :: "string \<Rightarrow> flag_action" where
  "flag_udp_fake_packet v = validated checkHexBytesStr v (obind (MustParseBytes v) (\<lambda>pkt. Ret (\<lambda>cfg. in_runtime put_udp ((cfg_UDP (Runtime cfg))\<lparr>udp_FakePacket := pkt\<rparr>) cfg)))"

definition flag_udp_skip :: "bool \<Rightarrow> flag_action" where
  "flag_udp_skip v = (Ret (\<lambda>cfg. in_runtime put_udp ((cfg_UDP (Runtime cfg))\<lparr>udp_Skip := v\<rparr>) cfg))"

definition flag_udp_idle_timeout :: "int \<Rightarrow> flag_action" where
  "flag_udp_idle_timeout v = validated checkUint16 v (Ret (\<lambda>cfg. in_runtime put_conn ((cfg_Conn (Runtime cfg))\<lparr>UDPIdleTimeout := wrap64 (v * Millisecond)\<rparr>) cfg))"

definition flag_listen_addr :: "string \<Rightarrow> flag_action" where
  "flag_listen_addr v = validated checkHostPort v (
     if v = [] then Ret id
     else obind (MustParseTCPAddr v) (\<lambda>addr. Ret (\<lambda>cfg. put_app ((app_of cfg)\<lparr>ListenAddr := addr\<rparr>) cfg)))"

definition flag_log_level :: "(string \<Rightarrow> int option) \<Rightarrow> string \<Rightarrow> flag_action" where
  "flag_log_level ParseLevel v = validated checkLogLevel v (
     obind (MustParseLogLevel ParseLevel v) (\<lambda>level. Ret (\<lambda>cfg. put_app ((app_of cfg)\<lparr>LogLevel := level\<rparr>) cfg)))"

definition flag_no_tui :: "bool \<Rightarrow> flag_action" where
  "flag_no_tui v = (Ret (\<lambda>cfg. put_app ((app_of cfg)\<lparr>NoTUI := v\<rparr>) cfg))"

definition flag_auto_configure_network :: "bool \<Rightarrow> flag_action" where
  "flag_auto_configure_network v = (Ret (\<lambda>cfg. put_app ((app_of cfg)\<lparr>AutoConfigureNetwork := v\<rparr>) cfg))"

definition flag_tcp_timeout :: "int \<Rightarrow> flag_action" where
  "flag_tcp_timeout v = validated checkUint16 v (Ret (\<lambda>cfg. in_runtime put_conn ((cfg_Conn (Runtime cfg))\<lparr>TCPTimeout := wrap64 (v * Millisecond)\<rparr>) cfg))"

definition flag_freebsd_fib :: "int \<Rightarrow> flag_action" where
  "flag_freebsd_fib v = validated checkFreeBSDFibID v (Ret (\<lambda>cfg. put_app ((app_of cfg)\<lparr>FreebsdFIB := v\<rparr>) cfg))"

section \<open>Decoding never panics\<close>

definition total_step :: "('s \<Rightarrow> (unit, 's) outcome) \<Rightarrow> bool" where
  "total_step f \<longleftrightarrow> (\<forall>s. \<exists>s'. f s = Ret s')"

named_theorems total_intros \<open>introduction rules for steps that always return\<close>

lemma chain_total [total_intros]: "list_all total_step fs \<Longrightarrow> total_step (chain fs)"
proof (induction fs)
  case (Cons f fs)
  show ?case unfolding total_step_def
  proof
    fix s
    obtain t where "f s = Ret t" using Cons.prems by (auto simp: total_step_def)
    moreover obtain s' where "chain fs t = Ret s'" using Cons by (auto simp: total_step_def)
    ultimately show "\<exists>s'. chain (f # fs) s = Ret s'" by simp
  qed
qed (simp add: total_step_def)

lemma set_field_total:
  assumes "\<And>v x opts. p v = Inr x \<Longrightarrow> \<exists>opts'. upd x opts = Ret opts'"
  shows "total_step (set_field m key p upd)"
  unfolding total_step_def
proof
  fix st :: "'b decoding"
  obtain r err where f: "findFrom m key p (snd st) = (r, err)" by fastforce
  show "\<exists>s'. set_field m key p upd st = Ret s'"
  proof (cases "isOk r err")
    case True
    then obtain x where "r = Some x" by (auto simp: isOk_def)
    then obtain v where "p v = Inr x" using f by (auto simp: findFrom_def split: if_splits option.splits sum.splits)
    then obtain opts' where "upd x (fst st) = Ret opts'" using assms by blast
    with True f \<open>r = Some x\<close> show ?thesis by (simp add: set_field_def)
  qed (simp add: f set_field_def)
qed

lemma set_field_pure_total [total_intros]: "total_step (set_field m key p (pure_upd f))"
  by (rule set_field_total) (simp add: pure_upd_def)

lemma set_slice_total [total_intros]: "total_step (set_slice typed m key p f)"
  by (auto simp: total_step_def set_slice_def split: prod.splits option.splits)

lemma parseStringFn_ok: "parseStringFn (Some c) v = Inr s \<Longrightarrow> c s = None"
  by (auto simp: parseStringFn_def split: toml.splits option.splits)

text \<open>A checked string field whose conversion is defined on everything the check accepts.\<close>

lemma set_checked_total:
  assumes "\<And>s. c s = None \<Longrightarrow> \<exists>t. conv s = Ret t"
  shows "total_step (set_field m key (parseStringFn (Some c)) (\<lambda>p opts. obind (conv p) (\<lambda>t. Ret (f t opts))))"
proof (rule set_field_total)
  fix v x and opts :: 'b
  assume "parseStringFn (Some c) v = Inr x"
  then obtain t where "conv x = Ret t" using assms parseStringFn_ok by blast
  then show "\<exists>opts'. obind (conv x) (\<lambda>t. Ret (f t opts)) = Ret opts'" by simp
qed

lemma must_parse_returns:
  "checkAppMode s = None \<Longrightarrow> \<exists>t. MustParseServerModeType s = Ret t"
  "checkDNSMode s = None \<Longrightarrow> \<exists>t. MustParseDNSModeType s = Ret t"
  "checkDNSQueryType s = None \<Longrightarrow> \<exists>t. MustParseDNSQueryType s = Ret t"
  "checkHTTPSSplitMode s = None \<Longrightarrow> \<exists>t. mustParseHTTPSSplitModeType s = Ret t"
  "checkSegmentFrom s = None \<Longrightarrow> \<exists>t. mustParseSegmentFromType s = Ret t"
  "checkHostPort s = None \<Longrightarrow> \<exists>t. MustParseTCPAddr s = Ret t"
  using must_parse_defined host_port_defined
  by (auto simp: MustParseServerModeType_def MustParseDNSModeType_def MustParseDNSQueryType_def
      mustParseHTTPSSplitModeType_def mustParseSegmentFromType_def check_defs split: if_splits; metis)+

definition known_levels :: "(string \<Rightarrow> int option) \<Rightarrow> bool" where
  "known_levels ParseLevel \<longleftrightarrow> (\<forall>s \<in> set availableLogLevelValues. ParseLevel s \<noteq> None)"

lemma log_level_returns:
  "known_levels ParseLevel \<Longrightarrow> checkLogLevel s = None \<Longrightarrow> \<exists>t. MustParseLogLevel ParseLevel s = Ret t"
  by (auto simp: known_levels_def checkLogLevel_def checkOneOf_def MustParseLogLevel_def split: if_splits option.splits)

definition total_decoder :: "(toml \<Rightarrow> 'o \<Rightarrow> (unit, 'o decoding) outcome) \<Rightarrow> bool" where
  "total_decoder u \<longleftrightarrow> (\<forall>v opts. \<exists>st. u v opts = Ret st)"

lemmas total_checked =
  set_checked_total [of checkAppMode MustParseServerModeType, OF must_parse_returns(1)]
  set_checked_total [of checkDNSMode MustParseDNSModeType, OF must_parse_returns(2)]
  set_checked_total [of checkDNSQueryType MustParseDNSQueryType, OF must_parse_returns(3)]
  set_checked_total [of checkHTTPSSplitMode mustParseHTTPSSplitModeType, OF must_parse_returns(4)]
  set_checked_total [of checkSegmentFrom mustParseSegmentFromType, OF must_parse_returns(5)]
  set_checked_total [of checkHostPort MustParseTCPAddr, OF must_parse_returns(6)]

lemma total_stepD: "total_step f \<Longrightarrow> \<exists>s'. f s = Ret s'"
  by (simp add: total_step_def)

lemma total_log_level:
  assumes "known_levels ParseLevel"
  shows "total_step (set_field m key (parseStringFn (Some checkLogLevel))
    (\<lambda>p opts. obind (MustParseLogLevel ParseLevel p) (\<lambda>t. Ret (f t opts))))"
  by (rule set_checked_total) (rule log_level_returns [OF assms])

lemma chain_returns: "list_all total_step fs \<Longrightarrow> \<exists>st. chain fs s = Ret st"
  using chain_total by (auto simp: total_step_def)

lemma app_total: "known_levels ParseLevel \<Longrightarrow> total_decoder (AppOptions_UnmarshalTOML ParseLevel)"
  unfolding total_decoder_def AppOptions_UnmarshalTOML_def
  by (intro allI, case_tac v)
    (simp_all del: chain.simps split_paired_Ex add: chain_returns total_intros total_checked total_log_level)

lemma conn_total: "total_decoder ConnOptions_UnmarshalTOML"
  unfolding total_decoder_def ConnOptions_UnmarshalTOML_def
  by (intro allI, case_tac v) (simp_all del: chain.simps split_paired_Ex add: chain_returns total_intros)

lemma dns_total: "total_decoder DNSOptions_UnmarshalTOML"
  unfolding total_decoder_def DNSOptions_UnmarshalTOML_def
  by (intro allI, case_tac v)
    (simp_all del: chain.simps split_paired_Ex add: chain_returns total_intros total_checked)

lemma udp_total: "total_decoder UDPOptions_UnmarshalTOML"
  unfolding total_decoder_def UDPOptions_UnmarshalTOML_def
  by (intro allI, case_tac v) (simp_all del: chain.simps split_paired_Ex add: chain_returns total_intros)

lemma plan_total: "total_decoder SegmentPlan_UnmarshalTOML"
  unfolding total_decoder_def
proof (intro allI)
  fix v and s :: SegmentPlan
  show "\<exists>st. SegmentPlan_UnmarshalTOML v s = Ret st"
  proof (cases v)
    case (TTable m)
    obtain st where "set_field m ''from'' (parseStringFn (Some checkSegmentFrom))
        (\<lambda>p s. obind (mustParseSegmentFromType p) (\<lambda>t. Ret (s\<lparr>From := t\<rparr>))) (s, None) = Ret st"
      using total_checked(5) [THEN total_stepD] by metis
    then show ?thesis
      by (simp del: chain.simps split_paired_Ex add: TTable SegmentPlan_UnmarshalTOML_def chain_returns total_intros)
  qed (simp_all add: SegmentPlan_UnmarshalTOML_def)
qed

lemma decode_item_defined: "total_decoder u \<Longrightarrow> decode_item u z v \<noteq> Panic"
  unfolding total_decoder_def decode_item_def by (metis (no_types, lifting) outcome.distinct outcome.simps option.exhaust option.simps prod.exhaust case_prod_conv)

lemma struct_items_defined: "(\<And>v. u v \<noteq> Panic) \<Longrightarrow> struct_items u key i xs \<noteq> Panic"
  by (induction xs arbitrary: i) (auto simp: obind_Panic_conv split: outcome.splits)

lemma struct_slice_defined:
  assumes "\<And>v. u v \<noteq> Panic"
  shows "\<exists>st. findStructSliceFrom u m key err = Ret st"
  using struct_items_defined [OF assms]
  by (auto simp: findStructSliceFrom_def split: option.splits outcome.splits toml.splits)

lemma custom_steps_total: "total_step (custom_segments m)" "total_step check_custom"
proof -
  show "total_step check_custom" by (simp add: total_step_def check_custom_def)
  show "total_step (custom_segments m)"
    unfolding total_step_def
  proof
    fix st :: "HTTPSOptions decoding"
    obtain pl err where "findStructSliceFrom (decode_item SegmentPlan_UnmarshalTOML zero_plan) m ''custom-segments'' (snd st) =
        Ret (pl, err)"
      using struct_slice_defined [of "decode_item SegmentPlan_UnmarshalTOML zero_plan" m, OF decode_item_defined [OF plan_total]]
      by (metis prod.exhaust)
    then show "\<exists>s'. custom_segments m st = Ret s'" by (simp add: custom_segments_def)
  qed
qed

lemma https_total: "total_decoder HTTPSOptions_UnmarshalTOML"
  unfolding total_decoder_def HTTPSOptions_UnmarshalTOML_def
  by (intro allI, case_tac v)
    (simp_all del: chain.simps split_paired_Ex add: chain_returns total_intros total_checked custom_steps_total)

lemma match_total: "total_decoder MatchAttrs_UnmarshalTOML"
  by (auto simp: total_decoder_def MatchAttrs_UnmarshalTOML_def Let_def split: toml.splits prod.splits option.splits)

lemma set_section_total [total_intros]: "total_decoder u \<Longrightarrow> total_step (set_section m key u get put)"
proof -
  assume u: "total_decoder u"
  show ?thesis
    unfolding total_step_def
  proof
    fix st
    show "\<exists>s'. set_section m key u get put st = Ret s'"
    proof (cases "map_of m key")
      case (Some v)
      obtain x err where "u v (get (fst st)) = Ret (x, err)"
        using u unfolding total_decoder_def by (metis prod.exhaust)
      with Some show ?thesis by (simp add: set_section_def)
    qed (simp add: set_section_def)
  qed
qed

lemma config_total:
  assumes "known_levels ParseLevel"
  shows "\<exists>st ws. Config_UnmarshalTOML ParseLevel data c = Ret (st, ws)"
proof (cases data)
  case (TTable m)
  let ?fs = "[set_section m ''app'' (AppOptions_UnmarshalTOML ParseLevel) app_of put_app,
             set_section m ''connection'' ConnOptions_UnmarshalTOML (cfg_Conn \<circ> Runtime) (in_runtime put_conn),
             set_section m ''dns'' DNSOptions_UnmarshalTOML (cfg_DNS \<circ> Runtime) (in_runtime put_dns),
             set_section m ''https'' HTTPSOptions_UnmarshalTOML (cfg_HTTPS \<circ> Runtime) (in_runtime put_https),
             set_section m ''udp'' UDPOptions_UnmarshalTOML (cfg_UDP \<circ> Runtime) (in_runtime put_udp)]"
  have "list_all total_step ?fs"
    using app_total [OF assms] conn_total dns_total https_total udp_total by (simp add: set_section_total)
  from chain_returns [OF this] obtain st where "chain ?fs (c, None) = Ret st" ..
  then show ?thesis unfolding TTable Config_UnmarshalTOML_def toml.case by (simp only: obind.simps) blast
qed (simp_all add: Config_UnmarshalTOML_def)

lemma rule_section_defined: "total_decoder u \<Longrightarrow> rule_section i item key u get put r \<noteq> Panic"
proof (cases "map_of item key")
  case (Some v)
  assume "total_decoder u"
  then obtain x err where "u v (get (rule_Config r)) = Ret (x, err)"
    unfolding total_decoder_def by (metis prod.exhaust)
  with Some show ?thesis by (cases err) (simp_all add: rule_section_def)
qed (simp add: rule_section_def)

lemma rule_head_defined: "rule_head base i item \<noteq> Panic"
proof -
  have "rule_priority i item r \<noteq> Panic" for r
    by (auto simp: rule_priority_def split: option.splits sum.splits)
  moreover have "rule_match i item r \<noteq> Panic" for r
    using decode_item_defined [OF match_total, of zero_match]
    by (auto simp: rule_match_def split: option.splits outcome.splits)
  ultimately show ?thesis by (simp add: rule_head_def obind_Panic_conv)
qed

lemma resolve_rule_defined: "resolve_rule base i item \<noteq> Panic"
  unfolding resolve_rule_def rule_sections_def obind_Panic_conv
  by (simp add: rule_head_defined rule_section_defined [OF dns_total] rule_section_defined [OF https_total]
    rule_section_defined [OF udp_total] rule_section_defined [OF conn_total])

lemma resolve_from_defined: "resolve_from base i items \<noteq> Panic"
  by (induction items arbitrary: i) (auto simp: obind_Panic_conv resolve_rule_defined)

lemma expand_rules_defined: "expand_rules env dir i rules \<noteq> Panic"
  by (induction rules arbitrary: i) (auto simp: obind_Panic_conv split: option.splits sum.splits prod.splits)

lemma loadTOML_defined:
  assumes "known_levels ParseLevel"
  shows "loadTOML env ParseLevel DecodeFile cmd cfg \<noteq> Panic"
proof -
  have "fromTomlFile ParseLevel DecodeFile dir c \<noteq> Panic" for dir c
  proof (cases "DecodeFile dir")
    case (Some m)
    obtain c' err ws where "Config_UnmarshalTOML ParseLevel (TTable m) c = Ret ((c', err), ws)"
      using config_total [OF assms, of "TTable m" c] by (metis prod.exhaust)
    with Some show ?thesis by (cases err) (simp_all add: fromTomlFile_def)
  qed (simp add: fromTomlFile_def)
  then show ?thesis
    by (auto simp: loadTOML_def obind_Panic_conv Let_def split: sum.splits prod.splits)
qed

text \<open>Loading a configuration never panics, whatever the files, the decoded tables, the command line and
  the overrides are: every word a check lets through is one its conversion knows. The hypothesis is
  that \<open>zerolog\<close> knows the six level names the check allows.\<close>

theorem load_never_panics:
  assumes "known_levels ParseLevel"
  shows "Load env ParseLevel DecodeFile cmd overrides \<noteq> Panic"
  unfolding Load_def resolveRules_def
  using loadTOML_defined [OF assms] resolve_from_defined expand_rules_defined
  by (auto simp: obind_Panic_conv Let_def split: prod.splits option.splits)

definition zerolog_levels :: "string \<Rightarrow> int option" where
  "zerolog_levels = map_of [(''trace'', -1), (''debug'', 0), (''info'', 1), (''warn'', 2), (''error'', 3),
     (''fatal'', 4), (''panic'', 5), (''disabled'', 7), ([], 6)]"

definition no_files :: os_env where
  "no_files = \<lparr>ExpandEnv = id, UserHomeDir = None, JoinPath = (\<lambda>a b. a @ ''/'' @ b), IsAbs = (\<lambda>p. has_prefix p ''/''),
     DirPath = id, file_content = (\<lambda>_. Inl NotExist), file_exists = (\<lambda>p. p = ''/etc/spoofdpi.toml'')\<rparr>"

definition example_toml :: "string \<Rightarrow> toml_table option" where
  "example_toml = (\<lambda>_. Some
     [(''app'', TTable [(''mode'', TStr ''socks5''), (''log-level'', TStr ''warn'')]),
      (''https'', TTable [(''skip'', TBool True), (''chunk-size'', TInt 10)]),
      (''rules'', TTables [[(''name'', TStr ''video''), (''priority'', TInt 7),
         (''match'', TTable [(''domains'', TList [TStr ''**.youtube.com'', TInt 3])]),
         (''https'', TTable [(''split-mode'', TStr ''chunk'')])]])])"

definition example_command :: command where
  "example_command = \<lparr>clean = False, config_path = [], config_dirs = [''/etc/spoofdpi.toml'']\<rparr>"

theorem load_never_panics_witness:
  "known_levels zerolog_levels \<and>
   Load no_files zerolog_levels example_toml example_command [] \<noteq> Panic"
proof -
  have "known_levels zerolog_levels"
    by (simp add: known_levels_def zerolog_levels_def availableLogLevelValues_def)
  with load_never_panics show ?thesis by blast
qed

section \<open>Absent keys keep their values\<close>

definition keeps :: "('o \<Rightarrow> 'f) \<Rightarrow> ('o decoding \<Rightarrow> (unit, 'o decoding) outcome) \<Rightarrow> bool" where
  "keeps g f \<longleftrightarrow> (\<forall>s s'. f s = Ret s' \<longrightarrow> g (fst s') = g (fst s))"

lemma keeps_chain: "list_all (keeps g) fs \<Longrightarrow> keeps g (chain fs)"
proof (induction fs)
  case (Cons f fs)
  then have k: "keeps g f" "keeps g (chain fs)" by simp_all
  show ?case unfolding keeps_def
  proof (intro allI impI)
    fix s s' assume "chain (f # fs) s = Ret s'"
    then obtain t where "f s = Ret t" "chain fs t = Ret s'" by (auto simp: obind_Ret_conv)
    then show "g (fst s') = g (fst s)" using k unfolding keeps_def by metis
  qed
qed (simp add: keeps_def)

lemma chain_keeps: "chain fs s = Ret s' \<Longrightarrow> list_all (keeps g) fs \<Longrightarrow> g (fst s') = g (fst s)"
  using keeps_chain unfolding keeps_def by blast

lemma keeps_absent: "map_of m key = None \<Longrightarrow> keeps g (set_field m key p upd)"
  "map_of m key = None \<Longrightarrow> keeps g (set_slice typed m key q f)"
  by (auto simp: keeps_def set_field_def set_slice_def findFrom_def findSliceFrom_def isOk_def)

lemma keeps_pure:
  assumes "\<And>x opts. g (f x opts) = g opts"
  shows "keeps g (set_field m key p (pure_upd f))"
  using assms by (auto simp: keeps_def set_field_def pure_upd_def split: prod.splits if_splits)

lemma keeps_conv:
  assumes "\<And>x opts. g (f x opts) = g opts"
  shows "keeps g (set_field m key p (\<lambda>q opts. obind (conv q) (\<lambda>t. Ret (f t opts))))"
  using assms by (auto simp: keeps_def set_field_def obind_Ret_conv split: prod.splits if_splits)

lemma keeps_slice:
  assumes "\<And>x opts. g (f x opts) = g opts"
  shows "keeps g (set_slice typed m key p f)"
  using assms by (auto simp: keeps_def set_slice_def split: prod.splits option.splits)

lemma keeps_custom:
  "(\<And>ps opts. g (opts\<lparr>CustomSegmentPlans := ps\<rparr>) = g opts) \<Longrightarrow> keeps g (custom_segments m)"
  "map_of m ''custom-segments'' = None \<Longrightarrow> keeps g (custom_segments m)"
  "keeps g check_custom"
  by (auto simp: keeps_def custom_segments_def check_custom_def findStructSliceFrom_def obind_Ret_conv split: prod.splits option.splits if_splits)

lemmas keeps_rules = keeps_absent keeps_pure keeps_conv keeps_slice keeps_custom

text \<open>Decoding an \<open>https\<close> or \<open>udp\<close> table leaves every option whose key the table does not have as it was, also when
  decoding ends with an error. This is what lets rule tables inherit from the base configuration.\<close>

theorem absent_keys_keep_values:
  assumes "HTTPSOptions_UnmarshalTOML (TTable m) h = Ret (h', e)"
    and "UDPOptions_UnmarshalTOML (TTable u) d = Ret (d', e2)"
  shows "(map_of m ''disorder'' = None \<longrightarrow> Disorder h' = Disorder h) \<and>
     (map_of m ''fake-count'' = None \<longrightarrow> https_FakeCount h' = https_FakeCount h) \<and>
     (map_of m ''fake-packet'' = None \<longrightarrow> https_FakePacket h' = https_FakePacket h) \<and>
     (map_of m ''split-mode'' = None \<longrightarrow> SplitMode h' = SplitMode h) \<and>
     (map_of m ''chunk-size'' = None \<longrightarrow> ChunkSize h' = ChunkSize h) \<and>
     (map_of m ''skip'' = None \<longrightarrow> https_Skip h' = https_Skip h) \<and>
     (map_of m ''custom-segments'' = None \<longrightarrow> CustomSegmentPlans h' = CustomSegmentPlans h) \<and>
     (map_of u ''skip'' = None \<longrightarrow> udp_Skip d' = udp_Skip d) \<and>
     (map_of u ''fake-count'' = None \<longrightarrow> udp_FakeCount d' = udp_FakeCount d) \<and>
     (map_of u ''fake-packet'' = None \<longrightarrow> udp_FakePacket d' = udp_FakePacket d)"
proof -
  note h = assms(1) [unfolded HTTPSOptions_UnmarshalTOML_def toml.case, THEN chain_keeps, unfolded fst_conv]
  note d = assms(2) [unfolded UDPOptions_UnmarshalTOML_def toml.case, THEN chain_keeps, unfolded fst_conv]
  show ?thesis
    by (intro conjI impI h d) (simp_all add: keeps_rules)
qed

theorem absent_keys_keep_values_witness:
  "HTTPSOptions_UnmarshalTOML (TTable [(''chunk-size'', TInt 9)]) (cfg_HTTPS (Runtime DefaultConfig)) =
     Ret ((cfg_HTTPS (Runtime DefaultConfig))\<lparr>ChunkSize := 9\<rparr>, None) \<and>
   SplitMode ((cfg_HTTPS (Runtime DefaultConfig))\<lparr>ChunkSize := 9\<rparr>) = HTTPSSplitModeSNI"
proof -
  let ?h = "cfg_HTTPS (Runtime DefaultConfig)"
  have h: "HTTPSOptions_UnmarshalTOML (TTable [(''chunk-size'', TInt 9)]) ?h = Ret (?h\<lparr>ChunkSize := 9\<rparr>, None)"
    by (simp add: HTTPSOptions_UnmarshalTOML_def set_field_def set_slice_def findFrom_def findSliceFrom_def isOk_def
      parseIntFn_def checkUint8NonZero_def int64Range_def pure_upd_def custom_segments_def check_custom_def
      findStructSliceFrom_def uint8_def DefaultConfig_def)
  have u: "UDPOptions_UnmarshalTOML (TTable []) (cfg_UDP (Runtime DefaultConfig)) = Ret (cfg_UDP (Runtime DefaultConfig), None)"
    by (simp add: UDPOptions_UnmarshalTOML_def set_field_def set_slice_def findFrom_def findSliceFrom_def isOk_def)
  from absent_keys_keep_values [OF h u] h show ?thesis by (simp add: DefaultConfig_def)
qed

section \<open>What rules inherit\<close>

definition sticky :: "('o decoding \<Rightarrow> (unit, 'o decoding) outcome) \<Rightarrow> bool" where
  "sticky f \<longleftrightarrow> (\<forall>s s'. f s = Ret s' \<longrightarrow> snd s' = None \<longrightarrow> snd s = None)"

lemma sticky_rules:
  "sticky (set_field m key p upd)" "sticky (set_slice typed m key q f)" "sticky (custom_segments m)" "sticky check_custom"
  by (auto simp: sticky_def set_field_def set_slice_def findFrom_def findSliceFrom_def custom_segments_def
    check_custom_def findStructSliceFrom_def isOk_def obind_Ret_conv split: prod.splits if_splits option.splits)

lemma sticky_chain: "list_all sticky fs \<Longrightarrow> chain fs s = Ret s' \<Longrightarrow> snd s' = None \<Longrightarrow> snd s = None"
proof (induction fs arbitrary: s)
  case (Cons f fs)
  then obtain t where "f s = Ret t" "chain fs t = Ret s'" by (auto simp: obind_Ret_conv)
  moreover from this have "snd t = None" using Cons by simp
  moreover have "sticky f" using Cons.prems(1) by simp
  ultimately show ?case unfolding sticky_def by metis
qed simp

lemma chain_append: "chain (fs @ gs) = (\<lambda>s. obind (chain fs s) (chain gs))"
proof (induction fs)
  case (Cons f fs)
  show ?case by (rule ext) (simp add: Cons)
qed (simp add: fun_eq_iff)

text \<open>The value a boolean option has after a successful decoding in which one step alone sets it.\<close>

lemma bool_option_value:
  assumes "chain (pre @ set_field m key parseBoolFn (pure_upd f) # post) (h, None) = Ret (h', None)"
    and "list_all (keeps g) (pre @ post)" "list_all sticky post" "\<And>b opts. g (f b opts) = b"
  shows "g h' = (case map_of m key of Some (TBool b) \<Rightarrow> b | _ \<Rightarrow> g h)" "map_of m key = None \<or> (\<exists>b. map_of m key = Some (TBool b))"
proof -
  let ?step = "set_field m key parseBoolFn (pure_upd f)"
  obtain s t where st: "chain pre (h, None) = Ret s" "?step s = Ret t" "chain post t = Ret (h', None)"
    using assms(1) by (auto simp: chain_append obind_Ret_conv)
  have "g h' = g (fst t)" "g (fst s) = g h"
    using chain_keeps [OF st(3), of g] chain_keeps [OF st(1), of g] assms(2) by simp_all
  moreover have "snd t = None" using sticky_chain [OF assms(3) st(3)] by simp
  ultimately show "g h' = (case map_of m key of Some (TBool b) \<Rightarrow> b | _ \<Rightarrow> g h)"
    "map_of m key = None \<or> (\<exists>b. map_of m key = Some (TBool b))"
    using st(2) assms(4)
    by (auto simp: set_field_def findFrom_def isOk_def pure_upd_def parseBoolFn_def
      split: option.splits if_splits sum.splits toml.splits)
qed

lemma https_skip_value:
  assumes "HTTPSOptions_UnmarshalTOML (TTable m) h = Ret (h', None)" "\<not> https_Skip h"
  shows "https_Skip h' \<longleftrightarrow> map_of m ''skip'' = Some (TBool True)"
proof -
  let ?pre = "[set_field m ''disorder'' parseBoolFn (pure_upd (\<lambda>p opts. opts\<lparr>Disorder := p\<rparr>)),
     set_field m ''fake-count'' (parseIntFn uint8 (Some checkUint8)) (pure_upd (\<lambda>p opts. opts\<lparr>https_FakeCount := p\<rparr>)),
     set_slice typed_bytes m ''fake-packet'' (parseByteFn None)
       (\<lambda>b opts. opts\<lparr>https_FakePacket := Some (NewFakeTLSMessage b)\<rparr>),
     set_field m ''split-mode'' (parseStringFn (Some checkHTTPSSplitMode))
       (\<lambda>p opts. obind (mustParseHTTPSSplitModeType p) (\<lambda>t. Ret (opts\<lparr>SplitMode := t\<rparr>))),
     set_field m ''chunk-size'' (parseIntFn uint8 (Some checkUint8NonZero)) (pure_upd (\<lambda>p opts. opts\<lparr>ChunkSize := p\<rparr>))]"
  have c: "chain (?pre @ set_field m ''skip'' parseBoolFn (pure_upd (\<lambda>p opts. opts\<lparr>https_Skip := p\<rparr>)) #
      [custom_segments m, check_custom]) (h, None) = Ret (h', None)"
    using assms(1) unfolding HTTPSOptions_UnmarshalTOML_def toml.case by (simp only: append.simps)
  have "list_all (keeps https_Skip) (?pre @ [custom_segments m, check_custom])"
    "list_all sticky [custom_segments m, check_custom]"
    by (simp_all add: keeps_rules sticky_rules)
  from bool_option_value [OF c this] assms(2) show ?thesis by (auto split: option.splits)
qed

lemma udp_skip_value:
  assumes "UDPOptions_UnmarshalTOML (TTable m) h = Ret (h', None)" "\<not> udp_Skip h"
  shows "udp_Skip h' \<longleftrightarrow> map_of m ''skip'' = Some (TBool True)"
proof -
  let ?post = "[set_field m ''fake-count'' (parseIntFn uint8 (Some checkUint8)) (pure_upd (\<lambda>p opts. opts\<lparr>udp_FakeCount := p\<rparr>)),
     set_slice typed_bytes m ''fake-packet'' (parseByteFn None) (\<lambda>b opts. opts\<lparr>udp_FakePacket := b\<rparr>)]"
  have c: "chain ([] @ set_field m ''skip'' parseBoolFn (pure_upd (\<lambda>p opts. opts\<lparr>udp_Skip := p\<rparr>)) # ?post) (h, None) = Ret (h', None)"
    using assms(1) unfolding UDPOptions_UnmarshalTOML_def toml.case by (simp only: append.simps)
  have "list_all (keeps udp_Skip) ([] @ ?post)" "list_all sticky ?post"
    by (simp_all add: keeps_rules sticky_rules)
  from bool_option_value [OF c this] assms(2) show ?thesis by (auto split: option.splits)
qed

text \<open>A section of a rule that succeeds: unchanged without its table, decoded over the inherited one else.\<close>

lemma rule_section_Ret:
  "rule_section i item key u get put r = Ret r' \<longleftrightarrow>
     (map_of item key = None \<and> r' = r \<or>
      (\<exists>v x. map_of item key = Some v \<and> u v (get (rule_Config r)) = Ret (x, None) \<and>
         r' = r\<lparr>rule_Config := put x (rule_Config r)\<rparr>))"
  by (auto simp: rule_section_def split: option.splits outcome.splits prod.splits)

definition own_skip :: "toml_table \<Rightarrow> string \<Rightarrow> bool" where
  "own_skip item key \<longleftrightarrow> (\<exists>m. map_of item key = Some (TTable m) \<and> map_of m ''skip'' = Some (TBool True))"

lemma non_table:
  "\<forall>m. v \<noteq> TTable m \<Longrightarrow> HTTPSOptions_UnmarshalTOML v h = Ret (h, Some (NonTable ''https''))"
  "\<forall>m. v \<noteq> TTable m \<Longrightarrow> UDPOptions_UnmarshalTOML v d = Ret (d, Some (NonTable ''udp''))"
  by (cases v; simp add: HTTPSOptions_UnmarshalTOML_def UDPOptions_UnmarshalTOML_def)+

lemma https_table_only: "HTTPSOptions_UnmarshalTOML v h = Ret (x, None) \<Longrightarrow> \<exists>m. v = TTable m"
  "UDPOptions_UnmarshalTOML v d = Ret (y, None) \<Longrightarrow> \<exists>m. v = TTable m"
  using non_table [of v] by (metis Pair_inject option.distinct(1) outcome.inject(1))+

lemma rule_head_config:
  assumes "rule_head base i item = Ret r"
  shows "rule_Config r = rule_Config (rule_start base)"
proof -
  have "rule_Config (rule_name item q) = rule_Config q" "rule_Config (rule_block item q) = rule_Config q" for q
    by (auto simp: rule_name_def rule_block_def split: option.splits toml.splits)
  moreover have "rule_priority i item q = Ret q' \<Longrightarrow> rule_Config q' = rule_Config q" for q q'
    by (auto simp: rule_priority_def split: option.splits sum.splits)
  moreover have "rule_match i item q = Ret q' \<Longrightarrow> rule_Config q' = rule_Config q" for q q'
    by (auto simp: rule_match_def split: option.splits outcome.splits)
  ultimately show ?thesis using assms unfolding rule_head_def obind_Ret_conv by metis
qed

text \<open>A rule starts from the base configuration with both skip switches off. Sections its table does not have
  are inherited; \<open>skip\<close> is on in a resolved rule exactly when the rule's own table says so, never
  because the base configuration says so.\<close>

theorem rules_inherit_all_but_skip:
  assumes "resolve_rule base i item = Ret r"
  shows "(map_of item ''dns'' = None \<longrightarrow> cfg_DNS (rule_Config r) = cfg_DNS base) \<and>
     (map_of item ''connection'' = None \<longrightarrow> cfg_Conn (rule_Config r) = cfg_Conn base) \<and>
     (map_of item ''https'' = None \<longrightarrow> cfg_HTTPS (rule_Config r) = (cfg_HTTPS base)\<lparr>https_Skip := False\<rparr>) \<and>
     (map_of item ''udp'' = None \<longrightarrow> cfg_UDP (rule_Config r) = (cfg_UDP base)\<lparr>udp_Skip := False\<rparr>) \<and>
     (https_Skip (cfg_HTTPS (rule_Config r)) \<longleftrightarrow> own_skip item ''https'') \<and>
     (udp_Skip (cfg_UDP (rule_Config r)) \<longleftrightarrow> own_skip item ''udp'')"
proof -
  obtain r0 r1 r2 r3 where head: "rule_head base i item = Ret r0"
    and dns: "rule_section i item ''dns'' DNSOptions_UnmarshalTOML cfg_DNS put_dns r0 = Ret r1"
    and https: "rule_section i item ''https'' HTTPSOptions_UnmarshalTOML cfg_HTTPS put_https r1 = Ret r2"
    and udp: "rule_section i item ''udp'' UDPOptions_UnmarshalTOML cfg_UDP put_udp r2 = Ret r3"
    and conn: "rule_section i item ''connection'' ConnOptions_UnmarshalTOML cfg_Conn put_conn r3 = Ret r"
    using assms unfolding resolve_rule_def rule_sections_def obind_Ret_conv by blast
  note start = rule_head_config [OF head, unfolded rule_start_def]
  have d: "cfg_Conn (rule_Config r1) = cfg_Conn (rule_Config r0)" "cfg_HTTPS (rule_Config r1) = cfg_HTTPS (rule_Config r0)"
    "cfg_UDP (rule_Config r1) = cfg_UDP (rule_Config r0)"
    "map_of item ''dns'' = None \<Longrightarrow> cfg_DNS (rule_Config r1) = cfg_DNS (rule_Config r0)"
    using dns unfolding rule_section_Ret by (auto simp: put_dns_def)
  have h: "cfg_Conn (rule_Config r2) = cfg_Conn (rule_Config r1)" "cfg_DNS (rule_Config r2) = cfg_DNS (rule_Config r1)"
    "cfg_UDP (rule_Config r2) = cfg_UDP (rule_Config r1)"
    "map_of item ''https'' = None \<Longrightarrow> cfg_HTTPS (rule_Config r2) = cfg_HTTPS (rule_Config r1)"
    using https unfolding rule_section_Ret by (auto simp: put_https_def)
  have u: "cfg_Conn (rule_Config r3) = cfg_Conn (rule_Config r2)" "cfg_DNS (rule_Config r3) = cfg_DNS (rule_Config r2)"
    "cfg_HTTPS (rule_Config r3) = cfg_HTTPS (rule_Config r2)"
    "map_of item ''udp'' = None \<Longrightarrow> cfg_UDP (rule_Config r3) = cfg_UDP (rule_Config r2)"
    using udp unfolding rule_section_Ret by (auto simp: put_udp_def)
  have c: "cfg_HTTPS (rule_Config r) = cfg_HTTPS (rule_Config r3)" "cfg_DNS (rule_Config r) = cfg_DNS (rule_Config r3)"
    "cfg_UDP (rule_Config r) = cfg_UDP (rule_Config r3)"
    "map_of item ''connection'' = None \<Longrightarrow> cfg_Conn (rule_Config r) = cfg_Conn (rule_Config r3)"
    using conn unfolding rule_section_Ret by (auto simp: put_conn_def)
  have "https_Skip (cfg_HTTPS (rule_Config r2)) \<longleftrightarrow> own_skip item ''https''"
  proof (cases "map_of item ''https''")
    case None
    with h d start show ?thesis by (simp add: own_skip_def)
  next
    case (Some v)
    then obtain x where x: "HTTPSOptions_UnmarshalTOML v (cfg_HTTPS (rule_Config r1)) = Ret (x, None)"
      and r2: "r2 = r1\<lparr>rule_Config := put_https x (rule_Config r1)\<rparr>"
      using https unfolding rule_section_Ret by auto
    obtain m where "v = TTable m" using https_table_only(1) [OF x] by auto
    with x https_skip_value [of m "cfg_HTTPS (rule_Config r1)" x] d start Some r2 show ?thesis
      by (simp add: own_skip_def put_https_def)
  qed
  moreover have "udp_Skip (cfg_UDP (rule_Config r3)) \<longleftrightarrow> own_skip item ''udp''"
  proof (cases "map_of item ''udp''")
    case None
    with u h d start show ?thesis by (simp add: own_skip_def)
  next
    case (Some v)
    then obtain x where x: "UDPOptions_UnmarshalTOML v (cfg_UDP (rule_Config r2)) = Ret (x, None)"
      and r3: "r3 = r2\<lparr>rule_Config := put_udp x (rule_Config r2)\<rparr>"
      using udp unfolding rule_section_Ret by auto
    obtain m where "v = TTable m" using https_table_only(2) [OF x] by auto
    with x udp_skip_value [of m "cfg_UDP (rule_Config r2)" x] h d start Some r3 show ?thesis
      by (simp add: own_skip_def put_udp_def)
  qed
  ultimately show ?thesis using start d h u c by simp
qed

definition example_rule :: toml_table where
  "example_rule = [(''priority'', TInt 7), (''match'', TTable [(''domains'', TList [TStr ''**.youtube.com''])])]"

definition skipping_base :: RuntimeConfig where
  "skipping_base = (Runtime DefaultConfig)\<lparr>cfg_HTTPS := (cfg_HTTPS (Runtime DefaultConfig))\<lparr>https_Skip := True\<rparr>\<rparr>"

lemma example_rule_resolves:
  "resolve_rule base 0 example_rule =
     Ret ((rule_start base)\<lparr>Priority := 7, Match := Some \<lparr>Domains = [''**.youtube.com''], CIDRs = []\<rparr>\<rparr>)"
proof -
  have c: "checkDomainPattern ''**.youtube.com'' = None" by code_simp
  have m: "decode_item MatchAttrs_UnmarshalTOML zero_match (TTable [(''domains'', TList [TStr ''**.youtube.com''])]) =
      Ret \<lparr>Domains = [''**.youtube.com''], CIDRs = []\<rparr>"
    by (simp add: decode_item_def MatchAttrs_UnmarshalTOML_def findSliceFrom_def parseStringFn_def c zero_match_def checkMatchAttrs_def)
  have p: "parseIntFn uint16 (Some checkUint16) (TInt 7) = Inr 7"
    by (simp add: parseIntFn_def checkUint16_def int64Range_def uint16_def)
  show ?thesis
    by (simp add: resolve_rule_def rule_head_def rule_sections_def rule_section_def rule_priority_def rule_name_def
      rule_block_def rule_match_def example_rule_def m p)
qed

theorem rules_inherit_all_but_skip_witness:
  "https_Skip (cfg_HTTPS skipping_base) \<and>
   (\<exists>r. resolve_rule skipping_base 0 example_rule = Ret r \<and> \<not> https_Skip (cfg_HTTPS (rule_Config r)) \<and>
      ChunkSize (cfg_HTTPS (rule_Config r)) = 35)"
proof -
  have b: "https_Skip (cfg_HTTPS skipping_base)" "ChunkSize (cfg_HTTPS skipping_base) = 35"
    by (simp_all add: skipping_base_def DefaultConfig_def)
  have n: "map_of example_rule ''https'' = None" by (simp add: example_rule_def)
  from rules_inherit_all_but_skip [OF example_rule_resolves [of skipping_base]] n b example_rule_resolves [of skipping_base]
  show ?thesis by (intro conjI exI) auto
qed

section \<open>What loading guarantees\<close>

definition valid_match :: "MatchAttrs \<Rightarrow> bool" where
  "valid_match a \<longleftrightarrow> (Domains a \<noteq> [] \<or> CIDRs a \<noteq> []) \<and>
     (\<forall>d \<in> set (Domains a). checkDomainPattern d = None) \<and> (\<forall>c \<in> set (CIDRs a). checkCIDR c = None)"

lemma check_entries_None: "check_entries c ds = None \<longleftrightarrow> (\<forall>d \<in> set ds. c d = None)"
  by (induction ds) (auto split: option.splits)

lemma match_valid:
  assumes "MatchAttrs_UnmarshalTOML v zero_match = Ret (a, None)"
  shows "valid_match a"
proof (cases v)
  case (TTable m)
  obtain ds err1 where d: "findSliceFrom typed_strings m ''domains'' (parseStringFn None) None = (ds, err1)" by fastforce
  obtain cs err2 where c: "findSliceFrom typed_strings m ''cidrs'' (parseStringFn None) err1 = (cs, err2)" by fastforce
  show ?thesis
    using assms unfolding TTable MatchAttrs_UnmarshalTOML_def
    by (auto simp: d c Let_def valid_match_def zero_match_def checkMatchAttrs_def check_entries_None
      split: option.splits if_splits)
qed (use assms in \<open>simp_all add: MatchAttrs_UnmarshalTOML_def\<close>)

lemma decode_item_Ret: "decode_item u z v = Ret x \<longleftrightarrow> u v z = Ret (x, None)"
  by (auto simp: decode_item_def split: outcome.splits option.splits)

lemma rule_match_valid:
  assumes "resolve_rule base i item = Ret r" "Match r \<noteq> None"
  shows "\<exists>a. Match r = Some a \<and> valid_match a"
proof -
  obtain r0 r1 where head: "rule_priority i item (rule_name item (rule_start base)) = Ret r0"
    and m: "rule_match i item (rule_block item r0) = Ret r1" and s: "rule_sections i item r1 = Ret r"
    using assms(1) unfolding resolve_rule_def rule_head_def obind_Ret_conv by blast
  have "Match r = Match r1"
    using s unfolding rule_sections_def obind_Ret_conv rule_section_Ret by auto
  moreover have "Match (rule_block item q) = Match q" "Match (rule_name item q) = Match q" for q
    by (auto simp: rule_block_def rule_name_def split: option.splits toml.splits)
  moreover have "Match r0 = Match (rule_name item (rule_start base))"
    using head by (auto simp: rule_priority_def split: option.splits sum.splits)
  moreover have "Match (rule_start base) = None" by (simp add: rule_start_def)
  ultimately show ?thesis
    using m assms(2) by (auto simp: rule_match_def decode_item_Ret dest: match_valid split: option.splits outcome.splits)
qed

lemma resolve_from_rules: "resolve_from base i items = Ret rs \<Longrightarrow> \<forall>r \<in> set rs. \<exists>j item. resolve_rule base j item = Ret r"
proof (induction items arbitrary: i rs)
  case (Cons a items)
  then obtain x xs where "resolve_rule base i a = Ret x" "resolve_from base (i + 1) items = Ret xs" "rs = x # xs"
    by (auto simp: obind_Ret_conv)
  with Cons.IH show ?case by fastforce
qed simp

lemma validate_rules_None: "validate_rules i rs = None \<longleftrightarrow> (\<forall>r \<in> set rs. Match r \<noteq> None)"
  by (induction rs arbitrary: i) (auto simp: checkRule_def split: option.splits)

lemma Load_stages:
  assumes "Load env ParseLevel DecodeFile cmd overrides = Ret (c, path, ws)"
  shows "\<exists>ld items rules. loadTOML env ParseLevel DecodeFile cmd DefaultConfig = Ret ld \<and>
     resolveRules items (Runtime c) = Ret rules \<and> Rules (Startup c) = rules \<and> Validate c = None \<and>
     Runtime c = Runtime (foldl (\<lambda>c apply. apply c) (fst ld) overrides)"
proof -
  obtain cfg p items ws1 where ld: "loadTOML env ParseLevel DecodeFile cmd DefaultConfig = Ret (cfg, p, items, ws1)"
    using assms by (cases "loadTOML env ParseLevel DecodeFile cmd DefaultConfig") (auto simp: Load_def)
  let ?c1 = "foldl (\<lambda>c apply. apply c) cfg overrides"
  obtain c2 ws2 where fin: "Finalize ?c1 = (c2, ws2)" by fastforce
  have run: "Runtime c2 = Runtime ?c1"
    using fin by (auto simp: Finalize_def Let_def put_app_def split: if_splits)
  obtain items' ws3 where ex: "expand_rules env (DirPath env p) 0 items = Ret (items', ws3)"
    using assms by (cases "expand_rules env (DirPath env p) 0 items") (auto simp: Load_def ld fin)
  obtain rules where res: "resolveRules items' (Runtime c2) = Ret rules"
    using assms by (cases "resolveRules items' (Runtime c2)") (auto simp: Load_def ld fin ex)
  have "Validate (c2\<lparr>Startup := (Startup c2)\<lparr>Rules := rules\<rparr>\<rparr>) = None \<and> c = c2\<lparr>Startup := (Startup c2)\<lparr>Rules := rules\<rparr>\<rparr>"
    using assms by (auto simp: Load_def ld fin ex res Let_def split: option.splits)
  with ld res run show ?thesis by (intro exI [of _ "(cfg, p, items, ws1)"] exI [of _ items'] exI [of _ rules]) simp
qed

text \<open>In a configuration that loaded, the options of the command line were applied after the file, so a flag wins
  over the file, and every rule has at least one match entry, all its domain patterns and CIDR
  prefixes are well formed, and its settings are resolved against the final runtime configuration.\<close>

theorem loaded_config:
  assumes "Load env ParseLevel DecodeFile cmd overrides = Ret (c, path, ws)"
  shows "(\<exists>ld. loadTOML env ParseLevel DecodeFile cmd DefaultConfig = Ret ld \<and>
       Runtime c = Runtime (foldl (\<lambda>c apply. apply c) (fst ld) overrides)) \<and>
     (\<forall>r \<in> set (Rules (Startup c)).
        (\<exists>a. Match r = Some a \<and> valid_match a) \<and> (\<exists>i item. resolve_rule (Runtime c) i item = Ret r))"
proof -
  obtain ld items rules where l: "loadTOML env ParseLevel DecodeFile cmd DefaultConfig = Ret ld"
    "resolveRules items (Runtime c) = Ret rules" "Rules (Startup c) = rules" "Validate c = None"
    "Runtime c = Runtime (foldl (\<lambda>c apply. apply c) (fst ld) overrides)"
    using Load_stages [OF assms] by blast
  have some: "\<forall>r \<in> set rules. Match r \<noteq> None"
    using l(3,4) by (simp add: Validate_def validate_rules_None)
  have res: "\<forall>r \<in> set rules. \<exists>j item. resolve_rule (Runtime c) j item = Ret r"
    using resolve_from_rules l(2) unfolding resolveRules_def by blast
  have "\<forall>r \<in> set rules. \<exists>a. Match r = Some a \<and> valid_match a"
    using rule_match_valid res some by metis
  with l res show ?thesis by blast
qed

definition loads_video_rule :: "(cfg_error, Config \<times> string \<times> warning list) outcome \<Rightarrow> bool" where
  "loads_video_rule l =
     (case l of
        Ret (c, path, ws) \<Rightarrow>
          map rule_Name (Rules (Startup c)) = [''video''] \<and> path = ''/etc/spoofdpi.toml'' \<and> ws = [Socks5Experimental] \<and>
          https_Skip (cfg_HTTPS (Runtime c)) \<and> ChunkSize (cfg_HTTPS (Runtime c)) = 10
      | _ \<Rightarrow> False)"

theorem loaded_config_witness:
  "\<exists>c path ws. Load no_files zerolog_levels example_toml example_command [] = Ret (c, path, ws) \<and>
     map rule_Name (Rules (Startup c)) = [''video''] \<and>
     (\<exists>r \<in> set (Rules (Startup c)). \<exists>a. Match r = Some a \<and> valid_match a)"
proof -
  have "loads_video_rule (Load no_files zerolog_levels example_toml example_command [])" by code_simp
  then obtain c path ws where l: "Load no_files zerolog_levels example_toml example_command [] = Ret (c, path, ws)"
    and n: "map rule_Name (Rules (Startup c)) = [''video'']"
    by (auto simp: loads_video_rule_def split: outcome.splits)
  then obtain r where r: "r \<in> set (Rules (Startup c))" by (cases "Rules (Startup c)") auto
  have "\<exists>a. Match r = Some a \<and> valid_match a"
    using bspec [OF loaded_config [OF l, THEN conjunct2] r] by (rule conjunct1)
  with l n r show ?thesis by (intro exI [of _ c] exI [of _ path] exI [of _ ws] conjI bexI [of _ r])
qed

text \<open>The rule that split mode \<open>custom\<close> needs segment plans holds for tables only: a file that asks for \<open>custom\<close> without
  plans is refused, while the flag \<open>--https-split-mode custom\<close> loads, passes validation and leaves the
  mode \<open>custom\<close> with no plan.\<close>

theorem custom_mode_from_flag_unchecked:
  "\<exists>h f c path ws.
     HTTPSOptions_UnmarshalTOML (TTable [(''split-mode'', TStr ''custom'')]) (cfg_HTTPS (Runtime DefaultConfig)) =
       Ret (h, Some CustomSegmentsMissing) \<and>
     flag_https_split_mode ''custom'' = Ret f \<and>
     Load no_files zerolog_levels example_toml (example_command\<lparr>clean := True\<rparr>) [f] = Ret (c, path, ws) \<and>
     SplitMode (cfg_HTTPS (Runtime c)) = HTTPSSplitModeCustom \<and> CustomSegmentPlans (cfg_HTTPS (Runtime c)) = []"
proof -
  let ?h = "(cfg_HTTPS (Runtime DefaultConfig))\<lparr>SplitMode := HTTPSSplitModeCustom\<rparr>"
  let ?f = "\<lambda>cfg. in_runtime put_https ((cfg_HTTPS (Runtime cfg))\<lparr>SplitMode := HTTPSSplitModeCustom\<rparr>) cfg"
  have chk: "checkHTTPSSplitMode ''custom'' = None" "mustParseHTTPSSplitModeType ''custom'' = Ret HTTPSSplitModeCustom"
    by (simp_all add: check_defs mustParseHTTPSSplitModeType_def)
  have "HTTPSOptions_UnmarshalTOML (TTable [(''split-mode'', TStr ''custom'')]) (cfg_HTTPS (Runtime DefaultConfig)) =
       Ret (?h, Some CustomSegmentsMissing)"
    by (simp add: HTTPSOptions_UnmarshalTOML_def set_field_def set_slice_def findFrom_def findSliceFrom_def isOk_def
      parseStringFn_def chk custom_segments_def check_custom_def findStructSliceFrom_def DefaultConfig_def)
  moreover have "flag_https_split_mode ''custom'' = Ret ?f"
    by (simp add: flag_https_split_mode_def validated_def chk)
  moreover have "\<exists>c path ws. Load no_files zerolog_levels example_toml (example_command\<lparr>clean := True\<rparr>) [?f] = Ret (c, path, ws) \<and>
     SplitMode (cfg_HTTPS (Runtime c)) = HTTPSSplitModeCustom \<and> CustomSegmentPlans (cfg_HTTPS (Runtime c)) = []"
    by (simp add: Load_def loadTOML_def Finalize_def app_of_def put_app_def in_runtime_def put_https_def Let_def
      resolveRules_def Validate_def DefaultConfig_def)
  ultimately show ?thesis by blast
qed

text \<open>A match list with an entry that is not a string is an error of the decoder, but loading a rule removes such
  entries before it decodes, so there they disappear without an error or a warning.\<close>

theorem non_string_entries_vanish:
  "let v = TTable [(''domains'', TList [TStr ''a.com'', TInt 3])] in
   MatchAttrs_UnmarshalTOML v zero_match =
     Ret (zero_match, Some (FieldItem ''domains'' 1 ExpectedString)) \<and>
   (\<exists>v'. expandFileMatchList env v i dir = Inr (v', []) \<and>
      MatchAttrs_UnmarshalTOML v' zero_match = Ret (\<lparr>Domains = [''a.com''], CIDRs = []\<rparr>, None))"
proof -
  have c: "checkDomainPattern ''a.com'' = None" "\<not> has_prefix ''a.com'' filePrefix" by code_simp+
  show ?thesis
    by (simp add: Let_def MatchAttrs_UnmarshalTOML_def findSliceFrom_def parseStringFn_def typed_strings_def zero_match_def
      expandFileMatchList_def only_strings_def c checkMatchAttrs_def)
qed

end
