(* ===== verification/Domain_Trie.thy ===== *)
theory Domain_Trie
  imports Go_Strings "HOL-Library.AList"
begin

text \<open>
  \<open>pkg/spoofdpi/internal/trie/domain.go\<close>: the trie keyed by reversed domain segments, with
  literal, single-wildcard and globstar children. The node's \<open>value\<close>/\<open>hasValue\<close> pair is an
  \<open>option\<close>, its \<open>children\<close> map an association list that \<open>AList.update\<close> keeps free of duplicate
  keys. The theory ends with soundness, completeness and precedence of the search against a
  declarative matching relation on patterns.
\<close>

section \<open>Nodes and operations\<close>

datatype 'v domainNode =
  DomainNode (children: "(string \<times> 'v domainNode) list")
    (wildcardChild: "'v domainNode option")
    (globstarChild: "'v domainNode option")
    (node_value: "'v option")

record 'v DomainTrie =
  root :: "'v domainNode"

datatype trie_error = EmptyPattern

definition newDomainNode :: "'v domainNode" where
  "newDomainNode = DomainNode [] None None None"

definition NewDomainTrie :: "'v DomainTrie" where
  "NewDomainTrie = \<lparr>root = newDomainNode\<rparr>"

definition splitDomain :: "string \<Rightarrow> string list" where
  "splitDomain domain =
     (let d = trim_suffix domain ''.'' in
      if d = '''' then [] else rev (split_char (CHR ''.'') d))"

definition splitPattern :: "string \<Rightarrow> trie_error + string list" where
  "splitPattern pattern = (if pattern = '''' then Inl EmptyPattern else Inr (splitDomain pattern))"

definition child_or_new :: "'v domainNode option \<Rightarrow> 'v domainNode" where
  "child_or_new c = (case c of None \<Rightarrow> newDomainNode | Some n \<Rightarrow> n)"

text \<open>The descent of \<open>Add\<close>: create the child a segment selects when it is missing, then store.\<close>

fun add_at :: "string list \<Rightarrow> 'v \<Rightarrow> 'v domainNode \<Rightarrow> 'v domainNode" where
  "add_at [] v (DomainNode ch w g x) = DomainNode ch w g (Some v)"
| "add_at (seg # segs) v (DomainNode ch w g x) =
     (if seg = ''*'' then DomainNode ch (Some (add_at segs v (child_or_new w))) g x
      else if seg = ''**'' then DomainNode ch w (Some (add_at segs v (child_or_new g))) x
      else DomainNode (AList.update seg (add_at segs v (child_or_new (map_of ch seg))) ch) w g x)"

definition DomainTrie_Add :: "'v DomainTrie \<Rightarrow> string \<Rightarrow> 'v \<Rightarrow> trie_error + 'v DomainTrie" where
  "DomainTrie_Add t pattern value =
     (case splitPattern pattern of
        Inl e \<Rightarrow> Inl e
      | Inr segments \<Rightarrow> Inr (t\<lparr>root := add_at segments value (root t)\<rparr>))"

definition child_value :: "'v domainNode option \<Rightarrow> 'v option" where
  "child_value c = (case c of None \<Rightarrow> None | Some n \<Rightarrow> node_value n)"

lemma size_child_lookup [termination_simp]:
  "map_of ch k = Some c \<Longrightarrow> size c < Suc (size_list (size_prod (\<lambda>_. 0) size) ch + n)"
  by (induction ch) (auto split: if_splits)

text \<open>
  The recursive search: literal child, then \<open>*\<close>, then \<open>**\<close>. Under \<open>**\<close> a stored value wins at
  once; otherwise every suffix of the remaining segments is tried, the empty one included.
\<close>

fun search :: "'v domainNode \<Rightarrow> string list \<Rightarrow> 'v option" where
  "search (DomainNode ch w g x) [] = or_else x (or_else (child_value w) (child_value g))"
| "search (DomainNode ch w g x) (seg # rest) =
     or_else (case map_of ch seg of None \<Rightarrow> None | Some c \<Rightarrow> search c rest)
       (or_else (case w of None \<Rightarrow> None | Some c \<Rightarrow> search c rest)
         (case g of None \<Rightarrow> None
          | Some ng \<Rightarrow> or_else (node_value ng)
              (first_some (\<lambda>i. search ng (drop i (seg # rest))) [0..<Suc (length (seg # rest))])))"

definition DomainTrie_Search :: "'v DomainTrie \<Rightarrow> string \<Rightarrow> 'v option" where
  "DomainTrie_Search t domain = search (root t) (splitDomain domain)"

section \<open>Specification: stored patterns and matching\<close>

text \<open>The value stored under exactly the pattern \<open>p\<close>.\<close>

fun lookup_at :: "'v domainNode \<Rightarrow> string list \<Rightarrow> 'v option" where
  "lookup_at (DomainNode ch w g x) [] = x"
| "lookup_at (DomainNode ch w g x) (seg # segs) =
     (if seg = ''*'' then (case w of None \<Rightarrow> None | Some c \<Rightarrow> lookup_at c segs)
      else if seg = ''**'' then (case g of None \<Rightarrow> None | Some c \<Rightarrow> lookup_at c segs)
      else (case map_of ch seg of None \<Rightarrow> None | Some c \<Rightarrow> lookup_at c segs))"

text \<open>
  A pattern matches a reversed domain: a literal matches itself, \<open>*\<close> one segment, \<open>**\<close> any
  number, and a final \<open>*\<close> or \<open>**\<close> also matches the apex, i.e. no segment at all.
\<close>

fun seg_match :: "string list \<Rightarrow> string list \<Rightarrow> bool" where
  "seg_match [] ss = (ss = [])"
| "seg_match (p # ps) [] = (ps = [] \<and> (p = ''*'' \<or> p = ''**''))"
| "seg_match (p # ps) (s # ss) =
     (if p = ''*'' then seg_match ps ss
      else if p = ''**'' then
        ps = [] \<or> list_ex (\<lambda>i. seg_match ps (drop i (s # ss))) [0..<Suc (length (s # ss))]
      else p = s \<and> seg_match ps ss)"

text \<open>Wildcards never become literal children: what \<open>Add\<close> maintains.\<close>

fun wf_node :: "'v domainNode \<Rightarrow> bool" where
  "wf_node (DomainNode ch w g x) =
     (list_all (\<lambda>kc. fst kc \<noteq> ''*'' \<and> fst kc \<noteq> ''**'' \<and> wf_node (snd kc)) ch
      \<and> pred_option wf_node w \<and> pred_option wf_node g)"

definition wf_trie :: "'v DomainTrie \<Rightarrow> bool" where
  "wf_trie t = wf_node (root t)"

definition stored :: "'v DomainTrie \<Rightarrow> string \<Rightarrow> 'v option" where
  "stored t pattern = lookup_at (root t) (splitDomain pattern)"

definition domain_match :: "string \<Rightarrow> string \<Rightarrow> bool" where
  "domain_match pattern domain = seg_match (splitDomain pattern) (splitDomain domain)"

definition kind_rank :: "string \<Rightarrow> nat" where
  "kind_rank s = (if s = ''**'' then 2 else if s = ''*'' then 1 else 0)"

text \<open>
  \<open>precedes q p\<close>: up to a common, globstar-free prefix the two patterns agree, and then \<open>q\<close>
  continues with the more specific kind of segment (literal before \<open>*\<close> before \<open>**\<close>).
\<close>

fun precedes :: "string list \<Rightarrow> string list \<Rightarrow> bool" where
  "precedes (q # qs) (p # ps) =
     (kind_rank q < kind_rank p \<or> q = p \<and> q \<noteq> ''**'' \<and> precedes qs ps)"
| "precedes _ _ = False"

text \<open>
  \<open>more_specific q p\<close>, the order of the comment on \<open>Search\<close>: at the first segments in which the patterns differ, \<open>q\<close> has the
  more specific kind, or \<open>q\<close> goes on where \<open>p\<close> ends with a globstar.
\<close>

fun more_specific :: "string list \<Rightarrow> string list \<Rightarrow> bool" where
  "more_specific (q # qs) (p # ps) =
     (kind_rank q < kind_rank p \<or> q = p \<and> (q = ''**'' \<and> ps = [] \<and> qs \<noteq> [] \<or> more_specific qs ps))"
| "more_specific _ _ = False"

text \<open>The patterns have a globstar at the same place, and agree before it.\<close>

fun share_globstar :: "string list \<Rightarrow> string list \<Rightarrow> bool" where
  "share_globstar (q # qs) (p # ps) = (q = p \<and> (q = ''**'' \<or> share_globstar qs ps))"
| "share_globstar _ _ = False"

section \<open>Add stores exactly its pattern\<close>

lemma lookup_at_new [simp]: "lookup_at newDomainNode q = None"
  by (cases q) (auto simp: newDomainNode_def)

lemma lookup_at_child [simp]:
  "(case c of None \<Rightarrow> None | Some n \<Rightarrow> lookup_at n q) = lookup_at (child_or_new c) q"
  by (cases c) (auto simp: child_or_new_def)

lemma lookup_add_at: "lookup_at (add_at p v n) q = (if q = p then Some v else lookup_at n q)"
proof (induction p v n arbitrary: q rule: add_at.induct)
  case (1 v ch w g x)
  show ?case by (cases q) auto
next
  case (2 seg segs v ch w g x)
  show ?case
  proof (cases q)
    case (Cons s ss)
    with 2 show ?thesis
      by (auto simp: update_conv' child_or_new_def)
  qed auto
qed

lemma wf_node_update:
  "list_all (\<lambda>kc. P (fst kc) \<and> Q (snd kc)) ch \<Longrightarrow> P k \<Longrightarrow> Q c \<Longrightarrow>
   list_all (\<lambda>kc. P (fst kc) \<and> Q (snd kc)) (AList.update k c ch)"
  by (induction ch) auto

lemma wf_node_new [simp]: "wf_node newDomainNode"
  by (simp add: newDomainNode_def)

lemma wf_node_child_or_new: "pred_option wf_node c \<Longrightarrow> wf_node (child_or_new c)"
  by (cases c) (auto simp: child_or_new_def)

lemma wf_node_map_of:
  "wf_node (DomainNode ch w g x) \<Longrightarrow> map_of ch k = Some c \<Longrightarrow> k \<noteq> ''*'' \<and> k \<noteq> ''**'' \<and> wf_node c"
  by (drule map_of_SomeD) (fastforce simp: list_all_iff)

lemma wf_add_at: "wf_node n \<Longrightarrow> wf_node (add_at p v n)"
proof (induction p v n rule: add_at.induct)
  case (2 seg segs v ch w g x)
  have "wf_node (child_or_new (map_of ch seg))"
    using wf_node_map_of [OF "2.prems"]
    by (cases "map_of ch seg") (auto simp: child_or_new_def)
  with 2 show ?case
    by (auto simp: wf_node_child_or_new
        intro!: wf_node_update [where P = "\<lambda>k. k \<noteq> ''*'' \<and> k \<noteq> ''**''", simplified])
qed auto

section \<open>Search: completeness, soundness, precedence\<close>

lemma child_value_conv: "child_value c = lookup_at (child_or_new c) []"
proof (cases c)
  case (Some n)
  then show ?thesis by (cases n) (auto simp: child_value_def child_or_new_def)
qed (auto simp: child_value_def child_or_new_def newDomainNode_def)

lemma node_value_conv: "node_value n = lookup_at n []"
  by (cases n) auto

lemma globstar_match_iff:
  "seg_match (''**'' # ps) (s # ss) \<longleftrightarrow>
     ps = [] \<or> (\<exists>i\<le>length (s # ss). seg_match ps (drop i (s # ss)))"
  by (simp add: list_ex_iff del: upt_Suc) (metis atLeastLessThan_iff le0 less_Suc_eq_le)

text \<open>The branches of the search, named: each is tried only when the ones before it fail.\<close>

lemma search_None_iff:
  "search (DomainNode ch w g x) (seg # rest) = None \<longleftrightarrow>
     (\<forall>c. map_of ch seg = Some c \<longrightarrow> search c rest = None) \<and>
     (\<forall>c. w = Some c \<longrightarrow> search c rest = None) \<and>
     (\<forall>ng. g = Some ng \<longrightarrow> node_value ng = None \<and>
        (\<forall>i\<le>length (seg # rest). search ng (drop i (seg # rest)) = None))"
  by (auto simp: or_else_None_iff first_some_None_iff less_Suc_eq_le simp del: upt_Suc
      split: option.splits)

lemma search_SomeE:
  assumes "search (DomainNode ch w g x) (seg # rest) = Some v"
  obtains (literal) c where "map_of ch seg = Some c" "search c rest = Some v"
  | (wildcard) c where "w = Some c" "search c rest = Some v"
      "\<And>c. map_of ch seg = Some c \<Longrightarrow> search c rest = None"
  | (globstar) ng where "g = Some ng" "node_value ng = Some v"
      "\<And>c. map_of ch seg = Some c \<Longrightarrow> search c rest = None"
      "\<And>c. w = Some c \<Longrightarrow> search c rest = None"
  | (suffix) ng i where "g = Some ng" "node_value ng = None" "i \<le> length (seg # rest)"
      "search ng (drop i (seg # rest)) = Some v"
      "\<And>c. map_of ch seg = Some c \<Longrightarrow> search c rest = None"
      "\<And>c. w = Some c \<Longrightarrow> search c rest = None"
  using assms
  by (fastforce simp: or_else_Some_iff less_Suc_eq_le simp del: upt_Suc
      dest!: first_some_SomeD split: option.splits)

lemma search_complete:
  "lookup_at n p = Some v \<Longrightarrow> seg_match p ss \<Longrightarrow> search n ss \<noteq> None"
proof (induction n ss arbitrary: p rule: search.induct)
  case (1 ch w g x)
  then show ?case
    by (cases p) (auto simp: or_else_None_iff child_value_conv)
next
  case (2 ch w g x seg rest)
  from "2.prems" obtain q qs where p: "p = q # qs" by (cases p) auto
  show ?case
  proof
    assume "search (DomainNode ch w g x) (seg # rest) = None"
    note fail = this [unfolded search_None_iff]
    have l: "(case map_of ch seg of None \<Rightarrow> None | Some c \<Rightarrow> search c rest) = None"
      and m: "(case w of None \<Rightarrow> None | Some c \<Rightarrow> search c rest) = None"
      using fail by (auto split: option.splits)
    consider "q = ''*''" | "q = ''**''" | "q \<noteq> ''*''" "q \<noteq> ''**''" by blast
    then show False
    proof cases
      case 1
      with "2.prems" p obtain c where "w = Some c" "lookup_at c qs = Some v" "seg_match qs rest"
        by (cases w) (auto simp: child_or_new_def)
      with "2.IH"(2) [OF l] fail show False by blast
    next
      case 2
      with "2.prems" p obtain c where c: "g = Some c" "lookup_at c qs = Some v"
        by (cases g) (auto simp: child_or_new_def)
      with fail have "qs \<noteq> []" by (auto simp: node_value_conv)
      with 2 "2.prems" p globstar_match_iff obtain i
        where "i \<le> length (seg # rest)" "seg_match qs (drop i (seg # rest))" by blast
      with "2.IH"(3) [OF l m, of c i] c fail show False by (auto simp: less_Suc_eq_le simp del: upt_Suc)
    next
      case 3
      with "2.prems" p obtain c where "map_of ch seg = Some c" "lookup_at c qs = Some v"
        "seg_match qs rest"
        by (cases "map_of ch q") (auto simp: child_or_new_def)
      with "2.IH"(1) fail show False by blast
    qed
  qed
qed


text \<open>A best match: stored under a matching pattern, and no stored pattern that precedes it matches.\<close>

definition best_match :: "'v domainNode \<Rightarrow> string list \<Rightarrow> 'v \<Rightarrow> string list \<Rightarrow> bool" where
  "best_match n ss v p \<longleftrightarrow> lookup_at n p = Some v \<and> seg_match p ss \<and>
     (\<forall>q. lookup_at n q \<noteq> None \<and> seg_match q ss \<longrightarrow> \<not> precedes q p)"

lemma best_matchI:
  "lookup_at n p = Some v \<Longrightarrow> seg_match p ss \<Longrightarrow>
   (\<And>q. lookup_at n q \<noteq> None \<Longrightarrow> seg_match q ss \<Longrightarrow> \<not> precedes q p) \<Longrightarrow> best_match n ss v p"
  unfolding best_match_def by blast

lemma best_matchD:
  assumes "best_match n ss v p"
  shows "lookup_at n p = Some v" "seg_match p ss"
    "lookup_at n q \<noteq> None \<Longrightarrow> seg_match q ss \<Longrightarrow> \<not> precedes q p"
  using assms unfolding best_match_def by blast+

lemma candidate_literal:
  assumes "lookup_at (DomainNode ch w g x) (q # qs) \<noteq> None" "seg_match (q # qs) (seg # rest)"
    and "kind_rank q = 0"
  shows "\<exists>c. map_of ch seg = Some c \<and> lookup_at c qs \<noteq> None \<and> seg_match qs rest \<and> q = seg"
  using assms by (cases "map_of ch q") (auto simp: kind_rank_def child_or_new_def split: if_splits)

lemma candidate_wildcard:
  assumes "lookup_at (DomainNode ch w g x) (q # qs) \<noteq> None" "seg_match (q # qs) (seg # rest)"
    and "kind_rank q = 1"
  shows "\<exists>c. w = Some c \<and> lookup_at c qs \<noteq> None \<and> seg_match qs rest \<and> q = ''*''"
  using assms by (cases w) (auto simp: kind_rank_def child_or_new_def split: if_splits)

lemma no_literal_candidate:
  assumes "\<And>c. map_of ch seg = Some c \<Longrightarrow> search c rest = None"
    and "lookup_at (DomainNode ch w g x) (q # qs) \<noteq> None" "seg_match (q # qs) (seg # rest)"
  shows "kind_rank q \<noteq> 0"
  using candidate_literal [OF assms(2,3)] assms(1) search_complete by (metis not_None_eq)

lemma no_wildcard_candidate:
  assumes "\<And>c. w = Some c \<Longrightarrow> search c rest = None"
    and "lookup_at (DomainNode ch w g x) (q # qs) \<noteq> None" "seg_match (q # qs) (seg # rest)"
  shows "kind_rank q \<noteq> 1"
  using candidate_wildcard [OF assms(2,3)] assms(1) search_complete by (metis not_None_eq)

lemma best_match_literal:
  assumes "wf_node (DomainNode ch w g x)" "map_of ch seg = Some c" "best_match c rest v p"
  shows "best_match (DomainNode ch w g x) (seg # rest) v (seg # p)"
proof -
  let ?n = "DomainNode ch w g x"
  note wf = wf_node_map_of [OF assms(1,2)]
  then have k: "kind_rank seg = 0" by (auto simp: kind_rank_def)
  have "\<not> precedes q (seg # p)"
    if q: "lookup_at ?n q \<noteq> None" "seg_match q (seg # rest)" for q
  proof
    assume m: "precedes q (seg # p)"
    with k obtain rs where "q = seg # rs" "precedes rs p" by (cases q) auto
    moreover from this q k assms(2) candidate_literal [of ch w g x seg rs seg rest]
    have "lookup_at c rs \<noteq> None \<and> seg_match rs rest" by (metis option.inject)
    ultimately show False using best_matchD(3) [OF assms(3)] by blast
  qed
  moreover have "lookup_at ?n (seg # p) = Some v" "seg_match (seg # p) (seg # rest)"
    using wf assms(2) best_matchD(1,2) [OF assms(3)] by (simp_all add: child_or_new_def)
  ultimately show ?thesis by (rule best_matchI [rotated 2])
qed

lemma best_match_wildcard:
  assumes "\<And>c. map_of ch seg = Some c \<Longrightarrow> search c rest = None"
    and "w = Some c" "best_match c rest v p"
  shows "best_match (DomainNode ch w g x) (seg # rest) v (''*'' # p)"
proof -
  let ?n = "DomainNode ch w g x"
  have k: "kind_rank ''*'' = 1" by (simp add: kind_rank_def)
  have "\<not> precedes q (''*'' # p)"
    if q: "lookup_at ?n q \<noteq> None" "seg_match q (seg # rest)" for q
  proof
    assume m: "precedes q (''*'' # p)"
    then obtain r rs where r: "q = r # rs" by (cases q) auto
    have "kind_rank r \<noteq> 0"
      by (rule no_literal_candidate [OF assms(1) q [unfolded r]])
    with m r k have "r = ''*''" "precedes rs p" by auto
    moreover from this q k r assms(2) candidate_wildcard [of ch w g x r rs seg rest]
    have "lookup_at c rs \<noteq> None \<and> seg_match rs rest" by (metis option.inject)
    ultimately show False using best_matchD(3) [OF assms(3)] by blast
  qed
  moreover have "lookup_at ?n (''*'' # p) = Some v" "seg_match (''*'' # p) (seg # rest)"
    using assms(2) best_matchD(1,2) [OF assms(3)] by (simp_all add: child_or_new_def)
  ultimately show ?thesis by (rule best_matchI [rotated 2])
qed

lemma best_match_globstar:
  assumes "\<And>c. map_of ch seg = Some c \<Longrightarrow> search c rest = None"
    and "\<And>c. w = Some c \<Longrightarrow> search c rest = None"
    and "g = Some ng" "lookup_at ng p = Some v" "seg_match (''**'' # p) (seg # rest)"
  shows "best_match (DomainNode ch w g x) (seg # rest) v (''**'' # p)"
proof -
  let ?n = "DomainNode ch w g x"
  have "\<not> precedes q (''**'' # p)"
    if q: "lookup_at ?n q \<noteq> None" "seg_match q (seg # rest)" for q
  proof (cases q)
    case (Cons r rs)
    have "kind_rank r \<noteq> 0" "kind_rank r \<noteq> 1"
      using no_literal_candidate [OF assms(1) q [unfolded Cons]]
        no_wildcard_candidate [OF assms(2) q [unfolded Cons]] by simp_all
    with Cons show ?thesis by (auto simp: kind_rank_def split: if_splits)
  qed simp
  moreover have "lookup_at ?n (''**'' # p) = Some v"
    using assms(3,4) by (simp add: child_or_new_def)
  ultimately show ?thesis by (rule best_matchI [rotated 2, OF _ _ assms(5)])
qed

lemma best_match_apex:
  assumes "search (DomainNode ch w g x) [] = Some v"
  shows "\<exists>p. best_match (DomainNode ch w g x) [] v p"
proof -
  have nm: "\<not> precedes q []" "\<not> precedes q [''*'']" if "seg_match q []" for q
    using that by (cases q; auto simp: kind_rank_def)+
  from assms consider "x = Some v" | "x = None" "child_value w = Some v"
    | "x = None" "child_value w = None" "child_value g = Some v"
    by (auto simp: or_else_Some_iff)
  then show ?thesis
  proof cases
    case 1
    with nm show ?thesis by (intro exI [of _ "[]"] best_matchI) simp_all
  next
    case 2
    with nm show ?thesis
      by (intro exI [of _ "[''*'']"] best_matchI) (simp_all add: child_value_conv)
  next
    case 3
    have "\<not> precedes q [''**'']"
      if "lookup_at (DomainNode ch w g x) q \<noteq> None" "seg_match q []" for q
      using that 3 by (cases q) (auto simp: child_value_conv kind_rank_def)
    with 3 show ?thesis
      by (intro exI [of _ "[''**'']"] best_matchI) (simp_all add: child_value_conv)
  qed
qed

lemma search_best: "wf_node n \<Longrightarrow> search n ss = Some v \<Longrightarrow> \<exists>p. best_match n ss v p"
proof (induction n ss arbitrary: v rule: search.induct)
  case (1 ch w g x)
  then show ?case by (intro best_match_apex)
next
  case (2 ch w g x seg rest)
  have l: "(case map_of ch seg of None \<Rightarrow> None | Some c \<Rightarrow> search c rest) = None"
    if "\<And>c. map_of ch seg = Some c \<Longrightarrow> search c rest = None"
    using that by (auto split: option.splits)
  have m: "(case w of None \<Rightarrow> None | Some c \<Rightarrow> search c rest) = None"
    if "\<And>c. w = Some c \<Longrightarrow> search c rest = None"
    using that by (auto split: option.splits)
  from "2.prems"(2) show ?case
  proof (cases rule: search_SomeE)
    case (literal c)
    with "2.IH"(1) [OF literal(1) _ literal(2)] wf_node_map_of [OF "2.prems"(1)]
    show ?thesis by (meson "2.prems"(1) best_match_literal)
  next
    case (wildcard c)
    with "2.IH"(2) [OF l wildcard(1) _ wildcard(2)] "2.prems"(1) obtain p
      where "best_match c rest v p" by auto
    with wildcard show ?thesis by (meson best_match_wildcard)
  next
    case (globstar ng)
    then show ?thesis
      by (intro exI [of _ "[''**'']"] best_match_globstar) (auto simp: node_value_conv)
  next
    case (suffix ng i)
    have i: "i \<in> set [0..<Suc (length (seg # rest))]" "wf_node ng"
      using suffix(1,3) "2.prems"(1) by auto
    from "2.IH"(3) [OF l m suffix(1,2) i suffix(4)] suffix(5,6) obtain p
      where p: "lookup_at ng p = Some v" "seg_match p (drop i (seg # rest))"
      by (blast dest: best_matchD(1,2))
    then have "seg_match (''**'' # p) (seg # rest)"
      using globstar_match_iff suffix(3) by blast
    with p suffix show ?thesis by (meson best_match_globstar)
  qed
qed

section \<open>The trie as a table of patterns\<close>

text \<open>A trie filled by a sequence of \<open>Add\<close> calls, and the table those calls describe: the last
  value added for each (reversed, split) pattern.\<close>

definition add_or_keep :: "'v DomainTrie \<Rightarrow> string \<times> 'v \<Rightarrow> 'v DomainTrie" where
  "add_or_keep t pv = (case DomainTrie_Add t (fst pv) (snd pv) of Inl _ \<Rightarrow> t | Inr t' \<Rightarrow> t')"

definition trie_of :: "(string \<times> 'v) list \<Rightarrow> 'v DomainTrie" where
  "trie_of pvs = foldl add_or_keep NewDomainTrie pvs"

definition pattern_table :: "(string \<times> 'v) list \<Rightarrow> string list \<Rightarrow> 'v option" where
  "pattern_table pvs =
     map_of (rev (map (\<lambda>pv. (splitDomain (fst pv), snd pv)) (filter (\<lambda>pv. fst pv \<noteq> []) pvs)))"

lemma add_or_keep_root:
  "root (add_or_keep t pv) =
     (if fst pv = [] then root t else add_at (splitDomain (fst pv)) (snd pv) (root t))"
  by (simp add: add_or_keep_def DomainTrie_Add_def splitPattern_def)

lemma trie_of_snoc: "trie_of (pvs @ [pv]) = add_or_keep (trie_of pvs) pv"
  by (simp add: trie_of_def)

lemma wf_trie_of: "wf_trie (trie_of pvs)"
proof (induction pvs rule: rev_induct)
  case Nil
  then show ?case by (simp add: trie_of_def NewDomainTrie_def wf_trie_def)
next
  case (snoc pv pvs)
  then show ?case by (simp add: trie_of_snoc wf_trie_def add_or_keep_root wf_add_at)
qed

lemma lookup_trie_of: "lookup_at (root (trie_of pvs)) segs = pattern_table pvs segs"
proof (induction pvs arbitrary: segs rule: rev_induct)
  case Nil
  then show ?case by (simp add: trie_of_def NewDomainTrie_def pattern_table_def)
next
  case (snoc pv pvs)
  then show ?case
    by (auto simp: trie_of_snoc add_or_keep_root lookup_add_at pattern_table_def)
qed

lemma pattern_table_None_iff:
  "pattern_table pvs segs = None \<longleftrightarrow> (\<forall>(p, v)\<in>set pvs. p \<noteq> [] \<longrightarrow> splitDomain p \<noteq> segs)"
  by (force simp: pattern_table_def map_of_eq_None_iff image_iff)

lemma node_value_add_at [simp]: "p \<noteq> [] \<Longrightarrow> node_value (add_at p v n) = node_value n"
  by (cases n; cases p) auto

lemma search_congruent_children:
  assumes "\<And>k ss. search (child_or_new (map_of ch k)) ss = search (child_or_new (map_of ch' k)) ss"
    and "\<And>ss. search (child_or_new w) ss = search (child_or_new w') ss"
      "child_value w = child_value w'"
    and "\<And>ss. search (child_or_new g) ss = search (child_or_new g') ss"
      "child_value g = child_value g'"
  shows "search (DomainNode ch w g x) ss = search (DomainNode ch' w' g' x) ss"
proof (cases ss)
  case (Cons seg rest)
  have new: "search newDomainNode s = None" for s :: "string list"
    by (cases s) (auto simp: newDomainNode_def child_value_def)
  have case_conv: "(case c of None \<Rightarrow> None | Some n \<Rightarrow> search n rest) = search (child_or_new c) rest"
    for c :: "'a domainNode option" and rest
    by (cases c) (simp_all add: child_or_new_def new)
  have glob: "(case g of None \<Rightarrow> None | Some ng \<Rightarrow> or_else (node_value ng)
        (first_some (\<lambda>i. search ng (drop i ss)) is)) =
      or_else (child_value g) (first_some (\<lambda>i. search (child_or_new g) (drop i ss)) is)"
    for g :: "'a domainNode option" and "is"
    by (cases g)
      (simp_all add: child_or_new_def child_value_def new first_some_None_iff eq_commute [of None])
  show ?thesis unfolding Cons
    by (simp only: search.simps case_conv glob [unfolded Cons] assms)
qed (simp add: assms)

lemma globstar_shadow_at:
  assumes "lookup_at n (p @ [''**'']) \<noteq> None" "r \<noteq> []"
  shows "search (add_at (p @ ''**'' # r) v n) ss = search n ss"
  using assms(1)
proof (induction p arbitrary: n ss)
  case Nil
  then obtain ch w g x y where n: "n = DomainNode ch w g x" "child_value g = Some y"
    by (cases n) (auto simp: child_value_conv)
  then obtain ng where ng: "g = Some ng" "node_value ng = Some y"
    by (cases g) (auto simp: child_value_def)
  show ?case
    using assms(2) ng by (cases ss) (simp_all add: n child_value_def child_or_new_def)
next
  case (Cons s p)
  obtain ch w g x where n: "n = DomainNode ch w g x" by (cases n)
  have cv: "child_value (Some (add_at (p @ ''**'' # r) v (child_or_new c))) = child_value c" for c
    by (cases c) (simp_all add: child_value_def child_or_new_def newDomainNode_def)
  show ?case
    using Cons unfolding n append_Cons add_at.simps
    by (auto intro!: search_congruent_children simp: cv update_conv' child_or_new_def [of "Some _" for x])
qed

lemma more_specific_cases: "more_specific q p \<Longrightarrow> precedes q p \<or> share_globstar q p"
  by (induction q p rule: more_specific.induct) auto

text \<open>A globstar is only the last segment, the first label of the pattern's text.\<close>

definition front_globstar :: "string list \<Rightarrow> bool" where
  "front_globstar p = (''**'' \<notin> set (butlast p))"

lemma share_front_globstar:
  "share_globstar q p \<Longrightarrow> front_globstar q \<Longrightarrow> front_globstar p \<Longrightarrow> q = p"
  by (induction q p rule: share_globstar.induct) (auto simp: front_globstar_def split: if_splits)

lemma not_more_specific_self: "\<not> more_specific p p"
  by (induction p) auto

section \<open>Properties\<close>



text \<open>\<open>Search\<close> finds nothing exactly when no pattern ever added matches the domain: added
  patterns are never lost, overwritten by others or hidden into a miss.\<close>

theorem trie_search_miss:
  "DomainTrie_Search (trie_of pvs) d = None \<longleftrightarrow> (\<forall>(p, v)\<in>set pvs. p \<noteq> [] \<longrightarrow> \<not> domain_match p d)"
proof
  assume s: "DomainTrie_Search (trie_of pvs) d = None"
  have "\<not> domain_match p d" if "(p, v) \<in> set pvs" "p \<noteq> []" for p v
  proof
    assume "domain_match p d"
    moreover have "pattern_table pvs (splitDomain p) \<noteq> None"
      using that pattern_table_None_iff [of pvs "splitDomain p"] by blast
    then have "lookup_at (root (trie_of pvs)) (splitDomain p) \<noteq> None"
      by (simp add: lookup_trie_of)
    ultimately show False
      using search_complete s unfolding DomainTrie_Search_def domain_match_def by (metis not_None_eq)
  qed
  then show "\<forall>(p, v)\<in>set pvs. p \<noteq> [] \<longrightarrow> \<not> domain_match p d" by blast
next
  assume none: "\<forall>(p, v)\<in>set pvs. p \<noteq> [] \<longrightarrow> \<not> domain_match p d"
  show "DomainTrie_Search (trie_of pvs) d = None"
  proof (rule ccontr)
    assume "DomainTrie_Search (trie_of pvs) d \<noteq> None"
    then obtain v p where "best_match (root (trie_of pvs)) (splitDomain d) v p"
      using search_best wf_trie_of unfolding DomainTrie_Search_def wf_trie_def
      by (metis not_None_eq)
    then have "pattern_table pvs p \<noteq> None" "seg_match p (splitDomain d)"
      by (auto dest: best_matchD(1,2) simp: lookup_trie_of)
    with none pattern_table_None_iff [of pvs p] show False
      by (auto simp: domain_match_def split_beta)
  qed
qed

theorem trie_search_miss_witness:
  "DomainTrie_Search (trie_of [(''a.b'', 1::nat), (''*.c'', 2)]) ''x.b'' = None"
  unfolding trie_search_miss by (auto; code_simp)

text \<open>Once a pattern ending its labels in a globstar, such as \<open>**.com\<close>, holds a value, patterns
  that extend it to the left, such as \<open>www.**.com\<close>, never influence a search, although for the
  domains they match they are the more specific ones.\<close>

theorem globstar_shadows_extensions:
  assumes "pattern_table pvs (p @ [''**'']) \<noteq> None" "r \<noteq> []"
    and "splitDomain q = p @ ''**'' # r" "q \<noteq> []"
  shows "DomainTrie_Search (trie_of (pvs @ [(q, v)])) d = DomainTrie_Search (trie_of pvs) d"
  using globstar_shadow_at [of "root (trie_of pvs)" p r v] assms
  by (simp add: DomainTrie_Search_def trie_of_snoc add_or_keep_root lookup_trie_of)

theorem globstar_shadows_extensions_witness:
  "DomainTrie_Search (trie_of ([(''**.com'', 1::nat)] @ [(''www.**.com'', 2)])) ''www.a.com'' = Some 1
   \<and> domain_match ''www.**.com'' ''www.a.com''"
proof -
  have "pattern_table [(''**.com'', 1::nat)] ([''com''] @ [''**'']) \<noteq> None"
    and "splitDomain ''www.**.com'' = [''com''] @ ''**'' # [''www'']"
    by code_simp+
  from globstar_shadows_extensions [OF this(1) _ this(2), of 2 "''www.a.com''"]
  have "DomainTrie_Search (trie_of ([(''**.com'', 1::nat)] @ [(''www.**.com'', 2)])) ''www.a.com'' =
    DomainTrie_Search (trie_of [(''**.com'', 1::nat)]) ''www.a.com''" by simp
  moreover have "DomainTrie_Search (trie_of [(''**.com'', 1::nat)]) ''www.a.com'' = Some 1"
    "domain_match ''www.**.com'' ''www.a.com''" by code_simp+
  ultimately show ?thesis by simp
qed

end
