(* ===== verification/Cidr_Trie.thy ===== *)
theory Cidr_Trie
  imports Go_Net "HOL-Library.AList"
begin

text \<open>
  \<open>pkg/spoofdpi/internal/trie/cidr.go\<close>: rules by network prefix. The two patricia trees are a third-party
  package; they appear as a record of operations, and \<open>patricia_ok\<close> states what their documentation
  promises: \<open>Set\<close> stores a tag at a prefix of at most the address length, \<open>FindDeepestTag\<close> returns the
  tag of the longest stored prefix of an address.
\<close>

section \<open>The patricia package\<close>

record 't patricia =
  NewTree :: 't
  tree_Set :: "bool list \<Rightarrow> nat \<Rightarrow> u32 \<Rightarrow> 't \<Rightarrow> 't"
  FindDeepestTag :: "bool list \<Rightarrow> 't \<Rightarrow> u32 option"

definition longest_tag :: "(bool list \<Rightarrow> 'a option) \<Rightarrow> bool list \<Rightarrow> 'a option" where
  "longest_tag m bits = first_some (\<lambda>k. m (take k bits)) (rev [0..<Suc (length bits)])"

definition patricia_ok :: "nat \<Rightarrow> 't patricia \<Rightarrow> ('t \<Rightarrow> bool list \<Rightarrow> u32 option) \<Rightarrow> bool" where
  "patricia_ok w P tags \<longleftrightarrow>
     tags (NewTree P) = Map.empty \<and>
     (\<forall>bits n x t. length bits = w \<longrightarrow> n \<le> w \<longrightarrow> tags (tree_Set P bits n x t) = (tags t)(take n bits \<mapsto> x)) \<and>
     (\<forall>bits t. length bits = w \<longrightarrow> FindDeepestTag P bits t = longest_tag (tags t) bits)"

section \<open>The trie\<close>

record ('v, 't, 's) CIDRTrie =
  trie_values :: "'v list"
  trie4 :: 't
  trie6 :: 's

datatype cidr_error = InvalidCIDR string

definition NewCIDRTrie :: "'t patricia \<Rightarrow> 's patricia \<Rightarrow> ('v, 't, 's) CIDRTrie" where
  "NewCIDRTrie P4 P6 = \<lparr>trie_values = [], trie4 = NewTree P4, trie6 = NewTree P6\<rparr>"

definition CIDRTrie_Add ::
  "'t patricia \<Rightarrow> 's patricia \<Rightarrow> ('v, 't, 's) CIDRTrie \<Rightarrow> string \<Rightarrow> 'v \<Rightarrow> cidr_error + ('v, 't, 's) CIDRTrie" where
  "CIDRTrie_Add P4 P6 t cidr value =
     (case ParseCIDR cidr of
        None \<Rightarrow> Inl (InvalidCIDR cidr)
      | Some (ip, ones) \<Rightarrow>
          let idx = of_nat (length (trie_values t)); t = t\<lparr>trie_values := trie_values t @ [value]\<rparr> in
          (case To4 ip of
             Some ip4 \<Rightarrow> Inr (t\<lparr>trie4 := tree_Set P4 (bits_of ip4) ones idx (trie4 t)\<rparr>)
           | None \<Rightarrow> Inr (t\<lparr>trie6 := tree_Set P6 (bits_of ip) ones idx (trie6 t)\<rparr>)))"

definition CIDRTrie_Search ::
  "'t patricia \<Rightarrow> 's patricia \<Rightarrow> ('v, 't, 's) CIDRTrie \<Rightarrow> string \<Rightarrow> (unit, 'v option) outcome" where
  "CIDRTrie_Search P4 P6 t key =
     (case ParseIP key of
        None \<Rightarrow> Ret None
      | Some ip \<Rightarrow>
          (case To4 ip of
             Some ip4 \<Rightarrow>
               (case FindDeepestTag P4 (bits_of ip4) (trie4 t) of
                  Some idx \<Rightarrow> obind (index (trie_values t) (unat idx)) (\<lambda>v. Ret (Some v))
                | None \<Rightarrow> Ret None)
           | None \<Rightarrow>
               (case To16 ip of
                  Some ip16 \<Rightarrow>
                    (case FindDeepestTag P6 (bits_of ip16) (trie6 t) of
                       Some idx \<Rightarrow> obind (index (trie_values t) (unat idx)) (\<lambda>v. Ret (Some v))
                     | None \<Rightarrow> Ret None)
                | None \<Rightarrow> Ret None)))"

section \<open>Specification: networks and the last value added\<close>

text \<open>The network a CIDR text names: its family and the bits of its prefix.\<close>

definition cidr_net :: "string \<Rightarrow> (bool \<times> bool list) option" where
  "cidr_net c =
     (case ParseCIDR c of
        None \<Rightarrow> None
      | Some (ip, n) \<Rightarrow> (case To4 ip of Some b \<Rightarrow> Some (True, take n (bits_of b)) | None \<Rightarrow> Some (False, take n (bits_of ip))))"

text \<open>The prefix length fits the family it is stored under.\<close>

definition fitting :: "string \<Rightarrow> bool" where
  "fitting c = (case ParseCIDR c of None \<Rightarrow> False | Some (ip, n) \<Rightarrow> To4 ip \<noteq> None \<longrightarrow> n \<le> 32)"

definition net_table :: "(string \<times> 'v) list \<Rightarrow> bool \<Rightarrow> bool list \<Rightarrow> 'v option" where
  "net_table cvs v4 p = map_of (rev (map (\<lambda>(c, v). (cidr_net c, v)) cvs)) (Some (v4, p))"

definition ip_bits :: "net_IP \<Rightarrow> bool \<times> bool list" where
  "ip_bits ip = (case To4 ip of Some b \<Rightarrow> (True, bits_of b) | None \<Rightarrow> (False, bits_of ip))"

definition add_or_skip ::
  "'t patricia \<Rightarrow> 's patricia \<Rightarrow> ('v, 't, 's) CIDRTrie \<Rightarrow> string \<times> 'v \<Rightarrow> ('v, 't, 's) CIDRTrie" where
  "add_or_skip P4 P6 t cv = (case CIDRTrie_Add P4 P6 t (fst cv) (snd cv) of Inl _ \<Rightarrow> t | Inr t' \<Rightarrow> t')"

definition cidr_trie_of :: "'t patricia \<Rightarrow> 's patricia \<Rightarrow> (string \<times> 'v) list \<Rightarrow> ('v, 't, 's) CIDRTrie" where
  "cidr_trie_of P4 P6 cvs = foldl (add_or_skip P4 P6) (NewCIDRTrie P4 P6) cvs"

section \<open>Longest prefixes\<close>

lemma length_mask_bytes [simp]: "length (mask_bytes n b) = length b"
  by (simp add: mask_bytes_def)

lemma byte_bits_length_of [simp]: "length (bits_of bs) = 8 * length bs"
  by (induction bs) (simp_all add: bits_of_def byte_bits_def)

lemma parseIPv4Fields_length: "parseIPv4Fields s = Some b \<Longrightarrow> length b = 4"
  by (auto simp: parseIPv4Fields_def split: list.splits option.splits)

lemma v6_loop_length: "v6_loop s ip ell = Some (b, e) \<Longrightarrow> length ip \<le> 16 \<Longrightarrow> even (length ip) \<Longrightarrow> length b \<le> 16"
proof (induction s ip ell rule: v6_loop.induct)
  case (1 s ip ell)
  show ?case
  proof (cases "length ip \<ge> 16")
    case True
    with 1(3,4) show ?thesis by (subst (asm) v6_loop.simps) (simp split: if_splits)
  next
    case False
    with 1(5) have two: "length ip + 2 \<le> 16" by presburger
    from 1(3) False obtain off acc rest where g: "hex_group s 0 0 = Some (off, acc, rest)" and off: "off \<noteq> 0"
      by (subst (asm) v6_loop.simps) (auto split: option.splits if_splits)
    show ?thesis
    proof (cases "rest \<noteq> [] \<and> hd rest = CHR ''.''")
      case True
      with 1(3) False g off show ?thesis
        by (subst (asm) v6_loop.simps) (auto split: if_splits dest: parseIPv4Fields_length)
    next
      case nodot: False
      note IH = 1(1,2) [OF False g refl refl off nodot refl]
      show ?thesis
      proof (cases rest)
        case Nil
        with 1(3) False g off two show ?thesis by (subst (asm) v6_loop.simps) auto
      next
        case (Cons c s1)
        with 1(3) False g off nodot two IH 1(5) show ?thesis
          by (subst (asm) v6_loop.simps) (auto simp: Let_def split: if_splits)
      qed
    qed
  qed
qed

lemma v6_expand_length: "v6_expand (b, e) = Some r \<Longrightarrow> length b \<le> 16 \<Longrightarrow> length r = 16"
  by (auto simp: v6_expand_def Let_def split: option.splits if_splits)

lemma parseIPv6_length: "parseIPv6 s = Some b \<Longrightarrow> length b = 16"
  by (auto simp: parseIPv6_def bind_eq_Some_conv split: if_splits dest: v6_loop_length v6_expand_length)

lemma parse_addr_length:
  assumes "ParseAddr s = Some (a, z)"
  shows "(\<exists>b. a = Addr4 b \<and> length b = 4) \<or> (\<exists>b. a = Addr6 b \<and> length b = 16)"
  using assms
  by (auto simp: ParseAddr_def Let_def split: list.splits if_splits
      dest: parseIPv4Fields_length parseIPv6_length)

lemma ParseIP_length: "ParseIP s = Some ip \<Longrightarrow> length ip = 16"
  using parse_addr_length [of s]
  by (auto simp: ParseIP_def As16_def mapped_prefix_def split: option.splits if_splits)

lemma ParseCIDR_length:
  assumes "ParseCIDR s = Some (ip, n)"
  shows "length ip = 4 \<or> length ip = 16" "n \<le> 8 * length ip"
proof -
  from assms obtain a t where "ParseAddr t = Some (a, [])" "n \<le> 8 * length (AsSlice a)" "ip = mask_bytes n (AsSlice a)"
    by (auto simp: ParseCIDR_def Let_def split: if_splits option.splits)
  with parse_addr_length [OF this(1)] show "length ip = 4 \<or> length ip = 16" "n \<le> 8 * length ip"
    by (auto simp: AsSlice_def)
qed

lemma To4_length: "To4 ip = Some b \<Longrightarrow> length b = 4"
  by (auto simp: To4_def split: if_splits)

lemma To4_None_length: "To4 ip = None \<Longrightarrow> length ip \<noteq> 4"
  by (auto simp: To4_def split: if_splits)


section \<open>The trie refines the table of networks\<close>

definition tags_rel :: "'v list \<Rightarrow> (bool list \<Rightarrow> u32 option) \<Rightarrow> (bool list \<Rightarrow> 'v option) \<Rightarrow> bool" where
  "tags_rel vals tags m \<longleftrightarrow>
     (\<forall>p. m p = map_option (\<lambda>i. vals ! unat i) (tags p) \<and> pred_option (\<lambda>i. unat i < length vals) (tags p))"

definition cidr_rel ::
  "('t \<Rightarrow> bool list \<Rightarrow> u32 option) \<Rightarrow> ('s \<Rightarrow> bool list \<Rightarrow> u32 option) \<Rightarrow>
   (string \<times> 'v) list \<Rightarrow> ('v, 't, 's) CIDRTrie \<Rightarrow> bool" where
  "cidr_rel tags4 tags6 cvs t \<longleftrightarrow>
     length (trie_values t) = length cvs \<and>
     tags_rel (trie_values t) (tags4 (trie4 t)) (net_table cvs True) \<and>
     tags_rel (trie_values t) (tags6 (trie6 t)) (net_table cvs False)"

lemma tags_rel_keep: "tags_rel vals tags m \<Longrightarrow> tags_rel (vals @ [v]) tags m"
proof (unfold tags_rel_def, intro allI)
  fix p
  assume "\<forall>p. m p = map_option (\<lambda>i. vals ! unat i) (tags p) \<and> pred_option (\<lambda>i. unat i < length vals) (tags p)"
  then show "m p = map_option (\<lambda>i. (vals @ [v]) ! unat i) (tags p) \<and>
      pred_option (\<lambda>i. unat i < length (vals @ [v])) (tags p)"
    by (cases "tags p") (auto simp: nth_append dest: spec [of _ p])
qed

lemma tags_rel_set:
  "tags_rel vals tags m \<Longrightarrow> unat i = length vals \<Longrightarrow> tags_rel (vals @ [v]) (tags(p \<mapsto> i)) (m(p \<mapsto> v))"
  using tags_rel_keep [of vals tags m v] by (auto simp: tags_rel_def)

lemma net_table_snoc:
  "net_table (cvs @ [(c, v)]) v4 =
     (case cidr_net c of Some (w, p) \<Rightarrow> if w = v4 then (net_table cvs v4)(p \<mapsto> v) else net_table cvs v4 | None \<Rightarrow> net_table cvs v4)"
  by (auto simp: net_table_def fun_eq_iff split: option.splits)

lemma unat_of_nat_u32: "n < 2 ^ 32 \<Longrightarrow> unat (of_nat n :: u32) = n"
  by (simp add: unsigned_of_nat take_bit_nat_eq_self)

lemma cidr_net_fitting:
  assumes "fitting c"
  obtains ip n where "ParseCIDR c = Some (ip, n)" "To4 ip \<noteq> None \<longrightarrow> n \<le> 32" "length ip = 4 \<or> length ip = 16" "n \<le> 8 * length ip"
  using assms ParseCIDR_length by (auto simp: fitting_def split: option.splits prod.splits)

lemma cidr_rel_add:
  assumes P4: "patricia_ok 32 P4 tags4" and P6: "patricia_ok 128 P6 tags6"
    and R: "cidr_rel tags4 tags6 cvs t" and c: "fitting c" and few: "length cvs < 2 ^ 32"
  shows "\<exists>t'. CIDRTrie_Add P4 P6 t c v = Inr t' \<and> cidr_rel tags4 tags6 (cvs @ [(c, v)]) t'"
proof -
  obtain ip n where pc: "ParseCIDR c = Some (ip, n)" and fit: "To4 ip \<noteq> None \<longrightarrow> n \<le> 32"
    and len: "length ip = 4 \<or> length ip = 16" and n: "n \<le> 8 * length ip"
    using c by (rule cidr_net_fitting)
  from R have lenv: "length (trie_values t) = length cvs"
    and r4: "tags_rel (trie_values t) (tags4 (trie4 t)) (net_table cvs True)"
    and r6: "tags_rel (trie_values t) (tags6 (trie6 t)) (net_table cvs False)"
    by (simp_all add: cidr_rel_def)
  have idx: "unat (of_nat (length (trie_values t)) :: u32) = length (trie_values t)"
    using lenv few by (simp add: unat_of_nat_u32)
  note rules = tags_rel_keep [OF r4] tags_rel_keep [OF r6] tags_rel_set [OF r4 idx] tags_rel_set [OF r6 idx]
  show ?thesis
  proof (cases "To4 ip")
    case (Some b)
    with fit have "tags4 (tree_Set P4 (bits_of b) n x s) = (tags4 s)(take n (bits_of b) \<mapsto> x)" for x s
      using P4 To4_length [OF Some] by (simp add: patricia_ok_def)
    moreover have "cidr_net c = Some (True, take n (bits_of b))" using pc Some by (simp add: cidr_net_def)
    ultimately show ?thesis
      using Some pc lenv rules by (simp add: CIDRTrie_Add_def Let_def cidr_rel_def net_table_snoc)
  next
    case None
    with len To4_None_length have "length ip = 16" by blast
    with n have "tags6 (tree_Set P6 (bits_of ip) n x s) = (tags6 s)(take n (bits_of ip) \<mapsto> x)" for x s
      using P6 by (simp add: patricia_ok_def)
    moreover have "cidr_net c = Some (False, take n (bits_of ip))" using pc None by (simp add: cidr_net_def)
    ultimately show ?thesis
      using None pc lenv rules by (simp add: CIDRTrie_Add_def Let_def cidr_rel_def net_table_snoc)
  qed
qed

lemma cidr_rel_trie_of:
  assumes P4: "patricia_ok 32 P4 tags4" and P6: "patricia_ok 128 P6 tags6"
    and fit: "\<forall>cv \<in> set cvs. fitting (fst cv)" and few: "length cvs \<le> 2 ^ 32"
  shows "cidr_rel tags4 tags6 cvs (cidr_trie_of P4 P6 cvs)"
  using fit few
proof (induction cvs rule: rev_induct)
  case Nil
  from P4 P6 show ?case
    by (simp add: cidr_rel_def cidr_trie_of_def NewCIDRTrie_def tags_rel_def patricia_ok_def net_table_def)
next
  case (snoc cv cvs)
  obtain c v where [simp]: "cv = (c, v)" by fastforce
  from snoc have "cidr_rel tags4 tags6 cvs (cidr_trie_of P4 P6 cvs)" "fitting c" "length cvs < 2 ^ 32" by simp_all
  from cidr_rel_add [OF P4 P6 this, of v] show ?case
    by (auto simp: cidr_trie_of_def add_or_skip_def)
qed

lemma first_some_map: "first_some (\<lambda>k. map_option f (g k)) ks = map_option f (first_some g ks)"
  by (induction ks) (auto split: option.splits)

lemma longest_tag_rel:
  assumes "tags_rel vals tags m"
  shows "longest_tag m bits = map_option (\<lambda>i. vals ! unat i) (longest_tag tags bits)"
    and "longest_tag tags bits = Some i \<Longrightarrow> unat i < length vals"
proof -
  from assms have m: "m = (\<lambda>p. map_option (\<lambda>i. vals ! unat i) (tags p))" by (auto simp: tags_rel_def)
  then show "longest_tag m bits = map_option (\<lambda>i. vals ! unat i) (longest_tag tags bits)"
    by (simp add: longest_tag_def first_some_map)
  show "unat i < length vals" if "longest_tag tags bits = Some i"
  proof -
    from that obtain k where "tags (take k bits) = Some i" by (auto simp: longest_tag_def simp del: upt_Suc dest!: first_some_SomeD)
    with assms show ?thesis by (force simp: tags_rel_def dest: spec [of _ "take k bits"])
  qed
qed

lemma ParseIP_To16: "ParseIP s = Some ip \<Longrightarrow> To16 ip = Some ip"
  using ParseIP_length [of s ip] by (simp add: To16_def)

text \<open>The length of the longest network of the table that contains an address.\<close>

lemma longest_tag_Some:
  assumes "longest_tag m bits = Some v"
  shows "\<exists>k \<le> length bits. m (take k bits) = Some v \<and> (\<forall>l. k < l \<longrightarrow> l \<le> length bits \<longrightarrow> m (take l bits) = None)"
proof -
  have "first_some (\<lambda>k. m (take k bits)) (rev [0..<Suc n]) = Some v \<Longrightarrow>
      \<exists>k \<le> n. m (take k bits) = Some v \<and> (\<forall>l. k < l \<longrightarrow> l \<le> n \<longrightarrow> m (take l bits) = None)" for n
  proof (induction n)
    case 0
    then show ?case by (auto split: option.splits)
  next
    case (Suc n)
    show ?case
    proof (cases "m (take (Suc n) bits)")
      case None
      with Suc show ?thesis by (fastforce simp: le_Suc_eq)
    next
      case (Some x)
      with Suc.prems show ?thesis by (auto intro!: exI [of _ "Suc n"])
    qed
  qed
  then show ?thesis using assms unfolding longest_tag_def .
qed

lemma longest_tag_only:
  assumes only: "\<And>p. m p = None \<or> m p = Some v" and k: "m (take k bits) = Some v"
  shows "longest_tag m bits = Some v"
proof (cases "longest_tag m bits")
  case None
  have "take (min k (length bits)) bits = take k bits" by (simp add: min_def)
  with k have "m (take (min k (length bits)) bits) = Some v" by simp
  moreover have "min k (length bits) \<in> set (rev [0..<Suc (length bits)])" by auto
  ultimately have False using None unfolding longest_tag_def first_some_None_iff by fastforce
  then show ?thesis ..
next
  case (Some w)
  from longest_tag_Some [OF this] obtain l where "m (take l bits) = Some w" by blast
  with only [of "take l bits"] Some show ?thesis by simp
qed

lemma cidr_search_table:
  assumes P4: "patricia_ok 32 P4 tags4" and P6: "patricia_ok 128 P6 tags6"
    and fit: "\<forall>cv \<in> set cvs. fitting (fst cv)" and few: "length cvs \<le> 2 ^ 32"
  shows "CIDRTrie_Search P4 P6 (cidr_trie_of P4 P6 cvs) key =
    Ret (case ParseIP key of None \<Rightarrow> None | Some ip \<Rightarrow> longest_tag (net_table cvs (fst (ip_bits ip))) (snd (ip_bits ip)))"
proof (cases "ParseIP key")
  case None
  then show ?thesis by (simp add: CIDRTrie_Search_def)
next
  case (Some ip)
  let ?t = "cidr_trie_of P4 P6 cvs"
  from cidr_rel_trie_of [OF P4 P6 fit few]
  have r4: "tags_rel (trie_values ?t) (tags4 (trie4 ?t)) (net_table cvs True)"
    and r6: "tags_rel (trie_values ?t) (tags6 (trie6 ?t)) (net_table cvs False)"
    by (simp_all add: cidr_rel_def)
  show ?thesis
  proof (cases "To4 ip")
    case (Some b)
    with P4 To4_length [OF Some] have "FindDeepestTag P4 (bits_of b) (trie4 ?t) = longest_tag (tags4 (trie4 ?t)) (bits_of b)"
      by (simp add: patricia_ok_def)
    with \<open>ParseIP key = Some ip\<close> Some longest_tag_rel [OF r4, of "bits_of b"] show ?thesis
      by (auto simp: CIDRTrie_Search_def ip_bits_def index_def split: option.splits)
  next
    case None
    have "length ip = 16" using \<open>ParseIP key = Some ip\<close> by (rule ParseIP_length)
    with P6 have "FindDeepestTag P6 (bits_of ip) (trie6 ?t) = longest_tag (tags6 (trie6 ?t)) (bits_of ip)"
      by (simp add: patricia_ok_def)
    with \<open>ParseIP key = Some ip\<close> None ParseIP_To16 [OF Some] longest_tag_rel [OF r6, of "bits_of ip"] show ?thesis
      by (auto simp: CIDRTrie_Search_def ip_bits_def index_def split: option.splits)
  qed
qed

text \<open>
  C7: the CIDR trie is a longest-prefix table. Given the documented behaviour of the two patricia trees, after
  adding any list of networks whose prefix length fits the family they are stored under (fewer than
  \<open>2^32\<close> of them), a search never panics; it answers the value added last for the longest network of the
  address's family that contains the address, and nothing when no network does or the key is no address.
\<close>

theorem cidr_search_longest_prefix:
  assumes P4: "patricia_ok 32 P4 tags4" and P6: "patricia_ok 128 P6 tags6"
    and fit: "\<forall>cv \<in> set cvs. fitting (fst cv)" and few: "length cvs \<le> 2 ^ 32"
  shows "CIDRTrie_Search P4 P6 (cidr_trie_of P4 P6 cvs) key =
    Ret (case ParseIP key of None \<Rightarrow> None | Some ip \<Rightarrow> longest_tag (net_table cvs (fst (ip_bits ip))) (snd (ip_bits ip)))"
  using assms by (rule cidr_search_table)

text \<open>An association list with linear search is such a tree.\<close>

definition alist_patricia :: "(bool list \<times> u32) list patricia" where
  "alist_patricia =
     \<lparr>NewTree = [],
      tree_Set = (\<lambda>bits n x t. (take n bits, x) # t),
      FindDeepestTag = (\<lambda>bits t. longest_tag (map_of t) bits)\<rparr>"

lemma alist_patricia_ok: "patricia_ok w alist_patricia map_of"
  by (simp add: patricia_ok_def alist_patricia_def)

definition sample_nets :: "(string \<times> nat) list" where
  "sample_nets = [(''10.0.0.0/8'', 1), (''10.1.0.0/16'', 2), (''10.1.2.3/8'', 4)]"

theorem cidr_search_longest_prefix_witness:
  "list_all (\<lambda>cv. fitting (fst cv)) sample_nets \<and>
   CIDRTrie_Search alist_patricia alist_patricia (cidr_trie_of alist_patricia alist_patricia sample_nets) ''10.1.200.7'' = Ret (Some 2)"
proof -
  let ?ten = "[False, False, False, False, True, False, True, False]"
  have fit: "\<forall>cv \<in> set sample_nets. fitting (fst cv)" by code_simp
  have few: "length sample_nets \<le> 2 ^ 32" by (simp add: sample_nets_def)
  have nets: "map (\<lambda>(c, v). (cidr_net c, v)) sample_nets =
      [(Some (True, ?ten), 1), (Some (True, ?ten @ [False, False, False, False, False, False, False, True]), 2), (Some (True, ?ten), 4)]"
    by code_simp
  obtain ip where ip: "ParseIP ''10.1.200.7'' = Some ip" and bits: "ip_bits ip = (True,
      [False, False, False, False, True, False, True, False, False, False, False, False, False, False, False, True, True, True, False, False, True, False, False, False, False, False, False, False, False, True, True, True])"
  proof -
    have "map_option ip_bits (ParseIP ''10.1.200.7'') = Some (True,
      [False, False, False, False, True, False, True, False, False, False, False, False, False, False, False, True, True, True, False, False, True, False, False, False, False, False, False, False, False, True, True, True])"
      by code_simp
    then show thesis using that by auto
  qed
  have val: "longest_tag (net_table sample_nets True) (snd (ip_bits ip)) = Some 2"
    unfolding net_table_def nets bits by code_simp
  show ?thesis
    unfolding cidr_search_longest_prefix [OF alist_patricia_ok alist_patricia_ok fit few] ip
    using fit val bits by (simp add: list_all_iff)
qed

end
