(* ===== verification/Rule_Set.thy ===== *)
theory Rule_Set
  imports Config_Load Domain_Trie Cidr_Trie
begin

text \<open>
  \<open>pkg/spoofdpi/internal/rule\<close>: the rule set of a running proxy, a domain trie and a CIDR trie with one
  table each of the texts already added. A \<open>*config.Rule\<close> is the rule it points to; the two loops of
  \<open>Add\<close> over the patterns and the networks of a rule are instances of one loop over a store of keyed rules, and
  the locale \<open>rule_store\<close> states what the loop needs of a store. \<open>Add\<close> returns the updated set also
  with an error, because the entries added before the failing one stay.
\<close>

section \<open>Queries and the set\<close>

datatype MatchType = MatchTypeDomain | MatchTypeAddr

record Query =
  q_Type :: MatchType
  q_Value :: string

datatype rule_error =
    MatchAttributesNil
  | NoDomainOrCIDRs
  | Conflict string string string u16
  | DomainAddError trie_error
  | CidrAddError cidr_error

record ('t, 's) RuleSet =
  rs_domain :: "Rule DomainTrie"
  rs_cidr :: "(Rule, 't, 's) CIDRTrie"
  domainKeys :: "string \<rightharpoonup> Rule"
  cidrKeys :: "string \<rightharpoonup> Rule"

definition NewRuleSet :: "'t patricia \<Rightarrow> 's patricia \<Rightarrow> ('t, 's) RuleSet" where
  "NewRuleSet P4 P6 =
     \<lparr>rs_domain = NewDomainTrie, rs_cidr = NewCIDRTrie P4 P6, domainKeys = Map.empty, cidrKeys = Map.empty\<rparr>"

section \<open>Add\<close>

text \<open>What an entry of the loop does when its text is already known.\<close>

datatype known_entry = AddEntry | SkipEntry | ConflictEntry

definition known_action :: "Rule \<Rightarrow> Rule option \<Rightarrow> known_entry" where
  "known_action r existing =
     (case existing of
        None \<Rightarrow> AddEntry
      | Some e \<Rightarrow>
          if Priority e = Priority r then ConflictEntry
          else if Priority r \<le> Priority e then SkipEntry else AddEntry)"

fun add_entries ::
  "('t \<Rightarrow> string \<Rightarrow> Rule \<Rightarrow> 'e + 't) \<Rightarrow> ('e \<Rightarrow> rule_error) \<Rightarrow> Rule \<Rightarrow> string list \<Rightarrow> (string \<rightharpoonup> Rule) \<Rightarrow> 't \<Rightarrow>
   rule_error option \<times> (string \<rightharpoonup> Rule) \<times> 't" where
  "add_entries add wrap r [] keys t = (None, keys, t)"
| "add_entries add wrap r (p # ps) keys t =
     (case known_action r (keys p) of
        ConflictEntry \<Rightarrow> (Some (Conflict (rule_Name (the (keys p))) (rule_Name r) p (Priority r)), keys, t)
      | SkipEntry \<Rightarrow> add_entries add wrap r ps keys t
      | AddEntry \<Rightarrow>
          (case add t p r of
             Inl e \<Rightarrow> (Some (wrap e), keys, t)
           | Inr t' \<Rightarrow> add_entries add wrap r ps (keys(p \<mapsto> r)) t'))"

definition add_domains :: "Rule \<Rightarrow> string list \<Rightarrow> ('t, 's) RuleSet \<Rightarrow> rule_error option \<times> ('t, 's) RuleSet" where
  "add_domains r ps rs =
     (case add_entries DomainTrie_Add DomainAddError r ps (domainKeys rs) (rs_domain rs) of
        (err, keys, t) \<Rightarrow> (err, rs\<lparr>domainKeys := keys, rs_domain := t\<rparr>))"

definition add_cidrs ::
  "'t patricia \<Rightarrow> 's patricia \<Rightarrow> Rule \<Rightarrow> string list \<Rightarrow> ('t, 's) RuleSet \<Rightarrow> rule_error option \<times> ('t, 's) RuleSet" where
  "add_cidrs P4 P6 r cs rs =
     (case add_entries (CIDRTrie_Add P4 P6) CidrAddError r cs (cidrKeys rs) (rs_cidr rs) of
        (err, keys, t) \<Rightarrow> (err, rs\<lparr>cidrKeys := keys, rs_cidr := t\<rparr>))"

definition RuleSet_Add ::
  "'t patricia \<Rightarrow> 's patricia \<Rightarrow> ('t, 's) RuleSet \<Rightarrow> Rule \<Rightarrow> rule_error option \<times> ('t, 's) RuleSet" where
  "RuleSet_Add P4 P6 rs r =
     (case Match r of
        None \<Rightarrow> (Some MatchAttributesNil, rs)
      | Some a \<Rightarrow>
          if Domains a = [] \<and> CIDRs a = [] then (Some NoDomainOrCIDRs, rs)
          else case add_domains r (Domains a) rs of
            (Some e, rs') \<Rightarrow> (Some e, rs')
          | (None, rs') \<Rightarrow> add_cidrs P4 P6 r (CIDRs a) rs')"

text \<open>The first step of \<open>createServer\<close>: every configured rule is added, the first error ends start-up.\<close>

fun add_rules ::
  "'t patricia \<Rightarrow> 's patricia \<Rightarrow> Rule list \<Rightarrow> ('t, 's) RuleSet \<Rightarrow> rule_error + ('t, 's) RuleSet" where
  "add_rules P4 P6 [] rs = Inr rs"
| "add_rules P4 P6 (r # rules) rs =
     (case RuleSet_Add P4 P6 rs r of
        (Some e, _) \<Rightarrow> Inl e
      | (None, rs') \<Rightarrow> add_rules P4 P6 rules rs')"

section \<open>Search\<close>

definition HigherPriority :: "Rule option \<Rightarrow> Rule option \<Rightarrow> Rule option" where
  "HigherPriority a b =
     (case a of
        None \<Rightarrow> b
      | Some x \<Rightarrow> (case b of None \<Rightarrow> a | Some y \<Rightarrow> if Priority x \<ge> Priority y then a else b))"

definition match_query ::
  "'t patricia \<Rightarrow> 's patricia \<Rightarrow> ('t, 's) RuleSet \<Rightarrow> Query \<Rightarrow> (unit, Rule option) outcome" where
  "match_query P4 P6 rs q =
     (case q_Type q of
        MatchTypeDomain \<Rightarrow> Ret (DomainTrie_Search (rs_domain rs) (q_Value q))
      | MatchTypeAddr \<Rightarrow> CIDRTrie_Search P4 P6 (rs_cidr rs) (q_Value q))"

fun search_queries ::
  "'t patricia \<Rightarrow> 's patricia \<Rightarrow> ('t, 's) RuleSet \<Rightarrow> Query list \<Rightarrow> Rule option \<Rightarrow> (unit, Rule option) outcome" where
  "search_queries P4 P6 rs [] best = Ret best"
| "search_queries P4 P6 rs (q # qs) best =
     obind (match_query P4 P6 rs q) (\<lambda>r. search_queries P4 P6 rs qs (HigherPriority best r))"

definition RuleSet_Search ::
  "'t patricia \<Rightarrow> 's patricia \<Rightarrow> ('t, 's) RuleSet \<Rightarrow> Query list \<Rightarrow> (unit, Rule option) outcome" where
  "RuleSet_Search P4 P6 rs queries =
     obind (search_queries P4 P6 rs queries None) (\<lambda>best. Ret (Rule_Clone best))"

section \<open>The loop over a store of rules\<close>

text \<open>
  What the loop relies on: a valid text is accepted and stored under its key, nothing else changes, and different
  valid texts have different keys.
\<close>

locale rule_store =
  fixes add :: "'t \<Rightarrow> string \<Rightarrow> Rule \<Rightarrow> 'e + 't"
    and table :: "'t \<Rightarrow> 'k \<Rightarrow> Rule option"
    and key :: "string \<Rightarrow> 'k"
    and valid :: "string \<Rightarrow> bool"
    and inv :: "'t \<Rightarrow> bool"
  assumes add_valid: "inv t \<Longrightarrow> valid p \<Longrightarrow> \<exists>t'. add t p r = Inr t' \<and> inv t' \<and> table t' = (table t)(key p \<mapsto> r)"
    and key_inj: "valid p \<Longrightarrow> valid q \<Longrightarrow> key p = key q \<Longrightarrow> p = q"
begin

text \<open>The table of known texts and the store agree.\<close>

definition in_step :: "(string \<rightharpoonup> Rule) \<Rightarrow> 't \<Rightarrow> bool" where
  "in_step keys t \<longleftrightarrow>
     inv t \<and> (\<forall>p \<in> dom keys. valid p) \<and> (\<forall>p. valid p \<longrightarrow> table t (key p) = keys p) \<and>
     (\<forall>k. table t k \<noteq> None \<longrightarrow> (\<exists>p. valid p \<and> k = key p))"

lemma in_step_add:
  assumes "in_step keys t" "valid p" "add t p r = Inr t'"
  shows "in_step (keys(p \<mapsto> r)) t'"
proof -
  from assms add_valid [of t p r] have "inv t'" "table t' = (table t)(key p \<mapsto> r)"
    by (auto simp: in_step_def)
  with assms show ?thesis
    by (auto simp: in_step_def dest: key_inj)
qed

lemma in_step_obtain:
  assumes "in_step keys t" "valid p"
  obtains t' where "add t p r = Inr t'"
  using assms add_valid [of t p r] by (auto simp: in_step_def)

lemma add_entries_in_step:
  assumes "in_step keys t" "\<forall>p \<in> set ps. valid p" "add_entries add wrap r ps keys t = (err, keys', t')"
  shows "in_step keys' t' \<and> (err = None \<or> (\<exists>n p. err = Some (Conflict n (rule_Name r) p (Priority r))))"
  using assms
proof (induction ps arbitrary: keys t)
  case (Cons p ps)
  from Cons.prems(2) have v: "valid p" "\<forall>p \<in> set ps. valid p" by simp_all
  show ?case
  proof (cases "known_action r (keys p)")
    case AddEntry
    obtain t1 where t1: "add t p r = Inr t1" using Cons.prems(1) v(1) by (rule in_step_obtain)
    from in_step_add [OF Cons.prems(1) v(1) t1] Cons.IH [OF _ v(2)] Cons.prems(3) AddEntry t1
    show ?thesis by simp
  next
    case SkipEntry
    with Cons.IH [OF Cons.prems(1) v(2)] Cons.prems(3) show ?thesis by simp
  next
    case ConflictEntry
    with Cons.prems(1,3) show ?thesis by auto
  qed
qed simp

end

text \<open>The table of texts after a loop without a conflict, whatever the store.\<close>

lemma known_action_simps:
  "known_action r None = AddEntry"
  "Priority e = Priority r \<Longrightarrow> known_action r (Some e) = ConflictEntry"
  "Priority r < Priority e \<Longrightarrow> known_action r (Some e) = SkipEntry"
  "Priority e < Priority r \<Longrightarrow> known_action r (Some e) = AddEntry"
  by (auto simp: known_action_def)

definition raised :: "Rule \<Rightarrow> Rule option \<Rightarrow> Rule option" where
  "raised r e = (case e of None \<Rightarrow> Some r | Some x \<Rightarrow> if Priority x < Priority r then Some r else Some x)"

lemma add_entries_keys:
  assumes "add_entries add wrap r ps keys t = (None, keys', t')"
  shows "keys' p = (if p \<in> set ps then raised r (keys p) else keys p) \<and>
    (p \<in> set ps \<longrightarrow> (\<forall>e. keys p = Some e \<longrightarrow> Priority e \<noteq> Priority r))"
  using assms
proof (induction ps arbitrary: keys t)
  case (Cons q ps)
  show ?case
  proof (cases "known_action r (keys q)")
    case AddEntry
    then obtain t1 where "add_entries add wrap r ps (keys(q \<mapsto> r)) t1 = (None, keys', t')"
      using Cons.prems by (auto split: sum.splits)
    from Cons.IH [OF this] AddEntry show ?thesis
      by (auto simp: known_action_def raised_def split: option.splits if_splits)
  next
    case SkipEntry
    with Cons.IH [of keys t] Cons.prems show ?thesis
      by (auto simp: known_action_def raised_def split: option.splits if_splits)
  next
    case ConflictEntry
    with Cons.prems show ?thesis by simp
  qed
qed simp

section \<open>Both stores\<close>

lemma split_char_snoc: "split_char c (s @ [c]) = split_char c s @ [[]]"
proof (induction s)
  case (Cons a s)
  then show ?case by (cases "split_char c s") auto
qed simp

lemma domain_segment_not_Nil: "\<not> domain_segment []"
  by (simp add: domain_segment_def)

lemma splitDomain_valid:
  assumes "checkDomainPattern p = None"
  shows "splitDomain p = rev (split_char (CHR ''.'') p)" "p \<noteq> []"
proof -
  from assms have segs: "list_all domain_segment (split_char (CHR ''.'') p)"
    by (auto simp: checkDomainPattern_def split: if_splits)
  then show ne: "p \<noteq> []" using domain_segment_not_Nil by auto
  have "\<not> has_suffix p ''.''"
    using segs by (auto simp: has_suffix_iff split_char_snoc domain_segment_not_Nil)
  with ne show "splitDomain p = rev (split_char (CHR ''.'') p)"
    by (simp add: splitDomain_def trim_suffix_def)
qed

lemma splitDomain_inj:
  assumes "checkDomainPattern p = None" "checkDomainPattern q = None" "splitDomain p = splitDomain q"
  shows "p = q"
proof -
  from assms have "split_char (CHR ''.'') p = split_char (CHR ''.'') q" by (simp add: splitDomain_valid)
  then show ?thesis by (metis join_split_char)
qed

interpretation domain_rules: rule_store DomainTrie_Add "\<lambda>t. lookup_at (root t)" splitDomain
  "\<lambda>p. checkDomainPattern p = None" wf_trie
proof
  fix t :: "Rule DomainTrie" and p r
  assume "wf_trie t" "checkDomainPattern p = None"
  with splitDomain_valid(2) [of p]
  show "\<exists>t'. DomainTrie_Add t p r = Inr t' \<and> wf_trie t' \<and> lookup_at (root t') = (lookup_at (root t))(splitDomain p \<mapsto> r)"
    by (auto simp: DomainTrie_Add_def splitPattern_def wf_trie_def wf_add_at lookup_add_at)
qed (rule splitDomain_inj)

lemma CIDRTrie_Add_valid: "checkCIDR c = None \<Longrightarrow> \<exists>t'. CIDRTrie_Add P4 P6 t c r = Inr t'"
  by (auto simp: checkCIDR_def CIDRTrie_Add_def Let_def split: option.splits)

section \<open>The best rule of every text\<close>

definition rule_domains :: "Rule \<Rightarrow> string list" where
  "rule_domains r = (case Match r of None \<Rightarrow> [] | Some a \<Rightarrow> Domains a)"

definition rule_cidrs :: "Rule \<Rightarrow> string list" where
  "rule_cidrs r = (case Match r of None \<Rightarrow> [] | Some a \<Rightarrow> CIDRs a)"

definition valid_rule :: "Rule \<Rightarrow> bool" where
  "valid_rule r = (case Match r of None \<Rightarrow> False | Some a \<Rightarrow> valid_match a)"

text \<open>Of the rules that list a text, the recorded one is the one of highest priority.\<close>

definition top_rule :: "(Rule \<Rightarrow> string list) \<Rightarrow> Rule list \<Rightarrow> (string \<rightharpoonup> Rule) \<Rightarrow> bool" where
  "top_rule texts rules keys \<longleftrightarrow>
     (\<forall>p. case keys p of
        None \<Rightarrow> \<forall>r \<in> set rules. p \<notin> set (texts r)
      | Some r \<Rightarrow> r \<in> set rules \<and> p \<in> set (texts r) \<and>
          (\<forall>r' \<in> set rules. p \<in> set (texts r') \<longrightarrow> r' = r \<or> Priority r' < Priority r))"

lemma top_rule_SomeD:
  assumes "top_rule texts rules keys" "keys p = Some r"
  shows "r \<in> set rules" "p \<in> set (texts r)"
    "\<forall>r' \<in> set rules. p \<in> set (texts r') \<longrightarrow> r' = r \<or> Priority r' < Priority r"
proof -
  from assms(1) have "case keys p of
        None \<Rightarrow> \<forall>r \<in> set rules. p \<notin> set (texts r)
      | Some r \<Rightarrow> r \<in> set rules \<and> p \<in> set (texts r) \<and>
          (\<forall>r' \<in> set rules. p \<in> set (texts r') \<longrightarrow> r' = r \<or> Priority r' < Priority r)"
    unfolding top_rule_def by blast
  with assms(2) show "r \<in> set rules" "p \<in> set (texts r)"
    "\<forall>r' \<in> set rules. p \<in> set (texts r') \<longrightarrow> r' = r \<or> Priority r' < Priority r" by simp_all
qed

lemma top_rule_add:
  assumes "top_rule texts rules keys" "add_entries add wrap r (texts r) keys t = (None, keys', t')"
  shows "top_rule texts (rules @ [r]) keys'"
  unfolding top_rule_def
proof
  fix p
  from assms(1) have old: "case keys p of
        None \<Rightarrow> \<forall>r \<in> set rules. p \<notin> set (texts r)
      | Some r \<Rightarrow> r \<in> set rules \<and> p \<in> set (texts r) \<and>
          (\<forall>r' \<in> set rules. p \<in> set (texts r') \<longrightarrow> r' = r \<or> Priority r' < Priority r)"
    unfolding top_rule_def by blast
  from add_entries_keys [OF assms(2), of p]
  have new: "keys' p = (if p \<in> set (texts r) then raised r (keys p) else keys p)"
    and ne: "\<And>e. p \<in> set (texts r) \<Longrightarrow> keys p = Some e \<Longrightarrow> Priority e \<noteq> Priority r" by auto
  show "case keys' p of
        None \<Rightarrow> \<forall>r \<in> set (rules @ [r]). p \<notin> set (texts r)
      | Some r0 \<Rightarrow> r0 \<in> set (rules @ [r]) \<and> p \<in> set (texts r0) \<and>
          (\<forall>r' \<in> set (rules @ [r]). p \<in> set (texts r') \<longrightarrow> r' = r0 \<or> Priority r' < Priority r0)"
  proof (cases "keys p")
    case None
    with old new show ?thesis by (auto simp: raised_def)
  next
    case (Some e)
    with old new ne [OF _ Some] show ?thesis
      by (auto simp: raised_def not_less order.not_eq_order_implies_strict)
  qed
qed

definition set_inv :: "Rule list \<Rightarrow> ('t, 's) RuleSet \<Rightarrow> bool" where
  "set_inv rules rs \<longleftrightarrow>
     domain_rules.in_step (domainKeys rs) (rs_domain rs) \<and>
     top_rule rule_domains rules (domainKeys rs) \<and> top_rule rule_cidrs rules (cidrKeys rs)"

lemma RuleSet_Add_split:
  assumes "RuleSet_Add P4 P6 rs r = (None, rs')"
  obtains keys t ckeys ct where
    "add_entries DomainTrie_Add DomainAddError r (rule_domains r) (domainKeys rs) (rs_domain rs) = (None, keys, t)"
    "add_entries (CIDRTrie_Add P4 P6) CidrAddError r (rule_cidrs r) (cidrKeys rs) (rs_cidr rs) = (None, ckeys, ct)"
    "domainKeys rs' = keys" "rs_domain rs' = t" "cidrKeys rs' = ckeys" "rs_cidr rs' = ct"
  using assms
  by (auto simp: RuleSet_Add_def add_domains_def add_cidrs_def rule_domains_def rule_cidrs_def
      split: option.splits if_splits prod.splits)

lemma set_inv_new: "set_inv [] (NewRuleSet P4 P6)"
  by (simp add: set_inv_def NewRuleSet_def top_rule_def domain_rules.in_step_def wf_trie_def NewDomainTrie_def)

lemma set_inv_add:
  assumes "set_inv rules rs" "valid_rule r" "RuleSet_Add P4 P6 rs r = (None, rs')"
  shows "set_inv (rules @ [r]) rs'"
proof -
  obtain keys t ckeys ct where d: "add_entries DomainTrie_Add DomainAddError r (rule_domains r) (domainKeys rs) (rs_domain rs) = (None, keys, t)"
    and c: "add_entries (CIDRTrie_Add P4 P6) CidrAddError r (rule_cidrs r) (cidrKeys rs) (rs_cidr rs) = (None, ckeys, ct)"
    and [simp]: "domainKeys rs' = keys" "rs_domain rs' = t" "cidrKeys rs' = ckeys" "rs_cidr rs' = ct"
    using assms(3) by (rule RuleSet_Add_split)
  from assms(2) have "\<forall>p \<in> set (rule_domains r). checkDomainPattern p = None"
    by (auto simp: valid_rule_def valid_match_def rule_domains_def split: option.splits)
  with assms(1) d have "domain_rules.in_step keys t"
    using domain_rules.add_entries_in_step by (auto simp: set_inv_def)
  with assms(1) top_rule_add [where texts = rule_domains, OF _ d] top_rule_add [where texts = rule_cidrs, OF _ c]
  show ?thesis by (simp add: set_inv_def)
qed

lemma set_inv_add_rules:
  assumes "set_inv rules0 rs" "\<forall>r \<in> set rules. valid_rule r" "add_rules P4 P6 rules rs = Inr rs'"
  shows "set_inv (rules0 @ rules) rs'"
  using assms
proof (induction rules arbitrary: rules0 rs)
  case (Cons r rules)
  from Cons.prems(3) obtain rs1 where a: "RuleSet_Add P4 P6 rs r = (None, rs1)" and b: "add_rules P4 P6 rules rs1 = Inr rs'"
    by (auto split: prod.splits option.splits)
  from set_inv_add [OF Cons.prems(1) _ a] Cons.prems(2) have "set_inv (rules0 @ [r]) rs1" by simp
  from Cons.IH [OF this _ b] Cons.prems(2) show ?case by simp
qed simp

section \<open>Errors of Add\<close>

lemma add_entries_error:
  assumes "add_entries add wrap r ps keys t = (Some e, keys', t')" "\<forall>p \<in> set ps. \<forall>t. \<exists>t'. add t p r = Inr t'"
  shows "\<exists>p \<in> set ps. \<exists>x. (keys p = Some x \<or> x = r) \<and> Priority x = Priority r \<and>
    e = Conflict (rule_Name x) (rule_Name r) p (Priority r)"
  using assms
proof (induction ps arbitrary: keys t)
  case (Cons p ps)
  show ?case
  proof (cases "known_action r (keys p)")
    case AddEntry
    from Cons.prems(2) obtain t1 where "add t p r = Inr t1" by fastforce
    with AddEntry Cons.prems have "add_entries add wrap r ps (keys(p \<mapsto> r)) t1 = (Some e, keys', t')" by simp
    from Cons.IH [OF this] Cons.prems(2) obtain q x where
      "q \<in> set ps" "(keys(p \<mapsto> r)) q = Some x \<or> x = r" "Priority x = Priority r" "e = Conflict (rule_Name x) (rule_Name r) q (Priority r)"
      by auto
    then show ?thesis by (intro bexI [of _ q] exI [of _ x]) (auto split: if_splits)
  next
    case SkipEntry
    with Cons show ?thesis by auto
  next
    case ConflictEntry
    with Cons.prems(1) show ?thesis by (auto simp: known_action_def split: option.splits if_splits)
  qed
qed simp

lemma DomainTrie_Add_valid: "checkDomainPattern p = None \<Longrightarrow> \<exists>t'. DomainTrie_Add t p r = Inr t'"
  using splitDomain_valid(2) by (simp add: DomainTrie_Add_def splitPattern_def)

text \<open>Two rules (or one rule twice) list the same text with the same priority.\<close>

definition clash :: "Rule list \<Rightarrow> rule_error \<Rightarrow> bool" where
  "clash rules e \<longleftrightarrow>
     (\<exists>x \<in> set rules. \<exists>r \<in> set rules. \<exists>p.
        (p \<in> set (rule_domains x) \<inter> set (rule_domains r) \<or> p \<in> set (rule_cidrs x) \<inter> set (rule_cidrs r)) \<and>
        Priority x = Priority r \<and> e = Conflict (rule_Name x) (rule_Name r) p (Priority r))"

lemma clashI:
  assumes "x \<in> set rules" "r \<in> set rules" "Priority x = Priority r" "e = Conflict (rule_Name x) (rule_Name r) p (Priority r)"
    and "p \<in> set (rule_domains x) \<and> p \<in> set (rule_domains r) \<or> p \<in> set (rule_cidrs x) \<and> p \<in> set (rule_cidrs r)"
  shows "clash rules e"
  using assms unfolding clash_def by blast

lemma clash_mono: "clash rules e \<Longrightarrow> set rules \<subseteq> set rules' \<Longrightarrow> clash rules' e"
  unfolding clash_def by blast

lemma entries_clash:
  assumes err: "add_entries add wrap r (texts r) keys t = (Some e, keys', t')"
    and ok: "\<forall>p \<in> set (texts r). \<forall>t. \<exists>t'. add t p r = Inr t'"
    and top: "top_rule texts rules keys" and texts: "texts = rule_domains \<or> texts = rule_cidrs"
  shows "clash (rules @ [r]) e"
proof -
  from add_entries_error [OF err ok] obtain p x where p: "p \<in> set (texts r)" and x: "keys p = Some x \<or> x = r"
    and "Priority x = Priority r" "e = Conflict (rule_Name x) (rule_Name r) p (Priority r)" by blast
  moreover from x top p have "x \<in> set (rules @ [r])" "p \<in> set (texts x)"
    using top_rule_SomeD(1,2) [OF top, of p x] by auto
  ultimately show ?thesis using texts by (intro clashI [of x _ r]) auto
qed

lemma RuleSet_Add_error:
  assumes inv: "set_inv rules rs" and r: "valid_rule r" and err: "RuleSet_Add P4 P6 rs r = (Some e, rs')"
  shows "clash (rules @ [r]) e"
proof -
  from r obtain a where a: "Match r = Some a" "valid_match a" by (auto simp: valid_rule_def split: option.splits)
  then have okd: "\<forall>p \<in> set (rule_domains r). \<forall>t. \<exists>t'. DomainTrie_Add t p r = Inr t'"
    and okc: "\<forall>p \<in> set (rule_cidrs r). \<forall>t. \<exists>t'. CIDRTrie_Add P4 P6 t p r = Inr t'"
    by (auto simp: valid_match_def rule_domains_def rule_cidrs_def DomainTrie_Add_valid CIDRTrie_Add_valid)
  from inv have top: "top_rule rule_domains rules (domainKeys rs)" "top_rule rule_cidrs rules (cidrKeys rs)"
    by (simp_all add: set_inv_def)
  from err a obtain keys t where
    "add_entries DomainTrie_Add DomainAddError r (rule_domains r) (domainKeys rs) (rs_domain rs) = (Some e, keys, t) \<or>
     add_entries (CIDRTrie_Add P4 P6) CidrAddError r (rule_cidrs r) (cidrKeys rs) (rs_cidr rs) = (Some e, cidrKeys rs', rs_cidr rs')"
    by (fastforce simp: RuleSet_Add_def add_domains_def add_cidrs_def rule_domains_def rule_cidrs_def valid_match_def
        split: option.splits if_splits prod.splits)
  then show ?thesis
    using entries_clash [where texts = rule_domains and r = r and add = DomainTrie_Add and keys = "domainKeys rs", OF _ okd top(1) disjI1 [OF refl]]
      entries_clash [where texts = rule_cidrs and r = r and add = "CIDRTrie_Add P4 P6" and keys = "cidrKeys rs", OF _ okc top(2) disjI2 [OF refl]] by blast
qed

lemma add_rules_error:
  assumes "set_inv rules0 rs" "\<forall>r \<in> set rules. valid_rule r" "add_rules P4 P6 rules rs = Inl e"
  shows "clash (rules0 @ rules) e"
  using assms
proof (induction rules arbitrary: rules0 rs)
  case (Cons r rules)
  obtain err rs1 where a: "RuleSet_Add P4 P6 rs r = (err, rs1)" by fastforce
  show ?case
  proof (cases err)
    case None
    with a Cons.prems set_inv_add [OF Cons.prems(1), of r P4 P6 rs1] Cons.IH [of "rules0 @ [r]" rs1]
    show ?thesis by simp
  next
    case (Some e')
    with a Cons.prems RuleSet_Add_error [OF Cons.prems(1), of r P4 P6 e' rs1] have "clash (rules0 @ [r]) e" by simp
    then show ?thesis by (rule clash_mono) auto
  qed
qed simp

lemma search_queries_no_cidr:
  "RuleSet_Search P4 P6 rs [\<lparr>q_Type = MatchTypeDomain, q_Value = d\<rparr>] = Ret (DomainTrie_Search (rs_domain rs) d)"
  by (cases "DomainTrie_Search (rs_domain rs) d")
    (simp_all add: RuleSet_Search_def match_query_def HigherPriority_def Rule_Clone_def)

text \<open>A loaded rule set resolves a domain to the right rule. After every rule of a valid list was added without an
  error, a domain query that finds nothing means that no rule lists a pattern matching the domain; a rule it finds
  lists a pattern that matches the domain, no pattern of any rule that matches the domain precedes it in the order of the search, and
  every other rule listing that pattern has a lower priority.
\<close>

theorem domain_rule_search:
  assumes rules: "\<forall>r \<in> set rules. valid_rule r" and add: "add_rules P4 P6 rules (NewRuleSet P4 P6) = Inr rs"
  shows "\<exists>res. RuleSet_Search P4 P6 rs [\<lparr>q_Type = MatchTypeDomain, q_Value = d\<rparr>] = Ret res \<and>
    (case res of
       None \<Rightarrow> \<forall>r \<in> set rules. \<forall>p \<in> set (rule_domains r). \<not> domain_match p d
     | Some r \<Rightarrow> r \<in> set rules \<and>
         (\<exists>p \<in> set (rule_domains r). domain_match p d \<and>
            (\<forall>r' \<in> set rules. \<forall>q \<in> set (rule_domains r'). domain_match q d \<longrightarrow> \<not> precedes (splitDomain q) (splitDomain p)) \<and>
            (\<forall>r' \<in> set rules. p \<in> set (rule_domains r') \<longrightarrow> r' = r \<or> Priority r' < Priority r)))"
proof -
  have "set_inv rules rs" using set_inv_add_rules [OF set_inv_new rules add] by simp
  then have step: "domain_rules.in_step (domainKeys rs) (rs_domain rs)" and top: "top_rule rule_domains rules (domainKeys rs)"
    by (simp_all add: set_inv_def)
  from step have wf: "wf_node (root (rs_domain rs))"
    and look: "\<And>p. checkDomainPattern p = None \<Longrightarrow> lookup_at (root (rs_domain rs)) (splitDomain p) = domainKeys rs p"
    and only: "\<And>k. lookup_at (root (rs_domain rs)) k \<noteq> None \<Longrightarrow> \<exists>p. checkDomainPattern p = None \<and> k = splitDomain p"
    by (auto simp: domain_rules.in_step_def wf_trie_def)
  have valid: "checkDomainPattern p = None" if "r \<in> set rules" "p \<in> set (rule_domains r)" for r p
    using rules that by (fastforce simp: valid_rule_def valid_match_def rule_domains_def split: option.splits)
  have listed: "lookup_at (root (rs_domain rs)) (splitDomain p) \<noteq> None" if "r \<in> set rules" "p \<in> set (rule_domains r)" for r p
    using that top look [OF valid [OF that]] by (auto simp: top_rule_def dest: spec [of _ p] split: option.splits)
  show ?thesis
  proof (cases "DomainTrie_Search (rs_domain rs) d")
    case None
    have "\<not> domain_match p d" if "r \<in> set rules" "p \<in> set (rule_domains r)" for r p
      using None search_complete listed [OF that] unfolding DomainTrie_Search_def domain_match_def by (metis not_None_eq)
    with None show ?thesis by (auto simp: search_queries_no_cidr)
  next
    case (Some r)
    then obtain k where k: "best_match (root (rs_domain rs)) (splitDomain d) r k"
      using search_best [OF wf] unfolding DomainTrie_Search_def by blast
    note best = best_matchD [OF k]
    from best(1) only [of k] obtain p where p: "checkDomainPattern p = None" "k = splitDomain p" by auto
    with best(1) look have "domainKeys rs p = Some r" by auto
    with top have r: "r \<in> set rules" "p \<in> set (rule_domains r)"
      "\<forall>r' \<in> set rules. p \<in> set (rule_domains r') \<longrightarrow> r' = r \<or> Priority r' < Priority r"
      using top_rule_SomeD [OF top] by blast+
    have "\<not> precedes (splitDomain q) (splitDomain p)"
      if "r' \<in> set rules" "q \<in> set (rule_domains r')" "domain_match q d" for r' q
      using best(3) listed [OF that(1,2)] that(3) p(2) by (auto simp: domain_match_def)
    with best(2) p r Some show ?thesis by (auto simp: search_queries_no_cidr domain_match_def)
  qed
qed

definition plain_rule :: "string \<Rightarrow> u16 \<Rightarrow> string list \<Rightarrow> string list \<Rightarrow> RuntimeConfig \<Rightarrow> Rule" where
  "plain_rule name prio ds cs c =
     \<lparr>rule_Name = name, Priority = prio, Block = False, Match = Some \<lparr>Domains = ds, CIDRs = cs\<rparr>, rule_Config = c\<rparr>"

lemma plain_rule_simps [simp]:
  "rule_Name (plain_rule n k ds cs c) = n" "Priority (plain_rule n k ds cs c) = k"
  "Match (plain_rule n k ds cs c) = Some \<lparr>Domains = ds, CIDRs = cs\<rparr>"
  "rule_domains (plain_rule n k ds cs c) = ds" "rule_cidrs (plain_rule n k ds cs c) = cs"
  by (simp_all add: plain_rule_def rule_domains_def rule_cidrs_def)

lemma valid_plain_rule:
  "valid_rule (plain_rule n k ds cs c) \<longleftrightarrow>
     (ds \<noteq> [] \<or> cs \<noteq> []) \<and> list_all (\<lambda>d. checkDomainPattern d = None) ds \<and> list_all (\<lambda>d. checkCIDR d = None) cs"
  by (auto simp: valid_rule_def valid_match_def list_all_iff)

definition sample_rules :: "RuntimeConfig \<Rightarrow> Rule list" where
  "sample_rules c =
     [plain_rule ''low'' 10 [''a.com''] [] c, plain_rule ''wide'' 50 [''**.com''] [] c, plain_rule ''high'' 20 [''a.com''] [] c]"

lemma sample_rules_add:
  "\<exists>rs. add_rules alist_patricia alist_patricia (sample_rules c) (NewRuleSet alist_patricia alist_patricia) = Inr rs"
  by (simp add: sample_rules_def RuleSet_Add_def add_domains_def add_cidrs_def NewRuleSet_def known_action_def
      DomainTrie_Add_def splitPattern_def)

theorem domain_rule_search_witness:
  "\<exists>rs res. RuleSet_Search alist_patricia alist_patricia rs [\<lparr>q_Type = MatchTypeDomain, q_Value = ''a.com''\<rparr>] = Ret res \<and>
     (case res of None \<Rightarrow> False | Some r \<Rightarrow> r \<in> set (sample_rules (Runtime DefaultConfig)))"
proof -
  obtain rs where add: "add_rules alist_patricia alist_patricia (sample_rules (Runtime DefaultConfig)) (NewRuleSet alist_patricia alist_patricia) = Inr rs"
    using sample_rules_add by blast
  have ok: "checkDomainPattern ''a.com'' = None" "checkDomainPattern ''**.com'' = None" "domain_match ''a.com'' ''a.com''"
    by code_simp+
  have valid: "\<forall>r \<in> set (sample_rules (Runtime DefaultConfig)). valid_rule r"
    by (simp add: sample_rules_def valid_plain_rule ok)
  have "\<exists>r \<in> set (sample_rules (Runtime DefaultConfig)). \<exists>p \<in> set (rule_domains r). domain_match p ''a.com''"
    by (auto simp: sample_rules_def ok)
  with domain_rule_search [OF valid add, of "''a.com''"] show ?thesis
    by (intro exI [of _ rs]) (auto split: option.splits)
qed

text \<open>Adding validated rules can only fail with a conflict, and a reported conflict is real: two rules of the list (or
  one rule twice) list the same pattern or network text with the same priority, and the message names them and the
  text. In particular no pattern the loader accepts is refused by the tries.
\<close>

theorem add_rules_fails_only_on_clash:
  assumes "\<forall>r \<in> set rules. valid_rule r" "add_rules P4 P6 rules (NewRuleSet P4 P6) = Inl e"
  shows "clash rules e"
  using add_rules_error [OF set_inv_new assms] by simp

theorem add_rules_fails_only_on_clash_witness:
  "clash [plain_rule ''x'' 10 [''a.com'', ''a.com''] [] (Runtime DefaultConfig)] (Conflict ''x'' ''x'' ''a.com'' 10)"
proof -
  have ok: "checkDomainPattern ''a.com'' = None" by code_simp
  show ?thesis
    by (rule add_rules_fails_only_on_clash [where ?P4.0 = alist_patricia and ?P6.0 = alist_patricia])
      (simp_all add: valid_plain_rule ok RuleSet_Add_def add_domains_def NewRuleSet_def known_action_def
        DomainTrie_Add_def splitPattern_def)
qed

text \<open>Conflicts and priorities of networks are decided by the text of a CIDR, not by the network. Two rules whose
  CIDR texts differ but name the same network are both accepted whatever their priorities, and for every address of
  the network the rule added last wins, even when its priority is the lower one.
\<close>

theorem cidr_priority_by_text:
  assumes P4: "patricia_ok 32 P4 tags4" and P6: "patricia_ok 128 P6 tags6"
    and c: "fitting c1" "fitting c2" "c1 \<noteq> c2" "cidr_net c1 = cidr_net c2"
    and addr: "ParseIP key = Some ip" "cidr_net c1 = Some (fst (ip_bits ip), take n (snd (ip_bits ip)))"
  shows "\<exists>rs. add_rules P4 P6 [plain_rule a k1 [] [c1] g, plain_rule b k2 [] [c2] g] (NewRuleSet P4 P6) = Inr rs \<and>
    RuleSet_Search P4 P6 rs [\<lparr>q_Type = MatchTypeAddr, q_Value = key\<rparr>] = Ret (Some (plain_rule b k2 [] [c2] g))"
proof -
  let ?r1 = "plain_rule a k1 [] [c1] g" and ?r2 = "plain_rule b k2 [] [c2] g"
  let ?cvs = "[(c1, ?r1), (c2, ?r2)]"
  have fit: "\<forall>cv \<in> set ?cvs. fitting (fst cv)" using c by simp
  have add1: "\<exists>t'. CIDRTrie_Add P4 P6 t d r = Inr t'" if "fitting d" for t d and r :: Rule
    using that by (auto simp: CIDRTrie_Add_def fitting_def Let_def split: option.splits)
  obtain t1 where t1: "CIDRTrie_Add P4 P6 (NewCIDRTrie P4 P6) c1 ?r1 = Inr t1" using add1 [OF c(1)] by blast
  obtain t2 where t2: "CIDRTrie_Add P4 P6 t1 c2 ?r2 = Inr t2" using add1 [OF c(2)] by blast
  have "cidr_trie_of P4 P6 ?cvs = t2" by (simp add: cidr_trie_of_def add_or_skip_def t1 t2)
  moreover have "longest_tag (net_table ?cvs (fst (ip_bits ip))) (snd (ip_bits ip)) = Some ?r2"
    using c(4) addr(2) by (intro longest_tag_only [of _ _ n]) (auto simp: net_table_def)
  ultimately have "CIDRTrie_Search P4 P6 t2 key = Ret (Some ?r2)"
    using cidr_search_table [OF P4 P6 fit, of key] addr(1) by simp
  then show ?thesis using c(3)
    by (simp add: RuleSet_Add_def add_domains_def add_cidrs_def NewRuleSet_def known_action_def t1 t2
        RuleSet_Search_def match_query_def HigherPriority_def Rule_Clone_def)
qed

theorem cidr_priority_by_text_witness:
  "\<exists>rs. add_rules alist_patricia alist_patricia
       [plain_rule ''a'' 20 [] [''10.0.0.0/8''] (Runtime DefaultConfig), plain_rule ''b'' 10 [] [''10.1.2.3/8''] (Runtime DefaultConfig)]
       (NewRuleSet alist_patricia alist_patricia) = Inr rs \<and>
     RuleSet_Search alist_patricia alist_patricia rs [\<lparr>q_Type = MatchTypeAddr, q_Value = ''10.9.9.9''\<rparr>] =
       Ret (Some (plain_rule ''b'' 10 [] [''10.1.2.3/8''] (Runtime DefaultConfig)))"
proof -
  have c: "fitting ''10.0.0.0/8''" "fitting ''10.1.2.3/8''" "cidr_net ''10.0.0.0/8'' = cidr_net ''10.1.2.3/8''"
    by code_simp+
  have "map_option (\<lambda>ip. Some (fst (ip_bits ip), take 8 (snd (ip_bits ip)))) (ParseIP ''10.9.9.9'') = Some (cidr_net ''10.0.0.0/8'')"
    by code_simp
  then obtain ip where ip: "ParseIP ''10.9.9.9'' = Some ip" "cidr_net ''10.0.0.0/8'' = Some (fst (ip_bits ip), take 8 (snd (ip_bits ip)))"
    by auto
  show ?thesis
    by (rule cidr_priority_by_text [OF alist_patricia_ok alist_patricia_ok c(1,2) _ c(3) ip]) simp
qed

text \<open>Whether two rules of equal priority on the same pattern are reported depends on the order of the list: after a
  rule of higher priority on that pattern both are skipped in silence, before it they are a conflict that stops
  start-up.
\<close>

theorem conflict_depends_on_order:
  fixes p :: string
  assumes "checkDomainPattern p = None" "lo < (hi :: u16)"
  shows "\<exists>rs. add_rules P4 P6 [plain_rule a hi [p] [] g, plain_rule b lo [p] [] g, plain_rule c lo [p] [] g] (NewRuleSet P4 P6) = Inr rs"
    and "add_rules P4 P6 [plain_rule b lo [p] [] g, plain_rule c lo [p] [] g, plain_rule a hi [p] [] g] (NewRuleSet P4 P6) =
      Inl (Conflict b c p lo)"
  using assms splitDomain_valid(2) [OF assms(1)]
  by (auto simp: RuleSet_Add_def add_domains_def add_cidrs_def NewRuleSet_def known_action_def
      DomainTrie_Add_def splitPattern_def)

theorem conflict_depends_on_order_witness:
  "add_rules alist_patricia alist_patricia
     [plain_rule ''b'' 1 [''a.com''] [] (Runtime DefaultConfig), plain_rule ''c'' 1 [''a.com''] [] (Runtime DefaultConfig), plain_rule ''a'' 2 [''a.com''] [] (Runtime DefaultConfig)]
     (NewRuleSet alist_patricia alist_patricia) = Inl (Conflict ''b'' ''c'' ''a.com'' 1)"
proof -
  have "checkDomainPattern ''a.com'' = None" by code_simp
  then show ?thesis by (rule conflict_depends_on_order(2)) simp
qed

section \<open>Several queries\<close>

lemma HigherPriority_None [simp]: "HigherPriority None b = b" "HigherPriority a None = a"
  by (cases a; simp add: HigherPriority_def)+

lemma HigherPriority_cases: "HigherPriority a b = a \<or> HigherPriority a b = b"
  by (auto simp: HigherPriority_def split: option.splits)

text \<open>The winner of a search over several queries has the highest priority of all rules they find.\<close>

lemma search_queries_best:
  assumes "search_queries P4 P6 rs qs best = Ret res"
  shows "(res = best \<or> (\<exists>q \<in> set qs. match_query P4 P6 rs q = Ret res)) \<and>
    (\<forall>r. best = Some r \<or> (\<exists>q \<in> set qs. match_query P4 P6 rs q = Ret (Some r)) \<longrightarrow>
       (\<exists>x. res = Some x \<and> Priority r \<le> Priority x))"
  using assms
proof (induction qs arbitrary: best)
  case (Cons q qs)
  from Cons.prems obtain m where m: "match_query P4 P6 rs q = Ret m" and s: "search_queries P4 P6 rs qs (HigherPriority best m) = Ret res"
    by (auto simp: obind_Ret_conv)
  have up: "\<exists>x. HigherPriority best m = Some x \<and> Priority r \<le> Priority x" if "best = Some r \<or> m = Some r" for r
    using that by (auto simp: HigherPriority_def split: option.splits)
  note IH = Cons.IH [OF s]
  have "res = best \<or> (\<exists>q \<in> set (q # qs). match_query P4 P6 rs q = Ret res)"
    using IH m HigherPriority_cases [of best m] by auto
  moreover have "\<exists>x. res = Some x \<and> Priority r \<le> Priority x"
    if r: "best = Some r \<or> (\<exists>q \<in> set (q # qs). match_query P4 P6 rs q = Ret (Some r))" for r
  proof (cases "best = Some r \<or> m = Some r")
    case True
    from up [OF this] obtain x where "HigherPriority best m = Some x" "Priority r \<le> Priority x" by blast
    with IH show ?thesis by (meson order.trans)
  next
    case False
    with r m have "\<exists>q \<in> set qs. match_query P4 P6 rs q = Ret (Some r)" by auto
    with IH show ?thesis by blast
  qed
  ultimately show ?case by blast
qed auto

end
