(* ===== verification/Cache_Interface.thy ===== *)
theory Cache_Interface
  imports Go_Prelude
begin

text \<open>
  \<open>pkg/spoofdpi/internal/cache/hash.go\<close> and \<open>cache.go\<close>: the FNV-1a shard hash, the options of a
  \<open>Set\<close> call, and the contract of the \<open>Cache\<close> interface as a locale. The clients (the sniffers'
  hop caches, the DNS answer cache, the connection registry) hold a \<open>Cache\<close> and rely on nothing
  but this contract, so what they need is proved once here and inherited by both caches.
\<close>

section \<open>Shard hash\<close>

definition fnvOffset64 :: u64 where
  "fnvOffset64 = 14695981039346656037"

definition fnvPrime64 :: u64 where
  "fnvPrime64 = 1099511628211"

definition fnv1aBytes :: "bytes \<Rightarrow> u64" where
  "fnv1aBytes b = foldl (\<lambda>h c. (h XOR ucast c) * fnvPrime64) fnvOffset64 b"

section \<open>Options\<close>

record cache_options =
  ttl :: int
  skipExisting :: bool
  updateExistingOnly :: bool

definition Options :: cache_options where
  "Options = \<lparr>ttl = 0, skipExisting = False, updateExistingOnly = False\<rparr>"

definition WithTTL :: "int \<Rightarrow> cache_options \<Rightarrow> cache_options" where
  "WithTTL d opts = opts\<lparr>ttl := d\<rparr>"

definition WithUpdateExistingOnly :: "bool \<Rightarrow> cache_options \<Rightarrow> cache_options" where
  "WithUpdateExistingOnly b opts = opts\<lparr>updateExistingOnly := b\<rparr>"

definition WithSkipExisting :: "bool \<Rightarrow> cache_options \<Rightarrow> cache_options" where
  "WithSkipExisting b opts = opts\<lparr>skipExisting := b\<rparr>"

text \<open>The \<open>if opts == nil\<close> step both caches start with.\<close>

definition opts_or_default :: "cache_options option \<Rightarrow> cache_options" where
  "opts_or_default opts = (case opts of None \<Rightarrow> Options | Some opt \<Rightarrow> opt)"

section \<open>The contract of the interface\<close>

text \<open>
  A cache is observed through \<open>peek now c k\<close>, the value a \<open>Get\<close> at time \<open>now\<close> would return. A
  cache may forget (eviction, expiry) but it never invents or resurrects a value.
\<close>

datatype ('k, 'v) cache_op =
    OpGet 'k
  | OpSet 'k 'v "cache_options option"
  | OpDelete 'k

text \<open>Running a timed sequence of operations, and what a perfect memory would hold after it: the
  last accepted value of each key, until deleted.\<close>

primrec cache_step where
  "cache_step getc setc deletec t (OpGet k) c = snd (getc t k c)"
| "cache_step getc setc deletec t (OpSet k v opt) c = snd (setc t k v opt c)"
| "cache_step getc setc deletec t (OpDelete k) c = deletec k c"

primrec cache_run where
  "cache_run getc setc deletec [] c = c"
| "cache_run getc setc deletec (o' # os) c =
     cache_run getc setc deletec os (cache_step getc setc deletec (fst o') (snd o') c)"

primrec record_op where
  "record_op setc t (OpGet k) c m = m"
| "record_op setc t (OpSet k v opt) c m = (if fst (setc t k v opt c) then m(k \<mapsto> v) else m)"
| "record_op setc t (OpDelete k) c m = m(k := None)"

primrec cache_memory where
  "cache_memory getc setc deletec [] c m = m"
| "cache_memory getc setc deletec (o' # os) c m =
     cache_memory getc setc deletec os (cache_step getc setc deletec (fst o') (snd o') c)
       (record_op setc (fst o') (snd o') c m)"

locale cache_contract =
  fixes inv :: "'c \<Rightarrow> bool"
    and peek :: "int \<Rightarrow> 'c \<Rightarrow> 'k \<Rightarrow> 'v option"
    and getc :: "int \<Rightarrow> 'k \<Rightarrow> 'c \<Rightarrow> 'v option \<times> 'c"
    and setc :: "int \<Rightarrow> 'k \<Rightarrow> 'v \<Rightarrow> cache_options option \<Rightarrow> 'c \<Rightarrow> bool \<times> 'c"
    and deletec :: "'k \<Rightarrow> 'c \<Rightarrow> 'c"
    and hasc :: "int \<Rightarrow> 'k \<Rightarrow> 'c \<Rightarrow> bool"
  assumes get_value: "inv c \<Longrightarrow> fst (getc t k c) = peek t c k"
    and get_inv: "inv c \<Longrightarrow> inv (snd (getc t k c))"
    and get_keeps: "inv c \<Longrightarrow> t \<le> t' \<Longrightarrow> peek t' (snd (getc t k c)) k' = peek t' c k'"
    and set_inv: "inv c \<Longrightarrow> inv (snd (setc t k v opt c))"
    and set_refused: "inv c \<Longrightarrow> \<not> fst (setc t k v opt c) \<Longrightarrow> snd (setc t k v opt c) = c"
    and set_own: "inv c \<Longrightarrow> fst (setc t k v opt c) \<Longrightarrow> peek t' (snd (setc t k v opt c)) k = Some v'
      \<Longrightarrow> v' = v"
    and set_other: "inv c \<Longrightarrow> k' \<noteq> k \<Longrightarrow> peek t' (snd (setc t k v opt c)) k' = Some v' \<Longrightarrow>
      peek t' c k' = Some v'"
    and delete_inv: "inv c \<Longrightarrow> inv (deletec k c)"
    and delete_peek: "inv c \<Longrightarrow> peek t (deletec k c) = (peek t c)(k := None)"
    and has_iff: "inv c \<Longrightarrow> hasc t k c \<longleftrightarrow> peek t c k \<noteq> None"
    and peek_ages: "inv c \<Longrightarrow> t \<le> t' \<Longrightarrow> peek t' c k = Some v \<Longrightarrow> peek t c k = Some v"
begin

abbreviation "step \<equiv> cache_step getc setc deletec"

abbreviation "run \<equiv> cache_run getc setc deletec"

abbreviation "memory \<equiv> cache_memory getc setc deletec"

definition coherent :: "int \<Rightarrow> 'c \<Rightarrow> ('k \<Rightarrow> 'v option) \<Rightarrow> bool" where
  "coherent t c m \<longleftrightarrow> (\<forall>k v t'. t \<le> t' \<longrightarrow> peek t' c k = Some v \<longrightarrow> m k = Some v)"

lemma step_inv: "inv c \<Longrightarrow> inv (step t op' c)"
  by (cases op') (simp_all add: get_inv set_inv delete_inv)

lemma step_coherent:
  assumes "inv c" "coherent t c m"
  shows "coherent t (step t op' c) (record_op setc t op' c m)"
proof (cases op')
  case (OpGet k)
  with assms show ?thesis by (simp add: coherent_def get_keeps)
next
  case (OpSet k v opt)
  show ?thesis
  proof (cases "fst (setc t k v opt c)")
    case True
    have "(m(k \<mapsto> v)) k' = Some v'"
      if "t \<le> t'" "peek t' (snd (setc t k v opt c)) k' = Some v'" for k' v' t'
      using that assms set_own [OF assms(1) True] set_other [OF assms(1)]
      by (cases "k' = k") (force simp: coherent_def)+
    with True OpSet show ?thesis by (simp add: coherent_def)
  next
    case False
    with assms OpSet show ?thesis by (simp add: set_refused)
  qed
next
  case (OpDelete k)
  with assms show ?thesis by (auto simp: coherent_def delete_peek split: if_splits)
qed

lemma coherent_mono: "coherent t c m \<Longrightarrow> t \<le> t' \<Longrightarrow> coherent t' c m"
  unfolding coherent_def by (meson order_trans)

lemma run_inv: "inv c \<Longrightarrow> inv (run os c)"
  by (induction os arbitrary: c) (simp_all add: step_inv)

text \<open>Under a clock that does not run backwards every value a cache returns is the current one.\<close>

lemma run_coherent:
  assumes "inv c" "coherent t c m" "sorted (t # map fst os)"
    and "\<forall>o'\<in>set os. fst o' \<le> now" "t \<le> now"
  shows "coherent now (run os c) (memory os c m)"
  using assms
proof (induction os arbitrary: c m t)
  case Nil
  then show ?case by (simp add: coherent_mono)
next
  case (Cons o' os)
  then show ?case
    using step_coherent [of c "fst o'" m "snd o'"] coherent_mono [of t c m "fst o'"]
    by (auto simp: step_inv)
qed

lemma run_get:
  assumes "inv c" "coherent t c m" "sorted (t # map fst os)"
    and "\<forall>o'\<in>set os. fst o' \<le> now" "t \<le> now"
    and "fst (getc now k (run os c)) = Some v"
  shows "memory os c m k = Some v"
  using run_coherent [OF assms(1-5)] assms(6) run_inv [OF assms(1)]
  by (auto simp: coherent_def get_value)

end

section \<open>Caches that keep what they accept\<close>

text \<open>When a \<open>Set\<close> is accepted, by its options and the presence of the key.\<close>

definition set_accepted :: "cache_options option \<Rightarrow> 'v option \<Rightarrow> bool" where
  "set_accepted opts old =
     (case old of Some _ \<Rightarrow> \<not> skipExisting (opts_or_default opts)
      | None \<Rightarrow> \<not> updateExistingOnly (opts_or_default opts))"

text \<open>A cache without deadlines decides by the options alone and holds an accepted value at once.\<close>

locale retaining_cache = cache_contract inv peek getc setc deletec hasc
  for inv :: "'c \<Rightarrow> bool"
    and peek :: "int \<Rightarrow> 'c \<Rightarrow> 'k \<Rightarrow> 'v option"
    and getc :: "int \<Rightarrow> 'k \<Rightarrow> 'c \<Rightarrow> 'v option \<times> 'c"
    and setc :: "int \<Rightarrow> 'k \<Rightarrow> 'v \<Rightarrow> cache_options option \<Rightarrow> 'c \<Rightarrow> bool \<times> 'c"
    and deletec :: "'k \<Rightarrow> 'c \<Rightarrow> 'c"
    and hasc :: "int \<Rightarrow> 'k \<Rightarrow> 'c \<Rightarrow> bool" +
  assumes set_decides: "inv c \<Longrightarrow> fst (setc t k v opt c) = set_accepted opt (peek t c k)"
    and set_retains: "inv c \<Longrightarrow> fst (setc t k v opt c) \<Longrightarrow> peek t (snd (setc t k v opt c)) k = Some v"
begin

lemma plain_set: "inv c \<Longrightarrow> peek t (snd (setc t k v None c)) k = Some v"
  by (rule set_retains) (simp_all add: set_decides set_accepted_def opts_or_default_def Options_def
      split: option.split)

lemma skip_existing_set:
  assumes "inv c" "opt = Some (WithSkipExisting True Options)"
  shows "peek t (snd (setc t k v opt c)) k = (case peek t c k of None \<Rightarrow> Some v | Some w \<Rightarrow> Some w)"
proof (cases "peek t c k")
  case None
  then have "fst (setc t k v opt c)"
    using assms by (simp add: set_decides set_accepted_def opts_or_default_def Options_def WithSkipExisting_def)
  with None assms(1) show ?thesis by (simp add: set_retains)
next
  case (Some w)
  then have "\<not> fst (setc t k v opt c)"
    using assms by (simp add: set_decides set_accepted_def opts_or_default_def Options_def WithSkipExisting_def)
  with Some assms(1) show ?thesis by (simp add: set_refused)
qed

end

end
