(* ===== verification/Lru_Cache.thy ===== *)
theory Lru_Cache
  imports Cache_Interface "HOL-Library.Multiset"
begin

text \<open>
  \<open>pkg/spoofdpi/internal/cache/lru_cache.go\<close>. A shard keeps a map from keys to list elements and
  a doubly linked list (\<open>container/list\<close>) in recency order. An element is an identity together
  with its entry; the map holds identities, as the code holds pointers. Calls of \<open>onInvalidate\<close>
  are recorded in order in the field \<open>invalidated\<close>. Every method runs under the lock of its
  shard, so an operation is one atomic step.
\<close>

section \<open>container/list\<close>

type_synonym ('k, 'v) element = "nat \<times> 'k \<times> 'v"

definition list_MoveToFront :: "nat \<Rightarrow> ('k, 'v) element list \<Rightarrow> ('k, 'v) element list" where
  "list_MoveToFront e xs = filter (\<lambda>x. fst x = e) xs @ filter (\<lambda>x. fst x \<noteq> e) xs"

definition list_Remove :: "nat \<Rightarrow> ('k, 'v) element list \<Rightarrow> ('k, 'v) element list" where
  "list_Remove e xs = filter (\<lambda>x. fst x \<noteq> e) xs"

definition list_Back :: "('k, 'v) element list \<Rightarrow> ('k, 'v) element option" where
  "list_Back xs = (if xs = [] then None else Some (last xs))"

text \<open>The assignment \<open>entry.value = value\<close> through an element.\<close>

definition set_entry_value :: "nat \<Rightarrow> 'v \<Rightarrow> ('k, 'v) element list \<Rightarrow> ('k, 'v) element list" where
  "set_entry_value e v xs = map (\<lambda>x. if fst x = e then (e, fst (snd x), v) else x) xs"

section \<open>Shards and operations\<close>

record ('k, 'v) lruShardNode =
  items :: "'k \<Rightarrow> nat option"
  llist :: "('k, 'v) element list"
  capacity :: int
  next_elem :: nat

record ('k, 'v) LRUCache =
  shards :: "('k, 'v) lruShardNode list"
  mask :: u64
  notifies :: bool
  invalidated :: "('k \<times> 'v) list"

definition new_lru_shard :: "int \<Rightarrow> ('k, 'v) lruShardNode" where
  "new_lru_shard cap = \<lparr>items = (\<lambda>_. None), llist = [], capacity = cap, next_elem = 0\<rparr>"

definition NewLRUCache :: "int \<Rightarrow> int \<Rightarrow> bool \<Rightarrow> (unit, ('k, 'v) LRUCache) outcome" where
  "NewLRUCache numShards totalCapacity hasCallback =
     (if numShards \<le> 0 \<or> numShards AND (numShards - 1) \<noteq> 0 then Panic
      else
        let q = sgn totalCapacity * (\<bar>totalCapacity\<bar> div numShards);
            capPerShard = (if q \<le> 0 then 1 else q)
        in Ret \<lparr>shards = replicate (nat numShards) (new_lru_shard capPerShard),
                mask = word_of_int (numShards - 1), notifies = hasCallback, invalidated = []\<rparr>)"

definition lru_shard_index :: "('k \<Rightarrow> bytes) \<Rightarrow> ('k, 'v) LRUCache \<Rightarrow> 'k \<Rightarrow> nat" where
  "lru_shard_index key_bytes c k = unat (fnv1aBytes (key_bytes k) AND mask c)"

definition on_invalidate :: "'k \<Rightarrow> 'v \<Rightarrow> ('k, 'v) LRUCache \<Rightarrow> ('k, 'v) LRUCache" where
  "on_invalidate k v c =
     (if notifies c then c\<lparr>invalidated := invalidated c @ [(k, v)]\<rparr> else c)"

definition put_shard :: "nat \<Rightarrow> ('k, 'v) lruShardNode \<Rightarrow> ('k, 'v) LRUCache \<Rightarrow> ('k, 'v) LRUCache" where
  "put_shard i s c = c\<lparr>shards := (shards c)[i := s]\<rparr>"

text \<open>\<open>elem.Value\<close> of the element a key maps to.\<close>

definition elem_of :: "('k, 'v) lruShardNode \<Rightarrow> 'k \<Rightarrow> ('k, 'v) element option" where
  "elem_of s k = (case items s k of None \<Rightarrow> None
     | Some e \<Rightarrow> map_option (\<lambda>kv. (e, kv)) (map_of (llist s) e))"

definition LRUCache_Get ::
  "('k \<Rightarrow> bytes) \<Rightarrow> 'k \<Rightarrow> ('k, 'v) LRUCache \<Rightarrow> 'v option \<times> ('k, 'v) LRUCache" where
  "LRUCache_Get key_bytes key c =
     (let i = lru_shard_index key_bytes c key; s = shards c ! i in
      case elem_of s key of
        Some (e, k, v) \<Rightarrow> (Some v, put_shard i (s\<lparr>llist := list_MoveToFront e (llist s)\<rparr>) c)
      | None \<Rightarrow> (None, c))"

text \<open>The eviction of the tail after an insertion overflowed the shard.\<close>

definition lru_evict :: "nat \<Rightarrow> ('k, 'v) LRUCache \<Rightarrow> ('k, 'v) LRUCache" where
  "lru_evict i c =
     (let s = shards c ! i in
      if capacity s < int (length (llist s)) then
        case list_Back (llist s) of
          None \<Rightarrow> c
        | Some (e, k, v) \<Rightarrow>
            on_invalidate k v
              (put_shard i (s\<lparr>llist := list_Remove e (llist s), items := (items s)(k := None)\<rparr>) c)
      else c)"

definition LRUCache_Set ::
  "('k \<Rightarrow> bytes) \<Rightarrow> 'k \<Rightarrow> 'v \<Rightarrow> cache_options option \<Rightarrow> ('k, 'v) LRUCache \<Rightarrow>
   bool \<times> ('k, 'v) LRUCache" where
  "LRUCache_Set key_bytes key v opts c =
     (let i = lru_shard_index key_bytes c key; s = shards c ! i; opt = opts_or_default opts in
      case elem_of s key of
        Some (e, k, old) \<Rightarrow>
          if skipExisting opt then (False, c)
          else (True, put_shard i
                  (s\<lparr>llist := list_MoveToFront e (set_entry_value e v (llist s))\<rparr>)
                  (on_invalidate k old c))
      | None \<Rightarrow>
          if updateExistingOnly opt then (False, c)
          else (True, lru_evict i (put_shard i
                  (s\<lparr>llist := (next_elem s, key, v) # llist s,
                     items := (items s)(key \<mapsto> next_elem s),
                     next_elem := Suc (next_elem s)\<rparr>) c)))"

definition LRUCache_Delete ::
  "('k \<Rightarrow> bytes) \<Rightarrow> 'k \<Rightarrow> ('k, 'v) LRUCache \<Rightarrow> ('k, 'v) LRUCache" where
  "LRUCache_Delete key_bytes key c =
     (let i = lru_shard_index key_bytes c key; s = shards c ! i in
      case elem_of s key of
        Some (e, k, v) \<Rightarrow>
          on_invalidate k v
            (put_shard i (s\<lparr>llist := list_Remove e (llist s), items := (items s)(k := None)\<rparr>) c)
      | None \<Rightarrow> c)"

definition LRUCache_Has :: "('k \<Rightarrow> bytes) \<Rightarrow> 'k \<Rightarrow> ('k, 'v) LRUCache \<Rightarrow> bool" where
  "LRUCache_Has key_bytes key c = (items (shards c ! lru_shard_index key_bytes c key) key \<noteq> None)"

text \<open>
  \<open>ForEach\<close>: Go ranges over a map in an unspecified order, so the order in which the keys of each
  shard are met is an argument. The callback is a state transformer that may fail.
\<close>

fun visit_keys ::
  "('k \<Rightarrow> 'v \<Rightarrow> 's \<Rightarrow> 'e option \<times> 's) \<Rightarrow> ('k \<Rightarrow> ('k \<times> 'v) option) \<Rightarrow> 'k list \<Rightarrow> 's \<Rightarrow>
   'e option \<times> 's" where
  "visit_keys f m [] st = (None, st)"
| "visit_keys f m (k # ks) st =
     (case m k of None \<Rightarrow> visit_keys f m ks st
      | Some (k', v) \<Rightarrow>
         (case f k' v st of (Some e, st') \<Rightarrow> (Some e, st') | (None, st') \<Rightarrow> visit_keys f m ks st'))"

fun lru_for_each ::
  "('k \<Rightarrow> 'v \<Rightarrow> 's \<Rightarrow> 'e option \<times> 's) \<Rightarrow> (('k, 'v) lruShardNode \<times> 'k list) list \<Rightarrow> 's \<Rightarrow>
   'e option \<times> 's" where
  "lru_for_each f [] st = (None, st)"
| "lru_for_each f ((s, ks) # rest) st =
     (case visit_keys f (\<lambda>k. map_option snd (elem_of s k)) ks st of
        (Some e, st') \<Rightarrow> (Some e, st')
      | (None, st') \<Rightarrow> lru_for_each f rest st')"

definition LRUCache_ForEach ::
  "('k \<Rightarrow> 'v \<Rightarrow> 's \<Rightarrow> 'e option \<times> 's) \<Rightarrow> 'k list list \<Rightarrow> ('k, 'v) LRUCache \<Rightarrow> 's \<Rightarrow>
   'e option \<times> 's" where
  "LRUCache_ForEach f orders c st = lru_for_each f (zip (shards c) orders) st"

definition LRUCache_Size :: "('k, 'v) LRUCache \<Rightarrow> nat" where
  "LRUCache_Size c = foldl (\<lambda>total s. total + length (llist s)) 0 (shards c)"

section \<open>Shard invariant and recency list\<close>

definition contents :: "('k, 'v) lruShardNode \<Rightarrow> ('k \<times> 'v) list" where
  "contents s = map snd (llist s)"

text \<open>Map and list describe the same entries: one element per key, identities never reused.\<close>

definition linked :: "('k, 'v) lruShardNode \<Rightarrow> bool" where
  "linked s \<longleftrightarrow> distinct (map fst (llist s)) \<and> distinct (map fst (contents s)) \<and>
     (\<forall>k e. items s k = Some e \<longleftrightarrow> (\<exists>v. (e, k, v) \<in> set (llist s))) \<and>
     (\<forall>x\<in>set (llist s). fst x < next_elem s)"

definition within_capacity :: "('k, 'v) lruShardNode \<Rightarrow> bool" where
  "within_capacity s \<longleftrightarrow> 1 \<le> capacity s \<and> int (length (llist s)) \<le> capacity s"

lemma linkedD:
  assumes "linked s"
  shows "distinct (map fst (llist s))" "distinct (map fst (contents s))"
    "items s k = Some e \<longleftrightarrow> (\<exists>v. (e, k, v) \<in> set (llist s))"
    "x \<in> set (llist s) \<Longrightarrow> fst x < next_elem s"
  using assms unfolding linked_def by blast+

lemma elem_of_iff:
  assumes "linked s"
  shows "elem_of s k = Some (e, k', v) \<longleftrightarrow> (e, k', v) \<in> set (llist s) \<and> k' = k"
proof
  assume "elem_of s k = Some (e, k', v)"
  then have i: "items s k = Some e" and m: "map_of (llist s) e = Some (k', v)"
    by (auto simp: elem_of_def split: option.splits)
  from i obtain v' where v': "(e, k, v') \<in> set (llist s)" using linkedD(3) [OF assms] by blast
  from m linkedD(1) [OF assms] have e: "(e, k', v) \<in> set (llist s)" by (simp add: map_of_eq_Some_iff)
  with distinct_fst_eq [OF linkedD(1) [OF assms] v' e] have "k' = k" by simp
  with e show "(e, k', v) \<in> set (llist s) \<and> k' = k" by simp
next
  assume a: "(e, k', v) \<in> set (llist s) \<and> k' = k"
  then have "items s k = Some e" using linkedD(3) [OF assms] by blast
  with a linkedD(1) [OF assms] show "elem_of s k = Some (e, k', v)"
    by (auto simp: elem_of_def)
qed

lemma elem_ofD:
  assumes "linked s" "elem_of s k = Some (e, k', v)"
  shows "(e, k', v) \<in> set (llist s)" "k' = k"
  using assms elem_of_iff [OF assms(1), of k e k' v] by auto

lemma elem_of_contents:
  assumes "linked s"
  shows "map_option (\<lambda>x. snd (snd x)) (elem_of s k) = map_of (contents s) k"
proof (cases "elem_of s k")
  case None
  have "map_of (contents s) k = None"
  proof (rule ccontr)
    assume "map_of (contents s) k \<noteq> None"
    then obtain v where "(k, v) \<in> set (contents s)" by (auto dest: map_of_SomeD)
    then obtain e where "(e, k, v) \<in> set (llist s)" by (auto simp: contents_def)
    with elem_of_iff [OF assms, of k e k v] None show False by simp
  qed
  with None show ?thesis by simp
next
  case (Some x)
  obtain e k' v where x: "x = (e, k', v)" by (cases x)
  with Some elem_ofD [OF assms, of k e k' v] have e: "(e, k, v) \<in> set (llist s)" "k' = k"
    by auto
  then have "(k, v) \<in> set (contents s)" by (force simp: contents_def)
  with x Some e linkedD(2) [OF assms] show ?thesis by simp
qed

lemma elem_of_None: "linked s \<Longrightarrow> elem_of s k = None \<longleftrightarrow> map_of (contents s) k = None"
  by (simp flip: elem_of_contents)

lemma elem_of_items: "linked s \<Longrightarrow> items s k = None \<longleftrightarrow> elem_of s k = None"
proof -
  assume a: "linked s"
  show ?thesis
  proof (cases "items s k")
    case (Some e)
    then obtain v where "(e, k, v) \<in> set (llist s)" using linkedD(3) [OF a] by blast
    then have "elem_of s k = Some (e, k, v)" using elem_of_iff [OF a] by blast
    with Some show ?thesis by simp
  qed (simp add: elem_of_def)
qed

text \<open>Filtering by an element's identity is filtering by its key.\<close>

lemma same_elem_iff_same_key:
  assumes "linked s" "elem_of s k = Some (e, k, v)" "x \<in> set (llist s)"
  shows "fst x = e \<longleftrightarrow> fst (snd x) = k"
proof -
  have e: "(e, k, v) \<in> set (llist s)" by (rule elem_ofD(1) [OF assms(1,2)])
  then have kv: "(k, v) \<in> set (contents s)" by (force simp: contents_def)
  show ?thesis
  proof
    assume "fst x = e"
    with distinct_fst_eq [OF linkedD(1) [OF assms(1)] assms(3) e] show "fst (snd x) = k" by simp
  next
    assume k: "fst (snd x) = k"
    obtain e' v' where "x = (e', k, v')" using k by (cases x) auto
    with assms(3) e linkedD(3) [OF assms(1), of k] have "items s k = Some (fst x)" "items s k = Some e"
      by auto
    then show "fst x = e" by simp
  qed
qed

lemma Remove_contents:
  assumes "linked s" "elem_of s k = Some (e, k, v)"
  shows "map snd (list_Remove e (llist s)) = filter (\<lambda>x. fst x \<noteq> k) (contents s)"
  using same_elem_iff_same_key [OF assms]
  by (simp add: list_Remove_def contents_def filter_map comp_def cong: filter_cong)

lemma MoveToFront_set_entry:
  assumes "linked s" "elem_of s k = Some (e, k, old)"
  shows "list_MoveToFront e (set_entry_value e v (llist s)) = (e, k, v) # list_Remove e (llist s)"
proof -
  have "(e, k, old) \<in> set (llist s)" by (rule elem_ofD(1) [OF assms(1,2)])
  from filter_single [OF linkedD(1) [OF assms(1)] this]
  have f: "filter (\<lambda>x. fst x = e) (llist s) = [(e, k, old)]" by simp
  have "filter (\<lambda>x. fst x = e) (set_entry_value e v xs) =
      map (\<lambda>x. (e, fst (snd x), v)) (filter (\<lambda>x. fst x = e) xs)"
    and "filter (\<lambda>x. fst x \<noteq> e) (set_entry_value e v xs) = filter (\<lambda>x. fst x \<noteq> e) xs"
    for xs :: "('a, 'b) element list"
    by (induction xs) (auto simp: set_entry_value_def)
  with f show ?thesis by (simp add: list_MoveToFront_def list_Remove_def)
qed

lemma set_entry_same:
  assumes "linked s" "elem_of s k = Some (e, k, v)"
  shows "set_entry_value e v (llist s) = llist s"
proof -
  have "x = (e, fst (snd x), v)" if "x \<in> set (llist s)" "fst x = e" for x
  proof -
    have "(e, k, v) \<in> set (llist s)" by (rule elem_ofD(1) [OF assms(1,2)])
    from distinct_fst_eq [OF linkedD(1) [OF assms(1)] that(1) this] that(2) show ?thesis by simp
  qed
  then show ?thesis by (auto simp: set_entry_value_def intro!: map_idI)
qed

section \<open>The three changes of a shard\<close>

abbreviation "moved s e v \<equiv> s\<lparr>llist := list_MoveToFront e (set_entry_value e v (llist s))\<rparr>"

abbreviation "removed s e k \<equiv> s\<lparr>llist := list_Remove e (llist s), items := (items s)(k := None)\<rparr>"

abbreviation "pushed s k v \<equiv> s\<lparr>llist := (next_elem s, k, v) # llist s,
  items := (items s)(k \<mapsto> next_elem s), next_elem := Suc (next_elem s)\<rparr>"

lemma contents_simps [simp]:
  "contents (s\<lparr>llist := xs\<rparr>) = map snd xs"
  "contents (s\<lparr>items := m\<rparr>) = contents s"
  "contents (s\<lparr>next_elem := n\<rparr>) = contents s"
  by (simp_all add: contents_def)

lemma removed_contents:
  assumes "linked s" "elem_of s k = Some (e, k, v)"
  shows "contents (removed s e k) = filter (\<lambda>x. fst x \<noteq> k) (contents s)"
  using Remove_contents [OF assms] by simp

lemma moved_contents:
  assumes "linked s" "elem_of s k = Some (e, k, old)"
  shows "contents (moved s e v) = (k, v) # filter (\<lambda>x. fst x \<noteq> k) (contents s)"
  using Remove_contents [OF assms] by (simp add: MoveToFront_set_entry [OF assms])

lemma mem_Remove:
  assumes "linked s" "elem_of s k = Some (e, k, v)"
  shows "(e', k', v') \<in> set (list_Remove e (llist s)) \<longleftrightarrow> (e', k', v') \<in> set (llist s) \<and> k' \<noteq> k"
  using same_elem_iff_same_key [OF assms, of "(e', k', v')"] by (auto simp: list_Remove_def)

lemma removed_linked:
  assumes "linked s" "elem_of s k = Some (e, k, v)"
  shows "linked (removed s e k)"
  unfolding linked_def
proof (intro conjI allI ballI)
  show "distinct (map fst (llist (removed s e k)))"
    using linkedD(1) [OF assms(1)] by (simp add: list_Remove_def distinct_map_filter)
  show "distinct (map fst (contents (removed s e k)))"
    using linkedD(2) [OF assms(1)] unfolding removed_contents [OF assms]
    by (rule distinct_map_filter)
  show "items (removed s e k) k' = Some e' \<longleftrightarrow> (\<exists>v. (e', k', v) \<in> set (llist (removed s e k)))" for k' e'
    using linkedD(3) [OF assms(1), of k' e'] mem_Remove [OF assms] by auto
  show "fst x < next_elem (removed s e k)" if "x \<in> set (llist (removed s e k))" for x
    using that linkedD(4) [OF assms(1)] by (simp add: list_Remove_def)
qed

lemma moved_linked:
  assumes "linked s" "elem_of s k = Some (e, k, old)"
  shows "linked (moved s e v)"
  unfolding linked_def
proof (intro conjI allI ballI)
  have e: "(e, k, old) \<in> set (llist s)" by (rule elem_ofD(1) [OF assms])
  show "distinct (map fst (llist (moved s e v)))"
    using linkedD(1) [OF assms(1)]
    by (auto simp: MoveToFront_set_entry [OF assms]) (auto simp: list_Remove_def distinct_map_filter)
  show "distinct (map fst (contents (moved s e v)))"
    using linkedD(2) [OF assms(1)] unfolding moved_contents [OF assms]
    by (auto intro: distinct_map_filter)
  show "items (moved s e v) k' = Some e' \<longleftrightarrow> (\<exists>w. (e', k', w) \<in> set (llist (moved s e v)))" for k' e'
    using linkedD(3) [OF assms(1), of k' e'] e linkedD(3) [OF assms(1), of k e] mem_Remove [OF assms]
    by (cases "k' = k") (auto simp: MoveToFront_set_entry [OF assms])
  show "fst x < next_elem (moved s e v)" if "x \<in> set (llist (moved s e v))" for x
    using that linkedD(4) [OF assms(1) e] linkedD(4) [OF assms(1), of x]
    by (auto simp: MoveToFront_set_entry [OF assms] list_Remove_def)
qed

lemma pushed_linked:
  assumes "linked s" "elem_of s k = None"
  shows "linked (pushed s k v)"
  unfolding linked_def
proof (intro conjI allI ballI)
  have fresh: "k \<notin> fst ` set (contents s)"
    using assms elem_of_None by (metis map_of_eq_None_iff)
  then have none: "(e', k, v') \<notin> set (llist s)" for e' v'
    by (force simp: contents_def)
  have new: "(next_elem s, k', v') \<notin> set (llist s)" for k' v'
    using linkedD(4) [OF assms(1), of "(next_elem s, k', v')"] by auto
  show "distinct (map fst (llist (pushed s k v)))"
    using linkedD(1) [OF assms(1)] new by auto
  show "distinct (map fst (contents (pushed s k v)))"
    using linkedD(2) [OF assms(1)] fresh by (auto simp: contents_def)
  show "items (pushed s k v) k' = Some e' \<longleftrightarrow> (\<exists>v'. (e', k', v') \<in> set (llist (pushed s k v)))" for k' e'
    using linkedD(3) [OF assms(1), of k' e'] none new by auto
  show "fst x < next_elem (pushed s k v)" if "x \<in> set (llist (pushed s k v))" for x
    using that linkedD(4) [OF assms(1), of x] by auto
qed

text \<open>Removing the element at the back drops the last entry of the recency list.\<close>

lemma elem_of_last:
  assumes "linked s" "llist s \<noteq> []" "last (llist s) = (e, k, v)"
  shows "elem_of s k = Some (e, k, v)"
  using assms elem_of_iff [OF assms(1), of k e k v] last_in_set [OF assms(2)] by simp

lemma filter_not_last:
  assumes "distinct (map fst xs)" "xs \<noteq> []"
  shows "filter (\<lambda>x. fst x \<noteq> fst (last xs)) xs = butlast xs"
  using assms
proof (induction xs rule: rev_induct)
  case (snoc y ys)
  then have "fst x \<noteq> fst y" if "x \<in> set ys" for x using that by (auto simp: image_iff)
  then show ?case by (simp add: filter_id_conv)
qed simp

section \<open>The sharded cache\<close>

lemma put_shard_simps [simp]:
  "mask (put_shard i s c) = mask c"
  "shards (put_shard i s c) = (shards c)[i := s]"
  "notifies (put_shard i s c) = notifies c"
  "invalidated (put_shard i s c) = invalidated c"
  by (simp_all add: put_shard_def)

lemma on_invalidate_simps [simp]:
  "mask (on_invalidate k v c) = mask c"
  "shards (on_invalidate k v c) = shards c"
  "notifies (on_invalidate k v c) = notifies c"
  "invalidated (on_invalidate k v c) =
     invalidated c @ (if notifies c then [(k, v)] else [])"
  by (simp_all add: on_invalidate_def)

lemma lru_shard_index_simps [simp]:
  "lru_shard_index kb (put_shard i s c) k = lru_shard_index kb c k"
  "lru_shard_index kb (on_invalidate k' v c) k = lru_shard_index kb c k"
  by (simp_all add: lru_shard_index_def)

definition lru_inv :: "('k \<Rightarrow> bytes) \<Rightarrow> ('k, 'v) LRUCache \<Rightarrow> bool" where
  "lru_inv kb c \<longleftrightarrow> unat (mask c) < length (shards c) \<and>
     (\<forall>i<length (shards c). linked (shards c ! i) \<and> within_capacity (shards c ! i) \<and>
        (\<forall>k\<in>fst ` set (contents (shards c ! i)). lru_shard_index kb c k = i))"

definition lru_peek :: "('k \<Rightarrow> bytes) \<Rightarrow> ('k, 'v) LRUCache \<Rightarrow> 'k \<Rightarrow> 'v option" where
  "lru_peek kb c k = map_of (contents (shards c ! lru_shard_index kb c k)) k"

definition entries :: "('k, 'v) LRUCache \<Rightarrow> ('k \<times> 'v) list" where
  "entries c = concat (map contents (shards c))"

lemma lru_index_in_range: "lru_inv kb c \<Longrightarrow> lru_shard_index kb c k < length (shards c)"
  unfolding lru_inv_def lru_shard_index_def
  by (metis le_less_trans word_and_le1 word_le_nat_alt)

lemma lru_invD:
  assumes "lru_inv kb c"
  shows "i < length (shards c) \<Longrightarrow> linked (shards c ! i)"
    "i < length (shards c) \<Longrightarrow> within_capacity (shards c ! i)"
    "i < length (shards c) \<Longrightarrow> k \<in> fst ` set (contents (shards c ! i)) \<Longrightarrow> lru_shard_index kb c k = i"
    "linked (shards c ! lru_shard_index kb c k)"
    "within_capacity (shards c ! lru_shard_index kb c k)"
  using assms lru_index_in_range [OF assms, of k] unfolding lru_inv_def by blast+

text \<open>Replacing one shard by another whose keys belong there.\<close>

lemma put_shard_inv:
  assumes "lru_inv kb c" "i < length (shards c)" "linked s" "within_capacity s"
    and "\<And>k. k \<in> fst ` set (contents s) \<Longrightarrow> lru_shard_index kb c k = i"
  shows "lru_inv kb (put_shard i s c)"
  using assms unfolding lru_inv_def by (simp add: nth_list_update)

lemma on_invalidate_inv [simp]: "lru_inv kb (on_invalidate k v c) = lru_inv kb c"
  by (simp add: lru_inv_def)

lemma put_shard_peek:
  assumes "lru_inv kb c" "i < length (shards c)"
  shows "lru_peek kb (put_shard i s c) k =
    (if lru_shard_index kb c k = i then map_of (contents s) k else lru_peek kb c k)"
  using assms by (simp add: lru_peek_def)

lemma on_invalidate_peek [simp]: "lru_peek kb (on_invalidate k' v c) k = lru_peek kb c k"
  by (simp add: lru_peek_def)

lemma map_of_filter_key:
  "map_of (filter (\<lambda>x. fst x \<noteq> k) xs) k' = (if k' = k then None else map_of xs k')"
  by (induction xs) auto

text \<open>What every operation sees of its own shard: the element of the key carries that key.\<close>

lemma elem_of_cases [case_names missing present]:
  assumes "linked s"
  obtains "elem_of s k = None" "map_of (contents s) k = None"
  | e v where "elem_of s k = Some (e, k, v)" "map_of (contents s) k = Some v"
proof (cases "elem_of s k")
  case None
  with that(1) show thesis using elem_of_None [OF assms, of k] by simp
next
  case (Some x)
  obtain e k' v where x: "x = (e, k', v)" by (cases x)
  with Some elem_ofD(2) [OF assms] have "elem_of s k = Some (e, k, v)" by blast
  with that(2) elem_of_contents [OF assms, of k] show thesis by (metis option.simps(9) snd_conv)
qed

lemma within_capacity_moved:
  assumes "linked s" "elem_of s k = Some (e, k, old)" "within_capacity s"
  shows "within_capacity (moved s e v)" "within_capacity (removed s e k)"
proof -
  have l: "length (list_Remove e (llist s)) < length (llist s)"
    using elem_ofD(1) [OF assms(1,2)]
    by (auto simp: list_Remove_def intro!: length_filter_less)
  then show "within_capacity (moved s e v)" "within_capacity (removed s e k)"
    using assms(3) by (simp_all add: within_capacity_def MoveToFront_set_entry [OF assms(1,2)])
qed

section \<open>Refinement to recency lists\<close>

text \<open>The reference: a bounded list of entries, most recently used first, keys distinct.\<close>

definition recency_get :: "'k \<Rightarrow> ('k \<times> 'v) list \<Rightarrow> ('k \<times> 'v) list" where
  "recency_get k xs = (case map_of xs k of None \<Rightarrow> xs
     | Some v \<Rightarrow> (k, v) # filter (\<lambda>x. fst x \<noteq> k) xs)"

definition recency_set :: "int \<Rightarrow> 'k \<Rightarrow> 'v \<Rightarrow> ('k \<times> 'v) list \<Rightarrow> ('k \<times> 'v) list" where
  "recency_set cap k v xs =
     (let ys = (k, v) # filter (\<lambda>x. fst x \<noteq> k) xs in
      if cap < int (length ys) then butlast ys else ys)"

text \<open>The entries an accepted \<open>Set\<close> pushes out: the overwritten one or the evicted one.\<close>

definition displaced :: "int \<Rightarrow> 'k \<Rightarrow> ('k \<times> 'v) list \<Rightarrow> ('k \<times> 'v) list" where
  "displaced cap k xs = (case map_of xs k of Some v \<Rightarrow> [(k, v)]
     | None \<Rightarrow> if cap \<le> int (length xs) then [last xs] else [])"

lemma LRUCache_Get_eq:
  assumes "lru_inv kb c"
    and i_def: "lru_shard_index kb c k = i"
  shows "\<exists>s. linked s \<and> within_capacity s \<and> capacity s = capacity (shards c ! i) \<and>
    contents s = recency_get k (contents (shards c ! i)) \<and>
    LRUCache_Get kb k c = (lru_peek kb c k, put_shard i s c)"
proof -
  have i: "i < length (shards c)" using lru_index_in_range [OF assms(1), of k] i_def by simp
  note l = lru_invD(1) [OF assms(1) i] and w = lru_invD(2) [OF assms(1) i]
  from l show ?thesis
  proof (cases rule: elem_of_cases [where k = k])
    case missing
    have "put_shard i (shards c ! i) c = c" using i by (simp add: put_shard_def)
    with missing l w show ?thesis
      by (intro exI [of _ "shards c ! i"])
        (simp add: LRUCache_Get_def i_def lru_peek_def recency_get_def)
  next
    case (present e v)
    note mv = set_entry_same [OF l present(1)]
    show ?thesis
      using moved_linked [OF l present(1), of v] within_capacity_moved(1) [OF l present(1) w, of v]
        moved_contents [OF l present(1), of v] present unfolding mv
      by (intro exI [of _ "(shards c ! i)\<lparr>llist := list_MoveToFront e (llist (shards c ! i))\<rparr>"])
        (simp add: LRUCache_Get_def i_def lru_peek_def recency_get_def Let_def)
  qed
qed

text \<open>What an operation that replaces shard \<open>i\<close> by \<open>s\<close> and reports \<open>gone\<close> makes of the cache.\<close>

definition replaced ::
  "nat \<Rightarrow> ('k, 'v) lruShardNode \<Rightarrow> ('k \<times> 'v) list \<Rightarrow> ('k, 'v) LRUCache \<Rightarrow> ('k, 'v) LRUCache" where
  "replaced i s gone c = c\<lparr>shards := (shards c)[i := s],
     invalidated := invalidated c @ (if notifies c then gone else [])\<rparr>"

lemma replaced_put: "put_shard i s c = replaced i s [] c"
  by (simp add: put_shard_def replaced_def)

lemma replaced_on_put: "on_invalidate k v (put_shard i s c) = replaced i s [(k, v)] c"
  by (simp add: put_shard_def replaced_def on_invalidate_def)

lemma replaced_put_on: "put_shard i s (on_invalidate k v c) = replaced i s [(k, v)] c"
  by (simp add: put_shard_def replaced_def on_invalidate_def)

lemma replaced_replaced [simp]: "replaced i s' gone (put_shard i s c) = replaced i s' gone c"
  by (simp add: put_shard_def replaced_def)

lemma lru_evict_eq:
  assumes "i < length (shards c)" "shards c ! i = s" "linked s" "1 \<le> capacity s"
    and "int (length (llist s)) \<le> capacity s + 1"
  shows "\<exists>s'. linked s' \<and> within_capacity s' \<and> capacity s' = capacity s \<and>
    contents s' = (if capacity s < int (length (contents s)) then butlast (contents s) else contents s) \<and>
    lru_evict i c =
      replaced i s' (if capacity s < int (length (contents s)) then [last (contents s)] else []) c"
proof (cases "capacity s < int (length (llist s))")
  case True
  with assms(4) have ne: "llist s \<noteq> []" by auto
  obtain e k v where b: "last (llist s) = (e, k, v)" by (cases "last (llist s)")
  note el = elem_of_last [OF assms(3) ne b]
  have ls: "last (contents s) = (k, v)" using ne b by (simp add: contents_def last_map)
  have r: "contents (removed s e k) = butlast (contents s)"
    using removed_contents [OF assms(3) el] filter_not_last [OF linkedD(2) [OF assms(3)]] ne ls
    by (simp add: contents_def)
  have "length (llist (removed s e k)) = length (contents s) - 1"
    using arg_cong [OF r, of length] by (simp add: contents_def)
  then have "within_capacity (removed s e k)"
    using assms(4,5) True by (simp add: within_capacity_def contents_def)
  with removed_linked [OF assms(3) el] r True assms(2) ls b ne show ?thesis
    by (intro exI [of _ "removed s e k"]) (simp add: lru_evict_def list_Back_def contents_def replaced_on_put)
next
  case False
  have "replaced i s [] c = c" using assms(1,2) by (auto simp: replaced_def)
  with False assms show ?thesis
    by (intro exI [of _ s]) (simp add: lru_evict_def contents_def within_capacity_def)
qed

lemma filter_absent_key: "map_of xs k = None \<Longrightarrow> filter (\<lambda>x. fst x \<noteq> k) xs = xs"
  by (force simp: map_of_eq_None_iff filter_id_conv)

lemma LRUCache_Set_refused:
  assumes "lru_inv kb c" "\<not> set_accepted opts (lru_peek kb c k)"
  shows "LRUCache_Set kb k v opts c = (False, c)"
  using lru_invD(4) [OF assms(1), of k]
proof (cases rule: elem_of_cases [where k = k])
  case missing
  with assms(2) show ?thesis by (simp add: LRUCache_Set_def lru_peek_def set_accepted_def)
next
  case (present e old)
  with assms(2) show ?thesis by (simp add: LRUCache_Set_def lru_peek_def set_accepted_def)
qed

lemma LRUCache_Set_eq:
  assumes "lru_inv kb c" "set_accepted opts (lru_peek kb c k)" and i_def: "lru_shard_index kb c k = i"
  shows "\<exists>s. linked s \<and> within_capacity s \<and> capacity s = capacity (shards c ! i) \<and>
    contents s = recency_set (capacity (shards c ! i)) k v (contents (shards c ! i)) \<and>
    LRUCache_Set kb k v opts c =
      (True, replaced i s (displaced (capacity (shards c ! i)) k (contents (shards c ! i))) c)"
proof -
  let ?s = "shards c ! i"
  have i: "i < length (shards c)" using lru_index_in_range [OF assms(1), of k] i_def by simp
  note l = lru_invD(1) [OF assms(1) i] and w = lru_invD(2) [OF assms(1) i]
  from l show ?thesis
  proof (cases rule: elem_of_cases [where k = k])
    case (present e old)
    note w' = within_capacity_moved(1) [OF l present(1) w, of v]
    note c' = moved_contents [OF l present(1), of v]
    have "length (llist (moved ?s e v)) = Suc (length (filter (\<lambda>x. fst x \<noteq> k) (contents ?s)))"
      using arg_cong [OF c', of length] by (simp add: contents_def)
    with w' have "recency_set (capacity ?s) k v (contents ?s) = contents (moved ?s e v)"
      unfolding c' by (simp add: recency_set_def within_capacity_def)
    with moved_linked [OF l present(1), of v] w' present assms(2) show ?thesis
      by (intro exI [of _ "moved ?s e v"])
        (simp add: LRUCache_Set_def i_def lru_peek_def set_accepted_def displaced_def Let_def
          replaced_put_on)
  next
    case missing
    let ?c = "put_shard i (pushed ?s k v) c" and ?p = "pushed ?s k v"
    have cp: "contents ?p = (k, v) # contents ?s" by (simp add: contents_def)
    have len: "length (llist ?s) = length (contents ?s)" by (simp add: contents_def)
    have ne: "contents ?s \<noteq> []" if "capacity ?s \<le> int (length (contents ?s))"
      using that w by (auto simp: within_capacity_def)
    have r: "recency_set (capacity ?s) k v (contents ?s) =
        (if capacity ?p < int (length (contents ?p)) then butlast (contents ?p) else contents ?p)"
      "displaced (capacity ?s) k (contents ?s) =
        (if capacity ?p < int (length (contents ?p)) then [last (contents ?p)] else [])"
      using missing(2) ne
      by (simp_all only: cp) (auto simp: recency_set_def displaced_def filter_absent_key)
    have "int (length (llist ?p)) \<le> capacity ?p + 1" "1 \<le> capacity ?p"
      using w by (simp_all add: within_capacity_def)
    with lru_evict_eq [of i ?c ?p] i pushed_linked [OF l missing(1), of v]
    obtain s' where s': "linked s'" "within_capacity s'" "capacity s' = capacity ?s"
      "contents s' = recency_set (capacity ?s) k v (contents ?s)"
      "lru_evict i ?c = replaced i s' (displaced (capacity ?s) k (contents ?s)) c"
      unfolding r by auto
    with missing assms(2) show ?thesis
      by (intro exI [of _ s'])
        (simp add: LRUCache_Set_def i_def lru_peek_def set_accepted_def Let_def)
  qed
qed

lemma LRUCache_Delete_eq:
  assumes "lru_inv kb c" and i_def: "lru_shard_index kb c k = i"
  shows "\<exists>s. linked s \<and> within_capacity s \<and> capacity s = capacity (shards c ! i) \<and>
    contents s = filter (\<lambda>x. fst x \<noteq> k) (contents (shards c ! i)) \<and>
    LRUCache_Delete kb k c =
      replaced i s (case lru_peek kb c k of None \<Rightarrow> [] | Some v \<Rightarrow> [(k, v)]) c"
proof -
  let ?s = "shards c ! i"
  have i: "i < length (shards c)" using lru_index_in_range [OF assms(1), of k] i_def by simp
  note l = lru_invD(1) [OF assms(1) i] and w = lru_invD(2) [OF assms(1) i]
  from l show ?thesis
  proof (cases rule: elem_of_cases [where k = k])
    case (present e v)
    with removed_linked [OF l present(1)] within_capacity_moved(2) [OF l present(1) w]
      removed_contents [OF l present(1)] show ?thesis
      by (intro exI [of _ "removed ?s e k"])
        (simp add: LRUCache_Delete_def i_def lru_peek_def Let_def replaced_on_put)
  next
    case missing
    have "replaced i ?s [] c = c" using i by (simp add: replaced_def)
    with missing l w show ?thesis
      by (intro exI [of _ ?s])
        (simp add: LRUCache_Delete_def i_def lru_peek_def filter_absent_key)
  qed
qed

lemma replaced_simps [simp]:
  "mask (replaced i s gone c) = mask c"
  "shards (replaced i s gone c) = (shards c)[i := s]"
  "notifies (replaced i s gone c) = notifies c"
  "lru_shard_index kb (replaced i s gone c) k = lru_shard_index kb c k"
  by (simp_all add: replaced_def lru_shard_index_def)

lemma replaced_inv:
  assumes "lru_inv kb c" "i < length (shards c)" "linked s" "within_capacity s"
    and "\<And>k. k \<in> fst ` set (contents s) \<Longrightarrow> lru_shard_index kb c k = i"
  shows "lru_inv kb (replaced i s gone c)"
  using assms unfolding lru_inv_def by (simp add: nth_list_update)

lemma replaced_peek:
  assumes "i < length (shards c)"
  shows "lru_peek kb (replaced i s gone c) k =
    (if lru_shard_index kb c k = i then map_of (contents s) k else lru_peek kb c k)"
  using assms by (simp add: lru_peek_def)

lemma concat_map_update:
  "i < length xs \<Longrightarrow> mset (concat (map f (xs[i := y]))) + mset (f (xs ! i)) =
     mset (concat (map f xs)) + mset (f y)"
proof (induction xs arbitrary: i)
  case (Cons x xs)
  then show ?case
  proof (cases i)
    case (Suc j)
    with Cons.IH [of j] Cons.prems show ?thesis by (simp add: ac_simps)
  qed (simp add: ac_simps)
qed simp

lemma replaced_entries:
  "i < length (shards c) \<Longrightarrow> mset (entries (replaced i s gone c)) + mset (contents (shards c ! i)) =
     mset (entries c) + mset (contents s)"
  unfolding entries_def by (simp add: concat_map_update)

text \<open>Recency-list facts the laws of the interface come from.\<close>

lemma recency_get_map [simp]: "map_of (recency_get k xs) = map_of xs"
  by (rule ext) (auto simp: recency_get_def map_of_filter_key split: option.splits)

lemma keys_recency_get: "fst ` set (recency_get k xs) \<subseteq> fst ` set xs"
  by (auto simp: recency_get_def split: option.splits dest!: map_of_SomeD) force

lemma keys_recency_set: "fst ` set (recency_set cap k v xs) \<subseteq> insert k (fst ` set xs)"
  by (auto simp: recency_set_def Let_def dest!: in_set_butlastD split: if_splits)

lemma map_of_butlast:
  assumes "distinct (map fst xs)" "map_of (butlast xs) k = Some v"
  shows "map_of xs k = Some v"
proof -
  have "(k, v) \<in> set xs" using assms(2) by (auto dest!: map_of_SomeD in_set_butlastD)
  with assms(1) show ?thesis by simp
qed

lemma recency_set_own:
  "1 \<le> cap \<Longrightarrow> map_of (recency_set cap k v xs) k = Some v"
  by (cases "filter (\<lambda>x. fst x \<noteq> k) xs") (simp_all add: recency_set_def Let_def)

lemma recency_set_other:
  assumes "distinct (map fst xs)" "k' \<noteq> k" "map_of (recency_set cap k v xs) k' = Some v'"
  shows "map_of xs k' = Some v'"
proof -
  let ?ys = "(k, v) # filter (\<lambda>x. fst x \<noteq> k) xs"
  have "distinct (map fst ?ys)" using assms(1) by (auto intro: distinct_map_filter)
  with assms(3) have "map_of ?ys k' = Some v'"
    using map_of_butlast [of ?ys k' v'] by (simp only: recency_set_def Let_def split: if_splits)
  with assms(2) show ?thesis by (simp add: map_of_filter_key)
qed

lemma mset_without_key:
  assumes "distinct (map fst xs)" "map_of xs k = Some v"
  shows "add_mset (k, v) (mset (filter (\<lambda>x. fst x \<noteq> k) xs)) = mset xs"
  using assms
proof (induction xs)
  case (Cons x xs)
  then show ?case
    by (cases "fst x = k") (auto simp: filter_absent_key map_of_eq_None_iff)
qed simp

lemma mset_recency_get: "distinct (map fst xs) \<Longrightarrow> mset (recency_get k xs) = mset xs"
  using mset_without_key [of xs k] by (auto simp: recency_get_def split: option.splits)

lemma mset_recency_set:
  assumes "distinct (map fst xs)" "1 \<le> cap" "int (length xs) \<le> cap"
  shows "mset (recency_set cap k v xs) + mset (displaced cap k xs) = add_mset (k, v) (mset xs)"
proof (cases "map_of xs k")
  case (Some old)
  note m = mset_without_key [OF assms(1) Some]
  have "Suc (length (filter (\<lambda>x. fst x \<noteq> k) xs)) = length xs"
    using arg_cong [OF m, of size] by (simp flip: mset_filter)
  with Some m assms(3) show ?thesis by (simp add: recency_set_def displaced_def Let_def)
next
  case None
  have "xs \<noteq> []" if "cap \<le> int (length xs)" using that assms(2) by auto
  then have "mset (butlast xs) + {#last xs#} = mset xs" if "cap \<le> int (length xs)"
    using that append_butlast_last_id [of xs] by (metis mset.simps mset_append)
  with None assms(2) show ?thesis
    by (auto simp: recency_set_def displaced_def filter_absent_key Let_def)
qed

section \<open>The laws of the interface\<close>

lemma lru_own_shard:
  assumes "lru_inv kb c" "lru_shard_index kb c k = i"
  shows "i < length (shards c)" "linked (shards c ! i)" "within_capacity (shards c ! i)"
    "distinct (map fst (contents (shards c ! i)))" "1 \<le> capacity (shards c ! i)"
    "int (length (contents (shards c ! i))) \<le> capacity (shards c ! i)"
    "map_of (contents (shards c ! i)) k = lru_peek kb c k"
proof -
  show i: "i < length (shards c)" using lru_index_in_range [OF assms(1)] assms(2) by blast
  show l: "linked (shards c ! i)" by (rule lru_invD(1) [OF assms(1) i])
  show w: "within_capacity (shards c ! i)" by (rule lru_invD(2) [OF assms(1) i])
  show "distinct (map fst (contents (shards c ! i)))" by (rule linkedD(2) [OF l])
  show "1 \<le> capacity (shards c ! i)" "int (length (contents (shards c ! i))) \<le> capacity (shards c ! i)"
    using w by (simp_all add: within_capacity_def contents_def)
  show "map_of (contents (shards c ! i)) k = lru_peek kb c k" using assms(2) by (simp add: lru_peek_def)
qed

lemma Get_laws:
  assumes "lru_inv kb c"
  shows "fst (LRUCache_Get kb k c) = lru_peek kb c k" "lru_inv kb (snd (LRUCache_Get kb k c))"
    "lru_peek kb (snd (LRUCache_Get kb k c)) k' = lru_peek kb c k'"
    "mset (entries (snd (LRUCache_Get kb k c))) = mset (entries c)"
    "invalidated (snd (LRUCache_Get kb k c)) = invalidated c"
proof -
  define i where "i = lru_shard_index kb c k"
  note own = lru_own_shard [OF assms i_def [symmetric]]
  obtain s where s: "linked s" "within_capacity s" "contents s = recency_get k (contents (shards c ! i))"
    "LRUCache_Get kb k c = (lru_peek kb c k, put_shard i s c)"
    using LRUCache_Get_eq [OF assms i_def [symmetric]] by blast
  show "fst (LRUCache_Get kb k c) = lru_peek kb c k" by (simp add: s)
  have "lru_shard_index kb c k' = i" if "k' \<in> fst ` set (contents s)" for k'
    by (rule lru_invD(3) [OF assms own(1)]) (use that keys_recency_get s(3) in force)
  then show "lru_inv kb (snd (LRUCache_Get kb k c))"
    using put_shard_inv [OF assms own(1) s(1,2)] by (simp add: s)
  show "lru_peek kb (snd (LRUCache_Get kb k c)) k' = lru_peek kb c k'"
    using put_shard_peek [OF assms own(1), of s k'] by (simp add: s lru_peek_def)
  show "mset (entries (snd (LRUCache_Get kb k c))) = mset (entries c)"
    using replaced_entries [OF own(1), of s "[]"] mset_recency_get [OF own(4), of k]
    by (simp add: s replaced_put)
  show "invalidated (snd (LRUCache_Get kb k c)) = invalidated c" by (simp add: s)
qed

lemma LRUCache_Set_cases [case_names refused accepted]:
  assumes "lru_inv kb c"
  obtains "\<not> set_accepted opts (lru_peek kb c k)" "LRUCache_Set kb k v opts c = (False, c)"
  | i s where "set_accepted opts (lru_peek kb c k)" "lru_shard_index kb c k = i"
      "linked s" "within_capacity s"
      "contents s = recency_set (capacity (shards c ! i)) k v (contents (shards c ! i))"
      "LRUCache_Set kb k v opts c =
        (True, replaced i s (displaced (capacity (shards c ! i)) k (contents (shards c ! i))) c)"
  using LRUCache_Set_refused [OF assms] LRUCache_Set_eq [OF assms _ refl] by blast

lemma Set_accepted_iff:
  assumes "lru_inv kb c"
  shows "fst (LRUCache_Set kb k v opts c) = set_accepted opts (lru_peek kb c k)"
  using assms by (cases rule: LRUCache_Set_cases [where opts = opts and k = k and v = v]) simp_all

lemma Set_refused:
  assumes "lru_inv kb c" "\<not> fst (LRUCache_Set kb k v opts c)"
  shows "snd (LRUCache_Set kb k v opts c) = c"
  using assms by (cases rule: LRUCache_Set_cases [where opts = opts and k = k and v = v]) simp_all

lemma Set_inv:
  assumes "lru_inv kb c"
  shows "lru_inv kb (snd (LRUCache_Set kb k v opts c))"
  using assms
proof (cases rule: LRUCache_Set_cases [where opts = opts and k = k and v = v])
  case (accepted i s)
  note own = lru_own_shard [OF assms accepted(2)]
  have "lru_shard_index kb c k' = i" if "k' \<in> fst ` set (contents s)" for k'
  proof (cases "k' = k")
    case False
    with that keys_recency_set [of _ k v] have "k' \<in> fst ` set (contents (shards c ! i))"
      unfolding accepted(5) by blast
    then show ?thesis by (rule lru_invD(3) [OF assms own(1)])
  qed (use accepted(2) in simp)
  with replaced_inv [OF assms own(1) accepted(3,4)] show ?thesis by (simp add: accepted(6))
qed (use assms in simp)

lemma Set_own:
  assumes "lru_inv kb c" "fst (LRUCache_Set kb k v opts c)"
  shows "lru_peek kb (snd (LRUCache_Set kb k v opts c)) k = Some v"
  using assms(1)
proof (cases rule: LRUCache_Set_cases [where opts = opts and k = k and v = v])
  case (accepted i s)
  note own = lru_own_shard [OF assms(1) accepted(2)]
  show ?thesis
    using recency_set_own [OF own(5)] by (simp add: accepted replaced_peek [OF own(1)])
qed (use assms in simp)

lemma Set_other:
  assumes "lru_inv kb c" "k' \<noteq> k" "lru_peek kb (snd (LRUCache_Set kb k v opts c)) k' = Some v'"
  shows "lru_peek kb c k' = Some v'"
  using assms(1)
proof (cases rule: LRUCache_Set_cases [where opts = opts and k = k and v = v])
  case (accepted i s)
  note own = lru_own_shard [OF assms(1) accepted(2)]
  show ?thesis
    using recency_set_other [OF own(4) assms(2)] assms(3) lru_peek_def [of kb c k']
    by (auto simp: accepted replaced_peek [OF own(1)] split: if_splits)
qed (use assms in simp)

text \<open>An accepted \<open>Set\<close> adds one entry; whatever leaves is reported to the callback.\<close>

lemma Set_balance:
  assumes "lru_inv kb c" "fst (LRUCache_Set kb k v opts c)" "notifies c"
  shows "mset (entries (snd (LRUCache_Set kb k v opts c))) +
      mset (invalidated (snd (LRUCache_Set kb k v opts c)))
    = add_mset (k, v) (mset (entries c) + mset (invalidated c))"
  using assms(1)
proof (cases rule: LRUCache_Set_cases [where opts = opts and k = k and v = v])
  case (accepted i s)
  note own = lru_own_shard [OF assms(1) accepted(2)]
  let ?gone = "displaced (capacity (shards c ! i)) k (contents (shards c ! i))"
  have "mset (entries (replaced i s ?gone c)) + mset ?gone + mset (contents (shards c ! i)) =
      mset (entries c) + (mset (contents s) + mset ?gone)"
    using replaced_entries [OF own(1), of s ?gone] by (simp add: ac_simps)
  also have "\<dots> = add_mset (k, v) (mset (entries c)) + mset (contents (shards c ! i))"
    using mset_recency_set [OF own(4-6), of k v] by (simp add: accepted(5))
  finally have "mset (entries (replaced i s ?gone c)) + mset ?gone = add_mset (k, v) (mset (entries c))"
    by simp
  then have "mset (entries (replaced i s ?gone c)) + mset ?gone + mset (invalidated c) =
      add_mset (k, v) (mset (entries c) + mset (invalidated c))"
    by simp
  with assms(3) show ?thesis by (simp add: accepted replaced_def ac_simps)
qed (use assms in simp)

lemma Delete_laws:
  assumes "lru_inv kb c"
  shows "lru_inv kb (LRUCache_Delete kb k c)"
    "lru_peek kb (LRUCache_Delete kb k c) = (lru_peek kb c)(k := None)"
    "notifies c \<Longrightarrow> mset (entries (LRUCache_Delete kb k c)) + mset (invalidated (LRUCache_Delete kb k c))
      = mset (entries c) + mset (invalidated c)"
proof -
  define i where "i = lru_shard_index kb c k"
  note own = lru_own_shard [OF assms i_def [symmetric]]
  let ?gone = "case lru_peek kb c k of None \<Rightarrow> [] | Some v \<Rightarrow> [(k, v)]"
  obtain s where s: "linked s" "within_capacity s"
    "contents s = filter (\<lambda>x. fst x \<noteq> k) (contents (shards c ! i))"
    "LRUCache_Delete kb k c = replaced i s ?gone c"
    using LRUCache_Delete_eq [OF assms i_def [symmetric]] by blast
  have "lru_shard_index kb c k' = i" if "k' \<in> fst ` set (contents s)" for k'
    using that lru_invD(3) [OF assms own(1)] unfolding s by auto
  with replaced_inv [OF assms own(1) s(1,2)] show "lru_inv kb (LRUCache_Delete kb k c)"
    by (simp add: s)
  show "lru_peek kb (LRUCache_Delete kb k c) = (lru_peek kb c)(k := None)"
    unfolding s(4) fun_eq_iff replaced_peek [OF own(1)] s(3) map_of_filter_key
    using i_def by (simp add: lru_peek_def)
  have "mset (contents s) + mset ?gone = mset (contents (shards c ! i))"
    using mset_without_key [OF own(4), of k] own(7)
    by (cases "lru_peek kb c k") (simp_all add: s(3) filter_absent_key del: mset_filter)
  moreover have "mset (entries (replaced i s ?gone c)) + mset ?gone + mset (contents (shards c ! i)) =
      mset (entries c) + (mset (contents s) + mset ?gone)"
    using replaced_entries [OF own(1), of s ?gone] by (simp add: ac_simps)
  ultimately have "mset (entries (replaced i s ?gone c)) + mset ?gone = mset (entries c)"
    by simp
  then have "mset (entries (replaced i s ?gone c)) + mset ?gone + mset (invalidated c) =
      mset (entries c) + mset (invalidated c)" by simp
  then show "notifies c \<Longrightarrow> mset (entries (LRUCache_Delete kb k c)) +
      mset (invalidated (LRUCache_Delete kb k c)) = mset (entries c) + mset (invalidated c)"
    by (simp add: s replaced_def ac_simps)
qed

lemma Has_iff: "lru_inv kb c \<Longrightarrow> LRUCache_Has kb k c \<longleftrightarrow> lru_peek kb c k \<noteq> None"
  using lru_invD(4) [of kb c k] elem_of_items elem_of_None
  by (metis LRUCache_Has_def lru_peek_def)

interpretation lru: retaining_cache "lru_inv kb" "\<lambda>_. lru_peek kb" "\<lambda>_. LRUCache_Get kb"
  "\<lambda>_. LRUCache_Set kb" "LRUCache_Delete kb" "\<lambda>_. LRUCache_Has kb"
  for kb :: "'k \<Rightarrow> bytes"
  by unfold_locales
    (simp_all add: Get_laws Set_inv Set_refused Set_own Set_accepted_iff Delete_laws Has_iff,
      metis Set_other)

section \<open>Construction\<close>

lemma power_of_two_iff:
  "0 < (n :: int) \<Longrightarrow> n AND (n - 1) = 0 \<longleftrightarrow> (\<exists>k. n = 2 ^ k)"
proof (induction "nat n" arbitrary: n rule: less_induct)
  case less
  show ?case
  proof (cases "even n")
    case True
    then obtain m where m: "n = 2 * m" by (auto elim: evenE)
    with less.prems have m0: "0 < m" by simp
    have d: "(2 * m - 1) div 2 = m - 1" by presburger
    have "n AND (n - 1) = 2 * (m AND (m - 1))"
      unfolding m by (subst and_int_rec) (simp add: d)
    then have "n AND (n - 1) = 0 \<longleftrightarrow> (\<exists>k. m = 2 ^ k)"
      using less.hyps [of m] m m0 by simp
    also have "\<dots> \<longleftrightarrow> (\<exists>k. n = 2 ^ k)"
    proof
      assume "\<exists>k. n = 2 ^ k"
      then obtain k where "n = 2 ^ k" ..
      with m less.prems show "\<exists>k. m = 2 ^ k" by (cases k) (auto, presburger)
    qed (use m in \<open>metis power_Suc\<close>)
    finally show ?thesis .
  next
    case False
    then obtain m where m: "n = 2 * m + 1" by (auto elim: oddE)
    with less.prems have m0: "0 \<le> m" by simp
    have "n AND (n - 1) = 2 * m"
      using m by (subst and_int_rec) simp
    moreover have "(\<exists>k. n = 2 ^ k) \<longleftrightarrow> n = 1"
    proof
      assume "\<exists>k. n = 2 ^ k"
      then obtain k where "n = 2 ^ k" ..
      with False show "n = 1" by (cases k) auto
    qed (metis power_0)
    ultimately show ?thesis using m by simp
  qed
qed

lemma new_lru_shard_ok: "linked (new_lru_shard cap)" "1 \<le> cap \<Longrightarrow> within_capacity (new_lru_shard cap)"
  "contents (new_lru_shard cap) = []" "capacity (new_lru_shard cap) = cap"
  by (simp_all add: linked_def within_capacity_def new_lru_shard_def contents_def)

lemma NewLRUCache_RetD:
  assumes "NewLRUCache n tot cb = Ret c"
  shows "\<exists>k. n = 2 ^ k" "lru_inv kb c" "lru_peek kb c k = None" "entries c = []" "invalidated c = []"
    "notifies c = cb" "length (shards c) = nat n" "mask c = word_of_int (n - 1)"
    "s \<in> set (shards c) \<Longrightarrow> capacity s = max 1 (tot div n)"
proof -
  define cap where "cap = max 1 (tot div n)"
  from assms have n: "0 < n" "n AND (n - 1) = 0"
    by (auto simp: NewLRUCache_def Let_def split: if_splits)
  have q: "(if sgn tot * (\<bar>tot\<bar> div n) \<le> 0 then 1 else sgn tot * (\<bar>tot\<bar> div n)) = cap"
  proof (cases "0 \<le> tot")
    case True
    then show ?thesis using n by (auto simp: cap_def sgn_if max_def)
  next
    case False
    have "0 \<le> \<bar>tot\<bar> div n" using n by (simp add: pos_imp_zdiv_nonneg_iff)
    moreover have "tot div n < 1" using False n div_neg_pos_less0 [of tot n] by simp
    ultimately show ?thesis using False by (simp add: cap_def sgn_if)
  qed
  have c: "c = \<lparr>shards = replicate (nat n) (new_lru_shard cap), mask = word_of_int (n - 1),
      notifies = cb, invalidated = []\<rparr>"
    using assms n q by (simp add: NewLRUCache_def Let_def)
  show "\<exists>k. n = 2 ^ k" using power_of_two_iff n by blast
  have "uint (word_of_int (n - 1) :: u64) < n"
    using n zmod_le_nonneg_dividend [of "n - 1" "2 ^ 64"]
    unfolding uint_word_of_int by simp
  then have m: "unat (word_of_int (n - 1) :: u64) < nat n"
    by (simp only: unat_eq_nat_uint nat_mono_iff [OF n(1)])
  show inv: "lru_inv kb c"
    using m by (auto simp: lru_inv_def c cap_def new_lru_shard_ok simp del: of_int_diff)
  show "lru_peek kb c k = None"
    using lru_index_in_range [OF inv, of k] by (simp add: lru_peek_def c new_lru_shard_ok)
  show "entries c = []" by (simp add: entries_def c new_lru_shard_ok)
  show "invalidated c = []" "notifies c = cb" "length (shards c) = nat n" "mask c = word_of_int (n - 1)"
    by (simp_all add: c)
  show "s \<in> set (shards c) \<Longrightarrow> capacity s = max 1 (tot div n)"
    by (auto simp: c cap_def new_lru_shard_ok)
qed

section \<open>Properties\<close>

abbreviation "lru_step kb \<equiv> cache_step (\<lambda>_::int. LRUCache_Get kb) (\<lambda>_. LRUCache_Set kb) (LRUCache_Delete kb)"

abbreviation "lru_run kb \<equiv> cache_run (\<lambda>_::int. LRUCache_Get kb) (\<lambda>_. LRUCache_Set kb) (LRUCache_Delete kb)"

abbreviation "lru_memory kb \<equiv>
  cache_memory (\<lambda>_::int. LRUCache_Get kb) (\<lambda>_. LRUCache_Set kb) (LRUCache_Delete kb)"

text \<open>The entries whose \<open>Set\<close> was accepted along a run.\<close>

fun accepted_sets :: "('k \<Rightarrow> bytes) \<Rightarrow> (int \<times> ('k, 'v) cache_op) list \<Rightarrow> ('k, 'v) LRUCache \<Rightarrow>
    ('k \<times> 'v) list" where
  "accepted_sets kb [] c = []"
| "accepted_sets kb (o' # os) c =
     (case snd o' of OpSet k v opt \<Rightarrow> if fst (LRUCache_Set kb k v opt c) then [(k, v)] else [] | _ \<Rightarrow> [])
     @ accepted_sets kb os (lru_step kb (fst o') (snd o') c)"

text \<open>Every operation replaces one shard by one of the same capacity.\<close>

lemma step_shape:
  assumes "lru_inv kb c"
  shows "\<exists>i s gone. capacity s = capacity (shards c ! i) \<and> lru_step kb t op' c = replaced i s gone c"
proof (cases op')
  case (OpGet k)
  with LRUCache_Get_eq [OF assms refl, of k] replaced_put show ?thesis
    by (metis cache_step.simps(1) snd_conv)
next
  case (OpSet k v opt)
  show ?thesis
  proof (cases "set_accepted opt (lru_peek kb c k)")
    case True
    with OpSet LRUCache_Set_eq [OF assms True refl, of v] show ?thesis
      by (metis cache_step.simps(2) snd_conv)
  next
    case False
    have "c = replaced 0 (shards c ! 0) [] c" by (simp add: replaced_def)
    with OpSet LRUCache_Set_refused [OF assms False] show ?thesis
      by (metis cache_step.simps(2) snd_conv)
  qed
next
  case (OpDelete k)
  with LRUCache_Delete_eq [OF assms refl, of k] show ?thesis by (metis cache_step.simps(3))
qed

lemma step_keeps:
  assumes "lru_inv kb c"
  shows "notifies (lru_step kb t op' c) = notifies c"
    "map capacity (shards (lru_step kb t op' c)) = map capacity (shards c)"
proof -
  obtain i s gone where s: "capacity s = capacity (shards c ! i)" "lru_step kb t op' c = replaced i s gone c"
    using step_shape [OF assms] by blast
  then show "notifies (lru_step kb t op' c) = notifies c" by simp
  show "map capacity (shards (lru_step kb t op' c)) = map capacity (shards c)"
    using s by (cases "i < length (shards c)")
      (simp_all add: map_update list_update_same_conv list_update_beyond)
qed

lemma step_balance:
  assumes "lru_inv kb c" "notifies c"
  shows "mset (entries (lru_step kb t op' c)) + mset (invalidated (lru_step kb t op' c)) =
    mset (case op' of OpSet k v opt \<Rightarrow> if fst (LRUCache_Set kb k v opt c) then [(k, v)] else [] | _ \<Rightarrow> [])
    + (mset (entries c) + mset (invalidated c))"
  using assms Get_laws(4,5) [OF assms(1)] Set_balance [OF assms(1) _ assms(2)]
    Set_refused [OF assms(1)] Delete_laws(3) [OF assms]
  by (cases op') simp_all

lemma run_balance:
  assumes "lru_inv kb c" "notifies c"
  shows "mset (entries (lru_run kb os c)) + mset (invalidated (lru_run kb os c)) =
      mset (accepted_sets kb os c) + (mset (entries c) + mset (invalidated c))"
    "map capacity (shards (lru_run kb os c)) = map capacity (shards c)"
  using assms
proof (induction os arbitrary: c)
  case (Cons o' os)
  let ?c = "lru_step kb (fst o') (snd o') c"
  {
    fix c :: "('a, 'b) LRUCache"
    assume "lru_inv kb c" "notifies c"
    then have "lru_inv kb (lru_step kb (fst o') (snd o') c)" "notifies (lru_step kb (fst o') (snd o') c)"
      using step_keeps(1) lru.step_inv by auto
  }
  note next_inv = this
  case 1
  show ?case using Cons.IH(1) [OF next_inv [OF 1]] step_balance [OF 1, of "fst o'" "snd o'"]
    by (simp add: ac_simps)
  case 2
  show ?case using Cons.IH(2) [OF next_inv [OF 2]] step_keeps(2) [OF 2(1)] by simp
qed simp_all

lemma LRUCache_Size_entries: "LRUCache_Size c = length (entries c)"
proof -
  have "foldl (\<lambda>n s. n + length (llist s)) m ss = m + length (concat (map contents ss))"
    for m and ss :: "('a, 'b) lruShardNode list"
    by (induction ss arbitrary: m) (simp_all add: contents_def)
  then show ?thesis by (simp add: LRUCache_Size_def entries_def)
qed

lemma size_bound:
  assumes "lru_inv kb c" "\<And>s. s \<in> set (shards c) \<Longrightarrow> capacity s = cap"
  shows "int (LRUCache_Size c) \<le> int (length (shards c)) * cap"
proof -
  have "int (length (contents s)) \<le> cap" if "s \<in> set (shards c)" for s
  proof -
    obtain i where "i < length (shards c)" "s = shards c ! i" using \<open>s \<in> _\<close> by (auto simp: in_set_conv_nth)
    with lru_invD(2) [OF assms(1)] assms(2) [OF that] show ?thesis
      by (metis contents_def length_map within_capacity_def)
  qed
  then have "int (length (concat (map contents ss))) \<le> int (length ss) * cap"
    if "set ss \<subseteq> set (shards c)" for ss
    using that by (induction ss) (force simp: algebra_simps)+
  then show ?thesis by (simp add: LRUCache_Size_entries entries_def)
qed

text \<open>C2: in an LRU cache built with a callback, after any sequence of operations every entry whose
  \<open>Set\<close> was accepted is either still in the cache or was handed to \<open>onInvalidate\<close> exactly once
  (so no connection or handle stored in it leaks), and the number of entries never exceeds the
  shards times their capacity.\<close>

theorem lru_accounts_for_every_entry:
  assumes "NewLRUCache n tot True = Ret c0" and "c = lru_run kb os c0"
  shows "mset (accepted_sets kb os c0) = mset (entries c) + mset (invalidated c) \<and>
    int (LRUCache_Size c) \<le> n * max 1 (tot div n)"
proof -
  note new = NewLRUCache_RetD [OF assms(1)]
  have "0 < n" using new(1) by auto
  have inv: "lru_inv kb c" unfolding assms(2) by (rule lru.run_inv [OF new(2)])
  note rb = run_balance [OF new(2), of kb os]
  have caps: "map capacity (shards c) = map capacity (shards c0)"
    using rb(2) new(6) by (simp add: assms(2))
  have "capacity s = max 1 (tot div n)" if "s \<in> set (shards c)" for s
  proof -
    have "capacity s \<in> set (map capacity (shards c0))" using that caps by (metis image_eqI list.set_map)
    then show ?thesis using new(9) by auto
  qed
  from size_bound [OF inv this] map_eq_imp_length_eq [OF caps] new(7) \<open>0 < n\<close>
  have "int (LRUCache_Size c) \<le> n * max 1 (tot div n)" by simp
  with rb(1) new show ?thesis by (simp add: assms(2))
qed

definition example_ops :: "(int \<times> (nat, nat) cache_op) list" where
  "example_ops = [(0, OpSet 1 10 None), (0, OpSet 2 20 None), (0, OpGet 1), (0, OpSet 3 30 None)]"

definition nat_key :: "nat \<Rightarrow> bytes" where
  "nat_key k = [of_nat k]"

theorem lru_accounts_for_every_entry_witness:
  "\<exists>c0 c. NewLRUCache 1 2 True = Ret c0 \<and> c = lru_run nat_key example_ops c0 \<and>
     mset (accepted_sets nat_key example_ops c0) = mset (entries c) + mset (invalidated c) \<and>
     invalidated c = [(2, 20)] \<and> entries c = [(3, 30), (1, 10)]"
proof -
  let ?c0 = "\<lparr>shards = [new_lru_shard 2], mask = 0, notifies = True, invalidated = []\<rparr>
    :: (nat, nat) LRUCache"
  have "NewLRUCache 1 2 True = Ret ?c0" by (simp add: NewLRUCache_def)
  moreover from lru_accounts_for_every_entry [OF this refl, of nat_key example_ops]
  have "mset (accepted_sets nat_key example_ops ?c0) =
    mset (entries (lru_run nat_key example_ops ?c0)) + mset (invalidated (lru_run nat_key example_ops ?c0))"
    by blast
  moreover have "invalidated (lru_run nat_key example_ops ?c0) = [(2, 20)]"
    "entries (lru_run nat_key example_ops ?c0) = [(3, 30), (1, 10)]"
    by code_simp+
  ultimately show ?thesis by blast
qed

lemma lru_recency_laws:
  assumes "lru_inv kb c" "i = lru_shard_index kb c k"
    "xs = contents (shards c ! i)" "cap = capacity (shards c ! i)"
  shows "fst (LRUCache_Get kb k c) = map_of xs k"
    "contents (shards (snd (LRUCache_Get kb k c)) ! i) = recency_get k xs"
    "fst (LRUCache_Set kb k v opts c) = set_accepted opts (map_of xs k)"
    "set_accepted opts (map_of xs k) \<Longrightarrow>
       contents (shards (snd (LRUCache_Set kb k v opts c)) ! i) = recency_set cap k v xs"
    "\<not> set_accepted opts (map_of xs k) \<Longrightarrow> snd (LRUCache_Set kb k v opts c) = c"
    "contents (shards (LRUCache_Delete kb k c) ! i) = filter (\<lambda>e. fst e \<noteq> k) xs"
    "j \<noteq> i \<Longrightarrow> shards (snd (LRUCache_Get kb k c)) ! j = shards c ! j \<and>
       shards (snd (LRUCache_Set kb k v opts c)) ! j = shards c ! j \<and>
       shards (LRUCache_Delete kb k c) ! j = shards c ! j"
proof -
  note own = lru_own_shard [OF assms(1) assms(2) [symmetric]]
  have pk: "map_of xs k = lru_peek kb c k" using own(7) assms(3) by simp
  obtain s1 where s1: "contents s1 = recency_get k xs" "snd (LRUCache_Get kb k c) = put_shard i s1 c"
    using LRUCache_Get_eq [OF assms(1) assms(2) [symmetric]] assms(3) by auto
  show "fst (LRUCache_Get kb k c) = map_of xs k" by (simp add: pk Get_laws(1) [OF assms(1)])
  show "contents (shards (snd (LRUCache_Get kb k c)) ! i) = recency_get k xs"
    using own(1) by (simp add: s1)
  show "fst (LRUCache_Set kb k v opts c) = set_accepted opts (map_of xs k)"
    by (simp add: pk Set_accepted_iff [OF assms(1)])
  show "\<not> set_accepted opts (map_of xs k) \<Longrightarrow> snd (LRUCache_Set kb k v opts c) = c"
    using LRUCache_Set_refused [OF assms(1), of opts k v] by (simp add: pk)
  show "contents (shards (snd (LRUCache_Set kb k v opts c)) ! i) = recency_set cap k v xs"
    if "set_accepted opts (map_of xs k)"
    using LRUCache_Set_eq [OF assms(1) _ assms(2) [symmetric], of opts v] that own(1) assms(3,4) pk
    by fastforce
  show "contents (shards (LRUCache_Delete kb k c) ! i) = filter (\<lambda>e. fst e \<noteq> k) xs"
    using LRUCache_Delete_eq [OF assms(1) assms(2) [symmetric]] own(1) assms(3) by fastforce
  show "shards (snd (LRUCache_Get kb k c)) ! j = shards c ! j \<and>
       shards (snd (LRUCache_Set kb k v opts c)) ! j = shards c ! j \<and>
       shards (LRUCache_Delete kb k c) ! j = shards c ! j" if "j \<noteq> i"
    using that s1(2) LRUCache_Delete_eq [OF assms(1) assms(2) [symmetric]]
      LRUCache_Set_eq [OF assms(1) _ assms(2) [symmetric], of opts v] LRUCache_Set_refused [OF assms(1), of opts k v]
    by (cases "set_accepted opts (lru_peek kb c k)") fastforce+
qed

text \<open>C3: each shard behaves as a bounded list of entries in order of last use. \<open>Get\<close> moves its
  entry to the front, an accepted \<open>Set\<close> puts the new entry in front and drops the least recently
  used one on overflow, a \<open>Set\<close> is refused exactly as its options say and then changes nothing,
  \<open>Delete\<close> removes its key, and no operation touches another shard.\<close>

theorem lru_refines_recency_lists:
  assumes "lru_inv kb c" "i = lru_shard_index kb c k"
    "xs = contents (shards c ! i)" "cap = capacity (shards c ! i)"
  shows "fst (LRUCache_Get kb k c) = map_of xs k \<and>
    contents (shards (snd (LRUCache_Get kb k c)) ! i) = recency_get k xs \<and>
    fst (LRUCache_Set kb k v opts c) = set_accepted opts (map_of xs k) \<and>
    (set_accepted opts (map_of xs k) \<longrightarrow>
       contents (shards (snd (LRUCache_Set kb k v opts c)) ! i) = recency_set cap k v xs) \<and>
    (\<not> set_accepted opts (map_of xs k) \<longrightarrow> snd (LRUCache_Set kb k v opts c) = c) \<and>
    contents (shards (LRUCache_Delete kb k c) ! i) = filter (\<lambda>e. fst e \<noteq> k) xs \<and>
    (\<forall>j. j \<noteq> i \<longrightarrow> shards (snd (LRUCache_Get kb k c)) ! j = shards c ! j \<and>
       shards (snd (LRUCache_Set kb k v opts c)) ! j = shards c ! j \<and>
       shards (LRUCache_Delete kb k c) ! j = shards c ! j)"
  using lru_recency_laws [OF assms] by blast

theorem lru_refines_recency_lists_witness:
  "\<exists>c. lru_inv nat_key c \<and>
     contents (shards (snd (LRUCache_Set nat_key (7::nat) (70::nat) None c)) ! 0) = [(7, 70)]"
proof -
  let ?c = "\<lparr>shards = [new_lru_shard 2], mask = 0, notifies = True, invalidated = []\<rparr>
    :: (nat, nat) LRUCache"
  have n: "NewLRUCache 1 2 True = Ret ?c" by (simp add: NewLRUCache_def)
  have i: "0 = lru_shard_index nat_key ?c 7" by (simp add: lru_shard_index_def)
  have "set_accepted None (map_of (contents (shards ?c ! 0)) 7)" by code_simp
  with lru_refines_recency_lists [OF NewLRUCache_RetD(2) [OF n] i refl refl]
  have "contents (shards (snd (LRUCache_Set nat_key 7 70 None ?c)) ! 0) =
    recency_set (capacity (shards ?c ! 0)) 7 70 (contents (shards ?c ! 0))" by blast
  also have "\<dots> = [(7, 70)]" by code_simp
  finally show ?thesis using NewLRUCache_RetD(2) [OF n] by blast
qed

text \<open>An LRU cache never returns a stale or foreign value. Whatever operations ran since the
  cache was built, a value that \<open>Get\<close> returns for a key is the one most recently accepted by
  \<open>Set\<close> for exactly that key and not deleted since.\<close>

theorem lru_get_is_current:
  assumes "NewLRUCache n tot cb = Ret c0"
    and "fst (LRUCache_Get kb k (lru_run kb (map (Pair 0) os) c0)) = Some v"
  shows "lru_memory kb (map (Pair 0) os) c0 (\<lambda>_. None) k = Some v"
proof (rule lru.run_get [OF NewLRUCache_RetD(2) [OF assms(1)] _ _ _ _ assms(2), of 0 _ 0])
  show "lru.coherent kb 0 c0 (\<lambda>_. None)"
    by (simp add: lru.coherent_def NewLRUCache_RetD(3) [OF assms(1)])
  show "sorted (0 # map fst (map (Pair 0) os))" by (induction os) auto
qed auto

theorem lru_get_is_current_witness:
  "\<exists>c0. NewLRUCache 1 2 False = Ret c0 \<and>
     lru_memory nat_key (map (Pair 0) [OpSet (7::nat) (70::nat) None, OpSet 7 71 None]) c0 (\<lambda>_. None) 7 = Some 71"
proof -
  let ?c = "\<lparr>shards = [new_lru_shard 2], mask = 0, notifies = False, invalidated = []\<rparr>
    :: (nat, nat) LRUCache"
  have n: "NewLRUCache 1 2 False = Ret ?c" by (simp add: NewLRUCache_def)
  have "fst (LRUCache_Get nat_key 7
    (lru_run nat_key (map (Pair 0) [OpSet 7 70 None, OpSet 7 71 None]) ?c)) = Some 71"
    by code_simp
  from lru_get_is_current [OF n this] n show ?thesis by blast
qed

end
