(* ===== verification/Ttl_Cache.thy ===== *)
theory Ttl_Cache
  imports Lru_Cache "HOL-Library.AList"
begin

text \<open>
  \<open>pkg/spoofdpi/internal/cache/ttl_cache.go\<close>. The clock is an argument: \<open>now\<close> is the value of
  \<open>time.Now().UnixNano()\<close> at the call. A shard's map is an association list with distinct keys.
  \<open>Get\<close> takes the read lock, decides, and takes the write lock again to delete, so it is modelled
  in two steps between which other goroutines may run. The janitor goroutine is a sequence of
  \<open>ForceCleanup\<close> calls.
\<close>

section \<open>Items, shards and operations\<close>

record 'v ttlCacheItem =
  item_value :: 'v
  expiresAt :: int

type_synonym ('k, 'v) ttlCacheShard = "('k \<times> 'v ttlCacheItem) list"

record ('k, 'v) TTLCache =
  ttl_shards :: "('k, 'v) ttlCacheShard list"

definition isExpired :: "int \<Rightarrow> 'v ttlCacheItem \<Rightarrow> bool" where
  "isExpired now i = (expiresAt i \<noteq> 0 \<and> now > expiresAt i)"

definition NewTTLCache :: "byte \<Rightarrow> (unit, ('k, 'v) TTLCache) outcome" where
  "NewTTLCache numOfShards =
     (if numOfShards = 0 then Panic else Ret \<lparr>ttl_shards = replicate (unat numOfShards) []\<rparr>)"

definition ttl_shard_index :: "('k \<Rightarrow> bytes) \<Rightarrow> ('k, 'v) TTLCache \<Rightarrow> 'k \<Rightarrow> nat" where
  "ttl_shard_index key_bytes c k =
     unat (fnv1aBytes (key_bytes k) mod of_nat (length (ttl_shards c)))"

definition ttl_put_shard ::
  "nat \<Rightarrow> ('k, 'v) ttlCacheShard \<Rightarrow> ('k, 'v) TTLCache \<Rightarrow> ('k, 'v) TTLCache" where
  "ttl_put_shard i s c = c\<lparr>ttl_shards := (ttl_shards c)[i := s]\<rparr>"

definition TTLCache_Set ::
  "('k \<Rightarrow> bytes) \<Rightarrow> int \<Rightarrow> 'k \<Rightarrow> 'v \<Rightarrow> cache_options option \<Rightarrow> ('k, 'v) TTLCache \<Rightarrow>
   bool \<times> ('k, 'v) TTLCache" where
  "TTLCache_Set key_bytes now key v opts c =
     (let i = ttl_shard_index key_bytes c key; s = ttl_shards c ! i; opt = opts_or_default opts;
          ok = (map_of s key \<noteq> None) in
      if ttl opt = 0 then (False, c)
      else if ok \<and> skipExisting opt then (False, c)
      else if \<not> ok \<and> updateExistingOnly opt then (False, c)
      else (True, ttl_put_shard i
              (AList.update key \<lparr>item_value = v, expiresAt = wrap64 (now + ttl opt)\<rparr> s) c))"

text \<open>The two critical sections of \<open>Get\<close>.\<close>

definition ttl_get_read :: "('k \<Rightarrow> bytes) \<Rightarrow> 'k \<Rightarrow> ('k, 'v) TTLCache \<Rightarrow> 'v ttlCacheItem option" where
  "ttl_get_read key_bytes key c = map_of (ttl_shards c ! ttl_shard_index key_bytes c key) key"

definition ttl_get_evict ::
  "('k \<Rightarrow> bytes) \<Rightarrow> 'k \<Rightarrow> 'v ttlCacheItem \<Rightarrow> ('k, 'v) TTLCache \<Rightarrow> ('k, 'v) TTLCache" where
  "ttl_get_evict key_bytes key i c =
     (let j = ttl_shard_index key_bytes c key; s = ttl_shards c ! j in
      case map_of s key of
        Some current \<Rightarrow>
          if expiresAt current = expiresAt i then ttl_put_shard j (AList.delete key s) c else c
      | None \<Rightarrow> c)"

definition TTLCache_Get ::
  "('k \<Rightarrow> bytes) \<Rightarrow> int \<Rightarrow> 'k \<Rightarrow> ('k, 'v) TTLCache \<Rightarrow> 'v option \<times> ('k, 'v) TTLCache" where
  "TTLCache_Get key_bytes now key c =
     (case ttl_get_read key_bytes key c of
        None \<Rightarrow> (None, c)
      | Some i \<Rightarrow>
          if isExpired now i then (None, ttl_get_evict key_bytes key i c)
          else (Some (item_value i), c))"

definition TTLCache_Delete ::
  "('k \<Rightarrow> bytes) \<Rightarrow> 'k \<Rightarrow> ('k, 'v) TTLCache \<Rightarrow> ('k, 'v) TTLCache" where
  "TTLCache_Delete key_bytes key c =
     (let i = ttl_shard_index key_bytes c key in
      ttl_put_shard i (AList.delete key (ttl_shards c ! i)) c)"

definition TTLCache_Has :: "('k \<Rightarrow> bytes) \<Rightarrow> int \<Rightarrow> 'k \<Rightarrow> ('k, 'v) TTLCache \<Rightarrow> bool" where
  "TTLCache_Has key_bytes now key c =
     (case map_of (ttl_shards c ! ttl_shard_index key_bytes c key) key of
        None \<Rightarrow> False | Some i \<Rightarrow> \<not> isExpired now i)"

definition TTLCache_ForceCleanup :: "int \<Rightarrow> ('k, 'v) TTLCache \<Rightarrow> ('k, 'v) TTLCache" where
  "TTLCache_ForceCleanup now c =
     c\<lparr>ttl_shards := map (filter (\<lambda>ki. \<not> (expiresAt (snd ki) \<noteq> 0 \<and> now > expiresAt (snd ki))))
        (ttl_shards c)\<rparr>"

definition janitor :: "int list \<Rightarrow> ('k, 'v) TTLCache \<Rightarrow> ('k, 'v) TTLCache" where
  "janitor ticks c = foldl (\<lambda>c now. TTLCache_ForceCleanup now c) c ticks"

fun ttl_for_each ::
  "('k \<Rightarrow> 'v \<Rightarrow> 's \<Rightarrow> 'e option \<times> 's) \<Rightarrow> (('k, 'v) ttlCacheShard \<times> 'k list) list \<Rightarrow> 's \<Rightarrow>
   'e option \<times> 's" where
  "ttl_for_each f [] st = (None, st)"
| "ttl_for_each f ((s, ks) # rest) st =
     (case visit_keys f (\<lambda>k. map_option (\<lambda>i. (k, item_value i)) (map_of s k)) ks st of
        (Some e, st') \<Rightarrow> (Some e, st')
      | (None, st') \<Rightarrow> ttl_for_each f rest st')"

definition TTLCache_ForEach ::
  "('k \<Rightarrow> 'v \<Rightarrow> 's \<Rightarrow> 'e option \<times> 's) \<Rightarrow> 'k list list \<Rightarrow> ('k, 'v) TTLCache \<Rightarrow> 's \<Rightarrow>
   'e option \<times> 's" where
  "TTLCache_ForEach f orders c st = ttl_for_each f (zip (ttl_shards c) orders) st"

definition TTLCache_Size :: "('k, 'v) TTLCache \<Rightarrow> nat" where
  "TTLCache_Size c = foldl (\<lambda>total s. total + length s) 0 (ttl_shards c)"

section \<open>Invariant and the laws of the interface\<close>

definition ttl_inv :: "('k, 'v) TTLCache \<Rightarrow> bool" where
  "ttl_inv c \<longleftrightarrow> 0 < length (ttl_shards c) \<and> length (ttl_shards c) < 256 \<and>
     (\<forall>s\<in>set (ttl_shards c). distinct (map fst s))"

definition ttl_peek :: "('k \<Rightarrow> bytes) \<Rightarrow> int \<Rightarrow> ('k, 'v) TTLCache \<Rightarrow> 'k \<Rightarrow> 'v option" where
  "ttl_peek kb now c k =
     (case map_of (ttl_shards c ! ttl_shard_index kb c k) k of
        None \<Rightarrow> None | Some i \<Rightarrow> if isExpired now i then None else Some (item_value i))"

lemma ttl_put_shard_simps [simp]:
  "ttl_shards (ttl_put_shard i s c) = (ttl_shards c)[i := s]"
  "ttl_shard_index kb (ttl_put_shard i s c) k = ttl_shard_index kb c k"
  by (simp_all add: ttl_put_shard_def ttl_shard_index_def)

lemma ttl_index_in_range:
  assumes "ttl_inv c"
  shows "ttl_shard_index kb c k < length (ttl_shards c)"
proof -
  let ?n = "length (ttl_shards c)"
  have "unat (of_nat ?n :: u64) = ?n"
    using assms by (simp add: ttl_inv_def unsigned_of_nat take_bit_nat_eq_self)
  then show ?thesis
    using assms unfolding ttl_shard_index_def unat_mod_distrib
    by (simp add: ttl_inv_def)
qed

lemma ttl_put_shard_inv:
  "ttl_inv c \<Longrightarrow> distinct (map fst s) \<Longrightarrow> ttl_inv (ttl_put_shard i s c)"
  by (auto simp: ttl_inv_def dest: set_update_subset_insert [THEN subsetD])

lemma ttl_own_distinct: "ttl_inv c \<Longrightarrow> distinct (map fst (ttl_shards c ! ttl_shard_index kb c k))"
  using ttl_index_in_range [of c kb k] by (simp add: ttl_inv_def)

lemma ttl_put_shard_peek:
  assumes "ttl_inv c" "i = ttl_shard_index kb c k"
    and "\<And>k'. k' \<noteq> k \<Longrightarrow> map_of s k' = map_of (ttl_shards c ! i) k'"
  shows "ttl_peek kb now (ttl_put_shard i s c) k' =
    (if k' = k then (case map_of s k of None \<Rightarrow> None
       | Some it \<Rightarrow> if isExpired now it then None else Some (item_value it))
     else ttl_peek kb now c k')"
  using ttl_index_in_range [OF assms(1), of kb k] assms(2,3)
  by (cases "k' = k"; cases "ttl_shard_index kb c k' = i") (simp_all add: ttl_peek_def)

text \<open>The deferred delete of \<open>Get\<close> on whatever state it finds: it never changes what is visible
  once the item it was started for has expired.\<close>

lemma ttl_get_evict_peek:
  assumes "ttl_inv c" "isExpired t i" "t \<le> t'"
  shows "ttl_peek kb t' (ttl_get_evict kb k i c) k' = ttl_peek kb t' c k'"
proof (cases "map_of (ttl_shards c ! ttl_shard_index kb c k) k")
  case (Some cur)
  show ?thesis
  proof (cases "expiresAt cur = expiresAt i")
    case True
    then have "isExpired t' cur" using assms(2,3) by (simp add: isExpired_def)
    then have "ttl_peek kb t' c k = None" using Some by (simp add: ttl_peek_def)
    with True Some show ?thesis
      by (simp add: ttl_get_evict_def Let_def delete_conv' ttl_put_shard_peek [OF assms(1)])
  qed (use Some in \<open>simp add: ttl_get_evict_def\<close>)
qed (simp add: ttl_get_evict_def)

lemma ttl_get_evict_inv: "ttl_inv c \<Longrightarrow> ttl_inv (ttl_get_evict kb k i c)"
  using ttl_own_distinct [of c kb k]
  by (auto simp: ttl_get_evict_def Let_def distinct_delete intro!: ttl_put_shard_inv split: option.splits)

lemma TTLCache_Get_laws:
  assumes "ttl_inv c"
  shows "fst (TTLCache_Get kb t k c) = ttl_peek kb t c k" "ttl_inv (snd (TTLCache_Get kb t k c))"
    "t \<le> t' \<Longrightarrow> ttl_peek kb t' (snd (TTLCache_Get kb t k c)) k' = ttl_peek kb t' c k'"
  using assms ttl_get_evict_peek [OF assms] ttl_get_evict_inv [OF assms]
  by (auto simp: TTLCache_Get_def ttl_get_read_def ttl_peek_def [of kb t c k] split: option.split)

definition ttl_set_accepted :: "cache_options option \<Rightarrow> bool \<Rightarrow> bool" where
  "ttl_set_accepted opts present = (let opt = opts_or_default opts in
     ttl opt \<noteq> 0 \<and> (if present then \<not> skipExisting opt else \<not> updateExistingOnly opt))"

lemma TTLCache_Set_eq:
  "TTLCache_Set kb t k v opts c =
     (let i = ttl_shard_index kb c k in
      if ttl_set_accepted opts (map_of (ttl_shards c ! i) k \<noteq> None)
      then (True, ttl_put_shard i (AList.update k \<lparr>item_value = v,
              expiresAt = wrap64 (t + ttl (opts_or_default opts))\<rparr> (ttl_shards c ! i)) c)
      else (False, c))"
  by (auto simp: TTLCache_Set_def ttl_set_accepted_def Let_def)

lemma TTLCache_Set_inv: "ttl_inv c \<Longrightarrow> ttl_inv (snd (TTLCache_Set kb t k v opts c))"
  using ttl_own_distinct [of c kb k]
  by (auto simp: TTLCache_Set_eq Let_def distinct_update intro!: ttl_put_shard_inv)

lemma TTLCache_Set_peek:
  assumes "ttl_inv c"
  shows "ttl_peek kb t' (snd (TTLCache_Set kb t k v opts c)) k' =
    (if k' = k \<and> fst (TTLCache_Set kb t k v opts c)
     then if isExpired t' \<lparr>item_value = v, expiresAt = wrap64 (t + ttl (opts_or_default opts))\<rparr>
       then None else Some v
     else ttl_peek kb t' c k')"
  by (simp add: TTLCache_Set_eq Let_def update_conv' ttl_put_shard_peek [OF assms])

lemma TTLCache_Delete_laws:
  assumes "ttl_inv c"
  shows "ttl_inv (TTLCache_Delete kb k c)"
    "ttl_peek kb t (TTLCache_Delete kb k c) = (ttl_peek kb t c)(k := None)"
proof -
  show "ttl_inv (TTLCache_Delete kb k c)"
    using assms ttl_own_distinct [OF assms]
    by (simp add: TTLCache_Delete_def Let_def ttl_put_shard_inv distinct_delete)
  show "ttl_peek kb t (TTLCache_Delete kb k c) = (ttl_peek kb t c)(k := None)"
    by (rule ext)
      (simp add: TTLCache_Delete_def Let_def ttl_put_shard_peek [OF assms] delete_conv')
qed

interpretation ttlc: cache_contract ttl_inv "ttl_peek kb" "TTLCache_Get kb" "TTLCache_Set kb"
  "TTLCache_Delete kb" "TTLCache_Has kb"
  for kb :: "'k \<Rightarrow> bytes"
proof unfold_locales
  fix c :: "('k, 'v) TTLCache" and t t' k k' v v' opt
  assume inv: "ttl_inv c"
  show "\<not> fst (TTLCache_Set kb t k v opt c) \<Longrightarrow> snd (TTLCache_Set kb t k v opt c) = c"
    by (auto simp: TTLCache_Set_eq Let_def)
  show "fst (TTLCache_Set kb t k v opt c) \<Longrightarrow>
      ttl_peek kb t' (snd (TTLCache_Set kb t k v opt c)) k = Some v' \<Longrightarrow> v' = v"
    by (simp add: TTLCache_Set_peek [OF inv] split: if_splits)
  show "k' \<noteq> k \<Longrightarrow> ttl_peek kb t' (snd (TTLCache_Set kb t k v opt c)) k' = Some v' \<Longrightarrow>
      ttl_peek kb t' c k' = Some v'"
    by (simp add: TTLCache_Set_peek [OF inv])
  show "TTLCache_Has kb t k c = (ttl_peek kb t c k \<noteq> None)"
    by (simp add: TTLCache_Has_def ttl_peek_def split: option.splits)
  show "t \<le> t' \<Longrightarrow> ttl_peek kb t' c k = Some v \<Longrightarrow> ttl_peek kb t c k = Some v"
    by (auto simp: ttl_peek_def isExpired_def split: option.splits if_splits)
qed (simp_all add: TTLCache_Get_laws TTLCache_Set_inv TTLCache_Delete_laws)

section \<open>Cleanup\<close>

lemma ForceCleanup_index [simp]:
  "ttl_shard_index kb (TTLCache_ForceCleanup now c) k = ttl_shard_index kb c k"
  by (simp add: ttl_shard_index_def TTLCache_ForceCleanup_def)

lemma map_of_filter_value:
  "distinct (map fst xs) \<Longrightarrow> map_of (filter (\<lambda>x. P (snd x)) xs) k =
     (case map_of xs k of None \<Rightarrow> None | Some v \<Rightarrow> if P v then Some v else None)"
proof (induction xs)
  case (Cons x xs)
  then show ?case
    by (auto simp: map_of_eq_None_iff split: option.splits)
qed simp

lemma ForceCleanup_inv: "ttl_inv c \<Longrightarrow> ttl_inv (TTLCache_ForceCleanup now c)"
  by (auto simp: ttl_inv_def TTLCache_ForceCleanup_def distinct_map_filter)

lemma ForceCleanup_peek:
  assumes "ttl_inv c" "t \<le> t'"
  shows "ttl_peek kb t' (TTLCache_ForceCleanup t c) k = ttl_peek kb t' c k"
proof -
  let ?i = "ttl_shard_index kb c k"
  have "map_of (ttl_shards (TTLCache_ForceCleanup t c) ! ?i) k =
      (case map_of (ttl_shards c ! ?i) k of None \<Rightarrow> None
       | Some it \<Rightarrow> if isExpired t it then None else Some it)"
    using ttl_index_in_range [OF assms(1), of kb k]
      map_of_filter_value [OF ttl_own_distinct [OF assms(1), of kb k], of "\<lambda>it. \<not> isExpired t it" k]
    by (simp add: TTLCache_ForceCleanup_def isExpired_def split: option.splits)
  then show ?thesis
    using assms(2) by (auto simp: ttl_peek_def isExpired_def split: option.splits)
qed

section \<open>Properties\<close>

text \<open>An accepted \<open>Set\<close> with duration \<open>d\<close> is visible exactly until its deadline: later \<open>Get\<close>
  calls return the value up to and including \<open>now + d\<close> and nothing after it. The two side
  conditions exclude deadlines that do not fit an \<open>int64\<close> and the deadline 0, which the code
  reads as "never expires".\<close>

theorem ttl_set_lifetime:
  assumes "ttl_inv c" "fst (TTLCache_Set kb now k v (Some opt) c)"
    and "in_int64 (now + ttl opt)" "now + ttl opt \<noteq> 0"
  shows "fst (TTLCache_Get kb t k (snd (TTLCache_Set kb now k v (Some opt) c))) =
    (if t \<le> now + ttl opt then Some v else None)"
  using assms TTLCache_Get_laws(1) [OF TTLCache_Set_inv [OF assms(1)]]
  by (simp add: TTLCache_Set_peek [OF assms(1)] isExpired_def opts_or_default_def)

theorem ttl_set_lifetime_witness:
  "\<exists>c. ttl_inv c \<and> fst (TTLCache_Get nat_key 150 (7::nat) (snd (TTLCache_Set nat_key 100 7 (70::nat)
     (Some (WithTTL 50 Options)) c))) = Some 70"
proof -
  let ?c = "\<lparr>ttl_shards = [[], []]\<rparr> :: (nat, nat) TTLCache" and ?o = "WithTTL 50 Options"
  have i: "ttl_inv ?c" by (simp add: ttl_inv_def)
  have "fst (TTLCache_Set nat_key 100 7 70 (Some ?o) ?c)" "in_int64 (100 + ttl ?o)" "100 + ttl ?o \<noteq> 0"
    "150 \<le> 100 + ttl ?o" by code_simp+
  with ttl_set_lifetime [OF i this(1-3), of 150] i show ?thesis by auto
qed

text \<open>Along any sequence of operations whose clock does not run backwards, a value that the TTL
  cache returns for a key is the last one accepted for that key and not deleted since.\<close>

theorem ttl_get_is_current:
  assumes "NewTTLCache n = Ret c0" "sorted (t0 # map fst os)" "\<forall>o'\<in>set os. fst o' \<le> now" "t0 \<le> now"
    and "fst (TTLCache_Get kb now k
      (cache_run (TTLCache_Get kb) (TTLCache_Set kb) (TTLCache_Delete kb) os c0)) = Some v"
  shows "cache_memory (TTLCache_Get kb) (TTLCache_Set kb) (TTLCache_Delete kb) os c0 (\<lambda>_. None) k = Some v"
proof (rule ttlc.run_get [OF _ _ assms(2-5)])
  have n: "unat n < 256" "0 < unat n" and c0: "c0 = \<lparr>ttl_shards = replicate (unat n) []\<rparr>"
    using assms(1) unsigned_less [of n, where 'a = nat] by (auto simp: NewTTLCache_def unat_gt_0 split: if_splits)
  then show inv: "ttl_inv c0" by (simp add: ttl_inv_def)
  have "ttl_peek kb t c0 k = None" for t k
    using ttl_index_in_range [OF inv, of kb k] by (simp add: ttl_peek_def c0)
  then show "ttlc.coherent kb t0 c0 (\<lambda>_. None)" by (simp add: ttlc.coherent_def)
qed

theorem ttl_get_is_current_witness:
  "\<exists>c0. NewTTLCache 2 = Ret c0 \<and>
    cache_memory (TTLCache_Get nat_key) (TTLCache_Set nat_key) (TTLCache_Delete nat_key)
      [(10, OpSet (7::nat) (70::nat) (Some (WithTTL 5 Options))), (12, OpGet 8)] c0 (\<lambda>_. None) 7 = Some 70"
proof -
  let ?c = "\<lparr>ttl_shards = [[], []]\<rparr> :: (nat, nat) TTLCache"
  let ?os = "[(10, OpSet (7::nat) (70::nat) (Some (WithTTL 5 Options))), (12, OpGet 8)]"
  have n: "NewTTLCache 2 = Ret ?c" by (simp add: NewTTLCache_def) code_simp
  have "fst (TTLCache_Get nat_key 14 7
    (cache_run (TTLCache_Get nat_key) (TTLCache_Set nat_key) (TTLCache_Delete nat_key) ?os ?c)) = Some 70"
    by code_simp
  from ttl_get_is_current [OF n _ _ _ this, of 10] n show ?thesis by auto
qed

text \<open>The second critical section of \<open>Get\<close> runs on whatever state the other goroutines left.
  Started for an item that had expired, it changes no visible value of any key, so an entry that
  was refreshed in between survives. The same holds for the cleanup of the janitor, which moreover
  leaves no expired item behind.\<close>

theorem ttl_deferred_delete_and_cleanup_safe:
  assumes "ttl_inv c" "isExpired t i" "t \<le> t'"
  shows "ttl_peek kb t' (ttl_get_evict kb k i c) = ttl_peek kb t' c \<and>
    ttl_peek kb t' (TTLCache_ForceCleanup t c) = ttl_peek kb t' c \<and>
    (\<forall>s\<in>set (ttl_shards (TTLCache_ForceCleanup t c)). \<forall>ki\<in>set s. \<not> isExpired t (snd ki))"
  using ttl_get_evict_peek [OF assms] ForceCleanup_peek [OF assms(1,3)]
  by (auto simp: fun_eq_iff TTLCache_ForceCleanup_def isExpired_def)

theorem ttl_deferred_delete_and_cleanup_safe_witness:
  "\<exists>c. ttl_inv c \<and> ttl_peek nat_key 20 (ttl_get_evict nat_key (7::nat) \<lparr>item_value = 70::nat, expiresAt = 15\<rparr> c) 7
     = Some 71"
proof -
  let ?c = "snd (TTLCache_Set nat_key 18 7 71 (Some (WithTTL 5 Options))
    (\<lparr>ttl_shards = [[], []]\<rparr> :: (nat, nat) TTLCache))"
  have i: "ttl_inv ?c" by (rule TTLCache_Set_inv) (simp add: ttl_inv_def)
  have "isExpired 16 \<lparr>item_value = 70::nat, expiresAt = 15\<rparr>" by code_simp
  from ttl_deferred_delete_and_cleanup_safe [OF i this, of 20 nat_key 7]
  have "ttl_peek nat_key 20 (ttl_get_evict nat_key 7 \<lparr>item_value = 70, expiresAt = 15\<rparr> ?c) 7 =
    ttl_peek nat_key 20 ?c 7" by simp
  also have "\<dots> = Some 71" by code_simp
  finally show ?thesis using i by blast
qed

end
