(* ===== verification/Addr_Select.thy ===== *)
theory Addr_Select
  imports Go_Net "HOL-Library.Multiset" "HOL-Library.Product_Lexorder"
begin

text \<open>
  \<open>pkg/spoofdpi/internal/dns/addrselect/addrselect.go\<close>: RFC 6724 destination address selection. A
  \<open>netip.Addr\<close> is invalid, an IPv4 address of four bytes or an IPv6 address of sixteen; zones do not
  occur, since the addresses come from \<open>AddrFrom16\<close>, \<open>AddrFromSlice\<close> and DNS answers. The source
  addresses the kernel picks (\<open>srcAddrs\<close>) are an argument.
\<close>

text \<open>\<open>netip.Prefix.Contains\<close> for an IPv6 prefix: never for an address of the other family.\<close>

definition prefix_contains :: "bytes \<Rightarrow> nat \<Rightarrow> netip_addr \<Rightarrow> bool" where
  "prefix_contains p n ip =
     (case ip of Addr6 b \<Rightarrow> take n (bits_of b) = take n (bits_of p) | _ \<Rightarrow> False)"

section \<open>Policy table and scopes\<close>

record ipAttr =
  Scope :: byte
  attr_Precedence :: byte
  attr_Label :: byte

record policyTableEntry =
  Prefix :: "bytes \<times> nat"
  Precedence :: byte
  Label :: byte

definition pad16 :: "bytes \<Rightarrow> bytes" where
  "pad16 b = b @ replicate (16 - length b) 0"

definition entry :: "bytes \<Rightarrow> nat \<Rightarrow> byte \<Rightarrow> byte \<Rightarrow> policyTableEntry" where
  "entry b n p l = \<lparr>Prefix = (pad16 b, n), Precedence = p, Label = l\<rparr>"

definition rfc6724policyTable :: "policyTableEntry list" where
  "rfc6724policyTable =
     [entry [0, 0, 0, 0, 0, 0, 0, 0, 0, 0, 0, 0, 0, 0, 0, 0x01] 128 50 0,
      entry [0, 0, 0, 0, 0, 0, 0, 0, 0, 0, 0xff, 0xff] 96 35 4,
      entry [] 96 1 3,
      entry [0x20, 0x01] 32 5 5,
      entry [0x20, 0x02] 16 30 2,
      entry [0x3f, 0xfe] 16 1 12,
      entry [0xfe, 0xc0] 10 1 11,
      entry [0xfc] 7 3 13,
      entry [] 0 40 1]"

fun classify_loop :: "policyTableEntry list \<Rightarrow> netip_addr \<Rightarrow> policyTableEntry" where
  "classify_loop [] ip = \<lparr>Prefix = ([], 0), Precedence = 0, Label = 0\<rparr>"
| "classify_loop (ent # t) ip =
     (if prefix_contains (fst (Prefix ent)) (snd (Prefix ent)) ip then ent else classify_loop t ip)"

definition Classify :: "policyTableEntry list \<Rightarrow> netip_addr \<Rightarrow> policyTableEntry" where
  "Classify t ip = classify_loop t (if Is4 ip then Addr6 (As16 ip) else ip)"

definition classifyScope :: "netip_addr \<Rightarrow> byte" where
  "classifyScope ip =
     (if IsLoopback ip \<or> IsLinkLocalUnicast ip then 0x2
      else
        let ipv6 = (Is6 ip \<and> \<not> Is4In6 ip); ipv6AsBytes = As16 ip in
        if ipv6 \<and> IsMulticast ip then ipv6AsBytes ! 1 AND 0xf
        else if ipv6 \<and> ipv6AsBytes ! 0 = 0xfe \<and> ipv6AsBytes ! 1 AND 0xc0 = 0xc0 then 0x5
        else 0xe)"

definition ipAttrOf :: "netip_addr \<Rightarrow> ipAttr" where
  "ipAttrOf ip =
     (if \<not> IsValid ip then \<lparr>Scope = 0, attr_Precedence = 0, attr_Label = 0\<rparr>
      else
        let m = Classify rfc6724policyTable ip in
        \<lparr>Scope = classifyScope ip, attr_Precedence = Precedence m, attr_Label = Label m\<rparr>)"

section \<open>Common prefix\<close>

text \<open>
  The inner loop on two different bytes: shift both until they agree, counting the bits left. It
  stops after at most eight turns, when both bytes are 0.
\<close>

fun byte_loop :: "byte \<Rightarrow> byte \<Rightarrow> nat \<Rightarrow> nat" where
  "byte_loop ab bb 0 = 0"
| "byte_loop ab bb (Suc n) =
     (if drop_bit 1 ab = drop_bit 1 bb then n else byte_loop (drop_bit 1 ab) (drop_bit 1 bb) n)"

fun cpl_loop :: "bytes \<Rightarrow> bytes \<Rightarrow> nat \<Rightarrow> nat" where
  "cpl_loop (a # as) (b # bs) cpl =
     (if a = b then cpl_loop as bs (cpl + 8) else cpl + byte_loop a b 8)"
| "cpl_loop _ _ cpl = cpl"

definition commonPrefixLen :: "netip_addr \<Rightarrow> netip_addr \<Rightarrow> nat" where
  "commonPrefixLen a0 b0 =
     (let a = Unmap a0; b = Unmap b0 in
      case (a, b) of
        (Addr4 a4, Addr4 b4) \<Rightarrow> cpl_loop a4 b4 0
      | (Addr4 _, _) \<Rightarrow> 0
      | (_, Addr4 _) \<Rightarrow> 0
      | _ \<Rightarrow> cpl_loop (take 8 (As16 a)) (take 8 (As16 b)) 0)"

section \<open>Comparison and sorting\<close>

text \<open>A candidate is a destination with the source address the kernel would use for it.\<close>

type_synonym candidate = "netip_addr \<times> netip_addr"

definition Less :: "candidate \<Rightarrow> candidate \<Rightarrow> bool" where
  "Less x y =
     (let DA = fst x; DB = fst y; SourceDA = snd x; SourceDB = snd y;
          attrDA = ipAttrOf DA; attrDB = ipAttrOf DB;
          attrSourceDA = ipAttrOf SourceDA; attrSourceDB = ipAttrOf SourceDB in
      if \<not> IsValid SourceDA \<and> \<not> IsValid SourceDB then False
      else if \<not> IsValid SourceDB then True
      else if \<not> IsValid SourceDA then False
      else if Scope attrDA = Scope attrSourceDA \<and> Scope attrDB \<noteq> Scope attrSourceDB then True
      else if Scope attrDA \<noteq> Scope attrSourceDA \<and> Scope attrDB = Scope attrSourceDB then False
      else if attr_Label attrSourceDA = attr_Label attrDA \<and> attr_Label attrSourceDB \<noteq> attr_Label attrDB then True
      else if attr_Label attrSourceDA \<noteq> attr_Label attrDA \<and> attr_Label attrSourceDB = attr_Label attrDB then False
      else if attr_Precedence attrDA > attr_Precedence attrDB then True
      else if attr_Precedence attrDA < attr_Precedence attrDB then False
      else if Scope attrDA < Scope attrDB then True
      else if Scope attrDA > Scope attrDB then False
      else if \<not> Is4 DA \<and> \<not> Is4In6 DA \<and> \<not> Is4 DB \<and> \<not> Is4In6 DB then
        let commonA = commonPrefixLen SourceDA DA; commonB = commonPrefixLen SourceDB DB in
        if commonA > commonB then True else if commonA < commonB then False else False
      else False)"

text \<open>
  \<open>sort.Stable\<close> as insertion from the right: an element goes in front of the ones it is not
  greater than, so equivalent elements keep their order.
\<close>

fun insert_stable :: "('a \<Rightarrow> 'a \<Rightarrow> bool) \<Rightarrow> 'a \<Rightarrow> 'a list \<Rightarrow> 'a list" where
  "insert_stable lt x [] = [x]"
| "insert_stable lt x (y # ys) = (if lt y x then y # insert_stable lt x ys else x # y # ys)"

definition sort_Stable :: "('a \<Rightarrow> 'a \<Rightarrow> bool) \<Rightarrow> 'a list \<Rightarrow> 'a list" where
  "sort_Stable lt xs = foldr (insert_stable lt) xs []"

definition sortByRFC6724withSrcs ::
  "netip_addr list \<Rightarrow> netip_addr list \<Rightarrow> (unit, netip_addr list) outcome" where
  "sortByRFC6724withSrcs addrs srcs =
     (if length addrs \<noteq> length srcs then Panic
      else Ret (map fst (sort_Stable Less (zip addrs srcs))))"

text \<open>
  \<open>net.DialUDP\<close> to port 9 of an address (\<open>dial\<close>) fails (\<^term>\<open>None\<close>) or gives a connection with a local
  address, a \<open>UDPAddr\<close> with its \<open>IP\<close> or something else (\<^term>\<open>Some None\<close>).
\<close>

definition srcAddrs :: "(bytes \<Rightarrow> bytes option option) \<Rightarrow> netip_addr list \<Rightarrow> netip_addr list" where
  "srcAddrs dial addrs =
     map (\<lambda>addr. case dial (AsSlice addr) of
            None \<Rightarrow> InvalidAddr
          | Some None \<Rightarrow> InvalidAddr
          | Some (Some ip) \<Rightarrow> AddrFromSlice ip) addrs"

definition SortByRFC6724 ::
  "(bytes \<Rightarrow> bytes option option) \<Rightarrow> netip_addr list \<Rightarrow> (unit, netip_addr list) outcome" where
  "SortByRFC6724 dial addrs =
     (if length addrs < 2 then Ret addrs else sortByRFC6724withSrcs addrs (srcAddrs dial addrs))"

section \<open>The common prefix, bit by bit\<close>

fun lcp :: "'a list \<Rightarrow> 'a list \<Rightarrow> nat" where
  "lcp (x # xs) (y # ys) = (if x = y then Suc (lcp xs ys) else 0)"
| "lcp _ _ = 0"

lemma lcp_append: "lcp xs ys = length xs \<Longrightarrow> length xs = length ys \<Longrightarrow> lcp (xs @ us) (ys @ vs) = length xs + lcp us vs"
  by (induction xs ys rule: lcp.induct) (auto split: if_splits)

lemma lcp_same [simp]: "lcp xs xs = length xs"
  by (induction xs) auto

lemma lcp_differ: "length xs = length ys \<Longrightarrow> xs \<noteq> ys \<Longrightarrow> lcp (xs @ us) (ys @ vs) = lcp xs ys"
  by (induction xs ys rule: lcp.induct) auto

lemma length_byte_bits [simp]: "length (byte_bits b) = 8"
  by (simp add: byte_bits_def)

definition top_bits :: "nat \<Rightarrow> byte \<Rightarrow> bool list" where
  "top_bits n b = map (\<lambda>i. bit b (7 - i)) [0..<n]"

lemma top_bits_Suc: "top_bits (Suc n) b = top_bits n b @ [bit b (7 - n)]"
  by (simp add: top_bits_def)

lemma length_top_bits [simp]: "length (top_bits n b) = n"
  by (simp add: top_bits_def)

lemma top_bits_eq_iff:
  assumes "k + n = 8"
  shows "top_bits n a = top_bits n b \<longleftrightarrow> drop_bit k a = drop_bit k b"
proof
  assume e: "top_bits n a = top_bits n b"
  show "drop_bit k a = drop_bit k b"
  proof (rule bit_word_eqI)
    fix i assume "i < LENGTH(8)"
    show "bit (drop_bit k a) i = bit (drop_bit k b) i"
    proof (cases "k + i < 8")
      case True
      have "top_bits n a ! (7 - (k + i)) = top_bits n b ! (7 - (k + i))" using e by simp
      moreover have "[0..<n] ! (7 - (k + i)) = 7 - (k + i)" using True assms by (simp add: nth_upt)
      ultimately show ?thesis using True assms by (simp add: top_bits_def bit_simps)
    qed (simp add: bit_simps not_bit_byte)
  qed
next
  assume e: "drop_bit k a = drop_bit k b"
  have "bit a (7 - i) = bit b (7 - i)" if "i < n" for i
    using arg_cong [OF e, of "\<lambda>w. bit w (7 - i - k)"] that assms by (simp add: bit_simps)
  then show "top_bits n a = top_bits n b" by (simp add: top_bits_def)
qed

lemma byte_loop_top_bits:
  "k + n = 8 \<Longrightarrow> drop_bit k a \<noteq> drop_bit k b \<Longrightarrow>
    byte_loop (drop_bit k a) (drop_bit k b) n = lcp (top_bits n a) (top_bits n b)"
proof (induction n arbitrary: k)
  case (Suc n)
  then have k: "Suc k + n = 8" by simp
  have shift: "drop_bit 1 (drop_bit k w) = drop_bit (Suc k) w" for w :: byte
    by (simp add: drop_bit_drop_bit)
  have differ: "top_bits (Suc n) a \<noteq> top_bits (Suc n) b"
    using Suc.prems by (simp add: top_bits_eq_iff)
  show ?case
  proof (cases "drop_bit (Suc k) a = drop_bit (Suc k) b")
    case True
    then have "top_bits n a = top_bits n b" by (simp add: top_bits_eq_iff [OF k])
    with differ True show ?thesis
      using lcp_append [of "top_bits n a" "top_bits n b"] by (simp add: top_bits_Suc shift)
  next
    case False
    then have "top_bits n a \<noteq> top_bits n b" by (simp add: top_bits_eq_iff [OF k])
    with False Suc.IH [OF k] show ?thesis by (simp add: top_bits_Suc shift lcp_differ)
  qed
qed (auto intro: bit_word_eqI simp: bit_simps not_bit_byte)

lemma byte_bits_top: "byte_bits b = top_bits 8 b"
  by (simp add: byte_bits_def top_bits_def)

lemma byte_bits_inj [simp]: "byte_bits a = byte_bits b \<longleftrightarrow> a = b"
  using top_bits_eq_iff [of 0 8 a b] by (simp add: byte_bits_top)

lemma byte_loop_lcp: "a \<noteq> b \<Longrightarrow> byte_loop a b 8 = lcp (byte_bits a) (byte_bits b)"
  using byte_loop_top_bits [of 0 8 a b] by (simp add: byte_bits_top)

lemma bits_of_simps [simp]: "bits_of [] = []" "bits_of (b # bs) = byte_bits b @ bits_of bs"
  by (simp_all add: bits_of_def)

lemma length_bits_of [simp]: "length (bits_of bs) = 8 * length bs"
  by (induction bs) auto

lemma bits_of_inj: "length a = length b \<Longrightarrow> bits_of a = bits_of b \<longleftrightarrow> a = b"
  by (induction a b rule: list_induct2) auto

lemma take_bits_of: "take (8 * n) (bits_of bs) = bits_of (take n bs)"
  by (induction bs arbitrary: n) (auto simp: take_Cons split: nat.split)

lemma cpl_loop_lcp: "length as = length bs \<Longrightarrow> cpl_loop as bs cpl = cpl + lcp (bits_of as) (bits_of bs)"
proof (induction as bs arbitrary: cpl rule: list_induct2)
  case (Cons a as b bs)
  then show ?case
    by (cases "a = b") (simp_all add: lcp_append byte_loop_lcp lcp_differ)
qed simp

text \<open>For addresses of one family \<open>commonPrefixLen\<close> is the number of leading bits the addresses share, at most
  32 for IPv4 and at most 64 for IPv6, of which only the network half is compared. Addresses of
  different families share none.\<close>

theorem commonPrefixLen_counts_bits:
  assumes "wf_addr a" "wf_addr b"
  shows "commonPrefixLen a b =
    (case (Unmap a, Unmap b) of
       (Addr4 x, Addr4 y) \<Rightarrow> lcp (bits_of x) (bits_of y)
     | (Addr4 _, _) \<Rightarrow> 0 | (_, Addr4 _) \<Rightarrow> 0
     | (x, y) \<Rightarrow> lcp (take 64 (bits_of (As16 x))) (take 64 (bits_of (As16 y))))"
proof -
  have wf: "wf_addr (Unmap a)" "wf_addr (Unmap b)"
    using assms by (auto simp: wf_addr_def Unmap_def split: netip_addr.splits)
  have len: "length (As16 x) = 16" if "wf_addr x" for x
    using that by (auto simp: wf_addr_def As16_def mapped_prefix_def split: netip_addr.splits)
  show ?thesis
    using wf len [OF wf(1)] len [OF wf(2)] take_bits_of [of 8]
    by (auto simp: commonPrefixLen_def Let_def cpl_loop_lcp wf_addr_def split: netip_addr.splits)
qed

section \<open>The order is a ranking\<close>

text \<open>Only the entry for mapped addresses has precedence 35, so rule 9 applies to both or to neither.\<close>

lemma contains_bytes:
  "prefix_contains p (8 * n) (Addr6 b) \<longleftrightarrow> take n b = take n p" if "length b = length p"
  using that by (simp add: prefix_contains_def take_bits_of bits_of_inj)

lemma classify_mapped:
  assumes "length b = 16"
  shows "Precedence (classify_loop rfc6724policyTable (Addr6 b)) = 35 \<longleftrightarrow> take 12 b = mapped_prefix"
proof -
  have one: "prefix_contains (pad16 [0,0,0,0,0,0,0,0,0,0,0,0,0,0,0,1]) 128 (Addr6 b) \<longleftrightarrow> b = replicate 15 0 @ [1]"
    using contains_bytes [of b "pad16 [0,0,0,0,0,0,0,0,0,0,0,0,0,0,0,1]" 16] assms
    by (simp add: pad16_def numeral_eq_Suc)
  have two: "prefix_contains (pad16 [0,0,0,0,0,0,0,0,0,0,0xff,0xff]) 96 (Addr6 b) \<longleftrightarrow> take 12 b = mapped_prefix"
    using contains_bytes [of b "pad16 [0,0,0,0,0,0,0,0,0,0,0xff,0xff]" 12] assms
    by (simp add: pad16_def mapped_prefix_def numeral_eq_Suc)
  have "take 12 (replicate 15 0 @ [1]) \<noteq> mapped_prefix" by code_simp
  with one have "prefix_contains (pad16 [0,0,0,0,0,0,0,0,0,0,0,0,0,0,0,1]) 128 (Addr6 b) \<Longrightarrow> take 12 b \<noteq> mapped_prefix"
    by blast
  then show ?thesis
    by (simp add: rfc6724policyTable_def entry_def two)
qed

lemma precedence_mapped:
  assumes "wf_addr ip"
  shows "attr_Precedence (ipAttrOf ip) = 35 \<longleftrightarrow> Is4 ip \<or> Is4In6 ip"
  using assms
  by (cases ip) (auto simp: ipAttrOf_def Let_def Classify_def classify_mapped IsValid_def Is4_def Is4In6_def
    wf_addr_def As16_def mapped_prefix_def)

text \<open>What the rules of \<open>Less\<close> compare, most significant first; smaller is better.\<close>

definition rank :: "candidate \<Rightarrow> bool \<times> bool \<times> bool \<times> int \<times> byte \<times> int" where
  "rank c =
     (let d = ipAttrOf (fst c); s = ipAttrOf (snd c) in
      if \<not> IsValid (snd c) then (True, True, True, 0, 0, 0)
      else (False, Scope d \<noteq> Scope s, attr_Label d \<noteq> attr_Label s,
            - uint (attr_Precedence d), Scope d,
            if Is4 (fst c) \<or> Is4In6 (fst c) then 0 else - int (commonPrefixLen (snd c) (fst c))))"

lemma Less_rank:
  assumes "wf_addr (fst x)" "wf_addr (fst y)"
  shows "Less x y \<longleftrightarrow> rank x < rank y"
proof -
  have family: "attr_Precedence (ipAttrOf (fst x)) = attr_Precedence (ipAttrOf (fst y)) \<Longrightarrow>
      (Is4 (fst x) \<or> Is4In6 (fst x)) = (Is4 (fst y) \<or> Is4In6 (fst y))"
    using assms precedence_mapped by metis
  show ?thesis
  proof (cases "attr_Precedence (ipAttrOf (fst x)) = attr_Precedence (ipAttrOf (fst y))")
    case True
    from family [OF True] show ?thesis
      by (auto simp: Less_def rank_def Let_def True)
  next
    case False
    then consider "attr_Precedence (ipAttrOf (fst x)) < attr_Precedence (ipAttrOf (fst y))"
      | "attr_Precedence (ipAttrOf (fst y)) < attr_Precedence (ipAttrOf (fst x))" by fastforce
    then show ?thesis
      by cases (auto simp: Less_def rank_def Let_def word_less_def [symmetric] word_le_def [symmetric])
  qed
qed

lemma insert_stable_insort:
  assumes "\<And>y. y \<in> set ys \<Longrightarrow> lt y x \<longleftrightarrow> f y < f x"
  shows "insert_stable lt x ys = insort_key f x ys"
  using assms by (induction ys) (auto simp: not_less [symmetric])

lemma sort_Stable_sort_key:
  assumes "\<And>x y. x \<in> set xs \<Longrightarrow> y \<in> set xs \<Longrightarrow> lt x y \<longleftrightarrow> f x < f y"
  shows "sort_Stable lt xs = sort_key f xs"
  using assms
proof (induction xs)
  case (Cons x xs)
  then have "sort_Stable lt xs = sort_key f xs" by simp
  moreover have "insert_stable lt x (sort_key f xs) = insort_key f x (sort_key f xs)"
    by (rule insert_stable_insort) (simp add: Cons.prems)
  ultimately show ?case by (simp add: sort_Stable_def)
qed (simp add: sort_Stable_def)

lemma filter_sort_key: "filter (\<lambda>x. f x = k) (sort_key f xs) = filter (\<lambda>x. f x = k) xs"
  by (metis sort_key_stable)

text \<open>Sorting by RFC 6724 reorders the candidate pairs, puts no candidate after one that \<open>Less\<close> prefers it to,
  and leaves candidates neither of which is preferred in the order the resolver gave them.\<close>

theorem sort_is_stable_ranking:
  assumes "length addrs = length srcs" "\<forall>a \<in> set addrs. wf_addr a"
  shows "\<exists>cs. sortByRFC6724withSrcs addrs srcs = Ret (map fst cs) \<and> mset cs = mset (zip addrs srcs) \<and>
     sorted_wrt (\<lambda>x y. \<not> Less y x) cs \<and>
     (\<forall>c. fst c \<in> set addrs \<longrightarrow>
        filter (\<lambda>x. \<not> Less x c \<and> \<not> Less c x) cs = filter (\<lambda>x. \<not> Less x c \<and> \<not> Less c x) (zip addrs srcs))"
proof -
  let ?z = "zip addrs srcs"
  have wf: "wf_addr (fst c)" if "c \<in> set ?z" for c
    using that assms(2) set_zip_leftD [of "fst c" "snd c" addrs srcs] by simp
  have sort: "sort_Stable Less ?z = sort_key rank ?z"
    by (rule sort_Stable_sort_key) (simp add: Less_rank wf)
  have "sorted_wrt (\<lambda>x y. \<not> Less y x) (sort_key rank ?z)"
  proof (rule sorted_wrt_mono_rel [of _ "\<lambda>x y. rank x \<le> rank y"])
    show "sorted_wrt (\<lambda>x y. rank x \<le> rank y) (sort_key rank ?z)"
      using sorted_sort_key [of rank ?z] by (simp add: sorted_wrt_map)
  qed (simp add: Less_rank wf not_less)
  moreover have "filter (\<lambda>x. \<not> Less x c \<and> \<not> Less c x) (sort_key rank ?z) = filter (\<lambda>x. \<not> Less x c \<and> \<not> Less c x) ?z"
    if "fst c \<in> set addrs" for c
  proof -
    have eq: "(\<not> Less x c \<and> \<not> Less c x) = (rank x = rank c)" if "x \<in> set ?z" for x
      using that assms(2) \<open>fst c \<in> set addrs\<close> by (auto simp: Less_rank wf)
    have "filter (\<lambda>x. \<not> Less x c \<and> \<not> Less c x) (sort_key rank ?z) = filter (\<lambda>x. rank x = rank c) (sort_key rank ?z)"
      by (rule filter_cong) (simp_all add: eq)
    also have "\<dots> = filter (\<lambda>x. rank x = rank c) ?z" by (rule filter_sort_key)
    also have "\<dots> = filter (\<lambda>x. \<not> Less x c \<and> \<not> Less c x) ?z"
      by (rule filter_cong) (simp_all add: eq)
    finally show ?thesis .
  qed
  ultimately show ?thesis
    using assms(1) by (intro exI [of _ "sort_key rank ?z"]) (simp add: sortByRFC6724withSrcs_def sort)
qed

text \<open>
  With the sources the kernel picks, the sort never panics and returns the resolver's addresses in
  some order, the ones without a route last.
\<close>

lemma length_srcAddrs [simp]: "length (srcAddrs dial addrs) = length addrs"
  by (simp add: srcAddrs_def)

lemma SortByRFC6724_permutes:
  assumes "\<forall>a \<in> set addrs. wf_addr a"
  shows "\<exists>rs. SortByRFC6724 dial addrs = Ret rs \<and> mset rs = mset addrs"
proof (cases "length addrs < 2")
  case False
  obtain cs where "sortByRFC6724withSrcs addrs (srcAddrs dial addrs) = Ret (map fst cs)"
      and "mset cs = mset (zip addrs (srcAddrs dial addrs))"
    using sort_Stable_sort_key [of "zip addrs (srcAddrs dial addrs)" Less rank] assms
    by (fastforce simp: sortByRFC6724withSrcs_def Less_rank dest!: set_zip_leftD)
  moreover from this have "mset (map fst cs) = mset (map fst (zip addrs (srcAddrs dial addrs)))"
    by (simp only: mset_map)
  then have "mset (map fst cs) = mset addrs" by (simp only: map_fst_zip length_srcAddrs)
  ultimately show ?thesis using False by (auto simp: SortByRFC6724_def)
qed (simp add: SortByRFC6724_def)

text \<open>The table is ordered by prefix length, so the first match is the longest.\<close>

lemma Classify_longest:
  assumes "sorted_wrt (\<lambda>e e'. snd (Prefix e) \<ge> snd (Prefix e')) t" "e \<in> set t"
    and "prefix_contains (fst (Prefix e)) (snd (Prefix e)) ip"
  shows "snd (Prefix e) \<le> snd (Prefix (classify_loop t ip))"
  using assms by (induction t) auto

lemma policyTable_sorted: "sorted_wrt (\<lambda>e e'. snd (Prefix e) \<ge> snd (Prefix e')) rfc6724policyTable"
  by (simp add: rfc6724policyTable_def entry_def)

section \<open>Witnesses\<close>

text \<open>\<open>1.2.3.4\<close> and \<open>1.2.3.5\<close> share 31 bits; \<open>2001:db8::1\<close> has no route and goes behind them.\<close>

definition addr_a :: netip_addr where "addr_a = Addr4 [1, 2, 3, 4]"
definition addr_b :: netip_addr where "addr_b = Addr4 [1, 2, 3, 5]"
definition addr_c :: netip_addr where "addr_c = Addr6 ([0x20, 0x01, 0x0d, 0xb8] @ replicate 11 0 @ [1])"

theorem commonPrefixLen_counts_bits_witness:
  "wf_addr addr_a \<and> wf_addr addr_b \<and> commonPrefixLen addr_a addr_b = 31 \<and>
   commonPrefixLen addr_a addr_b = lcp (bits_of [1, 2, 3, 4]) (bits_of [1, 2, 3, 5])"
proof -
  have wf: "wf_addr addr_a" "wf_addr addr_b" by code_simp+
  have u: "Unmap addr_a = Addr4 [1, 2, 3, 4]" "Unmap addr_b = Addr4 [1, 2, 3, 5]" by code_simp+
  have "commonPrefixLen addr_a addr_b = 31" by code_simp
  with wf commonPrefixLen_counts_bits [OF wf] show ?thesis by (simp add: u)
qed

theorem sort_is_stable_ranking_witness:
  "sortByRFC6724withSrcs [addr_c, addr_b, addr_a] [InvalidAddr, addr_a, addr_a] = Ret [addr_b, addr_a, addr_c] \<and>
   (\<exists>cs. Ret [addr_b, addr_a, addr_c] = (Ret (map fst cs) :: (unit, netip_addr list) outcome) \<and>
      sorted_wrt (\<lambda>x y. \<not> Less y x) cs)"
proof -
  have "length [addr_c, addr_b, addr_a] = length [InvalidAddr, addr_a, addr_a]" by simp
  moreover have "\<forall>a \<in> set [addr_c, addr_b, addr_a]. wf_addr a" by code_simp
  moreover have r: "sortByRFC6724withSrcs [addr_c, addr_b, addr_a] [InvalidAddr, addr_a, addr_a] = Ret [addr_b, addr_a, addr_c]"
    by code_simp
  ultimately obtain cs where "Ret [addr_b, addr_a, addr_c] = (Ret (map fst cs) :: (unit, netip_addr list) outcome)"
      and "sorted_wrt (\<lambda>x y. \<not> Less y x) cs"
    using sort_is_stable_ranking [of "[addr_c, addr_b, addr_a]" "[InvalidAddr, addr_a, addr_a]"]
    unfolding r by metis
  with r show ?thesis by (intro conjI exI [of _ cs])
qed

end
