(* ===== verification/Dns_Client.thy ===== *)
theory Dns_Client
  imports Config_Types Ttl_Cache Addr_Select
begin

text \<open>
  \<open>pkg/spoofdpi/internal/dns\<close>: the resolver of the proxy. What comes from outside is an argument: the exchange with an
  upstream server, the order in which the answers to the parallel queries arrive, whether the context ends first, the
  system resolver, the source addresses the kernel would pick and the clock. A DNS message is its response code and its
  answer section; of a record only the address, if it is an A or AAAA record, and the TTL matter.
\<close>

section \<open>Messages and queries\<close>

definition TypeA :: u16 where "TypeA = 1"
definition TypeAAAA :: u16 where "TypeAAAA = 28"

datatype dns_RR = RR_A bytes u32 | RR_AAAA bytes u32 | RR_other u32

record dns_Msg =
  Rcode :: nat
  Answer :: "dns_RR list"

datatype dns_error =
    ExchangeError string
  | LookupFailed string string dns_error
  | StatusCode int
  | BadRcode nat
  | UnpackError
  | CtxError
  | JoinedErrors "dns_error list"
  | RecordNotFound

record msgChan =
  mc_msg :: "dns_Msg option"
  mc_err :: "dns_error option"

definition parseQueryTypes :: "DNSQueryType \<Rightarrow> u16 list" where
  "parseQueryTypes qtype =
     (case qtype of
        DNSQueryIPv4 \<Rightarrow> [TypeA]
      | DNSQueryIPv6 \<Rightarrow> [TypeAAAA]
      | DNSQueryAll \<Rightarrow> [TypeA, TypeAAAA])"

definition recordTypeIDToName :: "u16 \<Rightarrow> string" where
  "recordTypeIDToName i = (if i = TypeA then ''A'' else if i = TypeAAAA then ''AAAA'' else itoa (unat i))"

text \<open>An exchange sends one question, a name and a type, to an upstream server.\<close>

type_synonym exchangeFunc = "string \<times> u16 \<Rightarrow> string \<Rightarrow> dns_error + dns_Msg option"

definition lookupType :: "(string \<Rightarrow> string) \<Rightarrow> exchangeFunc \<Rightarrow> string \<Rightarrow> string \<Rightarrow> u16 \<Rightarrow> msgChan" where
  "lookupType fqdn exchange domain upstream queryType =
     (case exchange (fqdn domain, queryType) upstream of
        Inl e \<Rightarrow> \<lparr>mc_msg = None, mc_err = Some (LookupFailed domain (recordTypeIDToName queryType) e)\<rparr>
      | Inr m \<Rightarrow> \<lparr>mc_msg = m, mc_err = None\<rparr>)"

text \<open>What the consumer of the result channel sees, in order; the end of the list is the closed channel.\<close>

datatype dns_event = CtxDone | Arrived msgChan

definition lookupAllTypes ::
  "(string \<Rightarrow> string) \<Rightarrow> exchangeFunc \<Rightarrow> string \<Rightarrow> string \<Rightarrow> u16 list \<Rightarrow> dns_event list" where
  "lookupAllTypes fqdn exchange domain upstream arrival =
     map (\<lambda>q. Arrived (lookupType fqdn exchange domain upstream q)) arrival"

section \<open>Answers\<close>

definition MaxUint32 :: u32 where "MaxUint32 = 0xffffffff"

definition rr_addr :: "dns_RR \<Rightarrow> (netip_addr \<times> u32) option" where
  "rr_addr r =
     (case r of
        RR_A b t \<Rightarrow> if IsValid (AddrFromSlice b) then Some (AddrFromSlice b, t) else None
      | RR_AAAA b t \<Rightarrow> if IsValid (AddrFromSlice b) then Some (AddrFromSlice b, t) else None
      | RR_other _ \<Rightarrow> None)"

fun parse_records :: "dns_RR list \<Rightarrow> netip_addr list \<Rightarrow> u32 \<Rightarrow> bool \<Rightarrow> netip_addr list \<times> u32 \<times> bool" where
  "parse_records [] addrs minTTL ok = (addrs, minTTL, ok)"
| "parse_records (r # rs) addrs minTTL ok =
     (case rr_addr r of
        Some (a, t) \<Rightarrow> parse_records rs (addrs @ [a]) (min minTTL t) True
      | None \<Rightarrow> parse_records rs addrs minTTL ok)"

definition parseMsg :: "dns_Msg \<Rightarrow> netip_addr list \<times> u32 \<times> bool" where
  "parseMsg m = parse_records (Answer m) [] MaxUint32 False"

fun collect_results ::
  "dns_event list \<Rightarrow> dns_error list \<Rightarrow> netip_addr list \<Rightarrow> u32 \<Rightarrow>
   dns_error + (dns_error list \<times> netip_addr list \<times> u32)" where
  "collect_results [] errs addrs minTTL = Inr (errs, addrs, minTTL)"
| "collect_results (CtxDone # es) errs addrs minTTL = Inl CtxError"
| "collect_results (Arrived r # es) errs addrs minTTL =
     (case mc_err r of
        Some e \<Rightarrow> collect_results es (errs @ [e]) addrs minTTL
      | None \<Rightarrow>
          (case mc_msg r of
             None \<Rightarrow> collect_results es errs addrs minTTL
           | Some m \<Rightarrow>
               (case parseMsg m of (as, t, ok) \<Rightarrow>
                  if ok then collect_results es errs (addrs @ as) (min minTTL t)
                  else collect_results es errs addrs minTTL)))"

definition processMessages ::
  "(bytes \<Rightarrow> bytes option option) \<Rightarrow> dns_event list \<Rightarrow> (dns_error, netip_addr list \<times> u32) outcome" where
  "processMessages dial es =
     (case collect_results es [] [] MaxUint32 of
        Inl e \<Rightarrow> Fail e
      | Inr (errs, addrs, minTTL) \<Rightarrow>
          if addrs \<noteq> [] then
            (case SortByRFC6724 dial addrs of
               Ret as \<Rightarrow> Ret (as, minTTL) | Fail _ \<Rightarrow> Panic | Panic \<Rightarrow> Panic)
          else if errs \<noteq> [] then Fail (JoinedErrors errs)
          else Fail RecordNotFound)"

section \<open>Backends\<close>

text \<open>The body shared by the HTTPS and the UDP resolver.\<close>

definition wire_resolve ::
  "(bytes \<Rightarrow> bytes option option) \<Rightarrow> (string \<Rightarrow> string) \<Rightarrow> exchangeFunc \<Rightarrow> (u16 list \<Rightarrow> u16 list) \<Rightarrow>
   string \<Rightarrow> string \<Rightarrow> u16 list \<Rightarrow> (dns_error, netip_addr list \<times> u32) outcome" where
  "wire_resolve dial fqdn exchange order server domain qTypes =
     processMessages dial (lookupAllTypes fqdn exchange domain server (order qTypes))"

text \<open>
  The DNS-over-HTTPS exchange. Packing the question, posting it (the \<open>n\<close>-th attempt, which may fail to build a request at all), reading the body and unpacking a
  message belong to other packages. A transport error is a text, as \<open>isRetryableError\<close> reads it.
\<close>

datatype http_result = BuildError string | TransportError string | HttpResponse int "bytes option"

definition contains :: "string \<Rightarrow> string \<Rightarrow> bool" where
  "contains s sub = list_ex (\<lambda>i. has_prefix (drop i s) sub) [0..<Suc (length s)]"

definition isRetryableError :: "string \<Rightarrow> bool" where
  "isRetryableError msg =
     (contains msg ''unexpected EOF'' \<or> contains msg ''connection reset'' \<or> contains msg ''broken pipe'')"

fun doh_attempts :: "nat \<Rightarrow> nat \<Rightarrow> (nat \<Rightarrow> http_result) \<Rightarrow> http_result" where
  "doh_attempts 0 i post = TransportError ''''"
| "doh_attempts (Suc n) i post =
     (case post i of
        BuildError e \<Rightarrow> BuildError e
      | HttpResponse c b \<Rightarrow> HttpResponse c b
      | TransportError e \<Rightarrow>
          if n = 0 then TransportError e
          else if isRetryableError e then doh_attempts n (i + 1) post
          else doh_attempts n (i + 1) post)"

definition https_exchange ::
  "(string \<times> u16 \<Rightarrow> string + bytes) \<Rightarrow> (nat \<Rightarrow> bytes \<Rightarrow> string \<Rightarrow> http_result) \<Rightarrow> (bytes \<Rightarrow> dns_Msg option) \<Rightarrow>
   string \<times> u16 \<Rightarrow> string \<Rightarrow> dns_error + dns_Msg option" where
  "https_exchange pack post unpack q upstream =
     (case pack q of
        Inl e \<Rightarrow> Inl (ExchangeError e)
      | Inr p \<Rightarrow>
          (case doh_attempts 2 0 (\<lambda>i. post i p upstream) of
             BuildError e \<Rightarrow> Inl (ExchangeError e)
           | TransportError e \<Rightarrow> Inl (ExchangeError e)
           | HttpResponse code body \<Rightarrow>
               (case body of
                  None \<Rightarrow> Inl (ExchangeError ''read'')
                | Some b \<Rightarrow>
                    if code \<noteq> 200 then Inl (StatusCode code)
                    else case unpack b of
                      None \<Rightarrow> Inl UnpackError
                    | Some m \<Rightarrow> if Rcode m \<noteq> 0 \<and> Rcode m \<noteq> 3 then Inl (BadRcode (Rcode m)) else Inr (Some m))))"

fun filter_ips :: "bool \<Rightarrow> bool \<Rightarrow> net_IP list \<Rightarrow> string set \<Rightarrow> netip_addr list" where
  "filter_ips wantsA wantsAAAA [] seen = []"
| "filter_ips wantsA wantsAAAA (ip # ips) seen =
     (let addrStr = IP_String ip in
      if addrStr \<in> seen then filter_ips wantsA wantsAAAA ips seen
      else case To4 ip of
        Some ip4 \<Rightarrow>
          if wantsA \<and> IsValid (AddrFromSlice ip4)
          then AddrFromSlice ip4 # filter_ips wantsA wantsAAAA ips (insert addrStr seen)
          else filter_ips wantsA wantsAAAA ips seen
      | None \<Rightarrow>
          if wantsAAAA \<and> IsValid (AddrFromSlice ip)
          then AddrFromSlice ip # filter_ips wantsA wantsAAAA ips (insert addrStr seen)
          else filter_ips wantsA wantsAAAA ips seen)"

definition filtterAddrs :: "net_IP list \<Rightarrow> u16 list \<Rightarrow> netip_addr list" where
  "filtterAddrs ips qTypes =
     (let wantsA = (TypeA \<in> set qTypes); wantsAAAA = (TypeAAAA \<in> set qTypes) in
      if \<not> wantsA \<and> \<not> wantsAAAA then [] else filter_ips wantsA wantsAAAA ips {})"

definition system_resolve ::
  "(string \<Rightarrow> dns_error + net_IP list) \<Rightarrow> string \<Rightarrow> string \<Rightarrow> u16 list \<Rightarrow> (dns_error, netip_addr list \<times> u32) outcome" where
  "system_resolve LookupIP server domain qTypes =
     (case LookupIP domain of Inl e \<Rightarrow> Fail e | Inr ips \<Rightarrow> Ret (filtterAddrs ips qTypes, 0))"

section \<open>The client\<close>

definition TCPAddr_String :: "TCPAddr \<Rightarrow> string" where
  "TCPAddr_String a =
     JoinHostPort (case tcp_IP a of None \<Rightarrow> '''' | Some ip \<Rightarrow> if ip = [] then '''' else IP_String ip) (Itoa (tcp_Port a))"

definition serverFor :: "RuntimeConfig \<Rightarrow> string" where
  "serverFor cfg =
     (case dns_Mode (cfg_DNS cfg) of
        DNSModeHTTPS \<Rightarrow>
          (let upstream = HTTPSURL (cfg_DNS cfg) in
           if has_prefix upstream ''https://'' then upstream else ''https://'' @ upstream @ ''/dns-query'')
      | DNSModeUDP \<Rightarrow> TCPAddr_String (dns_Addr (cfg_DNS cfg))
      | DNSModeSystem \<Rightarrow> '''')"

type_synonym resolver = "string \<Rightarrow> string \<Rightarrow> u16 list \<Rightarrow> (dns_error, netip_addr list \<times> u32) outcome"

record resolvers =
  res_https :: resolver
  res_udp :: resolver
  res_system :: resolver

definition pick :: "resolvers \<Rightarrow> DNSModeType \<Rightarrow> resolver" where
  "pick c m = (case m of DNSModeHTTPS \<Rightarrow> res_https c | DNSModeUDP \<Rightarrow> res_udp c | DNSModeSystem \<Rightarrow> res_system c)"

type_synonym dns_cache = "(string, netip_addr list) TTLCache"

definition NewClient_cache :: "(unit, dns_cache) outcome" where
  "NewClient_cache = NewTTLCache 64"

definition effective_cfg :: "RuntimeConfig \<Rightarrow> Rule option \<Rightarrow> RuntimeConfig" where
  "effective_cfg cfg rule = (case rule of None \<Rightarrow> cfg | Some r \<Rightarrow> rule_Config r)"

definition useCache :: "RuntimeConfig \<Rightarrow> bool" where
  "useCache cfg \<longleftrightarrow> dns_Cache (cfg_DNS cfg) \<and> dns_Mode (cfg_DNS cfg) \<noteq> DNSModeSystem"

definition cached_answer :: "int \<Rightarrow> RuntimeConfig \<Rightarrow> string \<Rightarrow> dns_cache \<Rightarrow> netip_addr list option \<times> dns_cache" where
  "cached_answer now cfg domain cache =
     (if useCache cfg then TTLCache_Get bytes_of now domain cache else (None, cache))"

definition backend_answer ::
  "resolvers \<Rightarrow> RuntimeConfig \<Rightarrow> string \<Rightarrow> (dns_error, netip_addr list \<times> u32) outcome" where
  "backend_answer rs cfg domain =
     pick rs (dns_Mode (cfg_DNS cfg)) (serverFor cfg) domain (parseQueryTypes (QType (cfg_DNS cfg)))"

definition store_answer :: "int \<Rightarrow> RuntimeConfig \<Rightarrow> string \<Rightarrow> netip_addr list \<Rightarrow> u32 \<Rightarrow> dns_cache \<Rightarrow> dns_cache" where
  "store_answer now cfg domain addrs t cache =
     (if useCache cfg
      then snd (TTLCache_Set bytes_of now domain addrs (Some (WithTTL (int (unat t) * 1000000000) Options)) cache)
      else cache)"

text \<open>The lookup is made at one instant: the cache is read and written at the same clock value.\<close>

definition Resolve ::
  "resolvers \<Rightarrow> int \<Rightarrow> RuntimeConfig \<Rightarrow> Rule option \<Rightarrow> string \<Rightarrow> dns_cache \<Rightarrow>
   (dns_error, netip_addr list) outcome \<times> dns_cache" where
  "Resolve rs now cfg0 rule domain cache =
     (let cfg = effective_cfg cfg0 rule in
      case ParseAddr domain of
        Some (ip, _) \<Rightarrow> (Ret [ip], cache)
      | None \<Rightarrow>
          (case cached_answer now cfg domain cache of
             (Some addrs, cache) \<Rightarrow> (Ret addrs, cache)
           | (None, cache) \<Rightarrow>
               (case backend_answer rs cfg domain of
                  Fail e \<Rightarrow> (Fail e, cache)
                | Panic \<Rightarrow> (Panic, cache)
                | Ret (addrs, t) \<Rightarrow> (Ret addrs, store_answer now cfg domain addrs t cache))))"

section \<open>What the answers say\<close>

definition msg_answers :: "dns_Msg \<Rightarrow> (netip_addr \<times> u32) list" where
  "msg_answers m = List.map_filter rr_addr (Answer m)"

definition event_answers :: "dns_event \<Rightarrow> (netip_addr \<times> u32) list" where
  "event_answers e =
     (case e of CtxDone \<Rightarrow> [] | Arrived r \<Rightarrow> if mc_err r \<noteq> None then [] else (case mc_msg r of None \<Rightarrow> [] | Some m \<Rightarrow> msg_answers m))"

definition event_errors :: "dns_event \<Rightarrow> dns_error list" where
  "event_errors e = (case e of CtxDone \<Rightarrow> [] | Arrived r \<Rightarrow> (case mc_err r of None \<Rightarrow> [] | Some x \<Rightarrow> [x]))"

lemma event_simps:
  "mc_err r = None \<Longrightarrow> event_answers (Arrived r) = (case mc_msg r of None \<Rightarrow> [] | Some m \<Rightarrow> msg_answers m)"
  "mc_err r = Some x \<Longrightarrow> event_answers (Arrived r) = []"
  "mc_err r = None \<Longrightarrow> event_errors (Arrived r) = []"
  "mc_err r = Some x \<Longrightarrow> event_errors (Arrived r) = [x]"
  by (simp_all add: event_answers_def event_errors_def)

lemma parse_records_eq:
  "parse_records rs addrs t ok =
     (addrs @ map fst (List.map_filter rr_addr rs), foldl min t (map snd (List.map_filter rr_addr rs)),
      ok \<or> List.map_filter rr_addr rs \<noteq> [])"
  by (induction rs arbitrary: addrs t ok) (auto simp: List.map_filter_simps split: option.splits)

lemma foldl_min_assoc: "foldl min (min a t) xs = min a (foldl min (t :: 'a :: linorder) xs)"
  by (induction xs arbitrary: t) (simp_all add: min.assoc)

lemma MaxUint32_top [simp]: "min MaxUint32 t = t" "min t MaxUint32 = t"
proof -
  have "MaxUint32 = - 1" by (simp add: MaxUint32_def)
  then have "t \<le> MaxUint32" by (metis word_n1_ge)
  then show "min MaxUint32 t = t" "min t MaxUint32 = t" by (simp_all add: min_def)
qed

lemma collect_results_eq:
  "CtxDone \<notin> set es \<Longrightarrow> collect_results es errs addrs t =
     Inr (errs @ concat (map event_errors es), addrs @ map fst (concat (map event_answers es)),
          foldl min t (map snd (concat (map event_answers es))))"
proof (induction es arbitrary: errs addrs t)
  case (Cons e es)
  then obtain r where e: "e = Arrived r" by (cases e) auto
  show ?case
  proof (cases "mc_err r")
    case None
    show ?thesis
    proof (cases "mc_msg r")
      case (Some m)
      let ?l = "map snd (msg_answers m)"
      have "min t (foldl min MaxUint32 ?l) = foldl min t ?l" using foldl_min_assoc [of t MaxUint32 ?l] by simp
      with Cons e None Some show ?thesis
        by (auto simp: event_simps parseMsg_def parse_records_eq msg_answers_def)
    qed (use Cons e None in \<open>simp add: event_simps\<close>)
  qed (use Cons e in \<open>simp add: event_simps\<close>)
qed simp

lemma foldl_min_Min: "xs \<noteq> [] \<Longrightarrow> foldl min MaxUint32 xs = Min (set xs)"
proof (induction xs rule: rev_induct)
  case (snoc x xs)
  then show ?case by (cases "xs = []") (simp_all add: min.commute)
qed simp

lemma rr_addr_wf: "rr_addr r = Some (a, t) \<Longrightarrow> wf_addr a"
  by (auto simp: rr_addr_def wf_addr_def AddrFromSlice_def IsValid_def split: dns_RR.splits if_splits netip_addr.splits)

lemma answers_wf: "(a, t) \<in> set (concat (map event_answers es)) \<Longrightarrow> wf_addr a"
  by (auto simp: event_answers_def msg_answers_def List.map_filter_def dest: rr_addr_wf
      split: dns_event.splits if_splits option.splits)

text \<open>A lookup over the wire uses every address it was given. As long as the context does not end, the result consists of
  exactly the addresses of all A and AAAA records of all answers that arrived, in RFC 6724 order, with the smallest of
  their TTLs; a failed query of one type does not spoil the answer to the other; only when no address arrived is the
  result an error, the joined errors of the failed queries if there were any.
\<close>

theorem processMessages_complete:
  assumes "CtxDone \<notin> set es"
  shows "let ans = concat (map event_answers es); errs = concat (map event_errors es) in
    if ans \<noteq> [] then \<exists>as. processMessages dial es = Ret (as, Min (snd ` set ans)) \<and> mset as = mset (map fst ans)
    else processMessages dial es = Fail (if errs \<noteq> [] then JoinedErrors errs else RecordNotFound)"
proof -
  let ?ans = "concat (map event_answers es)"
  have c: "collect_results es [] [] MaxUint32 =
      Inr (concat (map event_errors es), map fst ?ans, foldl min MaxUint32 (map snd ?ans))"
    using collect_results_eq [OF assms, of "[]" "[]" MaxUint32] by (simp only: append_Nil)
  show ?thesis
  proof (cases "?ans = []")
    case True
    have "processMessages dial es = Fail (if concat (map event_errors es) \<noteq> [] then JoinedErrors (concat (map event_errors es)) else RecordNotFound)"
      unfolding processMessages_def c True by (simp add: image_def)
    with True show ?thesis by (simp only: Let_def if_False if_True simp_thms)
  next
    case False
    have "\<forall>a \<in> set (map fst ?ans). wf_addr a" using answers_wf by fastforce
    then obtain as where as: "SortByRFC6724 dial (map fst ?ans) = Ret as" "mset as = mset (map fst ?ans)"
      using SortByRFC6724_permutes by blast
    have "foldl min MaxUint32 (map snd ?ans) = Min (snd ` set ?ans)"
      using foldl_min_Min [of "map snd ?ans"] False by (simp only: map_is_Nil_conv set_map not_False_eq_True)
    then have "processMessages dial es = Ret (as, Min (snd ` set ?ans))"
      unfolding processMessages_def c using False as(1) by simp
    with False as(2) show ?thesis unfolding Let_def by auto
  qed
qed

definition sample_events :: "dns_event list" where
  "sample_events =
     [Arrived \<lparr>mc_msg = None, mc_err = Some RecordNotFound\<rparr>,
      Arrived \<lparr>mc_msg = Some \<lparr>Rcode = 0, Answer = [RR_other 5, RR_A [1, 2, 3, 4] 300, RR_A [5, 6, 7, 8] 60]\<rparr>, mc_err = None\<rparr>]"

theorem processMessages_complete_witness:
  "\<exists>as. processMessages (\<lambda>_. None) sample_events = Ret (as, 60) \<and> mset as = {#Addr4 [1, 2, 3, 4], Addr4 [5, 6, 7, 8]#}"
proof -
  have ans: "concat (map event_answers sample_events) = [(Addr4 [1, 2, 3, 4], 300), (Addr4 [5, 6, 7, 8], 60)]" by code_simp
  have "CtxDone \<notin> set sample_events" by (simp add: sample_events_def)
  from processMessages_complete [OF this, of "\<lambda>_. None"] show ?thesis
    unfolding ans Let_def by (simp add: min_def)
qed

section \<open>The cache of answers\<close>

text \<open>
  A run of the client: calls of \<open>Resolve\<close> with their clock values, and the log of the lookups that reached a backend, as
  (time, domain, addresses, TTL in seconds).
\<close>

type_synonym lookup_log = "(int \<times> string \<times> netip_addr list \<times> nat) list"

inductive client_run :: "RuntimeConfig \<Rightarrow> int \<Rightarrow> dns_cache \<Rightarrow> lookup_log \<Rightarrow> bool" for cfg where
  client_new: "NewClient_cache = Ret c \<Longrightarrow> client_run cfg t c []"
| client_resolve: "client_run cfg t c log \<Longrightarrow> t \<le> now \<Longrightarrow> 0 < now \<Longrightarrow> now < 2 ^ 62 \<Longrightarrow>
    client_run cfg now (snd (Resolve rs now cfg rule domain c))
      (log @ (case backend_answer rs (effective_cfg cfg rule) domain of Ret (as, s) \<Rightarrow> [(now, domain, as, unat s)] | _ \<Rightarrow> []))"
| client_cleanup: "client_run cfg t c log \<Longrightarrow> t \<le> now \<Longrightarrow> client_run cfg now (TTLCache_ForceCleanup now c) log"

text \<open>Every cached answer is a logged one whose time has not run out.\<close>

definition log_ok :: "int \<Rightarrow> dns_cache \<Rightarrow> lookup_log \<Rightarrow> bool" where
  "log_ok t c log \<longleftrightarrow> ttl_inv c \<and>
     (\<forall>t' domain as. t \<le> t' \<longrightarrow> ttl_peek bytes_of t' c domain = Some as \<longrightarrow>
        (\<exists>t0 s. (t0, domain, as, s) \<in> set log \<and> t' \<le> t0 + int s * 1000000000))"

lemma log_ok_mono: "log_ok t c log \<Longrightarrow> t \<le> u \<Longrightarrow> set log \<subseteq> set log' \<Longrightarrow> log_ok u c log'"
  unfolding log_ok_def by (meson order_trans subsetD)

lemma log_ok_get: "log_ok t c log \<Longrightarrow> log_ok t (snd (TTLCache_Get bytes_of t k c)) log"
  by (simp add: log_ok_def TTLCache_Get_laws)

lemma log_ok_set:
  assumes ok: "log_ok t c log" and t: "0 < t" "t < 2 ^ 62"
  shows "log_ok t (snd (TTLCache_Set bytes_of t k as (Some (WithTTL (int (unat (s :: u32)) * 1000000000) Options)) c))
    (log @ [(t, k, as, unat s)])"
proof -
  let ?o = "Some (WithTTL (int (unat s) * 1000000000) Options)"
  from ok have inv: "ttl_inv c" by (simp add: log_ok_def)
  have "uint s < 2 ^ LENGTH(32)" by (rule unsigned_less)
  then have s: "uint s < 4294967296" by simp
  have pos: "0 \<le> uint s" by simp
  have w: "wrap64 (t + uint s * 1000000000) = t + uint s * 1000000000"
  proof (rule wrap64_id)
    have "t < 4611686018427387904" using t by simp
    then have "0 \<le> t + uint s * 1000000000" "t + uint s * 1000000000 < 9223372036854775808" using s t(1) pos by linarith+
    then show "in_int64 (t + uint s * 1000000000)" by (simp add: in_int64_def)
  qed
  have "\<exists>t0 s'. (t0, k', as', s') \<in> set (log @ [(t, k, as, unat s)]) \<and> t' \<le> t0 + int s' * 1000000000"
    if "t \<le> t'" "ttl_peek bytes_of t' (snd (TTLCache_Set bytes_of t k as ?o c)) k' = Some as'" for t' k' as'
  proof (cases "k' = k \<and> fst (TTLCache_Set bytes_of t k as ?o c)")
    case True
    have "t + uint s * 1000000000 \<noteq> 0" using t(1) pos by linarith
    with True that(2) have "as' = as" "t' \<le> t + int (unat s) * 1000000000"
      by (auto simp: TTLCache_Set_peek [OF inv] opts_or_default_def WithTTL_def isExpired_def w split: if_splits)
    with True show ?thesis by (intro exI [of _ t] exI [of _ "unat s"]) auto
  next
    case False
    with that(2) have "ttl_peek bytes_of t' c k' = Some as'" by (auto simp: TTLCache_Set_peek [OF inv] split: if_splits)
    with ok that(1) show ?thesis by (fastforce simp: log_ok_def)
  qed
  then show ?thesis using TTLCache_Set_inv [OF inv] by (auto simp: log_ok_def)
qed

lemma log_ok_cached: "log_ok now c log \<Longrightarrow> log_ok now (snd (cached_answer now cfg domain c)) log"
  by (simp add: cached_answer_def log_ok_get)

lemma log_ok_store:
  "log_ok now c log \<Longrightarrow> 0 < now \<Longrightarrow> now < 2 ^ 62 \<Longrightarrow>
   log_ok now (store_answer now cfg domain as s c) (log @ [(now, domain, as, unat s)])"
  unfolding store_answer_def by (cases "useCache cfg", simp_all only: if_True if_False log_ok_set)
    (rule log_ok_mono, auto)

lemma log_ok_resolve:
  assumes ok: "log_ok now c log" and now: "0 < now" "now < 2 ^ 62"
  shows "log_ok now (snd (Resolve rs now cfg rule domain c))
      (log @ (case backend_answer rs (effective_cfg cfg rule) domain of Ret (as, s) \<Rightarrow> [(now, domain, as, unat s)] | _ \<Rightarrow> []))"
    (is "log_ok _ _ (log @ ?new)")
proof -
  let ?c = "effective_cfg cfg rule"
  obtain a c' where hit: "cached_answer now ?c domain c = (a, c')" by fastforce
  with log_ok_cached [OF ok, of ?c domain] have ok': "log_ok now c' log" by simp
  have keep: "log_ok now c (log @ ?new)" "log_ok now c' (log @ ?new)"
    by (rule log_ok_mono [OF ok], simp_all) (rule log_ok_mono [OF ok'], simp_all)
  show ?thesis
  proof (cases "ParseAddr domain = None \<and> a = None")
    case True
    with hit keep log_ok_store [OF ok' now] show ?thesis
      by (auto simp: Resolve_def Let_def split: outcome.splits)
  next
    case False
    with hit keep show ?thesis by (auto simp: Resolve_def Let_def split: option.splits)
  qed
qed

lemma client_run_ok: "client_run cfg t c log \<Longrightarrow> log_ok t c log"
proof (induction rule: client_run.induct)
  case (client_new c t)
  then have c: "c = \<lparr>ttl_shards = replicate 64 []\<rparr>" by (simp add: NewClient_cache_def NewTTLCache_def)
  have inv: "ttl_inv c" by (simp add: c ttl_inv_def)
  have "ttl_peek bytes_of u c k = None" for u k
    using ttl_index_in_range [OF inv, of bytes_of k] by (simp add: ttl_peek_def c)
  with inv show ?case by (simp add: log_ok_def)
next
  case (client_resolve t c log now rs rule domain)
  from log_ok_resolve [OF log_ok_mono [OF client_resolve.IH client_resolve.hyps(2) order_refl] client_resolve.hyps(3,4)]
  show ?case .
next
  case (client_cleanup t c log now)
  then have "log_ok now c log" by (rule_tac log_ok_mono) auto
  then show ?case by (simp add: log_ok_def ForceCleanup_inv ForceCleanup_peek)
qed

text \<open>
  C9: the resolver never answers from a stale or foreign entry. In every run of the client, with lookups under any rules, any
  backends and cleanups in between, an answer is the address itself when the name is one, else what the backend answered
  now, else the answer of an earlier lookup of the same name whose TTL has not yet passed.
\<close>

theorem resolve_answer_fresh:
  assumes run: "client_run cfg t c log" and now: "t \<le> now" and ret: "fst (Resolve rs now cfg rule domain c) = Ret as"
  shows "(\<exists>ip z. ParseAddr domain = Some (ip, z) \<and> as = [ip]) \<or>
    (\<exists>s. backend_answer rs (effective_cfg cfg rule) domain = Ret (as, s)) \<or>
    (\<exists>t0 s. (t0, domain, as, s) \<in> set log \<and> now \<le> t0 + int s * 1000000000)"
proof (cases "ParseAddr domain")
  case None
  let ?c = "effective_cfg cfg rule"
  have ok: "log_ok t c log" by (rule client_run_ok [OF run])
  then have inv: "ttl_inv c" by (simp add: log_ok_def)
  obtain a c' where hit: "cached_answer now ?c domain c = (a, c')" by fastforce
  show ?thesis
  proof (cases a)
    case none: None
    have "\<exists>s. backend_answer rs ?c domain = Ret (as, s)"
      using ret None none hit by (auto simp: Resolve_def Let_def split: outcome.splits)
    then show ?thesis by blast
  next
    case (Some as')
    with hit have "ttl_peek bytes_of now c domain = Some as'"
      using TTLCache_Get_laws(1) [OF inv, of bytes_of now domain] by (simp add: cached_answer_def split: if_splits)
    moreover have "as' = as" using ret None Some hit by (simp add: Resolve_def Let_def)
    ultimately show ?thesis using ok now unfolding log_ok_def by blast
  qed
qed (use ret in \<open>auto simp: Resolve_def Let_def\<close>)

definition fixed_resolver :: "netip_addr list \<Rightarrow> u32 \<Rightarrow> resolvers" where
  "fixed_resolver as t =
     \<lparr>res_https = (\<lambda>_ _ _. Ret (as, t)), res_udp = (\<lambda>_ _ _. Ret (as, t)), res_system = (\<lambda>_ _ _. Ret (as, t))\<rparr>"

definition udp_config :: RuntimeConfig where
  "udp_config =
     \<lparr>cfg_Conn = \<lparr>DefaultFakeTTL = 8, DNSTimeout = 0, TCPTimeout = 0, UDPIdleTimeout = 0\<rparr>,
      cfg_DNS = \<lparr>dns_Mode = DNSModeUDP, dns_Addr = \<lparr>tcp_IP = None, tcp_Port = 53\<rparr>, HTTPSURL = [], QType = DNSQueryIPv4, dns_Cache = True\<rparr>,
      cfg_HTTPS = \<lparr>Disorder = False, https_FakeCount = 0, https_FakePacket = None, SplitMode = HTTPSSplitModeSNI,
        ChunkSize = 0, https_Skip = False, CustomSegmentPlans = []\<rparr>,
      cfg_UDP = \<lparr>udp_Skip = True, udp_FakeCount = 0, udp_FakePacket = []\<rparr>\<rparr>"

text \<open>A second lookup within the TTL is answered from the cache although the backend has changed its answer.\<close>

theorem resolve_answer_fresh_witness:
  "\<exists>c. fst (Resolve (fixed_resolver [] 1) 2000000000 udp_config None ''a.com'' c) = Ret [Addr4 [1, 2, 3, 4]] \<and>
     (\<exists>t0 s. (t0, ''a.com'', [Addr4 [1, 2, 3, 4]], s) \<in> set [(1000000000, ''a.com'', [Addr4 [1, 2, 3, 4]], 60)] \<and>
        2000000000 \<le> t0 + int s * 1000000000)"
proof -
  let ?R = "fixed_resolver [Addr4 [1, 2, 3, 4]] 60" and ?t = "1000000000 :: int"
  let ?fresh = "\<lparr>ttl_shards = replicate 64 []\<rparr> :: dns_cache"
  let ?c = "snd (Resolve ?R ?t udp_config None ''a.com'' ?fresh)"
  have "client_run udp_config 0 ?fresh []" by (rule client_new) (simp add: NewClient_cache_def NewTTLCache_def)
  then have "client_run udp_config ?t ?c
      ([] @ (case backend_answer ?R (effective_cfg udp_config None) ''a.com'' of Ret (as, s) \<Rightarrow> [(?t, ''a.com'', as, unat s)] | _ \<Rightarrow> []))"
    by (rule client_resolve) simp_all
  moreover have "backend_answer ?R (effective_cfg udp_config None) ''a.com'' = Ret ([Addr4 [1, 2, 3, 4]], 60)"
    by (simp add: backend_answer_def pick_def fixed_resolver_def effective_cfg_def udp_config_def)
  ultimately have run: "client_run udp_config ?t ?c [(?t, ''a.com'', [Addr4 [1, 2, 3, 4]], 60)]" by simp
  have ret: "fst (Resolve (fixed_resolver [] 1) 2000000000 udp_config None ''a.com'' ?c) = Ret [Addr4 [1, 2, 3, 4]]"
    by code_simp
  have no: "ParseAddr ''a.com'' = None" "backend_answer (fixed_resolver [] 1) (effective_cfg udp_config None) ''a.com'' = Ret ([], 1)"
    by code_simp+
  have "\<exists>t0 s. (t0, ''a.com'', [Addr4 [1, 2, 3, 4]], s) \<in> set [(?t, ''a.com'', [Addr4 [1, 2, 3, 4]], 60)] \<and>
      2000000000 \<le> t0 + int s * 1000000000"
    using resolve_answer_fresh [OF run _ ret] by (simp add: no)
  with ret show ?thesis by blast
qed

text \<open>
  A DNS-over-HTTPS query is sent a second time after any transport error: the test whether an error is worth a retry
  never changes what the loop does.
\<close>

theorem doh_retries_any_error:
  "doh_attempts 2 0 post = (case post 0 of TransportError e \<Rightarrow> post 1 | r \<Rightarrow> r)"
  by (simp add: numeral_2_eq_2 split: http_result.splits)

section \<open>The system resolver\<close>

text \<open>Only addresses of a wanted family pass, and IPv4-mapped addresses count as IPv4.\<close>

lemma To4_addr:
  "To4 ip = Some b \<Longrightarrow> Is4 (AddrFromSlice b)"
  "To4 ip = None \<Longrightarrow> IsValid (AddrFromSlice ip) \<Longrightarrow> Is6 (AddrFromSlice ip) \<and> \<not> Is4In6 (AddrFromSlice ip)"
  by (auto simp: To4_def AddrFromSlice_def Is4_def Is6_def Is4In6_def IsValid_def mapped_prefix_def v4InV6Prefix_def
      split: if_splits)

lemma filter_ips_family:
  "a \<in> set (filter_ips wA wAAAA ips seen) \<Longrightarrow> (Is4 a \<and> wA) \<or> (Is6 a \<and> wAAAA \<and> \<not> Is4In6 a)"
proof (induction ips arbitrary: seen)
  case (Cons ip ips)
  then show ?case by (cases "To4 ip") (auto simp: Let_def To4_addr split: if_splits)
qed simp

end
