(* ===== verification/Socks5.thy ===== *)
theory Socks5
  imports Go_Net
begin

text \<open>
  \<open>pkg/spoofdpi/internal/proto/socks5.go\<close>, the negotiation of \<open>server/socks5/socks5.go\<close> and the UDP request
  headers of \<open>server/socks5/handler_udp_assoc.go\<close>. A connection that is read from is the sequence of
  bytes the client sends before it closes; each reader returns the bytes it left. A nil \<open>net.IP\<close>
  is \<^term>\<open>None\<close>.
\<close>

section \<open>Constants\<close>

definition SOCKSVersion :: byte where "SOCKSVersion = 0x05"
definition SOCKS5AuthNone :: byte where "SOCKS5AuthNone = 0x00"
definition SOCKS5CmdConnect :: byte where "SOCKS5CmdConnect = 0x01"
definition SOCKS5CmdBind :: byte where "SOCKS5CmdBind = 0x02"
definition SOCKS5CmdUDPAssociate :: byte where "SOCKS5CmdUDPAssociate = 0x03"
definition SOCKS5AddrTypeIPv4 :: byte where "SOCKS5AddrTypeIPv4 = 0x01"
definition SOCKS5AddrTypeFQDN :: byte where "SOCKS5AddrTypeFQDN = 0x03"
definition SOCKS5AddrTypeIPv6 :: byte where "SOCKS5AddrTypeIPv6 = 0x04"
definition SOCKS5RCodeSuccess :: byte where "SOCKS5RCodeSuccess = 0x00"
definition SOCKS5RCodeGenFailure :: byte where "SOCKS5RCodeGenFailure = 0x01"
definition SOCKS5RCodeCmdNotSupported :: byte where "SOCKS5RCodeCmdNotSupported = 0x07"

lemmas socks_consts = SOCKSVersion_def SOCKS5AuthNone_def SOCKS5CmdConnect_def SOCKS5CmdBind_def
  SOCKS5CmdUDPAssociate_def SOCKS5AddrTypeIPv4_def SOCKS5AddrTypeFQDN_def SOCKS5AddrTypeIPv6_def
  SOCKS5RCodeSuccess_def SOCKS5RCodeGenFailure_def SOCKS5RCodeCmdNotSupported_def

section \<open>Requests\<close>

record SOCKS5Request =
  Cmd :: byte
  ATYP :: byte
  FQDN :: string
  req_IP :: "net_IP option"
  req_Port :: int

datatype socks_error =
    SocksRead io_error
  | VersionMismatch byte
  | UnsupportedAtyp byte
  | HttpConnect "bytes"
  | InvalidVersion byte

definition read_full :: "nat \<Rightarrow> bytes \<Rightarrow> (bytes \<Rightarrow> bytes \<Rightarrow> socks_error + 'a) \<Rightarrow> socks_error + 'a" where
  "read_full n conn k =
     (case ReadFull n conn of Inl e \<Rightarrow> Inl (SocksRead e) | Inr (buf, rest) \<Rightarrow> k buf rest)"

definition read_request_addr ::
  "byte \<Rightarrow> bytes \<Rightarrow> (string \<Rightarrow> net_IP option \<Rightarrow> bytes \<Rightarrow> socks_error + 'a) \<Rightarrow> socks_error + 'a" where
  "read_request_addr atyp conn k =
     (if atyp = SOCKS5AddrTypeIPv4 then read_full 4 conn (\<lambda>buf rest. k [] (Some buf) rest)
      else if atyp = SOCKS5AddrTypeFQDN then
        read_full 1 conn (\<lambda>lenBuf rest.
          read_full (unat (lenBuf ! 0)) rest (\<lambda>domainBuf rest'. k (str_of domainBuf) None rest'))
      else if atyp = SOCKS5AddrTypeIPv6 then read_full 16 conn (\<lambda>buf rest. k [] (Some buf) rest)
      else Inl (UnsupportedAtyp atyp))"

definition ReadSocks5Request :: "bytes \<Rightarrow> socks_error + SOCKS5Request \<times> bytes" where
  "ReadSocks5Request conn =
     read_full 4 conn (\<lambda>header conn.
       if header ! 0 \<noteq> SOCKSVersion then Inl (VersionMismatch (header ! 0))
       else
         let cmd = header ! 1; atyp = header ! 3 in
         read_request_addr atyp conn (\<lambda>domain ip conn.
           read_full 2 conn (\<lambda>portBuf conn.
             Inr (\<lparr>Cmd = cmd, ATYP = atyp, FQDN = domain, req_IP = ip,
                   req_Port = uint (be16 (portBuf ! 0) (portBuf ! 1))\<rparr>, conn))))"

section \<open>Replies\<close>

record SOCKS5Reply =
  Rep :: byte
  BindIP :: net_IP
  BindPort :: int

definition IPv4zero :: net_IP where
  "IPv4zero = v4InV6Prefix @ [0, 0, 0, 0]"

definition NewSOCKS5Reply :: "byte \<Rightarrow> SOCKS5Reply" where
  "NewSOCKS5Reply r = \<lparr>Rep = r, BindIP = IPv4zero, BindPort = 0\<rparr>"

definition SOCKS5SuccessResponse :: SOCKS5Reply where
  "SOCKS5SuccessResponse = NewSOCKS5Reply SOCKS5RCodeSuccess"

definition SOCKS5FailureResponse :: SOCKS5Reply where
  "SOCKS5FailureResponse = NewSOCKS5Reply SOCKS5RCodeGenFailure"

definition SOCKS5CommandNotSupportedResponse :: SOCKS5Reply where
  "SOCKS5CommandNotSupportedResponse = NewSOCKS5Reply SOCKS5RCodeCmdNotSupported"

definition Reply_Bind :: "net_IP option \<Rightarrow> SOCKS5Reply \<Rightarrow> SOCKS5Reply" where
  "Reply_Bind ip r = (case ip of Some i \<Rightarrow> r\<lparr>BindIP := i\<rparr> | None \<Rightarrow> r)"

definition Reply_Port :: "int \<Rightarrow> SOCKS5Reply \<Rightarrow> SOCKS5Reply" where
  "Reply_Port port r = r\<lparr>BindPort := port\<rparr>"

text \<open>The bytes \<open>Write\<close> hands to the connection.\<close>

definition Reply_Write :: "SOCKS5Reply \<Rightarrow> bytes" where
  "Reply_Write r =
     [SOCKSVersion, Rep r, 0x00, SOCKS5AddrTypeIPv4] @
     (case To4 (BindIP r) of Some ip4 \<Rightarrow> ip4 | None \<Rightarrow> replicate 4 0) @
     put16 (word_of_int (BindPort r))"

section \<open>Negotiation\<close>

text \<open>
  The bytes written to the client and the rest of its stream. A client that speaks HTTP
  (\<open>CO\<close> of \<open>CONNECT\<close>) is refused; parsing its request only words the error.
\<close>

definition negotiate :: "bytes \<Rightarrow> socks_error + bytes \<times> bytes" where
  "negotiate conn =
     read_full 2 conn (\<lambda>header conn.
       if header ! 0 \<noteq> SOCKSVersion then
         if length header > 1 \<and> header ! 0 = 67 \<and> header ! 1 = 79 then Inl (HttpConnect (header @ conn))
         else Inl (InvalidVersion (header ! 0))
       else
         read_full (unat (header ! 1)) conn (\<lambda>methods conn.
           Inr ([SOCKSVersion, SOCKS5AuthNone], conn)))"

section \<open>UDP request headers\<close>

datatype udp_header_error =
    HeaderTooShort | InvalidRsv | FragmentationNotSupported | UDPUnsupportedAtyp byte

definition udp_header_host :: "bytes \<Rightarrow> (udp_header_error, string \<times> nat) outcome" where
  "udp_header_host b =
     obind (index b 3) (\<lambda>atyp.
       if atyp = SOCKS5AddrTypeIPv4 then
         if length b < 10 then Fail HeaderTooShort
         else obind (gslice b 4 8) (\<lambda>ip. Ret (IP_String ip, 8))
       else if atyp = SOCKS5AddrTypeIPv6 then
         if length b < 22 then Fail HeaderTooShort
         else obind (gslice b 4 20) (\<lambda>ip. Ret (IP_String ip, 20))
       else if atyp = SOCKS5AddrTypeFQDN then
         if length b < 5 then Fail HeaderTooShort
         else obind (index b 4) (\<lambda>l.
           if length b < 5 + unat l + 2 then Fail HeaderTooShort
           else obind (gslice b 5 (5 + unat l)) (\<lambda>host. Ret (str_of host, 5 + unat l)))
       else Fail (UDPUnsupportedAtyp atyp))"

definition parseUDPHeader :: "bytes \<Rightarrow> (udp_header_error, string \<times> bytes) outcome" where
  "parseUDPHeader b =
     (if length b < 4 then Fail HeaderTooShort
      else
        obind (index b 0) (\<lambda>b0. obind (if b0 \<noteq> 0 then Ret b0 else index b 1) (\<lambda>b1.
        if b0 \<noteq> 0 \<or> b1 \<noteq> 0 then Fail InvalidRsv
        else obind (index b 2) (\<lambda>frag.
        if frag \<noteq> 0 then Fail FragmentationNotSupported
        else obind (udp_header_host b) (\<lambda>(host, pos).
        obind (uint16_at b pos) (\<lambda>port.
        obind (gslice b (pos + 2) (length b)) (\<lambda>data.
        Ret (JoinHostPort host (itoa (unat port)), data))))))))"

record UDPAddr =
  addr_IP :: net_IP
  addr_Port :: int

definition createUDPHeaderFromAddr :: "UDPAddr \<Rightarrow> bytes" where
  "createUDPHeaderFromAddr addr =
     [0, 0, 0] @
     (case To4 (addr_IP addr) of
        Some ip4 \<Rightarrow> SOCKS5AddrTypeIPv4 # ip4
      | None \<Rightarrow> SOCKS5AddrTypeIPv6 # (case To16 (addr_IP addr) of Some ip \<Rightarrow> ip | None \<Rightarrow> [])) @
     put16 (word_of_int (addr_Port addr))"

section \<open>Requests on the wire\<close>

definition wf_request :: "SOCKS5Request \<Rightarrow> bool" where
  "wf_request q =
     (0 \<le> req_Port q \<and> req_Port q < 65536 \<and>
      (ATYP q = SOCKS5AddrTypeIPv4 \<and> FQDN q = [] \<and> (\<exists>ip. req_IP q = Some ip \<and> length ip = 4) \<or>
       ATYP q = SOCKS5AddrTypeIPv6 \<and> FQDN q = [] \<and> (\<exists>ip. req_IP q = Some ip \<and> length ip = 16) \<or>
       ATYP q = SOCKS5AddrTypeFQDN \<and> req_IP q = None \<and> length (FQDN q) < 256))"

text \<open>The encoding of RFC 1928, with the reserved byte as an argument.\<close>

definition request_bytes :: "byte \<Rightarrow> SOCKS5Request \<Rightarrow> bytes" where
  "request_bytes rsv q =
     [5, Cmd q, rsv, ATYP q] @
     (case req_IP q of
        Some ip \<Rightarrow> ip
      | None \<Rightarrow> of_nat (length (FQDN q)) # bytes_of (FQDN q)) @
     put16 (word_of_int (req_Port q))"

section \<open>Reading what was written\<close>

lemma read_full_append [simp]: "n = length buf \<Longrightarrow> read_full n (buf @ rest) k = k buf rest"
  by (simp add: read_full_def)

lemma read_full_Inr:
  "read_full n conn k = Inr y \<longleftrightarrow> (\<exists>buf rest. conn = buf @ rest \<and> length buf = n \<and> k buf rest = Inr y)"
proof
  assume "read_full n conn k = Inr y"
  then show "\<exists>buf rest. conn = buf @ rest \<and> length buf = n \<and> k buf rest = Inr y"
    by (intro exI [of _ "take n conn"] exI [of _ "drop n conn"])
      (auto simp: read_full_def ReadFull_def split: if_splits)
qed auto

lemma request_read_back:
  assumes "wf_request q"
  shows "ReadSocks5Request (request_bytes rsv q @ rest) = Inr (q, rest)"
proof -
  obtain cmd atyp fqdn ip port where q:
    "q = \<lparr>Cmd = cmd, ATYP = atyp, FQDN = fqdn, req_IP = ip, req_Port = port\<rparr>" by (cases q)
  have p: "uint (word_of_int port :: u16) = port"
    using assms by (simp add: wf_request_def q uint_word_of_int take_bit_int_eq_self)
  define tail where "tail = put16 (word_of_int port) @ rest"
  have port_read: "read_full 2 tail (\<lambda>b r. k b r) = k (put16 (word_of_int port)) rest" for k :: "bytes \<Rightarrow> bytes \<Rightarrow> socks_error + SOCKS5Request \<times> bytes"
    unfolding tail_def by simp
  define addr where "addr = (case ip of Some i \<Rightarrow> i | None \<Rightarrow> of_nat (length fqdn) # bytes_of fqdn)"
  have addr_read: "read_request_addr atyp (addr @ tail) k = k fqdn ip tail" for k :: "string \<Rightarrow> net_IP option \<Rightarrow> bytes \<Rightarrow> socks_error + SOCKS5Request \<times> bytes"
  proof (cases ip)
    case None
    have "read_full 1 ([of_nat (length fqdn)] @ bytes_of fqdn @ tail) f = f [of_nat (length fqdn)] (bytes_of fqdn @ tail)"
      for f :: "bytes \<Rightarrow> bytes \<Rightarrow> socks_error + SOCKS5Request \<times> bytes" by (rule read_full_append) simp
    then show ?thesis
      using None assms by (simp add: wf_request_def q addr_def read_request_addr_def socks_consts unat_of_nat)
  next
    case (Some i)
    then show ?thesis
      using assms by (auto simp: wf_request_def q addr_def read_request_addr_def socks_consts)
  qed
  have "request_bytes rsv q @ rest = [5, cmd, rsv, atyp] @ (addr @ tail)"
    by (cases ip) (simp_all add: request_bytes_def q addr_def tail_def)
  then show ?thesis
    unfolding ReadSocks5Request_def
    by (subst \<open>request_bytes rsv q @ rest = _\<close>, subst read_full_append)
      (simp_all add: socks_consts addr_read port_read q p put16_def)
qed

lemma request_read_shape:
  assumes "ReadSocks5Request s = Inr (q, rest)"
  shows "wf_request q \<and> (\<exists>rsv. s = request_bytes rsv q @ rest)"
proof -
  obtain h c1 where s: "s = h @ c1" "length h = 4" "h ! 0 = 5"
    and a: "read_request_addr (h ! 3) c1 (\<lambda>domain ip conn. read_full 2 conn (\<lambda>portBuf conn.
             Inr (\<lparr>Cmd = h ! 1, ATYP = h ! 3, FQDN = domain, req_IP = ip,
                   req_Port = uint (be16 (portBuf ! 0) (portBuf ! 1))\<rparr>, conn))) = Inr (q, rest)"
    using assms by (auto simp: ReadSocks5Request_def read_full_Inr Let_def socks_consts split: if_splits)
  obtain v cmd rsv atyp where h: "h = [v, cmd, rsv, atyp]"
    using s(2) by (auto simp: numeral_eq_Suc length_Suc_conv)
  have port: "portBuf = put16 (word_of_int (uint (be16 (portBuf ! 0) (portBuf ! 1))))"
    if "length portBuf = 2" for portBuf
    using that by (auto simp: numeral_eq_Suc length_Suc_conv)
  have port_range: "0 \<le> uint (w :: u16) \<and> uint w < 65536" for w
  proof -
    have "uint w < 2 ^ LENGTH(16)" by (rule unsigned_less)
    then show ?thesis by simp
  qed
  consider (v4) "atyp = 1" | (name) "atyp = 3" | (v6) "atyp = 4"
    using a by (auto simp: h read_request_addr_def socks_consts split: if_splits)
  then show ?thesis
  proof cases
    case name
    then obtain l c2 d c3 p where c: "c1 = [l] @ c2" "c2 = d @ c3" "length d = unat l" "c3 = p @ rest" "length p = 2"
      and q: "q = \<lparr>Cmd = cmd, ATYP = atyp, FQDN = str_of d, req_IP = None, req_Port = uint (be16 (p ! 0) (p ! 1))\<rparr>"
      using a by (auto simp: h read_request_addr_def socks_consts read_full_Inr length_Suc_conv)
    have "unat l < 256" using unsigned_less [of l] by simp
    then show ?thesis using c q s h name port [OF c(5)] port_range
      by (auto simp: wf_request_def request_bytes_def socks_consts)
  next
    case v4
    then obtain d c3 p where c: "c1 = d @ c3" "length d = 4" "c3 = p @ rest" "length p = 2"
      and q: "q = \<lparr>Cmd = cmd, ATYP = atyp, FQDN = [], req_IP = Some d, req_Port = uint (be16 (p ! 0) (p ! 1))\<rparr>"
      using a by (auto simp: h read_request_addr_def socks_consts read_full_Inr)
    then show ?thesis using s h v4 port [OF c(4)] port_range
      by (auto simp: wf_request_def request_bytes_def socks_consts)
  next
    case v6
    then obtain d c3 p where c: "c1 = d @ c3" "length d = 16" "c3 = p @ rest" "length p = 2"
      and q: "q = \<lparr>Cmd = cmd, ATYP = atyp, FQDN = [], req_IP = Some d, req_Port = uint (be16 (p ! 0) (p ! 1))\<rparr>"
      using a by (auto simp: h read_request_addr_def socks_consts read_full_Inr)
    then show ?thesis using s h v6 port [OF c(4)] port_range
      by (auto simp: wf_request_def request_bytes_def socks_consts)
  qed
qed

text \<open>\<open>ReadSocks5Request\<close> accepts exactly the requests of RFC 1928 with an address type it knows, returns their fields
  and leaves the bytes behind the request unread. The reserved byte is not looked at.\<close>

theorem socks_request_iff:
  "ReadSocks5Request s = Inr (q, rest) \<longleftrightarrow> wf_request q \<and> (\<exists>rsv. s = request_bytes rsv q @ rest)"
  using request_read_back request_read_shape by blast

lemma udp_host_safe:
  assumes "4 \<le> length b"
  shows "udp_header_host b \<noteq> Panic \<and> (\<forall>h p. udp_header_host b = Ret (h, p) \<longrightarrow> p + 2 \<le> length b)"
  using assms by (auto simp: udp_header_host_def index_def gslice_def split: if_splits)

lemma parse_safe: "parseUDPHeader b \<noteq> Panic"
proof (cases "length b < 4")
  case False
  then obtain w x y z t where b: "b = w # x # y # z # t"
    by (auto simp: not_less numeral_eq_Suc Suc_le_length_iff)
  from False show ?thesis
    using udp_host_safe [of b]
    by (auto simp: parseUDPHeader_def index_def b obind_Panic_conv uint16_at_in_range gslice_in_range split: if_splits)
qed (simp add: parseUDPHeader_def)

lemma parse_created:
  assumes "length (addr_IP a) = 4 \<or> length (addr_IP a) = 16"
  shows "parseUDPHeader (createUDPHeaderFromAddr a @ data) =
     Ret (JoinHostPort (IP_String (addr_IP a)) (itoa (nat (addr_Port a mod 65536))), data)"
proof -
  have port: "unat (word_of_int (addr_Port a) :: u16) = nat (addr_Port a mod 65536)"
    by (simp add: unat_eq_nat_uint uint_word_of_int)
  show ?thesis
  proof (cases "To4 (addr_IP a)")
    case (Some ip4)
    then have "length ip4 = 4" by (auto simp: To4_def split: if_splits)
    then obtain w x y z where ip4: "ip4 = [w, x, y, z]" by (auto simp: numeral_eq_Suc length_Suc_conv)
    have "IP_String ip4 = IP_String (addr_IP a)"
      using Some assms ip4 by (auto simp: IP_String_def To4_def split: if_splits)
    with Some ip4 show ?thesis
      by (simp add: parseUDPHeader_def createUDPHeaderFromAddr_def udp_header_host_def index_def gslice_def
        socks_consts uint16_at_def put16_def port)
  next
    case None
    then have ip: "To16 (addr_IP a) = Some (addr_IP a)" "length (addr_IP a) = 16"
      using assms by (auto simp: To4_def To16_def)
    have "udp_header_host (createUDPHeaderFromAddr a @ data) = Ret (IP_String (addr_IP a), 20)"
      using None ip by (simp add: createUDPHeaderFromAddr_def udp_header_host_def index_def gslice_def socks_consts)
    moreover have "uint16_at (createUDPHeaderFromAddr a @ data) 20 =
        (Ret (word_of_int (addr_Port a)) :: (udp_header_error, u16) outcome)"
      by (rule uint16_at_drop [of _ _ _ data]) (use None ip in \<open>simp add: createUDPHeaderFromAddr_def\<close>)
    moreover have "drop 22 (createUDPHeaderFromAddr a @ data) = data" "length (createUDPHeaderFromAddr a) = 22"
      using None ip by (simp_all add: createUDPHeaderFromAddr_def)
    moreover have "(createUDPHeaderFromAddr a @ data) ! 0 = 0" "(createUDPHeaderFromAddr a @ data) ! 1 = 0"
      "(createUDPHeaderFromAddr a @ data) ! 2 = 0"
      by (simp_all add: createUDPHeaderFromAddr_def)
    ultimately show ?thesis
      by (simp add: parseUDPHeader_def index_def gslice_def port)
  qed
qed

text \<open>Any packet the UDP relay receives is parsed without a panic, and the header the relay puts in front of a
  reply from a 4 or 16 byte address names that address and port and gives back the data unchanged.\<close>

theorem udp_header_roundtrip:
  "parseUDPHeader b \<noteq> Panic \<and>
   (length (addr_IP a) = 4 \<or> length (addr_IP a) = 16 \<longrightarrow>
     parseUDPHeader (createUDPHeaderFromAddr a @ data) =
       Ret (JoinHostPort (IP_String (addr_IP a)) (itoa (nat (addr_Port a mod 65536))), data))"
  using parse_safe parse_created by blast

definition example_udp_addr :: UDPAddr where
  "example_udp_addr = \<lparr>addr_IP = [8, 8, 4, 4], addr_Port = 443\<rparr>"

theorem udp_header_roundtrip_witness:
  "createUDPHeaderFromAddr example_udp_addr = [0, 0, 0, 1, 8, 8, 4, 4, 1, 187] \<and>
   parseUDPHeader (createUDPHeaderFromAddr example_udp_addr @ [7]) = Ret (''8.8.4.4:443'', [7])"
proof -
  have e: "length (addr_IP example_udp_addr) = 4 \<or> length (addr_IP example_udp_addr) = 16" by code_simp
  have n: "JoinHostPort (IP_String (addr_IP example_udp_addr)) (itoa (nat (addr_Port example_udp_addr mod 65536))) =
      ''8.8.4.4:443''" by code_simp
  have "createUDPHeaderFromAddr example_udp_addr = [0, 0, 0, 1, 8, 8, 4, 4, 1, 187]" by code_simp
  with e n udp_header_roundtrip [of "[]" example_udp_addr "[7]"] show ?thesis by simp
qed

text \<open>Negotiation succeeds exactly on a version-5 greeting whose announced methods have all arrived, consumes the
  greeting alone and always selects "no authentication", whatever methods the client offered.\<close>

theorem negotiate_iff:
  "negotiate s = Inr (out, rest) \<longleftrightarrow>
     out = [5, 0] \<and> (\<exists>n methods. length methods = unat n \<and> s = 5 # n # methods @ rest)"
proof
  assume "negotiate s = Inr (out, rest)"
  then show "out = [5, 0] \<and> (\<exists>n methods. length methods = unat n \<and> s = 5 # n # methods @ rest)"
    by (auto simp: negotiate_def read_full_Inr socks_consts numeral_eq_Suc length_Suc_conv split: if_splits)
next
  assume r: "out = [5, 0] \<and> (\<exists>n methods. length methods = unat n \<and> s = 5 # n # methods @ rest)"
  then obtain n methods where "length methods = unat n" "s = [5, n] @ methods @ rest" by auto
  moreover have "read_full 2 ([5, n] @ methods @ rest) k = k [5, n] (methods @ rest)"
    for k :: "bytes \<Rightarrow> bytes \<Rightarrow> socks_error + bytes \<times> bytes"
    by (rule read_full_append) simp
  ultimately show "negotiate s = Inr (out, rest)"
    using r by (simp add: negotiate_def socks_consts)
qed

text \<open>Every reply is ten bytes long and announces an IPv4 address: the bound address when it is IPv4 in either
  form, \<open>0.0.0.0\<close> for any other bound address, followed by the port modulo \<open>2 ^ 16\<close>.\<close>

theorem reply_layout:
  "Reply_Write (Reply_Port p (Reply_Bind ip (NewSOCKS5Reply r))) =
     [5, r, 0, 1] @
     (case ip of None \<Rightarrow> [0, 0, 0, 0] | Some i \<Rightarrow> (case To4 i of Some a \<Rightarrow> a | None \<Rightarrow> [0, 0, 0, 0])) @
     put16 (word_of_int p) \<and>
   length (Reply_Write (Reply_Port p (Reply_Bind ip (NewSOCKS5Reply r)))) = 10"
proof -
  have "To4 IPv4zero = Some [0, 0, 0, 0]" by code_simp
  moreover have "To4 i = Some a \<Longrightarrow> length a = 4" for i a
    by (auto simp: To4_def split: if_splits)
  moreover have "replicate 4 0 = [0, 0, 0, 0 :: byte]" by code_simp
  ultimately show ?thesis
    by (auto simp: Reply_Write_def Reply_Port_def Reply_Bind_def NewSOCKS5Reply_def socks_consts
      split: option.splits)
qed

end
