(* ===== verification/Tls_Desync.thy ===== *)
theory Tls_Desync
  imports Config_Types "HOL-Library.Multiset"
begin

text \<open>
  \<open>pkg/spoofdpi/internal/desync/tls.go\<close> and \<open>udp.go\<close>: how a client hello is cut into segments and
  sent, and how decoy packets precede it. Random draws (\<open>rand.Uint\<close>, the \<open>j\<close>-th \<open>rand.IntN\<close>) and
  the result of \<open>slices.SortFunc\<close>, which need not be stable, are arguments. The socket is a record
  of its TTL and of what was written at which TTL, and the outcomes of its system calls are
  arguments too.
\<close>

section \<open>Splitting\<close>

record Segment =
  Packet :: bytes
  Lazy :: bool

datatype split_error =
    EmptyData | SizeZero | LessThanTwoBytes | StartAfterEnd | OutOfRange | SniError sni_error

function chunk_loop :: "bytes \<Rightarrow> nat \<Rightarrow> bool \<Rightarrow> bool \<Rightarrow> Segment list" where
  "chunk_loop b sz curDisorder disorder =
     (if length b > 0 \<and> sz > 0 then
        let n = min (length b) sz in
        \<lparr>Packet = take n b, Lazy = curDisorder \<and> disorder\<rparr>
          # chunk_loop (drop n b) sz (\<not> curDisorder) disorder
      else [])"
  by pat_completeness auto
termination
  by (relation "measure (\<lambda>(b, _). length b)") auto

declare chunk_loop.simps [simp del]

definition splitChunks :: "bytes \<Rightarrow> nat \<Rightarrow> bool \<Rightarrow> split_error + Segment list" where
  "splitChunks b sz disorder =
     (if length b = 0 then Inl EmptyData
      else if sz = 0 then Inl SizeZero
      else Inr (chunk_loop b sz True disorder))"

definition splitFirstByte :: "bytes \<Rightarrow> bool \<Rightarrow> split_error + Segment list" where
  "splitFirstByte b disorder =
     (if length b < 2 then Inl LessThanTwoBytes
      else Inr [\<lparr>Packet = take 1 b, Lazy = disorder\<rparr>, \<lparr>Packet = drop 1 b, Lazy = False\<rparr>])"

text \<open>One segment per byte, alternating; the flag after the last one is returned too.\<close>

fun single_bytes :: "bytes \<Rightarrow> bool \<Rightarrow> bool \<Rightarrow> Segment list \<times> bool" where
  "single_bytes [] curDisorder disorder = ([], curDisorder)"
| "single_bytes (x # xs) curDisorder disorder =
     (let (segs, d) = single_bytes xs (\<not> curDisorder) disorder in
      (\<lparr>Packet = [x], Lazy = curDisorder \<and> disorder\<rparr> # segs, d))"

definition splitSNI :: "bytes \<Rightarrow> nat \<Rightarrow> nat \<Rightarrow> bool \<Rightarrow> split_error + Segment list" where
  "splitSNI b start end' disorder =
     (if length b = 0 then Inl EmptyData
      else if start > end' then Inl StartAfterEnd
      else if length b \<le> start \<or> length b \<le> end' then Inl OutOfRange
      else
        let (segs, d) = single_bytes (take (end' - start) (drop start b)) True disorder in
        Inr (\<lparr>Packet = take start b, Lazy = False\<rparr> # segs
             @ [\<lparr>Packet = drop end' b, Lazy = d \<and> disorder\<rparr>]))"

text \<open>
  The loop of \<open>splitMask\<close> over the indices still to visit; the result ends with the remaining
  bytes from \<open>start\<close> on.
\<close>

fun mask_loop :: "bytes \<Rightarrow> u64 \<Rightarrow> bool \<Rightarrow> nat list \<Rightarrow> nat \<Rightarrow> bool \<Rightarrow> u64 \<Rightarrow> Segment list" where
  "mask_loop b msk disorder [] start curDisorder curBit =
     (if length b > start
      then [\<lparr>Packet = take (length b - start) (drop start b), Lazy = curDisorder \<and> disorder\<rparr>]
      else [])"
| "mask_loop b msk disorder (i # is) start curDisorder curBit =
     (if msk AND curBit = curBit then
        let before = (if i > start
              then [\<lparr>Packet = take (i - start) (drop start b), Lazy = curDisorder \<and> disorder\<rparr>] else []);
            d = (if i > start then \<not> curDisorder else curDisorder)
        in before @ \<lparr>Packet = take 1 (drop i b), Lazy = d \<and> disorder\<rparr>
             # mask_loop b msk disorder is (i + 1) (\<not> d) (word_rotl 1 curBit)
      else mask_loop b msk disorder is start curDisorder (word_rotl 1 curBit))"

definition splitMask :: "bytes \<Rightarrow> u64 \<Rightarrow> bool \<Rightarrow> split_error + Segment list" where
  "splitMask b msk disorder =
     (if length b = 0 then Inl EmptyData
      else Inr (mask_loop b msk disorder [0..<length b] 0 True 1))"

section \<open>Custom segment plans\<close>

record splitPoint =
  sp_at :: int
  sp_lazy :: bool

text \<open>\<open>rand.IntN(n)\<close>: a panic for \<open>n <= 0\<close>, else the draw \<open>rnd j n\<close>.\<close>

definition rand_IntN :: "(nat \<Rightarrow> int \<Rightarrow> int) \<Rightarrow> nat \<Rightarrow> int \<Rightarrow> ('e, int) outcome" where
  "rand_IntN rnd j n = (if n \<le> 0 then Panic else Ret (rnd j n))"

definition plan_point ::
  "(nat \<Rightarrow> int \<Rightarrow> int) \<Rightarrow> nat \<Rightarrow> nat \<Rightarrow> nat \<Rightarrow> SegmentPlan \<Rightarrow> (split_error, splitPoint) outcome" where
  "plan_point rnd lenRaw sniStart j s =
     (let base = (if From s = SegmentFromSNI then int sniStart else 0);
          pos = wrap64 (base + At s)
      in obind (if Noise s > 0
                then obind (rand_IntN rnd j (wrap64 (wrap64 (Noise s * 2) + 1)))
                       (\<lambda>r. Ret (wrap64 (pos + wrap64 (r - Noise s))))
                else Ret pos)
           (\<lambda>pos. Ret \<lparr>sp_at = max 0 (min pos (int lenRaw)), sp_lazy = plan_Lazy s\<rparr>))"

fun plan_points ::
  "(nat \<Rightarrow> int \<Rightarrow> int) \<Rightarrow> nat \<Rightarrow> nat \<Rightarrow> nat \<Rightarrow> SegmentPlan list \<Rightarrow> (split_error, splitPoint list) outcome" where
  "plan_points rnd lenRaw sniStart j [] = Ret []"
| "plan_points rnd lenRaw sniStart j (s # ss) =
     obind (plan_point rnd lenRaw sniStart j s) (\<lambda>p.
       obind (plan_points rnd lenRaw sniStart (Suc j) ss) (\<lambda>ps. Ret (p # ps)))"

fun cut_points :: "bytes \<Rightarrow> int \<Rightarrow> splitPoint list \<Rightarrow> (split_error, Segment list) outcome" where
  "cut_points b prvAt [] =
     (if prvAt < int (length b) then Ret [\<lparr>Packet = drop (nat prvAt) b, Lazy = False\<rparr>] else Ret [])"
| "cut_points b prvAt (p # ps) =
     (if sp_at p = prvAt then cut_points b prvAt ps
      else if prvAt < 0 \<or> sp_at p < prvAt then Panic
      else obind (gslice b (nat prvAt) (nat (sp_at p))) (\<lambda>s.
        obind (cut_points b (sp_at p) ps) (\<lambda>segs. Ret (\<lparr>Packet = s, Lazy = sp_lazy p\<rparr> # segs))))"

definition applySegmentPlans ::
  "(nat \<Rightarrow> int \<Rightarrow> int) \<Rightarrow> (splitPoint list \<Rightarrow> splitPoint list) \<Rightarrow> bytes \<Rightarrow> SegmentPlan list \<Rightarrow>
   (split_error, Segment list) outcome" where
  "applySegmentPlans rnd sortPoints b plans =
     (case ExtractSNIOffset b of
        Panic \<Rightarrow> Panic
      | Fail e \<Rightarrow> Fail (SniError e)
      | Ret (sniStart, _) \<Rightarrow>
          obind (plan_points rnd (length b) sniStart 0 plans) (\<lambda>points. cut_points b 0 (sortPoints points)))"

section \<open>The random mask\<close>

text \<open>\<open>bits.RotateLeft8(x, k)\<close>: only the low three bits of \<open>k\<close> matter, for negative \<open>k\<close> too.\<close>

definition RotateLeft8 :: "byte \<Rightarrow> int \<Rightarrow> byte" where
  "RotateLeft8 x k = word_rotl (nat (k mod 8)) x"

definition block_bits :: "nat \<Rightarrow> byte \<Rightarrow> u64" where
  "block_bits k x = push_bit k (ucast x)"

definition genPatternMask :: "u64 \<Rightarrow> u64" where
  "genPatternMask seed0 =
     (let ret0 = 0b10101001;
          seed1 = seed0 XOR drop_bit 13 seed0;
          ret1 = ret0 OR block_bits 8 (RotateLeft8 0b10000000 (sint seed1));
          seed2 = seed1 XOR push_bit 11 seed1;
          ret2 = ret1 OR block_bits 8 (RotateLeft8 0b10000000 (- sint (seed2 mod 7) + 1));
          seed3 = seed2 XOR drop_bit 17 seed2;
          ret3 = ret2 OR block_bits 16 (RotateLeft8 0b00000001 (sint seed3));
          seed4 = seed3 XOR push_bit 5 seed3;
          ret4 = ret3 OR block_bits 24 (RotateLeft8 0b00000001 (sint seed4));
          seed5 = seed4 XOR drop_bit 12 seed4;
          ret5 = ret4 OR block_bits 32 (RotateLeft8 0b00000001 (sint (seed5 mod 2)));
          ret6 = ret5 OR block_bits 32 (RotateLeft8 0b00000001 (sint (seed5 mod 3) + 2));
          ret7 = ret6 OR block_bits 32 (RotateLeft8 0b00000001 (sint (seed5 mod 3) + 5));
          seed6 = seed5 XOR push_bit 25 seed5;
          ret8 = ret7 OR block_bits 40 (RotateLeft8 0b00000001 (sint seed6));
          seed7 = seed6 XOR drop_bit 27 seed6;
          ret9 = ret8 OR block_bits 48 (RotateLeft8 0b00000001 (sint seed7));
          seed8 = seed7 XOR push_bit 13 seed7
      in ret9 OR block_bits 56 (RotateLeft8 0b00000001 (sint seed8)))"

section \<open>Choosing the split\<close>

text \<open>The random inputs of one split: a seed, the draws of \<open>rand.IntN\<close> and the sorted order.\<close>

record chance =
  seed :: u64
  rnd :: "nat \<Rightarrow> int \<Rightarrow> int"
  sortPoints :: "splitPoint list \<Rightarrow> splitPoint list"

definition whole :: "bytes \<Rightarrow> Segment list" where
  "whole b = [\<lparr>Packet = b, Lazy = False\<rparr>]"

definition lift_split :: "split_error + 'a \<Rightarrow> (split_error, 'a) outcome" where
  "lift_split r = (case r of Inl e \<Rightarrow> Fail e | Inr x \<Rightarrow> Ret x)"

text \<open>The switch over the mode; the trace message of the SNI branch slices \<open>raw[start:end]\<close>.\<close>

definition split_by_mode ::
  "chance \<Rightarrow> bytes \<Rightarrow> HTTPSOptions \<Rightarrow> (split_error, Segment list) outcome" where
  "split_by_mode ch b opts =
     (case SplitMode opts of
        HTTPSSplitModeSNI \<Rightarrow>
          (case ExtractSNIOffset b of
             Panic \<Rightarrow> Panic
           | Fail e \<Rightarrow> Fail (SniError e)
           | Ret (start, end') \<Rightarrow>
               let r = lift_split (splitSNI b start end' (Disorder opts)) in
               obind (gslice b start end') (\<lambda>_. r))
      | HTTPSSplitModeRandom \<Rightarrow> lift_split (splitMask b (genPatternMask (seed ch)) (Disorder opts))
      | HTTPSSplitModeChunk \<Rightarrow> lift_split (splitChunks b (unat (ChunkSize opts)) (Disorder opts))
      | HTTPSSplitModeFirstByte \<Rightarrow> lift_split (splitFirstByte b (Disorder opts))
      | HTTPSSplitModeCustom \<Rightarrow> applySegmentPlans (rnd ch) (sortPoints ch) b (CustomSegmentPlans opts)
      | HTTPSSplitModeNone \<Rightarrow> Ret (whole b))"

definition split :: "chance \<Rightarrow> bytes \<Rightarrow> HTTPSOptions \<Rightarrow> (split_error, Segment list) outcome" where
  "split ch b opts =
     (case split_by_mode ch b opts of
        Panic \<Rightarrow> Panic | Fail _ \<Rightarrow> Ret (whole b) | Ret segs \<Rightarrow> Ret segs)"

section \<open>Sending\<close>

text \<open>
  The connection: its current TTL and the chunks written so far, each with the TTL it left with.
  \<open>ttl_ok k\<close> says whether the \<open>k\<close>-th \<open>SetTTL\<close> succeeds; \<open>wr k\<close> is \<open>None\<close> when the \<open>k\<close>-th \<open>Write\<close>
  writes everything, else the number of bytes written and the error.
\<close>

record 'e sock_env =
  ttl_ok :: "nat \<Rightarrow> bool"
  wr :: "nat \<Rightarrow> (nat \<times> 'e) option"

record send_state =
  sock_ttl :: byte
  sent :: "(byte \<times> bytes) list"
  ttlErrored :: bool
  ttl_calls :: nat
  write_calls :: nat
  total_n :: nat

definition getDefaultTTL :: byte where
  "getDefaultTTL = 64"

definition setTTLWrap :: "'e sock_env \<Rightarrow> byte \<Rightarrow> send_state \<Rightarrow> send_state" where
  "setTTLWrap env ttl st =
     (if ttl_ok env (ttl_calls st)
      then st\<lparr>sock_ttl := ttl, ttl_calls := Suc (ttl_calls st)\<rparr>
      else st\<lparr>ttlErrored := True, ttl_calls := Suc (ttl_calls st)\<rparr>)"

definition conn_write :: "'e sock_env \<Rightarrow> bytes \<Rightarrow> send_state \<Rightarrow> 'e option \<times> send_state" where
  "conn_write env b st =
     (let (n, err) = (case wr env (write_calls st) of
            None \<Rightarrow> (length b, None) | Some (n, e) \<Rightarrow> (min n (length b), Some e))
      in (err, st\<lparr>sent := sent st @ [(sock_ttl st, take n b)], write_calls := Suc (write_calls st),
                  total_n := total_n st + n\<rparr>))"

fun send_loop :: "'e sock_env \<Rightarrow> Segment list \<Rightarrow> send_state \<Rightarrow> 'e option \<times> send_state" where
  "send_loop env [] st = (None, st)"
| "send_loop env (chunk # rest) st =
     (let st1 = (if \<not> ttlErrored st \<and> Lazy chunk then setTTLWrap env 1 st else st) in
      case conn_write env (Packet chunk) st1 of
        (Some e, st2) \<Rightarrow> (Some e, st2)
      | (None, st2) \<Rightarrow>
          let st3 = (if \<not> ttlErrored st2 \<and> Lazy chunk then setTTLWrap env getDefaultTTL st2 else st2)
          in send_loop env rest st3)"

text \<open>\<open>sendSegments\<close> on a connection with TTL \<open>ttl0\<close>: the byte count, the error, the connection.\<close>

definition sendSegments ::
  "'e sock_env \<Rightarrow> byte \<Rightarrow> Segment list \<Rightarrow> nat \<times> 'e option \<times> send_state" where
  "sendSegments env ttl0 segments =
     (let (err, st) = send_loop env segments \<lparr>sock_ttl = ttl0, sent = [], ttlErrored = False,
            ttl_calls = 0, write_calls = 0, total_n = 0\<rparr>
      in (total_n st, err, st))"

section \<open>Decoys and the whole operation\<close>

text \<open>A packet writer transforms its own state and returns an error or a byte count.\<close>

type_synonym ('e, 'w) craft = "byte \<Rightarrow> bytes \<Rightarrow> 'w \<Rightarrow> ('e + nat) \<times> 'w"

fun fake_loop :: "('e, 'w) craft \<Rightarrow> byte \<Rightarrow> bytes list \<Rightarrow> nat \<Rightarrow> 'w \<Rightarrow> nat \<times> 'e option \<times> 'w" where
  "fake_loop craft oTTL [] tot w = (tot, None, w)"
| "fake_loop craft oTTL (p # ps) tot w =
     (case craft oTTL p w of
        (Inl e, w') \<Rightarrow> (tot, Some e, w')
      | (Inr n, w') \<Rightarrow> fake_loop craft oTTL ps (tot + n) w')"

definition sendFakePackets ::
  "chance \<Rightarrow> ('e, 'w) craft \<Rightarrow> byte \<Rightarrow> HTTPSOptions \<Rightarrow> 'w \<Rightarrow> (split_error, nat \<times> 'e option \<times> 'w) outcome" where
  "sendFakePackets ch craft oTTL opts w =
     (case https_FakePacket opts of
        None \<Rightarrow> Panic
      | Some m \<Rightarrow> obind (split ch (raw m) opts) (\<lambda>segs.
          Ret (fake_loop craft oTTL
            (concat (replicate (unat (https_FakeCount opts)) (map Packet segs))) 0 w)))"

record ('ip, 'e, 'w) TLSDesyncer =
  tls_writer :: "('e, 'w) craft option"
  tls_sniffer :: "('ip \<Rightarrow> byte) option"

definition TLSDesyncer_PrepareHopTrack ::
  "('ip list \<Rightarrow> 's \<Rightarrow> 's) option \<Rightarrow> 'ip list \<Rightarrow> HTTPSOptions \<Rightarrow> 's \<Rightarrow> 's" where
  "TLSDesyncer_PrepareHopTrack register addrs cfg s =
     (case register of None \<Rightarrow> s
      | Some reg \<Rightarrow> if https_Skip cfg \<or> https_FakeCount cfg = 0 then s else reg addrs s)"

text \<open>
  \<open>Desync\<close>: decoys (their errors are logged only), then the segments of the real message. The
  two calls of \<open>split\<close> draw their randomness independently (\<open>ch1\<close>, \<open>ch2\<close>).
\<close>

definition TLSDesyncer_Desync ::
  "('ip, 'e, 'w) TLSDesyncer \<Rightarrow> chance \<Rightarrow> chance \<Rightarrow> 'x sock_env \<Rightarrow> byte \<Rightarrow> 'ip \<Rightarrow> TLSMessage \<Rightarrow>
   HTTPSOptions \<Rightarrow> 'w \<Rightarrow> (split_error, (nat \<times> 'x option \<times> send_state) \<times> 'w) outcome" where
  "TLSDesyncer_Desync d ch1 ch2 env ttl0 remoteIP msg opts w =
     (if https_Skip opts then Ret (sendSegments env ttl0 (whole (raw msg)), w)
      else
        obind (case (tls_sniffer d, tls_writer d) of
                 (Some optimalTTL, Some craft) \<Rightarrow>
                   if https_FakeCount opts > 0
                   then obind (sendFakePackets ch1 craft (optimalTTL remoteIP) opts w)
                          (\<lambda>(n, err, w'). Ret w')
                   else Ret w
               | _ \<Rightarrow> Ret w) (\<lambda>w'.
        obind (split ch2 (raw msg) opts) (\<lambda>segments.
          Ret (sendSegments env ttl0 segments, w'))))"

fun udp_fake_loop :: "('e, 'w) craft \<Rightarrow> byte \<Rightarrow> bytes \<Rightarrow> nat \<Rightarrow> nat \<Rightarrow> 'w \<Rightarrow> nat \<times> 'w" where
  "udp_fake_loop craft oTTL p 0 tot w = (tot, w)"
| "udp_fake_loop craft oTTL p (Suc k) tot w =
     (case craft oTTL p w of
        (Inl e, w') \<Rightarrow> udp_fake_loop craft oTTL p k tot w'
      | (Inr n, w') \<Rightarrow> udp_fake_loop craft oTTL p k (tot + n) w')"

definition UDPDesyncer_PrepareHopTrack ::
  "('ip list \<Rightarrow> 's \<Rightarrow> 's) option \<Rightarrow> 'ip list \<Rightarrow> UDPOptions \<Rightarrow> 's \<Rightarrow> 's" where
  "UDPDesyncer_PrepareHopTrack register addrs cfg s =
     (case register of None \<Rightarrow> s | Some reg \<Rightarrow> if udp_FakeCount cfg = 0 then s else reg addrs s)"

definition UDPDesyncer_Desync ::
  "('ip, 'e, 'w) TLSDesyncer \<Rightarrow> 'ip \<Rightarrow> UDPOptions \<Rightarrow> 'w \<Rightarrow> nat \<times> 'w" where
  "UDPDesyncer_Desync d dstIP opts w =
     (case (tls_sniffer d, tls_writer d) of
        (Some optimalTTL, Some craft) \<Rightarrow>
          if udp_FakeCount opts = 0 then (0, w)
          else udp_fake_loop craft (optimalTTL dstIP) (udp_FakePacket opts)
                 (unat (udp_FakeCount opts)) 0 w
      | _ \<Rightarrow> (0, w))"

section \<open>Reassembly\<close>

definition payload :: "Segment list \<Rightarrow> bytes" where
  "payload segs = concat (map Packet segs)"

lemma payload_simps [simp]:
  "payload [] = []" "payload (s # segs) = Packet s @ payload segs"
  "payload (xs @ ys) = payload xs @ payload ys" "payload (whole b) = b"
  by (simp_all add: payload_def whole_def)

lemma payload_chunk_loop: "0 < sz \<Longrightarrow> payload (chunk_loop b sz d dis) = b"
proof (induction b sz d dis rule: chunk_loop.induct)
  case (1 b sz d dis)
  then show ?case by (subst chunk_loop.simps) (auto simp: Let_def)
qed

lemma payload_single_bytes: "payload (fst (single_bytes b d dis)) = b"
  by (induction b d dis rule: single_bytes.induct) (auto split: prod.splits)

lemma payload_splitSNI:
  assumes "splitSNI b start end' dis = Inr segs"
  shows "payload segs = b"
proof -
  obtain ss d where s: "single_bytes (take (end' - start) (drop start b)) True dis = (ss, d)"
    by fastforce
  with payload_single_bytes [of "take (end' - start) (drop start b)" True dis]
  have p: "payload ss = take (end' - start) (drop start b)" by simp
  from assms s have r: "start \<le> end'" "end' < length b"
    and segs: "payload segs = take start b @ payload ss @ drop end' b"
    by (auto simp: splitSNI_def split: if_splits)
  have "take (end' - start) (drop start b) @ drop end' b = drop start b"
    using r(1) by (metis append_take_drop_id drop_drop le_add_diff_inverse2)
  then show ?thesis using segs p by simp
qed

lemma drop_glue: "i \<le> j \<Longrightarrow> take (j - i) (drop i b) @ drop j b = drop i b"
  by (metis append_take_drop_id drop_drop le_add_diff_inverse2)

lemma payload_mask_loop:
  "start \<le> i \<Longrightarrow> i \<le> length b \<Longrightarrow>
   payload (mask_loop b msk dis [i..<length b] start d cb) = drop start b"
proof (induction "length b - i" arbitrary: i start d cb)
  case 0
  then show ?case by simp
next
  case (Suc n)
  then have i: "i < length b" "[i..<length b] = i # [Suc i..<length b]"
    by (simp_all add: upt_conv_Cons)
  have IH: "payload (mask_loop b msk dis [Suc i..<length b] s dd cb') = drop s b" if "s \<le> Suc i" for s dd cb'
    using Suc.hyps(1) [of "Suc i" s] Suc.hyps(2) i(1) that by simp
  have "take (Suc 0) (drop i b) @ drop (Suc i) b = drop i b"
    using drop_glue [of i "Suc i" b] by simp
  then show ?case
    unfolding i(2) using IH [of "Suc i"] IH [of start] Suc.prems(1) drop_glue [of start i b]
    by (auto simp: Let_def)
qed

lemma payload_cut_points:
  "0 \<le> prv \<Longrightarrow> prv \<le> int (length b) \<Longrightarrow> sorted (map sp_at ps) \<Longrightarrow>
   \<forall>p\<in>set ps. prv \<le> sp_at p \<and> sp_at p \<le> int (length b) \<Longrightarrow>
   \<exists>segs. cut_points b prv ps = Ret segs \<and> payload segs = drop (nat prv) b"
proof (induction ps arbitrary: prv)
  case Nil
  then show ?case by simp
next
  case (Cons p ps)
  show ?case
  proof (cases "sp_at p = prv")
    case True
    with Cons show ?thesis by simp
  next
    case False
    with Cons.prems have lt: "prv < sp_at p" "sp_at p \<le> int (length b)" by auto
    obtain segs where segs: "cut_points b (sp_at p) ps = Ret segs" "payload segs = drop (nat (sp_at p)) b"
      using Cons.IH [of "sp_at p"] Cons.prems lt by auto
    moreover have "nat prv \<le> nat (sp_at p)" "nat (sp_at p) \<le> length b" using lt by linarith+
    ultimately show ?thesis
      using False lt Cons.prems(1) drop_glue [of "nat prv" "nat (sp_at p)" b]
      by (simp add: gslice_in_range)
  qed
qed

text \<open>What is used of \<open>slices.SortFunc\<close>: its result is a sorted permutation.\<close>

definition sorts :: "(splitPoint list \<Rightarrow> splitPoint list) \<Rightarrow> bool" where
  "sorts f \<longleftrightarrow> (\<forall>ps. mset (f ps) = mset ps \<and> sorted (map sp_at (f ps)))"

text \<open>The draw of a plan panics exactly when twice its noise overflows an \<open>int64\<close>.\<close>

definition noise_overflows :: "SegmentPlan \<Rightarrow> bool" where
  "noise_overflows s \<longleftrightarrow> 2 ^ 62 \<le> Noise s"

lemma noise_bound:
  assumes "in_int64 (Noise s)" "0 < Noise s"
  shows "wrap64 (wrap64 (Noise s * 2) + 1) \<le> 0 \<longleftrightarrow> noise_overflows s"
proof (cases "Noise s < 2 ^ 62")
  case True
  then show ?thesis using assms(2) by (simp add: noise_overflows_def in_int64_def)
next
  case False
  have n: "2 ^ 62 \<le> Noise s" "Noise s < 2 ^ 63" using False assms by (simp_all add: in_int64_def)
  have "(Noise s * 2 + 2 ^ 63) mod 2 ^ 64 = (Noise s * 2 - 2 ^ 63 + 2 ^ 64) mod (2 ^ 64 :: int)"
    by (simp add: add.commute)
  also have "\<dots> = Noise s * 2 - 2 ^ 63"
    unfolding mod_add_self2 using n by (intro mod_pos_pos_trivial) simp_all
  finally have "wrap64 (Noise s * 2) = Noise s * 2 - 2 ^ 64" by (simp add: wrap64_def)
  with n show ?thesis by (simp add: noise_overflows_def in_int64_def)
qed

lemma plan_points_cases:
  assumes "\<forall>s\<in>set plans. in_int64 (Noise s)"
  shows "if \<exists>s\<in>set plans. noise_overflows s then plan_points rn n st j plans = Panic
    else \<exists>ps. plan_points rn n st j plans = Ret ps \<and> (\<forall>p\<in>set ps. 0 \<le> sp_at p \<and> sp_at p \<le> int n)"
  using assms
proof (induction plans arbitrary: j)
  case Nil
  then show ?case by simp
next
  case (Cons s plans)
  have s: "in_int64 (Noise s)" using Cons.prems by simp
  show ?case
  proof (cases "noise_overflows s")
    case True
    then have pos: "0 < Noise s" by (simp add: noise_overflows_def)
    with True noise_bound [OF s pos] have "plan_point rn n st j s = Panic"
      by (simp add: plan_point_def rand_IntN_def)
    with True show ?thesis by simp
  next
    case False
    then obtain p where "plan_point rn n st j s = Ret p" "0 \<le> sp_at p" "sp_at p \<le> int n"
      using noise_bound [OF s] by (cases "0 < Noise s") (auto simp: plan_point_def rand_IntN_def Let_def)
    with Cons.IH [of "Suc j"] Cons.prems False show ?thesis by (auto split: if_splits)
  qed
qed

lemma applySegmentPlans_cases:
  assumes "sorts f" "\<forall>s\<in>set plans. in_int64 (Noise s)"
  shows "case ExtractSNIOffset b of
      Panic \<Rightarrow> False
    | Fail e \<Rightarrow> applySegmentPlans rn f b plans = Fail (SniError e)
    | Ret _ \<Rightarrow> if \<exists>s\<in>set plans. noise_overflows s then applySegmentPlans rn f b plans = Panic
        else \<exists>segs. applySegmentPlans rn f b plans = Ret segs \<and> payload segs = b"
proof (cases "ExtractSNIOffset b")
  case (Ret se)
  obtain st e where se: "se = (st, e)" by (cases se)
  note pp = plan_points_cases [OF assms(2), of rn "length b" st 0]
  show ?thesis
  proof (cases "\<exists>s\<in>set plans. noise_overflows s")
    case True
    with pp Ret se show ?thesis by (simp add: applySegmentPlans_def)
  next
    case False
    with pp obtain ps where ps: "plan_points rn (length b) st 0 plans = Ret ps"
      "\<forall>p\<in>set ps. 0 \<le> sp_at p \<and> sp_at p \<le> int (length b)" by auto
    have f: "set (f ps) = set ps" "sorted (map sp_at (f ps))"
      using assms(1) mset_eq_setD unfolding sorts_def by blast+
    obtain segs where "cut_points b 0 (f ps) = Ret segs" "payload segs = drop (nat 0) b"
      using payload_cut_points [of 0 b "f ps"] ps(2) f by auto
    with False ps Ret se show ?thesis by (simp add: applySegmentPlans_def)
  qed
next
  case Panic
  then show ?thesis using ExtractSNIOffset_safe [of b] by (simp add: sni_safe_def)
qed (simp add: applySegmentPlans_def)

lemma split_by_mode_payload:
  assumes "sorts (sortPoints ch)" "\<forall>s\<in>set (CustomSegmentPlans opts). in_int64 (Noise s)"
    and "split_by_mode ch b opts = Ret segs"
  shows "payload segs = b"
proof (cases "SplitMode opts")
  case HTTPSSplitModeSNI
  with assms(3) payload_splitSNI show ?thesis
    by (auto simp: split_by_mode_def lift_split_def Let_def obind_Ret_conv
        split: outcome.splits sum.splits)
next
  case HTTPSSplitModeRandom
  with assms(3) payload_mask_loop [of 0 0 b] show ?thesis
    by (auto simp: split_by_mode_def lift_split_def splitMask_def split: if_splits)
next
  case HTTPSSplitModeChunk
  with assms(3) show ?thesis
    by (auto simp: split_by_mode_def lift_split_def splitChunks_def payload_chunk_loop split: if_splits)
next
  case HTTPSSplitModeFirstByte
  with assms(3) show ?thesis
    by (auto simp: split_by_mode_def lift_split_def splitFirstByte_def split: if_splits)
next
  case HTTPSSplitModeCustom
  with assms(3) applySegmentPlans_cases [OF assms(1,2), where b = b and rn = "rnd ch"] show ?thesis
    by (auto simp: split_by_mode_def split: outcome.splits if_splits)
next
  case HTTPSSplitModeNone
  with assms(3) show ?thesis by (auto simp: split_by_mode_def)
qed

lemma split_by_mode_Panic_iff:
  assumes "sorts (sortPoints ch)" "\<forall>s\<in>set (CustomSegmentPlans opts). in_int64 (Noise s)"
  shows "split_by_mode ch b opts = Panic \<longleftrightarrow> SplitMode opts = HTTPSSplitModeCustom \<and>
    (\<exists>se. ExtractSNIOffset b = Ret se) \<and> (\<exists>s\<in>set (CustomSegmentPlans opts). noise_overflows s)"
proof -
  have sni: "ExtractSNIOffset b \<noteq> Panic" "ExtractSNIOffset b = Ret (s, e) \<Longrightarrow> s \<le> e \<and> e \<le> length b" for s e
    using ExtractSNIOffset_safe [of b] by (auto simp: sni_safe_def)
  show ?thesis
  proof (cases "SplitMode opts")
    case HTTPSSplitModeSNI
    with sni show ?thesis
      by (auto simp: split_by_mode_def lift_split_def Let_def gslice_in_range
          split: outcome.splits sum.splits)
  next
    case HTTPSSplitModeCustom
    with applySegmentPlans_cases [OF assms, where b = b and rn = "rnd ch"] show ?thesis
      by (auto simp: split_by_mode_def split: outcome.splits if_splits)
  qed (auto simp: split_by_mode_def lift_split_def split: sum.splits)
qed

section \<open>The random mask has a bit in every byte\<close>

definition block_hit :: "u64 \<Rightarrow> nat \<Rightarrow> bool" where
  "block_hit m j \<longleftrightarrow> (\<exists>k<8. bit m (8 * j + k))"

lemma RotateLeft8_single: "\<exists>n<8. bit (RotateLeft8 1 k) n" "\<exists>n<8. bit (RotateLeft8 0b10000000 k) n"
proof -
  have "x \<noteq> 0 \<Longrightarrow> RotateLeft8 x k \<noteq> 0" for x
  proof
    assume "x \<noteq> 0" "RotateLeft8 x k = 0"
    then have "x = word_rotr (nat (k mod 8)) 0" by (metis RotateLeft8_def word_rot_gal')
    also have "\<dots> = 0" by (rule bit_word_eqI) (simp add: bit_simps)
    finally show False using \<open>x \<noteq> 0\<close> by simp
  qed
  moreover have "y \<noteq> 0 \<Longrightarrow> \<exists>n<8. bit y n" for y :: byte
    using bit_word_eqI [of y 0] by auto
  ultimately show "\<exists>n<8. bit (RotateLeft8 1 k) n" "\<exists>n<8. bit (RotateLeft8 0b10000000 k) n" by simp_all
qed

lemma block_hit_OR: "block_hit a j \<Longrightarrow> block_hit (a OR b) j" "block_hit b j \<Longrightarrow> block_hit (a OR b) j"
  by (auto simp: block_hit_def bit_or_iff)

lemma block_hit_block:
  assumes "\<exists>n<8. bit x n" "j < 8" "s = 8 * j"
  shows "block_hit (block_bits s x) j"
proof -
  from assms(1) obtain n where n: "n < 8" "bit x n" by blast
  with assms have "bit (block_bits s x) (8 * j + n)"
    by (simp add: block_bits_def bit_simps)
  with n show ?thesis by (auto simp: block_hit_def)
qed

lemma mask_blocks_hit:
  assumes "j < 8"
  shows "block_hit ((((((((((0b10101001 OR block_bits 8 (RotateLeft8 0b10000000 a)) OR block_bits 8 (RotateLeft8 0b10000000 b))
       OR block_bits 16 (RotateLeft8 0b00000001 c)) OR block_bits 24 (RotateLeft8 0b00000001 d))
       OR block_bits 32 (RotateLeft8 0b00000001 e)) OR block_bits 32 (RotateLeft8 0b00000001 f))
       OR block_bits 32 (RotateLeft8 0b00000001 g)) OR block_bits 40 (RotateLeft8 0b00000001 h))
       OR block_bits 48 (RotateLeft8 0b00000001 i)) OR block_bits 56 (RotateLeft8 0b00000001 l)) j"
proof -
  have 0: "block_hit 0b10101001 0" by (auto simp: block_hit_def intro!: exI [of _ 0])
  have 1: "block_hit (block_bits 8 (RotateLeft8 0b10000000 k)) 1" for k
    by (rule block_hit_block [OF RotateLeft8_single(2)]) simp_all
  have n: "block_hit (block_bits (8 * j) (RotateLeft8 1 k)) j" if "j < 8" for j k
    by (rule block_hit_block [OF RotateLeft8_single(1) that refl])
  have 2: "block_hit (block_bits 16 (RotateLeft8 1 k)) 2" "block_hit (block_bits 24 (RotateLeft8 1 k)) 3"
    "block_hit (block_bits 32 (RotateLeft8 1 k)) 4" "block_hit (block_bits 40 (RotateLeft8 1 k)) 5"
    "block_hit (block_bits 48 (RotateLeft8 1 k)) 6" "block_hit (block_bits 56 (RotateLeft8 1 k)) 7" for k
    using n [of 2 k] n [of 3 k] n [of 4 k] n [of 5 k] n [of 6 k] n [of 7 k] by simp_all
  from assms consider "j = 0" | "j = 1" | "j = 2" | "j = 3" | "j = 4" | "j = 5" | "j = 6" | "j = 7"
    by linarith
  then show ?thesis
    by cases (simp only: Num.numeral_One, blast intro: 0 1 2 block_hit_OR)+
qed

lemma genPatternMask_hits: "j < 8 \<Longrightarrow> block_hit (genPatternMask s) j"
  unfolding genPatternMask_def Let_def by (rule mask_blocks_hit)

section \<open>Segments cut by a random mask are short\<close>

definition mask_hit :: "u64 \<Rightarrow> nat \<Rightarrow> bool" where
  "mask_hit msk i \<longleftrightarrow> bit msk (i mod 64)"

text \<open>The rotating bit of the loop selects bit \<open>i mod 64\<close> of the mask.\<close>

definition cur_bit :: "nat \<Rightarrow> u64" where
  "cur_bit i = push_bit (i mod 64) 1"

lemma cur_bit_0: "cur_bit 0 = 1"
  by (simp add: cur_bit_def)

lemma cur_bit_Suc: "cur_bit (Suc i) = word_rotl 1 (cur_bit i)"
proof (rule bit_word_eqI)
  fix n assume "n < LENGTH(64)"
  then have n: "n < 64" by simp
  have "(n + 63) mod 64 = (if n = 0 then 63 else n - 1)"
  proof (cases n)
    case (Suc m)
    then have "n + 63 = m + 64" by simp
    then show ?thesis using n Suc by simp
  qed simp
  moreover have "Suc i mod 64 = (if Suc (i mod 64) = 64 then 0 else Suc (i mod 64))" by (rule mod_Suc)
  ultimately have rot: "(n + (64 - 1 mod 64)) mod 64 = i mod 64 \<longleftrightarrow> n = Suc i mod 64"
    using n by auto
  show "bit (cur_bit (Suc i)) n = bit (word_rotl 1 (cur_bit i)) n"
    using n rot
    by (auto simp: cur_bit_def bit_word_rotl_iff bit_exp_iff)
qed

lemma cur_bit_hit: "msk AND cur_bit i = cur_bit i \<longleftrightarrow> mask_hit msk i"
proof -
  have "msk AND push_bit k 1 = push_bit k 1 \<longleftrightarrow> bit msk k" if "k < 64" for k
  proof
    assume "msk AND push_bit k 1 = push_bit k 1"
    then have "bit (msk AND push_bit k 1) k = bit (push_bit k 1 :: u64) k" by simp
    with that show "bit msk k" by (simp add: bit_simps)
  next
    assume "bit msk k"
    then show "msk AND push_bit k 1 = push_bit k 1"
      by (intro bit_word_eqI) (auto simp: bit_and_iff bit_exp_iff)
  qed
  then show ?thesis by (simp add: cur_bit_def mask_hit_def)
qed

lemma mask_window:
  assumes "\<And>j. j < 8 \<Longrightarrow> block_hit msk j"
  shows "\<exists>k<15. mask_hit msk (s + k)"
proof -
  define i0 where "i0 = 8 * ((s + 7) div 8)"
  obtain k where k: "k < 8" "bit msk (8 * ((i0 div 8) mod 8) + k)"
    using assms [of "(i0 div 8) mod 8"] by (auto simp: block_hit_def)
  have "s \<le> i0" "i0 \<le> s + 7" unfolding i0_def by presburger+
  moreover have "(i0 + k) mod (8 * 8) = 8 * ((i0 + k) div 8 mod 8) + (i0 + k) mod 8"
    by (rule mod_mult2_eq)
  then have "(i0 + k) mod 64 = 8 * ((i0 div 8) mod 8) + k"
    using k(1) by (simp add: i0_def)
  ultimately show ?thesis
    using k
    by (intro exI [of _ "i0 + k - s"]) (auto simp: mask_hit_def)
qed

lemma mask_loop_short:
  assumes win: "\<And>s. \<exists>k<15. mask_hit msk (s + k)"
    and "start \<le> i" "i \<le> length b" "\<forall>k. start \<le> k \<and> k < i \<longrightarrow> \<not> mask_hit msk k"
    and "seg \<in> set (mask_loop b msk dis [i..<length b] start d (cur_bit i))"
  shows "Packet seg \<noteq> [] \<and> length (Packet seg) \<le> 14"
  using assms(2-)
proof (induction "length b - i" arbitrary: i start d)
  case 0
  obtain k where k: "k < 15" "mask_hit msk (start + k)" using win [of start] by blast
  with 0 have "length b \<le> start + k" by (auto simp: not_less [symmetric])
  with 0 k show ?case by (auto split: if_splits)
next
  case (Suc n)
  then have i: "i < length b" "[i..<length b] = i # [Suc i..<length b]" "n = length b - Suc i"
    by (simp_all add: upt_conv_Cons)
  obtain k where k: "k < 15" "mask_hit msk (start + k)" using win [of start] by blast
  with Suc.prems(3) have "i \<le> start + k" by (auto simp: not_less [symmetric])
  with k have short: "i - start \<le> 14" by simp
  show ?case
  proof (cases "mask_hit msk i")
    case True
    have IH: "Packet seg \<noteq> [] \<and> length (Packet seg) \<le> 14"
      if "seg \<in> set (mask_loop b msk dis [Suc i..<length b] (Suc i) dd (cur_bit (Suc i)))" for dd
      by (rule Suc.hyps(1) [OF i(3) _ _ _ that]) (use i(1) in auto)
    from Suc.prems(4) True i short consider
      "seg \<in> set (mask_loop b msk dis [Suc i..<length b] (Suc i) (\<not> d) (cur_bit (Suc i)))"
    | "seg \<in> set (mask_loop b msk dis [Suc i..<length b] (Suc i) d (cur_bit (Suc i)))"
    | "start < i" "Packet seg = take (i - start) (drop start b)" | "Packet seg = take 1 (drop i b)"
      unfolding i(2) by (auto simp: cur_bit_hit cur_bit_Suc Let_def split: if_splits)
    then show ?thesis using IH i(1) short by cases auto
  next
    case False
    then have "\<forall>k. start \<le> k \<and> k < Suc i \<longrightarrow> \<not> mask_hit msk k"
      using Suc.prems(3) by (auto simp: less_Suc_eq)
    then show ?thesis
      using Suc.hyps(1) [OF i(3), of start] Suc.prems i(1) False unfolding i(2)
      by (simp add: cur_bit_hit cur_bit_Suc)
  qed
qed

section \<open>The TTL while sending\<close>

text \<open>The TTL each chunk should leave with.\<close>

definition intended :: "Segment \<Rightarrow> byte \<times> bytes" where
  "intended s = (if Lazy s then 1 else getDefaultTTL, Packet s)"

lemma conn_write_ok:
  "\<forall>k. wr env k = None \<Longrightarrow> conn_write env b st =
     (None, st\<lparr>sent := sent st @ [(sock_ttl st, b)], write_calls := Suc (write_calls st),
        total_n := total_n st + length b\<rparr>)"
  by (simp add: conn_write_def)

lemma setTTLWrap_ok:
  "\<forall>k. ttl_ok env k \<Longrightarrow> setTTLWrap env t st = st\<lparr>sock_ttl := t, ttl_calls := Suc (ttl_calls st)\<rparr>"
  by (simp add: setTTLWrap_def)

lemma send_loop_all_ok:
  assumes "\<forall>k. ttl_ok env k" "\<forall>k. wr env k = None"
    and "\<not> ttlErrored st" "sock_ttl st = getDefaultTTL"
  shows "\<exists>st'. send_loop env segs st = (None, st') \<and> sent st' = sent st @ map intended segs \<and>
    sock_ttl st' = getDefaultTTL \<and> \<not> ttlErrored st' \<and> total_n st' = total_n st + length (payload segs)"
  using assms(3,4)
proof (induction segs arbitrary: st)
  case (Cons s segs)
  note step = conn_write_ok [OF assms(2)] setTTLWrap_ok [OF assms(1)]
  obtain st3 where st3: "send_loop env (s # segs) st = send_loop env segs st3"
    "sent st3 = sent st @ [intended s]" "\<not> ttlErrored st3" "sock_ttl st3 = getDefaultTTL"
    "total_n st3 = total_n st + length (Packet s)"
    using Cons.prems by (cases "Lazy s") (auto simp: step intended_def Let_def)
  with Cons.IH [OF st3(3,4)] show ?case by (auto simp: add.assoc)
qed simp

text \<open>Once the flag is set the TTL is never touched again.\<close>

lemma send_loop_stuck:
  assumes "ttlErrored st" "\<forall>k. wr env k = None"
  shows "\<exists>st'. send_loop env segs st = (None, st') \<and>
    sent st' = sent st @ map (\<lambda>s. (sock_ttl st, Packet s)) segs \<and> sock_ttl st' = sock_ttl st"
  using assms(1)
proof (induction segs arbitrary: st)
  case (Cons s segs)
  obtain st2 where st2: "send_loop env (s # segs) st = send_loop env segs st2"
    "sent st2 = sent st @ [(sock_ttl st, Packet s)]" "ttlErrored st2" "sock_ttl st2 = sock_ttl st"
    using Cons.prems by (auto simp: conn_write_ok [OF assms(2)] Let_def)
  with Cons.IH [OF st2(3)] show ?case by auto
qed simp

section \<open>Properties\<close>

text \<open>
  When a mode cannot be applied to a message: no server name, or one that ends with the message; too few bytes; a chunk size of zero.
\<close>

definition unusable :: "HTTPSOptions \<Rightarrow> bytes \<Rightarrow> bool" where
  "unusable opts b =
     (case SplitMode opts of
        HTTPSSplitModeSNI \<Rightarrow> \<not> (\<exists>s e. ExtractSNIOffset b = Ret (s, e) \<and> e < length b)
      | HTTPSSplitModeRandom \<Rightarrow> b = []
      | HTTPSSplitModeChunk \<Rightarrow> b = [] \<or> ChunkSize opts = 0
      | HTTPSSplitModeFirstByte \<Rightarrow> length b < 2
      | HTTPSSplitModeCustom \<Rightarrow> \<not> (\<exists>se. ExtractSNIOffset b = Ret se)
      | HTTPSSplitModeNone \<Rightarrow> True)"

text \<open>Where a mode that can be applied cuts the message.\<close>

definition cut_as_asked :: "HTTPSOptions \<Rightarrow> bytes \<Rightarrow> bytes list \<Rightarrow> bool" where
  "cut_as_asked opts b ps =
     (case SplitMode opts of
        HTTPSSplitModeSNI \<Rightarrow>
          \<exists>s e. ExtractSNIOffset b = Ret (s, e) \<and> ps = [take s b] @ map (\<lambda>x. [x]) (take (e - s) (drop s b)) @ [drop e b]
      | HTTPSSplitModeRandom \<Rightarrow> \<forall>p \<in> set ps. p \<noteq> [] \<and> length p \<le> 14
      | HTTPSSplitModeChunk \<Rightarrow>
          (\<forall>p \<in> set (butlast ps). length p = unat (ChunkSize opts)) \<and> (\<forall>p \<in> set ps. p \<noteq> [] \<and> length p \<le> unat (ChunkSize opts))
      | HTTPSSplitModeFirstByte \<Rightarrow> ps = [take 1 b, drop 1 b]
      | HTTPSSplitModeCustom \<Rightarrow> [] \<notin> set ps
      | HTTPSSplitModeNone \<Rightarrow> True)"

lemma chunk_loop_Nil_iff: "0 < sz \<Longrightarrow> chunk_loop b sz d dis = [] \<longleftrightarrow> b = []"
  by (subst chunk_loop.simps) (simp add: Let_def)

lemma chunk_loop_shape:
  assumes "0 < sz"
  shows "(\<forall>p \<in> set (butlast (map Packet (chunk_loop b sz d dis))). length p = sz)
    \<and> (\<forall>p \<in> set (map Packet (chunk_loop b sz d dis)). p \<noteq> [] \<and> length p \<le> sz)"
proof (induction "length b" arbitrary: b d rule: less_induct)
  case less
  show ?case
  proof (cases "b = []")
    case True
    then show ?thesis by (simp add: chunk_loop_Nil_iff [OF assms, THEN iffD2])
  next
    case False
    let ?n = "min (length b) sz"
    have step: "chunk_loop b sz d dis = \<lparr>Packet = take ?n b, Lazy = d \<and> dis\<rparr> # chunk_loop (drop ?n b) sz (\<not> d) dis"
      using False assms by (subst chunk_loop.simps) (simp add: Let_def)
    have "length (drop ?n b) < length b"
      using False assms by simp
    note IH = less.hyps [OF this, of "\<not> d"]
    define xs where "xs = map Packet (chunk_loop (drop ?n b) sz (\<not> d) dis)"
    have xs: "map Packet (chunk_loop b sz d dis) = take ?n b # xs" "xs = [] \<longleftrightarrow> length b \<le> sz"
      using assms by (simp_all add: step xs_def chunk_loop_Nil_iff)
    have n: "take ?n b \<noteq> []" "length (take ?n b) \<le> sz" "xs \<noteq> [] \<Longrightarrow> length (take ?n b) = sz"
      using False assms xs(2) by auto
    show ?thesis
      unfolding xs(1) using IH n by (cases "xs = []") (simp_all add: xs_def [symmetric])
  qed
qed

lemma single_bytes_shape: "map Packet (fst (single_bytes b d dis)) = map (\<lambda>x. [x]) b"
  by (induction b d dis rule: single_bytes.induct) (auto split: prod.splits simp: Let_def)

lemma cut_points_nonempty:
  assumes "cut_points b i ps = Ret segs" "0 \<le> i"
  shows "[] \<notin> Packet ` set segs"
  using assms
proof (induction b i ps arbitrary: segs rule: cut_points.induct)
  case (2 b prvAt p ps)
  show ?case
  proof (cases "sp_at p = prvAt")
    case True
    with 2 show ?thesis by auto
  next
    case False
    with 2 obtain x rest where x: "gslice b (nat prvAt) (nat (sp_at p)) = (Ret x :: (split_error, bytes) outcome)"
      and rest: "cut_points b (sp_at p) ps = Ret rest" and segs: "segs = \<lparr>Packet = x, Lazy = sp_lazy p\<rparr> # rest"
      and lt: "prvAt < sp_at p"
      by (auto simp: obind_Ret_conv split: if_splits)
    have "x \<noteq> []"
      using x lt "2.prems"(2) by (auto simp: gslice_def split: if_splits)
    moreover have "[] \<notin> Packet ` set rest"
      using 2 False lt x rest by auto
    ultimately show ?thesis
      by (simp add: segs)
  qed
qed (auto split: if_splits)

lemma splitMask_short:
  assumes "splitMask b (genPatternMask s) disorder = Inr segs" "seg \<in> set segs"
  shows "Packet seg \<noteq> [] \<and> length (Packet seg) \<le> 14"
proof (rule mask_loop_short)
  show "\<exists>k<15. mask_hit (genPatternMask s) (i + k)" for i by (rule mask_window [OF genPatternMask_hits])
  show "seg \<in> set (mask_loop b (genPatternMask s) disorder [0..<length b] 0 True (cur_bit 0))"
    using assms by (simp add: splitMask_def cur_bit_0 split: if_splits)
qed simp_all

lemma unat_zero_iff [simp]: "unat (w :: byte) = 0 \<longleftrightarrow> w = 0"
  by (simp add: unat_eq_zero)

lemma split_sni:
  assumes "SplitMode opts = HTTPSSplitModeSNI"
  shows "\<exists>segs. split ch b opts = Ret segs \<and> (unusable opts b \<longrightarrow> segs = whole b) \<and> (\<not> unusable opts b \<longrightarrow> cut_as_asked opts b (map Packet segs))"
proof (cases "ExtractSNIOffset b")
  case (Ret se)
  obtain s e where se: "ExtractSNIOffset b = Ret (s, e)" using Ret by (cases se) simp
  then have ok: "s \<le> e" "e \<le> length b" using ExtractSNIOffset_safe [of b] by (auto simp: sni_safe_def)
  obtain segs d where sb: "single_bytes (take (e - s) (drop s b)) True (Disorder opts) = (segs, d)" by fastforce
  have pk: "map Packet segs = map (\<lambda>x. [x]) (take (e - s) (drop s b))"
    using single_bytes_shape [of "take (e - s) (drop s b)" True "Disorder opts"] by (simp add: sb)
  have split: "split_by_mode ch b opts = lift_split (splitSNI b s e (Disorder opts))"
    using ok by (simp add: split_by_mode_def assms se gslice_in_range Let_def)
  show ?thesis
  proof (cases "e < length b")
    case True
    then show ?thesis
      using ok pk by (auto simp: split_def split lift_split_def splitSNI_def sb unusable_def assms se cut_as_asked_def)
  next
    case False
    then show ?thesis
      using ok by (auto simp: split_def split lift_split_def splitSNI_def unusable_def assms se)
  qed
next
  case (Fail e)
  then show ?thesis by (simp add: split_def split_by_mode_def assms unusable_def)
next
  case Panic
  then show ?thesis using ExtractSNIOffset_safe [of b] by (simp add: sni_safe_def)
qed

lemma split_custom:
  assumes mode: "SplitMode opts = HTTPSSplitModeCustom"
    and plans: "sorts (sortPoints ch)" "\<forall>s\<in>set (CustomSegmentPlans opts). in_int64 (Noise s)"
    and segs: "split ch b opts = Ret segs"
  shows "(unusable opts b \<longrightarrow> segs = whole b) \<and> (\<not> unusable opts b \<longrightarrow> cut_as_asked opts b (map Packet segs))"
proof (cases "ExtractSNIOffset b")
  case (Ret se)
  then have "applySegmentPlans (rnd ch) (sortPoints ch) b (CustomSegmentPlans opts) = Ret segs"
    using segs applySegmentPlans_cases [OF plans, where b = b and rn = "rnd ch"]
    by (auto simp: split_def split_by_mode_def mode split: if_splits)
  then obtain points where "cut_points b 0 points = Ret segs"
    by (auto simp: applySegmentPlans_def Ret obind_Ret_conv split: prod.splits)
  then have "[] \<notin> Packet ` set segs"
    by (rule cut_points_nonempty) simp
  then show ?thesis
    using Ret by (auto simp: unusable_def mode cut_as_asked_def)
next
  case (Fail e)
  then show ?thesis using segs by (simp add: split_def split_by_mode_def mode unusable_def applySegmentPlans_def)
next
  case Panic
  then show ?thesis using ExtractSNIOffset_safe [of b] by (simp add: sni_safe_def)
qed

lemma split_cuts:
  assumes plans: "sorts (sortPoints ch)" "\<forall>s\<in>set (CustomSegmentPlans opts). in_int64 (Noise s)"
    and segs: "split ch b opts = Ret segs"
  shows "(unusable opts b \<longrightarrow> segs = whole b) \<and> (\<not> unusable opts b \<longrightarrow> cut_as_asked opts b (map Packet segs))"
proof (cases "SplitMode opts")
  case HTTPSSplitModeSNI
  with split_sni [OF this, of ch b] segs show ?thesis by simp
next
  case HTTPSSplitModeRandom
  then show ?thesis
    using segs splitMask_short [of b "seed ch" "Disorder opts"]
    by (auto simp: split_def split_by_mode_def lift_split_def unusable_def cut_as_asked_def splitMask_def split: if_splits sum.splits)
next
  case HTTPSSplitModeChunk
  show ?thesis
  proof (cases "b = [] \<or> unat (ChunkSize opts) = 0")
    case True
    then show ?thesis
      using segs HTTPSSplitModeChunk
      by (auto simp: split_def split_by_mode_def lift_split_def unusable_def splitChunks_def split: if_splits)
  next
    case False
    then have "0 < unat (ChunkSize opts)" by (meson gr0I)
    with False show ?thesis
      using segs HTTPSSplitModeChunk chunk_loop_shape [of "unat (ChunkSize opts)" b True "Disorder opts"]
      by (simp add: split_def split_by_mode_def lift_split_def unusable_def cut_as_asked_def splitChunks_def)
  qed
next
  case HTTPSSplitModeFirstByte
  then show ?thesis
    using segs by (auto simp: split_def split_by_mode_def lift_split_def unusable_def cut_as_asked_def splitFirstByte_def split: if_splits)
next
  case HTTPSSplitModeCustom
  then show ?thesis by (rule split_custom [OF _ plans segs])
next
  case HTTPSSplitModeNone
  then show ?thesis using segs by (simp add: split_def split_by_mode_def unusable_def)
qed


definition stable_chance :: "u64 \<Rightarrow> chance" where
  "stable_chance s = \<lparr>seed = s, rnd = (\<lambda>_ _. 0), sortPoints = sort_key sp_at\<rparr>"

definition example_opts :: "HTTPSSplitModeType \<Rightarrow> HTTPSOptions" where
  "example_opts mode = \<lparr>Disorder = True, https_FakeCount = 0, https_FakePacket = None,
     SplitMode = mode, ChunkSize = 2, https_Skip = False, CustomSegmentPlans = []\<rparr>"

lemma sorts_sort_key: "sorts (sortPoints (stable_chance s))"
  by (simp add: sorts_def stable_chance_def)


text \<open>C6: splitting panics exactly when the mode is \<open>custom\<close>, the message is a client hello with a
  server name, and some plan's noise is at least \<open>2^62\<close>, so that \<open>Noise*2+1\<close> overflows and
  \<open>rand.IntN\<close> is called with a non-positive bound. Configuration files are not checked for this.\<close>

theorem split_panics_iff:
  assumes "sorts (sortPoints ch)" "\<forall>s\<in>set (CustomSegmentPlans opts). in_int64 (Noise s)"
  shows "split ch b opts = Panic \<longleftrightarrow> SplitMode opts = HTTPSSplitModeCustom \<and>
    (\<exists>se. ExtractSNIOffset b = Ret se) \<and> (\<exists>s\<in>set (CustomSegmentPlans opts). 2 ^ 62 \<le> Noise s)"
  using split_by_mode_Panic_iff [OF assms, of b]
  by (auto simp: split_def noise_overflows_def split: outcome.splits)

theorem split_panics_iff_witness:
  "split (stable_chance 0) FakeClientHello ((example_opts HTTPSSplitModeCustom)
     \<lparr>CustomSegmentPlans := [\<lparr>From = SegmentFromSNI, At = 0, plan_Lazy = False, Noise = 2 ^ 62\<rparr>]\<rparr>) = Panic"
proof -
  let ?o = "(example_opts HTTPSSplitModeCustom)
     \<lparr>CustomSegmentPlans := [\<lparr>From = SegmentFromSNI, At = 0, plan_Lazy = False, Noise = 2 ^ 62\<rparr>]\<rparr>"
  have "\<forall>s\<in>set (CustomSegmentPlans ?o). in_int64 (Noise s)" by (simp add: in_int64_def)
  moreover have "\<exists>se. ExtractSNIOffset FakeClientHello = Ret se"
  proof
    show "ExtractSNIOffset FakeClientHello = Ret (125, 140)" by code_simp
  qed
  moreover have "SplitMode ?o = HTTPSSplitModeCustom" by (simp add: example_opts_def)
  ultimately show ?thesis
    using split_panics_iff [OF sorts_sort_key, where opts = ?o and b = FakeClientHello] by simp
qed

text \<open>In random mode every segment is non-empty and at most 14 bytes long, for every seed: the
  mask has a bit in each of its bytes, and it is applied cyclically.\<close>

theorem random_segments_short:
  assumes "splitMask b (genPatternMask s) disorder = Inr segs" "seg \<in> set segs"
  shows "Packet seg \<noteq> [] \<and> length (Packet seg) \<le> 14"
  using assms by (rule splitMask_short)

theorem random_segments_short_witness:
  "\<exists>seg. splitMask [7] (genPatternMask 0) True = Inr [seg] \<and> length (Packet seg) \<le> 14"
proof -
  have "splitMask [7] (genPatternMask 0) True = Inr [\<lparr>Packet = [7], Lazy = True\<rparr>]" by code_simp
  with random_segments_short [OF this, of "\<lparr>Packet = [7], Lazy = True\<rparr>"] show ?thesis by auto
qed

text \<open>When the socket accepts every call, \<open>sendSegments\<close> writes the packets in order, each lazy
  one with TTL 1 and every other one with the default TTL, reports the exact byte count and leaves
  the socket at the default TTL.\<close>

theorem send_segments_ok:
  assumes "\<forall>k. ttl_ok env k" "\<forall>k. wr env k = None"
  shows "\<exists>st. sendSegments env getDefaultTTL segs = (length (concat (map Packet segs)), None, st) \<and>
    sent st = map intended segs \<and> sock_ttl st = getDefaultTTL"
  using send_loop_all_ok [OF assms, of "\<lparr>sock_ttl = getDefaultTTL, sent = [], ttlErrored = False,
      ttl_calls = 0, write_calls = 0, total_n = 0\<rparr>" segs]
  by (auto simp: sendSegments_def payload_def)

theorem send_segments_ok_witness:
  "\<exists>st. sendSegments \<lparr>ttl_ok = (\<lambda>_. True), wr = (\<lambda>_. None :: (nat \<times> unit) option)\<rparr> getDefaultTTL
      [\<lparr>Packet = [1], Lazy = True\<rparr>, \<lparr>Packet = [2, 3], Lazy = False\<rparr>] = (3, None, st) \<and>
    sent st = [(1, [1]), (64, [2, 3])]"
  using send_segments_ok [of "\<lparr>ttl_ok = (\<lambda>_. True), wr = (\<lambda>_. None :: (nat \<times> unit) option)\<rparr>"
      "[\<lparr>Packet = [1], Lazy = True\<rparr>, \<lparr>Packet = [2, 3], Lazy = False\<rparr>]"]
  by (auto simp: intended_def getDefaultTTL_def numeral_3_eq_3)

text \<open>When the TTL is lowered for a lazy first segment and restoring it then fails, every later
  segment leaves with TTL 1 and the connection stays at TTL 1.\<close>

theorem failed_restore_keeps_low_ttl:
  assumes "Lazy s" "ttl_ok env 0" "\<not> ttl_ok env 1" "\<forall>k. wr env k = None"
  shows "\<exists>n st. sendSegments env ttl0 (s # segs) = (n, None, st) \<and>
    sent st = map (\<lambda>x. (1, Packet x)) (s # segs) \<and> sock_ttl st = 1"
proof -
  define st3 where "st3 = \<lparr>sock_ttl = 1, sent = [(1, Packet s)], ttlErrored = True,
      ttl_calls = Suc (Suc 0), write_calls = 1, total_n = length (Packet s)\<rparr>"
  have "send_loop env (s # segs) \<lparr>sock_ttl = ttl0, sent = [], ttlErrored = False,
      ttl_calls = 0, write_calls = 0, total_n = 0\<rparr> = send_loop env segs st3"
    using assms by (simp add: conn_write_ok setTTLWrap_def st3_def Let_def)
  with send_loop_stuck [OF _ assms(4), of st3 segs] show ?thesis
    by (auto simp: sendSegments_def st3_def)
qed

theorem failed_restore_keeps_low_ttl_witness:
  "\<exists>n st. sendSegments \<lparr>ttl_ok = (\<lambda>k. k \<noteq> 1), wr = (\<lambda>_. None :: (nat \<times> unit) option)\<rparr> 64
      [\<lparr>Packet = [1], Lazy = True\<rparr>, \<lparr>Packet = [2], Lazy = False\<rparr>] = (n, None, st) \<and>
    sent st = [(1, [1]), (1, [2])]"
  using failed_restore_keeps_low_ttl [of "\<lparr>Packet = [1], Lazy = True\<rparr>"
      "\<lparr>ttl_ok = (\<lambda>k. k \<noteq> 1), wr = (\<lambda>_. None :: (nat \<times> unit) option)\<rparr>" 64
      "[\<lparr>Packet = [2], Lazy = False\<rparr>]"]
  by auto

end
