(* ===== verification/Conn_Registry.thy ===== *)
theory Conn_Registry
  imports Lru_Cache Ip_Keys
begin

text \<open>
  \<open>pkg/spoofdpi/internal/netutil/conn_registry.go\<close> and the idle-timeout connection of \<open>conn.go\<close>: the UDP
  relays of the proxy, kept in an LRU cache under their NAT key. Wrappers are shared objects (the cache, the
  relay goroutines and the handlers hold the same pointer), so the registry carries the list of all wrappers ever
  made and a pointer is an index of that list. The callback of the cache closes the raw connection, so the
  cache's record of callback calls is the record of raw connections the registry closed.
\<close>

section \<open>Idle-timeout connections\<close>

record IdleTimeoutConn =
  itc_Conn :: nat
  itc_Key :: NATKey
  itc_Timeout :: int
  lastActivity :: int
  expiredAt :: int

definition NewIdleTimeoutConn :: "nat \<Rightarrow> int \<Rightarrow> NATKey \<Rightarrow> int \<Rightarrow> IdleTimeoutConn" where
  "NewIdleTimeoutConn conn timeout key now =
     \<lparr>itc_Conn = conn, itc_Key = key, itc_Timeout = timeout, lastActivity = now,
      expiredAt = (if timeout > 0 then wrap64 (now + timeout) else 0)\<rparr>"

definition IsExpired :: "int \<Rightarrow> IdleTimeoutConn \<Rightarrow> bool" where
  "IsExpired now c \<longleftrightarrow> expiredAt c \<noteq> 0 \<and> now > expiredAt c"

definition Second :: int where
  "Second = 1000000000"

text \<open>
  \<open>ExtendDeadline\<close> on the connection itself: whether it was still alive, whether \<open>onActivity\<close> is called, and the
  updated connection. Go's integer division truncates; the timeout is positive where it is divided.
\<close>

definition ExtendDeadline :: "int \<Rightarrow> IdleTimeoutConn \<Rightarrow> bool \<times> bool \<times> IdleTimeoutConn" where
  "ExtendDeadline now c =
     (if IsExpired now c then (False, False, c)
      else
        let act = (wrap64 (now - lastActivity c) > Second);
            c1 = (if act then c\<lparr>lastActivity := now\<rparr> else c);
            c2 = (if itc_Timeout c > 0 \<and>
                     (expiredAt c = 0 \<or> wrap64 (expiredAt c - now) < wrap64 (itc_Timeout c * 7) div 10)
                  then c1\<lparr>expiredAt := wrap64 (now + itc_Timeout c)\<rparr> else c1)
        in (True, act, c2))"

section \<open>The registry\<close>

record ConnRegistry =
  storage :: "(NATKey, nat) LRUCache"
  reg_timeout :: int
  wrappers :: "IdleTimeoutConn list"
  conn_closes :: "nat list"

definition NewConnRegistry :: "int \<Rightarrow> int \<Rightarrow> (unit, ConnRegistry) outcome" where
  "NewConnRegistry cap timeout =
     obind (NewLRUCache 16 cap True) (\<lambda>c.
       Ret \<lparr>storage = c, reg_timeout = timeout, wrappers = [], conn_closes = []\<rparr>)"

definition Store :: "int \<Rightarrow> NATKey \<Rightarrow> nat \<Rightarrow> ConnRegistry \<Rightarrow> nat \<times> ConnRegistry" where
  "Store now key rawConn p =
     (let i = length (wrappers p) in
      (i, p\<lparr>wrappers := wrappers p @ [NewIdleTimeoutConn rawConn (reg_timeout p) key now],
            storage := snd (LRUCache_Set NATKey_Bytes key i None (storage p))\<rparr>))"

definition Fetch :: "NATKey \<Rightarrow> ConnRegistry \<Rightarrow> nat option \<times> ConnRegistry" where
  "Fetch key p = (case LRUCache_Get NATKey_Bytes key (storage p) of (v, c) \<Rightarrow> (v, p\<lparr>storage := c\<rparr>))"

definition Evict :: "NATKey \<Rightarrow> ConnRegistry \<Rightarrow> ConnRegistry" where
  "Evict key p = p\<lparr>storage := LRUCache_Delete NATKey_Bytes key (storage p)\<rparr>"

definition registry_Has :: "NATKey \<Rightarrow> ConnRegistry \<Rightarrow> bool" where
  "registry_Has key p = LRUCache_Has NATKey_Bytes key (storage p)"

definition registry_Size :: "ConnRegistry \<Rightarrow> nat" where
  "registry_Size p = LRUCache_Size (storage p)"

text \<open>The two loops that collect keys with \<open>ForEach\<close> and then evict them; the order of the visit is an argument.\<close>

definition collect_keys :: "(nat \<Rightarrow> bool) \<Rightarrow> NATKey list list \<Rightarrow> ConnRegistry \<Rightarrow> NATKey list" where
  "collect_keys P orders p =
     snd (LRUCache_ForEach (\<lambda>k v acc. (None :: unit option, if P v then acc @ [k] else acc)) orders (storage p) [])"

definition CloseAll :: "NATKey list list \<Rightarrow> ConnRegistry \<Rightarrow> ConnRegistry" where
  "CloseAll orders p = foldl (\<lambda>p k. Evict k p) p (collect_keys (\<lambda>_. True) orders p)"

definition evictExpired :: "int \<Rightarrow> NATKey list list \<Rightarrow> ConnRegistry \<Rightarrow> ConnRegistry" where
  "evictExpired now orders p =
     foldl (\<lambda>p k. Evict k p) p (collect_keys (\<lambda>i. IsExpired now (wrappers p ! i)) orders p)"

definition cleanupInterval :: "int \<Rightarrow> int" where
  "cleanupInterval timeout =
     min (max (sgn timeout * (\<bar>timeout\<bar> div 2)) (10 * Second)) (60 * Second)"

text \<open>A read or write through a wrapper extends its deadline; its \<open>Close\<close> evicts its key and closes the raw connection.\<close>

definition conn_touch :: "int \<Rightarrow> nat \<Rightarrow> ConnRegistry \<Rightarrow> bool \<times> ConnRegistry" where
  "conn_touch now i p =
     (case ExtendDeadline now (wrappers p ! i) of (alive, act, c) \<Rightarrow>
        let p = p\<lparr>wrappers := (wrappers p)[i := c]\<rparr> in
        (alive, if act then snd (Fetch (itc_Key c) p) else p))"

text \<open>The list \<open>conn_closes\<close> has the wrappers whose own \<open>Close\<close> closed the raw connection, beside what the cache closed.\<close>

definition raw_close :: "nat \<Rightarrow> ConnRegistry \<Rightarrow> ConnRegistry" where
  "raw_close i p = p\<lparr>conn_closes := conn_closes p @ [i]\<rparr>"

definition conn_Close :: "nat \<Rightarrow> ConnRegistry \<Rightarrow> ConnRegistry" where
  "conn_Close i p = raw_close i (Evict (itc_Key (wrappers p ! i)) p)"

section \<open>Runs of the registry\<close>

definition visits_all :: "NATKey list list \<Rightarrow> ConnRegistry \<Rightarrow> bool" where
  "visits_all orders p \<longleftrightarrow>
     list_all2 (\<lambda>s ks. set ks = dom (items s)) (shards (storage p)) orders"

text \<open>
  The steps of concurrent users. The cache locks each of its operations, callbacks included; everything else interleaves: \<open>Close\<close>
  evicts first and closes the raw connection in a later step (the second part of the state holds the wrappers in between); the two times of
  a wrapper are stored by any reader or writer at any moment; and the cleanup loops, which collect keys first, are nothing but
  evictions of some keys, one at a time.
\<close>

inductive reg_step :: "ConnRegistry \<times> nat list \<Rightarrow> ConnRegistry \<times> nat list \<Rightarrow> bool" where
  step_store: "reg_step (p, cl) (snd (Store now key conn p), cl)"
| step_fetch: "reg_step (p, cl) (snd (Fetch key p), cl)"
| step_evict: "reg_step (p, cl) (Evict key p, cl)"
| step_times: "i < length (wrappers p) \<Longrightarrow>
    reg_step (p, cl) (p\<lparr>wrappers := (wrappers p)[i := (wrappers p ! i)\<lparr>lastActivity := a, expiredAt := e\<rparr>]\<rparr>, cl)"
| step_on_close: "i < length (wrappers p) \<Longrightarrow> reg_step (p, cl) (Evict (itc_Key (wrappers p ! i)) p, i # cl)"
| step_raw_close: "i \<in> set cl \<Longrightarrow> reg_step (p, cl) (raw_close i p, remove1 i cl)"

inductive registry_run :: "ConnRegistry \<Rightarrow> ConnRegistry \<times> nat list \<Rightarrow> bool" where
  run_start: "registry_run p (p, [])"
| run_step: "registry_run p s \<Longrightarrow> reg_step s s' \<Longrightarrow> registry_run p s'"

definition registry_reaches :: "ConnRegistry \<Rightarrow> ConnRegistry \<Rightarrow> bool" where
  "registry_reaches p q = (\<exists>cl. registry_run p (q, cl))"

text \<open>Every wrapper made is in the cache under its own key or was closed by the cache, and only once.\<close>

definition wrapper_refs :: "ConnRegistry \<Rightarrow> (NATKey \<times> nat) list" where
  "wrapper_refs p = zip (map itc_Key (wrappers p)) [0..<length (wrappers p)]"

definition reg_inv :: "ConnRegistry \<Rightarrow> bool" where
  "reg_inv p \<longleftrightarrow>
     lru_inv NATKey_Bytes (storage p) \<and> notifies (storage p) \<and>
     mset (entries (storage p)) + mset (invalidated (storage p)) = mset (wrapper_refs p)"

lemma wrapper_refs_keys:
  "map itc_Key (wrappers p) = map itc_Key (wrappers q) \<Longrightarrow> wrapper_refs p = wrapper_refs q"
  using map_eq_imp_length_eq [of itc_Key "wrappers p" itc_Key "wrappers q"] by (simp add: wrapper_refs_def)

lemma wrapper_refs_storage [simp]: "wrapper_refs (p\<lparr>storage := c\<rparr>) = wrapper_refs p"
  "wrapper_refs (p\<lparr>conn_closes := l\<rparr>) = wrapper_refs p"
  by (simp_all add: wrapper_refs_def)

lemma Delete_notifies [simp]: "lru_inv kb c \<Longrightarrow> notifies (LRUCache_Delete kb k c) = notifies c"
  using step_keeps(1) [of kb c 0 "OpDelete k"] by simp

lemma Get_notifies [simp]: "lru_inv kb c \<Longrightarrow> notifies (snd (LRUCache_Get kb k c)) = notifies c"
  using step_keeps(1) [of kb c 0 "OpGet k"] by simp

lemma Set_notifies [simp]: "lru_inv kb c \<Longrightarrow> notifies (snd (LRUCache_Set kb k v opt c)) = notifies c"
  using step_keeps(1) [of kb c 0 "OpSet k v opt"] by simp

lemma Evict_inv: "reg_inv p \<Longrightarrow> reg_inv (Evict k p)"
  by (simp add: reg_inv_def Evict_def Delete_laws)

lemma Evict_simps [simp]: "wrappers (Evict k p) = wrappers p" "conn_closes (Evict k p) = conn_closes p"
  "reg_timeout (Evict k p) = reg_timeout p"
  by (simp_all add: Evict_def)

lemma Fetch_inv: "reg_inv p \<Longrightarrow> reg_inv (snd (Fetch k p))"
  by (simp add: reg_inv_def Fetch_def split_beta Get_laws)

lemma Evict_all_inv: "reg_inv p \<Longrightarrow> reg_inv (foldl (\<lambda>p k. Evict k p) p ks)"
  by (induction ks arbitrary: p) (simp_all add: Evict_inv)

lemma Store_inv:
  assumes "reg_inv p"
  shows "reg_inv (snd (Store now key conn p))"
proof -
  have acc: "fst (LRUCache_Set NATKey_Bytes key v None (storage p))" for v
    using assms by (simp add: reg_inv_def Set_accepted_iff set_accepted_def opts_or_default_def Options_def split: option.split)
  have "wrapper_refs (snd (Store now key conn p)) = wrapper_refs p @ [(key, length (wrappers p))]"
    by (simp add: wrapper_refs_def Store_def Let_def NewIdleTimeoutConn_def)
  then show ?thesis
    using assms Set_balance [OF _ acc, of "length (wrappers p)"]
    by (simp add: reg_inv_def Store_def Let_def Set_inv)
qed

lemma ExtendDeadline_keeps:
  "itc_Key (snd (snd (ExtendDeadline now c))) = itc_Key c" "itc_Conn (snd (snd (ExtendDeadline now c))) = itc_Conn c"
  "itc_Timeout (snd (snd (ExtendDeadline now c))) = itc_Timeout c"
  by (simp_all add: ExtendDeadline_def Let_def)

lemma touch_inv:
  assumes "reg_inv p" "i < length (wrappers p)"
  shows "reg_inv (snd (conn_touch now i p))"
proof -
  obtain alive act c where e: "ExtendDeadline now (wrappers p ! i) = (alive, act, c)" by (cases "ExtendDeadline now (wrappers p ! i)")
  with ExtendDeadline_keeps(1) [of now "wrappers p ! i"] have "itc_Key c = itc_Key (wrappers p ! i)" by simp
  then have "wrapper_refs (p\<lparr>wrappers := (wrappers p)[i := c]\<rparr>) = wrapper_refs p"
    using assms(2) by (intro wrapper_refs_keys) (simp add: map_update list_update_same_conv)
  with assms(1) have "reg_inv (p\<lparr>wrappers := (wrappers p)[i := c]\<rparr>)" by (simp add: reg_inv_def)
  then show ?thesis by (simp add: conn_touch_def e Let_def Fetch_inv)
qed

lemma raw_close_simps [simp]: "storage (raw_close i p) = storage p" "wrappers (raw_close i p) = wrappers p"
  "wrapper_refs (raw_close i p) = wrapper_refs p" "conn_closes (raw_close i p) = conn_closes p @ [i]"
  by (simp_all add: raw_close_def)

lemma raw_close_inv [simp]: "reg_inv (raw_close i p) = reg_inv p"
  by (simp add: reg_inv_def)

lemma close_inv: "reg_inv p \<Longrightarrow> reg_inv (conn_Close i p)"
  by (simp add: conn_Close_def Evict_inv)

lemma times_inv:
  assumes "reg_inv p" "i < length (wrappers p)"
  shows "reg_inv (p\<lparr>wrappers := (wrappers p)[i := (wrappers p ! i)\<lparr>lastActivity := a, expiredAt := e\<rparr>]\<rparr>)"
proof -
  have "wrapper_refs (p\<lparr>wrappers := (wrappers p)[i := (wrappers p ! i)\<lparr>lastActivity := a, expiredAt := e\<rparr>]\<rparr>) = wrapper_refs p"
    using assms(2) by (intro wrapper_refs_keys) (simp add: map_update list_update_same_conv)
  then show ?thesis using assms(1) by (simp add: reg_inv_def)
qed

lemma reg_step_inv: "reg_step s s' \<Longrightarrow> reg_inv (fst s) \<Longrightarrow> reg_inv (fst s')"
  by (induction rule: reg_step.induct) (auto simp: Store_inv Fetch_inv Evict_inv times_inv)

lemma new_registry_inv: "NewConnRegistry cap t = Ret p \<Longrightarrow> reg_inv p"
  by (auto simp: NewConnRegistry_def obind_Ret_conv reg_inv_def wrapper_refs_def NewLRUCache_RetD)

lemma registry_run_inv: "registry_run p s \<Longrightarrow> reg_inv p \<Longrightarrow> reg_inv (fst s)"
  by (induction rule: registry_run.induct) (auto dest: reg_step_inv)

lemma reaches_inv: "registry_reaches p q \<Longrightarrow> reg_inv p \<Longrightarrow> reg_inv q"
  by (auto simp: registry_reaches_def dest: registry_run_inv)

lemma registry_reaches_refl: "registry_reaches p p"
  by (auto simp: registry_reaches_def intro: run_start)

lemma reaches_steps:
  assumes "registry_reaches p q"
  shows "registry_reaches p (snd (Store now key conn q))" "registry_reaches p (snd (Fetch key q))" "registry_reaches p (Evict key q)"
  using assms unfolding registry_reaches_def by (blast intro: run_step reg_step.intros)+

text \<open>The operations made of several steps, when nothing comes between them.\<close>

lemma reaches_evict_all: "registry_reaches p q \<Longrightarrow> registry_reaches p (foldl (\<lambda>p k. Evict k p) q ks)"
  by (induction ks arbitrary: q) (auto intro: reaches_steps)

lemma reaches_operations:
  assumes "registry_reaches p q"
  shows "registry_reaches p (evictExpired now orders q)" "registry_reaches p (CloseAll orders q)"
    and "i < length (wrappers q) \<Longrightarrow> registry_reaches p (conn_Close i q)"
    and "i < length (wrappers q) \<Longrightarrow> registry_reaches p (snd (conn_touch now i q))"
proof -
  show "registry_reaches p (evictExpired now orders q)" "registry_reaches p (CloseAll orders q)"
    using assms by (simp_all add: evictExpired_def CloseAll_def reaches_evict_all)
  from assms obtain cl where run: "registry_run p (q, cl)" by (auto simp: registry_reaches_def)
  show "registry_reaches p (conn_Close i q)" if "i < length (wrappers q)"
    using run_step [OF run_step [OF run step_on_close [OF that]] step_raw_close [of i]]
    by (auto simp: registry_reaches_def conn_Close_def)
  show "registry_reaches p (snd (conn_touch now i q))" if i: "i < length (wrappers q)"
  proof -
    obtain alive act c where e: "ExtendDeadline now (wrappers q ! i) = (alive, act, c)" by (cases "ExtendDeadline now (wrappers q ! i)")
    have "c = (wrappers q ! i)\<lparr>lastActivity := lastActivity c, expiredAt := expiredAt c\<rparr>"
      using e by (auto simp: ExtendDeadline_def Let_def split: if_splits)
    then have "registry_reaches p (q\<lparr>wrappers := (wrappers q)[i := c]\<rparr>)"
      unfolding registry_reaches_def
      using run_step [OF run step_times [OF i, where a = "lastActivity c" and e = "expiredAt c"]] by (intro exI) simp
    then show ?thesis
      by (auto simp: conn_touch_def e Let_def intro: reaches_steps)
  qed
qed

section \<open>Collecting and evicting\<close>

definition held :: "ConnRegistry \<Rightarrow> NATKey \<Rightarrow> nat option" where
  "held p k = lru_peek NATKey_Bytes (storage p) k"

lemma Fetch_held: "reg_inv p \<Longrightarrow> fst (Fetch k p) = held p k"
  by (simp add: Fetch_def split_beta held_def Get_laws reg_inv_def)

lemma entries_nth: "x \<in> set (entries c) \<longleftrightarrow> (\<exists>i < length (shards c). x \<in> set (contents (shards c ! i)))"
proof -
  have "x \<in> set (entries c) \<longleftrightarrow> (\<exists>s \<in> set (shards c). x \<in> set (contents s))" by (simp add: entries_def)
  then show ?thesis unfolding Bex_def in_set_conv_nth [of _ "shards c"] by blast
qed

lemma peek_entries:
  assumes "lru_inv kb c"
  shows "lru_peek kb c k = Some v \<longleftrightarrow> (k, v) \<in> set (entries c)"
proof
  assume "lru_peek kb c k = Some v"
  with lru_index_in_range [OF assms, of k] show "(k, v) \<in> set (entries c)"
    by (auto simp: lru_peek_def entries_def dest!: map_of_SomeD)
next
  assume "(k, v) \<in> set (entries c)"
  then obtain i where i: "i < length (shards c)" "(k, v) \<in> set (contents (shards c ! i))"
    unfolding entries_nth by blast
  from i(2) have "k \<in> fst ` set (contents (shards c ! i))" by force
  with lru_invD(3) [OF assms i(1)] have "lru_shard_index kb c k = i" by blast
  with i linkedD(2) [OF lru_invD(1) [OF assms i(1)]] show "lru_peek kb c k = Some v"
    by (simp add: lru_peek_def)
qed

lemma visit_keys_collect:
  "k \<in> set (snd (visit_keys (\<lambda>k v acc. (None :: unit option, if P v then acc @ [k] else acc)) m ks acc)) \<longleftrightarrow>
     k \<in> set acc \<or> (\<exists>k0 \<in> set ks. \<exists>v. m k0 = Some (k, v) \<and> P v)"
  by (induction ks arbitrary: acc) (auto split: option.splits)

lemma visit_keys_None: "fst (visit_keys (\<lambda>k v acc. (None :: unit option, g k v acc)) m ks acc) = None"
  by (induction ks arbitrary: acc) (auto split: option.splits)

lemma for_each_collect:
  "k \<in> set (snd (lru_for_each (\<lambda>k v acc. (None :: unit option, if P v then acc @ [k] else acc)) sks acc)) \<longleftrightarrow>
     k \<in> set acc \<or> (\<exists>(s, ks) \<in> set sks. \<exists>k0 \<in> set ks. \<exists>e v. elem_of s k0 = Some (e, k, v) \<and> P v)"
proof (induction sks arbitrary: acc)
  case (Cons sk sks)
  obtain s ks where sk: "sk = (s, ks)" by (cases sk)
  let ?f = "\<lambda>k v acc. (None :: unit option, if P v then acc @ [k] else acc)"
  let ?m = "\<lambda>k. map_option snd (elem_of s k)"
  obtain acc' where acc': "visit_keys ?f ?m ks acc = (None, acc')"
    using visit_keys_None [of "\<lambda>k v acc. if P v then acc @ [k] else acc" ?m ks acc]
    by (cases "visit_keys ?f ?m ks acc") simp
  have "k \<in> set acc' \<longleftrightarrow> k \<in> set acc \<or> (\<exists>k0 \<in> set ks. \<exists>e v. elem_of s k0 = Some (e, k, v) \<and> P v)"
    using visit_keys_collect [of k P ?m ks acc] by (auto simp: acc')
  with Cons.IH [of acc'] show ?case by (auto simp: sk acc')
qed simp

lemma collect_keys_iff:
  assumes "reg_inv p" "visits_all orders p"
  shows "k \<in> set (collect_keys P orders p) \<longleftrightarrow> (\<exists>v. held p k = Some v \<and> P v)"
proof -
  let ?c = "storage p"
  from assms(1) have inv: "lru_inv NATKey_Bytes ?c" by (simp add: reg_inv_def)
  have len: "length orders = length (shards ?c)" using assms(2) by (auto simp: visits_all_def list_all2_lengthD)
  have ord: "set (orders ! i) = dom (items (shards ?c ! i))" if "i < length (shards ?c)" for i
    using assms(2) that by (simp add: visits_all_def list_all2_conv_all_nth)
  have "k \<in> set (collect_keys P orders p) \<longleftrightarrow>
      (\<exists>i < length (shards ?c). \<exists>k0 \<in> set (orders ! i). \<exists>e v. elem_of (shards ?c ! i) k0 = Some (e, k, v) \<and> P v)"
    using len by (auto simp: collect_keys_def LRUCache_ForEach_def for_each_collect set_zip) blast
  also have "\<dots> \<longleftrightarrow> (\<exists>i < length (shards ?c). \<exists>v. (k, v) \<in> set (contents (shards ?c ! i)) \<and> P v)"
  proof (intro ex_cong1 conj_cong refl)
    fix i assume i: "i < length (shards ?c)"
    note l = lru_invD(1) [OF inv i]
    show "(\<exists>k0 \<in> set (orders ! i). \<exists>e v. elem_of (shards ?c ! i) k0 = Some (e, k, v) \<and> P v) \<longleftrightarrow>
        (\<exists>v. (k, v) \<in> set (contents (shards ?c ! i)) \<and> P v)"
    proof
      assume "\<exists>k0 \<in> set (orders ! i). \<exists>e v. elem_of (shards ?c ! i) k0 = Some (e, k, v) \<and> P v"
      then show "\<exists>v. (k, v) \<in> set (contents (shards ?c ! i)) \<and> P v"
        using elem_ofD(1) [OF l] by (force simp: contents_def)
    next
      assume "\<exists>v. (k, v) \<in> set (contents (shards ?c ! i)) \<and> P v"
      then obtain e v where e: "(e, k, v) \<in> set (llist (shards ?c ! i))" "P v" by (auto simp: contents_def)
      then have "k \<in> set (orders ! i)" using ord [OF i] linkedD(3) [OF l, of k e] by auto
      with e elem_of_iff [OF l, of k e k v] show
        "\<exists>k0 \<in> set (orders ! i). \<exists>e v. elem_of (shards ?c ! i) k0 = Some (e, k, v) \<and> P v" by auto
    qed
  qed
  also have "\<dots> \<longleftrightarrow> (\<exists>v. (k, v) \<in> set (entries ?c) \<and> P v)"
    unfolding entries_nth by blast
  finally show ?thesis by (simp add: held_def peek_entries [OF inv])
qed

lemma held_raw_close [simp]: "held (raw_close i p) = held p"
  by (simp add: held_def fun_eq_iff)

lemma held_Evict: "reg_inv p \<Longrightarrow> held (Evict k p) = (held p)(k := None)"
  by (simp add: fun_eq_iff held_def Evict_def Delete_laws reg_inv_def)

lemma held_Evict_all:
  "reg_inv p \<Longrightarrow> held (foldl (\<lambda>p k. Evict k p) p ks) k = (if k \<in> set ks then None else held p k)"
proof (induction ks arbitrary: p)
  case (Cons a ks)
  from Cons.IH [OF Evict_inv [OF Cons.prems]] show ?case by (simp add: held_Evict [OF Cons.prems])
qed simp

lemma Evict_all_wrappers: "wrappers (foldl (\<lambda>p k. Evict k p) p ks) = wrappers p"
  by (induction ks arbitrary: p) simp_all

lemma Size_held:
  assumes "reg_inv p" "\<And>k. held p k = None"
  shows "registry_Size p = 0"
proof -
  from assms(1) have inv: "lru_inv NATKey_Bytes (storage p)" by (simp add: reg_inv_def)
  have "(k, v) \<notin> set (entries (storage p))" for k v
    using assms(2) [of k] peek_entries [OF inv, of k v] by (simp add: held_def)
  then have "entries (storage p) = []" by (metis list.set_intros(1) neq_Nil_conv surj_pair)
  then show ?thesis by (simp add: registry_Size_def LRUCache_Size_entries)
qed

text \<open>The callback closed the raw connection of wrapper \<open>i\<close>, how often.\<close>

definition closings :: "ConnRegistry \<Rightarrow> nat \<Rightarrow> nat" where
  "closings p i = count (mset (invalidated (storage p))) (itc_Key (wrappers p ! i), i)"

lemma held_or_closed:
  assumes "reg_inv p" "i < length (wrappers p)"
  shows "closings p i = (if held p (itc_Key (wrappers p ! i)) = Some i then 0 else 1)"
proof -
  let ?x = "(itc_Key (wrappers p ! i), i)"
  from assms(1) have inv: "lru_inv NATKey_Bytes (storage p)"
    and bal: "mset (entries (storage p)) + mset (invalidated (storage p)) = mset (wrapper_refs p)"
    by (simp_all add: reg_inv_def)
  have "distinct (wrapper_refs p)" by (simp add: wrapper_refs_def distinct_zipI2)
  moreover have "?x \<in> set (wrapper_refs p)" using assms(2) by (force simp: wrapper_refs_def set_zip)
  ultimately have "count (mset (wrapper_refs p)) ?x = 1" by (simp add: distinct_count_atmost_1)
  define n where "n = count (mset (entries (storage p))) ?x"
  from bal \<open>count (mset (wrapper_refs p)) ?x = 1\<close> have "n + closings p i = 1"
    unfolding closings_def n_def by (metis count_union)
  moreover have "n = 0 \<longleftrightarrow> held p (itc_Key (wrappers p ! i)) \<noteq> Some i"
    using peek_entries [OF inv, of "itc_Key (wrappers p ! i)" i] by (simp add: held_def count_mset_0_iff n_def)
  ultimately show ?thesis by (cases "n = 0") simp_all
qed

section \<open>Properties of the registry\<close>

lemma reg_step_caps:
  assumes "reg_step s s'" "reg_inv (fst s)"
  shows "map capacity (shards (storage (fst s'))) = map capacity (shards (storage (fst s)))"
proof -
  have E: "map capacity (shards (storage (Evict k p))) = map capacity (shards (storage p))" if "reg_inv p" for k p
    using that step_keeps(2) [of NATKey_Bytes "storage p" 0 "OpDelete k"] by (simp add: Evict_def reg_inv_def)
  have F: "map capacity (shards (storage (snd (Fetch k p)))) = map capacity (shards (storage p))"
    if "reg_inv p" for k p
    using that step_keeps(2) [of NATKey_Bytes "storage p" 0 "OpGet k"] by (simp add: Fetch_def split_beta reg_inv_def)
  have S: "map capacity (shards (storage (snd (Store now k c p)))) = map capacity (shards (storage p))" if "reg_inv p" for now k c p
    using that step_keeps(2) [of NATKey_Bytes "storage p" 0 "OpSet k (length (wrappers p)) None"]
    by (simp add: Store_def Let_def reg_inv_def)
  from assms show ?thesis
    by (cases rule: reg_step.cases) (simp_all add: E F S)
qed

lemma run_caps:
  "registry_run p s \<Longrightarrow> reg_inv p \<Longrightarrow> map capacity (shards (storage (fst s))) = map capacity (shards (storage p))"
  by (induction rule: registry_run.induct) (simp_all add: reg_step_caps registry_run_inv)

text \<open>A wrapper whose own \<open>Close\<close> has begun has left the cache for good.\<close>

definition gone :: "ConnRegistry \<Rightarrow> nat \<Rightarrow> bool" where
  "gone p i \<longleftrightarrow> i < length (wrappers p) \<and> held p (itc_Key (wrappers p ! i)) \<noteq> Some i"

lemma gone_Store:
  assumes "reg_inv p" "gone p i"
  shows "gone (snd (Store now k c p)) i"
proof -
  have inv: "lru_inv NATKey_Bytes (storage p)" using assms(1) by (simp add: reg_inv_def)
  have acc: "fst (LRUCache_Set NATKey_Bytes k (length (wrappers p)) None (storage p))"
    by (simp add: Set_accepted_iff [OF inv] set_accepted_def opts_or_default_def Options_def split: option.split)
  show ?thesis
    using assms(2) Set_own [OF inv acc] Set_other [OF inv, of "itc_Key (wrappers p ! i)" k "length (wrappers p)" None i]
    by (cases "itc_Key (wrappers p ! i) = k") (auto simp: gone_def held_def Store_def Let_def nth_append)
qed

lemma gone_step:
  assumes "reg_step s s'" "reg_inv (fst s)" "gone (fst s) i"
  shows "gone (fst s') i"
  using assms(1)
proof (cases rule: reg_step.cases)
  case (step_store p cl now key conn)
  with assms show ?thesis by (simp add: gone_Store)
next
  case (step_fetch p cl key)
  with assms show ?thesis by (simp add: gone_def held_def Fetch_def split_beta Get_laws reg_inv_def)
next
  case (step_evict p cl key)
  with assms show ?thesis by (simp add: gone_def held_Evict)
next
  case (step_times j p cl a e)
  with assms show ?thesis by (auto simp: gone_def held_def nth_list_update)
next
  case (step_on_close j p cl)
  with assms show ?thesis by (simp add: gone_def held_Evict)
next
  case (step_raw_close j cl p)
  with assms show ?thesis by (simp add: gone_def)
qed

lemma run_gone:
  assumes "registry_run p0 s" "reg_inv p0" "conn_closes p0 = []"
  shows "\<forall>i \<in> set (snd s) \<union> set (conn_closes (fst s)). gone (fst s) i"
  using assms
proof (induction rule: registry_run.induct)
  case (run_step p s s')
  then have IH: "\<forall>i \<in> set (snd s) \<union> set (conn_closes (fst s)). gone (fst s) i" and inv: "reg_inv (fst s)"
    by (simp_all add: registry_run_inv)
  have later: "gone (fst s') i" if "i \<in> set (snd s) \<union> set (conn_closes (fst s))" for i
    using gone_step [OF run_step.hyps(2) inv] IH that by blast
  show ?case
    using run_step.hyps(2)
  proof (cases rule: reg_step.cases)
    case (step_on_close j p cl)
    then have "gone (fst s') j"
      using inv by (simp add: gone_def held_Evict)
    with later step_on_close show ?thesis by auto
  next
    case (step_raw_close j cl p)
    with later show ?thesis by (auto dest: set_remove1_subset [THEN subsetD])
  qed (use later in \<open>auto simp: Store_def Fetch_def Let_def split_beta\<close>)
qed simp

text \<open>How often the raw connection of a wrapper was closed: by the cache's callback and by the wrapper's own \<open>Close\<close>.\<close>

definition raw_closings :: "ConnRegistry \<Rightarrow> nat \<Rightarrow> nat" where
  "raw_closings p i = closings p i + count_list (conn_closes p) i"

text \<open>
  C8: the registry never leaks a connection and never hands out a closed one. In every state a new registry reaches under any interleaving of
  its users and its cleanup loops, a connection that a fetch of its key returns has never been closed; every other connection ever
  stored has been closed, once by the cache and once more for each call of its wrapper's own \<open>Close\<close>; and never more than the capacity
  (rounded down to a multiple of sixteen, at least one per shard) are held.
\<close>

theorem registry_never_leaks:
  assumes new: "NewConnRegistry cap t = Ret p0" and run: "registry_run p0 (p, cl)" and i: "i < length (wrappers p)"
  shows "raw_closings p i =
      (if fst (Fetch (itc_Key (wrappers p ! i)) p) = Some i then 0 else 1 + count_list (conn_closes p) i) \<and>
    int (registry_Size p) \<le> 16 * max 1 (cap div 16)"
proof -
  have inv: "reg_inv p" using registry_run_inv [OF run] new_registry_inv [OF new] by simp
  from new obtain c where c: "NewLRUCache 16 cap True = Ret c" "storage p0 = c" "conn_closes p0 = []"
    by (auto simp: NewConnRegistry_def obind_Ret_conv)
  have caps: "map capacity (shards (storage p)) = map capacity (shards (storage p0))"
    using run_caps [OF run new_registry_inv [OF new]] by simp
  have "capacity s = max 1 (cap div 16)" if "s \<in> set (shards (storage p))" for s
  proof -
    have "capacity s \<in> set (map capacity (shards (storage p0)))" using that caps by (metis image_eqI list.set_map)
    then show ?thesis using NewLRUCache_RetD(9) [OF c(1)] c(2) by auto
  qed
  with size_bound [of NATKey_Bytes "storage p" "max 1 (cap div 16)"] inv map_eq_imp_length_eq [OF caps]
    NewLRUCache_RetD(7) [OF c(1)] c(2)
  have "int (registry_Size p) \<le> 16 * max 1 (cap div 16)" by (simp add: registry_Size_def reg_inv_def)
  moreover have "count_list (conn_closes p) i = 0" if "held p (itc_Key (wrappers p ! i)) = Some i"
    using run_gone [OF run new_registry_inv [OF new] c(3)] that by (auto simp: gone_def count_list_0_iff)
  ultimately show ?thesis
    using held_or_closed [OF inv i] Fetch_held [OF inv] by (simp add: raw_closings_def)
qed

text \<open>Closing everything at shutdown leaves nothing open: after \<open>CloseAll\<close>, in whatever order it visits the entries,
  the registry is empty and every connection ever stored has been closed exactly once.
\<close>

theorem close_all_closes_all:
  assumes new: "NewConnRegistry cap t = Ret p0" and run: "registry_reaches p0 p" and v: "visits_all orders p"
  shows "registry_Size (CloseAll orders p) = 0 \<and> (\<forall>i < length (wrappers p). closings (CloseAll orders p) i = 1)"
proof -
  have inv: "reg_inv p" using reaches_inv [OF run] new_registry_inv [OF new] by blast
  let ?q = "CloseAll orders p"
  have qinv: "reg_inv ?q" by (simp add: CloseAll_def Evict_all_inv inv)
  have none: "held ?q k = None" for k
    using collect_keys_iff [OF inv v, of k "\<lambda>_. True"] by (auto simp: CloseAll_def held_Evict_all [OF inv])
  have "wrappers ?q = wrappers p" by (simp add: CloseAll_def Evict_all_wrappers)
  with none held_or_closed [OF qinv] Size_held [OF qinv] show ?thesis by simp
qed

text \<open>The periodic cleanup evicts exactly the expired connections: after it a key is held just when it was held before
  by a connection whose deadline has not passed, and the connections of all other keys are closed.
\<close>

theorem evict_expired_exact:
  assumes new: "NewConnRegistry cap t = Ret p0" and run: "registry_reaches p0 p" and v: "visits_all orders p"
  shows "fst (Fetch k (evictExpired now orders p)) =
    (case fst (Fetch k p) of
       None \<Rightarrow> None
     | Some i \<Rightarrow> if IsExpired now (wrappers p ! i) then None else Some i)"
proof -
  have inv: "reg_inv p" using reaches_inv [OF run] new_registry_inv [OF new] by blast
  have qinv: "reg_inv (evictExpired now orders p)" by (simp add: evictExpired_def Evict_all_inv inv)
  show ?thesis
    unfolding Fetch_held [OF qinv] Fetch_held [OF inv]
    unfolding evictExpired_def held_Evict_all [OF inv] collect_keys_iff [OF inv v]
    by (auto split: option.splits)
qed

text \<open>The constructor never panics: sixteen shards are a power of two.\<close>

lemma new_registry_ok: "\<exists>p. NewConnRegistry cap t = Ret p \<and> wrappers p = [] \<and> reg_timeout p = t"
  by (simp add: NewConnRegistry_def NewLRUCache_def Let_def)

definition sample_key :: NATKey where
  "sample_key = \<lparr>SrcIP = replicate 15 0 @ [1], SrcPort = 5000, DstIP = replicate 15 0 @ [2], DstPort = 53\<rparr>"

theorem registry_never_leaks_witness:
  "\<exists>p. length (wrappers p) = 2 \<and> raw_closings p 0 = 2 \<and> int (registry_Size p) \<le> 16 * max 1 (4096 div 16)"
proof -
  obtain p0 where p0: "NewConnRegistry 4096 (60 * Second) = Ret p0" "wrappers p0 = []" using new_registry_ok by blast
  let ?q = "snd (Store 9 sample_key 1 (snd (Store 7 sample_key 0 p0)))"
  have w: "length (wrappers ?q) = 2" "itc_Key (wrappers ?q ! 0) = sample_key" "conn_closes ?q = []"
    using p0(1) by (auto simp: Store_def Let_def p0(2) NewIdleTimeoutConn_def NewConnRegistry_def obind_Ret_conv)
  let ?p = "raw_close 0 (Evict sample_key ?q)"
  have "registry_run p0 (?q, [])"
    by (intro run_step [OF _ step_store] run_start)
  then have "registry_run p0 (Evict sample_key ?q, [0])"
    using run_step step_on_close [of 0 ?q "[]"] w by fastforce
  then have run: "registry_run p0 (?p, [])"
    using run_step step_raw_close [of 0 "[0]" "Evict sample_key ?q"] by fastforce
  have inv: "reg_inv ?p" using registry_run_inv [OF run] new_registry_inv [OF p0(1)] by simp
  have "reg_inv ?q" by (simp add: Store_inv new_registry_inv [OF p0(1)])
  then have "fst (Fetch (itc_Key (wrappers ?p ! 0)) ?p) = None"
    unfolding Fetch_held [OF inv] using w(2) held_Evict [of ?q sample_key] by simp
  moreover have "0 < length (wrappers ?p)" using w by simp
  ultimately show ?thesis
    using registry_never_leaks [OF p0(1) run, of 0] w by (intro exI [of _ ?p]) (simp add: numeral_2_eq_2)
qed

lemma visits_all_exists: "\<exists>orders. reg_inv p \<longrightarrow> visits_all orders p"
proof (cases "reg_inv p")
  case True
  have "\<exists>ks. set ks = dom (items s)" if "s \<in> set (shards (storage p))" for s
  proof -
    from that obtain i where "i < length (shards (storage p))" "s = shards (storage p) ! i" by (auto simp: in_set_conv_nth)
    then have "linked s" using lru_invD(1) True by (auto simp: reg_inv_def)
    then have "dom (items s) = set (map fst (contents s))"
      using linkedD(3) [of s] by (force simp: contents_def dom_def)
    then show ?thesis by blast
  qed
  then have "\<exists>orders. list_all2 (\<lambda>s ks. set ks = dom (items s)) ss orders" if "set ss \<subseteq> set (shards (storage p))" for ss
    using that
  proof (induction ss)
    case (Cons s ss)
    then obtain ks orders where "set ks = dom (items s)" "list_all2 (\<lambda>s ks. set ks = dom (items s)) ss orders" by fastforce
    then show ?case by (intro exI [of _ "ks # orders"]) simp
  qed (intro exI [of _ "[]"], simp)
  then show ?thesis by (auto simp: visits_all_def)
qed simp

theorem close_all_closes_all_witness:
  "\<exists>p orders. length (wrappers p) = 1 \<and> registry_Size (CloseAll orders p) = 0 \<and> closings (CloseAll orders p) 0 = 1"
proof -
  obtain p0 where p0: "NewConnRegistry 4096 (60 * Second) = Ret p0" "wrappers p0 = []" using new_registry_ok by blast
  let ?p = "snd (Store 7 sample_key 0 p0)"
  have run: "registry_reaches p0 ?p" by (intro reaches_steps registry_reaches_refl)
  obtain orders where "visits_all orders ?p"
    using visits_all_exists [of ?p] reaches_inv [OF run new_registry_inv [OF p0(1)]] by blast
  from close_all_closes_all [OF p0(1) run this] show ?thesis
    by (intro exI [of _ ?p] exI [of _ orders]) (simp add: Store_def Let_def p0)
qed

theorem evict_expired_exact_witness:
  "\<exists>p orders. fst (Fetch sample_key p) = Some 0 \<and> fst (Fetch sample_key (evictExpired (8 + 60 * Second) orders p)) = None"
proof -
  obtain p0 where p0: "NewConnRegistry 4096 (60 * Second) = Ret p0" "wrappers p0 = []" "reg_timeout p0 = 60 * Second"
    using new_registry_ok by blast
  let ?p = "snd (Store 7 sample_key 0 p0)"
  have run: "registry_reaches p0 ?p" by (intro reaches_steps registry_reaches_refl)
  note inv0 = new_registry_inv [OF p0(1)] and inv = reaches_inv [OF run new_registry_inv [OF p0(1)]]
  obtain orders where v: "visits_all orders ?p" using visits_all_exists [of ?p] inv by blast
  have w: "wrappers ?p ! 0 = NewIdleTimeoutConn 0 (60 * Second) sample_key 7" by (simp add: Store_def Let_def p0)
  have exp: "IsExpired (8 + 60 * Second) (wrappers ?p ! 0)"
    unfolding w by (simp add: IsExpired_def NewIdleTimeoutConn_def Second_def wrap64_def)
  have "fst (Fetch sample_key ?p) = Some 0"
    unfolding Fetch_held [OF inv] using lru.plain_set [of NATKey_Bytes "storage p0" sample_key 0] inv0
    by (simp add: held_def Store_def Let_def reg_inv_def p0)
  with evict_expired_exact [OF p0(1) run v, of sample_key "8 + 60 * Second"] exp show ?thesis by auto
qed

section \<open>Idle deadlines\<close>

fun touch_all :: "int list \<Rightarrow> IdleTimeoutConn \<Rightarrow> bool list \<times> IdleTimeoutConn" where
  "touch_all [] c = ([], c)"
| "touch_all (t # ts) c =
     (case ExtendDeadline t c of (alive, _, c') \<Rightarrow>
        case touch_all ts c' of (as, c'') \<Rightarrow> (alive # as, c''))"

fun gaps_within :: "int \<Rightarrow> int \<Rightarrow> int list \<Rightarrow> bool" where
  "gaps_within g t [] = True"
| "gaps_within g t (u # us) = (t \<le> u \<and> u \<le> t + g \<and> gaps_within g u us)"

definition deadline_ok :: "int \<Rightarrow> int \<Rightarrow> IdleTimeoutConn \<Rightarrow> bool" where
  "deadline_ok T t c \<longleftrightarrow> itc_Timeout c = T \<and> 0 < expiredAt c \<and> t + T * 7 div 10 \<le> expiredAt c \<and> expiredAt c \<le> t + T"

lemma ExtendDeadline_ok:
  assumes "deadline_ok T t c" "0 < T" "T * 7 < 2 ^ 63" "0 \<le> t" "t \<le> u" "u \<le> t + T * 7 div 10" "u + T < 2 ^ 63"
  shows "fst (ExtendDeadline u c)" "deadline_ok T u (snd (snd (ExtendDeadline u c)))"
proof -
  from assms have c: "itc_Timeout c = T" "t + T * 7 div 10 \<le> expiredAt c" "expiredAt c \<le> t + T" "0 < expiredAt c"
    by (simp_all add: deadline_ok_def)
  have small: "T * 7 div 10 \<le> T" using assms(2) by linarith
  have ne: "\<not> IsExpired u c" using c(2) assms(6) by (simp add: IsExpired_def)
  then show "fst (ExtendDeadline u c)" by (simp add: ExtendDeadline_def Let_def)
  have w: "wrap64 (T * 7) = T * 7" "wrap64 (u + T) = u + T" "wrap64 (expiredAt c - u) = expiredAt c - u"
    using assms c small by (auto simp: in_int64_def intro!: wrap64_id)
  have "snd (snd (ExtendDeadline u c)) =
      (let c1 = (if wrap64 (u - lastActivity c) > Second then c\<lparr>lastActivity := u\<rparr> else c) in
       if expiredAt c = 0 \<or> expiredAt c - u < T * 7 div 10 then c1\<lparr>expiredAt := u + T\<rparr> else c1)"
    using ne c(1) assms(2) w by (simp add: ExtendDeadline_def Let_def)
  then show "deadline_ok T u (snd (snd (ExtendDeadline u c)))"
    using c small assms(2,4,5) by (auto simp: deadline_ok_def Let_def)
qed

lemma touch_all_ok:
  assumes "deadline_ok T t c" "0 < T" "T * 7 < 2 ^ 63" "0 \<le> t" "gaps_within (T * 7 div 10) t ts"
    and "last (t # ts) + T < 2 ^ 63"
  shows "list_all (\<lambda>a. a) (fst (touch_all ts c)) \<and> deadline_ok T (last (t # ts)) (snd (touch_all ts c))"
  using assms
proof (induction ts arbitrary: t c)
  case (Cons u ts)
  have le: "gaps_within g v vs \<Longrightarrow> v \<le> last (v # vs)" for g v vs
    by (induction vs arbitrary: v) fastforce+
  from Cons.prems(5) have u: "t \<le> u" "u \<le> t + T * 7 div 10" "gaps_within (T * 7 div 10) u ts" by simp_all
  with le [OF u(3)] Cons.prems(6) have "u + T < 2 ^ 63" by simp
  note ext = ExtendDeadline_ok [OF Cons.prems(1-4) u(1,2) this]
  obtain a b c' where e: "ExtendDeadline u c = (a, b, c')" by (cases "ExtendDeadline u c")
  have "list_all (\<lambda>a. a) (fst (touch_all ts c')) \<and> deadline_ok T (last (u # ts)) (snd (touch_all ts c'))"
    using Cons.IH [of u c'] ext e Cons.prems u by simp
  with ext(1) e show ?case by (simp add: split_beta)
qed simp

text \<open>The idle timeout keeps active connections and ends idle ones. A connection on which something is read or written
  at intervals of at most seven tenths of its timeout is never found expired, however long it lives and although most
  of these calls do not move the deadline; after the last activity it stays alive for at least seven tenths of the timeout
  and is expired once more than the whole timeout has passed.
\<close>

theorem active_connection_stays_alive:
  assumes "0 < T" "T * 7 < 2 ^ 63" "0 \<le> t" "gaps_within (T * 7 div 10) t ts" "last (t # ts) + T < 2 ^ 63"
  shows "list_all (\<lambda>a. a) (fst (touch_all ts (NewIdleTimeoutConn conn T key t))) \<and>
    (\<forall>now. now \<le> last (t # ts) + T * 7 div 10 \<longrightarrow> \<not> IsExpired now (snd (touch_all ts (NewIdleTimeoutConn conn T key t)))) \<and>
    (\<forall>now. last (t # ts) + T < now \<longrightarrow> IsExpired now (snd (touch_all ts (NewIdleTimeoutConn conn T key t))))"
proof -
  have le: "gaps_within g v vs \<Longrightarrow> v \<le> last (v # vs)" for g v vs
    by (induction vs arbitrary: v) fastforce+
  have "deadline_ok T t (NewIdleTimeoutConn conn T key t)"
    using assms le [OF assms(4)] by (simp add: deadline_ok_def NewIdleTimeoutConn_def in_int64_def)
  from touch_all_ok [OF this assms] have alive: "list_all (\<lambda>a. a) (fst (touch_all ts (NewIdleTimeoutConn conn T key t)))"
    and ok: "deadline_ok T (last (t # ts)) (snd (touch_all ts (NewIdleTimeoutConn conn T key t)))" by blast+
  from alive ok show ?thesis by (simp add: deadline_ok_def IsExpired_def)
qed

theorem active_connection_stays_alive_witness:
  "list_all (\<lambda>a. a) (fst (touch_all [40, 80, 120] (NewIdleTimeoutConn 0 60 sample_key 0))) \<and>
   IsExpired 181 (snd (touch_all [40, 80, 120] (NewIdleTimeoutConn 0 60 sample_key 0)))"
  using active_connection_stays_alive [of 60 0 "[40, 80, 120]" 0 sample_key] by simp

text \<open>A relay that ends late takes a newer connection with it. When a connection was evicted and its key was stored again
  in the meantime, the eviction by key that the old relay still has to make, or a \<open>Close\<close> of the old wrapper, removes and
  closes the new connection, which was never idle, replaced or closed by its own user.
\<close>

theorem late_eviction_hits_new_connection:
  assumes new: "NewConnRegistry cap t = Ret p0" and run: "registry_reaches p0 p"
    and p1: "p1 = snd (Store t1 k a p)" and p2: "p2 = Evict k p1" and p3: "p3 = snd (Store t2 k b p2)"
    and q: "q = Evict k p3 \<or> q = conn_Close (length (wrappers p)) p3"
  shows "fst (Fetch k p3) = Some (Suc (length (wrappers p))) \<and> closings p3 (Suc (length (wrappers p))) = 0 \<and>
    fst (Fetch k q) = None \<and> closings q (Suc (length (wrappers p))) = 1"
proof -
  let ?j = "Suc (length (wrappers p))"
  have inv: "reg_inv p" using reaches_inv [OF run] new_registry_inv [OF new] by blast
  have inv2: "reg_inv p2" by (simp add: p2 p1 Evict_inv Store_inv inv)
  have inv3: "reg_inv p3" by (simp add: p3 Store_inv inv2)
  have len: "length (wrappers p2) = ?j" by (simp add: p2 p1 Store_def Let_def)
  have w: "length (wrappers p3) = Suc ?j" "itc_Key (wrappers p3 ! ?j) = k" "itc_Key (wrappers p3 ! length (wrappers p)) = k"
    using len by (simp_all add: p3 Store_def Let_def nth_append NewIdleTimeoutConn_def) (simp add: p2 p1 Store_def Let_def NewIdleTimeoutConn_def)
  have held3: "held p3 k = Some ?j"
    using lru.plain_set [of NATKey_Bytes "storage p2" k ?j] inv2
    by (simp add: held_def p3 Store_def Let_def len reg_inv_def)
  have held_q: "held q k = None" "wrappers q = wrappers p3" "reg_inv q"
    using q held_Evict [OF inv3] Evict_inv [OF inv3] w(3)
    by (auto simp: conn_Close_def)
  show ?thesis
    using held_or_closed [OF inv3, of ?j] held_or_closed [OF held_q(3), of ?j] held3 held_q w Fetch_held [OF inv3]
      Fetch_held [OF held_q(3)] by simp
qed

theorem late_eviction_hits_new_connection_witness:
  "\<exists>p3. fst (Fetch sample_key p3) = Some 1 \<and> fst (Fetch sample_key (Evict sample_key p3)) = None \<and> closings (Evict sample_key p3) 1 = 1"
proof -
  obtain p0 where p0: "NewConnRegistry 4096 (60 * Second) = Ret p0" "wrappers p0 = []" using new_registry_ok by blast
  from late_eviction_hits_new_connection [OF p0(1) registry_reaches_refl refl refl refl, where ?t1.0 = 1 and k = sample_key and a = 0 and ?t2.0 = 2 and b = 1]
  show ?thesis using p0(2) by fastforce
qed

end
