(* ===== verification/Net_Util.thy ===== *)
theory Net_Util
  imports Config_Types Conn_Registry
begin

text \<open>
  \<open>pkg/spoofdpi/internal/netutil\<close> (destinations, the racing dialer, the end of a tunnel), \<open>proto/http.go\<close> (what the
  proxy reads off an HTTP request) and \<open>server/server.go\<close> (the accept loop's back-off). The interfaces of the host, the
  order in which dial attempts end and the transfers of a tunnel are arguments.
\<close>

section \<open>net.IP\<close>

definition IP_Equal :: "net_IP \<Rightarrow> net_IP \<Rightarrow> bool" where
  "IP_Equal ip x =
     (if length ip = length x then ip = x
      else if length ip = 4 \<and> length x = 16 then take 12 x = v4InV6Prefix \<and> ip = drop 12 x
      else if length ip = 16 \<and> length x = 4 then take 12 ip = v4InV6Prefix \<and> drop 12 ip = x
      else False)"

definition IP_IsLoopback :: "net_IP \<Rightarrow> bool" where
  "IP_IsLoopback ip =
     (case To4 ip of Some ip4 \<Rightarrow> ip4 ! 0 = 127 | None \<Rightarrow> IP_Equal ip (replicate 15 0 @ [1]))"

definition IP_IsUnspecified :: "net_IP \<Rightarrow> bool" where
  "IP_IsUnspecified ip = (IP_Equal ip (v4InV6Prefix @ [0, 0, 0, 0]) \<or> IP_Equal ip (replicate 16 0))"

section \<open>Destinations\<close>

record Destination =
  dst_Host :: string
  dst_Addrs :: "net_IP list"
  dst_Port :: int

definition Destination_String :: "Destination \<Rightarrow> string" where
  "Destination_String d = JoinHostPort (dst_Host d) (Itoa (dst_Port d))"

datatype dst_error = IfacesError | LoopbackAddr net_IP | InterfaceAddr net_IP

text \<open>The loop over the candidate addresses; of the interface addresses only \<open>IPNet\<close>s count, given by their IP.\<close>

fun check_addrs :: "net_IP list \<Rightarrow> net_IP list \<Rightarrow> bool \<times> dst_error option" where
  "check_addrs ifAddrs [] = (True, None)"
| "check_addrs ifAddrs (ip # ips) =
     (if IP_IsLoopback ip then (False, Some (LoopbackAddr ip))
      else case find (\<lambda>a. IP_Equal a ip) ifAddrs of
        Some a \<Rightarrow> (False, Some (InterfaceAddr a))
      | None \<Rightarrow> check_addrs ifAddrs ips)"

definition Destination_IsValid :: "net_IP list option \<Rightarrow> TCPAddr \<Rightarrow> Destination \<Rightarrow> bool \<times> dst_error option" where
  "Destination_IsValid ifaces listenAddr d =
     (if dst_Port d \<noteq> tcp_Port listenAddr then (True, None)
      else case ifaces of
        None \<Rightarrow> (False, Some IfacesError)
      | Some ifAddrs \<Rightarrow> check_addrs ifAddrs (dst_Addrs d))"

text \<open>The proxy would dial itself: its own port at a loopback or local address.\<close>

definition is_self :: "net_IP list \<Rightarrow> TCPAddr \<Rightarrow> Destination \<Rightarrow> bool" where
  "is_self ifAddrs listenAddr d \<longleftrightarrow>
     dst_Port d = tcp_Port listenAddr \<and>
     (\<exists>ip \<in> set (dst_Addrs d). IP_IsLoopback ip \<or> (\<exists>a \<in> set ifAddrs. IP_Equal a ip))"

lemma check_addrs_iff:
  "fst (check_addrs ifAddrs ips) \<longleftrightarrow> \<not> (\<exists>ip \<in> set ips. IP_IsLoopback ip \<or> (\<exists>a \<in> set ifAddrs. IP_Equal a ip))"
  by (induction ips) (auto split: option.splits simp: find_None_iff find_Some_iff)

lemma IsValid_iff: "fst (Destination_IsValid (Some ifAddrs) l d) \<longleftrightarrow> \<not> is_self ifAddrs l d"
  by (auto simp: Destination_IsValid_def is_self_def check_addrs_iff)

lemma IsValid_error: "snd (Destination_IsValid ifaces l d) = None \<longleftrightarrow> fst (Destination_IsValid ifaces l d)"
proof -
  have "snd (check_addrs ifAddrs ips) = None \<longleftrightarrow> fst (check_addrs ifAddrs ips)" for ifAddrs ips
    by (induction ips) (auto split: option.splits)
  then show ?thesis by (simp add: Destination_IsValid_def split: option.splits)
qed

section \<open>DialFastest\<close>

datatype 'e dial_error = NoAddresses | AllFailed nat 'e | DialCanceled 'e

text \<open>
  The results as they arrive: one per address at most, in the order the attempts end; the context may end first. The
  loop takes as many results as there are addresses.
\<close>

datatype 'e dial_event = DialOk net_IP | DialErr 'e | DialCtxDone 'e

fun dial_loop :: "nat \<Rightarrow> 'e dial_event list \<Rightarrow> 'e option \<Rightarrow> nat \<Rightarrow> ('e dial_error + net_IP) option" where
  "dial_loop 0 es firstError failureCount =
     (case firstError of Some e \<Rightarrow> Some (Inl (AllFailed failureCount e)) | None \<Rightarrow> None)"
| "dial_loop (Suc n) [] firstError failureCount = None"
| "dial_loop (Suc n) (DialOk ip # es) firstError failureCount = Some (Inr ip)"
| "dial_loop (Suc n) (DialErr e # es) firstError failureCount =
     dial_loop n es (case firstError of None \<Rightarrow> Some e | Some f \<Rightarrow> Some f) (failureCount + 1)"
| "dial_loop (Suc n) (DialCtxDone e # es) firstError failureCount = Some (Inl (DialCanceled e))"

text \<open>\<^term>\<open>None\<close>: the loop would wait for ever.\<close>

definition DialFastest :: "'e dial_event list \<Rightarrow> Destination \<Rightarrow> ('e dial_error + net_IP) option" where
  "DialFastest arrivals dst =
     (if dst_Addrs dst = [] then Some (Inl NoAddresses)
      else dial_loop (length (dst_Addrs dst)) arrivals None 0)"

lemma dial_loop_ok:
  "dial_loop n es f c = Some (Inr ip) \<Longrightarrow> DialOk ip \<in> set (take n es)"
  by (induction n es f c rule: dial_loop.induct) (auto split: option.splits)

lemma dial_loop_failed:
  assumes "dial_loop n es f c = Some (Inl (AllFailed k e))"
  shows "k = c + n \<and> (\<forall>x \<in> set (take n es). \<exists>e. x = DialErr e)"
  using assms by (induction n es f c rule: dial_loop.induct) (auto split: option.splits)

lemma dial_loop_answers:
  assumes "n \<le> length es" "f \<noteq> None \<or> 0 < n"
  shows "\<exists>r. dial_loop n es f c = Some r"
  using assms by (induction n es f c rule: dial_loop.induct) (auto split: option.splits)

text \<open>The racing dialer waits no longer than it must and no shorter. Once every attempt has reported, it has returned; it
  returns a connection only if that attempt succeeded, and it reports that all attempts failed only if each of them did,
  with their exact number.
\<close>

theorem dial_fastest_total:
  assumes "length arrivals \<ge> length (dst_Addrs dst)"
  shows "\<exists>r. DialFastest arrivals dst = Some r \<and>
    (case r of
       Inr ip \<Rightarrow> DialOk ip \<in> set (take (length (dst_Addrs dst)) arrivals)
     | Inl (AllFailed n e) \<Rightarrow> n = length (dst_Addrs dst) \<and> (\<forall>x \<in> set (take n arrivals). \<exists>e. x = DialErr e)
     | Inl (DialCanceled e) \<Rightarrow> True
     | Inl NoAddresses \<Rightarrow> dst_Addrs dst = [])"
proof (cases "dst_Addrs dst = []")
  case False
  let ?n = "length (dst_Addrs dst)"
  from dial_loop_answers [of ?n arrivals None 0] assms False
  obtain r where r: "dial_loop ?n arrivals None 0 = Some r" by auto
  have na: "dial_loop n es f c \<noteq> Some (Inl NoAddresses)" for n f c and es :: "'a dial_event list"
    by (induction n es f c rule: dial_loop.induct) (auto split: option.splits)
  have "case r of
       Inr ip \<Rightarrow> DialOk ip \<in> set (take ?n arrivals)
     | Inl (AllFailed n e) \<Rightarrow> n = ?n \<and> (\<forall>x \<in> set (take n arrivals). \<exists>e. x = DialErr e)
     | Inl (DialCanceled e) \<Rightarrow> True
     | Inl NoAddresses \<Rightarrow> dst_Addrs dst = []"
    using dial_loop_ok [of ?n arrivals None 0] dial_loop_failed [of ?n arrivals None 0] na [of ?n arrivals None 0] r
    by (auto split: sum.splits dial_error.splits)
  with r False show ?thesis by (simp add: DialFastest_def)
qed (simp add: DialFastest_def)

theorem dial_fastest_total_witness:
  "\<exists>r. DialFastest [DialErr (1::nat), DialOk [1, 2, 3, 4]] \<lparr>dst_Host = ''a'', dst_Addrs = [[4, 3, 2, 1], [1, 2, 3, 4]], dst_Port = 80\<rparr> = Some r \<and>
     r = Inr [1, 2, 3, 4]"
  using dial_fastest_total [of "\<lparr>dst_Host = ''a'', dst_Addrs = [[4, 3, 2, 1], [1, 2, 3, 4]], dst_Port = 80\<rparr>"
      "[DialErr (1::nat), DialOk [1, 2, 3, 4]]"]
  by (auto simp: DialFastest_def numeral_2_eq_2)

section \<open>Tunnels\<close>

datatype TunnelDirType = TunnelDirOut | TunnelDirIn

datatype copy_error = ErrClosed | CopyEOF | EPIPE | TimeoutError | OtherError string

record TransferResult =
  Written :: nat
  Dir :: TunnelDirType
  tr_Err :: "copy_error option"

text \<open>The result one direction of a tunnel reports: benign ends of the copy are not errors.\<close>

definition TunnelConns_result :: "nat \<Rightarrow> copy_error option \<Rightarrow> TunnelDirType \<Rightarrow> TransferResult" where
  "TunnelConns_result n err dir =
     (case err of
        Some (OtherError e) \<Rightarrow> \<lparr>Written = n, Dir = dir, tr_Err = Some (OtherError e)\<rparr>
      | _ \<Rightarrow> \<lparr>Written = n, Dir = dir, tr_Err = None\<rparr>)"

definition WaitForTunnelCompletion ::
  "(copy_error list \<Rightarrow> 'r option) option \<Rightarrow> (copy_error \<Rightarrow> 'r) \<Rightarrow> TransferResult \<Rightarrow> TransferResult \<Rightarrow> 'r option" where
  "WaitForTunnelCompletion errHandler inject r1 r2 =
     (let errs = List.map_filter tr_Err [r1, r2] in
      case errHandler of
        Some h \<Rightarrow> h errs
      | None \<Rightarrow> (case errs of [] \<Rightarrow> None | e # _ \<Rightarrow> Some (inject e)))"

section \<open>HTTP requests\<close>

definition validMethods :: "string list" where
  "validMethods =
     [''DELETE'', ''GET'', ''HEAD'', ''POST'', ''PUT'', ''CONNECT'', ''OPTIONS'', ''TRACE'', ''COPY'', ''LOCK'', ''MKCOL'',
      ''MOVE'', ''PROPFIND'', ''PROPPATCH'', ''SEARCH'', ''UNLOCK'', ''BIND'', ''REBIND'', ''UNBIND'', ''ACL'', ''REPORT'',
      ''MKACTIVITY'', ''CHECKOUT'', ''MERGE'', ''M-SEARCH'', ''NOTIFY'', ''SUBSCRIBE'', ''UNSUBSCRIBE'', ''PATCH'', ''PURGE'',
      ''MKCALENDAR'', ''LINK'', ''UNLINK'']"

text \<open>Of a parsed request the proxy uses the method and the host.\<close>

record HTTPRequest =
  http_Method :: string
  http_Host :: string

definition ExtractHost :: "HTTPRequest \<Rightarrow> string" where
  "ExtractHost r = (case SplitHostPort (http_Host r) of None \<Rightarrow> http_Host r | Some (host, _) \<Rightarrow> host)"

definition ExtractPort :: "HTTPRequest \<Rightarrow> int option" where
  "ExtractPort r =
     (case SplitHostPort (http_Host r) of
        None \<Rightarrow> Some (if http_Method r = ''CONNECT'' then 443 else 80)
      | Some (_, port) \<Rightarrow> Atoi port)"

definition IsValidMethod :: "HTTPRequest \<Rightarrow> bool" where
  "IsValidMethod r = (http_Method r \<in> set validMethods)"

definition IsConnectMethod :: "HTTPRequest \<Rightarrow> bool" where
  "IsConnectMethod r = (http_Method r = ''CONNECT'')"

section \<open>Back-off of the accept loops\<close>

definition BackoffOnError :: "int \<Rightarrow> int" where
  "BackoffOnError delay = (let d = (if delay = 0 then 5 else wrap64 (delay * 2)) in if d > 10 * Second then 10 * Second else d)"

lemma backoff_bounds: "0 \<le> d \<Longrightarrow> d \<le> 10 * Second \<Longrightarrow> 0 < BackoffOnError d \<and> BackoffOnError d \<le> 10 * Second \<and> (d < 10 * Second \<longrightarrow> d < BackoffOnError d)"
  by (auto simp: BackoffOnError_def Let_def Second_def wrap64_def)

text \<open>
  The two accept loops: the HTTP proxy keeps the delay it is given back, the SOCKS5 proxy discards it. The list is the
  sequence of delays slept through after consecutive failed \<open>Accept\<close> calls.
\<close>

fun http_backoffs :: "nat \<Rightarrow> int \<Rightarrow> int list" where
  "http_backoffs 0 delay = []"
| "http_backoffs (Suc n) delay = BackoffOnError delay # http_backoffs n (BackoffOnError delay)"

fun socks_backoffs :: "nat \<Rightarrow> int \<Rightarrow> int list" where
  "socks_backoffs 0 delay = []"
| "socks_backoffs (Suc n) delay = BackoffOnError delay # socks_backoffs n delay"

text \<open>
  The SOCKS5 accept loop never backs off: however many \<open>Accept\<close> calls fail in a row, it sleeps five nanoseconds each
  time, because the delay it gets back is dropped; the delays of the HTTP loop grow to ten seconds.
\<close>

theorem socks_never_backs_off:
  "socks_backoffs n 0 = replicate n 5 \<and> last (http_backoffs 32 0) = 10 * Second"
proof
  show "socks_backoffs n 0 = replicate n 5"
    by (induction n) (simp_all add: BackoffOnError_def Second_def)
  show "last (http_backoffs 32 0) = 10 * Second" by code_simp
qed

end
