(* ===== verification/Proxy_Handlers.thy ===== *)
theory Proxy_Handlers
  imports Rule_Set Dns_Client Socks5 Tls_Desync Net_Util
begin

text \<open>
  \<open>pkg/spoofdpi/internal/server/socks5\<close> and \<open>server/http\<close>: how a client connection is turned into a connection to the
  destination. A handler is a function from the bytes (or the request) of the client and an environment to the sequence
  of its effects. The environment holds the configuration, the rule set and the desyncer, and what the outside world does:
  interface addresses, dial results, socket errors, DNS backends, the clock. Logging and trace identifiers are left out.
\<close>

section \<open>Environment and effects\<close>

datatype client_write_error = ResetOrEOF | OtherWriteError

datatype proxy_effect =
    ClientWrite bytes
  | HttpReply nat
  | HopTrack "net_IP list"
  | Dialing Destination int
  | RemoteWrites "(byte \<times> bytes) list"
  | ProxyRequest HTTPRequest
  | TunnelStart bytes

record ('t, 's, 'w) proxy_env =
  env_P4 :: "'t patricia"
  env_P6 :: "'s patricia"
  env_rules :: "('t, 's) RuleSet"
  env_listen :: TCPAddr
  env_cfg :: RuntimeConfig
  env_resolvers :: resolvers
  env_now :: int
  env_ifaces :: "net_IP list option"
  env_dials :: "Destination \<Rightarrow> unit dial_event list"
  env_client_err :: "client_write_error option"
  env_desyncer :: "(net_IP, unit, 'w) TLSDesyncer"
  env_chance1 :: chance
  env_chance2 :: chance
  env_sock :: "unit sock_env"
  env_writer :: 'w

datatype proxy_end = Done | Failed | Blocked | Crashed | Stuck

text \<open>The candidate addresses become queries by their text form.\<close>

definition addr_queries :: "net_IP list \<Rightarrow> Query list" where
  "addr_queries addrs = map (\<lambda>a. \<lparr>q_Type = MatchTypeAddr, q_Value = IP_String a\<rparr>) addrs"

definition rule_search :: "('t, 's, 'w) proxy_env \<Rightarrow> Query list \<Rightarrow> (unit, Rule option) outcome" where
  "rule_search env qs = RuleSet_Search (env_P4 env) (env_P6 env) (env_rules env) qs"

definition name_match :: "('t, 's, 'w) proxy_env \<Rightarrow> string \<Rightarrow> (unit, Rule option) outcome" where
  "name_match env host = rule_search env [\<lparr>q_Type = MatchTypeDomain, q_Value = host\<rparr>]"

definition config_of :: "('t, 's, 'w) proxy_env \<Rightarrow> Rule option \<Rightarrow> RuntimeConfig" where
  "config_of env rule = (case rule of None \<Rightarrow> env_cfg env | Some r \<Rightarrow> rule_Config r)"

definition blocks :: "Rule option \<Rightarrow> bool" where
  "blocks rule = (case rule of None \<Rightarrow> False | Some r \<Rightarrow> Block r)"

text \<open>The effect of \<open>PrepareHopTrack\<close>: the addresses are registered with the sniffer, if there is one to use.\<close>

definition hop_track :: "('t, 's, 'w) proxy_env \<Rightarrow> HTTPSOptions \<Rightarrow> net_IP list \<Rightarrow> proxy_effect list" where
  "hop_track env opts addrs =
     TLSDesyncer_PrepareHopTrack (map_option (\<lambda>_ a s. s @ [HopTrack a]) (tls_sniffer (env_desyncer env))) addrs opts []"

section \<open>The first message\<close>

text \<open>\<open>Desync\<close> on the remote connection: the chunks written, or an error after some of them, or a crash.\<close>

definition send_hello ::
  "('t, 's, 'w) proxy_env \<Rightarrow> HTTPSOptions \<Rightarrow> net_IP \<Rightarrow> TLSMessage \<Rightarrow> proxy_effect list \<times> proxy_end" where
  "send_hello env opts ip msg =
     (case TLSDesyncer_Desync (env_desyncer env) (env_chance1 env) (env_chance2 env) (env_sock env) getDefaultTTL ip msg opts
             (env_writer env) of
        Ret ((n, err, st), w) \<Rightarrow> ([RemoteWrites (sent st)], if err = None then Done else Failed)
      | Fail _ \<Rightarrow> ([], Failed)
      | Panic \<Rightarrow> ([], Crashed))"

definition write_raw :: "('t, 's, 'w) proxy_env \<Rightarrow> bytes \<Rightarrow> proxy_effect list \<times> proxy_end" where
  "write_raw env b =
     (case sendSegments (env_sock env) getDefaultTTL (whole b) of
        (n, err, st) \<Rightarrow> ([RemoteWrites (sent st)], if err = None then Done else Failed))"

text \<open>Effects of two phases: the second runs only when the first ended well.\<close>

definition and_then :: "'a list \<times> proxy_end \<Rightarrow> 'a list \<times> proxy_end \<Rightarrow> 'a list \<times> proxy_end" where
  "and_then a b = (if snd a = Done then (fst a @ fst b, snd b) else a)"

section \<open>SOCKS5 CONNECT\<close>

definition relay_first_message ::
  "('t, 's, 'w) proxy_env \<Rightarrow> HTTPSOptions \<Rightarrow> net_IP \<Rightarrow> bytes \<Rightarrow> proxy_effect list \<times> proxy_end" where
  "relay_first_message env opts ip input =
     (case input of
        [] \<Rightarrow> ([TunnelStart []], Done)
      | b # _ \<Rightarrow>
          if b \<noteq> TLSHandshake then ([TunnelStart input], Done)
          else case ReadTLSMessage input of
            Inl (ReadError _) \<Rightarrow> ([], Done)
          | Inl (InvalidTLSHeader _) \<Rightarrow> ([], Failed)
          | Inr (msg, rest) \<Rightarrow>
              and_then
                (if IsClientHello msg
                 then if https_Skip opts then write_raw env (raw msg) else send_hello env opts ip msg
                 else write_raw env (raw msg))
                ([TunnelStart rest], Done))"

definition ConnectHandler_Handle ::
  "('t, 's, 'w) proxy_env \<Rightarrow> bytes \<Rightarrow> Destination \<Rightarrow> Rule option \<Rightarrow> proxy_effect list \<times> proxy_end" where
  "ConnectHandler_Handle env input dst rule =
     (let cfg = config_of env rule; (ok, err) = Destination_IsValid (env_ifaces env) (env_listen env) dst;
          failure = ClientWrite (Reply_Write SOCKS5FailureResponse) in
      if err \<noteq> None \<and> \<not> ok then ([failure], Failed)
      else if blocks rule then ([failure], Blocked)
      else
        let dialed = hop_track env (cfg_HTTPS cfg) (dst_Addrs dst) @ [Dialing dst (TCPTimeout (cfg_Conn cfg))] in
        (case DialFastest (env_dials env dst) dst of
           None \<Rightarrow> (dialed, Stuck)
         | Some (Inl _) \<Rightarrow> (dialed @ [failure], Failed)
         | Some (Inr ip) \<Rightarrow>
             let opened = dialed @ [ClientWrite (Reply_Write (Reply_Port 0 (Reply_Bind (Some IPv4zero) SOCKS5SuccessResponse)))] in
             if env_client_err env \<noteq> None then (opened, Failed)
             else and_then (opened, Done) (relay_first_message env (cfg_HTTPS cfg) ip input)))"

section \<open>The SOCKS5 server\<close>

text \<open>What follows a request: a CONNECT handler, a BIND handler, a UDP association or a refusal.\<close>

datatype socks_action =
    SocksClosed
  | SocksDropped
  | SocksCrash
  | SocksConnect Destination "Rule option" bytes
  | SocksBind SOCKS5Request bytes
  | SocksUDP SOCKS5Request bytes
  | SocksRefused bytes

definition request_addrs ::
  "('t, 's, 'w) proxy_env \<Rightarrow> SOCKS5Request \<Rightarrow> dns_cache \<Rightarrow> (unit, (net_IP list \<times> Rule option) option) outcome \<times> dns_cache" where
  "request_addrs env req cache =
     (case req_IP req of
        Some ip \<Rightarrow> (Ret (Some ([ip], None)), cache)
      | None \<Rightarrow>
          if ATYP req = SOCKS5AddrTypeFQDN \<and> length (FQDN req) > 1 then
            (case name_match env (FQDN req) of
               Ret m \<Rightarrow>
                 (case Resolve (env_resolvers env) (env_now env) (env_cfg env) m (FQDN req) cache of
                    (Ret as, c) \<Rightarrow> (Ret (Some (map AsSlice as, m)), c)
                  | (Fail _, c) \<Rightarrow> (Ret None, c)
                  | (Panic, c) \<Rightarrow> (Panic, c))
             | _ \<Rightarrow> (Panic, cache))
          else (Ret None, cache))"

definition dispatch_command ::
  "SOCKS5Request \<Rightarrow> net_IP list \<Rightarrow> Rule option \<Rightarrow> bytes \<Rightarrow> socks_action" where
  "dispatch_command req addrs best rest =
     (if Cmd req = SOCKS5CmdConnect
      then SocksConnect \<lparr>dst_Host = FQDN req, dst_Addrs = addrs, dst_Port = req_Port req\<rparr> best rest
      else if Cmd req = SOCKS5CmdBind then SocksBind req rest
      else if Cmd req = SOCKS5CmdUDPAssociate then SocksUDP req rest
      else SocksRefused (Reply_Write SOCKS5CommandNotSupportedResponse))"

definition socks_handleConnection ::
  "('t, 's, 'w) proxy_env \<Rightarrow> bytes \<Rightarrow> dns_cache \<Rightarrow> bytes \<times> socks_action \<times> dns_cache" where
  "socks_handleConnection env conn cache =
     (case negotiate conn of
        Inl _ \<Rightarrow> ([], SocksClosed, cache)
      | Inr (reply, conn) \<Rightarrow>
          if env_client_err env \<noteq> None then (reply, SocksClosed, cache)
          else (case ReadSocks5Request conn of
             Inl _ \<Rightarrow> (reply, SocksClosed, cache)
           | Inr (req, rest) \<Rightarrow>
               (case request_addrs env req cache of
                  (Ret (Some (addrs, nameMatch)), c) \<Rightarrow>
                    (case rule_search env (addr_queries addrs) of
                       Ret addrMatch \<Rightarrow> (reply, dispatch_command req addrs (HigherPriority addrMatch nameMatch) rest, c)
                     | _ \<Rightarrow> (reply, SocksCrash, c))
                | (Ret None, c) \<Rightarrow> (reply, SocksDropped, c)
                | (_, c) \<Rightarrow> (reply, SocksCrash, c))))"

section \<open>HTTP and HTTPS\<close>

definition HTTPHandler_HandleRequest ::
  "('t, 's, 'w) proxy_env \<Rightarrow> HTTPRequest \<Rightarrow> bytes \<Rightarrow> bool \<Rightarrow> Destination \<Rightarrow> proxy_effect list \<times> proxy_end" where
  "HTTPHandler_HandleRequest env req rest sent_ok dst =
     (case DialFastest (env_dials env dst) dst of
        None \<Rightarrow> ([Dialing dst 0], Stuck)
      | Some (Inl _) \<Rightarrow> ([Dialing dst 0, HttpReply 502], Failed)
      | Some (Inr ip) \<Rightarrow>
          if \<not> sent_ok then ([Dialing dst 0], Failed)
          else ([Dialing dst 0, ProxyRequest req, TunnelStart rest], Done))"

definition HTTPSHandler_HandleRequest ::
  "('t, 's, 'w) proxy_env \<Rightarrow> bytes \<Rightarrow> Destination \<Rightarrow> Rule option \<Rightarrow> proxy_effect list \<times> proxy_end" where
  "HTTPSHandler_HandleRequest env input dst rule =
     (let cfg = config_of env rule;
          opened = hop_track env (cfg_HTTPS cfg) (dst_Addrs dst) @ [HttpReply 200] in
      if env_client_err env = Some ResetOrEOF then (opened, Done)
      else if env_client_err env \<noteq> None then (opened, Failed)
      else
        let dialed = opened @ [Dialing dst (TCPTimeout (cfg_Conn cfg))] in
        (case DialFastest (env_dials env dst) dst of
           None \<Rightarrow> (dialed, Stuck)
         | Some (Inl _) \<Rightarrow> (dialed, Failed)
         | Some (Inr ip) \<Rightarrow>
             (case ReadTLSMessage input of
                Inl (ReadError _) \<Rightarrow> (dialed, Done)
              | Inl (InvalidTLSHeader _) \<Rightarrow> (dialed, Failed)
              | Inr (msg, rest) \<Rightarrow>
                  if \<not> IsClientHello msg then (dialed, Done)
                  else and_then (dialed, Done)
                         (and_then (send_hello env (cfg_HTTPS cfg) ip msg) ([TunnelStart rest], Done)))))"

definition host_addrs ::
  "('t, 's, 'w) proxy_env \<Rightarrow> string \<Rightarrow> dns_cache \<Rightarrow> (unit, (net_IP list \<times> Rule option) option) outcome \<times> dns_cache" where
  "host_addrs env host cache =
     (case ParseIP host of
        Some ip \<Rightarrow> (Ret (Some ([ip], None)), cache)
      | None \<Rightarrow>
          (case name_match env host of
             Ret m \<Rightarrow>
               (case Resolve (env_resolvers env) (env_now env) (env_cfg env) m host cache of
                  (Ret as, c) \<Rightarrow> (Ret (Some (map AsSlice as, m)), c)
                | (Fail _, c) \<Rightarrow> (Ret None, c)
                | (Panic, c) \<Rightarrow> (Panic, c))
           | _ \<Rightarrow> (Panic, cache)))"

text \<open>The part of the handler after the addresses are known.\<close>

definition http_forward ::
  "('t, 's, 'w) proxy_env \<Rightarrow> HTTPRequest \<Rightarrow> bytes \<Rightarrow> bool \<Rightarrow> Destination \<Rightarrow> Rule option \<Rightarrow> proxy_effect list \<times> proxy_end" where
  "http_forward env req rest sent_ok dst nameMatch =
     (let (ok, err) = Destination_IsValid (env_ifaces env) (env_listen env) dst;
          forbidden = (if err \<noteq> None \<and> \<not> ok then [HttpReply 403] else []) in
      case rule_search env (addr_queries (dst_Addrs dst)) of
        Ret addrMatch \<Rightarrow>
          let best = HigherPriority addrMatch nameMatch in
          if blocks best then (forbidden, Blocked)
          else and_then (forbidden, Done)
                 (if IsConnectMethod req then HTTPSHandler_HandleRequest env rest dst best
                  else HTTPHandler_HandleRequest env req rest sent_ok dst)
      | _ \<Rightarrow> (forbidden, Crashed))"

definition http_handleNewConnection ::
  "('t, 's, 'w) proxy_env \<Rightarrow> (HTTPRequest \<times> bytes) option \<Rightarrow> bool \<Rightarrow> dns_cache \<Rightarrow> (proxy_effect list \<times> proxy_end) \<times> dns_cache" where
  "http_handleNewConnection env parsed sent_ok cache =
     (case parsed of
        None \<Rightarrow> (([], Failed), cache)
      | Some (req, rest) \<Rightarrow>
          if \<not> IsValidMethod req then (([HttpReply 501], Failed), cache)
          else case ExtractPort req of
            None \<Rightarrow> (([HttpReply 400], Failed), cache)
          | Some dstPort \<Rightarrow>
              (case host_addrs env (ExtractHost req) cache of
                 (Ret (Some (addrs, nameMatch)), c) \<Rightarrow>
                   (http_forward env req rest sent_ok
                      \<lparr>dst_Host = ExtractHost req, dst_Addrs = addrs, dst_Port = dstPort\<rparr> nameMatch, c)
               | (Ret None, c) \<Rightarrow> (([HttpReply 502], Failed), c)
               | (_, c) \<Rightarrow> (([], Crashed), c)))"

section \<open>What reaches the destination\<close>

fun effect_bytes :: "proxy_effect \<Rightarrow> bytes" where
  "effect_bytes (RemoteWrites ws) = concat (map snd ws)"
| "effect_bytes _ = []"

definition remote_bytes :: "proxy_effect list \<Rightarrow> bytes" where
  "remote_bytes es = concat (map effect_bytes es)"

definition dials :: "proxy_effect list \<Rightarrow> bool" where
  "dials es \<longleftrightarrow> (\<exists>d t. Dialing d t \<in> set es)"

lemma remote_bytes_simps [simp]:
  "remote_bytes [] = []" "remote_bytes (e # es) = effect_bytes e @ remote_bytes es"
  "remote_bytes (xs @ ys) = remote_bytes xs @ remote_bytes ys"
  by (simp_all add: remote_bytes_def)

lemma dials_simps [simp]:
  "\<not> dials []" "dials (xs @ ys) \<longleftrightarrow> dials xs \<or> dials ys" "dials (Dialing d t # es)"
  "dials (HttpReply n # es) \<longleftrightarrow> dials es" "dials (RemoteWrites w # es) \<longleftrightarrow> dials es"
  by (auto simp: dials_def)

lemma ReadFull_Inr: "ReadFull n r = Inr (a, b) \<Longrightarrow> r = a @ b"
  by (auto simp: ReadFull_def split: if_splits)

lemma ReadTLSMessage_raw: "ReadTLSMessage r = Inr (m, rest) \<Longrightarrow> raw m @ rest = r"
  by (auto simp: ReadTLSMessage_def Let_def split: sum.splits if_splits dest!: ReadFull_Inr)

lemma send_loop_payload:
  assumes "\<forall>k. wr env k = None"
  shows "fst (send_loop env segs st) = None \<and>
    concat (map snd (sent (snd (send_loop env segs st)))) = concat (map snd (sent st)) @ payload segs"
proof (induction segs arbitrary: st)
  case (Cons s segs)
  have keep: "sent (setTTLWrap env t st) = sent st" for t st by (simp add: setTTLWrap_def)
  let ?st1 = "if \<not> ttlErrored st \<and> Lazy s then setTTLWrap env 1 st else st"
  obtain st2 where st2: "conn_write env (Packet s) ?st1 = (None, st2)" "sent st2 = sent ?st1 @ [(sock_ttl ?st1, Packet s)]"
    by (simp add: conn_write_ok [OF assms])
  let ?st3 = "if \<not> ttlErrored st2 \<and> Lazy s then setTTLWrap env getDefaultTTL st2 else st2"
  have "send_loop env (s # segs) st = send_loop env segs ?st3" by (simp only: send_loop.simps Let_def st2(1) prod.case option.case)
  moreover have "sent ?st3 = sent st @ [(sock_ttl ?st1, Packet s)]" using st2(2) keep by simp
  ultimately show ?case using Cons.IH [of ?st3] by simp
qed simp

lemma sendSegments_payload:
  assumes "\<forall>k. wr env k = None" "sendSegments env t segs = (n, err, st)"
  shows "err = None" "concat (map snd (sent st)) = payload segs"
  using assms(2) send_loop_payload [OF assms(1), of segs
      "\<lparr>sock_ttl = t, sent = [], ttlErrored = False, ttl_calls = 0, write_calls = 0, total_n = 0\<rparr>"]
  by (auto simp: sendSegments_def split_beta)

lemma split_payload:
  assumes "sorts (sortPoints ch)" "\<forall>s\<in>set (CustomSegmentPlans opts). in_int64 (Noise s)" "split ch b opts = Ret segs"
  shows "payload segs = b"
  using split_by_mode_payload [OF assms(1,2), of b] assms(3)
  by (auto simp: split_def split: outcome.splits)

text \<open>Sockets work and the split points come back sorted.\<close>

definition quiet_env :: "('t, 's, 'w) proxy_env \<Rightarrow> HTTPSOptions \<Rightarrow> bool" where
  "quiet_env env opts \<longleftrightarrow>
     (\<forall>k. wr (env_sock env) k = None) \<and> sorts (sortPoints (env_chance2 env)) \<and>
     (\<forall>s\<in>set (CustomSegmentPlans opts). in_int64 (Noise s))"

lemma send_hello_bytes:
  assumes "quiet_env env opts" "send_hello env opts ip msg = (es, Done)"
  shows "remote_bytes es = raw msg \<and> \<not> dials es"
proof -
  from assms have q: "\<forall>k. wr (env_sock env) k = None" "sorts (sortPoints (env_chance2 env))"
    "\<forall>s\<in>set (CustomSegmentPlans opts). in_int64 (Noise s)" by (auto simp: quiet_env_def)
  from assms(2) obtain n st w where
    "TLSDesyncer_Desync (env_desyncer env) (env_chance1 env) (env_chance2 env) (env_sock env) getDefaultTTL ip msg opts
             (env_writer env) = Ret ((n, None, st), w)" and es: "es = [RemoteWrites (sent st)]"
    by (auto simp: send_hello_def split: outcome.splits if_splits)
  then obtain segs where segs: "sendSegments (env_sock env) getDefaultTTL segs = (n, None, st)"
      and p: "segs = whole (raw msg) \<or> split (env_chance2 env) (raw msg) opts = Ret segs"
    by (auto simp: TLSDesyncer_Desync_def obind_Ret_conv split: if_splits)
  have "payload segs = raw msg" using p split_payload [OF q(2,3)] by auto
  with sendSegments_payload(2) [OF q(1) segs] show ?thesis by (simp add: es dials_def)
qed

lemma write_raw_bytes:
  assumes "quiet_env env opts" "write_raw env b = (es, e)"
  shows "remote_bytes es = b \<and> \<not> dials es"
  using assms sendSegments_payload(2) [of "env_sock env" getDefaultTTL "whole b"]
  by (auto simp: write_raw_def quiet_env_def dials_def split: prod.splits)

lemma and_then_Done: "and_then a b = (es, Done) \<longleftrightarrow> snd a = Done \<and> snd b = Done \<and> es = fst a @ fst b"
  by (auto simp: and_then_def)

lemma relay_first_message_bytes:
  assumes "quiet_env env opts" "relay_first_message env opts ip input = (es, Done)" "TunnelStart rest \<in> set es"
  shows "remote_bytes es @ rest = input"
proof (cases "input \<noteq> [] \<and> hd input = TLSHandshake")
  case False
  with assms(2,3) show ?thesis by (cases input) (auto simp: relay_first_message_def)
next
  case True
  then obtain b bs where input: "input = b # bs" "b = TLSHandshake" by (cases input) auto
  with assms(2,3) obtain msg r where m: "ReadTLSMessage input = Inr (msg, r)"
    by (cases "ReadTLSMessage input") (auto simp: relay_first_message_def split: tls_read_error.splits)
  let ?first = "if IsClientHello msg then if https_Skip opts then write_raw env (raw msg) else send_hello env opts ip msg
      else write_raw env (raw msg)"
  have "and_then ?first ([TunnelStart r], Done) = (es, Done)"
    using assms(2) m input by (simp add: relay_first_message_def)
  then have d: "snd ?first = Done" and es: "es = fst ?first @ [TunnelStart r]" by (auto simp: and_then_Done)
  have "remote_bytes (fst ?first) = raw msg \<and> (\<forall>x. TunnelStart x \<notin> set (fst ?first))"
    using d send_hello_bytes [OF assms(1), of ip msg] write_raw_bytes [OF assms(1), of "raw msg"]
    by (auto simp: send_hello_def write_raw_def split: if_splits outcome.splits prod.splits)
  with es assms(3) ReadTLSMessage_raw [OF m] show ?thesis by auto
qed

section \<open>Properties of the handlers\<close>

lemma hop_track_effects: "remote_bytes (hop_track env opts addrs) = [] \<and> TunnelStart r \<notin> set (hop_track env opts addrs)
    \<and> HttpReply n \<notin> set (hop_track env opts addrs) \<and> \<not> dials (hop_track env opts addrs)"
  by (auto simp: hop_track_def TLSDesyncer_PrepareHopTrack_def dials_def split: option.splits)

text \<open>What a CONNECT that passes its checks does.\<close>

lemma connect_unfold:
  assumes "fst (Destination_IsValid (env_ifaces env) (env_listen env) dst)" "\<not> blocks rule"
  defines "cfg \<equiv> config_of env rule"
  defines "dialed \<equiv> hop_track env (cfg_HTTPS cfg) (dst_Addrs dst) @ [Dialing dst (TCPTimeout (cfg_Conn cfg))]"
  defines "opened \<equiv> dialed @ [ClientWrite (Reply_Write (Reply_Port 0 (Reply_Bind (Some IPv4zero) SOCKS5SuccessResponse)))]"
  shows "ConnectHandler_Handle env input dst rule =
    (case DialFastest (env_dials env dst) dst of
       None \<Rightarrow> (dialed, Stuck)
     | Some (Inl _) \<Rightarrow> (dialed @ [ClientWrite (Reply_Write SOCKS5FailureResponse)], Failed)
     | Some (Inr ip) \<Rightarrow>
         if env_client_err env \<noteq> None then (opened, Failed)
         else and_then (opened, Done) (relay_first_message env (cfg_HTTPS cfg) ip input))"
  using assms(1,2) unfolding ConnectHandler_Handle_def Let_def split_beta cfg_def dialed_def opened_def by simp

lemma connect_refused:
  assumes "\<not> fst (Destination_IsValid (env_ifaces env) (env_listen env) dst) \<or> blocks rule"
  shows "fst (ConnectHandler_Handle env input dst rule) = [ClientWrite (Reply_Write SOCKS5FailureResponse)]"
  using assms IsValid_error [of "env_ifaces env" "env_listen env" dst]
  by (auto simp: ConnectHandler_Handle_def Let_def split_beta)

text \<open>
  C10: a SOCKS5 CONNECT is transparent. Whatever the configured split mode, disorder and random draws, when the connection is
  opened and the socket accepts the writes, the bytes written to the destination before the tunnel followed by the bytes
  the tunnel still has to copy are exactly the bytes the client sent after its request.
\<close>

theorem socks_connect_transparent:
  assumes q: "quiet_env env (cfg_HTTPS (config_of env rule))"
    and h: "ConnectHandler_Handle env input dst rule = (es, Done)" and t: "TunnelStart rest \<in> set es"
  shows "remote_bytes es @ rest = input"
proof -
  have "fst (Destination_IsValid (env_ifaces env) (env_listen env) dst) \<and> \<not> blocks rule"
    using connect_refused [of env dst rule input] h t by force
  then have v: "fst (Destination_IsValid (env_ifaces env) (env_listen env) dst)" "\<not> blocks rule" by blast+
  let ?pre = "hop_track env (cfg_HTTPS (config_of env rule)) (dst_Addrs dst) @ [Dialing dst (TCPTimeout (cfg_Conn (config_of env rule)))]
      @ [ClientWrite (Reply_Write (Reply_Port 0 (Reply_Bind (Some IPv4zero) SOCKS5SuccessResponse)))]"
  obtain ip where r: "and_then (?pre, Done) (relay_first_message env (cfg_HTTPS (config_of env rule)) ip input) = (es, Done)"
    using h unfolding connect_unfold [OF v] by (auto split: option.splits sum.splits if_splits)
  obtain es2 where es: "relay_first_message env (cfg_HTTPS (config_of env rule)) ip input = (es2, Done)" "es = ?pre @ es2"
    using r by (cases "relay_first_message env (cfg_HTTPS (config_of env rule)) ip input") (auto simp: and_then_Done)
  note ht = hop_track_effects [of env "cfg_HTTPS (config_of env rule)" "dst_Addrs dst"]
  from t es(2) ht have "TunnelStart rest \<in> set es2" by auto
  from relay_first_message_bytes [OF q es(1) this] ht show ?thesis unfolding es(2) by simp
qed

text \<open>A SOCKS5 CONNECT to the proxy itself (its own port at a loopback or interface address) or to a blocked destination
  is answered with a failure reply and nothing else: no hop is tracked and no connection is attempted.
\<close>

theorem socks_connect_refuses:
  assumes "env_ifaces env = Some ifAddrs" "is_self ifAddrs (env_listen env) dst \<or> blocks rule"
  shows "fst (ConnectHandler_Handle env input dst rule) = [ClientWrite (Reply_Write SOCKS5FailureResponse)]"
  using assms by (intro connect_refused) (auto simp: IsValid_iff)

text \<open>The HTTP proxy does dial itself. When a request that no rule blocks names the proxy's own port at a loopback or interface
  address, the client is sent a 403 response, but the handler goes on: the destination is dialed all the same, for CONNECT
  after a second response with status 200 on the same connection.
\<close>

theorem http_dials_itself:
  assumes self: "env_ifaces env = Some ifAddrs" "is_self ifAddrs (env_listen env) dst"
    and m: "rule_search env (addr_queries (dst_Addrs dst)) = Ret am" "\<not> blocks (HigherPriority am nm)"
    and c: "env_client_err env = None"
  shows "\<exists>es. fst (http_forward env req rest sent_ok dst nm) = HttpReply 403 # es \<and> dials es \<and>
    (IsConnectMethod req \<longrightarrow> HttpReply 200 \<in> set es)"
proof -
  have "\<not> fst (Destination_IsValid (env_ifaces env) (env_listen env) dst)"
    using self by (simp add: IsValid_iff)
  then have f: "(if snd (Destination_IsValid (env_ifaces env) (env_listen env) dst) \<noteq> None \<and>
      \<not> fst (Destination_IsValid (env_ifaces env) (env_listen env) dst) then [HttpReply 403] else []) = [HttpReply 403]"
    using IsValid_error [of "env_ifaces env" "env_listen env" dst] by simp
  let ?h = "if IsConnectMethod req then HTTPSHandler_HandleRequest env rest dst (HigherPriority am nm)
      else HTTPHandler_HandleRequest env req rest sent_ok dst"
  have "http_forward env req rest sent_ok dst nm = and_then ([HttpReply 403], Done) ?h"
    unfolding http_forward_def Let_def split_beta f m(1) using m(2) by simp
  moreover have "dials (fst ?h) \<and> (IsConnectMethod req \<longrightarrow> HttpReply 200 \<in> set (fst ?h))"
  proof (cases "IsConnectMethod req")
    case True
    have "\<exists>es. fst (HTTPSHandler_HandleRequest env rest dst (HigherPriority am nm)) =
        hop_track env (cfg_HTTPS (config_of env (HigherPriority am nm))) (dst_Addrs dst) @ [HttpReply 200,
          Dialing dst (TCPTimeout (cfg_Conn (config_of env (HigherPriority am nm))))] @ es"
      using c by (auto simp: HTTPSHandler_HandleRequest_def Let_def and_then_def
          split: option.splits sum.splits tls_read_error.splits)
    with True show ?thesis by auto
  next
    case False
    then show ?thesis by (auto simp: HTTPHandler_HandleRequest_def dials_def split: option.splits sum.splits)
  qed
  ultimately show ?thesis by (simp add: and_then_def)
qed

text \<open>
  An HTTPS CONNECT reports success before it knows. When every dial attempt fails, the client of the HTTP proxy has
  been told that the connection is established and gets no error response, while the client of the SOCKS5 proxy in the same
  situation gets a failure reply and never a success reply.
\<close>

theorem connect_replies_on_dial_failure:
  assumes d: "DialFastest (env_dials env dst) dst = Some (Inl e)" and c: "env_client_err env = None"
    and v: "fst (Destination_IsValid (env_ifaces env) (env_listen env) dst)" "\<not> blocks rule"
  shows "filter (\<lambda>x. \<exists>n. x = HttpReply n) (fst (HTTPSHandler_HandleRequest env input dst rule)) = [HttpReply 200] \<and>
    filter (\<lambda>x. \<exists>b. x = ClientWrite b) (fst (ConnectHandler_Handle env input dst rule)) =
      [ClientWrite (Reply_Write SOCKS5FailureResponse)]"
proof -
  have h: "filter (\<lambda>x. \<exists>n. x = HttpReply n) (hop_track env opts addrs) = []"
    "filter (\<lambda>x. \<exists>b. x = ClientWrite b) (hop_track env opts addrs) = []" for opts addrs
    by (auto simp: hop_track_def TLSDesyncer_PrepareHopTrack_def split: option.splits)
  show ?thesis
    unfolding connect_unfold [OF v] using d c by (simp add: HTTPSHandler_HandleRequest_def Let_def h)
qed

section \<open>A concrete proxy\<close>

definition sample_env ::
  "HTTPSSplitModeType \<Rightarrow> unit dial_event list \<Rightarrow> ((bool list \<times> u32) list, (bool list \<times> u32) list, unit) proxy_env" where
  "sample_env mode arrivals =
     \<lparr>env_P4 = alist_patricia, env_P6 = alist_patricia, env_rules = NewRuleSet alist_patricia alist_patricia,
      env_listen = \<lparr>tcp_IP = Some [127, 0, 0, 1], tcp_Port = 8080\<rparr>,
      env_cfg = udp_config\<lparr>cfg_HTTPS := example_opts mode\<rparr>, env_resolvers = fixed_resolver [] 0, env_now = 0,
      env_ifaces = Some [[10, 0, 0, 5]], env_dials = (\<lambda>_. arrivals), env_client_err = None,
      env_desyncer = \<lparr>tls_writer = None, tls_sniffer = None\<rparr>, env_chance1 = stable_chance 0, env_chance2 = stable_chance 0,
      env_sock = \<lparr>ttl_ok = (\<lambda>_. True), wr = (\<lambda>_. None)\<rparr>, env_writer = ()\<rparr>"

definition sample_dst :: "int \<Rightarrow> net_IP \<Rightarrow> Destination" where
  "sample_dst port ip = \<lparr>dst_Host = ''h'', dst_Addrs = [ip], dst_Port = port\<rparr>"

theorem socks_connect_transparent_witness:
  "\<exists>es. ConnectHandler_Handle (sample_env HTTPSSplitModeFirstByte [DialOk [1, 2, 3, 4]])
       [0x16, 3, 1, 0, 2, 1, 7, 9, 9] (sample_dst 443 [1, 2, 3, 4]) None = (es, Done) \<and>
     TunnelStart [9, 9] \<in> set es \<and> remote_bytes es @ [9, 9] = [0x16, 3, 1, 0, 2, 1, 7, 9, 9]"
proof -
  let ?env = "sample_env HTTPSSplitModeFirstByte [DialOk [1, 2, 3, 4]]"
  let ?h = "ConnectHandler_Handle ?env [0x16, 3, 1, 0, 2, 1, 7, 9, 9] (sample_dst 443 [1, 2, 3, 4]) None"
  have q: "quiet_env ?env (cfg_HTTPS (config_of ?env None))"
    using sorts_sort_key [of 0] by (simp add: quiet_env_def sample_env_def config_of_def example_opts_def)
  have "snd ?h = Done" "TunnelStart [9, 9] \<in> set (fst ?h)" by code_simp+
  then obtain es where h: "?h = (es, Done)" "TunnelStart [9, 9] \<in> set es" by (cases ?h) auto
  from socks_connect_transparent [OF q h] h show ?thesis by blast
qed

theorem socks_connect_refuses_witness:
  "fst (ConnectHandler_Handle (sample_env HTTPSSplitModeNone [DialOk [10, 0, 0, 5]]) [] (sample_dst 8080 [10, 0, 0, 5]) None) =
     [ClientWrite (Reply_Write SOCKS5FailureResponse)]"
  by (rule socks_connect_refuses [of _ "[[10, 0, 0, 5]]"])
    (simp_all add: sample_env_def is_self_def sample_dst_def IP_Equal_def)

theorem http_dials_itself_witness:
  "\<exists>es. fst (http_forward (sample_env HTTPSSplitModeNone [DialOk [10, 0, 0, 5]]) \<lparr>http_Method = ''CONNECT'', http_Host = ''h:8080''\<rparr> [] True
       (sample_dst 8080 [10, 0, 0, 5]) None) = HttpReply 403 # es \<and> dials es \<and> HttpReply 200 \<in> set es"
proof -
  let ?env = "sample_env HTTPSSplitModeNone [DialOk [10, 0, 0, 5]]"
  have "\<not> blocks (HigherPriority None None)" by (simp add: blocks_def HigherPriority_def)
  moreover have "rule_search ?env (addr_queries (dst_Addrs (sample_dst 8080 [10, 0, 0, 5]))) = Ret None" by code_simp
  ultimately show ?thesis
    using http_dials_itself [of ?env "[[10, 0, 0, 5]]" "sample_dst 8080 [10, 0, 0, 5]" None None
        "\<lparr>http_Method = ''CONNECT'', http_Host = ''h:8080''\<rparr>" "[]" True]
    by (simp add: sample_env_def is_self_def sample_dst_def IP_Equal_def IsConnectMethod_def)
qed

theorem connect_replies_on_dial_failure_witness:
  "filter (\<lambda>x. \<exists>n. x = HttpReply n) (fst (HTTPSHandler_HandleRequest (sample_env HTTPSSplitModeNone [DialErr ()]) [] (sample_dst 443 [1, 2, 3, 4]) None)) = [HttpReply 200]"
  using connect_replies_on_dial_failure [of "sample_env HTTPSSplitModeNone [DialErr ()]" "sample_dst 443 [1, 2, 3, 4]" "AllFailed 1 ()" None "[]"]
  by (simp add: sample_env_def sample_dst_def DialFastest_def Destination_IsValid_def blocks_def)

end
