(* ===== verification/Tun_Server.thy ===== *)
theory Tun_Server
  imports Proxy_Handlers
begin

text \<open>
  \<open>pkg/spoofdpi/internal/server/tun\<close>: the proxy behind a virtual network device. A third-party network stack turns the packets of the
  device into connections and is given the packets; here are the pump between the two, the forwarders that start a handler for each
  connection, and the handlers. The environment and the effects are those of the other servers.
\<close>

section \<open>Handlers\<close>

definition addr_rule_config :: "('t, 's, 'w) proxy_env \<Rightarrow> Destination \<Rightarrow> (unit, RuntimeConfig) outcome" where
  "addr_rule_config env dst =
     (case dst_Addrs dst of
        [] \<Rightarrow> Panic
      | a # _ \<Rightarrow> obind (rule_search env [\<lparr>q_Type = MatchTypeAddr, q_Value = IP_String a\<rparr>]) (\<lambda>r. Ret (config_of env r)))"

definition domain_rule_config :: "('t, 's, 'w) proxy_env \<Rightarrow> RuntimeConfig \<Rightarrow> string \<Rightarrow> (unit, RuntimeConfig) outcome" where
  "domain_rule_config env cfg host =
     (if host = [] then Ret cfg
      else obind (name_match env host) (\<lambda>r. Ret (case r of None \<Rightarrow> cfg | Some r \<Rightarrow> rule_Config r)))"

definition handleTLS :: "('t, 's, 'w) proxy_env \<Rightarrow> RuntimeConfig \<Rightarrow> bytes \<Rightarrow> Destination \<Rightarrow> proxy_effect list \<times> proxy_end" where
  "handleTLS env cfg input dst =
     (case ReadTLSMessage input of
        Inl _ \<Rightarrow> ([], Failed)
      | Inr (tlsMsg, rest) \<Rightarrow>
          if \<not> IsClientHello tlsMsg then ([], Failed)
          else
            (case ExtractSNIOffset (raw tlsMsg) of
               Fail _ \<Rightarrow> ([], Failed)
             | Panic \<Rightarrow> ([], Crashed)
             | Ret (start, e) \<Rightarrow>
                 if \<not> (start \<le> e \<and> e \<le> length (raw tlsMsg)) then ([], Crashed)
                 else
                   let dst = dst\<lparr>dst_Host := str_of (take (e - start) (drop start (raw tlsMsg)))\<rparr> in
                   (case domain_rule_config env cfg (dst_Host dst) of
                      Ret cfg \<Rightarrow>
                        let dialed = hop_track env (cfg_HTTPS cfg) (dst_Addrs dst) @ [Dialing dst (TCPTimeout (cfg_Conn cfg))] in
                        (case DialFastest (env_dials env dst) dst of
                           None \<Rightarrow> (dialed, Stuck)
                         | Some (Inl _) \<Rightarrow> (dialed, Failed)
                         | Some (Inr ip) \<Rightarrow>
                             and_then (dialed, Done) (and_then (send_hello env (cfg_HTTPS cfg) ip tlsMsg) ([TunnelStart rest], Done)))
                    | _ \<Rightarrow> ([], Crashed))))"

text \<open>\<open>input\<close>: what the client sends. Nothing within a second ends the handler; \<open>in_time\<close> is the arrival of the first byte.\<close>

definition TCPHandler_Handle :: "('t, 's, 'w) proxy_env \<Rightarrow> bool \<Rightarrow> bytes \<Rightarrow> Destination \<Rightarrow> proxy_effect list \<times> proxy_end" where
  "TCPHandler_Handle env in_time input dst =
     (case addr_rule_config env dst of
        Ret cfg \<Rightarrow>
          (case input of
             [] \<Rightarrow> ([], Failed)
           | b # _ \<Rightarrow>
               if \<not> in_time then ([], Failed)
               else if b = TLSHandshake then handleTLS env cfg input dst
               else
                 let dialed = [Dialing dst (TCPTimeout (cfg_Conn cfg))] in
                 (case DialFastest (env_dials env dst) dst of
                    None \<Rightarrow> (dialed, Stuck)
                  | Some (Inl _) \<Rightarrow> (dialed, Failed)
                  | Some (Inr ip) \<Rightarrow> (dialed @ [TunnelStart input], Done)))
      | _ \<Rightarrow> ([], Crashed))"

datatype tun_udp_effect =
    TunHopTrack "net_IP list"
  | TunDial Destination
  | TunFakes net_IP nat
  | TunRelay Destination int

definition UDPHandler_Handle ::
  "('t, 's, 'w) proxy_env \<Rightarrow> (net_IP, unit, 'w) TLSDesyncer \<Rightarrow> 'w \<Rightarrow> Destination \<Rightarrow> (tun_udp_effect list \<times> proxy_end) \<times> 'w" where
  "UDPHandler_Handle env d w dst =
     (case addr_rule_config env dst of
        Ret cfg \<Rightarrow>
          let opts = cfg_UDP cfg;
              tracked = UDPDesyncer_PrepareHopTrack (map_option (\<lambda>_ a s. s @ [TunHopTrack a]) (tls_sniffer d)) (dst_Addrs dst) opts [];
              es = tracked @ [TunDial dst] in
          (case DialFastest (env_dials env dst) dst of
             None \<Rightarrow> ((es, Stuck), w)
           | Some (Inl _) \<Rightarrow> ((es, Failed), w)
           | Some (Inr ip) \<Rightarrow>
               let (n, w) = (if udp_Skip opts then (0, w) else UDPDesyncer_Desync d ip opts w) in
               ((es @ (if udp_Skip opts then [] else [TunFakes ip n]) @ [TunRelay dst (UDPIdleTimeout (cfg_Conn cfg))], Done), w))
      | _ \<Rightarrow> (([], Crashed), w))"

section \<open>Forwarders\<close>

datatype conn_error = InvalidLocalAddr string | NonIPDestination string | NonNumericPort string

definition connToDst :: "string \<Rightarrow> conn_error + Destination" where
  "connToDst localAddr =
     (case SplitHostPort localAddr of
        None \<Rightarrow> Inl (InvalidLocalAddr localAddr)
      | Some (host, portStr) \<Rightarrow>
          (case ParseIP host of
             None \<Rightarrow> Inl (NonIPDestination host)
           | Some ip \<Rightarrow>
               (case Atoi portStr of
                  None \<Rightarrow> Inl (NonNumericPort portStr)
                | Some port \<Rightarrow> Inr \<lparr>dst_Host = host, dst_Addrs = [ip], dst_Port = port\<rparr>)))"

text \<open>
  What the stack's callbacks do with a request: reset or close it, or start a handler. \<open>endpoint\<close> is the text of the local address of the
  endpoint, if it could be created. The callback for UDP goes on after each of its two errors: it asks a missing endpoint for its address,
  and starts the handler without a destination, whose addresses the handler reads first.
\<close>

datatype forward = ResetRequest | CloseConn | StartHandler Destination

definition tcp_forward :: "string option \<Rightarrow> (unit, forward) outcome" where
  "tcp_forward endpoint =
     (case endpoint of
        None \<Rightarrow> Ret ResetRequest
      | Some localAddr \<Rightarrow> Ret (case connToDst localAddr of Inl _ \<Rightarrow> CloseConn | Inr dst \<Rightarrow> StartHandler dst))"

definition udp_forward :: "string option \<Rightarrow> (unit, forward) outcome" where
  "udp_forward endpoint =
     (case endpoint of
        None \<Rightarrow> Panic
      | Some localAddr \<Rightarrow> (case connToDst localAddr of Inl _ \<Rightarrow> Panic | Inr dst \<Rightarrow> Ret (StartHandler dst)))"

section \<open>The pump\<close>

definition readOffset :: nat where
  "readOffset = 10"

definition writeOffset :: nat where
  "writeOffset = 10"

text \<open>The packets of one read: buffers with headroom and the sizes the device reports. A size past the buffer panics.\<close>

fun tunToStack :: "(nat \<times> bytes) list \<Rightarrow> (unit, bytes list) outcome" where
  "tunToStack [] = Ret []"
| "tunToStack ((sz, buf) # rest) =
     (if sz < 1 then tunToStack rest
      else
        obind (gslice buf readOffset (readOffset + sz)) (\<lambda>packet.
        obind (index packet 0) (\<lambda>b.
          if drop_bit 4 b \<noteq> 4 then tunToStack rest
          else obind (tunToStack rest) (\<lambda>ps. Ret (packet # ps)))))"

text \<open>The buffer handed to the device for a packet of the stack, from a pooled buffer with old content.\<close>

definition stackToTun :: "bytes \<Rightarrow> bytes \<Rightarrow> bytes option" where
  "stackToTun pooled views =
     (if length views > 0 then
        let needed = writeOffset + length views;
            b = (if length pooled < needed then replicate needed 0 else pooled) in
        Some (take writeOffset (take needed b) @ views)
      else None)"

section \<open>Transparency\<close>

definition sni_host :: "bytes \<Rightarrow> string" where
  "sni_host input =
     (case ReadTLSMessage input of
        Inl _ \<Rightarrow> []
      | Inr (m, _) \<Rightarrow> (case ExtractSNIOffset (raw m) of Ret (start, e) \<Rightarrow> str_of (take (e - start) (drop start (raw m))) | _ \<Rightarrow> []))"

text \<open>The sockets work, and so do the options of every configuration the rules can select for this connection.\<close>

definition quiet_tun :: "('t, 's, 'w) proxy_env \<Rightarrow> bytes \<Rightarrow> Destination \<Rightarrow> bool" where
  "quiet_tun env input dst \<longleftrightarrow>
     (case addr_rule_config env dst of Ret cfg \<Rightarrow> quiet_env env (cfg_HTTPS cfg) | _ \<Rightarrow> True) \<and>
     (case name_match env (sni_host input) of Ret (Some r) \<Rightarrow> quiet_env env (cfg_HTTPS (rule_Config r)) | _ \<Rightarrow> True)"

lemma handleTLS_Done:
  assumes "handleTLS env cfg input dst = (es, Done)"
  obtains m rest cfg' ip where "ReadTLSMessage input = Inr (m, rest)" "domain_rule_config env cfg (sni_host input) = Ret cfg'"
    "es = hop_track env (cfg_HTTPS cfg') (dst_Addrs dst) @ [Dialing (dst\<lparr>dst_Host := sni_host input\<rparr>) (TCPTimeout (cfg_Conn cfg'))] @
       fst (send_hello env (cfg_HTTPS cfg') ip m) @ [TunnelStart rest]"
    "snd (send_hello env (cfg_HTTPS cfg') ip m) = Done"
  using assms
  by (auto simp: handleTLS_def sni_host_def Let_def and_then_def split: sum.splits if_splits outcome.splits option.splits prod.splits)

lemma send_hello_no_tunnel: "TunnelStart r \<notin> set (fst (send_hello env opts ip m))"
  by (auto simp: send_hello_def split: outcome.splits)

lemma domain_config_quiet:
  assumes "quiet_tun env input dst" and "addr_rule_config env dst = Ret cfg" and "domain_rule_config env cfg (sni_host input) = Ret cfg'"
  shows "quiet_env env (cfg_HTTPS cfg')"
  using assms by (auto simp: quiet_tun_def domain_rule_config_def obind_Ret_conv split: if_splits option.splits)

lemma handleTLS_bytes:
  assumes "quiet_tun env input dst" and "addr_rule_config env dst = Ret cfg" and h: "handleTLS env cfg input dst = (es, Done)"
    and t: "TunnelStart rest \<in> set es"
  shows "remote_bytes es @ rest = input"
proof -
  obtain m r cfg' ip where m: "ReadTLSMessage input = Inr (m, r)" and c: "domain_rule_config env cfg (sni_host input) = Ret cfg'"
    and es: "es = hop_track env (cfg_HTTPS cfg') (dst_Addrs dst) @ [Dialing (dst\<lparr>dst_Host := sni_host input\<rparr>) (TCPTimeout (cfg_Conn cfg'))] @
       fst (send_hello env (cfg_HTTPS cfg') ip m) @ [TunnelStart r]"
    and d: "snd (send_hello env (cfg_HTTPS cfg') ip m) = Done"
    using handleTLS_Done [OF h] by blast
  have "rest = r" using t es hop_track_effects [of env "cfg_HTTPS cfg'" "dst_Addrs dst"] by (auto simp: send_hello_no_tunnel)
  moreover have "remote_bytes (fst (send_hello env (cfg_HTTPS cfg') ip m)) = raw m"
    using send_hello_bytes [OF domain_config_quiet [OF assms(1,2) c], of ip m] d by (metis prod.collapse)
  ultimately show ?thesis
    using es ReadTLSMessage_raw [OF m] hop_track_effects [of env "cfg_HTTPS cfg'" "dst_Addrs dst"] by simp
qed

lemma handleTLS_dials:
  assumes "Dialing d t \<in> set (fst (handleTLS env cfg input dst))"
  shows "dst_Addrs d = dst_Addrs dst \<and> dst_Port d = dst_Port dst"
proof -
  have "Dialing d t \<notin> set (hop_track env o' a)" for o' a using hop_track_effects [of env o' a] by (auto simp: dials_def)
  moreover have "Dialing d t \<notin> set (fst (send_hello env o' ip m))" for o' ip m by (auto simp: send_hello_def split: outcome.splits)
  ultimately show ?thesis
    using assms by (auto simp: handleTLS_def Let_def and_then_def split: sum.splits if_splits outcome.splits option.splits prod.splits)
qed

text \<open>
  C36: a connection through the virtual device is transparent. Whatever the rules select, only the address and port the client connected to
  are dialed; and when the tunnel starts and the sockets accept the writes, what was written to the destination before the tunnel, followed
  by what the tunnel still has to copy, are exactly the bytes the client sent.
\<close>

theorem tun_connection_transparent:
  assumes "quiet_tun env input dst" and "TCPHandler_Handle env in_time input dst = (es, e)"
  shows "(\<forall>d t. Dialing d t \<in> set es \<longrightarrow> dst_Addrs d = dst_Addrs dst \<and> dst_Port d = dst_Port dst) \<and>
    (\<forall>rest. e = Done \<longrightarrow> TunnelStart rest \<in> set es \<longrightarrow> remote_bytes es @ rest = input)"
proof -
  have "(\<exists>cfg. addr_rule_config env dst = Ret cfg \<and> handleTLS env cfg input dst = (es, e)) \<or>
      (\<forall>d t. Dialing d t \<in> set es \<longrightarrow> d = dst) \<and> (\<forall>rest. TunnelStart rest \<in> set es \<longrightarrow> rest = input) \<and> remote_bytes es = []"
    using assms(2) by (auto simp: TCPHandler_Handle_def Let_def split: outcome.splits list.splits if_splits option.splits sum.splits)
  then show ?thesis
  proof (elim disjE exE conjE)
    fix cfg assume c: "addr_rule_config env dst = Ret cfg" "handleTLS env cfg input dst = (es, e)"
    then show ?thesis using handleTLS_dials [of _ _ env cfg input dst] handleTLS_bytes [OF assms(1) c(1)] by auto
  qed auto
qed

section \<open>What is and is not checked\<close>

text \<open>The handlers never look at the \<open>Block\<close> field of the rule that matches: a blocked address is dialed.\<close>

lemma tun_dials_blocked_address:
  assumes "dst_Addrs dst = [ip]" and "rule_search env [\<lparr>q_Type = MatchTypeAddr, q_Value = IP_String ip\<rparr>] = Ret (Some r)" and "Block r"
    and "b \<noteq> TLSHandshake"
  shows "Dialing dst (TCPTimeout (cfg_Conn (rule_Config r))) \<in> set (fst (TCPHandler_Handle env True (b # bs) dst))"
  using assms by (auto simp: TCPHandler_Handle_def addr_rule_config_def config_of_def Let_def split: option.splits sum.splits)

lemma udp_forward_panics: "udp_forward None = Panic" "connToDst localAddr = Inl err \<Longrightarrow> udp_forward (Some localAddr) = Panic"
  by (simp_all add: udp_forward_def)

text \<open>The TCP callback never panics, and the address of an endpoint reads back as the destination.\<close>

lemma tcp_forward_safe: "tcp_forward endpoint \<noteq> Panic"
  by (simp add: tcp_forward_def split: option.splits)

section \<open>Packets\<close>

text \<open>Every IPv4 packet of a read enters the stack, in order, and nothing else does.\<close>

lemma tunToStack_exact:
  assumes "list_all (\<lambda>(n, buf). readOffset + n \<le> length buf) reads"
  shows "tunToStack reads = Ret (filter (\<lambda>p. p \<noteq> [] \<and> drop_bit 4 (hd p) = 4) (map (\<lambda>(n, buf). take n (drop readOffset buf)) reads))"
  using assms
proof (induction reads)
  case (Cons r reads)
  obtain n buf where r: "r = (n, buf)" by (cases r)
  show ?case
  proof (cases n)
    case (Suc k)
    then obtain b rest where "take n (drop readOffset buf) = b # rest"
      using Cons.prems r by (cases "take n (drop readOffset buf)") auto
    then show ?thesis using Cons r Suc by (simp add: gslice_def index_def)
  qed (use Cons r in simp)
qed simp

text \<open>Whatever a pooled buffer held before, the device reads the packet behind the headroom.\<close>

lemma stackToTun_packet: "stackToTun pooled views = Some buf \<Longrightarrow> drop writeOffset buf = views"
  by (auto simp: stackToTun_def writeOffset_def Let_def split: if_splits)

section \<open>Example\<close>

definition tun_hello :: bytes where
  "tun_hello = hello_bytes \<lparr>ch_record = [3, 1, 0, 59], ch_length = [0, 0, 55], ch_random = replicate 34 0, ch_session = [],
     ch_ciphers = [0, 1], ch_compression = [0], ch_exts = [(0, sni_data [97, 46, 98])]\<rparr>"

theorem tun_connection_transparent_witness:
  "let h = TCPHandler_Handle (sample_env HTTPSSplitModeFirstByte [DialOk [1, 2, 3, 4]]) True (tun_hello @ [9, 9]) (sample_dst 443 [1, 2, 3, 4]) in
     snd h = Done \<and> TunnelStart [9, 9] \<in> set (fst h) \<and> remote_bytes (fst h) = tun_hello"
proof -
  let ?env = "sample_env HTTPSSplitModeFirstByte [DialOk [1, 2, 3, 4]]" and ?dst = "sample_dst 443 [1, 2, 3, 4]"
  let ?h = "TCPHandler_Handle ?env True (tun_hello @ [9, 9]) ?dst"
  have c: "addr_rule_config ?env ?dst = Ret (env_cfg ?env)" "name_match ?env (sni_host (tun_hello @ [9, 9])) = Ret None" by code_simp+
  have "quiet_tun ?env (tun_hello @ [9, 9]) ?dst"
    using sorts_sort_key [of 0] by (simp add: quiet_tun_def c) (simp add: quiet_env_def sample_env_def example_opts_def)
  from tun_connection_transparent [OF this, of True "fst ?h" "snd ?h"]
  have "snd ?h = Done \<longrightarrow> TunnelStart [9, 9] \<in> set (fst ?h) \<longrightarrow> remote_bytes (fst ?h) @ [9, 9] = tun_hello @ [9, 9]" by simp
  moreover have "snd ?h = Done" "TunnelStart [9, 9] \<in> set (fst ?h)" by code_simp+
  ultimately show ?thesis by (simp add: Let_def)
qed

end
