(* ===== verification/Socks_Relay.thy ===== *)
theory Socks_Relay
  imports Conn_Registry Proxy_Handlers
begin

text \<open>
  \<open>pkg/spoofdpi/internal/server/socks5/handler_bind.go\<close> and \<open>handler_udp_assoc.go\<close>: the SOCKS5 commands BIND and UDP ASSOCIATE. The
  associations of all clients share one registry of connections, so their steps are steps of one state. Sockets, the resolver, dials and
  the clock are arguments.
\<close>

section \<open>BIND\<close>

datatype accept_result = Cancelled bool | AcceptFailed | Accepted UDPAddr

text \<open>
  \<open>bi_listen\<close>: the address of the listener, if it could be opened. \<open>bi_taken\<close>: how many bytes of the client the goroutine that watches
  its connection read, and dropped, before it ended. \<open>Cancelled True\<close>: a connection came in while the listener was being closed.
\<close>

record bind_env =
  bi_listen :: "UDPAddr option"
  bi_write1 :: bool
  bi_accept :: accept_result
  bi_taken :: nat
  bi_write2 :: bool

datatype bind_effect =
    BindReply bytes
  | BindWait UDPAddr
  | BindClosed
  | BindTunnel UDPAddr bytes

definition bind_reply :: "UDPAddr \<Rightarrow> bytes" where
  "bind_reply a = Reply_Write (Reply_Port (addr_Port a) (Reply_Bind (Some (addr_IP a)) SOCKS5SuccessResponse))"

definition unexpected_host :: "SOCKS5Request \<Rightarrow> UDPAddr \<Rightarrow> bool" where
  "unexpected_host req rAddr =
     (case req_IP req of None \<Rightarrow> False | Some ip \<Rightarrow> \<not> IP_IsUnspecified ip \<and> \<not> IP_Equal (addr_IP rAddr) ip)"

definition BindHandler_Handle :: "bind_env \<Rightarrow> SOCKS5Request \<Rightarrow> bytes \<Rightarrow> bind_effect list \<times> proxy_end" where
  "BindHandler_Handle E req input =
     (let failure = BindReply (Reply_Write SOCKS5FailureResponse) in
      case bi_listen E of
        None \<Rightarrow> ([failure], Failed)
      | Some lAddr \<Rightarrow>
          let es = [BindReply (bind_reply lAddr)] in
          if \<not> bi_write1 E then (es, Failed)
          else
            let es = es @ [BindWait lAddr] in
            (case bi_accept E of
               Cancelled late \<Rightarrow> (es @ (if late then [BindClosed] else []), Failed)
             | AcceptFailed \<Rightarrow> (es @ [failure], Failed)
             | Accepted rAddr \<Rightarrow>
                 if unexpected_host req rAddr then (es @ [failure, BindClosed], Failed)
                 else
                   let es = es @ [BindReply (bind_reply rAddr)] in
                   if \<not> bi_write2 E then (es @ [BindClosed], Failed)
                   else (es @ [BindTunnel rAddr (drop (bi_taken E) input), BindClosed], Done)))"

section \<open>UDP ASSOCIATE\<close>

text \<open>
  A goroutine reads the answers of each dialed connection; the connection is the wrapper with the same number in the registry.
  \<open>ua_open\<close> are the associations whose UDP socket is open.
\<close>

record udp_relay =
  ur_assoc :: nat
  ur_client :: UDPAddr
  ur_target :: UDPAddr
  ur_key :: NATKey
  ur_running :: bool

record 'w ua_state =
  ua_pool :: ConnRegistry
  ua_relays :: "udp_relay list"
  ua_open :: "nat set"
  ua_writer :: 'w

text \<open>\<open>ae_dial\<close>: what dialing the destination answers. \<open>ae_client\<close>: the address of the client's TCP connection.\<close>

record 'w ua_env =
  ae_assoc :: nat
  ae_client :: net_IP
  ae_resolve :: "string \<Rightarrow> UDPAddr option"
  ae_dial :: "Destination \<Rightarrow> net_IP option"
  ae_UDP :: UDPOptions
  ae_desyncer :: "(net_IP, unit, 'w) TLSDesyncer"

datatype assoc_effect =
    UHopTrack "net_IP list"
  | UDial Destination
  | UFakes net_IP nat
  | ToTarget nat bytes
  | ToClient nat UDPAddr bytes

text \<open>The beginning of \<open>Handle\<close>: the reply to the client, and whether the association opens.\<close>

definition udp_associate_reply :: "UDPAddr option \<Rightarrow> bool \<Rightarrow> bytes \<times> bool" where
  "udp_associate_reply lUDPAddr written =
     (case lUDPAddr of
        None \<Rightarrow> (Reply_Write SOCKS5FailureResponse, False)
      | Some a \<Rightarrow> (bind_reply a, written))"

definition udp_hop_track :: "'w ua_env \<Rightarrow> net_IP list \<Rightarrow> assoc_effect list" where
  "udp_hop_track E addrs =
     UDPDesyncer_PrepareHopTrack (map_option (\<lambda>_ a s. s @ [UHopTrack a]) (tls_sniffer (ae_desyncer E))) addrs (ae_UDP E) []"

text \<open>Writing through a wrapper whose deadline has passed fails.\<close>

definition write_target :: "int \<Rightarrow> nat \<Rightarrow> bytes \<Rightarrow> 'w ua_state \<Rightarrow> assoc_effect list \<times> 'w ua_state" where
  "write_target now i data st =
     (case conn_touch now i (ua_pool st) of (alive, p) \<Rightarrow> (if alive then [ToTarget i data] else [], st\<lparr>ua_pool := p\<rparr>))"

definition open_session :: "'w ua_env \<Rightarrow> int \<Rightarrow> UDPAddr \<Rightarrow> UDPAddr \<Rightarrow> NATKey \<Rightarrow> net_IP \<Rightarrow> 'w ua_state \<Rightarrow> assoc_effect list \<times> nat \<times> 'w ua_state" where
  "open_session E now srcAddr dstAddr key ip st =
     (case Store now key (length (wrappers (ua_pool st))) (ua_pool st) of
        (i, p) \<Rightarrow>
          let (n, w) = (if udp_Skip (ae_UDP E) then (0, ua_writer st) else UDPDesyncer_Desync (ae_desyncer E) ip (ae_UDP E) (ua_writer st));
              relay = \<lparr>ur_assoc = ae_assoc E, ur_client = srcAddr, ur_target = dstAddr, ur_key = key, ur_running = True\<rparr> in
          (if udp_Skip (ae_UDP E) then [] else [UFakes ip n], i, st\<lparr>ua_pool := p, ua_relays := ua_relays st @ [relay], ua_writer := w\<rparr>))"

text \<open>One turn of the loop of \<open>Handle\<close>: a datagram from \<open>srcAddr\<close>.\<close>

definition ua_datagram :: "'w ua_env \<Rightarrow> int \<Rightarrow> UDPAddr \<Rightarrow> bytes \<Rightarrow> 'w ua_state \<Rightarrow> assoc_effect list \<times> 'w ua_state" where
  "ua_datagram E now srcAddr data st =
     (if \<not> IP_Equal (addr_IP srcAddr) (ae_client E) then ([], st)
      else
        case parseUDPHeader data of
          Ret (dstAddrStr, pay) \<Rightarrow>
            (case ae_resolve E dstAddrStr of
               None \<Rightarrow> ([], st)
             | Some dstAddr \<Rightarrow>
                 let key = NewNATKey (addr_IP srcAddr) (addr_Port srcAddr) (addr_IP dstAddr) (addr_Port dstAddr) in
                 (case Fetch key (ua_pool st) of
                    (Some i, p) \<Rightarrow> write_target now i pay (st\<lparr>ua_pool := p\<rparr>)
                  | (None, p) \<Rightarrow>
                      let st = st\<lparr>ua_pool := p\<rparr>;
                          pktDst = \<lparr>dst_Host = [], dst_Addrs = [addr_IP dstAddr], dst_Port = addr_Port dstAddr\<rparr>;
                          es = udp_hop_track E (dst_Addrs pktDst) @ [UDial pktDst] in
                      (case ae_dial E pktDst of
                         None \<Rightarrow> (es, st)
                       | Some ip \<Rightarrow>
                           (case open_session E now srcAddr dstAddr key ip st of
                              (fakes, i, st) \<Rightarrow>
                                (case write_target now i pay st of (es', st) \<Rightarrow> (es @ fakes @ es', st))))))
        | _ \<Rightarrow> ([], st))"

text \<open>A turn of \<open>relayInboundUDP\<close>: an answer on a connection, or the end of the goroutine.\<close>

definition end_relay :: "nat \<Rightarrow> 'w ua_state \<Rightarrow> 'w ua_state" where
  "end_relay i st =
     st\<lparr>ua_pool := Evict (ur_key (ua_relays st ! i)) (ua_pool st), ua_relays := (ua_relays st)[i := (ua_relays st ! i)\<lparr>ur_running := False\<rparr>]\<rparr>"

definition relayInboundUDP :: "int \<Rightarrow> nat \<Rightarrow> bytes option \<Rightarrow> 'w ua_state \<Rightarrow> assoc_effect list \<times> 'w ua_state" where
  "relayInboundUDP now i read st =
     (let st = st\<lparr>ua_pool := snd (conn_touch now i (ua_pool st))\<rparr>; r = ua_relays st ! i in
      case read of
        None \<Rightarrow> ([], end_relay i st)
      | Some data \<Rightarrow>
          if ur_assoc r \<in> ua_open st then ([ToClient (ur_assoc r) (ur_client r) (createUDPHeaderFromAddr (ur_target r) @ data)], st)
          else ([], end_relay i st))"

datatype 'w ua_input =
    AssocOpen nat
  | AssocClose nat
  | FromClient "'w ua_env" int UDPAddr bytes
  | FromTarget int nat "bytes option"
  | PoolCleanup int "NATKey list list"

definition relay_live :: "'w ua_state \<Rightarrow> nat \<Rightarrow> bool" where
  "relay_live st i \<longleftrightarrow> i < length (ua_relays st) \<and> ur_running (ua_relays st ! i)"

fun ua_step :: "'w ua_input \<Rightarrow> 'w ua_state \<Rightarrow> assoc_effect list \<times> 'w ua_state" where
  "ua_step (AssocOpen a) st = ([], st\<lparr>ua_open := insert a (ua_open st)\<rparr>)"
| "ua_step (AssocClose a) st = ([], st\<lparr>ua_open := ua_open st - {a}\<rparr>)"
| "ua_step (FromClient E now src data) st = (if ae_assoc E \<in> ua_open st then ua_datagram E now src data st else ([], st))"
| "ua_step (FromTarget now i read) st = (if relay_live st i then relayInboundUDP now i read st else ([], st))"
| "ua_step (PoolCleanup now orders) st = ([], st\<lparr>ua_pool := evictExpired now orders (ua_pool st)\<rparr>)"

definition ua_new :: "ConnRegistry \<Rightarrow> 'w \<Rightarrow> 'w ua_state" where
  "ua_new p w = \<lparr>ua_pool = p, ua_relays = [], ua_open = {}, ua_writer = w\<rparr>"

definition ua_run :: "'w ua_input list \<Rightarrow> 'w ua_state \<Rightarrow> 'w ua_state" where
  "ua_run inps st = foldl (\<lambda>st i. snd (ua_step i st)) st inps"

section \<open>Only the expected host is connected\<close>

text \<open>A BIND connects the client only to the host it asked for. A tunnel is opened only to a connection from the requested address, or from
  any when none was requested, and only after the client was told the listening address and then the address of that connection.
\<close>

theorem bind_connects_expected_host:
  assumes "BindTunnel rAddr rest \<in> set (fst (BindHandler_Handle E req input))"
  shows "\<exists>lAddr. bi_listen E = Some lAddr \<and> bi_accept E = Accepted rAddr \<and>
    (case req_IP req of None \<Rightarrow> True | Some ip \<Rightarrow> IP_IsUnspecified ip \<or> IP_Equal (addr_IP rAddr) ip) \<and>
    BindHandler_Handle E req input =
      ([BindReply (bind_reply lAddr), BindWait lAddr, BindReply (bind_reply rAddr), BindTunnel rAddr rest, BindClosed], Done)"
  using assms
  by (auto simp: BindHandler_Handle_def unexpected_host_def Let_def split: option.splits if_splits accept_result.splits)

text \<open>What the client sent before the connection came in is lost.\<close>

lemma bind_drops_early_bytes:
  assumes "BindTunnel rAddr rest \<in> set (fst (BindHandler_Handle E req input))"
  shows "rest = drop (bi_taken E) input"
  using assms by (auto simp: BindHandler_Handle_def Let_def split: option.splits if_splits accept_result.splits)

section \<open>Answers go back to the sender\<close>

definition relay_matches :: "ConnRegistry \<Rightarrow> udp_relay list \<Rightarrow> nat \<Rightarrow> bool" where
  "relay_matches p rs i \<longleftrightarrow> itc_Key (wrappers p ! i) = ur_key (rs ! i) \<and>
     ur_key (rs ! i) = NewNATKey (addr_IP (ur_client (rs ! i))) (addr_Port (ur_client (rs ! i))) (addr_IP (ur_target (rs ! i))) (addr_Port (ur_target (rs ! i)))"

definition ua_inv :: "'w ua_state \<Rightarrow> bool" where
  "ua_inv st \<longleftrightarrow> reg_inv (ua_pool st) \<and> length (ua_relays st) = length (wrappers (ua_pool st)) \<and>
     (\<forall>i < length (ua_relays st). relay_matches (ua_pool st) (ua_relays st) i)"

lemma Fetch_wrappers [simp]: "wrappers (snd (Fetch k p)) = wrappers p"
  by (simp add: Fetch_def split_beta)

lemma touch_keys:
  assumes "i < length (wrappers p)"
  shows "length (wrappers (snd (conn_touch now i p))) = length (wrappers p)"
    and "itc_Key (wrappers (snd (conn_touch now i p)) ! j) = itc_Key (wrappers p ! j)"
  using ExtendDeadline_keeps(1) [of now "wrappers p ! i"] assms
  by (auto simp: conn_touch_def Let_def nth_list_update split: prod.splits)

lemma Fetch_Some:
  assumes "reg_inv p" and "fst (Fetch k p) = Some i"
  shows "i < length (wrappers p) \<and> itc_Key (wrappers p ! i) = k"
proof -
  have "(k, i) \<in> set (entries (storage p))"
    using assms Fetch_held [OF assms(1)] peek_entries [of NATKey_Bytes "storage p" k i] by (simp add: held_def reg_inv_def)
  moreover have "set (entries (storage p)) \<subseteq> set (wrapper_refs p)"
    using assms(1) by (metis UnCI reg_inv_def set_mset_mset set_mset_union subsetI)
  ultimately show ?thesis by (auto simp: wrapper_refs_def set_zip)
qed

lemma ua_inv_pool:
  assumes "ua_inv st" and "reg_inv p" and "length (wrappers p) = length (wrappers (ua_pool st))"
    and "\<And>j. itc_Key (wrappers p ! j) = itc_Key (wrappers (ua_pool st) ! j)"
  shows "ua_inv (st\<lparr>ua_pool := p\<rparr>)"
  using assms by (simp add: ua_inv_def relay_matches_def)

lemma write_target_inv: "ua_inv st \<Longrightarrow> i < length (ua_relays st) \<Longrightarrow> ua_inv (snd (write_target now i data st))"
  using ua_inv_pool [of st "snd (conn_touch now i (ua_pool st))"] touch_inv [of "ua_pool st" i now] touch_keys [of i "ua_pool st" now]
  by (auto simp: write_target_def ua_inv_def split: prod.splits)

lemma open_session_inv:
  assumes "ua_inv st" and "open_session E now src dst key ip st = (fakes, i, st')"
    and "key = NewNATKey (addr_IP src) (addr_Port src) (addr_IP dst) (addr_Port dst)"
  shows "ua_inv st'" and "i = length (ua_relays st)"
    and "ua_relays st' = ua_relays st @ [\<lparr>ur_assoc = ae_assoc E, ur_client = src, ur_target = dst, ur_key = key, ur_running = True\<rparr>]"
    and "\<forall>j d. ToTarget j d \<notin> set fakes"
proof -
  let ?p = "snd (Store now key (length (wrappers (ua_pool st))) (ua_pool st))"
  have p: "wrappers ?p = wrappers (ua_pool st) @ [NewIdleTimeoutConn (length (wrappers (ua_pool st))) (reg_timeout (ua_pool st)) key now]"
    by (simp add: Store_def Let_def)
  have st': "ua_pool st' = ?p" "i = length (wrappers (ua_pool st))"
    "ua_relays st' = ua_relays st @ [\<lparr>ur_assoc = ae_assoc E, ur_client = src, ur_target = dst, ur_key = key, ur_running = True\<rparr>]"
    using assms(2) by (auto simp: open_session_def Store_def Let_def split: prod.splits if_splits)
  show "ua_relays st' = ua_relays st @ [\<lparr>ur_assoc = ae_assoc E, ur_client = src, ur_target = dst, ur_key = key, ur_running = True\<rparr>]"
    by (rule st'(3))
  have "reg_inv (ua_pool st')" using assms(1) Store_inv by (auto simp: ua_inv_def st'(1))
  moreover have "wrappers (ua_pool st') = wrappers (ua_pool st) @ [NewIdleTimeoutConn (length (wrappers (ua_pool st))) (reg_timeout (ua_pool st)) key now]"
    using p st'(1) by simp
  ultimately show "ua_inv st'" using assms(1,3) st'(3)
    by (auto simp: ua_inv_def relay_matches_def nth_append NewIdleTimeoutConn_def less_Suc_eq)
  show "i = length (ua_relays st)" using assms(1) st'(2) by (simp add: ua_inv_def)
  show "\<forall>j d. ToTarget j d \<notin> set fakes" using assms(2) by (auto simp: open_session_def Let_def split: prod.splits if_splits)
qed

lemma write_target_relays [simp]: "ua_relays (snd (write_target now i data st)) = ua_relays st" "ua_open (snd (write_target now i data st)) = ua_open st"
  by (simp_all add: write_target_def split: prod.splits)

lemma write_target_effects: "ToTarget j d \<in> set (fst (write_target now i data st)) \<Longrightarrow> j = i \<and> d = data"
  by (auto simp: write_target_def split: prod.splits if_splits)

lemma udp_hop_track_effects: "ToTarget j d \<notin> set (udp_hop_track E addrs)"
  by (auto simp: udp_hop_track_def UDPDesyncer_PrepareHopTrack_def split: option.splits)

text \<open>A datagram that is handled: the session it uses is the one of its sender and its destination.\<close>

lemma ua_datagram_spec:
  assumes "ua_inv st" and "ua_datagram E now src data st = (es, st')"
  shows "ua_inv st' \<and> (\<forall>j d. ToTarget j d \<in> set es \<longrightarrow>
    (\<exists>str dst. IP_Equal (addr_IP src) (ae_client E) \<and> parseUDPHeader data = Ret (str, d) \<and> ae_resolve E str = Some dst \<and>
       j < length (ua_relays st') \<and> ur_key (ua_relays st' ! j) = NewNATKey (addr_IP src) (addr_Port src) (addr_IP dst) (addr_Port dst)))"
proof (cases "IP_Equal (addr_IP src) (ae_client E) \<and> (\<exists>str d dst. parseUDPHeader data = Ret (str, d) \<and> ae_resolve E str = Some dst)")
  case False
  then have "es = [] \<and> st' = st" using assms(2) by (auto simp: ua_datagram_def split: outcome.splits option.splits if_splits prod.splits)
  then show ?thesis using assms(1) by simp
next
  case True
  then obtain str pay dst where eq: "IP_Equal (addr_IP src) (ae_client E)"
    and h: "parseUDPHeader data = Ret (str, pay)" "ae_resolve E str = Some dst" by blast
  define key where "key = NewNATKey (addr_IP src) (addr_Port src) (addr_IP dst) (addr_Port dst)"
  obtain f p where f: "Fetch key (ua_pool st) = (f, p)" by fastforce
  then have p: "p = snd (Fetch key (ua_pool st))" by simp
  have inv: "ua_inv (st\<lparr>ua_pool := p\<rparr>)"
    using assms(1) Fetch_inv [of "ua_pool st" key] by (intro ua_inv_pool) (auto simp: p ua_inv_def)
  show ?thesis
  proof (cases f)
    case (Some i)
    then have i: "i < length (wrappers (ua_pool st))" "itc_Key (wrappers (ua_pool st) ! i) = key"
      using Fetch_Some [of "ua_pool st" key i] f assms(1) by (auto simp: ua_inv_def)
    then have k: "i < length (ua_relays st)" "ur_key (ua_relays st ! i) = key" using assms(1) by (auto simp: ua_inv_def relay_matches_def)
    have "write_target now i pay (st\<lparr>ua_pool := p\<rparr>) = (es, st')"
      using assms(2) Some f eq h by (simp add: ua_datagram_def key_def [symmetric] Let_def)
    then show ?thesis
      using write_target_inv [OF inv, of i now pay] write_target_relays(1) [of now i pay "st\<lparr>ua_pool := p\<rparr>"]
        write_target_effects [of _ _ now i pay "st\<lparr>ua_pool := p\<rparr>"] k eq h by (auto simp: key_def)
  next
    case None
    let ?dst = "\<lparr>dst_Host = [], dst_Addrs = [addr_IP dst], dst_Port = addr_Port dst\<rparr>"
    have d: "(case ae_dial E ?dst of None \<Rightarrow> (udp_hop_track E [addr_IP dst] @ [UDial ?dst], st\<lparr>ua_pool := p\<rparr>)
        | Some ip \<Rightarrow> (case open_session E now src dst key ip (st\<lparr>ua_pool := p\<rparr>) of (fakes, i, st) \<Rightarrow>
            (case write_target now i pay st of (es', st) \<Rightarrow> ((udp_hop_track E [addr_IP dst] @ [UDial ?dst]) @ fakes @ es', st)))) = (es, st')"
      using assms(2) None f eq h by (simp add: ua_datagram_def key_def [symmetric] Let_def cong: option.case_cong)
    show ?thesis
    proof (cases "ae_dial E ?dst")
      case None
      then show ?thesis using d inv by (auto simp: udp_hop_track_effects)
    next
      case (Some ip)
      obtain fakes i st1 where o: "open_session E now src dst key ip (st\<lparr>ua_pool := p\<rparr>) = (fakes, i, st1)" by (metis prod_cases3)
      note s = open_session_inv [OF inv o key_def]
      have w: "es = (udp_hop_track E [addr_IP dst] @ [UDial ?dst]) @ fakes @ fst (write_target now i pay st1)" "st' = snd (write_target now i pay st1)"
        using d Some o by (auto split: prod.splits)
      have "ua_inv st'" using write_target_inv [OF s(1), of i now pay] s(2,3) w(2) by simp
      moreover have "j = i \<and> dd = pay" if "ToTarget j dd \<in> set es" for j dd
        using that w(1) s(4) by (auto simp: udp_hop_track_effects dest: write_target_effects)
      moreover have "i < length (ua_relays st')" "ur_key (ua_relays st' ! i) = key" using s(2,3) w(2) by simp_all
      ultimately show ?thesis using eq h key_def by blast
    qed
  qed
qed

lemma end_relay_inv: "ua_inv st \<Longrightarrow> i < length (ua_relays st) \<Longrightarrow> ua_inv (end_relay i st)"
  by (auto simp: ua_inv_def end_relay_def Evict_inv relay_matches_def nth_list_update)

lemma relayInboundUDP_inv:
  assumes "ua_inv st" and "i < length (ua_relays st)"
  shows "ua_inv (snd (relayInboundUDP now i read st))"
proof -
  have "ua_inv (st\<lparr>ua_pool := snd (conn_touch now i (ua_pool st))\<rparr>)"
    using assms touch_inv [of "ua_pool st" i now] touch_keys [of i "ua_pool st" now] by (intro ua_inv_pool) (auto simp: ua_inv_def)
  then show ?thesis
    using assms(2) end_relay_inv [of "st\<lparr>ua_pool := snd (conn_touch now i (ua_pool st))\<rparr>" i]
    by (auto simp: relayInboundUDP_def Let_def split: option.splits)
qed

lemma ua_step_inv:
  assumes "ua_inv st"
  shows "ua_inv (snd (ua_step inp st))"
proof (cases inp)
  case (FromClient E now src data)
  then show ?thesis
    using assms ua_datagram_spec [OF assms, of E now src data "fst (ua_datagram E now src data st)" "snd (ua_datagram E now src data st)"] by simp
next
  case (FromTarget now i read)
  then show ?thesis using assms relayInboundUDP_inv [of st i now read] by (simp add: relay_live_def)
next
  case (PoolCleanup now orders)
  have "reg_inv (evictExpired now orders (ua_pool st))" using assms by (simp add: ua_inv_def evictExpired_def Evict_all_inv)
  then show ?thesis
    using assms PoolCleanup by (auto simp: ua_inv_def relay_matches_def evictExpired_def Evict_all_wrappers)
qed (use assms in \<open>auto simp: ua_inv_def\<close>)

lemma ua_run_inv: "ua_inv st \<Longrightarrow> ua_inv (ua_run inps st)"
  by (induction inps arbitrary: st) (auto simp: ua_run_def ua_step_inv)

lemma ua_new_inv: "NewConnRegistry cap t = Ret p \<Longrightarrow> ua_inv (ua_new p w)"
  using new_registry_inv by (auto simp: ua_inv_def ua_new_def NewConnRegistry_def obind_Ret_conv)

text \<open>
  C35: UDP ASSOCIATE keeps clients apart. In every history of any number of associations, a datagram from another host than the one that
  opened the association does nothing; the payload of any other goes only to a connection whose client and target are the sender and the
  destination named in its header; and an answer read from that connection goes to that client only, behind a header that names that target.
\<close>

theorem udp_associate_isolated:
  assumes "NewConnRegistry cap t = Ret p" and "st = ua_run inps (ua_new p w)"
  shows "(\<not> IP_Equal (addr_IP src) (ae_client E) \<longrightarrow> ua_datagram E now src data st = ([], st)) \<and>
    (ToTarget i pay \<in> set (fst (ua_datagram E now src data st)) \<longrightarrow>
      (\<exists>str dst c tgt. parseUDPHeader data = Ret (str, pay) \<and> ae_resolve E str = Some dst \<and>
         NewNATKey (addr_IP c) (addr_Port c) (addr_IP tgt) (addr_Port tgt) =
           NewNATKey (addr_IP src) (addr_Port src) (addr_IP dst) (addr_Port dst) \<and>
         (\<forall>now' answer e. e \<in> set (fst (relayInboundUDP now' i (Some answer) (snd (ua_datagram E now src data st)))) \<longrightarrow>
            (\<exists>a. e = ToClient a c (createUDPHeaderFromAddr tgt @ answer)))))"
proof (intro conjI impI)
  assume "\<not> IP_Equal (addr_IP src) (ae_client E)"
  then show "ua_datagram E now src data st = ([], st)" by (simp add: ua_datagram_def)
next
  assume t: "ToTarget i pay \<in> set (fst (ua_datagram E now src data st))"
  obtain es st' where d: "ua_datagram E now src data st = (es, st')" by fastforce
  have "ua_inv st" using ua_run_inv [OF ua_new_inv [OF assms(1)]] assms(2) by simp
  note s = ua_datagram_spec [OF this d]
  then obtain str dst where h: "parseUDPHeader data = Ret (str, pay)" "ae_resolve E str = Some dst" "i < length (ua_relays st')"
      "ur_key (ua_relays st' ! i) = NewNATKey (addr_IP src) (addr_Port src) (addr_IP dst) (addr_Port dst)"
    using t d by (metis (no_types, lifting) fst_conv)
  let ?r = "ua_relays st' ! i"
  have "ur_key ?r = NewNATKey (addr_IP (ur_client ?r)) (addr_Port (ur_client ?r)) (addr_IP (ur_target ?r)) (addr_Port (ur_target ?r))"
    using s h(3) by (auto simp: ua_inv_def relay_matches_def)
  moreover have "\<exists>a. e = ToClient a (ur_client ?r) (createUDPHeaderFromAddr (ur_target ?r) @ answer)"
    if "e \<in> set (fst (relayInboundUDP now' i (Some answer) st'))" for now' answer e
    using that by (auto simp: relayInboundUDP_def Let_def split: if_splits)
  ultimately show "\<exists>str dst c tgt. parseUDPHeader data = Ret (str, pay) \<and> ae_resolve E str = Some dst \<and>
         NewNATKey (addr_IP c) (addr_Port c) (addr_IP tgt) (addr_Port tgt) =
           NewNATKey (addr_IP src) (addr_Port src) (addr_IP dst) (addr_Port dst) \<and>
         (\<forall>now' answer e. e \<in> set (fst (relayInboundUDP now' i (Some answer) (snd (ua_datagram E now src data st)))) \<longrightarrow>
            (\<exists>a. e = ToClient a c (createUDPHeaderFromAddr tgt @ answer)))"
    using h d by (intro exI [of _ str] exI [of _ dst] exI [of _ "ur_client ?r"] exI [of _ "ur_target ?r"]) auto
qed

section \<open>Examples\<close>

definition relay_env :: "nat \<Rightarrow> unit ua_env" where
  "relay_env a = \<lparr>ae_assoc = a, ae_client = [192, 0, 2, 7], ae_resolve = (\<lambda>_. Some \<lparr>addr_IP = [8, 8, 4, 4], addr_Port = 443\<rparr>),
     ae_dial = (\<lambda>_. Some [8, 8, 4, 4]), ae_UDP = \<lparr>udp_Skip = True, udp_FakeCount = 0, udp_FakePacket = []\<rparr>,
     ae_desyncer = \<lparr>tls_writer = None, tls_sniffer = None\<rparr>\<rparr>"

definition relay_client :: UDPAddr where
  "relay_client = \<lparr>addr_IP = [192, 0, 2, 7], addr_Port = 5000\<rparr>"

definition relay_packet :: bytes where
  "relay_packet = [0, 0, 0, 1, 8, 8, 4, 4, 1, 187, 7]"

definition small_registry :: ConnRegistry where
  "small_registry = (case NewConnRegistry 16 60000000000 of Ret p \<Rightarrow> p)"

lemma first_datagram:
  "fst (ua_datagram (relay_env 0) 0 relay_client relay_packet (ua_run [AssocOpen 0] (ua_new small_registry ()))) =
     [UDial \<lparr>dst_Host = [], dst_Addrs = [[8, 8, 4, 4]], dst_Port = 443\<rparr>, ToTarget 0 [7]]"
  by code_simp

theorem udp_associate_isolated_witness:
  "\<exists>str (c :: UDPAddr) (tgt :: UDPAddr). parseUDPHeader relay_packet = Ret (str, [7]) \<and>
     NewNATKey (addr_IP c) (addr_Port c) (addr_IP tgt) (addr_Port tgt) = NewNATKey [192, 0, 2, 7] 5000 [8, 8, 4, 4] 443"
proof -
  have p: "NewConnRegistry 16 60000000000 = Ret small_registry"
    using new_registry_ok [of 16 60000000000] by (auto simp: small_registry_def)
  note r = udp_associate_isolated [OF p refl, of relay_client "relay_env 0" 0 relay_packet "[AssocOpen 0]" "()" 0 "[7]"]
  have "ToTarget 0 [7] \<in> set (fst (ua_datagram (relay_env 0) 0 relay_client relay_packet (ua_run [AssocOpen 0] (ua_new small_registry ()))))"
    by (simp add: first_datagram)
  from mp [OF conjunct2 [OF r] this] show ?thesis
    apply (elim exE conjE)
    subgoal for str dst c tgt
      by (rule exI [of _ str], rule exI [of _ c], rule exI [of _ tgt]) (auto simp: relay_env_def relay_client_def)
    done
qed

definition bind_request :: SOCKS5Request where
  "bind_request = \<lparr>Cmd = SOCKS5CmdBind, ATYP = SOCKS5AddrTypeIPv4, FQDN = [], req_IP = Some [203, 0, 113, 9], req_Port = 20\<rparr>"

definition bind_world :: "net_IP \<Rightarrow> bind_env" where
  "bind_world ip = \<lparr>bi_listen = Some \<lparr>addr_IP = [127, 0, 0, 1], addr_Port = 4000\<rparr>, bi_write1 = True,
     bi_accept = Accepted \<lparr>addr_IP = ip, addr_Port = 20\<rparr>, bi_taken = 1, bi_write2 = True\<rparr>"

theorem bind_connects_expected_host_witness:
  "fst (BindHandler_Handle (bind_world [203, 0, 113, 9]) bind_request [1, 2]) ! 3 = BindTunnel \<lparr>addr_IP = [203, 0, 113, 9], addr_Port = 20\<rparr> [2] \<and>
   (\<exists>lAddr. bi_listen (bind_world [203, 0, 113, 9]) = Some lAddr \<and> hd (fst (BindHandler_Handle (bind_world [203, 0, 113, 9]) bind_request [1, 2])) = BindReply (bind_reply lAddr)) \<and>
   snd (BindHandler_Handle (bind_world [198, 51, 100, 1]) bind_request [1, 2]) = Failed"
proof -
  have "BindTunnel \<lparr>addr_IP = [203, 0, 113, 9], addr_Port = 20\<rparr> [2] \<in> set (fst (BindHandler_Handle (bind_world [203, 0, 113, 9]) bind_request [1, 2]))"
    by code_simp
  from bind_connects_expected_host [OF this] have
    "\<exists>lAddr. bi_listen (bind_world [203, 0, 113, 9]) = Some lAddr \<and> BindHandler_Handle (bind_world [203, 0, 113, 9]) bind_request [1, 2] =
      ([BindReply (bind_reply lAddr), BindWait lAddr, BindReply (bind_reply \<lparr>addr_IP = [203, 0, 113, 9], addr_Port = 20\<rparr>),
        BindTunnel \<lparr>addr_IP = [203, 0, 113, 9], addr_Port = 20\<rparr> [2], BindClosed], Done)" by blast
  moreover have "snd (BindHandler_Handle (bind_world [198, 51, 100, 1]) bind_request [1, 2]) = Failed" by code_simp
  ultimately show ?thesis by auto
qed

text \<open>
  A client that opens a new association and sends from the same port finds the session of its closed association: the datagram is sent,
  but the answer is written to the closed socket and the session ends.
\<close>

lemma reused_port_loses_answer:
  assumes "IP_Equal (addr_IP src) (ae_client E)" and "parseUDPHeader data = Ret (str, pay)" and "ae_resolve E str = Some dst"
    and "fst (Fetch (NewNATKey (addr_IP src) (addr_Port src) (addr_IP dst) (addr_Port dst)) (ua_pool st)) = Some i"
    and "ur_assoc (ua_relays st ! i) \<notin> ua_open st"
  shows "fst (relayInboundUDP now' i (Some answer) (snd (ua_datagram E now src data st))) = []"
  using assms by (auto simp: ua_datagram_def relayInboundUDP_def write_target_def Let_def split: prod.splits)

end
