(* ===== verification/Dc_Crypto.thy ===== *)
theory Dc_Crypto
  imports Dc_Plugins
begin

text \<open>
  \<open>pkg/dnscrypt/crypto.go\<close>, \<open>pq.go\<close> and \<open>estimators.go\<close>: padding, encryption and decryption of queries, key rotation, the
  post-quantum handshake with its resumption tickets, and the estimate of the size of a question. The ciphers, the key
  agreements and the hash functions are third-party packages given as a record of operations; \<open>crypto_ok\<close> states
  what they document. Random bytes are arguments, \<open>None\<close> when they cannot be read.
\<close>

section \<open>Constants and padding\<close>

definition NonceSize :: nat where
  "NonceSize = 24"

definition HalfNonceSize :: nat where
  "HalfNonceSize = NonceSize div 2"

definition TagSize :: nat where
  "TagSize = 16"

definition ClientMagicLen :: nat where
  "ClientMagicLen = 8"

definition PublicKeySize :: nat where
  "PublicKeySize = 32"

definition QueryOverhead :: nat where
  "QueryOverhead = ClientMagicLen + PublicKeySize + HalfNonceSize + TagSize"

definition ServerMagic :: bytes where
  "ServerMagic = [0x72, 0x36, 0x66, 0x6e, 0x76, 0x57, 0x6a, 0x38]"

definition InitialMinQuestionSize :: nat where
  "InitialMinQuestionSize = 512"

lemma length_ServerMagic [simp]: "length ServerMagic = 8"
  by (simp add: ServerMagic_def)

lemmas crypto_sizes = NonceSize_def HalfNonceSize_def TagSize_def ClientMagicLen_def PublicKeySize_def QueryOverhead_def
  MaxDNSPacketSize_def MinDNSPacketSize_def InitialMinQuestionSize_def

definition pad :: "bytes \<Rightarrow> nat \<Rightarrow> bytes" where
  "pad packet minSize = (let packet = packet @ [0x80] in packet @ replicate (minSize - length packet) 0)"

datatype crypto_error =
    ShortPadding | NoDelimiter | NoRandom | QuestionTooLarge | BadSizeOrPrefix | UnexpectedNonce | IncorrectTag | IncorrectPadding
  | KemFailed | ControlTooShort | ControlOverflow

text \<open>\<open>unpad_from\<close> is the loop over the reversed packet.\<close>

fun unpad_from :: "bytes \<Rightarrow> crypto_error + bytes" where
  "unpad_from [] = Inl ShortPadding"
| "unpad_from (b # rest) =
     (if b = 0x80 then Inr (rev rest) else if b \<noteq> 0 then Inl NoDelimiter else unpad_from rest)"

definition unpad :: "bytes \<Rightarrow> crypto_error + bytes" where
  "unpad packet = unpad_from (rev packet)"

section \<open>Keys\<close>

datatype CryptoConstruction = UndefinedConstruction | XSalsa20Poly1305 | XChacha20Poly1305 | XWingPQ

record crypto_ops =
  xsecretbox_SharedKey :: "bytes \<Rightarrow> bytes \<Rightarrow> bytes option"
  box_Precompute :: "bytes \<Rightarrow> bytes \<Rightarrow> bytes"
  ScalarBaseMult :: "bytes \<Rightarrow> bytes"
  xsecretbox_Seal :: "bytes \<Rightarrow> bytes \<Rightarrow> bytes \<Rightarrow> bytes"
  xsecretbox_Open :: "bytes \<Rightarrow> bytes \<Rightarrow> bytes \<Rightarrow> bytes option"
  secretbox_Seal :: "bytes \<Rightarrow> bytes \<Rightarrow> bytes \<Rightarrow> bytes"
  secretbox_Open :: "bytes \<Rightarrow> bytes \<Rightarrow> bytes \<Rightarrow> bytes option"
  sha512_256 :: "bytes \<Rightarrow> bytes"
  sha256 :: "bytes \<Rightarrow> bytes"
  hkdf_sha256 :: "bytes \<Rightarrow> bytes \<Rightarrow> bytes \<Rightarrow> nat \<Rightarrow> bytes"
  xwing_Encapsulate :: "bytes \<Rightarrow> (bytes \<times> bytes) option"

definition isClassicDNSCryptConstruction :: "CryptoConstruction \<Rightarrow> bool" where
  "isClassicDNSCryptConstruction c = (c = XSalsa20Poly1305 \<or> c = XChacha20Poly1305)"

text \<open>A weak key is replaced with random bytes, \<open>random\<close>.\<close>

definition ComputeSharedKey :: "crypto_ops \<Rightarrow> bytes \<Rightarrow> CryptoConstruction \<Rightarrow> bytes \<Rightarrow> bytes \<Rightarrow> bytes" where
  "ComputeSharedKey C random cryptoConstruction secretKey serverPk =
     (if \<not> isClassicDNSCryptConstruction cryptoConstruction then replicate 32 0
      else if cryptoConstruction = XChacha20Poly1305 then
        (case xsecretbox_SharedKey C secretKey serverPk of None \<Rightarrow> random | Some k \<Rightarrow> k)
      else
        let sharedKey = box_Precompute C serverPk secretKey in
        if list_all (\<lambda>b. b = 0) sharedKey then random else sharedKey)"

record pqResumptionState =
  pq_ticket :: "bytes option"
  pq_resumeSecret :: bytes
  pq_expiry :: int
  pq_epoch :: u64

record ServerInfo =
  si_Name :: string
  si_CryptoConstruction :: CryptoConstruction
  si_ServerPk :: bytes
  si_SharedKey :: bytes
  si_MagicQuery :: bytes
  si_PqPublicKey :: bytes
  si_PqCertContext :: bytes
  si_fragmentsBlocked :: bool
  si_hasRelay :: bool
  si_pqResumption :: "pqResumptionState option"

record client_keys =
  ck_proxySecretKey :: bytes
  ck_proxyPublicKey :: bytes
  ck_ephemeralKeys :: bool

definition setDNSCryptClientKeyLocked :: "crypto_ops \<Rightarrow> bytes \<Rightarrow> client_keys \<Rightarrow> client_keys" where
  "setDNSCryptClientKeyLocked C secretKey p =
     p\<lparr>ck_proxySecretKey := secretKey, ck_proxyPublicKey := ScalarBaseMult C secretKey\<rparr>"

definition recomputeServerSharedKeyLocked :: "crypto_ops \<Rightarrow> bytes \<Rightarrow> client_keys \<Rightarrow> ServerInfo \<Rightarrow> ServerInfo" where
  "recomputeServerSharedKeyLocked C random p serverInfo =
     (if \<not> isClassicDNSCryptConstruction (si_CryptoConstruction serverInfo) then serverInfo
      else serverInfo\<lparr>si_SharedKey :=
        ComputeSharedKey C random (si_CryptoConstruction serverInfo) (ck_proxySecretKey p) (si_ServerPk serverInfo)\<rparr>)"

definition initDNSCryptClientKey :: "crypto_ops \<Rightarrow> bytes option \<Rightarrow> client_keys \<Rightarrow> client_keys option" where
  "initDNSCryptClientKey C random p = map_option (\<lambda>k. setDNSCryptClientKeyLocked C k p) random"

definition rotateDNSCryptClientKey ::
  "crypto_ops \<Rightarrow> bytes option \<Rightarrow> (string \<Rightarrow> bytes) \<Rightarrow> client_keys \<times> ServerInfo list \<Rightarrow> (client_keys \<times> ServerInfo list) option" where
  "rotateDNSCryptClientKey C random weak ps =
     map_option (\<lambda>k. let p = setDNSCryptClientKeyLocked C k (fst ps) in
       (p, map (\<lambda>si. recomputeServerSharedKeyLocked C (weak (si_Name si)) p si) (snd ps))) random"

section \<open>The size of a question\<close>

text \<open>\<open>'a\<close> is the moving average; its operations are third-party.\<close>

record 'a ewma_ops =
  ewma_Set :: "int \<Rightarrow> 'a \<Rightarrow> 'a"
  ewma_Add :: "int \<Rightarrow> 'a \<Rightarrow> 'a"
  ewma_Value :: "'a \<Rightarrow> int"

record 'a QuestionSizeEstimator =
  qe_minQuestionSize :: int
  qe_ewma :: 'a

definition NewQuestionSizeEstimator :: "'a \<Rightarrow> 'a QuestionSizeEstimator" where
  "NewQuestionSizeEstimator e = \<lparr>qe_minQuestionSize = int InitialMinQuestionSize, qe_ewma = e\<rparr>"

definition blindAdjust :: "'a ewma_ops \<Rightarrow> 'a QuestionSizeEstimator \<Rightarrow> 'a QuestionSizeEstimator" where
  "blindAdjust A q =
     (let m = (if MaxDNSUDPPacketSize - qe_minQuestionSize q < qe_minQuestionSize q then MaxDNSUDPPacketSize
               else qe_minQuestionSize q * 2) in
      q\<lparr>qe_minQuestionSize := m, qe_ewma := ewma_Set A m (qe_ewma q)\<rparr>)"

definition adjust :: "'a ewma_ops \<Rightarrow> int \<Rightarrow> 'a QuestionSizeEstimator \<Rightarrow> 'a QuestionSizeEstimator" where
  "adjust A packetSize q =
     (let e = ewma_Add A packetSize (qe_ewma q); ma = ewma_Value A e; minQuestionSize = qe_minQuestionSize q;
          q = q\<lparr>qe_ewma := e\<rparr> in
      if ma > int InitialMinQuestionSize \<and> ma < minQuestionSize div 2
      then q\<lparr>qe_minQuestionSize := max (int InitialMinQuestionSize) (minQuestionSize div 2)\<rparr> else q)"

section \<open>Post-quantum queries\<close>

definition PQResumeMagic :: bytes where
  "PQResumeMagic = map of_char ''PQResume''"

definition PQControlMagic :: bytes where
  "PQControlMagic = map of_char ''PQDR''"

definition PQESVersion :: bytes where
  "PQESVersion = [0x00, 0x03]"

definition pqProfileExtension :: bytes where
  "pqProfileExtension = map of_char ''PQD'' @ [0x01] @ PQESVersion @ [0x01, 0x01] @ put16 1216 @ put16 1120"

text \<open>\<open>binCert\<close> has the 1320 bytes of a post-quantum certificate.\<close>

definition sub :: "'b list \<Rightarrow> nat \<Rightarrow> nat \<Rightarrow> 'b list" where
  "sub b i j = take (j - i) (drop i b)"

definition pqCertContext :: "bytes \<Rightarrow> bytes" where
  "pqCertContext binCert =
     map of_char ''DNSCrypt-PQ-v1'' @ sub binCert 4 6 @ sub binCert 6 8 @ sub binCert 72 1288 @ sub binCert 1288 1296 @
     sub binCert 1296 1300 @ sub binCert 1300 1304 @ sub binCert 1304 1308 @ sub binCert 1308 1320"

definition pqDeriveSharedKey :: "crypto_ops \<Rightarrow> bytes \<Rightarrow> bytes \<Rightarrow> bytes \<Rightarrow> bytes \<Rightarrow> bytes" where
  "pqDeriveSharedKey C kemSS clientMagic certContext ct = hkdf_sha256 C (PQESVersion @ clientMagic) kemSS (certContext @ ct) 32"

definition pqResumeSecret :: "crypto_ops \<Rightarrow> bytes \<Rightarrow> bytes \<Rightarrow> bytes \<Rightarrow> bytes" where
  "pqResumeSecret C sharedKey clientMagic clientNonce =
     hkdf_sha256 C (clientMagic @ clientNonce) sharedKey (map of_char ''DNSCrypt-PQ-resume-secret-v1'') 32"

definition pqResumedSharedKey :: "crypto_ops \<Rightarrow> bytes \<Rightarrow> bytes \<Rightarrow> bytes \<Rightarrow> bytes \<Rightarrow> bytes" where
  "pqResumedSharedKey C resumeSecret clientMagic clientNonce ticket =
     hkdf_sha256 C (clientMagic @ clientNonce) resumeSecret (map of_char ''DNSCrypt-PQ-resumed-query-v1'' @ sha256 C ticket) 32"

definition pqPad :: "bytes \<Rightarrow> nat \<Rightarrow> bytes" where
  "pqPad packet floor =
     (let padded = packet @ [0x80]; target = (length padded + 63) div 64 * 64;
          target = (if target < floor then floor else target) in
      padded @ replicate (target - length padded) 0)"

definition newPqResumptionState :: "CryptoConstruction \<Rightarrow> pqResumptionState option" where
  "newPqResumptionState c =
     (if c \<noteq> XWingPQ then None else Some \<lparr>pq_ticket = None, pq_resumeSecret = replicate 32 0, pq_expiry = 0, pq_epoch = 0\<rparr>)"

text \<open>A copy of an empty ticket is the nil slice.\<close>

definition pq_store :: "bytes \<Rightarrow> bytes \<Rightarrow> int \<Rightarrow> u64 \<Rightarrow> pqResumptionState option \<Rightarrow> pqResumptionState option" where
  "pq_store ticket resumeSecret expiry epoch s =
     map_option (\<lambda>_. \<lparr>pq_ticket = (if ticket = [] then None else Some ticket), pq_resumeSecret = resumeSecret,
       pq_expiry = expiry, pq_epoch = epoch\<rparr>) s"

definition pq_get :: "int \<Rightarrow> u64 \<Rightarrow> pqResumptionState option \<Rightarrow> (bytes \<times> bytes) option \<times> pqResumptionState option" where
  "pq_get now currentEpoch s =
     (case s of
        None \<Rightarrow> (None, None)
      | Some r \<Rightarrow>
          (case pq_ticket r of
             None \<Rightarrow> (None, s)
           | Some ticket \<Rightarrow>
               if \<not> now < pq_expiry r then (None, s)
               else if pq_epoch r \<noteq> currentEpoch then
                 (None, Some (r\<lparr>pq_ticket := None, pq_resumeSecret := replicate 32 0, pq_expiry := 0\<rparr>))
               else (Some (ticket, pq_resumeSecret r), s)))"

text \<open>The randomness of a query and the state of the world around it.\<close>

record query_env =
  qe_nonce :: "bytes option"
  qe_pad :: "byte option"
  qe_weak :: bytes
  qe_now :: int
  qe_epoch :: u64
  qe_minSize :: nat

record sealed_query =
  sq_key :: bytes
  sq_packet :: bytes
  sq_nonce :: bytes
  sq_epoch :: u64

definition encryptPQ :: "crypto_ops \<Rightarrow> query_env \<Rightarrow> ServerInfo \<Rightarrow> bytes \<Rightarrow> (crypto_error + sealed_query) \<times> ServerInfo" where
  "encryptPQ C E serverInfo packet =
     (case qe_nonce E of
        None \<Rightarrow> (Inl NoRandom, serverInfo)
      | Some clientNonce \<Rightarrow>
          let nonce = clientNonce @ replicate (NonceSize - HalfNonceSize) 0 in
          (case pq_get (qe_now E) (qe_epoch E) (si_pqResumption serverInfo) of
             (Some (ticket, resumeSecret), r) \<Rightarrow>
               let key = pqResumedSharedKey C resumeSecret (si_MagicQuery serverInfo) clientNonce ticket;
                   ct = xsecretbox_Seal C nonce (pqPad packet 256) key in
               (Inr \<lparr>sq_key = key,
                     sq_packet = PQResumeMagic @ put16 (of_nat (length ticket)) @ ticket @ clientNonce @ ct,
                     sq_nonce = clientNonce, sq_epoch = qe_epoch E\<rparr>, serverInfo\<lparr>si_pqResumption := r\<rparr>)
           | (None, r) \<Rightarrow>
               let serverInfo = serverInfo\<lparr>si_pqResumption := r\<rparr> in
               (case xwing_Encapsulate C (si_PqPublicKey serverInfo) of
                  None \<Rightarrow> (Inl KemFailed, serverInfo)
                | Some (kemSS, ctKem) \<Rightarrow>
                    let key = pqDeriveSharedKey C kemSS (si_MagicQuery serverInfo) (si_PqCertContext serverInfo) ctKem;
                        ct = xsecretbox_Seal C nonce (pqPad packet 64) key in
                    (Inr \<lparr>sq_key = key, sq_packet = si_MagicQuery serverInfo @ ctKem @ clientNonce @ ct,
                          sq_nonce = clientNonce, sq_epoch = qe_epoch E\<rparr>, serverInfo))))"

definition be32 :: "bytes \<Rightarrow> u32" where
  "be32 b = word_of_int (foldl (\<lambda>a x. a * 256 + uint x) 0 (take 4 b))"

definition pqProcessControl ::
  "crypto_ops \<Rightarrow> int \<Rightarrow> u64 \<Rightarrow> bytes \<Rightarrow> bytes \<Rightarrow> bytes \<Rightarrow> u64 \<Rightarrow> ServerInfo \<Rightarrow> ServerInfo" where
  "pqProcessControl C now networkEpoch sharedKey clientNonce control queryEpoch serverInfo =
     (if length control < 11 then serverInfo
      else if take 4 control \<noteq> PQControlMagic \<or> control ! 4 \<noteq> 0x01 then serverInfo
      else
        let lifetime = be32 (sub control 5 9); ticketLen = unat (be16 (control ! 9) (control ! 10)) in
        if 11 + ticketLen > length control then serverInfo
        else if queryEpoch \<noteq> networkEpoch then serverInfo
        else
          let ticket = sub control 11 (11 + ticketLen);
              resumeSecret = pqResumeSecret C sharedKey (si_MagicQuery serverInfo) clientNonce in
          serverInfo\<lparr>si_pqResumption :=
            pq_store ticket resumeSecret (now + uint lifetime * second) queryEpoch (si_pqResumption serverInfo)\<rparr>)"

definition pqStripControl ::
  "crypto_ops \<Rightarrow> int \<Rightarrow> u64 \<Rightarrow> bytes \<Rightarrow> bytes \<Rightarrow> bytes \<Rightarrow> u64 \<Rightarrow> ServerInfo \<Rightarrow> (crypto_error + bytes) \<times> ServerInfo" where
  "pqStripControl C now networkEpoch sharedKey clientNonce plaintext queryEpoch serverInfo =
     (if length plaintext < 2 then (Inl ControlTooShort, serverInfo)
      else
        let controlLen = unat (be16 (plaintext ! 0) (plaintext ! 1)) in
        if 2 + controlLen > length plaintext then (Inl ControlOverflow, serverInfo)
        else
          let control = sub plaintext 2 (2 + controlLen); body = drop (2 + controlLen) plaintext in
          (Inr body,
           if controlLen > 0 then pqProcessControl C now networkEpoch sharedKey clientNonce control queryEpoch serverInfo
           else serverInfo))"

section \<open>Encryption and decryption\<close>

definition padded_length :: "nat \<Rightarrow> ServerInfo \<Rightarrow> string \<Rightarrow> nat" where
  "padded_length minQuestionSize serverInfo proto =
     (let paddedLength = min (nat MaxDNSUDPPacketSize) ((max minQuestionSize QueryOverhead + 1 + 63) div 64 * 64) in
      if si_fragmentsBlocked serverInfo \<and> proto = ''udp'' then nat MaxDNSUDPSafePacketSize
      else if si_hasRelay serverInfo \<and> proto = ''tcp'' then MaxDNSPacketSize
      else paddedLength)"

definition Encrypt ::
  "crypto_ops \<Rightarrow> query_env \<Rightarrow> client_keys \<Rightarrow> ServerInfo \<Rightarrow> bytes \<Rightarrow> string \<Rightarrow> (crypto_error + sealed_query) \<times> ServerInfo" where
  "Encrypt C E p serverInfo packet proto =
     (if si_CryptoConstruction serverInfo = XWingPQ then encryptPQ C E serverInfo packet
      else
        (case qe_nonce E of
           None \<Rightarrow> (Inl NoRandom, serverInfo)
         | Some clientNonce \<Rightarrow>
             let nonce = clientNonce @ replicate (NonceSize - HalfNonceSize) 0;
                 (sharedKey, publicKey) =
                   (if ck_ephemeralKeys p then
                      let ephSk = sha512_256 C (clientNonce @ ck_proxySecretKey p) in
                      (ComputeSharedKey C (qe_weak E) (si_CryptoConstruction serverInfo) ephSk (si_ServerPk serverInfo),
                       ScalarBaseMult C ephSk)
                    else (si_SharedKey serverInfo, ck_proxyPublicKey p)) in
             if proto \<noteq> ''udp'' \<and> qe_pad E = None then (Inl NoRandom, serverInfo)
             else
               let minQuestionSize = QueryOverhead + length packet;
                   minQuestionSize = (if proto = ''udp'' then max (qe_minSize E) minQuestionSize
                                      else minQuestionSize + unat (the (qe_pad E)));
                   paddedLength = padded_length minQuestionSize serverInfo proto in
               if QueryOverhead + length packet + 1 > paddedLength then (Inl QuestionTooLarge, serverInfo)
               else
                 let padded = pad packet (paddedLength - QueryOverhead);
                     box = (if si_CryptoConstruction serverInfo = XChacha20Poly1305 then xsecretbox_Seal C nonce padded sharedKey
                            else secretbox_Seal C nonce padded sharedKey) in
                 (Inr \<lparr>sq_key = sharedKey, sq_packet = si_MagicQuery serverInfo @ publicKey @ take HalfNonceSize nonce @ box,
                       sq_nonce = clientNonce, sq_epoch = 0\<rparr>, serverInfo)))"

definition Decrypt ::
  "crypto_ops \<Rightarrow> int \<Rightarrow> u64 \<Rightarrow> ServerInfo \<Rightarrow> bytes \<Rightarrow> bytes \<Rightarrow> bytes \<Rightarrow> u64 \<Rightarrow> (crypto_error + bytes) \<times> ServerInfo" where
  "Decrypt C now networkEpoch serverInfo sharedKey encrypted nonce queryEpoch =
     (let serverMagicLen = length ServerMagic; responseHeaderLen = serverMagicLen + NonceSize in
      if length encrypted < responseHeaderLen + TagSize + MinDNSPacketSize \<or>
         length encrypted > responseHeaderLen + TagSize + MaxDNSPacketSize \<or> take serverMagicLen encrypted \<noteq> ServerMagic
      then (Inl BadSizeOrPrefix, serverInfo)
      else
        let serverNonce = sub encrypted serverMagicLen responseHeaderLen in
        if take HalfNonceSize nonce \<noteq> take HalfNonceSize serverNonce then (Inl UnexpectedNonce, serverInfo)
        else
          let box = drop responseHeaderLen encrypted;
              opened = (if si_CryptoConstruction serverInfo = XChacha20Poly1305 \<or> si_CryptoConstruction serverInfo = XWingPQ
                        then xsecretbox_Open C serverNonce box sharedKey else secretbox_Open C serverNonce box sharedKey) in
          (case opened of
             None \<Rightarrow> (Inl IncorrectTag, serverInfo)
           | Some packet \<Rightarrow>
               let (body, serverInfo) =
                 (if si_CryptoConstruction serverInfo = XWingPQ
                  then pqStripControl C now networkEpoch sharedKey nonce packet queryEpoch serverInfo
                  else (Inr packet, serverInfo)) in
               (case body of
                  Inl e \<Rightarrow> (Inl e, serverInfo)
                | Inr packet \<Rightarrow>
                    (case unpad packet of
                       Inl _ \<Rightarrow> (Inl IncorrectPadding, serverInfo)
                     | Inr packet \<Rightarrow>
                         if length packet < MinDNSPacketSize then (Inl IncorrectPadding, serverInfo)
                         else (Inr packet, serverInfo)))))"

section \<open>Padding is undone exactly\<close>

lemma unpad_from_zeros [simp]: "unpad_from (replicate k 0 @ 0x80 # rest) = Inr (rev rest)"
  by (induction k) auto

lemma unpad_from_Inr: "unpad_from r = Inr p \<longleftrightarrow> (\<exists>k. r = replicate k 0 @ 0x80 # rev p)"
proof
  show "unpad_from r = Inr p \<Longrightarrow> \<exists>k. r = replicate k 0 @ 0x80 # rev p"
  proof (induction r rule: unpad_from.induct)
    case (2 b rest)
    show ?case
    proof (cases "b = 0x80")
      case True
      then show ?thesis using 2 by (intro exI [of _ 0]) auto
    next
      case False
      then obtain k where "rest = replicate k 0 @ 0x80 # rev p" "b = 0" using 2 by (auto split: if_splits)
      then show ?thesis by (intro exI [of _ "Suc k"]) simp
    qed
  qed simp
qed auto

lemma unpad_Inr: "unpad x = Inr p \<longleftrightarrow> (\<exists>k. x = p @ 0x80 # replicate k 0)"
proof -
  have "rev x = replicate k 0 @ 0x80 # rev p \<longleftrightarrow> x = p @ 0x80 # replicate k 0" for k
    by (metis (no_types, lifting) append.assoc append_Cons append_Nil rev.simps(2) rev_append rev_replicate rev_rev_ident)
  then show ?thesis by (simp add: unpad_def unpad_from_Inr)
qed

lemma unpad_pad [simp]: "unpad (pad p n) = Inr p" "unpad (pqPad p f) = Inr p"
  by (auto simp: unpad_Inr pad_def pqPad_def Let_def)

lemma length_pad: "length (pad p n) = max n (length p + 1)"
  by (simp add: pad_def)

lemma length_pqPad: "length (pqPad p f) = max f ((length p + 64) div 64 * 64)"
proof -
  have "length p + 1 \<le> (length p + 64) div 64 * 64" by linarith
  then show ?thesis by (simp add: pqPad_def Let_def max_def add.commute)
qed

section \<open>The size estimate stays in range\<close>

datatype estimate_event = Blind | Adjusted int

fun estimate_step :: "'a ewma_ops \<Rightarrow> estimate_event \<Rightarrow> 'a QuestionSizeEstimator \<Rightarrow> 'a QuestionSizeEstimator" where
  "estimate_step A Blind q = blindAdjust A q"
| "estimate_step A (Adjusted n) q = adjust A n q"

definition estimate_ok :: "'a QuestionSizeEstimator \<Rightarrow> bool" where
  "estimate_ok q \<longleftrightarrow> qe_minQuestionSize q \<in> {int InitialMinQuestionSize..MaxDNSUDPPacketSize}"

lemma estimate_step_ok: "estimate_ok q \<Longrightarrow> estimate_ok (estimate_step A e q)"
  by (cases e) (auto simp: estimate_ok_def blindAdjust_def adjust_def Let_def MaxDNSUDPPacketSize_def InitialMinQuestionSize_def)

text \<open>The estimated size of a question stays between 512 and 4096 bytes, whatever the moving average computes and whatever the
  sizes that are reported, along any sequence of adjustments.
\<close>

theorem estimate_in_range:
  "qe_minQuestionSize (fold (estimate_step A) events (NewQuestionSizeEstimator e)) \<in> {512..4096}"
proof -
  have "estimate_ok (fold (estimate_step A) events q)" if "estimate_ok q" for q
    using that by (induction events arbitrary: q) (auto intro: estimate_step_ok)
  moreover have "estimate_ok (NewQuestionSizeEstimator e)"
    by (simp add: estimate_ok_def NewQuestionSizeEstimator_def InitialMinQuestionSize_def MaxDNSUDPPacketSize_def)
  ultimately show ?thesis by (auto simp: estimate_ok_def InitialMinQuestionSize_def MaxDNSUDPPacketSize_def)
qed

section \<open>The server recovers the query\<close>

definition crypto_ok :: "crypto_ops \<Rightarrow> bool" where
  "crypto_ok C \<longleftrightarrow>
     (\<forall>n m k. xsecretbox_Open C n (xsecretbox_Seal C n m k) k = Some m \<and> length (xsecretbox_Seal C n m k) = TagSize + length m) \<and>
     (\<forall>n m k. secretbox_Open C n (secretbox_Seal C n m k) k = Some m \<and> length (secretbox_Seal C n m k) = TagSize + length m) \<and>
     (\<forall>a. length (ScalarBaseMult C a) = PublicKeySize) \<and>
     (\<forall>a b. xsecretbox_SharedKey C a (ScalarBaseMult C b) = xsecretbox_SharedKey C b (ScalarBaseMult C a)) \<and>
     (\<forall>a b. box_Precompute C (ScalarBaseMult C b) a = box_Precompute C (ScalarBaseMult C a) b)"

text \<open>What a server with the secret key \<open>sk\<close> does with a query: it reads the client key and the nonce and opens the box.\<close>

definition server_open :: "crypto_ops \<Rightarrow> CryptoConstruction \<Rightarrow> bytes \<Rightarrow> bytes \<Rightarrow> bytes option" where
  "server_open C c sk packet =
     (let publicKey = sub packet 8 40; nonce = sub packet 40 52 @ replicate 12 0; box = drop 52 packet;
          key = ComputeSharedKey C [] c sk publicKey;
          opened = (if c = XChacha20Poly1305 then xsecretbox_Open C nonce box key else secretbox_Open C nonce box key) in
      case opened of None \<Rightarrow> None | Some padded \<Rightarrow> (case unpad padded of Inl _ \<Rightarrow> None | Inr p \<Rightarrow> Some p))"

definition weak_key :: "crypto_ops \<Rightarrow> CryptoConstruction \<Rightarrow> bytes \<Rightarrow> bytes \<Rightarrow> bool" where
  "weak_key C c sk pk \<longleftrightarrow>
     (if c = XChacha20Poly1305 then xsecretbox_SharedKey C sk pk = None else list_all (\<lambda>b. b = 0) (box_Precompute C pk sk))"

lemma shared_keys_agree:
  assumes "crypto_ok C" "\<not> weak_key C c a (ScalarBaseMult C b)"
  shows "ComputeSharedKey C r c a (ScalarBaseMult C b) = ComputeSharedKey C r' c b (ScalarBaseMult C a)"
  using assms by (auto simp: crypto_ok_def ComputeSharedKey_def weak_key_def Let_def split: option.splits)

text \<open>The keys the proxy holds: its public key belongs to its secret key, and every classic server has their shared key.\<close>

definition keys_ok :: "crypto_ops \<Rightarrow> client_keys \<Rightarrow> ServerInfo \<Rightarrow> bool" where
  "keys_ok C p si \<longleftrightarrow>
     ck_proxyPublicKey p = ScalarBaseMult C (ck_proxySecretKey p) \<and>
     (isClassicDNSCryptConstruction (si_CryptoConstruction si) \<longrightarrow>
      (\<exists>r. si_SharedKey si = ComputeSharedKey C r (si_CryptoConstruction si) (ck_proxySecretKey p) (si_ServerPk si)))"

lemma rotate_keys_ok:
  assumes "rotateDNSCryptClientKey C random weak (p, sis) = Some (p', sis')" "si \<in> set sis'"
  shows "keys_ok C p' si"
  using assms
  by (fastforce simp: rotateDNSCryptClientKey_def keys_ok_def setDNSCryptClientKeyLocked_def recomputeServerSharedKeyLocked_def Let_def)

lemma padded_length_le: "padded_length m si proto \<le> 4096"
  by (simp add: padded_length_def Let_def MaxDNSUDPPacketSize_def MaxDNSUDPSafePacketSize_def MaxDNSPacketSize_def)

lemma sub_append: "length a = i \<Longrightarrow> length b = j - i \<Longrightarrow> sub (a @ b @ c) i j = b"
  by (simp add: sub_def)

lemma server_open_sealed:
  assumes "crypto_ok C" "length magic = 8" "length pk = 32" "length n = 12" "isClassicDNSCryptConstruction c"
    and "key = ComputeSharedKey C [] c sk pk"
    and "box = (if c = XChacha20Poly1305 then xsecretbox_Seal C (n @ replicate 12 0) (pad p k) key
                else secretbox_Seal C (n @ replicate 12 0) (pad p k) key)"
  shows "server_open C c sk (magic @ pk @ n @ box) = Some p"
proof -
  have "sub (magic @ pk @ n @ box) 8 40 = pk" using assms(2,3) by (intro sub_append) simp_all
  moreover have "sub (magic @ pk @ n @ box) 40 52 = n" using assms(2-4) by (simp add: sub_def)
  moreover have "drop 52 (magic @ pk @ n @ box) = box" using assms(2-4) by simp
  ultimately show ?thesis
    using assms(1,6,7) by (simp add: server_open_def Let_def crypto_ok_def)
qed

text \<open>
  C16: the server recovers exactly the query that was encrypted. When the ciphers and the key agreement do what they document and
  the key is not weak, encrypting for a classic server succeeds iff the query fits, and then the server, with
  its own secret key, opens the packet to the query; the packet has exactly the padded length, at most 4096 bytes.
\<close>

theorem server_recovers_query:
  fixes packet :: bytes
  assumes "crypto_ok C" "keys_ok C p si" "isClassicDNSCryptConstruction (si_CryptoConstruction si)"
    and "si_ServerPk si = ScalarBaseMult C sk" "length (si_MagicQuery si) = ClientMagicLen"
    and "qe_nonce E = Some n" "length n = HalfNonceSize" "proto = ''udp'' \<or> qe_pad E \<noteq> None"
    and "\<And>a. \<not> weak_key C (si_CryptoConstruction si) a (ScalarBaseMult C sk)"
  defines "m \<equiv> (if proto = ''udp'' then max (qe_minSize E) (QueryOverhead + length packet)
      else QueryOverhead + length packet + unat (the (qe_pad E)))"
  shows "case Encrypt C E p si packet proto of
      (Inr q, si') \<Rightarrow> si' = si \<and> server_open C (si_CryptoConstruction si) sk (sq_packet q) = Some packet \<and>
        length (sq_packet q) = padded_length m si proto \<and> length (sq_packet q) \<le> 4096
    | (Inl e, si') \<Rightarrow> e = QuestionTooLarge \<and> padded_length m si proto < QueryOverhead + length packet + 1"
proof -
  define sec where "sec = (if ck_ephemeralKeys p then sha512_256 C (n @ ck_proxySecretKey p) else ck_proxySecretKey p)"
  let ?c = "si_CryptoConstruction si" and ?pk = "ScalarBaseMult C sec"
  have agree: "ComputeSharedKey C r ?c sec (ScalarBaseMult C sk) = ComputeSharedKey C [] ?c sk ?pk" for r
    using shared_keys_agree [OF assms(1) assms(9)] by blast
  have classic: "?c \<noteq> XWingPQ" using assms(3) by (auto simp: isClassicDNSCryptConstruction_def)
  obtain r where "si_SharedKey si = ComputeSharedKey C r ?c (ck_proxySecretKey p) (si_ServerPk si)"
    using assms(2,3) by (auto simp: keys_ok_def)
  then have keys: "(if ck_ephemeralKeys p then
        let ephSk = sha512_256 C (n @ ck_proxySecretKey p) in (ComputeSharedKey C (qe_weak E) ?c ephSk (si_ServerPk si), ScalarBaseMult C ephSk)
      else (si_SharedKey si, ck_proxyPublicKey p)) = (ComputeSharedKey C [] ?c sk ?pk, ?pk)"
    using agree assms(2,4) by (cases "ck_ephemeralKeys p") (simp_all add: sec_def keys_ok_def Let_def)
  have pk: "length ?pk = 32" using assms(1) by (simp add: crypto_ok_def PublicKeySize_def)
  show ?thesis
  proof (cases "padded_length m si proto < QueryOverhead + length packet + 1")
    case True
    then show ?thesis
      using assms(6,8) classic by (auto simp: Encrypt_def keys Let_def m_def)
  next
    case False
    let ?N = "n @ replicate 12 0" and ?P = "pad packet (padded_length m si proto - QueryOverhead)" and ?k = "ComputeSharedKey C [] ?c sk ?pk"
    let ?box = "if ?c = XChacha20Poly1305 then xsecretbox_Seal C ?N ?P ?k else secretbox_Seal C ?N ?P ?k"
    have E: "Encrypt C E p si packet proto =
        (Inr \<lparr>sq_key = ?k, sq_packet = si_MagicQuery si @ ?pk @ n @ ?box, sq_nonce = n, sq_epoch = 0\<rparr>, si)"
      using assms(6-8) classic False by (auto simp: Encrypt_def keys Let_def m_def crypto_sizes)
    have "length ?box = TagSize + length ?P" using assms(1) by (simp add: crypto_ok_def)
    then have "length (si_MagicQuery si @ ?pk @ n @ ?box) = padded_length m si proto"
      using False assms(5,7) pk by (simp add: length_pad crypto_sizes)
    moreover have "server_open C ?c sk (si_MagicQuery si @ ?pk @ n @ ?box) = Some packet"
      using assms(5,7) by (intro server_open_sealed [OF assms(1) _ pk _ assms(3)]) (simp_all add: crypto_sizes)
    ultimately show ?thesis using padded_length_le by (simp add: E)
  qed
qed

definition plain_crypto :: crypto_ops where
  "plain_crypto =
     \<lparr>xsecretbox_SharedKey = (\<lambda>_ _. Some (replicate 32 1)), box_Precompute = (\<lambda>_ _. replicate 32 1),
      ScalarBaseMult = (\<lambda>a. take 32 (a @ replicate 32 0)),
      xsecretbox_Seal = (\<lambda>_ m _. replicate 16 0 @ m), xsecretbox_Open = (\<lambda>_ b _. if length b < 16 then None else Some (drop 16 b)),
      secretbox_Seal = (\<lambda>_ m _. replicate 16 0 @ m), secretbox_Open = (\<lambda>_ b _. if length b < 16 then None else Some (drop 16 b)),
      sha512_256 = take 32, sha256 = take 32, hkdf_sha256 = (\<lambda>_ _ _ n. replicate n 1), xwing_Encapsulate = (\<lambda>_. Some ([], []))\<rparr>"

lemma plain_crypto_ok: "crypto_ok plain_crypto"
  by (auto simp: crypto_ok_def plain_crypto_def TagSize_def PublicKeySize_def)

lemma plain_not_weak: "\<not> weak_key plain_crypto c a b"
  by (simp add: weak_key_def plain_crypto_def numeral_eq_Suc)

definition sample_server :: ServerInfo where
  "sample_server = \<lparr>si_Name = ''resolver'', si_CryptoConstruction = XChacha20Poly1305, si_ServerPk = ScalarBaseMult plain_crypto (replicate 32 5),
     si_SharedKey = replicate 32 1, si_MagicQuery = replicate 8 9, si_PqPublicKey = [], si_PqCertContext = [],
     si_fragmentsBlocked = False, si_hasRelay = False, si_pqResumption = None\<rparr>"

definition sample_keys :: client_keys where
  "sample_keys = setDNSCryptClientKeyLocked plain_crypto (replicate 32 7)
     \<lparr>ck_proxySecretKey = [], ck_proxyPublicKey = [], ck_ephemeralKeys = False\<rparr>"

definition sample_query_env :: query_env where
  "sample_query_env = \<lparr>qe_nonce = Some (replicate 12 3), qe_pad = Some 1, qe_weak = [], qe_now = 0, qe_epoch = 0, qe_minSize = 512\<rparr>"

theorem server_recovers_query_witness:
  "\<exists>q. Encrypt plain_crypto sample_query_env sample_keys sample_server (replicate 40 2) ''udp'' = (Inr q, sample_server) \<and>
     server_open plain_crypto XChacha20Poly1305 (replicate 32 5) (sq_packet q) = Some (replicate 40 2) \<and> length (sq_packet q) = 576"
proof -
  have keys: "keys_ok plain_crypto sample_keys sample_server"
    by (simp add: keys_ok_def sample_keys_def setDNSCryptClientKeyLocked_def sample_server_def ComputeSharedKey_def plain_crypto_def)
  have fit: "padded_length (max 512 (QueryOverhead + 40)) sample_server ''udp'' = 576"
    by (simp add: padded_length_def Let_def sample_server_def MaxDNSUDPPacketSize_def crypto_sizes)
  show ?thesis
    using server_recovers_query [OF plain_crypto_ok keys, where sk = "replicate 32 5" and E = sample_query_env and n = "replicate 12 3"
        and proto = "''udp''" and packet = "replicate 40 2"] plain_not_weak fit
    by (auto simp: sample_server_def sample_query_env_def isClassicDNSCryptConstruction_def crypto_sizes split: prod.splits sum.splits)
qed

section \<open>Only answers of the server to this query are accepted\<close>

lemma sub_split: "j \<le> length b \<Longrightarrow> i \<le> j \<Longrightarrow> b = take i b @ sub b i j @ drop j b"
  by (metis add_diff_inverse_nat append_take_drop_id drop_drop leD sub_def add.commute)

text \<open>
  C17: decryption accepts exactly the answers the server sealed for this query. A packet for a classic server is accepted with the
  payload \<open>p\<close> iff it is the server magic, the client's half of the nonce, twelve more bytes and a box that opens under
  the shared key and that nonce to \<open>p\<close> with its padding, \<open>p\<close> is long enough for a DNS packet and the whole is not too long.
\<close>

theorem decrypt_accepts_iff:
  fixes C :: crypto_ops
  assumes "si_CryptoConstruction si \<noteq> XWingPQ" "length n = HalfNonceSize"
  defines "opens \<equiv> (if si_CryptoConstruction si = XChacha20Poly1305 then xsecretbox_Open C else secretbox_Open C)"
  shows "fst (Decrypt C now ep si key encrypted n qep) = Inr p \<longleftrightarrow>
    (\<exists>sn box k. encrypted = ServerMagic @ n @ sn @ box \<and> length sn = HalfNonceSize \<and>
       opens (n @ sn) box key = Some (p @ 0x80 # replicate k 0) \<and>
       MinDNSPacketSize \<le> length p \<and> TagSize + MinDNSPacketSize \<le> length box \<and> length box \<le> TagSize + MaxDNSPacketSize)"
    (is "?l \<longleftrightarrow> ?r")
proof
  assume ?l
  let ?sn = "sub encrypted 8 32" and ?box = "drop 32 encrypted"
  from \<open>?l\<close> have len: "65 \<le> length encrypted" "length encrypted \<le> 4144" and magic: "take 8 encrypted = ServerMagic"
    and nonce: "take 12 n = take 12 ?sn"
    and opened: "\<exists>k. opens ?sn ?box key = Some (p @ 0x80 # replicate k 0)" and p: "MinDNSPacketSize \<le> length p"
    using assms(1)
    by (auto simp: Decrypt_def Let_def crypto_sizes opens_def unpad_Inr split: if_splits option.splits sum.splits)
  have n: "length n = 12" using assms(2) by (simp add: crypto_sizes)
  have "length ?sn = 24" using len by (simp add: sub_def)
  then have sn: "?sn = n @ drop 12 ?sn" "length (drop 12 ?sn) = 12"
    using nonce n by (metis append_take_drop_id take_all order_refl, simp)
  have "encrypted = ServerMagic @ ?sn @ ?box" using sub_split [of 32 encrypted 8] len magic by simp
  then have "encrypted = ServerMagic @ n @ drop 12 ?sn @ ?box" using sn(1) by (metis append.assoc)
  moreover have "opens (n @ drop 12 ?sn) ?box key = opens ?sn ?box key" using sn(1) by simp
  moreover have "length ?box = length encrypted - 32" by simp
  ultimately show ?r
    using opened p len sn(2) by (intro exI [of _ "drop 12 ?sn"] exI [of _ ?box]) (auto simp: crypto_sizes)
next
  assume ?r
  then obtain sn box k where e: "encrypted = ServerMagic @ n @ sn @ box" "length sn = 12"
    and opn: "opens (n @ sn) box key = Some (p @ 0x80 # replicate k 0)"
    and b: "MinDNSPacketSize \<le> length p" "33 \<le> length box" "length box \<le> 4112"
    by (auto simp: crypto_sizes)
  have n: "length n = 12" using assms(2) by (simp add: crypto_sizes)
  have "sub encrypted 8 32 = n @ sn" using e n by (simp add: sub_def)
  moreover have "drop 32 encrypted = box" "take 8 encrypted = ServerMagic" using e n by simp_all
  moreover have "unpad (p @ 0x80 # replicate k 0) = Inr p" by (auto simp: unpad_Inr)
  ultimately show ?l using opn b e n assms(1) by (simp add: Decrypt_def Let_def crypto_sizes opens_def split: if_splits)
qed

definition sealed_answer :: bytes where
  "sealed_answer = ServerMagic @ replicate 12 3 @ replicate 12 8 @ replicate 16 0 @ pad (replicate 20 4) 64"

theorem decrypt_accepts_iff_witness:
  "fst (Decrypt plain_crypto 0 0 sample_server (replicate 32 1) sealed_answer (replicate 12 3) 0) = Inr (replicate 20 4) \<and>
   fst (Decrypt plain_crypto 0 0 sample_server (replicate 32 1) sealed_answer (replicate 12 6) 0) \<noteq> Inr (replicate 20 4)"
proof -
  have c: "si_CryptoConstruction sample_server = XChacha20Poly1305" by (simp add: sample_server_def)
  have p: "pad (replicate 20 4) 64 = replicate 20 4 @ 0x80 # replicate 43 0" by (simp add: pad_def)
  have "sealed_answer \<noteq> ServerMagic @ replicate 12 6 @ sn @ box" for sn box
  proof
    assume "sealed_answer = ServerMagic @ replicate 12 6 @ sn @ box"
    from arg_cong [OF this, of "\<lambda>x. take 12 (drop 8 x)"] show False by (simp add: sealed_answer_def)
  qed
  moreover have "\<exists>sn box k. sealed_answer = ServerMagic @ replicate 12 3 @ sn @ box \<and> length sn = HalfNonceSize \<and>
      xsecretbox_Open plain_crypto (replicate 12 3 @ sn) box (replicate 32 1) = Some (replicate 20 4 @ 0x80 # replicate k 0) \<and>
      MinDNSPacketSize \<le> length (replicate 20 (4::byte)) \<and> TagSize + MinDNSPacketSize \<le> length box \<and> length box \<le> TagSize + MaxDNSPacketSize"
    by (rule exI [of _ "replicate 12 8"], rule exI [of _ "replicate 16 0 @ replicate 20 4 @ 0x80 # replicate 43 0"], rule exI [of _ 43])
      (simp add: sealed_answer_def p crypto_sizes plain_crypto_def)
  ultimately show ?thesis
    using decrypt_accepts_iff [of sample_server "replicate 12 3" plain_crypto 0 0 "replicate 32 1" sealed_answer 0 "replicate 20 4"]
      decrypt_accepts_iff [of sample_server "replicate 12 6" plain_crypto 0 0 "replicate 32 1" sealed_answer 0 "replicate 20 4"] c
    by (simp add: HalfNonceSize_def NonceSize_def)
qed

section \<open>Resumption tickets\<close>

text \<open>What happens to the tickets of a server: queries are sent and responses arrive.\<close>

datatype pq_event =
    SendQuery query_env bytes
  | GotControl int u64 bytes bytes bytes u64

fun pq_step :: "crypto_ops \<Rightarrow> pq_event \<Rightarrow> ServerInfo \<Rightarrow> ServerInfo" where
  "pq_step C (SendQuery E packet) si = snd (encryptPQ C E si packet)"
| "pq_step C (GotControl now ep key n control qep) si = pqProcessControl C now ep key n control qep si"

text \<open>\<open>grants\<close>: the response carried the ticket, for a query of the network epoch it arrived in.\<close>

fun grants :: "crypto_ops \<Rightarrow> bytes \<Rightarrow> bytes \<Rightarrow> bytes \<Rightarrow> int \<Rightarrow> u64 \<Rightarrow> pq_event \<Rightarrow> bool" where
  "grants C magic ticket secret expiry epoch (SendQuery _ _) = False"
| "grants C magic ticket secret expiry epoch (GotControl now ep key n control qep) \<longleftrightarrow>
     qep = epoch \<and> ep = epoch \<and> ticket \<noteq> [] \<and> secret = pqResumeSecret C key magic n \<and>
     expiry = now + uint (be32 (sub control 5 9)) * second \<and>
     take 11 control = PQControlMagic @ [0x01] @ sub control 5 9 @ put16 (of_nat (length ticket)) \<and>
     take (length ticket) (drop 11 control) = ticket"

definition ticket_inv :: "crypto_ops \<Rightarrow> bytes \<Rightarrow> pq_event list \<Rightarrow> pqResumptionState option \<Rightarrow> bool" where
  "ticket_inv C magic evs r \<longleftrightarrow>
     (\<forall>s t. r = Some s \<longrightarrow> pq_ticket s = Some t \<longrightarrow>
        (\<exists>ev\<in>set evs. grants C magic t (pq_resumeSecret s) (pq_expiry s) (pq_epoch s) ev))"

lemma ticket_inv_mono: "ticket_inv C magic evs r \<Longrightarrow> set evs \<subseteq> set evs' \<Longrightarrow> ticket_inv C magic evs' r"
  unfolding ticket_inv_def by blast

lemma pq_get_inv: "ticket_inv C magic evs r \<Longrightarrow> ticket_inv C magic evs (snd (pq_get now ep r))"
  by (auto simp: pq_get_def ticket_inv_def split: option.splits)

lemma encryptPQ_state:
  "si_pqResumption (snd (encryptPQ C E si packet)) \<in>
     {si_pqResumption si, snd (pq_get (qe_now E) (qe_epoch E) (si_pqResumption si))} \<and>
   si_MagicQuery (snd (encryptPQ C E si packet)) = si_MagicQuery si"
  by (auto simp: encryptPQ_def Let_def split: option.splits prod.splits)

lemma control_split:
  assumes "11 \<le> length c"
  shows "take 11 c = take 4 c @ [c ! 4] @ sub c 5 9 @ [c ! 9, c ! 10]"
proof -
  obtain a0 a1 a2 a3 a4 a5 a6 a7 a8 a9 a10 r where "c = a0 # a1 # a2 # a3 # a4 # a5 # a6 # a7 # a8 # a9 # a10 # r"
    using assms by (auto simp: Suc_le_length_iff numeral_eq_Suc)
  then show ?thesis by (simp add: sub_def)
qed

lemma process_control_grants:
  assumes "ticket_inv C (si_MagicQuery si) evs (si_pqResumption si)"
  shows "ticket_inv C (si_MagicQuery si) (GotControl now ep key n control qep # evs)
    (si_pqResumption (pqProcessControl C now ep key n control qep si))"
proof (cases "pqProcessControl C now ep key n control qep si = si")
  case True
  then show ?thesis using ticket_inv_mono [OF assms] by (metis set_subset_Cons)
next
  case False
  let ?k = "unat (be16 (control ! 9) (control ! 10))"
  let ?t = "sub control 11 (11 + ?k)"
  have ok: "11 \<le> length control" "take 4 control = PQControlMagic" "control ! 4 = 0x01" "11 + ?k \<le> length control" "qep = ep"
    and st: "si_pqResumption (pqProcessControl C now ep key n control qep si) =
      pq_store ?t (pqResumeSecret C key (si_MagicQuery si) n) (now + uint (be32 (sub control 5 9)) * second) qep (si_pqResumption si)"
    using False by (auto simp: pqProcessControl_def Let_def split: if_splits)
  have k: "length ?t = ?k" using ok(4) by (simp add: sub_def)
  have "put16 (of_nat ?k) = [control ! 9, control ! 10]" by simp
  then have "grants C (si_MagicQuery si) ?t (pqResumeSecret C key (si_MagicQuery si) n) (now + uint (be32 (sub control 5 9)) * second) qep
      (GotControl now ep key n control qep)" if "?t \<noteq> []"
    using that ok control_split [OF ok(1)] k by (simp add: sub_def)
  then show ?thesis by (auto simp: ticket_inv_def st pq_store_def split: if_splits)
qed

lemma pq_step_inv:
  assumes "ticket_inv C (si_MagicQuery si) evs (si_pqResumption si)"
  shows "ticket_inv C (si_MagicQuery si) (ev # evs) (si_pqResumption (pq_step C ev si))"
proof (cases ev)
  case (SendQuery E packet)
  have "ticket_inv C (si_MagicQuery si) evs (si_pqResumption (snd (encryptPQ C E si packet)))"
    using encryptPQ_state [of C E si packet] pq_get_inv [OF assms] assms by (metis insertE singletonD)
  then show ?thesis using ticket_inv_mono SendQuery by (metis pq_step.simps(1) set_subset_Cons)
qed (simp add: process_control_grants [OF assms])

lemma pq_step_magic [simp]: "si_MagicQuery (pq_step C ev si) = si_MagicQuery si"
  using encryptPQ_state by (cases ev) (auto simp: pqProcessControl_def Let_def)

lemma pq_run_inv:
  assumes "si_pqResumption si = newPqResumptionState XWingPQ"
  shows "ticket_inv C (si_MagicQuery si) evs (si_pqResumption (foldr (pq_step C) evs si)) \<and>
    si_MagicQuery (foldr (pq_step C) evs si) = si_MagicQuery si"
proof (induction evs)
  case Nil
  then show ?case using assms by (simp add: newPqResumptionState_def ticket_inv_def)
next
  case (Cons ev evs)
  then show ?case using pq_step_inv [of C "foldr (pq_step C) evs si" evs ev] by simp
qed

text \<open>
  C18: a resumed query uses a ticket of this network and in its lifetime. After any history of queries and responses, a post-quantum
  query either carries a fresh encapsulation under the server's key or a ticket that an earlier response to a query of the
  present network epoch granted, sealed under the key derived from that response's secret, before the ticket
  expires. (The list of events has the last one first.)
\<close>

theorem resumed_query_uses_current_ticket:
  assumes "si_pqResumption si = newPqResumptionState XWingPQ"
    and "encryptPQ C E (foldr (pq_step C) evs si) packet = (Inr q, si')"
  shows "(\<exists>kemSS ct. xwing_Encapsulate C (si_PqPublicKey (foldr (pq_step C) evs si)) = Some (kemSS, ct) \<and>
      take (length (si_MagicQuery si @ ct)) (sq_packet q) = si_MagicQuery si @ ct) \<or>
    (\<exists>ticket secret expiry. list_ex (grants C (si_MagicQuery si) ticket secret expiry (qe_epoch E)) evs \<and> qe_now E < expiry \<and>
      sq_key q = pqResumedSharedKey C secret (si_MagicQuery si) (sq_nonce q) ticket \<and>
      take (10 + length ticket) (sq_packet q) = PQResumeMagic @ put16 (of_nat (length ticket)) @ ticket)"
proof -
  let ?s = "foldr (pq_step C) evs si"
  note inv = pq_run_inv [OF assms(1), of C evs]
  obtain n where n: "qe_nonce E = Some n" using assms(2) by (auto simp: encryptPQ_def split: option.splits)
  have ten: "length PQResumeMagic = 8" "length (put16 w) = 2" for w by (simp_all add: PQResumeMagic_def put16_def)
  show ?thesis
  proof (cases "fst (pq_get (qe_now E) (qe_epoch E) (si_pqResumption ?s))")
    case None
    then show ?thesis using assms(2) n inv
      by (auto simp: encryptPQ_def Let_def split: option.splits prod.splits)
  next
    case (Some ts)
    obtain ticket secret where ts: "ts = (ticket, secret)" by (cases ts)
    obtain r where r: "si_pqResumption ?s = Some r" "pq_ticket r = Some ticket" "pq_resumeSecret r = secret"
      "qe_now E < pq_expiry r" "pq_epoch r = qe_epoch E"
      using Some ts by (auto simp: pq_get_def split: option.splits if_splits)
    then have "list_ex (grants C (si_MagicQuery si) ticket secret (pq_expiry r) (qe_epoch E)) evs"
      using inv by (auto simp: ticket_inv_def list_ex_iff)
    moreover have "sq_key q = pqResumedSharedKey C secret (si_MagicQuery si) (sq_nonce q) ticket \<and>
        take (10 + length ticket) (sq_packet q) = PQResumeMagic @ put16 (of_nat (length ticket)) @ ticket"
      using assms(2) n inv Some ts ten by (auto simp: encryptPQ_def Let_def split: prod.splits)
    ultimately show ?thesis using r(4) by blast
  qed
qed

definition sample_control :: bytes where
  "sample_control = PQControlMagic @ [0x01] @ [0, 0, 0, 60] @ put16 3 @ [1, 2, 3]"

theorem resumed_query_uses_current_ticket_witness:
  "\<exists>ticket secret expiry. grants plain_crypto (replicate 8 9) ticket secret expiry 4 (GotControl 5 4 [] [] sample_control 4) \<and> 10 < expiry"
proof -
  let ?si = "sample_server\<lparr>si_CryptoConstruction := XWingPQ, si_pqResumption := newPqResumptionState XWingPQ\<rparr>"
  let ?E = "sample_query_env\<lparr>qe_epoch := 4, qe_now := 10\<rparr>" and ?evs = "[GotControl 5 4 [] [] sample_control 4]"
  have "case encryptPQ plain_crypto ?E (foldr (pq_step plain_crypto) ?evs ?si) [9] of
      (Inr q, si') \<Rightarrow> take 8 (sq_packet q) \<noteq> replicate 8 9 | _ \<Rightarrow> False"
    by code_simp
  then obtain q si' where q: "encryptPQ plain_crypto ?E (foldr (pq_step plain_crypto) ?evs ?si) [9] = (Inr q, si')"
    "take 8 (sq_packet q) \<noteq> replicate 8 9"
    by (auto split: prod.splits sum.splits)
  have si: "si_pqResumption ?si = newPqResumptionState XWingPQ" "si_MagicQuery ?si = replicate 8 9" by (simp_all add: sample_server_def)
  have x: "xwing_Encapsulate plain_crypto k = Some ([], [])" for k by (simp add: plain_crypto_def)
  show ?thesis
    using resumed_query_uses_current_ticket [OF si(1) q(1)] q(2) unfolding si(2) x by (auto simp: sample_query_env_def)
qed

end
