(* ===== verification/Dc_Certs.thy ===== *)
theory Dc_Certs
  imports Dc_Crypto
begin

text \<open>
  \<open>DNSExchange\<close> of \<open>pkg/dnscrypt/dnsutils.go\<close> and \<open>dnscrypt_certs.go\<close>: asking a server, possibly through a relay, for its
  certificates and choosing the one to use. The network is a record of arguments: what resolving, dialing and reading
  give, and the order in which the concurrent attempts report. Signature verification is an argument.
\<close>

section \<open>One exchange\<close>

type_synonym net_addr = "net_IP \<times> nat"

record DNSCryptRelay =
  RelayUDPAddr :: net_addr
  RelayTCPAddr :: net_addr

definition prepareForRelay :: "net_IP \<Rightarrow> nat \<Rightarrow> bytes \<Rightarrow> bytes" where
  "prepareForRelay ip port encryptedQuery =
     [0xff, 0xff, 0xff, 0xff, 0xff, 0xff, 0xff, 0xff, 0x00, 0x00] @ (case To16 ip of None \<Rightarrow> [] | Some b \<Rightarrow> b) @ put16 (of_nat port) @ encryptedQuery"

datatype exchange_error = Canceled | PackFailed | ResolveFailed | NetworkFailed | FrameFailed | UnpackFailed | InvalidResponse msg_error | Unreachable

text \<open>
  \<open>nt_udp a q\<close> dials \<open>a\<close>, sends \<open>q\<close> and reads one packet with its round-trip time; \<open>nt_tcp p a q\<close> does so over TCP, with the
  proxy dialer when \<open>p\<close>, and gives what the reads deliver.
\<close>

record net_env =
  nt_resolve :: "string \<Rightarrow> net_addr option"
  nt_udp :: "net_addr \<Rightarrow> bytes \<Rightarrow> (bytes \<times> int) option"
  nt_tcp :: "bool \<Rightarrow> net_addr \<Rightarrow> bytes \<Rightarrow> (conn_read list \<times> int) option"
  nt_proxyDialer :: bool

definition probe_padding :: "nat \<Rightarrow> Msg \<Rightarrow> Msg" where
  "probe_padding paddedLen query =
     (let qNameLen = length (rr_Name (hd (msg_Question query))); padding = (if qNameLen < paddedLen then paddedLen - qNameLen else 0) in
      if padding > 0 then
        let query = query\<lparr>msg_Pseudo := msg_Pseudo query @ [PADDING (concat (replicate padding ''00''))]\<rparr> in
        if msg_UDPSize query = 0 then query\<lparr>msg_UDPSize := of_nat MaxDNSPacketSize\<rparr> else query
      else query)"

definition exchange_packet ::
  "dns_package \<Rightarrow> net_env \<Rightarrow> string \<Rightarrow> Msg \<Rightarrow> string \<Rightarrow> DNSCryptRelay option \<Rightarrow> exchange_error + bytes \<times> int" where
  "exchange_packet D N proto query serverAddress relay =
     (case Pack D query of
        None \<Rightarrow> Inl PackFailed
      | Some binQuery \<Rightarrow>
          (case nt_resolve N serverAddress of
             None \<Rightarrow> Inl ResolveFailed
           | Some addr \<Rightarrow>
               let binQuery = (if relay \<noteq> None then prepareForRelay (fst addr) (snd addr) binQuery else binQuery) in
               if proto = ''udp'' then
                 let upstreamAddr = (case relay of None \<Rightarrow> addr | Some r \<Rightarrow> RelayUDPAddr r) in
                 (case nt_udp N upstreamAddr binQuery of
                    None \<Rightarrow> Inl NetworkFailed
                  | Some (packet, rtt) \<Rightarrow> Inr (take MaxDNSPacketSize packet, rtt))
               else
                 let upstreamAddr = (case relay of None \<Rightarrow> addr | Some r \<Rightarrow> RelayTCPAddr r) in
                 (case PrefixWithSize binQuery of
                    Inl _ \<Rightarrow> Inl FrameFailed
                  | Inr frame \<Rightarrow>
                      (case (if \<not> nt_proxyDialer N then nt_tcp N False upstreamAddr frame else nt_tcp N True addr frame) of
                         None \<Rightarrow> Inl NetworkFailed
                       | Some (reads, rtt) \<Rightarrow>
                           (case ReadPrefixed reads of Some (Inr packet) \<Rightarrow> Inr (packet, rtt) | _ \<Rightarrow> Inl NetworkFailed)))))"

record DNSExchangeResponse =
  xr_response :: Msg
  xr_rtt :: int
  xr_priority :: nat
  xr_fragmentsBlocked :: bool

definition dnsExchange ::
  "dns_package \<Rightarrow> net_env \<Rightarrow> string \<Rightarrow> Msg \<Rightarrow> string \<Rightarrow> DNSCryptRelay option \<Rightarrow> nat \<Rightarrow> exchange_error + Msg \<times> int" where
  "dnsExchange D N proto query serverAddress relay paddedLen =
     (let query = (if proto = ''udp'' then probe_padding paddedLen query else query) in
      case exchange_packet D N proto query serverAddress relay of
        Inl e \<Rightarrow> Inl e
      | Inr (packet, rtt) \<Rightarrow>
          (case Unpack D packet of
             None \<Rightarrow> Inl UnpackFailed
           | Some msg \<Rightarrow>
               (case validateResponseForQuery D (Some query) (Some msg) of
                  Some e \<Rightarrow> Inl (InvalidResponse e)
                | None \<Rightarrow> Inr (msg, rtt))))"

section \<open>Concurrent attempts\<close>

definition certProbePaddedLen :: nat where
  "certProbePaddedLen = 3200"

definition certProbeFragmentsBlockedLen :: nat where
  "certProbeFragmentsBlockedLen = 480"

text \<open>
  An attempt is its number, which offsets the identifier of the query, and whether it is the large probe. \<open>cancelled\<close> says that
  it started after another large probe had succeeded.
\<close>

record attempt =
  at_number :: nat
  at_large :: bool
  at_cancelled :: bool

definition attempt_response ::
  "dns_package \<Rightarrow> net_env \<Rightarrow> string \<Rightarrow> Msg \<Rightarrow> string \<Rightarrow> DNSCryptRelay option \<Rightarrow> attempt \<Rightarrow> exchange_error + DNSExchangeResponse" where
  "attempt_response D N proto query serverAddress relay a =
     (if at_cancelled a then Inl Canceled
      else
        (case dnsExchange D N proto (query\<lparr>msg_ID := msg_ID query + of_nat (at_number a)\<rparr>) serverAddress relay
                (if at_large a then certProbePaddedLen else certProbeFragmentsBlockedLen) of
           Inl e \<Rightarrow> Inl e
         | Inr (msg, rtt) \<Rightarrow>
             Inr \<lparr>xr_response = msg, xr_rtt = rtt, xr_priority = (if at_large a then 0 else 1),
                  xr_fragmentsBlocked = \<not> at_large a\<rparr>))"

text \<open>Three tries, each with a large probe when fragments are tried, and a small one.\<close>

definition attempts_started :: "bool \<Rightarrow> (nat \<times> bool) list" where
  "attempts_started tryFragmentsSupport =
     (if tryFragmentsSupport then [(0, True), (1, False), (2, True), (3, False), (4, True), (5, False)]
      else [(0, False), (1, False), (2, False)])"

definition better :: "DNSExchangeResponse option \<Rightarrow> DNSExchangeResponse \<Rightarrow> bool" where
  "better bestOption r =
     (case bestOption of
        None \<Rightarrow> True
      | Some b \<Rightarrow> xr_priority r < xr_priority b \<or> (xr_priority r = xr_priority b \<and> xr_rtt r < xr_rtt b))"

fun best_option ::
  "(exchange_error + DNSExchangeResponse) list \<Rightarrow> DNSExchangeResponse option \<Rightarrow> exchange_error option \<Rightarrow>
   DNSExchangeResponse option \<times> exchange_error option" where
  "best_option [] best err = (best, err)"
| "best_option (Inl e # rs) best err = best_option rs best (Some e)"
| "best_option (Inr r # rs) best err =
     (if better best r then if xr_priority r = 0 then (Some r, err) else best_option rs (Some r) err
      else best_option rs best err)"

text \<open>\<open>arrivals relay\<close> is the order in which the attempts through the relay, or without one, report.\<close>

definition exchange_round ::
  "dns_package \<Rightarrow> net_env \<Rightarrow> string \<Rightarrow> Msg \<Rightarrow> string \<Rightarrow> attempt list \<Rightarrow> DNSCryptRelay option \<Rightarrow>
   DNSExchangeResponse option \<times> exchange_error option" where
  "exchange_round D N proto query serverAddress arrivals relay =
     best_option (map (attempt_response D N proto query serverAddress relay) arrivals) None None"

definition DNSExchange ::
  "dns_package \<Rightarrow> net_env \<Rightarrow> bool \<Rightarrow> (bool \<Rightarrow> bool \<Rightarrow> attempt list) \<Rightarrow> string \<Rightarrow> Msg \<Rightarrow> string \<Rightarrow> DNSCryptRelay option \<Rightarrow> bool \<Rightarrow>
   exchange_error + Msg \<times> int \<times> bool" where
  "DNSExchange D N anonDirectCertFallback arrivals proto query serverAddress relay tryFragmentsSupport =
     (let finish = (\<lambda>err. case err of None \<Rightarrow> Inl Unreachable | Some e \<Rightarrow> Inl e);
          found = (\<lambda>b. Inr (xr_response b, xr_rtt b, xr_fragmentsBlocked b)) in
      case exchange_round D N proto query serverAddress (arrivals (relay \<noteq> None) tryFragmentsSupport) relay of
        (Some b, _) \<Rightarrow> found b
      | (None, err) \<Rightarrow>
          if relay = None \<or> \<not> anonDirectCertFallback then finish err
          else
            (case exchange_round D N proto query serverAddress (arrivals False tryFragmentsSupport) None of
               (Some b, _) \<Rightarrow> found b
             | (None, err) \<Rightarrow> finish err))"

section \<open>Certificates\<close>

record CertInfo =
  ci_ServerPk :: bytes
  ci_SharedKey :: bytes
  ci_MagicQuery :: bytes
  ci_CryptoConstruction :: CryptoConstruction
  ci_ForwardSecurity :: bool
  ci_PqPublicKey :: bytes
  ci_PqCertContext :: bytes

definition CertMagic :: bytes where
  "CertMagic = [0x44, 0x4e, 0x53, 0x43]"

definition construction_rank :: "CryptoConstruction \<Rightarrow> nat" where
  "construction_rank c = (case c of UndefinedConstruction \<Rightarrow> 0 | XSalsa20Poly1305 \<Rightarrow> 1 | XChacha20Poly1305 \<Rightarrow> 2 | XWingPQ \<Rightarrow> 3)"

definition es_construction :: "u16 \<Rightarrow> CryptoConstruction option" where
  "es_construction esVersion =
     (if esVersion = 1 then Some XSalsa20Poly1305 else if esVersion = 2 then Some XChacha20Poly1305
      else if esVersion = 3 then Some XWingPQ else None)"

text \<open>The guards on one record; a certificate that passes them all is kept with its serial number and validity.\<close>

record parsed_cert =
  pc_bin :: bytes
  pc_construction :: CryptoConstruction
  pc_serial :: u32
  pc_ttl :: u32

definition parse_cert :: "(bytes \<Rightarrow> bytes \<Rightarrow> bool) \<Rightarrow> bool \<Rightarrow> u32 \<Rightarrow> RR \<Rightarrow> parsed_cert option" where
  "parse_cert verify certIgnoreTimestamp now answerRr =
     (case rr_Data answerRr of
        RD_TXT txt \<Rightarrow>
          let binCert = PackTXTRR (bytes_of (concat txt)) in
          if length binCert < 124 then None
          else if take 4 binCert \<noteq> CertMagic then None
          else
            (case es_construction (be16 (binCert ! 4) (binCert ! 5)) of
               None \<Rightarrow> None
             | Some cryptoConstruction \<Rightarrow>
                 let isPQ = (cryptoConstruction = XWingPQ) in
                 if isPQ \<and> length binCert < 1320 then None
                 else if \<not> verify (drop 72 binCert) (sub binCert 8 72) then None
                 else
                   let ext = sub binCert 1308 1320 in
                   if isPQ \<and> (ext \<noteq> pqProfileExtension \<or> sub binCert 4 6 \<noteq> sub ext 4 6) then None
                   else
                     let serialOff = (if isPQ then 1296 else 112);
                         serial = be32 (drop serialOff binCert);
                         tsBegin = be32 (drop (serialOff + 4) binCert);
                         tsEnd = be32 (drop (serialOff + 8) binCert) in
                     if tsBegin \<ge> tsEnd then None
                     else if \<not> certIgnoreTimestamp \<and> (now > tsEnd \<or> now < tsBegin) then None
                     else Some \<lparr>pc_bin = binCert, pc_construction = cryptoConstruction, pc_serial = serial, pc_ttl = tsEnd - tsBegin\<rparr>)
      | _ \<Rightarrow> None)"

definition cert_info :: "(CryptoConstruction \<Rightarrow> bytes \<Rightarrow> bytes) \<Rightarrow> parsed_cert \<Rightarrow> CertInfo" where
  "cert_info computeSharedKey c =
     (let b = pc_bin c in
      if pc_construction c = XWingPQ then
        \<lparr>ci_ServerPk = replicate 32 0, ci_SharedKey = replicate 32 0, ci_MagicQuery = sub b 1288 1296,
         ci_CryptoConstruction = XWingPQ, ci_ForwardSecurity = (pc_ttl c \<le> 86400 * 7), ci_PqPublicKey = sub b 72 1288,
         ci_PqCertContext = pqCertContext b\<rparr>
      else
        \<lparr>ci_ServerPk = sub b 72 104, ci_SharedKey = computeSharedKey (pc_construction c) (sub b 72 104), ci_MagicQuery = sub b 104 112,
         ci_CryptoConstruction = pc_construction c, ci_ForwardSecurity = (pc_ttl c \<le> 86400 * 7), ci_PqPublicKey = [],
         ci_PqCertContext = []\<rparr>)"

definition empty_cert :: CertInfo where
  "empty_cert = \<lparr>ci_ServerPk = replicate 32 0, ci_SharedKey = replicate 32 0, ci_MagicQuery = replicate 8 0,
     ci_CryptoConstruction = UndefinedConstruction, ci_ForwardSecurity = False, ci_PqPublicKey = [], ci_PqCertContext = []\<rparr>"

definition cert_step ::
  "(CryptoConstruction \<Rightarrow> bytes \<Rightarrow> bytes) \<Rightarrow> CertInfo \<times> u32 \<Rightarrow> parsed_cert \<Rightarrow> CertInfo \<times> u32" where
  "cert_step computeSharedKey st c =
     (case st of (certInfo, highestSerial) \<Rightarrow>
        if pc_serial c < highestSerial then st
        else if pc_serial c = highestSerial \<and>
                construction_rank (pc_construction c) < construction_rank (ci_CryptoConstruction certInfo) then st
        else (cert_info computeSharedKey c, pc_serial c))"

definition choose_cert ::
  "(bytes \<Rightarrow> bytes \<Rightarrow> bool) \<Rightarrow> (CryptoConstruction \<Rightarrow> bytes \<Rightarrow> bytes) \<Rightarrow> bool \<Rightarrow> u32 \<Rightarrow> RR list \<Rightarrow> CertInfo option" where
  "choose_cert verify computeSharedKey certIgnoreTimestamp now answers =
     (let certInfo = fst (foldl (cert_step computeSharedKey) (empty_cert, 0)
        (List.map_filter (parse_cert verify certIgnoreTimestamp now) answers)) in
      if ci_CryptoConstruction certInfo = UndefinedConstruction then None else Some certInfo)"

datatype fetch_error = BadPublicKey | ExchangeFailed exchange_error | NoUsableCertificate

text \<open>\<open>newMsg\<close> is \<open>dns.NewMsg(name, TXT)\<close>; \<open>arrivals\<close> is given for each protocol.\<close>

definition FetchCurrentDNSCryptCert ::
  "dns_package \<Rightarrow> net_env \<Rightarrow> bool \<Rightarrow> bool \<Rightarrow> (string \<Rightarrow> bool \<Rightarrow> bool \<Rightarrow> attempt list) \<Rightarrow> (bytes \<Rightarrow> bytes \<Rightarrow> bytes \<Rightarrow> bool) \<Rightarrow>
   (CryptoConstruction \<Rightarrow> bytes \<Rightarrow> bytes) \<Rightarrow> u32 \<Rightarrow> (string \<Rightarrow> Msg) \<Rightarrow> string \<Rightarrow> bytes \<Rightarrow> string \<Rightarrow> string \<Rightarrow> DNSCryptRelay option \<Rightarrow> bool \<Rightarrow>
   fetch_error + CertInfo \<times> int \<times> bool" where
  "FetchCurrentDNSCryptCert D N anonDirectCertFallback certIgnoreTimestamp arrivals Verify computeSharedKey now newMsg
     proto pk serverAddress providerName relay fragmentsBlocked0 =
     (if length pk \<noteq> 32 then Inl BadPublicKey
      else
        let providerName = (if has_suffix providerName ''.'' then providerName else providerName @ ''.'');
            query = newMsg providerName;
            relay = (if \<not> has_prefix providerName ''2.dnscrypt-cert.'' \<and> \<not> (relay \<noteq> None \<and> \<not> anonDirectCertFallback)
                     then None else relay) in
        (case DNSExchange D N anonDirectCertFallback (arrivals proto) proto query serverAddress relay (\<not> fragmentsBlocked0) of
           Inl e \<Rightarrow> Inl (ExchangeFailed e)
         | Inr (in1, rtt1, fragmentsBlocked) \<Rightarrow>
             let (msg, rtt) =
               (if msg_Truncated in1 \<and> proto \<noteq> ''tcp'' then
                  (case DNSExchange D N anonDirectCertFallback (arrivals ''tcp'') ''tcp'' query serverAddress relay False of
                     Inr (inTCP, rttTCP, _) \<Rightarrow> (inTCP, rttTCP)
                   | Inl _ \<Rightarrow> (in1, rtt1))
                else (in1, rtt1)) in
             (case choose_cert (Verify pk) computeSharedKey certIgnoreTimestamp now (msg_Answer msg) of
                None \<Rightarrow> Inl NoUsableCertificate
              | Some certInfo \<Rightarrow> Inr (certInfo, rtt div 1000000, fragmentsBlocked))))"

section \<open>The best option wins\<close>

lemma best_option_large:
  assumes "\<And>b. best = Some b \<Longrightarrow> xr_priority b \<noteq> 0" "\<forall>x \<in> set rs. \<forall>r. x = Inr r \<longrightarrow> xr_priority r \<in> {0, 1}"
    and "find (\<lambda>x. case x of Inr r \<Rightarrow> xr_priority r = 0 | _ \<Rightarrow> False) rs = Some (Inr r)"
  shows "fst (best_option rs best err) = Some r"
  using assms
proof (induction rs best err rule: best_option.induct)
  case (3 r' rs best err)
  show ?case
  proof (cases "xr_priority r' = 0")
    case True
    then have "better best r'" using "3.prems"(1) by (auto simp: better_def split: option.splits)
    then show ?thesis using True "3.prems"(3) by simp
  next
    case False
    then show ?thesis using 3 by auto
  qed
qed (auto split: if_splits)

lemma best_option_small:
  assumes "\<forall>x \<in> set rs. \<forall>r. x = Inr r \<longrightarrow> xr_priority r = 1" "\<And>b. best = Some b \<Longrightarrow> xr_priority b = 1"
  shows "case fst (best_option rs best err) of
      None \<Rightarrow> best = None \<and> (\<forall>r. Inr r \<notin> set rs)
    | Some b \<Rightarrow> (Inr b \<in> set rs \<or> best = Some b) \<and> (\<forall>r. Inr r \<in> set rs \<or> best = Some r \<longrightarrow> xr_rtt b \<le> xr_rtt r)"
  using assms
proof (induction rs best err rule: best_option.induct)
  case (3 r rs best err)
  have r: "xr_priority r = 1" using "3.prems"(1) by simp
  show ?case
  proof (cases "better best r")
    case True
    have "case fst (best_option rs (Some r) err) of
        None \<Rightarrow> Some r = None \<and> (\<forall>r. Inr r \<notin> set rs)
      | Some b \<Rightarrow> (Inr b \<in> set rs \<or> Some r = Some b) \<and> (\<forall>x. Inr x \<in> set rs \<or> Some r = Some x \<longrightarrow> xr_rtt b \<le> xr_rtt x)"
      using 3 True r by simp
    then show ?thesis using True r "3.prems"(2) by (force simp: better_def split: option.splits)
  next
    case False
    then obtain b0 where b0: "best = Some b0" "xr_rtt b0 \<le> xr_rtt r"
      using "3.prems"(2) r by (auto simp: better_def split: option.splits)
    show ?thesis using 3 False b0 by (force split: option.splits)
  qed
qed (auto split: option.splits)

lemma attempt_priority: "attempt_response D N proto query srv relay a = Inr r \<Longrightarrow> xr_priority r = (if at_large a then 0 else 1)"
  by (auto simp: attempt_response_def split: if_splits sum.splits)

lemma probe_padding_keeps [simp]:
  "msg_ID (probe_padding n q) = msg_ID q" "msg_Question (probe_padding n q) = msg_Question q"
  by (simp_all add: probe_padding_def Let_def)

lemma dnsExchange_answers:
  assumes "dnsExchange D N proto query srv relay len = Inr (msg, rtt)"
  shows "answers_query D query msg"
proof -
  have "answers_query D (probe_padding len query) msg \<longleftrightarrow> answers_query D query msg"
    by (simp add: answers_query_def probe_padding_def Let_def)
  then show ?thesis using assms by (auto simp: dnsExchange_def validate_iff Let_def split: sum.splits option.splits if_splits)
qed

lemma attempt_answers:
  "attempt_response D N proto query srv relay a = Inr r \<Longrightarrow>
   answers_query D (query\<lparr>msg_ID := msg_ID query + of_nat (at_number a)\<rparr>) (xr_response r)"
  by (auto simp: attempt_response_def dest: dnsExchange_answers split: if_splits sum.splits)

lemma find_Some_in: "find P xs = Some x \<Longrightarrow> P x \<and> x \<in> set xs"
  by (induction xs) (auto split: if_splits)

text \<open>A server is found to block fragments only when no large probe came back. Of the attempts that report, the first successful large
  probe is the result; without one it is the fastest small probe, and the exchange fails only when every attempt does.
  The message that is returned answers the query of its attempt.
\<close>

theorem certificate_probe_result:
  fixes D N proto query srv relay and arrivals :: "attempt list"
  defines "ok \<equiv> \<lambda>a r. attempt_response D N proto query srv relay a = Inr r"
  shows "case fst (exchange_round D N proto query srv arrivals relay) of
      None \<Rightarrow> \<forall>a\<in>set arrivals. \<forall>r. \<not> ok a r
    | Some b \<Rightarrow> (\<exists>a\<in>set arrivals. ok a b \<and> xr_fragmentsBlocked b = (\<not> at_large a) \<and>
          answers_query D (query\<lparr>msg_ID := msg_ID query + of_nat (at_number a)\<rparr>) (xr_response b)) \<and>
        (xr_fragmentsBlocked b \<longrightarrow> (\<forall>a\<in>set arrivals. \<forall>r. ok a r \<longrightarrow> \<not> at_large a \<and> xr_rtt b \<le> xr_rtt r))"
proof -
  let ?rs = "map (attempt_response D N proto query srv relay) arrivals"
  have blocked: "xr_fragmentsBlocked r = (\<not> at_large a)" if "ok a r" for a r
    using that by (auto simp: ok_def attempt_response_def split: if_splits sum.splits)
  have prio: "xr_priority r = (if at_large a then 0 else 1)" if "ok a r" for a r
    using that attempt_priority by (auto simp: ok_def)
  have answers: "answers_query D (query\<lparr>msg_ID := msg_ID query + of_nat (at_number a)\<rparr>) (xr_response r)" if "ok a r" for a r
    using that attempt_answers by (auto simp: ok_def)
  have in_rs: "Inr r \<in> set ?rs \<longleftrightarrow> (\<exists>a\<in>set arrivals. ok a r)" for r by (auto simp: ok_def image_iff) metis
  let ?large = "\<lambda>x. case x of Inr r \<Rightarrow> xr_priority r = 0 | Inl _ \<Rightarrow> False"
  show ?thesis
  proof (cases "find ?large ?rs")
    case (Some x)
    then obtain r where r: "x = Inr r" "xr_priority r = 0" using find_Some_in [OF Some] by (cases x) auto
    have best: "fst (exchange_round D N proto query srv arrivals relay) = Some r"
      unfolding exchange_round_def
      by (rule best_option_large) (use Some r prio in_rs in \<open>fastforce split: if_splits\<close>)+
    have "Inr r \<in> set ?rs" using find_Some_in [OF Some] r by simp
    then obtain a where "a \<in> set arrivals" "ok a r" using in_rs by blast
    then show ?thesis using best blocked answers prio r(2) by (auto split: if_splits)
  next
    case None
    have small: "\<not> at_large a" if "a \<in> set arrivals" "ok a r" for a r
    proof
      assume "at_large a"
      then have "?large (Inr r)" using prio [OF that(2)] by simp
      moreover have "Inr r \<in> set ?rs" unfolding in_rs using that by (intro bexI)
      ultimately show False using None unfolding find_None_iff by blast
    qed
    have "xr_priority r = 1" if r: "Inr r \<in> set ?rs" for r
    proof -
      obtain a where "a \<in> set arrivals" "ok a r" using r in_rs by blast
      then show ?thesis using small prio by simp
    qed
    then have "\<forall>x\<in>set ?rs. \<forall>r. x = Inr r \<longrightarrow> xr_priority r = 1" by blast
    from best_option_small [OF this, of None None] show ?thesis
      unfolding exchange_round_def using in_rs small blocked answers
      by (cases "fst (best_option ?rs None None)") (simp_all, blast+)
  qed
qed

section \<open>The best certificate wins\<close>

definition cert_le :: "parsed_cert \<Rightarrow> parsed_cert \<Rightarrow> bool" where
  "cert_le c d \<longleftrightarrow> pc_serial c < pc_serial d \<or>
     (pc_serial c = pc_serial d \<and> construction_rank (pc_construction c) \<le> construction_rank (pc_construction d))"

lemma cert_info_construction [simp]: "ci_CryptoConstruction (cert_info k c) = pc_construction c"
  by (simp add: cert_info_def Let_def)

lemma cert_le_trans: "cert_le a b \<Longrightarrow> cert_le b c \<Longrightarrow> cert_le a c"
  by (auto simp: cert_le_def)

lemma cert_le_total: "cert_le a b \<or> cert_le b a"
  by (auto simp: cert_le_def)

lemma cert_fold:
  assumes "cs \<noteq> []"
  shows "\<exists>c\<in>set cs. foldl (cert_step k) (empty_cert, 0) cs = (cert_info k c, pc_serial c) \<and> (\<forall>d\<in>set cs. cert_le d c)"
  using assms
proof (induction cs rule: rev_induct)
  case (snoc x cs)
  show ?case
  proof (cases "cs = []")
    case True
    then show ?thesis
      by (simp add: cert_step_def empty_cert_def construction_rank_def cert_le_def word_not_simps)
  next
    case False
    then obtain c where c: "c \<in> set cs" "foldl (cert_step k) (empty_cert, 0) cs = (cert_info k c, pc_serial c)"
      "\<forall>d\<in>set cs. cert_le d c" using snoc.IH by blast
    show ?thesis
    proof (cases "cert_le c x")
      case True
      then have "cert_step k (cert_info k c, pc_serial c) x = (cert_info k x, pc_serial x)"
        by (auto simp: cert_step_def cert_le_def)
      then show ?thesis using c True cert_le_trans by (intro bexI [of _ x]) (auto simp: cert_le_def)
    next
      case False
      then have "cert_step k (cert_info k c, pc_serial c) x = (cert_info k c, pc_serial c)"
        by (auto simp: cert_step_def cert_le_def)
      then show ?thesis using c False cert_le_total by (intro bexI [of _ c]) auto
    qed
  qed
qed simp

lemma parse_cert_construction: "parse_cert v i n rr = Some c \<Longrightarrow> pc_construction c \<noteq> UndefinedConstruction"
  by (auto simp: parse_cert_def es_construction_def Let_def split: rr_data.splits option.splits if_splits)

lemma parse_cert_valid:
  assumes "parse_cert verify ignore now rr = Some c"
  defines "off \<equiv> (if pc_construction c = XWingPQ then 1296 else 112)"
  shows "verify (drop 72 (pc_bin c)) (sub (pc_bin c) 8 72) \<and>
    (ignore \<or> be32 (drop (off + 4) (pc_bin c)) \<le> now \<and> now \<le> be32 (drop (off + 8) (pc_bin c)))"
  using assms by (auto simp: parse_cert_def Let_def off_def not_less split: rr_data.splits option.splits if_splits)


definition test_cert :: "byte \<Rightarrow> byte \<Rightarrow> RR" where
  "test_cert es serial = \<lparr>rr_Name = [], rr_Class = 1, rr_TTL = 0, rr_Data = RD_TXT [map (\<lambda>b. char_of (unat b))
     (CertMagic @ [0, es, 0, 0] @ replicate 64 0 @ replicate 32 5 @ replicate 8 9 @ [0, 0, 0, serial, 0, 0, 0, 10, 0, 0, 0, 90])]\<rparr>"


definition probe_package :: dns_package where
  "probe_package = sample_package\<lparr>Unpack := (\<lambda>_. Some (sample_query\<lparr>msg_Response := True\<rparr>))\<rparr>"

definition probe_net :: net_env where
  "probe_net = \<lparr>nt_resolve = (\<lambda>_. Some ([10, 0, 0, 1], 443)), nt_udp = (\<lambda>_ _. Some ([], 5)), nt_tcp = (\<lambda>_ _ _. None), nt_proxyDialer = False\<rparr>"

theorem certificate_probe_result_witness:
  "\<exists>b. fst (exchange_round probe_package probe_net ''udp'' sample_query ''10.0.0.1:443'' [\<lparr>at_number = 0, at_large = True, at_cancelled = False\<rparr>] None) = Some b \<and>
     \<not> xr_fragmentsBlocked b \<and> answers_query probe_package sample_query (xr_response b)"
proof -
  let ?a = "\<lparr>at_number = 0, at_large = True, at_cancelled = False\<rparr>"
  have "\<exists>r. attempt_response probe_package probe_net ''udp'' sample_query ''10.0.0.1:443'' None ?a = Inr r"
    by (simp add: attempt_response_def dnsExchange_def exchange_packet_def probe_package_def probe_net_def sample_package_def
        validateResponseForQuery_def validateResponseQuestion_def sample_query_def empty_Msg_def Let_def)
  then obtain r where r: "attempt_response probe_package probe_net ''udp'' sample_query ''10.0.0.1:443'' None ?a = Inr r"
    by blast
  show ?thesis
    using certificate_probe_result [where D = probe_package and N = probe_net and proto = "''udp''" and query = sample_query and
        srv = "''10.0.0.1:443''" and arrivals = "[?a]" and relay = None] r
    by (auto split: option.splits)
qed

text \<open>
  With both a relay and a proxy dialer, the TCP exchange prepares the query for the relay but dials the server itself.
\<close>

lemma proxy_dialer_skips_relay:
  assumes "nt_proxyDialer N" "Pack D query = Some bin" "nt_resolve N srv = Some addr"
    and "PrefixWithSize (prepareForRelay (fst addr) (snd addr) bin) = Inr frame" "nt_tcp N True addr frame = None"
  shows "exchange_packet D N ''tcp'' query srv (Some relay) = Inl NetworkFailed"
  using assms by (simp add: exchange_packet_def Let_def)

end
