(* ===== verification/Dc_Routes.thy ===== *)
theory Dc_Routes
  imports Dc_Certs
begin

text \<open>
  Relays and the properties of a server in \<open>pkg/dnscrypt/serversInfo.go\<close>: choosing a relay for a server, and fetching what is needed to
  use a server of each protocol. Stamps come from a third-party parser, an argument; so are name resolution, the URL
  of a relay, HTTP exchanges and the draws.
\<close>

section \<open>Stamps and relays\<close>

datatype StampProto = ProtoPlain | ProtoDNSCrypt | ProtoDoH | ProtoTLS | ProtoDoQ | ProtoODoHTarget | ProtoDNSCryptRelay | ProtoODoHRelay

record ServerStamp =
  st_ServerAddrStr :: string
  st_ServerPk :: bytes
  st_Hashes :: "bytes list"
  st_ProviderName :: string
  st_Path :: string
  st_Proto :: StampProto

record RegisteredServer =
  rs_name :: string
  rs_stamp :: ServerStamp

record Relay =
  rl_Proto :: StampProto
  rl_Dnscrypt :: "DNSCryptRelay option"
  rl_ODoH :: "string option"
  rl_Name :: string

record route_env =
  re_routes :: "(string \<rightharpoonup> string list) option"
  re_servers :: "RegisteredServer list"
  re_relays :: "RegisteredServer list"
  re_parse :: "string \<Rightarrow> ServerStamp option"
  re_string :: "ServerStamp \<Rightarrow> string"
  re_resolve :: "string \<Rightarrow> net_addr option"
  re_relayURL :: "ServerStamp \<Rightarrow> (ServerStamp \<Rightarrow> string) option"
  re_draw :: "nat \<Rightarrow> nat"

definition relayProtoForServerProto :: "StampProto \<Rightarrow> StampProto option" where
  "relayProtoForServerProto proto =
     (case proto of ProtoDNSCrypt \<Rightarrow> Some ProtoDNSCryptRelay | ProtoODoHTarget \<Rightarrow> Some ProtoODoHRelay | _ \<Rightarrow> None)"

section \<open>The farthest relay\<close>

definition LeadingZeros8 :: "byte \<Rightarrow> nat" where
  "LeadingZeros8 x = length (takeWhile (\<lambda>i. \<not> bit x i) [7, 6, 5, 4, 3, 2, 1, 0])"

fun same_prefix_bits :: "bytes \<Rightarrow> bytes \<Rightarrow> nat" where
  "same_prefix_bits (a # as) (b # bs) =
     (let x = a XOR b in LeadingZeros8 x + (if x \<noteq> 0 then 0 else same_prefix_bits as bs))"
| "same_prefix_bits _ _ = 0"

text \<open>The bits two addresses share, and whether they belong to the same family.\<close>

definition relay_distance :: "net_IP \<Rightarrow> string \<Rightarrow> nat option" where
  "relay_distance serverAddr addrStr =
     (case ParseIP (fst (ExtractHostAndPort addrStr 443)) of
        None \<Rightarrow> None
      | Some relayAddr \<Rightarrow>
          let relayIsIPv6 = (To4 relayAddr = None) in
          if relayIsIPv6 \<noteq> (To4 serverAddr = None) then None
          else
            let firstByte = (if relayIsIPv6 then 0 else 12) in
            Some (same_prefix_bits (drop firstByte serverAddr) (drop firstByte relayAddr)))"

fun best_relays :: "net_IP \<Rightarrow> nat \<Rightarrow> ServerStamp list \<Rightarrow> nat \<times> nat list \<Rightarrow> nat \<times> nat list" where
  "best_relays serverAddr i [] acc = acc"
| "best_relays serverAddr i (st # sts) (best, idxs) =
     (if st_Proto st \<noteq> ProtoDNSCryptRelay then best_relays serverAddr (i + 1) sts (best, idxs)
      else
        (case relay_distance serverAddr (st_ServerAddrStr st) of
           None \<Rightarrow> best_relays serverAddr (i + 1) sts (best, idxs)
         | Some d \<Rightarrow>
             best_relays serverAddr (i + 1) sts
               (if d < best then (d, [i]) else if d = best then (best, idxs @ [i]) else (best, idxs))))"

fun indices_of_proto :: "StampProto \<Rightarrow> nat \<Rightarrow> ServerStamp list \<Rightarrow> nat list" where
  "indices_of_proto p i [] = []"
| "indices_of_proto p i (st # sts) = (if st_Proto st = p then [i] else []) @ indices_of_proto p (i + 1) sts"

text \<open>The index of the relay, if any.\<close>

definition findFarthestRoute :: "route_env \<Rightarrow> string \<Rightarrow> ServerStamp list \<Rightarrow> nat option" where
  "findFarthestRoute E name relayStamps =
     (case find (\<lambda>r. rs_name r = name) (re_servers E) of
        None \<Rightarrow> None
      | Some server \<Rightarrow>
          let pick = (\<lambda>xs. if length xs = 0 then None else Some (xs ! re_draw E (length xs))) in
          if st_Proto (rs_stamp server) = ProtoODoHTarget then pick (indices_of_proto ProtoODoHRelay 0 relayStamps)
          else if st_Proto (rs_stamp server) \<noteq> ProtoDNSCrypt then None
          else
            (case ParseIP (fst (ExtractHostAndPort (st_ServerAddrStr (rs_stamp server)) 443)) of
               None \<Rightarrow> None
             | Some serverAddr \<Rightarrow>
                 if length (re_relays E) = 0 then None
                 else pick (snd (best_relays serverAddr 0 relayStamps (128, [])))))"

section \<open>Routes\<close>

datatype route_error = NonexistentRelaySet | NoValidRelay | RelayUnresolved | RelayURLInvalid | RelayTargetNotFound | InvalidRelaySet

text \<open>The stamps of the relays a server may use, each with its name, and whether they came from a wildcard.\<close>

fun collect_relays :: "route_env \<Rightarrow> StampProto \<Rightarrow> string list \<Rightarrow> (ServerStamp \<times> string) list \<Rightarrow> (ServerStamp \<times> string) list \<times> bool" where
  "collect_relays E relayProto [] acc = (acc, False)"
| "collect_relays E relayProto (rname # rest) acc =
     (case re_parse E rname of
        Some relayStamp \<Rightarrow>
          collect_relays E relayProto rest (if st_Proto relayStamp = relayProto then acc @ [(relayStamp, rname)] else acc)
      | None \<Rightarrow>
          if rname = ''*'' then
            (acc @ map (\<lambda>r. (rs_stamp r, rs_name r)) (filter (\<lambda>r. st_Proto (rs_stamp r) = relayProto) (re_relays E)), True)
          else
            collect_relays E relayProto rest
              (case find (\<lambda>r. rs_name r = rname \<and> st_Proto (rs_stamp r) = relayProto) (re_relays E) of
                 None \<Rightarrow> acc
               | Some r \<Rightarrow> acc @ [(rs_stamp r, rname)]))"

definition make_relay :: "route_env \<Rightarrow> string \<Rightarrow> string \<Rightarrow> ServerStamp \<Rightarrow> route_error + Relay" where
  "make_relay E name rname st =
     (if st_Proto st = ProtoDNSCrypt \<or> st_Proto st = ProtoDNSCryptRelay then
        (case re_resolve E (st_ServerAddrStr st) of
           None \<Rightarrow> Inl RelayUnresolved
         | Some addr \<Rightarrow>
             Inr \<lparr>rl_Proto = ProtoDNSCryptRelay, rl_Dnscrypt = Some \<lparr>RelayUDPAddr = addr, RelayTCPAddr = addr\<rparr>, rl_ODoH = None,
                  rl_Name = rname\<rparr>)
      else if st_Proto st = ProtoODoHRelay then
        (case re_relayURL E st of
           None \<Rightarrow> Inl RelayURLInvalid
         | Some url \<Rightarrow>
             (case find (\<lambda>r. rs_name r = name \<and> st_Proto (rs_stamp r) = ProtoODoHTarget) (re_servers E) of
                None \<Rightarrow> Inl RelayTargetNotFound
              | Some r \<Rightarrow>
                  Inr \<lparr>rl_Proto = ProtoODoHRelay, rl_Dnscrypt = None, rl_ODoH = Some (url (rs_stamp r)), rl_Name = rname\<rparr>))
      else Inl InvalidRelaySet)"

definition route :: "route_env \<Rightarrow> string \<Rightarrow> StampProto \<Rightarrow> route_error + Relay option" where
  "route E name sproto =
     (case re_routes E of
        None \<Rightarrow> Inr None
      | Some routes \<Rightarrow>
          let (wildcard, found) = (case routes name of Some ns \<Rightarrow> (False, Some ns) | None \<Rightarrow> (True, routes ''*'')) in
          (case found of
             None \<Rightarrow> Inr None
           | Some relayNames \<Rightarrow>
               if length relayNames = 0 then Inr None
               else
                 (case relayProtoForServerProto sproto of
                    None \<Rightarrow> Inr None
                  | Some relayProto \<Rightarrow>
                      let (stamps, wild) = collect_relays E relayProto relayNames [] in
                      if length stamps = 0 then Inl NonexistentRelaySet
                      else
                        (case (if \<not> (wildcard \<or> wild) \<or> length stamps = 1 then Some (re_draw E (length stamps))
                               else findFarthestRoute E name (map fst stamps)) of
                           None \<Rightarrow> Inl NoValidRelay
                         | Some i \<Rightarrow>
                             let st = fst (stamps ! i);
                                 rname = snd (the (find (\<lambda>(s, n). re_string E s = re_string E st) (rev stamps))) in
                             (case make_relay E name rname st of Inl e \<Rightarrow> Inl e | Inr r \<Rightarrow> Inr (Some r))))))"

section \<open>Fetching a DNSCrypt server\<close>

record 'c FullServer =
  sf_crypto :: ServerInfo
  sf_Proto :: StampProto
  sf_Name :: string
  sf_Addr :: "net_addr option"
  sf_Relay :: "Relay option"
  sf_URL :: "string \<times> string"
  sf_HostName :: string
  sf_initialRtt :: int
  sf_useGet :: bool
  sf_odohTargetConfigs :: "'c list"

datatype server_error =
    FatalBadKey | RouteFailed route_error | CertFailed fetch_error | NotAnonymous | AddressUnresolved | LyingResolver | DummyResolver
  | HttpFailed | HandshakeFailed | BadMessage | CertHashMissing | UnexpectedResponse | NoOdohConfig | NoOdohRelay | ConfigChanged
  | NoWorkingConfig | UnsupportedProtocol

text \<open>
  \<open>de_fetchCert\<close> is \<open>FetchCurrentDNSCryptCert\<close> for the server's key, address and provider name, a relay and whether fragments are
  known to be blocked; \<open>de_plainTest\<close> asks the server in the clear for a name that does not exist.
\<close>

record dnscrypt_env =
  de_route :: route_env
  de_hexKey :: "bytes \<Rightarrow> bytes option"
  de_blockingFragments :: "string list"
  de_skipAnonIncompatible :: bool
  de_fetchCert :: "bytes \<Rightarrow> string \<Rightarrow> string \<Rightarrow> DNSCryptRelay option \<Rightarrow> bool \<Rightarrow> fetch_error + CertInfo \<times> int \<times> bool"
  de_plainTest :: "string \<Rightarrow> DNSCryptRelay option \<Rightarrow> Msg option"

definition plain_test_error :: "Msg \<Rightarrow> server_error option" where
  "plain_test_error msg =
     (if list_ex (\<lambda>rr. RRToType rr = TypeA \<or> RRToType rr = TypeAAAA) (msg_Answer msg) then Some LyingResolver
      else if list_ex (\<lambda>rr. RRToType rr = TypeTXT) (msg_Extra msg) then Some DummyResolver else None)"

definition server_key :: "dnscrypt_env \<Rightarrow> bytes \<Rightarrow> bytes option" where
  "server_key E pk =
     (if length pk \<noteq> 32 then (case de_hexKey E pk of Some k \<Rightarrow> if length k \<noteq> 32 then None else Some k | None \<Rightarrow> None) else Some pk)"

definition fetchDNSCryptServerInfo :: "dnscrypt_env \<Rightarrow> string \<Rightarrow> ServerStamp \<Rightarrow> server_error + 'c FullServer" where
  "fetchDNSCryptServerInfo E name stamp =
     (case server_key E (st_ServerPk stamp) of
        None \<Rightarrow> Inl FatalBadKey
      | Some pk \<Rightarrow>
          let knownBlocked = (name \<in> set (de_blockingFragments E)) in
          (case route (de_route E) name (st_Proto stamp) of
             Inl e \<Rightarrow> Inl (RouteFailed e)
           | Inr relay \<Rightarrow>
               let dnscryptRelay = (case relay of None \<Rightarrow> None | Some r \<Rightarrow> rl_Dnscrypt r) in
               (case de_fetchCert E pk (st_ServerAddrStr stamp) (st_ProviderName stamp) dnscryptRelay knownBlocked of
                  Inl e \<Rightarrow>
                    Inl (if knownBlocked \<and> dnscryptRelay \<noteq> None \<and> de_skipAnonIncompatible E then NotAnonymous else CertFailed e)
                | Inr (certInfo, rtt, fragmentsBlocked) \<Rightarrow>
                    let blocked = (knownBlocked \<or> fragmentsBlocked);
                        incompatible = (blocked \<and> dnscryptRelay \<noteq> None) in
                    if incompatible \<and> de_skipAnonIncompatible E then Inl NotAnonymous
                    else
                      let relay = (if incompatible then None else relay) in
                      (case re_resolve (de_route E) (st_ServerAddrStr stamp) of
                         None \<Rightarrow> Inl AddressUnresolved
                       | Some addr \<Rightarrow>
                           (case (if ci_CryptoConstruction certInfo = XSalsa20Poly1305
                                  then Option.bind (de_plainTest E (st_ServerAddrStr stamp) dnscryptRelay) plain_test_error else None) of
                              Some e \<Rightarrow> Inl e
                            | None \<Rightarrow>
                                Inr \<lparr>sf_crypto = \<lparr>si_Name = name, si_CryptoConstruction = ci_CryptoConstruction certInfo,
                                       si_ServerPk = ci_ServerPk certInfo, si_SharedKey = ci_SharedKey certInfo,
                                       si_MagicQuery = ci_MagicQuery certInfo, si_PqPublicKey = ci_PqPublicKey certInfo,
                                       si_PqCertContext = ci_PqCertContext certInfo, si_fragmentsBlocked = blocked,
                                       si_hasRelay = (relay \<noteq> None),
                                       si_pqResumption = newPqResumptionState (ci_CryptoConstruction certInfo)\<rparr>,
                                     sf_Proto = ProtoDNSCrypt, sf_Name = name, sf_Addr = Some addr, sf_Relay = relay, sf_URL = ([], []),
                                     sf_HostName = [], sf_initialRtt = rtt, sf_useGet = False, sf_odohTargetConfigs = []\<rparr>)))))"

section \<open>Fetching a DoH server\<close>

text \<open>What a completed HTTPS exchange tells about its connection: the hashes of the certificates of the peer.\<close>

record tls_state =
  ts_HandshakeComplete :: bool
  ts_certHashes :: "bytes list"

type_synonym doh_exchange = "bool \<Rightarrow> bytes \<Rightarrow> (bytes \<times> tls_state option \<times> int) option"

text \<open>\<open>dohTestPacket\<close> and \<open>dohNXTestPacket\<close> with the random bytes and letters they draw; \<open>newMsg name\<close> asks for its NS records.\<close>

definition dohTestPacket :: "(string \<Rightarrow> Msg) \<Rightarrow> string \<Rightarrow> u16 \<Rightarrow> Msg" where
  "dohTestPacket newMsg hexPadding msgID =
     (newMsg ''.'')\<lparr>msg_ID := msgID, msg_RecursionDesired := True, msg_UDPSize := of_nat MaxDNSPacketSize, msg_Security := False,
       msg_Pseudo := msg_Pseudo (newMsg ''.'') @ [PADDING hexPadding]\<rparr>"

definition dohNXTestPacket :: "(string \<Rightarrow> Msg) \<Rightarrow> string \<Rightarrow> string \<Rightarrow> u16 \<Rightarrow> Msg" where
  "dohNXTestPacket newMsg letters hexPadding msgID =
     (let msg = newMsg (letters @ ''.test.dnscrypt.'') in
      msg\<lparr>msg_ID := msgID, msg_RecursionDesired := True, msg_UDPSize := of_nat MaxDNSPacketSize, msg_Security := False,
        msg_Pseudo := msg_Pseudo msg @ [PADDING hexPadding]\<rparr>)"

definition pinned :: "bytes list \<Rightarrow> tls_state \<Rightarrow> bool" where
  "pinned hashes tls = list_ex (\<lambda>h. list_ex (\<lambda>hash. length hash = 32 \<and> h = hash) hashes) (ts_certHashes tls)"

definition expected_bytes :: "bytes \<Rightarrow> bool" where
  "expected_bytes r =
     (\<not> (length r < MinDNSPacketSize \<or> length r > MaxDNSPacketSize \<or> r ! 0 \<noteq> 0xca \<or> r ! 1 \<noteq> 0xfe \<or> r ! 4 \<noteq> 0x00 \<or> r ! 5 \<noteq> 0x01))"

text \<open>The checks on the answer for the name that does not exist.\<close>

definition check_probe :: "dns_package \<Rightarrow> Msg \<Rightarrow> bytes \<Rightarrow> server_error option" where
  "check_probe D queryMsg serverResponse =
     (case Unpack D serverResponse of
        None \<Rightarrow> Some BadMessage
      | Some msg \<Rightarrow>
          if validateResponseForQuery D (Some queryMsg) (Some msg) \<noteq> None then Some BadMessage
          else if msg_Rcode msg \<noteq> RcodeNameError then Some LyingResolver else None)"

definition empty_crypto :: "string \<Rightarrow> ServerInfo" where
  "empty_crypto name = \<lparr>si_Name = name, si_CryptoConstruction = UndefinedConstruction, si_ServerPk = replicate 32 0, si_SharedKey = replicate 32 0,
     si_MagicQuery = replicate 8 0, si_PqPublicKey = [], si_PqCertContext = [], si_fragmentsBlocked = False, si_hasRelay = False,
     si_pqResumption = None\<rparr>"

definition fetchDoHServerInfo ::
  "dns_package \<Rightarrow> doh_exchange \<Rightarrow> Msg \<Rightarrow> Msg \<Rightarrow> string \<Rightarrow> ServerStamp \<Rightarrow> server_error + 'c FullServer" where
  "fetchDoHServerInfo D doh testMsg queryMsg name stamp =
     (case (Pack D testMsg, Pack D queryMsg) of
        (Some body, Some nxBody) \<Rightarrow>
          let useGet = (doh False body = None) in
          if useGet \<and> doh True body = None then Inl HttpFailed
          else
            (case doh useGet nxBody of
               None \<Rightarrow> Inl HttpFailed
             | Some (serverResponse, tls, rtt) \<Rightarrow>
                 (case tls of
                    None \<Rightarrow> Inl HandshakeFailed
                  | Some t \<Rightarrow>
                      if \<not> ts_HandshakeComplete t then Inl HandshakeFailed
                      else
                        (case check_probe D queryMsg serverResponse of
                           Some e \<Rightarrow> Inl e
                         | None \<Rightarrow>
                             if \<not> pinned (st_Hashes stamp) t \<and> length (st_Hashes stamp) > 0 then Inl CertHashMissing
                             else if \<not> expected_bytes serverResponse then Inl UnexpectedResponse
                             else
                               Inr \<lparr>sf_crypto = empty_crypto name, sf_Proto = ProtoDoH, sf_Name = name, sf_Addr = None, sf_Relay = None,
                                    sf_URL = (st_ProviderName stamp, st_Path stamp), sf_HostName = st_ProviderName stamp,
                                    sf_initialRtt = rtt div 1000000, sf_useGet = useGet, sf_odohTargetConfigs = []\<rparr>)))
      | _ \<Rightarrow> Inl BadMessage)"

section \<open>Fetching an ODoH target\<close>

text \<open>
  The target's configurations are of type \<open>'c\<close>; \<open>oe_encrypt\<close> and \<open>oe_decrypt\<close> seal a query and open its answer, \<open>oe_query\<close> sends a
  sealed query through the relay and gives the body, the status code, the connection and the round-trip time.
\<close>

record 'c odoh_env =
  oe_configs :: "'c list option"
  oe_encrypt :: "'c \<Rightarrow> bytes \<Rightarrow> bytes option"
  oe_decrypt :: "'c \<Rightarrow> bytes \<Rightarrow> bytes option"
  oe_query :: "bool \<Rightarrow> string \<Rightarrow> bytes \<Rightarrow> (bytes \<times> int \<times> tls_state option \<times> int) option"

text \<open>One configuration: \<open>None\<close> when the next one is tried.\<close>

definition probe_config ::
  "dns_package \<Rightarrow> 'c odoh_env \<Rightarrow> bytes \<Rightarrow> Msg \<Rightarrow> bytes \<Rightarrow> string \<Rightarrow> ServerStamp \<Rightarrow> Relay \<Rightarrow> string \<Rightarrow> 'c \<Rightarrow>
   (server_error + 'c FullServer) option" where
  "probe_config D V testBody queryMsg nxBody name stamp relay url c =
     (case oe_encrypt V c testBody of
        None \<Rightarrow> None
      | Some odohTest \<Rightarrow>
          let useGet = (oe_query V False url odohTest = None) in
          if useGet \<and> oe_query V True url odohTest = None then None
          else
            (case oe_encrypt V c nxBody of
               None \<Rightarrow> None
             | Some odohQuery \<Rightarrow>
                 (case oe_query V useGet url odohQuery of
                    None \<Rightarrow> None
                  | Some (responseBody, responseCode, tls, rtt) \<Rightarrow>
                      if responseCode = 401 then Some (Inl ConfigChanged)
                      else
                        (case oe_decrypt V c responseBody of
                           None \<Rightarrow> None
                         | Some serverResponse \<Rightarrow>
                             (case check_probe D queryMsg serverResponse of
                                Some e \<Rightarrow> Some (Inl e)
                              | None \<Rightarrow>
                                  if (case tls of None \<Rightarrow> False | Some t \<Rightarrow> \<not> pinned (st_Hashes stamp) t \<and> length (st_Hashes stamp) > 0)
                                  then Some (Inl CertHashMissing)
                                  else if \<not> expected_bytes serverResponse then Some (Inl UnexpectedResponse)
                                  else
                                    Some (Inr \<lparr>sf_crypto = empty_crypto name, sf_Proto = ProtoODoHTarget, sf_Name = name, sf_Addr = None,
                                      sf_Relay = Some relay, sf_URL = (st_ProviderName stamp, st_Path stamp),
                                      sf_HostName = st_ProviderName stamp, sf_initialRtt = rtt div 1000000, sf_useGet = useGet,
                                      sf_odohTargetConfigs = [c]\<rparr>))))))"

text \<open>Every path after a configuration has decrypted returns, so the server has one working configuration.\<close>

fun probe_configs ::
  "('c \<Rightarrow> (server_error + 'c FullServer) option) \<Rightarrow> 'c list \<Rightarrow> server_error + 'c FullServer" where
  "probe_configs probe [] = Inl NoWorkingConfig"
| "probe_configs probe (c # cs) = (case probe c of Some r \<Rightarrow> r | None \<Rightarrow> probe_configs probe cs)"

definition fetchODoHTargetInfo_once ::
  "dns_package \<Rightarrow> 'c odoh_env \<Rightarrow> route_env \<Rightarrow> ('c list \<Rightarrow> 'c list) \<Rightarrow> Msg \<Rightarrow> Msg \<Rightarrow> string \<Rightarrow> ServerStamp \<Rightarrow> server_error + 'c FullServer" where
  "fetchODoHTargetInfo_once D V R shuffle testMsg queryMsg name stamp =
     (case oe_configs V of
        None \<Rightarrow> Inl NoOdohConfig
      | Some configs \<Rightarrow>
          if length configs = 0 then Inl NoOdohConfig
          else
            (case route R name (st_Proto stamp) of
               Inl e \<Rightarrow> Inl (RouteFailed e)
             | Inr None \<Rightarrow> Inl NoOdohRelay
             | Inr (Some relay) \<Rightarrow>
                 (case rl_ODoH relay of
                    None \<Rightarrow> Inl NoOdohRelay
                  | Some url \<Rightarrow>
                      (case (Pack D testMsg, Pack D queryMsg) of
                         (Some testBody, Some nxBody) \<Rightarrow>
                           probe_configs (probe_config D V testBody queryMsg nxBody name stamp relay url) (shuffle configs)
                       | _ \<Rightarrow> Inl BadMessage))))"

text \<open>Three attempts; \<open>attempts\<close> gives what each of them sees.\<close>

fun first_success :: "(server_error + 'x) list \<Rightarrow> server_error \<Rightarrow> server_error + 'x" where
  "first_success [] e = Inl e"
| "first_success (Inr x # rs) e = Inr x"
| "first_success (Inl e' # rs) e = first_success rs e'"

definition fetchODoHTargetInfo :: "(nat \<Rightarrow> server_error + 'c FullServer) \<Rightarrow> server_error + 'c FullServer" where
  "fetchODoHTargetInfo attempt = first_success (map attempt [0, 1, 2]) NoWorkingConfig"

definition fetchServerInfo ::
  "(ServerStamp \<Rightarrow> server_error + 'c FullServer) \<Rightarrow> (ServerStamp \<Rightarrow> server_error + 'c FullServer) \<Rightarrow>
   (ServerStamp \<Rightarrow> server_error + 'c FullServer) \<Rightarrow> ServerStamp \<Rightarrow> server_error + 'c FullServer" where
  "fetchServerInfo dnscrypt doh odoh stamp =
     (if st_Proto stamp = ProtoDNSCrypt then dnscrypt stamp
      else if st_Proto stamp = ProtoDoH then doh stamp
      else if st_Proto stamp = ProtoODoHTarget then odoh stamp
      else Inl UnsupportedProtocol)"

section \<open>The farthest relay shares the fewest bits\<close>

definition octet_bits :: "byte \<Rightarrow> bool list" where
  "octet_bits b = map (bit b) [7, 6, 5, 4, 3, 2, 1, 0]"

definition common_bits :: "bytes \<Rightarrow> bytes \<Rightarrow> nat" where
  "common_bits a b = length (takeWhile (\<lambda>(x, y). x = y) (zip (concat (map octet_bits a)) (concat (map octet_bits b))))"

lemma LeadingZeros8_common: "LeadingZeros8 (a XOR b) = length (takeWhile (\<lambda>(x, y). x = y) (zip (octet_bits a) (octet_bits b)))"
proof -
  have "zip (octet_bits a) (octet_bits b) = map (\<lambda>i. (bit a i, bit b i)) [7, 6, 5, 4, 3, 2, 1, 0]"
    by (simp add: octet_bits_def)
  then have "takeWhile (\<lambda>(x, y). x = y) (zip (octet_bits a) (octet_bits b)) =
      map (\<lambda>i. (bit a i, bit b i)) (takeWhile (\<lambda>i. bit a i = bit b i) [7, 6, 5, 4, 3, 2, 1, 0])"
    by (simp add: takeWhile_map comp_def)
  moreover have "(\<lambda>i. \<not> bit (a XOR b) i) = (\<lambda>i. bit a i = bit b i)" by (auto simp: bit_simps)
  ultimately show ?thesis by (simp add: LeadingZeros8_def)
qed

lemma octet_bits_inj: "octet_bits a = octet_bits b \<longleftrightarrow> a = b"
proof
  assume "octet_bits a = octet_bits b"
  then have "bit a i = bit b i" if "i < 8" for i
    using that by (auto simp: octet_bits_def numeral_eq_Suc less_Suc_eq)
  then show "a = b" by (intro bit_word_eqI) simp
qed simp

lemma same_prefix_bits_common: "length a = length b \<Longrightarrow> same_prefix_bits a b = common_bits a b"
proof (induction a b rule: list_induct2)
  case (Cons x a y b)
  have l: "length (octet_bits x) = length (octet_bits y)" by (simp add: octet_bits_def)
  have "x XOR y \<noteq> 0 \<longleftrightarrow> x \<noteq> y" by (metis xor_self_eq xor.assoc xor.left_neutral xor.right_neutral)
  show ?case
  proof (cases "x = y")
    case True
    have "LeadingZeros8 (x XOR y) = 8" using True by (simp add: LeadingZeros8_def)
    moreover have "takeWhile (\<lambda>(x, y). x = y) (zip (octet_bits x) (octet_bits x)) = zip (octet_bits x) (octet_bits x)"
      by (auto simp: takeWhile_eq_all_conv zip_same)
    ultimately show ?thesis using Cons True
      by (simp add: common_bits_def zip_append takeWhile_append zip_same octet_bits_def Let_def)
  next
    case False
    then have "\<exists>p\<in>set (zip (octet_bits x) (octet_bits y)). \<not> (case p of (u, v) \<Rightarrow> u = v)"
      using octet_bits_inj l by (metis (no_types, lifting) case_prodI2 list_eq_iff_zip_eq)
    then show ?thesis using Cons False l \<open>x XOR y \<noteq> 0 \<longleftrightarrow> x \<noteq> y\<close>
      by (simp add: common_bits_def zip_append takeWhile_append LeadingZeros8_common Let_def) (metis takeWhile_append1)
  qed
qed (simp add: common_bits_def)

definition relay_at :: "net_IP \<Rightarrow> ServerStamp list \<Rightarrow> nat \<Rightarrow> nat \<Rightarrow> bool" where
  "relay_at serverAddr sts i d \<longleftrightarrow>
     i < length sts \<and> st_Proto (sts ! i) = ProtoDNSCryptRelay \<and> relay_distance serverAddr (st_ServerAddrStr (sts ! i)) = Some d"

lemma best_relays_minimal:
  assumes "best_relays addr (length pre) sts (best, idxs) = (b, is)"
    and "\<And>i. i \<in> set idxs \<Longrightarrow> relay_at addr (pre @ sts) i best"
    and "\<And>i d. i < length pre \<Longrightarrow> relay_at addr (pre @ sts) i d \<Longrightarrow> best \<le> d"
  shows "(\<forall>i\<in>set is. relay_at addr (pre @ sts) i b) \<and> (\<forall>i d. relay_at addr (pre @ sts) i d \<longrightarrow> b \<le> d)"
  using assms
proof (induction sts arbitrary: pre best idxs)
  case Nil
  then show ?case by (auto simp: relay_at_def)
next
  case (Cons st sts)
  let ?n = "length pre"
  have shape: "pre @ st # sts = (pre @ [st]) @ sts" "length (pre @ [st]) = ?n + 1" by simp_all
  have here: "relay_at addr (pre @ st # sts) ?n d \<longleftrightarrow>
      st_Proto st = ProtoDNSCryptRelay \<and> relay_distance addr (st_ServerAddrStr st) = Some d" for d
    by (auto simp: relay_at_def)
  define acc where "acc = (if st_Proto st \<noteq> ProtoDNSCryptRelay then (best, idxs)
    else (case relay_distance addr (st_ServerAddrStr st) of None \<Rightarrow> (best, idxs)
      | Some d \<Rightarrow> if d < best then (d, [?n]) else if d = best then (best, idxs @ [?n]) else (best, idxs)))"
  have run: "best_relays addr (length (pre @ [st])) sts (fst acc, snd acc) = (b, is)"
    using Cons.prems(1) by (auto simp: acc_def split: option.splits if_splits)
  have "relay_at addr ((pre @ [st]) @ sts) i (fst acc)" if "i \<in> set (snd acc)" for i
    using that Cons.prems(2) here unfolding shape(1) [symmetric] by (auto simp: acc_def split: option.splits if_splits)
  moreover have "fst acc \<le> d" if "i < length (pre @ [st])" "relay_at addr ((pre @ [st]) @ sts) i d" for i d
  proof (cases "i = ?n")
    case True
    then show ?thesis using that(2) here unfolding shape(1) [symmetric] by (auto simp: acc_def split: option.splits)
  next
    case False
    then have "i < ?n" using that(1) by simp
    then have "best \<le> d" using that(2) Cons.prems(3) [of i d] unfolding shape(1) [symmetric] by blast
    moreover have "fst acc \<le> best" by (auto simp: acc_def split: option.splits)
    ultimately show ?thesis by simp
  qed
  ultimately show ?case using Cons.IH [OF run] unfolding shape(1) by blast
qed

text \<open>The relay for anonymized queries shares as few leading address bits with the server as any. Among the relays of the server's address
  family the chosen one has the shortest common prefix with the server, counted bit by bit.
\<close>

theorem farthest_relay_shares_fewest_bits:
  assumes "find (\<lambda>r. rs_name r = name) (re_servers E) = Some server" "st_Proto (rs_stamp server) = ProtoDNSCrypt"
    and "ParseIP (fst (ExtractHostAndPort (st_ServerAddrStr (rs_stamp server)) 443)) = Some addr"
    and "findFarthestRoute E name sts = Some i" "\<And>n. n > 0 \<Longrightarrow> re_draw E n < n"
  shows "\<exists>d. relay_at addr sts i d \<and> (\<forall>j e. relay_at addr sts j e \<longrightarrow> d \<le> e)"
proof -
  obtain b idxs where br: "best_relays addr 0 sts (128, []) = (b, idxs)" by fastforce
  have i: "idxs \<noteq> []" "i = idxs ! re_draw E (length idxs)"
    using assms(1-4) br by (auto simp: findFarthestRoute_def Let_def split: if_splits)
  have "re_draw E (length idxs) < length idxs" using assms(5) i(1) by simp
  then have mem: "i \<in> set idxs" using i(2) by simp
  have "(\<forall>i\<in>set idxs. relay_at addr ([] @ sts) i b) \<and> (\<forall>i d. relay_at addr ([] @ sts) i d \<longrightarrow> b \<le> d)"
    by (rule best_relays_minimal [where best = 128 and idxs = "[]"]) (use br in \<open>auto simp: relay_at_def\<close>)
  then show ?thesis using mem by auto
qed

text \<open>The distance is the number of leading bits the two addresses share.\<close>

lemma relay_distance_bits:
  assumes "relay_distance a s = Some d" "length a = 16"
  shows "\<exists>r. ParseIP (fst (ExtractHostAndPort s 443)) = Some r \<and>
    (length r = 16 \<longrightarrow> d = common_bits (drop (if To4 r = None then 0 else 12) a) (drop (if To4 r = None then 0 else 12) r))"
  using assms by (auto simp: relay_distance_def Let_def same_prefix_bits_common split: option.splits if_splits)

text \<open>
  An IPv6 address in a stamp stands in brackets, which the plain parser refuses: with a wildcard route such a server has no relay,
  and such a relay is never chosen.
\<close>

lemma bracketed_relay_ignored:
  "relay_distance a ''[2001:db8::1]:443'' = None"
  by code_simp

lemma bracketed_server_has_no_relay:
  assumes "find (\<lambda>r. rs_name r = name) (re_servers E) = Some server" "st_Proto (rs_stamp server) = ProtoDNSCrypt"
    and "st_ServerAddrStr (rs_stamp server) = ''[2001:db8::1]:443''"
  shows "findFarthestRoute E name sts = None"
proof -
  have "ParseIP (fst (ExtractHostAndPort ''[2001:db8::1]:443'' 443)) = None" by code_simp
  then show ?thesis using assms by (simp add: findFarthestRoute_def Let_def)
qed

section \<open>Anonymity and pinning\<close>

lemma route_relay:
  assumes "route E name proto = Inr (Some relay)"
  shows "\<exists>p. relayProtoForServerProto proto = Some p"
  using assms by (auto simp: route_def Let_def split: option.splits sum.splits prod.splits if_splits)

text \<open>A server that must be anonymized is used through its relay or not at all. When a relay is found for a DNSCrypt server and incompatible
  servers are skipped, a fetched server keeps that relay and does not block fragments; its certificate was asked for with the relay.
\<close>

theorem anonymized_or_refused:
  assumes "fetchDNSCryptServerInfo E name stamp = Inr si" "route (de_route E) name (st_Proto stamp) = Inr (Some relay)"
    and "rl_Dnscrypt relay = Some dr" "de_skipAnonIncompatible E"
  shows "sf_Relay si = Some relay \<and> si_hasRelay (sf_crypto si) \<and> \<not> si_fragmentsBlocked (sf_crypto si) \<and>
    (\<exists>pk cert rtt. de_fetchCert E pk (st_ServerAddrStr stamp) (st_ProviderName stamp) (Some dr) False = Inr (cert, rtt, False))"
  using assms
  by (auto simp: fetchDNSCryptServerInfo_def Let_def split: option.splits sum.splits prod.splits if_splits)

text \<open>A DoH server is accepted only over a completed handshake, only when it denies the existence of a random name, and, when its stamp pins
  certificates, only when one of the presented certificates is pinned.
\<close>

theorem doh_server_is_checked:
  assumes "fetchDoHServerInfo D doh testMsg queryMsg name stamp = Inr si"
  shows "\<exists>body r t rtt msg. Pack D queryMsg = Some body \<and> doh (sf_useGet si) body = Some (r, Some t, rtt) \<and> ts_HandshakeComplete t \<and>
    Unpack D r = Some msg \<and> answers_query D queryMsg msg \<and> msg_Rcode msg = RcodeNameError \<and>
    (st_Hashes stamp \<noteq> [] \<longrightarrow> (\<exists>h. h \<in> set (ts_certHashes t) \<and> h \<in> set (st_Hashes stamp)))"
  using assms
  by (auto simp: fetchDoHServerInfo_def check_probe_def pinned_def list_ex_iff validate_iff Let_def
      split: option.splits prod.splits if_splits)

definition test_stamp :: "StampProto \<Rightarrow> string \<Rightarrow> ServerStamp" where
  "test_stamp proto addr = \<lparr>st_ServerAddrStr = addr, st_ServerPk = replicate 32 1, st_Hashes = [replicate 32 9], st_ProviderName = ''2.dnscrypt-cert.example.'',
     st_Path = ''/dns-query'', st_Proto = proto\<rparr>"

definition test_routes :: route_env where
  "test_routes = \<lparr>re_routes = Some [''s'' \<mapsto> [''r2'']],
     re_servers = [\<lparr>rs_name = ''s'', rs_stamp = test_stamp ProtoDNSCrypt ''9.9.9.9:443''\<rparr>],
     re_relays = [\<lparr>rs_name = ''r1'', rs_stamp = test_stamp ProtoDNSCryptRelay ''9.9.9.1:443''\<rparr>,
                  \<lparr>rs_name = ''r2'', rs_stamp = test_stamp ProtoDNSCryptRelay ''200.1.1.1:443''\<rparr>],
     re_parse = (\<lambda>_. None), re_string = st_ServerAddrStr, re_resolve = (\<lambda>_. Some ([200, 1, 1, 1], 443)),
     re_relayURL = (\<lambda>_. None), re_draw = (\<lambda>_. 0)\<rparr>"

theorem farthest_relay_shares_fewest_bits_witness:
  "\<exists>addr d. relay_at addr (map rs_stamp (re_relays test_routes)) 1 d \<and>
     (\<forall>j e. relay_at addr (map rs_stamp (re_relays test_routes)) j e \<longrightarrow> d \<le> e)"
proof -
  have s: "find (\<lambda>r. rs_name r = ''s'') (re_servers test_routes) = Some \<lparr>rs_name = ''s'', rs_stamp = test_stamp ProtoDNSCrypt ''9.9.9.9:443''\<rparr>"
    by (simp add: test_routes_def)
  have "ParseIP (fst (ExtractHostAndPort ''9.9.9.9:443'' 443)) \<noteq> None" by code_simp
  then obtain addr where a: "ParseIP (fst (ExtractHostAndPort ''9.9.9.9:443'' 443)) = Some addr" by auto
  have f: "findFarthestRoute test_routes ''s'' (map rs_stamp (re_relays test_routes)) = Some 1" by code_simp
  have "\<exists>d. relay_at addr (map rs_stamp (re_relays test_routes)) 1 d \<and>
      (\<forall>j e. relay_at addr (map rs_stamp (re_relays test_routes)) j e \<longrightarrow> d \<le> e)"
    by (rule farthest_relay_shares_fewest_bits [OF s _ _ f]) (simp_all add: test_stamp_def a, simp add: test_routes_def)
  then show ?thesis by blast
qed

definition test_dnscrypt :: dnscrypt_env where
  "test_dnscrypt = \<lparr>de_route = test_routes, de_hexKey = (\<lambda>_. None), de_blockingFragments = [], de_skipAnonIncompatible = True,
     de_fetchCert = (\<lambda>_ _ _ _ _. Inr (empty_cert\<lparr>ci_CryptoConstruction := XChacha20Poly1305\<rparr>, 12, False)), de_plainTest = (\<lambda>_ _. None)\<rparr>"

theorem anonymized_or_refused_witness:
  "\<exists>si :: unit FullServer. fetchDNSCryptServerInfo test_dnscrypt ''s'' (test_stamp ProtoDNSCrypt ''9.9.9.9:443'') = Inr si \<and>
     (\<exists>relay. sf_Relay si = Some relay \<and> rl_Name relay = ''r2'')"
proof -
  have "case route test_routes ''s'' ProtoDNSCrypt of Inr (Some r) \<Rightarrow> rl_Dnscrypt r \<noteq> None \<and> rl_Name r = ''r2'' | _ \<Rightarrow> False" by code_simp
  then obtain relay dr where r: "route test_routes ''s'' ProtoDNSCrypt = Inr (Some relay)" "rl_Dnscrypt relay = Some dr" "rl_Name relay = ''r2''"
    by (auto split: sum.splits option.splits)
  have "case (fetchDNSCryptServerInfo test_dnscrypt ''s'' (test_stamp ProtoDNSCrypt ''9.9.9.9:443'') :: server_error + unit FullServer) of
      Inr _ \<Rightarrow> True | Inl _ \<Rightarrow> False"
    by code_simp
  then obtain si where si: "(fetchDNSCryptServerInfo test_dnscrypt ''s'' (test_stamp ProtoDNSCrypt ''9.9.9.9:443'') :: server_error + unit FullServer) = Inr si"
    by (auto split: sum.splits)
  have "sf_Relay si = Some relay"
    using anonymized_or_refused [OF si _ r(2)] r(1) by (simp add: test_dnscrypt_def test_stamp_def)
  then show ?thesis using si r(3) by blast
qed

definition doh_package :: dns_package where
  "doh_package = sample_package\<lparr>Unpack := (\<lambda>_. Some (sample_query\<lparr>msg_Response := True, msg_Rcode := RcodeNameError\<rparr>))\<rparr>"

definition doh_answer :: doh_exchange where
  "doh_answer = (\<lambda>_ _. Some ([0xca, 0xfe, 0, 0, 0, 1] @ replicate 20 0, Some \<lparr>ts_HandshakeComplete = True, ts_certHashes = [replicate 32 9]\<rparr>, 7000000))"

theorem doh_server_is_checked_witness:
  "\<exists>si :: unit FullServer. fetchDoHServerInfo doh_package doh_answer sample_query sample_query ''d'' (test_stamp ProtoDoH []) = Inr si \<and>
     (\<exists>body t. doh_answer (sf_useGet si) body = Some ([0xca, 0xfe, 0, 0, 0, 1] @ replicate 20 0, Some t, 7000000) \<and> ts_HandshakeComplete t)"
proof -
  have "case (fetchDoHServerInfo doh_package doh_answer sample_query sample_query ''d'' (test_stamp ProtoDoH []) :: server_error + unit FullServer) of
      Inr _ \<Rightarrow> True | Inl _ \<Rightarrow> False"
    by code_simp
  then obtain si where si: "(fetchDoHServerInfo doh_package doh_answer sample_query sample_query ''d'' (test_stamp ProtoDoH []) :: server_error + unit FullServer) = Inr si"
    by (auto split: sum.splits)
  from doh_server_is_checked [OF si] si show ?thesis by (auto simp: doh_answer_def)
qed

end
