(* ===== verification/Dc_Sources.thy ===== *)
theory Dc_Sources
  imports Dc_Routes Config_Parse
begin

text \<open>
  \<open>pkg/dnscrypt/sources.go\<close>: signed lists of servers, kept in cache files and downloaded again from time to time. The signature
  scheme, the parser of URLs and of stamps, the replies of the web servers, failures of the file system, the shuffle of the stamps and
  the clock are arguments; times are in nanoseconds.
\<close>

section \<open>Data\<close>

definition DefaultPrefetchDelay :: int where
  "DefaultPrefetchDelay = 24 * 3600 * 1000000000"

definition MinimumPrefetchInterval :: int where
  "MinimumPrefetchInterval = 10 * 60 * 1000000000"

text \<open>\<open>so_refresh\<close>: \<open>None\<close> is the zero time. A file is its content and the time it was modified.\<close>

record ('k, 'u) Source =
  so_name :: string
  so_urls :: "'u list"
  so_bin :: bytes
  so_minisignKey :: "'k option"
  so_cacheFile :: string
  so_cacheTTL :: int
  so_prefetchDelay :: int
  so_refresh :: "int option"
  so_prefix :: string

type_synonym files = "string \<rightharpoonup> bytes \<times> int"

datatype source_error =
    FileError
  | BadSignature
  | DownloadError
  | UnsupportedFormat string
  | BadKey
  | InvalidFormat
  | StampErrors "string list"

text \<open>
  \<open>se_fault\<close>: the step of \<open>writeSource\<close> that fails, if any: creating the two files, writing them, replacing the cache file and
  replacing the signature. \<open>se_download\<close> gives the reply for a URL and, with \<open>True\<close>, for the URL of its signature.
\<close>

record ('k, 'u) source_env =
  se_newKey :: "string \<Rightarrow> 'k option"
  se_verify :: "'k \<Rightarrow> bytes \<Rightarrow> bytes \<Rightarrow> bool"
  se_parseURL :: "string \<Rightarrow> 'u option"
  se_download :: "'u \<Rightarrow> bool \<Rightarrow> bytes option"
  se_statOk :: bool
  se_fault :: "nat option"
  se_chtimesOk :: bool
  se_now :: int

section \<open>Loading\<close>

text \<open>A source without a key has no verification to call.\<close>

definition checkSignature :: "('k, 'u) source_env \<Rightarrow> ('k, 'u) Source \<Rightarrow> bytes \<Rightarrow> bytes \<Rightarrow> bool" where
  "checkSignature E source bin sig = (case so_minisignKey source of None \<Rightarrow> False | Some k \<Rightarrow> se_verify E k bin sig)"

definition fetchFromCache :: "('k, 'u) source_env \<Rightarrow> files \<Rightarrow> ('k, 'u) Source \<Rightarrow> (source_error + int) \<times> ('k, 'u) Source" where
  "fetchFromCache E fs source =
     (case fs (so_cacheFile source) of
        None \<Rightarrow> (Inl FileError, source)
      | Some (bin, modTime) \<Rightarrow>
          (case fs (so_cacheFile source @ ''.minisig'') of
             None \<Rightarrow> (Inl FileError, source)
           | Some (sig, _) \<Rightarrow>
               if \<not> checkSignature E source bin sig then (Inl BadSignature, source)
               else
                 let source = source\<lparr>so_bin := bin\<rparr> in
                 if \<not> se_statOk E then (Inl FileError, source)
                 else
                   let elapsed = se_now E - modTime in
                   (Inr (if elapsed < so_cacheTTL source then so_prefetchDelay source - elapsed else 0), source)))"

definition failed_before :: "nat option \<Rightarrow> nat \<Rightarrow> bool" where
  "failed_before fault n = (case fault of None \<Rightarrow> False | Some k \<Rightarrow> k < n)"

text \<open>Both files are written under temporary names; each of them then replaces the old one at once.\<close>

definition writeSource :: "nat option \<Rightarrow> int \<Rightarrow> string \<Rightarrow> bytes \<Rightarrow> bytes \<Rightarrow> files \<Rightarrow> bool \<times> files" where
  "writeSource fault now f bin sig fs =
     (if failed_before fault 5 then (False, fs)
      else
        let fs = fs(f \<mapsto> (bin, now)) in
        if failed_before fault 6 then (False, fs) else (True, fs(f @ ''.minisig'' \<mapsto> (sig, now))))"

definition Chtimes :: "bool \<Rightarrow> string \<Rightarrow> int \<Rightarrow> files \<Rightarrow> files" where
  "Chtimes ok f now fs = (case fs f of None \<Rightarrow> fs | Some (bin, _) \<Rightarrow> if ok then fs(f \<mapsto> (bin, now)) else fs)"

definition updateCache :: "('k, 'u) source_env \<Rightarrow> bytes \<Rightarrow> bytes \<Rightarrow> files \<Rightarrow> ('k, 'u) Source \<Rightarrow> files \<times> ('k, 'u) Source" where
  "updateCache E bin sig fs source =
     (let file = so_cacheFile source;
          needsWrite = so_bin source \<noteq> bin;
          fs = (if needsWrite then snd (writeSource (se_fault E) (se_now E) file bin sig fs) else fs);
          fs = Chtimes (se_chtimesOk E) file (se_now E) fs in
      (fs, source\<lparr>so_bin := bin\<rparr>))"

definition parseURLs :: "('k, 'u) source_env \<Rightarrow> string list \<Rightarrow> ('k, 'u) Source \<Rightarrow> ('k, 'u) Source" where
  "parseURLs E urls source = source\<lparr>so_urls := so_urls source @ List.map_filter (se_parseURL E) urls\<rparr>"

text \<open>The loop over the URLs: the first list with a valid signature, or the last error.\<close>

fun try_urls :: "('k, 'u) source_env \<Rightarrow> ('k, 'u) Source \<Rightarrow> 'u list \<Rightarrow> source_error + bytes \<times> bytes \<Rightarrow> source_error + bytes \<times> bytes" where
  "try_urls E source [] err = err"
| "try_urls E source (srcURL # rest) err =
     (case se_download E srcURL False of
        None \<Rightarrow> try_urls E source rest (Inl DownloadError)
      | Some bin \<Rightarrow>
          (case se_download E srcURL True of
             None \<Rightarrow> try_urls E source rest (Inl DownloadError)
           | Some sig \<Rightarrow>
               if checkSignature E source bin sig then Inr (bin, sig) else try_urls E source rest (Inl BadSignature)))"

definition fetchWithCache :: "('k, 'u) source_env \<Rightarrow> files \<Rightarrow> ('k, 'u) Source \<Rightarrow> (source_error + int) \<times> files \<times> ('k, 'u) Source" where
  "fetchWithCache E fs source =
     (case fetchFromCache E fs source of
        (cached, source) \<Rightarrow>
          if so_urls source = [] then (case cached of Inl e \<Rightarrow> (Inl e, fs, source) | Inr _ \<Rightarrow> (Inr 0, fs, source))
          else if (case cached of Inr ttl \<Rightarrow> ttl > 0 | Inl _ \<Rightarrow> False)
            then (Inr 0, fs, source\<lparr>so_refresh := Some (se_now E + projr cached)\<rparr>)
          else
            let source = source\<lparr>so_refresh := Some (se_now E + MinimumPrefetchInterval)\<rparr> in
            (case try_urls E source (so_urls source) (Inl DownloadError) of
               Inl e \<Rightarrow> (Inl e, fs, source)
             | Inr (bin, sig) \<Rightarrow>
                 (case updateCache E bin sig fs source of
                    (fs, source) \<Rightarrow>
                      (Inr (so_prefetchDelay source), fs, source\<lparr>so_refresh := Some (se_now E + so_prefetchDelay source)\<rparr>))))"

definition NewSource ::
  "('k, 'u) source_env \<Rightarrow> files \<Rightarrow> string \<Rightarrow> string list \<Rightarrow> string \<Rightarrow> string \<Rightarrow> string \<Rightarrow> int \<Rightarrow> int \<Rightarrow> string \<Rightarrow>
   source_error option \<times> files \<times> ('k, 'u) Source" where
  "NewSource E fs name urls minisignKeyStr cacheFile formatStr refreshDelay cacheTTL pref =
     (let refreshDelay = (if refreshDelay < DefaultPrefetchDelay then DefaultPrefetchDelay else refreshDelay);
          cacheTTL = (if cacheTTL < refreshDelay then refreshDelay else cacheTTL);
          cacheTTL = (if cacheTTL > 168 * 3600 * 1000000000 then 168 * 3600 * 1000000000 else cacheTTL);
          source = \<lparr>so_name = name, so_urls = [], so_bin = [], so_minisignKey = None, so_cacheFile = cacheFile, so_cacheTTL = cacheTTL,
                    so_prefetchDelay = refreshDelay, so_refresh = None, so_prefix = pref\<rparr> in
      if formatStr \<noteq> ''v2'' then (Some (UnsupportedFormat formatStr), fs, source)
      else
        (case se_newKey E minisignKeyStr of
           None \<Rightarrow> (Some BadKey, fs, source)
         | Some k \<Rightarrow>
             (case fetchWithCache E fs (parseURLs E urls (source\<lparr>so_minisignKey := Some k\<rparr>)) of
                (Inl e, fs, source) \<Rightarrow> (Some e, fs, source)
              | (Inr _, fs, source) \<Rightarrow> (None, fs, source))))"

definition refresh_due :: "int \<Rightarrow> ('k, 'u) Source \<Rightarrow> bool" where
  "refresh_due now source = (case so_refresh source of None \<Rightarrow> False | Some t \<Rightarrow> \<not> t > now)"

fun prefetch_loop ::
  "('k, 'u) source_env \<Rightarrow> int \<Rightarrow> files \<Rightarrow> ('k, 'u) Source list \<Rightarrow> int \<times> files \<times> ('k, 'u) Source list" where
  "prefetch_loop E interval fs [] = (interval, fs, [])"
| "prefetch_loop E interval fs (source # rest) =
     (if \<not> refresh_due (se_now E) source then
        (case prefetch_loop E interval fs rest of (i, fs, ss) \<Rightarrow> (i, fs, source # ss))
      else
        (case fetchWithCache E fs source of
           (r, fs, source) \<Rightarrow>
             let interval =
               (case r of
                  Inl _ \<Rightarrow> interval
                | Inr delay \<Rightarrow>
                    if delay \<ge> MinimumPrefetchInterval \<and> (interval = MinimumPrefetchInterval \<or> interval > delay) then delay else interval) in
             (case prefetch_loop E interval fs rest of (i, fs, ss) \<Rightarrow> (i, fs, source # ss))))"

definition PrefetchSources :: "('k, 'u) source_env \<Rightarrow> files \<Rightarrow> ('k, 'u) Source list \<Rightarrow> int \<times> files \<times> ('k, 'u) Source list" where
  "PrefetchSources E fs sources = prefetch_loop E MinimumPrefetchInterval fs sources"

section \<open>Parsing\<close>

text \<open>\<open>strings.Split\<close> with a separator of several bytes.\<close>

function split_text :: "string \<Rightarrow> string \<Rightarrow> string list" where
  "split_text sep [] = [[]]"
| "split_text sep (c # s) =
     (if sep \<noteq> [] \<and> has_prefix (c # s) sep then [] # split_text sep (drop (length sep) (c # s))
      else (case split_text sep s of [] \<Rightarrow> [[c]] | y # ys \<Rightarrow> (c # y) # ys))"
  by pat_completeness auto
termination
  by (relation "measure (\<lambda>(sep, s). length s)") (auto simp: neq_Nil_conv)

definition is_stamp_line :: "string \<Rightarrow> bool" where
  "is_stamp_line s = (has_prefix s ''sdns:'' \<and> length s \<ge> 6)"

definition read_subpart :: "string \<times> string list \<Rightarrow> string \<Rightarrow> string \<times> string list" where
  "read_subpart = (\<lambda>(description, stampStrs) subpart.
     let subpart = TrimSpace subpart in
     if is_stamp_line subpart then (description, stampStrs @ [subpart])
     else if subpart = [] \<or> has_prefix subpart ''//'' then (description, stampStrs)
     else ((if description \<noteq> [] then description @ [CHR 0x0A] else description) @ subpart, stampStrs))"

fun first_stamp :: "(string \<Rightarrow> ServerStamp option) \<Rightarrow> string list \<Rightarrow> string list \<times> ServerStamp option" where
  "first_stamp parse [] = ([], None)"
| "first_stamp parse (s # ss) =
     (case parse s of
        Some stamp \<Rightarrow> ([], Some stamp)
      | None \<Rightarrow> (case first_stamp parse ss of (errs, r) \<Rightarrow> (s # errs, r)))"

record ListedServer = RegisteredServer +
  ls_description :: string

text \<open>One part: a format error, or the errors of its stamps and the server, if it has a usable stamp.\<close>

definition parse_part ::
  "(string \<Rightarrow> ServerStamp option) \<Rightarrow> (string list \<Rightarrow> string list) \<Rightarrow> string \<Rightarrow> string \<Rightarrow> (string list \<times> ListedServer option) option" where
  "parse_part parse shuffle pref part =
     (case split_char (CHR 0x0A) (TrimSpace part) of
        sub0 # sub1 # rest \<Rightarrow>
          let name = TrimSpace sub0 in
          if name = [] then None
          else
            let name = pref @ name in
            (case foldl read_subpart ([], []) (sub1 # rest) of
               (description, stampStrs) \<Rightarrow>
                 if stampStrs = [] then Some ([name], None)
                 else
                   (case first_stamp parse (if length stampStrs > 1 then shuffle stampStrs else stampStrs) of
                      (errs, None) \<Rightarrow> Some (errs, None)
                    | (errs, Some stamp) \<Rightarrow> Some (errs, Some \<lparr>rs_name = name, rs_stamp = stamp, ls_description = description\<rparr>)))
      | _ \<Rightarrow> None)"

fun parse_parts ::
  "(string \<Rightarrow> ServerStamp option) \<Rightarrow> (string list \<Rightarrow> string list) \<Rightarrow> string \<Rightarrow> string list \<Rightarrow> string list \<Rightarrow> ListedServer list \<Rightarrow>
   source_error option \<times> ListedServer list" where
  "parse_parts parse shuffle pref [] stampErrs servers =
     (if stampErrs \<noteq> [] then Some (StampErrors stampErrs) else None, servers)"
| "parse_parts parse shuffle pref (part # parts) stampErrs servers =
     (case parse_part parse shuffle pref part of
        None \<Rightarrow> (Some InvalidFormat, servers)
      | Some (errs, None) \<Rightarrow> parse_parts parse shuffle pref parts (stampErrs @ errs) servers
      | Some (errs, Some server) \<Rightarrow> parse_parts parse shuffle pref parts (stampErrs @ errs) (servers @ [server]))"

definition parseV2 ::
  "(string \<Rightarrow> ServerStamp option) \<Rightarrow> (string list \<Rightarrow> string list) \<Rightarrow> ('k, 'u) Source \<Rightarrow> source_error option \<times> ListedServer list" where
  "parseV2 parse shuffle source =
     (let parts = split_text ''## '' (str_of (so_bin source)) in
      if length parts < 2 then (Some InvalidFormat, []) else parse_parts parse shuffle (so_prefix source) (tl parts) [] [])"

section \<open>Only signed lists are used\<close>

text \<open>Every state of a source: made with any files and replies, then refreshed with any files and replies.\<close>

inductive source_reach :: "('k \<Rightarrow> bytes \<Rightarrow> bytes \<Rightarrow> bool) \<Rightarrow> ('k, 'u) Source \<Rightarrow> bool" for verify where
  made: "se_verify E = verify \<Longrightarrow> NewSource E fs name urls key file format delay ttl pref = (r, fs', source) \<Longrightarrow> source_reach verify source"
| refreshed: "source_reach verify source \<Longrightarrow> se_verify E = verify \<Longrightarrow> fetchWithCache E fs source = (r', fs', source') \<Longrightarrow>
    source_reach verify source'"

definition list_signed :: "('k \<Rightarrow> bytes \<Rightarrow> bytes \<Rightarrow> bool) \<Rightarrow> ('k, 'u) Source \<Rightarrow> bool" where
  "list_signed verify source \<longleftrightarrow> so_bin source = [] \<or> (\<exists>k sig. so_minisignKey source = Some k \<and> verify k (so_bin source) sig)"

lemma checkSignature_iff: "checkSignature E source bin sig \<longleftrightarrow> (\<exists>k. so_minisignKey source = Some k \<and> se_verify E k bin sig)"
  by (simp add: checkSignature_def split: option.splits)

lemma fetchFromCache_keeps:
  assumes "fetchFromCache E fs source = (r, source')"
  shows "so_minisignKey source' = so_minisignKey source" "so_urls source' = so_urls source" "so_prefetchDelay source' = so_prefetchDelay source"
    and "so_cacheFile source' = so_cacheFile source" "so_refresh source' = so_refresh source"
    and "list_signed (se_verify E) source \<Longrightarrow> list_signed (se_verify E) source'"
  using assms
  by (auto simp: fetchFromCache_def list_signed_def checkSignature_iff Let_def split: option.splits if_splits)

lemma try_urls_signed: "try_urls E source urls (Inl e) = Inr (bin, sig) \<Longrightarrow> checkSignature E source bin sig"
  by (induction urls arbitrary: e) (auto split: option.splits if_splits)

lemma fetchWithCache_signed:
  assumes "fetchWithCache E fs source = (r, fs', source')" and "list_signed (se_verify E) source"
  shows "list_signed (se_verify E) source'"
proof -
  obtain c s where c: "fetchFromCache E fs source = (c, s)" by fastforce
  then have "list_signed (se_verify E) s" using assms(2) fetchFromCache_keeps(6) by blast
  then show ?thesis
    using assms(1) c
    by (auto simp: fetchWithCache_def Let_def updateCache_def list_signed_def checkSignature_iff
        dest!: try_urls_signed split: sum.splits if_splits)
qed

lemma source_reach_signed: "source_reach verify source \<Longrightarrow> list_signed verify source"
proof (induction rule: source_reach.induct)
  case made
  then show ?case
    by (auto simp: NewSource_def parseURLs_def Let_def list_signed_def split: if_splits option.splits sum.splits prod.splits
        dest!: fetchWithCache_signed [unfolded list_signed_def])
next
  case (refreshed source E fs r' fs' source')
  then show ?case using fetchWithCache_signed by blast
qed

text \<open>
  C32: servers come from signed lists only. Whatever the cache files hold, the web servers reply and the file system fails to do, each
  server a source ever registers was read from a list with a valid signature under the source's key.
\<close>

theorem servers_come_from_signed_lists:
  assumes "source_reach verify source" and "server \<in> set (snd (parseV2 parse shuffle source))"
  shows "\<exists>k sig. so_minisignKey source = Some k \<and> verify k (so_bin source) sig"
proof -
  have "so_bin source \<noteq> []" using assms(2) by (auto simp: parseV2_def str_of_def)
  then show ?thesis using source_reach_signed [OF assms(1)] by (simp add: list_signed_def)
qed

section \<open>The schedule\<close>

lemma NewSource_delay:
  "NewSource E fs name urls key file format delay ttl pref = (r, fs', source) \<Longrightarrow> so_prefetchDelay source \<ge> DefaultPrefetchDelay"
  by (auto simp: NewSource_def fetchWithCache_def parseURLs_def updateCache_def Let_def DefaultPrefetchDelay_def
      split: if_splits option.splits sum.splits prod.splits dest: fetchFromCache_keeps(3))

text \<open>
  C34: a source with a URL is always scheduled again. After each attempt to refresh it, successful or not, its next refresh lies in the
  future, and no later than its configured delay when the cache file was not modified in the future.
\<close>

theorem refresh_is_scheduled:
  assumes "fetchWithCache E fs source = (r, fs', source')" and "so_urls source \<noteq> []" and "so_prefetchDelay source \<ge> DefaultPrefetchDelay"
  shows "\<exists>t. so_refresh source' = Some t \<and> t > se_now E \<and>
    ((case fs (so_cacheFile source) of None \<Rightarrow> True | Some (_, modTime) \<Rightarrow> modTime \<le> se_now E) \<longrightarrow> t \<le> se_now E + so_prefetchDelay source)"
proof -
  obtain c s where c: "fetchFromCache E fs source = (c, s)" by fastforce
  note k = fetchFromCache_keeps [OF c]
  have m: "0 < MinimumPrefetchInterval" "MinimumPrefetchInterval \<le> so_prefetchDelay source" "0 < so_prefetchDelay source"
    using assms(3) by (auto simp: MinimumPrefetchInterval_def DefaultPrefetchDelay_def)
  show ?thesis
  proof (cases "\<exists>ttl. c = Inr ttl \<and> ttl > 0")
    case True
    then obtain ttl where ttl: "c = Inr ttl" "ttl > 0" by blast
    then have s': "source' = s\<lparr>so_refresh := Some (se_now E + ttl)\<rparr>" using assms(1,2) c k(2) by (auto simp: fetchWithCache_def)
    have "ttl \<le> so_prefetchDelay source" if "case fs (so_cacheFile source) of None \<Rightarrow> True | Some (_, modTime) \<Rightarrow> modTime \<le> se_now E"
      using that c ttl by (auto simp: fetchFromCache_def Let_def split: option.splits if_splits)
    then show ?thesis using ttl(2) s' by auto
  next
    case False
    then have "so_refresh source' = Some (se_now E + MinimumPrefetchInterval) \<or> so_refresh source' = Some (se_now E + so_prefetchDelay source)"
      using assms(1,2) c k by (cases c) (auto simp: fetchWithCache_def updateCache_def Let_def split: sum.splits)
    then show ?thesis using m by auto
  qed
qed

text \<open>One failing source is not retried after the minimum interval when a later source was refreshed.\<close>

lemma failed_source_waits:
  assumes "refresh_due (se_now E) a" and "fetchWithCache E fs a = (Inl e, fs1, a')"
    and "refresh_due (se_now E) b" and "fetchWithCache E fs1 b = (Inr delay, fs2, b')" and "delay \<ge> MinimumPrefetchInterval"
  shows "PrefetchSources E fs [a, b] = (delay, fs2, [a', b'])"
  using assms by (simp add: PrefetchSources_def)

section \<open>The cache\<close>

text \<open>A list that was downloaded and written is found again by the next start, as long as it is fresh.\<close>

lemma downloaded_list_is_cached:
  assumes "updateCache E bin sig fs source = (fs', source')" and "so_bin source \<noteq> bin" and "se_fault E = None" and "se_chtimesOk E"
    and "checkSignature E' s bin sig" and "so_cacheFile s = so_cacheFile source" and "se_statOk E'"
    and "se_now E' - se_now E < so_cacheTTL s"
  shows "fetchFromCache E' fs' s = (Inr (so_prefetchDelay s - (se_now E' - se_now E)), s\<lparr>so_bin := bin\<rparr>)"
proof -
  have "so_cacheFile source \<noteq> so_cacheFile source @ ''.minisig''" by simp
  then show ?thesis
    using assms by (auto simp: updateCache_def writeSource_def failed_before_def Chtimes_def fetchFromCache_def checkSignature_def Let_def)
qed

text \<open>A signature file that disappears while the proxy runs is not written again, since the list in memory is the one downloaded.\<close>

lemma lost_signature_stays_lost:
  assumes "updateCache E (so_bin source) sig fs source = (fs', source')" and "fs (so_cacheFile source @ ''.minisig'') = None"
  shows "fs' (so_cacheFile source @ ''.minisig'') = None"
  using assms by (auto simp: updateCache_def Chtimes_def Let_def split: option.splits if_splits)

section \<open>Lists that read back\<close>

definition clean :: "string \<Rightarrow> bool" where
  "clean s \<longleftrightarrow> s \<noteq> [] \<and> list_all (\<lambda>c. c \<noteq> CHR ''#'' \<and> c \<noteq> CHR 0x0A) s \<and>
     list_all (\<lambda>q. hd q \<noteq> hd s \<and> last q \<noteq> last s) space_seqs"

definition server_text :: "string \<times> string \<times> string \<Rightarrow> string" where
  "server_text = (\<lambda>(name, description, stampStr). name @ CHR 0x0A # description @ CHR 0x0A # stampStr @ [CHR 0x0A])"

definition list_text :: "string \<Rightarrow> (string \<times> string \<times> string) list \<Rightarrow> string" where
  "list_text preamble servers = preamble @ concat (map (\<lambda>s. ''## '' @ server_text s) servers)"

definition server_ok :: "string \<times> string \<times> string \<Rightarrow> bool" where
  "server_ok = (\<lambda>(name, description, stampStr). clean name \<and> clean description \<and> clean stampStr \<and>
     is_stamp_line stampStr \<and> \<not> is_stamp_line description \<and> \<not> has_prefix description ''//'')"

lemma cleanD:
  assumes "clean s"
  shows "s \<noteq> []" "CHR ''#'' \<notin> set s" "CHR 0x0A \<notin> set s" "list_all (\<lambda>q. hd q \<noteq> hd s \<and> last q \<noteq> last s) space_seqs"
  using assms by (simp_all add: clean_def) (auto simp: list_all_iff)

lemma split_text_none: "CHR ''#'' \<notin> set s \<Longrightarrow> split_text ''## '' s = [s]"
  by (induction s) (auto simp: has_prefix_def)

lemma split_text_step: "CHR ''#'' \<notin> set s \<Longrightarrow> split_text ''## '' (s @ ''## '' @ t) = s # split_text ''## '' t"
  by (induction s) (auto simp: has_prefix_def)

lemma server_text_clean: "server_ok s \<Longrightarrow> CHR ''#'' \<notin> set (server_text s)"
  by (cases s) (auto simp: server_ok_def server_text_def dest: cleanD(2))

lemma split_list_text:
  "list_all server_ok servers \<Longrightarrow> CHR ''#'' \<notin> set preamble \<Longrightarrow> split_text ''## '' (list_text preamble servers) = preamble # map server_text servers"
proof (induction servers arbitrary: preamble)
  case Nil
  then show ?case by (simp add: list_text_def split_text_none)
next
  case (Cons s servers)
  then have "split_text ''## '' (list_text (server_text s) servers) = server_text s # map server_text servers"
    using server_text_clean by simp
  moreover have "list_text preamble (s # servers) = preamble @ ''## '' @ list_text (server_text s) servers" by (simp add: list_text_def)
  ultimately show ?case using split_text_step [OF Cons.prems(2), of "list_text (server_text s) servers"] by simp
qed

lemma TrimSpace_clean: "clean s \<Longrightarrow> TrimSpace s = s"
  by (intro TrimSpace_id) (auto simp: clean_def list_all_iff)

lemma TrimSpace_newline:
  assumes "s \<noteq> []" and "list_all (\<lambda>q. hd q \<noteq> hd s \<and> last q \<noteq> last s) space_seqs"
  shows "TrimSpace (s @ [CHR 0x0A]) = s"
proof -
  have ne: "\<forall>q \<in> set space_seqs. q \<noteq> []" by code_simp
  have left: "trim_left space_seqs (s @ [CHR 0x0A]) = s @ [CHR 0x0A]"
    using assms by (subst trim_left.simps) (simp add: strip1_none list_all_iff)
  have nl: "strip1 (map rev space_seqs) (CHR 0x0A # rev s) = Some (rev s)"
  proof -
    have seqs: "map rev space_seqs = [CHR 0x09] # [CHR 0x0A] # drop 2 (map rev space_seqs)" by code_simp
    show ?thesis unfolding strip1_def by (subst seqs) (simp add: has_prefix_def)
  qed
  have "strip1 (map rev space_seqs) (rev s) = None"
    using assms ne by (intro strip1_none) (auto simp: hd_rev list_all_iff)
  then have "trim_left (map rev space_seqs) (rev s) = rev s" by (subst trim_left.simps) simp
  then have "trim_left (map rev space_seqs) (CHR 0x0A # rev s) = rev s" by (subst trim_left.simps) (simp add: nl)
  then show ?thesis by (simp add: TrimSpace_def left)
qed

lemma split_lines3:
  assumes "clean a" "clean b" "clean c"
  shows "split_char (CHR 0x0A) (a @ CHR 0x0A # b @ CHR 0x0A # c) = [a, b, c]"
proof -
  have step: "split_char x (s @ x # t) = s # split_char x t" if "x \<notin> set s" for x s t using that by (induction s) auto
  have none: "split_char x s = [s]" if "x \<notin> set s" for x s using that by (induction s) auto
  have "CHR 0x0A \<notin> set a" "CHR 0x0A \<notin> set b" "CHR 0x0A \<notin> set c" using assms cleanD(3) by simp_all
  then show ?thesis by (simp add: step none)
qed

lemma parse_part_server_text:
  assumes "server_ok (name, description, stampStr)" and "parse stampStr = Some stamp"
  shows "parse_part parse shuffle pref (server_text (name, description, stampStr)) =
    Some ([], Some \<lparr>rs_name = pref @ name, rs_stamp = stamp, ls_description = description\<rparr>)"
proof -
  let ?t = "name @ CHR 0x0A # description @ CHR 0x0A # stampStr"
  have ok: "clean name" "clean description" "clean stampStr" using assms(1) by (auto simp: server_ok_def)
  then have "hd ?t = hd name" "last ?t = last stampStr" "?t \<noteq> []" using cleanD(1) by auto
  then have "TrimSpace (?t @ [CHR 0x0A]) = ?t"
    using cleanD(4) [OF ok(1)] cleanD(4) [OF ok(3)] TrimSpace_newline [of ?t] by (simp add: list_all_iff)
  then have "split_char (CHR 0x0A) (TrimSpace (server_text (name, description, stampStr))) = [name, description, stampStr]"
    using split_lines3 [OF ok] by (simp add: server_text_def)
  moreover have "name \<noteq> []" "description \<noteq> []" using ok cleanD(1) by simp_all
  ultimately show ?thesis
    using assms ok by (simp add: parse_part_def read_subpart_def TrimSpace_clean server_ok_def)
qed

text \<open>
  C33: a published list reads back as its servers. The text of a list, a heading and for each server its name, a line of description and
  its stamp, is parsed into exactly these servers, in order, with the source's prefix put before each name and no error.
\<close>

theorem list_reads_back:
  assumes "list_all server_ok servers" and "CHR ''#'' \<notin> set preamble" and "servers \<noteq> []"
    and "map (\<lambda>(n, d, s). parse s) servers = map Some stamps"
    and "str_of (so_bin source) = list_text preamble servers"
  shows "parseV2 parse shuffle source =
    (None, map (\<lambda>((n, d, s), stamp). \<lparr>rs_name = so_prefix source @ n, rs_stamp = stamp, ls_description = d\<rparr>) (zip servers stamps))"
proof -
  have "parse_parts parse shuffle pref (map server_text servers) [] acc =
      (None, acc @ map (\<lambda>((n, d, s), stamp). \<lparr>rs_name = pref @ n, rs_stamp = stamp, ls_description = d\<rparr>) (zip servers stamps))" for pref acc
    using assms(1,4)
  proof (induction servers arbitrary: stamps acc)
    case (Cons s servers)
    then show ?case by (cases s; cases stamps) (auto simp: parse_part_server_text)
  qed simp
  then show ?thesis
    using split_list_text [OF assms(1,2)] assms(3,5) by (auto simp: parseV2_def Let_def)
qed

section \<open>Examples\<close>

definition sample_stamp :: ServerStamp where
  "sample_stamp = \<lparr>st_ServerAddrStr = ''192.0.2.1:443'', st_ServerPk = [], st_Hashes = [], st_ProviderName = ''example.org'',
     st_Path = ''/dns-query'', st_Proto = ProtoDoH\<rparr>"

definition sample_servers :: "(string \<times> string \<times> string) list" where
  "sample_servers = [(''one'', ''The first server'', ''sdns://AgcAAAAAAAAABzEuMC4wLjE''), (''two'', ''Another'', ''sdns://AQcAAAAAAAAADTkuOS45'')]"

definition sample_bin :: bytes where
  "sample_bin = bytes_of (list_text ''Servers'' sample_servers)"

definition list_env :: "int \<Rightarrow> (string, string) source_env" where
  "list_env now = \<lparr>se_newKey = Some, se_verify = (\<lambda>k bin sig. sig = bytes_of k), se_parseURL = Some,
     se_download = (\<lambda>u s. if s then Some (bytes_of ''key'') else Some sample_bin), se_statOk = True, se_fault = None, se_chtimesOk = True,
     se_now = now\<rparr>"

definition loaded_source :: "(string, string) Source" where
  "loaded_source = snd (snd (NewSource (list_env 0) Map.empty ''public'' [''https://example.org/list''] ''key'' ''/var/list'' ''v2'' 0 0 ''p-''))"

lemma loaded_source_fields:
  "loaded_source = \<lparr>so_name = ''public'', so_urls = [''https://example.org/list''], so_bin = sample_bin, so_minisignKey = Some ''key'',
     so_cacheFile = ''/var/list'', so_cacheTTL = DefaultPrefetchDelay, so_prefetchDelay = DefaultPrefetchDelay,
     so_refresh = Some DefaultPrefetchDelay, so_prefix = ''p-''\<rparr>"
  by (simp add: loaded_source_def NewSource_def list_env_def parseURLs_def fetchWithCache_def fetchFromCache_def checkSignature_def
      updateCache_def DefaultPrefetchDelay_def List.map_filter_def Let_def)

lemma sample_servers_ok: "list_all server_ok sample_servers"
  by code_simp

theorem list_reads_back_witness:
  "parseV2 (\<lambda>_. Some sample_stamp) id loaded_source =
     (None, [\<lparr>rs_name = ''p-one'', rs_stamp = sample_stamp, ls_description = ''The first server''\<rparr>,
             \<lparr>rs_name = ''p-two'', rs_stamp = sample_stamp, ls_description = ''Another''\<rparr>])"
  using list_reads_back [of sample_servers "''Servers''" "\<lambda>_. Some sample_stamp" "[sample_stamp, sample_stamp]" loaded_source id, OF sample_servers_ok]
  by (simp add: loaded_source_fields sample_bin_def sample_servers_def)

lemma loaded_source_reached: "source_reach (\<lambda>k bin sig. sig = bytes_of k) loaded_source"
proof (rule source_reach.made)
  show "se_verify (list_env 0) = (\<lambda>k bin sig. sig = bytes_of k)" by (simp add: list_env_def)
  show "NewSource (list_env 0) Map.empty ''public'' [''https://example.org/list''] ''key'' ''/var/list'' ''v2'' 0 0 ''p-'' =
      (fst (NewSource (list_env 0) Map.empty ''public'' [''https://example.org/list''] ''key'' ''/var/list'' ''v2'' 0 0 ''p-''),
       fst (snd (NewSource (list_env 0) Map.empty ''public'' [''https://example.org/list''] ''key'' ''/var/list'' ''v2'' 0 0 ''p-'')), loaded_source)"
    by (simp add: loaded_source_def)
qed

lemma sample_servers_parse:
  "\<lparr>rs_name = ''p-two'', rs_stamp = sample_stamp, ls_description = ''Another''\<rparr> \<in> set (snd (parseV2 (\<lambda>_. Some sample_stamp) id loaded_source))"
  unfolding parseV2_def loaded_source_fields sample_bin_def
  using parse_part_server_text [of "''one''" "''The first server''" "''sdns://AgcAAAAAAAAABzEuMC4wLjE''" "\<lambda>_. Some sample_stamp" sample_stamp]
    parse_part_server_text [of "''two''" "''Another''" "''sdns://AQcAAAAAAAAADTkuOS45''" "\<lambda>_. Some sample_stamp" sample_stamp] sample_servers_ok
  by (simp add: split_list_text [OF sample_servers_ok]) (simp add: sample_servers_def)

theorem servers_come_from_signed_lists_witness:
  "\<exists>k sig. so_minisignKey loaded_source = Some k \<and> sig = bytes_of k"
  using servers_come_from_signed_lists [OF loaded_source_reached sample_servers_parse] .

theorem refresh_is_scheduled_witness:
  "\<exists>t. so_refresh (snd (snd (fetchWithCache (list_env 5) Map.empty loaded_source))) = Some t \<and> t > 5 \<and> t \<le> 5 + DefaultPrefetchDelay"
  using refresh_is_scheduled [of "list_env 5" Map.empty loaded_source "fst (fetchWithCache (list_env 5) Map.empty loaded_source)"
    "fst (snd (fetchWithCache (list_env 5) Map.empty loaded_source))" "snd (snd (fetchWithCache (list_env 5) Map.empty loaded_source))"]
  by (simp add: loaded_source_fields list_env_def)

end
