(* ===== verification/Dc_Dns64.thy ===== *)
theory Dc_Dns64
  imports Dc_Plugins
begin

text \<open>
  \<open>pkg/dnscrypt/plugin_dns64.go\<close>: IPv6 addresses made from the IPv4 addresses of a name, for networks that reach IPv4 through a
  NAT64 gateway. The query for the IPv4 addresses runs through the proxy itself; its answer, the answers of the resolvers asked for the
  gateway's prefixes and the admission of one more client are arguments.
\<close>

section \<open>Translation\<close>

text \<open>A network is its address, of 4 or 16 bytes, and the length of its mask.\<close>

type_synonym ip_net = "net_IP \<times> nat"

fun translate_loop :: "bytes \<Rightarrow> nat list \<Rightarrow> nat \<Rightarrow> bytes \<Rightarrow> ('e, bytes) outcome" where
  "translate_loop ipv4 [] ipShift ipv6 = Ret ipv6"
| "translate_loop ipv4 (i # is) ipShift ipv6 =
     (let ipShift = (if ipShift + i = 8 then ipShift + 1 else ipShift) in
      if i < length ipv4 \<and> ipShift + i < length ipv6 then translate_loop ipv4 is ipShift (ipv6[ipShift + i := ipv4 ! i])
      else Panic)"

definition translateToIPv6 :: "bytes \<Rightarrow> ip_net \<Rightarrow> ('e, bytes) outcome" where
  "translateToIPv6 ipv4 pref =
     (let ipv6 = take 16 (fst pref) @ replicate (16 - length (fst pref)) 0 in
      translate_loop ipv4 [0..<4] (snd pref div 8) ipv6)"

section \<open>The prefixes of the gateway\<close>

datatype dns64_error =
    NoListenAddress
  | BadPrefix string
  | PrefixTooLong string
  | PrefixExchange
  | NoPrefixAnswer
  | EmptyPref64

record PluginDNS64 =
  pref64 :: "ip_net list"
  dns64Resolvers :: "string list"
  ipv4Resolver :: string

definition new_DNS64 :: PluginDNS64 where
  "new_DNS64 = \<lparr>pref64 = [], dns64Resolvers = [], ipv4Resolver = []\<rparr>"

definition rfc7050WKA1 :: bytes where
  "rfc7050WKA1 = [192, 0, 0, 170]"

definition rfc7050WKA2 :: bytes where
  "rfc7050WKA2 = [192, 0, 0, 171]"

definition is_wka :: "bytes \<Rightarrow> nat list \<Rightarrow> bool" where
  "is_wka ipv6 ps = (let wka = map ((!) ipv6) ps in wka = rfc7050WKA1 \<or> wka = rfc7050WKA2)"

definition prefEnd :: "bytes \<Rightarrow> nat" where
  "prefEnd ipv6 =
     (if is_wka ipv6 [12, 13, 14, 15] then 12
      else if is_wka ipv6 [9, 10, 11, 12] then 8
      else if is_wka ipv6 [7, 9, 10, 11] then 7
      else if is_wka ipv6 [6, 7, 9, 10] then 6
      else if is_wka ipv6 [5, 6, 7, 9] then 5
      else if is_wka ipv6 [4, 5, 6, 7] then 4
      else 0)"

definition answer_prefix :: "RR \<Rightarrow> ip_net option" where
  "answer_prefix answer =
     (case rr_Data answer of
        RD_AAAA a \<Rightarrow>
          let ipv6 = AsSlice a; n = prefEnd ipv6 in
          if length ipv6 = 16 \<and> n > 0 then Some (take n ipv6 @ replicate (16 - n) 0, n * 8) else None
      | _ \<Rightarrow> None)"

text \<open>Networks print alike exactly when they are the same here: all have 16 bytes.\<close>

definition add_prefix :: "ip_net list \<Rightarrow> RR \<Rightarrow> ip_net list" where
  "add_prefix ps answer =
     (case answer_prefix answer of None \<Rightarrow> ps | Some p \<Rightarrow> if p \<in> set ps then ps else ps @ [p])"

text \<open>\<open>exchange\<close> is what asking the resolver for \<open>ipv4only.arpa\<close> gave: an error, or a message that may be missing.\<close>

definition fetchPref64 :: "(string \<Rightarrow> Msg option option) \<Rightarrow> string \<Rightarrow> PluginDNS64 \<Rightarrow> dns64_error option \<times> PluginDNS64" where
  "fetchPref64 exchange resolver plugin =
     (case exchange resolver of
        None \<Rightarrow> (Some PrefixExchange, plugin)
      | Some None \<Rightarrow> (Some NoPrefixAnswer, plugin)
      | Some (Some resp) \<Rightarrow>
          if msg_Rcode resp \<noteq> RcodeSuccess then (Some NoPrefixAnswer, plugin)
          else
            let prefs = foldl add_prefix [] (msg_Answer resp) in
            if prefs = [] then (Some EmptyPref64, plugin) else (None, plugin\<lparr>pref64 := prefs\<rparr>))"

fun try_resolvers :: "(string \<Rightarrow> Msg option option) \<Rightarrow> string list \<Rightarrow> PluginDNS64 \<Rightarrow> PluginDNS64" where
  "try_resolvers exchange [] plugin = plugin"
| "try_resolvers exchange (resolver # rest) plugin =
     (case fetchPref64 exchange resolver plugin of
        (None, plugin) \<Rightarrow> plugin
      | (Some _, plugin) \<Rightarrow> try_resolvers exchange rest plugin)"

definition refreshPref64 :: "(string \<Rightarrow> Msg option option) \<Rightarrow> PluginDNS64 \<Rightarrow> dns64_error option \<times> PluginDNS64" where
  "refreshPref64 exchange plugin =
     (let plugin = try_resolvers exchange (dns64Resolvers plugin) plugin in
      (if pref64 plugin = [] then Some EmptyPref64 else None, plugin))"

fun add_prefixes :: "string list \<Rightarrow> PluginDNS64 \<Rightarrow> dns64_error option \<times> PluginDNS64" where
  "add_prefixes [] plugin = (None, plugin)"
| "add_prefixes (prefStr # rest) plugin =
     (case ParseCIDR prefStr of
        None \<Rightarrow> (Some (BadPrefix prefStr), plugin)
      | Some pref \<Rightarrow>
          if snd pref > 96 then (Some (PrefixTooLong prefStr), plugin)
          else add_prefixes rest (plugin\<lparr>pref64 := pref64 plugin @ [pref]\<rparr>))"

definition PluginDNS64_Init ::
  "(string \<Rightarrow> Msg option option) \<Rightarrow> string list \<Rightarrow> string list \<Rightarrow> string list \<Rightarrow> PluginDNS64 \<Rightarrow> dns64_error option \<times> PluginDNS64" where
  "PluginDNS64_Init exchange listenAddresses dns64Prefixes resolvers plugin =
     (case listenAddresses of
        [] \<Rightarrow> (Some NoListenAddress, plugin)
      | a # _ \<Rightarrow>
          let plugin = plugin\<lparr>ipv4Resolver := a\<rparr> in
          if dns64Prefixes \<noteq> [] then add_prefixes dns64Prefixes plugin
          else if resolvers \<noteq> [] then refreshPref64 exchange (plugin\<lparr>dns64Resolvers := resolvers\<rparr>)
          else (None, plugin))"

section \<open>Answering\<close>

definition hasAAAAAnswer :: "Msg \<Rightarrow> bool" where
  "hasAAAAAnswer msg = list_ex (\<lambda>answer. RRToType answer = TypeAAAA) (msg_Answer msg)"

definition initialTTL :: "RR list \<Rightarrow> u32" where
  "initialTTL ns = foldl (\<lambda>t r. if RRToType r = TypeSOA then rr_TTL r else t) 600 ns"

fun synth_prefixes :: "RR \<Rightarrow> u32 \<Rightarrow> bytes \<Rightarrow> ip_net list \<Rightarrow> ('e, RR list) outcome" where
  "synth_prefixes answer ttl ipv4 [] = Ret []"
| "synth_prefixes answer ttl ipv4 (pref # rest) =
     obind (translateToIPv6 ipv4 pref) (\<lambda>ipv6.
     obind (synth_prefixes answer ttl ipv4 rest) (\<lambda>rrs.
       Ret (\<lparr>rr_Name = rr_Name answer, rr_Class = rr_Class answer, rr_TTL = ttl, rr_Data = RD_AAAA (Addr6 ipv6)\<rparr> # rrs)))"

definition synth_answer :: "ip_net list \<Rightarrow> u32 \<Rightarrow> RR \<Rightarrow> ('e, RR list) outcome" where
  "synth_answer prefs ttl0 answer =
     (case rr_Data answer of
        RD_CNAME _ \<Rightarrow> Ret [answer]
      | RD_A a \<Rightarrow> if length (AsSlice a) = 4 then synth_prefixes answer (min ttl0 (rr_TTL answer)) (AsSlice a) prefs else Ret []
      | _ \<Rightarrow> Ret [])"

fun synth64 :: "ip_net list \<Rightarrow> u32 \<Rightarrow> RR list \<Rightarrow> ('e, RR list) outcome" where
  "synth64 prefs ttl0 [] = Ret []"
| "synth64 prefs ttl0 (answer # rest) =
     obind (synth_answer prefs ttl0 answer) (\<lambda>xs. obind (synth64 prefs ttl0 rest) (\<lambda>ys. Ret (xs @ ys)))"

text \<open>
  \<open>newMsg\<close> is \<open>dns.NewMsg(name, TypeA)\<close>, \<open>admitted\<close> what \<open>clientsCountInc\<close> said, and \<open>trampoline\<close> the answer of the proxy to the
  query. The message and the state change only at the end, so an error leaves them as they were.
\<close>

definition PluginDNS64_Eval ::
  "dns_package \<Rightarrow> (string \<Rightarrow> Msg) \<Rightarrow> bool \<Rightarrow> (bytes \<Rightarrow> bytes) \<Rightarrow> ip_net list \<Rightarrow> PluginsState \<Rightarrow> Msg \<Rightarrow> (msg_error, PluginsState \<times> Msg) outcome" where
  "PluginDNS64_Eval D newMsg admitted trampoline prefs s msg =
     (if hasAAAAAnswer msg then Ret (s, msg)
      else
        case questionMsg s of
          None \<Rightarrow> Panic
        | Some q \<Rightarrow>
            (case msg_Question q of
               [] \<Rightarrow> Panic
             | question # _ \<Rightarrow>
                 if rr_Class question \<noteq> ClassINET \<or> RRToType question \<noteq> TypeAAAA then Ret (s, msg)
                 else
                   (case Pack D ((newMsg (rr_Name question))\<lparr>msg_ID := msg_ID q, msg_RecursionDesired := msg_RecursionDesired q\<rparr>) of
                      None \<Rightarrow> Fail BadPacket
                    | Some msgAPacket \<Rightarrow>
                        if \<not> admitted then Fail (PluginError ''Too many concurrent connections to handle DNS64 subqueries'')
                        else
                          let respPacket = trampoline msgAPacket in
                          if respPacket = [] then Fail (PluginError ''Empty response from DNS64 trampoline query'')
                          else
                            (case Unpack D respPacket of
                               None \<Rightarrow> Fail BadPacket
                             | Some resp \<Rightarrow>
                                 if msg_Rcode resp \<noteq> RcodeSuccess \<or> msg_Answer resp = [] then Ret (s, msg)
                                 else
                                   obind (synth64 prefs (initialTTL (msg_Ns resp)) (msg_Answer resp)) (\<lambda>rrs.
                                     Ret (s\<lparr>returnCode := PluginsReturnCodeCloak\<rparr>,
                                          msg\<lparr>msg_Answer := rrs, msg_AuthenticatedData := False,
                                              msg_UDPSize := word_of_int MaxDNSUDPSafePacketSize\<rparr>))))))"

section \<open>Well-placed addresses\<close>

text \<open>
  RFC 6052: the IPv4 address follows the prefix and steps over the ninth byte, which stays zero. The lengths are those the RFC allows.
\<close>

definition rfc6052_length :: "nat \<Rightarrow> bool" where
  "rfc6052_length n \<longleftrightarrow> n \<in> {32, 40, 48, 56, 64, 96}"

definition rfc6052 :: "bytes \<Rightarrow> ip_net \<Rightarrow> bytes" where
  "rfc6052 ipv4 pref =
     (let k = snd pref div 8 in
      if k = 12 then take 12 (fst pref) @ ipv4
      else take k (fst pref) @ take (8 - k) ipv4 @ [0] @ drop (8 - k) ipv4 @ replicate (11 - k) 0)"

text \<open>A network whose address has 16 bytes, the bytes behind its prefix zero.\<close>

definition net_ok :: "ip_net \<Rightarrow> bool" where
  "net_ok p \<longleftrightarrow> length (fst p) = 16 \<and> list_all (\<lambda>b. b = 0) (drop (snd p div 8) (fst p))"

definition embedded :: "nat \<Rightarrow> bytes \<Rightarrow> bytes" where
  "embedded n b = map (\<lambda>i. b ! (let j = n div 8 + i in if n div 8 \<le> 8 \<and> j \<ge> 8 then j + 1 else j)) [0..<4]"

lemma list16:
  assumes "length (xs :: 'a list) = 16"
  obtains a b c d e f g h i j k l m n q r where "xs = [a, b, c, d, e, f, g, h, i, j, k, l, m, n, q, r]"
  using assms by (auto simp: numeral_eq_Suc length_Suc_conv)

lemma list4:
  assumes "length (xs :: 'a list) = 4"
  obtains a b c d where "xs = [a, b, c, d]"
  using assms by (auto simp: numeral_eq_Suc length_Suc_conv)

lemma upt4: "[0..<4] = [0, 1, 2, 3 :: nat]"
  by (simp add: upt_conv_Cons numeral_eq_Suc)

lemma upd_num: "(x # xs)[numeral n := y] = x # xs[pred_numeral n := y]"
  by (simp add: numeral_eq_Suc)

lemma rep_num: "replicate (numeral n) y = y # replicate (pred_numeral n) y"
  by (simp add: numeral_eq_Suc)

text \<open>No prefix of at most 96 bits sends a byte past the end.\<close>

lemma translate_total:
  assumes "length ipv4 = 4" and "snd p \<le> 96"
  shows "\<exists>r. translateToIPv6 ipv4 p = Ret r \<and> length r = 16"
proof -
  have k: "snd p div 8 < 13" using assms(2) by linarith
  then show ?thesis using assms(1) by (auto simp: translateToIPv6_def upt4 Let_def)
qed

lemma translate_rfc6052:
  assumes "length ipv4 = 4" and "net_ok p" and "rfc6052_length (snd p)"
  shows "translateToIPv6 ipv4 p = Ret (rfc6052 ipv4 p)"
proof -
  obtain w x y z where v4: "ipv4 = [w, x, y, z]" using assms(1) by (rule list4)
  from assms(2) have "length (fst p) = 16" by (simp add: net_ok_def)
  then obtain a b c d e f g h i j k l m n q r where v6: "fst p = [a, b, c, d, e, f, g, h, i, j, k, l, m, n, q, r]" by (rule list16)
  show ?thesis
    using assms(2,3) unfolding rfc6052_length_def
    by (elim insertE; simp add: translateToIPv6_def upt4 v4 v6 rfc6052_def net_ok_def Let_def upd_num rep_num)
qed

lemma embedded_rfc6052:
  assumes "length ipv4 = 4" and "net_ok p" and "rfc6052_length (snd p)"
  shows "embedded (snd p) (rfc6052 ipv4 p) = ipv4"
proof -
  obtain w x y z where v4: "ipv4 = [w, x, y, z]" using assms(1) by (rule list4)
  from assms(2) have "length (fst p) = 16" by (simp add: net_ok_def)
  then obtain a b c d e f g h i j k l m n q r where v6: "fst p = [a, b, c, d, e, f, g, h, i, j, k, l, m, n, q, r]" by (rule list16)
  show ?thesis
    using assms(2,3) unfolding rfc6052_length_def
    by (elim insertE; simp add: embedded_def upt4 v4 v6 rfc6052_def net_ok_def Let_def upd_num rep_num)
qed

section \<open>Discovery\<close>

lemma prefEnd_rfc6052:
  assumes "wka = rfc7050WKA1 \<or> wka = rfc7050WKA2" and "net_ok p" and "rfc6052_length (snd p)"
  shows "prefEnd (rfc6052 wka p) = snd p div 8"
proof -
  obtain x where wka: "wka = [192, 0, 0, x]" and x: "x = 170 \<or> x = 171" using assms(1) by (auto simp: rfc7050WKA1_def rfc7050WKA2_def)
  from assms(2) have "length (fst p) = 16" by (simp add: net_ok_def)
  then obtain a b c d e f g h i j k l m n q r where v6: "fst p = [a, b, c, d, e, f, g, h, i, j, k, l, m, n, q, r]" by (rule list16)
  show ?thesis
    using assms(2,3) x unfolding rfc6052_length_def
    by (elim insertE disjE; simp add: prefEnd_def is_wka_def rfc7050WKA1_def rfc7050WKA2_def wka v6 rfc6052_def net_ok_def Let_def upd_num rep_num)
qed

lemma take_rfc6052:
  assumes "net_ok p" and "rfc6052_length (snd p)"
  shows "take (snd p div 8) (rfc6052 wka p) @ replicate (16 - snd p div 8) 0 = fst p"
proof -
  from assms(1) have "length (fst p) = 16" by (simp add: net_ok_def)
  then obtain a b c d e f g h i j k l m n q r where v6: "fst p = [a, b, c, d, e, f, g, h, i, j, k, l, m, n, q, r]" by (rule list16)
  show ?thesis
    using assms unfolding rfc6052_length_def
    by (elim insertE; simp add: v6 rfc6052_def net_ok_def Let_def upd_num rep_num)
qed

lemma length_rfc6052:
  assumes "length ipv4 = 4" and "net_ok p" and "rfc6052_length (snd p)"
  shows "length (rfc6052 ipv4 p) = 16"
  using assms by (auto simp: rfc6052_def net_ok_def rfc6052_length_def Let_def)

definition gateway_ok :: "bytes \<times> ip_net \<Rightarrow> bool" where
  "gateway_ok = (\<lambda>(wka, p). (wka = rfc7050WKA1 \<or> wka = rfc7050WKA2) \<and> net_ok p \<and> rfc6052_length (snd p))"

lemma answer_prefix_rfc6052:
  assumes "gateway_ok (wka, p)" and "rr_Data answer = RD_AAAA (Addr6 (rfc6052 wka p))"
  shows "answer_prefix answer = Some p"
proof -
  have "length wka = 4" using assms(1) by (auto simp: gateway_ok_def rfc7050WKA1_def rfc7050WKA2_def)
  moreover have "snd p div 8 * 8 = snd p" "snd p div 8 > 0" using assms(1) by (auto simp: gateway_ok_def rfc6052_length_def)
  ultimately show ?thesis
    using assms prefEnd_rfc6052 [of wka p] take_rfc6052 [of p wka] length_rfc6052 [of wka p]
    by (simp add: answer_prefix_def gateway_ok_def AsSlice_def Let_def)
qed

lemma foldl_add_prefix:
  assumes "distinct ps" and "list_all gateway_ok gs" and "map rr_Data answers = map (\<lambda>(wka, p). RD_AAAA (Addr6 (rfc6052 wka p))) gs"
  shows "distinct (foldl add_prefix ps answers) \<and> set (foldl add_prefix ps answers) = set ps \<union> snd ` set gs"
  using assms
proof (induction gs arbitrary: ps answers)
  case (Cons g gs)
  obtain wka p where g: "g = (wka, p)" by (cases g)
  with Cons.prems(3) obtain a as where as: "answers = a # as" "rr_Data a = RD_AAAA (Addr6 (rfc6052 wka p))"
    "map rr_Data as = map (\<lambda>(wka, p). RD_AAAA (Addr6 (rfc6052 wka p))) gs" by (cases answers) auto
  have "answer_prefix a = Some p" using Cons.prems(2) as(2) g by (auto intro: answer_prefix_rfc6052)
  then show ?case
    using Cons.IH [of "add_prefix ps a" as] Cons.prems as g by (auto simp: add_prefix_def split: if_splits)
qed simp

text \<open>Whatever a resolver answers, a discovered prefix is one the translation places as the RFC says.\<close>

lemma prefEnd_lengths: "prefEnd b \<in> {0, 4, 5, 6, 7, 8, 12}"
  by (auto simp: prefEnd_def)

lemma answer_prefix_ok:
  assumes "answer_prefix answer = Some p"
  shows "net_ok p \<and> rfc6052_length (snd p)"
proof -
  obtain a where p: "p = (take (prefEnd (AsSlice a)) (AsSlice a) @ replicate (16 - prefEnd (AsSlice a)) 0, prefEnd (AsSlice a) * 8)"
      and "length (AsSlice a) = 16" "prefEnd (AsSlice a) > 0"
    using assms by (auto simp: answer_prefix_def Let_def split: rr_data.splits if_splits)
  then show ?thesis
    using prefEnd_lengths [of "AsSlice a"] by (auto simp: net_ok_def rfc6052_length_def list_all_iff)
qed

definition prefs_ok :: "ip_net list \<Rightarrow> bool" where
  "prefs_ok ps \<longleftrightarrow> list_all (\<lambda>p. net_ok p \<and> rfc6052_length (snd p)) ps"

lemma foldl_add_prefix_ok: "prefs_ok ps \<Longrightarrow> prefs_ok (foldl add_prefix ps answers)"
proof (induction answers arbitrary: ps)
  case (Cons a as)
  have "prefs_ok (add_prefix ps a)"
    using Cons.prems answer_prefix_ok [of a] by (auto simp: add_prefix_def prefs_ok_def split: option.splits)
  then show ?case using Cons.IH by simp
qed simp

lemma try_resolvers_ok: "prefs_ok (pref64 pl) \<Longrightarrow> prefs_ok (pref64 (try_resolvers exchange rs pl))"
proof (induction rs arbitrary: pl)
  case (Cons r rs)
  have "prefs_ok (pref64 (snd (fetchPref64 exchange r pl)))"
    using Cons.prems foldl_add_prefix_ok [of "[]"] by (auto simp: fetchPref64_def prefs_ok_def Let_def split: option.splits)
  then show ?case using Cons.IH by (auto split: prod.splits option.splits)
qed simp

text \<open>
  C30: a gateway's prefixes are discovered exactly. When a resolver answers the query for \<open>ipv4only.arpa\<close> with the well-known IPv4
  addresses placed behind the gateway's prefixes, of any length of RFC 6052, the plugin registers these prefixes, each once and no other.
\<close>

theorem discovered_prefixes_exact:
  assumes "exchange resolver = Some (Some resp)" and "msg_Rcode resp = RcodeSuccess"
    and "list_all gateway_ok gs" and "gs \<noteq> []"
    and "map rr_Data (msg_Answer resp) = map (\<lambda>(wka, p). RD_AAAA (Addr6 (rfc6052 wka p))) gs"
  shows "\<exists>ps. fetchPref64 exchange resolver plugin = (None, plugin\<lparr>pref64 := ps\<rparr>) \<and> distinct ps \<and> set ps = snd ` set gs"
proof -
  let ?ps = "foldl add_prefix [] (msg_Answer resp)"
  have "distinct ?ps \<and> set ?ps = snd ` set gs" using foldl_add_prefix [of "[]" gs "msg_Answer resp"] assms(3,5) by simp
  moreover from this have "?ps \<noteq> []" using assms(4) by (metis empty_set image_is_empty set_empty)
  ultimately show ?thesis using assms(1,2) by (auto simp: fetchPref64_def Let_def)
qed

section \<open>Synthesis\<close>

definition synthesized :: "ip_net list \<Rightarrow> u32 \<Rightarrow> RR \<Rightarrow> RR list" where
  "synthesized prefs ttl0 answer =
     (case rr_Data answer of
        RD_CNAME _ \<Rightarrow> [answer]
      | RD_A (Addr4 ipv4) \<Rightarrow>
          map (\<lambda>p. answer\<lparr>rr_TTL := min ttl0 (rr_TTL answer), rr_Data := RD_AAAA (Addr6 (rfc6052 ipv4 p))\<rparr>) prefs
      | _ \<Rightarrow> [])"

lemma synth_prefixes_spec:
  "length ipv4 = 4 \<Longrightarrow> prefs_ok prefs \<Longrightarrow>
   synth_prefixes answer ttl ipv4 prefs = Ret (map (\<lambda>p. answer\<lparr>rr_TTL := ttl, rr_Data := RD_AAAA (Addr6 (rfc6052 ipv4 p))\<rparr>) prefs)"
  by (induction prefs) (auto simp: translate_rfc6052 prefs_ok_def)

definition a_ok :: "RR \<Rightarrow> bool" where
  "a_ok answer = (case rr_Data answer of RD_A a \<Rightarrow> Is4 a \<and> wf_addr a | _ \<Rightarrow> True)"

lemma synth64_spec:
  assumes "prefs_ok prefs" and "list_all a_ok answers"
  shows "(synth64 prefs ttl0 answers :: ('e, RR list) outcome) = Ret (concat (map (synthesized prefs ttl0) answers))"
  using assms(2)
proof (induction answers)
  case (Cons a as)
  have "(synth_answer prefs ttl0 a :: ('e, RR list) outcome) = Ret (synthesized prefs ttl0 a)"
    using Cons.prems assms(1)
    by (auto simp: synth_answer_def synthesized_def a_ok_def Is4_def wf_addr_def AsSlice_def synth_prefixes_spec
        split: rr_data.splits netip_addr.splits)
  then show ?case using Cons by simp
qed simp

text \<open>
  C31: an IPv6 client gets an address for every IPv4 address. With prefixes found by discovery, a query for IPv6 addresses whose
  response has none is answered with the IPv4 answers of the same name: aliases as they are, and for each IPv4 address and each prefix
  the address of RFC 6052, from which the gateway reads that IPv4 address back, kept no longer than the IPv4 answer; the message no
  longer claims to be authenticated.
\<close>

theorem dns64_answers_reach_gateway:
  assumes "prefs = pref64 (try_resolvers exchange resolvers new_DNS64)"
    and "\<not> hasAAAAAnswer msg" and "questionMsg s = Some q" and "msg_Question q = [question]"
    and "rr_Class question = ClassINET" and "RRToType question = TypeAAAA"
    and "Pack D ((newMsg (rr_Name question))\<lparr>msg_ID := msg_ID q, msg_RecursionDesired := msg_RecursionDesired q\<rparr>) = Some packet"
    and "trampoline packet = reply" and "reply \<noteq> []" and "Unpack D reply = Some resp"
    and "msg_Rcode resp = RcodeSuccess" and "msg_Answer resp \<noteq> []" and "list_all a_ok (msg_Answer resp)"
  shows "\<exists>s' msg'. PluginDNS64_Eval D newMsg True trampoline prefs s msg = Ret (s', msg') \<and>
    msg_Answer msg' = concat (map (synthesized prefs (initialTTL (msg_Ns resp))) (msg_Answer resp)) \<and>
    \<not> msg_AuthenticatedData msg' \<and>
    (\<forall>ipv4 p. length ipv4 = 4 \<longrightarrow> p \<in> set prefs \<longrightarrow> embedded (snd p) (rfc6052 ipv4 p) = ipv4)"
proof -
  have ok: "prefs_ok prefs" using try_resolvers_ok [of new_DNS64] by (simp add: assms(1) new_DNS64_def prefs_ok_def)
  then have "\<forall>ipv4 p. length ipv4 = 4 \<longrightarrow> p \<in> set prefs \<longrightarrow> embedded (snd p) (rfc6052 ipv4 p) = ipv4"
    by (auto simp: prefs_ok_def list_all_iff embedded_rfc6052)
  then show ?thesis
    using assms(2-) synth64_spec [OF ok assms(13), where 'e = msg_error] by (simp add: PluginDNS64_Eval_def Let_def)
qed

section \<open>Examples\<close>

definition well_known :: ip_net where
  "well_known = ([0x00, 0x64, 0xff, 0x9b, 0, 0, 0, 0, 0, 0, 0, 0, 0, 0, 0, 0], 96)"

definition short_net :: ip_net where
  "short_net = ([0x20, 0x01, 0x0d, 0xb8, 0x01, 0, 0, 0, 0, 0, 0, 0, 0, 0, 0, 0], 40)"

definition prefix_answers :: Msg where
  "prefix_answers = empty_Msg\<lparr>msg_Answer :=
     map (\<lambda>(wka, p). \<lparr>rr_Name = ''ipv4only.arpa.'', rr_Class = ClassINET, rr_TTL = 60, rr_Data = RD_AAAA (Addr6 (rfc6052 wka p))\<rparr>)
       [(rfc7050WKA1, well_known), (rfc7050WKA2, well_known), (rfc7050WKA2, short_net)]\<rparr>"

theorem discovered_prefixes_exact_witness:
  "\<exists>ps. fetchPref64 (\<lambda>_. Some (Some prefix_answers)) ''[2001:db8::53]:53'' new_DNS64 = (None, new_DNS64\<lparr>pref64 := ps\<rparr>) \<and>
     distinct ps \<and> set ps = {well_known, short_net}"
  using discovered_prefixes_exact [of "\<lambda>_. Some (Some prefix_answers)" "''[2001:db8::53]:53''" prefix_answers
    "[(rfc7050WKA1, well_known), (rfc7050WKA2, well_known), (rfc7050WKA2, short_net)]" new_DNS64]
  by (simp add: prefix_answers_def empty_Msg_def gateway_ok_def net_ok_def rfc6052_length_def well_known_def short_net_def)

definition a_response :: Msg where
  "a_response = empty_Msg\<lparr>msg_Answer :=
     [\<lparr>rr_Name = ''www.example.org.'', rr_Class = ClassINET, rr_TTL = 300, rr_Data = RD_CNAME ''example.org.''\<rparr>,
      \<lparr>rr_Name = ''example.org.'', rr_Class = ClassINET, rr_TTL = 900, rr_Data = RD_A (Addr4 [192, 0, 2, 33])\<rparr>]\<rparr>"

definition aaaa_state :: PluginsState where
  "aaaa_state = (NewPluginsState sample_ttls ''udp'' None ''udp'')\<lparr>questionMsg := Some (empty_Msg\<lparr>msg_Question :=
     [\<lparr>rr_Name = ''www.example.org.'', rr_Class = ClassINET, rr_TTL = 0, rr_Data = RD_AAAA InvalidAddr\<rparr>]\<rparr>)\<rparr>"

lemma prefixes_of_answers: "pref64 (try_resolvers (\<lambda>_. Some (Some prefix_answers)) [''r''] new_DNS64) = [well_known, short_net]"
  by code_simp

theorem dns64_answers_reach_gateway_witness:
  "\<exists>s' msg'. PluginDNS64_Eval \<lparr>Unpack = (\<lambda>_. Some a_response), Pack = (\<lambda>_. Some [1]), EqualName = (=)\<rparr> (\<lambda>_. empty_Msg) True id
       [well_known, short_net] aaaa_state empty_Msg = Ret (s', msg') \<and>
     map rr_Data (msg_Answer msg') =
       [RD_CNAME ''example.org.'', RD_AAAA (Addr6 [0x00, 0x64, 0xff, 0x9b, 0, 0, 0, 0, 0, 0, 0, 0, 192, 0, 2, 33]),
        RD_AAAA (Addr6 [0x20, 0x01, 0x0d, 0xb8, 0x01, 192, 0, 2, 0, 33, 0, 0, 0, 0, 0, 0])]"
proof -
  have c: "concat (map (synthesized [well_known, short_net] (initialTTL (msg_Ns a_response))) (msg_Answer a_response)) =
      [\<lparr>rr_Name = ''www.example.org.'', rr_Class = ClassINET, rr_TTL = 300, rr_Data = RD_CNAME ''example.org.''\<rparr>,
       \<lparr>rr_Name = ''example.org.'', rr_Class = ClassINET, rr_TTL = 600,
        rr_Data = RD_AAAA (Addr6 [0x00, 0x64, 0xff, 0x9b, 0, 0, 0, 0, 0, 0, 0, 0, 192, 0, 2, 33])\<rparr>,
       \<lparr>rr_Name = ''example.org.'', rr_Class = ClassINET, rr_TTL = 600,
        rr_Data = RD_AAAA (Addr6 [0x20, 0x01, 0x0d, 0xb8, 0x01, 192, 0, 2, 0, 33, 0, 0, 0, 0, 0, 0])\<rparr>]"
    by code_simp
  have "\<exists>s' msg'. PluginDNS64_Eval \<lparr>Unpack = (\<lambda>_. Some a_response), Pack = (\<lambda>_. Some [1]), EqualName = (=)\<rparr> (\<lambda>_. empty_Msg) True id
       [well_known, short_net] aaaa_state empty_Msg = Ret (s', msg') \<and>
     msg_Answer msg' = concat (map (synthesized [well_known, short_net] (initialTTL (msg_Ns a_response))) (msg_Answer a_response)) \<and>
     \<not> msg_AuthenticatedData msg' \<and>
     (\<forall>ipv4 p. length ipv4 = 4 \<longrightarrow> p \<in> set [well_known, short_net] \<longrightarrow> embedded (snd p) (rfc6052 ipv4 p) = ipv4)"
    by (rule dns64_answers_reach_gateway [OF prefixes_of_answers [symmetric], where packet = "[1]" and reply = "[1]"
        and question = "\<lparr>rr_Name = ''www.example.org.'', rr_Class = ClassINET, rr_TTL = 0, rr_Data = RD_AAAA InvalidAddr\<rparr>"
        and q = "the (questionMsg aaaa_state)"])
      (simp_all add: hasAAAAAnswer_def aaaa_state_def RRToType_def a_ok_def Is4_def wf_addr_def a_response_def empty_Msg_def)
  then obtain s' msg' where e: "PluginDNS64_Eval \<lparr>Unpack = (\<lambda>_. Some a_response), Pack = (\<lambda>_. Some [1]), EqualName = (=)\<rparr> (\<lambda>_. empty_Msg) True id
       [well_known, short_net] aaaa_state empty_Msg = Ret (s', msg')"
    and a: "msg_Answer msg' = concat (map (synthesized [well_known, short_net] (initialTTL (msg_Ns a_response))) (msg_Answer a_response))"
    by blast
  show ?thesis by (intro exI conjI, rule e) (simp add: a c)
qed

text \<open>The configuration accepts prefixes the RFC does not know, and even IPv4 networks; their addresses mean nothing to a gateway.\<close>

lemma accepts_IPv4_network:
  "PluginDNS64_Init (\<lambda>_. None) [''127.0.0.1:53''] [''10.0.0.0/8''] [] new_DNS64 =
     (None, \<lparr>pref64 = [([10, 0, 0, 0], 8)], dns64Resolvers = [], ipv4Resolver = ''127.0.0.1:53''\<rparr>)"
  by code_simp

text \<open>A configured prefix need not have one of the lengths, but no accepted prefix can make the translation fail.\<close>

lemma accepted_prefixes_translate:
  "add_prefixes ss pl = (None, pl') \<Longrightarrow> list_all (\<lambda>p. snd p \<le> 96) (pref64 pl) \<Longrightarrow> list_all (\<lambda>p. snd p \<le> 96) (pref64 pl')"
  by (induction ss arbitrary: pl) (auto split: option.splits if_splits)

section \<open>The query stays in view\<close>

lemma dns64_keeps_query:
  assumes "PluginDNS64_Eval D newMsg admitted trampoline prefs s msg = Ret (s', msg')"
  shows "msg_ID msg' = msg_ID msg \<and> msg_Question msg' = msg_Question msg \<and> questionMsg s' = questionMsg s"
  using assms by (auto simp: PluginDNS64_Eval_def Let_def obind_Ret_conv split: if_splits option.splits list.splits)

end
