(* ===== verification/Go_Encoding.thy ===== *)
theory Go_Encoding
  imports Dc_Common
begin

text \<open>
  Texts of the Go standard library that the WireGuard proxy uses: base64 and hexadecimal texts of keys, and the prefixes of
  \<open>net/netip\<close>.
\<close>

section \<open>Hexadecimal and base64\<close>

definition hex_EncodeToString :: "bytes \<Rightarrow> string" where
  "hex_EncodeToString b = concat (map hex_byte b)"

text \<open>The value of a character of the standard alphabet.\<close>

definition b64_val :: "char \<Rightarrow> nat option" where
  "b64_val c =
     (let n = of_char c :: nat in
      if 65 \<le> n \<and> n \<le> 90 then Some (n - 65)
      else if 97 \<le> n \<and> n \<le> 122 then Some (n - 71)
      else if 48 \<le> n \<and> n \<le> 57 then Some (n + 4)
      else if n = 43 then Some 62
      else if n = 47 then Some 63
      else None)"

definition byte1 :: "nat \<Rightarrow> nat \<Rightarrow> byte" where
  "byte1 x y = of_nat (x * 4 + y div 16)"

definition byte2 :: "nat \<Rightarrow> nat \<Rightarrow> byte" where
  "byte2 y z = of_nat (y mod 16 * 16 + z div 4)"

definition byte3 :: "nat \<Rightarrow> nat \<Rightarrow> byte" where
  "byte3 z w = of_nat (z mod 4 * 64 + w)"

text \<open>Groups of four; only the last may be padded, and the bits that padding leaves over are ignored.\<close>

fun b64_quads :: "string \<Rightarrow> bytes option" where
  "b64_quads [] = Some []"
| "b64_quads (a # b # c # d # rest) =
     (case (b64_val a, b64_val b) of
        (Some x, Some y) \<Rightarrow>
          if c = CHR ''='' then (if d = CHR ''='' \<and> rest = [] then Some [byte1 x y] else None)
          else
            (case b64_val c of
               None \<Rightarrow> None
             | Some z \<Rightarrow>
                 if d = CHR ''='' then (if rest = [] then Some [byte1 x y, byte2 y z] else None)
                 else
                   (case b64_val d of
                      None \<Rightarrow> None
                    | Some w \<Rightarrow> map_option (\<lambda>r. byte1 x y # byte2 y z # byte3 z w # r) (b64_quads rest)))
      | _ \<Rightarrow> None)"
| "b64_quads _ = None"

text \<open>Line breaks are skipped.\<close>

definition base64_DecodeString :: "string \<Rightarrow> bytes option" where
  "base64_DecodeString s = b64_quads (filter (\<lambda>c. c \<noteq> CHR 0x0A \<and> c \<noteq> CHR 0x0D) s)"

section \<open>Prefixes\<close>

type_synonym prefix = "netip_addr \<times> nat"

definition ParsePrefix :: "string \<Rightarrow> prefix option" where
  "ParsePrefix s =
     (case last_index s (CHR ''/'') of
        None \<Rightarrow> None
      | Some i \<Rightarrow>
          (case ParseAddr (take i s) of
             None \<Rightarrow> None
           | Some (a, z) \<Rightarrow>
               let bitsStr = drop (i + 1) s in
               if z \<noteq> [] then None
               else if length bitsStr > 1 \<and> (\<not> is_digit (bitsStr ! 0) \<or> bitsStr ! 0 = CHR ''0'') then None
               else
                 (case Atoi bitsStr of
                    None \<Rightarrow> None
                  | Some bits \<Rightarrow>
                      if bits < 0 \<or> bits > (if Is4 a then 32 else 128) then None else Some (a, nat bits))))"

section \<open>The encodings are inverse\<close>

definition b64_char :: "nat \<Rightarrow> char" where
  "b64_char n =
     (if n < 26 then char_of (n + 65) else if n < 52 then char_of (n + 71) else if n < 62 then char_of (n - 4)
      else if n = 62 then CHR ''+'' else CHR ''/'')"

fun base64_EncodeToString :: "bytes \<Rightarrow> string" where
  "base64_EncodeToString [] = []"
| "base64_EncodeToString [a] = [b64_char (unat a div 4), b64_char (unat a mod 4 * 16), CHR ''='', CHR ''='']"
| "base64_EncodeToString [a, b] =
     [b64_char (unat a div 4), b64_char (unat a mod 4 * 16 + unat b div 16), b64_char (unat b mod 16 * 4), CHR ''='']"
| "base64_EncodeToString (a # b # c # rest) =
     b64_char (unat a div 4) # b64_char (unat a mod 4 * 16 + unat b div 16) # b64_char (unat b mod 16 * 4 + unat c div 64) #
     b64_char (unat c mod 64) # base64_EncodeToString rest"

lemma b64_char_val [simp]: "n < 64 \<Longrightarrow> b64_val (b64_char n) = Some n"
  by (auto simp: b64_char_def b64_val_def Let_def)

lemma b64_char_plain [simp]:
  assumes "n < 64"
  shows "b64_char n \<noteq> CHR ''=''" "b64_char n \<noteq> CHR 0x0A" "b64_char n \<noteq> CHR 0x0D"
proof -
  have "b64_val (b64_char n) \<noteq> None" using assms by simp
  moreover have "b64_val (CHR ''='') = None" "b64_val (CHR 0x0A) = None" "b64_val (CHR 0x0D) = None" by (simp_all add: b64_val_def)
  ultimately show "b64_char n \<noteq> CHR ''=''" "b64_char n \<noteq> CHR 0x0A" "b64_char n \<noteq> CHR 0x0D" by metis+
qed


lemma byte_parts [simp]:
  fixes a b c :: byte
  shows "unat a div 4 < 64" "unat a mod 4 * 16 + unat b div 16 < 64" "unat b mod 16 * 4 + unat c div 64 < 64" "unat a mod 4 * 16 < 64"
    "unat b mod 16 * 4 < 64"
  using unsigned_less [of a, where 'a = nat] unsigned_less [of b, where 'a = nat] unsigned_less [of c, where 'a = nat] by auto

lemma byte1_parts: "y div 16 = unat a mod 4 \<Longrightarrow> byte1 (unat a div 4) y = a"
proof -
  assume "y div 16 = unat a mod 4"
  then have "unat a div 4 * 4 + y div 16 = unat a" by simp
  then show ?thesis by (simp add: byte1_def del: of_nat_add of_nat_mult)
qed

lemma byte2_parts: "y mod 16 = unat b div 16 \<Longrightarrow> z div 4 = unat b mod 16 \<Longrightarrow> byte2 y z = b"
proof -
  assume "y mod 16 = unat b div 16" "z div 4 = unat b mod 16"
  then have "y mod 16 * 16 + z div 4 = unat b" by simp
  then show ?thesis by (simp add: byte2_def del: of_nat_add of_nat_mult)
qed

lemma byte3_parts: "z mod 4 = unat c div 64 \<Longrightarrow> byte3 z (unat c mod 64) = c"
proof -
  assume "z mod 4 = unat c div 64"
  then have "z mod 4 * 64 + unat c mod 64 = unat c" by simp
  then show ?thesis by (simp add: byte3_def del: of_nat_add of_nat_mult)
qed

lemma byte_high:
  fixes b c :: byte
  shows "unat b div 16 < 16" "unat c div 64 < 4"
  using unsigned_less [of b, where 'a = nat] unsigned_less [of c, where 'a = nat] by auto

lemma quads_encode [simp]: "b64_quads (base64_EncodeToString bs) = Some bs"
proof (induction bs rule: base64_EncodeToString.induct)
  case (4 a b c rest)
  show ?case using 4 byte_high(1) [of b] byte_high(2) [of c] by (simp add: byte1_parts byte2_parts byte3_parts)
qed (use byte_high in \<open>auto simp: byte1_parts byte2_parts\<close>)

lemma encode_plain: "c \<in> set (base64_EncodeToString bs) \<Longrightarrow> c \<noteq> CHR 0x0A \<and> c \<noteq> CHR 0x0D"
  by (induction bs rule: base64_EncodeToString.induct) auto

lemma base64_roundtrip [simp]: "base64_DecodeString (base64_EncodeToString bs) = Some bs"
proof -
  have "filter (\<lambda>c. c \<noteq> CHR 0x0A \<and> c \<noteq> CHR 0x0D) (base64_EncodeToString bs) = base64_EncodeToString bs"
    using encode_plain by (auto intro: filter_True)
  then show ?thesis by (simp add: base64_DecodeString_def)
qed

definition is_hex :: "char \<Rightarrow> bool" where
  "is_hex c \<longleftrightarrow> hex_val c \<noteq> None"

lemma hex_char_hex: "n < 16 \<Longrightarrow> is_hex (hex_char n)"
  by (auto simp: is_hex_def hex_char_def hex_val_def)

lemma hex_text: "list_all is_hex (hex_EncodeToString b)" "length (hex_EncodeToString b) = 2 * length b"
proof -
  have "unat x div 16 < 16" for x :: byte using unsigned_less [of x, where 'a = nat] by simp
  then show "list_all is_hex (hex_EncodeToString b)"
    by (induction b) (auto simp: hex_EncodeToString_def hex_byte_def hex_char_hex)
qed (induction b; simp add: hex_EncodeToString_def hex_byte_def)

end
