(* ===== verification/Wp_Config.thy ===== *)
theory Wp_Config
  imports Go_Encoding
begin

text \<open>
  The configuration of the WireGuard proxy: \<open>pkg/wireproxy/config.go\<close> and the request of \<open>wireguard.go\<close> that it becomes. The INI
  files come from a third-party parser: a section is a map from lower-case key names to the texts of their first values, a file a list of
  named sections in the order of the file. Looking a missing key up with \<open>Key\<close> gives an empty text, with \<open>GetKey\<close> an error.
  The environment, resolution of names, the parser's integers and the loading of files are arguments.
\<close>

section \<open>The INI parser\<close>

type_synonym ini_section = "string \<rightharpoonup> string"

record ini_file =
  ini_root :: ini_section
  ini_sections :: "(string \<times> ini_section) list"

definition GetKey :: "ini_section \<Rightarrow> string \<Rightarrow> string option" where
  "GetKey section name = section (ToLower name)"

definition Key :: "ini_section \<Rightarrow> string \<Rightarrow> string" where
  "Key section name = (case GetKey section name of None \<Rightarrow> [] | Some v \<Rightarrow> v)"

definition SectionsByName :: "ini_file \<Rightarrow> string \<Rightarrow> ini_section list" where
  "SectionsByName cfg name = [s. (n, s) \<leftarrow> ini_sections cfg, n = ToLower name]"

type_synonym tcp_addr = "net_IP \<times> nat"

record wp_env =
  wp_getenv :: "string \<Rightarrow> string option"
  wp_int :: "string \<Rightarrow> int option"
  wp_resolveTCP :: "string \<Rightarrow> tcp_addr option"
  wp_resolveIP :: "string \<Rightarrow> string option"
  wp_load :: "string \<Rightarrow> ini_file option"

section \<open>Configurations\<close>

record PeerConfig =
  pc_PublicKey :: string
  pc_PreSharedKey :: string
  pc_Endpoint :: "string option"
  pc_KeepAlive :: int
  pc_AllowedIPs :: "prefix list"

record DeviceConfig =
  dv_SecretKey :: string
  dv_Endpoint :: "netip_addr list"
  dv_Peers :: "PeerConfig list"
  dv_DNS :: "netip_addr list"
  dv_MTU :: int
  dv_ListenPort :: "int option"
  dv_CheckAlive :: "netip_addr list"
  dv_CheckAliveInterval :: int

record HTTPConfig =
  hc_BindAddress :: string
  hc_Username :: string
  hc_Password :: string
  hc_CertFile :: string
  hc_KeyFile :: string

datatype RoutineSpawner =
    TCPClientTunnelConfig tcp_addr string
  | STDIOTunnelConfig string
  | TCPServerTunnelConfig int string
  | Socks5Config string string string
  | HTTPRoutine HTTPConfig
  | UDPProxyTunnelConfig string string int

record Configuration =
  cf_Device :: DeviceConfig
  cf_Routines :: "RoutineSpawner list"
  cf_ResolveStrategy :: string

section \<open>Values\<close>

datatype wp_error =
    UnsetVariable string string
  | BadInt
  | BadPort
  | Unresolved
  | BadBase64
  | BadKeySize
  | BadAddress
  | BadPrefix
  | InterfaceCount
  | NoPeer
  | AliveIntervalAlone
  | LoadFailed

text \<open>An error whose text mentions an empty value is taken for a missing one; only the name of a variable can bring that text in.\<close>

definition mentions_empty :: "wp_error \<Rightarrow> bool" where
  "mentions_empty e =
     (case e of
        UnsetVariable keyName value \<Rightarrow> contains (keyName @ '' references unset environment variable '' @ value) ''should not be empty''
      | _ \<Rightarrow> False)"

definition parseString :: "wp_env \<Rightarrow> ini_section \<Rightarrow> string \<Rightarrow> wp_error + string" where
  "parseString E section keyName =
     (let value = Key section keyName in
      if has_prefix value ''$'' then
        if has_prefix value ''$$'' then Inr (tl value)
        else (case wp_getenv E (tl value) of None \<Rightarrow> Inl (UnsetVariable keyName value) | Some v \<Rightarrow> Inr v)
      else Inr value)"

definition parsePort :: "wp_env \<Rightarrow> ini_section \<Rightarrow> string \<Rightarrow> wp_error + int" where
  "parsePort E section keyName =
     (case wp_int E (Key section keyName) of
        None \<Rightarrow> Inl BadInt
      | Some port \<Rightarrow> if port < 0 \<or> port \<ge> 65536 then Inl BadPort else Inr port)"

definition parseTCPAddr :: "wp_env \<Rightarrow> ini_section \<Rightarrow> string \<Rightarrow> wp_error + tcp_addr" where
  "parseTCPAddr E section keyName =
     (case parseString E section keyName of
        Inl e \<Rightarrow> Inl e
      | Inr addrStr \<Rightarrow> (case wp_resolveTCP E addrStr of None \<Rightarrow> Inl Unresolved | Some a \<Rightarrow> Inr a))"

definition encodeBase64ToHex :: "string \<Rightarrow> wp_error + string" where
  "encodeBase64ToHex key =
     (case base64_DecodeString key of
        None \<Rightarrow> Inl BadBase64
      | Some decoded \<Rightarrow> if length decoded \<noteq> 32 then Inl BadKeySize else Inr (hex_EncodeToString decoded))"

definition parseBase64KeyToHex :: "wp_env \<Rightarrow> ini_section \<Rightarrow> string \<Rightarrow> wp_error + string" where
  "parseBase64KeyToHex E section keyName =
     (case parseString E section keyName of Inl e \<Rightarrow> Inl e | Inr key \<Rightarrow> encodeBase64ToHex key)"

text \<open>The shared shape of the lists of addresses and prefixes: pieces between commas, trimmed, empty ones skipped.\<close>

fun parse_commas :: "(string \<Rightarrow> wp_error + 'a) \<Rightarrow> string list \<Rightarrow> wp_error + 'a list" where
  "parse_commas f [] = Inr []"
| "parse_commas f (s # ss) =
     (let str = TrimSpace s in
      if length str = 0 then parse_commas f ss
      else (case f str of Inl e \<Rightarrow> Inl e | Inr x \<Rightarrow> (case parse_commas f ss of Inl e \<Rightarrow> Inl e | Inr xs \<Rightarrow> Inr (x # xs))))"

definition parse_list :: "(string \<Rightarrow> wp_error + 'a) \<Rightarrow> wp_env \<Rightarrow> ini_section \<Rightarrow> string \<Rightarrow> wp_error + 'a list" where
  "parse_list f E section keyName =
     (case parseString E section keyName of
        Inl e \<Rightarrow> if mentions_empty e then Inr [] else Inl e
      | Inr key \<Rightarrow> parse_commas f (split_char (CHR '','') key))"

definition one_addr :: "string \<Rightarrow> wp_error + netip_addr" where
  "one_addr str = (case ParseAddr str of None \<Rightarrow> Inl BadAddress | Some (a, z) \<Rightarrow> Inr a)"

definition one_prefix :: "string \<Rightarrow> wp_error + prefix" where
  "one_prefix str = (case ParsePrefix str of None \<Rightarrow> Inl BadPrefix | Some p \<Rightarrow> Inr p)"

definition one_cidr_addr :: "string \<Rightarrow> wp_error + netip_addr" where
  "one_cidr_addr str =
     (case ParseAddr str of
        Some (a, z) \<Rightarrow> Inr a
      | None \<Rightarrow> (case ParsePrefix str of None \<Rightarrow> Inl BadPrefix | Some p \<Rightarrow> Inr (fst p)))"

definition parseNetIP :: "wp_env \<Rightarrow> ini_section \<Rightarrow> string \<Rightarrow> wp_error + netip_addr list" where
  "parseNetIP = parse_list one_addr"

definition parseCIDRNetIP :: "wp_env \<Rightarrow> ini_section \<Rightarrow> string \<Rightarrow> wp_error + netip_addr list" where
  "parseCIDRNetIP = parse_list one_cidr_addr"

definition parseAllowedIPs :: "wp_env \<Rightarrow> ini_section \<Rightarrow> wp_error + prefix list" where
  "parseAllowedIPs E section = parse_list one_prefix E section ''AllowedIPs''"

definition resolveIPPAndPort :: "wp_env \<Rightarrow> string \<Rightarrow> wp_error + string" where
  "resolveIPPAndPort E addr =
     (case SplitHostPort addr of
        None \<Rightarrow> Inl BadAddress
      | Some (host, port) \<Rightarrow> (case wp_resolveIP E host of None \<Rightarrow> Inl Unresolved | Some ip \<Rightarrow> Inr (JoinHostPort ip port)))"

definition optional_int :: "wp_env \<Rightarrow> ini_section \<Rightarrow> string \<Rightarrow> wp_error + int option" where
  "optional_int E section keyName =
     (case GetKey section keyName of
        None \<Rightarrow> Inr None
      | Some v \<Rightarrow> (case wp_int E v of None \<Rightarrow> Inl BadInt | Some n \<Rightarrow> Inr (Some n)))"

section \<open>Sections\<close>

definition bind_err :: "wp_error + 'a \<Rightarrow> ('a \<Rightarrow> wp_error + 'b) \<Rightarrow> wp_error + 'b" where
  "bind_err r f = (case r of Inl e \<Rightarrow> Inl e | Inr x \<Rightarrow> f x)"

definition ParseInterface :: "wp_env \<Rightarrow> ini_file \<Rightarrow> DeviceConfig \<Rightarrow> wp_error + DeviceConfig" where
  "ParseInterface E cfg device =
     (case SectionsByName cfg ''Interface'' of
        [section] \<Rightarrow>
          bind_err (parseCIDRNetIP E section ''Address'') (\<lambda>address.
          bind_err (parseBase64KeyToHex E section ''PrivateKey'') (\<lambda>privKey.
          bind_err (parseNetIP E section ''DNS'') (\<lambda>dns.
          bind_err (optional_int E section ''MTU'') (\<lambda>mtu.
          bind_err (optional_int E section ''ListenPort'') (\<lambda>listenPort.
          bind_err (parseNetIP E section ''CheckAlive'') (\<lambda>checkAlive.
          bind_err (optional_int E section ''CheckAliveInterval'') (\<lambda>interval.
            if interval \<noteq> None \<and> length checkAlive = 0 then Inl AliveIntervalAlone
            else
              Inr (device\<lparr>dv_Endpoint := address, dv_SecretKey := privKey, dv_DNS := dns,
                dv_MTU := (case mtu of None \<Rightarrow> dv_MTU device | Some n \<Rightarrow> n),
                dv_ListenPort := (case listenPort of None \<Rightarrow> dv_ListenPort device | Some n \<Rightarrow> Some n),
                dv_CheckAlive := checkAlive, dv_CheckAliveInterval := (case interval of None \<Rightarrow> 5 | Some n \<Rightarrow> n)\<rparr>))))))))
      | _ \<Rightarrow> Inl InterfaceCount)"

definition parse_peer :: "wp_env \<Rightarrow> ini_section \<Rightarrow> wp_error + PeerConfig" where
  "parse_peer E section =
     bind_err (parseBase64KeyToHex E section ''PublicKey'') (\<lambda>publicKey.
     bind_err (case GetKey section ''PreSharedKey'' of None \<Rightarrow> Inr (replicate 64 (CHR ''0'')) | Some v \<Rightarrow> encodeBase64ToHex v) (\<lambda>psk.
     bind_err (case GetKey section ''Endpoint'' of
                 None \<Rightarrow> Inr None
               | Some v \<Rightarrow> (case resolveIPPAndPort E (ToLower v) of Inl e \<Rightarrow> Inl e | Inr ep \<Rightarrow> Inr (Some ep))) (\<lambda>endpoint.
     bind_err (optional_int E section ''PersistentKeepalive'') (\<lambda>keepAlive.
     bind_err (parseAllowedIPs E section) (\<lambda>allowedIPs.
       Inr \<lparr>pc_PublicKey = publicKey, pc_PreSharedKey = psk, pc_Endpoint = endpoint,
         pc_KeepAlive = (case keepAlive of None \<Rightarrow> 0 | Some n \<Rightarrow> n), pc_AllowedIPs = allowedIPs\<rparr>)))))"

fun parse_sections :: "(ini_section \<Rightarrow> wp_error + 'a) \<Rightarrow> ini_section list \<Rightarrow> wp_error + 'a list" where
  "parse_sections f [] = Inr []"
| "parse_sections f (s # ss) = bind_err (f s) (\<lambda>x. bind_err (parse_sections f ss) (\<lambda>xs. Inr (x # xs)))"

definition ParsePeers :: "wp_env \<Rightarrow> ini_file \<Rightarrow> wp_error + PeerConfig list" where
  "ParsePeers E cfg =
     (case SectionsByName cfg ''Peer'' of [] \<Rightarrow> Inl NoPeer | sections \<Rightarrow> parse_sections (parse_peer E) sections)"

text \<open>User names, passwords and files that refer to an unset variable are empty.\<close>

definition string_or_empty :: "wp_env \<Rightarrow> ini_section \<Rightarrow> string \<Rightarrow> string" where
  "string_or_empty E section keyName = (case parseString E section keyName of Inl _ \<Rightarrow> [] | Inr v \<Rightarrow> v)"

definition parseTCPClientTunnelConfig :: "wp_env \<Rightarrow> ini_section \<Rightarrow> wp_error + RoutineSpawner" where
  "parseTCPClientTunnelConfig E section =
     bind_err (parseTCPAddr E section ''BindAddress'') (\<lambda>a.
     bind_err (parseString E section ''Target'') (\<lambda>target. Inr (TCPClientTunnelConfig a target)))"

definition parseSTDIOTunnelConfig :: "wp_env \<Rightarrow> ini_section \<Rightarrow> wp_error + RoutineSpawner" where
  "parseSTDIOTunnelConfig E section = bind_err (parseString E section ''Target'') (\<lambda>target. Inr (STDIOTunnelConfig target))"

definition parseTCPServerTunnelConfig :: "wp_env \<Rightarrow> ini_section \<Rightarrow> wp_error + RoutineSpawner" where
  "parseTCPServerTunnelConfig E section =
     bind_err (parsePort E section ''ListenPort'') (\<lambda>port.
     bind_err (parseString E section ''Target'') (\<lambda>target. Inr (TCPServerTunnelConfig port target)))"

definition parseSocks5Config :: "wp_env \<Rightarrow> ini_section \<Rightarrow> wp_error + RoutineSpawner" where
  "parseSocks5Config E section =
     bind_err (parseString E section ''BindAddress'') (\<lambda>bindAddress.
       Inr (Socks5Config bindAddress (string_or_empty E section ''Username'') (string_or_empty E section ''Password'')))"

definition parseHTTPConfig :: "wp_env \<Rightarrow> ini_section \<Rightarrow> wp_error + RoutineSpawner" where
  "parseHTTPConfig E section =
     bind_err (parseString E section ''BindAddress'') (\<lambda>bindAddress.
       Inr (HTTPRoutine \<lparr>hc_BindAddress = bindAddress, hc_Username = string_or_empty E section ''Username'',
         hc_Password = string_or_empty E section ''Password'', hc_CertFile = string_or_empty E section ''CertFile'',
         hc_KeyFile = string_or_empty E section ''KeyFile''\<rparr>))"

definition parseResolveConfig :: "wp_env \<Rightarrow> ini_section \<Rightarrow> string" where
  "parseResolveConfig E section = string_or_empty E section ''ResolveStrategy''"

definition parseUDPProxyTunnelConfig :: "wp_env \<Rightarrow> ini_section \<Rightarrow> wp_error + RoutineSpawner" where
  "parseUDPProxyTunnelConfig E section =
     bind_err (parseString E section ''BindAddress'') (\<lambda>bindAddress.
     bind_err (parseString E section ''Target'') (\<lambda>target.
     bind_err (optional_int E section ''InactivityTimeout'') (\<lambda>timeout.
       Inr (UDPProxyTunnelConfig bindAddress target (case timeout of None \<Rightarrow> 0 | Some n \<Rightarrow> n)))))"

definition parseRoutinesConfig ::
  "ini_file \<Rightarrow> string \<Rightarrow> (ini_section \<Rightarrow> wp_error + RoutineSpawner) \<Rightarrow> RoutineSpawner list \<Rightarrow> wp_error + RoutineSpawner list" where
  "parseRoutinesConfig cfg sectionName f routines =
     bind_err (parse_sections f (SectionsByName cfg sectionName)) (\<lambda>rs. Inr (routines @ rs))"

definition empty_device :: DeviceConfig where
  "empty_device = \<lparr>dv_SecretKey = [], dv_Endpoint = [], dv_Peers = [], dv_DNS = [], dv_MTU = 1420, dv_ListenPort = None,
     dv_CheckAlive = [], dv_CheckAliveInterval = 0\<rparr>"

definition load_file :: "wp_env \<Rightarrow> string \<Rightarrow> wp_error + ini_file" where
  "load_file E path = (case wp_load E path of None \<Rightarrow> Inl LoadFailed | Some f \<Rightarrow> Inr f)"

definition ParseConfig :: "wp_env \<Rightarrow> string \<Rightarrow> wp_error + Configuration" where
  "ParseConfig E path =
     bind_err (load_file E path) (\<lambda>cfg.
     bind_err (case GetKey (ini_root cfg) ''WGConfig'' of None \<Rightarrow> Inr cfg | Some wgConf \<Rightarrow> load_file E wgConf) (\<lambda>wgCfg.
     bind_err (ParseInterface E wgCfg empty_device) (\<lambda>device.
     bind_err (ParsePeers E wgCfg) (\<lambda>peers.
     bind_err (parseRoutinesConfig cfg ''TCPClientTunnel'' (parseTCPClientTunnelConfig E) []) (\<lambda>r.
     bind_err (parseRoutinesConfig cfg ''STDIOTunnel'' (parseSTDIOTunnelConfig E) r) (\<lambda>r.
     bind_err (parseRoutinesConfig cfg ''TCPServerTunnel'' (parseTCPServerTunnelConfig E) r) (\<lambda>r.
     bind_err (parseRoutinesConfig cfg ''Socks5'' (parseSocks5Config E) r) (\<lambda>r.
     bind_err (parseRoutinesConfig cfg ''http'' (parseHTTPConfig E) r) (\<lambda>r.
     let strategy = (case SectionsByName cfg ''Resolve'' of [] \<Rightarrow> ''auto'' | s # _ \<Rightarrow> parseResolveConfig E s) in
     bind_err (parseRoutinesConfig cfg ''UDPProxyTunnel'' (parseUDPProxyTunnelConfig E) r) (\<lambda>r.
       Inr \<lparr>cf_Device = device\<lparr>dv_Peers := peers\<rparr>, cf_Routines = r, cf_ResolveStrategy = strategy\<rparr>))))))))))"

section \<open>The request to the device\<close>

definition ipc_line :: "string \<Rightarrow> string \<Rightarrow> string" where
  "ipc_line k v = k @ ''='' @ v @ [CHR 0x0A]"

definition peer_request :: "PeerConfig \<Rightarrow> string" where
  "peer_request peer =
     ipc_line ''public_key'' (pc_PublicKey peer) @
     ipc_line ''persistent_keepalive_interval'' (Itoa (pc_KeepAlive peer)) @
     ipc_line ''preshared_key'' (pc_PreSharedKey peer) @
     (case pc_Endpoint peer of None \<Rightarrow> [] | Some ep \<Rightarrow> ipc_line ''endpoint'' ep) @
     (if length (pc_AllowedIPs peer) > 0
      then concat (map (\<lambda>(a, n). ipc_line ''allowed_ip'' (Addr_String a @ ''/'' @ itoa n)) (pc_AllowedIPs peer))
      else ipc_line ''allowed_ip'' ''0.0.0.0/0'' @ ipc_line ''allowed_ip'' ''::0/0'')"

record DeviceSetting =
  ds_IpcRequest :: string
  ds_DNS :: "netip_addr list"
  ds_DeviceAddr :: "netip_addr list"
  ds_MTU :: int

definition CreateIPCRequest :: "DeviceConfig \<Rightarrow> DeviceSetting" where
  "CreateIPCRequest conf =
     \<lparr>ds_IpcRequest =
        ipc_line ''private_key'' (dv_SecretKey conf) @
        (case dv_ListenPort conf of None \<Rightarrow> [] | Some p \<Rightarrow> ipc_line ''listen_port'' (Itoa p)) @
        concat (map peer_request (dv_Peers conf)),
      ds_DNS = dv_DNS conf, ds_DeviceAddr = dv_Endpoint conf, ds_MTU = dv_MTU conf\<rparr>"

section \<open>Well-formed configurations\<close>

lemma bind_err_Inr [simp]: "bind_err r f = Inr y \<longleftrightarrow> (\<exists>x. r = Inr x \<and> f x = Inr y)"
  by (cases r) (auto simp: bind_err_def)

lemma bind_err_simps [simp]: "bind_err (Inr x) f = f x" "bind_err (Inl e) f = Inl e"
  by (simp_all add: bind_err_def)

definition hex_key :: "string \<Rightarrow> bool" where
  "hex_key k \<longleftrightarrow> length k = 64 \<and> list_all is_hex k"

definition wf_prefix :: "prefix \<Rightarrow> bool" where
  "wf_prefix p \<longleftrightarrow> fst p \<noteq> InvalidAddr \<and> snd p \<le> (if Is4 (fst p) then 32 else 128)"

definition wf_peer :: "PeerConfig \<Rightarrow> bool" where
  "wf_peer p \<longleftrightarrow> hex_key (pc_PublicKey p) \<and> hex_key (pc_PreSharedKey p) \<and> list_all wf_prefix (pc_AllowedIPs p)"

definition wf_routine :: "RoutineSpawner \<Rightarrow> bool" where
  "wf_routine r \<longleftrightarrow> (case r of TCPServerTunnelConfig port _ \<Rightarrow> 0 \<le> port \<and> port < 65536 | _ \<Rightarrow> True)"

definition wf_device :: "DeviceConfig \<Rightarrow> bool" where
  "wf_device d \<longleftrightarrow> hex_key (dv_SecretKey d) \<and> dv_Peers d \<noteq> [] \<and> list_all wf_peer (dv_Peers d) \<and>
     (dv_CheckAlive d = [] \<longrightarrow> dv_CheckAliveInterval d = 5)"

lemma hex_key_encode: "encodeBase64ToHex s = Inr k \<Longrightarrow> hex_key k"
  by (auto simp: encodeBase64ToHex_def hex_key_def hex_text split: option.splits if_splits)

lemma hex_key_parsed: "parseBase64KeyToHex E section name = Inr k \<Longrightarrow> hex_key k"
  by (auto simp: parseBase64KeyToHex_def hex_key_encode split: sum.splits)

lemma hex_key_zeros: "hex_key (replicate 64 (CHR ''0''))"
  by (simp add: hex_key_def is_hex_def hex_val_def list_all_iff)

lemma parse_items_all: "parse_commas f ss = Inr xs \<Longrightarrow> (\<And>s x. f s = Inr x \<Longrightarrow> P x) \<Longrightarrow> list_all P xs"
  by (induction ss arbitrary: xs) (auto simp: Let_def split: sum.splits if_splits)

lemma parse_list_all: "parse_list f E section name = Inr xs \<Longrightarrow> (\<And>s x. f s = Inr x \<Longrightarrow> P x) \<Longrightarrow> list_all P xs"
  by (auto simp: parse_list_def elim: parse_items_all split: sum.splits if_splits)

lemma parse_sections_all: "parse_sections f ss = Inr xs \<Longrightarrow> (\<And>s x. f s = Inr x \<Longrightarrow> P x) \<Longrightarrow> list_all P xs \<and> length xs = length ss"
  by (induction ss arbitrary: xs) auto

lemma ParseAddr_valid: "ParseAddr s = Some (a, z) \<Longrightarrow> a \<noteq> InvalidAddr"
  by (auto simp: ParseAddr_def Let_def split: list.splits if_splits)

lemma ParsePrefix_wf:
  assumes "ParsePrefix s = Some p"
  shows "wf_prefix p"
proof -
  obtain i a bits where "ParseAddr (take i s) = Some (a, [])" "p = (a, nat bits)" "\<not> bits < 0" "\<not> bits > (if Is4 a then 32 else 128)"
    using assms by (auto simp: ParsePrefix_def Let_def split: option.splits if_splits)
  then show ?thesis using ParseAddr_valid [of "take i s" a "[]"] by (auto simp: wf_prefix_def split: if_splits)
qed

lemma allowed_wf: "parseAllowedIPs E section = Inr ps \<Longrightarrow> list_all wf_prefix ps"
  unfolding parseAllowedIPs_def
  by (erule parse_list_all) (auto simp: one_prefix_def ParsePrefix_wf split: option.splits)

lemma parse_peer_wf:
  assumes "parse_peer E section = Inr p"
  shows "wf_peer p"
proof -
  obtain pub psk ep ka ips where p: "parseBase64KeyToHex E section ''PublicKey'' = Inr pub"
      "(case GetKey section ''PreSharedKey'' of None \<Rightarrow> Inr (replicate 64 (CHR ''0'')) | Some v \<Rightarrow> encodeBase64ToHex v) = Inr psk"
      "parseAllowedIPs E section = Inr ips"
      "p = \<lparr>pc_PublicKey = pub, pc_PreSharedKey = psk, pc_Endpoint = ep, pc_KeepAlive = ka, pc_AllowedIPs = ips\<rparr>"
    using assms unfolding parse_peer_def bind_err_Inr by blast
  have "hex_key psk" using p(2) hex_key_zeros hex_key_encode by (auto split: option.splits)
  then show ?thesis using hex_key_parsed [OF p(1)] allowed_wf [OF p(3)] by (simp add: wf_peer_def p(4))
qed

lemma ParsePeers_wf:
  assumes "ParsePeers E cfg = Inr ps"
  shows "ps \<noteq> [] \<and> list_all wf_peer ps"
proof -
  obtain s ss where "parse_sections (parse_peer E) (s # ss) = Inr ps"
    using assms by (auto simp: ParsePeers_def simp del: parse_sections.simps split: list.splits)
  from parse_sections_all [OF this, of wf_peer] parse_peer_wf show ?thesis by force
qed

lemma ParseInterface_wf:
  assumes "ParseInterface E cfg d = Inr d'"
  shows "hex_key (dv_SecretKey d') \<and> (dv_CheckAlive d' = [] \<longrightarrow> dv_CheckAliveInterval d' = 5)"
  using assms hex_key_parsed by (auto simp: ParseInterface_def split: list.splits if_splits)

lemma parseRoutines_wf:
  assumes "parseRoutinesConfig cfg name f rs = Inr rs'" "\<And>s r. f s = Inr r \<Longrightarrow> wf_routine r" "list_all wf_routine rs"
  shows "list_all wf_routine rs'"
  using assms parse_sections_all [of f _ _ wf_routine] by (fastforce simp: parseRoutinesConfig_def)

lemma routine_parsers_wf:
  "parseTCPClientTunnelConfig E s = Inr r \<Longrightarrow> wf_routine r" "parseSTDIOTunnelConfig E s = Inr r \<Longrightarrow> wf_routine r"
  "parseTCPServerTunnelConfig E s = Inr r \<Longrightarrow> wf_routine r" "parseSocks5Config E s = Inr r \<Longrightarrow> wf_routine r"
  "parseHTTPConfig E s = Inr r \<Longrightarrow> wf_routine r" "parseUDPProxyTunnelConfig E s = Inr r \<Longrightarrow> wf_routine r"
  by (auto simp: parseTCPClientTunnelConfig_def parseSTDIOTunnelConfig_def parseTCPServerTunnelConfig_def parseSocks5Config_def
      parseHTTPConfig_def parseUDPProxyTunnelConfig_def parsePort_def wf_routine_def split: option.splits if_splits)

lemma config_wf:
  assumes "ParseConfig E path = Inr c"
  shows "wf_device (cf_Device c) \<and> list_all wf_routine (cf_Routines c)"
proof -
  obtain wg d ps r1 r2 r3 r4 r5 r6 cfg st where c: "ParseInterface E wg empty_device = Inr d" "ParsePeers E wg = Inr ps"
      "parseRoutinesConfig cfg ''TCPClientTunnel'' (parseTCPClientTunnelConfig E) [] = Inr r1"
      "parseRoutinesConfig cfg ''STDIOTunnel'' (parseSTDIOTunnelConfig E) r1 = Inr r2"
      "parseRoutinesConfig cfg ''TCPServerTunnel'' (parseTCPServerTunnelConfig E) r2 = Inr r3"
      "parseRoutinesConfig cfg ''Socks5'' (parseSocks5Config E) r3 = Inr r4" "parseRoutinesConfig cfg ''http'' (parseHTTPConfig E) r4 = Inr r5"
      "parseRoutinesConfig cfg ''UDPProxyTunnel'' (parseUDPProxyTunnelConfig E) r5 = Inr r6"
      "c = \<lparr>cf_Device = d\<lparr>dv_Peers := ps\<rparr>, cf_Routines = r6, cf_ResolveStrategy = st\<rparr>"
    using assms unfolding ParseConfig_def bind_err_Inr Let_def by blast
  have "list_all wf_routine r6"
    by (rule parseRoutines_wf [OF c(8)], erule routine_parsers_wf, rule parseRoutines_wf [OF c(7)], erule routine_parsers_wf,
        rule parseRoutines_wf [OF c(6)], erule routine_parsers_wf, rule parseRoutines_wf [OF c(5)], erule routine_parsers_wf,
        rule parseRoutines_wf [OF c(4)], erule routine_parsers_wf, rule parseRoutines_wf [OF c(3)], erule routine_parsers_wf) simp
  then show ?thesis using ParseInterface_wf [OF c(1)] ParsePeers_wf [OF c(2)] by (simp add: c(9) wf_device_def)
qed

text \<open>
  C25: every configuration that is accepted is well formed. All keys are 64 hexadecimal digits, there is at least one peer, every allowed
  prefix is an address of four or sixteen bytes with a length its family admits, the port of every TCP server tunnel has sixteen bits, and
  the interval of liveness checks is changed only when there are addresses to check. Nothing is said of the listen port of the interface: it is any integer.
\<close>

theorem accepted_config_well_formed:
  assumes "ParseConfig E path = Inr c"
  shows "wf_device (cf_Device c) \<and> list_all wf_routine (cf_Routines c)"
  using assms by (rule config_wf)

section \<open>The request says what the configuration says\<close>

text \<open>Reading a request: lines of a key, an equals sign and a value.\<close>

definition read_ipc :: "string \<Rightarrow> (string \<times> string) list" where
  "read_ipc s =
     map (\<lambda>l. let k = takeWhile (\<lambda>c. c \<noteq> CHR ''='') l in (k, drop (Suc (length k)) l)) (filter (\<lambda>l. l \<noteq> []) (split_char (CHR 0x0A) s))"

definition peer_pairs :: "PeerConfig \<Rightarrow> (string \<times> string) list" where
  "peer_pairs p =
     [(''public_key'', pc_PublicKey p), (''persistent_keepalive_interval'', Itoa (pc_KeepAlive p)), (''preshared_key'', pc_PreSharedKey p)] @
     (case pc_Endpoint p of None \<Rightarrow> [] | Some ep \<Rightarrow> [(''endpoint'', ep)]) @
     (if pc_AllowedIPs p = [] then [(''allowed_ip'', ''0.0.0.0/0''), (''allowed_ip'', ''::0/0'')]
      else map (\<lambda>(a, n). (''allowed_ip'', Addr_String a @ ''/'' @ itoa n)) (pc_AllowedIPs p))"

definition device_pairs :: "DeviceConfig \<Rightarrow> (string \<times> string) list" where
  "device_pairs d =
     [(''private_key'', dv_SecretKey d)] @ (case dv_ListenPort d of None \<Rightarrow> [] | Some p \<Rightarrow> [(''listen_port'', Itoa p)]) @
     concat (map peer_pairs (dv_Peers d))"

definition one_line :: "string \<Rightarrow> bool" where
  "one_line s \<longleftrightarrow> CHR 0x0A \<notin> set s"

definition ipc_text :: "(string \<times> string) list \<Rightarrow> string" where
  "ipc_text ps = concat (map (\<lambda>(k, v). ipc_line k v) ps)"

lemma split_char_line: "c \<notin> set a \<Longrightarrow> split_char c (a @ c # b) = a # split_char c b"
  by (induction a) auto

lemma read_ipc_line:
  assumes "CHR ''='' \<notin> set k" "one_line k" "one_line v"
  shows "read_ipc (ipc_line k v @ s) = (k, v) # read_ipc s"
proof -
  have "split_char (CHR 0x0A) (ipc_line k v @ s) = (k @ CHR ''='' # v) # split_char (CHR 0x0A) s"
    using split_char_line [of "CHR 0x0A" "k @ CHR ''='' # v" s] assms by (simp add: ipc_line_def one_line_def)
  moreover have "takeWhile (\<lambda>c. c \<noteq> CHR ''='') (k @ CHR ''='' # v) = k"
    using assms(1) by (simp add: takeWhile_append)
  ultimately show ?thesis by (simp add: read_ipc_def)
qed

lemma read_ipc_text: "list_all (\<lambda>(k, v). CHR ''='' \<notin> set k \<and> one_line k \<and> one_line v) ps \<Longrightarrow> read_ipc (ipc_text ps) = ps"
proof (induction ps)
  case Nil
  show ?case by (simp add: ipc_text_def read_ipc_def)
next
  case (Cons p ps)
  then show ?case by (cases p) (simp add: ipc_text_def read_ipc_line)
qed

lemma peer_request_text: "peer_request p = ipc_text (peer_pairs p)"
  by (cases "pc_Endpoint p") (auto simp: peer_request_def peer_pairs_def ipc_text_def concat_map_singleton comp_def case_prod_unfold)

lemma request_text: "ds_IpcRequest (CreateIPCRequest d) = ipc_text (device_pairs d)"
proof -
  have "concat (map peer_request ps) = ipc_text (concat (map peer_pairs ps))" for ps
    by (induction ps) (simp_all add: peer_request_text ipc_text_def)
  then show ?thesis by (cases "dv_ListenPort d") (simp_all add: CreateIPCRequest_def device_pairs_def ipc_text_def)
qed

lemma one_line_hex: "hex_key k \<Longrightarrow> one_line k"
  by (auto simp: hex_key_def one_line_def list_all_iff is_hex_def hex_val_def)

lemma one_line_Itoa [simp]: "one_line (itoa n)" "one_line (Itoa i)"
  using itoa_chars [of "CHR 0x0A"] by (auto simp: one_line_def Itoa_def is_digit_def)

lemma one_line_addr: "one_line (Addr_String a)"
  using v4_string_chars [of "CHR 0x0A"] v6_string_chars [of "CHR 0x0A"]
  by (auto simp: one_line_def Addr_String_def is_digit_def hex_val_def split: netip_addr.splits)

text \<open>
  C26: the device is asked for exactly what the configuration says. For a configuration that was accepted, reading the request back line by
  line gives the private key, the port, and for every peer in order its keys, keepalive interval, endpoint and allowed
  prefixes (all addresses when none are given), and nothing else, provided that no endpoint contains a line break.
\<close>

theorem request_says_configuration:
  assumes "ParseConfig E path = Inr c"
    and "\<And>p ep. p \<in> set (dv_Peers (cf_Device c)) \<Longrightarrow> pc_Endpoint p = Some ep \<Longrightarrow> CHR 0x0A \<notin> set ep"
  shows "read_ipc (ds_IpcRequest (CreateIPCRequest (cf_Device c))) = device_pairs (cf_Device c)"
proof -
  let ?ok = "\<lambda>(k, v). CHR ''='' \<notin> set k \<and> one_line k \<and> one_line v"
  have wf: "wf_device (cf_Device c)" using config_wf [OF assms(1)] by simp
  have peer: "list_all ?ok (peer_pairs p)" if "p \<in> set (dv_Peers (cf_Device c))" for p
  proof -
    have "hex_key (pc_PublicKey p)" "hex_key (pc_PreSharedKey p)"
      using wf that by (auto simp: wf_device_def wf_peer_def list_all_iff)
    then have k: "one_line (pc_PublicKey p)" "one_line (pc_PreSharedKey p)" using one_line_hex by auto
    have e: "pc_Endpoint p = Some ep \<Longrightarrow> one_line ep" for ep using assms(2) [OF that] by (simp add: one_line_def)
    have a: "one_line (Addr_String a @ ''/'' @ itoa n)" for a n
      using one_line_addr [of a] one_line_Itoa(1) [of n] by (simp add: one_line_def)
    show ?thesis
      using k e a one_line_Itoa(2) [of "pc_KeepAlive p"] by (auto simp: peer_pairs_def list_all_iff one_line_def split: option.splits)
  qed
  have "one_line (dv_SecretKey (cf_Device c))" using wf by (auto simp: wf_device_def intro: one_line_hex)
  then have "list_all ?ok (device_pairs (cf_Device c))"
    using peer by (auto simp: device_pairs_def list_all_iff one_line_def split: option.splits)
       (use one_line_Itoa(2) in \<open>auto simp: one_line_def\<close>)
  then show ?thesis by (simp add: request_text read_ipc_text)
qed

section \<open>A sample configuration\<close>

definition sample_key :: string where
  "sample_key = replicate 43 (CHR ''A'') @ ''=''"

definition sample_interface :: ini_section where
  "sample_interface = [''address'' \<mapsto> '' 10.5.0.2/32,'', ''privatekey'' \<mapsto> ''$KEY'', ''dns'' \<mapsto> ''1.1.1.1'', ''mtu'' \<mapsto> ''1280'']"

definition sample_peer :: ini_section where
  "sample_peer = [''publickey'' \<mapsto> sample_key, ''endpoint'' \<mapsto> ''vpn.example:51820'', ''allowedips'' \<mapsto> ''0.0.0.0/0'']"

definition sample_ini :: ini_file where
  "sample_ini = \<lparr>ini_root = Map.empty, ini_sections =
     [(''interface'', sample_interface),
      (''peer'', sample_peer),
      (''socks5'', [''bindaddress'' \<mapsto> ''127.0.0.1:1080'']),
      (''tcpservertunnel'', [''listenport'' \<mapsto> ''22'', ''target'' \<mapsto> ''127.0.0.1:22''])]\<rparr>"

definition sample_wp :: wp_env where
  "sample_wp = \<lparr>wp_getenv = [''KEY'' \<mapsto> sample_key], wp_int = Atoi, wp_resolveTCP = (\<lambda>_. None),
     wp_resolveIP = [''vpn.example'' \<mapsto> ''192.0.2.7''], wp_load = [''wp.conf'' \<mapsto> sample_ini]\<rparr>"

lemma sample_names:
  "ToLower ''Interface'' = ''interface''" "ToLower ''Peer'' = ''peer''" "ToLower ''Address'' = ''address''"
  "ToLower ''PrivateKey'' = ''privatekey''" "ToLower ''DNS'' = ''dns''" "ToLower ''MTU'' = ''mtu''"
  "ToLower ''ListenPort'' = ''listenport''" "ToLower ''CheckAlive'' = ''checkalive''" "ToLower ''CheckAliveInterval'' = ''checkaliveinterval''"
  "ToLower ''PublicKey'' = ''publickey''" "ToLower ''PreSharedKey'' = ''presharedkey''" "ToLower ''Endpoint'' = ''endpoint''"
  "ToLower ''PersistentKeepalive'' = ''persistentkeepalive''" "ToLower ''AllowedIPs'' = ''allowedips''" "ToLower ''WGConfig'' = ''wgconfig''"
  "ToLower ''TCPClientTunnel'' = ''tcpclienttunnel''" "ToLower ''STDIOTunnel'' = ''stdiotunnel''" "ToLower ''TCPServerTunnel'' = ''tcpservertunnel''"
  "ToLower ''Socks5'' = ''socks5''" "ToLower ''http'' = ''http''" "ToLower ''Resolve'' = ''resolve''"
  "ToLower ''UDPProxyTunnel'' = ''udpproxytunnel''" "ToLower ''BindAddress'' = ''bindaddress''" "ToLower ''Target'' = ''target''"
  "ToLower ''Username'' = ''username''" "ToLower ''Password'' = ''password''"
  by code_simp+

lemma sample_values:
  "parseCIDRNetIP sample_wp sample_interface ''Address'' = Inr [Addr4 [10, 5, 0, 2]]"
  "parseBase64KeyToHex sample_wp sample_interface ''PrivateKey'' = Inr (replicate 64 (CHR ''0''))"
  "parseNetIP sample_wp sample_interface ''DNS'' = Inr [Addr4 [1, 1, 1, 1]]"
  "optional_int sample_wp sample_interface ''MTU'' = Inr (Some 1280)"
  "optional_int sample_wp sample_interface ''ListenPort'' = Inr None"
  "parseNetIP sample_wp sample_interface ''CheckAlive'' = Inr []"
  "optional_int sample_wp sample_interface ''CheckAliveInterval'' = Inr None"
  "parseBase64KeyToHex sample_wp sample_peer ''PublicKey'' = Inr (replicate 64 (CHR ''0''))"
  "GetKey sample_peer ''PreSharedKey'' = None"
  "GetKey sample_peer ''Endpoint'' = Some ''vpn.example:51820''"
  "resolveIPPAndPort sample_wp (ToLower ''vpn.example:51820'') = Inr ''192.0.2.7:51820''"
  "optional_int sample_wp sample_peer ''PersistentKeepalive'' = Inr None"
  "parseAllowedIPs sample_wp sample_peer = Inr [(Addr4 [0, 0, 0, 0], 0)]"
  by code_simp+

lemma sample_wp_accepted:
  "case ParseConfig sample_wp ''wp.conf'' of Inl _ \<Rightarrow> False
   | Inr c \<Rightarrow> map pc_Endpoint (dv_Peers (cf_Device c)) = [Some ''192.0.2.7:51820''] \<and> length (cf_Routines c) = 2 \<and> dv_MTU (cf_Device c) = 1280"
proof -
  have secs: "SectionsByName sample_ini ''Interface'' = [sample_interface]" "SectionsByName sample_ini ''Peer'' = [sample_peer]"
      "SectionsByName sample_ini ''TCPClientTunnel'' = []" "SectionsByName sample_ini ''STDIOTunnel'' = []"
      "SectionsByName sample_ini ''TCPServerTunnel'' = [[''listenport'' \<mapsto> ''22'', ''target'' \<mapsto> ''127.0.0.1:22'']]"
      "SectionsByName sample_ini ''Socks5'' = [[''bindaddress'' \<mapsto> ''127.0.0.1:1080'']]" "SectionsByName sample_ini ''http'' = []"
      "SectionsByName sample_ini ''Resolve'' = []" "SectionsByName sample_ini ''UDPProxyTunnel'' = []"
    by (simp_all add: SectionsByName_def sample_ini_def sample_names)
  have load: "load_file sample_wp ''wp.conf'' = Inr sample_ini" "GetKey (ini_root sample_ini) ''WGConfig'' = None"
    by (simp_all add: load_file_def sample_wp_def sample_ini_def GetKey_def)
  have port: "parsePort sample_wp [''listenport'' \<mapsto> ''22'', ''target'' \<mapsto> ''127.0.0.1:22''] ''ListenPort'' = Inr 22" by code_simp
  have strs: "parseString sample_wp [''listenport'' \<mapsto> ''22'', ''target'' \<mapsto> ''127.0.0.1:22''] ''Target'' = Inr ''127.0.0.1:22''"
      "parseString sample_wp [''bindaddress'' \<mapsto> ''127.0.0.1:1080''] ''BindAddress'' = Inr ''127.0.0.1:1080''" by code_simp+
  show ?thesis
    by (simp add: ParseConfig_def load secs ParseInterface_def ParsePeers_def parse_peer_def sample_values parseRoutinesConfig_def
        parseTCPServerTunnelConfig_def parseSocks5Config_def port strs empty_device_def)
qed

text \<open>The listen port of the interface is passed on as it is read.\<close>

lemma listen_port_unchecked:
  assumes "SectionsByName cfg ''Interface'' = [section]" "optional_int E section ''ListenPort'' = Inr (Some n)" "ParseInterface E cfg device = Inr d"
  shows "dv_ListenPort d = Some n"
  using assms by (auto simp: ParseInterface_def bind_err_Inr split: if_splits)

theorem accepted_config_well_formed_witness:
  "\<exists>c. ParseConfig sample_wp ''wp.conf'' = Inr c \<and> wf_device (cf_Device c) \<and> list_all wf_routine (cf_Routines c)"
  using sample_wp_accepted accepted_config_well_formed [of sample_wp "''wp.conf''"] by (auto split: sum.splits)

theorem request_says_configuration_witness:
  "\<exists>c. ParseConfig sample_wp ''wp.conf'' = Inr c \<and> read_ipc (ds_IpcRequest (CreateIPCRequest (cf_Device c))) = device_pairs (cf_Device c)"
proof -
  obtain c where c: "ParseConfig sample_wp ''wp.conf'' = Inr c" "map pc_Endpoint (dv_Peers (cf_Device c)) = [Some ''192.0.2.7:51820'']"
    using sample_wp_accepted by (auto split: sum.splits)
  have "CHR 0x0A \<notin> set ep" if "p \<in> set (dv_Peers (cf_Device c))" "pc_Endpoint p = Some ep" for p ep
  proof -
    have "Some ep \<in> set (map pc_Endpoint (dv_Peers (cf_Device c)))" using that by force
    then show ?thesis unfolding c(2) by simp
  qed
  with request_says_configuration [OF c(1)] c(1) show ?thesis by blast
qed

section \<open>Values the parser cannot tell from missing ones\<close>

text \<open>A key that is missing is an empty text, so a listener without an address is accepted.\<close>

lemma missing_bind_address_accepted: "parseSocks5Config E Map.empty = Inr (Socks5Config [] [] [])"
  by (simp add: parseSocks5Config_def parseString_def string_or_empty_def Key_def GetKey_def bind_err_def has_prefix_def)

text \<open>A section on name resolution that names no strategy replaces the default strategy by an empty one.\<close>

lemma empty_resolve_section: "parseResolveConfig E Map.empty = []"
  by (simp add: parseResolveConfig_def parseString_def string_or_empty_def Key_def GetKey_def has_prefix_def)

text \<open>A password that refers to an unset variable is empty.\<close>

lemma unset_variable_is_empty: "Key section name = ''$PW'' \<Longrightarrow> wp_getenv E ''PW'' = None \<Longrightarrow> string_or_empty E section name = []"
  by (simp add: parseString_def string_or_empty_def has_prefix_def)

end
