(* ===== verification/Wp_Serve.thy ===== *)
theory Wp_Serve
  imports Wp_Config "HOL-Library.Sublist"
begin

text \<open>
  What the WireGuard proxy serves: the HTTP proxy of \<open>pkg/wireproxy/http.go\<close>, name resolution, health checks and authentication of
  \<open>routine.go\<close>, the strategy chosen in \<open>wireguard.go\<close> and the UDP sessions of \<open>udp_proxy.go\<close>. Dialing, writing and the
  answers of the network are arguments; what a handler does is a list of events.
\<close>

section \<open>Credentials\<close>

text \<open>A comparison in constant time is a comparison.\<close>

definition CredentialValidator_Valid :: "string \<times> string \<Rightarrow> string \<Rightarrow> string \<Rightarrow> bool" where
  "CredentialValidator_Valid c username password = (fst c = username \<and> snd c = password)"

datatype socks_auth = UserPass string string | NoAuth

definition socks_auth_method :: "string \<Rightarrow> string \<Rightarrow> socks_auth" where
  "socks_auth_method username password = (if username \<noteq> [] then UserPass username password else NoAuth)"

record HTTPServer =
  hs_auth :: "string \<times> string"
  hs_authRequired :: bool
  hs_tlsRequired :: bool

definition http_server :: "HTTPConfig \<Rightarrow> HTTPServer" where
  "http_server config =
     \<lparr>hs_auth = (hc_Username config, hc_Password config), hs_authRequired = (hc_Username config \<noteq> [] \<or> hc_Password config \<noteq> []),
      hs_tlsRequired = (hc_CertFile config \<noteq> [] \<and> hc_KeyFile config \<noteq> [])\<rparr>"

section \<open>The HTTP proxy\<close>

record http_request =
  hr_Method :: string
  hr_Host :: string
  hr_ProxyAuthorization :: string

text \<open>\<open>bytes.SplitN\<close> with two parts: what stands before and after the first separator.\<close>

definition split_once :: "char \<Rightarrow> string \<Rightarrow> (string \<times> string) option" where
  "split_once c s = (let k = takeWhile (\<lambda>x. x \<noteq> c) s in if length k = length s then None else Some (k, drop (Suc (length k)) s))"

text \<open>\<open>None\<close> when the request may go on, otherwise the status code of the refusal.\<close>

definition authenticate :: "HTTPServer \<Rightarrow> http_request \<Rightarrow> nat option" where
  "authenticate s req =
     (if \<not> hs_authRequired s then None
      else if hr_ProxyAuthorization req = [] then Some 407
      else
        (case base64_DecodeString (trim_prefix (hr_ProxyAuthorization req) ''Basic '') of
           None \<Rightarrow> Some 406
         | Some str \<Rightarrow>
             (case split_once (CHR '':'') (str_of str) of
                None \<Rightarrow> Some 411
              | Some (username, password) \<Rightarrow> if CredentialValidator_Valid (hs_auth s) username password then None else Some 401)))"

datatype http_event =
    Responded nat
  | ProxyAuthenticateHeader
  | Dialed string
  | Established
  | RequestWritten
  | PeerClosed
  | Relaying

definition with_port :: "string \<Rightarrow> string \<Rightarrow> string" where
  "with_port addr port = (if \<not> contains addr '':'' then JoinHostPort addr port else addr)"

text \<open>\<open>dial\<close> tells whether a connection to an address is made, \<open>written\<close> whether the following write succeeds.\<close>

definition handleConn :: "(string \<Rightarrow> bool) \<Rightarrow> bool \<Rightarrow> http_request \<Rightarrow> bool \<times> http_event list" where
  "handleConn dial written req =
     (let addr = with_port (hr_Host req) ''443'' in
      if \<not> dial addr then (False, [Dialed addr])
      else if \<not> written then (False, [Dialed addr, PeerClosed])
      else (True, [Dialed addr, Established]))"

definition handle :: "(string \<Rightarrow> bool) \<Rightarrow> bool \<Rightarrow> http_request \<Rightarrow> bool \<times> http_event list" where
  "handle dial written req =
     (let addr = with_port (hr_Host req) ''80'' in
      if \<not> dial addr then (False, [Dialed addr])
      else if \<not> written then (False, [Dialed addr, PeerClosed])
      else (True, [Dialed addr, RequestWritten]))"

definition serve :: "HTTPServer \<Rightarrow> (string \<Rightarrow> bool) \<Rightarrow> bool \<Rightarrow> http_request option \<Rightarrow> http_event list" where
  "serve s dial written request =
     (case request of
        None \<Rightarrow> []
      | Some req \<Rightarrow>
          (case authenticate s req of
             Some code \<Rightarrow> (if code = 407 then [ProxyAuthenticateHeader] else []) @ [Responded code]
           | None \<Rightarrow>
               if hr_Method req = ''CONNECT'' then (case handleConn dial written req of (ok, evs) \<Rightarrow> evs @ (if ok then [Relaying] else []))
               else if hr_Method req = ''GET'' then (case handle dial written req of (ok, evs) \<Rightarrow> evs @ (if ok then [Relaying] else []))
               else [Responded 405]))"

section \<open>Resolving names\<close>

definition start_strategy :: "string \<Rightarrow> netip_addr list \<Rightarrow> string" where
  "start_strategy strategy addrs =
     (if strategy = ''auto'' then (if list_ex Is4 addrs \<and> \<not> list_ex Is6 addrs then ''ipv4'' else ''ipv6'') else strategy)"

text \<open>The texts are what the resolver of the system or of the tunnel gives; \<open>shuffle\<close> is the shuffle of each family.\<close>

definition ResolveAddr :: "(netip_addr list \<Rightarrow> netip_addr list) \<Rightarrow> string \<Rightarrow> string list \<Rightarrow> netip_addr option" where
  "ResolveAddr shuffle strategy texts =
     (let addrs = [a. Some (a, z) \<leftarrow> map ParseAddr texts];
          v4 = shuffle (filter Is4 addrs); v6 = shuffle (filter (\<lambda>a. \<not> Is4 a \<and> Is6 a) addrs);
          allAddrs = (if strategy = ''ipv4'' then v4 @ v6 else if strategy = ''ipv6'' then v6 @ v4 else []) in
      case allAddrs of [] \<Rightarrow> None | a # _ \<Rightarrow> Some a)"

definition parseAddressPort :: "string \<Rightarrow> (string \<times> u16) option" where
  "parseAddressPort endpoint =
     (case SplitHostPort endpoint of
        None \<Rightarrow> None
      | Some (name, sport) \<Rightarrow>
          (case Atoi sport of
             None \<Rightarrow> None
           | Some port \<Rightarrow> if port < 0 \<or> port > 65535 then None else Some (name, of_int port)))"

definition resolveToAddrPort ::
  "(string \<Rightarrow> string list option) \<Rightarrow> (netip_addr list \<Rightarrow> netip_addr list) \<Rightarrow> string \<Rightarrow> string \<times> u16 \<Rightarrow> (netip_addr \<times> u16) option" where
  "resolveToAddrPort lookup shuffle strategy endpoint =
     (case lookup (fst endpoint) of
        None \<Rightarrow> None
      | Some texts \<Rightarrow> (case ResolveAddr shuffle strategy texts of None \<Rightarrow> None | Some a \<Rightarrow> Some (a, snd endpoint)))"

section \<open>Health and metrics\<close>

text \<open>\<open>path.Clean\<close>: the components that remain, newest first.\<close>

fun clean_step :: "bool \<Rightarrow> string \<Rightarrow> string list \<Rightarrow> string list" where
  "clean_step rooted c st =
     (if c = [] \<or> c = ''.'' then st
      else if c = ''..'' then
        (case st of [] \<Rightarrow> if rooted then [] else [''..''] | t # ts \<Rightarrow> if t = ''..'' then ''..'' # st else ts)
      else c # st)"

definition path_Clean :: "string \<Rightarrow> string" where
  "path_Clean p =
     (let rooted = has_prefix p ''/''; st = rev (fold (clean_step rooted) (split_char (CHR ''/'') p) []);
          text = join_char (CHR ''/'') st in
      if rooted then CHR ''/'' # text else if st = [] then ''.'' else text)"

definition metrics_line :: "string \<Rightarrow> string" where
  "metrics_line line =
     (case split_once (CHR ''='') line of
        None \<Rightarrow> line
      | Some (k, v) \<Rightarrow> k @ ''='' @ (if k = ''private_key'' \<or> k = ''preshared_key'' then ''REDACTED'' else v) @ [CHR 0x0A])"

definition metrics_text :: "string \<Rightarrow> string" where
  "metrics_text get = concat (map metrics_line (split_char (CHR 0x0A) get))"

definition ready_status :: "int \<Rightarrow> int \<Rightarrow> int list \<Rightarrow> nat" where
  "ready_status now interval records =
     (if list_ex (\<lambda>record. now - record * 1000000000 > (interval + 2) * 1000000000) records then 503 else 200)"

text \<open>\<open>records\<close> is what \<open>PingRecord\<close> holds, \<open>get\<close> what the device reports.\<close>

definition ServeHTTP :: "int \<Rightarrow> int \<Rightarrow> (string \<times> int) list \<Rightarrow> string option \<Rightarrow> ((string \<times> int) list \<Rightarrow> string) \<Rightarrow> string \<Rightarrow> nat \<times> string" where
  "ServeHTTP now interval records get json urlPath =
     (if path_Clean urlPath = ''/readyz'' then (ready_status now interval (map snd records), json records @ [CHR 0x0A])
      else if path_Clean urlPath = ''/metrics'' then
        (case get of None \<Rightarrow> (500, []) | Some text \<Rightarrow> (200, metrics_text text))
      else (404, []))"

datatype icmp_body = Echo int bytes | RawBody bytes | OtherBody

text \<open>Whether a reply confirms a ping; a reply over IPv6 is read by position.\<close>

definition pong_ok :: "netip_addr \<Rightarrow> int \<Rightarrow> bytes \<Rightarrow> icmp_body \<Rightarrow> (unit, bool) outcome" where
  "pong_ok addr seq data body =
     (if Is4 addr then (case body of Echo s d \<Rightarrow> Ret (d = data \<and> s = seq) | _ \<Rightarrow> Ret False)
      else if Is6 addr then
        (case body of
           RawBody d \<Rightarrow> obind (uint16_at d 2) (\<lambda>s. Ret (drop 4 d = data \<and> int (unat s) = seq))
         | _ \<Rightarrow> Ret False)
      else Ret True)"

definition start_records :: "netip_addr list \<Rightarrow> (string \<rightharpoonup> int)" where
  "start_records addrs = fold (\<lambda>a m. m(Addr_String a \<mapsto> 0)) addrs Map.empty"

definition note_pong :: "netip_addr \<Rightarrow> int \<Rightarrow> (string \<rightharpoonup> int) \<Rightarrow> (string \<rightharpoonup> int)" where
  "note_pong addr nowSeconds records = records(Addr_String addr \<mapsto> nowSeconds)"

section \<open>UDP sessions\<close>

record udp_session =
  us_src :: string
  us_lastActive :: int
  us_closed :: bool
  us_running :: bool
  us_remoteOpen :: bool

text \<open>
  Sessions are numbered in the order they are made; \<open>up_sessions\<close> is the table of the current ones. The goroutine that reads from the clients is between two
  datagrams, has found a session for one, or has also noted its activity and is about to write.
\<close>

datatype main_loop = Waiting | Found nat bytes | Noted nat bytes

record udp_proxy =
  up_sessions :: "string \<rightharpoonup> nat"
  up_store :: "udp_session list"
  up_main :: main_loop

definition upd_session :: "nat \<Rightarrow> (udp_session \<Rightarrow> udp_session) \<Rightarrow> udp_proxy \<Rightarrow> udp_proxy" where
  "upd_session i f st = st\<lparr>up_store := (up_store st)[i := f (up_store st ! i)]\<rparr>"

definition removeSession :: "string \<Rightarrow> nat \<Rightarrow> udp_proxy \<Rightarrow> udp_proxy" where
  "removeSession src i st =
     (if up_sessions st src = Some i then
        (upd_session i (\<lambda>s. s\<lparr>us_closed := True\<rparr>) st)\<lparr>up_sessions := (up_sessions st)(src := None)\<rparr>
      else st)"

text \<open>The deferred end of \<open>handleRemoteToLocal\<close> has two parts: the session leaves the table, then its connection is closed.\<close>

definition handler_returns :: "nat \<Rightarrow> udp_proxy \<Rightarrow> udp_proxy" where
  "handler_returns i st = upd_session i (\<lambda>s. s\<lparr>us_running := False\<rparr>) (removeSession (us_src (up_store st ! i)) i st)"

definition getOrCreateSession :: "string \<Rightarrow> int \<Rightarrow> bool \<Rightarrow> udp_proxy \<Rightarrow> nat option \<times> udp_proxy" where
  "getOrCreateSession src now dialOk st =
     (case up_sessions st src of
        Some i \<Rightarrow> (Some i, upd_session i (\<lambda>s. s\<lparr>us_lastActive := now\<rparr>) st)
      | None \<Rightarrow>
          if \<not> dialOk then (None, st)
          else
            (Some (length (up_store st)),
             st\<lparr>up_sessions := (up_sessions st)(src \<mapsto> length (up_store st)),
                up_store := up_store st @ [\<lparr>us_src = src, us_lastActive = now, us_closed = False, us_running = True, us_remoteOpen = True\<rparr>]\<rparr>))"

definition expired :: "int \<Rightarrow> int \<Rightarrow> udp_proxy \<Rightarrow> nat \<Rightarrow> bool" where
  "expired now inactivityDur st i = (now - us_lastActive (up_store st ! i) \<ge> inactivityDur)"

definition cleanup_sessions :: "int \<Rightarrow> int \<Rightarrow> udp_proxy \<Rightarrow> udp_proxy" where
  "cleanup_sessions now inactivityDur st =
     (let gone = (\<lambda>src. case up_sessions st src of None \<Rightarrow> False | Some i \<Rightarrow> expired now inactivityDur st i) in
      st\<lparr>up_sessions := (\<lambda>src. if gone src then None else up_sessions st src),
         up_store := map (\<lambda>i. let s = up_store st ! i in
           if up_sessions st (us_src s) = Some i \<and> expired now inactivityDur st i then s\<lparr>us_closed := True\<rparr> else s) [0..<length (up_store st)]\<rparr>)"

text \<open>
  One step. Of the goroutine that reads from the clients: a datagram and the session for it, the note of its activity, and the write to the remote side, which
  may fail and fails when the connection was closed in the meantime. Of the cleanup: one pass, under the lock. Of a session's handler: data from the remote side
  (which may fail to reach the client; its read, note and write use nothing but its own session), a read that times out or fails, the check at the top of its loop,
  and the end of a handler that has returned. A step of a goroutine that is not there changes nothing. Output: the session a datagram was written to, the client data was
  written to.
\<close>

datatype udp_input =
    FromClient string bytes int bool
  | NoteActivity int
  | WriteRemote bool
  | Ticked int
  | FromRemote nat bytes int bool
  | RemoteTimeout nat
  | RemoteFailed nat
  | LoopTop nat
  | RemoteClosed nat

datatype udp_output = ToSession nat bytes | ToSource string bytes

definition live :: "udp_proxy \<Rightarrow> nat \<Rightarrow> bool" where
  "live st i = (i < length (up_store st) \<and> us_running (up_store st ! i))"

fun udp_proxy_step :: "int \<Rightarrow> udp_input \<Rightarrow> udp_proxy \<Rightarrow> udp_output list \<times> udp_proxy" where
  "udp_proxy_step dur (FromClient src d now dialOk) st =
     (if up_main st \<noteq> Waiting then ([], st)
      else
        (case getOrCreateSession src now dialOk st of
           (None, st) \<Rightarrow> ([], st)
         | (Some i, st) \<Rightarrow> ([], st\<lparr>up_main := Found i d\<rparr>)))"
| "udp_proxy_step dur (NoteActivity now) st =
     (case up_main st of
        Found i d \<Rightarrow> ([], (upd_session i (\<lambda>s. s\<lparr>us_lastActive := now\<rparr>) st)\<lparr>up_main := Noted i d\<rparr>)
      | _ \<Rightarrow> ([], st))"
| "udp_proxy_step dur (WriteRemote ok) st =
     (case up_main st of
        Noted i d \<Rightarrow> (if ok \<and> us_remoteOpen (up_store st ! i) then [ToSession i d] else [], st\<lparr>up_main := Waiting\<rparr>)
      | _ \<Rightarrow> ([], st))"
| "udp_proxy_step dur (Ticked now) st = ([], if dur > 0 then cleanup_sessions now dur st else st)"
| "udp_proxy_step dur (FromRemote i d now ok) st =
     (if \<not> live st i then ([], st)
      else
        let st = upd_session i (\<lambda>s. s\<lparr>us_lastActive := now\<rparr>) st in
        if ok then ([ToSource (us_src (up_store st ! i)) d], st) else ([], handler_returns i st))"
| "udp_proxy_step dur (RemoteTimeout i) st =
     ([], if live st i \<and> us_closed (up_store st ! i) then handler_returns i st else st)"
| "udp_proxy_step dur (RemoteFailed i) st = ([], if live st i then handler_returns i st else st)"
| "udp_proxy_step dur (LoopTop i) st =
     ([], if live st i \<and> us_closed (up_store st ! i) then handler_returns i st else st)"
| "udp_proxy_step dur (RemoteClosed i) st =
     ([], if i < length (up_store st) \<and> \<not> us_running (up_store st ! i) then upd_session i (\<lambda>s. s\<lparr>us_remoteOpen := False\<rparr>) st else st)"

section \<open>Only clients with the credentials get through\<close>

lemma split_once_cons: "c \<notin> set k \<Longrightarrow> split_once c (k @ c # v) = Some (k, v)"
  by (simp add: split_once_def Let_def takeWhile_append)

lemma dialed_authenticated:
  assumes "Dialed a \<in> set (serve s dial written request)"
  shows "\<exists>req. request = Some req \<and> authenticate s req = None"
  using assms by (auto simp: serve_def split: option.splits if_splits)

text \<open>
  C27: the HTTP proxy opens connections only for clients with its credentials, and for all of them. With a user name or a password configured, a
  connection is dialed only for a request whose header decodes to exactly that user name and password; and a request with the encoded credentials
  of a user name without a colon is let through.
\<close>

theorem http_proxy_requires_credentials:
  assumes "hc_Username cfg \<noteq> [] \<or> hc_Password cfg \<noteq> []"
  shows "(Dialed a \<in> set (serve (http_server cfg) dial written request) \<longrightarrow>
      (\<exists>req str. request = Some req \<and> base64_DecodeString (trim_prefix (hr_ProxyAuthorization req) ''Basic '') = Some str \<and>
         split_once (CHR '':'') (str_of str) = Some (hc_Username cfg, hc_Password cfg))) \<and>
    (CHR '':'' \<notin> set (hc_Username cfg) \<longrightarrow>
       authenticate (http_server cfg) (req\<lparr>hr_ProxyAuthorization :=
         ''Basic '' @ base64_EncodeToString (bytes_of (hc_Username cfg @ CHR '':'' # hc_Password cfg))\<rparr>) = None)"
proof (intro conjI impI)
  assume "Dialed a \<in> set (serve (http_server cfg) dial written request)"
  then obtain req where "request = Some req" "authenticate (http_server cfg) req = None" using dialed_authenticated by blast
  then show "\<exists>req str. request = Some req \<and> base64_DecodeString (trim_prefix (hr_ProxyAuthorization req) ''Basic '') = Some str \<and>
      split_once (CHR '':'') (str_of str) = Some (hc_Username cfg, hc_Password cfg)"
    using assms by (auto simp: authenticate_def http_server_def CredentialValidator_Valid_def split: if_splits option.splits)
next
  assume c: "CHR '':'' \<notin> set (hc_Username cfg)"
  have "trim_prefix (''Basic '' @ x) ''Basic '' = x" for x
    by (simp add: trim_prefix_def has_prefix_def)
  then show "authenticate (http_server cfg) (req\<lparr>hr_ProxyAuthorization :=
      ''Basic '' @ base64_EncodeToString (bytes_of (hc_Username cfg @ CHR '':'' # hc_Password cfg))\<rparr>) = None"
    using split_once_cons [OF c, of "hc_Password cfg"]
    by (simp add: authenticate_def http_server_def CredentialValidator_Valid_def)
qed

text \<open>A password without a user name protects the HTTP proxy but not the SOCKS5 proxy.\<close>

lemma password_alone_leaves_socks_open: "socks_auth_method [] password = NoAuth"
  by (simp add: socks_auth_method_def)

text \<open>The host of a request that is an IPv6 address without a port is dialed as it is.\<close>

lemma ipv6_host_without_port: "with_port ''[2001:db8::1]'' ''443'' = ''[2001:db8::1]''"
  by code_simp

section \<open>Secrets are not reported\<close>

definition redact :: "string \<times> string \<Rightarrow> string \<times> string" where
  "redact = (\<lambda>(k, v). (k, if k = ''private_key'' \<or> k = ''preshared_key'' then ''REDACTED'' else v))"

text \<open>
  C29: metrics never show a private or a preshared key. For every report of the device made of lines with a key and a value, the metrics are the
  same lines in the same order with the values of the secret keys replaced.
\<close>

theorem metrics_hide_keys:
  assumes "list_all (\<lambda>(k, v). CHR ''='' \<notin> set k \<and> one_line k \<and> one_line v) ps"
  shows "metrics_text (ipc_text ps) = ipc_text (map redact ps)"
  using assms
proof (induction ps)
  case Nil
  show ?case by (simp add: metrics_text_def ipc_text_def metrics_line_def split_once_def)
next
  case (Cons p ps)
  obtain k v where p: "p = (k, v)" by fastforce
  have "split_char (CHR 0x0A) (ipc_line k v @ ipc_text ps) = (k @ CHR ''='' # v) # split_char (CHR 0x0A) (ipc_text ps)"
    using split_char_line [of "CHR 0x0A" "k @ CHR ''='' # v" "ipc_text ps"] Cons.prems by (simp add: p ipc_line_def one_line_def)
  moreover have "split_once (CHR ''='') (k @ CHR ''='' # v) = Some (k, v)" using Cons.prems by (simp add: p split_once_cons)
  moreover have "ipc_text (p # ps) = ipc_line k v @ ipc_text ps" "ipc_text (map redact (p # ps)) = ipc_line k (snd (redact p)) @ ipc_text (map redact ps)"
    by (simp_all add: ipc_text_def p redact_def)
  moreover have "metrics_text (ipc_text ps) = ipc_text (map redact ps)" using Cons by simp
  ultimately show ?case by (simp add: metrics_text_def metrics_line_def p redact_def ipc_line_def)
qed

section \<open>Names resolve to the preferred family\<close>

lemma resolve_prefers:
  assumes "ResolveAddr shuffle strategy texts = Some a" "\<And>xs. set (shuffle xs) = set xs"
  shows "\<exists>s \<in> set texts. \<exists>z. ParseAddr s = Some (a, z)"
    and "strategy = ''ipv4'' \<Longrightarrow> Is4 a \<or> (\<forall>s \<in> set texts. \<forall>b z. ParseAddr s = Some (b, z) \<longrightarrow> \<not> Is4 b)"
proof -
  let ?addrs = "[a. Some (a, z) \<leftarrow> map ParseAddr texts]"
  have addrs: "b \<in> set ?addrs \<longleftrightarrow> (\<exists>s \<in> set texts. \<exists>z. ParseAddr s = Some (b, z))" for b
    by (auto split: option.splits) (metis (no_types, lifting))+
  let ?v4 = "shuffle (filter Is4 ?addrs)" and ?v6 = "shuffle (filter (\<lambda>a. \<not> Is4 a \<and> Is6 a) ?addrs)"
  have member: "b \<in> set xs" if "(case xs of [] \<Rightarrow> None | c # _ \<Rightarrow> Some c) = Some b" for xs and b :: netip_addr
    using that by (cases xs) auto
  have first: "(case (if strategy = ''ipv4'' then ?v4 @ ?v6 else if strategy = ''ipv6'' then ?v6 @ ?v4 else []) of [] \<Rightarrow> None | c # _ \<Rightarrow> Some c) = Some a"
    using assms(1) by (simp only: ResolveAddr_def Let_def)
  have "a \<in> set ?v4 \<union> set ?v6" using member [OF first] by (simp split: if_splits) blast+
  then show "\<exists>s \<in> set texts. \<exists>z. ParseAddr s = Some (a, z)" using assms(2) addrs by auto
  assume "strategy = ''ipv4''"
  then have "case ?v4 @ ?v6 of [] \<Rightarrow> False | b # _ \<Rightarrow> b = a" using first by (auto split: list.splits)
  then have "Is4 a \<or> shuffle (filter Is4 ?addrs) = []"
    using assms(2) [of "filter Is4 ?addrs"] by (cases "shuffle (filter Is4 ?addrs)") auto
  then show "Is4 a \<or> (\<forall>s \<in> set texts. \<forall>b z. ParseAddr s = Some (b, z) \<longrightarrow> \<not> Is4 b)"
    using assms(2) [of "filter Is4 ?addrs"] addrs by (auto simp: filter_empty_conv) blast
qed

text \<open>Without one of the two strategies nothing resolves.\<close>

lemma unknown_strategy_resolves_nothing: "strategy \<notin> {''ipv4'', ''ipv6''} \<Longrightarrow> ResolveAddr shuffle strategy texts = None"
  by (simp add: ResolveAddr_def Let_def)

text \<open>A reply over IPv6 that is shorter than its header ends the process.\<close>

lemma short_pong_panics: "length d < 4 \<Longrightarrow> pong_ok (Addr6 b) seq data (RawBody d) = Panic"
  by (simp add: pong_ok_def Is4_def Is6_def uint16_at_def gslice_def)

section \<open>Sessions belong to one client and are not lost\<close>

text \<open>
  The invariant: a session of the table was made for the client it is listed under, its handler runs, it is not closed; every session whose handler runs and was not
  told to stop is listed; the connection of a session is open at least while its handler runs; the datagram in hand is for a session that exists.
\<close>

definition sessions_ok :: "udp_proxy \<Rightarrow> bool" where
  "sessions_ok st \<longleftrightarrow>
     (\<forall>src i. up_sessions st src = Some i \<longrightarrow> i < length (up_store st) \<and> us_src (up_store st ! i) = src \<and>
        us_running (up_store st ! i) \<and> \<not> us_closed (up_store st ! i)) \<and>
     (\<forall>i < length (up_store st). us_running (up_store st ! i) \<longrightarrow> us_remoteOpen (up_store st ! i)) \<and>
     (\<forall>i < length (up_store st). us_running (up_store st ! i) \<longrightarrow> \<not> us_closed (up_store st ! i) \<longrightarrow>
        up_sessions st (us_src (up_store st ! i)) = Some i) \<and>
     (\<forall>i d. up_main st = Found i d \<or> up_main st = Noted i d \<longrightarrow> i < length (up_store st))"

lemma upd_simps [simp]:
  "up_sessions (upd_session i f st) = up_sessions st" "length (up_store (upd_session i f st)) = length (up_store st)"
  "up_main (upd_session i f st) = up_main st"
  "i < length (up_store st) \<Longrightarrow> up_store (upd_session i f st) ! j = (if j = i then f (up_store st ! i) else up_store st ! j)"
  by (simp_all add: upd_session_def)

lemma touch_ok: "sessions_ok st \<Longrightarrow> i < length (up_store st) \<Longrightarrow> sessions_ok (upd_session i (\<lambda>s. s\<lparr>us_lastActive := now\<rparr>) st)"
  by (auto simp: sessions_ok_def)

lemma handler_returns_simps:
  assumes "i < length (up_store st)"
  shows "length (up_store (handler_returns i st)) = length (up_store st)" "up_main (handler_returns i st) = up_main st"
    "j \<noteq> i \<Longrightarrow> up_store (handler_returns i st) ! j = up_store st ! j" "\<not> us_running (up_store (handler_returns i st) ! i)"
    "us_src (up_store (handler_returns i st) ! j) = us_src (up_store st ! j)"
    "up_sessions (handler_returns i st) src =
       (if src = us_src (up_store st ! i) \<and> up_sessions st src = Some i then None else up_sessions st src)"
  using assms by (auto simp: handler_returns_def removeSession_def)

lemma handler_returns_ok:
  assumes "sessions_ok st" "i < length (up_store st)" "us_running (up_store st ! i)"
  shows "sessions_ok (handler_returns i st)"
proof -
  let ?src = "us_src (up_store st ! i)" and ?st = "handler_returns i st"
  note h = handler_returns_simps [OF assms(2)]
  have tab: "up_sessions st src = Some j \<Longrightarrow> j < length (up_store st) \<and> us_src (up_store st ! j) = src \<and> us_running (up_store st ! j) \<and> \<not> us_closed (up_store st ! j)"
    and opn: "j < length (up_store st) \<Longrightarrow> us_running (up_store st ! j) \<Longrightarrow> us_remoteOpen (up_store st ! j)"
    and lst: "j < length (up_store st) \<Longrightarrow> us_running (up_store st ! j) \<Longrightarrow> \<not> us_closed (up_store st ! j) \<Longrightarrow> up_sessions st (us_src (up_store st ! j)) = Some j"
    and main: "up_main st = Found j d \<or> up_main st = Noted j d \<Longrightarrow> j < length (up_store st)"
    for src j d using assms(1) by (auto simp: sessions_ok_def)
  have notI: "up_sessions ?st src \<noteq> Some i" for src using tab [of src i] by (auto simp: h)
  show ?thesis
    unfolding sessions_ok_def
  proof (intro conjI allI impI)
    fix src j assume j: "up_sessions ?st src = Some j"
    then have "j \<noteq> i" "up_sessions st src = Some j" using notI [of src] by (auto simp: h split: if_splits)
    then show "j < length (up_store ?st)" "us_src (up_store ?st ! j) = src" "us_running (up_store ?st ! j)" "\<not> us_closed (up_store ?st ! j)"
      using tab [of src j] h(3) [of j] h(1) by simp_all
  next
    fix j assume "j < length (up_store ?st)" "us_running (up_store ?st ! j)"
    then show "us_remoteOpen (up_store ?st ! j)" using opn [of j] h(1,4) h(3) [of j] by (cases "j = i") auto
  next
    fix j assume "j < length (up_store ?st)" and r: "us_running (up_store ?st ! j)" "\<not> us_closed (up_store ?st ! j)"
    then have "j \<noteq> i" "up_sessions st (us_src (up_store st ! j)) = Some j" using h(4) h(3) [of j] lst [of j] h(1) by (cases "j = i"; simp)+
    then show "up_sessions ?st (us_src (up_store ?st ! j)) = Some j" using h(3) [of j] by (simp add: h(6))
  next
    fix j d assume "up_main ?st = Found j d \<or> up_main ?st = Noted j d"
    then show "j < length (up_store ?st)" using main [of j d] h(1,2) by simp
  qed
qed

lemma create_ok:
  assumes "sessions_ok st" "getOrCreateSession src now dialOk st = (r, st')" "up_main st = Waiting"
  shows "sessions_ok st' \<and> up_main st' = Waiting \<and> length (up_store st) \<le> length (up_store st') \<and>
    (\<forall>j < length (up_store st). us_src (up_store st' ! j) = us_src (up_store st ! j)) \<and>
    (\<forall>i. r = Some i \<longrightarrow> i < length (up_store st') \<and> us_src (up_store st' ! i) = src)"
proof (cases "up_sessions st src")
  case None
  then show ?thesis
    using assms by (auto simp: getOrCreateSession_def sessions_ok_def nth_append less_Suc_eq split: if_splits)
next
  case (Some k)
  then have k: "k < length (up_store st)" "us_src (up_store st ! k) = src" using assms(1) by (auto simp: sessions_ok_def)
  moreover have "r = Some k" "st' = upd_session k (\<lambda>s. s\<lparr>us_lastActive := now\<rparr>) st" using assms(2) Some by (simp_all add: getOrCreateSession_def)
  ultimately show ?thesis using assms(3) touch_ok [OF assms(1) k(1)] by simp
qed

lemma cleanup_sessions_ok: "sessions_ok st \<Longrightarrow> sessions_ok (cleanup_sessions now dur st)"
  by (auto simp: sessions_ok_def cleanup_sessions_def Let_def split: if_splits option.splits)

text \<open>
  The history of a client: what it sent, what was written to sessions made for it, what answers those sessions read and what was written to it. \<open>in_hand\<close> is the
  datagram that is being handled.
\<close>

fun received :: "string \<Rightarrow> udp_input \<Rightarrow> bytes list" where
  "received src (FromClient s d now ok) = (if s = src then [d] else [])"
| "received src _ = []"

fun forwarded :: "string \<Rightarrow> udp_proxy \<Rightarrow> udp_output \<Rightarrow> bytes list" where
  "forwarded src st (ToSession i d) = (if us_src (up_store st ! i) = src then [d] else [])"
| "forwarded src st _ = []"

fun answers :: "string \<Rightarrow> udp_proxy \<Rightarrow> udp_input \<Rightarrow> bytes list" where
  "answers src st (FromRemote i d now ok) = (if i < length (up_store st) \<and> us_src (up_store st ! i) = src then [d] else [])"
| "answers src st _ = []"

fun returned :: "string \<Rightarrow> udp_output \<Rightarrow> bytes list" where
  "returned src (ToSource s d) = (if s = src then [d] else [])"
| "returned src _ = []"

definition in_hand :: "string \<Rightarrow> udp_proxy \<Rightarrow> bytes list" where
  "in_hand src st =
     (case up_main st of
        Waiting \<Rightarrow> []
      | Found i d \<Rightarrow> if us_src (up_store st ! i) = src then [d] else []
      | Noted i d \<Rightarrow> if us_src (up_store st ! i) = src then [d] else [])"

fun udp_proxy_run :: "int \<Rightarrow> udp_input list \<Rightarrow> udp_output list \<times> udp_proxy \<Rightarrow> udp_output list \<times> udp_proxy" where
  "udp_proxy_run dur [] (outs, st) = (outs, st)"
| "udp_proxy_run dur (inp # inps) (outs, st) = (case udp_proxy_step dur inp st of (o', st') \<Rightarrow> udp_proxy_run dur inps (outs @ o', st'))"

definition fresh_proxy :: udp_proxy where
  "fresh_proxy = \<lparr>up_sessions = Map.empty, up_store = [], up_main = Waiting\<rparr>"

text \<open>
  A quiet step keeps the invariant, the clients of the sessions and what is in hand, and neither takes nor gives a datagram.
\<close>

definition quiet :: "udp_proxy \<Rightarrow> udp_proxy \<Rightarrow> bool" where
  "quiet st st' \<longleftrightarrow>
     sessions_ok st' \<and> length (up_store st') = length (up_store st) \<and> up_main st' = up_main st \<and>
     (\<forall>j < length (up_store st). us_src (up_store st' ! j) = us_src (up_store st ! j))"

lemma quiet_steps:
  assumes "sessions_ok st"
  shows "quiet st st" "i < length (up_store st) \<Longrightarrow> quiet st (upd_session i (\<lambda>s. s\<lparr>us_lastActive := now\<rparr>) st)"
    "live st i \<Longrightarrow> quiet st (handler_returns i st)" "quiet st (cleanup_sessions now dur st)"
    "i < length (up_store st) \<Longrightarrow> \<not> us_running (up_store st ! i) \<Longrightarrow> quiet st (upd_session i (\<lambda>s. s\<lparr>us_remoteOpen := False\<rparr>) st)"
proof -
  show "quiet st st" using assms by (simp add: quiet_def)
  show "quiet st (upd_session i (\<lambda>s. s\<lparr>us_lastActive := now\<rparr>) st)" if "i < length (up_store st)"
    using touch_ok [OF assms that] that by (simp add: quiet_def)
  show "quiet st (handler_returns i st)" if "live st i"
    using handler_returns_ok [OF assms] handler_returns_simps that by (auto simp: quiet_def live_def)
  show "quiet st (cleanup_sessions now dur st)"
    using cleanup_sessions_ok [OF assms] by (simp add: quiet_def) (simp add: cleanup_sessions_def Let_def)
  show "quiet st (upd_session i (\<lambda>s. s\<lparr>us_remoteOpen := False\<rparr>) st)" if "i < length (up_store st)" "\<not> us_running (up_store st ! i)"
    using assms that by (auto simp: quiet_def sessions_ok_def)
qed

lemma quiet_in_hand: "sessions_ok st \<Longrightarrow> quiet st st' \<Longrightarrow> in_hand src st' = in_hand src st"
  by (auto simp: quiet_def in_hand_def sessions_ok_def split: main_loop.splits)

text \<open>One step keeps the invariant and the clients of the sessions, and accounts for what it takes and gives.\<close>

definition accounted :: "udp_proxy \<Rightarrow> udp_input \<Rightarrow> udp_output list \<Rightarrow> udp_proxy \<Rightarrow> bool" where
  "accounted st inp outs st' \<longleftrightarrow>
     sessions_ok st' \<and> length (up_store st) \<le> length (up_store st') \<and>
     (\<forall>j < length (up_store st). us_src (up_store st' ! j) = us_src (up_store st ! j)) \<and>
     (\<forall>i d. ToSession i d \<in> set outs \<longrightarrow> i < length (up_store st)) \<and>
     (\<forall>src. subseq (concat (map (forwarded src st') outs) @ in_hand src st') (in_hand src st @ received src inp)) \<and>
     (\<forall>src. subseq (concat (map (returned src) outs)) (answers src st' inp))"

lemma quiet_accounted:
  assumes "sessions_ok st" "quiet st st'"
  shows "accounted st inp [] st'"
  using assms quiet_in_hand [OF assms] by (auto simp: accounted_def quiet_def)

lemma step_accounted:
  assumes ok: "sessions_ok st" and step: "udp_proxy_step dur inp st = (outs, st')"
  shows "accounted st inp outs st'"
proof (cases inp)
  case (FromClient src d now dialOk)
  show ?thesis
  proof (cases "up_main st = Waiting")
    case True
    obtain r st1 where g: "getOrCreateSession src now dialOk st = (r, st1)" by fastforce
    have c: "sessions_ok st1" "up_main st1 = Waiting" "length (up_store st) \<le> length (up_store st1)"
        "\<And>j. j < length (up_store st) \<Longrightarrow> us_src (up_store st1 ! j) = us_src (up_store st ! j)"
        "\<And>i. r = Some i \<Longrightarrow> i < length (up_store st1) \<and> us_src (up_store st1 ! i) = src"
      using create_ok [OF ok g True] by blast+
    have ok2: "sessions_ok (st1\<lparr>up_main := Found i d\<rparr>)" if "i < length (up_store st1)" for i
      using c(1) that by (auto simp: sessions_ok_def)
    show ?thesis
      using step c True ok2 by (cases r) (auto simp: FromClient g accounted_def in_hand_def)
  next
    case False
    then show ?thesis using step quiet_accounted [OF ok quiet_steps(1) [OF ok]] by (simp add: FromClient)
  qed
next
  case (NoteActivity now)
  show ?thesis
  proof (cases "up_main st")
    case (Found i d)
    then have i: "i < length (up_store st)" using ok by (auto simp: sessions_ok_def)
    have "sessions_ok ((upd_session i (\<lambda>s. s\<lparr>us_lastActive := now\<rparr>) st)\<lparr>up_main := Noted i d\<rparr>)"
      using touch_ok [OF ok i] i by (simp add: sessions_ok_def)
    then show ?thesis using step Found i by (auto simp: NoteActivity accounted_def in_hand_def)
  qed (use step quiet_accounted [OF ok quiet_steps(1) [OF ok]] in \<open>simp_all add: NoteActivity\<close>)
next
  case (WriteRemote w)
  show ?thesis
  proof (cases "up_main st")
    case (Noted i d)
    then have i: "i < length (up_store st)" using ok by (auto simp: sessions_ok_def)
    have "sessions_ok (st\<lparr>up_main := Waiting\<rparr>)" using ok by (simp add: sessions_ok_def)
    then show ?thesis using step Noted i by (auto simp: WriteRemote accounted_def in_hand_def)
  qed (use step quiet_accounted [OF ok quiet_steps(1) [OF ok]] in \<open>simp_all add: WriteRemote\<close>)
next
  case (FromRemote i d now sent)
  show ?thesis
  proof (cases "live st i")
    case True
    then have i: "i < length (up_store st)" by (simp add: live_def)
    let ?st = "upd_session i (\<lambda>s. s\<lparr>us_lastActive := now\<rparr>) st"
    have q: "quiet st ?st" by (rule quiet_steps(2) [OF ok i])
    have ok1: "sessions_ok ?st" "live ?st i" using q i True by (simp_all add: quiet_def live_def)
    show ?thesis
    proof (cases sent)
      case True
      then show ?thesis using step \<open>live st i\<close> q i quiet_in_hand [OF ok q] by (auto simp: FromRemote accounted_def quiet_def)
    next
      case False
      have "quiet ?st (handler_returns i ?st)" by (rule quiet_steps(3) [OF ok1])
      then have "quiet st (handler_returns i ?st)" using q by (auto simp: quiet_def)
      then show ?thesis using step False \<open>live st i\<close> quiet_accounted [OF ok] by (auto simp: FromRemote)
    qed
  qed (use step quiet_accounted [OF ok quiet_steps(1) [OF ok]] in \<open>simp add: FromRemote\<close>)
qed (use step quiet_accounted [OF ok] quiet_steps [OF ok] in \<open>auto split: if_splits\<close>)

lemma forwarded_stable:
  assumes "\<forall>j < length (up_store st). us_src (up_store st' ! j) = us_src (up_store st ! j)" "\<forall>i d. ToSession i d \<in> set outs \<longrightarrow> i < length (up_store st)"
  shows "concat (map (forwarded src st') outs) = concat (map (forwarded src st) outs)"
proof -
  have "forwarded src st' x = forwarded src st x" if "x \<in> set outs" for x using assms that by (cases x) auto
  then show ?thesis by (metis (no_types, lifting) map_eq_conv)
qed

lemma answers_grow:
  assumes "\<forall>j < length (up_store st). us_src (up_store st' ! j) = us_src (up_store st ! j)" "length (up_store st) \<le> length (up_store st')"
  shows "subseq (concat (map (answers src st) hist)) (concat (map (answers src st') hist))"
proof (induction hist)
  case (Cons x hist)
  have "subseq (answers src st x) (answers src st' x)" using assms by (cases x) auto
  then show ?case using Cons.IH by (simp add: list_emb_append_mono)
qed simp

text \<open>The account of a whole history.\<close>

definition history_ok :: "udp_input list \<Rightarrow> udp_output list \<Rightarrow> udp_proxy \<Rightarrow> bool" where
  "history_ok hist outs st \<longleftrightarrow>
     sessions_ok st \<and> (\<forall>i d. ToSession i d \<in> set outs \<longrightarrow> i < length (up_store st)) \<and>
     (\<forall>src. subseq (concat (map (forwarded src st) outs) @ in_hand src st) (concat (map (received src) hist))) \<and>
     (\<forall>src. subseq (concat (map (returned src) outs)) (concat (map (answers src st) hist)))"

lemma step_history:
  assumes "history_ok hist outs st" "udp_proxy_step dur inp st = (o', st')"
  shows "history_ok (hist @ [inp]) (outs @ o') st'"
proof -
  have ok: "sessions_ok st" using assms(1) by (simp add: history_ok_def)
  have a: "accounted st inp o' st'" by (rule step_accounted [OF ok assms(2)])
  have idx: "\<forall>i d. ToSession i d \<in> set outs \<longrightarrow> i < length (up_store st)" using assms(1) by (simp add: history_ok_def)
  have src: "\<forall>j < length (up_store st). us_src (up_store st' ! j) = us_src (up_store st ! j)" "length (up_store st) \<le> length (up_store st')"
    using a by (simp_all add: accounted_def)
  have "subseq (concat (map (forwarded x st') (outs @ o')) @ in_hand x st') (concat (map (received x) (hist @ [inp])))" for x
  proof -
    have "subseq (concat (map (forwarded x st) outs) @ (concat (map (forwarded x st') o') @ in_hand x st'))
        (concat (map (forwarded x st) outs) @ (in_hand x st @ received x inp))"
      by (rule list_emb_append_mono) (use a in \<open>simp_all add: accounted_def\<close>)
    also have "subseq \<dots> (concat (map (received x) hist) @ received x inp)"
      using assms(1) list_emb_append_mono [of "(=)" "concat (map (forwarded x st) outs) @ in_hand x st" "concat (map (received x) hist)" "received x inp" "received x inp"]
      by (simp add: history_ok_def)
    finally show ?thesis using forwarded_stable [OF src(1) idx] by simp
  qed
  moreover have "subseq (concat (map (returned x) (outs @ o'))) (concat (map (answers x st') (hist @ [inp])))" for x
  proof -
    have "subseq (concat (map (returned x) outs)) (concat (map (answers x st') hist))"
      using assms(1) subseq_order.order_trans [OF _ answers_grow [OF src]] by (simp add: history_ok_def)
    then show ?thesis using a by (simp add: accounted_def list_emb_append_mono)
  qed
  moreover have "\<forall>i d. ToSession i d \<in> set (outs @ o') \<longrightarrow> i < length (up_store st')"
    using idx a by (fastforce simp: accounted_def)
  ultimately show ?thesis using a unfolding history_ok_def accounted_def by blast
qed

lemma run_history: "history_ok hist outs st \<Longrightarrow> udp_proxy_run dur inps (outs, st) = (outs', st') \<Longrightarrow> history_ok (hist @ inps) outs' st'"
proof (induction inps arbitrary: hist outs st)
  case (Cons inp inps)
  obtain o1 st1 where s: "udp_proxy_step dur inp st = (o1, st1)" by fastforce
  show ?case using Cons.IH [OF step_history [OF Cons.prems(1) s]] Cons.prems(2) s by simp
qed simp

lemma fresh_history: "history_ok [] [] fresh_proxy"
  by (simp add: history_ok_def fresh_proxy_def sessions_ok_def in_hand_def)

text \<open>
  C28: UDP sessions keep clients apart and none is lost. In every interleaving of the proxy's goroutines, whatever fails, the datagrams written to the sessions that were made
  for a client are, in their order and without repetition, datagrams of that client, and what is written to a client are answers that its own sessions
  read; the handler of every listed session runs and its connection is open, every running handler that was not told to stop is listed, and a datagram is never written to
  a session whose connection was closed.
\<close>

theorem udp_sessions_isolated:
  assumes "udp_proxy_run dur inps ([], fresh_proxy) = (outs, st)"
  shows "(\<forall>src. subseq (concat (map (forwarded src st) outs)) (concat (map (received src) inps)) \<and>
      subseq (concat (map (returned src) outs)) (concat (map (answers src st) inps))) \<and>
    (\<forall>src i. up_sessions st src = Some i \<longrightarrow> us_src (up_store st ! i) = src \<and> live st i \<and> us_remoteOpen (up_store st ! i)) \<and>
    (\<forall>i. live st i \<longrightarrow> \<not> us_closed (up_store st ! i) \<longrightarrow> up_sessions st (us_src (up_store st ! i)) = Some i) \<and>
    (\<forall>inp i d. ToSession i d \<in> set (fst (udp_proxy_step dur inp st)) \<longrightarrow> us_remoteOpen (up_store st ! i))"
proof -
  have h: "history_ok inps outs st" using run_history [OF fresh_history assms] by simp
  have "subseq (concat (map (forwarded src st) outs)) (concat (map (received src) inps))" for src
  proof -
    have "subseq (concat (map (forwarded src st) outs) @ []) (concat (map (forwarded src st) outs) @ in_hand src st)"
      by (rule list_emb_append_mono) simp_all
    also have "subseq \<dots> (concat (map (received src) inps))" using h by (simp add: history_ok_def)
    finally show ?thesis by simp
  qed
  moreover have "us_remoteOpen (up_store st ! i)" if "ToSession i d \<in> set (fst (udp_proxy_step dur inp st))" for inp i d
    using that by (cases inp) (auto simp: Let_def split: main_loop.splits if_splits prod.splits option.splits)
  ultimately show ?thesis using h by (auto simp: history_ok_def sessions_ok_def live_def)
qed

text \<open>A cleanup leaves no expired session in the table, and the handler of a session it closed returns at its next check.\<close>

lemma cleanup_expires:
  "up_sessions (cleanup_sessions now dur st) src = Some i \<Longrightarrow> up_sessions st src = Some i \<and> \<not> expired now dur st i"
  by (auto simp: cleanup_sessions_def Let_def split: if_splits option.splits)

lemma closed_handler_returns:
  "live st i \<Longrightarrow> us_closed (up_store st ! i) \<Longrightarrow> \<not> us_running (up_store (snd (udp_proxy_step dur (RemoteTimeout i) st)) ! i)"
  by (simp add: live_def handler_returns_simps)

section \<open>Witnesses\<close>

definition sample_http :: HTTPConfig where
  "sample_http = \<lparr>hc_BindAddress = ''127.0.0.1:8080'', hc_Username = ''ann'', hc_Password = ''s3'', hc_CertFile = [], hc_KeyFile = []\<rparr>"

definition sample_request :: http_request where
  "sample_request = \<lparr>hr_Method = ''CONNECT'', hr_Host = ''example.org'', hr_ProxyAuthorization = ''Basic YW5uOnMz''\<rparr>"

lemma sample_dials: "Dialed ''example.org:443'' \<in> set (serve (http_server sample_http) (\<lambda>_. True) True (Some sample_request))"
  by code_simp

theorem http_proxy_requires_credentials_witness:
  "\<exists>str. base64_DecodeString (trim_prefix (hr_ProxyAuthorization sample_request) ''Basic '') = Some str \<and>
     split_once (CHR '':'') (str_of str) = Some (''ann'', ''s3'')"
  using http_proxy_requires_credentials [of sample_http "''example.org:443''" "\<lambda>_. True" True "Some sample_request"] sample_dials
  by (auto simp: sample_http_def)

theorem metrics_hide_keys_witness:
  "metrics_text (ipc_text [(''private_key'', ''e84b''), (''listen_port'', ''51820'')]) =
   ipc_text [(''private_key'', ''REDACTED''), (''listen_port'', ''51820'')]"
  using metrics_hide_keys [of "[(''private_key'', ''e84b''), (''listen_port'', ''51820'')]"] by (simp add: one_line_def redact_def)

definition sample_inputs :: "udp_input list" where
  "sample_inputs =
     [FromClient ''a:1'' [1] 0 True, NoteActivity 0, WriteRemote True, FromClient ''b:2'' [2] 5 True, FromRemote 0 [9] 6 True, NoteActivity 6, WriteRemote True,
      Ticked 66, RemoteTimeout 0, FromClient ''a:1'' [3] 70 True, RemoteClosed 0, NoteActivity 70, WriteRemote True]"

theorem udp_sessions_isolated_witness:
  "case udp_proxy_run 60 sample_inputs ([], fresh_proxy) of
     (outs, st) \<Rightarrow> outs = [ToSession 0 [1], ToSource ''a:1'' [9], ToSession 1 [2], ToSession 2 [3]] \<and>
       subseq (concat (map (forwarded ''a:1'' st) outs)) [[1], [3]]"
proof -
  let ?r = "udp_proxy_run 60 sample_inputs ([], fresh_proxy)"
  have outs: "fst ?r = [ToSession 0 [1], ToSource ''a:1'' [9], ToSession 1 [2], ToSession 2 [3]]"
    and rec: "concat (map (received ''a:1'') sample_inputs) = [[1], [3]]" by code_simp+
  obtain o' st where r: "?r = (o', st)" by fastforce
  have "subseq (concat (map (forwarded ''a:1'' st) o')) (concat (map (received ''a:1'') sample_inputs))"
    using udp_sessions_isolated [OF r] by blast
  then show ?thesis using r outs rec by (simp only: prod.case fst_conv simp_thms)
qed

end
