(* ===== verification/Go_Float.thy ===== *)
theory Go_Float
  imports Complex_Main
begin

text \<open>
  Go's \<open>float64\<close>: rationals rounded to 53 bits, to the nearest and ties to even, with the exponents of IEEE 754 double precision, and the values that are
  not numbers. The sign of zero is not kept; nothing here divides by zero.
\<close>

section \<open>Rounding\<close>

definition round_even :: "rat \<Rightarrow> int" where
  "round_even x =
     (let n = \<lfloor>x\<rfloor>; r = x - of_int n in
      if r < 1 / 2 then n else if r > 1 / 2 then n + 1 else if even n then n else n + 1)"

text \<open>The exponent of a positive rational: the power of two below it, from the bit lengths of numerator and denominator.\<close>

fun bit_length :: "nat \<Rightarrow> nat" where
  "bit_length n = (if n = 0 then 0 else Suc (bit_length (n div 2)))"

declare bit_length.simps [simp del]

definition exponent :: "rat \<Rightarrow> int" where
  "exponent x =
     (case quotient_of x of
        (n, d) \<Rightarrow>
          let k = int (bit_length (nat n)) - int (bit_length (nat d)) in
          if x < power_int 2 k then k - 1 else k)"

text \<open>The weight of the last bit.\<close>

definition last_place :: "rat \<Rightarrow> rat" where
  "last_place x = power_int 2 (max (exponent x - 52) (- 1074))"

definition round_pos :: "rat \<Rightarrow> rat" where
  "round_pos x = of_int (round_even (x / last_place x)) * last_place x"

definition round64 :: "rat \<Rightarrow> rat" where
  "round64 x = (if x = 0 then 0 else if x < 0 then - round_pos (- x) else round_pos x)"

section \<open>The numbers\<close>

datatype float64 = Finite rat | Infinite bool | NaN

definition as_float64 :: "rat \<Rightarrow> float64" where
  "as_float64 x = (let r = round64 x in if \<bar>r\<bar> \<ge> 2 ^ 1024 then Infinite (r < 0) else Finite r)"

fun float_neg :: "float64 \<Rightarrow> bool" where
  "float_neg (Finite x) = (x < 0)"
| "float_neg (Infinite s) = s"
| "float_neg NaN = False"

fun float_mult :: "float64 \<Rightarrow> float64 \<Rightarrow> float64" where
  "float_mult (Finite x) (Finite y) = as_float64 (x * y)"
| "float_mult NaN y = NaN"
| "float_mult x NaN = NaN"
| "float_mult x y = (if x = Finite 0 \<or> y = Finite 0 then NaN else Infinite (float_neg x \<noteq> float_neg y))"

fun float_minus :: "float64 \<Rightarrow> float64 \<Rightarrow> float64" where
  "float_minus (Finite x) (Finite y) = as_float64 (x - y)"
| "float_minus NaN y = NaN"
| "float_minus x NaN = NaN"
| "float_minus (Infinite s) (Infinite t) = (if s = t then NaN else Infinite s)"
| "float_minus (Infinite s) (Finite y) = Infinite s"
| "float_minus (Finite x) (Infinite t) = Infinite (\<not> t)"

fun float_less :: "float64 \<Rightarrow> float64 \<Rightarrow> bool" where
  "float_less (Finite x) (Finite y) = (x < y)"
| "float_less NaN y = False"
| "float_less x NaN = False"
| "float_less (Infinite s) (Infinite t) = (s \<and> \<not> t)"
| "float_less (Infinite s) (Finite y) = s"
| "float_less (Finite x) (Infinite t) = (\<not> t)"

fun float_le :: "float64 \<Rightarrow> float64 \<Rightarrow> bool" where
  "float_le (Finite x) (Finite y) = (x \<le> y)"
| "float_le NaN y = False"
| "float_le x NaN = False"
| "float_le (Infinite s) (Infinite t) = (s \<or> \<not> t)"
| "float_le (Infinite s) (Finite y) = s"
| "float_le (Finite x) (Infinite t) = (\<not> t)"

text \<open>
  The conversion to \<open>int64\<close> cuts the fraction off; of a value without one in range the language leaves the result open, which is \<open>other\<close>.
\<close>

definition trunc :: "rat \<Rightarrow> int" where
  "trunc x = (if x \<ge> 0 then \<lfloor>x\<rfloor> else \<lceil>x\<rceil>)"

definition to_int64 :: "(float64 \<Rightarrow> int) \<Rightarrow> float64 \<Rightarrow> int" where
  "to_int64 other f =
     (case f of
        Finite x \<Rightarrow> if - (2 ^ 63) \<le> trunc x \<and> trunc x < 2 ^ 63 then trunc x else other f
      | _ \<Rightarrow> other f)"

section \<open>Rounding is monotone and keeps what fits\<close>

lemma round_even_int [simp]: "round_even (of_int n) = n"
  by (simp add: round_even_def)

lemma round_even_bounds: "\<lfloor>x\<rfloor> \<le> round_even x" "round_even x \<le> \<lfloor>x\<rfloor> + 1"
  by (auto simp: round_even_def Let_def)

lemma round_even_mono:
  assumes "x \<le> y"
  shows "round_even x \<le> round_even y"
proof (cases "\<lfloor>x\<rfloor> = \<lfloor>y\<rfloor>")
  case True
  then show ?thesis using assms by (auto simp: round_even_def Let_def)
next
  case False
  then have "\<lfloor>x\<rfloor> + 1 \<le> \<lfloor>y\<rfloor>" using floor_mono [OF assms] by linarith
  then show ?thesis using round_even_bounds [of x] round_even_bounds [of y] by linarith
qed

lemma bit_length_bounds: "0 < n \<Longrightarrow> 2 ^ (bit_length n - 1) \<le> n \<and> n < 2 ^ bit_length n \<and> 0 < bit_length n"
proof (induction n rule: bit_length.induct)
  case (1 n)
  show ?case
  proof (cases "n div 2 = 0")
    case True
    then have "n = 1" using "1.prems" by linarith
    then show ?thesis by (simp add: bit_length.simps)
  next
    case False
    define b where "b = bit_length (n div 2)"
    have ih: "2 ^ (b - 1) \<le> n div 2" "n div 2 < 2 ^ b" "0 < b" using "1.IH" "1.prems" False by (auto simp: b_def)
    then obtain c where c: "b = Suc c" by (cases b) auto
    have "bit_length n = Suc b" using "1.prems" by (simp add: b_def bit_length.simps [of n])
    moreover have "2 ^ b \<le> n" "n < 2 ^ Suc b" using ih by (auto simp: c)
    ultimately show ?thesis by simp
  qed
qed

lemma power_int_less_exp: "power_int 2 m < (power_int 2 n :: rat) \<Longrightarrow> m < n"
  using power_int_increasing [of n m "2 :: rat"] by (cases "n \<le> m") auto

lemma exponent_bounds:
  assumes "0 < x"
  shows "power_int 2 (exponent x) \<le> x" "x < power_int 2 (exponent x + 1)"
proof -
  obtain n d where q: "quotient_of x = (n, d)" by fastforce
  have d: "0 < d" using quotient_of_denom_pos [OF q] .
  have x: "x = of_int n / of_int d" using quotient_of_div [OF q] .
  have n: "0 < n" using assms d by (simp add: x zero_less_divide_iff)
  define a where "a = bit_length (nat n)"
  define b where "b = bit_length (nat d)"
  have A: "2 ^ (a - 1) \<le> nat n" "nat n < 2 ^ a" "0 < a" using bit_length_bounds [of "nat n"] n by (auto simp: a_def)
  have B: "2 ^ (b - 1) \<le> nat d" "nat d < 2 ^ b" "0 < b" using bit_length_bounds [of "nat d"] d by (auto simp: b_def)
  have pa: "(2 :: rat) ^ (a - 1) \<le> of_int n" "of_int n < (2 :: rat) ^ a"
    using A(1,2) n of_nat_le_iff [of "2 ^ (a - 1)" "nat n", where 'a = rat] of_nat_less_iff [of "nat n" "2 ^ a", where 'a = rat] by simp_all
  have pb: "(2 :: rat) ^ (b - 1) \<le> of_int d" "of_int d < (2 :: rat) ^ b"
    using B(1,2) d of_nat_le_iff [of "2 ^ (b - 1)" "nat d", where 'a = rat] of_nat_less_iff [of "nat d" "2 ^ b", where 'a = rat] by simp_all
  define k where "k = int a - int b"
  have "k - 1 = int (a - 1) - int b" "k + 1 = int a - int (b - 1)" using A(3) B(3) by (simp_all add: k_def of_nat_diff)
  then have k: "power_int 2 (k - 1) = (2 :: rat) ^ (a - 1) / 2 ^ b" "power_int 2 (k + 1) = (2 :: rat) ^ a / 2 ^ (b - 1)"
    using power_int_diff [of "2 :: rat" "int (a - 1)" "int b", OF disjI1] power_int_diff [of "2 :: rat" "int a" "int (b - 1)", OF disjI1]
    by (simp_all only: power_int_of_nat zero_neq_numeral [symmetric] not_False_eq_True)
  have lo: "power_int 2 (k - 1) \<le> x"
    unfolding k x by (rule frac_le) (use pa pb d n in auto)
  have hi: "x < power_int 2 (k + 1)"
    unfolding k x by (rule frac_less) (use pa pb d n in auto)
  have e: "exponent x = (if x < power_int 2 k then k - 1 else k)"
    by (simp add: exponent_def q a_def b_def k_def)
  show "power_int 2 (exponent x) \<le> x" "x < power_int 2 (exponent x + 1)"
    using lo hi by (auto simp: e)
qed


lemma exponent_unique:
  assumes "0 < x" "power_int 2 e \<le> x" "x < power_int 2 (e + 1)"
  shows "exponent x = e"
proof -
  note b = exponent_bounds [OF assms(1)]
  have "power_int 2 e < (power_int 2 (exponent x + 1) :: rat)" "power_int 2 (exponent x) < (power_int 2 (e + 1) :: rat)"
    using assms b by linarith+
  then have "e < exponent x + 1" "exponent x < e + 1" by (auto dest: power_int_less_exp)
  then show ?thesis by linarith
qed

text \<open>A multiple of the last place bounds the rounded value when it bounds the value.\<close>

lemma round_pos_le: "x \<le> of_int m * last_place x \<Longrightarrow> round_pos x \<le> of_int m * last_place x"
  and round_pos_ge: "of_int m * last_place x \<le> x \<Longrightarrow> of_int m * last_place x \<le> round_pos x"
proof -
  have p: "0 < last_place x" by (simp add: last_place_def)
  show "round_pos x \<le> of_int m * last_place x" if "x \<le> of_int m * last_place x"
  proof -
    have "x / last_place x \<le> of_int m" using that p by (simp add: divide_le_eq)
    from round_even_mono [OF this] show ?thesis using p by (simp add: round_pos_def)
  qed
  show "of_int m * last_place x \<le> round_pos x" if "of_int m * last_place x \<le> x"
  proof -
    have "of_int m \<le> x / last_place x" using that p by (simp add: le_divide_eq)
    from round_even_mono [OF this] show ?thesis using p by (simp add: round_pos_def)
  qed
qed

lemma round_pos_mono:
  assumes "0 < x" "x \<le> y"
  shows "round_pos x \<le> round_pos y"
proof (cases "last_place x = last_place y")
  case True
  have "x / last_place x \<le> y / last_place x" by (rule divide_right_mono) (use assms in \<open>simp_all add: last_place_def\<close>)
  from round_even_mono [OF this] show ?thesis unfolding round_pos_def True by (simp add: last_place_def)
next
  case False
  note bx = exponent_bounds [OF assms(1)] and b_y = exponent_bounds [of y]
  have "power_int 2 (exponent x) < (power_int 2 (exponent y + 1) :: rat)" using bx b_y assms by linarith
  then have "exponent x \<le> exponent y" using power_int_less_exp by fastforce
  moreover have "exponent x \<noteq> exponent y" "- 1074 \<le> exponent y - 52 \<or> exponent y < exponent x"
    using False by (auto simp: last_place_def)
  ultimately have lt: "exponent x < exponent y" "- 1074 \<le> exponent y - 52" by linarith+
  define q where "q = max (exponent x - 52) (- 1074)"
  have q: "q \<le> exponent y" using lt by (simp add: q_def)
  let ?p = "power_int 2 (exponent y) :: rat"
  have "power_int 2 (exponent x + 1) \<le> ?p" by (rule power_int_increasing) (use lt in auto)
  then have xp: "x \<le> ?p" using bx(2) by linarith
  have px: "?p = of_int (2 ^ nat (exponent y - q)) * last_place x"
    using power_int_add [of "2 :: rat" "exponent y - q" q] q by (simp add: last_place_def q_def [symmetric] power_int_def)
  have py: "?p = of_int (2 ^ 52) * last_place y"
    using power_int_add [of "2 :: rat" 52 "exponent y - 52"] lt(2) by (simp add: last_place_def)
  have "round_pos x \<le> ?p" using round_pos_le [of x "2 ^ nat (exponent y - q)"] xp px by simp
  also have "\<dots> \<le> round_pos y" using round_pos_ge [of "2 ^ 52" y] b_y(1) assms py by simp
  finally show ?thesis .
qed

lemma round_pos_exact:
  assumes "0 < n" "n \<le> 2 ^ 53"
  shows "round_pos (of_int n) = of_int n"
proof -
  let ?x = "of_int n :: rat"
  define q where "q = max (exponent ?x - 52) (- 1074)"
  have x: "0 < ?x" using assms(1) by simp
  have "power_int 2 (exponent ?x) \<le> ?x" by (rule exponent_bounds(1) [OF x])
  also have "?x \<le> of_int (2 ^ 53)" using assms(2) by (simp only: of_int_le_iff)
  also have "\<dots> < power_int 2 54" by simp
  finally have e: "exponent ?x < 54" by (rule power_int_less_exp)
  have "\<exists>m. ?x = of_int m * power_int 2 q"
  proof (cases "q \<le> 0")
    case True
    have "?x = of_int (n * 2 ^ nat (- q)) * power_int 2 q" using True by (simp add: power_int_def field_simps)
    then show ?thesis by blast
  next
    case False
    then have q1: "q = 1" "exponent ?x = 53" using e by (auto simp: q_def)
    then have "power_int 2 53 \<le> ?x" using exponent_bounds(1) [OF x] by simp
    then have "n = 2 ^ 53" using assms(2) of_int_le_iff [of "2 ^ 53" n, where 'a = rat] by simp
    then show ?thesis using q1 by (intro exI [of _ "2 ^ 52"]) simp
  qed
  then obtain m where m: "?x = of_int m * last_place ?x" by (auto simp: last_place_def q_def)
  then show ?thesis using round_pos_le [of ?x m] round_pos_ge [of m ?x] by simp
qed

lemma round_pos_nonneg: "0 < x \<Longrightarrow> 0 \<le> round_pos x"
  using round_pos_ge [of 0 x] by simp

lemma round64_mono: "x \<le> y \<Longrightarrow> round64 x \<le> round64 y"
  using round_pos_mono [of x y] round_pos_mono [of "- y" "- x"] round_pos_nonneg [of y] round_pos_nonneg [of "- x"]
  by (auto simp: round64_def)

lemma round64_int: "\<bar>n\<bar> \<le> 2 ^ 53 \<Longrightarrow> round64 (of_int n) = of_int n"
  using round_pos_exact [of n] round_pos_exact [of "- n"] by (auto simp: round64_def)


lemma round64_nonneg: "0 \<le> x \<Longrightarrow> 0 \<le> round64 x"
  using round64_mono [of 0 x] by (simp add: round64_def)

lemma round64_numerals [simp]: "round64 0 = 0" "round64 1 = 1"
  using round64_int [of 0] round64_int [of 1] by simp_all

lemma float64_Finite: "\<bar>x\<bar> \<le> 2 ^ 53 \<Longrightarrow> as_float64 x = Finite (round64 x)"
proof -
  assume a: "\<bar>x\<bar> \<le> 2 ^ 53"
  have "round64 x \<le> round64 (of_int (2 ^ 53))" "round64 (of_int (- (2 ^ 53))) \<le> round64 x"
    by (rule round64_mono; use a in simp)+
  then have "\<bar>round64 x\<bar> \<le> 2 ^ 53" using round64_int [of "2 ^ 53"] round64_int [of "- (2 ^ 53)"] by simp
  also have "(2 :: rat) ^ 53 < 2 ^ 1024" by (rule power_strict_increasing) simp_all
  finally show ?thesis by (simp add: as_float64_def)
qed

end
