(* ===== verification/Dc_Clients.thy ===== *)
theory Dc_Clients
  imports Go_Float Dc_Common
begin

text \<open>
  Admission of clients in \<open>pkg/dnscrypt/proxy.go\<close>: the counter of clients, which goroutines change with compare-and-swap loops, the
  timeout that shrinks with the load, and the loops that accept packets and connections. Floating-point numbers are rationals.
\<close>

section \<open>The counter\<close>

definition clientsCountInc :: "u32 \<Rightarrow> u32 \<Rightarrow> bool \<times> u32" where
  "clientsCountInc maxClients n = (if n \<ge> maxClients then (False, n) else (True, n + 1))"

definition clientsCountDec :: "u32 \<Rightarrow> u32" where
  "clientsCountDec n = (if n = 0 then n else n - 1)"

text \<open>
  A goroutine between two atomic operations: it has loaded the counter before it increments or decrements it, is served, or is on its
  way out. A compare-and-swap that finds another value starts its loop again.
\<close>

datatype client =
    Arriving
  | IncLoaded u32
  | Refused
  | Serving
  | Leaving
  | DecLoaded u32
  | Gone

fun client_step :: "u32 \<Rightarrow> u32 \<Rightarrow> client \<Rightarrow> u32 \<times> client" where
  "client_step maxClients n Arriving = (if n \<ge> maxClients then (n, Refused) else (n, IncLoaded n))"
| "client_step maxClients n (IncLoaded c) = (if n = c then (c + 1, Serving) else (n, Arriving))"
| "client_step maxClients n Refused = (n, Refused)"
| "client_step maxClients n Serving = (n, Leaving)"
| "client_step maxClients n Leaving = (if n = 0 then (n, Gone) else (n, DecLoaded n))"
| "client_step maxClients n (DecLoaded c) = (if n = c then (c - 1, Gone) else (n, Leaving))"
| "client_step maxClients n Gone = (n, Gone)"

text \<open>A schedule names the goroutine that takes the next atomic step.\<close>

fun run_clients :: "u32 \<Rightarrow> nat list \<Rightarrow> u32 \<times> client list \<Rightarrow> u32 \<times> client list" where
  "run_clients maxClients [] st = st"
| "run_clients maxClients (i # is) (n, cs) =
     (if i < length cs then (case client_step maxClients n (cs ! i) of (n', c) \<Rightarrow> run_clients maxClients is (n', cs[i := c]))
      else run_clients maxClients is (n, cs))"

section \<open>The timeout under load\<close>

text \<open>
  \<open>config_loader.go\<close>: a reduction outside the unit interval is replaced by the default. The comparisons let a value that is not a number through.
\<close>

definition checked_reduction :: "float64 \<Rightarrow> float64" where
  "checked_reduction r = (if float_less r (Finite 0) \<or> float_less (Finite 1) r then Finite (3 / 4) else r)"

text \<open>Every operation rounds, as on processors without fused operations; the counters are exact as floating-point numbers.\<close>

definition getDynamicTimeout :: "(float64 \<Rightarrow> int) \<Rightarrow> int \<Rightarrow> float64 \<Rightarrow> u32 \<Rightarrow> u32 \<Rightarrow> int" where
  "getDynamicTimeout other timeout timeoutLoadReduction clientsCount maxClients =
     (if float_le timeoutLoadReduction (Finite 0) \<or> maxClients = 0 then timeout
      else
        let utilization = as_float64 (of_nat (unat clientsCount) / of_nat (unat maxClients));
            utilization4 = float_mult (float_mult (float_mult utilization utilization) utilization) utilization;
            factor = float_minus (Finite 1) (float_mult utilization4 timeoutLoadReduction);
            factor = (if float_less factor (as_float64 (1 / 10)) then as_float64 (1 / 10) else factor) in
        to_int64 other (float_mult (as_float64 (of_int timeout)) factor))"

section \<open>The listeners\<close>

datatype udp_event = Packet bytes net_IP | ReadError | UdpFinished

text \<open>
  What the listener hands to \<open>processIncomingQuery\<close>: the packet, the client and whether only cached answers may be used. Handlers that
  end are events in between.
\<close>

fun udpListener :: "u32 \<Rightarrow> u32 \<Rightarrow> udp_event list \<Rightarrow> (bytes \<times> net_IP \<times> bool) list" where
  "udpListener maxClients n [] = []"
| "udpListener maxClients n (ReadError # evs) = []"
| "udpListener maxClients n (UdpFinished # evs) = udpListener maxClients (clientsCountDec n) evs"
| "udpListener maxClients n (Packet p a # evs) =
     (case clientsCountInc maxClients n of (ok, n) \<Rightarrow> (take (MaxDNSPacketSize - 1) p, a, \<not> ok) # udpListener maxClients n evs)"

datatype tcp_event = Accepted bool "conn_read list" net_IP | AcceptError | TcpFinished

datatype tcp_outcome = ClosedAtOnce | ClosedUnread | Handled bytes net_IP

definition serve_connection :: "bool \<Rightarrow> conn_read list \<Rightarrow> net_IP \<Rightarrow> tcp_outcome" where
  "serve_connection deadlineOk reads addr =
     (if \<not> deadlineOk then ClosedUnread
      else (case ReadPrefixed reads of Some (Inr packet) \<Rightarrow> Handled packet addr | _ \<Rightarrow> ClosedUnread))"

fun tcpListener :: "u32 \<Rightarrow> u32 \<Rightarrow> tcp_event list \<Rightarrow> tcp_outcome list" where
  "tcpListener maxClients n [] = []"
| "tcpListener maxClients n (AcceptError # evs) = tcpListener maxClients n evs"
| "tcpListener maxClients n (TcpFinished # evs) = tcpListener maxClients (clientsCountDec n) evs"
| "tcpListener maxClients n (Accepted deadlineOk reads a # evs) =
     (case clientsCountInc maxClients n of
        (False, n) \<Rightarrow> ClosedAtOnce # tcpListener maxClients n evs
      | (True, n) \<Rightarrow> serve_connection deadlineOk reads a # tcpListener maxClients n evs)"

section \<open>The counter is exact\<close>

text \<open>The goroutines that have incremented the counter and not decremented it.\<close>

fun counted :: "client \<Rightarrow> bool" where
  "counted Serving = True"
| "counted Leaving = True"
| "counted (DecLoaded c) = True"
| "counted _ = False"

definition active :: "client list \<Rightarrow> nat" where
  "active cs = length (filter counted cs)"

definition clients_ok :: "u32 \<Rightarrow> u32 \<Rightarrow> client list \<Rightarrow> bool" where
  "clients_ok maxClients n cs \<longleftrightarrow> unat n = active cs \<and> n \<le> maxClients \<and>
     list_all (\<lambda>c. case c of IncLoaded k \<Rightarrow> k < maxClients | DecLoaded k \<Rightarrow> k \<noteq> 0 | Gone \<Rightarrow> True | _ \<Rightarrow> True) cs"

lemma active_update:
  assumes "i < length cs"
  shows "active (cs[i := c]) + (if counted (cs ! i) then 1 else 0) = active cs + (if counted c then 1 else 0)"
  using assms
proof (induction cs arbitrary: i)
  case (Cons d cs)
  then show ?case by (cases i) (auto simp: active_def)
qed simp

lemma active_pos: "i < length cs \<Longrightarrow> counted (cs ! i) \<Longrightarrow> 0 < active cs"
  by (auto simp: active_def length_greater_0_conv filter_empty_conv intro: nth_mem)

lemma client_step_ok:
  assumes "clients_ok m n cs" "i < length cs" "client_step m n (cs ! i) = (n', c)"
  shows "clients_ok m n' (cs[i := c])"
proof -
  have n: "unat n = active cs" "n \<le> m" and all: "list_all (\<lambda>c. case c of IncLoaded k \<Rightarrow> k < m | DecLoaded k \<Rightarrow> k \<noteq> 0 | Gone \<Rightarrow> True | _ \<Rightarrow> True) cs"
    using assms(1) by (auto simp: clients_ok_def)
  have this_one: "case cs ! i of IncLoaded k \<Rightarrow> k < m | DecLoaded k \<Rightarrow> k \<noteq> 0 | Gone \<Rightarrow> True | _ \<Rightarrow> True"
    using all assms(2) by (auto simp: list_all_length)
  note upd = active_update [OF assms(2), of c] active_pos [OF assms(2)]
  have up: "unat (k + 1) = unat k + 1 \<and> k + 1 \<le> m" if "k < m" for k :: u32
    using that by unat_arith
  have down: "unat (k - 1) = unat k - 1 \<and> k - 1 \<le> k" if "k \<noteq> 0" for k :: u32
    using that by unat_arith
  show ?thesis
    unfolding clients_ok_def
  proof (intro conjI list_all_update [OF all])
    show "unat n' = active (cs[i := c])"
      using assms(3) n upd this_one up [of n] down [of n] by (cases "cs ! i") (auto split: if_splits)
    show "n' \<le> m"
      using assms(3) n this_one up [of n] down [of n] by (cases "cs ! i") (auto split: if_splits)
    show "case c of IncLoaded k \<Rightarrow> k < m | DecLoaded k \<Rightarrow> k \<noteq> 0 | Gone \<Rightarrow> True | _ \<Rightarrow> True"
      using assms(3) by (cases "cs ! i") (auto split: if_splits)
  qed
qed

text \<open>
  C23: the counter of clients is exact under every interleaving of goroutines. However the loads and compare-and-swaps of any
  number of clients interleave, the counter is the number of clients that are being served or on their way out, never exceeds
  the limit and never wraps around.
\<close>

theorem client_count_exact:
  "case run_clients maxClients sched (0, replicate k Arriving) of (n, cs) \<Rightarrow> unat n = active cs \<and> n \<le> maxClients \<and> active cs \<le> k"
proof -
  have "case run_clients maxClients sched (n, cs) of (n', cs') \<Rightarrow> clients_ok maxClients n' cs' \<and> length cs' = length cs"
    if "clients_ok maxClients n cs" for n cs
    using that
  proof (induction sched arbitrary: n cs)
    case (Cons i sched)
    show ?case
    proof (cases "i < length cs")
      case True
      obtain n' c where s: "client_step maxClients n (cs ! i) = (n', c)" by fastforce
      show ?thesis
        using Cons.IH [OF client_step_ok [OF Cons.prems True s]] True s by simp
    qed (use Cons in simp)
  qed simp
  from this [of 0 "replicate k Arriving"] show ?thesis
    by (auto simp: clients_ok_def active_def list_all_iff split: prod.splits)
qed

text \<open>A client that runs without interference is decided after two steps, and a failed compare-and-swap means that another one succeeded.\<close>

lemma lone_client_decided:
  "i < length cs \<Longrightarrow> cs ! i = Arriving \<Longrightarrow>
   run_clients m [i, i] (n, cs) = (snd (clientsCountInc m n), cs[i := if fst (clientsCountInc m n) then Serving else Refused])"
  by (simp add: clientsCountInc_def)

lemma lone_client_leaves:
  "i < length cs \<Longrightarrow> cs ! i = Leaving \<Longrightarrow> run_clients m [i, i] (n, cs) = (clientsCountDec n, cs[i := Gone])"
  by (auto simp: clientsCountDec_def)

section \<open>Bounds of the timeout\<close>



lemma client_share:
  fixes c m :: u32
  assumes "c \<le> m" "0 < m"
  shows "0 \<le> (of_nat (unat c) / of_nat (unat m) :: rat)" "of_nat (unat c) / of_nat (unat m) \<le> (1 :: rat)"
proof -
  have "a \<le> b \<Longrightarrow> 0 < b \<Longrightarrow> 0 \<le> (of_nat a / of_nat b :: rat) \<and> of_nat a / of_nat b \<le> (1 :: rat)" for a b :: nat by simp
  from this [of "unat c" "unat m"] show "0 \<le> (of_nat (unat c) / of_nat (unat m) :: rat)" "of_nat (unat c) / of_nat (unat m) \<le> (1 :: rat)"
    using assms unfolding word_le_nat_alt word_less_nat_alt unat_0 by blast+
qed

lemma client_share_mono:
  fixes c d m :: u32
  assumes "c \<le> d"
  shows "of_nat (unat c) / of_nat (unat m) \<le> (of_nat (unat d) / of_nat (unat m) :: rat)"
proof -
  have "a \<le> b \<Longrightarrow> of_nat a / of_nat k \<le> (of_nat b / of_nat k :: rat)" for a b k :: nat by (simp add: divide_right_mono)
  from this [of "unat c" "unat d" "unat m"] show ?thesis using assms unfolding word_le_nat_alt by blast
qed

text \<open>Products and differences in the unit interval stay there and follow their arguments.\<close>

lemma unit_float:
  assumes "0 \<le> x" "x \<le> 1"
  shows "as_float64 x = Finite (round64 x)" "0 \<le> round64 x" "round64 x \<le> 1"
proof -
  show "as_float64 x = Finite (round64 x)" by (rule float64_Finite) (use assms in simp)
  show "0 \<le> round64 x" by (rule round64_nonneg [OF assms(1)])
  show "round64 x \<le> 1" using round64_mono [OF assms(2)] by simp
qed

lemma unit_mult:
  assumes "0 \<le> x" "x \<le> 1" "0 \<le> y" "y \<le> (1 :: rat)"
  shows "0 \<le> x * y" "x * y \<le> 1"
  using assms mult_mono [of x 1 y 1] by simp_all

definition rmult :: "rat \<Rightarrow> rat \<Rightarrow> rat" where
  "rmult x y = round64 (x * y)"

lemma float_mult_unit:
  assumes "0 \<le> x" "x \<le> 1" "0 \<le> y" "y \<le> 1"
  shows "float_mult (Finite x) (Finite y) = Finite (rmult x y)" "0 \<le> rmult x y" "rmult x y \<le> 1"
  using unit_float [OF unit_mult [OF assms]] by (simp_all add: rmult_def)

lemma rmult_mono: "0 \<le> x \<Longrightarrow> x \<le> x' \<Longrightarrow> 0 \<le> y \<Longrightarrow> y \<le> y' \<Longrightarrow> rmult x y \<le> rmult x' y'"
  unfolding rmult_def by (rule round64_mono) (rule mult_mono, simp_all)

text \<open>The factor of the load, as a rational.\<close>

definition load_factor :: "rat \<Rightarrow> rat \<Rightarrow> rat" where
  "load_factor r u =
     (let v = round64 u; f = round64 (1 - rmult (rmult (rmult (rmult v v) v) v) r) in
      if f < round64 (1 / 10) then round64 (1 / 10) else f)"

lemma tenth_rounds: "round64 (1 / 10) = 3602879701896397 / 36028797018963968"
  by code_simp

lemma load_factor_bounds:
  assumes "0 \<le> r" "r \<le> 1" "0 \<le> u" "u \<le> 1"
  shows "1 / 10 \<le> load_factor r u" "load_factor r u \<le> 1"
proof -
  let ?v = "round64 u"
  note v = unit_float(2,3) [OF assms(3,4)]
  note v2 = float_mult_unit(2,3) [OF v v]
  note v3 = float_mult_unit(2,3) [OF v2 v]
  note v4 = float_mult_unit(2,3) [OF v3 v]
  note p = float_mult_unit(2,3) [OF v4 assms(1,2)]
  have "round64 (1 - rmult (rmult (rmult (rmult ?v ?v) ?v) ?v) r) \<le> 1" using p unit_float(3) [of "1 - rmult (rmult (rmult (rmult ?v ?v) ?v) ?v) r"] by simp
  then show "1 / 10 \<le> load_factor r u" "load_factor r u \<le> 1" by (auto simp: load_factor_def Let_def tenth_rounds)
qed

lemma load_factor_antimono:
  assumes "0 \<le> r" "0 \<le> u" "u \<le> u'"
  shows "load_factor r u' \<le> load_factor r u"
proof -
  have v: "0 \<le> round64 u" "round64 u \<le> round64 u'" using assms round64_nonneg round64_mono by auto
  have n: "0 \<le> rmult x y" if "0 \<le> x" "0 \<le> y" for x y using that by (simp add: rmult_def round64_nonneg)
  have "rmult (rmult (rmult (rmult (round64 u) (round64 u)) (round64 u)) (round64 u)) r \<le>
      rmult (rmult (rmult (rmult (round64 u') (round64 u')) (round64 u')) (round64 u')) r"
    by (intro rmult_mono n) (use v assms in auto)
  then have "round64 (1 - rmult (rmult (rmult (rmult (round64 u') (round64 u')) (round64 u')) (round64 u')) r) \<le>
      round64 (1 - rmult (rmult (rmult (rmult (round64 u) (round64 u)) (round64 u)) (round64 u)) r)"
    by (intro round64_mono) simp
  then show ?thesis by (auto simp: load_factor_def Let_def)
qed

lemma to_int64_small:
  assumes "0 \<le> x" "\<lfloor>x\<rfloor> \<le> 2 ^ 53"
  shows "to_int64 other (Finite x) = \<lfloor>x\<rfloor>"
proof -
  have "0 \<le> \<lfloor>x\<rfloor>" using assms(1) by simp
  moreover have "0 \<le> n \<Longrightarrow> n \<le> 2 ^ 53 \<Longrightarrow> - (2 ^ 63) \<le> n \<and> n < 2 ^ 63" for n :: int by simp
  ultimately have "- (2 ^ 63) \<le> \<lfloor>x\<rfloor> \<and> \<lfloor>x\<rfloor> < 2 ^ 63" using assms(2) by blast
  then show ?thesis using assms(1) by (simp only: to_int64_def trunc_def float64.case if_True simp_thms)
qed

lemma dynamic_timeout_eq:
  assumes "0 \<le> timeout" "timeout \<le> 2 ^ 53" "clientsCount \<le> maxClients" "0 < maxClients" "0 < r" "r \<le> 1"
  shows "getDynamicTimeout other timeout (Finite r) clientsCount maxClients =
    \<lfloor>round64 (of_int timeout * load_factor r (of_nat (unat clientsCount) / of_nat (unat maxClients)))\<rfloor>"
proof -
  let ?t = "of_int timeout :: rat"
  define u where "u = (of_nat (unat clientsCount) / of_nat (unat maxClients) :: rat)"
  have u: "0 \<le> u" "u \<le> 1" using client_share [OF assms(3,4)] unfolding u_def by blast+
  let ?v = "round64 u"
  note v = unit_float [OF u]
  note v2 = float_mult_unit [OF v(2,3) v(2,3)]
  note v3 = float_mult_unit [OF v2(2,3) v(2,3)]
  note v4 = float_mult_unit [OF v3(2,3) v(2,3)]
  note p = float_mult_unit [OF v4(2,3) less_imp_le [OF assms(5)] assms(6)]
  have f: "as_float64 (1 - rmult (rmult (rmult (rmult ?v ?v) ?v) ?v) r) = Finite (round64 (1 - rmult (rmult (rmult (rmult ?v ?v) ?v) ?v) r))"
    by (rule unit_float(1)) (use p in auto)
  have tenth: "as_float64 (1 / 10) = Finite (round64 (1 / 10))" by (rule unit_float(1)) auto
  have t: "as_float64 ?t = Finite ?t" using float64_Finite [of ?t] round64_int [of timeout] assms(1,2) by simp
  note b = load_factor_bounds [OF less_imp_le [OF assms(5)] assms(6) u]
  have tf: "0 \<le> ?t * load_factor r u" "?t * load_factor r u \<le> ?t"
    using b assms(1) by (simp_all add: mult_left_le)
  have "of_int timeout \<le> (of_int (2 ^ 53) :: rat)" using assms(2) by (simp only: of_int_le_iff)
  then have t53: "?t \<le> 2 ^ 53" by simp
  have prod: "as_float64 (?t * load_factor r u) = Finite (round64 (?t * load_factor r u))"
    by (rule float64_Finite) (use tf t53 in simp)
  have hi: "round64 (?t * load_factor r u) \<le> ?t" using round64_mono [OF tf(2)] round64_int [of timeout] assms(1,2) by simp
  have lo: "0 \<le> round64 (?t * load_factor r u)" by (rule round64_nonneg [OF tf(1)])
  have "\<lfloor>round64 (?t * load_factor r u)\<rfloor> \<le> timeout" using floor_mono [OF hi] by simp
  then have "to_int64 other (Finite (round64 (?t * load_factor r u))) = \<lfloor>round64 (?t * load_factor r u)\<rfloor>"
    by (intro to_int64_small [OF lo] order_trans [OF _ assms(2)])
  moreover have "getDynamicTimeout other timeout (Finite r) clientsCount maxClients =
      to_int64 other (float_mult (Finite ?t) (Finite (load_factor r u)))"
    using assms(5) word_neq_0_conv [THEN iffD2, OF assms(4)] unfolding getDynamicTimeout_def Let_def load_factor_def u_def [symmetric]
    by (simp add: v v2 v3 v4 p f tenth t del: float_mult.simps(1))
  ultimately show ?thesis using prod unfolding u_def [symmetric] by simp
qed

text \<open>
  C24: for a configured timeout of at most \<open>2 ^ 53\<close> nanoseconds (a hundred days), a reduction that is a number of at most one, as the loaded
  configuration has it, and no more clients than the limit, the timeout under load, computed in floating point, is between a tenth of the configured
  timeout and that timeout, is the configured one without load, and does not grow when the number of clients grows.
\<close>

theorem dynamic_timeout_bounds:
  assumes "0 \<le> timeout" "timeout \<le> 2 ^ 53" "r \<le> 1" "clientsCount \<le> maxClients"
  shows "timeout div 10 \<le> getDynamicTimeout other timeout (Finite r) clientsCount maxClients \<and>
    getDynamicTimeout other timeout (Finite r) clientsCount maxClients \<le> timeout \<and>
    getDynamicTimeout other timeout (Finite r) 0 maxClients = timeout \<and>
    (\<forall>fewer \<le> clientsCount. getDynamicTimeout other timeout (Finite r) clientsCount maxClients \<le>
       getDynamicTimeout other timeout (Finite r) fewer maxClients)"
proof (cases "r \<le> 0 \<or> maxClients = 0")
  case True
  then show ?thesis using assms by (auto simp: getDynamicTimeout_def)
next
  case False
  then have r: "0 < r" "0 < maxClients" by (auto simp: word_neq_0_conv)
  let ?u = "\<lambda>c :: u32. of_nat (unat c) / of_nat (unat maxClients) :: rat" and ?t = "of_int timeout :: rat"
  have eq: "getDynamicTimeout other timeout (Finite r) c maxClients = \<lfloor>round64 (?t * load_factor r (?u c))\<rfloor>" if "c \<le> maxClients" for c
    by (rule dynamic_timeout_eq) (use assms r that in auto)
  have b: "1 / 10 \<le> load_factor r (?u c)" "load_factor r (?u c) \<le> 1" if "c \<le> maxClients" for c
    using load_factor_bounds [OF less_imp_le [OF r(1)] assms(3) client_share [OF that r(2)]] by blast+
  have "of_int (timeout div 10) \<le> ?t * load_factor r (?u clientsCount)"
  proof -
    have "10 * (timeout div 10) \<le> timeout" by simp
    then have "of_int (10 * (timeout div 10)) \<le> ?t" by (simp only: of_int_le_iff)
    then have "of_int (timeout div 10) \<le> ?t * (1 / 10)" by simp
    also have "\<dots> \<le> ?t * load_factor r (?u clientsCount)" by (rule mult_left_mono) (use b [OF assms(4)] assms(1) in auto)
    finally show ?thesis .
  qed
  then have "of_int (timeout div 10) \<le> round64 (?t * load_factor r (?u clientsCount))"
    using round64_mono [of "of_int (timeout div 10)"] round64_int [of "timeout div 10"] assms(1,2) by fastforce
  moreover have "round64 (?t * load_factor r (?u clientsCount)) \<le> ?t"
    using round64_mono [of "?t * load_factor r (?u clientsCount)" ?t] round64_int [of timeout] b [OF assms(4)] assms(1,2) by (simp add: mult_left_le)
  moreover have "load_factor r 0 = 1" by (simp add: load_factor_def rmult_def tenth_rounds)
  then have "getDynamicTimeout other timeout (Finite r) 0 maxClients = timeout"
    using eq [of 0] round64_int [of timeout] assms(1,2) by simp
  moreover have "getDynamicTimeout other timeout (Finite r) clientsCount maxClients \<le> getDynamicTimeout other timeout (Finite r) c maxClients"
    if "c \<le> clientsCount" for c
  proof -
    have c: "c \<le> maxClients" using that assms(4) by simp
    have "load_factor r (?u clientsCount) \<le> load_factor r (?u c)"
      by (rule load_factor_antimono [OF less_imp_le [OF r(1)] client_share(1) [OF c r(2)] client_share_mono [OF that]])
    then show ?thesis unfolding eq [OF c(1)] eq [OF assms(4)] by (intro floor_mono round64_mono mult_left_mono) (use assms(1) in auto)
  qed
  ultimately show ?thesis using eq [OF assms(4)] by (auto simp: le_floor_iff floor_le_iff)
qed

theorem dynamic_timeout_bounds_witness:
  "500000000 \<le> getDynamicTimeout (\<lambda>_. 0) 5000000000 (Finite (3 / 4)) 200 250 \<and>
   getDynamicTimeout (\<lambda>_. 0) 5000000000 (Finite (3 / 4)) 200 250 \<le> 5000000000"
  using dynamic_timeout_bounds [of 5000000000 "3 / 4" 200 250 "\<lambda>_. 0"] by simp

text \<open>A reduction that is not a number passes the check of the configuration, and the timeout is whatever the conversion makes of it.\<close>

lemma nan_reduction_accepted:
  "checked_reduction NaN = NaN" "maxClients \<noteq> 0 \<Longrightarrow> getDynamicTimeout other timeout NaN clientsCount maxClients = other NaN"
proof -
  have m: "float_mult f NaN = NaN" for f by (cases f) simp_all
  show "checked_reduction NaN = NaN" by (simp add: checked_reduction_def)
  show "getDynamicTimeout other timeout NaN clientsCount maxClients = other NaN" if "maxClients \<noteq> 0"
    using that by (simp add: getDynamicTimeout_def Let_def m to_int64_def)
qed

section \<open>Listeners under load\<close>

text \<open>Every packet read before a read fails is handled; beyond the limit, from the cache only.\<close>

lemma udp_listener_handles:
  "map fst (udpListener m n evs) = [take (MaxDNSPacketSize - 1) p. Packet p a \<leftarrow> takeWhile (\<lambda>e. e \<noteq> ReadError) evs]"
proof (induction evs arbitrary: n)
  case (Cons e evs)
  then show ?case by (cases e) (auto simp: clientsCountInc_def)
qed simp

lemma udp_listener_overload: "n \<ge> m \<Longrightarrow> udpListener m n (Packet p a # evs) = (take (MaxDNSPacketSize - 1) p, a, True) # udpListener m n evs"
  by (simp add: clientsCountInc_def)

lemma tcp_listener_refuses: "n \<ge> m \<Longrightarrow> tcpListener m n (Accepted d reads a # evs) = ClosedAtOnce # tcpListener m n evs"
  by (simp add: clientsCountInc_def)

text \<open>An error of \<open>Accept\<close> never ends the loop over connections, unlike a read error over UDP.\<close>

lemma accept_errors_ignored: "tcpListener m n (replicate k AcceptError @ evs) = tcpListener m n evs"
  by (induction k) simp_all

end
