(* ===== verification/Dc_Balance.thy ===== *)
theory Dc_Balance
  imports Complex_Main Dc_Common "HOL-Library.Multiset"
begin

text \<open>
  The list of live servers of \<open>pkg/dnscrypt/serversInfo.go\<close>: load-balancing strategies, latency estimates, statistics, registration
  and the slots for refreshing keys. Floating-point numbers are rationals, so rounding is not modelled; the moving average is
  a record of operations, random draws and the clock are arguments.
\<close>

section \<open>Servers\<close>

record 'a average =
  avg_Set :: "rat \<Rightarrow> 'a \<Rightarrow> 'a"
  avg_Add :: "rat \<Rightarrow> 'a \<Rightarrow> 'a"
  avg_Value :: "'a \<Rightarrow> rat"
  avg_New :: 'a

record 'a lb_server =
  sv_Name :: string
  sv_rtt :: 'a
  sv_initialRtt :: int
  sv_lastActionTS :: int
  sv_lastDecayTS :: int
  sv_lastUpdateTime :: int
  sv_totalQueries :: u64
  sv_failedQueries :: u64

datatype LBStrategy = LBStrategyP2 | LBStrategyPN nat | LBStrategyPH | LBStrategyFirst | LBStrategyRandom | LBStrategyWP2

text \<open>\<open>draw n\<close> is what \<open>rand.Intn(n)\<close> returns; with \<open>n = 0\<close> it panics.\<close>

definition Intn :: "(nat \<Rightarrow> nat) \<Rightarrow> nat \<Rightarrow> (unit, nat) outcome" where
  "Intn draw n = (if n = 0 then Panic else Ret (draw n))"

definition getCandidate :: "(nat \<Rightarrow> nat) \<Rightarrow> LBStrategy \<Rightarrow> nat \<Rightarrow> (unit, nat) outcome" where
  "getCandidate draw s serversCount =
     (case s of
        LBStrategyP2 \<Rightarrow> Intn draw (min serversCount 2)
      | LBStrategyPN n \<Rightarrow> Intn draw (min serversCount n)
      | LBStrategyPH \<Rightarrow> Intn draw ((serversCount + 1) div 2)
      | LBStrategyFirst \<Rightarrow> Ret 0
      | LBStrategyRandom \<Rightarrow> Intn draw serversCount
      | LBStrategyWP2 \<Rightarrow> if serversCount \<le> 1 then Ret 0 else Intn draw serversCount)"

definition getActiveCount :: "LBStrategy \<Rightarrow> nat \<Rightarrow> nat" where
  "getActiveCount s serversCount =
     (case s of
        LBStrategyP2 \<Rightarrow> min serversCount 2
      | LBStrategyPN n \<Rightarrow> min serversCount n
      | LBStrategyPH \<Rightarrow> (serversCount + 1) div 2
      | LBStrategyFirst \<Rightarrow> 1
      | LBStrategyRandom \<Rightarrow> serversCount
      | LBStrategyWP2 \<Rightarrow> serversCount)"

section \<open>Latency estimates\<close>

text \<open>One pass that swaps neighbours out of order.\<close>

fun sort_pass :: "'a average \<Rightarrow> 'a lb_server list \<Rightarrow> 'a lb_server list" where
  "sort_pass A (x # y # inner) =
     (if avg_Value A (sv_rtt x) > avg_Value A (sv_rtt y) then y # sort_pass A (x # inner) else x # sort_pass A (y # inner))"
| "sort_pass A inner = inner"

definition sortByRtt :: "'a average \<Rightarrow> 'a lb_server list \<Rightarrow> 'a lb_server list" where
  "sortByRtt A inner = sort_pass A inner"

definition swap :: "nat \<Rightarrow> nat \<Rightarrow> 'b list \<Rightarrow> 'b list" where
  "swap i j xs = xs[i := xs ! j, j := xs ! i]"

definition estimatorUpdate ::
  "'a average \<Rightarrow> (nat \<Rightarrow> nat) \<Rightarrow> LBStrategy \<Rightarrow> nat \<Rightarrow> 'a lb_server list \<Rightarrow> (unit, 'a lb_server list) outcome" where
  "estimatorUpdate A draw s currentActive inner =
     (let serversCount = length inner; activeCount = getActiveCount s serversCount in
      if activeCount = serversCount then Ret inner
      else if serversCount < activeCount then Panic
      else
        (case Intn draw (serversCount - activeCount) of
           Ret d \<Rightarrow>
             let candidate = d + activeCount;
                 candidateRtt = avg_Value A (sv_rtt (inner ! candidate));
                 currentActiveRtt = avg_Value A (sv_rtt (inner ! currentActive)) in
             if currentActiveRtt < 0 then
               Ret (inner[currentActive := (inner ! currentActive)\<lparr>sv_rtt := avg_Set A candidateRtt (sv_rtt (inner ! currentActive))\<rparr>])
             else if candidateRtt < currentActiveRtt then Ret (sortByRtt A (swap candidate currentActive inner))
             else Ret inner
         | _ \<Rightarrow> Panic))"

definition best_rtt :: "'a average \<Rightarrow> 'a lb_server list \<Rightarrow> rat" where
  "best_rtt A inner =
     foldl (\<lambda>best sv. let rtt = avg_Value A (sv_rtt sv) in if rtt > 0 \<and> rtt < best then rtt else best)
       (avg_Value A (sv_rtt (hd inner))) inner"

definition minute :: int where
  "minute = 60000000000"

definition recover_server :: "'a average \<Rightarrow> int \<Rightarrow> rat \<Rightarrow> 'a lb_server \<Rightarrow> 'a lb_server option" where
  "recover_server A now bestRtt server =
     (let currentRtt = avg_Value A (sv_rtt server) in
      if currentRtt \<le> bestRtt * 4 then None
      else if now - sv_lastActionTS server \<le> minute then None
      else if now - sv_lastDecayTS server \<le> 10000000000 then None
      else
        let targetRtt = (if sv_initialRtt server \<le> 0 then bestRtt else of_int (sv_initialRtt server)) in
        Some (server\<lparr>sv_rtt := avg_Add A targetRtt (sv_rtt server), sv_totalQueries := 0, sv_failedQueries := 0, sv_lastDecayTS := now\<rparr>))"

definition recoverDormantServers :: "'a average \<Rightarrow> int \<Rightarrow> 'a lb_server list \<Rightarrow> 'a lb_server list" where
  "recoverDormantServers A now inner =
     (if length inner \<le> 1 then inner
      else
        let bestRtt = best_rtt A inner in
        if bestRtt \<le> 0 then inner
        else
          let rs = map (\<lambda>sv. recover_server A now bestRtt sv) inner;
              inner = map (\<lambda>sv. case recover_server A now bestRtt sv of None \<Rightarrow> sv | Some sv' \<Rightarrow> sv') inner in
          if list_ex (\<lambda>r. r \<noteq> None) rs then sortByRtt A inner else inner)"

section \<open>Choosing a server\<close>

definition calculateServerScore :: "'a average \<Rightarrow> 'a lb_server \<Rightarrow> rat" where
  "calculateServerScore A server =
     (let rtt = avg_Value A (sv_rtt server); rtt = (if rtt \<le> 0 then 1000 else rtt);
          rttScore = 1 - rtt / 1000; rttScore = (if rttScore < 0 then 0 else rttScore);
          successRate = (if sv_totalQueries server > 0
            then of_nat (unat (sv_totalQueries server - sv_failedQueries server)) / of_nat (unat (sv_totalQueries server)) else 1) in
      rttScore * (7 / 10) + successRate * (3 / 10))"

text \<open>
  The draws of \<open>getWeightedCandidate\<close>: the first server, then draws for the second until one differs; \<open>coin\<close> breaks a tie. With
  no differing draw the function has not returned.
\<close>

definition getWeightedCandidate :: "'a average \<Rightarrow> nat \<Rightarrow> nat list \<Rightarrow> bool \<Rightarrow> 'a lb_server list \<Rightarrow> nat option" where
  "getWeightedCandidate A first seconds coin inner =
     (if length inner \<le> 1 then Some 0
      else
        (case find (\<lambda>s. s \<noteq> first) seconds of
           None \<Rightarrow> None
         | Some sec \<Rightarrow>
             let score1 = calculateServerScore A (inner ! first); score2 = calculateServerScore A (inner ! sec) in
             if score1 > score2 then Some first
             else if score2 > score1 then Some sec
             else if coin then Some first else Some sec))"

record lb_draws =
  ld_draw :: "nat \<Rightarrow> nat"
  ld_draw2 :: "nat \<Rightarrow> nat"
  ld_first :: nat
  ld_seconds :: "nat list"
  ld_coin :: bool

text \<open>The chosen server and the list afterwards; \<open>None\<close> while the draws go on.\<close>

definition getOne ::
  "'a average \<Rightarrow> LBStrategy \<Rightarrow> bool \<Rightarrow> lb_draws \<Rightarrow> int \<Rightarrow> 'a lb_server list \<Rightarrow>
   ((unit, 'a lb_server option \<times> 'a lb_server list) outcome) option" where
  "getOne A lbStrategy lbEstimator R now inner =
     (let serversCount = length inner in
      if serversCount = 0 then Some (Ret (None, inner))
      else
        let inner = recoverDormantServers A now inner in
        if lbStrategy = LBStrategyWP2 then
          map_option (\<lambda>candidate. Ret (Some (inner ! candidate), inner))
            (getWeightedCandidate A (ld_first R) (ld_seconds R) (ld_coin R) inner)
        else
          (case getCandidate (ld_draw R) lbStrategy serversCount of
             Ret candidate \<Rightarrow>
               if lbEstimator then
                 (case estimatorUpdate A (ld_draw2 R) lbStrategy candidate inner of
                    Ret inner \<Rightarrow> Some (Ret (Some (inner ! candidate), inner))
                  | _ \<Rightarrow> Some Panic)
               else Some (Ret (Some (inner ! candidate), inner))
           | _ \<Rightarrow> Some Panic))"

section \<open>Statistics\<close>

definition count_query :: "int \<Rightarrow> bool \<Rightarrow> 'a lb_server \<Rightarrow> 'a lb_server" where
  "count_query now success server =
     (let server = server\<lparr>sv_totalQueries := sv_totalQueries server + 1\<rparr>;
          server = (if \<not> success then server\<lparr>sv_failedQueries := sv_failedQueries server + 1\<rparr> else server);
          server = server\<lparr>sv_lastUpdateTime := now\<rparr> in
      if sv_totalQueries server > 10000 then
        server\<lparr>sv_totalQueries := sv_totalQueries server div 2, sv_failedQueries := sv_failedQueries server div 2\<rparr>
      else server)"

fun updateServerStats :: "int \<Rightarrow> string \<Rightarrow> bool \<Rightarrow> 'a lb_server list \<Rightarrow> 'a lb_server list" where
  "updateServerStats now name success [] = []"
| "updateServerStats now name success (sv # inner) =
     (if sv_Name sv = name then count_query now success sv # inner else sv # updateServerStats now name success inner)"

definition noticeFailure :: "'a average \<Rightarrow> int \<Rightarrow> 'a lb_server \<Rightarrow> 'a lb_server" where
  "noticeFailure A timeout sv = sv\<lparr>sv_rtt := avg_Add A (of_int (timeout div 1000000)) (sv_rtt sv)\<rparr>"

definition noticeBegin :: "int \<Rightarrow> 'a lb_server \<Rightarrow> 'a lb_server" where
  "noticeBegin now sv = sv\<lparr>sv_lastActionTS := now\<rparr>"

definition noticeSuccess :: "'a average \<Rightarrow> int \<Rightarrow> int \<Rightarrow> 'a lb_server \<Rightarrow> 'a lb_server" where
  "noticeSuccess A timeout now sv =
     (let elapsed = now - sv_lastActionTS sv; elapsedMs = elapsed div 1000000 in
      if elapsedMs > 0 \<and> elapsed < timeout then sv\<lparr>sv_rtt := avg_Add A (of_int elapsedMs) (sv_rtt sv)\<rparr> else sv)"

section \<open>Refreshing servers\<close>

text \<open>A server that was fetched replaces the one of its name or joins the end.\<close>

fun install_server :: "'a lb_server \<Rightarrow> 'a lb_server list \<Rightarrow> 'a lb_server list" where
  "install_server new [] = [new]"
| "install_server new (sv # inner) = (if sv_Name sv = sv_Name new then new # inner else sv # install_server new inner)"

fun registerServer :: "string \<Rightarrow> 'st \<Rightarrow> (string \<times> 'st) list \<Rightarrow> (string \<times> 'st) list" where
  "registerServer name stamp [] = [(name, stamp)]"
| "registerServer name stamp ((n, st) # registered) =
     (if n = name then (name, stamp) # registered else (n, st) # registerServer name stamp registered)"

text \<open>The fetched server has the name that was asked for; a server that is new to the list is registered.\<close>

definition refreshServer ::
  "'a average \<Rightarrow> string \<Rightarrow> 'st \<Rightarrow> 'a lb_server option \<Rightarrow> 'a lb_server list \<times> (string \<times> 'st) list \<Rightarrow>
   bool \<times> 'a lb_server list \<times> (string \<times> 'st) list" where
  "refreshServer A name stamp fetched st =
     (case fetched of
        None \<Rightarrow> (False, st)
      | Some new \<Rightarrow>
          (True, install_server (new\<lparr>sv_rtt := avg_Set A (of_int (sv_initialRtt new)) (avg_New A)\<rparr>) (fst st),
           if list_ex (\<lambda>sv. sv_Name sv = name) (fst st) then snd st else registerServer name stamp (snd st)))"

text \<open>\<open>refresh\<close>: every registered server is fetched, in any order; the list is then sorted by the first latency.\<close>

definition refresh ::
  "'a average \<Rightarrow> (string \<times> 'st \<times> 'a lb_server option) list \<Rightarrow> 'a lb_server list \<times> (string \<times> 'st) list \<Rightarrow>
   nat \<times> 'a lb_server list \<times> (string \<times> 'st) list" where
  "refresh A fetches st =
     (let (live, inner, registered) =
        foldl (\<lambda>(n, st) (name, stamp, f). case refreshServer A name stamp f st of (ok, st) \<Rightarrow> (if ok then n + 1 else n, st)) (0, st) fetches in
      (live, sort_key sv_initialRtt inner, registered))"

record odoh_slots =
  os_inFlight :: "string set"
  os_lastFailureAt :: "string \<rightharpoonup> int"

definition beginODoHRefresh :: "int \<Rightarrow> int \<Rightarrow> string \<Rightarrow> odoh_slots \<Rightarrow> bool \<times> odoh_slots" where
  "beginODoHRefresh now failureCooldown name s =
     (if name \<in> os_inFlight s then (False, s)
      else if (case os_lastFailureAt s name of Some t \<Rightarrow> now - t < failureCooldown | None \<Rightarrow> False) then (False, s)
      else (True, s\<lparr>os_inFlight := insert name (os_inFlight s)\<rparr>))"

definition endODoHRefresh :: "int \<Rightarrow> string \<Rightarrow> bool \<Rightarrow> odoh_slots \<Rightarrow> odoh_slots" where
  "endODoHRefresh now name success s =
     s\<lparr>os_inFlight := os_inFlight s - {name},
       os_lastFailureAt := (if success then (os_lastFailureAt s)(name := None) else (os_lastFailureAt s)(name \<mapsto> now))\<rparr>"

definition cancelODoHRefresh :: "string \<Rightarrow> odoh_slots \<Rightarrow> odoh_slots" where
  "cancelODoHRefresh name s = s\<lparr>os_inFlight := os_inFlight s - {name}\<rparr>"

section \<open>Choosing never fails\<close>

abbreviation names :: "'a lb_server list \<Rightarrow> string multiset" where
  "names inner \<equiv> image_mset sv_Name (mset inner)"

lemma mset_sort_pass [simp]: "mset (sort_pass A inner) = mset inner"
  by (induction A inner rule: sort_pass.induct) auto

lemma length_sort_pass [simp]: "length (sort_pass A inner) = length inner"
  by (metis mset_sort_pass size_mset)

lemma names_sort [simp]: "names (sortByRtt A inner) = names inner" "length (sortByRtt A inner) = length inner"
  by (simp_all add: sortByRtt_def)

lemma names_swap: "i < length xs \<Longrightarrow> j < length xs \<Longrightarrow> names (swap i j xs) = names xs"
  by (simp add: swap_def mset_swap)

lemma length_swap [simp]: "length (swap i j xs) = length xs"
  by (simp add: swap_def)

lemma names_update: "i < length xs \<Longrightarrow> sv_Name y = sv_Name (xs ! i) \<Longrightarrow> names (xs[i := y]) = names xs"
  by (metis list_update_id map_update mset_map)

lemma recover_names [simp]: "names (recoverDormantServers A now inner) = names inner" "length (recoverDormantServers A now inner) = length inner"
proof -
  have "sv_Name (case recover_server A now b sv of None \<Rightarrow> sv | Some sv' \<Rightarrow> sv') = sv_Name sv" for b sv
    by (auto simp: recover_server_def Let_def split: option.splits)
  then show "names (recoverDormantServers A now inner) = names inner"
    by (simp add: recoverDormantServers_def Let_def image_mset.compositionality comp_def)
  then show "length (recoverDormantServers A now inner) = length inner" by (metis size_image_mset size_mset)
qed

lemma active_le: "n > 0 \<Longrightarrow> getActiveCount s n \<le> n"
  by (cases s) (auto simp: getActiveCount_def)

lemma estimator_names:
  assumes "inner \<noteq> []" "currentActive < length inner" "\<And>n. n > 0 \<Longrightarrow> draw n < n"
  shows "\<exists>inner'. estimatorUpdate A draw s currentActive inner = Ret inner' \<and> names inner' = names inner \<and> length inner' = length inner"
proof -
  let ?n = "length inner" and ?k = "getActiveCount s (length inner)"
  have k: "?k \<le> ?n" using active_le [of ?n s] assms(1) by simp
  show ?thesis
  proof (cases "?k = ?n")
    case False
    have "draw (?n - ?k) < ?n - ?k" using False k by (intro assms(3)) simp
    then have c: "draw (?n - ?k) + ?k < ?n" by simp
    show ?thesis
      using False k assms(2) c by (auto simp: estimatorUpdate_def Let_def Intn_def names_swap names_update)
  qed (simp add: estimatorUpdate_def)
qed

lemma candidate_in_range:
  assumes "n > 0" "\<And>n. n > 0 \<Longrightarrow> draw n < n" "s \<noteq> LBStrategyPN 0"
  shows "\<exists>c<n. getCandidate draw s n = Ret c"
proof -
  have d: "draw (min n 2) < n" "\<And>m. m > 0 \<Longrightarrow> draw (min n m) < n" "draw ((n + 1) div 2) < n" "draw n < n"
    using assms(1) assms(2) [of "min n 2"] assms(2) [of "min n _"] assms(2) [of "(n + 1) div 2"] assms(2) [of n]
    by (auto intro: less_le_trans)
  show ?thesis using assms(1,3) d by (cases s) (auto simp: getCandidate_def Intn_def)
qed

definition draws_ok :: "lb_draws \<Rightarrow> nat \<Rightarrow> bool" where
  "draws_ok R n \<longleftrightarrow>
     (\<forall>m>0. ld_draw R m < m) \<and> (\<forall>m>0. ld_draw2 R m < m) \<and> ld_first R < n \<and> list_all (\<lambda>s. s < n) (ld_seconds R) \<and>
     (n > 1 \<longrightarrow> list_ex (\<lambda>s. s \<noteq> ld_first R) (ld_seconds R))"

lemma find_ex: "list_ex P xs \<Longrightarrow> \<exists>x\<in>set xs. find P xs = Some x"
  by (induction xs) auto

lemma weighted_in_range:
  assumes "inner \<noteq> []" "draws_ok R (length inner)"
  shows "\<exists>c<length inner. getWeightedCandidate A (ld_first R) (ld_seconds R) coin inner = Some c"
proof (cases "length inner \<le> 1")
  case True
  then show ?thesis using assms(1) by (auto simp: getWeightedCandidate_def)
next
  case False
  then obtain s where "s \<in> set (ld_seconds R)" "find (\<lambda>s. s \<noteq> ld_first R) (ld_seconds R) = Some s"
    using assms(2) find_ex [of "\<lambda>s. s \<noteq> ld_first R" "ld_seconds R"] by (auto simp: draws_ok_def)
  then show ?thesis using assms(2) False by (auto simp: getWeightedCandidate_def draws_ok_def Let_def list_all_iff)
qed

text \<open>As long as a server is live, choosing one succeeds. With any strategy but the useless "first 0 of N", any latencies and any
  draws, the choice does not panic or run out of range: it returns a server of the list, and the list keeps exactly its
  servers.
\<close>

theorem getOne_returns_live_server:
  assumes "inner \<noteq> []" "draws_ok R (length inner)" "lbStrategy \<noteq> LBStrategyPN 0"
  shows "\<exists>sv inner'. getOne A lbStrategy lbEstimator R now inner = Some (Ret (Some sv, inner')) \<and>
    sv \<in> set inner' \<and> names inner' = names inner"
proof -
  let ?i = "recoverDormantServers A now inner"
  have ne: "?i \<noteq> []" "length ?i = length inner" using assms(1) recover_names(2) by (metis length_0_conv)+
  show ?thesis
  proof (cases "lbStrategy = LBStrategyWP2")
    case True
    have ok: "draws_ok R (length ?i)" using assms(2) by simp
    obtain c where "c < length ?i" "getWeightedCandidate A (ld_first R) (ld_seconds R) (ld_coin R) ?i = Some c"
      using weighted_in_range [OF ne(1) ok] by blast
    then show ?thesis using True assms(1) by (simp add: getOne_def Let_def)
  next
    case False
    obtain c where c: "c < length inner" "getCandidate (ld_draw R) lbStrategy (length inner) = Ret c"
      using candidate_in_range [OF _ _ assms(3), of "length inner" "ld_draw R"] assms(1,2) by (auto simp: draws_ok_def)
    obtain j where j: "estimatorUpdate A (ld_draw2 R) lbStrategy c ?i = Ret j" "names j = names ?i" "length j = length ?i"
      using estimator_names [OF ne(1), of c "ld_draw2 R" A lbStrategy] c(1) ne(2) assms(2) by (auto simp: draws_ok_def)
    show ?thesis using False c j ne assms(1) by (cases lbEstimator) (simp_all add: getOne_def Let_def)
  qed
qed

text \<open>The weighted choice never takes the worse of the two servers it compares.\<close>

lemma weighted_prefers:
  assumes "getWeightedCandidate A first seconds coin inner = Some c" "length inner > 1"
  shows "\<exists>d. d \<noteq> c \<and> d \<in> insert first (set seconds) \<and> calculateServerScore A (inner ! d) \<le> calculateServerScore A (inner ! c)"
  using assms
  by (auto simp: getWeightedCandidate_def Let_def find_Some_iff split: option.splits if_splits intro: exI [of _ first])

section \<open>Statistics\<close>

definition stats_ok :: "'a lb_server \<Rightarrow> bool" where
  "stats_ok sv \<longleftrightarrow> sv_failedQueries sv \<le> sv_totalQueries sv \<and> sv_totalQueries sv \<le> 10000"

lemma unat_Suc_small: "t \<le> 10000 \<Longrightarrow> unat (t + 1 :: u64) = unat t + 1"
  by (simp add: word_le_nat_alt unat_word_ariths(1))

lemma count_query_ok:
  assumes "stats_ok sv"
  shows "stats_ok (count_query now success sv)"
proof -
  let ?t = "sv_totalQueries sv" and ?f = "sv_failedQueries sv"
  have f: "unat ?f \<le> unat ?t" "unat ?t \<le> 10000" "?f \<le> 10000"
    using assms by (auto simp: stats_ok_def word_le_nat_alt)
  have u: "unat (?t + 1) = unat ?t + 1" "unat (?f + 1) = unat ?f + 1"
    using f assms unat_Suc_small by (auto simp: stats_ok_def)
  show ?thesis using f u
    by (auto simp: count_query_def Let_def stats_ok_def word_le_nat_alt word_less_nat_alt unat_div intro!: div_le_mono)
qed

lemma update_stats_ok: "list_all stats_ok inner \<Longrightarrow> list_all stats_ok (updateServerStats now name success inner)"
  by (induction inner) (auto intro: count_query_ok)

lemma set_sort_pass [simp]: "set (sort_pass A inner) = set inner"
  by (metis mset_sort_pass set_mset_mset)

lemma recover_stats_ok:
  assumes "list_all stats_ok inner"
  shows "list_all stats_ok (recoverDormantServers A now inner)"
proof -
  have "stats_ok (case recover_server A now b sv of None \<Rightarrow> sv | Some sv' \<Rightarrow> sv')" if "stats_ok sv" for b sv
    using that by (auto simp: recover_server_def stats_ok_def Let_def split: option.splits)
  then show ?thesis using assms
    by (auto simp: recoverDormantServers_def Let_def list_all_iff sortByRtt_def)
qed

lemma install_ok: "list_all P inner \<Longrightarrow> P new \<Longrightarrow> list_all P (install_server new inner)"
  by (induction inner) auto

text \<open>What happens to the list: queries are counted, dormant servers recover, servers are refreshed.\<close>

datatype 'a lb_event = Counted int string bool | Recovered int | Noticed "'a lb_server \<Rightarrow> 'a lb_server" nat | Refreshed string "'a lb_server option"

fun lb_step :: "'a average \<Rightarrow> 'a lb_event \<Rightarrow> 'a lb_server list \<Rightarrow> 'a lb_server list" where
  "lb_step A (Counted now name success) inner = updateServerStats now name success inner"
| "lb_step A (Recovered now) inner = recoverDormantServers A now inner"
| "lb_step A (Noticed f i) inner = (if i < length inner then inner[i := f (inner ! i)] else inner)"
| "lb_step A (Refreshed name new) inner = fst (snd (refreshServer A name () new (inner, [])))"

text \<open>A notice is one of the three notices; a fetched server starts without queries.\<close>

fun lb_event_ok :: "'a average \<Rightarrow> 'a lb_event \<Rightarrow> bool" where
  "lb_event_ok A (Noticed f i) \<longleftrightarrow> (\<exists>timeout now. f \<in> {noticeFailure A timeout, noticeBegin now, noticeSuccess A timeout now})"
| "lb_event_ok A (Refreshed name (Some new)) \<longleftrightarrow> sv_totalQueries new = 0 \<and> sv_failedQueries new = 0"
| "lb_event_ok A _ \<longleftrightarrow> True"

lemma notice_stats:
  "stats_ok (noticeFailure A timeout sv) = stats_ok sv" "stats_ok (noticeBegin now sv) = stats_ok sv"
  "stats_ok (noticeSuccess A timeout now sv) = stats_ok sv"
  by (simp_all add: stats_ok_def noticeFailure_def noticeBegin_def noticeSuccess_def Let_def)

lemma lb_step_ok:
  assumes "list_all stats_ok inner" "lb_event_ok A e"
  shows "list_all stats_ok (lb_step A e inner)"
proof (cases e)
  case (Noticed f i)
  then have "stats_ok (f sv)" if "stats_ok sv" for sv using assms(2) that by (auto simp: notice_stats)
  then show ?thesis using assms(1) Noticed
    by (auto simp: list_all_iff dest!: set_update_subset_insert [THEN subsetD])
next
  case (Refreshed name new)
  then show ?thesis using assms
    by (cases new) (auto simp: refreshServer_def stats_ok_def intro!: install_ok)
qed (use assms in \<open>auto intro: update_stats_ok recover_stats_ok\<close>)

lemma share: "a \<le> b \<Longrightarrow> 0 \<le> (of_nat a / of_nat b :: rat) \<and> (of_nat a / of_nat b :: rat) \<le> 1"
  by (auto simp: divide_le_eq_1)

text \<open>The statistics never wrap and every score is a share. Along any history of counted queries, recoveries, notices and refreshes,
  each server has at most as many failures as queries and at most ten thousand queries, so the 64-bit subtraction does not wrap and
  the score lies between 0 and 1.
\<close>

theorem scores_stay_in_range:
  assumes "list_all (lb_event_ok A) events" "sv \<in> set (fold (lb_step A) events [])"
  shows "sv_failedQueries sv \<le> sv_totalQueries sv \<and> sv_totalQueries sv \<le> 10000 \<and> calculateServerScore A sv \<in> {0..1}"
proof -
  have "list_all stats_ok (fold (lb_step A) events inner)" if "list_all stats_ok inner" for inner
    using assms(1) that by (induction events arbitrary: inner) (auto intro: lb_step_ok)
  from this [of "[]"] have ok: "stats_ok sv" using assms(2) by (simp add: list_all_iff)
  let ?t = "sv_totalQueries sv" and ?f = "sv_failedQueries sv"
  have "unat (?t - ?f) \<le> unat ?t" using ok by (simp add: stats_ok_def unat_sub)
  define q where "q = (of_nat (unat (?t - ?f)) / of_nat (unat ?t) :: rat)"
  define r where "r = (if avg_Value A (sv_rtt sv) \<le> 0 then 1000 else avg_Value A (sv_rtt sv))"
  have "0 \<le> q" "q \<le> 1" using share [OF \<open>unat (?t - ?f) \<le> unat ?t\<close>] unfolding q_def by blast+
  moreover have "r > 0" by (simp add: r_def)
  ultimately have "calculateServerScore A sv \<in> {0..1}"
    unfolding calculateServerScore_def Let_def r_def [symmetric] q_def [symmetric] by (auto simp: field_simps)
  then show ?thesis using ok by (simp add: stats_ok_def)
qed

definition mean_average :: "rat average" where
  "mean_average = \<lparr>avg_Set = (\<lambda>v _. v), avg_Add = (\<lambda>v a. (v + a) / 2), avg_Value = (\<lambda>a. a), avg_New = 0\<rparr>"

definition new_server :: "string \<Rightarrow> int \<Rightarrow> rat lb_server" where
  "new_server name ms = \<lparr>sv_Name = name, sv_rtt = 0, sv_initialRtt = ms, sv_lastActionTS = 0, sv_lastDecayTS = 0, sv_lastUpdateTime = 0,
     sv_totalQueries = 0, sv_failedQueries = 0\<rparr>"

definition sample_draws :: lb_draws where
  "sample_draws = \<lparr>ld_draw = (\<lambda>n. 0), ld_draw2 = (\<lambda>n. n - 1), ld_first = 0, ld_seconds = [0, 1], ld_coin = True\<rparr>"

theorem getOne_returns_live_server_witness:
  "\<exists>sv inner'. getOne mean_average LBStrategyWP2 True sample_draws 5 [new_server ''a'' 20, new_server ''b'' 30] = Some (Ret (Some sv, inner')) \<and>
     sv \<in> set inner' \<and> names inner' = {#''a'', ''b''#}"
  using getOne_returns_live_server [of "[new_server ''a'' 20, new_server ''b'' 30]" sample_draws LBStrategyWP2 mean_average True 5]
  by (simp add: draws_ok_def sample_draws_def new_server_def)

theorem scores_stay_in_range_witness:
  "case fold (lb_step mean_average) [Refreshed ''a'' (Some (new_server ''a'' 20)), Counted 1 ''a'' False, Noticed (noticeFailure mean_average 5000000000) 0] [] of
     [sv] \<Rightarrow> sv_failedQueries sv = 1 \<and> calculateServerScore mean_average sv \<in> {0..1} | _ \<Rightarrow> False"
proof -
  let ?es = "[Refreshed ''a'' (Some (new_server ''a'' 20)), Counted 1 ''a'' False, Noticed (noticeFailure mean_average 5000000000) 0]"
  have ok: "list_all (lb_event_ok mean_average) ?es" by (auto simp: new_server_def)
  obtain sv where sv: "fold (lb_step mean_average) ?es [] = [sv]" "sv_failedQueries sv = 1"
    by (auto simp: refreshServer_def new_server_def count_query_def noticeFailure_def Let_def)
  then have "sv \<in> set (fold (lb_step mean_average) ?es [])" by simp
  from scores_stay_in_range [OF ok this] sv show ?thesis by simp
qed

section \<open>One refresh at a time\<close>

text \<open>A refresh that has failed keeps further refreshes of that server away for the cool-down, and at most one is in flight.\<close>

lemma begin_refresh:
  "beginODoHRefresh now cd name s = (True, s') \<Longrightarrow> name \<notin> os_inFlight s \<and> name \<in> os_inFlight s'"
  by (auto simp: beginODoHRefresh_def split: if_splits)

lemma refresh_excludes: "name \<in> os_inFlight s \<Longrightarrow> fst (beginODoHRefresh now cd name s) = False"
  by (simp add: beginODoHRefresh_def)

lemma refresh_cools_down: "now' - now < cd \<Longrightarrow> fst (beginODoHRefresh now' cd name (endODoHRefresh now name False s)) = False"
  by (simp add: beginODoHRefresh_def endODoHRefresh_def)

lemma refresh_after_success: "fst (beginODoHRefresh now' cd name (endODoHRefresh now name True s)) = True"
  by (simp add: beginODoHRefresh_def endODoHRefresh_def)

lemma cancel_keeps_cooldown: "os_lastFailureAt (cancelODoHRefresh name s) = os_lastFailureAt s"
  by (simp add: cancelODoHRefresh_def)

text \<open>After a refresh the list is sorted by the first latency and has no two servers of one name.\<close>

lemma install_names: "distinct (map sv_Name inner) \<Longrightarrow> distinct (map sv_Name (install_server new inner)) \<and>
    set (map sv_Name (install_server new inner)) = insert (sv_Name new) (set (map sv_Name inner))"
  by (induction inner) auto

lemma refresh_sorted: "sorted (map sv_initialRtt (fst (snd (refresh A fetches st))))"
  by (simp add: refresh_def split: prod.splits)

end
