(* ===== verification/Dc_Exchange.thy ===== *)
theory Dc_Exchange
  imports Dc_Balance Dc_Routes
begin

text \<open>
  Answering one query: \<open>pkg/dnscrypt/query_processing.go\<close> and the second half of \<open>proxy.go\<close>. A query goes through the query plugins, is
  answered from them or sealed and sent to a server, the answer goes through the response plugins and back to the client. What the
  handler does to the world (packets, log lines, what it learns about the server) is a trace of events in the order of the code;
  dialing, writing, reading, HTTPS exchanges and draws are arguments.
\<close>

section \<open>Events and context\<close>

datatype xerror = XTimeout | XNet | XCrypto crypto_error | XFrame frame_error | XPlugin msg_error

datatype target_url = PlainURL "string \<times> string" | RelayURL string

datatype event =
    Upstream string net_addr bytes
  | Https target_url bytes
  | PoolReturned net_addr
  | PoolDiscarded net_addr
  | NoticedBegin
  | NoticedFailure
  | NoticedSuccess
  | KeyRefreshed string bool
  | StatsUpdated string bool
  | Logged PluginsReturnCode
  | ToClient bytes
  | Estimated estimate_event
  | MetricsUpdated

record qctx =
  qc_state :: PluginsState
  qc_slots :: odoh_slots
  qc_trace :: "event list"

record 'c sctx = qctx +
  sc_server :: "'c FullServer"

definition emit :: "event \<Rightarrow> 'x qctx_scheme \<Rightarrow> 'x qctx_scheme" where
  "emit ev ctx = ctx\<lparr>qc_trace := qc_trace ctx @ [ev]\<rparr>"

text \<open>\<open>log_with\<close> sets the return code and runs the logging plugins, which read it.\<close>

definition ApplyLoggingPlugins :: "'x qctx_scheme \<Rightarrow> 'x qctx_scheme" where
  "ApplyLoggingPlugins ctx = emit (Logged (returnCode (qc_state ctx))) ctx"

definition log_with :: "PluginsReturnCode \<Rightarrow> 'x qctx_scheme \<Rightarrow> 'x qctx_scheme" where
  "log_with rc ctx = ApplyLoggingPlugins (ctx\<lparr>qc_state := (qc_state ctx)\<lparr>returnCode := rc\<rparr>\<rparr>)"

text \<open>
  The environment of one query. \<open>xe_query k\<close> is the randomness of the \<open>k\<close>-th encryption, \<open>xe_write p a k\<close> and \<open>xe_read a q k\<close> what writing
  and reading give at the \<open>k\<close>-th try, \<open>xe_reads a q\<close> what a TCP connection delivers until its deadline, \<open>xe_seal\<close> an
  oblivious query with the function that opens its answer, \<open>xe_pick k\<close> the \<open>k\<close>-th choice of a server.
\<close>

record 'c exchange_env =
  xe_crypto :: crypto_ops
  xe_keys :: client_keys
  xe_query :: "nat \<Rightarrow> query_env"
  xe_now :: int
  xe_epoch :: u64
  xe_proxyDialer :: bool
  xe_poolGet :: "net_addr \<Rightarrow> xerror option"
  xe_dial :: "string \<Rightarrow> net_addr \<Rightarrow> xerror option"
  xe_deadline :: "xerror option"
  xe_write :: "string \<Rightarrow> net_addr \<Rightarrow> nat \<Rightarrow> xerror option"
  xe_read :: "net_addr \<Rightarrow> bytes \<Rightarrow> nat \<Rightarrow> xerror + bytes"
  xe_reads :: "net_addr \<Rightarrow> bytes \<Rightarrow> conn_read list"
  xe_doh :: "bool \<Rightarrow> string \<times> string \<Rightarrow> bytes \<Rightarrow> xerror option \<times> bytes \<times> tls_state option"
  xe_odoh :: "bool \<Rightarrow> target_url \<Rightarrow> bytes \<Rightarrow> xerror option \<times> bytes \<times> int"
  xe_seal :: "'c \<Rightarrow> bytes \<Rightarrow> (bytes \<times> (bytes \<Rightarrow> bytes option)) option"
  xe_draw :: "nat \<Rightarrow> nat"
  xe_pick :: "nat \<Rightarrow> 'c FullServer option"
  xe_registered :: "string \<Rightarrow> bool"
  xe_refreshOk :: bool
  xe_metrics :: bool

type_synonym xresult = "xerror option \<times> bytes"

section \<open>Exchanges with a DNSCrypt server\<close>

definition dnscrypt_relay :: "'c FullServer \<Rightarrow> DNSCryptRelay option" where
  "dnscrypt_relay srv = (case sf_Relay srv of None \<Rightarrow> None | Some r \<Rightarrow> rl_Dnscrypt r)"

text \<open>A DNSCrypt server always has an address.\<close>

definition server_addr :: "'c FullServer \<Rightarrow> net_addr" where
  "server_addr srv = (case sf_Addr srv of Some a \<Rightarrow> a | None \<Rightarrow> ([], 0))"

definition udp_upstream :: "'c FullServer \<Rightarrow> net_addr" where
  "udp_upstream srv = (case dnscrypt_relay srv of None \<Rightarrow> server_addr srv | Some r \<Rightarrow> RelayUDPAddr r)"

definition tcp_upstream :: "'c FullServer \<Rightarrow> net_addr" where
  "tcp_upstream srv = (case dnscrypt_relay srv of None \<Rightarrow> server_addr srv | Some r \<Rightarrow> RelayTCPAddr r)"

definition for_upstream :: "'c FullServer \<Rightarrow> bytes \<Rightarrow> bytes" where
  "for_upstream srv q =
     (if dnscrypt_relay srv \<noteq> None then prepareForRelay (fst (server_addr srv)) (snd (server_addr srv)) q else q)"

text \<open>
  The loop of two tries: writing may fail, which ends it; the result is the error of the last read and the buffer, which is
  cut to what was read only when a read succeeds.
\<close>

fun udp_loop :: "'c exchange_env \<Rightarrow> net_addr \<Rightarrow> bytes \<Rightarrow> nat \<Rightarrow> nat \<Rightarrow> xerror option \<times> bytes \<Rightarrow> (xerror + xerror option \<times> bytes) \<times> event list" where
  "udp_loop E addr query k 0 r = (Inr r, [])"
| "udp_loop E addr query k (Suc tries) r =
     (case xe_write E ''udp'' addr k of
        Some e \<Rightarrow> (Inl e, [])
      | None \<Rightarrow>
          (case xe_read E addr query k of
             Inr packet \<Rightarrow> (Inr (None, take MaxDNSPacketSize packet), [Upstream ''udp'' addr query])
           | Inl e \<Rightarrow> (case udp_loop E addr query (Suc k) tries (Some e, snd r) of (res, evs) \<Rightarrow> (res, Upstream ''udp'' addr query # evs))))"

definition emits :: "event list \<Rightarrow> 'x qctx_scheme \<Rightarrow> 'x qctx_scheme" where
  "emits evs ctx = ctx\<lparr>qc_trace := qc_trace ctx @ evs\<rparr>"

definition open_response :: "'c exchange_env \<Rightarrow> sealed_query \<Rightarrow> bytes \<Rightarrow> 'c sctx \<Rightarrow> xresult \<times> 'c sctx" where
  "open_response E sq encrypted ctx =
     (case Decrypt (xe_crypto E) (xe_now E) (xe_epoch E) (sf_crypto (sc_server ctx)) (sq_key sq) encrypted (sq_nonce sq) (sq_epoch sq) of
        (r, si) \<Rightarrow>
          ((case r of Inl e \<Rightarrow> (Some (XCrypto e), []) | Inr packet \<Rightarrow> (None, packet)),
           ctx\<lparr>sc_server := (sc_server ctx)\<lparr>sf_crypto := si\<rparr>\<rparr>))"

definition exchangeWithUDPServerViaProxy :: "'c exchange_env \<Rightarrow> sealed_query \<Rightarrow> 'c sctx \<Rightarrow> xresult \<times> 'c sctx" where
  "exchangeWithUDPServerViaProxy E sq ctx =
     (let srv = sc_server ctx; upstreamAddr = udp_upstream srv in
      case xe_dial E ''udp'' upstreamAddr of
        Some e \<Rightarrow> ((Some e, []), ctx)
      | None \<Rightarrow>
          (case xe_deadline E of
             Some e \<Rightarrow> ((Some e, []), ctx)
           | None \<Rightarrow>
               (case udp_loop E upstreamAddr (for_upstream srv (sq_packet sq)) 0 2 (None, replicate MaxDNSPacketSize 0) of
                  (Inl e, evs) \<Rightarrow> ((Some e, []), emits evs ctx)
                | (Inr (readErr, encrypted), evs) \<Rightarrow> open_response E sq encrypted (emits evs ctx))))"

definition exchangeWithUDPServer :: "'c exchange_env \<Rightarrow> sealed_query \<Rightarrow> 'c sctx \<Rightarrow> xresult \<times> 'c sctx" where
  "exchangeWithUDPServer E sq ctx =
     (let srv = sc_server ctx; upstreamAddr = udp_upstream srv in
      if xe_proxyDialer E then exchangeWithUDPServerViaProxy E sq ctx
      else
        (case xe_poolGet E upstreamAddr of
           Some e \<Rightarrow> ((Some e, []), ctx)
         | None \<Rightarrow>
             (case xe_deadline E of
                Some e \<Rightarrow> ((Some e, []), emit (PoolDiscarded upstreamAddr) ctx)
              | None \<Rightarrow>
                  (case udp_loop E upstreamAddr (for_upstream srv (sq_packet sq)) 0 2 (None, replicate MaxDNSPacketSize 0) of
                     (Inl e, evs) \<Rightarrow> ((Some e, []), emit (PoolDiscarded upstreamAddr) (emits evs ctx))
                   | (Inr (Some readErr, encrypted), evs) \<Rightarrow> ((Some readErr, []), emit (PoolDiscarded upstreamAddr) (emits evs ctx))
                   | (Inr (None, encrypted), evs) \<Rightarrow> open_response E sq encrypted (emit (PoolReturned upstreamAddr) (emits evs ctx))))))"

text \<open>A TCP connection that delivers nothing more before its deadline times out.\<close>

definition exchangeWithTCPServer :: "'c exchange_env \<Rightarrow> sealed_query \<Rightarrow> 'c sctx \<Rightarrow> xresult \<times> 'c sctx" where
  "exchangeWithTCPServer E sq ctx =
     (let srv = sc_server ctx; upstreamAddr = tcp_upstream srv in
      case xe_dial E ''tcp'' upstreamAddr of
        Some e \<Rightarrow> ((Some e, []), ctx)
      | None \<Rightarrow>
          (case xe_deadline E of
             Some e \<Rightarrow> ((Some e, []), ctx)
           | None \<Rightarrow>
               (case PrefixWithSize (for_upstream srv (sq_packet sq)) of
                  Inl e \<Rightarrow> ((Some (XFrame e), []), ctx)
                | Inr frame \<Rightarrow>
                    (case xe_write E ''tcp'' upstreamAddr 0 of
                       Some e \<Rightarrow> ((Some e, []), ctx)
                     | None \<Rightarrow>
                         let ctx = emit (Upstream ''tcp'' upstreamAddr frame) ctx in
                         (case ReadPrefixed (xe_reads E upstreamAddr frame) of
                            None \<Rightarrow> ((Some XTimeout, []), ctx)
                          | Some (Inl e) \<Rightarrow> ((Some (if e = ReadFailed then XNet else XFrame e), []), ctx)
                          | Some (Inr encrypted) \<Rightarrow> open_response E sq encrypted ctx)))))"

section \<open>One server\<close>

definition encrypt_for :: "'c exchange_env \<Rightarrow> nat \<Rightarrow> bytes \<Rightarrow> string \<Rightarrow> 'c sctx \<Rightarrow> (crypto_error + sealed_query) \<times> 'c sctx" where
  "encrypt_for E k query proto ctx =
     (case Encrypt (xe_crypto E) (xe_query E k) (xe_keys E) (sf_crypto (sc_server ctx)) query proto of
        (r, si) \<Rightarrow> (r, ctx\<lparr>sc_server := (sc_server ctx)\<lparr>sf_crypto := si\<rparr>\<rparr>))"

definition stale_data :: "dns_package \<Rightarrow> PluginsState \<Rightarrow> bytes option" where
  "stale_data D s = (case stale s of None \<Rightarrow> None | Some m \<Rightarrow> Pack D m)"

definition retry_over_tcp :: "xresult \<Rightarrow> bool" where
  "retry_over_tcp r =
     (case r of (err, response) \<Rightarrow>
        err = None \<and> length response \<ge> MinDNSPacketSize \<and> response ! 2 AND 2 = 2 \<or> err = Some XTimeout)"

text \<open>The end of \<open>processDNSCryptQuery\<close>: an outdated cached response stands in for an error.\<close>

definition serve_stale :: "dns_package \<Rightarrow> xresult \<times> 'c sctx \<Rightarrow> xresult \<times> 'c sctx" where
  "serve_stale D rc =
     (case rc of
        ((None, response), ctx) \<Rightarrow> ((None, response), ctx)
      | ((Some e, response), ctx) \<Rightarrow>
          (case stale_data D (qc_state ctx) of
             Some data \<Rightarrow> ((None, data), ctx)
           | None \<Rightarrow>
               ((Some e, []),
                log_with (if e = XTimeout then PluginsReturnCodeServerTimeout else PluginsReturnCodeNetworkError) (emit NoticedFailure ctx))))"

definition seal_query :: "'c exchange_env \<Rightarrow> bytes \<Rightarrow> string \<Rightarrow> 'c sctx \<Rightarrow> (crypto_error + sealed_query) \<times> string \<times> 'c sctx" where
  "seal_query E query proto ctx =
     (case encrypt_for E 0 query proto ctx of
        (Inl e, ctx) \<Rightarrow>
          if proto = ''udp'' then (case encrypt_for E 1 query ''tcp'' ctx of (r, ctx) \<Rightarrow> (r, ''tcp'', ctx)) else (Inl e, proto, ctx)
      | (Inr sq, ctx) \<Rightarrow> (Inr sq, proto, ctx))"

definition udp_then_tcp :: "dns_package \<Rightarrow> 'c exchange_env \<Rightarrow> bytes \<Rightarrow> sealed_query \<Rightarrow> 'c sctx \<Rightarrow> xresult \<times> 'c sctx" where
  "udp_then_tcp D E query sq ctx =
     (case exchangeWithUDPServer E sq ctx of
        (r, ctx) \<Rightarrow>
          if retry_over_tcp r then
            (case encrypt_for E 2 query ''tcp'' ctx of
               (Inl e, ctx) \<Rightarrow> ((Some (XCrypto e), []), emit NoticedFailure (log_with PluginsReturnCodeParseError ctx))
             | (Inr sq, ctx) \<Rightarrow> serve_stale D (exchangeWithTCPServer E sq ctx))
          else serve_stale D (r, ctx))"

definition processDNSCryptQuery :: "dns_package \<Rightarrow> 'c exchange_env \<Rightarrow> bytes \<Rightarrow> string \<Rightarrow> 'c sctx \<Rightarrow> xresult \<times> 'c sctx" where
  "processDNSCryptQuery D E query proto ctx =
     (case seal_query E query proto ctx of
        (Inl e, proto, ctx) \<Rightarrow> ((Some (XCrypto e), []), log_with PluginsReturnCodeParseError ctx)
      | (Inr sq, proto, ctx) \<Rightarrow>
          let ctx = emit NoticedBegin ctx in
          if proto = ''udp'' then udp_then_tcp D E query sq ctx else serve_stale D (exchangeWithTCPServer E sq ctx))"

text \<open>The packets here have passed \<open>validateQuery\<close> or a length test, so reading and setting their identifier cannot fail.\<close>

definition tid_of :: "bytes \<Rightarrow> u16" where
  "tid_of p = (case TransactionID p of Ret t \<Rightarrow> t | _ \<Rightarrow> 0)"

definition with_tid :: "u16 \<Rightarrow> bytes \<Rightarrow> bytes" where
  "with_tid t p = (case SetTransactionID p t of Ret p' \<Rightarrow> p' | _ \<Rightarrow> p)"

definition restore_tid :: "u16 \<Rightarrow> bytes \<Rightarrow> bytes" where
  "restore_tid t p = (if length p \<ge> MinDNSPacketSize then with_tid t p else p)"

definition processDoHQuery :: "dns_package \<Rightarrow> 'c exchange_env \<Rightarrow> bytes \<Rightarrow> 'c sctx \<Rightarrow> xresult \<times> 'c sctx" where
  "processDoHQuery D E query ctx =
     (let tid = tid_of query; anonymous = with_tid 0 query; srv = sc_server ctx;
          ctx = emit (Https (PlainURL (sf_URL srv)) anonymous) (emit NoticedBegin ctx) in
      case xe_doh E (sf_useGet srv) (sf_URL srv) anonymous of
        (err, serverResponse, tls) \<Rightarrow>
          if err = None \<and> (case tls of None \<Rightarrow> False | Some t \<Rightarrow> ts_HandshakeComplete t) then ((None, restore_tid tid serverResponse), ctx)
          else
            (case stale_data D (qc_state ctx) of
               Some data \<Rightarrow> ((None, data), ctx)
             | None \<Rightarrow> ((err, []), log_with PluginsReturnCodeNetworkError (emit NoticedFailure ctx))))"

text \<open>The refresh slot of a server is claimed, the server fetched again and the slot released.\<close>

definition refreshODoHKey :: "'c exchange_env \<Rightarrow> 'c sctx \<Rightarrow> xerror option \<times> 'c sctx" where
  "refreshODoHKey E ctx =
     (let name = sf_Name (sc_server ctx) in
      case beginODoHRefresh (xe_now E) (10 * 1000000000) name (qc_slots ctx) of
        (False, slots) \<Rightarrow> (None, ctx\<lparr>qc_slots := slots\<rparr>)
      | (True, slots) \<Rightarrow>
          let ctx = emit (KeyRefreshed name (xe_refreshOk E)) (ctx\<lparr>qc_slots := slots\<rparr>) in
          if \<not> xe_refreshOk E then
            (Some XNet, (emit NoticedFailure ctx)\<lparr>qc_slots := endODoHRefresh (xe_now E) name False slots\<rparr>)
          else (None, ctx\<lparr>qc_slots := endODoHRefresh (xe_now E) name True slots\<rparr>))"

definition odoh_url :: "'c FullServer \<Rightarrow> target_url" where
  "odoh_url srv =
     (case sf_Relay srv of
        None \<Rightarrow> PlainURL (sf_URL srv)
      | Some r \<Rightarrow> (case rl_ODoH r of None \<Rightarrow> PlainURL (sf_URL srv) | Some url \<Rightarrow> RelayURL url))"

definition odoh_failed :: "'c exchange_env \<Rightarrow> xerror option \<Rightarrow> bytes \<Rightarrow> int \<Rightarrow> 'c sctx \<Rightarrow> xresult \<times> 'c sctx" where
  "odoh_failed E err responseBody responseCode ctx =
     (let (err, ctx) =
        (if (responseCode = 401 \<or> responseCode = 200 \<and> length responseBody = 0) \<and> xe_registered E (sf_Name (sc_server ctx)) then
           (case refreshODoHKey E ctx of (Some e, ctx) \<Rightarrow> (Some e, ctx) | (None, ctx) \<Rightarrow> (err, ctx))
         else (err, ctx)) in
      ((err, []), emit NoticedFailure (log_with PluginsReturnCodeNetworkError ctx)))"

definition processODoHQuery :: "'c exchange_env \<Rightarrow> bytes \<Rightarrow> 'c sctx \<Rightarrow> xresult \<times> 'c sctx" where
  "processODoHQuery E query ctx =
     (let tid = tid_of query; srv = sc_server ctx; configs = sf_odohTargetConfigs srv in
      if length configs = 0 then ((None, []), ctx)
      else
        let ctx = emit NoticedBegin ctx in
        (case xe_seal E (configs ! xe_draw E (length configs)) query of
           None \<Rightarrow> ((Some (XCrypto NoRandom), []), ctx)
         | Some (odohMessage, opener) \<Rightarrow>
             let ctx = emit (Https (odoh_url srv) odohMessage) ctx in
             (case xe_odoh E (sf_useGet srv) (odoh_url srv) odohMessage of
                (err, responseBody, responseCode) \<Rightarrow>
                  if err = None \<and> length responseBody > 0 \<and> responseCode = 200 then
                    (case opener responseBody of
                       None \<Rightarrow> ((Some (XCrypto IncorrectTag), []), emit NoticedFailure ctx)
                     | Some response \<Rightarrow> ((None, restore_tid tid response), ctx))
                  else
                    odoh_failed E err responseBody responseCode ctx)))"

text \<open>\<open>None\<close>: the process ends, with a fatal error or a panic.\<close>

definition handleDNSExchange :: "dns_package \<Rightarrow> 'c exchange_env \<Rightarrow> bytes \<Rightarrow> string \<Rightarrow> 'c sctx \<Rightarrow> xresult option \<times> 'c sctx" where
  "handleDNSExchange D E query proto ctx =
     (let exchanged =
        (case sf_Proto (sc_server ctx) of
           ProtoDNSCrypt \<Rightarrow> Some (processDNSCryptQuery D E query proto ctx)
         | ProtoDoH \<Rightarrow> Some (processDoHQuery D E query ctx)
         | ProtoODoHTarget \<Rightarrow> Some (processODoHQuery E query ctx)
         | _ \<Rightarrow> None) in
      case exchanged of
        None \<Rightarrow> (None, ctx)
      | Some ((Some e, response), ctx) \<Rightarrow> (Some (Some e, []), ctx)
      | Some ((None, response), ctx) \<Rightarrow>
          if length response < MinDNSPacketSize \<or> length response > MaxDNSPacketSize then
            (Some (None, []), emit NoticedFailure (log_with PluginsReturnCodeParseError ctx))
          else (Some (None, response), ctx))"

section \<open>Plugins on the way back\<close>

definition judge_rcode :: "bytes \<Rightarrow> 'x qctx_scheme \<Rightarrow> 'x qctx_scheme option" where
  "judge_rcode response ctx =
     (case Rcode response of
        Ret rcode \<Rightarrow>
          Some (if rcode = 2 then (if dnssec (qc_state ctx) then ctx else emit NoticedFailure ctx) else emit NoticedSuccess ctx)
      | _ \<Rightarrow> None)"

definition processPlugins ::
  "dns_package \<Rightarrow> PluginsGlobals \<Rightarrow> 'w plugin list \<Rightarrow> bytes \<Rightarrow> 'w \<Rightarrow> 'x qctx_scheme \<Rightarrow> xresult option \<times> 'x qctx_scheme \<times> 'w" where
  "processPlugins D g rps response w ctx =
     (case ApplyResponsePlugins D g rps response w (qc_state ctx) of
        (r, s, w) \<Rightarrow>
          let ctx = ctx\<lparr>qc_state := s\<rparr>;
              judged = (\<lambda>data ctx. case judge_rcode data ctx of None \<Rightarrow> (None, ctx, w) | Some ctx' \<Rightarrow> (Some (None, data), ctx', w)) in
          (case r of
             Panic \<Rightarrow> (None, ctx, w)
           | Fail e \<Rightarrow> (Some (Some (XPlugin e), response), emit NoticedFailure (log_with PluginsReturnCodeParseError ctx), w)
           | Ret data \<Rightarrow>
               if action s = PluginsActionDrop then (Some (None, data), log_with PluginsReturnCodeDrop ctx, w)
               else
                 (case synthResponse s of
                    None \<Rightarrow> judged data ctx
                  | Some synth \<Rightarrow>
                      (case handleSynthesizedResponse D s synth of
                         (Inl e, s) \<Rightarrow> (Some (Some (XPlugin e), []), ApplyLoggingPlugins (ctx\<lparr>qc_state := s\<rparr>), w)
                       | (Inr data, s) \<Rightarrow> judged data (ctx\<lparr>qc_state := s\<rparr>)))))"

section \<open>The client\<close>

definition bad_size :: "bytes \<Rightarrow> bool" where
  "bad_size p = (length p < MinDNSPacketSize \<or> length p > MaxDNSPacketSize)"

definition validateQuery :: "bytes \<Rightarrow> bool" where
  "validateQuery query =
     (if length query < MinDNSPacketSize then False else if length query > MaxDNSPacketSize then False else True)"

definition size_code :: "bytes \<Rightarrow> PluginsReturnCode" where
  "size_code p = (if length p = 0 then PluginsReturnCodeNotReady else PluginsReturnCodeParseError)"

definition send_udp :: "bytes \<Rightarrow> 'x qctx_scheme \<Rightarrow> 'x qctx_scheme option" where
  "send_udp response ctx =
     (let ctx = emit (ToClient response) ctx in
      case HasTCFlag response of
        Ret tc \<Rightarrow> Some (emit (Estimated (if tc then Blind else Adjusted (ResponseOverhead + int (length response)))) ctx)
      | _ \<Rightarrow> None)"

definition sendResponse :: "dns_package \<Rightarrow> string \<Rightarrow> bool \<Rightarrow> bytes \<Rightarrow> 'x qctx_scheme \<Rightarrow> 'x qctx_scheme option" where
  "sendResponse D proto hasConn response ctx =
     (if bad_size response then Some (log_with (size_code response) ctx)
      else if proto = ''udp'' then
        (if int (length response) > maxUnencryptedUDPSafePayloadSize (qc_state ctx) then
           (case TruncatedResponse D response of
              Inl _ \<Rightarrow> Some (log_with PluginsReturnCodeParseError ctx)
            | Inr truncated \<Rightarrow> send_udp truncated ctx)
         else send_udp response ctx)
      else if proto = ''tcp'' then
        (case PrefixWithSize response of
           Inl _ \<Rightarrow> Some (log_with PluginsReturnCodeParseError ctx)
         | Inr frame \<Rightarrow> Some (if hasConn then emit (ToClient frame) ctx else ctx))
      else Some ctx)"

definition updateMonitoringMetrics :: "bool \<Rightarrow> 'x qctx_scheme \<Rightarrow> 'x qctx_scheme" where
  "updateMonitoringMetrics enabled ctx = (if enabled \<and> questionMsg (qc_state ctx) \<noteq> None then emit MetricsUpdated ctx else ctx)"

section \<open>The whole handler\<close>

text \<open>What the handler leaves: the response (\<open>None\<close> when the process ended), the context, the plugins' tables and the server.\<close>

type_synonym ('w, 'c) answered = "bytes option \<times> qctx \<times> 'w \<times> 'c FullServer option"

definition needs_padding :: "'c FullServer option \<Rightarrow> bool" where
  "needs_padding server = (case server of None \<Rightarrow> False | Some srv \<Rightarrow> sf_Proto srv = ProtoDoH \<or> sf_Proto srv = ProtoTLS)"

definition finish_query ::
  "dns_package \<Rightarrow> 'c exchange_env \<Rightarrow> string \<Rightarrow> bool \<Rightarrow> bytes \<Rightarrow> 'c FullServer option \<Rightarrow> 'w \<Rightarrow> qctx \<Rightarrow> ('w, 'c) answered" where
  "finish_query D E proto hasConn response server w ctx =
     (if bad_size response then
        let ctx = log_with (size_code response) ctx in
        (Some response, if server \<noteq> None then emit NoticedFailure ctx else ctx, w, server)
      else
        (case sendResponse D proto hasConn response ctx of
           None \<Rightarrow> (None, ctx, w, server)
         | Some ctx \<Rightarrow> (Some response, updateMonitoringMetrics (xe_metrics E) (ApplyLoggingPlugins ctx), w, server)))"

definition with_server :: "'c FullServer \<Rightarrow> qctx \<Rightarrow> 'c sctx" where
  "with_server srv ctx = qctx.extend ctx (sctx.fields srv)"

definition name_server :: "'c FullServer \<Rightarrow> PluginsState \<Rightarrow> PluginsState" where
  "name_server srv s =
     (let s = s\<lparr>serverName := sf_Name srv\<rparr> in case sf_Relay srv of None \<Rightarrow> s | Some r \<Rightarrow> s\<lparr>relayName := rl_Name r\<rparr>)"

definition ask_server ::
  "dns_package \<Rightarrow> PluginsGlobals \<Rightarrow> 'w plugin list \<Rightarrow> 'c exchange_env \<Rightarrow> string \<Rightarrow> string \<Rightarrow> bool \<Rightarrow> bytes \<Rightarrow> 'c FullServer \<Rightarrow> 'w \<Rightarrow> qctx \<Rightarrow>
   ('w, 'c) answered" where
  "ask_server D g rps E proto sproto hasConn query srv w ctx =
     (case handleDNSExchange D E query sproto (with_server srv (ctx\<lparr>qc_state := name_server srv (qc_state ctx)\<rparr>)) of
        (None, c) \<Rightarrow> (None, qctx.truncate c, w, Some (sc_server c))
      | (Some (err, exchanged), c) \<Rightarrow>
          let c = emit (StatsUpdated (sf_Name srv) (err = None \<and> exchanged \<noteq> [])) c; server = Some (sc_server c); ctx = qctx.truncate c in
          if err \<noteq> None \<or> exchanged = [] then (Some [], ctx, w, server)
          else
            (case processPlugins D g rps exchanged w ctx of
               (None, ctx, w) \<Rightarrow> (None, ctx, w, server)
             | (Some (Some e, _), ctx, w) \<Rightarrow> (Some [], ctx, w, server)
             | (Some (None, processed), ctx, w) \<Rightarrow> finish_query D E proto hasConn processed server w ctx))"

definition resolve_query ::
  "dns_package \<Rightarrow> PluginsGlobals \<Rightarrow> 'w plugin list \<Rightarrow> 'c exchange_env \<Rightarrow> string \<Rightarrow> string \<Rightarrow> bool \<Rightarrow> bool \<Rightarrow> bytes \<Rightarrow> bytes \<Rightarrow>
   'c FullServer option \<Rightarrow> 'w \<Rightarrow> qctx \<Rightarrow> ('w, 'c) answered" where
  "resolve_query D g rps E proto sproto hasConn onlyCached query response server w ctx =
     (if onlyCached \<and> length response = 0 then (Some response, ctx, w, server)
      else
        let server = (if onlyCached then None else server) in
        if length response = 0 then
          (case (case server of None \<Rightarrow> xe_pick E 1 | Some srv \<Rightarrow> Some srv) of
             None \<Rightarrow> finish_query D E proto hasConn response None w ctx
           | Some srv \<Rightarrow> ask_server D g rps E proto sproto hasConn query srv w ctx)
        else finish_query D E proto hasConn response server w ctx)"

text \<open>
  The server is chosen while the query plugins run when they let the query continue, to know whether to pad the query, and
  once more later when there was none. The trace records the traffic of the exchange with the server; what a plugin sends on its own (the queries of the
  cloaking, forwarding and DNS64 plugins) is an effect on the world \<open>'w\<close> the plugins share.
\<close>

definition processIncomingQuery ::
  "dns_package \<Rightarrow> PluginsGlobals \<Rightarrow> ttl_config \<Rightarrow> 'w plugin list \<Rightarrow> 'w plugin list \<Rightarrow> 'c exchange_env \<Rightarrow> string \<Rightarrow> string \<Rightarrow> bytes \<Rightarrow>
   net_IP option \<Rightarrow> bool \<Rightarrow> bool \<Rightarrow> odoh_slots \<Rightarrow> 'w \<Rightarrow> ('w, 'c) answered" where
  "processIncomingQuery D g ttls qps rps E proto sproto query addr hasConn onlyCached slots w =
     (let s = NewPluginsState ttls proto addr sproto; ctx = \<lparr>qc_state = s, qc_slots = slots, qc_trace = []\<rparr> in
      if \<not> validateQuery query then (Some [], ctx, w, None)
      else
        (case ApplyQueryPlugins D g qps query (needs_padding (xe_pick E 0)) w s of
           (Inl e, s, w) \<Rightarrow> (Some [], log_with PluginsReturnCodeDrop (ctx\<lparr>qc_state := s\<lparr>action := PluginsActionDrop\<rparr>\<rparr>), w, None)
         | (Inr query, s, w) \<Rightarrow>
             let ctx = ctx\<lparr>qc_state := s\<rparr>; server = (if action s = PluginsActionContinue then xe_pick E 0 else None) in
             if \<not> validateQuery query then (Some [], ctx, w, server)
             else if action s = PluginsActionDrop then (Some [], log_with PluginsReturnCodeDrop ctx, w, server)
             else
               (case synthResponse s of
                  None \<Rightarrow> resolve_query D g rps E proto sproto hasConn onlyCached query [] server w ctx
                | Some synth \<Rightarrow>
                    (case handleSynthesizedResponse D s synth of
                       (Inl e, s) \<Rightarrow> (Some [], ctx\<lparr>qc_state := s\<rparr>, w, server)
                     | (Inr data, s) \<Rightarrow>
                         resolve_query D g rps E proto sproto hasConn onlyCached query data server w (ctx\<lparr>qc_state := s\<rparr>)))))"

section \<open>What a query does to the world\<close>

text \<open>\<open>extends P c c'\<close>: the trace of \<open>c'\<close> continues that of \<open>c\<close> with events of which \<open>P\<close> holds.\<close>

definition extends :: "(event \<Rightarrow> bool) \<Rightarrow> 'x qctx_scheme \<Rightarrow> 'y qctx_scheme \<Rightarrow> bool" where
  "extends P c c' \<longleftrightarrow> (\<exists>evs. qc_trace c' = qc_trace c @ evs \<and> list_all P evs)"

fun internal :: "event \<Rightarrow> bool" where
  "internal (Upstream p a b) = False"
| "internal (Https u b) = False"
| "internal (ToClient b) = False"
| "internal _ = True"

fun outward :: "event \<Rightarrow> bool" where
  "outward (Upstream p a b) = True"
| "outward (Https u b) = True"
| "outward _ = False"

lemma extends_same: "qc_trace c' = qc_trace c \<Longrightarrow> extends P c c'"
  by (simp add: extends_def)

lemma extends_trans: "extends P a b \<Longrightarrow> extends P b c \<Longrightarrow> extends P a c"
  by (fastforce simp: extends_def)

lemma extends_mono: "extends P a b \<Longrightarrow> (\<And>ev. P ev \<Longrightarrow> Q ev) \<Longrightarrow> extends Q a b"
  by (fastforce simp: extends_def list_all_iff)

lemma extends_set: "extends P a b \<Longrightarrow> ev \<in> set (qc_trace b) \<Longrightarrow> ev \<in> set (qc_trace a) \<or> P ev"
  by (auto simp: extends_def list_all_iff)

lemma emit_simps [simp]:
  "qc_trace (emit ev c) = qc_trace c @ [ev]" "qc_state (emit ev c) = qc_state c" "qc_slots (emit ev c) = qc_slots c"
  "sc_server (emit ev d) = sc_server d"
  "qc_trace (emits evs c) = qc_trace c @ evs" "qc_state (emits evs c) = qc_state c" "qc_slots (emits evs c) = qc_slots c"
  "sc_server (emits evs d) = sc_server d"
  by (simp_all add: emit_def emits_def)

lemma log_simps [simp]:
  "qc_trace (log_with rc c) = qc_trace c @ [Logged rc]" "qc_state (log_with rc c) = (qc_state c)\<lparr>returnCode := rc\<rparr>"
  "qc_slots (log_with rc c) = qc_slots c" "sc_server (log_with rc d) = sc_server d"
  "qc_trace (ApplyLoggingPlugins c) = qc_trace c @ [Logged (returnCode (qc_state c))]" "qc_state (ApplyLoggingPlugins c) = qc_state c"
  "sc_server (ApplyLoggingPlugins d) = sc_server d"
  by (simp_all add: log_with_def ApplyLoggingPlugins_def)

text \<open>Where a server is reached does not change while it is used.\<close>

definition same_route :: "'c FullServer \<Rightarrow> 'c FullServer \<Rightarrow> bool" where
  "same_route s t \<longleftrightarrow> sf_Relay t = sf_Relay s \<and> sf_Addr t = sf_Addr s"

lemma same_route_addr:
  assumes "same_route s t"
  shows "udp_upstream t = udp_upstream s" "tcp_upstream t = tcp_upstream s" "for_upstream t q = for_upstream s q"
proof -
  have "dnscrypt_relay t = dnscrypt_relay s" "server_addr t = server_addr s"
    using assms by (simp_all add: same_route_def dnscrypt_relay_def server_addr_def)
  then show "udp_upstream t = udp_upstream s" "tcp_upstream t = tcp_upstream s" "for_upstream t q = for_upstream s q"
    by (simp_all add: udp_upstream_def tcp_upstream_def for_upstream_def split: option.split)
qed

text \<open>
  \<open>permits P srv\<close>: \<open>P\<close> holds of everything that stays inside and of the packets a DNSCrypt exchange with \<open>srv\<close> may send.
  \<open>reaches P srv c c'\<close>: from \<open>c\<close> to \<open>c'\<close> only such events happened, the server is still reached the same way and the query is still the one it was.
\<close>

definition permits :: "(event \<Rightarrow> bool) \<Rightarrow> 'c FullServer \<Rightarrow> bool" where
  "permits P srv \<longleftrightarrow> (\<forall>ev. internal ev \<longrightarrow> P ev) \<and> (\<forall>q. P (Upstream ''udp'' (udp_upstream srv) (for_upstream srv q))) \<and>
     (\<forall>q frame. PrefixWithSize (for_upstream srv q) = Inr frame \<longrightarrow> P (Upstream ''tcp'' (tcp_upstream srv) frame))"

definition reaches :: "(event \<Rightarrow> bool) \<Rightarrow> 'c sctx \<Rightarrow> 'c sctx \<Rightarrow> bool" where
  "reaches P c c' \<longleftrightarrow>
     extends P c c' \<and> same_route (sc_server c) (sc_server c') \<and> questionMsg (qc_state c') = questionMsg (qc_state c)"

lemma reaches_trans: "reaches P a b \<Longrightarrow> reaches P b c \<Longrightarrow> reaches P a c"
  by (auto simp: reaches_def same_route_def intro: extends_trans)

lemma permits_same: "permits P s \<Longrightarrow> same_route s t \<Longrightarrow> permits P t"
  by (simp add: permits_def same_route_addr)

lemma permits_reaches: "permits P (sc_server c) \<Longrightarrow> reaches P c c' \<Longrightarrow> permits P (sc_server c')"
  by (auto simp: reaches_def intro: permits_same)

lemma reaches_refl [simp]: "reaches P c c"
  by (simp add: reaches_def extends_same same_route_def)

lemma reaches_emit: "reaches P c c' \<Longrightarrow> P ev \<Longrightarrow> reaches P c (emit ev c')"
  by (auto simp: reaches_def extends_def)

lemma reaches_log: "reaches P c c' \<Longrightarrow> P (Logged rc) \<Longrightarrow> reaches P c (log_with rc c')"
  by (auto simp: reaches_def extends_def)

lemma reaches_emits: "reaches P c c' \<Longrightarrow> list_all P evs \<Longrightarrow> reaches P c (emits evs c')"
  by (auto simp: reaches_def extends_def)

lemma reaches_open: "reaches P c c' \<Longrightarrow> reaches P c (snd (open_response E sq enc c'))"
  by (auto simp: reaches_def extends_def open_response_def same_route_def split: prod.splits)

lemma reaches_encrypt: "reaches P c c' \<Longrightarrow> reaches P c (snd (encrypt_for E k q proto c'))"
  by (auto simp: reaches_def extends_def encrypt_for_def same_route_def split: prod.splits)

lemma reaches_encrypt': "encrypt_for E k q proto c = (r, c') \<Longrightarrow> reaches P c c'"
  using reaches_encrypt [OF reaches_refl, of P c E k q proto] by simp

lemma reaches_stale:
  "reaches P c (snd rc) \<Longrightarrow> (\<And>ev. internal ev \<Longrightarrow> P ev) \<Longrightarrow> reaches P c (snd (serve_stale D rc))"
  by (auto simp: serve_stale_def intro!: reaches_emit reaches_log split: prod.splits option.splits)

lemma udp_loop_events: "P (Upstream ''udp'' addr q) \<Longrightarrow> list_all P (snd (udp_loop E addr q k n r))"
  by (induction E addr q k n r rule: udp_loop.induct) (auto split: option.splits sum.splits prod.splits)

lemma udp_loop_events': "P (Upstream ''udp'' addr q) \<Longrightarrow> udp_loop E addr q k n r = (res, evs) \<Longrightarrow> list_all P evs"
  using udp_loop_events [of P addr q E k n r] by simp

lemma permits_internal: "permits P srv \<Longrightarrow> internal ev \<Longrightarrow> P ev"
  by (simp add: permits_def)

lemma reaches_udp:
  assumes "permits P (sc_server c)"
  shows "reaches P c (snd (exchangeWithUDPServer E sq c))"
proof -
  have p: "udp_loop E (udp_upstream (sc_server c)) (for_upstream (sc_server c) q) k n r = (res, evs) \<Longrightarrow> list_all P evs" for q k n r res evs
    by (rule udp_loop_events') (use assms in \<open>auto simp: permits_def\<close>)
  show ?thesis
    unfolding exchangeWithUDPServer_def exchangeWithUDPServerViaProxy_def
    by (auto simp: Let_def intro!: reaches_emit reaches_open reaches_emits p permits_internal [OF assms]
        split: option.splits sum.splits prod.splits)
qed

lemma reaches_tcp:
  assumes "permits P (sc_server c)"
  shows "reaches P c (snd (exchangeWithTCPServer E sq c))"
proof -
  have p: "PrefixWithSize (for_upstream (sc_server c) q) = Inr frame \<Longrightarrow> P (Upstream ''tcp'' (tcp_upstream (sc_server c)) frame)" for q frame
    using assms by (simp add: permits_def)
  show ?thesis
    unfolding exchangeWithTCPServer_def
    by (auto simp: Let_def intro!: reaches_emit reaches_open p split: option.splits sum.splits prod.splits)
qed

lemma reaches_seal:
  assumes "seal_query E query proto c = (r, p, c')"
  shows "reaches P c c'"
proof -
  obtain e0 c0 where n0: "encrypt_for E 0 query proto c = (e0, c0)" by fastforce
  obtain e1 c1 where n1: "encrypt_for E 1 query ''tcp'' c0 = (e1, c1)" by fastforce
  have r: "reaches P c c0" by (rule reaches_encrypt' [OF n0])
  have r1: "reaches P c c1" by (rule reaches_trans [OF r reaches_encrypt' [OF n1]])
  show ?thesis using assms r r1 by (auto simp: seal_query_def n0 n1 [unfolded One_nat_def] split: sum.splits if_splits)
qed

lemma reaches_tcp_stale: "permits P (sc_server c) \<Longrightarrow> reaches P c (snd (serve_stale D (exchangeWithTCPServer E sq c)))"
  by (rule reaches_stale [OF reaches_tcp permits_internal])

lemma reaches_udp_tcp:
  assumes "permits P (sc_server c)"
  shows "reaches P c (snd (udp_then_tcp D E query sq c))"
proof -
  obtain res c2 where x: "exchangeWithUDPServer E sq c = (res, c2)" by fastforce
  have r2: "reaches P c c2" using reaches_udp [OF assms, of E sq] x by simp
  obtain en c3 where n: "encrypt_for E 2 query ''tcp'' c2 = (en, c3)" by fastforce
  have r3: "reaches P c c3" by (rule reaches_trans [OF r2 reaches_encrypt' [OF n]])
  have tcp: "reaches P c (snd (serve_stale D (exchangeWithTCPServer E sq' c3)))" for sq'
    by (rule reaches_trans [OF r3 reaches_tcp_stale [OF permits_reaches [OF assms r3]]])
  show ?thesis
    unfolding udp_then_tcp_def using r2 r3 tcp
    by (auto simp: x n intro!: reaches_stale reaches_emit reaches_log permits_internal [OF assms] split: sum.splits)
qed

lemma reaches_dnscrypt:
  assumes "permits P (sc_server c)"
  shows "reaches P c (snd (processDNSCryptQuery D E query proto c))"
proof -
  obtain r p c' where x: "seal_query E query proto c = (r, p, c')" by (metis prod_cases3)
  have r': "reaches P c (emit NoticedBegin c')"
    by (intro reaches_emit reaches_seal [OF x]) (rule permits_internal [OF assms], simp)
  note perm = permits_reaches [OF assms r']
  show ?thesis
    unfolding processDNSCryptQuery_def
    using reaches_trans [OF r' reaches_udp_tcp [OF perm]] reaches_trans [OF r' reaches_tcp_stale [OF perm]]
    by (auto simp: x Let_def intro!: reaches_log reaches_seal [OF x] permits_internal [OF assms] split: sum.splits)
qed

text \<open>Whatever the protocol, an exchange sends nothing to the client.\<close>

definition not_client :: "event \<Rightarrow> bool" where
  "not_client ev \<longleftrightarrow> (\<forall>b. ev \<noteq> ToClient b)"

lemma permits_not_client [simp]: "permits not_client srv"
  by (auto simp: permits_def not_client_def)

lemma reaches_doh:
  assumes "\<And>ev. internal ev \<Longrightarrow> P ev" "\<And>u b. P (Https u b)"
  shows "reaches P c (snd (processDoHQuery D E query c))" "reaches P c (snd (processODoHQuery E query c))"
proof -
  show "reaches P c (snd (processDoHQuery D E query c))"
    unfolding processDoHQuery_def
    by (auto simp: Let_def intro!: reaches_emit reaches_log assms split: prod.splits option.splits)
  have slots: "reaches P c (c'\<lparr>qc_slots := x\<rparr>)" if "reaches P c c'" for c' :: "'a sctx" and x
    using that by (auto simp: reaches_def extends_def)
  have failed: "reaches P c (snd (odoh_failed E err body code c'))" if r: "reaches P c c'" for err body code c'
  proof -
    obtain e c2 where k: "refreshODoHKey E c' = (e, c2)" by fastforce
    have "reaches P c (snd (refreshODoHKey E c'))"
      unfolding refreshODoHKey_def using r
      by (auto simp: Let_def intro!: reaches_emit slots assms split: prod.splits bool.splits)
    then have "reaches P c c2" using k by simp
    then show ?thesis
      unfolding odoh_failed_def using r by (auto simp: k intro!: reaches_emit reaches_log assms split: option.splits)
  qed
  show "reaches P c (snd (processODoHQuery E query c))"
    unfolding processODoHQuery_def
    by (auto simp: Let_def intro!: failed reaches_emit assms split: prod.splits option.splits)
qed

lemma reaches_exchange:
  assumes "permits P (sc_server c)" "\<And>u b. sf_Proto (sc_server c) \<noteq> ProtoDNSCrypt \<Longrightarrow> P (Https u b)"
    and "handleDNSExchange D E query proto c = (r, c')"
  shows "reaches P c c'"
proof -
  note int = permits_internal [OF assms(1)]
  obtain d1 c1 where x1: "processDNSCryptQuery D E query proto c = (d1, c1)" by fastforce
  obtain d2 c2 where x2: "processDoHQuery D E query c = (d2, c2)" by fastforce
  obtain d3 c3 where x3: "processODoHQuery E query c = (d3, c3)" by fastforce
  have r: "sf_Proto (sc_server c) = ProtoDNSCrypt \<Longrightarrow> reaches P c c1"
    "sf_Proto (sc_server c) = ProtoDoH \<Longrightarrow> reaches P c c2" "sf_Proto (sc_server c) = ProtoODoHTarget \<Longrightarrow> reaches P c c3"
    using reaches_dnscrypt [OF assms(1), of D E query proto] reaches_doh(1) [of P c D E query] reaches_doh(2) [of P c E query] int assms(2)
    by (simp_all add: x1 x2 x3)
  have e: "reaches P c (emit NoticedFailure (log_with PluginsReturnCodeParseError d))" if "reaches P c d" for d
    using that by (intro reaches_emit reaches_log) (simp_all add: int)
  show ?thesis
    using assms(3) r e [OF r(1)] e [OF r(2)] e [OF r(3)]
    by (auto simp: handleDNSExchange_def x1 x2 x3 split: StampProto.splits prod.splits option.splits if_splits)
qed

lemma exchange_not_client:
  assumes "handleDNSExchange D E query proto c = (r, c')"
  shows "extends not_client c c'" "questionMsg (qc_state c') = questionMsg (qc_state c)"
  using reaches_exchange [OF _ _ assms, of not_client] by (simp_all add: reaches_def not_client_def)

section \<open>What reaches the client\<close>

text \<open>How a response looks to the client: cut down to an empty truncated one when too long for UDP, framed over TCP.\<close>

definition wire_form :: "dns_package \<Rightarrow> string \<Rightarrow> int \<Rightarrow> bytes \<Rightarrow> bytes \<Rightarrow> bool" where
  "wire_form D proto limit response b \<longleftrightarrow>
     \<not> bad_size response \<and>
     (proto = ''udp'' \<and> (if int (length response) \<le> limit then b = response else TruncatedResponse D response = Inr b) \<or>
      proto = ''tcp'' \<and> PrefixWithSize response = Inr b)"

definition valid_answer :: "dns_package \<Rightarrow> Msg option \<Rightarrow> bytes \<Rightarrow> bool" where
  "valid_answer D question data \<longleftrightarrow> (\<exists>q msg. question = Some q \<and> Pack D msg = Some data \<and> answers_query D q msg)"

lemma synthesized_valid:
  assumes "handleSynthesizedResponse D s synth = (Inr data, s')"
  shows "s' = s \<and> valid_answer D (questionMsg s') data"
  using assms validate_None(1) [of D]
  by (cases "questionMsg s") (auto simp: handleSynthesizedResponse_def valid_answer_def validate_iff split: option.splits)

lemma judge_simps:
  assumes "judge_rcode data c = Some c'"
  shows "qc_state c' = qc_state c \<and> extends internal c c'"
  using assms by (auto simp: judge_rcode_def extends_def split: outcome.splits if_splits)

lemma processPlugins_valid:
  assumes "processPlugins D g rps response w c = (r, c', w')"
  shows "extends internal c c' \<and> (case r of Some (None, data) \<Rightarrow> valid_answer D (questionMsg (qc_state c')) data | _ \<Rightarrow> True)"
proof -
  obtain a s v where x: "ApplyResponsePlugins D g rps response w (qc_state c) = (a, s, v)" by (metis prod_cases3)
  have ret: "valid_answer D (questionMsg s) data" if "a = Ret data" for data
    using response_answers_query [of D g rps response w "qc_state c" data s v] x that by (simp add: valid_answer_def)
  have j: "extends internal c c2 \<and> qc_state c2 = t" if "judge_rcode d (c\<lparr>qc_state := t\<rparr>) = Some c2" for d t c2
    using judge_simps [OF that] by (auto simp: extends_def)
  show ?thesis
    using assms ret
    by (auto simp: processPlugins_def x Let_def extends_same dest!: j synthesized_valid split: outcome.splits option.splits sum.splits prod.splits if_splits)
      (auto simp: extends_def)
qed

lemma sendResponse_sends:
  assumes "sendResponse D proto hasConn response c = Some c'"
  shows "extends (\<lambda>ev. internal ev \<or> (\<exists>b. ev = ToClient b \<and> wire_form D proto (maxUnencryptedUDPSafePayloadSize (qc_state c)) response b)) c c' \<and>
    questionMsg (qc_state c') = questionMsg (qc_state c) \<and>
    maxUnencryptedUDPSafePayloadSize (qc_state c') = maxUnencryptedUDPSafePayloadSize (qc_state c)"
  using assms
  by (auto simp: sendResponse_def send_udp_def Let_def extends_def wire_form_def split: if_splits sum.splits outcome.splits)

text \<open>What a finished query left: only internal events and, if anything was sent to the client, a valid answer in wire form.\<close>

definition answer_event :: "dns_package \<Rightarrow> string \<Rightarrow> PluginsState \<Rightarrow> event \<Rightarrow> bool" where
  "answer_event D proto s ev \<longleftrightarrow>
     (\<forall>b. ev = ToClient b \<longrightarrow> (\<exists>response. valid_answer D (questionMsg s) response \<and>
        wire_form D proto (maxUnencryptedUDPSafePayloadSize s) response b))"

lemma finish_query_answers:
  assumes "finish_query D E proto hasConn response server w c = (r, c', w', srv)"
    and "response \<noteq> [] \<longrightarrow> valid_answer D (questionMsg (qc_state c)) response"
  shows "extends (\<lambda>ev. \<not> outward ev \<and> answer_event D proto (qc_state c') ev) c c'"
proof (cases "bad_size response")
  case True
  then show ?thesis using assms(1) by (auto simp: finish_query_def Let_def extends_def answer_event_def split: if_splits)
next
  case False
  then have v: "valid_answer D (questionMsg (qc_state c)) response" using assms(2) by (auto simp: bad_size_def MinDNSPacketSize_def)
  show ?thesis
  proof (cases "sendResponse D proto hasConn response c")
    case None
    then show ?thesis using assms(1) False by (auto simp: finish_query_def extends_def)
  next
    case (Some c2)
    note send = sendResponse_sends [OF Some]
    have c': "c' = updateMonitoringMetrics (xe_metrics E) (ApplyLoggingPlugins c2)"
      using assms(1) False Some by (simp add: finish_query_def)
    have st: "qc_state c' = qc_state c2" by (simp add: c' updateMonitoringMetrics_def)
    have "extends internal c2 c'" by (auto simp: c' updateMonitoringMetrics_def extends_def)
    then have e: "extends (\<lambda>ev. \<not> outward ev \<and> answer_event D proto (qc_state c') ev) c2 c'"
      by (rule extends_mono) (auto simp: answer_event_def elim: internal.elims)
    have "extends (\<lambda>ev. \<not> outward ev \<and> answer_event D proto (qc_state c') ev) c c2"
      by (rule extends_mono [OF conjunct1 [OF send]]) (use v send in \<open>auto simp: answer_event_def st elim: internal.elims\<close>)
    then show ?thesis using e by (rule extends_trans)
  qed
qed

lemma server_context [simp]:
  "qc_trace (with_server srv c) = qc_trace c" "qc_state (with_server srv c) = qc_state c" "sc_server (with_server srv c) = srv"
  "qc_trace (qctx.truncate d) = qc_trace d" "qc_state (qctx.truncate d) = qc_state d"
  by (simp_all add: with_server_def qctx.defs sctx.defs)

lemma internal_not_outward: "internal ev \<Longrightarrow> \<not> outward ev \<and> not_client ev"
  by (cases ev) (auto simp: not_client_def)

lemma not_client_answer: "not_client ev \<Longrightarrow> answer_event D proto s ev"
  by (auto simp: not_client_def answer_event_def)

text \<open>The three outcomes of asking a server: nothing, after the exchange or after the plugins, or a valid response that is sent.\<close>

lemma ask_server_cases:
  assumes "ask_server D g rps E proto sproto hasConn query srv w c = (r, c', w', s)"
  obtains (stopped) r' d d' where "handleDNSExchange D E query sproto (with_server srv (c\<lparr>qc_state := name_server srv (qc_state c)\<rparr>)) = (r', d)"
      "extends internal d d'" "c' = d'" "\<forall>b. r = Some b \<longrightarrow> b = []"
  | (sent) r' d d' data w2 s2 where "handleDNSExchange D E query sproto (with_server srv (c\<lparr>qc_state := name_server srv (qc_state c)\<rparr>)) = (r', d)"
      "extends internal d d'" "valid_answer D (questionMsg (qc_state d')) data"
      "finish_query D E proto hasConn data s2 w2 d' = (r, c', w', s)"
proof -
  obtain r1 d where x: "handleDNSExchange D E query sproto (with_server srv (c\<lparr>qc_state := name_server srv (qc_state c)\<rparr>)) = (r1, d)"
    by fastforce
  let ?d2 = "\<lambda>b. qctx.truncate (emit (StatsUpdated (sf_Name srv) b) d)"
  have d2: "extends internal d (?d2 b)" for b by (simp add: extends_def)
  have tr: "extends internal d (qctx.truncate d)" by (simp add: extends_def)
  show thesis
  proof (cases "\<exists>exchanged. r1 = Some (None, exchanged) \<and> exchanged \<noteq> []")
    case False
    then show thesis
      using assms by (auto simp: ask_server_def x Let_def intro: stopped [OF x d2] stopped [OF x tr] split: option.splits prod.splits)
  next
    case True
    then obtain exchanged where r1: "r1 = Some (None, exchanged)" "exchanged \<noteq> []" by auto
    obtain a d3 v where p: "processPlugins D g rps exchanged w (?d2 True) = (a, d3, v)" by (metis prod_cases3)
    have e: "extends internal d d3"
      using extends_trans [OF d2 conjunct1 [OF processPlugins_valid [OF p]]] .
    show thesis
    proof (cases "\<exists>data. a = Some (None, data)")
      case False
      then show thesis
        using assms r1 p
        by (auto simp: ask_server_def x Let_def intro: stopped [OF x e] split: option.splits prod.splits)
    next
      case True
      then obtain data where a: "a = Some (None, data)" by auto
      show thesis
      proof (rule sent [OF x e])
        show "valid_answer D (questionMsg (qc_state d3)) data" using processPlugins_valid [OF p] by (simp add: a)
        show "finish_query D E proto hasConn data (Some (sc_server d)) v d3 = (r, c', w', s)"
          using assms r1 p a by (simp add: ask_server_def x Let_def)
      qed
    qed
  qed
qed

lemma ask_server_answers:
  assumes "ask_server D g rps E proto sproto hasConn query srv w c = (r, c', w', s)"
  shows "extends (answer_event D proto (qc_state c')) c c'"
  using assms
proof (cases rule: ask_server_cases)
  case (stopped r' d d')
  have "extends not_client c c'"
    using extends_trans [OF exchange_not_client(1) [OF stopped(1)] extends_mono [OF stopped(2)]] internal_not_outward stopped(3)
    by (auto simp: extends_def)
  then show ?thesis by (rule extends_mono) (rule not_client_answer)
next
  case (sent r' d d' data w2 s2)
  have "extends not_client c d'"
    using extends_trans [OF exchange_not_client(1) [OF sent(1)] extends_mono [OF sent(2)]] internal_not_outward
    by (auto simp: extends_def)
  then have "extends (answer_event D proto (qc_state c')) c d'" by (rule extends_mono) (rule not_client_answer)
  also have "extends (answer_event D proto (qc_state c')) d' c'"
    by (rule extends_mono [OF finish_query_answers [OF sent(4)]]) (use sent(3) in auto)
  finally (extends_trans) show ?thesis .
qed

lemma ask_server_events:
  assumes "ask_server D g rps E proto sproto hasConn query srv w c = (r, c', w', s)"
    and "permits P srv" "\<And>u b. sf_Proto srv \<noteq> ProtoDNSCrypt \<Longrightarrow> P (Https u b)" "\<And>ev. \<not> outward ev \<Longrightarrow> P ev"
  shows "extends P c c'"
proof -
  have x: "extends P c d'" if "handleDNSExchange D E query sproto (with_server srv (c\<lparr>qc_state := name_server srv (qc_state c)\<rparr>)) = (r', d)"
    and i: "extends internal d d'" for r' d and d' :: qctx
  proof -
    have "extends P c d" using reaches_exchange [OF _ _ that(1), of P] assms(2,3) by (simp add: reaches_def extends_def)
    moreover have "extends P d d'" by (rule extends_mono [OF i]) (use assms(4) internal_not_outward in auto)
    ultimately show ?thesis by (rule extends_trans)
  qed
  show ?thesis
    using assms(1)
  proof (cases rule: ask_server_cases)
    case (stopped r' d d')
    then show ?thesis using x [OF stopped(1,2)] by simp
  next
    case (sent r' d d' data w2 s2)
    have "extends P d' c'" by (rule extends_mono [OF finish_query_answers [OF sent(4)]]) (use sent(3) assms(4) in auto)
    with x [OF sent(1,2)] show ?thesis by (rule extends_trans)
  qed
qed

text \<open>
  A query that passed the query plugins, in the state \<open>s\<close>, with what they synthesized: it ends at once, is answered from
  \<open>data\<close>, or is sent to a server.
\<close>

lemma incoming_cases:
  assumes "processIncomingQuery D g ttls qps rps E proto sproto query addr hasConn onlyCached slots w = (r, c', w', srv)"
  obtains (early) "list_all internal (qc_trace c')"
      "w' = w \<or> (\<exists>a s. ApplyQueryPlugins D g qps query (needs_padding (xe_pick E 0)) w (NewPluginsState ttls proto addr sproto) = (a, s, w'))"
  | (queried) query' s w2 c data server where
      "ApplyQueryPlugins D g qps query (needs_padding (xe_pick E 0)) w (NewPluginsState ttls proto addr sproto) = (Inr query', s, w2)"
      "qc_trace c = []" "qc_state c = s" "server \<in> {xe_pick E 0, None}"
      "(data = [] \<and> synthResponse s = None) \<or>
         (\<exists>synth. synthResponse s = Some synth \<and> Pack D synth = Some data \<and> valid_answer D (questionMsg s) data)"
      "resolve_query D g rps E proto sproto hasConn onlyCached query' data server w2 c = (r, c', w', srv)"
proof -
  let ?s = "NewPluginsState ttls proto addr sproto" and ?c = "\<lambda>s. \<lparr>qc_state = s, qc_slots = slots, qc_trace = []\<rparr>"
  obtain a s w2 where x: "ApplyQueryPlugins D g qps query (needs_padding (xe_pick E 0)) w ?s = (a, s, w2)" by (metis prod_cases3)
  show thesis
  proof (cases "\<exists>query'. a = Inr query' \<and> validateQuery query \<and> validateQuery query' \<and> action s \<noteq> PluginsActionDrop")
    case False
    then show thesis
      using assms by (auto simp: processIncomingQuery_def x Let_def intro!: early split: if_splits sum.splits)
  next
    case True
    then obtain query' where a: "a = Inr query'" "validateQuery query" "validateQuery query'" "action s \<noteq> PluginsActionDrop" by blast
    let ?server = "if action s = PluginsActionContinue then xe_pick E 0 else None"
    have sv: "?server \<in> {xe_pick E 0, None}" by simp
    show thesis
    proof (cases "synthResponse s")
      case None
      then have "resolve_query D g rps E proto sproto hasConn onlyCached query' [] ?server w2 (?c s) = (r, c', w', srv)"
        using assms a by (simp add: processIncomingQuery_def x Let_def)
      then show thesis by (rule queried [OF x [unfolded a(1)] _ _ sv, rotated 3]) (use None in auto)
    next
      case (Some synth)
      obtain h s' where h: "handleSynthesizedResponse D s synth = (h, s')" by fastforce
      show thesis
      proof (cases h)
        case (Inl e)
        then show thesis using assms a Some h by (intro early) (auto simp: processIncomingQuery_def x Let_def)
      next
        case (Inr data)
        have s': "s' = s" "valid_answer D (questionMsg s') data" using synthesized_valid h Inr by auto
        have "Pack D synth = Some data" using h Inr by (auto simp: handleSynthesizedResponse_def split: option.splits)
        moreover have "resolve_query D g rps E proto sproto hasConn onlyCached query' data ?server w2 (?c s) = (r, c', w', srv)"
          using assms a Some h Inr s' by (simp add: processIncomingQuery_def x Let_def)
        ultimately show thesis by (intro queried [OF x [unfolded a(1)] _ _ sv]) (use Some s' in auto)
      qed
    qed
  qed
qed

text \<open>The query that the state holds stays what the query plugins left.\<close>

lemma processPlugins_question:
  assumes "list_all keeps_query rps" "processPlugins D g rps response w c = (r, c', w')"
  shows "questionMsg (qc_state c') = questionMsg (qc_state c)"
proof -
  obtain a s v where x: "ApplyResponsePlugins D g rps response w (qc_state c) = (a, s, v)" by (metis prod_cases3)
  have q: "questionMsg s = questionMsg (qc_state c)" by (rule response_plugins_question [OF assms(1) x])
  have h: "questionMsg t = questionMsg s" if "handleSynthesizedResponse D s synth = (y, t)" for synth y t
    using that by (auto simp: handleSynthesizedResponse_def split: option.splits)
  show ?thesis
    using assms(2) q
    by (auto simp: processPlugins_def x Let_def dest!: judge_simps h split: outcome.splits option.splits sum.splits prod.splits if_splits)
qed

lemma finish_query_question:
  assumes "finish_query D E proto hasConn response server w c = (r, c', w', srv)"
  shows "questionMsg (qc_state c') = questionMsg (qc_state c)" "w' = w"
  using assms
  by (auto simp: finish_query_def Let_def updateMonitoringMetrics_def dest: sendResponse_sends split: if_splits option.splits)

lemma ask_server_question:
  assumes "list_all keeps_query rps" "ask_server D g rps E proto sproto hasConn query srv w c = (r, c', w', s)"
  shows "questionMsg (qc_state c') = questionMsg (qc_state c)"
proof -
  obtain r1 d where x: "handleDNSExchange D E query sproto (with_server srv (c\<lparr>qc_state := name_server srv (qc_state c)\<rparr>)) = (r1, d)"
    by fastforce
  have d: "questionMsg (qc_state d) = questionMsg (qc_state c)"
    using exchange_not_client(2) [OF x] by (simp add: name_server_def Let_def split: option.splits)
  show ?thesis
    using assms(2) d
    by (auto simp: ask_server_def x Let_def dest!: processPlugins_question [OF assms(1)] finish_query_question(1)
        split: option.splits prod.splits if_splits)
qed

lemma resolve_query_question:
  assumes "list_all keeps_query rps" "resolve_query D g rps E proto sproto hasConn onlyCached query data server w c = (r, c', w', srv)"
  shows "questionMsg (qc_state c') = questionMsg (qc_state c)"
  using assms(2)
  by (auto simp: resolve_query_def Let_def dest: ask_server_question [OF assms(1)] finish_query_question(1) split: if_splits option.splits)

lemma resolve_query_answers:
  assumes "resolve_query D g rps E proto sproto hasConn onlyCached query data server w c = (r, c', w', srv)"
    and "data \<noteq> [] \<longrightarrow> valid_answer D (questionMsg (qc_state c)) data"
  shows "extends (answer_event D proto (qc_state c')) c c'"
proof -
  have fin: "extends (answer_event D proto (qc_state c')) c c'" if "finish_query D E proto hasConn data s2 w c = (r, c', w', srv)" for s2
    by (rule extends_mono [OF finish_query_answers [OF that assms(2)]]) simp
  show ?thesis
    using assms(1) by (auto simp: resolve_query_def Let_def extends_same intro: fin ask_server_answers split: if_splits option.splits)
qed

lemma resolve_query_events:
  assumes "resolve_query D g rps E proto sproto hasConn onlyCached query data server w c = (r, c', w', srv)"
    and "data \<noteq> [] \<longrightarrow> valid_answer D (questionMsg (qc_state c)) data" "\<And>ev. \<not> outward ev \<Longrightarrow> P ev"
    and "\<And>s u b. data = [] \<Longrightarrow> \<not> onlyCached \<Longrightarrow> server = Some s \<or> xe_pick E 1 = Some s \<Longrightarrow>
      permits P s \<and> (sf_Proto s \<noteq> ProtoDNSCrypt \<longrightarrow> P (Https u b))"
  shows "extends P c c'"
proof -
  have fin: "extends P c c'" if "finish_query D E proto hasConn data s2 w c = (r, c', w', srv)" for s2
    by (rule extends_mono [OF finish_query_answers [OF that assms(2)]]) (use assms(3) in auto)
  have ask: "extends P c c'"
    if "ask_server D g rps E proto sproto hasConn query s w c = (r, c', w', srv)" "data = []" "\<not> onlyCached"
      "server = Some s \<or> xe_pick E 1 = Some s" for s
    by (rule ask_server_events [OF that(1)]) (use assms(3) assms(4) [OF that(2-4)] in auto)
  show ?thesis
    using assms(1) by (auto simp: resolve_query_def Let_def extends_same intro: fin ask split: if_splits option.splits)
qed

text \<open>
  C21: a client only receives answers to its question. Whatever the servers send and whatever the plugins do, as long as the plugins that keep
  tables leave identifier and question of the query alone, every packet the handler writes to the client is the wire form of a packed message
  that has the response bit and the identifier and the question of the message the client sent: the message itself within the size limit over
  UDP, its truncated form beyond it, the framed message over TCP.
\<close>

theorem client_gets_valid_answer:
  assumes "processIncomingQuery D g ttls (queryPlugins P) (responsePlugins P) E proto sproto query addr hasConn onlyCached slots w = (r, c', w', srv)"
    and "tables_keep_query P" "ToClient b \<in> set (qc_trace c')"
  shows "\<exists>q msg response. Unpack D query = Some q \<and> Pack D msg = Some response \<and> answers_query D q msg \<and>
    wire_form D proto (maxUnencryptedUDPSafePayloadSize (qc_state c')) response b"
  using assms(1)
proof (cases rule: incoming_cases)
  case early
  then show ?thesis using assms(3) by (auto simp: list_all_iff)
next
  case (queried query' s w2 c data server)
  note keep = plugins_keep_query [OF assms(2)]
  obtain q q' where q: "Unpack D query = Some q" "questionMsg s = Some q'" "msg_ID q' = msg_ID q" "msg_Question q' = msg_Question q"
    by (rule query_plugins_question [OF keep(1) queried(1)])
  have q': "questionMsg (qc_state c') = Some q'" using resolve_query_question [OF keep(2) queried(6)] queried(3) q(2) by simp
  have "extends (answer_event D proto (qc_state c')) c c'"
    by (rule resolve_query_answers [OF queried(6)]) (use queried(3,5) in auto)
  then have "answer_event D proto (qc_state c') (ToClient b)"
    using extends_set [OF _ assms(3)] queried(2) by fastforce
  then obtain msg response where "Pack D msg = Some response" "answers_query D q' msg"
    "wire_form D proto (maxUnencryptedUDPSafePayloadSize (qc_state c')) response b"
    using q' by (auto simp: answer_event_def valid_answer_def)
  moreover have "answers_query D q msg" if "answers_query D q' msg" for msg
    using that q(3,4) by (simp add: answers_query_def)
  ultimately show ?thesis using q(1) by blast
qed

text \<open>
  C20: a blocked name leaves the machine in no form. When a rule of the block list acts on the name of a query and no rule of the allow list
  does, no packet and no HTTPS request is sent to any server while the query is handled, and the plugins that keep tables or send queries of their
  own (cloaking, caching, forwarding, DNS64 and the address lists) do not act: the world they share, in which what they send is an effect, is left as it was.
\<close>

theorem blocked_query_stays_local:
  assumes "processIncomingQuery D g ttls (queryPlugins P) rps E proto sproto query addr hasConn onlyCached slots w = (r, c', w', srv)"
    and "Unpack D query = Some msg" "msg_Question msg = [question]" "NormalizeQName (rr_Name question) = Inr q"
    and "block_rule_active P q" "\<not> allow_rule_active P q"
    and "\<And>m d. Pack D m = Some d \<Longrightarrow> d \<noteq> []"
  shows "(\<forall>ev\<in>set (qc_trace c'). \<not> outward ev) \<and> w' = w"
  using assms(1)
proof (cases rule: incoming_cases)
  case early
  then show ?thesis using blocked_query_keeps_world [OF assms(2-6)] by (auto simp: list_all_iff dest: internal_not_outward)
next
  case (queried query' s w2 c data server)
  have "synthResponse s \<noteq> None"
    using blocked_name_never_forwarded [OF assms(2-6) queried(1)] by auto
  then have data: "data \<noteq> []" using queried(5) assms(7) by auto
  have w2: "w2 = w" by (rule blocked_query_keeps_world [OF assms(2-6) queried(1)])
  have "extends (\<lambda>ev. \<not> outward ev) c c'"
    by (intro resolve_query_events [OF queried(6)]) (use queried(3,5) data in auto)
  then have "\<forall>ev\<in>set (qc_trace c'). \<not> outward ev" using extends_set queried(2) by fastforce
  moreover have "w' = w2"
    using queried(6) data by (auto simp: resolve_query_def Let_def dest: finish_query_question(2) split: if_splits)
  ultimately show ?thesis using w2 by simp
qed

text \<open>
  C22: anonymized queries only go to the relay. When a relay was found for a DNSCrypt server and servers that cannot be reached through
  relays are skipped, every packet sent while that server answers a query goes to the relay, as a message for the relay that names the
  server's address; the server itself is never contacted, neither over UDP nor in the retry over TCP.
\<close>

theorem anonymized_query_uses_relay:
  assumes "fetchDNSCryptServerInfo F name stamp = Inr server" "route (de_route F) name (st_Proto stamp) = Inr (Some relay)"
    and "rl_Dnscrypt relay = Some dr" "de_skipAnonIncompatible F" "\<And>k. xe_pick E k = Some server"
    and "processIncomingQuery D g ttls qps rps E proto sproto query addr hasConn onlyCached slots w = (r, c', w', srv)"
    and "Upstream p a b \<in> set (qc_trace c')"
  shows "\<exists>ip port sealed. sf_Addr server = Some (ip, port) \<and>
    (p = ''udp'' \<and> a = RelayUDPAddr dr \<and> b = prepareForRelay ip port sealed \<or>
     p = ''tcp'' \<and> a = RelayTCPAddr dr \<and> PrefixWithSize (prepareForRelay ip port sealed) = Inr b)"
proof -
  have "sf_Relay server = Some relay" using anonymized_or_refused [OF assms(1-4)] by simp
  then have rel: "dnscrypt_relay server = Some dr" using assms(3) by (simp add: dnscrypt_relay_def)
  obtain ip port where addr: "sf_Addr server = Some (ip, port)" "sf_Proto server = ProtoDNSCrypt"
    using assms(1) by (auto simp: fetchDNSCryptServerInfo_def Let_def split: option.splits sum.splits prod.splits if_splits)
  define P where "P ev \<longleftrightarrow> (\<forall>p a b. ev = Upstream p a b \<longrightarrow> (\<exists>sealed.
    p = ''udp'' \<and> a = RelayUDPAddr dr \<and> b = prepareForRelay ip port sealed \<or>
    p = ''tcp'' \<and> a = RelayTCPAddr dr \<and> PrefixWithSize (prepareForRelay ip port sealed) = Inr b))" for ev
  have perm: "permits P server"
    by (auto simp: permits_def P_def udp_upstream_def tcp_upstream_def for_upstream_def rel addr server_addr_def)
  have "P (Upstream p a b)"
    using assms(6)
  proof (cases rule: incoming_cases)
    case early
    then show ?thesis using assms(7) by (auto simp: list_all_iff)
  next
    case (queried query' s w2 c data sv)
    have "extends P c c'"
    proof (rule resolve_query_events [OF queried(6)])
      show "permits P s \<and> (sf_Proto s \<noteq> ProtoDNSCrypt \<longrightarrow> P (Https u b))" if "sv = Some s \<or> xe_pick E 1 = Some s" for s u b
        using that queried(4) assms(5) perm addr(2) by auto
    qed (use queried(3,5) in \<open>auto simp: P_def\<close>)
    then show ?thesis using extends_set [OF _ assms(7)] queried(2) by fastforce
  qed
  then show ?thesis using addr(1) unfolding P_def by blast
qed

definition sample_exchange :: "unit FullServer option \<Rightarrow> unit exchange_env" where
  "sample_exchange server =
     \<lparr>xe_crypto = plain_crypto, xe_keys = sample_keys, xe_query = (\<lambda>_. sample_query_env\<lparr>qe_minSize := 0\<rparr>), xe_now = 0, xe_epoch = 0, xe_proxyDialer = False,
      xe_poolGet = (\<lambda>_. None), xe_dial = (\<lambda>_ _. None), xe_deadline = None, xe_write = (\<lambda>_ _ _. None),
      xe_read = (\<lambda>_ _ _. Inl XNet), xe_reads = (\<lambda>_ _. []), xe_doh = (\<lambda>_ _ _. (Some XNet, [], None)),
      xe_odoh = (\<lambda>_ _ _. (Some XNet, [], 0)), xe_seal = (\<lambda>_ _. None), xe_draw = (\<lambda>_. 0), xe_pick = (\<lambda>_. server),
      xe_registered = (\<lambda>_. False), xe_refreshOk = False, xe_metrics = False\<rparr>"

definition no_slots :: odoh_slots where
  "no_slots = \<lparr>os_inFlight = {}, os_lastFailureAt = Map.empty\<rparr>"

definition sample_run :: "bytes option \<times> qctx \<times> unit \<times> unit FullServer option" where
  "sample_run = processIncomingQuery sample_package sample_globals sample_ttls (queryPlugins sample_env) (responsePlugins sample_env) (sample_exchange None)
     ''udp'' ''udp'' (replicate 20 0) None True False no_slots ()"

lemma sample_run_sends: "ToClient (replicate 20 0) \<in> set (qc_trace (fst (snd sample_run)))"
  by code_simp

lemma components4: "x = (fst x, fst (snd x), fst (snd (snd x)), snd (snd (snd x)))"
  by simp

theorem client_gets_valid_answer_witness:
  "\<exists>q msg. Unpack sample_package (replicate 20 0) = Some q \<and> Pack sample_package msg = Some (replicate 20 0) \<and> answers_query sample_package q msg"
proof -
  have "sample_run = (fst sample_run, fst (snd sample_run), fst (snd (snd sample_run)), snd (snd (snd sample_run)))" by (rule components4)
  moreover have "tables_keep_query sample_env" by (simp add: tables_keep_query_def sample_env_def)
  ultimately show ?thesis
    using client_gets_valid_answer [of sample_package sample_globals sample_ttls sample_env "sample_exchange None" "''udp''" "''udp''"
        "replicate 20 0" None True False no_slots "()", OF _ _ sample_run_sends]
    unfolding sample_run_def
    by (auto simp: sample_package_def wire_form_def)
qed

theorem blocked_query_stays_local_witness:
  "list_all (\<lambda>ev. \<not> outward ev) (qc_trace (fst (snd sample_run)))"
proof -
  have q: "NormalizeQName ''X.ads.example.'' = Inr ''x.ads.example''" by code_simp
  have run: "sample_run = (fst sample_run, fst (snd sample_run), fst (snd (snd sample_run)), snd (snd (snd sample_run)))" by (rule components4)
  have "(\<forall>ev\<in>set (qc_trace (fst (snd sample_run))). \<not> outward ev) \<and> fst (snd (snd sample_run)) = ()"
    unfolding sample_run_def
    by (rule blocked_query_stays_local [OF run [unfolded sample_run_def], where msg = sample_query and question = "hd (msg_Question sample_query)" and q = "''x.ads.example''"])
      (use sample_block in \<open>auto simp: sample_package_def sample_query_def q allow_rule_active_def sample_env_def\<close>)
  then show ?thesis by (simp add: list_all_iff)
qed

definition relayed_run :: "unit FullServer \<Rightarrow> bytes option \<times> qctx \<times> unit \<times> unit FullServer option" where
  "relayed_run server = processIncomingQuery sample_package sample_globals sample_ttls [] [] (sample_exchange (Some server))
     ''udp'' ''udp'' (replicate 20 0) None True False no_slots ()"

lemma relayed_run_sends:
  "case (fetchDNSCryptServerInfo test_dnscrypt ''s'' (test_stamp ProtoDNSCrypt ''9.9.9.9:443'') :: server_error + unit FullServer) of
     Inl _ \<Rightarrow> False
   | Inr server \<Rightarrow> list_ex outward (qc_trace (fst (snd (relayed_run server))))"
  by code_simp

theorem anonymized_query_uses_relay_witness:
  "case (fetchDNSCryptServerInfo test_dnscrypt ''s'' (test_stamp ProtoDNSCrypt ''9.9.9.9:443'') :: server_error + unit FullServer) of
     Inl _ \<Rightarrow> False
   | Inr server \<Rightarrow> list_ex outward (qc_trace (fst (snd (relayed_run server)))) \<and>
       list_all (\<lambda>ev. case ev of Upstream p a b \<Rightarrow> a = ([200, 1, 1, 1], 443) | _ \<Rightarrow> True) (qc_trace (fst (snd (relayed_run server))))"
proof -
  have "case route test_routes ''s'' ProtoDNSCrypt of Inr (Some r) \<Rightarrow> rl_Dnscrypt r = Some \<lparr>RelayUDPAddr = ([200, 1, 1, 1], 443), RelayTCPAddr = ([200, 1, 1, 1], 443)\<rparr> | _ \<Rightarrow> False"
    by code_simp
  then obtain relay where r: "route test_routes ''s'' ProtoDNSCrypt = Inr (Some relay)"
      "rl_Dnscrypt relay = Some \<lparr>RelayUDPAddr = ([200, 1, 1, 1], 443), RelayTCPAddr = ([200, 1, 1, 1], 443)\<rparr>"
    by (auto split: sum.splits option.splits)
  obtain server where s: "(fetchDNSCryptServerInfo test_dnscrypt ''s'' (test_stamp ProtoDNSCrypt ''9.9.9.9:443'') :: server_error + unit FullServer) = Inr server"
    using relayed_run_sends by (auto split: sum.splits)
  let ?r = "relayed_run server"
  have run: "?r = (fst ?r, fst (snd ?r), fst (snd (snd ?r)), snd (snd (snd ?r)))" by (rule components4)
  have "a = ([200, 1, 1, 1], 443)" if "Upstream p a b \<in> set (qc_trace (fst (snd ?r)))" for p a b
    using anonymized_query_uses_relay [OF s _ r(2) _ _ run [unfolded relayed_run_def] that [unfolded relayed_run_def]] r(1)
    by (auto simp: test_dnscrypt_def test_stamp_def sample_exchange_def)
  then show ?thesis using s relayed_run_sends by (auto simp: list_all_iff split: event.splits)
qed

section \<open>Failures that are taken for something else\<close>

text \<open>
  Behind a proxy, two reads that time out leave a buffer of zeros, which is then decrypted: the error is not a timeout, so the query
  is not retried over TCP and the client's log shows a network error.
\<close>

lemma zeros_not_decrypted:
  "fst (Decrypt C now ep si key (replicate MaxDNSPacketSize 0) nonce qe) = Inl BadSizeOrPrefix"
proof -
  have "take (length ServerMagic) (replicate MaxDNSPacketSize 0) \<noteq> ServerMagic"
    by (simp add: ServerMagic_def MaxDNSPacketSize_def)
  then show ?thesis by (simp add: Decrypt_def Let_def)
qed

lemma open_response_zeros: "fst (open_response E sq (replicate MaxDNSPacketSize 0) c) = (Some (XCrypto BadSizeOrPrefix), [])"
  using zeros_not_decrypted [of "xe_crypto E" "xe_now E" "xe_epoch E" "sf_crypto (sc_server c)" "sq_key sq" "sq_nonce sq" "sq_epoch sq"]
  by (auto simp: open_response_def split: prod.splits)

lemma proxied_timeout_not_retried:
  assumes "xe_dial E ''udp'' a = None" "xe_deadline E = None" "\<And>k. xe_write E ''udp'' a k = None" "\<And>q k. xe_read E a q k = Inl XTimeout"
    and "a = udp_upstream (sc_server c)" "xe_proxyDialer E"
  shows "fst (exchangeWithUDPServer E sq c) = (Some (XCrypto BadSizeOrPrefix), []) \<and> \<not> retry_over_tcp (fst (exchangeWithUDPServer E sq c))"
proof -
  have "udp_loop E a q 0 2 (None, buf) = (Inr (Some XTimeout, buf), [Upstream ''udp'' a q, Upstream ''udp'' a q])" for q buf
    using assms(3,4) by (simp add: numeral_2_eq_2)
  then have "fst (exchangeWithUDPServer E sq c) = (Some (XCrypto BadSizeOrPrefix), [])"
    using assms
    by (simp add: exchangeWithUDPServer_def exchangeWithUDPServerViaProxy_def open_response_zeros Let_def)
  then show ?thesis by (simp add: retry_over_tcp_def)
qed

text \<open>
  An oblivious exchange that fails with a status code other than 200 and 401 but without an error counts twice: once where it fails and
  once more because its empty response has a bad size, and the logged code becomes a parse error.
\<close>

lemma odoh_status_failure_counted_twice:
  assumes "sf_Proto (sc_server c) = ProtoODoHTarget" "sf_odohTargetConfigs (sc_server c) \<noteq> []"
    and "\<And>cfg. xe_seal E cfg query = Some (m, opener)" "\<And>g u m. xe_odoh E g u m = (None, body, 500)"
    and "handleDNSExchange D E query proto c = (r, c')"
  shows "r = Some (None, []) \<and> qc_trace c' = qc_trace c @ [NoticedBegin, Https (odoh_url (sc_server c)) m,
    Logged PluginsReturnCodeNetworkError, NoticedFailure, Logged PluginsReturnCodeParseError, NoticedFailure]"
  using assms by (auto simp: handleDNSExchange_def processODoHQuery_def odoh_failed_def Let_def MinDNSPacketSize_def)

end
