(* ===== verification/Dc_Udp_Pool.thy ===== *)
theory Dc_Udp_Pool
  imports Dc_Message "HOL-Library.Multiset"
begin

text \<open>
  \<open>pkg/dnscrypt/udp_conn_pool.go\<close>: idle UDP connections kept by address in 64 locked shards. A connection is a number. The
  operations are the critical sections of the code, so that a run is an interleaving of them; \<open>Close\<close> is the store to the
  flag and one step per shard, and \<open>cleanupStale\<close> one step per shard.
\<close>

section \<open>Shards\<close>

definition UDPPoolMaxConnsPerAddr :: nat where
  "UDPPoolMaxConnsPerAddr = 4"

definition UDPPoolMaxIdleTime :: int where
  "UDPPoolMaxIdleTime = 30 * second"

definition UDPPoolShards :: nat where
  "UDPPoolShards = 64"

record pooledConn =
  pcn_conn :: nat
  pcn_lastUsed :: int

type_synonym poolShard = "(string \<times> pooledConn list) list"

record UDPConnPool =
  up_shards :: "poolShard list"
  up_closed :: bool

definition NewUDPConnPool :: UDPConnPool where
  "NewUDPConnPool = \<lparr>up_shards = replicate UDPPoolShards [], up_closed = False\<rparr>"

definition getShard :: "string \<Rightarrow> nat" where
  "getShard addr = unat (foldl (\<lambda>h c. h * 31 + of_nat (of_char c)) (0 :: u32) addr) mod UDPPoolShards"

definition shard_conns :: "string \<Rightarrow> poolShard \<Rightarrow> pooledConn list" where
  "shard_conns addr sh = (case map_of sh addr of None \<Rightarrow> [] | Some cs \<Rightarrow> cs)"

fun shard_set :: "string \<Rightarrow> pooledConn list \<Rightarrow> poolShard \<Rightarrow> poolShard" where
  "shard_set a v [] = [(a, v)]"
| "shard_set a v ((b, w) # sh) = (if a = b then (a, v) # sh else (b, w) # shard_set a v sh)"

section \<open>Operations\<close>

text \<open>The connection taken from the pool; \<open>None\<close> when a new one is dialed.\<close>

definition UDPConnPool_Get :: "string \<Rightarrow> UDPConnPool \<Rightarrow> nat option \<times> UDPConnPool" where
  "UDPConnPool_Get addr p =
     (let i = getShard addr; conns = shard_conns addr (up_shards p ! i) in
      if length conns > 0 then
        (Some (pcn_conn (last conns)), p\<lparr>up_shards := (up_shards p)[i := shard_set addr (butlast conns) (up_shards p ! i)]\<rparr>)
      else (None, p))"

text \<open>The connections that are closed, and the pool.\<close>

definition UDPConnPool_Put :: "int \<Rightarrow> string \<Rightarrow> nat \<Rightarrow> UDPConnPool \<Rightarrow> nat list \<times> UDPConnPool" where
  "UDPConnPool_Put now addr conn p =
     (if up_closed p then ([conn], p)
      else
        let i = getShard addr; conns = shard_conns addr (up_shards p ! i) in
        if length conns \<ge> UDPPoolMaxConnsPerAddr then ([conn], p)
        else ([], p\<lparr>up_shards := (up_shards p)[i := shard_set addr (conns @ [\<lparr>pcn_conn = conn, pcn_lastUsed = now\<rparr>]) (up_shards p ! i)]\<rparr>))"

definition UDPConnPool_Discard :: "nat \<Rightarrow> nat list" where
  "UDPConnPool_Discard conn = [conn]"

definition stale :: "int \<Rightarrow> pooledConn \<Rightarrow> bool" where
  "stale now pc = (now - pcn_lastUsed pc > UDPPoolMaxIdleTime)"

definition cleanup_shard :: "int \<Rightarrow> poolShard \<Rightarrow> nat list \<times> poolShard" where
  "cleanup_shard now sh =
     (map pcn_conn (concat (map (\<lambda>(a, cs). filter (stale now) cs) sh)),
      filter (\<lambda>(a, cs). cs \<noteq> []) (map (\<lambda>(a, cs). (a, filter (\<lambda>c. \<not> stale now c) cs)) sh))"

definition cleanupStale :: "int \<Rightarrow> UDPConnPool \<Rightarrow> nat list \<times> UDPConnPool" where
  "cleanupStale now p =
     (let rs = map (cleanup_shard now) (up_shards p) in (concat (map fst rs), p\<lparr>up_shards := map snd rs\<rparr>))"

definition close_shard :: "poolShard \<Rightarrow> nat list \<times> poolShard" where
  "close_shard sh = (map pcn_conn (concat (map snd sh)), [])"

definition UDPConnPool_Close :: "UDPConnPool \<Rightarrow> nat list \<times> UDPConnPool" where
  "UDPConnPool_Close p =
     (let rs = map close_shard (up_shards p) in (concat (map fst rs), \<lparr>up_shards = map snd rs, up_closed = True\<rparr>))"

definition UDPConnPool_Stats :: "UDPConnPool \<Rightarrow> nat \<times> nat" where
  "UDPConnPool_Stats p =
     (sum_list (map (\<lambda>sh. sum_list (map (\<lambda>(a, cs). length cs) sh)) (up_shards p)), sum_list (map length (up_shards p)))"

section \<open>Interleavings\<close>

text \<open>\<open>pw_drained\<close> are the shards a running \<open>Close\<close> has emptied; connections in use and closed are multisets.\<close>

record pool_world =
  pw_pool :: UDPConnPool
  pw_inUse :: "nat multiset"
  pw_closed :: "nat multiset"
  pw_drained :: "nat set"

definition all_conns :: "pool_world \<Rightarrow> nat multiset" where
  "all_conns w = mset (concat (map (\<lambda>sh. map pcn_conn (concat (map snd sh))) (up_shards (pw_pool w)))) + pw_inUse w + pw_closed w"

inductive pool_step :: "pool_world \<Rightarrow> pool_world \<Rightarrow> bool" where
  reuse: "UDPConnPool_Get addr (pw_pool w) = (Some c, p) \<Longrightarrow>
    pool_step w (w\<lparr>pw_pool := p, pw_inUse := add_mset c (pw_inUse w)\<rparr>)"
| dial: "UDPConnPool_Get addr (pw_pool w) = (None, p) \<Longrightarrow> c \<notin># all_conns w \<Longrightarrow>
    pool_step w (w\<lparr>pw_inUse := add_mset c (pw_inUse w)\<rparr>)"
| put: "c \<in># pw_inUse w \<Longrightarrow> UDPConnPool_Put now addr c (pw_pool w) = (cs, p) \<Longrightarrow>
    pool_step w (w\<lparr>pw_pool := p, pw_inUse := pw_inUse w - {#c#}, pw_closed := mset cs + pw_closed w\<rparr>)"
| discard: "c \<in># pw_inUse w \<Longrightarrow>
    pool_step w (w\<lparr>pw_inUse := pw_inUse w - {#c#}, pw_closed := mset (UDPConnPool_Discard c) + pw_closed w\<rparr>)"
| clean: "i < length (up_shards (pw_pool w)) \<Longrightarrow> cleanup_shard now (up_shards (pw_pool w) ! i) = (cs, sh) \<Longrightarrow>
    pool_step w (w\<lparr>pw_pool := (pw_pool w)\<lparr>up_shards := (up_shards (pw_pool w))[i := sh]\<rparr>, pw_closed := mset cs + pw_closed w\<rparr>)"
| close_flag: "pool_step w (w\<lparr>pw_pool := (pw_pool w)\<lparr>up_closed := True\<rparr>\<rparr>)"
| close_drain: "up_closed (pw_pool w) \<Longrightarrow> i < length (up_shards (pw_pool w)) \<Longrightarrow> close_shard (up_shards (pw_pool w) ! i) = (cs, sh) \<Longrightarrow>
    pool_step w (w\<lparr>pw_pool := (pw_pool w)\<lparr>up_shards := (up_shards (pw_pool w))[i := sh]\<rparr>, pw_closed := mset cs + pw_closed w,
                   pw_drained := insert i (pw_drained w)\<rparr>)"

definition new_world :: pool_world where
  "new_world = \<lparr>pw_pool = NewUDPConnPool, pw_inUse = {#}, pw_closed = {#}, pw_drained = {}\<rparr>"

section \<open>No connection is lost or used twice\<close>

definition shard_mset :: "poolShard \<Rightarrow> nat multiset" where
  "shard_mset sh = mset (map pcn_conn (concat (map snd sh)))"

lemma shard_set_mset:
  "shard_mset (shard_set a v sh) + mset (map pcn_conn (shard_conns a sh)) = shard_mset sh + mset (map pcn_conn v)"
proof (induction sh)
  case (Cons x sh)
  obtain b w where x: "x = (b, w)" by (cases x)
  show ?case
  proof (cases "a = b")
    case False
    then have c: "shard_conns a ((b, w) # sh) = shard_conns a sh" by (simp add: shard_conns_def)
    have "shard_mset (shard_set a v ((b, w) # sh)) + mset (map pcn_conn (shard_conns a ((b, w) # sh))) =
        mset (map pcn_conn w) + (shard_mset (shard_set a v sh) + mset (map pcn_conn (shard_conns a sh)))"
      using False by (simp add: c) (simp add: shard_mset_def)
    also have "\<dots> = shard_mset ((b, w) # sh) + mset (map pcn_conn v)"
      unfolding Cons.IH by (simp add: shard_mset_def)
    finally show ?thesis using x by simp
  qed (simp add: x shard_mset_def shard_conns_def)
qed (simp add: shard_mset_def shard_conns_def)

definition pool_mset :: "poolShard list \<Rightarrow> nat multiset" where
  "pool_mset shs = sum_list (map shard_mset shs)"

lemma all_conns_pool: "all_conns w = pool_mset (up_shards (pw_pool w)) + pw_inUse w + pw_closed w"
proof -
  have "mset (concat (map (\<lambda>sh. map pcn_conn (concat (map snd sh))) shs)) = pool_mset shs" for shs
    by (induction shs) (simp_all add: pool_mset_def shard_mset_def)
  then show ?thesis by (simp add: all_conns_def)
qed

lemma pool_mset_update:
  "i < length shs \<Longrightarrow> pool_mset (shs[i := sh]) + shard_mset (shs ! i) = pool_mset shs + shard_mset sh"
proof (induction shs arbitrary: i)
  case (Cons x shs)
  then show ?case by (cases i) (auto simp: pool_mset_def ac_simps)
qed simp

lemma cleanup_mset: "cleanup_shard now sh = (cs, sh') \<Longrightarrow> shard_mset sh = mset cs + shard_mset sh'"
proof -
  have f: "concat (map snd (filter (\<lambda>(a, cs). cs \<noteq> []) xs)) = concat (map snd xs)" for xs :: poolShard
    by (induction xs) auto
  have "shard_mset sh = mset (map pcn_conn (concat (map (\<lambda>(a, cs). filter (stale now) cs) sh))) +
      mset (map pcn_conn (concat (map snd (map (\<lambda>(a, cs). (a, filter (\<lambda>c. \<not> stale now c) cs)) sh))))"
  proof (induction sh)
    case (Cons x sh)
    obtain b w where x: "x = (b, w)" by (cases x)
    have "mset (map pcn_conn w) = mset (map pcn_conn (filter (stale now) w)) + mset (map pcn_conn (filter (\<lambda>c. \<not> stale now c) w))"
      by (induction w) auto
    then show ?case using Cons x by (simp add: shard_mset_def)
  qed (simp add: shard_mset_def)
  then show "cleanup_shard now sh = (cs, sh') \<Longrightarrow> shard_mset sh = mset cs + shard_mset sh'"
    unfolding shard_mset_def cleanup_shard_def by (auto simp: f)
qed

lemma getShard_less: "getShard a < UDPPoolShards"
  by (simp add: getShard_def UDPPoolShards_def)

lemma mset_last: "xs \<noteq> [] \<Longrightarrow> mset (map f xs) = mset (map f (butlast xs)) + {#f (last xs)#}"
  by (induction xs rule: rev_induct) simp_all

lemma balance:
  fixes P :: "nat multiset"
  assumes "P' + S = P + T" "T + C = S + V"
  shows "P' + C = P + V"
proof -
  have "(P' + C) + (S + T) = (P' + S) + (T + C)" by (simp add: ac_simps)
  also have "\<dots> = (P + T) + (S + V)" using assms by simp
  also have "\<dots> = (P + V) + (S + T)" by (simp add: ac_simps)
  finally show ?thesis by simp
qed

lemma Get_mset:
  assumes "UDPConnPool_Get addr p = (r, p')" "length (up_shards p) = UDPPoolShards"
  shows "pool_mset (up_shards p) = pool_mset (up_shards p') + (case r of None \<Rightarrow> {#} | Some c \<Rightarrow> {#c#})"
proof (cases "shard_conns addr (up_shards p ! getShard addr) = []")
  case True
  then show ?thesis using assms by (auto simp: UDPConnPool_Get_def Let_def)
next
  case False
  let ?i = "getShard addr"
  let ?sh = "up_shards p ! ?i" and ?cs = "shard_conns addr (up_shards p ! getShard addr)"
  have cs: "mset (map pcn_conn ?cs) = mset (map pcn_conn (butlast ?cs)) + {#pcn_conn (last ?cs)#}"
    by (rule mset_last [OF False])
  have r: "r = Some (pcn_conn (last ?cs))" "up_shards p' = (up_shards p)[?i := shard_set addr (butlast ?cs) ?sh]"
    using assms(1) False by (auto simp: UDPConnPool_Get_def Let_def)
  have u: "pool_mset (up_shards p') + shard_mset ?sh = pool_mset (up_shards p) + shard_mset (shard_set addr (butlast ?cs) ?sh)"
    unfolding r(2) by (rule pool_mset_update) (simp add: assms(2) getShard_less)
  show ?thesis using balance [OF u shard_set_mset [of addr "butlast ?cs" ?sh]] cs r(1) by simp
qed

lemma Put_mset:
  assumes "UDPConnPool_Put now addr c p = (cs, p')" "length (up_shards p) = UDPPoolShards"
  shows "pool_mset (up_shards p') + mset cs = pool_mset (up_shards p) + {#c#}"
proof (cases "up_closed p \<or> length (shard_conns addr (up_shards p ! getShard addr)) \<ge> UDPPoolMaxConnsPerAddr")
  case True
  then show ?thesis using assms by (cases "up_closed p") (auto simp: UDPConnPool_Put_def Let_def)
next
  case False
  let ?i = "getShard addr"
  let ?sh = "up_shards p ! ?i" and ?v = "shard_conns addr (up_shards p ! getShard addr) @ [\<lparr>pcn_conn = c, pcn_lastUsed = now\<rparr>]"
  have r: "cs = []" "up_shards p' = (up_shards p)[?i := shard_set addr ?v ?sh]"
    using assms(1) False by (auto simp: UDPConnPool_Put_def Let_def)
  have u: "pool_mset (up_shards p') + shard_mset ?sh = pool_mset (up_shards p) + shard_mset (shard_set addr ?v ?sh)"
    unfolding r(2) by (rule pool_mset_update) (simp add: assms(2) getShard_less)
  show ?thesis using balance [OF u shard_set_mset [of addr ?v ?sh]] r(1) by simp
qed

definition shard_ok :: "poolShard \<Rightarrow> bool" where
  "shard_ok sh \<longleftrightarrow> list_all (\<lambda>(a, cs). length cs \<le> UDPPoolMaxConnsPerAddr) sh"

definition pool_inv :: "pool_world \<Rightarrow> bool" where
  "pool_inv w \<longleftrightarrow>
     length (up_shards (pw_pool w)) = UDPPoolShards \<and> (\<forall>c. count (all_conns w) c \<le> 1) \<and>
     list_all shard_ok (up_shards (pw_pool w)) \<and>
     (pw_drained w \<noteq> {} \<longrightarrow> up_closed (pw_pool w)) \<and> (\<forall>i\<in>pw_drained w. i < UDPPoolShards \<longrightarrow> up_shards (pw_pool w) ! i = [])"

lemma shard_set_ok: "shard_ok sh \<Longrightarrow> length v \<le> UDPPoolMaxConnsPerAddr \<Longrightarrow> shard_ok (shard_set a v sh)"
  by (induction sh) (auto simp: shard_ok_def)

lemma shard_conns_ok: "shard_ok sh \<Longrightarrow> length (shard_conns a sh) \<le> UDPPoolMaxConnsPerAddr"
  by (auto simp: shard_ok_def shard_conns_def list_all_iff dest: map_of_SomeD split: option.splits)

lemma cleanup_ok: "cleanup_shard now sh = (cs, sh') \<Longrightarrow> shard_ok sh \<Longrightarrow> shard_ok sh'"
  by (fastforce simp: cleanup_shard_def shard_ok_def list_all_iff intro: order_trans [OF length_filter_le])

lemma list_all_nth: "list_all P xs \<Longrightarrow> i < length xs \<Longrightarrow> P (xs ! i)"
  by (simp add: list_all_iff)

lemma Get_keeps:
  assumes "UDPConnPool_Get addr p = (r, p')" "length (up_shards p) = UDPPoolShards" "list_all shard_ok (up_shards p)"
  shows "length (up_shards p') = UDPPoolShards \<and> list_all shard_ok (up_shards p') \<and> up_closed p' = up_closed p \<and>
    (\<forall>i. up_shards p ! i = [] \<longrightarrow> up_shards p' ! i = [])"
proof -
  let ?i = "getShard addr"
  have i: "?i < length (up_shards p)" using assms(2) getShard_less by simp
  have "shard_ok (shard_set addr (butlast (shard_conns addr (up_shards p ! ?i))) (up_shards p ! ?i))"
    using list_all_nth [OF assms(3) i] shard_conns_ok [of "up_shards p ! ?i" addr] by (intro shard_set_ok) simp_all
  then show ?thesis
    using assms i by (auto simp: UDPConnPool_Get_def Let_def nth_list_update shard_conns_def intro!: list_all_update split: if_splits)
qed

lemma Put_keeps:
  assumes "UDPConnPool_Put now addr c p = (cs, p')" "length (up_shards p) = UDPPoolShards" "list_all shard_ok (up_shards p)"
  shows "length (up_shards p') = UDPPoolShards \<and> list_all shard_ok (up_shards p') \<and> up_closed p' = up_closed p \<and>
    (up_closed p \<longrightarrow> p' = p)"
proof -
  let ?i = "getShard addr"
  have i: "?i < length (up_shards p)" using assms(2) getShard_less by simp
  have "shard_ok (shard_set addr (shard_conns addr (up_shards p ! ?i) @ [x]) (up_shards p ! ?i))"
    if "length (shard_conns addr (up_shards p ! ?i)) < UDPPoolMaxConnsPerAddr" for x
    using list_all_nth [OF assms(3) i] that by (intro shard_set_ok) auto
  then show ?thesis
    using assms i by (auto simp: UDPConnPool_Put_def Let_def not_le intro!: list_all_update split: if_splits)
qed

text \<open>What a step does to the connections: none disappears, and at most one new one appears.\<close>

lemma step_conns:
  assumes "pool_step w w'" "length (up_shards (pw_pool w)) = UDPPoolShards"
  shows "all_conns w' = all_conns w \<or> (\<exists>c. c \<notin># all_conns w \<and> all_conns w' = add_mset c (all_conns w))"
  using assms
proof (cases rule: pool_step.cases)
  case (reuse addr c p)
  then show ?thesis using Get_mset [OF reuse(2) assms(2)] by (simp add: all_conns_pool)
next
  case (dial addr p c)
  then show ?thesis by (auto simp: all_conns_pool)
next
  case (put c now addr cs p)
  have "pool_mset (up_shards p) + mset cs = add_mset c (pool_mset (up_shards (pw_pool w)))" using Put_mset [OF put(3) assms(2)] by simp
  moreover have "pw_inUse w = add_mset c (pw_inUse w - {#c#})" using put by simp
  ultimately have "all_conns w' = all_conns w"
    using put(1) by (simp add: all_conns_pool) (metis (no_types, lifting) add.assoc add.commute add_mset_add_single)
  then show ?thesis ..
next
  case (discard c)
  moreover have "pw_inUse w = add_mset c (pw_inUse w - {#c#})" using discard by simp
  ultimately have "all_conns w' = all_conns w"
    by (simp add: all_conns_pool UDPConnPool_Discard_def)
  then show ?thesis ..
next
  case (clean i now cs sh)
  have "all_conns w' = all_conns w"
    using clean(1) pool_mset_update [OF clean(2), of sh] cleanup_mset [OF clean(3)]
    by (simp add: all_conns_pool)
  then show ?thesis ..
next
  case close_flag
  then show ?thesis by (simp add: all_conns_pool)
next
  case (close_drain i cs sh)
  have "shard_mset (up_shards (pw_pool w) ! i) = mset cs + shard_mset sh"
    using close_drain(4) by (auto simp: close_shard_def shard_mset_def)
  then have "all_conns w' = all_conns w"
    using close_drain(1) pool_mset_update [OF close_drain(3), of sh]
    by (simp add: all_conns_pool)
  then show ?thesis ..
qed

lemma all_conns_new [simp]: "all_conns new_world = {#}"
  by (simp add: all_conns_def new_world_def NewUDPConnPool_def)

lemma pool_inv_step:
  assumes "pool_step w w'" "pool_inv w"
  shows "pool_inv w'"
proof -
  have len: "length (up_shards (pw_pool w)) = UDPPoolShards" and ok: "list_all shard_ok (up_shards (pw_pool w))"
    and closed: "pw_drained w \<noteq> {} \<longrightarrow> up_closed (pw_pool w)"
    and drained: "\<And>i. i \<in> pw_drained w \<Longrightarrow> i < UDPPoolShards \<Longrightarrow> up_shards (pw_pool w) ! i = []"
    using assms(2) by (auto simp: pool_inv_def)
  have "count (all_conns w') c \<le> 1" for c
    using step_conns [OF assms(1) len] assms(2) by (auto simp: pool_inv_def not_in_iff split: if_splits)
  moreover have "length (up_shards (pw_pool w')) = UDPPoolShards \<and> list_all shard_ok (up_shards (pw_pool w')) \<and>
      (pw_drained w' \<noteq> {} \<longrightarrow> up_closed (pw_pool w')) \<and>
      (\<forall>i\<in>pw_drained w'. i < UDPPoolShards \<longrightarrow> up_shards (pw_pool w') ! i = [])"
    using assms(1)
  proof (cases rule: pool_step.cases)
    case (reuse addr c p)
    then show ?thesis using Get_keeps [OF reuse(2) len ok] closed drained by simp
  next
    case (put c now addr cs p)
    then show ?thesis using Put_keeps [OF put(3) len ok] closed drained by auto
  next
    case (clean i now cs sh)
    have sh: "shard_ok sh" using cleanup_ok [OF clean(3)] list_all_nth [OF ok clean(2)] by simp
    have "up_shards (pw_pool w) ! i = [] \<Longrightarrow> sh = []" using clean(3) by (auto simp: cleanup_shard_def)
    then show ?thesis using clean(1,2) len closed drained list_all_update [OF ok sh] by (auto simp: nth_list_update)
  next
    case (close_drain i cs sh)
    have "sh = []" using close_drain(4) by (simp add: close_shard_def)
    then show ?thesis
      using close_drain(1-3) len closed drained list_all_update [OF ok, of sh i] by (auto simp: nth_list_update shard_ok_def)
  qed (use len ok closed drained in auto)
  ultimately show ?thesis by (simp add: pool_inv_def)
qed

text \<open>The pool never loses a connection and never hands one out twice. In every interleaving of requests, returns, clean-ups and
  a shutdown, each connection that was ever dialed is at exactly one place, in use, pooled or closed; an address has at most
  four pooled connections; and once a shutdown has gone through all shards, the pool is empty and stays so.
\<close>

theorem pool_accounts_for_connections:
  assumes "pool_step\<^sup>*\<^sup>* new_world w"
  shows "count (all_conns w) c \<le> 1 \<and>
    list_all (list_all (\<lambda>(a, cs). length cs \<le> UDPPoolMaxConnsPerAddr)) (up_shards (pw_pool w)) \<and>
    (pool_step\<^sup>*\<^sup>* w w' \<longrightarrow> all_conns w \<subseteq># all_conns w' \<and>
      (pw_drained w = {..<UDPPoolShards} \<longrightarrow> up_shards (pw_pool w') = replicate UDPPoolShards []))"
proof -
  have start: "pool_inv new_world"
    by (simp add: pool_inv_def) (simp add: new_world_def NewUDPConnPool_def shard_ok_def list_all_iff)
  have reach: "pool_inv b" if "pool_step\<^sup>*\<^sup>* a b" "pool_inv a" for a b
    using that by (induction rule: rtranclp_induct) (auto intro: pool_inv_step)
  have inv: "pool_inv w" by (rule reach [OF assms start])
  have grows: "all_conns a \<subseteq># all_conns b \<and> pw_drained a \<subseteq> pw_drained b" if "pool_step\<^sup>*\<^sup>* a b" "pool_inv a" for a b
    using that
  proof (induction rule: rtranclp_induct)
    case (step y z)
    have "length (up_shards (pw_pool y)) = UDPPoolShards" using reach [OF step.hyps(1) step.prems] by (simp add: pool_inv_def)
    from step_conns [OF step.hyps(2) this] have "all_conns y \<subseteq># all_conns z" by auto
    moreover have "pw_drained y \<subseteq> pw_drained z" using step.hyps(2) by (cases rule: pool_step.cases) auto
    ultimately show ?case using step by auto
  qed simp
  have "up_shards (pw_pool w') = replicate UDPPoolShards []" if "pool_step\<^sup>*\<^sup>* w w'" "pw_drained w = {..<UDPPoolShards}"
  proof -
    have "pool_inv w'" "pw_drained w \<subseteq> pw_drained w'" using reach [OF that(1) inv] grows [OF that(1) inv] by auto
    then show ?thesis using that(2) by (intro nth_equalityI) (auto simp: pool_inv_def)
  qed
  then show ?thesis using inv grows [OF _ inv] by (auto simp: pool_inv_def shard_ok_def [abs_def])
qed

theorem pool_accounts_for_connections_witness:
  "\<exists>w. pool_step\<^sup>*\<^sup>* new_world w \<and> pw_inUse w = {#5#} \<and> count (all_conns w) 5 \<le> 1"
proof -
  have "fst (UDPConnPool_Get ''10.0.0.1:53'' NewUDPConnPool) = None"
    by (simp add: UDPConnPool_Get_def NewUDPConnPool_def getShard_less shard_conns_def Let_def)
  then have "pool_step new_world (new_world\<lparr>pw_inUse := add_mset 5 (pw_inUse new_world)\<rparr>)"
    by (intro pool_step.dial [of "''10.0.0.1:53''" _ "snd (UDPConnPool_Get ''10.0.0.1:53'' NewUDPConnPool)"])
      (simp_all add: prod_eq_iff, simp add: new_world_def)
  then have r: "pool_step\<^sup>*\<^sup>* new_world (new_world\<lparr>pw_inUse := add_mset 5 (pw_inUse new_world)\<rparr>)" by blast
  show ?thesis
    using pool_accounts_for_connections [OF r, of 5] r by (intro exI [of _ "new_world\<lparr>pw_inUse := add_mset 5 (pw_inUse new_world)\<rparr>"])
      (simp add: new_world_def)
qed

end
