(* ===== verification/Dc_Forward.thy ===== *)
theory Dc_Forward
  imports Dc_Plugins
begin

text \<open>
  \<open>pkg/dnscrypt/plugin_forward.go\<close>: domains answered by servers of their own. What the network, the DHCP detectors, the files
  and the random draws give is a record of arguments; the time of the last failed read of a file is the state a
  query leaves behind.
\<close>

section \<open>Rules\<close>

datatype SearchSequenceItemType = Explicit | Bootstrap | DHCP | Resolvconf

record SearchSequenceItem =
  sq_typ :: SearchSequenceItemType
  sq_servers :: "string list"
  sq_resolvconf :: string
  sq_rcLastFail :: int

record PluginForwardEntry =
  fe_domain :: string
  fe_sequence :: "SearchSequenceItem list"

definition seq_item :: "SearchSequenceItemType \<Rightarrow> SearchSequenceItem" where
  "seq_item t = \<lparr>sq_typ = t, sq_servers = [], sq_resolvconf = [], sq_rcLastFail = 0\<rparr>"

text \<open>\<open>filepath.Clean\<close> on a platform whose separator is the slash.\<close>

definition clean_step :: "bool \<Rightarrow> string list \<Rightarrow> string \<Rightarrow> string list" where
  "clean_step rooted out c =
     (if c = [] \<or> c = ''.'' then out
      else if c = ''..'' then
        (if out \<noteq> [] \<and> last out \<noteq> ''..'' then butlast out else if rooted then out else out @ [c])
      else out @ [c])"

definition filepath_Clean :: "string \<Rightarrow> string" where
  "filepath_Clean path =
     (let rooted = has_prefix path ''/''; out = foldl (clean_step rooted) [] (split_char (CHR ''/'') path);
          p = (if rooted then ''/'' else []) @ join_char (CHR ''/'') out in
      if p = [] then ''.'' else p)"

datatype forward_error = ForwardSyntax nat | NoBootstrap nat | BadAddress string

definition normalizeIPAndOptionalPort :: "string \<Rightarrow> string \<Rightarrow> forward_error + string" where
  "normalizeIPAndOptionalPort addr defaultPort =
     (let hp =
        (if has_prefix addr ''['' then
           (if \<not> contains addr '']:'' then
              (if last addr \<noteq> CHR '']'' then None else Some (butlast (tl addr), defaultPort))
            else SplitHostPort addr)
         else (case SplitHostPort addr of None \<Rightarrow> Some (addr, defaultPort) | Some hp \<Rightarrow> Some hp)) in
      case hp of
        None \<Rightarrow> Inl (BadAddress addr)
      | Some (host, port) \<Rightarrow>
          (case ParseIP host of
             None \<Rightarrow> Inl (BadAddress host)
           | Some ip \<Rightarrow>
               if To4 ip \<noteq> None then Inr (IP_String ip @ '':'' @ port)
               else Inr (''['' @ IP_String ip @ '']:'' @ port)))"

text \<open>An explicit server joins the last explicit item, wherever it stands.\<close>

definition add_explicit :: "string \<Rightarrow> SearchSequenceItem list \<Rightarrow> SearchSequenceItem list" where
  "add_explicit server sequence =
     (case filter (\<lambda>i. sq_typ (sequence ! i) = Explicit) [0..<length sequence] of
        [] \<Rightarrow> sequence @ [(seq_item Explicit)\<lparr>sq_servers := [server]\<rparr>]
      | is \<Rightarrow> sequence[last is := (sequence ! last is)\<lparr>sq_servers := sq_servers (sequence ! last is) @ [server]\<rparr>])"

definition repeats :: "SearchSequenceItemType \<Rightarrow> SearchSequenceItem list \<Rightarrow> bool" where
  "repeats t sequence = (length sequence > 0 \<and> sq_typ (last sequence) = t)"

definition forward_server ::
  "string list \<Rightarrow> nat \<Rightarrow> string \<Rightarrow> bool \<times> SearchSequenceItem list \<Rightarrow> forward_error + bool \<times> SearchSequenceItem list" where
  "forward_server bootstrapResolvers lineNo server0 st =
     (let server = TrimSpaceA server0; (requiresDHCP, sequence) = st in
      if server = ''$BOOTSTRAP'' then
        (if length bootstrapResolvers = 0 then Inl (NoBootstrap (1 + lineNo))
         else if repeats Bootstrap sequence then Inr st
         else Inr (requiresDHCP, sequence @ [seq_item Bootstrap]))
      else if server = ''$DHCP'' then
        Inr (True, if repeats DHCP sequence then sequence else sequence @ [seq_item DHCP])
      else if has_prefix server ''$RESOLVCONF:'' then
        (let file = drop 12 server in
         if length file = 0 then Inr st
         else Inr (requiresDHCP, sequence @ [(seq_item Resolvconf)\<lparr>sq_resolvconf := filepath_Clean file\<rparr>]))
      else if has_prefix server ''$'' then Inr st
      else
        (case normalizeIPAndOptionalPort server ''53'' of
           Inl _ \<Rightarrow> Inr st
         | Inr srv \<Rightarrow> Inr (requiresDHCP, add_explicit srv sequence)))"

fun forward_servers ::
  "string list \<Rightarrow> nat \<Rightarrow> string list \<Rightarrow> bool \<times> SearchSequenceItem list \<Rightarrow> forward_error + bool \<times> SearchSequenceItem list" where
  "forward_servers b lineNo [] st = Inr st"
| "forward_servers b lineNo (x # xs) st =
     (case forward_server b lineNo x st of Inl e \<Rightarrow> Inl e | Inr st' \<Rightarrow> forward_servers b lineNo xs st')"

fun parse_forward_lines ::
  "string list \<Rightarrow> nat \<Rightarrow> string list \<Rightarrow> bool \<times> PluginForwardEntry list \<Rightarrow> forward_error + bool \<times> PluginForwardEntry list" where
  "parse_forward_lines b lineNo [] acc = Inr acc"
| "parse_forward_lines b lineNo (l # ls) acc =
     (let line = TrimAndStripInlineComments l in
      if length line = 0 then parse_forward_lines b (lineNo + 1) ls acc
      else
        (case StringTwoFields line of
           (domain, serversStr, ok) \<Rightarrow>
             let domain = trim_prefix domain ''*.'' in
             if contains domain ''*'' \<or> \<not> ok then Inl (ForwardSyntax (1 + lineNo))
             else
               (case forward_servers b lineNo (split_char (CHR '','') serversStr) (fst acc, []) of
                  Inl e \<Rightarrow> Inl e
                | Inr (requiresDHCP, sequence) \<Rightarrow>
                    parse_forward_lines b (lineNo + 1) ls
                      (requiresDHCP, snd acc @ [\<lparr>fe_domain = ToLower domain, fe_sequence = sequence\<rparr>]))))"

definition parseForwardFile :: "string list \<Rightarrow> string \<Rightarrow> forward_error + bool \<times> PluginForwardEntry list" where
  "parseForwardFile b lines = parse_forward_lines b 0 (split_char (CHR 0x0A) lines) (False, [])"

section \<open>Choosing a server\<close>

record dhcp_status =
  ds_err :: bool
  ds_ip :: string
  ds_inconsistency :: nat
  ds_dns :: "net_IP list"

text \<open>\<open>fw_draw i n\<close> is the draw below \<open>n\<close> made for item \<open>i\<close>; \<open>fw_exchange i\<close> the exchanges made for it.\<close>

record forward_env =
  fw_bootstrap :: "string list"
  fw_dhcp :: "dhcp_status list"
  fw_files :: "string \<rightharpoonup> string"
  fw_now :: int
  fw_draw :: "nat \<Rightarrow> nat \<Rightarrow> nat"
  fw_exchange :: "nat \<Rightarrow> string \<Rightarrow> string \<Rightarrow> Msg \<Rightarrow> Msg option \<times> msg_error option"

fun split_fields :: "string \<Rightarrow> string \<Rightarrow> string list" where
  "split_fields w [] = (if w = [] then [] else [rev w])"
| "split_fields w (c # s) =
     (if IsSpace c then (if w = [] then split_fields [] s else rev w # split_fields [] s) else split_fields (c # w) s)"

definition resolv_line :: "string \<Rightarrow> string option" where
  "resolv_line l =
     (let line = TrimSpaceA l in
      if \<not> has_prefix line ''nameserver'' then None
      else
        (case split_fields [] line of
           _ # addr # _ \<Rightarrow>
             let host = (case SplitHostPort addr of Some (h, _) \<Rightarrow> h | None \<Rightarrow> addr) in
             if ParseIP host = None then None else Some addr
         | _ \<Rightarrow> None))"

definition parseResolvConf :: "(string \<rightharpoonup> string) \<Rightarrow> string \<Rightarrow> string list option" where
  "parseResolvConf files filename =
     map_option (\<lambda>data. List.map_filter resolv_line (split_char (CHR 0x0A) data)) (files filename)"

definition maxInconsistency :: nat where
  "maxInconsistency = 9"

fun dhcp_server :: "(nat \<Rightarrow> nat) \<Rightarrow> dhcp_status list \<Rightarrow> string" where
  "dhcp_server draw [] = []"
| "dhcp_server draw (d # ds) =
     (if ds_err d \<and> ds_ip d \<noteq> [] \<and> ds_inconsistency d > maxInconsistency then dhcp_server draw ds
      else if length (ds_dns d) > 0 then JoinHostPort (IP_String (ds_dns d ! draw (length (ds_dns d)))) ''53''
      else dhcp_server draw ds)"

definition resolvconfRetryInterval :: int where
  "resolvconfRetryInterval = 30"

text \<open>The server of an item, \<open>None\<close> when the loop goes on to the next one, and the item afterwards.\<close>

definition item_server :: "forward_env \<Rightarrow> nat \<Rightarrow> SearchSequenceItem \<Rightarrow> string option \<times> SearchSequenceItem" where
  "item_server E i item =
     (let pick = (\<lambda>xs. xs ! fw_draw E i (length xs)) in
      case sq_typ item of
        Explicit \<Rightarrow> (Some (pick (sq_servers item)), item)
      | Bootstrap \<Rightarrow> (Some (pick (fw_bootstrap E)), item)
      | DHCP \<Rightarrow> (let server = dhcp_server (fw_draw E i) (fw_dhcp E) in (if length server = 0 then None else Some server, item))
      | Resolvconf \<Rightarrow>
          if sq_rcLastFail item \<noteq> 0 \<and> fw_now E - sq_rcLastFail item < resolvconfRetryInterval then (None, item)
          else
            (case parseResolvConf (fw_files E) (sq_resolvconf item) of
               None \<Rightarrow> (None, item\<lparr>sq_rcLastFail := fw_now E\<rparr>)
             | Some servers \<Rightarrow>
                 if length servers = 0 then (None, item\<lparr>sq_rcLastFail := fw_now E\<rparr>)
                 else
                   (case normalizeIPAndOptionalPort (pick servers) ''53'' of
                      Inl _ \<Rightarrow> (None, item\<lparr>sq_rcLastFail := 0\<rparr>)
                    | Inr server \<Rightarrow> (Some server, item\<lparr>sq_rcLastFail := 0\<rparr>))))"

section \<open>Asking it\<close>

text \<open>One attempt: the answer, over TCP when the first one is truncated, and the error it leaves.\<close>

definition forward_attempt ::
  "forward_env \<Rightarrow> nat \<Rightarrow> string \<Rightarrow> string \<Rightarrow> Msg \<Rightarrow> Msg option \<times> msg_error option" where
  "forward_attempt E i proto server forwardMsg =
     (case fw_exchange E i proto server forwardMsg of
        (resp, err) \<Rightarrow>
          (case resp of
             Some r \<Rightarrow>
               if msg_Truncated r then
                 (case fw_exchange E i ''tcp'' server forwardMsg of
                    (resp2, Some e) \<Rightarrow> (None, Some e)
                  | (resp2, None) \<Rightarrow> (resp2, None))
               else if err \<noteq> None then (None, err)
               else (Some r, None)
           | None \<Rightarrow> (None, err)))"

definition accept_forwarded :: "Msg \<Rightarrow> Msg \<Rightarrow> PluginsState \<Rightarrow> PluginsState" where
  "accept_forwarded msg respMsg s =
     (let r = (if \<not> msg_Security respMsg then respMsg\<lparr>msg_AuthenticatedData := False\<rparr> else respMsg);
          r = r\<lparr>msg_ID := msg_ID msg\<rparr> in
      synth_with r PluginsReturnCodeForward s)"

definition try_next :: "u16 \<Rightarrow> bool" where
  "try_next rcode = (rcode = RcodeNameError \<or> rcode = RcodeRefused \<or> rcode = RcodeNotAuth)"

text \<open>The loop over the items that are left; the result keeps the items already passed.\<close>

fun forward_loop ::
  "dns_package \<Rightarrow> forward_env \<Rightarrow> Msg \<Rightarrow> nat \<Rightarrow> SearchSequenceItem list \<Rightarrow> nat \<Rightarrow> msg_error option \<Rightarrow> PluginsState \<Rightarrow>
   msg_error option \<times> PluginsState \<times> SearchSequenceItem list" where
  "forward_loop D E msg i [] tries err s = (err, s, [])"
| "forward_loop D E msg i (item # items) tries err s =
     (case item_server E i item of
        (None, item') \<Rightarrow>
          (case forward_loop D E msg (i + 1) items tries err s of (e, s', its) \<Rightarrow> (e, s', item' # its))
      | (Some server, item') \<Rightarrow>
          let s = s\<lparr>serverName := server\<rparr> in
          if length server = 0 then
            (case forward_loop D E msg (i + 1) items tries err s of (e, s', its) \<Rightarrow> (e, s', item' # its))
          else if tries = 0 then (err, s, item' # items)
          else
            let forwardMsg = msg\<lparr>msg_Extra := []\<rparr> in
            (case forward_attempt E i (serverProto s) server forwardMsg of
               (resp, Some e) \<Rightarrow>
                 (case forward_loop D E msg (i + 1) items (tries - 1) (Some e) s of (e, s', its) \<Rightarrow> (e, s', item' # its))
             | (resp, None) \<Rightarrow>
                 if validateResponseQuestion D (Some forwardMsg) resp \<noteq> None then
                   (case forward_loop D E msg (i + 1) items (tries - 1) None s of (e, s', its) \<Rightarrow> (e, s', item' # its))
                 else
                   let s = accept_forwarded msg (the resp) s in
                   if try_next (msg_Rcode (the resp)) then
                     (case forward_loop D E msg (i + 1) items (tries - 1) None s of (e, s', its) \<Rightarrow> (e, s', item' # its))
                   else (None, s, item' # items)))"

text \<open>The first rule whose domain the name belongs to.\<close>

definition rule_covers :: "string \<Rightarrow> string \<Rightarrow> bool" where
  "rule_covers domain name =
     (length domain \<le> length name \<and>
      (drop (length name - length domain) name = domain \<and>
         (length domain = length name \<or> name ! (length name - length domain - 1) = CHR ''.'') \<or> domain = ''.''))"

fun find_rule :: "string \<Rightarrow> PluginForwardEntry list \<Rightarrow> nat option" where
  "find_rule name [] = None"
| "find_rule name (e # es) = (if rule_covers (fe_domain e) name then Some 0 else map_option Suc (find_rule name es))"

definition PluginForward_Eval :: "dns_package \<Rightarrow> forward_env \<Rightarrow> PluginForwardEntry list plugin" where
  "PluginForward_Eval D E w s msg =
     (case find_rule (qName s) w of
        None \<Rightarrow> (None, s, msg, w)
      | Some j \<Rightarrow>
          let sequence = fe_sequence (w ! j) in
          if length sequence = 0 then (None, s, msg, w)
          else
            (case forward_loop D E msg 0 sequence 4 None s of
               (err, s', sequence') \<Rightarrow> (err, s', msg, w[j := (w ! j)\<lparr>fe_sequence := sequence'\<rparr>])))"

section \<open>What an evaluation gives\<close>

text \<open>The outcome of one attempt, read off the message it brings back.\<close>

datatype forward_outcome =
    is_Failed: Failed (failure_of: msg_error)
  | is_Unrelated: Unrelated
  | is_Tentative: Tentative (answer_of: Msg)
  | is_Final: Final (answer_of: Msg)

definition outcome_of :: "dns_package \<Rightarrow> forward_env \<Rightarrow> string \<Rightarrow> Msg \<Rightarrow> nat \<times> string \<Rightarrow> forward_outcome" where
  "outcome_of D E proto msg = (\<lambda>(i, server).
     case forward_attempt E i proto server (msg\<lparr>msg_Extra := []\<rparr>) of
       (_, Some e) \<Rightarrow> Failed e
     | (resp, None) \<Rightarrow>
         if validateResponseQuestion D (Some (msg\<lparr>msg_Extra := []\<rparr>)) resp \<noteq> None then Unrelated
         else if try_next (msg_Rcode (the resp)) then Tentative (the resp) else Final (the resp))"

text \<open>The servers the items give, in order; items without one are passed over.\<close>

fun usable_servers :: "forward_env \<Rightarrow> nat \<Rightarrow> SearchSequenceItem list \<Rightarrow> (nat \<times> string) list" where
  "usable_servers E i [] = []"
| "usable_servers E i (item # items) =
     (case fst (item_server E i item) of
        Some (c # cs) \<Rightarrow> [(i, c # cs)]
      | _ \<Rightarrow> []) @ usable_servers E (i + 1) items"

definition outcomes :: "dns_package \<Rightarrow> forward_env \<Rightarrow> string \<Rightarrow> Msg \<Rightarrow> nat \<Rightarrow> SearchSequenceItem list \<Rightarrow> nat \<Rightarrow> forward_outcome list" where
  "outcomes D E proto msg i items tries = map (outcome_of D E proto msg) (take tries (usable_servers E i items))"

fun conclude :: "forward_outcome list \<Rightarrow> msg_error option \<times> Msg option \<Rightarrow> msg_error option \<times> Msg option" where
  "conclude [] er = er"
| "conclude (Failed e # os) er = conclude os (Some e, snd er)"
| "conclude (Unrelated # os) er = conclude os (None, snd er)"
| "conclude (Tentative m # os) er = conclude os (None, Some m)"
| "conclude (Final m # os) er = (None, Some m)"

definition leaves :: "Msg \<Rightarrow> PluginsState \<Rightarrow> PluginsState \<Rightarrow> Msg option \<Rightarrow> bool" where
  "leaves msg s s' r \<longleftrightarrow>
     (case r of
        None \<Rightarrow> action s' = action s \<and> synthResponse s' = synthResponse s \<and> returnCode s' = returnCode s
      | Some m \<Rightarrow> (action s', synthResponse s', returnCode s') =
          (let t = accept_forwarded msg m s in (action t, synthResponse t, returnCode t)))"

lemma leaves_serverName [simp]: "leaves msg (s\<lparr>serverName := x\<rparr>) s' r = leaves msg s s' r"
  by (simp add: leaves_def accept_forwarded_def synth_with_def Let_def split: option.splits)

lemma leaves_accept:
  "leaves msg (accept_forwarded msg m s) s' r \<Longrightarrow> leaves msg s s' (case r of None \<Rightarrow> Some m | Some x \<Rightarrow> Some x)"
  by (auto simp: leaves_def accept_forwarded_def synth_with_def Let_def split: option.splits)

lemma accept_serverProto [simp]: "serverProto (accept_forwarded msg m s) = serverProto s"
  by (simp add: accept_forwarded_def synth_with_def Let_def)

lemma conclude_snd:
  "conclude os (err, Some m) = (case conclude os (err, None) of (e, r) \<Rightarrow> (e, case r of None \<Rightarrow> Some m | Some x \<Rightarrow> Some x))"
proof (induction os "(err, Some m)" arbitrary: err m rule: conclude.induct)
  case (4 m os er)
  then show ?case by (auto split: prod.splits option.splits)
qed (auto split: prod.splits option.splits)

lemma outcomes_skip:
  "usable_servers E i (item # items) = usable_servers E (i + 1) items \<Longrightarrow>
   outcomes D E p msg i (item # items) tries = outcomes D E p msg (i + 1) items tries"
  by (simp add: outcomes_def)

lemma outcomes_try:
  "fst (item_server E i item) = Some server \<Longrightarrow> server \<noteq> [] \<Longrightarrow>
   outcomes D E p msg i (item # items) (Suc n) = outcome_of D E p msg (i, server) # outcomes D E p msg (i + 1) items n"
  by (cases server) (simp_all add: outcomes_def)

lemma outcomes_0 [simp]: "outcomes D E p msg i items 0 = []"
  by (simp add: outcomes_def)

text \<open>The loop is the fold of the outcomes of the servers it tries.\<close>

lemma forward_loop_outcomes:
  "forward_loop D E msg i items tries err s = (e, s', its) \<Longrightarrow>
   e = fst (conclude (outcomes D E (serverProto s) msg i items tries) (err, None)) \<and>
   leaves msg s s' (snd (conclude (outcomes D E (serverProto s) msg i items tries) (err, None)))"
proof (induction items arbitrary: i tries err s e s' its)
  case Nil
  then show ?case by (simp add: outcomes_def leaves_def)
next
  case (Cons item items)
  obtain sv item' where sv: "item_server E i item = (sv, item')" by fastforce
  consider "sv = None" | "sv = Some []" | server where "sv = Some server" "server \<noteq> []" by (cases sv) auto
  then show ?case
  proof cases
    case 1
    then have "outcomes D E (serverProto s) msg i (item # items) tries = outcomes D E (serverProto s) msg (i + 1) items tries"
      using sv by (intro outcomes_skip) simp
    then show ?thesis using Cons.prems 1 sv Cons.IH [of "i + 1" tries err s]
      by (simp split: prod.splits)
  next
    case 2
    then have "outcomes D E (serverProto s) msg i (item # items) tries = outcomes D E (serverProto s) msg (i + 1) items tries"
      using sv by (intro outcomes_skip) simp
    then show ?thesis using Cons.prems 2 sv Cons.IH [of "i + 1" tries err "s\<lparr>serverName := []\<rparr>"]
      by (simp add: Let_def split: prod.splits)
  next
    case 3
    show ?thesis
    proof (cases tries)
      case 0
      then show ?thesis using Cons.prems 3 sv by (auto simp: leaves_def)
    next
      case (Suc n)
      let ?s = "s\<lparr>serverName := server\<rparr>"
      let ?r = "forward_attempt E i (serverProto s) server (msg\<lparr>msg_Extra := []\<rparr>)"
      have out: "outcomes D E (serverProto s) msg i (item # items) (Suc n) =
          outcome_of D E (serverProto s) msg (i, server) # outcomes D E (serverProto s) msg (i + 1) items n"
        using 3 sv by (simp add: outcomes_try)
      obtain resp er where r: "?r = (resp, er)" by fastforce
      show ?thesis
      proof (cases er)
        case (Some x)
        then show ?thesis using Cons.prems 3 sv Suc r Cons.IH [of "i + 1" n "Some x" ?s]
          by (simp add: out outcome_of_def Let_def split: prod.splits)
      next
        case None
        show ?thesis
        proof (cases "validateResponseQuestion D (Some (msg\<lparr>msg_Extra := []\<rparr>)) resp = None")
          case False
          then show ?thesis using Cons.prems 3 sv Suc r None Cons.IH [of "i + 1" n None ?s]
            by (simp add: out outcome_of_def Let_def split: prod.splits)
        next
          case True
          show ?thesis
          proof (cases "try_next (msg_Rcode (the resp))")
            case nxt: True
            then show ?thesis
              using Cons.prems 3 sv Suc r None True leaves_accept [of msg "the resp" ?s]
                Cons.IH [of "i + 1" n None "accept_forwarded msg (the resp) ?s"]
              by (auto simp: out outcome_of_def Let_def conclude_snd split: prod.splits)
          next
            case False
            then show ?thesis using Cons.prems 3 sv Suc r None True
              by (auto simp: out outcome_of_def Let_def leaves_def accept_forwarded_def synth_with_def)
          qed
        qed
      qed
    qed
  qed
qed

lemma conclude_final: "find is_Final os = Some x \<Longrightarrow> conclude os er = (None, Some (answer_of x))"
  by (induction os er rule: conclude.induct) auto

definition last_tentative :: "forward_outcome list \<Rightarrow> Msg option" where
  "last_tentative os = (let ts = filter is_Tentative os in if ts = [] then None else Some (answer_of (last ts)))"

definition last_failure :: "forward_outcome list \<Rightarrow> msg_error option" where
  "last_failure os = (if os \<noteq> [] \<and> is_Failed (last os) then Some (failure_of (last os)) else None)"

lemma last_tentative_Cons:
  "last_tentative (x # os) =
     (case last_tentative os of Some m \<Rightarrow> Some m | None \<Rightarrow> if is_Tentative x then Some (answer_of x) else None)"
  by (simp add: last_tentative_def Let_def)

lemma conclude_no_final:
  "find is_Final os = None \<Longrightarrow>
   conclude os (err, None) = (if os = [] then err else last_failure os, last_tentative os)"
proof (induction os arbitrary: err)
  case Nil
  then show ?case by (simp add: last_tentative_def)
next
  case (Cons x os)
  then show ?case
    by (cases x) (auto simp: last_failure_def last_tentative_Cons conclude_snd split: option.splits if_splits)
qed

lemma rule_covers_iff:
  "rule_covers d n \<longleftrightarrow> (d = n \<or> (\<exists>p. n = p @ CHR ''.'' # d)) \<or> d = ''.'' \<and> n \<noteq> []" (is "?l \<longleftrightarrow> ?r")
proof
  assume ?l
  then consider "d = drop (length n - length d) n" "length d < length n" "n ! (length n - length d - 1) = CHR ''.''"
    | "d = drop (length n - length d) n" "length d = length n" | "d = ''.''" "n \<noteq> []"
    unfolding rule_covers_def by (metis le_neq_implies_less length_greater_0_conv length_Cons zero_less_Suc order.strict_trans2)
  then show ?r
  proof cases
    case 1
    let ?i = "length n - length d - 1"
    have "n = take ?i n @ n ! ?i # drop (Suc ?i) n" using 1 by (intro id_take_nth_drop) linarith
    moreover have "Suc ?i = length n - length d" using 1 by linarith
    ultimately have "n = take ?i n @ CHR ''.'' # d" using 1 by metis
    then show ?thesis by blast
  next
    case 2
    then show ?thesis by simp
  qed auto
next
  assume ?r
  then show ?l by (auto simp: rule_covers_def Suc_le_eq nth_append)
qed

lemma find_rule_Some:
  "find_rule n es = Some j \<longleftrightarrow>
   j < length es \<and> rule_covers (fe_domain (es ! j)) n \<and> (\<forall>k<j. \<not> rule_covers (fe_domain (es ! k)) n)"
proof (induction es arbitrary: j)
  case (Cons e es)
  show ?case by (cases j) (auto simp: Cons less_Suc_eq_0_disj)
qed simp

lemma find_rule_None: "find_rule n es = None \<longleftrightarrow> (\<forall>e\<in>set es. \<not> rule_covers (fe_domain e) n)"
  by (induction es) auto

lemma outcome_answers:
  "outcome_of D E p msg x \<in> {Tentative m, Final m} \<Longrightarrow>
   validateResponseQuestion D (Some (msg\<lparr>msg_Extra := []\<rparr>)) (Some m) = None"
  by (cases x)
    (auto simp: outcome_of_def validateResponseQuestion_def split: prod.splits option.splits if_splits list.splits)

lemma PluginForward_Eval_outcomes:
  assumes "find_rule (qName s) w = Some j" "PluginForward_Eval D E w s msg = (err, s', msg', w')"
  shows "msg' = msg \<and> err = fst (conclude (outcomes D E (serverProto s) msg 0 (fe_sequence (w ! j)) 4) (None, None)) \<and>
    leaves msg s s' (snd (conclude (outcomes D E (serverProto s) msg 0 (fe_sequence (w ! j)) 4) (None, None)))"
proof (cases "fe_sequence (w ! j) = []")
  case True
  then show ?thesis using assms by (auto simp: PluginForward_Eval_def outcomes_def leaves_def)
next
  case False
  then show ?thesis
    using assms forward_loop_outcomes [of D E msg 0 "fe_sequence (w ! j)" 4 None s]
    by (auto simp: PluginForward_Eval_def Let_def split: prod.splits)
qed

lemma leaves_Some:
  "leaves msg s s' (Some m) \<Longrightarrow>
   action s' = PluginsActionSynth \<and> synthResponse s' = synthResponse (accept_forwarded msg m s)"
  by (simp add: leaves_def Let_def accept_forwarded_def synth_with_def)

lemma leaves_None: "leaves msg s s' None \<Longrightarrow> action s' = action s \<and> synthResponse s' = synthResponse s"
  by (simp add: leaves_def)

lemma accept_answers:
  "validateResponseQuestion D q (Some m) = None \<Longrightarrow>
   \<exists>r. synthResponse (accept_forwarded msg m s) = Some r \<and> msg_ID r = msg_ID msg \<and> validateResponseQuestion D q (Some r) = None"
  by (auto simp: accept_forwarded_def synth_with_def Let_def validateResponseQuestion_def split: option.splits)

text \<open>The forwarding plugin answers by the first rule whose domain is a parent of the name (or the root). It asks the servers of
  that rule in order, at most four of them: the first answer to the question that is not a refusal or a missing name
  is the result; without one, the last such negative answer is, together with the error of the last attempt. Whatever is
  answered has the identifier and the question of the query.
\<close>

theorem forward_follows_sequence:
  assumes "PluginForward_Eval D E w s msg = (err, s', msg', w')" "j < length w"
    and "rule_covers (fe_domain (w ! j)) (qName s)" "\<And>k. k < j \<Longrightarrow> \<not> rule_covers (fe_domain (w ! k)) (qName s)"
  defines "os \<equiv> outcomes D E (serverProto s) msg 0 (fe_sequence (w ! j)) 4"
  shows "(case find is_Final os of
      Some x \<Rightarrow> err = None \<and> synthResponse s' = synthResponse (accept_forwarded msg (answer_of x) s) \<and> action s' = PluginsActionSynth
    | None \<Rightarrow> err = last_failure os \<and>
        (case last_tentative os of
           Some m \<Rightarrow> synthResponse s' = synthResponse (accept_forwarded msg m s) \<and> action s' = PluginsActionSynth
         | None \<Rightarrow> synthResponse s' = synthResponse s \<and> action s' = action s)) \<and>
    (action s \<noteq> PluginsActionSynth \<and> action s' = PluginsActionSynth \<longrightarrow>
     (\<exists>r. synthResponse s' = Some r \<and> msg_ID r = msg_ID msg \<and>
          validateResponseQuestion D (Some (msg\<lparr>msg_Extra := []\<rparr>)) (Some r) = None))"
proof -
  have rule: "find_rule (qName s) w = Some j" using assms(2-4) by (simp add: find_rule_Some)
  note L = PluginForward_Eval_outcomes [OF rule assms(1), folded os_def]
  have valid: "validateResponseQuestion D (Some (msg\<lparr>msg_Extra := []\<rparr>)) (Some m) = None"
    if m: "Tentative m \<in> set os \<or> Final m \<in> set os" for m
  proof -
    obtain x where "outcome_of D E (serverProto s) msg x \<in> {Tentative m, Final m}"
      using m by (auto simp: os_def outcomes_def) metis+
    then show ?thesis by (rule outcome_answers)
  qed
  show ?thesis
  proof (cases "find is_Final os")
    case None
    have "Tentative m \<in> set os" if "last_tentative os = Some m" for m
      using that last_in_set [of "filter is_Tentative os"]
      by (auto simp: last_tentative_def Let_def is_Tentative_def split: if_splits)
    then show ?thesis using L None valid accept_answers [of D "Some (msg\<lparr>msg_Extra := []\<rparr>)" _ msg s]
      by (cases "last_tentative os") (auto simp: conclude_no_final last_failure_def dest: leaves_Some leaves_None)
  next
    case (Some x)
    have "Final (answer_of x) \<in> set os" using Some by (auto simp: find_Some_iff is_Final_def dest: nth_mem)
    then show ?thesis using L Some valid accept_answers [of D "Some (msg\<lparr>msg_Extra := []\<rparr>)" _ msg s]
      by (auto simp: conclude_final dest: leaves_Some)
  qed
qed

definition office_rules :: "PluginForwardEntry list" where
  "office_rules = (case parseForwardFile [''9.9.9.11:53''] (''internal.example 192.168.1.1, $BOOTSTRAP'' @ [CHR 0x0A] @ ''*.example 9.9.9.9'') of
     Inr (_, rules) \<Rightarrow> rules | Inl _ \<Rightarrow> [])"

definition office_query :: Msg where
  "office_query = sample_query\<lparr>msg_Question := [(hd (msg_Question sample_query))\<lparr>rr_Name := ''db.internal.example.''\<rparr>]\<rparr>"

definition office_env :: forward_env where
  "office_env = \<lparr>fw_bootstrap = [''9.9.9.11:53''], fw_dhcp = [], fw_files = Map.empty, fw_now = 100, fw_draw = (\<lambda>i n. 0),
     fw_exchange = (\<lambda>i proto server m.
       (Some (m\<lparr>msg_ID := 77, msg_Response := True, msg_Rcode := (if i = 0 then RcodeNameError else 0)\<rparr>), None))\<rparr>"

definition office_state :: PluginsState where
  "office_state = (NewPluginsState sample_ttls ''udp'' None ''udp'')\<lparr>qName := ''db.internal.example'', questionMsg := Some office_query\<rparr>"

lemma office_rules_eq:
  "map fe_domain office_rules = [''internal.example'', ''example'']"
  "map sq_typ (fe_sequence (office_rules ! 0)) = [Explicit, Bootstrap]"
  "sq_servers (fe_sequence (office_rules ! 0) ! 0) = [''192.168.1.1:53'']"
  by code_simp+


lemma office_outcomes:
  "map is_Final (outcomes sample_package office_env ''udp'' office_query 0 (fe_sequence (office_rules ! 0)) 4) = [False, True]"
  by code_simp

theorem forward_follows_sequence_witness:
  "case PluginForward_Eval sample_package office_env office_rules office_state office_query of
     (err, s', msg', w') \<Rightarrow> err = None \<and> action s' = PluginsActionSynth \<and> (\<exists>r. synthResponse s' = Some r \<and> msg_ID r = 7)"
proof -
  obtain err s' msg' w' where
    r: "PluginForward_Eval sample_package office_env office_rules office_state office_query = (err, s', msg', w')"
    by (metis prod_cases4)
  have j: "0 < length office_rules" "rule_covers (fe_domain (office_rules ! 0)) (qName office_state)"
    "serverProto office_state = ''udp''" "action office_state \<noteq> PluginsActionSynth" "msg_ID office_query = 7"
    by code_simp+
  obtain x where "find is_Final (outcomes sample_package office_env ''udp'' office_query 0 (fe_sequence (office_rules ! 0)) 4) = Some x"
    using office_outcomes by (cases "find is_Final (outcomes sample_package office_env ''udp'' office_query 0 (fe_sequence (office_rules ! 0)) 4)")
      (auto simp: find_None_iff Cons_eq_map_conv)
  then show ?thesis using forward_follows_sequence [OF r j(1,2)] r j(3-5)
    by (auto split: prod.splits intro: sym)
qed

text \<open>
  A rule none of whose servers can be used, or whose servers answer another question, leaves the query to the configured
  resolvers: no error, and the action is the one before.
\<close>

lemma unusable_rule_falls_through:
  assumes "PluginForward_Eval D E w s msg = (err, s', msg', w')" "find_rule (qName s) w = Some j"
    and "list_all is_Unrelated (outcomes D E (serverProto s) msg 0 (fe_sequence (w ! j)) 4)"
  shows "err = None \<and> action s' = action s \<and> synthResponse s' = synthResponse s"
proof -
  have "conclude os (None, None) = (None, None)" if "list_all is_Unrelated os" for os
    using that by (induction os) (auto simp: is_Unrelated_def)
  then show ?thesis using PluginForward_Eval_outcomes [OF assms(2,1)] assms(3) leaves_None by auto
qed

text \<open>
  A negative answer is lost when the next server cannot be reached: the evaluation reports the failure of that server.
\<close>

lemma negative_answer_lost:
  assumes "PluginForward_Eval D E w s msg = (err, s', msg', w')" "find_rule (qName s) w = Some j"
    and "outcomes D E (serverProto s) msg 0 (fe_sequence (w ! j)) 4 = [Tentative m, Failed e]"
  shows "err = Some e \<and> action s' = PluginsActionSynth \<and> synthResponse s' = synthResponse (accept_forwarded msg m s)"
  using PluginForward_Eval_outcomes [OF assms(2,1)] assms(3) leaves_Some by auto

section \<open>The query stays in view\<close>

lemma forward_loop_question: "questionMsg (fst (snd (forward_loop D E msg i items tries err s))) = questionMsg s"
proof (induction items arbitrary: i tries err s)
  case (Cons item items)
  have rest: "questionMsg (fst (snd (case forward_loop D E msg j items t e u of (e, s', its) \<Rightarrow> (e, s', item' # its)))) = questionMsg u"
    for j t e u item'
    using Cons.IH [of j t e u] by (cases "forward_loop D E msg j items t e u") simp
  obtain server item' where v: "item_server E i item = (server, item')" by fastforce
  show ?case
  proof (cases server)
    case (Some a)
    obtain resp e where f: "forward_attempt E i (serverProto s) a (msg\<lparr>msg_Extra := []\<rparr>) = (resp, e)" by fastforce
    then show ?thesis
      using v Some by (cases e) (simp_all add: Let_def rest accept_forwarded_def synth_with_def)
  qed (simp add: v rest)
qed simp

lemma forward_keeps_query: "keeps_query (PluginForward_Eval D E)"
proof (rule keeps_queryI)
  fix w s m e s' m' w'
  assume r: "PluginForward_Eval D E w s m = (e, s', m', w')"
  have "questionMsg t = questionMsg s" if "forward_loop D E m 0 its 4 None s = (x, t, its')" for its x t its'
    using forward_loop_question [of D E m 0 its 4 None s] that by simp
  with r show "msg_ID m' = msg_ID m \<and> msg_Question m' = msg_Question m \<and> questionMsg s' = questionMsg s"
    by (auto simp: PluginForward_Eval_def Let_def split: option.splits prod.splits if_splits)
qed

end
