(* ===== verification/Dc_Cloak.thy ===== *)
theory Dc_Cloak
  imports Dc_Plugins
begin

text \<open>
  \<open>pkg/dnscrypt/plugin_cloak.go\<close>: names answered with configured addresses or with the addresses of another name. The
  rules are Go objects shared between a map and the pattern matcher; here the matcher stores the key of the map
  and the map is the store. The order in which Go visits a map, the resolver and the shuffling of answers are
  arguments.
\<close>

section \<open>Rules\<close>

record CloakedName =
  cn_target :: string
  cn_ipv4 :: "net_IP list"
  cn_ipv6 :: "net_IP list"
  cn_lastUpdate4 :: "int option"
  cn_lastUpdate6 :: "int option"
  cn_lineNo :: nat
  cn_isIP :: bool
  cn_PTR :: "string list"

definition empty_CloakedName :: CloakedName where
  "empty_CloakedName =
     \<lparr>cn_target = [], cn_ipv4 = [], cn_ipv6 = [], cn_lastUpdate4 = None, cn_lastUpdate6 = None, cn_lineNo = 0, cn_isIP = False, cn_PTR = []\<rparr>"

definition followsTarget :: "CloakedName \<Rightarrow> bool" where
  "followsTarget n = (\<not> cn_isIP n \<and> cn_target n \<noteq> [])"

type_synonym cloak_names = "string \<rightharpoonup> CloakedName"

definition name_or_new :: "cloak_names \<Rightarrow> string \<Rightarrow> CloakedName" where
  "name_or_new names line = (case names line of None \<Rightarrow> empty_CloakedName | Some n \<Rightarrow> n)"

text \<open>\<open>strings.FieldsFunc(line, unicode.IsSpace)\<close>.\<close>

function fields :: "string \<Rightarrow> string list" where
  "fields s =
     (let t = dropWhile IsSpace s in
      if t = [] then [] else takeWhile (\<lambda>c. \<not> IsSpace c) t # fields (dropWhile (\<lambda>c. \<not> IsSpace c) t))"
  by pat_completeness auto
termination
proof (relation "measure length")
  fix s t assume t: "t = dropWhile IsSpace s" "t \<noteq> []"
  have "\<not> IsSpace (hd t)" using t hd_dropWhile [of IsSpace s] by simp
  then have "length (dropWhile (\<lambda>c. \<not> IsSpace c) t) < length t"
    using t(2) by (cases t) (simp_all add: length_dropWhile_le less_Suc_eq_le)
  also have "\<dots> \<le> length s" using t(1) length_dropWhile_le by simp
  finally show "(dropWhile (\<lambda>c. \<not> IsSpace c) t, s) \<in> measure length" by simp
qed simp

declare fields.simps [simp del]

definition ptrEntryToQuery :: "string \<Rightarrow> string" where
  "ptrEntryToQuery ptrEntry = ''='' @ ptrEntry"

definition ptrNameToFQDN :: "string \<Rightarrow> string" where
  "ptrNameToFQDN ptrLine = trim_prefix ptrLine ''='' @ ''.''"

text \<open>The reverse-lookup rule that goes with an address rule.\<close>

definition add_ptr :: "string \<Rightarrow> nat \<Rightarrow> string \<Rightarrow> cloak_names \<Rightarrow> cloak_names" where
  "add_ptr reversed lineNo line names =
     (let ptrLine = trim_suffix reversed ''.''; key = ptrEntryToQuery ptrLine; n = name_or_new names key in
      names(key \<mapsto> n\<lparr>cn_isIP := True, cn_PTR := cn_PTR n @ [ptrNameToFQDN line], cn_lineNo := lineNo + 1\<rparr>))"

definition cloak_rule :: "bool \<Rightarrow> nat \<Rightarrow> string \<Rightarrow> string \<Rightarrow> cloak_names \<Rightarrow> (rule_error, cloak_names) outcome" where
  "cloak_rule createPTR lineNo line0 target names =
     (let line = ToLower line0; n = name_or_new names line; ip = ParseIP target;
          n = (case ip of
                 Some a \<Rightarrow>
                   (case To4 a of
                      Some v4 \<Rightarrow> n\<lparr>cn_ipv4 := cn_ipv4 n @ [v4], cn_isIP := True\<rparr>
                    | None \<Rightarrow> n\<lparr>cn_ipv6 := cn_ipv6 n @ [a], cn_isIP := True\<rparr>)
               | None \<Rightarrow> n\<lparr>cn_target := ToLower target\<rparr>);
          n = n\<lparr>cn_lineNo := lineNo + 1\<rparr>;
          names = names(line \<mapsto> n) in
      if \<not> createPTR \<or> contains line ''*'' \<or> \<not> cn_isIP n then Ret names
      else
        (case Option.bind ip To4 of
           Some v4 \<Rightarrow>
             (case reverseAddr (IP_String v4) of None \<Rightarrow> Ret names | Some r \<Rightarrow> Ret (add_ptr r lineNo line names))
         | None \<Rightarrow>
             obind (index (cn_ipv6 n) 0) (\<lambda>a.
               case reverseAddr (IP_String a) of None \<Rightarrow> Ret names | Some r \<Rightarrow> Ret (add_ptr r lineNo line names))))"

definition cloak_line :: "bool \<Rightarrow> nat \<Rightarrow> string \<Rightarrow> cloak_names \<Rightarrow> (rule_error, cloak_names) outcome" where
  "cloak_line createPTR lineNo l names =
     (let line = TrimAndStripInlineComments l in
      if length line = 0 then Ret names
      else
        (case fields line of
           [a, b] \<Rightarrow>
             let a = TrimSpaceA a; b = TrimSpaceA b in
             if length a = 0 \<or> length b = 0 then Ret names else cloak_rule createPTR lineNo a b names
         | _ \<Rightarrow> Ret names))"

fun cloak_lines :: "bool \<Rightarrow> nat \<Rightarrow> string list \<Rightarrow> cloak_names \<Rightarrow> (rule_error, cloak_names) outcome" where
  "cloak_lines createPTR n [] names = Ret names"
| "cloak_lines createPTR n (l # ls) names = obind (cloak_line createPTR n l names) (cloak_lines createPTR (n + 1) ls)"

section \<open>Loops\<close>

type_synonym 't cloak_matcher = "('t, string) PatternMatcher"

fun add_all ::
  "('t, string option) prefix_trie \<Rightarrow> string list \<Rightarrow> cloak_names \<Rightarrow> 't cloak_matcher \<Rightarrow> (rule_error, 't cloak_matcher) outcome" where
  "add_all P [] names m = Ret m"
| "add_all P (k # ks) names m =
     (case PatternMatcher_Add P k (Some k) (cn_lineNo (the (names k))) m of
        Inl e \<Rightarrow> Fail e
      | Inr m' \<Rightarrow> add_all P ks names m')"

text \<open>The rule the detector finds for a rule's target as it is written, when that one has to be followed again.\<close>

definition next_rule ::
  "('t, string option) prefix_trie \<Rightarrow> cloak_names \<Rightarrow> 't cloak_matcher \<Rightarrow> string \<Rightarrow> (string \<times> string) option" where
  "next_rule P names m k =
     (case PatternMatcher_Eval P m (cn_target (the (names k))) of
        (matched, pattern, v) \<Rightarrow>
          if \<not> matched then None
          else (case v of
                  Some k' \<Rightarrow> if followsTarget (the (names k')) then Some (k', pattern) else None
                | None \<Rightarrow> None))"

text \<open>
  The inner loop: the pattern at which a rule comes up again. Every turn visits a new rule, so as many turns
  as there are rules are enough; \<open>None\<close> means that the turns did not suffice.
\<close>

fun follow ::
  "('t, string option) prefix_trie \<Rightarrow> cloak_names \<Rightarrow> 't cloak_matcher \<Rightarrow> nat \<Rightarrow> string list \<Rightarrow> string \<Rightarrow> string option option" where
  "follow P names m 0 visited k = None"
| "follow P names m (Suc fuel) visited k =
     (case next_rule P names m k of
        None \<Rightarrow> Some None
      | Some (k', pattern) \<Rightarrow>
          if k' \<in> set visited then Some (Some pattern) else follow P names m fuel (k' # visited) k')"

text \<open>The rule with the lowest line that loops, as the visit finds it.\<close>

definition first_loop ::
  "('t, string option) prefix_trie \<Rightarrow> cloak_names \<Rightarrow> 't cloak_matcher \<Rightarrow> nat \<Rightarrow> string \<Rightarrow> (string \<times> string) option \<Rightarrow>
   (string \<times> string) option" where
  "first_loop P names m fuel k first =
     (if \<not> followsTarget (the (names k)) then first
      else
        (case follow P names m fuel [k] k of
           Some (Some pattern) \<Rightarrow>
             (case first of
                None \<Rightarrow> Some (k, pattern)
              | Some (f, _) \<Rightarrow> if cn_lineNo (the (names k)) < cn_lineNo (the (names f)) then Some (k, pattern) else first)
         | _ \<Rightarrow> first))"

fun detect ::
  "('t, string option) prefix_trie \<Rightarrow> cloak_names \<Rightarrow> 't cloak_matcher \<Rightarrow> nat \<Rightarrow> string list \<Rightarrow> (string \<times> string) option \<Rightarrow>
   (string \<times> string) option" where
  "detect P names m fuel [] first = first"
| "detect P names m fuel (k # ks) first = detect P names m fuel ks (first_loop P names m fuel k first)"

datatype cloak_error = BadRule rule_error | RecursiveRule nat string string

definition detectCloakingLoops ::
  "('t, string option) prefix_trie \<Rightarrow> string list \<Rightarrow> cloak_names \<Rightarrow> 't cloak_matcher \<Rightarrow> cloak_error option" where
  "detectCloakingLoops P order names m =
     (case detect P names m (Suc (length order)) order None of
        None \<Rightarrow> None
      | Some (k, pattern) \<Rightarrow> Some (RecursiveRule (cn_lineNo (the (names k))) (cn_target (the (names k))) pattern))"

text \<open>\<open>order\<close> lists the keys in the order the map is visited.\<close>

definition cloak_loadRules ::
  "('t, string option) prefix_trie \<Rightarrow> (cloak_names \<Rightarrow> string list) \<Rightarrow> bool \<Rightarrow> string \<Rightarrow>
   (cloak_error, cloak_names \<times> 't cloak_matcher) outcome" where
  "cloak_loadRules P order createPTR lines =
     (case cloak_lines createPTR 0 (split_char (CHR 0x0A) lines) Map.empty of
        Panic \<Rightarrow> Panic
      | Fail e \<Rightarrow> Fail (BadRule e)
      | Ret names \<Rightarrow>
          (case add_all P (order names) names (NewPatternMatcher P) of
             Panic \<Rightarrow> Panic
           | Fail e \<Rightarrow> Fail (BadRule e)
           | Ret m \<Rightarrow>
               (case detectCloakingLoops P (order names) names m of
                  Some e \<Rightarrow> Fail e
                | None \<Rightarrow> Ret (names, m))))"

section \<open>Answering\<close>

text \<open>The resolver of the transport: addresses of one family for a name, or an error.\<close>

type_synonym cloak_resolver = "string \<Rightarrow> bool \<Rightarrow> net_IP list option"

definition cloak_ttl :: "u32 \<Rightarrow> int \<Rightarrow> int option \<Rightarrow> u32 \<times> bool" where
  "cloak_ttl ttl now lastUpdate =
     (case lastUpdate of
        None \<Rightarrow> (ttl, False)
      | Some t \<Rightarrow>
          let elapsed = (word_of_int ((now - t) div second) :: u32) in
          if elapsed < ttl then (ttl - elapsed, False) else (ttl, True))"

definition cloak_records :: "u16 \<Rightarrow> string \<Rightarrow> u32 \<Rightarrow> CloakedName \<Rightarrow> RR list" where
  "cloak_records qtype qname ttl n =
     (let rr = (\<lambda>d. \<lparr>rr_Name = qname, rr_Class = ClassINET, rr_TTL = ttl, rr_Data = d\<rparr>) in
      if qtype = TypeA then map (\<lambda>ip. rr (RD_A (Addr4 (the (To4 ip))))) (cn_ipv4 n)
      else if qtype = TypeAAAA then map (\<lambda>ip. rr (RD_AAAA (Addr6 (the (To16 ip))))) (cn_ipv6 n)
      else if qtype = TypePTR then map (\<lambda>p. rr (RD_PTR p)) (cn_PTR n)
      else [])"

record 't PluginCloak =
  pc_names :: cloak_names
  pc_matcher :: "'t cloak_matcher"
  pc_ttl :: u32

definition PluginCloak_Eval ::
  "('t, string option) prefix_trie \<Rightarrow> cloak_resolver \<Rightarrow> (RR list \<Rightarrow> RR list) \<Rightarrow> int \<Rightarrow> 't PluginCloak plugin" where
  "PluginCloak_Eval P resolve shuffle now w s msg =
     (let question = hd (msg_Question msg); qtype = RRToType question; qname = rr_Name question in
      if rr_Class question \<noteq> ClassINET \<or> qtype = TypeNS \<or> qtype = TypeSOA then (None, s, msg, w)
      else
        (case snd (snd (PatternMatcher_Eval P (pc_matcher w) (qName s))) of
           None \<Rightarrow> (None, s, msg, w)
         | Some k \<Rightarrow>
             if qtype \<noteq> TypeA \<and> qtype \<noteq> TypeAAAA \<and> qtype \<noteq> TypePTR then
               (None, s\<lparr>action := PluginsActionReject, returnCode := PluginsReturnCodeCloak\<rparr>, msg, w)
             else
               let n = the (pc_names w k);
                   lastUpdate = (if qtype = TypeA then cn_lastUpdate4 n else if qtype = TypeAAAA then cn_lastUpdate6 n else None);
                   (ttl, expired) = cloak_ttl (pc_ttl w) now lastUpdate;
                   synth = EmptyResponseFromMessage msg;
                   answer = (\<lambda>n w. (None, synth_with (synth\<lparr>msg_Answer := shuffle (cloak_records qtype qname ttl n)\<rparr>) PluginsReturnCodeCloak s, msg, w)) in
               if followsTarget n \<and> ((qtype = TypeA \<and> cn_ipv4 n = []) \<or> (qtype = TypeAAAA \<and> cn_ipv6 n = []) \<or> expired) then
                 (case resolve (cn_target n) (qtype = TypeA) of
                    None \<Rightarrow> (None, synth_with (synth\<lparr>msg_Rcode := RcodeServerFailure\<rparr>) PluginsReturnCodeCloak s, msg, w)
                  | Some foundIPs \<Rightarrow>
                      let n = (if foundIPs = [] then n
                               else if qtype = TypeA then n\<lparr>cn_lastUpdate4 := Some now, cn_ipv4 := take 16 foundIPs\<rparr>
                               else if qtype = TypeAAAA then n\<lparr>cn_lastUpdate6 := Some now, cn_ipv6 := take 16 foundIPs\<rparr>
                               else n) in
                      answer n (w\<lparr>pc_names := (pc_names w)(k \<mapsto> n)\<rparr>))
               else answer n w))"

section \<open>Loading can panic\<close>

text \<open>Loading the rules panics exactly on a name target that follows address rules. With reverse lookups enabled, a rule panics iff its
  target is a name, its pattern has no star and the same pattern already stands for addresses, none of them IPv6:
  the code takes the first IPv6 address of an empty list.
\<close>

theorem cloak_rule_panics_iff:
  "cloak_rule createPTR lineNo line target names = Panic \<longleftrightarrow>
     createPTR \<and> \<not> contains (ToLower line) ''*'' \<and> ParseIP target = None \<and>
     cn_isIP (name_or_new names (ToLower line)) \<and> cn_ipv6 (name_or_new names (ToLower line)) = []"
  by (auto simp: cloak_rule_def Let_def index_def split: option.splits)

lemma mixed_rules_panic:
  "cloak_loadRules alist_trie (\<lambda>_. []) True (''a.test 1.2.3.4'' @ [CHR 0x0A] @ ''a.test b.test'') = Panic"
proof -
  have "case cloak_lines True 0 (split_char (CHR 0x0A) (''a.test 1.2.3.4'' @ [CHR 0x0A] @ ''a.test b.test'')) Map.empty of Panic \<Rightarrow> True | _ \<Rightarrow> False"
    by code_simp
  then show ?thesis unfolding cloak_loadRules_def by (simp split: outcome.splits)
qed

section \<open>Accepted rules never loop\<close>

fun hop :: "('t, string option) prefix_trie \<Rightarrow> cloak_names \<Rightarrow> 't cloak_matcher \<Rightarrow> nat \<Rightarrow> string \<Rightarrow> string option" where
  "hop P names m 0 k = Some k"
| "hop P names m (Suc n) k = (case next_rule P names m k of None \<Rightarrow> None | Some (k', _) \<Rightarrow> hop P names m n k')"

lemma follow_ends:
  "follow P names m fuel visited k = Some None \<Longrightarrow> \<exists>n \<le> fuel. hop P names m n k = None"
proof (induction P names m fuel visited k rule: follow.induct)
  case (2 P names m fuel visited k)
  show ?case
  proof (cases "next_rule P names m k")
    case None
    then show ?thesis by (intro exI [of _ "Suc 0"]) simp
  next
    case (Some kp)
    obtain k' pattern where kp: "kp = (k', pattern)" by (cases kp)
    with "2.prems" Some have "k' \<notin> set visited" "follow P names m fuel (k' # visited) k' = Some None"
      by (auto split: if_splits)
    then obtain n where "n \<le> fuel" "hop P names m n k' = None"
      using "2.IH" [OF Some] kp by auto
    then show ?thesis using Some kp by (intro exI [of _ "Suc n"]) simp
  qed
qed simp

lemma hop_mono: "hop P names m n k = None \<Longrightarrow> n \<le> n' \<Longrightarrow> hop P names m n' k = None"
proof (induction n arbitrary: n' k)
  case (Suc n)
  then obtain l where l: "n' = Suc l" "n \<le> l" by (metis Suc_le_D Suc_le_mono)
  show ?case using Suc.prems(1) Suc.IH l by (auto split: option.splits)
qed simp

lemma follow_enough:
  assumes "\<And>k k' p. next_rule P names m k = Some (k', p) \<Longrightarrow> k' \<in> set ks"
    and "distinct visited" "set visited \<subseteq> set ks" "length (remdups ks) < fuel + length visited"
  shows "follow P names m fuel visited k \<noteq> None"
  using assms(2-4)
proof (induction fuel arbitrary: visited k)
  case 0
  have "length visited = card (set visited)" using "0.prems" by (simp add: distinct_card)
  also have "\<dots> \<le> card (set ks)" by (rule card_mono) (use "0.prems" in auto)
  also have "\<dots> = length (remdups ks)" by (simp add: length_remdups_card_conv)
  finally show ?case using "0.prems" by simp
next
  case (Suc fuel)
  show ?case
  proof (cases "next_rule P names m k")
    case (Some kp)
    obtain k' pattern where kp: "kp = (k', pattern)" by (cases kp)
    have k': "k' \<in> set ks" using assms(1) Some kp by simp
    then show ?thesis
      using Suc.IH [of "k' # visited" k'] Suc.prems Some kp by simp
  qed simp
qed

lemma first_loop_Some: "first_loop P names m fuel k (Some f) \<noteq> None"
  by (cases f) (auto simp: first_loop_def split: option.splits)

lemma first_loop_None:
  assumes "first_loop P names m fuel k None = None" "followsTarget (the (names k))"
  shows "follow P names m fuel [k] k \<noteq> Some (Some p)"
  using assms by (auto simp: first_loop_def)

lemma detect_first: "first \<noteq> None \<Longrightarrow> detect P names m fuel ks first \<noteq> None"
proof (induction ks arbitrary: first)
  case (Cons k ks)
  then show ?case using first_loop_Some [of P names m fuel k] by (cases first) auto
qed simp

lemma detect_None:
  assumes "detect P names m fuel ks first = None" "k \<in> set ks" "followsTarget (the (names k))"
  shows "follow P names m fuel [k] k \<noteq> Some (Some p)"
  using assms
proof (induction ks arbitrary: first)
  case (Cons k' ks)
  have d: "detect P names m fuel ks (first_loop P names m fuel k' first) = None" using Cons.prems(1) by simp
  then have n: "first_loop P names m fuel k' first = None" using detect_first by blast
  then have "first = None" using first_loop_Some [of P names m fuel k'] by (cases first) auto
  with n Cons.IH [OF d] Cons.prems(2,3) first_loop_None [of P names m fuel k' p] show ?case by auto
qed simp

lemma add_all_matcher:
  "add_all P ks names m = Ret m' \<Longrightarrow> m' = foldl (add_pattern P) m (map (\<lambda>k. (k, Some k)) ks)"
proof (induction ks arbitrary: m)
  case (Cons k ks)
  obtain m1 where m1: "PatternMatcher_Add P k (Some k) (cn_lineNo (the (names k))) m = Inr m1" "add_all P ks names m1 = Ret m'"
    using Cons.prems by (auto split: sum.splits)
  have "add_pattern P m (k, Some k) = m1"
    using Add_position [where P = P and p = k and v = "Some k" and n = "cn_lineNo (the (names k))" and m = m] m1(1) by simp
  then show ?case using Cons.IH [OF m1(2)] by simp
qed simp

lemma next_rule_key:
  assumes "prefix_trie_ok P content" "next_rule P names (matcher_of P (map (\<lambda>k. (k, Some k)) ks)) k = Some (k', p)"
  shows "k' \<in> set ks"
proof -
  let ?m = "matcher_of P (map (\<lambda>k. (k, Some k)) ks)"
  obtain reason where "PatternMatcher_Eval P ?m (cn_target (the (names k))) = (True, reason, Some k')"
    using assms(2) by (auto simp: next_rule_def split: prod.splits if_splits option.splits)
  from pattern_eval_value [OF assms(1) _ this] have "\<exists>t p. (t, p, Some k') \<in> set (stored (map (\<lambda>k. (k, Some k)) ks))"
    by (auto simp: no_nil_def list_all_iff)
  then show ?thesis by (auto simp: stored_def split: sum.splits)
qed

text \<open>The detector follows raw targets; its steps end.\<close>

lemma hop_ends:
  assumes "prefix_trie_ok P content" "cloak_loadRules P order createPTR lines = Ret (names, m)"
    and "k \<in> set (order names)" "followsTarget (the (names k))"
  shows "hop P names m (Suc (length (order names))) k = None"
proof -
  let ?ks = "order names"
  have a: "add_all P ?ks names (NewPatternMatcher P) = Ret m" and d: "detectCloakingLoops P ?ks names m = None"
    using assms(2) by (auto simp: cloak_loadRules_def split: outcome.splits option.splits)
  have m: "m = matcher_of P (map (\<lambda>k. (k, Some k)) ?ks)"
    using add_all_matcher [OF a] by (simp add: matcher_of_def)
  have det: "detect P names m (Suc (length ?ks)) ?ks None = None"
    using d by (auto simp: detectCloakingLoops_def split: option.splits)
  have "follow P names m (Suc (length ?ks)) [k] k \<noteq> None"
    by (rule follow_enough [where ks = ?ks])
      (use next_rule_key [OF assms(1)] m assms(3) in \<open>auto simp: less_Suc_eq_le le_SucI\<close>)
  moreover have "follow P names m (Suc (length ?ks)) [k] k \<noteq> Some (Some p)" for p
    by (rule detect_None [OF det assms(3,4)])
  ultimately have "follow P names m (Suc (length ?ks)) [k] k = Some None"
    by (metis option.exhaust)
  from follow_ends [OF this] hop_mono show ?thesis by blast
qed

section \<open>The chain of queries\<close>

text \<open>
  At run time the target of a rule is resolved through the internal resolvers, which may be the proxy's own listeners: it comes back as a
  query for the target's full name, after a trip over the wire, and is normalized like every query name. \<open>wire\<close> is what
  packing and unpacking a name makes of it (vendored code; \<open>None\<close> is a name that does not pack): it undoes and adds escapes and keeps
  a name of letters, digits, hyphens and underscores.
\<close>

definition asked_target :: "('t, string option) prefix_trie \<Rightarrow> cloak_names \<Rightarrow> 't cloak_matcher \<Rightarrow> string \<Rightarrow> string option" where
  "asked_target P names m q =
     (case snd (snd (PatternMatcher_Eval P m q)) of
        None \<Rightarrow> None
      | Some k \<Rightarrow> if followsTarget (the (names k)) then Some (cn_target (the (names k))) else None)"

definition next_query ::
  "('t, string option) prefix_trie \<Rightarrow> (string \<Rightarrow> string option) \<Rightarrow> cloak_names \<Rightarrow> 't cloak_matcher \<Rightarrow> string \<Rightarrow> string option" where
  "next_query P wire names m q =
     (case Option.bind (asked_target P names m q) (\<lambda>target. wire (fqdn target)) of
        None \<Rightarrow> None
      | Some name \<Rightarrow> (case NormalizeQName name of Inl _ \<Rightarrow> None | Inr q' \<Rightarrow> Some q'))"

fun query_chain ::
  "('t, string option) prefix_trie \<Rightarrow> (string \<Rightarrow> string option) \<Rightarrow> cloak_names \<Rightarrow> 't cloak_matcher \<Rightarrow> nat \<Rightarrow> string \<Rightarrow> string option" where
  "query_chain P wire names m 0 q = Some q"
| "query_chain P wire names m (Suc n) q =
     (case next_query P wire names m q of None \<Rightarrow> None | Some q' \<Rightarrow> query_chain P wire names m n q')"

text \<open>Targets are stored in lower case. A plain target has only characters that need no escape and no dot at its end.\<close>

definition plain_char :: "char \<Rightarrow> bool" where
  "plain_char c \<longleftrightarrow> c \<in> set ''abcdefghijklmnopqrstuvwxyz0123456789-_.''"

definition plain_target :: "string \<Rightarrow> bool" where
  "plain_target t \<longleftrightarrow> t \<noteq> [] \<and> list_all plain_char t \<and> last t \<noteq> CHR ''.''"

definition keeps_plain :: "(string \<Rightarrow> string option) \<Rightarrow> bool" where
  "keeps_plain wire \<longleftrightarrow> (\<forall>n n'. list_all plain_char n \<longrightarrow> wire n = Some n' \<longrightarrow> n' = n)"

text \<open>The plugin asks the resolver for the target of the rule that matches the query name and for nothing else.\<close>

lemma cloak_asks_only_target:
  assumes "\<And>t b. asked_target P (pc_names w) (pc_matcher w) (qName s) = Some t \<Longrightarrow> r t b = r' t b"
  shows "PluginCloak_Eval P r shuffle now w s msg = PluginCloak_Eval P r' shuffle now w s msg"
proof (cases "snd (snd (PatternMatcher_Eval P (pc_matcher w) (qName s)))")
  case (Some k)
  show ?thesis
  proof (cases "followsTarget (the (pc_names w k))")
    case True
    then have "r (cn_target (the (pc_names w k))) = r' (cn_target (the (pc_names w k)))"
      using assms Some by (simp add: asked_target_def fun_eq_iff)
    then show ?thesis unfolding PluginCloak_Eval_def Some Let_def option.case by (simp only:)
  qed (simp add: PluginCloak_Eval_def Some Let_def)
next
  case None
  then show ?thesis by (simp add: PluginCloak_Eval_def Let_def)
qed

lemma plain_ascii: "plain_char c \<Longrightarrow> (of_char c :: nat) < 128 \<and> \<not> (65 \<le> (of_char c :: nat) \<and> (of_char c :: nat) \<le> 90)"
  by (auto simp: plain_char_def)

lemma plain_comes_back:
  assumes "plain_target t" "keeps_plain wire" "wire (fqdn t) = Some n"
  shows "NormalizeQName n = Inr t"
proof -
  have "list_all plain_char (t @ ''.'')" using assms(1) by (simp add: plain_target_def plain_char_def)
  then have n: "n = t @ ''.''" using assms unfolding keeps_plain_def by (auto simp: fqdn_def plain_target_def)
  have "is_ascii t" "\<not> list_ex (\<lambda>c. 65 \<le> (of_char c :: nat) \<and> (of_char c :: nat) \<le> 90) t"
    using assms(1) plain_ascii by (auto simp: plain_target_def is_ascii_def list_all_iff list_ex_iff)
  moreover have "trim_suffix (t @ ''.'') ''.'' = t" by (simp add: trim_suffix_def has_suffix_def)
  ultimately show ?thesis using assms(1) by (simp add: NormalizeQName_def n plain_target_def)
qed

lemma Eval_value_matched: "PatternMatcher_Eval P m q = (b, p, Some v) \<Longrightarrow> b"
  by (auto simp: PatternMatcher_Eval_def split: if_splits option.splits)

lemma next_query_rule:
  assumes "keeps_plain wire" "next_query P wire names m q = Some q'"
    and "\<forall>q k. followsTarget (the (names k)) \<longrightarrow> snd (snd (PatternMatcher_Eval P m q)) = Some k \<longrightarrow> plain_target (cn_target (the (names k)))"
  obtains k where "snd (snd (PatternMatcher_Eval P m q)) = Some k" "followsTarget (the (names k))" "q' = cn_target (the (names k))"
proof -
  obtain k n where k: "snd (snd (PatternMatcher_Eval P m q)) = Some k" "followsTarget (the (names k))"
    and n: "wire (fqdn (cn_target (the (names k)))) = Some n" "NormalizeQName n = Inr q'"
    using assms(2) by (auto simp: next_query_def asked_target_def bind_eq_Some_conv split: option.splits if_splits sum.splits)
  then have "q' = cn_target (the (names k))" using plain_comes_back [OF _ assms(1)] assms(3) by (metis Inr_inject)
  with k that show thesis by blast
qed

lemma chain_hops:
  assumes w: "keeps_plain wire" 
    and pl: "\<forall>q k. followsTarget (the (names k)) \<longrightarrow> snd (snd (PatternMatcher_Eval P m q)) = Some k \<longrightarrow> plain_target (cn_target (the (names k)))"
    and k: "snd (snd (PatternMatcher_Eval P m q)) = Some k" "followsTarget (the (names k))"
    and c: "query_chain P wire names m (Suc n) q \<noteq> None"
  shows "hop P names m n k \<noteq> None"
  using k c
proof (induction n arbitrary: q k)
  case (Suc n)
  obtain q1 where q1: "next_query P wire names m q = Some q1" and c1: "query_chain P wire names m (Suc n) q1 \<noteq> None"
    using Suc.prems(3) by (auto split: option.splits)
  have q1k: "q1 = cn_target (the (names k))"
    using next_query_rule [OF w q1 pl] Suc.prems(1) by (metis option.inject)
  obtain q2 where q2: "next_query P wire names m q1 = Some q2" using c1 by (auto split: option.splits)
  obtain k1 where k1: "snd (snd (PatternMatcher_Eval P m q1)) = Some k1" "followsTarget (the (names k1))"
    using next_query_rule [OF w q2 pl] by metis
  obtain b p where e: "PatternMatcher_Eval P m q1 = (b, p, Some k1)" using k1(1) by (cases "PatternMatcher_Eval P m q1") simp
  then have "next_rule P names m k = Some (k1, p)"
    using Eval_value_matched [OF e] k1(2) q1k by (simp add: next_rule_def)
  then show ?case using Suc.IH [OF k1 c1] by simp
qed simp

lemma loaded_matcher:
  assumes "cloak_loadRules P order createPTR lines = Ret (names, m)"
  shows "m = matcher_of P (map (\<lambda>k. (k, Some k)) (order names))"
proof -
  have "add_all P (order names) names (NewPatternMatcher P) = Ret m"
    using assms by (auto simp: cloak_loadRules_def split: outcome.splits option.splits)
  from add_all_matcher [OF this] show ?thesis by (simp add: matcher_of_def)
qed

lemma matched_key:
  assumes "prefix_trie_ok P content" "snd (snd (PatternMatcher_Eval P (matcher_of P (map (\<lambda>k. (k, Some k)) ks)) q)) = Some k"
  shows "k \<in> set ks"
proof -
  obtain b p where e: "PatternMatcher_Eval P (matcher_of P (map (\<lambda>k. (k, Some k)) ks)) q = (b, p, Some k)"
    using assms(2) by (cases "PatternMatcher_Eval P (matcher_of P (map (\<lambda>k. (k, Some k)) ks)) q") simp
  then have "b" by (rule Eval_value_matched)
  with e have "PatternMatcher_Eval P (matcher_of P (map (\<lambda>k. (k, Some k)) ks)) q = (True, p, Some k)" by simp
  from pattern_eval_value [OF assms(1) _ this] have "\<exists>t p. (t, p, Some k) \<in> set (stored (map (\<lambda>k. (k, Some k)) ks))"
    by (auto simp: no_nil_def list_all_iff)
  then show ?thesis by (auto simp: stored_def split: sum.splits)
qed

text \<open>C14: A cloaking file that loads, in which every name target that is followed is plain (letters, digits, hyphens, underscores and dots, none at
  the end), cannot keep the proxy asking itself. Start with any query name, resolve the target of the rule that matches it by a query to the proxy itself, and
  go on with that query's name as the proxy normalizes it: after at most two steps more than there are rules no further query is made. \<open>wire\<close> is
  the packing and unpacking of names and keeps plain ones.
\<close>

theorem accepted_cloaking_ends:
  assumes "prefix_trie_ok P content" "keeps_plain wire" "cloak_loadRules P order createPTR lines = Ret (names, m)"
    and "\<forall>k \<in> set (order names). followsTarget (the (names k)) \<longrightarrow> plain_target (cn_target (the (names k)))"
  shows "query_chain P wire names m (length (order names) + 2) q = None"
proof (rule ccontr)
  assume c: "query_chain P wire names m (length (order names) + 2) q \<noteq> None"
  have pl: "\<forall>q k. followsTarget (the (names k)) \<longrightarrow> snd (snd (PatternMatcher_Eval P m q)) = Some k \<longrightarrow> plain_target (cn_target (the (names k)))"
    using assms(4) matched_key [OF assms(1)] loaded_matcher [OF assms(3)] by blast
  obtain q1 where "next_query P wire names m q = Some q1" using c by (auto split: option.splits)
  from next_query_rule [OF assms(2) this pl]
  obtain k where k: "snd (snd (PatternMatcher_Eval P m q)) = Some k" "followsTarget (the (names k))" by metis
  then have "k \<in> set (order names)" using matched_key [OF assms(1)] loaded_matcher [OF assms(3)] by blast
  from hop_ends [OF assms(1,3) this k(2)] have "hop P names m (Suc (length (order names))) k = None" .
  then show False using chain_hops [OF assms(2) pl k, of "Suc (length (order names))"] c by simp
qed

definition chain_file :: string where
  "chain_file = ''a.test b.test'' @ [CHR 0x0A] @ ''=b.test 10.0.0.1''"

definition chain_order :: "cloak_names \<Rightarrow> string list" where
  "chain_order names = filter (\<lambda>k. names k \<noteq> None) [''a.test'', ''b.test'', ''=b.test'']"

definition chain_result :: "string \<Rightarrow> (cloak_error, cloak_names \<times> ((string \<times> string option) list) cloak_matcher) outcome" where
  "chain_result file = cloak_loadRules alist_trie chain_order False file"

theorem accepted_cloaking_ends_witness:
  "case chain_result chain_file of
     Ret (names, m) \<Rightarrow> query_chain alist_trie Some names m (length (chain_order names) + 2) ''www.a.test'' = None
   | _ \<Rightarrow> False"
proof -
  have ok: "case chain_result chain_file of
      Ret (names, m) \<Rightarrow> list_all (\<lambda>k. followsTarget (the (names k)) \<longrightarrow> plain_target (cn_target (the (names k)))) (chain_order names)
    | _ \<Rightarrow> False"
    by code_simp
  then obtain names m where r: "chain_result chain_file = Ret (names, m)"
    and pl: "\<forall>k \<in> set (chain_order names). followsTarget (the (names k)) \<longrightarrow> plain_target (cn_target (the (names k)))"
    by (auto simp: list_all_iff split: outcome.splits)
  have "query_chain alist_trie Some names m (length (chain_order names) + 2) ''www.a.test'' = None"
    by (rule accepted_cloaking_ends [OF alist_trie_ok _ r [unfolded chain_result_def] pl]) (simp add: keeps_plain_def)
  then show ?thesis by (simp only: r outcome.case prod.case)
qed

text \<open>
  With a dot at the end of the targets the detector, which follows them as they are written, finds no rule for them and accepts two rules that name each
  other; the query for a target comes back without the dot, and the chain of queries never ends.
\<close>

definition dotted_file :: string where
  "dotted_file = ''a.test b.test.'' @ [CHR 0x0A] @ ''b.test a.test.''"

lemma dotted_targets_step:
  "case chain_result dotted_file of
     Ret (names, m) \<Rightarrow> next_query alist_trie Some names m ''a.test'' = Some ''b.test'' \<and> next_query alist_trie Some names m ''b.test'' = Some ''a.test''
   | _ \<Rightarrow> False"
  by code_simp

lemma dotted_targets_loop:
  "\<exists>names m. chain_result dotted_file = Ret (names, m) \<and> (\<forall>n. query_chain alist_trie Some names m n ''a.test'' \<noteq> None)"
proof -
  obtain names m where r: "chain_result dotted_file = Ret (names, m)"
    and ab: "next_query alist_trie Some names m ''a.test'' = Some ''b.test''" "next_query alist_trie Some names m ''b.test'' = Some ''a.test''"
    using dotted_targets_step by (auto split: outcome.splits)
  have "query_chain alist_trie Some names m n ''a.test'' \<noteq> None \<and> query_chain alist_trie Some names m n ''b.test'' \<noteq> None" for n
    by (induction n) (use ab in auto)
  with r show ?thesis by blast
qed

section \<open>The query stays in view\<close>

lemma cloak_keeps_query: "keeps_query (PluginCloak_Eval P r shuffle now)"
  by (rule keeps_queryI) (auto simp: PluginCloak_Eval_def synth_with_def Let_def split: if_splits option.splits prod.splits)

end
