(* ===== verification/Dc_Ip_Rules.thy ===== *)
theory Dc_Ip_Rules
  imports Dc_Plugins Cidr_Trie
begin

text \<open>
  \<open>LoadIPRules\<close> of \<open>pkg/dnscrypt/common.go\<close>, \<open>plugin_block_ip.go\<close> and \<open>plugin_allow_ip.go\<close>: rules on the addresses of a
  response. The radix tree of address prefixes and the routing table are third-party packages given as records
  of operations; \<open>net_table_ok\<close> states what the routing table documents.
\<close>

section \<open>Rules\<close>

record 'n net_table =
  NewNet :: 'n
  AddCIDR :: "string \<Rightarrow> 'n \<Rightarrow> 'n option"
  MatchIP :: "net_IP \<Rightarrow> 'n \<Rightarrow> string option"
  net_Size :: "'n \<Rightarrow> nat"

text \<open>The family and bits of an address, and whether a network contains it.\<close>

definition addr_bits :: "net_IP \<Rightarrow> bool \<times> bool list" where
  "addr_bits ip = (case To4 ip of Some b \<Rightarrow> (True, bits_of b) | None \<Rightarrow> (False, bits_of ip))"

definition cidr_contains :: "string \<Rightarrow> net_IP \<Rightarrow> bool" where
  "cidr_contains c ip =
     (case cidr_net c of
        None \<Rightarrow> False
      | Some (fam, bits) \<Rightarrow> fam = fst (addr_bits ip) \<and> take (length bits) (snd (addr_bits ip)) = bits)"

definition net_table_ok :: "'n net_table \<Rightarrow> ('n \<Rightarrow> string set) \<Rightarrow> bool" where
  "net_table_ok N nets \<longleftrightarrow>
     nets (NewNet N) = {} \<and>
     (\<forall>c t. AddCIDR N c t = None \<longleftrightarrow> cidr_net c = None) \<and>
     (\<forall>c t t'. AddCIDR N c t = Some t' \<longrightarrow> nets t' = insert c (nets t)) \<and>
     (\<forall>ip t. MatchIP N ip t \<noteq> None \<longleftrightarrow> (\<exists>c \<in> nets t. cidr_contains c ip)) \<and>
     (\<forall>t. net_Size N t = 0 \<longleftrightarrow> nets t = {})"

record ('t, 'n) ip_rules =
  ir_prefixes :: 't
  ir_ips :: "string set"
  ir_networks :: 'n

definition load_ip_rule ::
  "('t, unit) prefix_trie \<Rightarrow> 'n net_table \<Rightarrow> ('t, 'n) ip_rules \<Rightarrow> string \<Rightarrow> nat \<Rightarrow> rule_error + ('t, 'n) ip_rules" where
  "load_ip_rule P N r line lineNo =
     (if contains line ''/'' then
        (case AddCIDR N line (ir_networks r) of None \<Rightarrow> Inr r | Some t \<Rightarrow> Inr (r\<lparr>ir_networks := t\<rparr>))
      else
        (case ParseIPRule line lineNo of
           Inl e \<Rightarrow> Inr r
         | Inr (cleanLine, trailingStar) \<Rightarrow>
             if trailingStar then Inr (r\<lparr>ir_prefixes := trie_Insert P cleanLine () (ir_prefixes r)\<rparr>)
             else Inr (r\<lparr>ir_ips := insert cleanLine (ir_ips r)\<rparr>)))"

definition new_ip_rules :: "('t, unit) prefix_trie \<Rightarrow> 'n net_table \<Rightarrow> ('t, 'n) ip_rules" where
  "new_ip_rules P N = \<lparr>ir_prefixes = NewTrie P, ir_ips = {}, ir_networks = NewNet N\<rparr>"

definition LoadIPRules ::
  "('t, unit) prefix_trie \<Rightarrow> 'n net_table \<Rightarrow> string \<Rightarrow> ('t, 'n) ip_rules \<Rightarrow> rule_error + ('t, 'n) ip_rules" where
  "LoadIPRules P N lines r = ProcessConfigLines lines (load_ip_rule P N) r"

section \<open>Plugins\<close>

definition answer_addr :: "RR \<Rightarrow> string option" where
  "answer_addr rr =
     (if rr_Class rr \<noteq> ClassINET then None
      else (case rr_Data rr of RD_A a \<Rightarrow> Some (Addr_String a) | RD_AAAA a \<Rightarrow> Some (Addr_String a) | _ \<Rightarrow> None))"

text \<open>Why an address text is matched.\<close>

definition ip_reason ::
  "('t, unit) prefix_trie \<Rightarrow> 'n net_table \<Rightarrow> ('t, 'n) ip_rules \<Rightarrow> string \<Rightarrow> string option" where
  "ip_reason P N r ipStr =
     (if ipStr \<in> ir_ips r then Some ipStr
      else
        let by_prefix =
          (case LongestPrefix P ipStr (ir_prefixes r) of
             None \<Rightarrow> None
           | Some (match, _) \<Rightarrow>
               if length match = length ipStr \<or> ipStr ! length match = CHR ''.'' \<or> ipStr ! length match = CHR '':''
               then Some (match @ ''*'') else None) in
        (case by_prefix of
           Some reason \<Rightarrow> Some reason
         | None \<Rightarrow>
             if net_Size N (ir_networks r) > 0 then
               (case ParseIP ipStr of None \<Rightarrow> None | Some ip \<Rightarrow> MatchIP N ip (ir_networks r))
             else None))"

definition matched_answer ::
  "('t, unit) prefix_trie \<Rightarrow> 'n net_table \<Rightarrow> ('t, 'n) ip_rules \<Rightarrow> RR list \<Rightarrow> (string \<times> string) option" where
  "matched_answer P N r answers =
     first_some (\<lambda>a. case answer_addr a of
                   None \<Rightarrow> None
                 | Some ipStr \<Rightarrow> map_option (\<lambda>reason. (reason, ipStr)) (ip_reason P N r ipStr)) answers"

type_synonym ip_log = "string \<Rightarrow> string \<Rightarrow> string \<Rightarrow> string \<Rightarrow> msg_error option"

definition log_address :: "ip_log option \<Rightarrow> (string \<Rightarrow> string) option \<Rightarrow> string \<times> string \<Rightarrow> PluginsState \<Rightarrow> msg_error option" where
  "log_address logger ipCrypt m s =
     (case logger of
        None \<Rightarrow> None
      | Some log \<Rightarrow>
          (case ExtractClientIPStrEncrypted s ipCrypt of
             None \<Rightarrow> None
           | Some client \<Rightarrow> log client (qName s) (fst m) (snd m)))"

definition PluginBlockIP_Eval ::
  "('t, unit) prefix_trie \<Rightarrow> 'n net_table \<Rightarrow> ip_log option \<Rightarrow> (string \<Rightarrow> string) option \<Rightarrow> ('t, 'n) ip_rules \<Rightarrow>
   PluginsState \<Rightarrow> Msg \<Rightarrow> msg_error option \<times> PluginsState" where
  "PluginBlockIP_Eval P N logger ipCrypt r s msg =
     (if whitelisted s then (None, s)
      else
        (case matched_answer P N r (msg_Answer msg) of
           None \<Rightarrow> (None, s)
         | Some m \<Rightarrow>
             let s = s\<lparr>action := PluginsActionReject, returnCode := PluginsReturnCodeReject\<rparr> in
             (log_address logger ipCrypt m s, s)))"

definition PluginAllowedIP_Eval ::
  "('t, unit) prefix_trie \<Rightarrow> 'n net_table \<Rightarrow> ip_log option \<Rightarrow> (string \<Rightarrow> string) option \<Rightarrow> ('t, 'n) ip_rules \<Rightarrow>
   PluginsState \<Rightarrow> Msg \<Rightarrow> msg_error option \<times> PluginsState" where
  "PluginAllowedIP_Eval P N logger ipCrypt r s msg =
     (case matched_answer P N r (msg_Answer msg) of
        None \<Rightarrow> (None, s)
      | Some m \<Rightarrow> let s = s\<lparr>whitelisted := True\<rparr> in (log_address logger ipCrypt m s, s))"

section \<open>What a rule file means\<close>

datatype ip_rule = AddrRule string | PrefixRule string | NetRule string

fun ip_rule_of :: "string \<Rightarrow> ip_rule option" where
  "ip_rule_of line =
     (if contains line ''/'' then (if cidr_net line = None then None else Some (NetRule line))
      else
        (case ParseIPRule line 0 of
           Inl _ \<Rightarrow> None
         | Inr (c, star) \<Rightarrow> Some (if star then PrefixRule c else AddrRule c)))"

definition ip_rules_of :: "string list \<Rightarrow> ip_rule list" where
  "ip_rules_of ls =
     concat (map (\<lambda>l. let line = TrimAndStripInlineComments l in
                   if line = [] then [] else (case ip_rule_of line of None \<Rightarrow> [] | Some r \<Rightarrow> [r])) ls)"

definition group_prefix :: "string \<Rightarrow> string \<Rightarrow> bool" where
  "group_prefix p a = (has_prefix a p \<and> (length p = length a \<or> a ! length p = CHR ''.'' \<or> a ! length p = CHR '':''))"

fun ip_rule_matches :: "ip_rule \<Rightarrow> string \<Rightarrow> bool" where
  "ip_rule_matches (AddrRule x) a = (a = x)"
| "ip_rule_matches (PrefixRule p) a = group_prefix p a"
| "ip_rule_matches (NetRule c) a = (case ParseIP a of None \<Rightarrow> False | Some ip \<Rightarrow> cidr_contains c ip)"

definition ip_rel :: "('t \<Rightarrow> string \<rightharpoonup> unit) \<Rightarrow> ('n \<Rightarrow> string set) \<Rightarrow> ip_rule set \<Rightarrow> ('t, 'n) ip_rules \<Rightarrow> bool" where
  "ip_rel content nets R r \<longleftrightarrow>
     dom (content (ir_prefixes r)) = {p. PrefixRule p \<in> R} \<and> ir_ips r = {x. AddrRule x \<in> R} \<and>
     nets (ir_networks r) = {c. NetRule c \<in> R}"

lemma ParseIPRule_line: "ParseIPRule line n = Inr x \<longleftrightarrow> ParseIPRule line 0 = Inr x"
  by (auto simp: ParseIPRule_def Let_def split: if_splits)

lemma ip_rel_load:
  assumes P: "prefix_trie_ok P content" and N: "net_table_ok N nets" and rel: "ip_rel content nets R r"
  shows "\<exists>r'. load_ip_rule P N r line n = Inr r' \<and>
    ip_rel content nets (R \<union> set_option (ip_rule_of line)) r'"
proof (cases "contains line ''/''")
  case True
  show ?thesis
  proof (cases "AddCIDR N line (ir_networks r)")
    case None
    then have "cidr_net line = None" using N by (simp add: net_table_ok_def)
    with True None rel show ?thesis by (simp add: load_ip_rule_def)
  next
    case (Some t)
    then have "cidr_net line \<noteq> None" "nets t = insert line (nets (ir_networks r))"
      using N by (metis net_table_ok_def option.distinct(1))+
    with True Some rel show ?thesis by (auto simp: load_ip_rule_def ip_rel_def)
  qed
next
  case False
  show ?thesis
  proof (cases "ParseIPRule line n")
    case (Inl e)
    then have "\<exists>e. ParseIPRule line 0 = Inl e" by (metis ParseIPRule_line obj_sumE sum.distinct(1))
    with Inl False rel show ?thesis by (auto simp: load_ip_rule_def)
  next
    case (Inr cs)
    obtain c star where cs: "cs = (c, star)" by (cases cs)
    have z: "ParseIPRule line 0 = Inr (c, star)" using Inr cs ParseIPRule_line by metis
    have ins: "dom (content (trie_Insert P k () t)) = insert k (dom (content t))" for k t
    proof -
      have "content (trie_Insert P k () t) = (if content t k = None then (content t)(k \<mapsto> ()) else content t)"
        using P unfolding prefix_trie_ok_def by blast
      then show ?thesis by auto
    qed
    show ?thesis
      using rel False Inr cs z ins by (cases star) (auto simp: load_ip_rule_def ip_rel_def)
  qed
qed

lemma ip_rel_lines:
  assumes P: "prefix_trie_ok P content" and N: "net_table_ok N nets" and rel: "ip_rel content nets R r"
  shows "\<exists>r'. process_lines (load_ip_rule P N) n ls r = Inr r' \<and> ip_rel content nets (R \<union> set (ip_rules_of ls)) r'"
  using rel
proof (induction ls arbitrary: n r R)
  case (Cons l ls)
  let ?line = "TrimAndStripInlineComments l"
  show ?case
  proof (cases "?line = []")
    case True
    then show ?thesis using Cons by (simp add: ip_rules_of_def)
  next
    case False
    obtain r1 where r1: "load_ip_rule P N r ?line n = Inr r1" "ip_rel content nets (R \<union> set_option (ip_rule_of ?line)) r1"
      using ip_rel_load [OF P N Cons.prems] by blast
    have "R \<union> set (ip_rules_of (l # ls)) = (R \<union> set_option (ip_rule_of ?line)) \<union> set (ip_rules_of ls)"
      using False by (auto simp: ip_rules_of_def Let_def simp del: ip_rule_of.simps split: option.splits)
    then show ?thesis using Cons.IH [OF r1(2), of "n + 1"] r1(1) False by simp
  qed
qed (simp add: ip_rules_of_def)

lemma ip_rules_loaded:
  assumes P: "prefix_trie_ok P content" and N: "net_table_ok N nets"
  shows "\<exists>r. LoadIPRules P N text (new_ip_rules P N) = Inr r \<and>
    ip_rel content nets (set (ip_rules_of (split_char (CHR 0x0A) text))) r"
proof -
  have "ip_rel content nets {} (new_ip_rules P N)"
    using P N by (simp add: ip_rel_def new_ip_rules_def prefix_trie_ok_def net_table_ok_def)
  from ip_rel_lines [OF P N this] show ?thesis by (simp add: LoadIPRules_def ProcessConfigLines_def)
qed

lemma ip_reason_sound:
  assumes P: "prefix_trie_ok P content" and N: "net_table_ok N nets" and rel: "ip_rel content nets R r"
    and h: "ip_reason P N r a = Some reason"
  shows "\<exists>x \<in> R. ip_rule_matches x a"
proof -
  consider (addr) "a \<in> ir_ips r"
    | (pre) k where "LongestPrefix P a (ir_prefixes r) = Some (k, ())"
        "length k = length a \<or> a ! length k = CHR ''.'' \<or> a ! length k = CHR '':''"
    | (net) ip where "ParseIP a = Some ip" "MatchIP N ip (ir_networks r) \<noteq> None"
    using h by (auto simp: ip_reason_def Let_def split: if_splits option.splits prod.splits)
  then show ?thesis
  proof cases
    case addr
    then show ?thesis using rel by (metis ip_rel_def ip_rule_matches.simps(1) mem_Collect_eq)
  next
    case (pre k)
    then have "longest_key (content (ir_prefixes r)) a = Some (k, ())" using P by (simp add: prefix_trie_ok_def)
    from longest_key_SomeD [OF this] have "PrefixRule k \<in> R" "has_prefix a k"
      using rel by (auto simp: ip_rel_def has_prefix_iff)
    with pre(2) show ?thesis by (metis group_prefix_def ip_rule_matches.simps(2))
  next
    case (net ip)
    then obtain c where "NetRule c \<in> R" "cidr_contains c ip"
      using N rel by (auto simp: net_table_ok_def ip_rel_def)
    with net show ?thesis by (metis ip_rule_matches.simps(3) option.simps(5))
  qed
qed

lemma ip_reason_complete:
  assumes P: "prefix_trie_ok P content" and N: "net_table_ok N nets" and rel: "ip_rel content nets R r"
    and x: "x \<in> R" "ip_rule_matches x a"
    and clean: "\<forall>p. PrefixRule p \<in> R \<longrightarrow> has_prefix a p \<longrightarrow> group_prefix p a"
  shows "ip_reason P N r a \<noteq> None"
proof (cases x)
  case (AddrRule y)
  then show ?thesis using x rel by (auto simp: ip_reason_def ip_rel_def)
next
  case (PrefixRule p)
  have L: "LongestPrefix P a (ir_prefixes r) = longest_key (content (ir_prefixes r)) a" using P by (simp add: prefix_trie_ok_def)
  have "content (ir_prefixes r) p \<noteq> None" using x rel PrefixRule by (auto simp: ip_rel_def)
  moreover have "\<exists>t. a = p @ t" using x PrefixRule by (simp add: group_prefix_def has_prefix_iff)
  ultimately have "longest_key (content (ir_prefixes r)) a \<noteq> None" by (metis longest_key_None)
  then obtain k u where k: "longest_key (content (ir_prefixes r)) a = Some (k, u)" by auto
  from longest_key_SomeD [OF k] have "PrefixRule k \<in> R" "has_prefix a k"
    using rel by (auto simp: ip_rel_def has_prefix_iff)
  with clean have "group_prefix k a" by blast
  then show ?thesis using k L by (simp add: ip_reason_def group_prefix_def)
next
  case (NetRule c)
  then obtain ip where ip: "ParseIP a = Some ip" "cidr_contains c ip" using x by (auto split: option.splits)
  have c: "c \<in> nets (ir_networks r)" using x rel NetRule by (simp add: ip_rel_def)
  have m: "MatchIP N ip (ir_networks r) \<noteq> None" using N c ip(2) unfolding net_table_ok_def by blast
  have z: "net_Size N (ir_networks r) > 0" using N c unfolding net_table_ok_def by (metis empty_iff gr0I)
  show ?thesis using ip m z by (simp add: ip_reason_def Let_def split: option.splits)
qed

section \<open>Properties\<close>

lemma matched_answer_iff:
  "matched_answer P N r answers \<noteq> None \<longleftrightarrow>
     (\<exists>rr \<in> set answers. \<exists>a. answer_addr rr = Some a \<and> ip_reason P N r a \<noteq> None)"
  by (auto simp: matched_answer_def first_some_None_iff split: option.splits) (metis option.exhaust option.simps(4) option.simps(5))+

text \<open>A response is rejected exactly when it contains an address some rule of the file covers. For any rule file, and a response
  that is not on the allow list, the plugin rejects iff an A or AAAA answer has an address that is listed, starts with a
  listed prefix at a group boundary, or lies in a listed network, provided no listed prefix ends inside a
  group of one of the addresses.
\<close>

theorem address_rules_decide:
  assumes P: "prefix_trie_ok P content" and N: "net_table_ok N nets"
    and l: "LoadIPRules P N text (new_ip_rules P N) = Inr r"
    and clean: "\<forall>rr \<in> set (msg_Answer msg). \<forall>a p. answer_addr rr = Some a \<longrightarrow>
      PrefixRule p \<in> set (ip_rules_of (split_char (CHR 0x0A) text)) \<longrightarrow> has_prefix a p \<longrightarrow> group_prefix p a"
    and s: "\<not> whitelisted s" "action s \<noteq> PluginsActionReject"
  shows "action (snd (PluginBlockIP_Eval P N logger ipCrypt r s msg)) = PluginsActionReject \<longleftrightarrow>
    (\<exists>rr \<in> set (msg_Answer msg). \<exists>a. answer_addr rr = Some a \<and>
       (\<exists>x \<in> set (ip_rules_of (split_char (CHR 0x0A) text)). ip_rule_matches x a))"
proof -
  have rel: "ip_rel content nets (set (ip_rules_of (split_char (CHR 0x0A) text))) r"
    using ip_rules_loaded [OF P N, of "text"] l by auto
  have "action (snd (PluginBlockIP_Eval P N logger ipCrypt r s msg)) = PluginsActionReject \<longleftrightarrow>
      matched_answer P N r (msg_Answer msg) \<noteq> None"
    using s by (auto simp: PluginBlockIP_Eval_def Let_def split: option.splits)
  also have "\<dots> \<longleftrightarrow> (\<exists>rr \<in> set (msg_Answer msg). \<exists>a. answer_addr rr = Some a \<and> ip_reason P N r a \<noteq> None)"
    by (rule matched_answer_iff)
  also have "\<dots> \<longleftrightarrow> (\<exists>rr \<in> set (msg_Answer msg). \<exists>a. answer_addr rr = Some a \<and>
       (\<exists>x \<in> set (ip_rules_of (split_char (CHR 0x0A) text)). ip_rule_matches x a))"
    using ip_reason_sound [OF P N rel] ip_reason_complete [OF P N rel] clean by (metis option.exhaust)
  finally show ?thesis .
qed

definition list_net_table :: "string list net_table" where
  "list_net_table =
     \<lparr>NewNet = [], AddCIDR = (\<lambda>c t. if cidr_net c = None then None else Some (c # t)),
      MatchIP = (\<lambda>ip t. find (\<lambda>c. cidr_contains c ip) t), net_Size = length\<rparr>"

lemma list_net_table_ok: "net_table_ok list_net_table set"
  by (auto simp: net_table_ok_def list_net_table_def find_None_iff)

definition sample_ip_list :: string where
  "sample_ip_list = ''192.168.*'' @ [CHR 0x0A] @ ''10.0.0.0/8 # net'' @ [CHR 0x0A] @ ''1.2.3.4''"

lemma sample_ip_rules:
  "ip_rules_of (split_char (CHR 0x0A) sample_ip_list) = [PrefixRule ''192.168'', NetRule ''10.0.0.0/8'', AddrRule ''1.2.3.4'']"
  by code_simp

definition sample_ip_loaded :: "((string \<times> unit) list, string list) ip_rules" where
  "sample_ip_loaded = \<lparr>ir_prefixes = [(''192.168'', ())], ir_ips = {''1.2.3.4''}, ir_networks = [''10.0.0.0/8'']\<rparr>"

lemma sample_ip_load: "LoadIPRules alist_trie list_net_table sample_ip_list (new_ip_rules alist_trie list_net_table) = Inr sample_ip_loaded"
  by code_simp

definition ten_answer :: Msg where
  "ten_answer = empty_Msg\<lparr>msg_Answer := [\<lparr>rr_Name = ''a.'', rr_Class = 1, rr_TTL = 30, rr_Data = RD_A (Addr4 [10, 2, 3, 4])\<rparr>]\<rparr>"

theorem address_rules_decide_witness:
  "action (snd (PluginBlockIP_Eval alist_trie list_net_table None None sample_ip_loaded (NewPluginsState sample_ttls ''udp'' None ''udp'') ten_answer))
     = PluginsActionReject"
proof -
  have a: "answer_addr \<lparr>rr_Name = ''a.'', rr_Class = 1, rr_TTL = 30, rr_Data = RD_A (Addr4 [10, 2, 3, 4])\<rparr> = Some ''10.2.3.4''"
    by code_simp
  have m: "ip_rule_matches (NetRule ''10.0.0.0/8'') ''10.2.3.4''" by code_simp
  show ?thesis
    by (subst address_rules_decide [OF alist_trie_ok list_net_table_ok sample_ip_load])
      (use m in \<open>auto simp: ten_answer_def a sample_ip_rules NewPluginsState_def has_prefix_def\<close>)
qed

text \<open>
  An address rule does not cover the IPv4-mapped form of its address: the text of the record keeps the prefix, so an
  AAAA answer \<open>::ffff:1.2.3.4\<close> passes the rule \<open>1.2.3.4\<close>.
\<close>

theorem mapped_address_not_covered:
  "ip_reason alist_trie list_net_table (sample_ip_loaded\<lparr>ir_networks := []\<rparr>) (Addr_String (Addr6 (mapped_prefix @ [1, 2, 3, 4]))) = None \<and>
   ip_reason alist_trie list_net_table (sample_ip_loaded\<lparr>ir_networks := []\<rparr>) (Addr_String (Addr4 [1, 2, 3, 4])) \<noteq> None"
  by code_simp

section \<open>The query stays in view\<close>

lemma ip_rules_keep_query:
  "keeps_query (\<lambda>r s msg. case PluginBlockIP_Eval P N logger ipCrypt r s msg of (e, s') \<Rightarrow> (e, s', msg, r))"
  "keeps_query (\<lambda>r s msg. case PluginAllowedIP_Eval P N logger ipCrypt r s msg of (e, s') \<Rightarrow> (e, s', msg, r))"
  by (auto intro!: keeps_queryI simp: PluginBlockIP_Eval_def PluginAllowedIP_Eval_def Let_def split: prod.splits option.splits if_splits)

end
