(* ===== verification/Dc_Reload.thy ===== *)
theory Dc_Reload
  imports Dc_Forward Dc_Cloak Dc_Ip_Rules "HOL-Library.Sublist"
begin

text \<open>
  \<open>pkg/dnscrypt/reload_utils.go\<close>, \<open>config_watcher.go\<close>, \<open>hot_reload.go\<close> and the reloading half of the plugins with a rule file:
  a new configuration is loaded into a staging area and swapped in only when it is complete. The locale \<open>reloadable\<close> is the
  interface \<open>ReloadablePlugin\<close>; every plugin with rules is an interpretation. A step returns the error and the state, or
  \<open>None\<close> when it panics. A file is a sequence of reads.
\<close>

section \<open>Reading and staging\<close>

datatype reload_error = NotReadable | StillChanging | NoExisting | NoStaged | BadRules | ReloadRunning | BadPath

type_synonym file_reads = "nat \<Rightarrow> string option"

type_synonym 's reload_step = "'s \<Rightarrow> (reload_error option \<times> 's) option"

definition ReadTextFile :: "string option \<Rightarrow> string option" where
  "ReadTextFile bin = map_option (\<lambda>b. trim_prefix b [CHR 0xEF, CHR 0xBB, CHR 0xBF]) bin"

definition SafeReadTextFile :: "file_reads \<Rightarrow> reload_error + string" where
  "SafeReadTextFile reads =
     (case ReadTextFile (reads 0) of
        None \<Rightarrow> Inl NotReadable
      | Some content \<Rightarrow>
          (case ReadTextFile (reads 1) of
             None \<Rightarrow> Inl NotReadable
           | Some content2 \<Rightarrow> if content \<noteq> content2 then Inl StillChanging else Inr content))"

definition StandardPrepareReloadPattern :: "file_reads \<Rightarrow> (string \<Rightarrow> 's reload_step) \<Rightarrow> 's reload_step" where
  "StandardPrepareReloadPattern reads prepareFunc s =
     (case SafeReadTextFile reads of Inl e \<Rightarrow> Some (Some e, s) | Inr lines \<Rightarrow> prepareFunc lines s)"

text \<open>\<open>Reload\<close> of every plugin: prepare, cancel on failure, apply otherwise.\<close>

definition StandardReloadPattern ::
  "(file_reads \<Rightarrow> 's reload_step) \<Rightarrow> ('s \<Rightarrow> reload_error option \<times> 's) \<Rightarrow> ('s \<Rightarrow> 's) \<Rightarrow> file_reads \<Rightarrow> 's reload_step" where
  "StandardReloadPattern prepareReload applyReload cancelReload reads s =
     (case prepareReload reads s of
        None \<Rightarrow> None
      | Some (Some e, s') \<Rightarrow> Some (Some e, cancelReload s')
      | Some (None, s') \<Rightarrow> Some (applyReload s'))"

text \<open>The closure of \<open>RegisterPluginForReload\<close>, which also cancels after a failed application.\<close>

definition registered_reload ::
  "(file_reads \<Rightarrow> 's reload_step) \<Rightarrow> ('s \<Rightarrow> reload_error option \<times> 's) \<Rightarrow> ('s \<Rightarrow> 's) \<Rightarrow> file_reads \<Rightarrow> 's reload_step" where
  "registered_reload prepareReload applyReload cancelReload reads s =
     (case prepareReload reads s of
        None \<Rightarrow> None
      | Some (Some e, s') \<Rightarrow> Some (Some e, cancelReload s')
      | Some (None, s') \<Rightarrow>
          (case applyReload s' of (Some e, s'') \<Rightarrow> Some (Some e, cancelReload s'') | (None, s'') \<Rightarrow> Some (None, s'')))"

section \<open>Plugins with rules\<close>

text \<open>The active rules of \<open>PluginBlockName\<close> are the variable \<open>blockedNames\<close>, shared with the response plugin.\<close>

record 't block_name_state =
  bs_blockedNames :: "'t BlockedNames option"
  bs_stagingBlocked :: "'t BlockedNames option"

definition PluginBlockName_PrepareReload ::
  "'t name_trie \<Rightarrow> (string \<rightharpoonup> WeeklyRanges) \<Rightarrow> file_reads \<Rightarrow> 't block_name_state reload_step" where
  "PluginBlockName_PrepareReload P ranges reads =
     StandardPrepareReloadPattern reads (\<lambda>lines s.
       case bs_blockedNames s of
         None \<Rightarrow> Some (Some NoExisting, s)
       | Some current \<Rightarrow>
           let staging = current\<lparr>bn_matcher := NewPatternMatcher P\<rparr> in
           (case loadRules P ranges lines (bn_matcher staging) of
              Inl _ \<Rightarrow> Some (Some BadRules, s\<lparr>bs_stagingBlocked := Some staging\<rparr>)
            | Inr m \<Rightarrow> Some (None, s\<lparr>bs_stagingBlocked := Some (staging\<lparr>bn_matcher := m\<rparr>)\<rparr>)))"

definition PluginBlockName_ApplyReload :: "'t block_name_state \<Rightarrow> reload_error option \<times> 't block_name_state" where
  "PluginBlockName_ApplyReload s =
     (case bs_stagingBlocked s of
        None \<Rightarrow> (Some NoStaged, s)
      | Some b \<Rightarrow> (None, s\<lparr>bs_blockedNames := Some b, bs_stagingBlocked := None\<rparr>))"

definition PluginBlockName_CancelReload :: "'t block_name_state \<Rightarrow> 't block_name_state" where
  "PluginBlockName_CancelReload s = s\<lparr>bs_stagingBlocked := None\<rparr>"

definition PluginBlockName_Reload ::
  "'t name_trie \<Rightarrow> (string \<rightharpoonup> WeeklyRanges) \<Rightarrow> file_reads \<Rightarrow> 't block_name_state reload_step" where
  "PluginBlockName_Reload P ranges =
     StandardReloadPattern (PluginBlockName_PrepareReload P ranges) PluginBlockName_ApplyReload PluginBlockName_CancelReload"

record 't allow_name_state =
  as_plugin :: "'t PluginAllowName"
  as_stagingMatcher :: "'t name_matcher option"

definition PluginAllowName_PrepareReload ::
  "'t name_trie \<Rightarrow> (string \<rightharpoonup> WeeklyRanges) \<Rightarrow> file_reads \<Rightarrow> 't allow_name_state reload_step" where
  "PluginAllowName_PrepareReload P ranges reads =
     StandardPrepareReloadPattern reads (\<lambda>lines s.
       case loadRules P ranges lines (NewPatternMatcher P) of
         Inl _ \<Rightarrow> Some (Some BadRules, s\<lparr>as_stagingMatcher := Some (NewPatternMatcher P)\<rparr>)
       | Inr m \<Rightarrow> Some (None, s\<lparr>as_stagingMatcher := Some m\<rparr>))"

definition PluginAllowName_ApplyReload :: "'t allow_name_state \<Rightarrow> reload_error option \<times> 't allow_name_state" where
  "PluginAllowName_ApplyReload s =
     (case as_stagingMatcher s of
        None \<Rightarrow> (Some NoStaged, s)
      | Some m \<Rightarrow> (None, s\<lparr>as_plugin := (as_plugin s)\<lparr>an_matcher := m\<rparr>, as_stagingMatcher := None\<rparr>))"

definition PluginAllowName_CancelReload :: "'t allow_name_state \<Rightarrow> 't allow_name_state" where
  "PluginAllowName_CancelReload s = s\<lparr>as_stagingMatcher := None\<rparr>"

definition PluginAllowName_Reload ::
  "'t name_trie \<Rightarrow> (string \<rightharpoonup> WeeklyRanges) \<Rightarrow> file_reads \<Rightarrow> 't allow_name_state reload_step" where
  "PluginAllowName_Reload P ranges =
     StandardReloadPattern (PluginAllowName_PrepareReload P ranges) PluginAllowName_ApplyReload PluginAllowName_CancelReload"

text \<open>The two address plugins keep their rules, and the staged ones, in three fields each.\<close>

record ('t, 'n) ip_state =
  is_rules :: "('t, 'n) ip_rules"
  is_stagingPrefixes :: "'t option"
  is_stagingIPs :: "string set option"
  is_stagingNetworks :: "'n option"

definition staged_rules :: "('t, 'n) ip_rules \<Rightarrow> ('t, 'n) ip_state \<Rightarrow> ('t, 'n) ip_state" where
  "staged_rules r s =
     s\<lparr>is_stagingPrefixes := Some (ir_prefixes r), is_stagingIPs := Some (ir_ips r), is_stagingNetworks := Some (ir_networks r)\<rparr>"

definition PluginBlockIP_PrepareReload ::
  "('t, unit) prefix_trie \<Rightarrow> 'n net_table \<Rightarrow> file_reads \<Rightarrow> ('t, 'n) ip_state reload_step" where
  "PluginBlockIP_PrepareReload P N reads =
     StandardPrepareReloadPattern reads (\<lambda>lines s.
       case LoadIPRules P N lines (new_ip_rules P N) of
         Inl _ \<Rightarrow> Some (Some BadRules, staged_rules (new_ip_rules P N) s)
       | Inr r \<Rightarrow> Some (None, staged_rules r s))"

definition PluginBlockIP_ApplyReload :: "('t, 'n) ip_state \<Rightarrow> reload_error option \<times> ('t, 'n) ip_state" where
  "PluginBlockIP_ApplyReload s =
     (case (is_stagingPrefixes s, is_stagingIPs s, is_stagingNetworks s) of
        (Some p, Some i, Some n) \<Rightarrow>
          (None, s\<lparr>is_rules := \<lparr>ir_prefixes = p, ir_ips = i, ir_networks = n\<rparr>,
                   is_stagingPrefixes := None, is_stagingIPs := None, is_stagingNetworks := None\<rparr>)
      | _ \<Rightarrow> (Some NoStaged, s))"

definition PluginBlockIP_CancelReload :: "('t, 'n) ip_state \<Rightarrow> ('t, 'n) ip_state" where
  "PluginBlockIP_CancelReload s = s\<lparr>is_stagingPrefixes := None, is_stagingIPs := None, is_stagingNetworks := None\<rparr>"

definition PluginBlockIP_Reload ::
  "('t, unit) prefix_trie \<Rightarrow> 'n net_table \<Rightarrow> file_reads \<Rightarrow> ('t, 'n) ip_state reload_step" where
  "PluginBlockIP_Reload P N =
     StandardReloadPattern (PluginBlockIP_PrepareReload P N) PluginBlockIP_ApplyReload PluginBlockIP_CancelReload"

definition PluginAllowedIP_PrepareReload ::
  "('t, unit) prefix_trie \<Rightarrow> 'n net_table \<Rightarrow> file_reads \<Rightarrow> ('t, 'n) ip_state reload_step" where
  "PluginAllowedIP_PrepareReload P N reads =
     StandardPrepareReloadPattern reads (\<lambda>lines s.
       case LoadIPRules P N lines (new_ip_rules P N) of
         Inl _ \<Rightarrow> Some (Some BadRules, staged_rules (new_ip_rules P N) s)
       | Inr r \<Rightarrow> Some (None, staged_rules r s))"

definition PluginAllowedIP_ApplyReload :: "('t, 'n) ip_state \<Rightarrow> reload_error option \<times> ('t, 'n) ip_state" where
  "PluginAllowedIP_ApplyReload s =
     (case (is_stagingPrefixes s, is_stagingIPs s, is_stagingNetworks s) of
        (Some p, Some i, Some n) \<Rightarrow>
          (None, s\<lparr>is_rules := \<lparr>ir_prefixes = p, ir_ips = i, ir_networks = n\<rparr>,
                   is_stagingPrefixes := None, is_stagingIPs := None, is_stagingNetworks := None\<rparr>)
      | _ \<Rightarrow> (Some NoStaged, s))"

definition PluginAllowedIP_CancelReload :: "('t, 'n) ip_state \<Rightarrow> ('t, 'n) ip_state" where
  "PluginAllowedIP_CancelReload s = s\<lparr>is_stagingPrefixes := None, is_stagingIPs := None, is_stagingNetworks := None\<rparr>"

definition PluginAllowedIP_Reload ::
  "('t, unit) prefix_trie \<Rightarrow> 'n net_table \<Rightarrow> file_reads \<Rightarrow> ('t, 'n) ip_state reload_step" where
  "PluginAllowedIP_Reload P N =
     StandardReloadPattern (PluginAllowedIP_PrepareReload P N) PluginAllowedIP_ApplyReload PluginAllowedIP_CancelReload"

text \<open>A cloaking matcher holds pointers to the rules it was built with, so both are staged.\<close>

record 't cloak_state =
  cs_plugin :: "'t PluginCloak"
  cs_createPTR :: bool
  cs_stagingMatcher :: "(cloak_names \<times> 't cloak_matcher) option"

definition PluginCloak_PrepareReload ::
  "('t, string option) prefix_trie \<Rightarrow> (cloak_names \<Rightarrow> string list) \<Rightarrow> file_reads \<Rightarrow> 't cloak_state reload_step" where
  "PluginCloak_PrepareReload P order reads s =
     (case SafeReadTextFile reads of
        Inl e \<Rightarrow> Some (Some e, s)
      | Inr lines \<Rightarrow>
          (case cloak_loadRules P order (cs_createPTR s) lines of
             Panic \<Rightarrow> None
           | Fail _ \<Rightarrow> Some (Some BadRules, s)
           | Ret nm \<Rightarrow> Some (None, s\<lparr>cs_stagingMatcher := Some nm\<rparr>)))"

definition PluginCloak_ApplyReload :: "'t cloak_state \<Rightarrow> reload_error option \<times> 't cloak_state" where
  "PluginCloak_ApplyReload s =
     (case cs_stagingMatcher s of
        None \<Rightarrow> (Some NoStaged, s)
      | Some (names, m) \<Rightarrow>
          (None, s\<lparr>cs_plugin := (cs_plugin s)\<lparr>pc_names := names, pc_matcher := m\<rparr>, cs_stagingMatcher := None\<rparr>))"

definition PluginCloak_CancelReload :: "'t cloak_state \<Rightarrow> 't cloak_state" where
  "PluginCloak_CancelReload s = s\<lparr>cs_stagingMatcher := None\<rparr>"

definition PluginCloak_Reload ::
  "('t, string option) prefix_trie \<Rightarrow> (cloak_names \<Rightarrow> string list) \<Rightarrow> file_reads \<Rightarrow> 't cloak_state reload_step" where
  "PluginCloak_Reload P order =
     StandardReloadPattern (PluginCloak_PrepareReload P order) PluginCloak_ApplyReload PluginCloak_CancelReload"

record forward_state =
  fs_bootstrapResolvers :: "string list"
  fs_forwardMap :: "PluginForwardEntry list"
  fs_dhcpdns :: "dhcp_status list"
  fs_stagingMap :: "PluginForwardEntry list option"

text \<open>
  \<open>PluginForward.Init\<close>: detectors are started only when a rule asks for them; \<open>d6\<close> and \<open>d4\<close> are what they report.
\<close>

definition PluginForward_Init ::
  "bool \<Rightarrow> bool \<Rightarrow> dhcp_status \<Rightarrow> dhcp_status \<Rightarrow> string option \<Rightarrow> string list \<Rightarrow> forward_state option" where
  "PluginForward_Init SourceIPv6 SourceIPv4 d6 d4 bin bootstrap =
     (case ReadTextFile bin of
        None \<Rightarrow> None
      | Some lines \<Rightarrow>
          (case parseForwardFile bootstrap lines of
             Inl _ \<Rightarrow> None
           | Inr (requiresDHCP, forwardMap) \<Rightarrow>
               Some \<lparr>fs_bootstrapResolvers = bootstrap, fs_forwardMap = forwardMap,
                     fs_dhcpdns = (if requiresDHCP then (if SourceIPv6 then [d6] else []) @ (if SourceIPv4 then [d4] else []) else []),
                     fs_stagingMap = None\<rparr>))"

definition PluginForward_PrepareReload :: "file_reads \<Rightarrow> forward_state reload_step" where
  "PluginForward_PrepareReload reads s =
     (case SafeReadTextFile reads of
        Inl e \<Rightarrow> Some (Some e, s)
      | Inr lines \<Rightarrow>
          (case parseForwardFile (fs_bootstrapResolvers s) lines of
             Inl _ \<Rightarrow> Some (Some BadRules, s)
           | Inr (_, stagingMap) \<Rightarrow> Some (None, s\<lparr>fs_stagingMap := Some stagingMap\<rparr>)))"

definition PluginForward_ApplyReload :: "forward_state \<Rightarrow> reload_error option \<times> forward_state" where
  "PluginForward_ApplyReload s =
     (case fs_stagingMap s of
        None \<Rightarrow> (Some NoStaged, s)
      | Some m \<Rightarrow> (None, s\<lparr>fs_forwardMap := m, fs_stagingMap := None\<rparr>))"

definition PluginForward_CancelReload :: "forward_state \<Rightarrow> forward_state" where
  "PluginForward_CancelReload s = s\<lparr>fs_stagingMap := None\<rparr>"

definition PluginForward_Reload :: "file_reads \<Rightarrow> forward_state reload_step" where
  "PluginForward_Reload =
     StandardReloadPattern PluginForward_PrepareReload PluginForward_ApplyReload PluginForward_CancelReload"

section \<open>Watching files\<close>

text \<open>
  What one check of a file sees: size and modification time twice, the hash twice, then the reads of the reload. The world the
  reload functions act on is the type \<open>'s\<close>.
\<close>

record file_view =
  fv_stat1 :: "(int \<times> int) option"
  fv_hash1 :: "string option"
  fv_stat2 :: "(int \<times> int) option"
  fv_hash2 :: "string option"
  fv_reads :: file_reads

record 's WatchedFile =
  wf_path :: string
  wf_lastHash :: string
  wf_lastSize :: int
  wf_lastMod :: int
  wf_reloadFunc :: "file_reads \<Rightarrow> 's reload_step"

definition checkFile :: "file_view \<Rightarrow> 's WatchedFile \<Rightarrow> 's \<Rightarrow> ('s WatchedFile \<times> 's) option" where
  "checkFile v wfile s =
     (case (fv_stat1 v, fv_hash1 v, fv_stat2 v, fv_hash2 v) of
        (Some (size1, _), Some hash1, Some (size2, mod2), Some hash2) \<Rightarrow>
          if size1 \<noteq> size2 \<or> hash1 \<noteq> hash2 then Some (wfile, s)
          else if wf_lastSize wfile = size2 \<and> wf_lastHash wfile = hash2 then Some (wfile\<lparr>wf_lastMod := mod2\<rparr>, s)
          else
            (case wf_reloadFunc wfile (fv_reads v) s of
               None \<Rightarrow> None
             | Some (Some e, s') \<Rightarrow> Some (wfile, s')
             | Some (None, s') \<Rightarrow> Some (wfile\<lparr>wf_lastHash := hash2, wf_lastSize := size2, wf_lastMod := mod2\<rparr>, s'))
      | _ \<Rightarrow> Some (wfile, s))"

type_synonym 's ConfigWatcher = "string \<rightharpoonup> 's WatchedFile"

text \<open>\<open>absolute\<close> is \<open>filepath.Abs\<close>; \<open>stat\<close> gives size, modification time and whether the path is a directory.\<close>

definition AddFile ::
  "(string \<Rightarrow> string option) \<Rightarrow> (string \<rightharpoonup> int \<times> int \<times> bool) \<Rightarrow> (string \<rightharpoonup> string) \<Rightarrow> (string \<Rightarrow> bool) \<Rightarrow>
   string \<Rightarrow> (file_reads \<Rightarrow> 's reload_step) option \<Rightarrow> 's ConfigWatcher \<Rightarrow> bool \<times> 's ConfigWatcher" where
  "AddFile absolute stat getFileHash watchDir path reloadFunc cw =
     (if path = [] then (False, cw)
      else
        (case reloadFunc of
           None \<Rightarrow> (False, cw)
         | Some f \<Rightarrow>
             (case absolute path of
                None \<Rightarrow> (False, cw)
              | Some absPath \<Rightarrow>
                  (case stat absPath of
                     None \<Rightarrow> (False, cw)
                   | Some (sz, modTime, isDir) \<Rightarrow>
                       if isDir then (False, cw)
                       else
                         (case getFileHash absPath of
                            None \<Rightarrow> (False, cw)
                          | Some hash \<Rightarrow>
                              (watchDir absPath,
                               cw(absPath \<mapsto> \<lparr>wf_path = absPath, wf_lastHash = hash, wf_lastSize = sz, wf_lastMod = modTime,
                                               wf_reloadFunc = f\<rparr>)))))))"

definition RemoveFile :: "(string \<Rightarrow> string option) \<Rightarrow> string \<Rightarrow> 's ConfigWatcher \<Rightarrow> 's ConfigWatcher" where
  "RemoveFile absolute path cw = (case absolute path of None \<Rightarrow> cw | Some absPath \<Rightarrow> cw(absPath := None))"

definition handleModifyEvent ::
  "(string \<Rightarrow> string option) \<Rightarrow> (string \<Rightarrow> file_view) \<Rightarrow> string \<Rightarrow> 's ConfigWatcher \<Rightarrow> 's \<Rightarrow> ('s ConfigWatcher \<times> 's) option" where
  "handleModifyEvent absolute view path cw s =
     (case absolute path of
        None \<Rightarrow> Some (cw, s)
      | Some absPath \<Rightarrow>
          (case cw absPath of
             None \<Rightarrow> Some (cw, s)
           | Some wfile \<Rightarrow> map_option (\<lambda>(wfile', s'). (cw(absPath \<mapsto> wfile'), s')) (checkFile (view absPath) wfile s)))"

text \<open>\<open>files\<close> is the order in which the map is visited; the files keep their entries while they are checked.\<close>

fun checkAllFiles ::
  "(string \<Rightarrow> file_view) \<Rightarrow> string list \<Rightarrow> 's ConfigWatcher \<Rightarrow> 's \<Rightarrow> ('s ConfigWatcher \<times> 's) option" where
  "checkAllFiles view [] cw s = Some (cw, s)"
| "checkAllFiles view (p # files) cw s =
     (case cw p of
        None \<Rightarrow> checkAllFiles view files cw s
      | Some wfile \<Rightarrow>
          (case checkFile (view p) wfile s of
             None \<Rightarrow> None
           | Some (wfile', s') \<Rightarrow> checkAllFiles view files (cw(p \<mapsto> wfile')) s'))"

section \<open>The interface\<close>

text \<open>Loading a list of texts one after the other.\<close>

fun load_all :: "(string \<Rightarrow> 'c \<Rightarrow> 'c option) \<Rightarrow> string list \<Rightarrow> 'c \<Rightarrow> 'c option" where
  "load_all load [] c = Some c"
| "load_all load (t # ts) c = Option.bind (load t c) (load_all load ts)"

definition stable_texts :: "file_reads list \<Rightarrow> string list" where
  "stable_texts rs = List.map_filter (\<lambda>r. case SafeReadTextFile r of Inr t \<Rightarrow> Some t | _ \<Rightarrow> None) rs"

text \<open>Reloads one after the other, whatever each of them returns; \<open>None\<close> when one panics.\<close>

fun reloads :: "(file_reads \<Rightarrow> 's reload_step) \<Rightarrow> file_reads list \<Rightarrow> 's \<Rightarrow> 's option" where
  "reloads f [] s = Some s"
| "reloads f (r # rs) s = (case f r s of None \<Rightarrow> None | Some (_, s') \<Rightarrow> reloads f rs s')"

text \<open>
  \<open>load t c\<close> is the configuration that the text \<open>t\<close> makes of \<open>c\<close>; the plugin's own constants, such as its logger, stay. A plugin
  may refuse a text.
\<close>

locale reloadable =
  fixes prepareReload :: "file_reads \<Rightarrow> 's reload_step"
    and applyReload :: "'s \<Rightarrow> reload_error option \<times> 's"
    and cancelReload :: "'s \<Rightarrow> 's"
    and active_config :: "'s \<Rightarrow> 'c"
    and staged_config :: "'s \<Rightarrow> 'c option"
    and load :: "string \<Rightarrow> 'c \<Rightarrow> 'c option"
  assumes prepare_keeps: "prepareReload r s = Some (e, s') \<Longrightarrow> active_config s' = active_config s"
    and prepare_loads: "SafeReadTextFile r = Inr t \<Longrightarrow> load t (active_config s) = Some c \<Longrightarrow>
      \<exists>s'. prepareReload r s = Some (None, s') \<and> staged_config s' = Some c"
    and prepare_refuses: "SafeReadTextFile r = Inr t \<Longrightarrow> load t (active_config s) = None \<Longrightarrow>
      prepareReload r s \<noteq> Some (None, s')"
    and prepare_unread: "SafeReadTextFile r = Inl x \<Longrightarrow> prepareReload r s = Some (Some x, s)"
    and apply_swaps: "staged_config s = Some c \<Longrightarrow>
      \<exists>s'. applyReload s = (None, s') \<and> active_config s' = c \<and> staged_config s' = None"
    and cancel_keeps: "active_config (cancelReload s) = active_config s"
    and cancel_clears: "staged_config (cancelReload s) = None"
begin

abbreviation reload where
  "reload \<equiv> StandardReloadPattern prepareReload applyReload cancelReload"

lemma reload_ok:
  assumes "SafeReadTextFile r = Inr t" "load t (active_config s) = Some c"
  shows "\<exists>s'. reload r s = Some (None, s') \<and> active_config s' = c \<and> staged_config s' = None"
  using prepare_loads [OF assms] apply_swaps unfolding StandardReloadPattern_def by fastforce

lemma reload_fails:
  assumes "reload r s = Some (Some e, s')"
  shows "active_config s' = active_config s \<and> staged_config s' = None \<and>
    (\<forall>t. SafeReadTextFile r = Inr t \<longrightarrow> load t (active_config s) = None)"
proof -
  obtain e' s1 where p: "prepareReload r s = Some (e', s1)"
    using assms by (auto simp: StandardReloadPattern_def split: option.splits)
  have no_load: "load t (active_config s) = None" if "SafeReadTextFile r = Inr t" for t
    using reload_ok [OF that, of s] assms by (cases "load t (active_config s)") fastforce+
  then have "e' \<noteq> None"
    using p prepare_refuses [of r _ s s1] prepare_unread [of r _ s] by (cases "SafeReadTextFile r") auto
  then show ?thesis
    using assms p prepare_keeps [OF p] no_load cancel_keeps cancel_clears
    by (auto simp: StandardReloadPattern_def)
qed

lemma reload_cases:
  assumes "reload r s = Some (e, s')"
  shows "(case e of
      Some _ \<Rightarrow> active_config s' = active_config s
    | None \<Rightarrow> \<exists>t. SafeReadTextFile r = Inr t \<and> load t (active_config s) = Some (active_config s')) \<and> staged_config s' = None"
proof (cases e)
  case None
  obtain s1 where p: "prepareReload r s = Some (None, s1)"
    using assms None by (auto simp: StandardReloadPattern_def split: option.splits)
  obtain t where t: "SafeReadTextFile r = Inr t" using p prepare_unread [of r _ s] by (cases "SafeReadTextFile r") auto
  obtain c where "load t (active_config s) = Some c"
    using p prepare_refuses [OF t, of s s1] by (cases "load t (active_config s)") auto
  then show ?thesis using reload_ok [OF t, of s c] assms None t by auto
next
  case (Some x)
  then show ?thesis using reload_fails assms by auto
qed

text \<open>Whatever happens to the file, the active configuration is what a series of complete, stable texts makes of the first one.\<close>

lemma reloads_load:
  assumes "reloads reload rs s = Some s'"
  shows "\<exists>ts. subseq ts (stable_texts rs) \<and> load_all load ts (active_config s) = Some (active_config s')"
  using assms
proof (induction rs arbitrary: s)
  case Nil
  then show ?case by (intro exI [of _ "[]"]) (simp add: stable_texts_def)
next
  case (Cons r rs)
  obtain e s1 where r: "reload r s = Some (e, s1)" "reloads reload rs s1 = Some s'"
    using Cons.prems by (auto split: option.splits)
  obtain ts where ts: "subseq ts (stable_texts rs)" "load_all load ts (active_config s1) = Some (active_config s')"
    using Cons.IH [OF r(2)] by blast
  show ?case
  proof (cases e)
    case (Some x)
    then have "active_config s1 = active_config s" using reload_cases [OF r(1)] by simp
    with ts show ?thesis
      by (intro exI [of _ ts]) (auto simp: stable_texts_def map_filter_simps split: option.splits sum.splits intro: list_emb_Cons)
  next
    case None
    then obtain t where "SafeReadTextFile r = Inr t" "load t (active_config s) = Some (active_config s1)"
      using reload_cases [OF r(1)] by auto
    with ts show ?thesis
      by (intro exI [of _ "t # ts"]) (auto simp: stable_texts_def map_filter_simps)
  qed
qed

text \<open>When no text is refused, every stable text is loaded in its turn.\<close>

lemma reloads_total:
  assumes "\<And>t c. good c \<Longrightarrow> \<exists>c'. load t c = Some c' \<and> good c'" "good (active_config s)"
  shows "\<exists>s'. reloads reload rs s = Some s' \<and> load_all load (stable_texts rs) (active_config s) = Some (active_config s')"
  using assms(2)
proof (induction rs arbitrary: s)
  case (Cons r rs)
  show ?case
  proof (cases "SafeReadTextFile r")
    case (Inl x)
    have "reload r s = Some (Some x, cancelReload s)" using prepare_unread [OF Inl] by (simp add: StandardReloadPattern_def)
    then show ?thesis
      using Cons.IH [of "cancelReload s"] Cons.prems Inl cancel_keeps by (simp add: stable_texts_def map_filter_simps)
  next
    case (Inr t)
    obtain c where c: "load t (active_config s) = Some c" "good c" using assms(1) Cons.prems by blast
    obtain s1 where s1: "reload r s = Some (None, s1)" "active_config s1 = c" using reload_ok [OF Inr c(1)] by blast
    then show ?thesis using Cons.IH [of s1] c Inr by (auto simp: stable_texts_def map_filter_simps)
  qed
qed (simp add: stable_texts_def map_filter_simps)

text \<open>
  A check of a file whose new content is stable and accepted makes it active, and later checks of the same content do
  nothing; a refused content changes nothing and is tried again.
\<close>

lemma check_loads:
  assumes "wf_reloadFunc wfile = reload" "fv_stat1 v = Some (sz, m1)" "fv_stat2 v = Some (sz, m2)" "fv_hash1 v = Some h" "fv_hash2 v = Some h"
    and "(wf_lastSize wfile, wf_lastHash wfile) \<noteq> (sz, h)" "SafeReadTextFile (fv_reads v) = Inr t"
  shows "load t (active_config s) = Some c \<Longrightarrow>
      \<exists>wfile' s'. checkFile v wfile s = Some (wfile', s') \<and> active_config s' = c \<and> (wf_lastSize wfile', wf_lastHash wfile') = (sz, h)"
    and "load t (active_config s) = None \<Longrightarrow> checkFile v wfile s = Some (wfile', s') \<Longrightarrow>
      wfile' = wfile \<and> active_config s' = active_config s"
proof -
  have check: "checkFile v wfile s =
      (case reload (fv_reads v) s of
         None \<Rightarrow> None
       | Some (Some e, s') \<Rightarrow> Some (wfile, s')
       | Some (None, s') \<Rightarrow> Some (wfile\<lparr>wf_lastHash := h, wf_lastSize := sz, wf_lastMod := m2\<rparr>, s'))"
    using assms(1-6) by (auto simp: checkFile_def)
  show "\<exists>wfile' s'. checkFile v wfile s = Some (wfile', s') \<and> active_config s' = c \<and> (wf_lastSize wfile', wf_lastHash wfile') = (sz, h)"
    if "load t (active_config s) = Some c"
    using reload_ok [OF assms(7) that] check by auto
  show "wfile' = wfile \<and> active_config s' = active_config s"
    if "load t (active_config s) = None" "checkFile v wfile s = Some (wfile', s')"
    using that check reload_cases [of "fv_reads v" s] assms(7) by (fastforce split: option.splits)
qed

end

section \<open>The plugins implement it\<close>

definition block_name_load ::
  "'t name_trie \<Rightarrow> (string \<rightharpoonup> WeeklyRanges) \<Rightarrow> string \<Rightarrow> 't BlockedNames option \<Rightarrow> 't BlockedNames option option" where
  "block_name_load P ranges t c =
     (case (c, loadRules P ranges t (NewPatternMatcher P)) of
        (Some current, Inr m) \<Rightarrow> Some (Some (current\<lparr>bn_matcher := m\<rparr>))
      | _ \<Rightarrow> None)"

interpretation block_name: reloadable "PluginBlockName_PrepareReload P ranges" PluginBlockName_ApplyReload
    PluginBlockName_CancelReload bs_blockedNames "\<lambda>s. map_option Some (bs_stagingBlocked s)" "block_name_load P ranges"
  for P ranges
  by unfold_locales
    (auto simp: PluginBlockName_PrepareReload_def StandardPrepareReloadPattern_def PluginBlockName_ApplyReload_def
      PluginBlockName_CancelReload_def block_name_load_def Let_def split: sum.splits option.splits)

definition allow_name_load ::
  "'t name_trie \<Rightarrow> (string \<rightharpoonup> WeeklyRanges) \<Rightarrow> string \<Rightarrow> 't PluginAllowName \<Rightarrow> 't PluginAllowName option" where
  "allow_name_load P ranges t c =
     (case loadRules P ranges t (NewPatternMatcher P) of Inr m \<Rightarrow> Some (c\<lparr>an_matcher := m\<rparr>) | _ \<Rightarrow> None)"

interpretation allow_name: reloadable "PluginAllowName_PrepareReload P ranges" PluginAllowName_ApplyReload
    PluginAllowName_CancelReload as_plugin "\<lambda>s. map_option (\<lambda>m. (as_plugin s)\<lparr>an_matcher := m\<rparr>) (as_stagingMatcher s)"
    "allow_name_load P ranges"
  for P ranges
  by unfold_locales
    (auto simp: PluginAllowName_PrepareReload_def StandardPrepareReloadPattern_def PluginAllowName_ApplyReload_def
      PluginAllowName_CancelReload_def allow_name_load_def Let_def split: sum.splits option.splits)

definition ip_load ::
  "('t, unit) prefix_trie \<Rightarrow> 'n net_table \<Rightarrow> string \<Rightarrow> ('t, 'n) ip_rules \<Rightarrow> ('t, 'n) ip_rules option" where
  "ip_load P N t c = (case LoadIPRules P N t (new_ip_rules P N) of Inr r \<Rightarrow> Some r | _ \<Rightarrow> None)"

definition ip_staged :: "('t, 'n) ip_state \<Rightarrow> ('t, 'n) ip_rules option" where
  "ip_staged s =
     (case (is_stagingPrefixes s, is_stagingIPs s, is_stagingNetworks s) of
        (Some p, Some i, Some n) \<Rightarrow> Some \<lparr>ir_prefixes = p, ir_ips = i, ir_networks = n\<rparr>
      | _ \<Rightarrow> None)"

interpretation block_ip: reloadable "PluginBlockIP_PrepareReload P N" PluginBlockIP_ApplyReload
    PluginBlockIP_CancelReload is_rules ip_staged "ip_load P N"
  for P N
  by unfold_locales
    (auto simp: PluginBlockIP_PrepareReload_def StandardPrepareReloadPattern_def PluginBlockIP_ApplyReload_def
      PluginBlockIP_CancelReload_def ip_load_def ip_staged_def staged_rules_def split: sum.splits option.splits)

interpretation allow_ip: reloadable "PluginAllowedIP_PrepareReload P N" PluginAllowedIP_ApplyReload
    PluginAllowedIP_CancelReload is_rules ip_staged "ip_load P N"
  for P N
  by unfold_locales
    (auto simp: PluginAllowedIP_PrepareReload_def StandardPrepareReloadPattern_def PluginAllowedIP_ApplyReload_def
      PluginAllowedIP_CancelReload_def ip_load_def ip_staged_def staged_rules_def split: sum.splits option.splits)

definition cloak_load ::
  "('t, string option) prefix_trie \<Rightarrow> (cloak_names \<Rightarrow> string list) \<Rightarrow> string \<Rightarrow> 't PluginCloak \<times> bool \<Rightarrow> ('t PluginCloak \<times> bool) option" where
  "cloak_load P order t c =
     (case cloak_loadRules P order (snd c) t of
        Ret (names, m) \<Rightarrow> Some ((fst c)\<lparr>pc_names := names, pc_matcher := m\<rparr>, snd c)
      | _ \<Rightarrow> None)"

interpretation cloak: reloadable "PluginCloak_PrepareReload P order" PluginCloak_ApplyReload
    PluginCloak_CancelReload "\<lambda>s. (cs_plugin s, cs_createPTR s)"
    "\<lambda>s. map_option (\<lambda>(names, m). ((cs_plugin s)\<lparr>pc_names := names, pc_matcher := m\<rparr>, cs_createPTR s)) (cs_stagingMatcher s)"
    "cloak_load P order"
  for P order
  by unfold_locales
    (auto simp: PluginCloak_PrepareReload_def PluginCloak_ApplyReload_def PluginCloak_CancelReload_def cloak_load_def
      split: sum.splits option.splits outcome.splits)

definition forward_load ::
  "string \<Rightarrow> string list \<times> dhcp_status list \<times> PluginForwardEntry list \<Rightarrow> (string list \<times> dhcp_status list \<times> PluginForwardEntry list) option" where
  "forward_load t c =
     (case parseForwardFile (fst c) t of Inr (_, m) \<Rightarrow> Some (fst c, fst (snd c), m) | _ \<Rightarrow> None)"

interpretation forward: reloadable PluginForward_PrepareReload PluginForward_ApplyReload
    PluginForward_CancelReload "\<lambda>s. (fs_bootstrapResolvers s, fs_dhcpdns s, fs_forwardMap s)"
    "\<lambda>s. map_option (\<lambda>m. (fs_bootstrapResolvers s, fs_dhcpdns s, m)) (fs_stagingMap s)" forward_load
  by unfold_locales
    (auto simp: PluginForward_PrepareReload_def PluginForward_ApplyReload_def PluginForward_CancelReload_def forward_load_def
      split: sum.splits option.splits prod.splits)

section \<open>What reloading guarantees\<close>

lemma block_name_load_all:
  "load_all (block_name_load P ranges) ts (Some b) =
     Some (Some (if ts = [] then b
       else b\<lparr>bn_matcher := matcher_of P (name_rules ranges 0 (split_char (CHR 0x0A) (last ts)))\<rparr>))"
  by (induction ts arbitrary: b) (auto simp: block_name_load_def loadRules_matcher)

text \<open>
  C15: a reload is all or nothing. Whatever the block list file goes through, readable or not, changing or not, reloading never
  panics and the rules in force are those of the last text that was read twice with the same content, and the
  rules of the start when there was none; the logger of the plugin stays.
\<close>

theorem block_list_follows_last_stable_text:
  assumes "bs_blockedNames s = Some b"
  shows "\<exists>s'. reloads (PluginBlockName_Reload P ranges) rs s = Some s' \<and>
    bs_blockedNames s' = Some (if stable_texts rs = [] then b
      else b\<lparr>bn_matcher := matcher_of P (name_rules ranges 0 (split_char (CHR 0x0A) (last (stable_texts rs))))\<rparr>)"
  using block_name.reloads_total [of "\<lambda>c. c \<noteq> None" P ranges s rs] assms
  by (force simp: PluginBlockName_Reload_def block_name_load_all block_name_load_def loadRules_matcher)

definition sample_reads :: "file_reads list" where
  "sample_reads = [(\<lambda>_. Some sample_list), (\<lambda>n. if n = 0 then Some ''half'' else Some ''half of it''), (\<lambda>_. None)]"

theorem block_list_follows_last_stable_text_witness:
  "\<exists>s'. reloads (PluginBlockName_Reload alist_trie work_hours) sample_reads
      \<lparr>bs_blockedNames = Some \<lparr>bn_matcher = NewPatternMatcher alist_trie, bn_logger = None, bn_ipCrypt = None\<rparr>, bs_stagingBlocked = None\<rparr> = Some s' \<and>
    bs_blockedNames s' = Some \<lparr>bn_matcher = sample_matcher, bn_logger = None, bn_ipCrypt = None\<rparr>"
proof -
  have "stable_texts sample_reads = [sample_list]" by code_simp
  then show ?thesis
    using block_list_follows_last_stable_text [of "\<lparr>bs_blockedNames = Some \<lparr>bn_matcher = NewPatternMatcher alist_trie, bn_logger = None,
        bn_ipCrypt = None\<rparr>, bs_stagingBlocked = None\<rparr>" _ alist_trie work_hours sample_reads]
    by (simp add: sample_matcher_def)
qed

text \<open>The watcher brings the forwarding rules in line with their file. When a check sees a new content twice and the reload reads
  it, an accepted content is in force afterwards and remembered, and a refused one leaves rules and memory
  alone, so that the next check tries again.
\<close>

theorem watched_forwarding_rules:
  assumes "wf_reloadFunc wfile = PluginForward_Reload"
    and "fv_stat1 v = Some (sz, m1)" "fv_stat2 v = Some (sz, m2)" "fv_hash1 v = Some h" "fv_hash2 v = Some h"
    and "(wf_lastSize wfile, wf_lastHash wfile) \<noteq> (sz, h)" "SafeReadTextFile (fv_reads v) = Inr t"
  shows "case parseForwardFile (fs_bootstrapResolvers s) t of
      Inr (_, rules) \<Rightarrow> \<exists>wfile' s'. checkFile v wfile s = Some (wfile', s') \<and> fs_forwardMap s' = rules \<and>
        (wf_lastSize wfile', wf_lastHash wfile') = (sz, h)
    | Inl _ \<Rightarrow> \<exists>s'. checkFile v wfile s = Some (wfile, s') \<and> fs_forwardMap s' = fs_forwardMap s"
proof -
  note F = forward.check_loads [OF assms(1) [unfolded PluginForward_Reload_def] assms(2-7), of s]
  have "checkFile v wfile s \<noteq> None"
    using assms by (auto simp: checkFile_def PluginForward_Reload_def StandardReloadPattern_def PluginForward_PrepareReload_def
        split: option.splits sum.splits prod.splits)
  then obtain wfile' s' where c: "checkFile v wfile s = Some (wfile', s')" by auto
  show ?thesis
  proof (cases "parseForwardFile (fs_bootstrapResolvers s) t")
    case (Inl e)
    then show ?thesis using F(2) [OF _ c] c by (simp add: forward_load_def)
  next
    case (Inr r)
    then show ?thesis using F(1) c by (cases r) (simp add: forward_load_def)
  qed
qed

definition lan_file :: "forward_state WatchedFile" where
  "lan_file = \<lparr>wf_path = ''/etc/forward.txt'', wf_lastHash = ''h0'', wf_lastSize = 0, wf_lastMod = 0, wf_reloadFunc = PluginForward_Reload\<rparr>"

definition lan_view :: file_view where
  "lan_view = \<lparr>fv_stat1 = Some (15, 9), fv_hash1 = Some ''h1'', fv_stat2 = Some (15, 9), fv_hash2 = Some ''h1'',
     fv_reads = (\<lambda>_. Some ''lan 192.168.1.1'')\<rparr>"

definition empty_forward :: forward_state where
  "empty_forward = \<lparr>fs_bootstrapResolvers = [], fs_forwardMap = [], fs_dhcpdns = [], fs_stagingMap = None\<rparr>"

theorem watched_forwarding_rules_witness:
  "\<exists>wfile' s'. checkFile lan_view lan_file empty_forward = Some (wfile', s') \<and> map fe_domain (fs_forwardMap s') = [''lan'']"
proof -
  have t: "SafeReadTextFile (fv_reads lan_view) = Inr ''lan 192.168.1.1''" by code_simp
  have p: "case parseForwardFile [] ''lan 192.168.1.1'' of Inr (_, rules) \<Rightarrow> map fe_domain rules = [''lan''] | Inl _ \<Rightarrow> False"
    by code_simp
  show ?thesis
    using watched_forwarding_rules [of lan_file lan_view 15 9 9 "''h1''" "''lan 192.168.1.1''" empty_forward] t p
    by (auto simp: lan_file_def lan_view_def empty_forward_def split: sum.splits prod.splits)
qed

text \<open>A reload never starts a DHCP detector, so a rule with \<open>$DHCP\<close> that was added to the file has no server.\<close>

lemma reload_starts_no_detector:
  assumes "reloads PluginForward_Reload rs s = Some s'"
  shows "fs_dhcpdns s' = fs_dhcpdns s"
proof -
  have "fst (snd c') = fst (snd c)" if "load_all forward_load ts c = Some c'" for ts c c'
    using that by (induction ts arbitrary: c) (fastforce simp: forward_load_def bind_eq_Some_conv split: sum.splits)+
  then show ?thesis using forward.reloads_load [OF assms [unfolded PluginForward_Reload_def]] by fastforce
qed

lemma no_detector_no_server: "fw_dhcp E = [] \<Longrightarrow> sq_typ item = DHCP \<Longrightarrow> fst (item_server E i item) = None"
  by (simp add: item_server_def)

text \<open>
  \<open>ApplyReload\<close> of the block list reads the staging pointer twice and holds the lock only for the assignment; two goroutines
  (the signal handler and the watcher) may interleave between the steps.
\<close>

datatype apply_step = SwapIn | ClearStaged

fun apply_step_of :: "apply_step \<Rightarrow> 't block_name_state \<Rightarrow> 't block_name_state" where
  "apply_step_of SwapIn s = s\<lparr>bs_blockedNames := bs_stagingBlocked s\<rparr>"
| "apply_step_of ClearStaged s = s\<lparr>bs_stagingBlocked := None\<rparr>"

lemma apply_steps: "bs_stagingBlocked s \<noteq> None \<Longrightarrow>
    PluginBlockName_ApplyReload s = (None, apply_step_of ClearStaged (apply_step_of SwapIn s))"
  by (auto simp: PluginBlockName_ApplyReload_def)

text \<open>Once both have seen a staged list, the second swap takes the pointer the first one cleared.\<close>

lemma interleaved_apply_drops_list:
  "bs_blockedNames (fold apply_step_of [SwapIn, ClearStaged, SwapIn, ClearStaged] s) = None"
  by simp

text \<open>After that no reload brings a list back.\<close>

lemma dropped_list_stays_dropped:
  assumes "bs_blockedNames s = None" "reloads (PluginBlockName_Reload P ranges) rs s = Some s'"
  shows "bs_blockedNames s' = None"
proof -
  obtain ts where "load_all (block_name_load P ranges) ts None = Some (bs_blockedNames s')"
    using block_name.reloads_load [OF assms(2) [unfolded PluginBlockName_Reload_def]] assms(1) by auto
  then show ?thesis by (cases ts) (auto simp: block_name_load_def)
qed

section \<open>The guard against concurrent reloads\<close>

text \<open>
  \<open>ReloadSafeguard\<close> as a machine: \<open>StartReload\<close> swaps the flag and then takes the mutex; \<open>FinishReload\<close> clears the flag and then
  releases it. A goroutine is outside, waiting for the mutex, inside, or about to release.
\<close>

datatype guard_pc = Outside | Waiting | Inside | Releasing

record safeguard =
  sg_isReloading :: bool
  sg_owner :: "nat option"
  sg_pc :: "nat \<Rightarrow> guard_pc"

definition NewReloadSafeguard :: safeguard where
  "NewReloadSafeguard = \<lparr>sg_isReloading = False, sg_owner = None, sg_pc = (\<lambda>_. Outside)\<rparr>"

inductive guard_step :: "safeguard \<Rightarrow> safeguard \<Rightarrow> bool" where
  start: "sg_pc g t = Outside \<Longrightarrow> \<not> sg_isReloading g \<Longrightarrow>
    guard_step g (g\<lparr>sg_isReloading := True, sg_pc := (sg_pc g)(t := Waiting)\<rparr>)"
| busy: "sg_pc g t = Outside \<Longrightarrow> sg_isReloading g \<Longrightarrow> guard_step g g"
| lock: "sg_pc g t = Waiting \<Longrightarrow> sg_owner g = None \<Longrightarrow>
    guard_step g (g\<lparr>sg_owner := Some t, sg_pc := (sg_pc g)(t := Inside)\<rparr>)"
| clear: "sg_pc g t = Inside \<Longrightarrow> guard_step g (g\<lparr>sg_isReloading := False, sg_pc := (sg_pc g)(t := Releasing)\<rparr>)"
| unlock: "sg_pc g t = Releasing \<Longrightarrow> guard_step g (g\<lparr>sg_owner := None, sg_pc := (sg_pc g)(t := Outside)\<rparr>)"

definition guard_inv :: "safeguard \<Rightarrow> bool" where
  "guard_inv g \<longleftrightarrow>
     (\<forall>t. sg_pc g t \<in> {Inside, Releasing} \<longleftrightarrow> sg_owner g = Some t) \<and>
     (\<forall>t u. sg_pc g t \<in> {Waiting, Inside} \<and> sg_pc g u \<in> {Waiting, Inside} \<longrightarrow> t = u) \<and>
     (sg_isReloading g \<longleftrightarrow> (\<exists>t. sg_pc g t \<in> {Waiting, Inside}))"

lemma guard_inv_step: "guard_step g g' \<Longrightarrow> guard_inv g \<Longrightarrow> guard_inv g'"
  unfolding guard_inv_def insert_iff empty_iff
  by (induction rule: guard_step.induct) (simp_all split: if_splits, (metis guard_pc.distinct option.inject option.distinct)+)

text \<open>
  The guard lets one reload in at a time and never gets stuck. In every reachable state at most one goroutine is inside, at
  most one waits for the mutex, and while any of them has not left, some step that is not a refused start is possible.
\<close>

theorem safeguard_excludes:
  assumes "guard_step\<^sup>*\<^sup>* NewReloadSafeguard g"
  shows "(sg_pc g t = Inside \<and> sg_pc g u = Inside \<longrightarrow> t = u) \<and> (sg_pc g t = Waiting \<and> sg_pc g u = Waiting \<longrightarrow> t = u) \<and>
    (sg_pc g t \<noteq> Outside \<longrightarrow> (\<exists>g'. guard_step g g' \<and> g' \<noteq> g))"
proof -
  have inv: "guard_inv g"
    using assms
  proof (induction rule: rtranclp_induct)
    case base
    then show ?case by (simp add: guard_inv_def NewReloadSafeguard_def)
  next
    case (step y z)
    then show ?case by (blast intro: guard_inv_step)
  qed
  have "\<exists>g'. guard_step g g' \<and> g' \<noteq> g" if "sg_pc g t \<noteq> Outside"
  proof (cases "sg_owner g")
    case None
    then have "sg_pc g t = Waiting" using inv that by (cases "sg_pc g t") (auto simp: guard_inv_def)
    then show ?thesis using guard_step.lock [of g t] None by (intro exI conjI) (auto dest: arg_cong [of _ _ sg_owner])
  next
    case (Some w)
    then consider "sg_pc g w = Inside" | "sg_pc g w = Releasing" using inv by (auto simp: guard_inv_def)
    then show ?thesis
    proof cases
      case 1
      then have "sg_isReloading g" using inv by (auto simp: guard_inv_def)
      then show ?thesis using guard_step.clear [OF 1] by (intro exI conjI) (auto dest: arg_cong [of _ _ sg_isReloading])
    next
      case 2
      then show ?thesis using guard_step.unlock [OF 2] Some by (intro exI conjI) (auto dest: arg_cong [of _ _ sg_owner])
    qed
  qed
  with inv show ?thesis by (auto simp: guard_inv_def)
qed

theorem safeguard_excludes_witness:
  "\<exists>g. guard_step\<^sup>*\<^sup>* NewReloadSafeguard g \<and> sg_pc g 0 = Waiting \<and> (\<exists>g'. guard_step g g' \<and> g' \<noteq> g)"
proof -
  let ?g = "NewReloadSafeguard\<lparr>sg_isReloading := True, sg_pc := (sg_pc NewReloadSafeguard)(0 := Waiting)\<rparr>"
  have "guard_step NewReloadSafeguard ?g" by (rule guard_step.start) (simp_all add: NewReloadSafeguard_def)
  then have r: "guard_step\<^sup>*\<^sup>* NewReloadSafeguard ?g" by blast
  have w: "sg_pc ?g 0 = Waiting" by simp
  have "\<exists>g'. guard_step ?g g' \<and> g' \<noteq> ?g" using safeguard_excludes [OF r, of 0 0] w by simp
  then show ?thesis using r w by blast
qed

end
