(* ===== verification/Dc_Cache.thy ===== *)
theory Dc_Cache
  imports Dc_Plugins
begin

text \<open>
  \<open>pkg/dnscrypt/plugin_cache.go\<close>: the cache of responses. The SIEVE cache is a third-party package: \<open>sieve_ok\<close> states that
  a lookup returns what was inserted last for a key or nothing, since entries may be evicted. The hash that makes
  the key is an argument.
\<close>

section \<open>The cache package\<close>

record CachedResponse =
  cr_expiration :: int
  cr_msg :: Msg

record ('c, 'k) sieve =
  NewSharded :: "int \<Rightarrow> 'c option"
  sieve_Get :: "'k \<Rightarrow> 'c \<Rightarrow> CachedResponse option \<times> 'c"
  sieve_Insert :: "'k \<Rightarrow> CachedResponse \<Rightarrow> 'c \<Rightarrow> 'c"

definition sieve_ok :: "('c, 'k) sieve \<Rightarrow> ('c \<Rightarrow> 'k \<rightharpoonup> CachedResponse) \<Rightarrow> bool" where
  "sieve_ok C content \<longleftrightarrow>
     (\<forall>n c. NewSharded C n = Some c \<longrightarrow> content c = Map.empty) \<and>
     (\<forall>k c. fst (sieve_Get C k c) = content c k \<and> content (snd (sieve_Get C k c)) = content c) \<and>
     (\<forall>k v c. content (sieve_Insert C k v c) \<subseteq>\<^sub>m (content c)(k \<mapsto> v))"

text \<open>The global: the cache, \<open>nil\<close> until the first response is stored, and whether that was tried.\<close>

record 'c CachedResponses =
  cr_cache :: "'c option"
  cr_once :: bool

section \<open>Keys\<close>

definition put16_le :: "u16 \<Rightarrow> bytes" where
  "put16_le w = [ucast w, ucast (drop_bit 8 w)]"

definition NormalizeRawQName :: "bytes \<Rightarrow> bytes" where
  "NormalizeRawQName name = map (\<lambda>c. if c \<ge> 65 \<and> c \<le> 90 then c + 32 else c) name"

definition cache_key_bytes :: "PluginsState \<Rightarrow> RR \<Rightarrow> bytes" where
  "cache_key_bytes s question =
     put16_le (RRToType question) @ put16_le (rr_Class question) @ [if dnssec s then 1 else 0] @
     NormalizeRawQName (bytes_of (rr_Name question))"

definition computeCacheKey :: "(bytes \<Rightarrow> 'k) \<Rightarrow> PluginsState \<Rightarrow> Msg \<Rightarrow> 'k" where
  "computeCacheKey h s msg = h (cache_key_bytes s (hd (msg_Question msg)))"

section \<open>The plugins\<close>

definition StaleResponseTTL :: int where
  "StaleResponseTTL = 30 * second"

text \<open>
  The vendored \<open>Msg.Copy\<close> is shallow: the copy shares its records with the cached message, whose times to live a hit therefore changes too. The model
  copies the records. The cached times to live are never read: every hit, fresh or stale, overwrites those of all the records it returns (an option record has
  none), so the answers are the same, except that queries answered from one entry at the same moment write to the same records.
\<close>

definition PluginCache_Eval :: "('c, 'k) sieve \<Rightarrow> (bytes \<Rightarrow> 'k) \<Rightarrow> int \<Rightarrow> 'c CachedResponses plugin" where
  "PluginCache_Eval C h now w s msg =
     (let cacheKey = computeCacheKey h s msg in
      case cr_cache w of
        None \<Rightarrow> (None, s, msg, w)
      | Some c \<Rightarrow>
          let (cached, c') = sieve_Get C cacheKey c; w' = w\<lparr>cr_cache := Some c'\<rparr> in
          (case cached of
             None \<Rightarrow> (None, s, msg, w')
           | Some e \<Rightarrow>
               let synth = (cr_msg e)\<lparr>msg_ID := msg_ID msg, msg_Response := True, msg_Question := msg_Question msg\<rparr> in
               if now > cr_expiration e then
                 (None, s\<lparr>stale := Some (updateTTL now synth (now + StaleResponseTTL))\<rparr>, msg, w')
               else
                 (None, s\<lparr>synthResponse := Some (updateTTL now synth (cr_expiration e)), action := PluginsActionSynth,
                          cacheHit := True\<rparr>, msg, w')))"

definition response_ttl :: "PluginsState \<Rightarrow> Msg \<Rightarrow> int" where
  "response_ttl s msg = getMinTTL msg (cacheMinTTL s) (cacheMaxTTL s) (cacheNegMinTTL s) (cacheNegMaxTTL s)"

definition cacheable :: "Msg \<Rightarrow> bool" where
  "cacheable msg =
     (\<not> (msg_Rcode msg \<noteq> RcodeSuccess \<and> msg_Rcode msg \<noteq> RcodeNameError \<and> msg_Rcode msg \<noteq> RcodeNotAuth) \<and> \<not> msg_Truncated msg)"

definition PluginCacheResponse_Eval ::
  "('c, 'k) sieve \<Rightarrow> (bytes \<Rightarrow> 'k) \<Rightarrow> int \<Rightarrow> int \<Rightarrow> 'c CachedResponses plugin" where
  "PluginCacheResponse_Eval C h cacheSize now w s msg =
     (if \<not> cacheable msg then (None, s, msg, w)
      else
        let cacheKey = computeCacheKey h s msg;
            e = \<lparr>cr_expiration = now + response_ttl s msg, cr_msg = msg\<rparr>;
            made = NewSharded C cacheSize;
            w1 = (if cr_once w then w
                  else w\<lparr>cr_once := True, cr_cache := (if made = None then cr_cache w else made)\<rparr>) in
        if \<not> cr_once w \<and> made = None then (Some (PluginError ''failed to initialize the cache''), s, msg, w1)
        else
          let w2 = (case cr_cache w1 of None \<Rightarrow> w1 | Some c \<Rightarrow> w1\<lparr>cr_cache := Some (sieve_Insert C cacheKey e c)\<rparr>) in
          (None, s, updateTTL now msg (cr_expiration e), w2))"

section \<open>Where cached answers come from\<close>

lemma put16_le_inj [simp]: "put16_le a = put16_le b \<longleftrightarrow> a = b"
  by (metis be16_put16 list.inject put16_le_def)

lemma cache_key_bytes_eq:
  "cache_key_bytes s q = cache_key_bytes s' q' \<longleftrightarrow>
     RRToType q = RRToType q' \<and> rr_Class q = rr_Class q' \<and> dnssec s = dnssec s' \<and>
     NormalizeRawQName (bytes_of (rr_Name q)) = NormalizeRawQName (bytes_of (rr_Name q'))"
proof -
  have len: "length (put16_le w) = 2" for w by (simp add: put16_le_def)
  show ?thesis by (simp add: cache_key_bytes_def append_eq_append_conv len)
qed

text \<open>The lookups and stores of a running proxy, with the responses stored so far.\<close>

type_synonym stored_response = "int \<times> PluginsState \<times> Msg"

inductive cache_runs ::
  "('c, 'k) sieve \<Rightarrow> (bytes \<Rightarrow> 'k) \<Rightarrow> int \<Rightarrow> stored_response list \<Rightarrow> 'c CachedResponses \<Rightarrow> bool"
  for C h cacheSize where
  run_start: "cache_runs C h cacheSize [] \<lparr>cr_cache = None, cr_once = False\<rparr>"
| run_lookup: "cache_runs C h cacheSize hist w \<Longrightarrow> PluginCache_Eval C h now w s msg = (e, s', msg', w') \<Longrightarrow>
    cache_runs C h cacheSize hist w'"
| run_store: "cache_runs C h cacheSize hist w \<Longrightarrow>
    PluginCacheResponse_Eval C h cacheSize now w s msg = (e, s', msg', w') \<Longrightarrow>
    cache_runs C h cacheSize ((now, s, msg) # hist) w'"

definition from_history ::
  "(bytes \<Rightarrow> 'k) \<Rightarrow> stored_response list \<Rightarrow> 'k \<Rightarrow> CachedResponse \<Rightarrow> bool" where
  "from_history h hist k e \<longleftrightarrow>
     (\<exists>(t, s, m) \<in> set hist. k = computeCacheKey h s m \<and> cacheable m \<and>
        e = \<lparr>cr_expiration = t + response_ttl s m, cr_msg = m\<rparr>)"

lemma from_history_mono: "from_history h hist k e \<Longrightarrow> from_history h (x # hist) k e"
  by (auto simp: from_history_def)

lemma store_content:
  assumes C: "sieve_ok C content"
    and p: "PluginCacheResponse_Eval C h n now w s msg = (e, s', msg', w')"
    and c: "cr_cache w' = Some c'" "content c' k = Some x"
  shows "(\<exists>c0. cr_cache w = Some c0 \<and> content c0 k = Some x) \<or> from_history h [(now, s, msg)] k x"
proof (cases "cacheable msg")
  case False
  then show ?thesis using p c by (auto simp: PluginCacheResponse_Eval_def)
next
  case True
  have ins: "content (sieve_Insert C k' v c0) k = Some x \<Longrightarrow> content c0 k = Some x \<or> k = k' \<and> x = v" for k' v c0
  proof -
    assume "content (sieve_Insert C k' v c0) k = Some x"
    moreover have "content (sieve_Insert C k' v c0) \<subseteq>\<^sub>m (content c0)(k' \<mapsto> v)"
      using C by (simp add: sieve_ok_def)
    ultimately have "((content c0)(k' \<mapsto> v)) k = Some x" by (metis domI map_le_def)
    then show ?thesis by (simp split: if_splits)
  qed
  have new: "NewSharded C n = Some c0 \<Longrightarrow> content c0 = Map.empty" for c0
    using C by (simp add: sieve_ok_def)
  from p True c show ?thesis
    by (auto simp: PluginCacheResponse_Eval_def Let_def from_history_def new dest!: ins split: if_splits option.splits)
qed

lemma lookup_content:
  assumes "sieve_ok C content" "PluginCache_Eval C h now w s msg = (e, s', msg', w')" "cr_cache w' = Some c'"
  shows "\<exists>c. cr_cache w = Some c \<and> content c' = content c"
proof (cases "cr_cache w")
  case None
  then show ?thesis using assms by (auto simp: PluginCache_Eval_def)
next
  case (Some c)
  obtain cached c1 where g: "sieve_Get C (computeCacheKey h s msg) c = (cached, c1)" by fastforce
  then have "content c1 = content c" using assms(1) by (metis sieve_ok_def snd_conv)
  moreover have "c' = c1"
    using assms(2,3) Some g by (auto simp: PluginCache_Eval_def Let_def split: option.splits if_splits)
  ultimately show ?thesis using Some by simp
qed

lemma cache_from_history:
  assumes C: "sieve_ok C content" and r: "cache_runs C h n hist w"
  shows "cr_cache w = Some c \<Longrightarrow> content c k = Some x \<Longrightarrow> from_history h hist k x"
  using r
proof (induction arbitrary: c)
  case run_start
  then show ?case by simp
next
  case (run_lookup hist w now s msg e s' msg' w')
  then show ?case using lookup_content [OF C run_lookup.hyps(2)] by fastforce
next
  case (run_store hist w now s msg e s' msg' w')
  from store_content [OF C run_store.hyps(2) run_store.prems] show ?case
    using run_store.IH by (auto simp: from_history_def)
qed

text \<open>
  C13: a cached answer is a stored response for the same question, and still valid. After any sequence of lookups and
  stores, when a lookup answers a query from the cache, the answer is the copy of a cacheable response
  stored earlier under the same key, its caching time has not passed, it carries the identifier and question of the query,
  and its times to live are the seconds left.
\<close>

theorem cache_hit_is_fresh:
  assumes "sieve_ok C content" "cache_runs C h n hist w"
    and "PluginCache_Eval C h now w s msg = (e, s', msg', w')" "action s \<noteq> PluginsActionSynth" "action s' = PluginsActionSynth"
  shows "\<exists>(t, s0, m0) \<in> set hist.
    computeCacheKey h s0 m0 = computeCacheKey h s msg \<and> cacheable m0 \<and> now \<le> t + response_ttl s0 m0 \<and>
    synthResponse s' = Some (updateTTL now
      (m0\<lparr>msg_ID := msg_ID msg, msg_Response := True, msg_Question := msg_Question msg\<rparr>) (t + response_ttl s0 m0))"
proof -
  let ?k = "computeCacheKey h s msg"
  obtain c where c: "cr_cache w = Some c"
    using assms(3-5) by (cases "cr_cache w") (auto simp: PluginCache_Eval_def)
  obtain cached c1 where g: "sieve_Get C ?k c = (cached, c1)" by fastforce
  then have cached: "cached = content c ?k" using assms(1) by (metis sieve_ok_def fst_conv)
  obtain x where x: "content c ?k = Some x" "now \<le> cr_expiration x"
    "synthResponse s' = Some (updateTTL now ((cr_msg x)\<lparr>msg_ID := msg_ID msg, msg_Response := True, msg_Question := msg_Question msg\<rparr>) (cr_expiration x))"
    using assms(3-5) c g cached by (auto simp: PluginCache_Eval_def Let_def split: option.splits if_splits)
  from cache_from_history [OF assms(1,2) c x(1)] x show ?thesis
    by (fastforce simp: from_history_def)
qed

section \<open>Example\<close>

definition map_sieve :: "('k \<rightharpoonup> CachedResponse, 'k) sieve" where
  "map_sieve = \<lparr>NewSharded = (\<lambda>n. if n > 0 then Some Map.empty else None), sieve_Get = (\<lambda>k c. (c k, c)),
                sieve_Insert = (\<lambda>k v c. c(k \<mapsto> v))\<rparr>"

lemma map_sieve_ok: "sieve_ok map_sieve (\<lambda>c. c)"
  by (simp add: sieve_ok_def map_sieve_def)

definition cached_reply :: Msg where
  "cached_reply = sample_query\<lparr>msg_Response := True,
     msg_Answer := [\<lparr>rr_Name = ''X.ads.example.'', rr_Class = 1, rr_TTL = 300, rr_Data = RD_A (Addr4 [1, 2, 3, 4])\<rparr>]\<rparr>"

abbreviation sample_state :: PluginsState where
  "sample_state \<equiv> NewPluginsState sample_ttls ''udp'' None ''udp''"

definition filled :: "((bytes \<rightharpoonup> CachedResponse)) CachedResponses" where
  "filled = snd (snd (snd (PluginCacheResponse_Eval map_sieve id 10 0 \<lparr>cr_cache = None, cr_once = False\<rparr> sample_state cached_reply)))"

theorem cache_hit_is_fresh_witness:
  "map_option (\<lambda>m. map rr_TTL (msg_Answer m))
     (synthResponse (fst (snd (PluginCache_Eval map_sieve id (100 * second) filled sample_state (sample_query\<lparr>msg_ID := 9\<rparr>))))) = Some [200]"
proof -
  let ?q = "sample_query\<lparr>msg_ID := 9\<rparr>"
  have ttl: "response_ttl sample_state cached_reply = 300 * second"
    by (simp add: response_ttl_def cached_reply_def sample_query_def empty_Msg_def getMinTTL_def min_ttl_def NewPluginsState_def
        sample_ttls_def second_def)
  have run: "cache_runs map_sieve id 10 [(0, sample_state, cached_reply)] filled"
    unfolding filled_def by (rule run_store [OF run_start]) (rule prod_eqI; simp)+
  obtain e s' msg' w' where p: "PluginCache_Eval map_sieve id (100 * second) filled sample_state ?q = (e, s', msg', w')"
    by (metis prod_cases4)
  have key: "computeCacheKey id sample_state cached_reply = computeCacheKey id sample_state ?q"
    by (simp add: computeCacheKey_def cached_reply_def)
  have cacheable: "cacheable cached_reply"
    by (simp add: cacheable_def cached_reply_def sample_query_def empty_Msg_def)
  have "action s' = PluginsActionSynth"
    using p ttl key cacheable
    by (auto simp: PluginCache_Eval_def filled_def PluginCacheResponse_Eval_def map_sieve_def Let_def second_def
        split: if_splits option.splits)
  then have "synthResponse s' = Some (updateTTL (100 * second)
      (cached_reply\<lparr>msg_ID := 9, msg_Response := True, msg_Question := msg_Question ?q\<rparr>) (300 * second))"
    using cache_hit_is_fresh [OF map_sieve_ok run p] ttl by (simp add: NewPluginsState_def sample_query_def empty_Msg_def)
  with p show ?thesis
    by (simp add: updateTTL_def remaining_ttl_def second_def cached_reply_def Let_def)
qed

section \<open>The query stays in view\<close>

lemma cache_keeps_query: "keeps_query (PluginCache_Eval C h now)" "keeps_query (PluginCacheResponse_Eval C h cacheSize now)"
proof -
  show "keeps_query (PluginCache_Eval C h now)"
    by (rule keeps_queryI) (auto simp: PluginCache_Eval_def Let_def split: if_splits option.splits prod.splits)
  show "keeps_query (PluginCacheResponse_Eval C h cacheSize now)"
    by (rule keeps_queryI) (auto simp: PluginCacheResponse_Eval_def updateTTL_def Let_def split: if_splits)
qed

end
