(* ===== verification/Packet_Sniffer.thy ===== *)
theory Packet_Sniffer
  imports Ttl_Cache Ip_Keys
begin

text \<open>
  \<open>pkg/spoofdpi/internal/packet/sniffer.go\<close>, \<open>tcp_sniffer.go\<close> and \<open>udp_sniffer.go\<close>: learning the
  hop count of servers from the TTL of their packets, and the BPF programs that select those
  packets. The hop cache is used through the \<open>Cache\<close> interface only, so the handlers take its
  operations as arguments; the properties instantiate them with the LRU cache that
  \<open>setupPcapIO\<close> creates. Packets come decoded, as \<open>gopacket\<close> delivers them.
\<close>

section \<open>Hop counts\<close>

definition estimateHops :: "byte \<Rightarrow> byte" where
  "estimateHops ttlLeft =
     (let estimatedInitialHops = (if ttlLeft \<le> 64 then 64 else if ttlLeft \<le> 128 then 128 else 255)
      in estimatedInitialHops - ttlLeft)"

definition isLocalIP :: "bytes \<Rightarrow> bool" where
  "isLocalIP ip =
     (if length ip < 4 then False
      else if ip ! 0 = 10 then True
      else if ip ! 0 = 127 then True
      else if ip ! 0 = 172 \<and> ip ! 1 \<ge> 16 \<and> ip ! 1 \<le> 31 then True
      else if ip ! 0 = 192 \<and> ip ! 1 = 168 then True
      else if ip ! 0 = 169 \<and> ip ! 1 = 254 then True
      else False)"

record ipv4_layer =
  v4_SrcIP :: bytes
  v4_DstIP :: bytes
  v4_TTL :: byte

record ipv6_layer =
  v6_SrcIP :: bytes
  v6_HopLimit :: byte

record tcp_flags =
  SYN :: bool
  ACK :: bool

record packet =
  layer_tcp :: "tcp_flags option"
  layer_udp :: bool
  layer_ipv4 :: "ipv4_layer option"
  layer_ipv6 :: "ipv6_layer option"

section \<open>The sniffers over a cache\<close>

type_synonym 'c hop_get = "IPKey \<Rightarrow> 'c \<Rightarrow> byte option \<times> 'c"

type_synonym 'c hop_set = "IPKey \<Rightarrow> byte \<Rightarrow> cache_options option \<Rightarrow> 'c \<Rightarrow> bool \<times> 'c"

definition TCPSniffer_Register :: "'c hop_set \<Rightarrow> byte \<Rightarrow> net_IP list \<Rightarrow> 'c \<Rightarrow> 'c" where
  "TCPSniffer_Register setc defaultTTL addrs c =
     foldl (\<lambda>c v. snd (setc (NewIPKey v) defaultTTL (Some (WithSkipExisting True Options)) c)) c addrs"

definition UDPSniffer_Register :: "'c hop_set \<Rightarrow> byte \<Rightarrow> net_IP list \<Rightarrow> 'c \<Rightarrow> 'c" where
  "UDPSniffer_Register setc defaultTTL addrs c =
     foldl (\<lambda>c v. snd (setc (NewIPKey v) defaultTTL (Some (WithSkipExisting True Options)) c)) c addrs"

definition TCPSniffer_GetOptimalTTL :: "'c hop_get \<Rightarrow> IPKey \<Rightarrow> 'c \<Rightarrow> byte \<times> 'c" where
  "TCPSniffer_GetOptimalTTL getc key c =
     (let (found, c') = getc key c;
          hopCount = (case found of Some oTTL \<Rightarrow> oTTL | None \<Rightarrow> 255)
      in (max hopCount 2 - 1, c'))"

definition UDPSniffer_GetOptimalTTL :: "'c hop_get \<Rightarrow> IPKey \<Rightarrow> 'c \<Rightarrow> byte \<times> 'c" where
  "UDPSniffer_GetOptimalTTL getc key c =
     (let (found, c') = getc key c;
          hopCount = (case found of Some oTTL \<Rightarrow> oTTL | None \<Rightarrow> 255)
      in (max hopCount 2 - 1, c'))"

text \<open>The part both handlers end with: only addresses already tracked are updated.\<close>

definition update_hops :: "'c hop_get \<Rightarrow> 'c hop_set \<Rightarrow> bytes \<Rightarrow> byte \<Rightarrow> 'c \<Rightarrow> 'c" where
  "update_hops getc setc srcIP ttlLeft c =
     (let key = NewIPKey srcIP; nhops = estimateHops ttlLeft; (prev, c1) = getc key c in
      case prev of None \<Rightarrow> c1 | Some _ \<Rightarrow> snd (setc key nhops None c1))"

definition TCPSniffer_processPacket :: "'c hop_get \<Rightarrow> 'c hop_set \<Rightarrow> packet \<Rightarrow> 'c \<Rightarrow> 'c" where
  "TCPSniffer_processPacket getc setc p c =
     (case layer_tcp p of
        None \<Rightarrow> c
      | Some tcp \<Rightarrow>
          if \<not> SYN tcp \<or> \<not> ACK tcp then c
          else
            (case layer_ipv4 p of
               Some ip \<Rightarrow>
                 if isLocalIP (v4_SrcIP ip) then c
                 else update_hops getc setc (v4_SrcIP ip) (v4_TTL ip) c
             | None \<Rightarrow>
                 (case layer_ipv6 p of
                    Some ip \<Rightarrow> update_hops getc setc (v6_SrcIP ip) (v6_HopLimit ip) c
                  | None \<Rightarrow> c)))"

definition UDPSniffer_processPacket :: "'c hop_get \<Rightarrow> 'c hop_set \<Rightarrow> packet \<Rightarrow> 'c \<Rightarrow> 'c" where
  "UDPSniffer_processPacket getc setc p c =
     (if \<not> layer_udp p then c
      else
        (case layer_ipv4 p of
           Some ip \<Rightarrow>
             if isLocalIP (v4_SrcIP ip) then c
             else if \<not> isLocalIP (v4_DstIP ip) then c
             else update_hops getc setc (v4_SrcIP ip) (v4_TTL ip) c
         | None \<Rightarrow>
             (case layer_ipv6 p of
                Some ip \<Rightarrow> update_hops getc setc (v6_SrcIP ip) (v6_HopLimit ip) c
              | None \<Rightarrow> c)))"

section \<open>BPF programs\<close>

record BPFInstruction =
  Op :: u16
  Jt :: byte
  Jf :: byte
  K :: u32

datatype LinkType = LinkTypeEthernet | LinkTypeNull | LinkTypeLoop | LinkTypeRaw | LinkTypeOther

definition ins :: "u16 \<Rightarrow> byte \<Rightarrow> byte \<Rightarrow> u32 \<Rightarrow> BPFInstruction" where
  "ins op jt jf k = \<lparr>Op = op, Jt = jt, Jf = jf, K = k\<rparr>"

definition base_offset :: "LinkType \<Rightarrow> u32" where
  "base_offset linkType = (case linkType of
      LinkTypeEthernet \<Rightarrow> 14 | LinkTypeNull \<Rightarrow> 4 | LinkTypeLoop \<Rightarrow> 4 | LinkTypeRaw \<Rightarrow> 0
    | LinkTypeOther \<Rightarrow> 14)"

definition generateSynAckFilter :: "LinkType \<Rightarrow> BPFInstruction list" where
  "generateSynAckFilter linkType =
     (let baseOffset = base_offset linkType in
      (if linkType = LinkTypeEthernet then [ins 0x28 0 0 12, ins 0x15 0 8 0x0800]
       else [ins 0x30 0 0 baseOffset, ins 0x54 0 0 0xf0, ins 0x15 0 7 0x40])
      @ [ins 0x30 0 0 (baseOffset + 9), ins 0x15 0 6 6]
      @ [ins 0x28 0 0 (baseOffset + 6), ins 0x45 4 0 0x1fff]
      @ [ins 0xb1 0 0 baseOffset]
      @ [ins 0x50 0 0 (baseOffset + 13), ins 0x54 0 0 18, ins 0x15 0 1 18]
      @ [ins 0x6 0 0 0x00040000, ins 0x6 0 0 0x00000000])"

definition generateUdpFilter :: "LinkType \<Rightarrow> BPFInstruction list" where
  "generateUdpFilter linkType =
     (let baseOffset = base_offset linkType in
      (if linkType = LinkTypeEthernet then [ins 0x28 0 0 12, ins 0x15 0 3 0x0800]
       else [ins 0x30 0 0 baseOffset, ins 0x54 0 0 0xf0, ins 0x15 0 3 0x40])
      @ [ins 0x30 0 0 (baseOffset + 9), ins 0x15 0 1 17]
      @ [ins 0x6 0 0 0x00040000, ins 0x6 0 0 0x00000000])"

text \<open>
  The classic BPF machine, restricted to the operations these programs use: accumulator, index
  register and program counter. It returns the number of bytes to keep; a load beyond the packet
  returns 0. Jumps only go forward, so a run makes at most one step per instruction, which bounds
  the fuel.
\<close>

fun bpf_run :: "nat \<Rightarrow> BPFInstruction list \<Rightarrow> bytes \<Rightarrow> nat \<Rightarrow> u32 \<Rightarrow> u32 \<Rightarrow> u32 option" where
  "bpf_run 0 prog p pc a x = None"
| "bpf_run (Suc fuel) prog p pc a x =
     (if pc < length prog then
        let i = prog ! pc; k = unat (K i) in
        if Op i = 0x28 then
          (if k + 1 < length p then bpf_run fuel prog p (pc + 1) (ucast (be16 (p ! k) (p ! (k + 1)))) x
           else Some 0)
        else if Op i = 0x30 then
          (if k < length p then bpf_run fuel prog p (pc + 1) (ucast (p ! k)) x else Some 0)
        else if Op i = 0x50 then
          (if unat x + k < length p then bpf_run fuel prog p (pc + 1) (ucast (p ! (unat x + k))) x else Some 0)
        else if Op i = 0x54 then bpf_run fuel prog p (pc + 1) (a AND K i) x
        else if Op i = 0x15 then
          bpf_run fuel prog p (pc + 1 + unat (if a = K i then Jt i else Jf i)) a x
        else if Op i = 0x45 then
          bpf_run fuel prog p (pc + 1 + unat (if a AND K i \<noteq> 0 then Jt i else Jf i)) a x
        else if Op i = 0xb1 then
          (if k < length p then bpf_run fuel prog p (pc + 1) a (4 * ucast (p ! k AND 0x0f)) else Some 0)
        else if Op i = 0x06 then Some (K i)
        else None
      else None)"

definition bpf :: "BPFInstruction list \<Rightarrow> bytes \<Rightarrow> u32 option" where
  "bpf prog p = bpf_run (length prog) prog p 0 0 0"

section \<open>What the programs accept\<close>

lemma unat_ucast16: "unat (ucast (w :: u16) :: u32) = unat w"
  using unsigned_less [of w, where 'a = nat] by (simp add: unsigned_ucast_eq take_bit_nat_eq_self)

lemma unat_ucast8: "unat (ucast (w :: byte) :: u32) = unat w"
  using unsigned_less [of w, where 'a = nat] by (simp add: unsigned_ucast_eq take_bit_nat_eq_self)

lemma ucast16_eq: "unat v < 2 ^ 16 \<Longrightarrow> ucast (w :: u16) = (v :: u32) \<longleftrightarrow> w = ucast v"
  unfolding word_unat_eq_iff unat_ucast16 by (simp add: unsigned_ucast_eq take_bit_nat_eq_self)

lemma ucast8_eq: "unat v < 2 ^ 8 \<Longrightarrow> ucast (w :: byte) = (v :: u32) \<longleftrightarrow> w = ucast v"
  unfolding word_unat_eq_iff unat_ucast8 by (simp add: unsigned_ucast_eq take_bit_nat_eq_self)

lemma ucast_AND:
  "ucast (w :: u16) AND (0x1fff :: u32) = ucast (w AND 0x1fff)"
  "ucast (b :: byte) AND (0x12 :: u32) = ucast (b AND 0x12)"
  "ucast (b :: byte) AND (0xf0 :: u32) = ucast (b AND 0xf0)"
proof -
  have "bit w n \<Longrightarrow> n < 16" "bit b n \<Longrightarrow> n < 8" for n
    using bit_imp_le_length [of w n] bit_imp_le_length [of b n] by simp_all
  then show "ucast w AND (0x1fff :: u32) = ucast (w AND 0x1fff)"
    "ucast b AND (0x12 :: u32) = ucast (b AND 0x12)" "ucast b AND (0xf0 :: u32) = ucast (b AND 0xf0)"
    by (auto intro!: bit_word_eqI simp: bit_simps)
qed

lemma high_nibble_ne: "b AND 0xf0 \<noteq> (18 :: byte)"
proof
  assume "b AND 0xf0 = 18"
  then have "bit (b AND 0xf0) 1 = bit (18 :: byte) 1" by simp
  then show False by (simp add: bit_and_iff)
qed

lemma ihl_bytes: "unat (4 * ucast (w AND 0x0f) :: u32) = 4 * unat (w AND (0x0f :: byte))"
proof -
  have "unat (w AND 0x0f) \<le> 15"
    using word_and_le1 [of w "0x0f"] by (simp add: word_le_nat_alt)
  then show ?thesis by (simp add: unat_word_ariths unat_ucast8)
qed

lemmas bpf_numeral = bpf_run.simps(2) [of "pred_numeral n" for n, folded numeral_eq_Suc]

lemmas bpf_eval = bpf_def base_offset_def bpf_numeral ins_def ucast16_eq ucast8_eq ihl_bytes
  ucast_AND high_nibble_ne Let_def

text \<open>The header fields of a captured frame.\<close>

definition ip_start :: "LinkType \<Rightarrow> nat" where
  "ip_start lt = unat (base_offset lt)"

definition frame_is_ipv4 :: "LinkType \<Rightarrow> bytes \<Rightarrow> bool" where
  "frame_is_ipv4 lt p \<longleftrightarrow>
     (if lt = LinkTypeEthernet then be16 (p ! 12) (p ! 13) = 0x0800 else p ! ip_start lt AND 0xf0 = 0x40)"

definition frame_protocol :: "LinkType \<Rightarrow> bytes \<Rightarrow> byte" where
  "frame_protocol lt p = p ! (ip_start lt + 9)"

definition frame_fragmented :: "LinkType \<Rightarrow> bytes \<Rightarrow> bool" where
  "frame_fragmented lt p \<longleftrightarrow> be16 (p ! (ip_start lt + 6)) (p ! (ip_start lt + 7)) AND 0x1fff \<noteq> 0"

definition frame_syn_ack :: "LinkType \<Rightarrow> bytes \<Rightarrow> bool" where
  "frame_syn_ack lt p \<longleftrightarrow>
     (let flags = 4 * unat (p ! ip_start lt AND 0x0f) + (ip_start lt + 13) in
      flags < length p \<and> p ! flags AND 18 = 18)"

lemma udp_filter_run:
  assumes "ip_start lt + 10 \<le> length p"
  shows "bpf (generateUdpFilter lt) p =
    Some (if frame_is_ipv4 lt p \<and> frame_protocol lt p = 17 then 0x40000 else 0)"
proof -
  obtain n where "length p = ip_start lt + 10 + n" using assms le_Suc_ex by blast
  then show ?thesis
    unfolding generateUdpFilter_def
    by (cases lt) (simp_all add: bpf_eval frame_is_ipv4_def frame_protocol_def ip_start_def)
qed

lemma syn_ack_filter_run:
  assumes "ip_start lt + 10 \<le> length p"
  shows "bpf (generateSynAckFilter lt) p =
    Some (if frame_is_ipv4 lt p
      then if frame_protocol lt p = 6 \<and> \<not> frame_fragmented lt p
        then if frame_syn_ack lt p then 0x40000 else 0
        else 0x40000
      else if lt = LinkTypeEthernet then 0x40000 else 0)"
proof -
  obtain n where "length p = ip_start lt + 10 + n" using assms le_Suc_ex by blast
  then show ?thesis
    unfolding generateSynAckFilter_def
    by (cases lt) (simp_all add: bpf_eval frame_is_ipv4_def frame_protocol_def ip_start_def
        frame_fragmented_def frame_syn_ack_def)
qed

section \<open>Learning hop counts\<close>

lemma estimateHops_eq:
  "unat (estimateHops t) = (if unat t \<le> 64 then 64 - unat t else if unat t \<le> 128 then 128 - unat t
     else 255 - unat t)"
proof -
  have sub: "unat (c - t) = unat c - unat t" if "t \<le> c" for c :: byte
    using that by (rule unat_sub)
  have t: "unat t \<le> 255" using unsigned_less [of t, where 'a = nat] by simp
  have le: "t \<le> 64 \<longleftrightarrow> unat t \<le> 64" "t \<le> 128 \<longleftrightarrow> unat t \<le> 128" "t \<le> 255 \<longleftrightarrow> unat t \<le> 255"
    by (simp_all add: word_le_nat_alt)
  with t sub [of 64] sub [of 128] sub [of 255] show ?thesis
    by (simp add: estimateHops_def Let_def)
qed

lemma optimal_ttl_bounds: "unat (max h 2 - 1 :: byte) = max (unat h) 2 - 1"
proof -
  have m: "unat (max h 2) = max (unat h) 2" by (simp add: max_def word_le_nat_alt)
  have "(1 :: byte) \<le> max h 2" by (simp add: word_le_nat_alt m)
  then have "unat (max h 2 - 1) = unat (max h 2) - unat (1 :: byte)" by (rule unat_sub)
  with m show ?thesis by simp
qed

text \<open>The sniffers as clients of any cache that keeps what it accepts.\<close>

locale hop_cache = retaining_cache inv peek getc setc deletec hasc
  for inv :: "'c \<Rightarrow> bool"
    and peek :: "int \<Rightarrow> 'c \<Rightarrow> IPKey \<Rightarrow> byte option"
    and getc :: "int \<Rightarrow> IPKey \<Rightarrow> 'c \<Rightarrow> byte option \<times> 'c"
    and setc :: "int \<Rightarrow> IPKey \<Rightarrow> byte \<Rightarrow> cache_options option \<Rightarrow> 'c \<Rightarrow> bool \<times> 'c"
    and deletec :: "IPKey \<Rightarrow> 'c \<Rightarrow> 'c"
    and hasc :: "int \<Rightarrow> IPKey \<Rightarrow> 'c \<Rightarrow> bool"
begin

lemma update_tracked:
  assumes "inv c" "peek t c (NewIPKey ip) \<noteq> None"
  shows "peek t (update_hops (getc t) (setc t) ip ttl' c) (NewIPKey ip) = Some (estimateHops ttl')"
proof -
  obtain w where w: "peek t c (NewIPKey ip) = Some w" using assms(2) by blast
  obtain c1 where g: "getc t (NewIPKey ip) c = (Some w, c1)"
    using get_value [OF assms(1), of t "NewIPKey ip"] w by (metis prod.collapse)
  have "inv c1" using get_inv [OF assms(1), of t "NewIPKey ip"] g by simp
  then show ?thesis by (simp add: update_hops_def g Let_def plain_set)
qed

lemma update_untracked_stays:
  assumes "inv c" "peek t c k = None"
  shows "peek t (update_hops (getc t) (setc t) ip ttl' c) k = None"
proof -
  let ?key = "NewIPKey ip"
  obtain r c1 where g: "getc t ?key c = (r, c1)" by fastforce
  have c1: "inv c1" "peek t c1 k = None" "r = peek t c ?key"
    using get_inv [OF assms(1), of t ?key] get_keeps [OF assms(1), of t t ?key k]
      get_value [OF assms(1), of t ?key] g assms(2) by simp_all
  show ?thesis
  proof (cases r)
    case None
    with c1 show ?thesis by (simp add: update_hops_def g Let_def)
  next
    case (Some w)
    with c1(3) assms(2) have "k \<noteq> ?key" by auto
    then have "peek t (snd (setc t ?key h None c1)) k = None" for h
      using set_other [OF c1(1)] c1(2) by (metis not_None_eq)
    with Some show ?thesis by (simp add: update_hops_def g Let_def)
  qed
qed

lemma update_inv: "inv c \<Longrightarrow> inv (update_hops (getc t) (setc t) ip ttl' c)"
  using get_inv [of c t "NewIPKey ip"] set_inv
  by (auto simp: update_hops_def Let_def split: prod.splits option.splits)

lemma register_last:
  assumes "inv c"
  shows "inv (TCPSniffer_Register (setc t) d addrs c)"
    "peek t (TCPSniffer_Register (setc t) d (addrs @ [v]) c) (NewIPKey v) =
      (case peek t (TCPSniffer_Register (setc t) d addrs c) (NewIPKey v) of None \<Rightarrow> Some d | Some w \<Rightarrow> Some w)"
proof -
  show i: "inv (TCPSniffer_Register (setc t) d addrs c)" for addrs
    by (induction addrs rule: rev_induct) (simp_all add: TCPSniffer_Register_def assms set_inv)
  show "peek t (TCPSniffer_Register (setc t) d (addrs @ [v]) c) (NewIPKey v) =
      (case peek t (TCPSniffer_Register (setc t) d addrs c) (NewIPKey v) of None \<Rightarrow> Some d | Some w \<Rightarrow> Some w)"
    using skip_existing_set [OF i [of addrs] refl, of t "NewIPKey v" d]
    by (simp add: TCPSniffer_Register_def)
qed

end

interpretation hops: hop_cache "lru_inv IPKey_Bytes" "\<lambda>_. lru_peek IPKey_Bytes"
  "\<lambda>_. LRUCache_Get IPKey_Bytes" "\<lambda>_. LRUCache_Set IPKey_Bytes" "LRUCache_Delete IPKey_Bytes"
  "\<lambda>_. LRUCache_Has IPKey_Bytes"
  by unfold_locales

section \<open>Properties\<close>

abbreviation "hop_get \<equiv> LRUCache_Get IPKey_Bytes"

abbreviation "hop_set \<equiv> LRUCache_Set IPKey_Bytes"

definition synack_from :: "bytes \<Rightarrow> byte \<Rightarrow> packet" where
  "synack_from src t = \<lparr>layer_tcp = Some \<lparr>SYN = True, ACK = True\<rparr>, layer_udp = False,
     layer_ipv4 = Some \<lparr>v4_SrcIP = src, v4_DstIP = [10, 0, 0, 1], v4_TTL = t\<rparr>, layer_ipv6 = None\<rparr>"

text \<open>After a SYN/ACK from a tracked public IPv4 address with remaining TTL \<open>t\<close>, the TTL chosen
  for decoys to that address is one less than the estimated hop count, at least 1 and at most 126,
  so decoys expire before the server. No packet ever makes the sniffer track an address nobody
  registered.\<close>

theorem sniffer_learns_hops:
  assumes "lru_inv IPKey_Bytes c" "layer_tcp p = Some \<lparr>SYN = True, ACK = True\<rparr>"
    and "layer_ipv4 p = Some ip" "\<not> isLocalIP (v4_SrcIP ip)"
    and "lru_peek IPKey_Bytes c (NewIPKey (v4_SrcIP ip)) \<noteq> None"
    and "c' = TCPSniffer_processPacket hop_get hop_set p c"
    and "ttl' = fst (TCPSniffer_GetOptimalTTL hop_get (NewIPKey (v4_SrcIP ip)) c')"
  shows "unat ttl' = max (unat (estimateHops (v4_TTL ip))) 2 - 1 \<and> 1 \<le> unat ttl' \<and> unat ttl' \<le> 126 \<and>
    (\<forall>k. lru_peek IPKey_Bytes c k = None \<longrightarrow> lru_peek IPKey_Bytes c' k = None)"
proof -
  have c': "c' = update_hops hop_get hop_set (v4_SrcIP ip) (v4_TTL ip) c"
    using assms(2-4,6) by (simp add: TCPSniffer_processPacket_def)
  have inv: "lru_inv IPKey_Bytes c'" unfolding c' by (rule hops.update_inv [OF assms(1)])
  have "lru_peek IPKey_Bytes c' (NewIPKey (v4_SrcIP ip)) = Some (estimateHops (v4_TTL ip))"
    unfolding c' by (rule hops.update_tracked [OF assms(1,5)])
  then have "ttl' = max (estimateHops (v4_TTL ip)) 2 - 1"
    using Get_laws(1) [OF inv, of "NewIPKey (v4_SrcIP ip)"] assms(7)
    by (simp add: TCPSniffer_GetOptimalTTL_def split_beta)
  then have "unat ttl' = max (unat (estimateHops (v4_TTL ip))) 2 - 1"
    by (simp add: optimal_ttl_bounds)
  moreover have "unat (estimateHops (v4_TTL ip)) \<le> 126"
    by (auto simp: estimateHops_eq)
  moreover have "lru_peek IPKey_Bytes c' k = None" if "lru_peek IPKey_Bytes c k = None" for k
    unfolding c' by (rule hops.update_untracked_stays [OF assms(1) that])
  ultimately show ?thesis by auto
qed

theorem sniffer_learns_hops_witness:
  "\<exists>c. lru_inv IPKey_Bytes c \<and> fst (TCPSniffer_GetOptimalTTL hop_get (NewIPKey [8, 8, 8, 8])
     (TCPSniffer_processPacket hop_get hop_set (synack_from [8, 8, 8, 8] 56) c)) = 7"
proof -
  let ?new = "\<lparr>shards = [new_lru_shard 2], mask = 0, notifies = False, invalidated = []\<rparr>
    :: (IPKey, byte) LRUCache"
  let ?c = "TCPSniffer_Register hop_set 8 ([] @ [[8, 8, 8, 8]]) ?new"
  have n: "NewLRUCache 1 2 False = Ret ?new" by (simp add: NewLRUCache_def)
  have i0: "lru_inv IPKey_Bytes ?new" using NewLRUCache_RetD(2) [OF n] .
  have i: "lru_inv IPKey_Bytes ?c" by (rule hops.register_last(1) [OF i0])
  have k: "lru_peek IPKey_Bytes ?c (NewIPKey [8, 8, 8, 8]) \<noteq> None"
    using hops.register_last(2) [OF i0, of 8 "[]" "[8, 8, 8, 8]"] by (simp split: option.splits)
  have "unat (fst (TCPSniffer_GetOptimalTTL hop_get (NewIPKey [8, 8, 8, 8])
      (TCPSniffer_processPacket hop_get hop_set (synack_from [8, 8, 8, 8] 56) ?c))) = 7"
    using sniffer_learns_hops [OF i _ _ _ _ refl refl, of "synack_from [8, 8, 8, 8] 56"
        "\<lparr>v4_SrcIP = [8, 8, 8, 8], v4_DstIP = [10, 0, 0, 1], v4_TTL = 56\<rparr>"] k
    by (simp add: synack_from_def isLocalIP_def estimateHops_eq)
  with i show ?thesis by (intro exI [of _ ?c]) (simp add: word_unat_eq_iff)
qed

text \<open>The UDP capture program accepts exactly the IPv4 packets that carry UDP, on every link
  type, for frames that contain the protocol field.\<close>

theorem udp_filter_exact:
  assumes "ip_start lt + 10 \<le> length p"
  shows "bpf (generateUdpFilter lt) p = Some 0x40000 \<longleftrightarrow> frame_is_ipv4 lt p \<and> frame_protocol lt p = 17"
  by (simp add: udp_filter_run [OF assms])

theorem udp_filter_exact_witness:
  "bpf (generateUdpFilter LinkTypeRaw) ([0x45] @ replicate 8 0 @ [17]) = Some 0x40000"
  using udp_filter_exact [of LinkTypeRaw "[0x45] @ replicate 8 0 @ [17]"]
  by (simp add: ip_start_def base_offset_def frame_is_ipv4_def frame_protocol_def nth_append)

text \<open>The SYN/ACK capture program filters by flags only among unfragmented TCP segments. Its
  jumps for other protocols and for fragments, and on Ethernet also the one for other ether types,
  land on the accepting instruction, so all such frames are captured.\<close>

theorem syn_ack_filter_accepts_other_traffic:
  assumes "ip_start lt + 10 \<le> length p"
  shows "bpf (generateSynAckFilter lt) p = Some 0x40000 \<longleftrightarrow>
    (if frame_is_ipv4 lt p
     then frame_syn_ack lt p \<or> frame_protocol lt p \<noteq> 6 \<or> frame_fragmented lt p
     else lt = LinkTypeEthernet)"
  by (simp add: syn_ack_filter_run [OF assms])

theorem syn_ack_filter_accepts_other_traffic_witness:
  "bpf (generateSynAckFilter LinkTypeEthernet) (replicate 12 0 @ [0x08, 0x06] @ replicate 28 0) = Some 0x40000"
proof -
  let ?p = "replicate 12 0 @ [0x08, 0x06] @ replicate 28 0 :: bytes"
  have "\<not> frame_is_ipv4 LinkTypeEthernet ?p" by code_simp
  with syn_ack_filter_accepts_other_traffic [of LinkTypeEthernet ?p] show ?thesis
    by (simp add: ip_start_def base_offset_def)
qed

end
