(* ===== verification/Packet_Writer.thy ===== *)
theory Packet_Writer
  imports Ip_Keys
begin

text \<open>
  \<open>pkg/spoofdpi/internal/packet/tcp_writer.go\<close> and \<open>udp_writer.go\<close>: the protocol layers of injected
  packets. What \<open>gopacket\<close> does with the layers (\<open>SetNetworkLayerForChecksum\<close>, \<open>SerializeLayers\<close>)
  and the capture handle's \<open>WritePacketData\<close> are arguments, collected in the record \<open>injector\<close>.
\<close>

datatype net_addr = TCPAddr net_IP int | UDPAddr net_IP int | OtherAddr

datatype ether_type = EthernetTypeIPv4 | EthernetTypeIPv6

datatype ip_protocol = IPProtocolTCP | IPProtocolUDP

datatype layer =
    Ethernet bytes bytes ether_type
  | IPv4 (v4_version: byte) (ip_ttl: byte) (ip_proto: ip_protocol) (ip_src: net_IP) (ip_dst: net_IP)
  | IPv6 (v6_version: byte) (ip_ttl: byte) (ip_proto: ip_protocol) (ip_src: net_IP) (ip_dst: net_IP)
  | TCP (src_port: u16) (dst_port: u16) (seq: u32) (ack_flag: bool) (psh_flag: bool) (ack: u32) (window: u16)
  | UDP (src_port: u16) (dst_port: u16)
  | Payload bytes

datatype 'e write_error = SrcNotTCPAddr | DstNotTCPAddr | SrcNotUDPAddr | DstNotUDPAddr | Injector 'e

record ('e, 'w) injector =
  checksum_layer :: "layer \<Rightarrow> layer \<Rightarrow> 'e option"
  serialize :: "layer list \<Rightarrow> 'e + bytes"
  write_packet :: "bytes \<Rightarrow> 'w \<Rightarrow> 'e option \<times> 'w"

record mac_route =
  iface_mac :: "bytes option"
  gateway_mac :: "bytes option"

text \<open>The optional link layer both writers put in front.\<close>

definition ethernet_layer :: "bytes option \<Rightarrow> bytes option \<Rightarrow> ether_type \<Rightarrow> layer list" where
  "ethernet_layer srcMAC dstMAC t =
     (case (srcMAC, dstMAC) of (Some s, Some d) \<Rightarrow> [Ethernet s d t] | _ \<Rightarrow> [])"

section \<open>TCP\<close>

text \<open>\<open>sq\<close> and \<open>ak\<close> are the two draws of \<open>rand.Uint32\<close>.\<close>

definition TCPWriter_createIPv4Layers ::
  "('e, 'w) injector \<Rightarrow> u32 \<Rightarrow> u32 \<Rightarrow> bytes option \<Rightarrow> bytes option \<Rightarrow> net_IP \<Rightarrow> net_IP \<Rightarrow> int \<Rightarrow> int \<Rightarrow> byte \<Rightarrow>
   'e + layer list" where
  "TCPWriter_createIPv4Layers ij sq ak srcMAC dstMAC srcIP dstIP srcPort dstPort ttl =
     (let ipLayer = IPv4 4 ttl IPProtocolTCP srcIP dstIP;
          tcpLayer = TCP (word_of_int srcPort) (word_of_int dstPort) sq True True ak 12345 in
      case checksum_layer ij tcpLayer ipLayer of
        Some e \<Rightarrow> Inl e
      | None \<Rightarrow> Inr (ethernet_layer srcMAC dstMAC EthernetTypeIPv4 @ [ipLayer, tcpLayer]))"

definition TCPWriter_createIPv6Layers ::
  "('e, 'w) injector \<Rightarrow> u32 \<Rightarrow> u32 \<Rightarrow> bytes option \<Rightarrow> bytes option \<Rightarrow> net_IP \<Rightarrow> net_IP \<Rightarrow> int \<Rightarrow> int \<Rightarrow> byte \<Rightarrow>
   'e + layer list" where
  "TCPWriter_createIPv6Layers ij sq ak srcMAC dstMAC srcIP dstIP srcPort dstPort ttl =
     (let ipLayer = IPv6 6 ttl IPProtocolTCP srcIP dstIP;
          tcpLayer = TCP (word_of_int srcPort) (word_of_int dstPort) sq True True ak 12345 in
      case checksum_layer ij tcpLayer ipLayer of
        Some e \<Rightarrow> Inl e
      | None \<Rightarrow> Inr (ethernet_layer srcMAC dstMAC EthernetTypeIPv6 @ [ipLayer, tcpLayer]))"

text \<open>Serialising the layers with the payload and injecting the result.\<close>

definition inject_layers ::
  "('e, 'w) injector \<Rightarrow> bytes \<Rightarrow> 'e + layer list \<Rightarrow> 'w \<Rightarrow> ('e write_error + nat) \<times> 'w" where
  "inject_layers ij payload made w =
     (case made of
        Inl e \<Rightarrow> (Inl (Injector e), w)
      | Inr packetLayers \<Rightarrow>
          (case serialize ij (packetLayers @ [Payload payload]) of
             Inl e \<Rightarrow> (Inl (Injector e), w)
           | Inr buf \<Rightarrow>
               (case write_packet ij buf w of
                  (Some e, w') \<Rightarrow> (Inl (Injector e), w')
                | (None, w') \<Rightarrow> (Inr (length payload), w'))))"

definition TCPWriter_WriteCraftedPacket ::
  "('e, 'w) injector \<Rightarrow> mac_route \<Rightarrow> u32 \<Rightarrow> u32 \<Rightarrow> net_addr \<Rightarrow> net_addr \<Rightarrow> byte \<Rightarrow> bytes \<Rightarrow> 'w \<Rightarrow>
   ('e write_error + nat) \<times> 'w" where
  "TCPWriter_WriteCraftedPacket ij rt sq ak src dst ttl payload w =
     (case src of
        TCPAddr srcIP srcPort \<Rightarrow>
          (case dst of
             TCPAddr dstIP dstPort \<Rightarrow>
               inject_layers ij payload
                 (if To4 dstIP \<noteq> None
                  then TCPWriter_createIPv4Layers ij sq ak (iface_mac rt) (gateway_mac rt)
                         srcIP dstIP srcPort dstPort ttl
                  else TCPWriter_createIPv6Layers ij sq ak (iface_mac rt) (gateway_mac rt)
                         srcIP srcIP srcPort dstPort ttl) w
           | _ \<Rightarrow> (Inl DstNotTCPAddr, w))
      | _ \<Rightarrow> (Inl SrcNotTCPAddr, w))"

section \<open>UDP\<close>

definition UDPWriter_createIPv4Layers ::
  "('e, 'w) injector \<Rightarrow> bytes option \<Rightarrow> bytes option \<Rightarrow> net_IP \<Rightarrow> net_IP \<Rightarrow> int \<Rightarrow> int \<Rightarrow> byte \<Rightarrow> 'e + layer list" where
  "UDPWriter_createIPv4Layers ij srcMAC dstMAC srcIP dstIP srcPort dstPort ttl =
     (let ipLayer = IPv4 4 ttl IPProtocolUDP srcIP dstIP;
          udpLayer = UDP (word_of_int srcPort) (word_of_int dstPort) in
      case checksum_layer ij udpLayer ipLayer of
        Some e \<Rightarrow> Inl e
      | None \<Rightarrow> Inr (ethernet_layer srcMAC dstMAC EthernetTypeIPv4 @ [ipLayer, udpLayer]))"

definition UDPWriter_createIPv6Layers ::
  "('e, 'w) injector \<Rightarrow> bytes option \<Rightarrow> bytes option \<Rightarrow> net_IP \<Rightarrow> net_IP \<Rightarrow> int \<Rightarrow> int \<Rightarrow> byte \<Rightarrow> 'e + layer list" where
  "UDPWriter_createIPv6Layers ij srcMAC dstMAC srcIP dstIP srcPort dstPort ttl =
     (let ipLayer = IPv6 6 ttl IPProtocolUDP srcIP dstIP;
          udpLayer = UDP (word_of_int srcPort) (word_of_int dstPort) in
      case checksum_layer ij udpLayer ipLayer of
        Some e \<Rightarrow> Inl e
      | None \<Rightarrow> Inr (ethernet_layer srcMAC dstMAC EthernetTypeIPv6 @ [ipLayer, udpLayer]))"

definition UDPWriter_WriteCraftedPacket ::
  "('e, 'w) injector \<Rightarrow> mac_route \<Rightarrow> net_addr \<Rightarrow> net_addr \<Rightarrow> byte \<Rightarrow> bytes \<Rightarrow> 'w \<Rightarrow>
   ('e write_error + nat) \<times> 'w" where
  "UDPWriter_WriteCraftedPacket ij rt src dst ttl payload w =
     (case src of
        UDPAddr srcIP srcPort \<Rightarrow>
          (case dst of
             UDPAddr dstIP dstPort \<Rightarrow>
               inject_layers ij payload
                 (if To4 dstIP \<noteq> None
                  then UDPWriter_createIPv4Layers ij (iface_mac rt) (gateway_mac rt)
                         srcIP dstIP srcPort dstPort ttl
                  else UDPWriter_createIPv6Layers ij (iface_mac rt) (gateway_mac rt)
                         srcIP dstIP srcPort dstPort ttl) w
           | _ \<Rightarrow> (Inl DstNotUDPAddr, w))
      | _ \<Rightarrow> (Inl SrcNotUDPAddr, w))"

section \<open>Properties\<close>

definition ip_layers :: "layer list \<Rightarrow> layer list" where
  "ip_layers ls = filter (\<lambda>l. case l of IPv4 _ _ _ _ _ \<Rightarrow> True | IPv6 _ _ _ _ _ \<Rightarrow> True | _ \<Rightarrow> False) ls"

lemma ip_layers_ethernet [simp]: "ip_layers (ethernet_layer s d t @ ls) = ip_layers ls"
  by (auto simp: ip_layers_def ethernet_layer_def split: option.splits)

lemmas writer_defs = UDPWriter_WriteCraftedPacket_def UDPWriter_createIPv4Layers_def
  UDPWriter_createIPv6Layers_def TCPWriter_WriteCraftedPacket_def TCPWriter_createIPv4Layers_def
  TCPWriter_createIPv6Layers_def Let_def

lemma ip_layers_pair [simp]:
  "ip_layers [IPv4 a b c d e, TCP f g h i j k l] = [IPv4 a b c d e]"
  "ip_layers [IPv6 a b c d e, TCP f g h i j k l] = [IPv6 a b c d e]"
  "ip_layers [IPv4 a b c d e, UDP f g] = [IPv4 a b c d e]"
  "ip_layers [IPv6 a b c d e, UDP f g] = [IPv6 a b c d e]"
  by (simp_all add: ip_layers_def)

lemma layers_after_ethernet:
  assumes "ip_layers ls = ips"
  shows "\<exists>front. inject_layers ij p (Inr (ethernet_layer s d t @ ls)) w = inject_layers ij p (Inr front) w \<and>
    ip_layers front = ips"
  using assms by (intro exI [of _ "ethernet_layer s d t @ ls"]) simp

text \<open>A UDP decoy is injected with exactly one network header, of the destination's address
  family, carrying the given source, destination and TTL.\<close>

theorem udp_decoy_addressing:
  assumes "\<forall>l m. checksum_layer ij l m = None"
  shows "\<exists>front. UDPWriter_WriteCraftedPacket ij rt (UDPAddr srcIP sp) (UDPAddr dstIP dp) ttl payload w =
      inject_layers ij payload (Inr front) w \<and>
    ip_layers front = [if To4 dstIP \<noteq> None then IPv4 4 ttl IPProtocolUDP srcIP dstIP
      else IPv6 6 ttl IPProtocolUDP srcIP dstIP]"
  using assms
  by (cases "To4 dstIP") (auto simp: writer_defs intro!: layers_after_ethernet)

definition quiet_injector :: "(unit, bytes list) injector" where
  "quiet_injector = \<lparr>checksum_layer = (\<lambda>_ _. None), serialize = (\<lambda>ls. Inr (concat (map (\<lambda>l. case l of
     Payload b \<Rightarrow> b | _ \<Rightarrow> []) ls))), write_packet = (\<lambda>b w. (None, w @ [b]))\<rparr>"

definition no_macs :: mac_route where
  "no_macs = \<lparr>iface_mac = None, gateway_mac = None\<rparr>"

theorem udp_decoy_addressing_witness:
  "\<exists>front. UDPWriter_WriteCraftedPacket quiet_injector no_macs (UDPAddr [10, 0, 0, 1] 5000)
      (UDPAddr [8, 8, 8, 8] 53) 7 [1, 2] [] = inject_layers quiet_injector [1, 2] (Inr front) [] \<and>
    ip_layers front = [IPv4 4 7 IPProtocolUDP [10, 0, 0, 1] [8, 8, 8, 8]]"
  using udp_decoy_addressing [of quiet_injector no_macs "[10, 0, 0, 1]" 5000 "[8, 8, 8, 8]" 53 7 "[1, 2]" "[]"]
  by (simp add: quiet_injector_def To4_def)

text \<open>A TCP decoy to an IPv4 server is addressed to that server, but one to an IPv6 server is
  addressed to the sender itself, whatever the destination.\<close>

theorem tcp_decoy_addressing:
  assumes "\<forall>l m. checksum_layer ij l m = None"
  shows "\<exists>front. TCPWriter_WriteCraftedPacket ij rt sq ak (TCPAddr srcIP sp) (TCPAddr dstIP dp) ttl payload w =
      inject_layers ij payload (Inr front) w \<and>
    ip_layers front = [if To4 dstIP \<noteq> None then IPv4 4 ttl IPProtocolTCP srcIP dstIP
      else IPv6 6 ttl IPProtocolTCP srcIP srcIP]"
  using assms
  by (cases "To4 dstIP") (auto simp: writer_defs intro!: layers_after_ethernet)

theorem tcp_decoy_addressing_witness:
  "\<exists>front. TCPWriter_WriteCraftedPacket quiet_injector no_macs 1 2 (TCPAddr (replicate 15 0 @ [1]) 5000)
      (TCPAddr (replicate 15 1 @ [2]) 443) 7 [1, 2] [] = inject_layers quiet_injector [1, 2] (Inr front) [] \<and>
    ip_layers front = [IPv6 6 7 IPProtocolTCP (replicate 15 0 @ [1]) (replicate 15 0 @ [1])]"
  using tcp_decoy_addressing [of quiet_injector no_macs 1 2 "replicate 15 0 @ [1]" 5000 "replicate 15 1 @ [2]"
      443 7 "[1, 2]" "[]"]
  by (simp add: quiet_injector_def To4_def v4InV6Prefix_def numeral_eq_Suc)

end
