(* ===== verification/Spec2Isabelle.thy ===== *)
theory Spec2Isabelle
  imports Nd_Router Nd_Filters Dc_Transport Tun_Server Socks_Relay Dc_Sources Dc_Dns64 Wp_Serve Wp_Config Go_Encoding Dc_Clients Dc_Exchange Dc_Routes Dc_Balance Dc_Udp_Pool Dc_Certs Dc_Crypto Dc_Reload Dc_Forward Domain_Trie Dc_Ip_Rules Dc_Cache Dc_Cloak Ttl_Cache Tls_Desync Packet_Sniffer Packet_Writer Addr_Select Socks5 Config_Load Proxy_Handlers
begin

text \<open>
  \<^bold>\<open>A verification library for proksitool.\<close> The repository holds a local proxy that defeats traffic inspection
  (\<open>src/pkg/spoofdpi\<close>), an encrypting DNS proxy (\<open>src/pkg/dnscrypt\<close>), a packet-driver binding
  (\<open>src/pkg/ndisapi\<close>), WireGuard helpers (\<open>src/pkg/wireproxy\<close>, \<open>src/pkg/wgcf\<close>) and a front end that starts them
  (\<open>src/cmd\<close>). The library models the Go code of the first two, of the WireGuard proxy and of the packet router and its filter
  table: every definition is a translation of the function of the same name, executable where the code is, and every
  error return, early return and run-time panic is a branch of it.

  \<^bold>\<open>How the parts work together.\<close> A client connects to the HTTP or SOCKS5 server (\<open>Socks5\<close>, \<open>Net_Util\<close>,
  \<open>Proxy_Handlers\<close>); its request names a host. The host is resolved (\<open>Dns_Client\<close>, with the \<open>Ttl_Cache\<close> and the address
  ranking of \<open>Addr_Select\<close>), the rules are searched by name and by address (\<open>Rule_Set\<close> over \<open>Domain_Trie\<close> and
  \<open>Cidr_Trie\<close>), the winning rule selects the configuration, and the handler dials the destination. The first TLS message
  of the client is read (\<open>Tls_Message\<close>) and sent in pieces, with decoys in front of it (\<open>Tls_Desync\<close>,
  \<open>Packet_Writer\<close>) whose hop count the sniffers have learned (\<open>Packet_Sniffer\<close>, \<open>Lru_Cache\<close>). UDP flows live in
  \<open>Conn_Registry\<close>, which \<open>Socks_Relay\<close> uses; \<open>Tun_Server\<close> runs the same handlers behind a virtual network device.
  \<open>Config_Parse\<close> and \<open>Config_Load\<close> turn a TOML file and flags into the configuration of \<open>Config_Types\<close>.

  The DNS proxy admits a client (\<open>Dc_Clients\<close>), reads its packet and runs the query plugins (\<open>Dc_Plugins\<close> over \<open>Dc_Message\<close>,
  \<open>Dc_Pattern\<close>, \<open>Dc_Time\<close>, with \<open>Dc_Cloak\<close>, \<open>Dc_Cache\<close>, \<open>Dc_Forward\<close> and \<open>Dc_Dns64\<close>); what they do not answer is sent to a server
  (\<open>Dc_Exchange\<close>) that \<open>Dc_Balance\<close> picks, encrypted (\<open>Dc_Crypto\<close>, with certificates from \<open>Dc_Certs\<close>), over pooled sockets
  (\<open>Dc_Udp_Pool\<close>), through a relay where one is configured (\<open>Dc_Routes\<close>), and the answer passes the response plugins
  (\<open>Dc_Ip_Rules\<close> among them). Servers come from signed lists (\<open>Dc_Sources\<close>); \<open>Dc_Transport\<close> resolves the names of web servers;
  \<open>Dc_Reload\<close> exchanges the rules while queries run. \<open>Wp_Config\<close> and \<open>Wp_Serve\<close> are the WireGuard proxy: its configuration, and the
  services in front of the tunnel. \<open>Nd_Filters\<close> and \<open>Nd_Router\<close> are the packet router of the driver binding: filters in the
  driver's table, and packets rewritten so that chosen programs connect through a local proxy.

  \<^bold>\<open>Theories, sources and what is shown.\<close>
  \<^item> \<open>Go_Prelude\<close>, \<open>Go_Strings\<close>, \<open>Go_Net\<close>, \<open>Ip_Keys\<close>: Go's integers, slices and panics, the functions of \<open>strings\<close>,
    \<open>strconv\<close>, \<open>net\<close> and \<open>net/netip\<close> the code calls, and \<open>netutil/key.go\<close>. Address texts round-trip.
  \<^item> \<open>Go_Encoding\<close>, \<open>Go_Float\<close>: base64, hexadecimal and prefix texts of the standard library; \<open>float64\<close> arithmetic with its
    rounding, its infinities and the number that is none.
  \<^item> \<open>Domain_Trie\<close> (\<open>trie/domain.go\<close>): the search finds a value exactly when some pattern matches; which matching pattern
    wins, and that a globstar hides more specific patterns that go through it.
  \<^item> \<open>Cidr_Trie\<close> (\<open>trie/cidr.go\<close>): the trie is a longest-prefix table, given the documented behaviour of the patricia
    trees it stores them in.
  \<^item> \<open>Rule_Set\<close> (\<open>rule/set.go\<close>, \<open>rule/query.go\<close>): the rule found for a name, the clashes that are refused. The locale
    \<open>rule_store\<close> states what a trie owes the rule set and is interpreted on the domain trie.
  \<^item> \<open>Cache_Interface\<close>, \<open>Lru_Cache\<close>, \<open>Ttl_Cache\<close> (\<open>cache/\<close>): the locale of the cache contract, both implementations as
    interpretations of it, the recency-list refinement of the LRU shards, every entry accounted for.
  \<^item> \<open>Tls_Message\<close> (\<open>proto/tls.go\<close>): reading a record, locating the server name, safely on any bytes and correctly on
    every well-formed ClientHello.
  \<^item> \<open>Tls_Desync\<close> (\<open>desync/\<close>): the segments reassemble to the message and are the cuts the mode asks for, or the
    whole message where it cannot be applied; exactly when splitting panics.
  \<^item> \<open>Packet_Sniffer\<close>, \<open>Packet_Writer\<close> (\<open>packet/\<close>): hop counts from observed packets, the BPF programs, decoy layers.
  \<^item> \<open>Addr_Select\<close> (\<open>dns/addrselect\<close>): the RFC 6724 order. \<open>Dns_Client\<close> (\<open>dns/\<close>): every answer of every lookup is
    used, cached answers are never served past their time.
  \<^item> \<open>Socks5\<close> (\<open>proto/socks5.go\<close>, \<open>server/socks5\<close>): exactly the RFC 1928 requests are accepted, UDP headers round-trip.
  \<^item> \<open>Config_Types\<close>, \<open>Config_Parse\<close>, \<open>Config_Load\<close> (\<open>config/\<close>): loading never panics; what a loaded configuration
    satisfies; how rules inherit from the base configuration.
  \<^item> \<open>Conn_Registry\<close> (\<open>netutil/conn_registry.go\<close>, \<open>conn.go\<close>): a step relation over the operations; a connection that
    can be fetched has never been closed, every other one has, and how often.
  \<^item> \<open>Net_Util\<close>, \<open>Proxy_Handlers\<close> (\<open>netutil/\<close>, \<open>proto/http.go\<close>, \<open>server/\<close>): the racing dialer always answers; handlers as
    traces of effects: a proxied stream is transparent, blocked and self destinations are never dialed over SOCKS5.
  \<^item> \<open>Socks_Relay\<close> (\<open>server/socks5/handler_bind.go\<close>, \<open>handler_udp_assoc.go\<close>), \<open>Tun_Server\<close> (\<open>server/tun\<close>): datagrams of different
    senders and destinations are never mixed up; a connection through the device is transparent.
  \<^item> \<open>Dc_Common\<close>, \<open>Dc_Time\<close>, \<open>Dc_Pattern\<close>, \<open>Dc_Message\<close> (\<open>dnscrypt/common.go\<close>, \<open>time_ranges.go\<close>, \<open>pattern_matcher.go\<close>,
    \<open>dnsutils.go\<close>): rule-file text, schedules, the pattern matcher against the meaning of its patterns, checks of responses.
  \<^item> \<open>Dc_Plugins\<close>, \<open>Dc_Ip_Rules\<close>, \<open>Dc_Cache\<close>, \<open>Dc_Cloak\<close>, \<open>Dc_Forward\<close>, \<open>Dc_Dns64\<close> (\<open>plugins.go\<close>, \<open>plugin_*.go\<close>): the two pipelines and the
    plugins; the allow list overrides the block list, cached answers are fresh, chains of cloaked names end when
    their targets carry no trailing dot, discovered prefixes and synthesised addresses are right, and no plugin
    changes the identifier or the question of a query.
  \<^item> \<open>Dc_Reload\<close> (\<open>reload_utils.go\<close>, \<open>config_watcher.go\<close>, \<open>hot_reload.go\<close>): the rules in force are those of the last stable text.
    One locale carries the six plugins with a rule file.
  \<^item> \<open>Dc_Crypto\<close>, \<open>Dc_Certs\<close> (\<open>crypto.go\<close>, \<open>pq.go\<close>, \<open>estimators.go\<close>, \<open>dnscrypt_certs.go\<close>): the server recovers the query, exactly
    which packets are accepted, which ticket a resumed query uses, which certificate is chosen.
  \<^item> \<open>Dc_Udp_Pool\<close>, \<open>Dc_Balance\<close>, \<open>Dc_Routes\<close> (\<open>udp_conn_pool.go\<close>, \<open>serversInfo.go\<close>): the pool under interleaving, choice of servers and
    of relays, what is learned of a server.
  \<^item> \<open>Dc_Exchange\<close>, \<open>Dc_Clients\<close> (\<open>query_processing.go\<close>, \<open>proxy.go\<close>): one query from packet to answer as a trace of events
    beside the plugins' shared world; a blocked name leaves both the network and that world alone, what a client is sent
    answers its query, relayed servers are reached only through their relay; the counter of clients is exact under
    interleaving, and the timeout under load stays within its bounds in \<open>float64\<close>.
  \<^item> \<open>Dc_Sources\<close>, \<open>Dc_Transport\<close> (\<open>sources.go\<close>, \<open>xtransport.go\<close>): only signed lists are used, lists read back, refreshes
    are scheduled; when the system resolver is asked.
  \<^item> \<open>Wp_Config\<close>, \<open>Wp_Serve\<close> (\<open>wireproxy/config.go\<close>, \<open>wireguard.go\<close>, \<open>http.go\<close>, \<open>routine.go\<close>, \<open>udp_proxy.go\<close>): what an accepted configuration
    satisfies and that the device is told exactly it; the HTTP proxy asks for its credentials, the metrics hide private
    keys, and UDP sessions of different clients are kept apart under every interleaving of their goroutines.
  \<^item> \<open>Nd_Filters\<close>, \<open>Nd_Router\<close> (\<open>ndisapi-go/driver/static_filters.go\<close>, \<open>ndisapi_static.go\<close>, \<open>socks_local_router.go\<close>,
    \<open>transparent_proxy.go\<close>, \<open>netlib/process_lookup.go\<close>): which operations keep the driver's table in step with the list and which do
    not; redirected connections are transparent unless an older mapping stands in their way; the owner of a port.

  \<^bold>\<open>Parameters.\<close> What is not code of the repository is an argument: random draws, the clock, the order in which Go
  visits a map or sorts equal elements, sockets (as the bytes they deliver), results of dials and DNS exchanges, interface
  addresses, the patricia, critical-bit and radix trees, the SIEVE cache, ciphers, hashes and signatures, the DNS wire
  format, packet serialisation, the TOML and INI decoders, the file system, the environment. Where a theorem
  needs their documented behaviour it says so in a hypothesis, and a witness instantiates them.

  \<^bold>\<open>Bounds.\<close> Recursions end by structure or by a measure; the BPF interpreter takes as many steps as the program has
  instructions, enough because jumps only go forward. Machine integers keep their width where the code can
  overflow. The compare-and-swap loops and the loops over goroutines are step relations, so no bound is set on retries.
  The latency scores of \<open>Dc_Balance\<close> are rationals.

  \<^bold>\<open>Not modelled.\<close> Logging, terminal user interface, web monitoring, operating-system bindings (raw sockets, routes,
  TUN devices, service control), the requests to the packet driver, oblivious DoH encryption, the copying of
  \<open>dnscrypt\<close>'s configuration file, start-up and \<open>wgcf\<close>: they only call the system or third-party libraries, print, or
  copy fields; the framing of oblivious DoH wraps the HPKE library. Where a mutex makes an operation atomic it is one step, and interleavings are sequences of steps; operations that take
  a lock more than once (closing and expiring connections, \<open>TTLCache.Get\<close>, the pool of sockets, the sessions of the UDP
  proxy) are one step per critical section.
\<close>

end
